(* ===== verification/Omni_Prelude.thy ===== *)
theory Omni_Prelude
  imports Main "HOL-Library.List_Lexorder" "HOL-Library.Char_ord" "HOL-Library.Sublist"
    "HOL-Library.Multiset"
begin

text \<open>
  Shared vocabulary of the development: the collections of rewrite rules the component
  theories add to, Rust strings and the few \<open>str\<close> operations the sources use, decimal
  rendering, and \<open>BTreeMap\<close> as a strictly sorted association list with the contract every
  client of a map relies on.

  A Rust \<open>String\<close> is its UTF-8 bytes, a \<open>char list\<close>. Operations that Rust defines on
  Unicode scalar values (\<open>trim\<close>, \<open>to_lowercase\<close>, \<open>is_alphanumeric\<close>) are modelled on the
  ASCII range; a byte from 128 up counts as part of a word and is never white space.
\<close>

named_theorems frame_simps \<open>what an operation leaves alone\<close>
named_theorems io_simps \<open>equations of the file-system steps\<close>

type_synonym bytes = "char list"
type_synonym 'a res = "string + 'a"

section \<open>Strings\<close>

definition newline :: char where
  "newline = CHR 0x0A"

definition is_ws :: "char \<Rightarrow> bool" where
  "is_ws c \<longleftrightarrow> c \<in> {CHR '' '', CHR 0x09, CHR 0x0A, CHR 0x0B, CHR 0x0C, CHR 0x0D}"

definition trim :: "string \<Rightarrow> string" where
  "trim s = rev (dropWhile is_ws (rev (dropWhile is_ws s)))"

definition to_lower_char :: "char \<Rightarrow> char" where
  "to_lower_char c = (if CHR ''A'' \<le> c \<and> c \<le> CHR ''Z'' then char_of (of_char c + (32::nat)) else c)"

definition to_lower :: "string \<Rightarrow> string" where
  "to_lower s = map to_lower_char s"

definition to_upper_char :: "char \<Rightarrow> char" where
  "to_upper_char c = (if CHR ''a'' \<le> c \<and> c \<le> CHR ''z'' then char_of (of_char c - (32::nat)) else c)"

definition to_upper :: "string \<Rightarrow> string" where
  "to_upper s = map to_upper_char s"

definition is_alnum :: "char \<Rightarrow> bool" where
  "is_alnum c \<longleftrightarrow> (CHR ''0'' \<le> c \<and> c \<le> CHR ''9'') \<or> (CHR ''A'' \<le> c \<and> c \<le> CHR ''Z'')
     \<or> (CHR ''a'' \<le> c \<and> c \<le> CHR ''z'') \<or> (128::nat) \<le> of_char c"

text \<open>\<open>chars().count()\<close>: every byte but the continuation bytes of a multi-byte scalar.\<close>

definition chars_count :: "string \<Rightarrow> nat" where
  "chars_count s = length (filter (\<lambda>c. \<not> ((128::nat) \<le> of_char c \<and> of_char c < (192::nat))) s)"

text \<open>\<open>[..].join(sep)\<close>.\<close>

fun join :: "string \<Rightarrow> string list \<Rightarrow> string" where
  "join sep [] = []"
| "join sep [x] = x"
| "join sep (x # y # xs) = x @ sep @ join sep (y # xs)"

text \<open>\<open>split(|c| !c.is_alphanumeric()).filter(|w| !w.is_empty())\<close>: the maximal runs.\<close>

function words_of :: "string \<Rightarrow> string list" where
  "words_of s =
     (case dropWhile (\<lambda>c. \<not> is_alnum c) s of
        [] \<Rightarrow> []
      | c # cs \<Rightarrow> takeWhile is_alnum (c # cs) # words_of (dropWhile is_alnum (c # cs)))"
  by pat_completeness auto
termination
proof (relation "measure length")
  fix s c cs assume d: "dropWhile (\<lambda>c. \<not> is_alnum c) s = c # cs"
  then have "is_alnum c" using dropWhile_eq_Cons_conv[of "\<lambda>c. \<not> is_alnum c" s] by simp
  then have "length (dropWhile is_alnum (c # cs)) \<le> length cs"
    by (simp add: length_dropWhile_le)
  moreover have "length (c # cs) \<le> length s"
    using d length_dropWhile_le[of "\<lambda>c. \<not> is_alnum c" s] by simp
  ultimately show "(dropWhile is_alnum (c # cs), s) \<in> measure length" by simp
qed simp

declare words_of.simps [simp del]

fun show_nat :: "nat \<Rightarrow> string" where
  "show_nat n = (if n < 10 then [char_of (48 + n)] else show_nat (n div 10) @ [char_of (48 + n mod 10)])"

declare show_nat.simps [simp del]

definition show_int :: "int \<Rightarrow> string" where
  "show_int i = (if i < 0 then CHR ''-'' # show_nat (nat (- i)) else show_nat (nat i))"

text \<open>A name quoted in a message; the session ids the daemon admits hold nothing that would be escaped.\<close>

definition quoted :: "string \<Rightarrow> string" where
  "quoted s = CHR 0x22 # s @ [CHR 0x22]"

definition i64_min :: int where "i64_min = - (2 ^ 63)"
definition i64_max :: int where "i64_max = 2 ^ 63 - 1"
definition u64_max :: int where "u64_max = 2 ^ 64 - 1"

definition fits_i64 :: "int \<Rightarrow> bool" where
  "fits_i64 n \<longleftrightarrow> i64_min \<le> n \<and> n \<le> i64_max"

section \<open>Ordered maps\<close>

text \<open>
  \<open>BTreeMap\<close> and \<open>serde_json::Map\<close> (which is one): a list of pairs whose keys are strictly
  increasing. Two maps are equal exactly when their lists are.
\<close>

fun bt_insert :: "'k::linorder \<Rightarrow> 'v \<Rightarrow> ('k \<times> 'v) list \<Rightarrow> ('k \<times> 'v) list" where
  "bt_insert k v [] = [(k, v)]"
| "bt_insert k v (p # m) =
     (if fst p < k then p # bt_insert k v m
      else if fst p = k then (k, v) # m
      else (k, v) # p # m)"

definition bt_remove :: "'k \<Rightarrow> ('k \<times> 'v) list \<Rightarrow> ('k \<times> 'v) list" where
  "bt_remove k m = filter (\<lambda>p. fst p \<noteq> k) m"

definition bt_get :: "('k \<times> 'v) list \<Rightarrow> 'k \<Rightarrow> 'v option" where
  "bt_get m k = map_of m k"

definition bt_wf :: "('k::linorder \<times> 'v) list \<Rightarrow> bool" where
  "bt_wf m \<longleftrightarrow> sorted_wrt (<) (map fst m)"

text \<open>\<open>entry(k).or_insert(v)\<close>.\<close>

definition bt_or_insert :: "'k::linorder \<Rightarrow> 'v \<Rightarrow> ('k \<times> 'v) list \<Rightarrow> ('k \<times> 'v) list" where
  "bt_or_insert k v m = (if bt_get m k = None then bt_insert k v m else m)"

text \<open>A \<open>BTreeSet\<close> is its increasing list of elements.\<close>

definition bs_insert :: "'k::linorder \<Rightarrow> 'k list \<Rightarrow> 'k list" where
  "bs_insert x xs = (if x \<in> set xs then xs else insort x xs)"

lemma bt_get_empty [simp]: "bt_get [] k = None"
  by (simp add: bt_get_def)

lemma bt_get_insert [simp]:
  "bt_get (bt_insert k v m) k' = (if k' = k then Some v else bt_get m k')"
  by (induction m) (auto simp: bt_get_def)

lemma bt_get_remove [simp]:
  "bt_get (bt_remove k m) k' = (if k' = k then None else bt_get m k')"
  by (induction m) (auto simp: bt_get_def bt_remove_def)

lemma bt_get_or_insert [simp]:
  "bt_get (bt_or_insert k v m) k' =
     (if k' = k \<and> bt_get m k = None then Some v else bt_get m k')"
  by (auto simp: bt_or_insert_def)

lemma fst_bt_insert: "set (map fst (bt_insert k v m)) = insert k (set (map fst m))"
  by (induction m) auto

lemma bt_wf_Nil [simp]: "bt_wf []"
  by (simp add: bt_wf_def)

lemma bt_wf_Cons: "bt_wf (p # m) \<longleftrightarrow> (\<forall>q \<in> set m. fst p < fst q) \<and> bt_wf m"
  by (auto simp: bt_wf_def)

lemma bt_wf_insert [simp]: "bt_wf m \<Longrightarrow> bt_wf (bt_insert k v m)"
proof (induction m)
  case Nil
  then show ?case by (simp add: bt_wf_def)
next
  case (Cons p m)
  have keys: "\<And>q. q \<in> set (bt_insert k v m) \<Longrightarrow> fst q = k \<or> fst q \<in> fst ` set m"
    using fst_bt_insert[of k v m] by force
  show ?case
  proof (cases "fst p < k")
    case True
    with Cons keys show ?thesis by (fastforce simp: bt_wf_Cons)
  next
    case False
    with Cons.prems show ?thesis by (auto simp: bt_wf_Cons)
  qed
qed

lemma bt_wf_remove [simp]: "bt_wf m \<Longrightarrow> bt_wf (bt_remove k m)"
  by (induction m) (auto simp: bt_wf_Cons bt_remove_def)

lemma bt_insert_id: "bt_wf m \<Longrightarrow> bt_get m k = Some v \<Longrightarrow> bt_insert k v m = m"
proof (induction m)
  case Nil
  then show ?case by (simp add: bt_get_def)
next
  case (Cons p m)
  show ?case
  proof (cases "fst p = k")
    case True
    with Cons.prems show ?thesis by (cases p) (simp add: bt_get_def)
  next
    case False
    with Cons.prems have "bt_get m k = Some v" by (cases p) (simp add: bt_get_def)
    moreover from this have "(k, v) \<in> set m" by (simp add: bt_get_def map_of_SomeD)
    ultimately show ?thesis using Cons by (auto simp: bt_wf_Cons)
  qed
qed

declare bt_insert.simps [simp del]

text \<open>The contract of a map, as its clients (metadata, caches, event extras) use it.\<close>

locale ordered_map =
  fixes get :: "'m \<Rightarrow> 'k \<Rightarrow> 'v option"
    and insert_at :: "'k \<Rightarrow> 'v \<Rightarrow> 'm \<Rightarrow> 'm"
    and remove_at :: "'k \<Rightarrow> 'm \<Rightarrow> 'm"
    and wf :: "'m \<Rightarrow> bool"
  assumes get_insert: "get (insert_at k v m) k' = (if k' = k then Some v else get m k')"
    and get_remove: "get (remove_at k m) k' = (if k' = k then None else get m k')"
    and wf_insert: "wf m \<Longrightarrow> wf (insert_at k v m)"
    and wf_remove: "wf m \<Longrightarrow> wf (remove_at k m)"
    and insert_same: "wf m \<Longrightarrow> get m k = Some v \<Longrightarrow> insert_at k v m = m"
begin

lemma insert_twice: "wf m \<Longrightarrow> insert_at k v (insert_at k v m) = insert_at k v m"
  by (simp add: insert_same get_insert wf_insert)

lemma get_insert_remove: "get (remove_at k (insert_at k v m)) = get (remove_at k m)"
  by (rule ext) (simp add: get_insert get_remove)

lemma get_insert_swap:
  "k \<noteq> k' \<Longrightarrow> get (insert_at k v (insert_at k' v' m)) = get (insert_at k' v' (insert_at k v m))"
  by (rule ext) (simp add: get_insert)

end

interpretation bt: ordered_map bt_get bt_insert bt_remove bt_wf
  by unfold_locales (auto simp: bt_insert_id)

section \<open>Shared list facts\<close>

lemma takeWhile_dropWhile_last:
  "xs \<noteq> [] \<Longrightarrow> \<not> P (last xs) \<Longrightarrow> takeWhile P (rev xs) = []"
  by (cases xs rule: rev_cases) auto

lemma sorted_wrt_upt_int: "sorted_wrt (<) (map int [m..<n])"
  by (simp add: sorted_wrt_map)

lemma prefix_snocI: "prefix xs ys \<Longrightarrow> prefix xs (ys @ [y])"
  by (auto simp: prefix_def)

lemma filter_distinct_remove1:
  "distinct (map f xs) \<Longrightarrow> x \<in> set xs \<Longrightarrow> filter (\<lambda>y. f y \<noteq> f x) xs = remove1 x xs"
proof (induction xs)
  case Nil
  then show ?case by simp
next
  case (Cons a xs)
  show ?case
  proof (cases "a = x")
    case True
    with Cons.prems have "f x \<notin> f ` set xs" by simp
    then have "\<forall>y \<in> set xs. f y \<noteq> f x" by (metis image_eqI)
    with True show ?thesis by simp
  next
    case False
    with Cons.prems have "x \<in> set xs" and "distinct (map f xs)" and "f a \<noteq> f x" by auto
    with False Cons.IH show ?thesis by simp
  qed
qed

end
