(* ===== verification/Json_Value.thy ===== *)
theory Json_Value
  imports Complex_Main Omni_Prelude
begin

text \<open>
  JSON values as the sources use them (\<open>serde_json::Value\<close>: an object is an ordered map, a
  number an integer or a float), the accessors they call, and the text codec. The codec itself
  is third-party code and stays a parameter: the record \<open>codec\<close> of its three entry points.
  What the sources rely on is named below (\<open>reads_back\<close>, \<open>torn_unreadable\<close>) and appears as a
  hypothesis wherever a theorem needs it.
\<close>

datatype json =
    JNull
  | JBool bool
  | JInt int
  | JFloat rat
  | JString string
  | JArray "json list"
  | JObject "(string \<times> json) list"

type_synonym jmap = "(string \<times> json) list"

fun as_str :: "json \<Rightarrow> string option" where
  "as_str (JString s) = Some s"
| "as_str _ = None"

fun as_i64 :: "json \<Rightarrow> int option" where
  "as_i64 (JInt n) = (if fits_i64 n then Some n else None)"
| "as_i64 _ = None"

fun as_u64 :: "json \<Rightarrow> int option" where
  "as_u64 (JInt n) = (if 0 \<le> n \<and> n \<le> u64_max then Some n else None)"
| "as_u64 _ = None"

fun as_f64 :: "json \<Rightarrow> rat option" where
  "as_f64 (JInt n) = Some (of_int n)"
| "as_f64 (JFloat r) = Some r"
| "as_f64 _ = None"

fun as_bool :: "json \<Rightarrow> bool option" where
  "as_bool (JBool b) = Some b"
| "as_bool _ = None"

fun as_array :: "json \<Rightarrow> json list option" where
  "as_array (JArray xs) = Some xs"
| "as_array _ = None"

fun as_object :: "json \<Rightarrow> jmap option" where
  "as_object (JObject m) = Some m"
| "as_object _ = None"

definition is_null :: "json \<Rightarrow> bool" where
  "is_null v \<longleftrightarrow> v = JNull"

definition is_string :: "json \<Rightarrow> bool" where
  "is_string v \<longleftrightarrow> as_str v \<noteq> None"

text \<open>\<open>Value::get(key)\<close>, and \<open>value[key]\<close>, which reads a missing key as null.\<close>

definition jget :: "json \<Rightarrow> string \<Rightarrow> json option" where
  "jget v k = (case v of JObject m \<Rightarrow> bt_get m k | _ \<Rightarrow> None)"

definition jindex :: "json \<Rightarrow> string \<Rightarrow> json" where
  "jindex v k = (case jget v k of Some x \<Rightarrow> x | None \<Rightarrow> JNull)"

text \<open>\<open>map.get(key).and_then(Value::as_bool)\<close> and its siblings, on a bare map.\<close>

definition get_bool :: "jmap \<Rightarrow> string \<Rightarrow> bool option" where
  "get_bool m k = Option.bind (bt_get m k) as_bool"

definition get_str :: "jmap \<Rightarrow> string \<Rightarrow> string option" where
  "get_str m k = Option.bind (bt_get m k) as_str"

definition get_u64 :: "jmap \<Rightarrow> string \<Rightarrow> int option" where
  "get_u64 m k = Option.bind (bt_get m k) as_u64"

text \<open>Reading a whole array of strings, as \<open>from_value::<Vec<String>>\<close> does.\<close>

fun strings_of :: "json list \<Rightarrow> string list option" where
  "strings_of [] = Some []"
| "strings_of (v # vs) =
     (case (as_str v, strings_of vs) of (Some s, Some ss) \<Rightarrow> Some (s # ss) | _ \<Rightarrow> None)"

lemma strings_of_map [simp]: "strings_of (map JString ss) = Some ss"
  by (induction ss) auto

lemma jget_object [simp]: "jget (JObject m) k = bt_get m k"
  by (simp add: jget_def)

section \<open>The text codec\<close>

record codec =
  from_slice :: "bytes \<Rightarrow> json res"
  to_text :: "json \<Rightarrow> string"
  to_pretty :: "json \<Rightarrow> string"

text \<open>
  Documented behaviour of the codec on one value: compact output holds no newline, is not empty,
  and reads back as that value, also with the white space of a line ending after it.
\<close>

definition reads_back :: "codec \<Rightarrow> json \<Rightarrow> bool" where
  "reads_back J v \<longleftrightarrow> from_slice J (to_text J v) = Inr v
     \<and> from_slice J (to_text J v @ [newline]) = Inr v
     \<and> newline \<notin> set (to_text J v) \<and> to_text J v \<noteq> []"

text \<open>An object cut short is not a JSON text: its closing brace comes last.\<close>

definition torn_unreadable :: "codec \<Rightarrow> json \<Rightarrow> bool" where
  "torn_unreadable J v \<longleftrightarrow> (\<forall>n < length (to_text J v). \<exists>e. from_slice J (take n (to_text J v)) = Inl e)"

definition pretty_reads_back :: "codec \<Rightarrow> json \<Rightarrow> bool" where
  "pretty_reads_back J v \<longleftrightarrow> from_slice J (to_pretty J v) = Inr v"

text \<open>
  A small concrete codec for evaluating examples: it prints integers from 0 up in unary between
  brackets and every other value as the empty object.
\<close>

definition toy_text :: "json \<Rightarrow> string" where
  "toy_text v = (case v of JInt n \<Rightarrow> ''['' @ replicate (nat n) CHR ''1'' @ '']'' | _ \<Rightarrow> ''{}'')"

definition toy_read :: "bytes \<Rightarrow> json res" where
  "toy_read bs =
     (let body = filter (\<lambda>c. c \<noteq> newline) bs in
      if body = ''{}'' then Inr (JObject [])
      else if body \<noteq> [] \<and> hd body = CHR ''['' \<and> last body = CHR '']''
              \<and> set (butlast (tl body)) \<subseteq> {CHR ''1''} \<and> 2 \<le> length body
        then Inr (JInt (int (length body - 2)))
      else Inl ''expected value'')"

definition toy_codec :: codec where
  "toy_codec = \<lparr>from_slice = toy_read, to_text = toy_text, to_pretty = toy_text\<rparr>"

end
