(* ===== verification/File_System.thy ===== *)
theory File_System
  imports Complex_Main Omni_Prelude
begin

text \<open>
  What the sources use of \<open>std::fs\<close>, the clock and the random source. A world is the files, a
  count of the I/O steps so far, and what the outside will do: which step fails and with what
  error, how many bytes of a failing write still reach the file, what the clock reads at a step,
  which identifiers are drawn and this process's id, what the wall clock and the monotonic clock
  count, what a URL answers, what a command prints and the environment; and the two process-wide
  memos (\<open>static MODELS\<close>, \<open>static MEMO\<close>). Every theorem holds for all worlds, hence for every schedule
  of failures and every reading. A file keeps its contents, the contents that survived the last
  sync, and its permission bits. Directories are only where a step may fail: the durability of a
  directory entry is not modelled.
\<close>

record fs_file =
  content :: bytes
  durable :: bytes
  fmode :: nat

record world =
  files :: "string \<Rightarrow> fs_file option"
  tick :: nat
  fault :: "nat \<Rightarrow> string option"
  torn :: "nat \<Rightarrow> nat"
  stamp :: "nat \<Rightarrow> string"
  uuid :: "nat \<Rightarrow> string"
  drawn :: nat
  pid :: string
  seconds :: "nat \<Rightarrow> rat"
  monotonic :: "nat \<Rightarrow> rat"
  network :: "nat \<Rightarrow> string \<Rightarrow> bytes option"
  command :: "nat \<Rightarrow> string list \<Rightarrow> (int \<times> string) option"
  env_var :: "string \<Rightarrow> string option"
  models_memo :: "(rat \<times> string list) option"
  auth_memo :: "(string \<times> string \<times> rat) list option"

type_synonym 'a io = "world \<Rightarrow> world \<times> 'a res"

definition io_return :: "'a \<Rightarrow> 'a io" where
  "io_return x w = (w, Inr x)"

definition io_bind :: "'a io \<Rightarrow> ('a \<Rightarrow> 'b io) \<Rightarrow> 'b io" where
  "io_bind m f w = (case m w of (w', Inl e) \<Rightarrow> (w', Inl e) | (w', Inr x) \<Rightarrow> f x w')"

text \<open>One step of the operating system: it fails as the world says, or has its effect.\<close>

definition tick_on :: "world \<Rightarrow> world" where
  "tick_on w = w\<lparr>tick := Suc (tick w)\<rparr>"

definition io_step :: "(world \<Rightarrow> world) \<Rightarrow> unit io" where
  "io_step eff w =
     (case fault w (tick w) of Some e \<Rightarrow> (tick_on w, Inl e) | None \<Rightarrow> (eff (tick_on w), Inr ()))"

definition put_file :: "string \<Rightarrow> fs_file option \<Rightarrow> world \<Rightarrow> world" where
  "put_file p f w = w\<lparr>files := (files w)(p := f)\<rparr>"

definition on_file :: "string \<Rightarrow> (fs_file \<Rightarrow> fs_file) \<Rightarrow> world \<Rightarrow> world" where
  "on_file p g w = put_file p (map_option g (files w p)) w"

definition private_mode :: nat where
  "private_mode = 384"  \<comment> \<open>0o600\<close>

definition empty_file :: fs_file where
  "empty_file = \<lparr>content = [], durable = [], fmode = private_mode\<rparr>"

text \<open>A step with no effect of its own: a directory made or synced, a file looked at.\<close>

definition fs_touch :: "unit io" where
  "fs_touch = io_step (\<lambda>w. w)"

text \<open>\<open>OpenOptions\<close> with \<open>create\<close> and \<open>append\<close>, and with \<open>create\<close> and \<open>truncate\<close>; mode 0600 on creation.\<close>

definition fs_open_append :: "string \<Rightarrow> unit io" where
  "fs_open_append p = io_step (\<lambda>w. if files w p = None then put_file p (Some empty_file) w else w)"

definition fs_open_truncate :: "string \<Rightarrow> unit io" where
  "fs_open_truncate p = io_step (\<lambda>w. if files w p = None then put_file p (Some empty_file) w
     else on_file p (content_update (\<lambda>_. [])) w)"

definition fs_set_private :: "string \<Rightarrow> unit io" where
  "fs_set_private p = io_step (on_file p (fmode_update (\<lambda>_. private_mode)))"

text \<open>\<open>write_all\<close>: a failing write leaves a prefix of the body behind.\<close>

definition fs_write_all :: "string \<Rightarrow> bytes \<Rightarrow> unit io" where
  "fs_write_all p body w =
     (case fault w (tick w) of
        Some e \<Rightarrow> (on_file p (content_update (\<lambda>c. c @ take (torn w (tick w)) body)) (tick_on w), Inl e)
      | None \<Rightarrow> (on_file p (content_update (\<lambda>c. c @ body)) (tick_on w), Inr ()))"

definition fs_sync :: "string \<Rightarrow> unit io" where
  "fs_sync p = io_step (on_file p (\<lambda>f. f\<lparr>durable := content f\<rparr>))"

definition fs_set_len :: "string \<Rightarrow> nat \<Rightarrow> unit io" where
  "fs_set_len p n = io_step (on_file p (content_update (take n)))"

definition fs_rename :: "string \<Rightarrow> string \<Rightarrow> unit io" where
  "fs_rename a b = io_step (\<lambda>w. put_file a None (put_file b (files w a) w))"

text \<open>\<open>let _ = fs::remove_file(p)\<close>: best effort, the result is dropped.\<close>

definition fs_remove :: "string \<Rightarrow> world \<Rightarrow> world" where
  "fs_remove p w = fst (io_step (put_file p None) w)"

definition exists_file :: "world \<Rightarrow> string \<Rightarrow> bool" where
  "exists_file w p \<longleftrightarrow> files w p \<noteq> None"

definition bytes_at :: "world \<Rightarrow> string \<Rightarrow> bytes" where
  "bytes_at w p = (case files w p of Some f \<Rightarrow> content f | None \<Rightarrow> [])"

definition clock_now :: "world \<Rightarrow> string" where
  "clock_now w = stamp w (tick w)"

definition new_uuid :: "world \<Rightarrow> world \<times> string" where
  "new_uuid w = (w\<lparr>drawn := Suc (drawn w)\<rparr>, uuid w (drawn w))"

text \<open>No step of \<open>w\<close> from here on fails.\<close>

definition faultless :: "world \<Rightarrow> bool" where
  "faultless w \<longleftrightarrow> (\<forall>n. fault w n = None)"

text \<open>A world with no files in which nothing fails, and identifiers and readings count up.\<close>

definition blank_world :: world where
  "blank_world = \<lparr>files = (\<lambda>_. None), tick = 0, fault = (\<lambda>_. None), torn = (\<lambda>_. 0), stamp = show_nat,
     uuid = (\<lambda>n. ''id-'' @ show_nat n), drawn = 0, pid = ''1'',
     seconds = (\<lambda>_. 0), monotonic = (\<lambda>_. 0), network = (\<lambda>_ _. None), command = (\<lambda>_ _. None),
     env_var = (\<lambda>_. None), models_memo = None, auth_memo = None\<rparr>"

lemma faultless_blank [simp]: "faultless blank_world"
  by (simp add: faultless_def blank_world_def)

section \<open>Equations\<close>

lemma io_bind_ok [io_simps]: "m w = (w', Inr x) \<Longrightarrow> io_bind m f w = f x w'"
  by (simp add: io_bind_def)

lemma io_bind_err [io_simps]: "m w = (w', Inl e) \<Longrightarrow> io_bind m f w = (w', Inl e)"
  by (simp add: io_bind_def)

lemma io_bind_Inr_E:
  assumes "io_bind m f w = (w', Inr y)"
  obtains w1 x where "m w = (w1, Inr x)" and "f x w1 = (w', Inr y)"
  using assms by (auto simp: io_bind_def split: prod.splits sum.splits)

lemma tick_on_simps [simp]:
  "files (tick_on w) = files w" "fault (tick_on w) = fault w" "tick (tick_on w) = Suc (tick w)"
  "torn (tick_on w) = torn w" "stamp (tick_on w) = stamp w" "uuid (tick_on w) = uuid w"
  "drawn (tick_on w) = drawn w" "pid (tick_on w) = pid w"
  "seconds (tick_on w) = seconds w" "monotonic (tick_on w) = monotonic w" "network (tick_on w) = network w" "command (tick_on w) = command w" "env_var (tick_on w) = env_var w" "models_memo (tick_on w) = models_memo w" "auth_memo (tick_on w) = auth_memo w"
  by (simp_all add: tick_on_def)

lemma put_file_simps [simp]:
  "files (put_file p f w) = (files w)(p := f)" "fault (put_file p f w) = fault w"
  "tick (put_file p f w) = tick w" "torn (put_file p f w) = torn w"
  "stamp (put_file p f w) = stamp w" "uuid (put_file p f w) = uuid w"
  "drawn (put_file p f w) = drawn w" "pid (put_file p f w) = pid w"
  "seconds (put_file p f w) = seconds w" "monotonic (put_file p f w) = monotonic w" "network (put_file p f w) = network w" "command (put_file p f w) = command w" "env_var (put_file p f w) = env_var w" "models_memo (put_file p f w) = models_memo w" "auth_memo (put_file p f w) = auth_memo w"
  by (simp_all add: put_file_def)

lemma on_file_simps [simp]:
  "files (on_file p g w) = (files w)(p := map_option g (files w p))" "fault (on_file p g w) = fault w"
  "tick (on_file p g w) = tick w" "torn (on_file p g w) = torn w"
  "stamp (on_file p g w) = stamp w" "uuid (on_file p g w) = uuid w" "drawn (on_file p g w) = drawn w"
  "pid (on_file p g w) = pid w"
  "seconds (on_file p g w) = seconds w" "monotonic (on_file p g w) = monotonic w" "network (on_file p g w) = network w" "command (on_file p g w) = command w" "env_var (on_file p g w) = env_var w" "models_memo (on_file p g w) = models_memo w" "auth_memo (on_file p g w) = auth_memo w"
  by (simp_all add: on_file_def)

lemma io_step_faultless [io_simps]: "faultless w \<Longrightarrow> io_step eff w = (eff (tick_on w), Inr ())"
  by (simp add: io_step_def faultless_def)

lemma faultless_simps [simp]:
  "faultless (tick_on w) = faultless w" "faultless (put_file p f w) = faultless w"
  "faultless (on_file p g w) = faultless w"
  by (simp_all add: faultless_def)

section \<open>What an I/O program keeps\<close>

text \<open>
  A preorder on worlds that every step of a program respects is respected by the program. The
  two instances are that no file but the ones named is touched, and that the outside is as it was.
\<close>

locale world_order =
  fixes le :: "world \<Rightarrow> world \<Rightarrow> bool"
  assumes le_refl: "le w w"
    and le_trans: "le u v \<Longrightarrow> le v w \<Longrightarrow> le u w"
begin

lemma le_bind:
  assumes "\<And>w. le w (fst (m w))" and "\<And>x w. le w (fst (f x w))"
  shows "le w (fst (io_bind m f w))"
proof (cases "m w")
  case (Pair w' r)
  then have "le w w'" using assms(1)[of w] by simp
  then show ?thesis
    using Pair assms(2) by (cases r) (auto simp: io_bind_def intro: le_trans)
qed

lemma le_return: "le w (fst (io_return x w))"
  by (simp add: io_return_def le_refl)

lemma le_step:
  assumes "\<And>w. le w (tick_on w)" and "\<And>w. le w (eff w)"
  shows "le w (fst (io_step eff w))"
  using assms(1)[of w] assms(2)[of "tick_on w"]
  by (auto simp: io_step_def intro: le_trans split: option.splits)

end

definition only_files :: "string set \<Rightarrow> world \<Rightarrow> world \<Rightarrow> bool" where
  "only_files P w w' \<longleftrightarrow> (\<forall>q. q \<notin> P \<longrightarrow> files w' q = files w q)"

definition same_outside :: "world \<Rightarrow> world \<Rightarrow> bool" where
  "same_outside w w' \<longleftrightarrow> fault w' = fault w \<and> torn w' = torn w \<and> stamp w' = stamp w
     \<and> uuid w' = uuid w \<and> drawn w' = drawn w \<and> pid w' = pid w \<and> tick w \<le> tick w'"

interpretation touched: world_order "only_files P" for P
  by unfold_locales (auto simp: only_files_def)

interpretation outside: world_order same_outside
  by unfold_locales (auto simp: same_outside_def)

lemma only_files_tick [simp]: "only_files P w (tick_on w)"
  by (simp add: only_files_def)

lemma only_files_put [simp]: "p \<in> P \<Longrightarrow> only_files P w (put_file p f w)"
  by (auto simp: only_files_def)

lemma only_files_on [simp]: "p \<in> P \<Longrightarrow> only_files P w (on_file p g w)"
  by (auto simp: only_files_def)

lemma only_files_touch [simp]: "only_files P w (fst (fs_touch w))"
  by (simp add: fs_touch_def touched.le_step touched.le_refl)

lemma only_files_open_append [simp]: "p \<in> P \<Longrightarrow> only_files P w (fst (fs_open_append p w))"
  by (auto simp: fs_open_append_def touched.le_refl intro!: touched.le_step)

lemma only_files_set_private [simp]: "p \<in> P \<Longrightarrow> only_files P w (fst (fs_set_private p w))"
  by (auto simp: fs_set_private_def intro!: touched.le_step)

lemma only_files_sync [simp]: "p \<in> P \<Longrightarrow> only_files P w (fst (fs_sync p w))"
  by (auto simp: fs_sync_def intro!: touched.le_step)

lemma only_files_set_len [simp]: "p \<in> P \<Longrightarrow> only_files P w (fst (fs_set_len p n w))"
  by (auto simp: fs_set_len_def intro!: touched.le_step)

lemma only_files_write_all [simp]: "p \<in> P \<Longrightarrow> only_files P w (fst (fs_write_all p b w))"
  by (auto simp: fs_write_all_def only_files_def split: option.splits)

lemma same_outside_steps [simp]:
  "same_outside w (tick_on w)" "same_outside w (put_file p f w)" "same_outside w (on_file p g w)"
  by (simp_all add: same_outside_def)


section \<open>Triples\<close>

text \<open>
  From a world that satisfies the precondition, success ends in the first postcondition and
  failure in the second.
\<close>

definition io_triple :: "(world \<Rightarrow> bool) \<Rightarrow> 'a io \<Rightarrow> ('a \<Rightarrow> world \<Rightarrow> bool) \<Rightarrow> (world \<Rightarrow> bool) \<Rightarrow> bool" where
  "io_triple P m Q R \<longleftrightarrow> (\<forall>w. P w \<longrightarrow> (case m w of (w', Inr x) \<Rightarrow> Q x w' | (w', Inl e) \<Rightarrow> R w'))"

lemma io_triple_bind:
  "io_triple P m Q R \<Longrightarrow> (\<And>x. io_triple (Q x) (f x) S R) \<Longrightarrow> io_triple P (io_bind m f) S R"
  by (fastforce simp: io_triple_def io_bind_def split: prod.splits sum.splits)

lemma io_triple_step:
  "(\<And>w. P w \<Longrightarrow> Q () (eff (tick_on w))) \<Longrightarrow> (\<And>w. P w \<Longrightarrow> R (tick_on w)) \<Longrightarrow> io_triple P (io_step eff) Q R"
  by (auto simp: io_triple_def io_step_def split: option.splits)

lemma io_triple_return: "(\<And>w. P w \<Longrightarrow> Q x w) \<Longrightarrow> io_triple P (io_return x) Q R"
  by (simp add: io_triple_def io_return_def)

lemma io_triple_conseq:
  "io_triple P m Q R \<Longrightarrow> (\<And>w. P' w \<Longrightarrow> P w) \<Longrightarrow> (\<And>x w. Q x w \<Longrightarrow> Q' x w) \<Longrightarrow> (\<And>w. R w \<Longrightarrow> R' w) \<Longrightarrow>
   io_triple P' m Q' R'"
  by (fastforce simp: io_triple_def split: prod.splits sum.splits)

lemma io_tripleE:
  assumes "io_triple P m Q R" and "P w"
  obtains w' x where "m w = (w', Inr x)" and "Q x w'" | w' e where "m w = (w', Inl e)" and "R w'"
  using assms by (cases "m w"; cases "snd (m w)") (auto simp: io_triple_def)

end
