(* ===== verification/Jsonl_Log.thy ===== *)
theory Jsonl_Log
  imports Json_Value File_System
begin

text \<open>
  \<open>shared/jsonl.rs\<close>: append-only JSONL files. The long-lived \<open>Appender\<close>, the one-shot
  \<open>extend\<close>, the repair of a torn last line before the first write, the backwards search for
  that line in bounded chunks, and the checked read. Every system call is a step that may fail.
\<close>

record jrecord =
  line_no :: nat
  jvalue :: json

datatype read_error = Io_error "nat option" string | Malformed nat string

record read_report =
  missing :: bool
  records :: "jrecord list"
  read_err :: "read_error option"

record appender =
  app_path :: string
  app_open :: bool
  prefix_newline :: bool

section \<open>The unterminated last line\<close>

definition CHUNK :: nat where
  "CHUNK = 8 * 1024"

text \<open>\<open>iter().rposition(p)\<close>.\<close>

definition rposition :: "('a \<Rightarrow> bool) \<Rightarrow> 'a list \<Rightarrow> nat option" where
  "rposition P xs = (case dropWhile (\<lambda>x. \<not> P x) (rev xs) of [] \<Rightarrow> None | _ # ys \<Rightarrow> Some (length ys))"

function tail_scan :: "bytes \<Rightarrow> nat \<Rightarrow> bytes list \<Rightarrow> nat \<times> bytes" where
  "tail_scan file cursor later =
     (let start = cursor - CHUNK;
          chunk = take (cursor - start) (drop start file)
      in case rposition (\<lambda>b. b = newline) chunk of
           Some nl \<Rightarrow> (start + nl + 1, drop (nl + 1) chunk @ concat (rev later))
         | None \<Rightarrow>
             let later' = later @ [chunk]
             in if start = 0 then (0, concat (rev later')) else tail_scan file start later')"
  by pat_completeness auto
termination
  by (relation "measure (\<lambda>(file, cursor, later). cursor)") (auto simp: CHUNK_def)

declare tail_scan.simps [simp del]

definition unterminated_tail :: "bytes \<Rightarrow> nat \<Rightarrow> nat \<times> bytes" where
  "unterminated_tail file len = tail_scan file len []"

text \<open>
  \<open>repair_tail\<close>: true when a valid last record merely lacks its newline; a partial one is cut
  off. The length, the last byte and the tail are read in steps that may fail.
\<close>

definition repair_tail :: "codec \<Rightarrow> string \<Rightarrow> bool io" where
  "repair_tail J p =
     io_bind fs_touch (\<lambda>_ w.
       let file = bytes_at w p; len = length file in
       if len = 0 then (w, Inr False)
       else io_bind fs_touch (\<lambda>_ w.
         if last file = newline then (w, Inr False)
         else io_bind fs_touch (\<lambda>_ w.
           let (tail_start, tail) = unterminated_tail file len in
           (case from_slice J tail of
              Inr _ \<Rightarrow> (w, Inr True)
            | Inl _ \<Rightarrow> io_bind (fs_set_len p tail_start) (\<lambda>_. io_return False) w)) w) w)"

section \<open>Writers\<close>

definition appender_open :: "codec \<Rightarrow> string \<Rightarrow> appender io" where
  "appender_open J p w0 =
     (let existed = exists_file w0 p in
      io_bind fs_touch (\<lambda>_.
      io_bind (fs_open_append p) (\<lambda>_.
      io_bind (fs_set_private p) (\<lambda>_.
      io_bind (repair_tail J p) (\<lambda>prefix.
      io_bind (if existed then io_return () else fs_touch) (\<lambda>_.
      io_return \<lparr>app_path = p, app_open = True, prefix_newline = prefix\<rparr>))))) w0)"

definition appender_body :: "codec \<Rightarrow> appender \<Rightarrow> json \<Rightarrow> bytes" where
  "appender_body J a v =
     (if prefix_newline a then [newline] else []) @ to_text J v @ [newline]"

text \<open>A failed write closes the descriptor for good: its extent is uncertain.\<close>

definition appender_append :: "codec \<Rightarrow> appender \<Rightarrow> json \<Rightarrow> world \<Rightarrow> world \<times> appender \<times> unit res" where
  "appender_append J a v w =
     (let body = appender_body J a v;
          a1 = a\<lparr>prefix_newline := False\<rparr>
      in if app_open a
         then (case io_bind (fs_write_all (app_path a) body) (\<lambda>_. fs_sync (app_path a)) w of
                 (w', Inr u) \<Rightarrow> (w', a1, Inr u)
               | (w', Inl e) \<Rightarrow> (w', a1\<lparr>app_open := False\<rparr>, Inl e))
         else (w, a1\<lparr>app_open := False\<rparr>, Inl ''JSONL appender is no longer writable''))"

definition extend :: "codec \<Rightarrow> string \<Rightarrow> json list \<Rightarrow> unit io" where
  "extend J p vs w0 =
     (if vs = [] then (w0, Inr ())
      else
        let body = concat (map (\<lambda>v. to_text J v @ [newline]) vs);
            existed = exists_file w0 p
        in io_bind fs_touch (\<lambda>_.
           io_bind (fs_open_append p) (\<lambda>_.
           io_bind (fs_set_private p) (\<lambda>_.
           io_bind (repair_tail J p) (\<lambda>prefix.
           io_bind (fs_write_all p ((if prefix then [newline] else []) @ body)) (\<lambda>_.
           io_bind (fs_sync p) (\<lambda>_.
           if existed then io_return () else fs_touch)))))) w0)"

definition append_one :: "codec \<Rightarrow> string \<Rightarrow> json \<Rightarrow> unit io" where
  "append_one J p v = extend J p [v]"

section \<open>The checked read\<close>

text \<open>\<open>read_until(b'\n')\<close>, repeated: each line with its newline, the last perhaps without.\<close>

function lines_of :: "bytes \<Rightarrow> bytes list" where
  "lines_of bs =
     (if bs = [] then []
      else case dropWhile (\<lambda>b. b \<noteq> newline) bs of
             [] \<Rightarrow> [bs]
           | _ # rest \<Rightarrow> (takeWhile (\<lambda>b. b \<noteq> newline) bs @ [newline]) # lines_of rest)"
  by pat_completeness auto
termination
proof (relation "measure length")
  fix bs :: bytes and b rest assume "dropWhile (\<lambda>b. b \<noteq> newline) bs = b # rest"
  then show "(rest, bs) \<in> measure length"
    using length_dropWhile_le[of "\<lambda>b. b \<noteq> newline" bs] by simp
qed simp

declare lines_of.simps [simp del]

fun read_loop :: "codec \<Rightarrow> bytes list \<Rightarrow> nat \<Rightarrow> read_report \<Rightarrow> world \<Rightarrow> world \<times> read_report" where
  "read_loop J [] n r w =
     (case fault w (tick w) of
        Some e \<Rightarrow> (tick_on w, r\<lparr>read_err := Some (Io_error (Some (n + 1)) e)\<rparr>)
      | None \<Rightarrow> (tick_on w, r))"
| "read_loop J (l # ls) n r w =
     (case fault w (tick w) of
        Some e \<Rightarrow> (tick_on w, r\<lparr>read_err := Some (Io_error (Some (n + 1)) e)\<rparr>)
      | None \<Rightarrow>
          (case from_slice J l of
             Inr v \<Rightarrow> read_loop J ls (n + 1)
                       (r\<lparr>records := records r @ [\<lparr>line_no = n + 1, jvalue = v\<rparr>]\<rparr>) (tick_on w)
           | Inl e \<Rightarrow>
               if last l \<noteq> newline then (tick_on w, r)
               else (tick_on w, r\<lparr>read_err := Some (Malformed (n + 1) e)\<rparr>)))"

definition no_report :: read_report where
  "no_report = \<lparr>missing = False, records = [], read_err = None\<rparr>"

definition read_checked :: "codec \<Rightarrow> string \<Rightarrow> world \<Rightarrow> world \<times> read_report" where
  "read_checked J p w =
     (case files w p of
        None \<Rightarrow> (tick_on w, no_report\<lparr>missing := True\<rparr>)
      | Some f \<Rightarrow>
          (case fault w (tick w) of
             Some e \<Rightarrow> (tick_on w, no_report\<lparr>read_err := Some (Io_error None e)\<rparr>)
           | None \<Rightarrow> read_loop J (lines_of (content f)) 0 no_report (tick_on w)))"

section \<open>The chunked search finds the last line\<close>

lemma rposition_split:
  assumes "rposition P xs = Some i"
  obtains us y vs where "xs = us @ y # vs" and "i = length us" and "P y" and "\<forall>x \<in> set vs. \<not> P x"
proof -
  from assms obtain y ys where d: "dropWhile (\<lambda>x. \<not> P x) (rev xs) = y # ys" and i: "i = length ys"
    by (auto simp: rposition_def split: list.splits)
  let ?t = "takeWhile (\<lambda>x. \<not> P x) (rev xs)"
  have "rev xs = ?t @ y # ys" using d takeWhile_dropWhile_id[of "\<lambda>x. \<not> P x" "rev xs"] by simp
  then have "xs = rev ys @ y # rev ?t" by (metis append.assoc append_Cons append_Nil rev.simps(2) rev_append rev_rev_ident)
  moreover have "P y" using d by (metis dropWhile_eq_Cons_conv)
  moreover have "\<forall>x \<in> set (rev ?t). \<not> P x" by (auto dest: set_takeWhileD)
  ultimately show thesis using i by (intro that[of "rev ys" y "rev ?t"]) simp_all
qed

lemma rposition_None: "rposition P xs = None \<Longrightarrow> x \<in> set xs \<Longrightarrow> \<not> P x"
  by (auto simp: rposition_def dropWhile_eq_Nil_conv split: list.splits)

text \<open>Where the last line begins, read off the whole bs.\<close>

definition last_line_at :: "bytes \<Rightarrow> nat" where
  "last_line_at xs = length xs - length (takeWhile (\<lambda>b. b \<noteq> newline) (rev xs))"

lemma last_line_at_nl [simp]: "newline \<notin> set vs \<Longrightarrow> last_line_at (us @ newline # vs) = Suc (length us)"
proof -
  assume "newline \<notin> set vs"
  then have "takeWhile (\<lambda>b. b \<noteq> newline) (rev vs @ newline # rev us) = rev vs"
    by (subst takeWhile_append2) auto
  then show ?thesis by (simp add: last_line_at_def)
qed

lemma last_line_at_none [simp]: "newline \<notin> set vs \<Longrightarrow> last_line_at vs = 0"
proof -
  assume "newline \<notin> set vs"
  then have "takeWhile (\<lambda>b. b \<noteq> newline) (rev vs) = rev vs" by (subst takeWhile_eq_all_conv) auto
  then show ?thesis by (simp only: last_line_at_def length_rev diff_self_eq_0)
qed

lemma tail_scan_correct:
  assumes "cursor \<le> length bs" and "newline \<notin> set (drop cursor bs)"
    and "concat (rev later) = drop cursor bs"
  shows "tail_scan bs cursor later = (last_line_at bs, drop (last_line_at bs) bs)"
  using assms
proof (induction bs cursor later rule: tail_scan.induct)
  case (1 bs cursor later)
  define start where "start = cursor - CHUNK"
  define chunk where "chunk = take (cursor - start) (drop start bs)"
  have split: "bs = take start bs @ chunk @ drop cursor bs"
  proof -
    have "drop start bs = chunk @ drop (cursor - start) (drop start bs)"
      by (simp only: chunk_def append_take_drop_id)
    also have "drop (cursor - start) (drop start bs) = drop cursor bs"
      by (simp add: start_def)
    finally show ?thesis by (metis append_take_drop_id)
  qed
  have len: "start \<le> length bs" using "1.prems"(1) by (simp add: start_def)
  have unf: "tail_scan bs cursor later = (case rposition (\<lambda>b. b = newline) chunk of
      Some nl \<Rightarrow> (start + nl + 1, drop (nl + 1) chunk @ concat (rev later))
    | None \<Rightarrow> if start = 0 then (0, concat (rev (later @ [chunk]))) else tail_scan bs start (later @ [chunk]))"
    by (subst tail_scan.simps) (simp only: Let_def start_def chunk_def)
  show ?case
  proof (cases "rposition (\<lambda>b. b = newline) chunk")
    case (Some nl)
    from rposition_split[OF Some] obtain us y vs
      where c: "chunk = us @ y # vs" and nl: "nl = length us" and y: "y = newline"
        and vs: "\<forall>x \<in> set vs. x \<noteq> newline" by blast
    let ?l = "vs @ drop cursor bs"
    have f: "bs = (take start bs @ us) @ newline # ?l" using split c y by simp
    have nn: "newline \<notin> set ?l" using vs "1.prems"(2) by auto
    have "last_line_at bs = start + nl + 1"
      by (subst f, subst last_line_at_nl[OF nn]) (simp add: len nl min_absorb2)
    moreover have "drop (start + nl + 1) bs = ?l"
      by (subst f) (simp add: len nl min_absorb2)
    ultimately show ?thesis
      using "1.prems"(3) unf Some by (simp add: c nl)
  next
    case None
    have nc: "newline \<notin> set chunk" using rposition_None[OF None, of newline] by auto
    have ds: "drop start bs = chunk @ drop cursor bs" using split len by (metis append_take_drop_id same_append_eq)
    then have cat: "concat (rev (later @ [chunk])) = drop start bs" using "1.prems"(3) by simp
    have nd: "newline \<notin> set (drop start bs)" using nc "1.prems"(2) by (simp add: ds)
    show ?thesis
    proof (cases "start = 0")
      case True
      then have "newline \<notin> set bs" using nd by simp
      then show ?thesis using unf None True cat by simp
    next
      case False
      from nd have "tail_scan bs start (later @ [chunk]) = (last_line_at bs, drop (last_line_at bs) bs)"
        using "1.IH"[OF start_def chunk_def None refl False] cat "1.prems"(1) by (simp add: start_def)
      then show ?thesis using unf None False by simp
    qed
  qed
qed

section \<open>A log and its reading\<close>

definition json_line :: "codec \<Rightarrow> json \<Rightarrow> bytes" where
  "json_line J v = to_text J v @ [newline]"

definition log_bytes :: "codec \<Rightarrow> json list \<Rightarrow> bytes" where
  "log_bytes J vs = concat (map (json_line J) vs)"

text \<open>What a checked read of these bytes reports when no system call fails.\<close>

fun scan :: "codec \<Rightarrow> bytes list \<Rightarrow> nat \<Rightarrow> jrecord list \<times> read_error option" where
  "scan J [] n = ([], None)"
| "scan J (l # ls) n =
     (case from_slice J l of
        Inr v \<Rightarrow> (let (rs, e) = scan J ls (n + 1) in (\<lparr>line_no = n + 1, jvalue = v\<rparr> # rs, e))
      | Inl e \<Rightarrow> ([], if last l \<noteq> newline then None else Some (Malformed (n + 1) e)))"

definition numbered :: "nat \<Rightarrow> json list \<Rightarrow> jrecord list" where
  "numbered n vs = map (\<lambda>(i, v). \<lparr>line_no = i, jvalue = v\<rparr>) (enumerate (Suc n) vs)"

definition healthy :: "codec \<Rightarrow> json list \<Rightarrow> bool" where
  "healthy J vs \<longleftrightarrow> (\<forall>v \<in> set vs. reads_back J v \<and> torn_unreadable J v)"

lemma numbered_Nil [simp]: "numbered n [] = []"
  by (simp add: numbered_def)

lemma numbered_Cons [simp]: "numbered n (v # vs) = \<lparr>line_no = Suc n, jvalue = v\<rparr> # numbered (Suc n) vs"
  by (simp add: numbered_def)

lemma jvalue_numbered [simp]: "map jvalue (numbered n vs) = vs"
  by (induction vs arbitrary: n) auto

lemma length_numbered [simp]: "length (numbered n vs) = length vs"
  by (simp add: numbered_def)

lemma read_loop_scan:
  "faultless w \<Longrightarrow> read_loop J ls n r w =
     (let (rs, e) = scan J ls n in
      ((tick_on ^^ Suc (min (length ls) (length rs))) w,
       r\<lparr>records := records r @ rs, read_err := (if e = None then read_err r else e)\<rparr>))"
proof (induction ls arbitrary: n r w)
  case Nil
  then show ?case by (simp add: faultless_def)
next
  case (Cons l ls)
  then show ?case
    by (cases "from_slice J l") (auto simp: faultless_def Let_def funpow_Suc_right split: prod.splits simp del: funpow.simps)
qed

lemma read_checked_scan:
  assumes "faultless w" and "files w p = Some f"
  shows "snd (read_checked J p w) =
    (let (rs, e) = scan J (lines_of (content f)) 0 in \<lparr>missing = False, records = rs, read_err = e\<rparr>)"
proof -
  have "fault w (tick w) = None" and "faultless (tick_on w)"
    using assms(1) by (simp_all add: faultless_def)
  then show ?thesis
    using assms(2) by (auto simp: read_checked_def read_loop_scan no_report_def Let_def split: prod.splits)
qed

lemma lines_of_Nil [simp]: "lines_of [] = []"
  by (simp add: lines_of.simps)

lemma lines_of_line:
  assumes "newline \<notin> set l"
  shows "lines_of (l @ newline # rest) = (l @ [newline]) # lines_of rest"
proof -
  have t: "takeWhile (\<lambda>b. b \<noteq> newline) (l @ newline # rest) = l"
    using assms by (subst takeWhile_append2) auto
  have d: "dropWhile (\<lambda>b. b \<noteq> newline) (l @ newline # rest) = newline # rest"
    using assms by (subst dropWhile_append2) auto
  show ?thesis by (subst lines_of.simps) (simp add: t d)
qed

lemma lines_of_tail:
  assumes "newline \<notin> set l" and "l \<noteq> []"
  shows "lines_of l = [l]"
proof -
  have d: "dropWhile (\<lambda>b. b \<noteq> newline) l = []"
    using assms(1) by (auto simp: dropWhile_eq_Nil_conv)
  show ?thesis using assms(2) by (subst lines_of.simps) (simp only: d list.case if_False)
qed

lemma healthyD:
  assumes "healthy J vs" and "v \<in> set vs"
  shows "from_slice J (to_text J v) = Inr v" and "from_slice J (json_line J v) = Inr v"
    and "newline \<notin> set (to_text J v)" and "to_text J v \<noteq> []"
    and "\<And>n. n < length (to_text J v) \<Longrightarrow> \<exists>e. from_slice J (take n (to_text J v)) = Inl e"
  using assms by (auto simp: healthy_def reads_back_def torn_unreadable_def json_line_def)

lemma healthy_Cons: "healthy J (v # vs) \<longleftrightarrow> reads_back J v \<and> torn_unreadable J v \<and> healthy J vs"
  by (auto simp: healthy_def)

lemma healthy_append [simp]: "healthy J (us @ vs) \<longleftrightarrow> healthy J us \<and> healthy J vs"
  by (auto simp: healthy_def)

lemma healthy_take: "healthy J vs \<Longrightarrow> healthy J (take k vs)"
  by (auto simp: healthy_def dest: in_set_takeD)

lemma log_bytes_simps [simp]:
  "log_bytes J [] = []" "log_bytes J (v # vs) = json_line J v @ log_bytes J vs"
  "log_bytes J (us @ vs) = log_bytes J us @ log_bytes J vs"
  by (simp_all add: log_bytes_def)

text \<open>Complete lines read back as their values; what follows is read after them.\<close>

lemma scan_log:
  "healthy J vs \<Longrightarrow> scan J (lines_of (log_bytes J vs @ rest)) n =
     (let (rs, e) = scan J (lines_of rest) (n + length vs) in (numbered n vs @ rs, e))"
proof (induction vs arbitrary: n)
  case Nil
  then show ?case by simp
next
  case (Cons v vs)
  then have h: "healthy J vs" by (simp add: healthy_Cons)
  have "lines_of (log_bytes J (v # vs) @ rest) = json_line J v # lines_of (log_bytes J vs @ rest)"
    using lines_of_line[OF healthyD(3)[OF Cons.prems], of v] by (simp add: json_line_def)
  then show ?case using Cons.IH[OF h, of "Suc n"] healthyD(2)[OF Cons.prems, of v]
    by (auto split: prod.splits)
qed

text \<open>A fragment of one more line: read if only its newline is missing, dropped otherwise.\<close>

lemma scan_fragment:
  assumes "healthy J [v]" and "n < length (json_line J v)"
  shows "scan J (lines_of (take n (json_line J v))) k =
    (if n = length (to_text J v) then [\<lparr>line_no = Suc k, jvalue = v\<rparr>] else [], None)"
proof (cases "n = length (to_text J v)")
  case True
  then have "take n (json_line J v) = to_text J v" by (simp add: json_line_def)
  moreover have "lines_of (to_text J v) = [to_text J v]"
    using healthyD(3,4)[OF assms(1), of v] by (simp add: lines_of_tail)
  ultimately show ?thesis using True healthyD(1)[OF assms(1), of v] by simp
next
  case False
  with assms(2) have n: "n < length (to_text J v)" by (simp add: json_line_def)
  then have t: "take n (json_line J v) = take n (to_text J v)" by (simp add: json_line_def)
  have nn: "newline \<notin> set (take n (to_text J v))"
    using healthyD(3)[OF assms(1), of v] by (auto dest: in_set_takeD)
  from healthyD(5)[OF assms(1), of v n] n obtain e where e: "from_slice J (take n (to_text J v)) = Inl e" by auto
  show ?thesis
  proof (cases "take n (to_text J v) = []")
    case True
    then have "take n (json_line J v) = []" by (simp only: t)
    then show ?thesis using False by (simp only: lines_of_Nil scan.simps) simp
  next
    case ne: False
    then have "last (take n (to_text J v)) \<noteq> newline" using nn last_in_set by metis
    then show ?thesis using False by (simp only: t lines_of_tail[OF nn ne]) (simp add: e)
  qed
qed

text \<open>Every byte prefix of a log is some complete lines and a fragment of the next.\<close>

lemma take_log_bytes:
  assumes "n < length (log_bytes J vs)"
  obtains k m where "k < length vs" and "m < length (json_line J (vs ! k))"
    and "take n (log_bytes J vs) = log_bytes J (take k vs) @ take m (json_line J (vs ! k))"
    and "n = length (log_bytes J (take k vs)) + m"
  using assms
proof (induction vs arbitrary: n thesis)
  case Nil
  then show ?case by simp
next
  case (Cons v vs)
  show ?case
  proof (cases "n < length (json_line J v)")
    case True
    then show ?thesis using Cons.prems(1)[of 0 n] by simp
  next
    case False
    then have "n - length (json_line J v) < length (log_bytes J vs)" using Cons.prems(2) by simp
    from Cons.IH[OF _ this] obtain k m where k: "k < length vs" "m < length (json_line J (vs ! k))"
      "take (n - length (json_line J v)) (log_bytes J vs) = log_bytes J (take k vs) @ take m (json_line J (vs ! k))"
      "n - length (json_line J v) = length (log_bytes J (take k vs)) + m" by blast
    show ?thesis by (rule Cons.prems(1)[of "Suc k" m]) (use k False in auto)
  qed
qed


lemma length_log_take_mono: "i \<le> j \<Longrightarrow> length (log_bytes J (take i vs)) \<le> length (log_bytes J (take j vs))"
proof -
  assume "i \<le> j"
  then have "take j vs = take i vs @ drop i (take j vs)" by (metis append_take_drop_id min.absorb1 take_take)
  then show ?thesis by (metis le_add1 length_append log_bytes_simps(3))
qed

text \<open>The shape every reachable file has: complete lines, then at most a fragment of one more.\<close>

lemma log_prefix_shape:
  assumes "healthy J vs"
  obtains k frag where "k \<le> length vs" and "take n (log_bytes J vs) = log_bytes J (take k vs) @ frag"
    and "newline \<notin> set frag"
    and "frag = [] \<or> (k < length vs \<and> frag = to_text J (vs ! k)) \<or> (\<exists>e. from_slice J frag = Inl e)"
    and "\<forall>j \<le> length vs. length (log_bytes J (take j vs)) \<le> n \<longrightarrow> j \<le> k"
proof (cases "n < length (log_bytes J vs)")
  case False
  then show ?thesis by (intro that[of "length vs" "[]"]) auto
next
  case True
  then obtain k m where k: "k < length vs" and m: "m < length (json_line J (vs ! k))"
    and t: "take n (log_bytes J vs) = log_bytes J (take k vs) @ take m (json_line J (vs ! k))"
    and n: "n = length (log_bytes J (take k vs)) + m" by (rule take_log_bytes)
  have in_vs: "vs ! k \<in> set vs" using k by simp
  have fr: "take m (json_line J (vs ! k)) = take m (to_text J (vs ! k))" using m by (simp add: json_line_def)
  have le: "j \<le> k" if "j \<le> length vs" "length (log_bytes J (take j vs)) \<le> n" for j
  proof (rule ccontr)
    assume "\<not> j \<le> k"
    then have "length (log_bytes J (take (Suc k) vs)) \<le> n"
      using that length_log_take_mono[of "Suc k" j J vs] by simp
    then show False using n m k by (simp add: take_Suc_conv_app_nth)
  qed
  show ?thesis
  proof (rule that[of k "take m (to_text J (vs ! k))"])
    show "newline \<notin> set (take m (to_text J (vs ! k)))"
      using healthyD(3)[OF assms in_vs] by (auto dest: in_set_takeD)
    show "take m (to_text J (vs ! k)) = [] \<or> (k < length vs \<and> take m (to_text J (vs ! k)) = to_text J (vs ! k))
      \<or> (\<exists>e. from_slice J (take m (to_text J (vs ! k))) = Inl e)"
      using healthyD(5)[OF assms in_vs, of m] k m by (cases "m < length (to_text J (vs ! k))") auto
  qed (use k t fr le in auto)
qed

section \<open>Properties of reading and writing\<close>

text \<open>the backwards search in bounded chunks returns exactly where the last line begins and its bytes.\<close>

theorem unterminated_tail_correct:
  "unterminated_tail bs (length bs) = (last_line_at bs, drop (last_line_at bs) bs)"
  unfolding unterminated_tail_def by (rule tail_scan_correct) simp_all

lemma scan_frag:
  assumes "newline \<notin> set frag" and "frag = [] \<or> (\<exists>e. from_slice J frag = Inl e)"
  shows "scan J (lines_of frag) n = ([], None)"
proof (cases "frag = []")
  case False
  then have "last frag \<noteq> newline" using assms(1) last_in_set by metis
  then show ?thesis using assms(2) False by (auto simp: lines_of_tail[OF assms(1) False])
qed simp

lemma read_prefix_report:
  assumes "healthy J vs" and "faultless w"
    and "files w p = Some f" and "content f = take n (log_bytes J vs)"
  obtains k where "k \<le> length vs"
    and "snd (read_checked J p w) = \<lparr>missing = False, records = numbered 0 (take k vs), read_err = None\<rparr>"
    and "\<forall>j \<le> length vs. length (log_bytes J (take j vs)) \<le> n \<longrightarrow> j \<le> k"
proof -
  obtain k frag where k: "k \<le> length vs" and t: "take n (log_bytes J vs) = log_bytes J (take k vs) @ frag"
    and nn: "newline \<notin> set frag"
    and fr: "frag = [] \<or> (k < length vs \<and> frag = to_text J (vs ! k)) \<or> (\<exists>e. from_slice J frag = Inl e)"
    and le: "\<forall>j \<le> length vs. length (log_bytes J (take j vs)) \<le> n \<longrightarrow> j \<le> k"
    using assms(1) by (rule log_prefix_shape[where n = n])
  have s: "snd (read_checked J p w) = (let (rs, e) = scan J (lines_of frag) k in
      \<lparr>missing = False, records = numbered 0 (take k vs) @ rs, read_err = e\<rparr>)"
    using k by (simp add: read_checked_scan[OF assms(2,3)] assms(4) t scan_log healthy_take[OF assms(1)]
        min_absorb2 split: prod.splits)
  show thesis
  proof (cases "k < length vs \<and> frag = to_text J (vs ! k)")
    case True
    then have "healthy J [vs ! k]" using assms(1) by (simp add: healthy_def)
    from healthyD[OF this, of "vs ! k"] have "scan J (lines_of frag) k = ([\<lparr>line_no = Suc k, jvalue = vs ! k\<rparr>], None)"
      using True by (simp add: lines_of_tail)
    moreover have "numbered 0 (take (Suc k) vs) = numbered 0 (take k vs) @ [\<lparr>line_no = Suc k, jvalue = vs ! k\<rparr>]"
      using True by (simp add: numbered_def take_Suc_conv_app_nth enumerate_append_eq)
    ultimately show thesis using True s le by (intro that[of "Suc k"]) (auto simp: le_Suc_eq)
  next
    case False
    with fr scan_frag[OF nn] have "scan J (lines_of frag) k = ([], None)" by blast
    with s k le show thesis by (intro that[of k]) auto
  qed
qed

text \<open>
  A reader never crashes on a file that is being appended to. Whatever byte prefix of a log
  of objects is on disk, the checked read reports no corruption and returns a prefix of the log,
  which holds at least every line that is complete.
\<close>

theorem read_checked_any_prefix:
  assumes "healthy J vs" and "faultless w"
    and "files w p = Some f" and "content f = take n (log_bytes J vs)"
  shows "read_err (snd (read_checked J p w)) = None \<and>
    (\<exists>k \<le> length vs. map jvalue (records (snd (read_checked J p w))) = take k vs \<and>
       (\<forall>j \<le> length vs. length (log_bytes J (take j vs)) \<le> n \<longrightarrow> j \<le> k))"
  using assms by (rule read_prefix_report) auto

lemma last_line_at_log:
  assumes "newline \<notin> set frag"
  shows "last_line_at (log_bytes J us @ frag) = length (log_bytes J us)"
proof (cases us rule: rev_cases)
  case (snoc ys y)
  have "log_bytes J us @ frag = (log_bytes J ys @ to_text J y) @ newline # frag"
    by (simp add: snoc json_line_def)
  then show ?thesis using last_line_at_nl[OF assms, of "log_bytes J ys @ to_text J y"]
    by (simp add: snoc json_line_def)
qed (use assms in simp)

text \<open>
  The step \<open>repair_tail\<close> takes on complete lines and a fragment: nothing after a newline, the
  promise of a newline after a whole record, and the fragment cut off otherwise.
\<close>

lemma repair_tail_log:
  assumes "faultless w" and "files w p = Some f" and "content f = log_bytes J us @ frag"
    and "newline \<notin> set frag"
  shows "\<exists>w'. repair_tail J p w =
      (w', Inr (frag \<noteq> [] \<and> (\<exists>v. from_slice J frag = Inr v))) \<and> faultless w' \<and>
      files w' = (files w)(p \<mapsto> f\<lparr>content :=
        (if \<exists>v. from_slice J frag = Inr v then log_bytes J us @ frag else log_bytes J us)\<rparr>)"
proof -
  let ?c = "log_bytes J us @ frag"
  have b: "bytes_at (tick_on w') p = bytes_at w' p" for w' by (simp add: bytes_at_def)
  have c: "bytes_at w p = ?c" using assms(2,3) by (simp add: bytes_at_def)
  have ft: "fs_touch w' = (tick_on w', Inr ())" if "faultless w'" for w'
    using that by (simp add: fs_touch_def io_simps)
  have same: "(files w)(p \<mapsto> f\<lparr>content := ?c\<rparr>) = files w" using assms(2,3) by auto
  consider (empty) "?c = []" | (whole) "frag = []" "us \<noteq> []" | (part) "frag \<noteq> []"
    by (cases "frag = []"; cases "us = []") auto
  then show ?thesis
  proof cases
    case empty
    then show ?thesis using assms(1) same
      by (intro exI[of _ "tick_on w"]) (simp add: repair_tail_def io_bind_def ft b c)
  next
    case whole
    then have "last ?c = newline" by (cases us rule: rev_cases) (auto simp: json_line_def)
    moreover have "?c \<noteq> []" using whole by (cases us rule: rev_cases) (auto simp: json_line_def)
    ultimately show ?thesis using whole assms(1) same
      by (intro exI[of _ "tick_on (tick_on w)"]) (simp add: repair_tail_def io_bind_def ft b c)
  next
    case part
    then have "last ?c \<noteq> newline" using assms(4) by (metis last_appendR last_in_set)
    moreover have "unterminated_tail ?c (length ?c) = (length (log_bytes J us), frag)"
      by (simp only: unterminated_tail_correct last_line_at_log[OF assms(4)]) simp
    ultimately show ?thesis using part assms(1,2,3) same
      by (cases "from_slice J frag") (auto simp: repair_tail_def io_bind_def ft b c Let_def fs_set_len_def
          io_step_faultless io_return_def)
  qed
qed


lemma appender_append_ok:
  assumes "faultless w" and "files w (app_path a) = Some f" and "app_open a"
  shows "\<exists>w'. appender_append J a v w = (w', a\<lparr>prefix_newline := False\<rparr>, Inr ()) \<and> faultless w' \<and>
    files w' = (files w)(app_path a \<mapsto> f\<lparr>content := content f @ appender_body J a v,
                                       durable := content f @ appender_body J a v\<rparr>)"
  using assms
  by (auto simp: appender_append_def io_bind_def fs_write_all_def fs_sync_def io_step_def faultless_def Let_def
      fun_eq_iff)

lemma appender_open_log:
  assumes "faultless w" and "files w p = Some f" and "content f = log_bytes J us @ frag"
    and "newline \<notin> set frag"
  shows "\<exists>w'. appender_open J p w = (w', Inr \<lparr>app_path = p, app_open = True,
      prefix_newline = (frag \<noteq> [] \<and> (\<exists>v. from_slice J frag = Inr v))\<rparr>) \<and> faultless w' \<and>
      files w' = (files w)(p \<mapsto> f\<lparr>fmode := private_mode, content :=
        (if \<exists>v. from_slice J frag = Inr v then log_bytes J us @ frag else log_bytes J us)\<rparr>)"
proof -
  let ?w = "on_file p (fmode_update (\<lambda>_. private_mode)) (tick_on (tick_on (tick_on w)))"
  let ?f = "f\<lparr>fmode := private_mode\<rparr>"
  have "faultless ?w" "files ?w p = Some ?f" "content ?f = log_bytes J us @ frag"
    using assms by simp_all
  from repair_tail_log[OF this assms(4)] obtain w' where
    r: "repair_tail J p ?w = (w', Inr (frag \<noteq> [] \<and> (\<exists>v. from_slice J frag = Inr v)))"
    and w': "faultless w'" "files w' = (files ?w)(p \<mapsto> ?f\<lparr>content :=
        (if \<exists>v. from_slice J frag = Inr v then log_bytes J us @ frag else log_bytes J us)\<rparr>)" by blast
  have ft: "fs_touch w = (tick_on w, Inr ())" using assms(1) by (simp add: fs_touch_def io_simps)
  have oa: "fs_open_append p (tick_on w) = (tick_on (tick_on w), Inr ())"
    using assms(1,2) by (simp add: fs_open_append_def io_step_faultless)
  have sp: "fs_set_private p (tick_on (tick_on w)) = (?w, Inr ())"
    using assms(1) by (simp add: fs_set_private_def io_step_faultless)
  show ?thesis using w' assms(2)
    by (intro exI[of _ w']) (auto simp: appender_open_def exists_file_def io_bind_def ft oa sp r io_return_def Let_def)
qed

text \<open>
  an interrupted append never swallows the next event. Whatever byte prefix of a log is on
  disk, opening the writer and appending one record leaves a clean log again: a prefix of the old
  one that holds every complete line, then the new record; it is synced and private.
\<close>

theorem append_after_crash:
  assumes "healthy J vs" and "faultless w"
    and "files w p = Some f" and "content f = take n (log_bytes J vs)"
  shows "\<exists>w1 a w2 a2 k g. appender_open J p w = (w1, Inr a) \<and> appender_append J a v w1 = (w2, a2, Inr ())
     \<and> k \<le> length vs \<and> (\<forall>j \<le> length vs. length (log_bytes J (take j vs)) \<le> n \<longrightarrow> j \<le> k)
     \<and> files w2 p = Some g \<and> content g = log_bytes J (take k vs @ [v])
     \<and> durable g = content g \<and> fmode g = private_mode"
proof -
  obtain k frag where k: "k \<le> length vs" and t: "take n (log_bytes J vs) = log_bytes J (take k vs) @ frag"
    and nn: "newline \<notin> set frag"
    and fr: "frag = [] \<or> (k < length vs \<and> frag = to_text J (vs ! k)) \<or> (\<exists>e. from_slice J frag = Inl e)"
    and le: "\<forall>j \<le> length vs. length (log_bytes J (take j vs)) \<le> n \<longrightarrow> j \<le> k"
    using assms(1) by (rule log_prefix_shape[where n = n])
  define whole where "whole = (frag \<noteq> [] \<and> (\<exists>v. from_slice J frag = Inr v))"
  let ?a = "\<lparr>app_path = p, app_open = True, prefix_newline = whole\<rparr>"
  let ?c = "if \<exists>v. from_slice J frag = Inr v then log_bytes J (take k vs) @ frag else log_bytes J (take k vs)"
  let ?f = "f\<lparr>fmode := private_mode, content := ?c\<rparr>"
  from appender_open_log[OF assms(2,3) _ nn] assms(4) t obtain w1 where
    w1: "appender_open J p w = (w1, Inr ?a)" "faultless w1" "files w1 = (files w)(p \<mapsto> ?f)"
    unfolding whole_def by force
  have "files w1 (app_path ?a) = Some ?f" using w1(3) by simp
  from appender_append_ok[OF w1(2) this] obtain w2 where
    w2: "appender_append J ?a v w1 = (w2, ?a\<lparr>prefix_newline := False\<rparr>, Inr ())"
      "files w2 p = Some (?f\<lparr>content := ?c @ appender_body J ?a v, durable := ?c @ appender_body J ?a v\<rparr>)"
    by fastforce
  let ?k = "if whole then Suc k else k"
  have "?k \<le> length vs \<and> ?c @ appender_body J ?a v = log_bytes J (take ?k vs @ [v])"
  proof (cases whole)
    case True
    then have "k < length vs" "frag = to_text J (vs ! k)" using fr by (auto simp: whole_def)
    then show ?thesis using True
      by (auto simp: appender_body_def whole_def take_Suc_conv_app_nth json_line_def)
  next
    case False
    then show ?thesis using k by (auto simp: appender_body_def whole_def json_line_def)
  qed
  moreover have "\<forall>j \<le> length vs. length (log_bytes J (take j vs)) \<le> n \<longrightarrow> j \<le> ?k"
    using le by (simp add: le_Suc_eq)
  ultimately show ?thesis using w1(1) w2 by (intro exI[of _ w1] exI[of _ ?a] exI[of _ w2] exI conjI) auto
qed

lemma appender_append_cases:
  assumes "app_open a" and "files w (app_path a) = Some f"
  obtains (ok) w' where "appender_append J a v w = (w', a\<lparr>prefix_newline := False\<rparr>, Inr ())"
      and "files w' = (files w)(app_path a \<mapsto>
        f\<lparr>content := content f @ appender_body J a v, durable := content f @ appender_body J a v\<rparr>)"
    | (err) w' e g n where "appender_append J a v w = (w', a\<lparr>prefix_newline := False, app_open := False\<rparr>, Inl e)"
      and "files w' = (files w)(app_path a \<mapsto> g)" and "content g = content f @ take n (appender_body J a v)"
proof -
  let ?b = "appender_body J a v"
  note defs = appender_append_def io_bind_def fs_write_all_def fs_sync_def io_step_def Let_def
  consider (torn) e where "fault w (tick w) = Some e"
    | (unsynced) e where "fault w (tick w) = None" "fault w (Suc (tick w)) = Some e"
    | (fine) "fault w (tick w) = None" "fault w (Suc (tick w)) = None"
    by (cases "fault w (tick w)"; cases "fault w (Suc (tick w))") auto
  then show thesis
  proof cases
    case torn
    let ?t = "torn w (tick w)"
    show thesis
      by (rule err[of "on_file (app_path a) (content_update (\<lambda>c. c @ take ?t ?b)) (tick_on w)" e
            "content_update (\<lambda>c. c @ take ?t ?b) f" ?t]) (use torn assms in \<open>simp_all add: defs\<close>)
  next
    case unsynced
    show thesis
      by (rule err[of "tick_on (on_file (app_path a) (content_update (\<lambda>c. c @ ?b)) (tick_on w))" e
            "content_update (\<lambda>c. c @ ?b) f" "length ?b"]) (use unsynced assms in \<open>simp_all add: defs\<close>)
  next
    case fine
    show thesis
      by (rule ok[of "on_file (app_path a) (\<lambda>f. f\<lparr>durable := content f\<rparr>)
            (tick_on (on_file (app_path a) (content_update (\<lambda>c. c @ ?b)) (tick_on w)))"])
        (use fine assms in \<open>auto simp: defs fun_eq_iff\<close>)
  qed
qed

text \<open>
  a failing append is all or a torn prefix. Success adds exactly the record and syncs it;
  failure leaves some prefix of the record's bytes behind and closes the writer, which from then
  on refuses every append without touching the file.
\<close>

theorem appender_append_all_or_poisoned:
  assumes "app_open a" and "files w (app_path a) = Some f"
  shows "case appender_append J a v w of
     (w', a', Inr _) \<Rightarrow> app_open a' \<and> files w' (app_path a) =
        Some (f\<lparr>content := content f @ appender_body J a v, durable := content f @ appender_body J a v\<rparr>)
   | (w', a', Inl _) \<Rightarrow> (\<exists>n. bytes_at w' (app_path a) = content f @ take n (appender_body J a v))
        \<and> (\<forall>w2 v2. \<exists>a3 e. appender_append J a' v2 w2 = (w2, a3, Inl e))"
  using assms(1,2)
proof (cases rule: appender_append_cases[where J = J and v = v])
  case (ok w')
  then show ?thesis using assms(1) by simp
next
  case (err w' e g n)
  then show ?thesis by (auto simp: bytes_at_def appender_append_def Let_def)
qed

section \<open>Worked instances\<close>

text \<open>A codec that knows one value, for instances about one record.\<close>

definition single_codec :: "json \<Rightarrow> codec" where
  "single_codec v = \<lparr>from_slice = (\<lambda>bs. if filter (\<lambda>c. c \<noteq> newline) bs = ''{}'' then Inr v else Inl ''expected value''),
     to_text = (\<lambda>_. ''{}''), to_pretty = (\<lambda>_. ''{}'')\<rparr>"

lemma healthy_single: "healthy (single_codec v) [v]"
  by (auto simp: healthy_def reads_back_def torn_unreadable_def single_codec_def newline_def less_Suc_eq numeral_2_eq_2)

text \<open>A log of two records cut in the middle of the second, in a world where nothing fails.\<close>

definition torn_world :: world where
  "torn_world = \<lparr>files = [''s'' \<mapsto> \<lparr>content = take 4 (log_bytes toy_codec [JInt 0, JInt 0]), durable = [], fmode = 420\<rparr>],
     tick = 0, fault = (\<lambda>_. None), torn = (\<lambda>_. 0), stamp = (\<lambda>_. []), uuid = (\<lambda>_. []), drawn = 0, pid = [],
     seconds = (\<lambda>_. 0), monotonic = (\<lambda>_. 0), network = (\<lambda>_ _. None), command = (\<lambda>_ _. None),
     env_var = (\<lambda>_. None), models_memo = None, auth_memo = None\<rparr>"

lemma healthy_toy: "healthy toy_codec [JInt 0, JInt 0]"
  by (auto simp: healthy_def reads_back_def torn_unreadable_def toy_codec_def toy_text_def toy_read_def
      newline_def Let_def less_Suc_eq numeral_2_eq_2)

theorem read_checked_any_prefix_witness:
  "read_err (snd (read_checked toy_codec ''s'' torn_world)) = None \<and>
    (\<exists>k \<le> length [JInt 0, JInt 0]. map jvalue (records (snd (read_checked toy_codec ''s'' torn_world))) = take k [JInt 0, JInt 0] \<and>
       (\<forall>j \<le> length [JInt 0, JInt 0]. length (log_bytes toy_codec (take j [JInt 0, JInt 0])) \<le> 4 \<longrightarrow> j \<le> k))"
  by (rule read_checked_any_prefix[OF healthy_toy, of torn_world "''s''"
        "\<lparr>content = take 4 (log_bytes toy_codec [JInt 0, JInt 0]), durable = [], fmode = 420\<rparr>" 4])
    (simp_all add: torn_world_def faultless_def)

theorem append_after_crash_witness:
  "\<exists>w1 a w2 a2 k g. appender_open toy_codec ''s'' torn_world = (w1, Inr a)
     \<and> appender_append toy_codec a (JInt 7) w1 = (w2, a2, Inr ())
     \<and> k \<le> length [JInt 0, JInt 0]
     \<and> (\<forall>j \<le> length [JInt 0, JInt 0]. length (log_bytes toy_codec (take j [JInt 0, JInt 0])) \<le> 4 \<longrightarrow> j \<le> k)
     \<and> files w2 ''s'' = Some g \<and> content g = log_bytes toy_codec (take k [JInt 0, JInt 0] @ [JInt 7])
     \<and> durable g = content g \<and> fmode g = private_mode"
  by (rule append_after_crash[OF healthy_toy, of torn_world "''s''"
        "\<lparr>content = take 4 (log_bytes toy_codec [JInt 0, JInt 0]), durable = [], fmode = 420\<rparr>" 4])
    (simp_all add: torn_world_def faultless_def)

theorem appender_append_all_or_poisoned_witness:
  "case appender_append toy_codec \<lparr>app_path = ''s'', app_open = True, prefix_newline = True\<rparr> (JInt 1) torn_world of
     (w', a', Inr _) \<Rightarrow> app_open a' \<and> bytes_at w' ''s'' = ''[]'' @ [newline] @ ''['' @ [newline] @ ''[1]'' @ [newline]
   | (w', a', Inl _) \<Rightarrow> False"
  using appender_append_all_or_poisoned[of "\<lparr>app_path = ''s'', app_open = True, prefix_newline = True\<rparr>" torn_world _ toy_codec "JInt 1"]
  by (simp add: torn_world_def appender_append_def io_bind_def fs_write_all_def fs_sync_def io_step_def
      bytes_at_def Let_def appender_body_def toy_codec_def toy_text_def json_line_def log_bytes_def newline_def)

end
