(* ===== verification/Event_Model.thy ===== *)
theory Event_Model
  imports Json_Value
begin

text \<open>
  \<open>events.rs\<close>: the event vocabulary, its JSON form (what \<open>serde\<close> derives from the struct's
  attributes) and the classification of failures. A timestamp is passed in: \<open>Event::new\<close> reads
  the clock, and its callers here hand over the reading.
\<close>

definition START :: string where "START = ''start''"
definition TEXT :: string where "TEXT = ''text''"
definition THINKING :: string where "THINKING = ''thinking''"
definition TOOL_CALL :: string where "TOOL_CALL = ''tool.call''"
definition TOOL_RESULT :: string where "TOOL_RESULT = ''tool.result''"
definition END :: string where "END = ''end''"
definition INJECTED :: string where "INJECTED = ''injected''"
definition ERROR :: string where "ERROR = ''error''"
definition SWITCH_PROVIDER :: string where "SWITCH_PROVIDER = ''switch_provider''"
definition NEW_SESSION :: string where "NEW_SESSION = ''new_session''"
definition CONFIG :: string where "CONFIG = ''config''"

lemmas event_types = START_def TEXT_def THINKING_def TOOL_CALL_def TOOL_RESULT_def END_def INJECTED_def
  ERROR_def SWITCH_PROVIDER_def NEW_SESSION_def CONFIG_def

definition SCHEMA_VERSION :: int where "SCHEMA_VERSION = 1"

definition AUTH :: string where "AUTH = ''auth''"
definition LIMIT :: string where "LIMIT = ''limit''"
definition CONTEXT_LIMIT :: string where "CONTEXT_LIMIT = ''context_limit''"
definition UNAVAILABLE :: string where "UNAVAILABLE = ''unavailable''"
definition CRASH :: string where "CRASH = ''crash''"

lemmas error_kinds = AUTH_def LIMIT_def CONTEXT_LIMIT_def UNAVAILABLE_def CRASH_def

definition HISTORY_TYPES :: "string list" where
  "HISTORY_TYPES = [START, INJECTED, TEXT, THINKING, TOOL_CALL, TOOL_RESULT]"

record event =
  ev_v :: int
  ev_type :: string
  ev_session :: string
  ev_provider :: string
  ev_model :: string
  ev_text :: string
  ev_tool :: string
  ev_id :: string
  ev_args :: jmap
  ev_result :: json
  ev_ok :: bool
  ev_kind :: string
  ev_error :: string
  ev_at :: string
  ev_seq :: int
  ev_turn :: int
  ev_native :: jmap
  ev_extra :: jmap

definition event_new :: "string \<Rightarrow> string \<Rightarrow> event" where
  "event_new now ty =
     \<lparr>ev_v = SCHEMA_VERSION, ev_type = ty, ev_session = [], ev_provider = [], ev_model = [], ev_text = [],
      ev_tool = [], ev_id = [], ev_args = [], ev_result = JNull, ev_ok = True, ev_kind = [], ev_error = [],
      ev_at = now, ev_seq = -1, ev_turn = -1, ev_native = [], ev_extra = []\<rparr>"

definition failure :: "string \<Rightarrow> string \<Rightarrow> string \<Rightarrow> event" where
  "failure now kind err = (event_new now ERROR)\<lparr>ev_ok := False, ev_kind := kind, ev_error := err\<rparr>"

definition config_event :: "string \<Rightarrow> string \<Rightarrow> event" where
  "config_event now what = (event_new now CONFIG)\<lparr>ev_text := what\<rparr>"

text \<open>The builder methods \<open>from\<close>, \<open>about\<close>, \<open>saying\<close>, \<open>with\<close> and \<open>extras\<close>.\<close>

definition from_provider :: "string \<Rightarrow> event \<Rightarrow> event" where
  "from_provider p e = e\<lparr>ev_provider := p\<rparr>"

definition about :: "string \<Rightarrow> event \<Rightarrow> event" where
  "about m e = e\<lparr>ev_model := m\<rparr>"

definition saying :: "string \<Rightarrow> event \<Rightarrow> event" where
  "saying t e = e\<lparr>ev_text := t\<rparr>"

definition with_extra :: "string \<Rightarrow> json \<Rightarrow> event \<Rightarrow> event" where
  "with_extra k v e = e\<lparr>ev_extra := bt_insert k v (ev_extra e)\<rparr>"

definition extras :: "jmap \<Rightarrow> event \<Rightarrow> event" where
  "extras m e = e\<lparr>ev_extra := m\<rparr>"

definition is_type :: "event \<Rightarrow> string \<Rightarrow> bool" where
  "is_type e ty \<longleftrightarrow> ev_type e = ty"

definition is_history :: "event \<Rightarrow> bool" where
  "is_history e \<longleftrightarrow> ev_type e \<in> set HISTORY_TYPES"

section \<open>The JSON form\<close>

text \<open>Each field in the order declared, left out where its \<open>skip_serializing_if\<close> says so.\<close>

definition put_str :: "string \<Rightarrow> string \<Rightarrow> jmap \<Rightarrow> jmap" where
  "put_str k s m = (if s = [] then m else bt_insert k (JString s) m)"

definition put_map :: "string \<Rightarrow> jmap \<Rightarrow> jmap \<Rightarrow> jmap" where
  "put_map k v m = (if v = [] then m else bt_insert k (JObject v) m)"

definition put_placed :: "string \<Rightarrow> int \<Rightarrow> jmap \<Rightarrow> jmap" where
  "put_placed k n m = (if n < 0 then m else bt_insert k (JInt n) m)"

definition put_ok :: "bool \<Rightarrow> jmap \<Rightarrow> jmap" where
  "put_ok b m = (if b then m else bt_insert ''ok'' (JBool False) m)"

definition put_result :: "json \<Rightarrow> jmap \<Rightarrow> jmap" where
  "put_result v m = (if is_null v then m else bt_insert ''result'' v m)"

definition to_fields :: "event \<Rightarrow> jmap" where
  "to_fields e =
     (put_map ''extra'' (ev_extra e)
     (put_map ''native'' (ev_native e)
     (put_placed ''turn'' (ev_turn e)
     (put_placed ''seq'' (ev_seq e)
     (bt_insert ''at'' (JString (ev_at e))
     (put_str ''error'' (ev_error e)
     (put_str ''kind'' (ev_kind e)
     (put_ok (ev_ok e)
     (put_result (ev_result e)
     (put_map ''args'' (ev_args e)
     (put_str ''id'' (ev_id e)
     (put_str ''tool'' (ev_tool e)
     (put_str ''text'' (ev_text e)
     (put_str ''model'' (ev_model e)
     (put_str ''provider'' (ev_provider e)
     (put_str ''session'' (ev_session e)
     (bt_insert ''type'' (JString (ev_type e))
     (bt_insert ''v'' (JInt (ev_v e)) []))))))))))))))))))"

definition to_value :: "event \<Rightarrow> json" where
  "to_value e = JObject (to_fields e)"

text \<open>Reading a field back: its default when absent, an error when of another type.\<close>

definition field :: "(json \<Rightarrow> 'a option) \<Rightarrow> 'a \<Rightarrow> jmap \<Rightarrow> string \<Rightarrow> 'a option" where
  "field rd dflt m k = (case bt_get m k of None \<Rightarrow> Some dflt | Some v \<Rightarrow> rd v)"

definition event_field_names :: "string list" where
  "event_field_names = [''v'', ''type'', ''session'', ''provider'', ''model'', ''text'', ''tool'', ''id'', ''args'',
     ''result'', ''ok'', ''kind'', ''error'', ''at'', ''seq'', ''turn'', ''native'', ''extra'']"

text \<open>A derived struct reads from an object by name, or from an array by position.\<close>

definition struct_fields :: "string list \<Rightarrow> json \<Rightarrow> jmap option" where
  "struct_fields names v =
     (case v of
        JObject m \<Rightarrow> Some m
      | JArray vs \<Rightarrow> if length vs \<le> length names then Some (zip names vs) else None
      | _ \<Rightarrow> None)"

definition from_fields :: "jmap \<Rightarrow> event option" where
  "from_fields m =
     Option.bind (field as_i64 SCHEMA_VERSION m ''v'') (\<lambda>v.
     Option.bind (Option.bind (bt_get m ''type'') as_str) (\<lambda>ty.
     Option.bind (field as_str [] m ''session'') (\<lambda>se.
     Option.bind (field as_str [] m ''provider'') (\<lambda>pr.
     Option.bind (field as_str [] m ''model'') (\<lambda>mo.
     Option.bind (field as_str [] m ''text'') (\<lambda>te.
     Option.bind (field as_str [] m ''tool'') (\<lambda>tool.
     Option.bind (field as_str [] m ''id'') (\<lambda>i.
     Option.bind (field as_object [] m ''args'') (\<lambda>args.
     Option.bind (field Some JNull m ''result'') (\<lambda>res.
     Option.bind (field as_bool True m ''ok'') (\<lambda>okay.
     Option.bind (field as_str [] m ''kind'') (\<lambda>ki.
     Option.bind (field as_str [] m ''error'') (\<lambda>er.
     Option.bind (field as_str [] m ''at'') (\<lambda>when_at.
     Option.bind (field as_i64 (-1) m ''seq'') (\<lambda>sq.
     Option.bind (field as_i64 (-1) m ''turn'') (\<lambda>tu.
     Option.bind (field as_object [] m ''native'') (\<lambda>na.
     Option.bind (field as_object [] m ''extra'') (\<lambda>ex.
     Some \<lparr>ev_v = v, ev_type = ty, ev_session = se, ev_provider = pr, ev_model = mo, ev_text = te,
       ev_tool = tool, ev_id = i, ev_args = args, ev_result = res, ev_ok = okay, ev_kind = ki, ev_error = er,
       ev_at = when_at, ev_seq = sq, ev_turn = tu, ev_native = na, ev_extra = ex\<rparr>))))))))))))))))))"

definition from_value :: "json \<Rightarrow> event option" where
  "from_value v = Option.bind (struct_fields event_field_names v) from_fields"

section \<open>Which sort of failure\<close>

fun has_phrase :: "string list \<Rightarrow> string list \<Rightarrow> bool" where
  "has_phrase wanted [] = (wanted = [])"
| "has_phrase wanted (x # xs) = (take (length wanted) (x # xs) = wanted \<or> has_phrase wanted xs)"

definition context_words :: "string list \<Rightarrow> bool" where
  "context_words ws \<longleftrightarrow>
     (let has = (\<lambda>wanted. \<exists>w \<in> set ws. w \<in> set wanted); phrase = (\<lambda>wanted. has_phrase wanted ws) in
      has [''contextwindowexceeded'', ''contextlengthexceeded'']
      \<or> phrase [''context'', ''window'', ''exceeded'']
      \<or> phrase [''context'', ''length'', ''exceeded'']
      \<or> phrase [''context'', ''limit'']
      \<or> phrase [''prompt'', ''is'', ''too'', ''long'']
      \<or> phrase [''prompt'', ''too'', ''long'']
      \<or> phrase [''input'', ''is'', ''too'', ''long'']
      \<or> phrase [''maximum'', ''context'', ''length'']
      \<or> phrase [''exceeds'', ''the'', ''context'', ''window'']
      \<or> (phrase [''context'', ''window''] \<and> phrase [''ran'', ''out'', ''of'', ''room''])
      \<or> (has [''tokens''] \<and> phrase [''exceeds'', ''the'', ''maximum'']))"

definition auth_words :: "string list \<Rightarrow> bool" where
  "auth_words ws \<longleftrightarrow>
     (\<exists>w \<in> set ws. w \<in> set [''auth'', ''oauth'', ''authentication'', ''authorization'', ''unauthenticated'',
        ''unauthorized'', ''login'', ''signin'', ''401''])
     \<or> has_phrase [''sign'', ''in''] ws"

definition limit_words :: "string list \<Rightarrow> bool" where
  "limit_words ws \<longleftrightarrow> (\<exists>w \<in> set ws. w \<in> set [''rate'', ''ratelimit'', ''ratelimits'', ''limit'', ''limited'',
     ''quota'', ''429''])"

definition unavailable_words :: "string list \<Rightarrow> bool" where
  "unavailable_words ws \<longleftrightarrow>
     (\<exists>w \<in> set ws. w \<in> set [''overload'', ''overloaded'', ''unavailable'', ''disconnect'', ''disconnected'',
        ''disconnection'', ''timeout'', ''timeouts'', ''404'', ''502'', ''503''])
     \<or> has_phrase [''timed'', ''out''] ws
     \<or> has_phrase [''model'', ''not'', ''found''] ws
     \<or> has_phrase [''invalid'', ''model''] ws"

definition classify :: "string \<Rightarrow> string" where
  "classify text =
     (let ws = words_of (to_lower text) in
      if context_words ws then CONTEXT_LIMIT
      else if auth_words ws then AUTH
      else if limit_words ws then LIMIT
      else if unavailable_words ws then UNAVAILABLE
      else CRASH)"

section \<open>Facts\<close>

lemma event_new_simps [simp]:
  "ev_type (event_new now ty) = ty" "ev_seq (event_new now ty) = -1" "ev_turn (event_new now ty) = -1"
  "ev_v (event_new now ty) = 1" "ev_session (event_new now ty) = []" "ev_provider (event_new now ty) = []"
  "ev_text (event_new now ty) = []" "ev_extra (event_new now ty) = []" "ev_model (event_new now ty) = []"
  "ev_kind (event_new now ty) = []" "ev_error (event_new now ty) = []"
  by (simp_all add: event_new_def SCHEMA_VERSION_def)

lemma builder_simps [simp]:
  "ev_type (failure now k err) = ERROR" "ev_type (config_event now what) = CONFIG"
  "ev_type (from_provider p e) = ev_type e" "ev_type (about m e) = ev_type e" "ev_type (saying t e) = ev_type e"
  "ev_type (with_extra k v e) = ev_type e" "ev_type (extras ex e) = ev_type e"
  "ev_extra (with_extra k v e) = bt_insert k v (ev_extra e)" "ev_text (saying t e) = t"
  "ev_extra (saying t e) = ev_extra e" "ev_turn (saying t e) = ev_turn e" "ev_turn (with_extra k v e) = ev_turn e"
  "ev_kind (failure now k err) = k" "ev_provider (from_provider p e) = p"
  "ev_kind (from_provider p e) = ev_kind e" "ev_error (failure now k err) = err"
  "ev_error (from_provider p e) = ev_error e" "ev_text (with_extra k v e) = ev_text e"
  by (simp_all add: failure_def config_event_def from_provider_def about_def saying_def with_extra_def extras_def)

text \<open>An event that the log can hold: its numbers fit, and an unplaced position is -1.\<close>

definition placed :: "int \<Rightarrow> bool" where
  "placed n \<longleftrightarrow> -1 \<le> n \<and> n \<le> i64_max"

definition storable :: "event \<Rightarrow> bool" where
  "storable e \<longleftrightarrow> fits_i64 (ev_v e) \<and> placed (ev_seq e) \<and> placed (ev_turn e)"

lemma bt_get_puts [simp]:
  "bt_get (put_str k s m) k' = (if k' = k \<and> s \<noteq> [] then Some (JString s) else bt_get m k')"
  "bt_get (put_map k v m) k' = (if k' = k \<and> v \<noteq> [] then Some (JObject v) else bt_get m k')"
  "bt_get (put_placed k n m) k' = (if k' = k \<and> 0 \<le> n then Some (JInt n) else bt_get m k')"
  "bt_get (put_ok b m) k' = (if k' = ''ok'' \<and> \<not> b then Some (JBool False) else bt_get m k')"
  "bt_get (put_result x m) k' = (if k' = ''result'' \<and> x \<noteq> JNull then Some x else bt_get m k')"
  by (auto simp: put_str_def put_map_def put_placed_def put_ok_def put_result_def is_null_def)

lemma to_fields_get:
  "bt_get (to_fields e) ''v'' = Some (JInt (ev_v e))"
  "bt_get (to_fields e) ''type'' = Some (JString (ev_type e))"
  "bt_get (to_fields e) ''at'' = Some (JString (ev_at e))"
  "bt_get (to_fields e) ''session'' = (if ev_session e = [] then None else Some (JString (ev_session e)))"
  "bt_get (to_fields e) ''provider'' = (if ev_provider e = [] then None else Some (JString (ev_provider e)))"
  "bt_get (to_fields e) ''model'' = (if ev_model e = [] then None else Some (JString (ev_model e)))"
  "bt_get (to_fields e) ''text'' = (if ev_text e = [] then None else Some (JString (ev_text e)))"
  "bt_get (to_fields e) ''tool'' = (if ev_tool e = [] then None else Some (JString (ev_tool e)))"
  "bt_get (to_fields e) ''id'' = (if ev_id e = [] then None else Some (JString (ev_id e)))"
  "bt_get (to_fields e) ''kind'' = (if ev_kind e = [] then None else Some (JString (ev_kind e)))"
  "bt_get (to_fields e) ''error'' = (if ev_error e = [] then None else Some (JString (ev_error e)))"
  "bt_get (to_fields e) ''args'' = (if ev_args e = [] then None else Some (JObject (ev_args e)))"
  "bt_get (to_fields e) ''native'' = (if ev_native e = [] then None else Some (JObject (ev_native e)))"
  "bt_get (to_fields e) ''extra'' = (if ev_extra e = [] then None else Some (JObject (ev_extra e)))"
  "bt_get (to_fields e) ''seq'' = (if 0 \<le> ev_seq e then Some (JInt (ev_seq e)) else None)"
  "bt_get (to_fields e) ''turn'' = (if 0 \<le> ev_turn e then Some (JInt (ev_turn e)) else None)"
  "bt_get (to_fields e) ''ok'' = (if ev_ok e then None else Some (JBool False))"
  "bt_get (to_fields e) ''result'' = (if ev_result e = JNull then None else Some (ev_result e))"
  unfolding to_fields_def by simp_all

lemma from_fields_get:
  assumes "storable e"
  shows "from_fields (to_fields e) = Some e"
proof -
  let ?m = "to_fields e"
  have nums: "field as_i64 SCHEMA_VERSION ?m ''v'' = Some (ev_v e)"
    "field as_i64 (-1) ?m ''seq'' = Some (ev_seq e)" "field as_i64 (-1) ?m ''turn'' = Some (ev_turn e)"
    using assms by (auto simp: field_def to_fields_get storable_def placed_def fits_i64_def i64_min_def)
  have strs: "Option.bind (bt_get ?m ''type'') as_str = Some (ev_type e)" "field as_str [] ?m ''at'' = Some (ev_at e)"
    "field as_str [] ?m ''session'' = Some (ev_session e)"
    "field as_str [] ?m ''provider'' = Some (ev_provider e)"
    "field as_str [] ?m ''model'' = Some (ev_model e)"
    "field as_str [] ?m ''text'' = Some (ev_text e)"
    "field as_str [] ?m ''tool'' = Some (ev_tool e)"
    "field as_str [] ?m ''id'' = Some (ev_id e)"
    "field as_str [] ?m ''kind'' = Some (ev_kind e)"
    "field as_str [] ?m ''error'' = Some (ev_error e)"
    by (simp_all add: field_def to_fields_get)
  have rest: "field as_object [] ?m ''args'' = Some (ev_args e)" "field as_object [] ?m ''native'' = Some (ev_native e)"
    "field as_object [] ?m ''extra'' = Some (ev_extra e)" "field Some JNull ?m ''result'' = Some (ev_result e)"
    "field as_bool True ?m ''ok'' = Some (ev_ok e)"
    by (simp_all add: field_def to_fields_get)
  show ?thesis unfolding from_fields_def nums strs rest by simp
qed

lemma event_reads_back: "storable e \<Longrightarrow> from_value (to_value e) = Some e"
  by (simp add: from_value_def to_value_def struct_fields_def from_fields_get)

text \<open>the log loses nothing: every event omni can hold reads back from its JSON form unchanged.\<close>

theorem event_round_trip:
  assumes "storable e"
  shows "from_value (to_value e) = Some e"
  using assms by (rule event_reads_back)

theorem event_round_trip_witness:
  "let e = with_extra ''ids'' (JArray [JString ''m1'']) (saying ''hello'' (event_new ''now'' START))
   in from_value (to_value e) = Some e"
  unfolding Let_def
  by (rule event_round_trip)
    (simp add: storable_def placed_def fits_i64_def i64_min_def i64_max_def with_extra_def saying_def)

end
