(* ===== verification/Session_Store.thy ===== *)
theory Session_Store
  imports Jsonl_Log Event_Model
begin

text \<open>
  \<open>session/store.rs\<close>: the session file, an append-only log of events held in memory while the
  session is live, and the paths of \<open>shared/paths.rs\<close> it lives under. Loading stops at the first
  record that is not the event expected there; a store that found corruption refuses to append.
\<close>

section \<open>Paths\<close>

text \<open>\<open>Path::join\<close>: an absolute second part replaces the first.\<close>

definition path_join :: "string \<Rightarrow> string \<Rightarrow> string" where
  "path_join a b = (if b \<noteq> [] \<and> hd b = CHR ''/'' then b else a @ ''/'' @ b)"

definition sessions_dir :: "string \<Rightarrow> string" where
  "sessions_dir home = path_join home ''sessions''"

definition session_file :: "string \<Rightarrow> string \<Rightarrow> string" where
  "session_file home sid = path_join (sessions_dir home) (sid @ ''.jsonl'')"

definition meta_file :: "string \<Rightarrow> string \<Rightarrow> string" where
  "meta_file home sid = path_join (sessions_dir home) (sid @ ''.meta.json'')"

text \<open>\<open>paths::ensure\<close>: a directory is made private, and its entry synced; no file changes.\<close>

definition paths_ensure :: "unit io" where
  "paths_ensure = fs_touch"

section \<open>The store\<close>

datatype load_error =
    Invalid_event nat
  | Unsupported_schema int nat
  | Empty_type nat
  | Bad_sequence int nat int
  | Foreign_session nat string
  | Unreadable read_error

record store =
  st_session :: string
  st_path :: string
  st_events :: "event list"
  st_load_error :: "load_error option"
  st_appender :: "appender option"

definition expected_seq :: "event list \<Rightarrow> int" where
  "expected_seq evs = (if evs = [] then 0 else ev_seq (last evs) + 1)"

fun load_events :: "string \<Rightarrow> jrecord list \<Rightarrow> event list \<Rightarrow> event list \<times> load_error option" where
  "load_events sid [] evs = (evs, None)"
| "load_events sid (r # rs) evs =
     (case from_value (jvalue r) of
        None \<Rightarrow> (evs, Some (Invalid_event (line_no r)))
      | Some ev \<Rightarrow>
          if ev_v ev \<noteq> SCHEMA_VERSION then (evs, Some (Unsupported_schema (ev_v ev) (line_no r)))
          else if ev_type ev = [] then (evs, Some (Empty_type (line_no r)))
          else if ev_seq ev \<noteq> expected_seq evs
            then (evs, Some (Bad_sequence (ev_seq ev) (line_no r) (expected_seq evs)))
          else if ev_session ev \<noteq> [] \<and> ev_session ev \<noteq> sid
            then (evs, Some (Foreign_session (line_no r) (ev_session ev)))
          else load_events sid rs (evs @ [ev]))"

definition store_open :: "codec \<Rightarrow> string \<Rightarrow> string \<Rightarrow> world \<Rightarrow> world \<times> store" where
  "store_open J home sid w =
     (let path = session_file home sid;
          (w', report) = read_checked J path w;
          (evs, lerr) = load_events sid (records report) []
      in (w', \<lparr>st_session = sid, st_path = path, st_events = evs,
               st_load_error = (if lerr = None then map_option Unreadable (read_err report) else lerr),
               st_appender = None\<rparr>))"

text \<open>The words for what is wrong with a log, without those of the JSON reader.\<close>

fun read_error_text :: "read_error \<Rightarrow> string" where
  "read_error_text (Io_error (Some line) why) = ''could not read JSONL line '' @ show_nat line @ '': '' @ why"
| "read_error_text (Io_error None why) = ''could not open JSONL file: '' @ why"
| "read_error_text (Malformed line why) = ''malformed JSON on complete line '' @ show_nat line @ '': '' @ why"

fun load_error_text :: "string \<Rightarrow> load_error \<Rightarrow> string" where
  "load_error_text sid (Invalid_event line) = ''invalid event on line '' @ show_nat line"
| "load_error_text sid (Unsupported_schema v line) =
     ''unsupported event schema '' @ show_int v @ '' on line '' @ show_nat line @ ''; expected '' @ show_int SCHEMA_VERSION"
| "load_error_text sid (Empty_type line) = ''invalid event on line '' @ show_nat line @ '': type cannot be empty''"
| "load_error_text sid (Bad_sequence n line expected) =
     ''invalid event sequence '' @ show_int n @ '' on line '' @ show_nat line @ ''; expected '' @ show_int expected"
| "load_error_text sid (Foreign_session line other) =
     ''event on line '' @ show_nat line @ '' belongs to session '' @ quoted other @ '', not '' @ quoted sid"
| "load_error_text sid (Unreadable e) = read_error_text e"

definition store_seq :: "store \<Rightarrow> int" where
  "store_seq s = (if st_events s = [] then -1 else ev_seq (last (st_events s)))"

definition store_turn :: "store \<Rightarrow> int" where
  "store_turn s = fold (\<lambda>e turn.
     if 0 \<le> ev_turn e then max turn (ev_turn e)
     else if is_type e START then turn + 1
     else turn) (st_events s) (-1)"

text \<open>The event as it is written: its position, and the session it belongs to.\<close>

definition stamped :: "store \<Rightarrow> event \<Rightarrow> event" where
  "stamped s e = e\<lparr>ev_seq := store_seq s + 1, ev_session := (if ev_session e = [] then st_session s else ev_session e)\<rparr>"

text \<open>The writer for the current path, kept or opened; a failed opening leaves the old one in place.\<close>

definition ready_appender :: "codec \<Rightarrow> store \<Rightarrow> appender io" where
  "ready_appender J s =
     (case st_appender s of
        Some a \<Rightarrow> if app_path a = st_path s then io_return a
                  else io_bind paths_ensure (\<lambda>_. appender_open J (st_path s))
      | None \<Rightarrow> io_bind paths_ensure (\<lambda>_. appender_open J (st_path s)))"

definition store_append :: "codec \<Rightarrow> event \<Rightarrow> store \<Rightarrow> world \<Rightarrow> world \<times> store \<times> event res" where
  "store_append J e s w =
     (case st_load_error s of
        Some _ \<Rightarrow> (w, s, Inl ''refusing to append to a corrupt session log'')
      | None \<Rightarrow>
          (case ready_appender J s w of
             (w1, Inl err) \<Rightarrow> (w1, s, Inl err)
           | (w1, Inr a) \<Rightarrow>
               (case appender_append J a (to_value (stamped s e)) w1 of
                  (w2, a2, Inl err) \<Rightarrow> (w2, s\<lparr>st_appender := Some a2\<rparr>, Inl err)
                | (w2, a2, Inr _) \<Rightarrow>
                    (w2, s\<lparr>st_appender := Some a2, st_events := st_events s @ [stamped s e]\<rparr>,
                     Inr (stamped s e)))))"

definition store_events :: "int \<Rightarrow> store \<Rightarrow> event list" where
  "store_events since s = filter (\<lambda>e. since \<le> ev_seq e) (st_events s)"

definition store_history :: "int \<Rightarrow> store \<Rightarrow> event list" where
  "store_history since s = filter (\<lambda>e. since \<le> ev_seq e \<and> is_history e) (st_events s)"

section \<open>Positions are gapless\<close>

text \<open>The invariant of a log: the nth event has position n, is of this schema and this session.\<close>

definition gapless :: "event list \<Rightarrow> bool" where
  "gapless evs \<longleftrightarrow> map ev_seq evs = map int [0..<length evs]"

lemma gapless_Nil [simp]: "gapless []"
  by (simp add: gapless_def)

lemma gapless_expected: "gapless evs \<Longrightarrow> expected_seq evs = int (length evs)"
  by (cases evs rule: rev_cases) (auto simp: gapless_def expected_seq_def)

lemma gapless_snoc: "gapless (evs @ [e]) \<longleftrightarrow> gapless evs \<and> ev_seq e = int (length evs)"
  by (auto simp: gapless_def)

lemma gapless_store_seq: "gapless (st_events s) \<Longrightarrow> store_seq s = int (length (st_events s)) - 1"
  by (cases "st_events s" rule: rev_cases) (auto simp: gapless_def store_seq_def)

lemma gapless_nth: "gapless evs \<Longrightarrow> i < length evs \<Longrightarrow> ev_seq (evs ! i) = int i"
  by (metis gapless_def length_map nth_map nth_map_upt add_0 diff_zero)

lemma gapless_take:
  assumes "gapless evs"
  shows "gapless (take k evs)"
proof -
  have "map ev_seq (take k evs) = take k (map int [0..<length evs])"
    using assms by (metis gapless_def take_map)
  then show ?thesis by (auto simp: gapless_def take_map take_upt min_def)
qed

lemma gapless_filter:
  assumes "gapless evs"
  shows "filter (\<lambda>e. since \<le> ev_seq e) evs = drop (nat since) evs"
  using assms
proof (induction evs rule: rev_induct)
  case (snoc e evs)
  then show ?case by (auto simp: gapless_snoc)
qed simp

lemma load_events_gapless:
  "gapless evs \<Longrightarrow> gapless (fst (load_events sid rs evs))"
  by (induction sid rs evs rule: load_events.induct)
    (auto simp: gapless_snoc gapless_expected split: option.splits)


text \<open>
  What a client of a log relies on: an accepted item is the item placed, at the end; a refused
  one leaves the log as it was; placing keeps the log well formed.
\<close>

locale append_log =
  fixes app :: "'e \<Rightarrow> 's \<Rightarrow> 'w \<Rightarrow> 'w \<times> 's \<times> 'e res"
    and items :: "'s \<Rightarrow> 'e list"
    and place :: "'s \<Rightarrow> 'e \<Rightarrow> 'e"
    and wf :: "'e list \<Rightarrow> bool"
  assumes app_ok: "app e s w = (w', s', Inr e') \<Longrightarrow> e' = place s e \<and> items s' = items s @ [e']"
    and app_err: "app e s w = (w', s', Inl m) \<Longrightarrow> items s' = items s"
    and place_wf: "wf (items s) \<Longrightarrow> wf (items s @ [place s e])"
begin

fun app_all :: "'e list \<Rightarrow> 's \<Rightarrow> 'w \<Rightarrow> 'w \<times> 's \<times> 'e list" where
  "app_all [] s w = (w, s, [])"
| "app_all (e # es) s w =
     (case app e s w of
        (w1, s1, Inl _) \<Rightarrow> app_all es s1 w1
      | (w1, s1, Inr e') \<Rightarrow> (case app_all es s1 w1 of (w2, s2, acc) \<Rightarrow> (w2, s2, e' # acc)))"

lemma app_prefix: "app e s w = (w', s', r) \<Longrightarrow> prefix (items s) (items s')"
  by (cases r) (auto dest: app_ok app_err)

lemma app_wf: "app e s w = (w', s', r) \<Longrightarrow> wf (items s) \<Longrightarrow> wf (items s')"
  by (cases r) (auto dest!: app_ok app_err simp: place_wf)

text \<open>The log is what it was and then exactly what was accepted, in the order it was accepted.\<close>

lemma app_all_items: "app_all es s w = (w', s', acc) \<Longrightarrow> items s' = items s @ acc"
proof (induction es s w arbitrary: w' s' acc rule: app_all.induct)
  case (2 e es s w)
  show ?case
  proof (cases "app e s w")
    case (fields w1 s1 r)
    then show ?thesis
      using "2.prems" "2.IH" by (cases r) (auto dest!: app_ok app_err split: prod.splits)
  qed
qed simp

lemma app_all_wf: "app_all es s w = (w', s', acc) \<Longrightarrow> wf (items s) \<Longrightarrow> wf (items s')"
proof (induction es s w arbitrary: w' s' acc rule: app_all.induct)
  case (2 e es s w)
  show ?case
  proof (cases "app e s w")
    case (fields w1 s1 r)
    with "2.prems"(2) have "wf (items s1)" by (auto dest: app_wf)
    then show ?thesis
      using fields "2.prems" "2.IH" by (cases r) (auto split: prod.splits)
  qed
qed simp

end

lemma store_append_Inr:
  "store_append J e s w = (w', s', Inr e') \<Longrightarrow>
     e' = stamped s e \<and> st_events s' = st_events s @ [e'] \<and> st_load_error s = None
     \<and> st_load_error s' = None \<and> st_session s' = st_session s \<and> st_path s' = st_path s"
  by (auto simp: store_append_def split: option.splits prod.splits sum.splits)

lemma store_append_Inl:
  "store_append J e s w = (w', s', Inl m) \<Longrightarrow>
     st_events s' = st_events s \<and> st_load_error s' = st_load_error s
     \<and> st_session s' = st_session s \<and> st_path s' = st_path s"
  by (auto simp: store_append_def split: option.splits prod.splits sum.splits)

lemma gapless_stamped: "gapless (st_events s) \<Longrightarrow> gapless (st_events s @ [stamped s e])"
  by (simp add: gapless_snoc stamped_def gapless_store_seq)

interpretation session_log: append_log "store_append J" st_events stamped gapless for J
  by unfold_locales (auto dest: store_append_Inr store_append_Inl simp: gapless_stamped)

section \<open>What a reopened log holds\<close>

definition of_session :: "string \<Rightarrow> event \<Rightarrow> bool" where
  "of_session sid e \<longleftrightarrow> ev_v e = SCHEMA_VERSION \<and> ev_type e \<noteq> [] \<and> (ev_session e = [] \<or> ev_session e = sid)"

definition valid_event :: "string \<Rightarrow> event \<Rightarrow> bool" where
  "valid_event sid e \<longleftrightarrow> storable e \<and> of_session sid e"

definition valid_log :: "string \<Rightarrow> event list \<Rightarrow> bool" where
  "valid_log sid evs \<longleftrightarrow> gapless evs \<and> (\<forall>e \<in> set evs. valid_event sid e)"

lemma load_events_sound:
  "list_all (of_session sid) evs \<Longrightarrow> list_all (of_session sid) (fst (load_events sid rs evs))"
proof (induction sid rs evs rule: load_events.induct)
  case (2 sid r rs evs)
  show ?case
  proof (cases "from_value (jvalue r)")
    case (Some ev)
    show ?thesis
    proof (cases "of_session sid ev \<and> ev_seq ev = expected_seq evs")
      case True
      then have "list_all (of_session sid) (fst (load_events sid rs (evs @ [ev])))"
        using "2.prems" by (intro "2.IH"[OF Some]) (auto simp: of_session_def[of sid ev])
      with True show ?thesis by (auto simp: Some of_session_def[of sid ev])
    next
      case False
      then show ?thesis using "2.prems" by (auto simp: Some of_session_def[of sid ev])
    qed
  qed (use "2.prems" in simp)
qed simp

lemma load_events_complete:
  "valid_log sid (evs0 @ evs) \<Longrightarrow> load_events sid (numbered n (map to_value evs)) evs0 = (evs0 @ evs, None)"
proof (induction evs arbitrary: evs0 n)
  case (Cons e evs)
  have v: "valid_event sid e" using Cons.prems by (simp add: valid_log_def)
  have g: "gapless (evs0 @ [e])"
    using Cons.prems gapless_take[of "evs0 @ e # evs" "Suc (length evs0)"] by (simp add: valid_log_def)
  from g have "ev_seq e = expected_seq evs0" by (simp add: gapless_snoc gapless_expected)
  moreover have "load_events sid (numbered (Suc n) (map to_value evs)) (evs0 @ [e]) = ((evs0 @ [e]) @ evs, None)"
    using Cons.prems by (intro Cons.IH) simp
  ultimately show ?case using v by (simp add: valid_event_def of_session_def event_reads_back)
qed simp

lemma valid_log_take: "valid_log sid evs \<Longrightarrow> valid_log sid (take k evs)"
  by (auto simp: valid_log_def gapless_take dest: in_set_takeD)


text \<open>
  The file of a live log: its lines are the events in memory (or it is not there yet and there
  are none), and the writer, when one is open, has no repair left to do.
\<close>

definition on_disk :: "codec \<Rightarrow> world \<Rightarrow> store \<Rightarrow> bool" where
  "on_disk J w s \<longleftrightarrow>
     (case files w (st_path s) of
        None \<Rightarrow> st_events s = [] \<and> st_appender s = None
      | Some f \<Rightarrow> content f = log_bytes J (map to_value (st_events s)))
     \<and> (\<forall>a. st_appender s = Some a \<longrightarrow> app_path a = st_path s \<and> app_open a \<and> \<not> prefix_newline a)"

text \<open>Opening a writer on complete lines changes no byte, whichever of its steps fails.\<close>

lemma repair_tail_clean:
  assumes "files w p = Some f" and "content f = log_bytes J us"
  shows "\<exists>w' r. repair_tail J p w = (w', r) \<and> files w' = files w \<and> (\<forall>b. r = Inr b \<longrightarrow> \<not> b)"
proof -
  have nl: "us \<noteq> [] \<Longrightarrow> last (log_bytes J us) = newline"
    by (cases us rule: rev_cases) (auto simp: json_line_def)
  have ft: "fs_touch u = (case fault u (tick u) of Some e \<Rightarrow> (tick_on u, Inl e) | None \<Rightarrow> (tick_on u, Inr ()))" for u
    by (simp add: fs_touch_def io_step_def)
  have b: "bytes_at (tick_on u) p = bytes_at u p" for u by (simp add: bytes_at_def)
  have c: "bytes_at w p = log_bytes J us" using assms by (simp add: bytes_at_def)
  show ?thesis
    by (cases us rule: rev_cases)
      (auto simp: repair_tail_def io_bind_def ft b c Let_def json_line_def split: option.splits)
qed

definition holds :: "codec \<Rightarrow> string \<Rightarrow> json list \<Rightarrow> world \<Rightarrow> bool" where
  "holds J p us w \<longleftrightarrow> (case files w p of None \<Rightarrow> us = [] | Some f \<Rightarrow> content f = log_bytes J us)"

definition there :: "codec \<Rightarrow> string \<Rightarrow> json list \<Rightarrow> world \<Rightarrow> bool" where
  "there J p us w \<longleftrightarrow> files w p \<noteq> None \<and> holds J p us w"

lemma holds_tick [simp]: "holds J p us (tick_on w) = holds J p us w" "there J p us (tick_on w) = there J p us w"
  by (simp_all add: holds_def there_def)

lemma there_holds: "there J p us w \<Longrightarrow> holds J p us w"
  by (simp add: there_def)

lemma touch_holds: "io_triple (holds J p us) fs_touch (\<lambda>_. holds J p us) (holds J p us)"
  unfolding fs_touch_def by (rule io_triple_step) simp_all

lemma touch_there: "io_triple (there J p us) fs_touch (\<lambda>_. there J p us) (holds J p us)"
  unfolding fs_touch_def by (rule io_triple_step) (simp_all add: there_holds)

lemma open_append_there: "io_triple (holds J p us) (fs_open_append p) (\<lambda>_. there J p us) (holds J p us)"
  unfolding fs_open_append_def
  by (rule io_triple_step) (auto simp: holds_def there_def empty_file_def split: option.splits)

lemma set_private_there: "io_triple (there J p us) (fs_set_private p) (\<lambda>_. there J p us) (holds J p us)"
  unfolding fs_set_private_def
  by (rule io_triple_step) (auto simp: holds_def there_def split: option.splits)

lemma repair_there: "io_triple (there J p us) (repair_tail J p) (\<lambda>b w. there J p us w \<and> \<not> b) (holds J p us)"
proof -
  have "case repair_tail J p w of (w', Inr b) \<Rightarrow> there J p us w' \<and> \<not> b | (w', Inl e) \<Rightarrow> holds J p us w'"
    if "there J p us w" for w
  proof -
    from that obtain f where "files w p = Some f" "content f = log_bytes J us"
      by (auto simp: there_def holds_def)
    from repair_tail_clean[OF this] obtain w' r where "repair_tail J p w = (w', r)" "files w' = files w"
      "\<forall>b. r = Inr b \<longrightarrow> \<not> b" by blast
    then show ?thesis using that by (cases r) (auto simp: there_def holds_def)
  qed
  then show ?thesis by (simp add: io_triple_def)
qed

definition fresh_appender :: "string \<Rightarrow> appender" where
  "fresh_appender p = \<lparr>app_path = p, app_open = True, prefix_newline = False\<rparr>"

lemma appender_open_holds:
  "io_triple (holds J p us) (appender_open J p) (\<lambda>a w. there J p us w \<and> a = fresh_appender p) (holds J p us)"
proof -
  let ?Q = "\<lambda>a w. there J p us w \<and> a = fresh_appender p"
  have maybe: "io_triple (\<lambda>w. there J p us w \<and> \<not> b) (if ex then io_return () else fs_touch)
      (\<lambda>_ w. there J p us w \<and> \<not> b) (holds J p us)" for b ex
    by (cases ex) (auto simp: fs_touch_def there_holds intro: io_triple_return io_triple_step)
  have finish: "io_triple (\<lambda>w. there J p us w \<and> \<not> b)
      (io_return \<lparr>app_path = p, app_open = True, prefix_newline = b\<rparr>) ?Q (holds J p us)" for b
    by (rule io_triple_return) (simp add: fresh_appender_def)
  have body: "io_triple (holds J p us) (io_bind fs_touch (\<lambda>_. io_bind (fs_open_append p) (\<lambda>_. io_bind (fs_set_private p) (\<lambda>_.
      io_bind (repair_tail J p) (\<lambda>b. io_bind (if ex then io_return () else fs_touch) (\<lambda>_.
      io_return \<lparr>app_path = p, app_open = True, prefix_newline = b\<rparr>)))))) ?Q (holds J p us)" for ex
    by (rule io_triple_bind[OF touch_holds], rule io_triple_bind[OF open_append_there],
        rule io_triple_bind[OF set_private_there], rule io_triple_bind[OF repair_there],
        rule io_triple_bind[OF maybe finish])
  show ?thesis unfolding io_triple_def appender_open_def Let_def
    by (intro allI impI) (rule body[unfolded io_triple_def, rule_format])
qed

lemma ready_appender_holds:
  assumes "on_disk J w s"
  obtains w1 where "ready_appender J s w = (w1, Inr (fresh_appender (st_path s)))"
      and "there J (st_path s) (map to_value (st_events s)) w1"
    | w1 e where "ready_appender J s w = (w1, Inl e)" and "holds J (st_path s) (map to_value (st_events s)) w1"
proof (cases "st_appender s")
  case None
  let ?us = "map to_value (st_events s)"
  have tr: "io_triple (holds J (st_path s) ?us) (ready_appender J s)
      (\<lambda>a w. there J (st_path s) ?us w \<and> a = fresh_appender (st_path s)) (holds J (st_path s) ?us)"
    unfolding ready_appender_def None paths_ensure_def option.case
    by (rule io_triple_bind[OF touch_holds appender_open_holds])
  have h: "holds J (st_path s) (map to_value (st_events s)) w"
    using assms by (auto simp: on_disk_def holds_def split: option.splits)
  show thesis by (rule io_tripleE[OF tr h]) (auto intro: that)
next
  case (Some a)
  then have "a = fresh_appender (st_path s)" using assms by (simp add: on_disk_def fresh_appender_def)
  moreover have "there J (st_path s) (map to_value (st_events s)) w"
    using assms Some by (auto simp: on_disk_def there_def holds_def split: option.splits)
  ultimately show thesis using that(1) Some by (simp add: ready_appender_def io_return_def fresh_appender_def)
qed

lemma map_to_value_snoc: "log_bytes J (map to_value (evs @ [e])) = log_bytes J (map to_value evs) @ json_line J (to_value e)"
  by simp

text \<open>
  Whatever fails while an event is appended, the file holds a byte prefix of the log with the
  event, no shorter than the log without it; after success it is the whole.
\<close>

lemma store_append_bytes:
  assumes "on_disk J w s" and "store_append J e s w = (w', s', r)"
  defines "evs \<equiv> map to_value (st_events s @ [stamped s e])"
  shows "(files w' (st_path s) = None \<longrightarrow> st_events s = [] \<and> (\<exists>m. r = Inl m)) \<and>
    (\<forall>f. files w' (st_path s) = Some f \<longrightarrow>
       (\<exists>n. content f = take n (log_bytes J evs) \<and> length (log_bytes J (map to_value (st_events s))) \<le> n
          \<and> (\<forall>e'. r = Inr e' \<longrightarrow> content f = log_bytes J evs)))"
proof -
  let ?p = "st_path s" and ?us = "map to_value (st_events s)"
  have log: "log_bytes J evs = log_bytes J ?us @ json_line J (to_value (stamped s e))" by (simp add: evs_def)
  have short: ?thesis if "holds J ?p ?us w'" and "r = Inl m" for m
    using that by (auto simp: holds_def log intro!: exI[of _ "length (log_bytes J ?us)"] split: option.splits)
  show ?thesis
  proof (cases "st_load_error s")
    case (Some x)
    then have "w' = w" "r = Inl ''refusing to append to a corrupt session log''"
      using assms(2) by (auto simp: store_append_def)
    moreover have "holds J ?p ?us w" using assms(1) by (auto simp: on_disk_def holds_def split: option.splits)
    ultimately show ?thesis using short by blast
  next
    case None
    from assms(1) show ?thesis
    proof (cases rule: ready_appender_holds)
      case (2 w1 err)
      then show ?thesis using None assms(2) short by (auto simp: store_append_def)
    next
      case (1 w1)
      let ?a = "fresh_appender ?p"
      from 1(2) obtain f where f: "files w1 (app_path ?a) = Some f" "content f = log_bytes J ?us"
        by (auto simp: there_def holds_def fresh_appender_def)
      have body: "appender_body J ?a (to_value (stamped s e)) = json_line J (to_value (stamped s e))"
        by (simp add: appender_body_def fresh_appender_def json_line_def)
      have p: "app_path ?a = ?p" "app_open ?a" by (simp_all add: fresh_appender_def)
      from p(2) f(1) show ?thesis
      proof (cases rule: appender_append_cases[where J = J and v = "to_value (stamped s e)"])
        case (ok w2)
        then have "w' = w2" using None 1(1) assms(2) by (simp add: store_append_def)
        then show ?thesis using ok(2) f(2) body p(1)
          by (auto simp: log intro: exI[of _ "length (log_bytes J evs)"])
      next
        case (err w2 m g n)
        then have "w' = w2" "r = Inl m" using None 1(1) assms(2) by (simp_all add: store_append_def)
        then show ?thesis using err(2,3) f(2) body p(1)
          by (auto simp: log intro: exI[of _ "length (log_bytes J ?us) + n"])
      qed
    qed
  qed
qed

section \<open>Properties of the store\<close>

text \<open>
  whatever the bytes on disk, what a store loads is a log without gaps: the nth event has
  position n, the current schema, a type, and no session but this one.
\<close>

theorem store_open_gapless:
  "gapless (st_events (snd (store_open J home sid w)))
   \<and> list_all (of_session sid) (st_events (snd (store_open J home sid w)))"
proof -
  obtain w' rep where r: "read_checked J (session_file home sid) w = (w', rep)" by fastforce
  obtain evs l where l: "load_events sid (records rep) [] = (evs, l)" by fastforce
  then show ?thesis
    using r load_events_gapless[OF gapless_Nil, of sid "records rep"] load_events_sound[of sid "[]" "records rep"]
    by (simp add: store_open_def Let_def)
qed

text \<open>What opening finds on a byte prefix of a valid log: a prefix of its events, and no error.\<close>

lemma store_open_prefix:
  assumes "valid_log sid evs" and "healthy J (map to_value evs)" and "faultless w"
    and "files w (session_file home sid) = Some f" and "content f = take n (log_bytes J (map to_value evs))"
  obtains k where "k \<le> length evs" and "st_events (snd (store_open J home sid w)) = take k evs"
    and "st_load_error (snd (store_open J home sid w)) = None"
    and "\<forall>j \<le> length evs. length (log_bytes J (take j (map to_value evs))) \<le> n \<longrightarrow> j \<le> k"
proof -
  obtain k where k: "k \<le> length (map to_value evs)"
    and r: "snd (read_checked J (session_file home sid) w) =
      \<lparr>missing = False, records = numbered 0 (take k (map to_value evs)), read_err = None\<rparr>"
    and le: "\<forall>j \<le> length (map to_value evs). length (log_bytes J (take j (map to_value evs))) \<le> n \<longrightarrow> j \<le> k"
    using assms(2-5) by (rule read_prefix_report)
  have "load_events sid (numbered 0 (take k (map to_value evs))) [] = (take k evs, None)"
    using load_events_complete[of sid "[]" "take k evs" 0] valid_log_take[OF assms(1)] by (simp add: take_map)
  then show thesis
    using k r le by (intro that[of k]) (auto simp: store_open_def Let_def split: prod.splits)
qed

text \<open>
  C2: no failure while appending loses or invents an event. Whatever step of an append fails, and
  wherever the write is cut, reopening the session finds an intact log: the events before, with or
  without the new one, and with it whenever the append was acknowledged.
\<close>

theorem store_append_survives:
  assumes "on_disk J w s" and "store_append J e s w = (w', s', r)"
    and "st_path s = session_file home (st_session s)"
    and "valid_log (st_session s) (st_events s @ [stamped s e])"
    and "healthy J (map to_value (st_events s @ [stamped s e]))"
    and "faultless w2" and "files w2 = files w'"
  shows "st_load_error (snd (store_open J home (st_session s) w2)) = None \<and>
    (st_events (snd (store_open J home (st_session s) w2)) = st_events s @ [stamped s e] \<or>
     ((\<exists>m. r = Inl m) \<and> st_events (snd (store_open J home (st_session s) w2)) = st_events s))"
proof -
  let ?evs = "st_events s @ [stamped s e]" and ?p = "session_file home (st_session s)"
  note bytes = store_append_bytes[OF assms(1,2), unfolded assms(3)]
  show ?thesis
  proof (cases "files w2 ?p")
    case None
    then have "st_events s = [] \<and> (\<exists>m. r = Inl m)" using bytes assms(7) by simp
    with None show ?thesis by (simp add: store_open_def read_checked_def no_report_def Let_def)
  next
    case (Some f)
    then have "files w' ?p = Some f" using assms(7) by simp
    from bytes[THEN conjunct2, rule_format, OF this] obtain n where c: "content f = take n (log_bytes J (map to_value ?evs))"
      and n: "length (log_bytes J (map to_value (st_events s))) \<le> n"
      and whole: "\<And>e'. r = Inr e' \<Longrightarrow> content f = log_bytes J (map to_value ?evs)"
      by blast
    define n' where "n' = (if \<exists>e'. r = Inr e' then length (log_bytes J (map to_value ?evs)) else n)"
    have c': "content f = take n' (log_bytes J (map to_value ?evs))"
      using c whole by (auto simp: n'_def)
    from store_open_prefix[OF assms(4,5,6) Some c'] obtain k where k: "k \<le> length ?evs"
      "st_events (snd (store_open J home (st_session s) w2)) = take k ?evs"
      "st_load_error (snd (store_open J home (st_session s) w2)) = None"
      "\<forall>j \<le> length ?evs. length (log_bytes J (take j (map to_value ?evs))) \<le> n' \<longrightarrow> j \<le> k" by blast
    have "length (st_events s) \<le> k" using k(4)[rule_format, of "length (st_events s)"] n
      by (auto simp: n'_def)
    moreover have "\<exists>e'. r = Inr e' \<Longrightarrow> length ?evs \<le> k"
      using k(4)[rule_format, of "length ?evs"] by (simp add: n'_def)
    ultimately show ?thesis using k(1-3) by (cases r) (auto simp: le_Suc_eq)
  qed
qed


text \<open>
  an append takes the next position or changes nothing. An accepted event is the given one
  with the position after the last, and becomes the end of a log that stays gapless; a refused
  one leaves the log as it was; and a log found corrupt accepts nothing and touches no file.
\<close>

theorem store_append_position:
  assumes "gapless (st_events s)" and "store_append J e s w = (w', s', r)"
  shows "(\<forall>e'. r = Inr e' \<longrightarrow> ev_seq e' = int (length (st_events s)) \<and> ev_text e' = ev_text e
             \<and> ev_extra e' = ev_extra e \<and> st_events s' = st_events s @ [e'] \<and> gapless (st_events s'))
       \<and> (\<forall>m. r = Inl m \<longrightarrow> st_events s' = st_events s)
       \<and> (st_load_error s \<noteq> None \<longrightarrow> (\<exists>m. r = Inl m) \<and> w' = w \<and> s' = s)"
proof (intro conjI allI impI)
  fix e' assume r: "r = Inr e'"
  note ok = store_append_Inr[OF assms(2)[unfolded r]]
  show "ev_seq e' = int (length (st_events s))" "ev_text e' = ev_text e" "ev_extra e' = ev_extra e"
    using ok gapless_store_seq[OF assms(1)] by (simp_all add: stamped_def)
  show "st_events s' = st_events s @ [e']" using ok by blast
  show "gapless (st_events s')" using session_log.app_wf[OF assms(2,1)] .
next
  fix m assume "r = Inl m"
  then show "st_events s' = st_events s" using store_append_Inl assms(2) by blast
qed (use assms(2) in \<open>auto simp: store_append_def\<close>)

text \<open>
  A sequence of appends, with any failures in between, leaves exactly the accepted events
  after the ones that were there, in order.
\<close>

theorem store_appends_in_order:
  "case session_log.app_all J es s w of (w', s', accepted) \<Rightarrow>
     st_events s' = st_events s @ accepted \<and> (gapless (st_events s) \<longrightarrow> gapless (st_events s'))"
  using session_log.app_all_items session_log.app_all_wf by (auto split: prod.split)

text \<open>
  Coming back to a position replays exactly what was recorded since: the events before it and
  the events from it on are the whole log, and the history is the conversation part of the latter.
\<close>

theorem store_events_since:
  assumes "gapless (st_events s)" and "0 \<le> since"
  shows "take (nat since) (st_events s) @ store_events since s = st_events s
    \<and> store_history since s = filter is_history (store_events since s)
    \<and> length (store_events since s) = length (st_events s) - nat since"
proof -
  have "store_events since s = drop (nat since) (st_events s)"
    by (simp add: store_events_def gapless_filter[OF assms(1)])
  moreover have "store_history since s = filter is_history (store_events since s)"
    by (simp add: store_history_def store_events_def filter_filter conj_commute)
  ultimately show ?thesis by simp
qed

section \<open>Worked instances\<close>

definition empty_store :: store where
  "empty_store = \<lparr>st_session = ''s'', st_path = session_file ''h'' ''s'', st_events = [], st_load_error = None,
     st_appender = None\<rparr>"

definition hello :: event where
  "hello = saying ''hi'' (event_new ''now'' START)"

definition full_disk :: world where
  "full_disk = blank_world\<lparr>fault := (\<lambda>n. if n = 7 then Some ''no space'' else None), torn := (\<lambda>_. 1)\<rparr>"

lemma valid_hello: "valid_log ''s'' (st_events empty_store @ [stamped empty_store hello])"
  by (simp add: valid_log_def valid_event_def of_session_def storable_def placed_def fits_i64_def i64_min_def
      i64_max_def hello_def empty_store_def stamped_def store_seq_def gapless_def saying_def SCHEMA_VERSION_def START_def)

theorem store_append_survives_witness:
  "let J = single_codec (to_value (stamped empty_store hello));
       (w', s', r) = store_append J hello empty_store full_disk;
       s2 = snd (store_open J ''h'' ''s'' (w'\<lparr>fault := (\<lambda>_. None)\<rparr>))
   in st_load_error s2 = None \<and> (st_events s2 = [stamped empty_store hello] \<or> (\<exists>m. r = Inl m) \<and> st_events s2 = [])"
proof -
  let ?J = "single_codec (to_value (stamped empty_store hello))"
  obtain w' s' r where a: "store_append ?J hello empty_store full_disk = (w', s', r)"
    by (cases "store_append ?J hello empty_store full_disk") auto
  have "on_disk ?J full_disk empty_store"
    by (simp add: on_disk_def full_disk_def blank_world_def empty_store_def)
  from store_append_survives[OF this a, where home = "''h''" and ?w2.0 = "w'\<lparr>fault := (\<lambda>_. None)\<rparr>"]
  show ?thesis using a valid_hello healthy_single
    by (simp add: empty_store_def faultless_def Let_def)
qed

theorem store_append_position_witness:
  "gapless (st_events empty_store) \<and>
   (case store_append (single_codec JNull) hello empty_store blank_world of
      (w', s', Inr e') \<Rightarrow> ev_seq e' = 0 \<and> st_events s' = [e'] | _ \<Rightarrow> False)"
proof -
  let ?r = "store_append (single_codec JNull) hello empty_store blank_world"
  have g: "gapless (st_events empty_store)" by (simp add: empty_store_def)
  have "case ?r of (_, _, Inr _) \<Rightarrow> True | _ \<Rightarrow> False" by code_simp
  then obtain w' s' e' where "?r = (w', s', Inr e')" by (auto split: prod.splits sum.splits)
  from store_append_position[OF g this] g this show ?thesis by (simp add: empty_store_def)
qed

theorem store_events_since_witness:
  "store_events 0 (empty_store\<lparr>st_events := [hello\<lparr>ev_seq := 0\<rparr>]\<rparr>) = [hello\<lparr>ev_seq := 0\<rparr>]"
  using store_events_since[of "empty_store\<lparr>st_events := [hello\<lparr>ev_seq := 0\<rparr>]\<rparr>" 0]
  by (simp add: gapless_def)

theorem store_appends_in_order_witness:
  "case session_log.app_all (single_codec JNull) [hello, hello] empty_store full_disk of (w', s', accepted) \<Rightarrow>
     st_events s' = accepted \<and> gapless (st_events s')"
  using store_appends_in_order[where J = "single_codec JNull" and es = "[hello, hello]" and s = empty_store and w = full_disk]
  by (simp add: empty_store_def split: prod.splits)

end
