(* ===== verification/Session_Meta.thy ===== *)
theory Session_Meta
  imports Session_Store
begin

text \<open>
  \<open>session/meta.rs\<close>: the metadata of one session, a JSON object rewritten as a whole: which
  native session each provider holds and how far it has been told, the settings, and the queue of
  accepted messages. Metadata that exists but cannot be loaded refuses every change. Where the
  source would panic (\<open>expect\<close>) the model returns an error that starts with \<open>panic\<close>.
\<close>

definition PROVIDERS :: string where "PROVIDERS = ''providers''"
definition SETTINGS :: string where "SETTINGS = ''settings''"
definition PENDING :: string where "PENDING = ''pending''"

lemmas meta_keys = PROVIDERS_def SETTINGS_def PENDING_def

record pending_message =
  pm_id :: string
  pm_text :: string

definition pm_value :: "pending_message \<Rightarrow> json" where
  "pm_value m = JObject [(''id'', JString (pm_id m)), (''text'', JString (pm_text m))]"

definition pm_from :: "json \<Rightarrow> pending_message option" where
  "pm_from v =
     Option.bind (struct_fields [''id'', ''text''] v) (\<lambda>m.
     Option.bind (get_str m ''id'') (\<lambda>i.
     Option.bind (get_str m ''text'') (\<lambda>t. Some \<lparr>pm_id = i, pm_text = t\<rparr>)))"

record meta =
  mt_session :: string
  mt_path :: string
  mt_data :: jmap
  mt_load_error :: "string option"

section \<open>Loading\<close>

fun check_entries :: "(string \<times> json) list \<Rightarrow> string option" where
  "check_entries [] = None"
| "check_entries ((name, entry) # rest) =
     (case entry of
        JObject e \<Rightarrow>
          if (case bt_get e ''id'' of None \<Rightarrow> False | Some v \<Rightarrow> \<not> is_string v)
            then Some (''providers.'' @ name @ ''.id must be text'')
          else if (case bt_get e ''synced'' of None \<Rightarrow> False | Some v \<Rightarrow> as_i64 v = None)
            then Some (''providers.'' @ name @ ''.synced must be an integer'')
          else check_entries rest
      | _ \<Rightarrow> Some (''providers.'' @ name @ '' must be an object''))"

fun check_pending :: "json list \<Rightarrow> string list \<Rightarrow> nat \<Rightarrow> string option" where
  "check_pending [] ids n = None"
| "check_pending (v # vs) ids n =
     (case pm_from v of
        None \<Rightarrow> Some (''pending['' @ show_nat n @ ''] is invalid'')
      | Some m \<Rightarrow>
          if pm_id m = [] then Some (''pending['' @ show_nat n @ ''].id cannot be empty'')
          else if pm_id m \<in> set ids then Some (''pending['' @ show_nat n @ ''].id duplicates an earlier message'')
          else check_pending vs (pm_id m # ids) (n + 1))"

definition load_providers :: "jmap \<Rightarrow> jmap res" where
  "load_providers d =
     (case bt_get d PROVIDERS of
        None \<Rightarrow> Inr (bt_insert PROVIDERS (JObject []) d)
      | Some (JObject ps) \<Rightarrow> (case check_entries ps of None \<Rightarrow> Inr d | Some e \<Rightarrow> Inl e)
      | Some _ \<Rightarrow> Inl ''providers must be an object'')"

definition load_settings :: "jmap \<Rightarrow> jmap res" where
  "load_settings d =
     (case bt_get d SETTINGS of
        None \<Rightarrow> Inr (bt_insert SETTINGS (JObject []) d)
      | Some (JObject _) \<Rightarrow> Inr d
      | Some _ \<Rightarrow> Inl ''settings must be an object'')"

definition load_pending :: "jmap \<Rightarrow> jmap res" where
  "load_pending d =
     (case bt_get d PENDING of
        None \<Rightarrow> Inr (bt_insert PENDING (JArray []) d)
      | Some (JArray vs) \<Rightarrow> (case check_pending vs [] 0 of None \<Rightarrow> Inr d | Some e \<Rightarrow> Inl e)
      | Some _ \<Rightarrow> Inl ''pending must be an array'')"

definition sum_bind :: "'a res \<Rightarrow> ('a \<Rightarrow> 'b res) \<Rightarrow> 'b res" where
  "sum_bind r f = (case r of Inl e \<Rightarrow> Inl e | Inr x \<Rightarrow> f x)"

definition validate :: "jmap \<Rightarrow> jmap res" where
  "validate d = sum_bind (load_providers d) (\<lambda>d. sum_bind (load_settings d) load_pending)"

definition meta_load :: "codec \<Rightarrow> string \<Rightarrow> jmap option io" where
  "meta_load J p w =
     (case files w p of
        None \<Rightarrow> (tick_on w, Inr None)
      | Some f \<Rightarrow>
          (case fault w (tick w) of
             Some e \<Rightarrow> (tick_on w, Inl e)
           | None \<Rightarrow>
               (tick_on w,
                case from_slice J (content f) of
                  Inl e \<Rightarrow> Inl e
                | Inr (JObject d) \<Rightarrow> (case validate d of Inl e \<Rightarrow> Inl e | Inr d' \<Rightarrow> Inr (Some d'))
                | Inr _ \<Rightarrow> Inl ''invalid type: expected a map'')))"

definition fresh_data :: "string \<Rightarrow> string \<Rightarrow> jmap" where
  "fresh_data sid now =
     [(''created'', JString now), (''pending'', JArray []), (''providers'', JObject []),
      (''session'', JString sid), (''settings'', JObject [])]"

definition meta_open :: "codec \<Rightarrow> string \<Rightarrow> string \<Rightarrow> world \<Rightarrow> world \<times> meta" where
  "meta_open J home sid w =
     (let path = meta_file home sid;
          (w1, loaded) = meta_load J path w;
          data = (case loaded of Inr (Some d) \<Rightarrow> d | _ \<Rightarrow> fresh_data sid (clock_now w1));
          w2 = (if exists_file w1 path then fst (fs_set_private path w1) else w1)
      in (w2, \<lparr>mt_session = sid, mt_path = path, mt_data = data,
               mt_load_error = (case loaded of Inl e \<Rightarrow> Some e | Inr _ \<Rightarrow> None)\<rparr>))"

section \<open>Writing\<close>

text \<open>\<open>Path::parent\<close> and the staging file beside the target.\<close>

definition path_parent :: "string \<Rightarrow> string option" where
  "path_parent p = (case dropWhile (\<lambda>c. c \<noteq> CHR ''/'') (rev p) of [] \<Rightarrow> None | _ # d \<Rightarrow> Some (rev d))"

definition staging_path :: "string \<Rightarrow> string \<Rightarrow> string \<Rightarrow> string" where
  "staging_path parent sid process = path_join parent (''.'' @ sid @ ''.meta.'' @ process)"

definition replace_file :: "string \<Rightarrow> string \<Rightarrow> bytes \<Rightarrow> unit io" where
  "replace_file staging path body =
     io_bind (fs_open_truncate staging) (\<lambda>_.
     io_bind (fs_set_private staging) (\<lambda>_.
     io_bind (fs_write_all staging body) (\<lambda>_.
     io_bind (fs_sync staging) (\<lambda>_.
     io_bind (fs_rename staging path) (\<lambda>_. fs_touch)))))"

definition meta_write :: "codec \<Rightarrow> meta \<Rightarrow> jmap \<Rightarrow> unit io" where
  "meta_write J m data =
     (case path_parent (mt_path m) of
        None \<Rightarrow> (\<lambda>w. (w, Inl ''metadata path has no parent''))
      | Some parent \<Rightarrow>
          io_bind paths_ensure (\<lambda>_ w.
            let staging = staging_path parent (mt_session m) (pid w) in
            case replace_file staging (mt_path m) (to_pretty J (JObject data)) w of
              (w', Inr u) \<Rightarrow> (w', Inr u)
            | (w', Inl e) \<Rightarrow> (fs_remove staging w', Inl e)))"

definition ensure_writable :: "meta \<Rightarrow> unit res" where
  "ensure_writable m =
     (case mt_load_error m of
        Some e \<Rightarrow> Inl (''existing session metadata could not be loaded: '' @ e)
      | None \<Rightarrow> Inr ())"

definition meta_save :: "codec \<Rightarrow> meta \<Rightarrow> world \<Rightarrow> world \<times> meta \<times> unit res" where
  "meta_save J m w =
     (case ensure_writable m of
        Inl e \<Rightarrow> (w, m, Inl e)
      | Inr _ \<Rightarrow>
          let next = bt_insert ''updated'' (JString (clock_now w)) (mt_data m) in
          case meta_write J m next w of
            (w', Inl e) \<Rightarrow> (w', m, Inl e)
          | (w', Inr _) \<Rightarrow> (w', m\<lparr>mt_data := next\<rparr>, Inr ()))"

text \<open>One change: nothing is written when nothing changed, and memory follows the disk.\<close>

definition commit :: "codec \<Rightarrow> (jmap \<Rightarrow> jmap res) \<Rightarrow> meta \<Rightarrow> world \<Rightarrow> world \<times> meta \<times> unit res" where
  "commit J change m w =
     (case ensure_writable m of
        Inl e \<Rightarrow> (w, m, Inl e)
      | Inr _ \<Rightarrow>
          (case change (mt_data m) of
             Inl panic \<Rightarrow> (w, m, Inl panic)
           | Inr next0 \<Rightarrow>
               if next0 = mt_data m then (w, m, Inr ())
               else let next = bt_insert ''updated'' (JString (clock_now w)) next0 in
                    case meta_write J m next w of
                      (w', Inl e) \<Rightarrow> (w', m, Inl e)
                    | (w', Inr _) \<Rightarrow> (w', m\<lparr>mt_data := next\<rparr>, Inr ())))"

section \<open>Changes\<close>

text \<open>\<open>data.entry(key).or_insert({}).as_object_mut().expect(..)\<close>, changed in place.\<close>

definition in_object :: "string \<Rightarrow> (jmap \<Rightarrow> jmap res) \<Rightarrow> jmap \<Rightarrow> jmap res" where
  "in_object key f d =
     (case bt_get d key of
        None \<Rightarrow> sum_bind (f []) (\<lambda>o'. Inr (bt_insert key (JObject o') d))
      | Some (JObject o1) \<Rightarrow> sum_bind (f o1) (\<lambda>o'. Inr (bt_insert key (JObject o') d))
      | Some _ \<Rightarrow> Inl (''panic: '' @ key @ '' is an object''))"

definition in_pending :: "(json list \<Rightarrow> json list) \<Rightarrow> jmap \<Rightarrow> jmap res" where
  "in_pending f d =
     (case bt_get d PENDING of
        Some (JArray vs) \<Rightarrow> Inr (bt_insert PENDING (JArray (f vs)) d)
      | _ \<Rightarrow> Inl ''panic: pending is an array'')"

definition new_entry :: jmap where
  "new_entry = [(''id'', JString []), (''synced'', JInt (-1))]"

definition set_entry :: "string \<Rightarrow> string \<Rightarrow> json \<Rightarrow> jmap \<Rightarrow> jmap res" where
  "set_entry provider key v ps =
     (case bt_get ps provider of
        None \<Rightarrow> Inr (bt_insert provider (JObject (bt_insert key v new_entry)) ps)
      | Some (JObject e) \<Rightarrow> Inr (bt_insert provider (JObject (bt_insert key v e)) ps)
      | Some JNull \<Rightarrow> Inr (bt_insert provider (JObject [(key, v)]) ps)
      | Some _ \<Rightarrow> Inl ''panic: cannot access key in a value that is not an object'')"

definition meta_native :: "meta \<Rightarrow> string \<Rightarrow> string \<times> int" where
  "meta_native m provider =
     (case Option.bind (Option.bind (bt_get (mt_data m) PROVIDERS) as_object) (\<lambda>ps. bt_get ps provider) of
        Some entry \<Rightarrow>
          (case as_str (jindex entry ''id'') of Some s \<Rightarrow> s | None \<Rightarrow> [],
           case as_i64 (jindex entry ''synced'') of Some n \<Rightarrow> n | None \<Rightarrow> -1)
      | None \<Rightarrow> ([], -1))"

definition meta_bind :: "codec \<Rightarrow> string \<Rightarrow> string \<Rightarrow> meta \<Rightarrow> world \<Rightarrow> world \<times> meta \<times> unit res" where
  "meta_bind J provider native_id = commit J (in_object PROVIDERS (set_entry provider ''id'' (JString native_id)))"

definition mark_synced :: "codec \<Rightarrow> string \<Rightarrow> int \<Rightarrow> meta \<Rightarrow> world \<Rightarrow> world \<times> meta \<times> unit res" where
  "mark_synced J provider sq = commit J (in_object PROVIDERS (set_entry provider ''synced'' (JInt sq)))"

definition meta_get :: "meta \<Rightarrow> string \<Rightarrow> json option" where
  "meta_get m k = (case bt_get (mt_data m) k of Some v \<Rightarrow> if is_null v then None else Some v | None \<Rightarrow> None)"

definition meta_get_str :: "meta \<Rightarrow> string \<Rightarrow> string option" where
  "meta_get_str m k = Option.bind (meta_get m k) as_str"

definition meta_setting :: "meta \<Rightarrow> string \<Rightarrow> json option" where
  "meta_setting m k =
     (case Option.bind (Option.bind (bt_get (mt_data m) SETTINGS) as_object) (\<lambda>s. bt_get s k) of
        Some v \<Rightarrow> if is_null v then None else Some v
      | None \<Rightarrow> None)"

definition meta_setting_str :: "meta \<Rightarrow> string \<Rightarrow> string option" where
  "meta_setting_str m k = Option.bind (meta_setting m k) as_str"

definition initialize_settings :: "codec \<Rightarrow> jmap \<Rightarrow> meta \<Rightarrow> world \<Rightarrow> world \<times> meta \<times> unit res" where
  "initialize_settings J defaults =
     commit J (in_object SETTINGS (\<lambda>s. Inr (fold (\<lambda>(k, v). bt_or_insert k v) defaults s)))"

definition set_setting :: "codec \<Rightarrow> string \<Rightarrow> json \<Rightarrow> meta \<Rightarrow> world \<Rightarrow> world \<times> meta \<times> unit res" where
  "set_setting J k v = commit J (in_object SETTINGS (\<lambda>s. Inr (bt_insert k v s)))"

definition meta_set :: "codec \<Rightarrow> string \<Rightarrow> json \<Rightarrow> meta \<Rightarrow> world \<Rightarrow> world \<times> meta \<times> unit res" where
  "meta_set J k v = commit J (\<lambda>d. Inr (bt_insert k v d))"

text \<open>\<open>value.get("id").and_then(Value::as_str) != Some(id)\<close>.\<close>

definition other_id :: "string \<Rightarrow> json \<Rightarrow> bool" where
  "other_id i v \<longleftrightarrow> Option.bind (jget v ''id'') as_str \<noteq> Some i"

definition recover_change :: "json \<Rightarrow> int option \<Rightarrow> pending_message option \<Rightarrow> string option \<Rightarrow> jmap \<Rightarrow> jmap res" where
  "recover_change state history_start message superseded d =
     (let d1 = bt_insert ''context_recovery_state'' state d;
          d2 = (case history_start of
                  None \<Rightarrow> d1
                | Some since \<Rightarrow> bt_insert PROVIDERS (JObject []) (bt_insert ''history_start'' (JInt since) d1))
      in in_pending (\<lambda>vs.
           let vs1 = (case superseded of None \<Rightarrow> vs | Some i \<Rightarrow> filter (other_id i) vs)
           in case message of None \<Rightarrow> vs1 | Some m \<Rightarrow> pm_value m # vs1) d2)"

definition meta_recover ::
  "codec \<Rightarrow> json \<Rightarrow> int option \<Rightarrow> pending_message option \<Rightarrow> string option \<Rightarrow> meta \<Rightarrow> world \<Rightarrow> world \<times> meta \<times> unit res" where
  "meta_recover J state history_start message superseded =
     commit J (recover_change state history_start message superseded)"

fun somes :: "'a option list \<Rightarrow> 'a list" where
  "somes [] = []"
| "somes (None # xs) = somes xs"
| "somes (Some x # xs) = x # somes xs"

definition meta_pending :: "meta \<Rightarrow> pending_message list" where
  "meta_pending m =
     (case Option.bind (bt_get (mt_data m) PENDING) as_array of
        None \<Rightarrow> []
      | Some vs \<Rightarrow> somes (map pm_from vs))"

definition meta_enqueue :: "codec \<Rightarrow> string \<Rightarrow> meta \<Rightarrow> world \<Rightarrow> world \<times> meta \<times> pending_message res" where
  "meta_enqueue J text m w =
     (let (w1, i) = new_uuid w;
          message = \<lparr>pm_id = i, pm_text = text\<rparr>
      in case commit J (\<lambda>d. in_pending (\<lambda>vs. vs @ [pm_value message])
                           (bt_or_insert PENDING (JArray []) d)) m w1 of
           (w2, m2, Inl e) \<Rightarrow> (w2, m2, Inl e)
         | (w2, m2, Inr _) \<Rightarrow> (w2, m2, Inr message))"

fun draw_messages :: "string list \<Rightarrow> world \<Rightarrow> world \<times> pending_message list" where
  "draw_messages [] w = (w, [])"
| "draw_messages (t # ts) w =
     (let (w1, i) = new_uuid w; (w2, ms) = draw_messages ts w1 in (w2, \<lparr>pm_id = i, pm_text = t\<rparr> # ms))"

definition meta_retry :: "codec \<Rightarrow> string list list \<Rightarrow> meta \<Rightarrow> world \<Rightarrow> world \<times> meta \<times> pending_message list res" where
  "meta_retry J turns m w =
     (let (w1, messages) = draw_messages (concat turns) w
      in case commit J (in_pending (\<lambda>vs. map pm_value messages @ vs)) m w1 of
           (w2, m2, Inl e) \<Rightarrow> (w2, m2, Inl e)
         | (w2, m2, Inr _) \<Rightarrow> (w2, m2, Inr messages))"

text \<open>\<open>if let Some(pending) = ..\<close>: no array, no change.\<close>

definition if_pending :: "(json list \<Rightarrow> json list) \<Rightarrow> jmap \<Rightarrow> jmap res" where
  "if_pending f d =
     (case bt_get d PENDING of
        Some (JArray vs) \<Rightarrow> Inr (bt_insert PENDING (JArray (f vs)) d)
      | _ \<Rightarrow> Inr d)"

definition meta_complete :: "codec \<Rightarrow> string \<Rightarrow> meta \<Rightarrow> world \<Rightarrow> world \<times> meta \<times> unit res" where
  "meta_complete J i = commit J (if_pending (filter (other_id i)))"

definition meta_reconcile :: "codec \<Rightarrow> string set \<Rightarrow> meta \<Rightarrow> world \<Rightarrow> world \<times> meta \<times> unit res" where
  "meta_reconcile J delivered m w =
     (if delivered = {} \<or> \<not> (\<exists>p \<in> set (meta_pending m). pm_id p \<in> delivered) then (w, m, Inr ())
      else commit J (if_pending (filter (\<lambda>v.
             case Option.bind (jget v ''id'') as_str of None \<Rightarrow> True | Some i \<Rightarrow> i \<notin> delivered))) m w)"


section \<open>A change is all or nothing\<close>

lemma replace_file_whole:
  assumes "staging \<noteq> path"
  shows "io_triple (\<lambda>w. files w path = old) (replace_file staging path body)
    (\<lambda>_ w. files w path = Some \<lparr>content = body, durable = body, fmode = private_mode\<rparr>)
    (\<lambda>w. files w path = old \<or> files w path = Some \<lparr>content = body, durable = body, fmode = private_mode\<rparr>)"
    (is "io_triple _ _ ?new ?either")
proof -
  let ?at = "\<lambda>P w. files w path = old \<and> (\<exists>f. files w staging = Some f \<and> P f)"
  have opened: "io_triple (\<lambda>w. files w path = old) (fs_open_truncate staging)
      (\<lambda>_. ?at (\<lambda>f. content f = [])) ?either"
    unfolding fs_open_truncate_def using assms
    by (intro io_triple_step) (auto simp: empty_file_def)
  have moded: "io_triple (?at (\<lambda>f. content f = [])) (fs_set_private staging)
      (\<lambda>_. ?at (\<lambda>f. content f = [] \<and> fmode f = private_mode)) ?either"
    unfolding fs_set_private_def using assms by (intro io_triple_step) auto
  have written: "io_triple (?at (\<lambda>f. content f = [] \<and> fmode f = private_mode)) (fs_write_all staging body)
      (\<lambda>_. ?at (\<lambda>f. content f = body \<and> fmode f = private_mode)) ?either"
    using assms by (auto simp: io_triple_def fs_write_all_def split: option.splits)
  have synced: "io_triple (?at (\<lambda>f. content f = body \<and> fmode f = private_mode)) (fs_sync staging)
      (\<lambda>_. ?at (\<lambda>f. f = \<lparr>content = body, durable = body, fmode = private_mode\<rparr>)) ?either"
    unfolding fs_sync_def using assms by (intro io_triple_step) auto
  have renamed: "io_triple (?at (\<lambda>f. f = \<lparr>content = body, durable = body, fmode = private_mode\<rparr>))
      (fs_rename staging path) ?new ?either"
    unfolding fs_rename_def using assms by (intro io_triple_step) auto
  have touched: "io_triple (?new x) fs_touch ?new ?either" for x
    unfolding fs_touch_def by (intro io_triple_step) auto
  show ?thesis unfolding replace_file_def
    by (rule io_triple_bind[OF opened], rule io_triple_bind[OF moded], rule io_triple_bind[OF written],
        rule io_triple_bind[OF synced], rule io_triple_bind[OF renamed touched])
qed

lemma fs_remove_other: "p \<noteq> q \<Longrightarrow> files (fs_remove p w) q = files w q"
  by (auto simp: fs_remove_def io_step_def split: option.splits)

definition new_file :: "codec \<Rightarrow> jmap \<Rightarrow> fs_file" where
  "new_file J d = \<lparr>content = to_pretty J (JObject d), durable = to_pretty J (JObject d), fmode = private_mode\<rparr>"

lemma digit_not_n: "k < 10 \<Longrightarrow> char_of (48 + k :: nat) \<noteq> CHR ''n''"
proof -
  assume "k < 10"
  then have "k = 0 \<or> k = 1 \<or> k = 2 \<or> k = 3 \<or> k = 4 \<or> k = 5 \<or> k = 6 \<or> k = 7 \<or> k = 8 \<or> k = 9" by arith
  then show ?thesis by (elim disjE) (simp_all add: char_of_def)
qed

lemma last_show_nat: "show_nat n \<noteq> [] \<and> last (show_nat n) \<noteq> CHR ''n''"
  using digit_not_n[of n] digit_not_n[of "n mod 10"] by (subst (1 2) show_nat.simps) auto

lemma staging_not_path:
  "staging_path parent sid (show_nat n) \<noteq> meta_file home sid2"
proof -
  have "last (staging_path parent sid (show_nat n)) = last (show_nat n)"
    using last_show_nat[of n] by (simp add: staging_path_def path_join_def)
  moreover have "last (meta_file home sid2) = CHR ''n''"
    by (simp add: meta_file_def path_join_def)
  ultimately show ?thesis using last_show_nat[of n] by metis
qed

text \<open>The place of a session's metadata, in a process with a decimal id.\<close>

definition placed_meta :: "string \<Rightarrow> meta \<Rightarrow> world \<Rightarrow> bool" where
  "placed_meta home m w \<longleftrightarrow> mt_path m = meta_file home (mt_session m) \<and> (\<exists>n. pid w = show_nat n)"

lemma touch_pid: "fs_touch w = (w', r) \<Longrightarrow> pid w' = pid w \<and> files w' = files w"
  by (auto simp: fs_touch_def io_step_def split: option.splits)

lemma meta_write_whole:
  assumes "placed_meta home m w" and "meta_write J m d w = (w', r)"
  shows "((\<exists>u. r = Inr u) \<longrightarrow> files w' (mt_path m) = Some (new_file J d))
    \<and> (files w' (mt_path m) = files w (mt_path m) \<or> files w' (mt_path m) = Some (new_file J d))"
proof (cases "path_parent (mt_path m)")
  case None
  then show ?thesis using assms(2) by (auto simp: meta_write_def)
next
  case (Some parent)
  obtain w1 r1 where t: "fs_touch w = (w1, r1)" by fastforce
  let ?st = "staging_path parent (mt_session m) (pid w1)" and ?body = "to_pretty J (JObject d)"
  have ne: "?st \<noteq> mt_path m"
    using assms(1) touch_pid[OF t] staging_not_path by (auto simp: placed_meta_def)
  note defs = meta_write_def paths_ensure_def io_bind_def Let_def new_file_def
  show ?thesis
  proof (cases r1)
    case (Inl e)
    then show ?thesis using assms(2) t Some touch_pid[OF t] by (auto simp: defs)
  next
    case (Inr u)
    have "files w1 (mt_path m) = files w (mt_path m)" using touch_pid[OF t] by simp
    from replace_file_whole[OF ne, of "files w (mt_path m)" ?body] this show ?thesis
    proof (cases rule: io_tripleE)
      case (1 w2 x)
      then show ?thesis using assms(2) t Some Inr by (auto simp: defs)
    next
      case (2 w2 e)
      then show ?thesis using assms(2) t Some Inr fs_remove_other[OF ne] by (auto simp: defs)
    qed
  qed
qed

lemma commit_Inl: "commit J ch m w = (w', m', Inl e) \<Longrightarrow> m' = m"
  by (auto simp: commit_def Let_def split: sum.splits if_splits prod.splits)

lemma commit_Inr:
  assumes "commit J ch m w = (w', m', Inr u)"
  obtains d where "ch (mt_data m) = Inr d" and "mt_load_error m = None"
    and "m' = m\<lparr>mt_data := mt_data m'\<rparr>"
    and "\<And>k. k \<noteq> ''updated'' \<Longrightarrow> bt_get (mt_data m') k = bt_get d k"
  using assms
  by (auto simp: commit_def ensure_writable_def Let_def split: sum.splits if_splits prod.splits option.splits)

section \<open>What each change does to the queue and the native sessions\<close>

definition entry_id :: "json \<Rightarrow> string option" where
  "entry_id v = Option.bind (jget v ''id'') as_str"

text \<open>The queue as the conductor keeps it: an array of message objects.\<close>

definition queue_wf :: "jmap \<Rightarrow> bool" where
  "queue_wf d \<longleftrightarrow> (\<exists>vs. bt_get d PENDING = Some (JArray vs) \<and>
     (\<forall>v \<in> set vs. \<exists>p. pm_from v = Some p \<and> entry_id v = Some (pm_id p)))"

definition queue_of :: "jmap \<Rightarrow> pending_message list" where
  "queue_of d = (case Option.bind (bt_get d PENDING) as_array of None \<Rightarrow> [] | Some vs \<Rightarrow> somes (map pm_from vs))"

lemma meta_pending_queue: "meta_pending m = queue_of (mt_data m)"
  by (simp add: meta_pending_def queue_of_def)

lemma somes_append [simp]: "somes (xs @ ys) = somes xs @ somes ys"
  by (induction xs rule: somes.induct) auto

lemma somes_map_Some [simp]: "somes (map (\<lambda>x. Some (f x)) xs) = map f xs"
  by (induction xs) auto

lemma pm_from_value [simp]: "pm_from (pm_value m) = Some m" "entry_id (pm_value m) = Some (pm_id m)"
  by (simp_all add: pm_from_def pm_value_def struct_fields_def get_str_def bt_get_def entry_id_def jget_def)

lemma somes_filter_ids:
  assumes "\<forall>v \<in> set vs. \<exists>p. pm_from v = Some p \<and> entry_id v = Some (pm_id p)"
    and "\<And>v p. entry_id v = Some (pm_id p) \<Longrightarrow> P v = Q p"
  shows "somes (map pm_from (filter P vs)) = filter Q (somes (map pm_from vs))"
  using assms(1)
proof (induction vs)
  case (Cons v vs)
  then obtain p where "pm_from v = Some p" "entry_id v = Some (pm_id p)" by auto
  with Cons assms(2)[of v p] show ?case by auto
qed simp

lemma queue_same: "bt_get d' PENDING = bt_get d PENDING \<Longrightarrow> queue_of d' = queue_of d \<and> queue_wf d' = queue_wf d"
  by (simp add: queue_of_def queue_wf_def)

lemma queue_insert [simp]:
  "queue_of (bt_insert PENDING (JArray vs) d) = somes (map pm_from vs)"
  by (simp add: queue_of_def)

lemma in_pending_queue:
  assumes "queue_wf d" and "in_pending f d = Inr d'"
  obtains vs where "bt_get d PENDING = Some (JArray vs)" and "d' = bt_insert PENDING (JArray (f vs)) d"
    and "\<forall>v \<in> set vs. \<exists>p. pm_from v = Some p \<and> entry_id v = Some (pm_id p)"
    and "queue_of d = somes (map pm_from vs)"
  using assms by (auto simp: queue_wf_def in_pending_def queue_of_def)


lemma meta_keys_distinct [simp]:
  "PENDING \<noteq> ''updated''" "PROVIDERS \<noteq> ''updated''" "SETTINGS \<noteq> ''updated''" "PENDING \<noteq> PROVIDERS" "PENDING \<noteq> SETTINGS"
  "PROVIDERS \<noteq> PENDING" "SETTINGS \<noteq> PENDING" "PROVIDERS \<noteq> SETTINGS" "SETTINGS \<noteq> PROVIDERS"
  "PENDING \<noteq> ''context_recovery_state''" "PENDING \<noteq> ''history_start''"
  by (simp_all add: meta_keys)

lemma in_object_get: "in_object key f d = Inr d' \<Longrightarrow> k \<noteq> key \<Longrightarrow> bt_get d' k = bt_get d k"
  by (auto simp: in_object_def sum_bind_def split: option.splits json.splits sum.splits)

text \<open>Who a metadata record is for does not change, and neither does whether it loaded.\<close>

definition same_meta :: "meta \<Rightarrow> meta \<Rightarrow> bool" where
  "same_meta m m' \<longleftrightarrow> mt_session m' = mt_session m \<and> mt_path m' = mt_path m \<and> mt_load_error m' = mt_load_error m"

lemma same_meta_refl [simp]: "same_meta m m"
  by (simp add: same_meta_def)

lemma commit_same: "commit J ch m w = (w', m', r) \<Longrightarrow> same_meta m m'"
  by (auto simp: commit_def same_meta_def Let_def split: sum.splits if_splits prod.splits)

text \<open>A change that does not touch the queue, whether or not it succeeds.\<close>

lemma commit_keeps_queue:
  assumes "commit J ch m w = (w', m', r)"
    and "\<And>d d'. ch d = Inr d' \<Longrightarrow> bt_get d' PENDING = bt_get d PENDING"
  shows "meta_pending m' = meta_pending m \<and> queue_wf (mt_data m') = queue_wf (mt_data m)"
proof (cases r)
  case (Inl e)
  then show ?thesis using commit_Inl assms(1) by blast
next
  case (Inr u)
  from commit_Inr[OF assms(1)[unfolded Inr]] obtain d where d: "ch (mt_data m) = Inr d"
    "\<And>k. k \<noteq> ''updated'' \<Longrightarrow> bt_get (mt_data m') k = bt_get d k" by blast
  have "bt_get (mt_data m') PENDING = bt_get (mt_data m) PENDING"
    using d(2)[of PENDING] assms(2)[OF d(1)] by simp
  from queue_same[OF this] show ?thesis by (simp add: meta_pending_queue)
qed

lemma keeps_queue_ops [frame_simps]:
  "meta_bind J p n m w = (w', m', r) \<Longrightarrow> meta_pending m' = meta_pending m \<and> queue_wf (mt_data m') = queue_wf (mt_data m)"
  "mark_synced J p sq m w = (w', m', r) \<Longrightarrow> meta_pending m' = meta_pending m \<and> queue_wf (mt_data m') = queue_wf (mt_data m)"
  "set_setting J k v m w = (w', m', r) \<Longrightarrow> meta_pending m' = meta_pending m \<and> queue_wf (mt_data m') = queue_wf (mt_data m)"
  "initialize_settings J df m w = (w', m', r) \<Longrightarrow> meta_pending m' = meta_pending m \<and> queue_wf (mt_data m') = queue_wf (mt_data m)"
  unfolding meta_bind_def mark_synced_def set_setting_def initialize_settings_def
  by (erule commit_keeps_queue; erule in_object_get; simp)+

text \<open>A change of the queue alone, on success.\<close>

lemma commit_queue:
  assumes "commit J ch m w = (w', m', Inr u)" and "queue_wf (mt_data m)"
    and "\<And>d d'. queue_wf d \<Longrightarrow> ch d = Inr d' \<Longrightarrow> queue_wf d' \<and> queue_of d' = f (queue_of d)"
  shows "meta_pending m' = f (meta_pending m) \<and> queue_wf (mt_data m')"
proof -
  from commit_Inr[OF assms(1)] obtain d where d: "ch (mt_data m) = Inr d"
    "\<And>k. k \<noteq> ''updated'' \<Longrightarrow> bt_get (mt_data m') k = bt_get d k" by blast
  have "queue_of (mt_data m') = queue_of d \<and> queue_wf (mt_data m') = queue_wf d"
    using d(2) by (intro queue_same) simp
  then show ?thesis using assms(3)[OF assms(2) d(1)] by (simp add: meta_pending_queue)
qed

lemma queue_wf_insertI:
  "(\<And>v. v \<in> set vs \<Longrightarrow> \<exists>p. pm_from v = Some p \<and> entry_id v = Some (pm_id p)) \<Longrightarrow>
   queue_wf (bt_insert PENDING (JArray vs) d)"
  by (simp add: queue_wf_def)

lemma enqueue_queue:
  assumes "queue_wf d" and "in_pending (\<lambda>vs. vs @ [pm_value p]) (bt_or_insert PENDING (JArray []) d) = Inr d'"
  shows "queue_wf d' \<and> queue_of d' = queue_of d @ [p]"
proof -
  have "bt_or_insert PENDING (JArray []) d = d" using assms(1) by (auto simp: queue_wf_def bt_or_insert_def)
  then show ?thesis using assms
    by (auto elim!: in_pending_queue intro!: queue_wf_insertI)
qed

lemma filter_queue:
  assumes "queue_wf d" and "if_pending (filter P) d = Inr d'"
    and "\<And>v p. entry_id v = Some (pm_id p) \<Longrightarrow> P v = Q p"
  shows "queue_wf d' \<and> queue_of d' = filter Q (queue_of d)"
proof -
  have "in_pending (filter P) d = Inr d'" using assms(1,2) by (auto simp: if_pending_def in_pending_def queue_wf_def)
  with assms(1) show ?thesis
    by (rule in_pending_queue) (auto intro!: queue_wf_insertI simp: somes_filter_ids[OF _ assms(3)])
qed

lemma other_id_entry: "other_id i v \<longleftrightarrow> entry_id v \<noteq> Some i"
  by (simp add: other_id_def entry_id_def)

lemma meta_complete_queue:
  "meta_complete J i m w = (w', m', Inr u) \<Longrightarrow> queue_wf (mt_data m) \<Longrightarrow>
   meta_pending m' = filter (\<lambda>p. pm_id p \<noteq> i) (meta_pending m) \<and> queue_wf (mt_data m')"
  unfolding meta_complete_def
  by (erule (1) commit_queue) (erule (1) filter_queue, simp add: other_id_entry)

lemma meta_enqueue_queue:
  assumes "meta_enqueue J t m w = (w', m', Inr p)" and "queue_wf (mt_data m)"
  shows "p = \<lparr>pm_id = uuid w (drawn w), pm_text = t\<rparr> \<and> meta_pending m' = meta_pending m @ [p] \<and> queue_wf (mt_data m')"
proof -
  let ?p = "\<lparr>pm_id = uuid w (drawn w), pm_text = t\<rparr>"
  from assms(1) have p: "p = ?p" and c: "commit J (\<lambda>d. in_pending (\<lambda>vs. vs @ [pm_value ?p])
      (bt_or_insert PENDING (JArray []) d)) m (w\<lparr>drawn := Suc (drawn w)\<rparr>) = (w', m', Inr ())"
    by (auto simp: meta_enqueue_def new_uuid_def Let_def split: prod.splits sum.splits)
  show ?thesis using commit_queue[OF c assms(2), where f = "\<lambda>q. q @ [?p]", OF enqueue_queue] p by simp
qed

lemma meta_recover_queue:
  assumes "meta_recover J st since msg old_id m w = (w', m', Inr u)" and "queue_wf (mt_data m)"
  shows "meta_pending m' = (case msg of None \<Rightarrow> [] | Some p \<Rightarrow> [p]) @
      (case old_id of None \<Rightarrow> meta_pending m | Some i \<Rightarrow> filter (\<lambda>p. pm_id p \<noteq> i) (meta_pending m))
    \<and> queue_wf (mt_data m')"
proof (rule commit_queue[OF assms(1)[unfolded meta_recover_def] assms(2)])
  fix d d' assume wf: "queue_wf d" and ch: "recover_change st since msg old_id d = Inr d'"
  define d2 where "d2 = (case since of None \<Rightarrow> bt_insert ''context_recovery_state'' st d
    | Some n \<Rightarrow> bt_insert PROVIDERS (JObject []) (bt_insert ''history_start'' (JInt n) (bt_insert ''context_recovery_state'' st d)))"
  have same: "queue_of d2 = queue_of d" and wf2: "queue_wf d2"
    using wf queue_same[of d2 d] by (auto simp: d2_def split: option.splits)
  from ch have "in_pending (\<lambda>vs. let vs1 = (case old_id of None \<Rightarrow> vs | Some i \<Rightarrow> filter (other_id i) vs)
      in case msg of None \<Rightarrow> vs1 | Some p \<Rightarrow> pm_value p # vs1) d2 = Inr d'"
    by (simp add: recover_change_def d2_def Let_def)
  with wf2 show "queue_wf d' \<and> queue_of d' = (case msg of None \<Rightarrow> [] | Some p \<Rightarrow> [p]) @
      (case old_id of None \<Rightarrow> queue_of d | Some i \<Rightarrow> filter (\<lambda>p. pm_id p \<noteq> i) (queue_of d))"
  proof (rule in_pending_queue)
    fix vs assume vs: "\<forall>v \<in> set vs. \<exists>p. pm_from v = Some p \<and> entry_id v = Some (pm_id p)"
      and d': "d' = bt_insert PENDING (JArray (let vs1 = (case old_id of None \<Rightarrow> vs | Some i \<Rightarrow> filter (other_id i) vs)
      in case msg of None \<Rightarrow> vs1 | Some p \<Rightarrow> pm_value p # vs1)) d2" and q: "queue_of d2 = somes (map pm_from vs)"
    have fl: "somes (map pm_from (filter (other_id i) vs)) = filter (\<lambda>p. pm_id p \<noteq> i) (queue_of d)" for i
      using somes_filter_ids[OF vs, of "other_id i" "\<lambda>p. pm_id p \<noteq> i"] q same by (simp add: other_id_entry)
    show ?thesis using d' q same fl vs
      by (auto simp: Let_def intro!: queue_wf_insertI split: option.splits)
  qed
qed

lemma meta_retry_queue:
  assumes "meta_retry J ts m w = (w', m', Inr ms)" and "queue_wf (mt_data m)"
  shows "ms = snd (draw_messages (concat ts) w) \<and> meta_pending m' = ms @ meta_pending m \<and> queue_wf (mt_data m')"
proof -
  from assms(1) have ms: "ms = snd (draw_messages (concat ts) w)"
    and c: "commit J (in_pending (\<lambda>vs. map pm_value ms @ vs)) m (fst (draw_messages (concat ts) w)) = (w', m', Inr ())"
    by (auto simp: meta_retry_def Let_def split: prod.splits sum.splits)
  have "queue_wf d' \<and> queue_of d' = ms @ queue_of d"
    if "queue_wf d" "in_pending (\<lambda>vs. map pm_value ms @ vs) d = Inr d'" for d d'
    using that by (rule in_pending_queue) (auto intro!: queue_wf_insertI simp: comp_def)
  from commit_queue[OF c assms(2), where f = "\<lambda>q. ms @ q", OF this] ms show ?thesis by simp
qed

lemma meta_reconcile_queue:
  assumes "meta_reconcile J del m w = (w', m', Inr u)" and "queue_wf (mt_data m)"
  shows "meta_pending m' = filter (\<lambda>p. pm_id p \<notin> del) (meta_pending m) \<and> queue_wf (mt_data m')"
proof (cases "del = {} \<or> \<not> (\<exists>p \<in> set (meta_pending m). pm_id p \<in> del)")
  case True
  then have "filter (\<lambda>p. pm_id p \<notin> del) (meta_pending m) = meta_pending m" by (auto intro: filter_True)
  then show ?thesis using True assms by (auto simp: meta_reconcile_def)
next
  case False
  let ?P = "\<lambda>v. case Option.bind (jget v ''id'') as_str of None \<Rightarrow> True | Some i \<Rightarrow> i \<notin> del"
  have c: "commit J (if_pending (filter ?P)) m w = (w', m', Inr u)"
    using False assms(1) by (simp add: meta_reconcile_def)
  show ?thesis
    by (rule commit_queue[OF c assms(2)], erule (1) filter_queue) (simp add: entry_id_def)
qed

lemma meta_op_Inl:
  "meta_complete J i m w = (w', m', Inl e) \<Longrightarrow> m' = m"
  "meta_recover J st since msg old_id m w = (w', m', Inl e) \<Longrightarrow> m' = m"
  "meta_enqueue J t m w = (w', m', Inl e) \<Longrightarrow> m' = m"
  "meta_retry J ts m w = (w', m', Inl e) \<Longrightarrow> m' = m"
  "meta_reconcile J del m w = (w', m', Inl e) \<Longrightarrow> m' = m"
  by (auto simp: meta_complete_def meta_recover_def meta_enqueue_def meta_retry_def meta_reconcile_def Let_def
      split: prod.splits sum.splits if_splits dest: commit_Inl)


section \<open>The journal of accepted messages\<close>

text \<open>
  What the conductor relies on: an accepted message joins the end of the journal with its text, a
  retired one leaves and nothing else does, and a failed call changes nothing.
\<close>

locale message_journal =
  fixes view :: "'s \<Rightarrow> pending_message list"
    and wf :: "'s \<Rightarrow> bool"
    and push :: "string \<Rightarrow> 's \<Rightarrow> 'w \<Rightarrow> 'w \<times> 's \<times> pending_message res"
    and retire :: "string \<Rightarrow> 's \<Rightarrow> 'w \<Rightarrow> 'w \<times> 's \<times> unit res"
  assumes push_ok: "push t s w = (w', s', Inr p) \<Longrightarrow> wf s \<Longrightarrow> pm_text p = t \<and> view s' = view s @ [p] \<and> wf s'"
    and push_err: "push t s w = (w', s', Inl e) \<Longrightarrow> s' = s"
    and retire_ok: "retire i s w = (w', s', Inr u) \<Longrightarrow> wf s \<Longrightarrow>
      view s' = filter (\<lambda>p. pm_id p \<noteq> i) (view s) \<and> wf s'"
    and retire_err: "retire i s w = (w', s', Inl e) \<Longrightarrow> s' = s"
begin

lemma retire_front:
  assumes "retire (pm_id p) s w = (w', s', Inr u)" and "wf s" and "view s = p # ps" and "distinct (map pm_id (p # ps))"
  shows "view s' = ps"
proof -
  have "pm_id q \<noteq> pm_id p" if "q \<in> set ps" for q using assms(4) that by (auto simp: image_iff)
  then show ?thesis using retire_ok[OF assms(1,2)] assms(3) by (auto intro: filter_True)
qed

lemma push_retire:
  assumes "push t s w = (w1, s1, Inr p)" and "retire (pm_id p) s1 w1 = (w2, s2, Inr u)" and "wf s"
    and "pm_id p \<notin> pm_id ` set (view s)"
  shows "view s2 = view s"
proof -
  have "filter (\<lambda>q. pm_id q \<noteq> pm_id p) (view s) = view s"
    using assms(4) by (metis (mono_tags, lifting) filter_True image_eqI)
  then show ?thesis using push_ok[OF assms(1,3)] retire_ok[OF assms(2)] by simp
qed

end

interpretation journal: message_journal meta_pending "\<lambda>m. queue_wf (mt_data m)" "meta_enqueue J" "meta_complete J" for J
  by unfold_locales (auto dest: meta_enqueue_queue meta_complete_queue meta_op_Inl)

section \<open>Properties of the metadata\<close>


text \<open>what was committed survives a reopen: the next open finds the same data and no error.\<close>

theorem meta_commit_reopen:
  assumes "placed_meta home m w" and "commit J ch m w = (w', m', Inr ())" and "ch (mt_data m) \<noteq> Inr (mt_data m)"
    and "pretty_reads_back J (JObject (mt_data m'))" and "validate (mt_data m') = Inr (mt_data m')"
    and "faultless w2" and "files w2 = files w'"
  shows "mt_data (snd (meta_open J home (mt_session m) w2)) = mt_data m'
    \<and> mt_load_error (snd (meta_open J home (mt_session m) w2)) = None"
proof -
  have d: "ch (mt_data m) = Inr d \<Longrightarrow> d \<noteq> mt_data m" for d using assms(3) by auto
  have "files w' (mt_path m) = Some (new_file J (mt_data m'))"
    using assms(2) d meta_write_whole[OF assms(1)]
    by (auto simp: commit_def Let_def split: sum.splits if_splits prod.splits)
  moreover have "mt_path m = meta_file home (mt_session m)" using assms(1) by (simp add: placed_meta_def)
  ultimately show ?thesis using assms(4-7)
    by (simp add: meta_open_def meta_load_def new_file_def pretty_reads_back_def faultless_def Let_def)
qed

text \<open>
  metadata that exists but could not be loaded is never overwritten: every change is refused,
  and neither memory nor any file is touched.
\<close>

theorem meta_corrupt_refuses:
  assumes "mt_load_error m = Some e"
  shows "\<exists>msg. commit J ch m w = (w, m, Inl msg) \<and> meta_save J m w = (w, m, Inl msg)"
  using assms by (simp add: commit_def meta_save_def ensure_writable_def)

lemma set_entry_get:
  assumes "set_entry p key v ps = Inr ps'"
  shows "\<exists>e. bt_get ps' p = Some (JObject e) \<and> bt_get e key = Some v
      \<and> (\<forall>e0. bt_get ps p = Some (JObject e0) \<longrightarrow> (\<forall>k. k \<noteq> key \<longrightarrow> bt_get e k = bt_get e0 k))"
    and "\<And>q. q \<noteq> p \<Longrightarrow> bt_get ps' q = bt_get ps q"
  using assms by (auto simp: set_entry_def bt_get_def[of "[(key, v)]"] split: option.splits json.splits)

lemma in_object_commit:
  assumes "commit J (in_object key f) m w = (w', m', Inr u)" and "key \<noteq> ''updated''"
  obtains o0 o1 where "f o0 = Inr o1" and "bt_get (mt_data m') key = Some (JObject o1)"
    and "o0 = (case Option.bind (bt_get (mt_data m) key) as_object of Some x \<Rightarrow> x | None \<Rightarrow> [])"
proof -
  from commit_Inr[OF assms(1)] obtain d where d: "in_object key f (mt_data m) = Inr d"
    "\<And>k. k \<noteq> ''updated'' \<Longrightarrow> bt_get (mt_data m') k = bt_get d k" by blast
  then show thesis using d(2)[of key] assms(2)
    by (auto simp: in_object_def sum_bind_def split: option.splits json.splits sum.splits intro: that)
qed

lemma entry_commit:
  assumes "commit J (in_object PROVIDERS (set_entry p key v)) m w = (w', m', Inr u)"
  obtains ps ps' where "set_entry p key v ps = Inr ps'" and "bt_get (mt_data m') PROVIDERS = Some (JObject ps')"
    and "\<And>q. Option.bind (Option.bind (bt_get (mt_data m) PROVIDERS) as_object) (\<lambda>x. bt_get x q) = bt_get ps q"
proof -
  from in_object_commit[OF assms] obtain ps ps' where "set_entry p key v ps = Inr ps'"
    and "bt_get (mt_data m') PROVIDERS = Some (JObject ps')"
    and ps: "ps = (case Option.bind (bt_get (mt_data m) PROVIDERS) as_object of Some x \<Rightarrow> x | None \<Rightarrow> [])"
    by (auto simp: meta_keys)
  moreover have "Option.bind (Option.bind (bt_get (mt_data m) PROVIDERS) as_object) (\<lambda>x. bt_get x q) = bt_get ps q" for q
    by (cases "bt_get (mt_data m) PROVIDERS") (auto simp: ps split: option.splits)
  ultimately show thesis using that by blast
qed

lemma native_after_entry:
  assumes "commit J (in_object PROVIDERS (set_entry p key v)) m w = (w', m', Inr u)"
  shows "q \<noteq> p \<Longrightarrow> meta_native m' q = meta_native m q"
    and "key = ''id'' \<Longrightarrow> v = JString n \<Longrightarrow> meta_native m' p = (n, snd (meta_native m p))"
    and "key = ''synced'' \<Longrightarrow> v = JInt i \<Longrightarrow> fits_i64 i \<Longrightarrow> meta_native m' p = (fst (meta_native m p), i)"
proof -
  from assms obtain ps ps' where e: "set_entry p key v ps = Inr ps'"
    and p': "bt_get (mt_data m') PROVIDERS = Some (JObject ps')"
    and p0: "\<And>q. Option.bind (Option.bind (bt_get (mt_data m) PROVIDERS) as_object) (\<lambda>x. bt_get x q) = bt_get ps q"
    by (rule entry_commit) blast
  have old: "meta_native m q = (case bt_get ps q of
      Some entry \<Rightarrow> (case as_str (jindex entry ''id'') of Some s \<Rightarrow> s | None \<Rightarrow> [],
         case as_i64 (jindex entry ''synced'') of Some n \<Rightarrow> n | None \<Rightarrow> -1)
    | None \<Rightarrow> ([], -1))" for q
    unfolding meta_native_def p0 ..
  show "q \<noteq> p \<Longrightarrow> meta_native m' q = meta_native m q"
    using set_entry_get(2)[OF e] by (simp add: old meta_native_def[of m'] p')
  have entry: "(\<exists>e0. bt_get ps p = Some (JObject e0) \<and> bt_get ps' p = Some (JObject (bt_insert key v e0)))
    \<or> bt_get ps p = None \<and> bt_get ps' p = Some (JObject (bt_insert key v new_entry))
    \<or> bt_get ps p = Some JNull \<and> bt_get ps' p = Some (JObject (bt_insert key v []))"
    using e by (auto simp: set_entry_def bt_insert.simps split: option.splits json.splits)
  have new: "bt_get new_entry ''id'' = Some (JString [])" "bt_get new_entry ''synced'' = Some (JInt (-1))"
    by (simp_all add: new_entry_def bt_get_def)
  show "key = ''id'' \<Longrightarrow> v = JString n \<Longrightarrow> meta_native m' p = (n, snd (meta_native m p))"
    using entry by (elim disjE exE conjE)
      (simp_all add: old meta_native_def[of m'] p' new jindex_def jget_def fits_i64_def i64_min_def i64_max_def)
  show "key = ''synced'' \<Longrightarrow> v = JInt i \<Longrightarrow> fits_i64 i \<Longrightarrow> meta_native m' p = (fst (meta_native m p), i)"
    using entry by (elim disjE exE conjE)
      (simp_all add: old meta_native_def[of m'] p' new jindex_def jget_def)
qed

text \<open>
  What was told to a provider is remembered exactly: binding a native session changes that
  provider's session and not how far it was told, marking it told changes only that, and no other
  provider is affected by either.
\<close>

theorem meta_native_updates:
  "(meta_bind J p n m w = (w', m', Inr u) \<longrightarrow> meta_native m' p = (n, snd (meta_native m p))
      \<and> (\<forall>q. q \<noteq> p \<longrightarrow> meta_native m' q = meta_native m q))
   \<and> (mark_synced J p i m w = (w', m', Inr u) \<and> fits_i64 i \<longrightarrow> meta_native m' p = (fst (meta_native m p), i)
      \<and> (\<forall>q. q \<noteq> p \<longrightarrow> meta_native m' q = meta_native m q))"
  by (auto simp: meta_bind_def mark_synced_def native_after_entry)

text \<open>
  an accepted message is kept until it is retired and no longer: it joins the end of the
  journal under its own id with its own text, retiring it restores the journal as it was, and a
  refused call leaves the journal alone.
\<close>

theorem meta_journal_exact:
  assumes "queue_wf (mt_data m)" and "meta_enqueue J t m w = (w1, m1, r1)" and "meta_complete J i m1 w1 = (w2, m2, r2)"
  shows "case r1 of
      Inl _ \<Rightarrow> meta_pending m1 = meta_pending m
    | Inr p \<Rightarrow> pm_text p = t \<and> meta_pending m1 = meta_pending m @ [p]
        \<and> (r2 = Inr () \<and> i = pm_id p \<and> pm_id p \<notin> pm_id ` set (meta_pending m) \<longrightarrow> meta_pending m2 = meta_pending m)
        \<and> (\<forall>e. r2 = Inl e \<longrightarrow> meta_pending m2 = meta_pending m1)"
proof (cases r1)
  case (Inl e)
  then have "m1 = m" using journal.push_err assms(2) by blast
  with Inl show ?thesis by simp
next
  case (Inr p)
  note ok = journal.push_ok[OF assms(2)[unfolded Inr] assms(1)]
  have "meta_pending m2 = meta_pending m1" if "r2 = Inl e" for e
    using journal.retire_err assms(3) that by blast
  moreover have "meta_pending m2 = meta_pending m"
    if "r2 = Inr ()" "i = pm_id p" "pm_id p \<notin> pm_id ` set (meta_pending m)"
    using journal.push_retire[OF assms(2)[unfolded Inr] assms(3)[unfolded that(1,2)] assms(1) that(3)] .
  ultimately show ?thesis using ok by (simp add: Inr)
qed

text \<open>
  A pending entry written as an array passes the check on load and is sent, but retiring it by id
  looks for an object and leaves it in the file.
\<close>

lemma pending_array_form_stays:
  "validate [(''pending'', JArray [JArray [JString ''a'', JString ''hi'']]), (''providers'', JObject []), (''settings'', JObject [])]
     = Inr [(''pending'', JArray [JArray [JString ''a'', JString ''hi'']]), (''providers'', JObject []), (''settings'', JObject [])]
   \<and> pm_from (JArray [JString ''a'', JString ''hi'']) = Some \<lparr>pm_id = ''a'', pm_text = ''hi''\<rparr>
   \<and> filter (other_id ''a'') [JArray [JString ''a'', JString ''hi'']] = [JArray [JString ''a'', JString ''hi'']]"
  by code_simp

section \<open>Worked instances\<close>

definition small_meta :: meta where
  "small_meta = \<lparr>mt_session = ''s'', mt_path = meta_file ''h'' ''s'', mt_data = fresh_data ''s'' ''t0'', mt_load_error = None\<rparr>"

lemma placed_small [simp]: "placed_meta ''h'' small_meta blank_world"
proof -
  have "show_nat 1 = ''1''" by code_simp
  then show ?thesis unfolding placed_meta_def by (metis blank_world_def small_meta_def meta.simps(1,2) world.simps(8))
qed

lemma queue_wf_small [simp]: "queue_wf (mt_data small_meta)"
  by (simp add: queue_wf_def small_meta_def fresh_data_def bt_get_def PENDING_def)


theorem meta_native_updates_witness:
  "case meta_bind toy_codec ''codex'' ''n1'' small_meta blank_world of
     (w', m', Inr _) \<Rightarrow> meta_native m' ''codex'' = (''n1'', -1) \<and> meta_native m' ''agy'' = ([], -1) | _ \<Rightarrow> False"
proof -
  let ?r = "meta_bind toy_codec ''codex'' ''n1'' small_meta blank_world"
  have "case ?r of (_, _, Inr _) \<Rightarrow> True | _ \<Rightarrow> False" by code_simp
  then obtain w' m' u where r: "?r = (w', m', Inr u)" by (auto split: prod.splits sum.splits)
  have "meta_native small_meta q = ([], -1)" for q
    by (simp add: meta_native_def small_meta_def fresh_data_def bt_get_def PROVIDERS_def)
  with meta_native_updates r show ?thesis by fastforce
qed

theorem meta_journal_exact_witness:
  "case meta_enqueue toy_codec ''hi'' small_meta blank_world of
     (w1, m1, Inr p) \<Rightarrow> pm_text p = ''hi'' \<and> meta_pending m1 = [p] | _ \<Rightarrow> False"
proof -
  let ?r = "meta_enqueue toy_codec ''hi'' small_meta blank_world"
  have "case ?r of (_, _, Inr _) \<Rightarrow> True | _ \<Rightarrow> False" by code_simp
  then obtain w1 m1 p where r: "?r = (w1, m1, Inr p)" by (auto split: prod.splits sum.splits)
  obtain w2 m2 r2 where c: "meta_complete toy_codec (pm_id p) m1 w1 = (w2, m2, r2)" by (cases "meta_complete toy_codec (pm_id p) m1 w1") auto
  have "meta_pending small_meta = []"
    by (simp add: meta_pending_def small_meta_def fresh_data_def bt_get_def PENDING_def)
  with meta_journal_exact[OF queue_wf_small r c] r show ?thesis by simp
qed

theorem meta_corrupt_refuses_witness:
  "\<exists>msg. commit toy_codec Inr (small_meta\<lparr>mt_load_error := Some ''bad''\<rparr>) blank_world
      = (blank_world, small_meta\<lparr>mt_load_error := Some ''bad''\<rparr>, Inl msg)"
  using meta_corrupt_refuses[of "small_meta\<lparr>mt_load_error := Some ''bad''\<rparr>" "''bad''" toy_codec Inr blank_world] by auto

definition bound_data :: jmap where
  "bound_data = bt_insert PROVIDERS (JObject [(''codex'', JObject [(''id'', JString ''n1''), (''synced'', JInt (-1))])])
     (bt_insert ''updated'' (JString ''0'') (fresh_data ''s'' ''t0''))"

theorem meta_commit_reopen_witness:
  "case meta_bind (single_codec (JObject bound_data)) ''codex'' ''n1'' small_meta blank_world of
     (w', m', r) \<Rightarrow> mt_data (snd (meta_open (single_codec (JObject bound_data)) ''h'' ''s'' (w'\<lparr>fault := \<lambda>_. None\<rparr>))) = bound_data"
proof -
  let ?J = "single_codec (JObject bound_data)"
  let ?ch = "in_object PROVIDERS (set_entry ''codex'' ''id'' (JString ''n1''))"
  let ?r = "commit ?J ?ch small_meta blank_world"
  have ok: "snd (snd ?r) = Inr () \<and> mt_data (fst (snd ?r)) = bound_data" by code_simp
  obtain w' m' where r: "?r = (w', m', Inr ())" and d: "mt_data m' = bound_data"
    using ok by (cases ?r) auto
  have ch: "?ch (mt_data small_meta) \<noteq> Inr (mt_data small_meta)" by code_simp
  have v: "validate bound_data = Inr bound_data" by code_simp
  have p: "pretty_reads_back ?J (JObject bound_data)" by (simp add: pretty_reads_back_def single_codec_def newline_def)
  have "mt_session small_meta = ''s''" by (simp add: small_meta_def)
  with meta_commit_reopen[OF placed_small r ch, of "w'\<lparr>fault := \<lambda>_. None\<rparr>"] r d v p show ?thesis
    by (simp add: meta_bind_def faultless_def)
qed

end
