(* ===== verification/Choose_Model.thy ===== *)
theory Choose_Model
  imports Session_Store
begin

text \<open>
  \<open>choose.rs\<close>: what should answer a turn. A named model is settled here; a key or a number is
  put to the registry, whose answers are cached in a file. With it, the inventory of conditional
  models of \<open>antigravity_cli/account.rs\<close> that is part of the question. Seconds are exact
  rationals where the source has doubles. Nothing here fails loudly: an unreadable cache is an
  empty one and a failed write is dropped.
\<close>

definition BACKEND :: string where "BACKEND = ''https://backend.omni.teamofsilicons.com''"
definition CACHE_TTL :: rat where "CACHE_TTL = 60 * 60"
definition QUIET_TTL :: rat where "QUIET_TTL = 5 * 60"
definition VERSION :: int where "VERSION = 4"
definition INTELLIGENCE_VALUES :: int where "INTELLIGENCE_VALUES = 11"

record pick =
  pk_provider :: string
  pk_model :: string
  pk_effort :: string
  pk_fast :: bool

definition pick_new :: "string \<Rightarrow> string \<Rightarrow> string \<Rightarrow> pick" where
  "pick_new provider model effort = \<lparr>pk_provider = provider, pk_model = model, pk_effort = effort, pk_fast = False\<rparr>"

datatype ask =
    Ask_Key string
  | Ask_Intelligence int "string option"
  | Ask_Model "string option" string string bool

definition ask_default :: ask where
  "ask_default = Ask_Intelligence 5 None"

definition ask_key :: "string \<Rightarrow> ask" where
  "ask_key word = Ask_Key (to_lower (trim word))"

definition ask_intelligence :: "int \<Rightarrow> ask" where
  "ask_intelligence n = Ask_Intelligence n None"

fun ask_on :: "string \<Rightarrow> ask \<Rightarrow> ask" where
  "ask_on board (Ask_Intelligence n _) = Ask_Intelligence n (Some (trim board))"
| "ask_on board other = other"

definition ask_model :: "string \<Rightarrow> ask" where
  "ask_model name = Ask_Model None (trim name) [] False"

fun ask_from :: "string \<Rightarrow> ask \<Rightarrow> ask" where
  "ask_from name (Ask_Model _ model effort fast) = Ask_Model (Some (trim name)) model effort fast"
| "ask_from name other = other"

fun ask_effort :: "string \<Rightarrow> ask \<Rightarrow> ask" where
  "ask_effort level (Ask_Model provider model _ fast) = Ask_Model provider model (trim level) fast"
| "ask_effort level other = other"

fun ask_fast :: "bool \<Rightarrow> ask \<Rightarrow> ask" where
  "ask_fast hot (Ask_Model provider model effort _) = Ask_Model provider model effort hot"
| "ask_fast hot other = other"

definition clamp :: "int \<Rightarrow> int \<Rightarrow> int \<Rightarrow> int" where
  "clamp lo hi n = (if n < lo then lo else if hi < n then hi else n)"

fun query :: "ask \<Rightarrow> (string \<times> string) list" where
  "query (Ask_Key key) = [(''key'', key)]"
| "query (Ask_Intelligence n bench) =
     (''intelligence'', show_int (clamp 0 (INTELLIGENCE_VALUES - 1) n))
     # (case bench of Some b \<Rightarrow> [(''bench'', b)] | None \<Rightarrow> [])"
| "query (Ask_Model _ _ _ _) = []"

fun ask_display :: "ask \<Rightarrow> string" where
  "ask_display (Ask_Key key) = key"
| "ask_display (Ask_Intelligence n bench) =
     show_int n @ (case bench of Some b \<Rightarrow> '' on '' @ b | None \<Rightarrow> [])"
| "ask_display (Ask_Model _ model effort fast) =
     model @ (if effort = [] then [] else CHR '' '' # effort) @ (if fast then '' fast'' else [])"

section \<open>Names and addresses\<close>

definition trim_slashes :: "string \<Rightarrow> string" where
  "trim_slashes s = rev (dropWhile (\<lambda>c. c = CHR ''/'') (rev s))"

definition env_or :: "world \<Rightarrow> string \<Rightarrow> string \<Rightarrow> string" where
  "env_or w var dflt = (case env_var w var of Some v \<Rightarrow> if v = [] then dflt else v | None \<Rightarrow> dflt)"

definition backend :: "world \<Rightarrow> string" where
  "backend w = trim_slashes (env_or w ''OMNI_BACKEND'' BACKEND)"

definition remote :: "world \<Rightarrow> string" where
  "remote w = env_or w ''OMNI_REGISTRY'' (backend w @ ''/choose.json'')"

text \<open>\<open>sort_unstable\<close> and \<open>dedup\<close>: the increasing list of the names, each once.\<close>

definition providers_key :: "string list \<Rightarrow> string" where
  "providers_key providers = join ''+'' (remdups_adj (sort providers))"

type_synonym available = "(string \<times> string list) list"

definition ANTIGRAVITY :: string where "ANTIGRAVITY = ''antigravity-cli''"

text \<open>\<open>str::lines\<close>: split at newlines, without them and without a carriage return before.\<close>

fun str_lines :: "string \<Rightarrow> string \<Rightarrow> string list" where
  "str_lines acc [] = (if acc = [] then [] else [rev acc])"
| "str_lines acc (c # cs) =
     (if c = newline then rev (case acc of d # ds \<Rightarrow> if d = CHR 0x0D then ds else acc | [] \<Rightarrow> []) # str_lines [] cs
      else str_lines (c # acc) cs)"

definition ascii_alnum :: "char \<Rightarrow> bool" where
  "ascii_alnum c \<longleftrightarrow> is_alnum c \<and> of_char c < (128::nat)"

definition valid_model_id :: "string \<Rightarrow> bool" where
  "valid_model_id i \<longleftrightarrow> length i \<le> 120 \<and>
     (case i of [] \<Rightarrow> False | c # cs \<Rightarrow> ascii_alnum c \<and> list_all (\<lambda>c. ascii_alnum c \<or> c \<in> set ''._:/-'') cs)"

definition tab_id :: "string \<Rightarrow> string list" where
  "tab_id line = (if CHR 0x09 \<in> set line then [trim (takeWhile (\<lambda>c. c \<noteq> CHR 0x09) line)] else [])"

definition model_ids :: "string \<Rightarrow> string list" where
  "model_ids text = fold bs_insert (filter valid_model_id (concat (map tab_id (str_lines [] text)))) []"

text \<open>The inventory, remembered: a failed or unrecognised one grants no conditional model.\<close>

definition agy_models :: "rat \<Rightarrow> world \<Rightarrow> world \<times> string list" where
  "agy_models max_age w =
     (let probe = (let ids = (case command w (tick w) [''agy'', ''models''] of
                                Some (code, text) \<Rightarrow> if code = 0 then model_ids text else [] | None \<Rightarrow> []);
                       w' = tick_on w
                   in (w'\<lparr>models_memo := Some (monotonic w' (tick w'), ids)\<rparr>, ids))
      in case models_memo w of
           Some (since, ids) \<Rightarrow> if monotonic w (tick w) - since < max_age then (w, ids) else probe
         | None \<Rightarrow> probe)"

definition forget_models :: "world \<Rightarrow> world" where
  "forget_models w = w\<lparr>models_memo := None\<rparr>"

definition available_models :: "string list option \<Rightarrow> rat \<Rightarrow> world \<Rightarrow> world \<times> available" where
  "available_models providers max_age w =
     (if (case providers of None \<Rightarrow> True | Some names \<Rightarrow> ANTIGRAVITY \<in> set names)
      then (case agy_models max_age w of (w', ids) \<Rightarrow> (w', [(ANTIGRAVITY, ids)]))
      else (w, []))"

definition models_value :: "available \<Rightarrow> json" where
  "models_value models = JObject (map (\<lambda>(k, ids). (k, JArray (map JString ids))) models)"

definition cache_name :: "ask \<Rightarrow> string list \<Rightarrow> string" where
  "cache_name a providers = join ''|'' (providers_key providers # map (\<lambda>(n, v). n @ ''='' @ v) (query a))"

definition cache_name_with_models :: "codec \<Rightarrow> ask \<Rightarrow> string list \<Rightarrow> available \<Rightarrow> string" where
  "cache_name_with_models J a providers models =
     (if models = [] then cache_name a providers
      else cache_name a providers @ ''|available_models='' @ to_text J (models_value models))"

definition hex_digit :: "nat \<Rightarrow> char" where
  "hex_digit n = char_of (if n < 10 then 48 + n else 55 + n)"

definition urlencode :: "string \<Rightarrow> string" where
  "urlencode text = concat (map (\<lambda>c.
     if ascii_alnum c \<or> c \<in> set ''-_.~'' then [c]
     else [CHR ''%'', hex_digit (of_char c div 16), hex_digit (of_char c mod 16)]) text)"

section \<open>Answers\<close>

definition pick_value :: "pick \<Rightarrow> json" where
  "pick_value p = JObject [(''effort'', JString (pk_effort p)), (''fast'', JBool (pk_fast p)),
     (''model'', JString (pk_model p)), (''provider'', JString (pk_provider p))]"

definition pick_from :: "json \<Rightarrow> pick option" where
  "pick_from v =
     Option.bind (struct_fields [''provider'', ''model'', ''effort'', ''fast''] v) (\<lambda>m.
     Option.bind (get_str m ''provider'') (\<lambda>pr.
     Option.bind (get_str m ''model'') (\<lambda>mo.
     Option.bind (field as_str [] m ''effort'') (\<lambda>ef.
     Option.bind (field as_bool False m ''fast'') (\<lambda>fa.
     Some \<lparr>pk_provider = pr, pk_model = mo, pk_effort = ef, pk_fast = fa\<rparr>)))))"

definition unwrap :: "json \<Rightarrow> pick option" where
  "unwrap payload =
     Option.bind (jget payload ''pick'') (\<lambda>v.
     Option.bind (pick_from v) (\<lambda>p.
     if trim (pk_provider p) \<noteq> [] \<and> trim (pk_model p) \<noteq> [] then Some p else None))"

definition fetch_url :: "codec \<Rightarrow> ask \<Rightarrow> string list \<Rightarrow> available \<Rightarrow> world \<Rightarrow> string" where
  "fetch_url J a providers models w =
     remote w @ ''?'' @ join ''&'' (map (\<lambda>(n, v). urlencode n @ ''='' @ urlencode v)
       ((''providers'', providers_key providers) # query a @ [(''available_models'', to_text J (models_value models))]))"

text \<open>One request: no connection, an unreadable body and a body without a pick are all no answer.\<close>

definition fetch_with_models :: "codec \<Rightarrow> ask \<Rightarrow> string list \<Rightarrow> available \<Rightarrow> world \<Rightarrow> world \<times> pick option" where
  "fetch_with_models J a providers models w =
     (tick_on w,
      Option.bind (network w (tick w) (fetch_url J a providers models w)) (\<lambda>body.
      case from_slice J body of Inr v \<Rightarrow> unwrap v | Inl _ \<Rightarrow> None))"

definition fetch :: "codec \<Rightarrow> ask \<Rightarrow> string list \<Rightarrow> world \<Rightarrow> world \<times> pick option" where
  "fetch J a providers w =
     (case available_models (Some providers) 30 w of (w1, models) \<Rightarrow> fetch_with_models J a providers models w1)"

definition cache_file :: "string \<Rightarrow> string" where
  "cache_file home = path_join (path_join home ''cache'') ''choose.json''"

definition epoch :: "world \<Rightarrow> rat" where
  "epoch w = seconds w (tick w)"

definition cached :: "codec \<Rightarrow> string \<Rightarrow> world \<Rightarrow> world \<times> jmap" where
  "cached J home w =
     (tick_on w,
      case (fault w (tick w), files w (cache_file home)) of
        (None, Some f) \<Rightarrow>
          (case from_slice J (content f) of
             Inr (JObject blob) \<Rightarrow> if get_u64 blob ''version'' = Some VERSION then blob else []
           | _ \<Rightarrow> [])
      | _ \<Rightarrow> [])"

definition read_entry :: "rat \<Rightarrow> bool \<Rightarrow> json \<Rightarrow> pick option" where
  "read_entry now fresh_only entry =
     (let since = (case Option.bind (jget entry ''at'') as_f64 of Some r \<Rightarrow> r | None \<Rightarrow> 0);
          ttl = (case Option.bind (jget entry ''ttl'') as_f64 of Some r \<Rightarrow> r | None \<Rightarrow> CACHE_TTL)
      in if fresh_only \<and> ttl < now - since then None
         else Option.bind (jget entry ''pick'') pick_from)"

definition read_cache :: "codec \<Rightarrow> string \<Rightarrow> string \<Rightarrow> bool \<Rightarrow> world \<Rightarrow> world \<times> pick option" where
  "read_cache J home name fresh_only w =
     (case cached J home w of (w1, blob) \<Rightarrow>
        (w1, Option.bind (bt_get blob name) (read_entry (epoch w1) fresh_only)))"

definition cache_entry :: "rat \<Rightarrow> pick \<Rightarrow> rat \<Rightarrow> json" where
  "cache_entry now p ttl = JObject [(''at'', JFloat now), (''pick'', pick_value p), (''ttl'', JFloat ttl)]"

definition cache_blob :: "string \<Rightarrow> pick \<Rightarrow> rat \<Rightarrow> rat \<Rightarrow> jmap \<Rightarrow> jmap" where
  "cache_blob name p ttl now blob = bt_insert name (cache_entry now p ttl) (bt_insert ''version'' (JInt VERSION) blob)"

text \<open>\<open>write_cache\<close>: the results of the permission change, the write and the sync are dropped.\<close>

definition write_cache :: "codec \<Rightarrow> string \<Rightarrow> string \<Rightarrow> pick \<Rightarrow> rat \<Rightarrow> world \<Rightarrow> world" where
  "write_cache J home name p ttl w =
     (let (w0, _) = paths_ensure w;
          (w1, blob) = cached J home w0;
          blob' = cache_blob name p ttl (epoch w1) blob;
          path = cache_file home
      in case fs_open_truncate path w1 of
           (w2, Inl _) \<Rightarrow> w2
         | (w2, Inr _) \<Rightarrow>
             fst (fs_sync path (fst (fs_write_all path (to_text J (JObject blob')) (fst (fs_set_private path w2))))))"

definition pin :: "codec \<Rightarrow> string \<Rightarrow> ask \<Rightarrow> string list \<Rightarrow> pick \<Rightarrow> rat \<Rightarrow> world \<Rightarrow> world" where
  "pin J home a providers p ttl w =
     (case available_models (Some providers) 30 w of (w1, models) \<Rightarrow>
        write_cache J home (cache_name_with_models J a providers models) p ttl w1)"

definition keep :: "codec \<Rightarrow> string \<Rightarrow> string list \<Rightarrow> string \<Rightarrow> pick \<Rightarrow> rat \<Rightarrow> world \<Rightarrow> world \<times> pick res" where
  "keep J home providers name p ttl w =
     (if pk_provider p \<notin> set providers
      then (w, Inl (''the registry answered with '' @ pk_provider p @ '', which is not available here''))
      else (write_cache J home name p ttl w, Inr p))"

definition resolve_model :: "string list \<Rightarrow> string option \<Rightarrow> string \<Rightarrow> string \<Rightarrow> bool \<Rightarrow> pick res" where
  "resolve_model providers provider model effort fast =
     (if trim model = [] then Inl ''no model named''
      else
        let answer = (\<lambda>chosen. \<lparr>pk_provider = chosen, pk_model = trim model, pk_effort = effort, pk_fast = fast\<rparr>)
        in case provider of
             Some named \<Rightarrow>
               if named \<notin> set providers then Inl (named @ '' is not available'') else Inr (answer named)
           | None \<Rightarrow>
               (case remdups_adj (sort providers) of
                  [only] \<Rightarrow> Inr (answer only)
                | _ \<Rightarrow> Inl ''say which provider runs it: more than one is available''))"

definition debug_names :: "string list \<Rightarrow> string" where
  "debug_names ns = ''['' @ join '', '' (map (\<lambda>n. CHR 0x22 # n @ [CHR 0x22]) ns) @ '']''"

text \<open>The registry, and an old answer when it cannot be reached.\<close>

definition ask_registry :: "codec \<Rightarrow> string \<Rightarrow> ask \<Rightarrow> string list \<Rightarrow> available \<Rightarrow> string \<Rightarrow> world \<Rightarrow> world \<times> pick res" where
  "ask_registry J home a providers models name w =
     (case fetch_with_models J a providers models w of
        (w1, Some found) \<Rightarrow> keep J home providers name found CACHE_TTL w1
      | (w1, None) \<Rightarrow>
          (case read_cache J home name False w1 of
             (w2, Some stale) \<Rightarrow> keep J home providers name stale QUIET_TTL w2
           | (w2, None) \<Rightarrow>
               (w2, Inl (''no answer for '' @ debug_names (remdups_adj (sort providers)) @ '': could not reach ''
                  @ remote w2 @ '' and nothing is cached''))))"

definition resolve_remote :: "codec \<Rightarrow> string \<Rightarrow> ask \<Rightarrow> string list \<Rightarrow> world \<Rightarrow> world \<times> pick res" where
  "resolve_remote J home a providers w =
     (let (w1, models) = available_models (Some providers) 30 w;
          name = cache_name_with_models J a providers models
      in case read_cache J home name True w1 of
           (w2, Some p) \<Rightarrow> if pk_provider p \<in> set providers then (w2, Inr p)
                           else ask_registry J home a providers models name w2
         | (w2, None) \<Rightarrow> ask_registry J home a providers models name w2)"

definition resolve :: "codec \<Rightarrow> string \<Rightarrow> ask \<Rightarrow> string list \<Rightarrow> world \<Rightarrow> world \<times> pick res" where
  "resolve J home a providers w =
     (if providers = [] then (w, Inl ''no providers are available'')
      else case a of
        Ask_Model provider model effort fast \<Rightarrow> (w, resolve_model providers provider model effort fast)
      | _ \<Rightarrow> resolve_remote J home a providers w)"

section \<open>Facts\<close>

lemma keep_Inr: "keep J home providers name p ttl w = (w', Inr p') \<Longrightarrow> p' = p \<and> pk_provider p \<in> set providers"
  by (simp add: keep_def split: if_splits)

lemma resolve_model_Inr: "resolve_model providers pr model effort fast = Inr p \<Longrightarrow> pk_provider p \<in> set providers"
proof -
  assume r: "resolve_model providers pr model effort fast = Inr p"
  have "x \<in> set providers" if "remdups_adj (sort providers) = [x]" for x
    using that by (metis list.set_intros(1) remdups_adj_set set_sort)
  with r show ?thesis by (auto simp: resolve_model_def Let_def split: if_splits option.splits list.splits)
qed

lemma ask_registry_Inr: "ask_registry J home a providers models name w = (w', Inr p) \<Longrightarrow> pk_provider p \<in> set providers"
  by (auto simp: ask_registry_def dest!: keep_Inr split: prod.splits option.splits)

lemma resolve_in: "resolve J home a providers w = (w', Inr p) \<Longrightarrow> pk_provider p \<in> set providers"
  by (auto simp: resolve_def resolve_remote_def Let_def dest!: ask_registry_Inr resolve_model_Inr
      split: if_splits ask.splits prod.splits option.splits)

text \<open>What a cache write leaves to be read: the version and the entry, beside what was there.\<close>

lemma pick_round_trip [simp]: "pick_from (pick_value p) = Some p"
  by (simp add: pick_from_def pick_value_def struct_fields_def get_str_def field_def bt_get_def)

definition blob_after :: "codec \<Rightarrow> string \<Rightarrow> string \<Rightarrow> pick \<Rightarrow> rat \<Rightarrow> world \<Rightarrow> jmap" where
  "blob_after J home name p ttl w =
     (case cached J home (fst (paths_ensure w)) of (w1, blob) \<Rightarrow> cache_blob name p ttl (epoch w1) blob)"

lemma write_cache_files:
  assumes "faultless w"
  shows "\<exists>f. files (write_cache J home name p ttl w) (cache_file home) = Some f
      \<and> content f = to_text J (JObject (blob_after J home name p ttl w))"
    and "same_outside w (write_cache J home name p ttl w)"
    and "tick (write_cache J home name p ttl w) = tick w + 6"
  using assms
  by (auto simp: write_cache_def blob_after_def cached_def paths_ensure_def fs_touch_def fs_open_truncate_def
      fs_set_private_def fs_write_all_def fs_sync_def io_step_faultless faultless_def io_step_def Let_def
      empty_file_def same_outside_def)

lemma read_after_write:
  assumes "faultless w" and "faultless w2" and "files w2 = files (write_cache J home name p ttl w)"
    and "from_slice J (to_text J (JObject (blob_after J home name p ttl w))) = Inr (JObject (blob_after J home name p ttl w))"
    and "name \<noteq> ''version''" and "seconds w2 (Suc (tick w2)) - seconds w (Suc (Suc (tick w))) \<le> ttl"
  shows "read_cache J home name True w2 = (tick_on w2, Some p)"
proof -
  from write_cache_files(1)[OF assms(1)] obtain f where f: "files w2 (cache_file home) = Some f"
    "content f = to_text J (JObject (blob_after J home name p ttl w))" by (metis assms(3))
  have b: "bt_get (blob_after J home name p ttl w) name = Some (cache_entry (seconds w (Suc (Suc (tick w)))) p ttl)"
    "get_u64 (blob_after J home name p ttl w) ''version'' = Some VERSION"
    using assms(1,5) by (auto simp: blob_after_def cache_blob_def cached_def paths_ensure_def fs_touch_def
        io_step_faultless epoch_def get_u64_def VERSION_def u64_max_def)
  have "cached J home w2 = (tick_on w2, blob_after J home name p ttl w)"
    using assms(2,4) f b(2) by (simp add: cached_def faultless_def)
  then show ?thesis using b(1) assms(6)
    by (simp add: read_cache_def epoch_def read_entry_def cache_entry_def Let_def bt_get_def)
qed

lemma cache_name_not_version: "query a \<noteq> [] \<Longrightarrow> cache_name a providers \<noteq> ''version''"
proof -
  assume "query a \<noteq> []"
  then obtain x xs where q: "map (\<lambda>(n, v). n @ ''='' @ v) (query a) = x # xs" by (cases "query a") auto
  have "CHR ''|'' \<in> set (join ''|'' (y # x # xs))" for y x and xs :: "string list" by simp
  moreover have "CHR ''|'' \<notin> set ''version''" by simp
  ultimately show ?thesis unfolding cache_name_def q by metis
qed

lemma distinct_remdups_adj_sorted: "sorted xs \<Longrightarrow> distinct (remdups_adj xs)"
  by (induction xs rule: remdups_adj.induct) (auto simp: order_antisym)

lemma query_asked: "(\<forall>pr m e f. a \<noteq> Ask_Model pr m e f) \<longleftrightarrow> query a \<noteq> []"
  by (cases a) auto

section \<open>Properties of the choice\<close>

text \<open>
  C36: the registry chooses models and effort, never authority. Whatever the network answers and
  whatever the cache file holds, the provider of an answer is one the caller made available, and a
  named model is settled without reading or writing anything outside.
\<close>

theorem resolve_authority:
  "(resolve J home a providers w = (w', Inr p) \<longrightarrow> pk_provider p \<in> set providers)
   \<and> fst (resolve J home (Ask_Model pr model effort fast) providers w) = w"
  using resolve_in by (auto simp: resolve_def)

text \<open>
  A pinned answer is never asked over the network: within its time to live, the same question
  over the same providers is answered with the pinned pick, whatever the network would say.
\<close>

theorem pin_answers_offline:
  assumes "query a \<noteq> []" and "pk_provider p \<in> set providers" and "ANTIGRAVITY \<notin> set providers"
    and "faultless w" and "w2 = (pin J home a providers p ttl w)\<lparr>network := net, seconds := secs\<rparr>"
    and "from_slice J (to_text J (JObject (blob_after J home (cache_name a providers) p ttl w)))
      = Inr (JObject (blob_after J home (cache_name a providers) p ttl w))"
    and "secs (Suc (tick w2)) - seconds w (Suc (Suc (tick w))) \<le> ttl"
  shows "resolve J home a providers w2 = (tick_on w2, Inr p)"
proof -
  let ?name = "cache_name a providers"
  have models: "available_models (Some providers) 30 u = (u, [])" for u
    using assms(3) by (simp add: available_models_def)
  have name: "cache_name_with_models J b providers [] = cache_name b providers" for b by (simp add: cache_name_with_models_def)
  have pin: "pin J home a providers p ttl w = write_cache J home ?name p ttl w"
    by (simp add: pin_def models name)
  have ff: "faultless w2"
    using write_cache_files(2)[OF assms(4)] assms(4,5) by (simp add: pin faultless_def same_outside_def)
  have "read_cache J home ?name True w2 = (tick_on w2, Some p)"
    using assms(7) by (intro read_after_write[OF assms(4) ff _ assms(6) cache_name_not_version[OF assms(1)]])
      (simp_all add: assms(5) pin)
  moreover have "providers \<noteq> []" using assms(2) by auto
  ultimately show ?thesis using assms(1,2)
    by (cases a) (simp_all add: resolve_def resolve_remote_def models name Let_def)
qed

text \<open>
  the question asked does not depend on the order in which providers are listed nor on
  repetitions, and a number asked for stays on the dial.
\<close>

theorem cache_name_canonical:
  "(set ps = set qs \<longrightarrow> cache_name a ps = cache_name a qs)
   \<and> (\<exists>k \<in> {0..10}. query (Ask_Intelligence n None) = [(''intelligence'', show_int k)])"
proof -
  have "remdups_adj (sort ps) = remdups_adj (sort qs)" if "set ps = set qs"
    using that by (intro sorted_distinct_set_unique) (simp_all add: distinct_remdups_adj_sorted)
  then show ?thesis
    by (auto simp: cache_name_def providers_key_def clamp_def INTELLIGENCE_VALUES_def)
qed

section \<open>Worked instances\<close>

theorem resolve_authority_witness:
  "resolve toy_codec ''h'' (Ask_Model None '' m '' ''high'' True) [''a''] blank_world
     = (blank_world, Inr \<lparr>pk_provider = ''a'', pk_model = ''m'', pk_effort = ''high'', pk_fast = True\<rparr>)
   \<and> ''a'' \<in> set [''a'']"
proof -
  have "resolve toy_codec ''h'' (Ask_Model None '' m '' ''high'' True) [''a''] blank_world
     = (blank_world, Inr \<lparr>pk_provider = ''a'', pk_model = ''m'', pk_effort = ''high'', pk_fast = True\<rparr>)" (is ?r)
    by (simp add: resolve_def resolve_model_def trim_def is_ws_def)
  with resolve_authority[of toy_codec "''h''" "Ask_Model None '' m '' ''high'' True" "[''a'']" blank_world] show ?thesis
    by simp
qed

definition code_pick :: pick where
  "code_pick = pick_new ''codex'' ''m1'' ''high''"

theorem pin_answers_offline_witness:
  "let J = single_codec (JObject (blob_after toy_codec ''h'' (cache_name (Ask_Key ''code'') [''codex'']) code_pick 60 blank_world));
       w = (pin J ''h'' (Ask_Key ''code'') [''codex''] code_pick 60 blank_world)\<lparr>network := \<lambda>_ _. Some ''{}'', seconds := \<lambda>_. 60\<rparr>
   in snd (resolve J ''h'' (Ask_Key ''code'') [''codex''] w) = Inr code_pick"
proof -
  let ?a = "Ask_Key ''code''" and ?ps = "[''codex'']"
  let ?J = "single_codec (JObject (blob_after toy_codec ''h'' (cache_name ?a ?ps) code_pick 60 blank_world))"
  have J: "blob_after ?J ''h'' n code_pick 60 blank_world = blob_after toy_codec ''h'' n code_pick 60 blank_world" for n
    by (simp add: blob_after_def cached_def paths_ensure_def fs_touch_def io_step_def blank_world_def tick_on_def)
  let ?w2 = "(pin ?J ''h'' ?a ?ps code_pick 60 blank_world)\<lparr>network := \<lambda>_ _. Some ''{}'', seconds := \<lambda>_. 60\<rparr>"
  have "resolve ?J ''h'' ?a ?ps ?w2 = (tick_on ?w2, Inr code_pick)"
  proof (rule pin_answers_offline[OF _ _ _ faultless_blank refl])
    show "from_slice ?J (to_text ?J (JObject (blob_after ?J ''h'' (cache_name ?a ?ps) code_pick 60 blank_world)))
        = Inr (JObject (blob_after ?J ''h'' (cache_name ?a ?ps) code_pick 60 blank_world))"
      unfolding J by (simp add: single_codec_def newline_def)
  qed (simp_all add: code_pick_def pick_new_def ANTIGRAVITY_def blank_world_def)
  then show ?thesis by simp
qed

theorem cache_name_canonical_witness:
  "cache_name (Ask_Key ''code'') [''b'', ''a'', ''b''] = cache_name (Ask_Key ''code'') [''a'', ''b'']"
proof -
  have "set [''b'', ''a'', ''b''] = set [''a'', ''b'']" by auto
  with cache_name_canonical show ?thesis by blast
qed

end
