(* ===== verification/Provider_Base.thy ===== *)
theory Provider_Base
  imports Choose_Model
begin

text \<open>
  \<open>providers/base.rs\<close> and \<open>providers/mod.rs\<close>: what a provider has to be able to do, and the
  lookup everything else goes through. A provider's process is third-party code behind the trait
  \<open>Runner\<close>; the trait is the record \<open>runner_ops\<close> of its methods over an unspecified state \<open>'r\<close>.
  Every method that talks to the process also takes the count of steps so far, so that the same
  process may answer differently later: it may, for one, have died in between.
\<close>

definition AUTHENTICATED :: string where "AUTHENTICATED = ''authenticated''"
definition UNAUTHENTICATED :: string where "UNAUTHENTICATED = ''unauthenticated''"
definition GENERATION :: string where "GENERATION = ''_omni_generation''"
definition CONFIRMED :: string where "CONFIRMED = ''_omni_send_confirmed''"
definition CONFIRMED_AS :: string where "CONFIRMED_AS = ''_omni_confirmed_as''"

definition confirmed :: "string \<Rightarrow> string \<Rightarrow> string \<Rightarrow> event" where
  "confirmed now text opening = with_extra CONFIRMED_AS (JString opening) (saying text (event_new now CONFIRMED))"

datatype delivery = Immediate | Echoed | NextTurn

record config =
  cf_model :: string
  cf_effort :: string
  cf_fast :: bool
  cf_system_prompt :: string
  cf_append_system_prompt :: string
  cf_disable_subagents :: bool
  cf_disable_mcp :: bool
  cf_cwd :: string

definition config_default :: "string \<Rightarrow> config" where
  "config_default here = \<lparr>cf_model = [], cf_effort = [], cf_fast = False, cf_system_prompt = [],
     cf_append_system_prompt = [], cf_disable_subagents = True, cf_disable_mcp = True, cf_cwd = here\<rparr>"

text \<open>\<open>real\<close>: the canonical path, or the path itself when it cannot be resolved.\<close>

definition real_path :: "(string \<Rightarrow> string option) \<Rightarrow> string \<Rightarrow> string" where
  "real_path canonicalize path = (case canonicalize path of Some p \<Rightarrow> p | None \<Rightarrow> path)"

definition config_at :: "(string \<Rightarrow> string option) \<Rightarrow> string \<Rightarrow> config \<Rightarrow> config" where
  "config_at canonicalize cwd c = c\<lparr>cf_cwd := real_path canonicalize cwd\<rparr>"

text \<open>The trait \<open>Runner\<close>, and \<open>providers::runner\<close>, which builds one for a known name.\<close>

record 'r runner_ops =
  rn_name :: "'r \<Rightarrow> string"
  rn_native_id :: "'r \<Rightarrow> string"
  rn_generation :: "'r \<Rightarrow> int option"
  rn_start :: "nat \<Rightarrow> string \<Rightarrow> event list \<Rightarrow> 'r \<Rightarrow> 'r \<times> unit res"
  rn_seeded :: "'r \<Rightarrow> bool"
  rn_send :: "nat \<Rightarrow> string \<Rightarrow> 'r \<Rightarrow> 'r \<times> delivery res"
  rn_compact :: "nat \<Rightarrow> 'r \<Rightarrow> 'r \<times> bool res"
  rn_retune :: "nat \<Rightarrow> string \<Rightarrow> string \<Rightarrow> 'r \<Rightarrow> 'r \<times> bool"
  rn_catch_up :: "nat \<Rightarrow> event list \<Rightarrow> 'r \<Rightarrow> 'r \<times> bool"
  rn_interrupt :: "nat \<Rightarrow> 'r \<Rightarrow> 'r"
  rn_stop :: "nat \<Rightarrow> 'r \<Rightarrow> 'r"
  rn_alive :: "nat \<Rightarrow> 'r \<Rightarrow> bool"
  rn_parkable :: "nat \<Rightarrow> 'r \<Rightarrow> bool"
  rn_make :: "string \<Rightarrow> string \<Rightarrow> config \<Rightarrow> int \<Rightarrow> 'r option"

definition exited :: "string \<Rightarrow> string \<Rightarrow> string \<Rightarrow> int \<Rightarrow> event" where
  "exited now name cli code = from_provider name (failure now CRASH (cli @ '' exited with '' @ show_int code))"

definition blank_limits :: json where
  "blank_limits = JObject [(''reset'', JNull), (''used'', JNull)]"

section \<open>Names, logins and the memo of them\<close>

definition BUILT_IN :: "string list" where
  "BUILT_IN = [''claude-code-cli'', ''codex-app-server'', ''antigravity-cli'']"

definition names :: "string list \<Rightarrow> string list" where
  "names doubles = BUILT_IN @ filter (\<lambda>n. n \<notin> set BUILT_IN) doubles"

definition retunes_instructions :: "string \<Rightarrow> bool" where
  "retunes_instructions name \<longleftrightarrow> name \<noteq> ''codex-app-server''"

text \<open>What the accounts of the known providers answer: installed or not, and the probe of the login.\<close>

record accounts =
  ac_doubles :: "string list"
  ac_installed :: "string \<Rightarrow> bool"
  ac_probe :: "nat \<Rightarrow> string \<Rightarrow> string"

definition known_account :: "accounts \<Rightarrow> string \<Rightarrow> bool" where
  "known_account A name \<longleftrightarrow> name \<in> set BUILT_IN \<or> name \<in> set (ac_doubles A)"

definition TTL :: rat where "TTL = 600"
definition DOUBT :: rat where "DOUBT = 10"

definition recall :: "string \<Rightarrow> world \<Rightarrow> string option" where
  "recall name w =
     Option.bind (auth_memo w) (\<lambda>memo.
     Option.bind (bt_get memo name) (\<lambda>(status, checked).
     let window = (if status = AUTHENTICATED then TTL else DOUBT)
     in if epoch w - checked < window then Some status else None))"

text \<open>
  \<open>Antigravity::probe\<close>: \<open>agy models\<close> is the question, and its answer is the inventory. The other accounts
  leave the inventory alone; theirs is the answer \<open>ac_probe\<close>.
\<close>

definition agy_probe :: "world \<Rightarrow> world \<times> string" where
  "agy_probe w =
     (let w' = tick_on w; no = (w'\<lparr>models_memo := None\<rparr>, UNAUTHENTICATED) in
      case command w (tick w) [''agy'', ''models''] of
        Some (code, text) \<Rightarrow>
          if code = 0 then (w'\<lparr>models_memo := Some (monotonic w' (tick w'), model_ids text)\<rparr>, AUTHENTICATED) else no
      | None \<Rightarrow> no)"

definition account_probe :: "accounts \<Rightarrow> string \<Rightarrow> world \<Rightarrow> world \<times> string" where
  "account_probe A name w = (if name = ANTIGRAVITY then agy_probe w else (tick_on w, ac_probe A (tick w) name))"

definition auth_status :: "accounts \<Rightarrow> string \<Rightarrow> world \<Rightarrow> world \<times> string" where
  "auth_status A name w =
     (case recall name w of
        Some remembered \<Rightarrow> (w, remembered)
      | None \<Rightarrow>
          (case (if known_account A name then account_probe A name w else (tick_on w, UNAUTHENTICATED)) of
             (w', status) \<Rightarrow>
               let memo = (case auth_memo w' of Some m \<Rightarrow> m | None \<Rightarrow> [])
               in (w'\<lparr>auth_memo := Some (bt_insert name (status, epoch w') memo)\<rparr>, status)))"

lemma account_probe_frame: "account_probe A name w = (w', st) \<Longrightarrow> same_outside w w'"
  by (auto simp: account_probe_def agy_probe_def Let_def same_outside_def split: option.splits if_splits prod.splits)

definition forget :: "string \<Rightarrow> world \<Rightarrow> world" where
  "forget name w =
     (let w1 = w\<lparr>auth_memo := map_option (bt_remove name) (auth_memo w)\<rparr>
      in if name = ANTIGRAVITY then forget_models w1 else w1)"

definition forget_everything :: "world \<Rightarrow> world" where
  "forget_everything w = forget_models (w\<lparr>auth_memo := None\<rparr>)"

definition probed_ago :: "world \<Rightarrow> rat option" where
  "probed_ago w =
     (case auth_memo w of
        None \<Rightarrow> None
      | Some [] \<Rightarrow> None
      | Some (e # es) \<Rightarrow> Some (epoch w - foldr min (map (snd \<circ> snd) es) (snd (snd e))))"

text \<open>The probes run side by side on names that do not interfere; here one after the other.\<close>

fun probe_all :: "accounts \<Rightarrow> string list \<Rightarrow> world \<Rightarrow> world \<times> string list" where
  "probe_all A [] w = (w, [])"
| "probe_all A (n # ns) w =
     (case auth_status A n w of (w1, status) \<Rightarrow>
      case probe_all A ns w1 of (w2, rest) \<Rightarrow>
        (w2, if status = AUTHENTICATED then n # rest else rest))"

definition available_providers :: "accounts \<Rightarrow> string list option \<Rightarrow> world \<Rightarrow> world \<times> string list" where
  "available_providers A limit_to w =
     probe_all A (filter (\<lambda>n. known_account A n \<and> ac_installed A n)
       (filter (\<lambda>n. case limit_to of None \<Rightarrow> True | Some allowed \<Rightarrow> n \<in> set allowed) (names (ac_doubles A)))) w"

definition notice :: "string \<Rightarrow> string \<Rightarrow> string \<Rightarrow> jmap \<Rightarrow> event" where
  "notice now provider what extra = extras extra (from_provider provider (config_event now what))"

section \<open>Facts\<close>

lemma bt_get_auth: "bt_get (bt_insert k v m) k' = (if k' = k then Some v else bt_get m k')"
  by simp

lemma probe_all_subset: "set (snd (probe_all A ns w)) \<subseteq> set ns"
proof (induction A ns w rule: probe_all.induct)
  case (2 A n ns w)
  then show ?case by (auto split: prod.splits)
qed simp

lemma probe_all_sound:
  "n \<in> set (snd (probe_all A ns w)) \<Longrightarrow> \<exists>u. same_outside w u \<and> snd (auth_status A n u) = AUTHENTICATED"
proof (induction A ns w rule: probe_all.induct)
  case (2 A m ns w)
  obtain w1 st where a: "auth_status A m w = (w1, st)" by fastforce
  have "same_outside w w1"
    using a account_probe_frame[of A m w]
    by (auto simp: auth_status_def Let_def same_outside_def split: option.splits prod.splits if_splits)
  moreover have "n = m \<and> st = AUTHENTICATED \<or> n \<in> set (snd (probe_all A ns w1))"
    using "2.prems" a by (auto split: prod.splits if_splits)
  moreover have "\<exists>u. same_outside w1 u \<and> snd (auth_status A n u) = AUTHENTICATED"
    if "n \<in> set (snd (probe_all A ns w1))"
    using "2.IH"[OF a[symmetric] that] .
  ultimately show ?case using a outside.le_trans outside.le_refl by (metis snd_conv)
qed simp

text \<open>
  only providers that are installed and signed in are routed to, and only those asked for: each
  is known, in the limit when one is given, installed, and answered \<open>authenticated\<close> when asked.
\<close>

theorem available_sound:
  assumes "n \<in> set (snd (available_providers A limit_to w))"
  shows "known_account A n \<and> ac_installed A n \<and> (\<forall>allowed. limit_to = Some allowed \<longrightarrow> n \<in> set allowed)
    \<and> (\<exists>u. same_outside w u \<and> snd (auth_status A n u) = AUTHENTICATED)"
  using assms probe_all_sound probe_all_subset
  by (fastforce simp: available_providers_def split: option.splits)

theorem available_sound_witness:
  "snd (auth_status \<lparr>ac_doubles = [''d''], ac_installed = (\<lambda>n. n = ''d''), ac_probe = (\<lambda>_ _. AUTHENTICATED)\<rparr> ''d'' blank_world)
     = AUTHENTICATED
   \<and> (\<exists>u. same_outside blank_world u \<and>
      snd (auth_status \<lparr>ac_doubles = [''d''], ac_installed = (\<lambda>n. n = ''d''), ac_probe = (\<lambda>_ _. AUTHENTICATED)\<rparr> ''d'' u) = AUTHENTICATED)"
proof -
  let ?A = "\<lparr>ac_doubles = [''d''], ac_installed = (\<lambda>n. n = ''d''), ac_probe = (\<lambda>_ _. AUTHENTICATED)\<rparr>"
  have "''d'' \<in> set (snd (available_providers ?A (Some [''d'']) blank_world))" by code_simp
  from available_sound[OF this] show ?thesis
    by (simp add: auth_status_def account_probe_def ANTIGRAVITY_def recall_def blank_world_def known_account_def Let_def)
qed

text \<open>
  an answer is trusted for as long as it may be and no longer: a remembered \<open>yes\<close> for ten
  minutes and a \<open>no\<close> for ten seconds, without asking again; after \<open>forget\<close> the account is asked.
\<close>

theorem auth_memo_window:
  assumes "auth_memo w = Some memo" and "bt_get memo name = Some (status, checked)"
  shows "(epoch w - checked < (if status = AUTHENTICATED then 600 else 10) \<longrightarrow> auth_status A name w = (w, status))
    \<and> (\<not> epoch w - checked < (if status = AUTHENTICATED then 600 else 10) \<and> known_account A name \<longrightarrow>
         snd (auth_status A name w) = snd (account_probe A name w))
    \<and> recall name (forget name w) = None"
  using assms by (auto simp: auth_status_def recall_def TTL_def DOUBT_def forget_def forget_models_def Let_def epoch_def split: prod.splits)

theorem auth_memo_window_witness:
  "auth_status \<lparr>ac_doubles = [], ac_installed = (\<lambda>_. True), ac_probe = (\<lambda>_ _. UNAUTHENTICATED)\<rparr> ''d''
       (blank_world\<lparr>auth_memo := Some [(''d'', AUTHENTICATED, 0)]\<rparr>)
     = (blank_world\<lparr>auth_memo := Some [(''d'', AUTHENTICATED, 0)]\<rparr>, AUTHENTICATED)"
proof -
  have m: "auth_memo (blank_world\<lparr>auth_memo := Some [(''d'', AUTHENTICATED, 0)]\<rparr>) = Some [(''d'', AUTHENTICATED, 0)]" by simp
  have g: "bt_get [(''d'', AUTHENTICATED, 0 :: rat)] ''d'' = Some (AUTHENTICATED, 0)" by (simp add: bt_get_def)
  show ?thesis using auth_memo_window[OF m g] by (simp add: epoch_def blank_world_def)
qed

end
