(* ===== verification/Seed_Text.thy ===== *)
theory Seed_Text
  imports Event_Model
begin

text \<open>
  \<open>translate.rs\<close>: history rendered as text for a provider that did not live through it. Values
  that are not plain text are printed by the JSON codec.
\<close>

definition SEED_HEADER :: string where
  "SEED_HEADER = ''Earlier in this conversation (carried over from another model, shown as a transcript ''
     @ [CHR 0xE2, CHR 0x80, CHR 0x94] @ '' do not re-run anything in it):''"

record turn_text =
  tn_role :: string
  tn_text :: string

definition readable :: "codec \<Rightarrow> json \<Rightarrow> bool \<Rightarrow> string" where
  "readable J v quote =
     (case v of
        JString t \<Rightarrow> if \<not> quote then trim t else to_text J v
      | JNull \<Rightarrow> []
      | _ \<Rightarrow> to_text J v)"

definition render :: "codec \<Rightarrow> event \<Rightarrow> string" where
  "render J e =
     (if ev_type e \<in> {START, INJECTED, TEXT} then ev_text e
      else if ev_type e = TOOL_CALL then
        (let body = (case ev_args e of [(_, v)] \<Rightarrow> readable J v True | _ \<Rightarrow> readable J (JObject (ev_args e)) False)
         in ''['' @ ev_tool e @ '': '' @ body @ '']'')
      else if ev_type e = TOOL_RESULT then
        (let tool = (if ev_tool e = [] then ''tool'' else ev_tool e);
             status = (if ev_ok e then [] else '' failed'')
         in ''['' @ tool @ '' result'' @ status @ '': '' @ readable J (ev_result e) False @ '']'')
      else [])"

definition role_of :: "event \<Rightarrow> string" where
  "role_of e = (if ev_type e \<in> {START, INJECTED} then ''user'' else ''assistant'')"

text \<open>One event added to the turns so far: it joins the last turn when that has its role.\<close>

definition add_turn :: "codec \<Rightarrow> event \<Rightarrow> turn_text list \<Rightarrow> turn_text list" where
  "add_turn J e out =
     (let text = render J e; role = role_of e in
      if text = [] then out
      else if out \<noteq> [] \<and> tn_role (last out) = role
        then butlast out @ [(last out)\<lparr>tn_text := tn_text (last out) @ [newline] @ text\<rparr>]
      else out @ [\<lparr>tn_role = role, tn_text = text\<rparr>])"

definition transcript :: "codec \<Rightarrow> event list \<Rightarrow> turn_text list" where
  "transcript J evs = fold (add_turn J) evs []"

definition flatten :: "codec \<Rightarrow> event list \<Rightarrow> string \<Rightarrow> string" where
  "flatten J evs header =
     (let turns = transcript J evs in
      if turns = [] then []
      else header @ [newline, newline]
        @ join [newline, newline] (map (\<lambda>t. to_upper (tn_role t) @ '': '' @ tn_text t) turns))"

section \<open>Facts\<close>

text \<open>Turns of alternating roles, none of them empty.\<close>

fun alternating :: "turn_text list \<Rightarrow> bool" where
  "alternating [] = True"
| "alternating [t] = (tn_text t \<noteq> [])"
| "alternating (t # u # ts) = (tn_text t \<noteq> [] \<and> tn_role t \<noteq> tn_role u \<and> alternating (u # ts))"

lemma alternating_snoc:
  "alternating (ts @ [t]) \<longleftrightarrow> alternating ts \<and> tn_text t \<noteq> [] \<and> (ts \<noteq> [] \<longrightarrow> tn_role (last ts) \<noteq> tn_role t)"
  by (induction ts rule: alternating.induct) auto

lemma alternating_snoc2:
  "alternating (ts @ [t, u]) \<longleftrightarrow> alternating (ts @ [t]) \<and> tn_text u \<noteq> [] \<and> tn_role t \<noteq> tn_role u"
  using alternating_snoc[of "ts @ [t]" u] by simp

lemma add_turn_alternating: "alternating out \<Longrightarrow> alternating (add_turn J e out)"
  by (cases out rule: rev_cases) (auto simp: add_turn_def Let_def alternating_snoc alternating_snoc2)

text \<open>What the turns of one role say, line by line: the reference against which merging is judged.\<close>

definition said :: "string \<Rightarrow> turn_text list \<Rightarrow> string list" where
  "said role ts = map tn_text (filter (\<lambda>t. tn_role t = role) ts)"

definition lines_said :: "codec \<Rightarrow> string \<Rightarrow> event list \<Rightarrow> string list" where
  "lines_said J role evs = filter (\<lambda>t. t \<noteq> []) (map (render J) (filter (\<lambda>e. role_of e = role) evs))"

lemma join_snoc: "join sep (xs @ [x]) = (if xs = [] then x else join sep xs @ sep @ x)"
  by (induction sep xs rule: join.induct) auto

lemma said_simps [simp]:
  "said role [] = []" "said role (t # ts) = (if tn_role t = role then [tn_text t] else []) @ said role ts"
  "said role (ts @ us) = said role ts @ said role us"
  by (simp_all add: said_def)

lemma join_nl_add:
  "join [newline] (xs @ [a @ newline # b]) = join [newline] (xs @ [a]) @ newline # b"
  by (simp add: join_snoc)

lemma said_add_turn:
  "join [newline] (said role (add_turn J e out)) =
     (if render J e = [] \<or> role_of e \<noteq> role then join [newline] (said role out)
      else if said role out = [] then render J e
      else join [newline] (said role out) @ newline # render J e)"
  by (cases out rule: rev_cases)
    (auto simp: add_turn_def Let_def join_snoc join_nl_add)

lemma said_add_turn_empty:
  "said role (add_turn J e out) = [] \<longleftrightarrow> said role out = [] \<and> (render J e = [] \<or> role_of e \<noteq> role)"
  by (cases out rule: rev_cases) (auto simp: add_turn_def Let_def)

lemma transcript_snoc: "transcript J (evs @ [e]) = add_turn J e (transcript J evs)"
  by (simp add: transcript_def)

lemma lines_said_snoc:
  "lines_said J role (evs @ [e]) = lines_said J role evs @ (if role_of e = role \<and> render J e \<noteq> [] then [render J e] else [])"
  by (simp add: lines_said_def)

lemma said_transcript:
  "(said role (transcript J evs) = [] \<longleftrightarrow> lines_said J role evs = [])
   \<and> join [newline] (said role (transcript J evs)) = join [newline] (lines_said J role evs)"
proof (induction evs rule: rev_induct)
  case Nil
  then show ?case by (simp add: transcript_def said_def lines_said_def)
next
  case (snoc e evs)
  then show ?case
    by (auto simp: transcript_snoc said_add_turn said_add_turn_empty lines_said_snoc join_snoc)
qed


end
