(* ===== verification/Chat_State.thy ===== *)
theory Chat_State
  imports Session_Meta Provider_Base Seed_Text
begin

text \<open>
  \<open>chat.rs\<close>, first part: the state of one session's conductor and the operations that do not
  bring a provider up: settings, recording and publishing, the transactional queue, and who an
  event is from. The record \<open>chat\<close> has the fields of the struct \<open>Chat\<close>; \<open>c_published\<close> is what the
  sink heard, \<open>c_stopped\<close> the processes that were told to stop, and \<open>c_world\<close> the outside. The
  inbox is not a field: the wakes are the input of the loop in \<open>Chat_Conductor\<close>.
\<close>

definition IDLE :: string where "IDLE = ''idle''"
definition WAITING :: string where "WAITING = ''waiting''"
definition BUSY :: string where "BUSY = ''busy''"
definition STOPPED :: string where "STOPPED = ''stopped''"

definition MODEL_EVENTS :: "string list" where
  "MODEL_EVENTS = [TEXT, THINKING, TOOL_CALL, TOOL_RESULT]"

definition ACTIVE_PROVIDERS :: string where "ACTIVE_PROVIDERS = ''active_providers''"
definition STORED_ASK :: string where "STORED_ASK = ''ask''"
definition SYSTEM_PROMPT :: string where "SYSTEM_PROMPT = ''system_prompt''"
definition APPEND_SYSTEM_PROMPT :: string where "APPEND_SYSTEM_PROMPT = ''append_system_prompt''"
definition SUBAGENTS :: string where "SUBAGENTS = ''subagents''"
definition MCP :: string where "MCP = ''mcp''"
definition AUTOREMOVE :: string where "AUTOREMOVE = ''autoremove''"
definition CWD :: string where "CWD = ''cwd''"
definition CONTEXT_RECOVERY :: string where "CONTEXT_RECOVERY = ''context_recovery''"
definition RECOVERY :: string where "RECOVERY = ''context_recovery_state''"
definition HISTORY_START :: string where "HISTORY_START = ''history_start''"
definition MESSAGE_ID :: string where "MESSAGE_ID = ''message_id''"
definition RUNNER_EPOCH :: string where "RUNNER_EPOCH = ''_omni_runner_epoch''"
definition ENDS_THE_TURN :: "string list" where "ENDS_THE_TURN = [LIMIT, UNAVAILABLE]"
definition ONCE :: "string list" where "ONCE = [''unsupported'', ''approximated'']"

section \<open>Data\<close>

record context_recovery =
  cr_limit_message :: string
  cr_new_session_message :: string
  cr_transcript_header :: string

definition recovery_texts :: context_recovery where
  "recovery_texts = \<lparr>cr_limit_message = ''Session Limit was hit. New Session will be started'',
     cr_new_session_message = ''New session was auto-started due to context limit. Check on pending work.'',
     cr_transcript_header = SEED_HEADER\<rparr>"

datatype change =
    Ch_Providers "string list"
  | Ch_Model ask
  | Ch_SystemPrompt string
  | Ch_AppendSystemPrompt string
  | Ch_Subagents bool
  | Ch_Mcp bool
  | Ch_Autoremove bool
  | Ch_Cwd string
  | Ch_ContextRecovery context_recovery

datatype recovery_stage = Compacting | Retrying | Handoff | Continuing | Resuming

record recovery =
  rc_stage :: recovery_stage
  rc_message_id :: string
  rc_retry :: string

record snapshot =
  sn_session :: string
  sn_status :: string
  sn_ask :: ask
  sn_providers :: "string list"
  sn_provider :: string
  sn_model :: string
  sn_effort :: string
  sn_cwd :: string
  sn_seq :: int
  sn_in_turn :: bool
  sn_queued :: nat

definition idle :: "snapshot \<Rightarrow> bool" where
  "idle s \<longleftrightarrow> sn_status s = WAITING \<and> \<not> sn_in_turn s"

type_synonym signature = "string \<times> string \<times> string \<times> config"

record 'r parked =
  pd_runner :: 'r
  pd_epoch :: "int option"
  pd_signature :: signature
  pd_synced :: int

record 'r chat =
  c_session_id :: string
  c_store :: store
  c_meta :: meta
  c_providers :: "string list"
  c_benched :: "string set"
  c_turn_failed :: "string option"
  c_ask :: ask
  c_config :: config
  c_context_recovery :: context_recovery
  c_recovery :: "recovery option"
  c_compaction_deadline :: "rat option"
  c_history_start :: int
  c_published :: "event list"
  c_state :: snapshot
  c_runner :: "'r option"
  c_runner_epoch :: "int option"
  c_next_runner_epoch :: int
  c_epoch_turns :: "(int \<times> int) list"
  c_sync_ceiling :: "int option"
  c_parked :: "(string \<times> 'r parked) list"
  c_current :: "signature option"
  c_launched_once :: bool
  c_outbox :: "pending_message list"
  c_awaiting :: "pending_message list"
  c_unanswered :: "string list list"
  c_next_turns :: nat
  c_pending :: "event list"
  c_turn :: int
  c_turn_recorded :: bool
  c_in_turn :: bool
  c_stopping :: bool
  c_terminal :: bool
  c_startup_error :: "string option"
  c_autoremove :: bool
  c_announced :: "string set"
  c_stopped :: "'r list"
  c_world :: world

text \<open>What the conductor runs on: the codec, omni's home, the providers' processes and two paths.\<close>

record 'r env =
  en_codec :: codec
  en_home :: string
  en_ops :: "'r runner_ops"
  en_canonicalize :: "string \<Rightarrow> string option"
  en_here :: string

section \<open>JSON forms\<close>

definition json_strings :: "string list \<Rightarrow> json" where
  "json_strings ss = JArray (map JString ss)"

definition opt_field :: "string \<Rightarrow> string option \<Rightarrow> jmap" where
  "opt_field k v = (case v of None \<Rightarrow> [] | Some s \<Rightarrow> [(k, JString s)])"

fun ask_value :: "ask \<Rightarrow> json" where
  "ask_value (Ask_Key key) = JObject [(''how'', JString ''key''), (''key'', JString key)]"
| "ask_value (Ask_Intelligence n bench) =
     JObject (opt_field ''bench'' bench @ [(''how'', JString ''intelligence''), (''value'', JInt n)])"
| "ask_value (Ask_Model provider model effort fast) =
     JObject ([(''effort'', JString effort), (''fast'', JBool fast), (''how'', JString ''model''), (''model'', JString model)]
       @ opt_field ''provider'' provider)"

text \<open>An internally tagged enum: the tag is a key of the object, or the first element of an array.\<close>

definition tagged :: "string \<Rightarrow> json \<Rightarrow> (string \<times> json) option" where
  "tagged tag v =
     (case v of
        JObject m \<Rightarrow> map_option (\<lambda>t. (t, JObject (bt_remove tag m))) (get_str m tag)
      | JArray (JString t # vs) \<Rightarrow> Some (t, JArray vs)
      | _ \<Rightarrow> None)"

definition opt_str :: "json \<Rightarrow> string option option" where
  "opt_str v = (if is_null v then Some None else map_option Some (as_str v))"

definition ask_of_value :: "json \<Rightarrow> ask option" where
  "ask_of_value v =
     Option.bind (tagged ''how'' v) (\<lambda>(how, body).
       if how = ''key'' then
         Option.bind (struct_fields [''key''] body) (\<lambda>m.
         Option.bind (get_str m ''key'') (\<lambda>k. Some (Ask_Key k)))
       else if how = ''intelligence'' then
         Option.bind (struct_fields [''value'', ''bench''] body) (\<lambda>m.
         Option.bind (Option.bind (bt_get m ''value'') as_i64) (\<lambda>n.
         Option.bind (field opt_str None m ''bench'') (\<lambda>b. Some (Ask_Intelligence n b))))
       else if how = ''model'' then
         Option.bind (struct_fields [''provider'', ''model'', ''effort'', ''fast''] body) (\<lambda>m.
         Option.bind (field opt_str None m ''provider'') (\<lambda>p.
         Option.bind (get_str m ''model'') (\<lambda>mo.
         Option.bind (field as_str [] m ''effort'') (\<lambda>ef.
         Option.bind (field as_bool False m ''fast'') (\<lambda>fa. Some (Ask_Model p mo ef fa))))))
       else None)"

definition context_recovery_map :: "context_recovery \<Rightarrow> jmap" where
  "context_recovery_map c = [(''limit_message'', JString (cr_limit_message c)),
     (''new_session_message'', JString (cr_new_session_message c)),
     (''transcript_header'', JString (cr_transcript_header c))]"

definition context_recovery_of :: "json \<Rightarrow> context_recovery option" where
  "context_recovery_of v =
     Option.bind (struct_fields [''limit_message'', ''new_session_message'', ''transcript_header''] v) (\<lambda>m.
     Option.bind (field as_str (cr_limit_message recovery_texts) m ''limit_message'') (\<lambda>l.
     Option.bind (field as_str (cr_new_session_message recovery_texts) m ''new_session_message'') (\<lambda>n.
     Option.bind (field as_str (cr_transcript_header recovery_texts) m ''transcript_header'') (\<lambda>t.
     Some \<lparr>cr_limit_message = l, cr_new_session_message = n, cr_transcript_header = t\<rparr>))))"

fun stage_name :: "recovery_stage \<Rightarrow> string" where
  "stage_name Compacting = ''Compacting''"
| "stage_name Retrying = ''Retrying''"
| "stage_name Handoff = ''Handoff''"
| "stage_name Continuing = ''Continuing''"
| "stage_name Resuming = ''Resuming''"

definition stage_of_name :: "string \<Rightarrow> recovery_stage option" where
  "stage_of_name n = List.find (\<lambda>st. stage_name st = n) [Compacting, Retrying, Handoff, Continuing, Resuming]"

definition stage_of_value :: "json \<Rightarrow> recovery_stage option" where
  "stage_of_value v =
     (case v of
        JString n \<Rightarrow> stage_of_name n
      | JObject [(n, JNull)] \<Rightarrow> stage_of_name n
      | _ \<Rightarrow> None)"

definition recovery_value :: "recovery option \<Rightarrow> json" where
  "recovery_value r =
     (case r of
        None \<Rightarrow> JNull
      | Some x \<Rightarrow> JObject [(''message_id'', JString (rc_message_id x)), (''retry'', JString (rc_retry x)),
                          (''stage'', JString (stage_name (rc_stage x)))])"

definition recovery_of_value :: "json \<Rightarrow> recovery option" where
  "recovery_of_value v =
     Option.bind (struct_fields [''stage'', ''message_id'', ''retry''] v) (\<lambda>m.
     Option.bind (Option.bind (bt_get m ''stage'') stage_of_value) (\<lambda>st.
     Option.bind (get_str m ''message_id'') (\<lambda>i.
     Option.bind (get_str m ''retry'') (\<lambda>t. Some \<lparr>rc_stage = st, rc_message_id = i, rc_retry = t\<rparr>))))"

section \<open>The snapshot\<close>

text \<open>\<open>settle\<close>: one write of the shared snapshot, with the turn and the queue as they are.\<close>

definition settle :: "(snapshot \<Rightarrow> snapshot) \<Rightarrow> 'r chat \<Rightarrow> 'r chat" where
  "settle change s =
     s\<lparr>c_state := (change (c_state s))\<lparr>sn_in_turn := c_in_turn s, sn_queued := length (c_outbox s) + length (c_awaiting s)\<rparr>\<rparr>"

definition set_status :: "string \<Rightarrow> 'r chat \<Rightarrow> 'r chat" where
  "set_status st = settle (\<lambda>x. x\<lparr>sn_status := st\<rparr>)"

definition usable :: "'r chat \<Rightarrow> string list" where
  "usable s = filter (\<lambda>p. p \<notin> c_benched s) (c_providers s)"

definition running_name :: "'r env \<Rightarrow> 'r chat \<Rightarrow> string" where
  "running_name E s = (case c_runner s of Some r \<Rightarrow> rn_name (en_ops E) r | None \<Rightarrow> [])"

definition refresh :: "'r env \<Rightarrow> 'r chat \<Rightarrow> 'r chat" where
  "refresh E s =
     (let (provider, model, effort) = (case c_current s of Some (p, m, e, _) \<Rightarrow> (p, m, e) | None \<Rightarrow> ([], [], []))
      in settle (\<lambda>st. st\<lparr>sn_ask := c_ask s, sn_providers := usable s, sn_cwd := cf_cwd (c_config s),
             sn_provider := (if running_name E s = [] then [] else provider),
             sn_model := model, sn_effort := effort\<rparr>) s)"

section \<open>Recording and publishing\<close>

definition now :: "'r chat \<Rightarrow> string" where
  "now s = clock_now (c_world s)"

definition ticks :: "'r chat \<Rightarrow> nat" where
  "ticks s = tick (c_world s)"

text \<open>A process told to stop, after being asked to break off the turn it is in.\<close>

definition put_down :: "'r env \<Rightarrow> 'r chat \<Rightarrow> 'r chat" where
  "put_down E s =
     (case c_runner s of
        None \<Rightarrow> s
      | Some r \<Rightarrow>
          let r1 = (if c_in_turn s then rn_interrupt (en_ops E) (ticks s) r else r)
          in s\<lparr>c_runner := None, c_stopped := c_stopped s @ [rn_stop (en_ops E) (ticks s) r1]\<rparr>)"

definition stop_one :: "'r env \<Rightarrow> 'r \<Rightarrow> 'r chat \<Rightarrow> 'r chat" where
  "stop_one E r s = s\<lparr>c_stopped := c_stopped s @ [rn_stop (en_ops E) (ticks s) r]\<rparr>"

definition stop_parked :: "'r env \<Rightarrow> 'r chat \<Rightarrow> 'r chat" where
  "stop_parked E s =
     s\<lparr>c_parked := [], c_stopped := c_stopped s @ map (\<lambda>(_, p). rn_stop (en_ops E) (ticks s) (pd_runner p)) (c_parked s)\<rparr>"

definition failure_notice :: "string \<Rightarrow> string \<Rightarrow> 'r chat \<Rightarrow> event" where
  "failure_notice action err s =
     (let (provider, model) = (case c_current s of Some (p, m, _, _) \<Rightarrow> (p, m) | None \<Rightarrow> ([], []))
      in (about model (from_provider provider
            (failure (now s) ''omni'' (''session persistence failed while '' @ action @ '': '' @ err))))
         \<lparr>ev_session := c_session_id s, ev_turn := c_turn s\<rparr>)"

definition persistence_failed :: "'r env \<Rightarrow> string \<Rightarrow> string \<Rightarrow> 'r chat \<Rightarrow> 'r chat" where
  "persistence_failed E action err s =
     (if c_terminal s then s
      else
        let s1 = stop_parked E (put_down E (s\<lparr>c_terminal := True, c_stopping := True\<rparr>));
            s2 = s1\<lparr>c_current := None, c_runner_epoch := None, c_in_turn := False, c_turn_recorded := False,
                   c_outbox := [], c_awaiting := [], c_next_turns := 0, c_pending := c_pending s @ [failure_notice action err s]\<rparr>
        in settle (\<lambda>st. st\<lparr>sn_status := STOPPED, sn_provider := [], sn_model := [], sn_effort := []\<rparr>) s2)"

text \<open>The event as it is handed to the log: whose it is, unless it says so itself.\<close>

definition attributed :: "'r env \<Rightarrow> 'r chat \<Rightarrow> event \<Rightarrow> event" where
  "attributed E s e =
     (let e1 = (if ev_session e = [] then e\<lparr>ev_session := c_session_id s\<rparr> else e);
          e2 = (case c_runner s of
                  Some r \<Rightarrow>
                    if ev_provider e1 = []
                    then e1\<lparr>ev_provider := rn_name (en_ops E) r,
                            ev_model := (if ev_model e1 = [] then (case c_current s of Some (_, m, _, _) \<Rightarrow> m | None \<Rightarrow> [])
                                         else ev_model e1)\<rparr>
                    else e1
                | None \<Rightarrow> e1)
      in if ev_turn e2 < 0 then e2\<lparr>ev_turn := c_turn s\<rparr> else e2)"

definition record_event :: "'r env \<Rightarrow> event \<Rightarrow> 'r chat \<Rightarrow> 'r chat \<times> event option" where
  "record_event E e s =
     (case store_append (en_codec E) (attributed E s e) (c_store s) (c_world s) of
        (w', st', Inl err) \<Rightarrow>
          (persistence_failed E ''appending the session event log'' err (s\<lparr>c_store := st', c_world := w'\<rparr>), None)
      | (w', st', Inr e') \<Rightarrow>
          let s1 = settle (\<lambda>st. st\<lparr>sn_seq := ev_seq e'\<rparr>) (s\<lparr>c_store := st', c_world := w'\<rparr>)
          in (s1\<lparr>c_pending := c_pending s1 @ [e']\<rparr>, Some e'))"

definition publish :: "'r chat \<Rightarrow> 'r chat" where
  "publish s = s\<lparr>c_published := c_published s @ c_pending s, c_pending := []\<rparr>"

text \<open>Say what went wrong and go back to waiting.\<close>

definition blocked :: "'r env \<Rightarrow> string \<Rightarrow> 'r chat \<Rightarrow> 'r chat" where
  "blocked E why s =
     (case record_event E (failure (now s) CRASH why) s of
        (s1, Some _) \<Rightarrow> set_status WAITING s1
      | (s1, None) \<Rightarrow> s1)"

section \<open>Settings\<close>

text \<open>A metadata operation on the chat's own metadata and world.\<close>

definition on_meta :: "(meta \<Rightarrow> world \<Rightarrow> world \<times> meta \<times> 'x res) \<Rightarrow> 'r chat \<Rightarrow> 'r chat \<times> 'x res" where
  "on_meta f s = (case f (c_meta s) (c_world s) of (w', m', r) \<Rightarrow> (s\<lparr>c_meta := m', c_world := w'\<rparr>, r))"

text \<open>A metadata change whose failure ends the session.\<close>

definition save_or_fail ::
  "'r env \<Rightarrow> string \<Rightarrow> (meta \<Rightarrow> world \<Rightarrow> world \<times> meta \<times> 'x res) \<Rightarrow> 'r chat \<Rightarrow> 'r chat \<times> 'x res" where
  "save_or_fail E action f s =
     (case on_meta f s of
        (s1, Inl err) \<Rightarrow> (persistence_failed E action err s1, Inl (action @ '': '' @ err))
      | (s1, Inr x) \<Rightarrow> (s1, Inr x))"

definition save_setting :: "'r env \<Rightarrow> string \<Rightarrow> json \<Rightarrow> string \<Rightarrow> 'r chat \<Rightarrow> 'r chat \<times> unit res" where
  "save_setting E key v action = save_or_fail E action (set_setting (en_codec E) key v)"

record 'r plan =
  pl_key :: string
  pl_value :: json
  pl_action :: string
  pl_update :: "'r chat \<Rightarrow> 'r chat"
  pl_what :: string
  pl_extra :: jmap

text \<open>The branches of \<open>apply\<close>: what is saved, under which name, what changes and what is announced.\<close>

fun plan_of :: "'r env \<Rightarrow> 'r chat \<Rightarrow> change \<Rightarrow> 'r plan" where
  "plan_of E s (Ch_Providers ps) =
     \<lparr>pl_key = ACTIVE_PROVIDERS, pl_value = json_strings ps, pl_action = ''saving active-provider metadata'',
      pl_update = (\<lambda>s. s\<lparr>c_providers := ps, c_benched := {}\<rparr>),
      pl_what = ''providers'', pl_extra = [(''providers'', json_strings ps)]\<rparr>"
| "plan_of E s (Ch_Model a) =
     \<lparr>pl_key = STORED_ASK, pl_value = ask_value a, pl_action = ''saving model metadata'',
      pl_update = (\<lambda>s. s\<lparr>c_ask := a\<rparr>), pl_what = ''model'', pl_extra = [(''ask'', ask_value a)]\<rparr>"
| "plan_of E s (Ch_SystemPrompt text) =
     \<lparr>pl_key = SYSTEM_PROMPT, pl_value = JString text, pl_action = ''saving system-prompt metadata'',
      pl_update = (\<lambda>s. s\<lparr>c_config := (c_config s)\<lparr>cf_system_prompt := text\<rparr>\<rparr>),
      pl_what = ''system_prompt'', pl_extra = [(''chars'', JInt (int (chars_count text)))]\<rparr>"
| "plan_of E s (Ch_AppendSystemPrompt text) =
     \<lparr>pl_key = APPEND_SYSTEM_PROMPT, pl_value = JString text, pl_action = ''saving appended-system-prompt metadata'',
      pl_update = (\<lambda>s. s\<lparr>c_config := (c_config s)\<lparr>cf_append_system_prompt := text\<rparr>\<rparr>),
      pl_what = ''append_system_prompt'', pl_extra = [(''chars'', JInt (int (chars_count text)))]\<rparr>"
| "plan_of E s (Ch_Subagents on) =
     \<lparr>pl_key = SUBAGENTS, pl_value = JBool on, pl_action = ''saving subagent metadata'',
      pl_update = (\<lambda>s. s\<lparr>c_config := (c_config s)\<lparr>cf_disable_subagents := \<not> on\<rparr>, c_announced := {}\<rparr>),
      pl_what = ''subagents'', pl_extra = [(''on'', JBool on)]\<rparr>"
| "plan_of E s (Ch_Mcp on) =
     \<lparr>pl_key = MCP, pl_value = JBool on, pl_action = ''saving MCP metadata'',
      pl_update = (\<lambda>s. s\<lparr>c_config := (c_config s)\<lparr>cf_disable_mcp := \<not> on\<rparr>, c_announced := {}\<rparr>),
      pl_what = ''mcp'', pl_extra = [(''on'', JBool on)]\<rparr>"
| "plan_of E s (Ch_Autoremove on) =
     \<lparr>pl_key = AUTOREMOVE, pl_value = JBool on, pl_action = ''saving provider-autoremove metadata'',
      pl_update = (\<lambda>s. s\<lparr>c_autoremove := on\<rparr>),
      pl_what = ''autoremove_unauthenticated'', pl_extra = [(''on'', JBool on)]\<rparr>"
| "plan_of E s (Ch_Cwd path) =
     (let config = config_at (en_canonicalize E) path (c_config s) in
      \<lparr>pl_key = CWD, pl_value = JString (cf_cwd config), pl_action = ''saving working-directory metadata'',
       pl_update = (\<lambda>s. s\<lparr>c_config := config\<rparr>), pl_what = ''cwd'', pl_extra = [(''cwd'', JString (cf_cwd config))]\<rparr>)"
| "plan_of E s (Ch_ContextRecovery messages) =
     \<lparr>pl_key = CONTEXT_RECOVERY, pl_value = JObject (context_recovery_map messages), pl_action = ''saving context recovery texts'',
      pl_update = (\<lambda>s. s\<lparr>c_context_recovery := messages\<rparr>),
      pl_what = CONTEXT_RECOVERY, pl_extra = context_recovery_map messages\<rparr>"

definition apply_change :: "'r env \<Rightarrow> change \<Rightarrow> 'r chat \<Rightarrow> 'r chat \<times> unit res" where
  "apply_change E ch s =
     (let p = plan_of E s ch in
      case save_setting E (pl_key p) (pl_value p) (pl_action p) s of
        (s1, Inl e) \<Rightarrow> (s1, Inl e)
      | (s1, Inr _) \<Rightarrow>
          let s2 = pl_update p s1 in
          case record_event E (extras (pl_extra p) (config_event (now s2) (pl_what p))) s2 of
            (s3, None) \<Rightarrow> (s3, Inl ''session persistence failed while recording a setting'')
          | (s3, Some _) \<Rightarrow> (refresh E s3, Inr ()))"

fun apply_all :: "'r env \<Rightarrow> change list \<Rightarrow> 'r chat \<Rightarrow> 'r chat \<times> unit res" where
  "apply_all E [] s = (s, Inr ())"
| "apply_all E (c # cs) s =
     (case apply_change E c s of
        (s1, Inl e) \<Rightarrow> (s1, Inl e)
      | (s1, Inr _) \<Rightarrow> apply_all E cs s1)"

section \<open>The queue of accepted messages\<close>

definition enqueue :: "'r env \<Rightarrow> string \<Rightarrow> 'r chat \<Rightarrow> 'r chat \<times> unit res" where
  "enqueue E text s =
     (case save_or_fail E ''saving an accepted user message'' (meta_enqueue (en_codec E) text) s of
        (s1, Inr message) \<Rightarrow> (set_status BUSY (s1\<lparr>c_outbox := c_outbox s1 @ [message]\<rparr>), Inr ())
      | (s1, Inl e) \<Rightarrow> (s1, Inl e))"

definition complete_message :: "'r env \<Rightarrow> string \<Rightarrow> 'r chat \<Rightarrow> 'r chat \<times> bool" where
  "complete_message E i s =
     (case save_or_fail E ''retiring a delivered user message'' (meta_complete (en_codec E) i) s of
        (s1, Inr _) \<Rightarrow> (s1, True)
      | (s1, Inl _) \<Rightarrow> (s1, False))"

definition remember_message :: "string \<Rightarrow> bool \<Rightarrow> 'r chat \<Rightarrow> 'r chat" where
  "remember_message text next_turn s =
     (case c_unanswered s of
        turn # rest \<Rightarrow>
          if next_turn then s\<lparr>c_unanswered := c_unanswered s @ [[text]]\<rparr>
          else s\<lparr>c_unanswered := (turn @ [text]) # rest\<rparr>
      | [] \<Rightarrow> s\<lparr>c_unanswered := [[text]]\<rparr>)"

definition remember_runner_turn :: "'r chat \<Rightarrow> 'r chat" where
  "remember_runner_turn s =
     (case c_runner_epoch s of
        Some ep \<Rightarrow> s\<lparr>c_epoch_turns := bt_insert ep (c_turn s) (c_epoch_turns s)\<rparr>
      | None \<Rightarrow> s)"

text \<open>Put the runner down and end the turn it was in the middle of.\<close>

definition requeue_awaiting :: "'r chat \<Rightarrow> 'r chat" where
  "requeue_awaiting s = s\<lparr>c_outbox := c_awaiting s @ c_outbox s, c_awaiting := []\<rparr>"

definition retry_unanswered :: "'r env \<Rightarrow> bool \<Rightarrow> 'r chat \<Rightarrow> 'r chat \<times> bool" where
  "retry_unanswered E retry s =
     (if retry \<and> c_unanswered s \<noteq> [] then
        (case save_or_fail E ''saving failed messages for retry'' (meta_retry (en_codec E) (c_unanswered s)) s of
           (s1, Inr messages) \<Rightarrow> (s1\<lparr>c_outbox := messages @ c_outbox s1\<rparr>, True)
         | (s1, Inl _) \<Rightarrow> (s1, False))
      else (s, True))"

definition close_turn :: "'r env \<Rightarrow> string \<Rightarrow> jmap \<Rightarrow> bool \<Rightarrow> 'r chat \<Rightarrow> 'r chat \<times> bool" where
  "close_turn E provider extra retry s =
     (case retry_unanswered E retry (requeue_awaiting ((put_down E s)\<lparr>c_runner_epoch := None\<rparr>)) of
        (s1, False) \<Rightarrow> (s1, False)
      | (s1, True) \<Rightarrow>
          let s2 = s1\<lparr>c_unanswered := [], c_turn_failed := None, c_next_turns := 0\<rparr>;
              finish = (\<lambda>s3. (set_status (if retry \<and> c_outbox s3 \<noteq> [] then BUSY else WAITING) (s3\<lparr>c_in_turn := False\<rparr>), True))
          in if c_in_turn s2 \<and> c_turn_recorded s2 then
               (case record_event E (extras extra (from_provider provider (event_new (now s2) END)))
                       (s2\<lparr>c_in_turn := False, c_turn_recorded := False\<rparr>) of
                  (s3, None) \<Rightarrow> (s3, False)
                | (s3, Some _) \<Rightarrow> finish s3)
             else finish s2)"

text \<open>The message a new handoff makes superfluous: a retry of text the transcript already holds.\<close>

definition superseded :: "recovery option \<Rightarrow> 'r chat \<Rightarrow> string option" where
  "superseded new s =
     (case (new, c_recovery s) of
        (Some next, Some old) \<Rightarrow>
          if rc_stage next = Handoff \<and> rc_stage old = Retrying \<and> rc_retry old \<noteq> [] then Some (rc_message_id old) else None
      | _ \<Rightarrow> None)"

definition in_stage :: "recovery_stage \<Rightarrow> recovery option \<Rightarrow> bool" where
  "in_stage st r \<longleftrightarrow> (case r of Some x \<Rightarrow> rc_stage x = st | None \<Rightarrow> False)"

definition drop_id :: "string option \<Rightarrow> pending_message list \<Rightarrow> pending_message list" where
  "drop_id i ms = (case i of None \<Rightarrow> ms | Some x \<Rightarrow> filter (\<lambda>m. pm_id m \<noteq> x) ms)"

definition save_recovery ::
  "'r env \<Rightarrow> recovery option \<Rightarrow> int option \<Rightarrow> pending_message option \<Rightarrow> 'r chat \<Rightarrow> 'r chat \<times> bool" where
  "save_recovery E recovery since message s =
     (let old = superseded recovery s in
      case save_or_fail E ''saving context recovery'' (meta_recover (en_codec E) (recovery_value recovery) since message old) s of
        (s1, Inl _) \<Rightarrow> (s1, False)
      | (s1, Inr _) \<Rightarrow>
          (s1\<lparr>c_outbox := (case message of None \<Rightarrow> [] | Some m \<Rightarrow> [m]) @ drop_id old (c_outbox s1),
              c_awaiting := drop_id old (c_awaiting s1),
              c_recovery := recovery,
              c_compaction_deadline := (if in_stage Compacting recovery then c_compaction_deadline s1 else None),
              c_history_start := (case since of None \<Rightarrow> c_history_start s1 | Some n \<Rightarrow> n)\<rparr>, True))"

section \<open>Whose event it is\<close>

definition event_epoch :: "event \<Rightarrow> int option" where
  "event_epoch e = get_u64 (ev_extra e) RUNNER_EPOCH"

definition straggler :: "'r env \<Rightarrow> 'r chat \<Rightarrow> event \<Rightarrow> bool" where
  "straggler E s e \<longleftrightarrow>
     (case event_epoch e of Some ep \<Rightarrow> c_runner_epoch s \<noteq> Some ep | None \<Rightarrow> False)
     \<or> (case c_runner s of
          None \<Rightarrow> False
        | Some r \<Rightarrow>
            (ev_provider e \<noteq> [] \<and> ev_provider e \<noteq> rn_name (en_ops E) r)
            \<or> (case (get_u64 (ev_extra e) GENERATION, rn_generation (en_ops E) r) of
                 (Some g, Some current) \<Rightarrow> g \<noteq> current
               | _ \<Rightarrow> False))"

definition announcement :: "'r env \<Rightarrow> event \<Rightarrow> string" where
  "announcement E e =
     ev_text e @ [CHR 0x01] @ ev_provider e @ [CHR 0x01] @ to_text (en_codec E) (JObject (ev_extra e))"

definition repeated :: "'r env \<Rightarrow> event \<Rightarrow> 'r chat \<Rightarrow> 'r chat \<times> bool" where
  "repeated E e s =
     (if \<not> is_type e CONFIG \<or> ev_text e \<notin> set ONCE then (s, False)
      else (s\<lparr>c_announced := insert (announcement E e) (c_announced s)\<rparr>, announcement E e \<in> c_announced s))"

definition blamed :: "'r env \<Rightarrow> 'r chat \<Rightarrow> string \<Rightarrow> string" where
  "blamed E s provider = (if provider \<noteq> [] then provider else running_name E s)"

text \<open>The epoch a runner's events carry: \<open>ear\<close> stamps it on each before it is posted.\<close>

definition ear :: "int \<Rightarrow> event \<Rightarrow> event" where
  "ear ep e = with_extra RUNNER_EPOCH (JInt ep) e"

definition history_for :: "'r chat \<Rightarrow> string \<Rightarrow> int \<Rightarrow> bool \<Rightarrow> event list" where
  "history_for s provider since continuing_native =
     filter (\<lambda>e. \<not> continuing_native \<or> ev_provider e \<noteq> provider \<or> get_bool (ev_extra e) ''late'' = Some True)
       (store_history (max since (c_history_start s)) (c_store s))"

end
