(* ===== verification/Chat_Runner.thy ===== *)
theory Chat_Runner
  imports Chat_State
begin

text \<open>
  \<open>chat.rs\<close>, second part: which provider should be running, and bringing it up. \<open>rung\<close> asks
  \<open>choose.rs\<close> and so changes the world; everything that calls it passes the changed chat on.
\<close>

section \<open>What is asked for\<close>

definition rung :: "'r env \<Rightarrow> 'r chat \<Rightarrow> 'r chat \<times> pick res" where
  "rung E s =
     (case resolve (en_codec E) (en_home E) (c_ask s) (usable s) (c_world s) of (w', r) \<Rightarrow> (s\<lparr>c_world := w'\<rparr>, r))"

definition signature :: "'r chat \<Rightarrow> pick \<Rightarrow> signature" where
  "signature s p = (pk_provider p, pk_model p, pk_effort p, c_config s)"

definition stale :: "'r env \<Rightarrow> 'r chat \<Rightarrow> 'r chat \<times> bool" where
  "stale E s =
     (case c_current s of
        None \<Rightarrow> (s, False)
      | Some current \<Rightarrow>
          (case rung E s of
             (s1, Inr p) \<Rightarrow> (s1, current \<noteq> signature s1 p)
           | (s1, Inl _) \<Rightarrow> (s1, True)))"

definition running :: "'r env \<Rightarrow> 'r chat \<Rightarrow> bool" where
  "running E s = (case c_runner s of Some r \<Rightarrow> rn_alive (en_ops E) (ticks s) r | None \<Rightarrow> False)"

definition prompts_moved :: "'r chat \<Rightarrow> bool" where
  "prompts_moved s =
     (case c_current s of
        None \<Rightarrow> False
      | Some (_, _, _, was) \<Rightarrow>
          cf_system_prompt was \<noteq> cf_system_prompt (c_config s)
          \<or> cf_append_system_prompt was \<noteq> cf_append_system_prompt (c_config s))"

definition tunable :: "'r env \<Rightarrow> 'r chat \<Rightarrow> pick \<Rightarrow> bool" where
  "tunable E s p =
     (case c_current s of
        None \<Rightarrow> False
      | Some (provider, model, effort, config) \<Rightarrow>
          running E s \<and> provider = pk_provider p \<and> config = c_config s \<and> (model, effort) \<noteq> (pk_model p, pk_effort p))"

section \<open>Setting a provider aside and taking it back\<close>

text \<open>Letting a native session go because its prompt is fixed; both changes are tried.\<close>

definition release_native :: "'r env \<Rightarrow> string \<Rightarrow> string \<Rightarrow> 'r chat \<Rightarrow> 'r chat \<times> bool" where
  "release_native E name native s =
     (case on_meta (meta_bind (en_codec E) name []) s of (s1, bound) \<Rightarrow>
      case on_meta (mark_synced (en_codec E) name (-1)) s1 of (s2, marked) \<Rightarrow>
        (case (bound, marked) of
           (Inr _, Inr _) \<Rightarrow>
             let s3 = s2\<lparr>c_parked := bt_remove name (c_parked s2)\<rparr> in
             (case record_event E
                (with_extra ''why'' (JString ''its system prompt is fixed when the session is opened'')
                  (with_extra ''was'' (JString native) (from_provider name (config_event (now s3) ''reopening'')))) s3 of
                (s4, r) \<Rightarrow> (s4, r \<noteq> None))
         | (Inl e, _) \<Rightarrow> (persistence_failed E ''releasing a provider session whose prompt changed'' e s2, False)
         | (Inr _, Inl e) \<Rightarrow> (persistence_failed E ''releasing a provider session whose prompt changed'' e s2, False)))"

definition set_aside :: "'r env \<Rightarrow> string \<Rightarrow> int option \<Rightarrow> 'r \<Rightarrow> 'r chat \<Rightarrow> 'r chat" where
  "set_aside E name ep runner s =
     (case c_current s of
        Some sig \<Rightarrow>
          if rn_parkable (en_ops E) (ticks s) runner
          then s\<lparr>c_parked := bt_insert name \<lparr>pd_runner = runner, pd_epoch = ep, pd_signature = sig,
                   pd_synced = snd (meta_native (c_meta s) name)\<rparr> (c_parked s)\<rparr>
          else stop_one E runner s
      | None \<Rightarrow> stop_one E runner s)"

definition park :: "'r env \<Rightarrow> 'r \<Rightarrow> 'r chat \<Rightarrow> 'r chat \<times> bool" where
  "park E runner s =
     (let name = rn_name (en_ops E) runner;
          ep = c_runner_epoch s;
          s0 = s\<lparr>c_runner_epoch := None\<rparr>;
          native = rn_native_id (en_ops E) runner
      in if native \<noteq> [] \<and> \<not> retunes_instructions name \<and> prompts_moved s0
           then release_native E name native (stop_one E runner s0)
         else if native \<noteq> [] then
           (case on_meta (meta_bind (en_codec E) name native) s0 of
              (s1, Inl e) \<Rightarrow> (persistence_failed E ''saving a provider session id'' e (stop_one E runner s1), False)
            | (s1, Inr _) \<Rightarrow> (set_aside E name ep runner s1, True))
         else (set_aside E name ep runner s0, True))"

definition unpark :: "'r env \<Rightarrow> string \<Rightarrow> 'r chat \<Rightarrow> 'r chat \<times> ('r \<times> int option) option" where
  "unpark E provider s =
     (case bt_get (c_parked s) provider of
        None \<Rightarrow> (s, None)
      | Some p \<Rightarrow>
          let s1 = s\<lparr>c_parked := bt_remove provider (c_parked s)\<rparr> in
          if \<not> rn_alive (en_ops E) (ticks s) (pd_runner p) then (s1, None)
          else
            (case rn_catch_up (en_ops E) (ticks s) (history_for s provider (pd_synced p + 1) True) (pd_runner p) of
               (r, False) \<Rightarrow> (stop_one E r s1, None)
             | (r, True) \<Rightarrow>
                 if rn_seeded (en_ops E) r then
                   (case on_meta (mark_synced (en_codec E) provider (store_seq (c_store s1))) s1 of
                      (s2, Inl e) \<Rightarrow> (persistence_failed E ''saving a provider watermark'' e (stop_one E r s2), None)
                    | (s2, Inr _) \<Rightarrow> (s2, Some (r, pd_epoch p)))
                 else (s1, Some (r, pd_epoch p))))"

definition take_parked :: "'r env \<Rightarrow> string \<Rightarrow> signature \<Rightarrow> 'r chat \<Rightarrow> 'r chat \<times> ('r \<times> int option \<times> bool) option" where
  "take_parked E provider wanted s =
     (case bt_get (c_parked s) provider of
        None \<Rightarrow> (s, None)
      | Some p \<Rightarrow>
          (case (pd_signature p, wanted) of ((_, m, e, c), (_, m', e', c')) \<Rightarrow>
             if c \<noteq> c' then (stop_one E (pd_runner p) (s\<lparr>c_parked := bt_remove provider (c_parked s)\<rparr>), None)
             else (case unpark E provider s of
                     (s1, Some (r, ep)) \<Rightarrow> (s1, Some (r, ep, m = m' \<and> e = e'))
                   | (s1, None) \<Rightarrow> (s1, None))))"

section \<open>Bringing a provider up\<close>

definition lost_storage :: string where
  "lost_storage = ''session persistence failed''"

definition launch_event :: "'r chat \<Rightarrow> pick \<Rightarrow> string \<Rightarrow> event" where
  "launch_event s p native =
     with_extra ''native'' (JString native) (with_extra ''fast'' (JBool (pk_fast p)) (with_extra ''effort'' (JString (pk_effort p))
       (about (pk_model p) (from_provider (pk_provider p) (config_event (now s) ''launch'')))))"

definition announce_launch :: "'r env \<Rightarrow> pick \<Rightarrow> string \<Rightarrow> bool \<Rightarrow> 'r chat \<Rightarrow> 'r chat \<times> unit res" where
  "announce_launch E p native fresh s =
     (case record_event E (launch_event s p native) s of
        (s1, None) \<Rightarrow> (s1, Inl lost_storage)
      | (s1, Some _) \<Rightarrow>
          if fresh then
            (case record_event E (with_extra ''native'' (JString native)
                    (about (pk_model p) (from_provider (pk_provider p) (event_new (now s1) NEW_SESSION)))) s1 of
               (s2, None) \<Rightarrow> (s2, Inl lost_storage)
             | (s2, Some _) \<Rightarrow> (refresh E s2, Inr ()))
          else (refresh E s1, Inr ()))"

definition adopt :: "'r env \<Rightarrow> 'r \<Rightarrow> int option \<Rightarrow> pick \<Rightarrow> bool \<Rightarrow> 'r chat \<Rightarrow> 'r chat \<times> unit res" where
  "adopt E runner ep p fresh s =
     (let native = rn_native_id (en_ops E) runner;
          s0 = remember_runner_turn (s\<lparr>c_runner := Some runner, c_runner_epoch := ep, c_sync_ceiling := None\<rparr>);
          s1 = s0\<lparr>c_current := Some (signature s0 p)\<rparr>
      in case on_meta (meta_bind (en_codec E) (pk_provider p) native) s1 of
           (s2, Inl e) \<Rightarrow> (persistence_failed E ''saving a provider session id'' e s2, Inl lost_storage)
         | (s2, Inr _) \<Rightarrow>
             if rn_seeded (en_ops E) runner then
               (case on_meta (mark_synced (en_codec E) (pk_provider p) (store_seq (c_store s2))) s2 of
                  (s3, Inl e) \<Rightarrow> (persistence_failed E ''saving a provider watermark'' e s3, Inl lost_storage)
                | (s3, Inr _) \<Rightarrow> announce_launch E p native fresh s3)
             else announce_launch E p native fresh s2)"

definition saturating_succ :: "int \<Rightarrow> int" where
  "saturating_succ n = min (n + 1) u64_max"

definition bring_up :: "'r env \<Rightarrow> pick \<Rightarrow> config \<Rightarrow> string \<Rightarrow> int \<Rightarrow> 'r chat \<Rightarrow> 'r chat \<times> ('r \<times> int) res" where
  "bring_up E p config native_id since s =
     (let ep = c_next_runner_epoch s;
          s1 = s\<lparr>c_next_runner_epoch := saturating_succ ep, c_epoch_turns := bt_insert ep (c_turn s) (c_epoch_turns s)\<rparr>
      in case rn_make (en_ops E) (pk_provider p) (c_session_id s) config ep of
           None \<Rightarrow> (s1, Inl (''unknown provider '' @ CHR 0x22 # pk_provider p @ [CHR 0x22]))
         | Some r \<Rightarrow>
             (case rn_start (en_ops E) (ticks s1) native_id (history_for s1 (pk_provider p) since (native_id \<noteq> [])) r of
                (_, Inl e) \<Rightarrow> (s1, Inl e)
              | (r', Inr _) \<Rightarrow> (s1, Inr (r', ep))))"

text \<open>A new process, or two when the provider no longer knows the session it was asked to resume.\<close>

definition launch_new :: "'r env \<Rightarrow> pick \<Rightarrow> string \<Rightarrow> int \<Rightarrow> 'r chat \<Rightarrow> 'r chat \<times> unit res" where
  "launch_new E p native_id synced s =
     (let config = (c_config s)\<lparr>cf_model := pk_model p, cf_effort := pk_effort p, cf_fast := pk_fast p\<rparr>
      in case bring_up E p config native_id (synced + 1) s of
           (s1, Inl e) \<Rightarrow> (s1, Inl e)
         | (s1, Inr (runner, ep)) \<Rightarrow>
             if native_id \<noteq> [] \<and> rn_native_id (en_ops E) runner \<noteq> native_id then
               let stopped = rn_stop (en_ops E) (ticks s1) runner in
               (case record_event E (with_extra ''now'' (JString (rn_native_id (en_ops E) stopped))
                       (with_extra ''lost'' (JString native_id) (from_provider (pk_provider p) (config_event (now s1) ''reseed''))))
                       (stop_one E runner s1) of
                  (s2, None) \<Rightarrow> (s2, Inl lost_storage)
                | (s2, Some _) \<Rightarrow>
                    (case bring_up E p config [] 0 s2 of
                       (s3, Inl e) \<Rightarrow> (s3, Inl e)
                     | (s3, Inr (again, epoch2)) \<Rightarrow> adopt E again (Some epoch2) p True s3))
             else adopt E runner (Some ep) p (native_id = []) s1)"

definition launch :: "'r env \<Rightarrow> pick \<Rightarrow> 'r chat \<Rightarrow> 'r chat \<times> unit res" where
  "launch E p s =
     (let (native_id, synced) = meta_native (c_meta s) (pk_provider p);
          onward = (\<lambda>s. if c_terminal s then (s, Inl lost_storage) else launch_new E p native_id synced s)
      in case take_parked E (pk_provider p) (signature s p) s of
           (s1, None) \<Rightarrow> onward s1
         | (s1, Some (kept, ep, tuning_matches)) \<Rightarrow>
             if tuning_matches then adopt E kept ep p False s1
             else
               (case rn_retune (en_ops E) (ticks s1) (pk_model p) (pk_effort p) kept of
                  (kept', True) \<Rightarrow> adopt E kept' ep p False s1
                | (kept', False) \<Rightarrow> onward (stop_one E kept' s1)))"

text \<open>A change of model or effort that the running process takes in place.\<close>

definition retune_running :: "'r env \<Rightarrow> pick \<Rightarrow> 'r chat \<Rightarrow> 'r chat \<times> bool" where
  "retune_running E p s =
     (case c_runner s of
        None \<Rightarrow> (s, False)
      | Some r \<Rightarrow>
          (case rn_retune (en_ops E) (ticks s) (pk_model p) (pk_effort p) r of (r', took) \<Rightarrow> (s\<lparr>c_runner := Some r'\<rparr>, took)))"

definition replace_runner :: "'r env \<Rightarrow> pick \<Rightarrow> 'r chat \<Rightarrow> 'r chat \<times> unit res" where
  "replace_runner E p s =
     (let previous = (case (c_runner s, c_current s) of
                        (Some r, _) \<Rightarrow> rn_name (en_ops E) r
                      | (None, Some (provider, _)) \<Rightarrow> provider
                      | _ \<Rightarrow> []);
          (s1, parked) = (case c_runner s of Some r \<Rightarrow> park E r (s\<lparr>c_runner := None\<rparr>) | None \<Rightarrow> (s, True))
      in if \<not> parked then (s1, Inl lost_storage)
         else if previous = pk_provider p then launch E p s1
         else
           let s2 = s1\<lparr>c_announced := {}\<rparr> in
           if previous = [] then launch E p s2
           else
             (case record_event E (with_extra ''fast'' (JBool (pk_fast p)) (with_extra ''to'' (JString (pk_provider p))
                     (with_extra ''from'' (JString previous)
                       (about (pk_model p) (from_provider (pk_provider p) (event_new (now s2) SWITCH_PROVIDER)))))) s2 of
                (s3, None) \<Rightarrow> (s3, Inl lost_storage)
              | (s3, Some _) \<Rightarrow> launch E p s3))"

definition retune_event :: "'r chat \<Rightarrow> pick \<Rightarrow> event" where
  "retune_event s p =
     with_extra ''fast'' (JBool (pk_fast p)) (with_extra ''effort'' (JString (pk_effort p))
       (about (pk_model p) (from_provider (pk_provider p) (config_event (now s) ''retune''))))"

definition rebuild :: "'r env \<Rightarrow> 'r chat \<Rightarrow> 'r chat \<times> unit res" where
  "rebuild E s =
     (case rung E s of
        (s1, Inl e) \<Rightarrow> (s1, Inl e)
      | (s1, Inr p) \<Rightarrow>
          if tunable E s1 p then
            (case retune_running E p s1 of
               (s2, True) \<Rightarrow>
                 (case record_event E (retune_event s2 p) (s2\<lparr>c_current := Some (signature s2 p)\<rparr>) of
                    (s3, None) \<Rightarrow> (s3, Inl lost_storage)
                  | (s3, Some _) \<Rightarrow> (refresh E s3, Inr ()))
             | (s2, False) \<Rightarrow> replace_runner E p s2)
          else replace_runner E p s1)"

section \<open>Moving on\<close>

definition moved_on :: "'r env \<Rightarrow> string \<Rightarrow> string \<Rightarrow> 'r chat \<Rightarrow> 'r chat \<times> bool" where
  "moved_on E name why s =
     (let s1 = (case bt_get (c_parked s) name of
                  Some p \<Rightarrow> stop_one E (pd_runner p) (s\<lparr>c_parked := bt_remove name (c_parked s)\<rparr>)
                | None \<Rightarrow> s)
      in case record_event E (with_extra ''left'' (json_strings (usable s1)) (with_extra ''why'' (JString why)
                (from_provider name (config_event (now s1) ''provider_removed'')))) s1 of
           (s2, r) \<Rightarrow> (refresh E s2, r \<noteq> None))"

definition anyone_left :: "'r env \<Rightarrow> 'r chat \<Rightarrow> 'r chat \<times> bool" where
  "anyone_left E s =
     (if usable s \<noteq> [] then (s, True)
      else if c_providers s = []
        then (blocked E ''every provider is unauthenticated; log one back in and send again'' s, False)
      else (blocked E ''every provider failed; send again to try them all once more'' (refresh E (s\<lparr>c_benched := {}\<rparr>)), False))"

definition sideline :: "'r env \<Rightarrow> string \<Rightarrow> string \<Rightarrow> 'r chat \<Rightarrow> 'r chat \<times> bool" where
  "sideline E name why s =
     (if name \<notin> set (c_providers s) \<or> name \<in> c_benched s then (s, False)
      else case moved_on E name why (s\<lparr>c_benched := insert name (c_benched s)\<rparr>) of
             (s1, False) \<Rightarrow> (s1, False)
           | (s1, True) \<Rightarrow> anyone_left E s1)"

end
