(* ===== verification/World_Frame.thy ===== *)
theory World_Frame
  imports Session_Meta Choose_Model
begin

text \<open>
  What storage and choice leave of the outside: the schedule of failures, the clocks and the
  identifiers still to be drawn are the same after every operation, and time does not go back.
  The collection \<open>outside_rules\<close> carries the proofs; only \<open>meta_enqueue\<close>, \<open>meta_retry\<close> and the
  conductor's own messages draw identifiers.
\<close>

named_theorems outside_rules \<open>operations after which the outside is the same\<close>

lemma outside_simps [outside_rules]:
  "same_outside w w" "same_outside w (fst (fs_touch w))" "same_outside w (fst (fs_open_append p w))"
  "same_outside w (fst (fs_open_truncate p w))" "same_outside w (fst (fs_set_private p w))"
  "same_outside w (fst (fs_sync p w))" "same_outside w (fst (fs_set_len p n w))"
  "same_outside w (fst (fs_rename p q w))" "same_outside w (fs_remove p w)"
  "same_outside w (fst (fs_write_all p b w))" "same_outside w (fst (io_return x w))"
  by (auto simp: same_outside_def fs_touch_def fs_open_append_def fs_open_truncate_def fs_set_private_def fs_sync_def
      fs_set_len_def fs_rename_def fs_remove_def fs_write_all_def io_step_def io_return_def split: option.splits)

lemma outside_bind:
  assumes "\<And>w. same_outside w (fst (m w))" and "\<And>x w. same_outside w (fst (f x w))"
  shows "same_outside w (fst (io_bind m f w))"
  by (rule outside.le_bind[OF assms])

lemma outside_repair: "same_outside w (fst (repair_tail J p w))"
  unfolding repair_tail_def
  by (intro outside_bind) (auto simp: outside_rules Let_def intro!: outside_bind outside_rules split: sum.splits prod.splits)

lemma outside_open: "same_outside w (fst (appender_open J p w))"
  unfolding appender_open_def Let_def
  by (intro outside_bind) (auto simp: outside_rules outside_repair)

lemma outside_append: "same_outside w (fst (appender_append J a v w))"
proof -
  have "same_outside w (fst (io_bind (fs_write_all (app_path a) b) (\<lambda>_. fs_sync (app_path a)) w))" for b
    by (intro outside_bind) (auto simp: outside_rules)
  then show ?thesis
    by (auto simp: appender_append_def Let_def outside_rules split: prod.splits sum.splits) (metis fst_conv)+
qed

lemma outside_ready: "same_outside w (fst (ready_appender J s w))"
  unfolding ready_appender_def paths_ensure_def
  by (auto simp: outside_rules outside_open intro!: outside_bind split: option.splits)

lemma outside_store_append [outside_rules]: "same_outside w (fst (store_append J e s w))"
proof (cases "ready_appender J s w")
  case (Pair w1 r)
  then have 1: "same_outside w w1" using outside_ready[of w J s] by simp
  have 2: "same_outside w1 (fst (appender_append J a v w1))" for a v by (rule outside_append)
  show ?thesis using 1 2 outside.le_trans[OF 1 2]
    by (auto simp: store_append_def Pair outside_rules split: option.splits sum.splits prod.splits) (metis fst_conv)+
qed

lemma outside_replace: "same_outside w (fst (replace_file st p b w))"
  unfolding replace_file_def by (intro outside_bind) (auto simp: outside_rules)

lemma outside_meta_write: "same_outside w (fst (meta_write J m d w))"
proof (cases "path_parent (mt_path m)")
  case None
  then show ?thesis by (simp add: meta_write_def outside_rules)
next
  case (Some parent)
  show ?thesis unfolding meta_write_def Some option.case paths_ensure_def Let_def
  proof (rule outside_bind)
    fix x :: unit and w
    let ?r = "replace_file (staging_path parent (mt_session m) (pid w)) (mt_path m) (to_pretty J (JObject d)) w"
    have r: "same_outside w (fst ?r)" by (rule outside_replace)
    show "same_outside w (fst (case ?r of (w', Inr u) \<Rightarrow> (w', Inr u)
        | (w', Inl e) \<Rightarrow> (fs_remove (staging_path parent (mt_session m) (pid w)) w', Inl e)))"
      using r outside_simps(9) outside.le_trans by (auto split: prod.splits sum.splits)
  qed (simp add: outside_rules)
qed

lemma outside_commit [outside_rules]: "same_outside w (fst (commit J ch m w))"
  using outside_meta_write[of w J m]
  by (auto simp: commit_def Let_def outside_rules split: sum.splits prod.splits) (metis fst_conv)+

lemma outside_meta_ops [outside_rules]:
  "same_outside w (fst (meta_bind J p n m w))" "same_outside w (fst (mark_synced J p i m w))"
  "same_outside w (fst (set_setting J k v m w))" "same_outside w (fst (initialize_settings J d m w))"
  "same_outside w (fst (meta_complete J mid m w))" "same_outside w (fst (meta_recover J st since msg old_id m w))"
  "same_outside w (fst (meta_reconcile J del m w))"
  by (simp_all add: meta_bind_def mark_synced_def set_setting_def initialize_settings_def meta_complete_def
      meta_recover_def meta_reconcile_def outside_rules)

lemma outside_cached: "same_outside w (fst (cached J home w))" "same_outside w (fst (read_cache J home name fo w))"
  "same_outside w (fst (fetch_with_models J a ps models w))" "same_outside w (fst (available_models limit age w))"
  by (auto simp: cached_def read_cache_def fetch_with_models_def available_models_def agy_models_def Let_def same_outside_def
      split: prod.splits option.splits)

lemma outside_write_cache: "same_outside w (write_cache J home name p ttl w)"
proof -
  define w1 where "w1 = fst (cached J home (fst (paths_ensure w)))"
  have w1: "same_outside w w1"
    unfolding w1_def paths_ensure_def by (rule outside.le_trans[OF outside_simps(2) outside_cached(1)])
  let ?p = "cache_file home"
  let ?w2 = "fst (fs_open_truncate ?p w1)"
  have w2: "same_outside w ?w2" by (rule outside.le_trans[OF w1 outside_simps(4)])
  have w5: "same_outside w (fst (fs_sync ?p (fst (fs_write_all ?p b (fst (fs_set_private ?p ?w2))))))" for b
    by (rule outside.le_trans[OF outside.le_trans[OF outside.le_trans[OF w2 outside_simps(5)] outside_simps(10)] outside_simps(6)])
  have "\<exists>b. write_cache J home name p ttl w = ?w2 \<or>
      write_cache J home name p ttl w = fst (fs_sync ?p (fst (fs_write_all ?p b (fst (fs_set_private ?p ?w2)))))"
    by (auto simp: write_cache_def w1_def Let_def split: prod.splits sum.splits)
  with w2 w5 show ?thesis by metis
qed

lemma outside_keep: "same_outside w (fst (keep J home ps name p ttl w))"
  by (simp add: keep_def outside_write_cache outside_rules)

lemma outside_registry: "same_outside w (fst (ask_registry J home a ps models name w))"
proof -
  obtain w1 f where 1: "fetch_with_models J a ps models w = (w1, f)" by fastforce
  obtain w2 g where 2: "read_cache J home name False w1 = (w2, g)" by fastforce
  have 3: "same_outside w w1" "same_outside w1 w2"
    using outside_cached(3)[of w J a ps models] outside_cached(2)[of w1 J home name False] 1 2 by simp_all
  have 4: "same_outside w w2" by (rule outside.le_trans[OF 3])
  show ?thesis using 4 outside.le_trans[OF 3(1) outside_keep] outside.le_trans[OF 4 outside_keep]
    by (simp add: ask_registry_def 1 2 split: option.splits)
qed

lemma outside_resolve [outside_rules]: "same_outside w (fst (resolve J home a ps w))"
proof -
  obtain w1 models where 1: "available_models (Some ps) 30 w = (w1, models)" by fastforce
  obtain w2 g where 2: "read_cache J home (cache_name_with_models J a ps models) True w1 = (w2, g)" by fastforce
  have 3: "same_outside w w1" "same_outside w1 w2"
    using outside_cached(4)[of w "Some ps" 30] outside_cached(2)[of w1 J home "cache_name_with_models J a ps models" True] 1 2
    by simp_all
  have 4: "same_outside w w2" by (rule outside.le_trans[OF 3])
  have "same_outside w (fst (resolve_remote J home a ps w))"
    using 4 outside.le_trans[OF 4 outside_registry]
    by (auto simp: resolve_remote_def 1 2 Let_def split: option.splits)
  then show ?thesis by (auto simp: resolve_def outside_rules split: ask.splits)
qed

end
