(* ===== verification/Chat_Order.thy ===== *)
theory Chat_Order
  imports Chat_Runner World_Frame
begin

text \<open>
  Preorders on chats. Everything a conductor does to bring a provider up is made of a few kinds of
  step: changes of its bookkeeping about processes, a change of the outside, an event recorded, a
  storage failure, a provider's entry in the metadata. A preorder that these steps respect is
  respected by every operation built of them; the locale \<open>runner_order\<close> proves that once, and each
  invariant of the conductor is an interpretation. \<open>attempt\<close>, whose loop ends because a provider
  that will not start is set aside, is defined here: its termination is the first instance.
\<close>

section \<open>Changes of the bookkeeping about processes\<close>

definition run_only :: "'r chat \<Rightarrow> 'r chat \<Rightarrow> bool" where
  "run_only s t \<longleftrightarrow> t = s\<lparr>c_runner := c_runner t, c_runner_epoch := c_runner_epoch t,
     c_next_runner_epoch := c_next_runner_epoch t, c_epoch_turns := c_epoch_turns t, c_sync_ceiling := c_sync_ceiling t,
     c_parked := c_parked t, c_current := c_current t, c_announced := c_announced t, c_stopped := c_stopped t,
     c_state := c_state t\<rparr>"

lemma run_only_updates [simp]:
  "run_only s (s\<lparr>c_runner := r\<rparr>)" "run_only s (s\<lparr>c_runner_epoch := ep\<rparr>)" "run_only s (s\<lparr>c_next_runner_epoch := n\<rparr>)"
  "run_only s (s\<lparr>c_epoch_turns := m\<rparr>)" "run_only s (s\<lparr>c_sync_ceiling := c\<rparr>)" "run_only s (s\<lparr>c_parked := pk\<rparr>)"
  "run_only s (s\<lparr>c_current := cu\<rparr>)" "run_only s (s\<lparr>c_announced := an\<rparr>)" "run_only s (s\<lparr>c_stopped := d\<rparr>)"
  "run_only s (s\<lparr>c_state := st\<rparr>)" "run_only s s"
  by (simp_all add: run_only_def)

lemma run_only_settle [simp]: "run_only s (settle ch s)" "run_only s (set_status st s)" "run_only s (refresh E s)"
  by (simp_all add: run_only_def settle_def set_status_def refresh_def split: prod.splits)

lemma run_only_stops [simp]: "run_only s (put_down E s)" "run_only s (stop_one E r s)" "run_only s (stop_parked E s)"
  "run_only s (remember_runner_turn s)"
  by (simp_all add: run_only_def put_down_def stop_one_def stop_parked_def remember_runner_turn_def Let_def split: option.splits)

section \<open>Operations respect a preorder that their steps respect\<close>

text \<open>Bookkeeping that says nothing of which process runs, is parked or was asked for.\<close>

definition view_only :: "'r chat \<Rightarrow> 'r chat \<Rightarrow> bool" where
  "view_only s t \<longleftrightarrow> run_only s t \<and> c_runner t = c_runner s \<and> c_current t = c_current s \<and> c_parked t = c_parked s"

locale step_order =
  fixes E :: "'r env"
    and R :: "'r chat \<Rightarrow> 'r chat \<Rightarrow> bool"
  assumes R_refl: "R s s"
    and R_trans: "R s t \<Longrightarrow> R t u \<Longrightarrow> R s u"
    and R_view: "view_only s t \<Longrightarrow> R s t"
    and R_record: "R s (fst (record_event E e s))"
    and R_fail: "R s (persistence_failed E action err s)"
    and R_bind: "R s (fst (on_meta (meta_bind (en_codec E) p n) s))"
    and R_mark: "R s (fst (on_meta (mark_synced (en_codec E) p i) s))"
begin

text \<open>The steps in the form that builds a chain from the left, and the control structures.\<close>

lemma after_views:
  "R s t \<Longrightarrow> R s (t\<lparr>c_runner_epoch := ep\<rparr>)"
  "R s t \<Longrightarrow> R s (t\<lparr>c_next_runner_epoch := n\<rparr>)" "R s t \<Longrightarrow> R s (t\<lparr>c_epoch_turns := m\<rparr>)"
  "R s t \<Longrightarrow> R s (t\<lparr>c_sync_ceiling := c\<rparr>)" "R s t \<Longrightarrow> R s (t\<lparr>c_announced := an\<rparr>)"
  "R s t \<Longrightarrow> R s (t\<lparr>c_stopped := d\<rparr>)" "R s t \<Longrightarrow> R s (t\<lparr>c_state := st\<rparr>)"
  "R s t \<Longrightarrow> R s (settle ch t)" "R s t \<Longrightarrow> R s (set_status x t)" "R s t \<Longrightarrow> R s (refresh F t)"
  "R s t \<Longrightarrow> R s (stop_one F q t)" "R s t \<Longrightarrow> R s (remember_runner_turn t)"
  by (erule R_trans, rule R_view, simp add: view_only_def settle_def set_status_def refresh_def stop_one_def
      remember_runner_turn_def run_only_def split: prod.splits option.splits)+

lemma after_steps:
  "R s t \<Longrightarrow> R s (fst (record_event E e t))" "R s t \<Longrightarrow> R s (persistence_failed E action err t)"
  "R s t \<Longrightarrow> R s (fst (on_meta (meta_bind (en_codec E) p n) t))"
  "R s t \<Longrightarrow> R s (fst (on_meta (mark_synced (en_codec E) p i) t))"
  using R_trans R_record R_fail R_bind R_mark by blast+

lemma after_control:
  "R s t \<Longrightarrow> R s (fst (t, x))"
  "(P \<Longrightarrow> R s (fst a)) \<Longrightarrow> (\<not> P \<Longrightarrow> R s (fst b)) \<Longrightarrow> R s (fst (if P then a else b))"
  "R s (fst y) \<Longrightarrow> (\<And>t x. R s t \<Longrightarrow> R s (fst (F t x))) \<Longrightarrow> R s (fst (case y of (t, x) \<Rightarrow> F t x))"
  "R s (fst a) \<Longrightarrow> (\<And>x. R s (fst (g x))) \<Longrightarrow> R s (fst (case o1 of None \<Rightarrow> a | Some x \<Rightarrow> g x))"
  "(\<And>x. R s (fst (h x))) \<Longrightarrow> (\<And>x. R s (fst (g x))) \<Longrightarrow> R s (fst (case o2 of Inl x \<Rightarrow> h x | Inr x \<Rightarrow> g x))"
  "R s (fst a) \<Longrightarrow> R s (fst b) \<Longrightarrow> R s (fst (case c of True \<Rightarrow> a | False \<Rightarrow> b))"
  by (auto split: option.splits sum.splits bool.splits prod.splits)

lemma after_pair: "(\<And>a b. R s (fst (F a b))) \<Longrightarrow> R s (fst (case z of (a, b) \<Rightarrow> F a b))"
  by (auto split: prod.splits)

lemma after_blocked: "R s t \<Longrightarrow> R s (blocked E why t)"
  using after_steps(1)[of s t] after_views(9)
  by (auto simp: blocked_def split: prod.splits option.splits) (metis fst_conv)+

lemmas plain_steps = R_refl after_views after_steps after_control

end

text \<open>With any change of the processes, and of the outside: then bringing a provider up respects it.\<close>

locale runner_order = step_order E R for E :: "'r env" and R :: "'r chat \<Rightarrow> 'r chat \<Rightarrow> bool" +
  assumes R_run: "run_only s t \<Longrightarrow> R s t"
    and R_world: "same_outside (c_world s) w' \<Longrightarrow> R s (s\<lparr>c_world := w'\<rparr>)"
begin

lemma after_updates:
  "R s t \<Longrightarrow> R s (t\<lparr>c_runner := r\<rparr>)" "R s t \<Longrightarrow> R s (t\<lparr>c_parked := pk\<rparr>)" "R s t \<Longrightarrow> R s (t\<lparr>c_current := cu\<rparr>)"
  "R s t \<Longrightarrow> R s (put_down F t)" "R s t \<Longrightarrow> R s (stop_parked F t)"
  by (erule R_trans, rule R_run, simp)+

lemmas steps = plain_steps after_updates

lemma after_rung: "R s t \<Longrightarrow> R s (fst (rung E t))"
  using R_trans[OF _ R_world[OF outside_resolve]] by (auto simp: rung_def split: prod.splits) (metis fst_conv)

lemma after_stale: "R s t \<Longrightarrow> R s (fst (stale E t))"
  unfolding stale_def by (intro steps after_rung after_pair | assumption)+

lemma after_release: "R s t \<Longrightarrow> R s (fst (release_native E name native t))"
  unfolding release_native_def Let_def by (intro steps after_pair | assumption)+

lemma after_set_aside: "R s t \<Longrightarrow> R s (set_aside E name ep r t)"
  by (auto simp: set_aside_def intro: steps split: option.splits)

lemma after_park: "R s t \<Longrightarrow> R s (fst (park E r t))"
  unfolding park_def Let_def by (intro steps after_release after_set_aside | assumption)+

lemma after_unpark: "R s t \<Longrightarrow> R s (fst (unpark E p t))"
  unfolding unpark_def Let_def by (intro steps after_pair | assumption)+

lemma after_take_parked: "R s t \<Longrightarrow> R s (fst (take_parked E p wanted t))"
  unfolding take_parked_def by (intro steps after_unpark after_pair | assumption)+

lemma after_announce: "R s t \<Longrightarrow> R s (fst (announce_launch E p native fresh t))"
  unfolding announce_launch_def by (intro steps | assumption)+

lemma after_adopt: "R s t \<Longrightarrow> R s (fst (adopt E r ep p fresh t))"
  unfolding adopt_def Let_def by (intro steps after_announce | assumption)+

lemma after_bring_up: "R s t \<Longrightarrow> R s (fst (bring_up E p config native since t))"
  unfolding bring_up_def Let_def by (intro steps after_pair | assumption)+

lemma after_launch_new: "R s t \<Longrightarrow> R s (fst (launch_new E p native synced t))"
  unfolding launch_new_def Let_def by (intro steps after_bring_up after_adopt after_pair | assumption)+

lemma after_launch: "R s t \<Longrightarrow> R s (fst (launch E p t))"
  unfolding launch_def Let_def by (intro steps after_take_parked after_adopt after_launch_new after_pair | assumption)+

lemma after_retune: "R s t \<Longrightarrow> R s (fst (retune_running E p t))"
  unfolding retune_running_def by (intro steps after_pair | assumption)+

lemma after_replace: "R s t \<Longrightarrow> R s (fst (replace_runner E p t))"
  unfolding replace_runner_def Let_def by (intro steps after_park after_launch | assumption)+

lemma after_rebuild: "R s t \<Longrightarrow> R s (fst (rebuild E t))"
  unfolding rebuild_def by (intro steps after_rung after_retune after_replace | assumption)+

lemma after_moved_on: "R s t \<Longrightarrow> R s (fst (moved_on E name why t))"
proof -
  assume t: "R s t"
  have "R s (case bt_get (c_parked t) name of
      Some p \<Rightarrow> stop_one E (pd_runner p) (t\<lparr>c_parked := bt_remove name (c_parked t)\<rparr>) | None \<Rightarrow> t)"
    using t by (auto intro: steps split: option.splits)
  then show ?thesis unfolding moved_on_def Let_def by (intro steps | assumption)+
qed

end

section \<open>What bringing a provider up does not decide\<close>

text \<open>Who may be used, what was asked for and where recovery stands are none of a runner's business.\<close>

definition dial :: "'r chat \<Rightarrow> 'r chat \<Rightarrow> bool" where
  "dial s t \<longleftrightarrow> c_providers t = c_providers s \<and> c_benched t = c_benched s \<and> c_autoremove t = c_autoremove s
     \<and> c_ask t = c_ask s \<and> c_config t = c_config s \<and> c_recovery t = c_recovery s
     \<and> c_context_recovery t = c_context_recovery s \<and> c_session_id t = c_session_id s
     \<and> c_history_start t = c_history_start s"

lemma run_onlyE:
  assumes "run_only s t"
  shows "c_session_id t = c_session_id s" "c_store t = c_store s" "c_meta t = c_meta s" "c_providers t = c_providers s"
    "c_benched t = c_benched s" "c_turn_failed t = c_turn_failed s" "c_ask t = c_ask s" "c_config t = c_config s"
    "c_context_recovery t = c_context_recovery s" "c_recovery t = c_recovery s"
    "c_history_start t = c_history_start s" "c_published t = c_published s" "c_outbox t = c_outbox s"
    "c_awaiting t = c_awaiting s" "c_unanswered t = c_unanswered s" "c_next_turns t = c_next_turns s"
    "c_pending t = c_pending s" "c_turn t = c_turn s" "c_turn_recorded t = c_turn_recorded s" "c_in_turn t = c_in_turn s"
    "c_stopping t = c_stopping s" "c_terminal t = c_terminal s" "c_startup_error t = c_startup_error s"
    "c_autoremove t = c_autoremove s" "c_world t = c_world s" "c_compaction_deadline t = c_compaction_deadline s"
    "c_launched_once t = c_launched_once s"
proof -
  from assms obtain r ep n m c pk cu an d st where "t = s\<lparr>c_runner := r, c_runner_epoch := ep, c_next_runner_epoch := n,
      c_epoch_turns := m, c_sync_ceiling := c, c_parked := pk, c_current := cu, c_announced := an, c_stopped := d, c_state := st\<rparr>"
    unfolding run_only_def by blast
  then show "c_session_id t = c_session_id s" "c_store t = c_store s" "c_meta t = c_meta s" "c_providers t = c_providers s"
    "c_benched t = c_benched s" "c_turn_failed t = c_turn_failed s" "c_ask t = c_ask s" "c_config t = c_config s"
    "c_context_recovery t = c_context_recovery s" "c_recovery t = c_recovery s"
    "c_history_start t = c_history_start s" "c_published t = c_published s" "c_outbox t = c_outbox s"
    "c_awaiting t = c_awaiting s" "c_unanswered t = c_unanswered s" "c_next_turns t = c_next_turns s"
    "c_pending t = c_pending s" "c_turn t = c_turn s" "c_turn_recorded t = c_turn_recorded s" "c_in_turn t = c_in_turn s"
    "c_stopping t = c_stopping s" "c_terminal t = c_terminal s" "c_startup_error t = c_startup_error s"
    "c_autoremove t = c_autoremove s" "c_world t = c_world s" "c_compaction_deadline t = c_compaction_deadline s"
    "c_launched_once t = c_launched_once s" by simp_all
qed

lemma settle_frame [simp]:
  "c_session_id (settle ch s) = c_session_id s" "c_store (settle ch s) = c_store s" "c_meta (settle ch s) = c_meta s"
  "c_providers (settle ch s) = c_providers s" "c_benched (settle ch s) = c_benched s" "c_ask (settle ch s) = c_ask s"
  "c_turn_failed (settle ch s) = c_turn_failed s" "c_config (settle ch s) = c_config s"
  "c_context_recovery (settle ch s) = c_context_recovery s" "c_recovery (settle ch s) = c_recovery s"
  "c_history_start (settle ch s) = c_history_start s" "c_published (settle ch s) = c_published s"
  "c_outbox (settle ch s) = c_outbox s" "c_awaiting (settle ch s) = c_awaiting s" "c_unanswered (settle ch s) = c_unanswered s"
  "c_next_turns (settle ch s) = c_next_turns s" "c_pending (settle ch s) = c_pending s" "c_turn (settle ch s) = c_turn s"
  "c_turn_recorded (settle ch s) = c_turn_recorded s" "c_in_turn (settle ch s) = c_in_turn s"
  "c_stopping (settle ch s) = c_stopping s" "c_terminal (settle ch s) = c_terminal s"
  "c_startup_error (settle ch s) = c_startup_error s" "c_autoremove (settle ch s) = c_autoremove s"
  "c_world (settle ch s) = c_world s" "c_runner (settle ch s) = c_runner s" "c_runner_epoch (settle ch s) = c_runner_epoch s"
  "c_current (settle ch s) = c_current s" "c_parked (settle ch s) = c_parked s" "c_announced (settle ch s) = c_announced s"
  "c_next_runner_epoch (settle ch s) = c_next_runner_epoch s" "c_epoch_turns (settle ch s) = c_epoch_turns s"
  "c_sync_ceiling (settle ch s) = c_sync_ceiling s" "c_stopped (settle ch s) = c_stopped s"
  "c_launched_once (settle ch s) = c_launched_once s" "c_compaction_deadline (settle ch s) = c_compaction_deadline s"
  by (simp_all add: settle_def)

lemma on_meta_frame:
  assumes "on_meta f s = (t, r)"
  shows "t = s\<lparr>c_meta := c_meta t, c_world := c_world t\<rparr>" and "f (c_meta s) (c_world s) = (c_world t, c_meta t, r)"
  using assms by (auto simp: on_meta_def split: prod.splits)

lemma put_down_frame [simp]:
  "c_pending (put_down E s) = c_pending s" "c_store (put_down E s) = c_store s" "c_meta (put_down E s) = c_meta s"
  "c_world (put_down E s) = c_world s" "c_outbox (put_down E s) = c_outbox s" "c_awaiting (put_down E s) = c_awaiting s"
  "c_published (put_down E s) = c_published s" "c_terminal (put_down E s) = c_terminal s"
  "c_session_id (put_down E s) = c_session_id s" "c_providers (put_down E s) = c_providers s"
  "c_benched (put_down E s) = c_benched s" "c_autoremove (put_down E s) = c_autoremove s" "c_ask (put_down E s) = c_ask s"
  "c_config (put_down E s) = c_config s" "c_recovery (put_down E s) = c_recovery s"
  "c_context_recovery (put_down E s) = c_context_recovery s" "c_history_start (put_down E s) = c_history_start s"
  "c_runner (put_down E s) = None" "c_current (put_down E s) = c_current s" "c_parked (put_down E s) = c_parked s"
  "c_turn (put_down E s) = c_turn s" "c_unanswered (put_down E s) = c_unanswered s" "c_in_turn (put_down E s) = c_in_turn s"
  "c_turn_recorded (put_down E s) = c_turn_recorded s"
  by (auto simp: put_down_def Let_def split: option.splits)

lemma persistence_failed_terminal [simp]: "c_terminal (persistence_failed E a e s)"
  by (simp add: persistence_failed_def stop_parked_def Let_def)

lemma persistence_failed_frame [simp]:
  "c_store (persistence_failed E a e s) = c_store s" "c_meta (persistence_failed E a e s) = c_meta s"
  "c_world (persistence_failed E a e s) = c_world s" "c_published (persistence_failed E a e s) = c_published s"
  "c_session_id (persistence_failed E a e s) = c_session_id s" "c_providers (persistence_failed E a e s) = c_providers s"
  "c_benched (persistence_failed E a e s) = c_benched s" "c_autoremove (persistence_failed E a e s) = c_autoremove s"
  "c_ask (persistence_failed E a e s) = c_ask s" "c_config (persistence_failed E a e s) = c_config s"
  "c_recovery (persistence_failed E a e s) = c_recovery s"
  "c_context_recovery (persistence_failed E a e s) = c_context_recovery s"
  "c_history_start (persistence_failed E a e s) = c_history_start s"
  by (simp_all add: persistence_failed_def stop_parked_def Let_def)

lemma record_event_Some:
  assumes "record_event E e s = (t, Some e')"
  shows "store_append (en_codec E) (attributed E s e) (c_store s) (c_world s) = (c_world t, c_store t, Inr e')"
    and "t = s\<lparr>c_store := c_store t, c_world := c_world t, c_state := c_state t, c_pending := c_pending s @ [e']\<rparr>"
  using assms by (auto simp: record_event_def Let_def settle_def split: prod.splits sum.splits)

lemma record_event_None:
  assumes "record_event E e s = (t, None)"
  obtains w' st' err where "store_append (en_codec E) (attributed E s e) (c_store s) (c_world s) = (w', st', Inl err)"
    and "t = persistence_failed E ''appending the session event log'' err (s\<lparr>c_store := st', c_world := w'\<rparr>)"
  using assms by (auto simp: record_event_def Let_def split: prod.splits sum.splits)

lemma record_event_dial: "dial s (fst (record_event E e s))"
  by (auto simp: record_event_def dial_def Let_def split: prod.splits sum.splits)

lemma on_meta_dial: "dial s (fst (on_meta f s))"
  by (auto simp: on_meta_def dial_def split: prod.splits)

interpretation dial: runner_order E dial for E
proof unfold_locales
  show run: "dial s t" if "run_only s t" for s t :: "'a chat" using run_onlyE[OF that] by (simp add: dial_def)
  show "dial s t" if "view_only s t" for s t :: "'a chat" using that run by (simp add: view_only_def)
qed (auto simp: dial_def[of _ "_\<lparr>c_world := _\<rparr>"] dial_def[of _ "persistence_failed _ _ _ _"] record_event_dial on_meta_dial,
     auto simp: dial_def)

lemma sideline_True:
  assumes "sideline E name why s = (t, True)"
  shows "name \<in> set (c_providers s)" and "name \<notin> c_benched s" and "c_providers t = c_providers s"
    and "c_benched t = insert name (c_benched s)" and "usable t \<noteq> []"
proof -
  obtain t1 where m: "moved_on E name why (s\<lparr>c_benched := insert name (c_benched s)\<rparr>) = (t1, True)"
    and a: "anyone_left E t1 = (t, True)"
    and "name \<in> set (c_providers s)" "name \<notin> c_benched s"
    using assms by (auto simp: sideline_def split: if_splits prod.splits bool.splits)
  then show "name \<in> set (c_providers s)" "name \<notin> c_benched s" by simp_all
  have "dial (s\<lparr>c_benched := insert name (c_benched s)\<rparr>) t1"
    using dial.after_moved_on[OF dial.R_refl, where E = E and name = name and why = why] m by (metis fst_conv)
  moreover have "t = t1" "usable t \<noteq> []" using a by (auto simp: anyone_left_def split: if_splits)
  ultimately show "c_providers t = c_providers s" "c_benched t = insert name (c_benched s)" "usable t \<noteq> []"
    by (simp_all add: dial_def)
qed

section \<open>Bringing a provider up, and surviving it refusing to come up\<close>

lemma attempt_decreases:
  assumes "(s1, r1) = rebuild E s" and "(s2, r2) = rung E s1" and "(s3, r3) = record_event E e s2"
    and "(s4, True) = sideline E culprit why s3"
  shows "card (set (c_providers s4) - c_benched s4) < card (set (c_providers s) - c_benched s)"
proof -
  have "dial s s1" using dial.after_rebuild[OF dial.R_refl, where E = E] assms(1) by (metis fst_conv)
  then have "dial s s2" using dial.after_rung assms(2) by (metis fst_conv)
  then have "dial s s3" using dial.after_steps(1) assms(3) by (metis fst_conv)
  then have same: "c_providers s3 = c_providers s" "c_benched s3 = c_benched s" by (simp_all add: dial_def)
  note side = sideline_True[OF assms(4)[symmetric]]
  have "set (c_providers s4) - c_benched s4 \<subset> set (c_providers s) - c_benched s"
    using side(1-4) same by auto
  then show ?thesis by (simp add: psubset_card_mono)
qed

function attempt :: "'r env \<Rightarrow> string \<Rightarrow> 'r chat \<Rightarrow> 'r chat \<times> bool" where
  "attempt E why s =
     (case rebuild E s of
        (s1, Inr _) \<Rightarrow> (s1, True)
      | (s1, Inl err) \<Rightarrow>
          if c_terminal s1 then (s1, False)
          else
            (case rung E s1 of (s2, r) \<Rightarrow>
               let culprit = (case r of Inr p \<Rightarrow> pk_provider p | Inl _ \<Rightarrow> []);
                   message = ''could not start a provider ('' @ why @ ''): '' @ err
               in if culprit = [] \<or> \<not> c_autoremove s2 then (blocked E message s2, False)
                  else
                    (case record_event E (from_provider culprit (failure (now s2) CRASH message)) s2 of
                       (s3, None) \<Rightarrow> (s3, False)
                     | (s3, Some _) \<Rightarrow>
                         (case sideline E culprit ''would not start'' s3 of
                            (s4, False) \<Rightarrow> (s4, False)
                          | (s4, True) \<Rightarrow> attempt E why s4))))"
  by pat_completeness auto
termination
  by (relation "measure (\<lambda>(E, why, s). card (set (c_providers s) - c_benched s))") (auto dest: attempt_decreases)

declare attempt.simps [simp del]

end
