(* ===== verification/Chat_Turn.thy ===== *)
theory Chat_Turn
  imports Chat_Order
begin

text \<open>
  \<open>chat.rs\<close>, third part: what happens at the boundaries of a turn. Handing queued messages over
  (\<open>flush\<close>) may find that the provider refuses, which may move the conversation elsewhere, which
  hands messages over again. Every such cycle of calls passes through \<open>flush\<close>, so each operation
  here takes it as the argument \<open>fl\<close>, and \<open>flush\<close> itself is defined last, by the number of nested
  calls still allowed; no result (\<open>None\<close>) means that number was too small. \<open>Chat_Progress\<close> proves a
  number that is always enough.
\<close>

type_synonym 'r flusher = "'r chat \<Rightarrow> 'r chat option"

section \<open>Handing over\<close>

definition attempt_then :: "'r env \<Rightarrow> 'r flusher \<Rightarrow> string \<Rightarrow> 'r chat \<Rightarrow> 'r chat option" where
  "attempt_then E fl why s = (case attempt E why s of (s1, True) \<Rightarrow> fl s1 | (s1, False) \<Rightarrow> Some s1)"

definition dispatch_queued :: "'r env \<Rightarrow> 'r flusher \<Rightarrow> 'r chat \<Rightarrow> 'r chat option" where
  "dispatch_queued E fl s =
     (if \<not> running E s then attempt_then E fl ''no provider is running'' s
      else if \<not> c_in_turn s then
        (case stale E s of
           (s1, True) \<Rightarrow> attempt_then E fl ''settings changed'' s1
         | (s1, False) \<Rightarrow> fl s1)
      else fl s)"

definition settle_idle :: "'r chat \<Rightarrow> 'r chat" where
  "settle_idle s =
     (if \<not> c_in_turn s \<and> c_outbox s = [] \<and> c_awaiting s = [] \<and> \<not> c_terminal s then set_status WAITING s else s)"

text \<open>The end of \<open>finish_turn\<close>, once the provider's watermark is saved.\<close>

definition next_work :: "'r env \<Rightarrow> 'r flusher \<Rightarrow> 'r chat \<Rightarrow> 'r chat option" where
  "next_work E fl s =
     (if c_awaiting s \<noteq> [] then Some (set_status BUSY (s\<lparr>c_in_turn := True\<rparr>))
      else
        (case stale E s of
           (s1, True) \<Rightarrow>
             (case attempt E ''settings changed'' (set_status BUSY s1) of
                (s2, False) \<Rightarrow> Some s2
              | (s2, True) \<Rightarrow> map_option settle_idle (fl s2))
         | (s1, False) \<Rightarrow> map_option settle_idle (fl s1)))"

definition watermark :: "'r chat \<Rightarrow> int" where
  "watermark s = (case c_sync_ceiling s of Some n \<Rightarrow> n | None \<Rightarrow> store_seq (c_store s))"

definition finish_turn :: "'r env \<Rightarrow> 'r flusher \<Rightarrow> 'r chat \<Rightarrow> 'r chat option" where
  "finish_turn E fl s0 =
     (let s = s0\<lparr>c_unanswered := tl (c_unanswered s0)\<rparr> in
      if 0 < c_next_turns s
        then Some (set_status BUSY (s\<lparr>c_next_turns := c_next_turns s - 1, c_in_turn := True, c_turn_recorded := True\<rparr>))
      else
        (case c_runner s of
           None \<Rightarrow> next_work E fl s
         | Some r \<Rightarrow>
             (case on_meta (mark_synced (en_codec E) (rn_name (en_ops E) r) (watermark s)) s of
                (s1, Inl e) \<Rightarrow> Some (persistence_failed E ''saving a provider watermark'' e s1)
              | (s1, Inr _) \<Rightarrow> next_work E fl s1)))"

section \<open>A provider that could not carry the turn\<close>

definition failed :: "'r env \<Rightarrow> 'r flusher \<Rightarrow> string \<Rightarrow> string \<Rightarrow> 'r chat \<Rightarrow> 'r chat option" where
  "failed E fl provider kind s =
     (let name = blamed E s provider in
      case close_turn E name [(''failed'', JString kind)] (c_autoremove s) s of
        (s1, False) \<Rightarrow> Some s1
      | (s1, True) \<Rightarrow>
          if \<not> c_autoremove s1 then Some s1
          else if name \<in> set (c_providers s1) then
            (case sideline E name kind s1 of
               (s2, False) \<Rightarrow> Some s2
             | (s2, True) \<Rightarrow> attempt_then E fl ''provider failed'' s2)
          else attempt_then E fl ''provider failed'' s1)"

definition unauthenticated :: "'r env \<Rightarrow> 'r flusher \<Rightarrow> event \<Rightarrow> 'r chat \<Rightarrow> 'r chat option" where
  "unauthenticated E fl e s =
     (let name = blamed E s (ev_provider e) in
      case close_turn E name [(''unauthenticated'', JString name)] (c_autoremove s) s of
        (s1, False) \<Rightarrow> Some s1
      | (s1, True) \<Rightarrow>
          if \<not> c_autoremove s1 then Some s1
          else if name \<notin> set (c_providers s1) then attempt_then E fl ''provider lost its login'' s1
          else
            let remaining = filter (\<lambda>p. p \<noteq> name) (c_providers s1) in
            (case save_setting E ACTIVE_PROVIDERS (json_strings remaining) ''saving an automatically-removed provider'' s1 of
               (s2, Inl _) \<Rightarrow> Some s2
             | (s2, Inr _) \<Rightarrow>
                 let s3 = s2\<lparr>c_providers := remaining, c_benched := c_benched s2 - {name}, c_world := forget name (c_world s2)\<rparr> in
                 (case moved_on E name ''unauthenticated'' s3 of
                    (s4, False) \<Rightarrow> Some s4
                  | (s4, True) \<Rightarrow>
                      (case anyone_left E s4 of
                         (s5, False) \<Rightarrow> Some s5
                       | (s5, True) \<Rightarrow> attempt_then E fl ''provider lost its login'' s5))))"

section \<open>A full context\<close>

text \<open>A message of the conductor's own, saved with the stage it belongs to.\<close>

definition push_recovery :: "'r env \<Rightarrow> recovery_stage \<Rightarrow> string \<Rightarrow> bool \<Rightarrow> 'r chat \<Rightarrow> 'r chat \<times> bool" where
  "push_recovery E stage text fresh s =
     (let (w', i) = new_uuid (c_world s);
          message = \<lparr>pm_id = i, pm_text = text\<rparr>;
          recovery = \<lparr>rc_stage = stage, rc_message_id = i, rc_retry = (if stage = Retrying then text else [])\<rparr>;
          since = (if fresh then Some (store_seq (c_store s) + 1) else None)
      in save_recovery E (Some recovery) since (Some message) (s\<lparr>c_world := w'\<rparr>))"

definition send_recovery :: "'r env \<Rightarrow> 'r flusher \<Rightarrow> recovery_stage \<Rightarrow> string \<Rightarrow> bool \<Rightarrow> 'r chat \<Rightarrow> 'r chat option" where
  "send_recovery E fl stage text fresh s =
     (case push_recovery E stage text fresh s of
        (s1, False) \<Rightarrow> Some s1
      | (s1, True) \<Rightarrow> dispatch_queued E fl (set_status BUSY (s1\<lparr>c_turn_failed := None\<rparr>)))"

definition recovery_message :: "'r env \<Rightarrow> 'r flusher \<Rightarrow> recovery_stage \<Rightarrow> string \<Rightarrow> bool \<Rightarrow> 'r chat \<Rightarrow> 'r chat option" where
  "recovery_message E fl stage text fresh s =
     (if fresh then
        (case close_turn E (blamed E s []) [(''context_limit'', JBool True)] False s of
           (s1, False) \<Rightarrow> Some s1
         | (s1, True) \<Rightarrow> send_recovery E fl stage text fresh (stop_parked E s1))
      else send_recovery E fl stage text fresh s)"

definition handoff_text :: "'r env \<Rightarrow> 'r chat \<Rightarrow> string" where
  "handoff_text E s =
     (let history = filter (\<lambda>e. ev_type e \<in> {START, INJECTED, TEXT}) (store_history (c_history_start s) (c_store s));
          transcript = flatten (en_codec E) history (cr_transcript_header (c_context_recovery s))
      in if transcript = [] then cr_limit_message (c_context_recovery s)
         else transcript @ [newline, newline] @ cr_limit_message (c_context_recovery s))"

definition start_handoff :: "'r env \<Rightarrow> 'r flusher \<Rightarrow> 'r chat \<Rightarrow> 'r chat option" where
  "start_handoff E fl s = recovery_message E fl Handoff (handoff_text E s) True s"

definition recovery_failed :: "'r env \<Rightarrow> string \<Rightarrow> 'r chat \<Rightarrow> 'r chat" where
  "recovery_failed E why s =
     (let provider = blamed E s [] in
      case close_turn E provider [(''context_recovery_failed'', JBool True)] False s of
        (s1, False) \<Rightarrow> s1
      | (s1, True) \<Rightarrow>
          (case save_recovery E None None None s1 of
             (s2, False) \<Rightarrow> s2
           | (s2, True) \<Rightarrow>
               refresh E (fst (record_event E (with_extra ''recovery_failed'' (JBool True)
                 (from_provider provider (failure (now s2) CONTEXT_LIMIT why))) s2))))"

text \<open>The stage that follows a recovery turn, given whether and how it failed.\<close>

definition finish_recovery :: "'r env \<Rightarrow> 'r flusher \<Rightarrow> 'r chat \<Rightarrow> 'r chat option" where
  "finish_recovery E fl s =
     (case save_recovery E None None None s of
        (s1, False) \<Rightarrow> Some s1
      | (s1, True) \<Rightarrow>
          if running E s1 then finish_turn E fl s1
          else (case attempt E ''resuming recovered session'' s1 of
                  (s2, True) \<Rightarrow> finish_turn E fl s2
                | (s2, False) \<Rightarrow> Some s2))"

definition retry_queued :: "'r env \<Rightarrow> 'r flusher \<Rightarrow> recovery_stage \<Rightarrow> string \<Rightarrow> string \<Rightarrow> 'r chat \<Rightarrow> 'r chat option" where
  "retry_queued E fl stage i retry s =
     (case save_recovery E (Some \<lparr>rc_stage = stage, rc_message_id = i, rc_retry = retry\<rparr>) None None s of
        (s1, False) \<Rightarrow> Some s1
      | (s1, True) \<Rightarrow> dispatch_queued E fl s1)"

definition compaction_done :: "'r env \<Rightarrow> 'r flusher \<Rightarrow> recovery \<Rightarrow> 'r chat \<Rightarrow> 'r chat option" where
  "compaction_done E fl rec s =
     (if rc_retry rec = [] then
        (case c_outbox s of
           message # _ \<Rightarrow> retry_queued E fl Retrying (pm_id message) [] s
         | [] \<Rightarrow>
             (case save_recovery E None None None s of
                (s1, False) \<Rightarrow> Some s1
              | (s1, True) \<Rightarrow> finish_turn E fl s1))
      else recovery_message E fl Retrying (rc_retry rec) False s)"

definition turn_broken :: "event \<Rightarrow> bool" where
  "turn_broken e \<longleftrightarrow> get_bool (ev_extra e) ''interrupted'' = Some True
     \<or> get_str (ev_extra e) ''status'' \<in> {Some ''failed'', Some ''interrupted''}"

text \<open>\<open>recovery_ended\<close> is only called while a recovery is on: the source's \<open>expect\<close> is the case \<open>None\<close>.\<close>

definition recovery_ended :: "'r env \<Rightarrow> 'r flusher \<Rightarrow> event \<Rightarrow> 'r chat \<Rightarrow> 'r chat option" where
  "recovery_ended E fl e s0 =
     (case c_recovery s0 of
        None \<Rightarrow> Some s0
      | Some rec \<Rightarrow>
          let failure = c_turn_failed s0;
              s = s0\<lparr>c_in_turn := False, c_turn_recorded := False, c_unanswered := [], c_turn_failed := None\<rparr>;
              failed = (failure \<noteq> None \<or> turn_broken e)
          in if rc_stage rec = Compacting \<and> failed then start_handoff E fl s
             else if rc_stage rec = Compacting then compaction_done E fl rec s
             else if rc_stage rec = Retrying \<and> failure = Some CONTEXT_LIMIT then start_handoff E fl s
             else if failed
               then Some (recovery_failed E (case failure of Some f \<Rightarrow> f | None \<Rightarrow> ''recovery turn did not complete'') s)
             else if rc_stage rec = Handoff
               then recovery_message E fl Continuing (cr_new_session_message (c_context_recovery s)) True s
             else if rc_stage rec \<in> {Continuing, Resuming} \<and> c_outbox s \<noteq> []
               then retry_queued E fl Resuming (pm_id (hd (c_outbox s))) (rc_retry rec) s
             else finish_recovery E fl s)"

definition turn_texts :: "'r chat \<Rightarrow> string list" where
  "turn_texts s = map ev_text (filter (\<lambda>e. ev_turn e = c_turn s \<and> ev_type e \<in> {START, INJECTED})
     (store_history (c_history_start s) (c_store s)))"

definition recover_context :: "'r env \<Rightarrow> 'r flusher \<Rightarrow> bool \<Rightarrow> 'r chat \<Rightarrow> 'r chat option" where
  "recover_context E fl delivered s =
     (let retry = (if delivered then join [newline, newline] (turn_texts s) else []);
          rec = \<lparr>rc_stage = Compacting, rc_message_id = [], rc_retry = retry\<rparr>
      in case save_recovery E (Some rec) None None s of
           (s1, False) \<Rightarrow> Some s1
         | (s1, True) \<Rightarrow>
             let s2 = s1\<lparr>c_turn_failed := None\<rparr> in
             (case c_runner s2 of
                None \<Rightarrow> start_handoff E fl s2
              | Some r \<Rightarrow>
                  (case rn_compact (en_ops E) (ticks s2) r of
                     (r', answer) \<Rightarrow>
                       let s3 = s2\<lparr>c_runner := Some r'\<rparr> in
                       if answer = Inr True then
                         let s4 = set_status BUSY (s3\<lparr>c_compaction_deadline := Some (monotonic (c_world s3) (ticks s3) + 180),
                                    c_in_turn := True\<rparr>)
                         in Some (fst (record_event E (config_event (now s4) ''context_compaction'') s4))
                       else start_handoff E fl s3)))"

section \<open>Handing queued messages over\<close>

definition opening_event :: "'r chat \<Rightarrow> delivery \<Rightarrow> pending_message \<Rightarrow> bool \<Rightarrow> event" where
  "opening_event s d m was_in_turn =
     (if was_in_turn
      then with_extra ''landed'' (JString (if d = NextTurn then ''next_turn'' else ''same_turn''))
             (with_extra MESSAGE_ID (JString (pm_id m)) (saying (pm_text m) (event_new (now s) INJECTED)))
      else (with_extra MESSAGE_ID (JString (pm_id m)) (saying (pm_text m) (event_new (now s) START)))\<lparr>ev_turn := c_turn s + 1\<rparr>)"

text \<open>The opening event is recorded, then the message retired; only then is it off the queue.\<close>

definition deliver :: "'r env \<Rightarrow> delivery \<Rightarrow> pending_message \<Rightarrow> bool \<Rightarrow> 'r chat \<Rightarrow> 'r chat \<times> bool" where
  "deliver E d m was_in_turn s =
     (case record_event E (opening_event s d m was_in_turn) s of
        (s1, None) \<Rightarrow> (s1, False)
      | (s1, Some e) \<Rightarrow>
          let s2 = remember_runner_turn (s1\<lparr>c_turn := max (c_turn s1) (ev_turn e)\<rparr>);
              later = (d = NextTurn \<and> was_in_turn);
              s3 = s2\<lparr>c_next_turns := c_next_turns s2 + (if later then 1 else 0)\<rparr>
          in case complete_message E (pm_id m) s3 of
               (s4, False) \<Rightarrow> (s4, False)
             | (s4, True) \<Rightarrow>
                 let s5 = remember_message (pm_text m) later s4
                 in (set_status BUSY (s5\<lparr>c_outbox := tl (c_outbox s5), c_turn_recorded := True, c_in_turn := True\<rparr>), True))"

definition held_back :: "'r chat \<Rightarrow> pending_message \<Rightarrow> bool" where
  "held_back s m =
     (case c_recovery s of None \<Rightarrow> False | Some r \<Rightarrow> rc_stage r = Compacting \<or> rc_message_id r \<noteq> pm_id m)"

text \<open>The branch of the loop for a provider that would not take a message.\<close>

definition send_refused :: "'r env \<Rightarrow> 'r flusher \<Rightarrow> string \<Rightarrow> 'r chat \<Rightarrow> 'r chat option" where
  "send_refused E fl why s =
     (let name = running_name E s in
      if classify why = CONTEXT_LIMIT then
        (case record_event E (from_provider name (failure (now s) CONTEXT_LIMIT why)) s of
           (s1, None) \<Rightarrow> Some s1
         | (s1, Some _) \<Rightarrow>
             if c_recovery s1 \<noteq> None
               then recovery_ended E fl (event_new (now s1) END) (s1\<lparr>c_turn_failed := Some CONTEXT_LIMIT\<rparr>)
             else if c_in_turn s1 then Some (s1\<lparr>c_turn_failed := Some CONTEXT_LIMIT\<rparr>)
             else recover_context E fl False s1)
      else if c_recovery s \<noteq> None then Some (recovery_failed E why s)
      else
        let kind = classify why in
        (case record_event E (from_provider name (failure (now s) kind (name @ '' would not take the message: '' @ why))) s of
           (s1, None) \<Rightarrow> Some s1
         | (s1, Some err) \<Rightarrow> if kind = AUTH then unauthenticated E fl err s1 else failed E fl name kind s1))"

definition echo :: "pending_message \<Rightarrow> 'r chat \<Rightarrow> 'r chat" where
  "echo m s = set_status BUSY (s\<lparr>c_awaiting := c_awaiting s @ [m], c_outbox := tl (c_outbox s), c_in_turn := True\<rparr>)"

lemma deliver_True_outbox:
  assumes "deliver E d m was s = (t, True)"
  shows "c_outbox t = tl (c_outbox s)"
proof -
  obtain s1 e where r: "record_event E (opening_event s d m was) s = (s1, Some e)"
    using assms by (auto simp: deliver_def split: prod.splits option.splits)
  have "c_outbox s1 = c_outbox s" by (subst record_event_Some(2)[OF r]) simp
  moreover have "c_outbox (remember_message x l u) = c_outbox u" "c_outbox (remember_runner_turn u) = c_outbox u"
    for x l and u :: "'a chat"
    by (auto simp: remember_message_def remember_runner_turn_def split: list.splits option.splits)
  ultimately show ?thesis using assms r
    by (auto simp: deliver_def complete_message_def save_or_fail_def set_status_def Let_def
        dest!: on_meta_frame(1)[THEN arg_cong, of _ _ _ _ c_outbox] split: prod.splits option.splits sum.splits)
qed

function send_queued :: "'r env \<Rightarrow> 'r flusher \<Rightarrow> 'r chat \<Rightarrow> 'r chat option" where
  "send_queued E fl s =
     (case c_outbox s of
        [] \<Rightarrow> Some s
      | m # _ \<Rightarrow>
          if held_back s m then Some s
          else
            (case c_runner s of
               None \<Rightarrow> Some s
             | Some r \<Rightarrow>
                 (case rn_send (en_ops E) (ticks s) (pm_text m) r of
                    (r', Inl why) \<Rightarrow> send_refused E fl why (s\<lparr>c_runner := Some r'\<rparr>)
                  | (r', Inr d) \<Rightarrow>
                      if d = Echoed then send_queued E fl (echo m (s\<lparr>c_runner := Some r'\<rparr>))
                      else
                        (case deliver E d m (c_in_turn s) (s\<lparr>c_runner := Some r'\<rparr>) of
                           (s2, False) \<Rightarrow> Some s2
                         | (s2, True) \<Rightarrow> send_queued E fl s2))))"
  by pat_completeness auto
termination
  by (relation "measure (\<lambda>(E, fl, s). length (c_outbox s))")
    (auto simp: echo_def set_status_def dest!: deliver_True_outbox[OF sym])

declare send_queued.simps [simp del]

definition flush_with :: "'r env \<Rightarrow> 'r flusher \<Rightarrow> 'r chat \<Rightarrow> 'r chat option" where
  "flush_with E fl s =
     (let stuck = (\<lambda>s. if c_outbox s \<noteq> [] \<and> \<not> running E s
                       then blocked E (''nothing is running; '' @ show_nat (length (c_outbox s)) @ '' message(s) still queued'') s
                       else s)
      in if \<not> running E s then Some (stuck s)
         else (case stale E s of
                 (s1, True) \<Rightarrow> Some (stuck s1)
               | (s1, False) \<Rightarrow> send_queued E fl s1))"

primrec flush :: "'r env \<Rightarrow> nat \<Rightarrow> 'r chat \<Rightarrow> 'r chat option" where
  "flush E 0 s = None"
| "flush E (Suc n) s = flush_with E (flush E n) s"

end
