(* ===== verification/Chat_Conductor.thy ===== *)
theory Chat_Conductor
  imports Chat_Turn
begin

text \<open>
  \<open>chat.rs\<close>, last part: reacting to what a provider says, opening a session, and the loop of the
  one thread that owns it. The loop's input is the list of signals in the order they reach it:
  wakes taken off the inbox, and the expiry of the compaction timer. A wake that someone waits on
  carries a number, and the answers given are the loop's second result. When the input is used up
  the conductor is waiting, and its state so far is the result.
\<close>

section \<open>What a provider says\<close>

text \<open>The provider-private echo of a message becomes the one durable user event it confirms.\<close>

definition confirmed_opening :: "'r chat \<Rightarrow> pending_message \<Rightarrow> string \<Rightarrow> event \<Rightarrow> event" where
  "confirmed_opening s m opening e =
     (let e1 = e\<lparr>ev_type := opening, ev_extra := bt_insert MESSAGE_ID (JString (pm_id m)) (bt_remove CONFIRMED_AS (ev_extra e))\<rparr>
      in if opening = START then e1\<lparr>ev_turn := c_turn s + 1\<rparr> else with_extra ''landed'' (JString ''same_turn'') e1)"

definition confirm :: "'r env \<Rightarrow> event \<Rightarrow> 'r chat \<Rightarrow> 'r chat" where
  "confirm E e s =
     (case c_awaiting s of
        [] \<Rightarrow> s
      | m # _ \<Rightarrow>
          (case get_str (ev_extra e) CONFIRMED_AS of
             None \<Rightarrow> s
           | Some opening \<Rightarrow>
               if pm_text m \<noteq> ev_text e \<or> opening \<notin> {START, INJECTED} then s
               else
                 (case record_event E (confirmed_opening s m opening e) s of
                    (s1, None) \<Rightarrow> s1
                  | (s1, Some ev) \<Rightarrow>
                      (case complete_message E (pm_id m) (remember_runner_turn (s1\<lparr>c_turn := max (c_turn s1) (ev_turn ev)\<rparr>)) of
                         (s2, False) \<Rightarrow> s2
                       | (s2, True) \<Rightarrow>
                           let s3 = remember_message (pm_text m) (is_type ev START) (s2\<lparr>c_awaiting := tl (c_awaiting s2)\<rparr>)
                           in set_status BUSY (s3\<lparr>c_turn_recorded := True, c_in_turn := True\<rparr>)))))"

text \<open>An event as it is admitted: its kind and origin settled, its provenance removed.\<close>

definition admitted :: "'r env \<Rightarrow> 'r chat \<Rightarrow> event \<Rightarrow> event \<times> bool" where
  "admitted E s e =
     (let e1 = (if is_type e ERROR
                   \<and> classify (ev_error e @ '' '' @ to_text (en_codec E) (JObject (ev_extra e))) = CONTEXT_LIMIT
                then e\<lparr>ev_kind := CONTEXT_LIMIT\<rparr> else e);
          e2 = (if ev_turn e1 < 0
                then (case Option.bind (event_epoch e1) (bt_get (c_epoch_turns s)) of
                        Some origin \<Rightarrow> e1\<lparr>ev_turn := origin\<rparr>
                      | None \<Rightarrow> e1)
                else e1);
          late = straggler E s e2;
          e3 = e2\<lparr>ev_extra := bt_remove RUNNER_EPOCH (bt_remove GENERATION (ev_extra e2))\<rparr>
      in (if late then with_extra ''late'' (JBool True) e3 else e3, late))"

definition RECOVERY_KINDS :: "string list" where
  "RECOVERY_KINDS = [CONTEXT_LIMIT, CRASH, AUTH, LIMIT, UNAVAILABLE]"

definition will_retry :: "event \<Rightarrow> bool" where
  "will_retry e \<longleftrightarrow> get_bool (ev_extra e) ''willRetry'' = Some True"

definition react_error :: "'r env \<Rightarrow> 'r flusher \<Rightarrow> event \<Rightarrow> 'r chat \<Rightarrow> 'r chat option" where
  "react_error E fl e s =
     (if c_recovery s \<noteq> None then
        (if ev_kind e \<notin> set RECOVERY_KINDS then Some s
         else
           let s1 = s\<lparr>c_turn_failed := Some (ev_kind e)\<rparr> in
           if ev_kind e \<in> {CRASH, AUTH} then
             (if in_stage Compacting (c_recovery s1) then start_handoff E fl s1
              else Some (recovery_failed E (ev_error e) s1))
           else Some s1)
      else if ev_kind e = CONTEXT_LIMIT then Some (s\<lparr>c_turn_failed := Some CONTEXT_LIMIT\<rparr>)
      else if ev_kind e = AUTH then unauthenticated E fl e s
      else if ev_kind e = CRASH then failed E fl (ev_provider e) CRASH s
      else if ev_kind e \<in> set ENDS_THE_TURN \<and> c_in_turn s then Some (s\<lparr>c_turn_failed := Some (ev_kind e)\<rparr>)
      else Some s)"

definition react_end :: "'r env \<Rightarrow> 'r flusher \<Rightarrow> event \<Rightarrow> 'r chat \<Rightarrow> 'r chat option" where
  "react_end E fl e s0 =
     (let s = s0\<lparr>c_in_turn := False, c_turn_recorded := False\<rparr> in
      if c_recovery s \<noteq> None then recovery_ended E fl e s
      else
        let s1 = s\<lparr>c_turn_failed := None\<rparr> in
        (case c_turn_failed s of
           None \<Rightarrow> finish_turn E fl s1
         | Some kind \<Rightarrow>
             if kind = CONTEXT_LIMIT then recover_context E fl True s1
             else if c_autoremove s then failed E fl (ev_provider e) kind s1
             else finish_turn E fl s1))"

definition react :: "'r env \<Rightarrow> 'r flusher \<Rightarrow> event \<Rightarrow> 'r chat \<Rightarrow> 'r chat option" where
  "react E fl e s =
     (if ev_type e \<in> set MODEL_EVENTS then Some (set_status BUSY (s\<lparr>c_turn_failed := None\<rparr>))
      else if is_type e END then react_end E fl e s
      else if is_type e ERROR \<and> \<not> will_retry e then react_error E fl e s
      else Some s)"

definition note_late :: "event \<Rightarrow> 'r chat \<Rightarrow> 'r chat" where
  "note_late e s =
     (if is_history e \<and> c_runner s \<noteq> None
      then s\<lparr>c_sync_ceiling := Some (case c_sync_ceiling s of None \<Rightarrow> ev_seq e - 1 | Some n \<Rightarrow> min n (ev_seq e - 1))\<rparr>
      else s)"

definition note_stopping :: "event \<Rightarrow> 'r chat \<Rightarrow> 'r chat" where
  "note_stopping e s =
     (if is_type e END then s\<lparr>c_in_turn := False, c_turn_recorded := False, c_next_turns := 0\<rparr> else s)"

definition absorb :: "'r env \<Rightarrow> 'r flusher \<Rightarrow> event \<Rightarrow> 'r chat \<Rightarrow> 'r chat option" where
  "absorb E fl e0 s =
     (let (e, late) = admitted E s e0 in
      case repeated E e s of
        (s1, True) \<Rightarrow> Some s1
      | (s1, False) \<Rightarrow>
          if is_type e CONFIRMED then Some (if late then s1 else confirm E e s1)
          else
            (case record_event E e s1 of
               (s2, None) \<Rightarrow> Some s2
             | (s2, Some ev) \<Rightarrow>
                 if late then Some (note_late ev s2)
                 else if c_stopping s2 then Some (note_stopping ev s2)
                 else react E fl ev s2))"

section \<open>Coming back to a recovery\<close>

definition not_late :: "event \<Rightarrow> bool" where
  "not_late e \<longleftrightarrow> get_bool (ev_extra e) ''late'' \<noteq> Some True"

definition recorded_failure :: "event \<Rightarrow> event \<Rightarrow> event list \<Rightarrow> string option" where
  "recorded_failure opening end_event evs =
     fold (\<lambda>e acc.
       if is_type e ERROR \<and> ev_kind e \<in> set RECOVERY_KINDS \<and> \<not> will_retry e then Some (ev_kind e)
       else if ev_type e \<in> set MODEL_EVENTS then None
       else acc)
     (filter (\<lambda>e. ev_seq opening < ev_seq e \<and> ev_seq e < ev_seq end_event \<and> ev_turn e = ev_turn opening \<and> not_late e) evs) None"

definition resume_recovery :: "'r env \<Rightarrow> 'r flusher \<Rightarrow> 'r chat \<Rightarrow> 'r chat option" where
  "resume_recovery E fl s =
     (case c_recovery s of
        None \<Rightarrow> Some s
      | Some rec \<Rightarrow>
          let evs = store_events (c_history_start s) (c_store s);
              opened = (if \<exists>m \<in> set (c_outbox s). pm_id m = rc_message_id rec then None
                        else List.find (\<lambda>e. get_str (ev_extra e) MESSAGE_ID = Some (rc_message_id rec)) evs)
          in if rc_stage rec = Compacting then start_handoff E fl s
             else
               (case opened of
                  None \<Rightarrow> attempt_then E fl ''resuming context recovery'' s
                | Some opening \<Rightarrow>
                    (case List.find (\<lambda>e. ev_seq opening < ev_seq e \<and> ev_turn e = ev_turn opening \<and> is_type e END \<and> not_late e) evs of
                       None \<Rightarrow> start_handoff E fl s
                     | Some end_event \<Rightarrow>
                         if get_bool (ev_extra end_event) ''interrupted'' = Some True then start_handoff E fl s
                         else recovery_ended E fl end_event (s\<lparr>c_turn_failed := recorded_failure opening end_event evs\<rparr>))))"

definition launch_once :: "'r env \<Rightarrow> 'r flusher \<Rightarrow> 'r chat \<Rightarrow> 'r chat option" where
  "launch_once E fl s0 =
     (if c_launched_once s0 then Some s0
      else
        let s = s0\<lparr>c_launched_once := True\<rparr>;
            try = (\<lambda>s. case attempt E ''starting up'' s of
                         (s1, ok) \<Rightarrow> if ok \<and> \<not> c_terminal s1 then fl s1 else Some s1)
        in if c_recovery s \<noteq> None then resume_recovery E fl s
           else if running E s then
             (case stale E s of
                (s1, False) \<Rightarrow> if \<not> c_terminal s1 then fl s1 else Some s1
              | (s1, True) \<Rightarrow> try s1)
           else try s)"

definition dispatch :: "'r env \<Rightarrow> 'r flusher \<Rightarrow> string \<Rightarrow> 'r chat \<Rightarrow> 'r chat option" where
  "dispatch E fl text s =
     (case enqueue E text s of
        (s1, Inl _) \<Rightarrow> Some s1
      | (s1, Inr _) \<Rightarrow> dispatch_queued E fl s1)"

section \<open>Opening a session\<close>

definition delivered_ids :: "store \<Rightarrow> string set" where
  "delivered_ids st =
     set (somes (map (\<lambda>e. get_str (ev_extra e) MESSAGE_ID)
       (filter (\<lambda>e. is_type e START \<or> is_type e INJECTED) (store_events 0 st))))"

definition first_error :: "string option \<Rightarrow> string option \<Rightarrow> string option" where
  "first_error a b = (case a of Some e \<Rightarrow> Some e | None \<Rightarrow> b)"

definition stored_recovery :: "meta \<Rightarrow> recovery option \<times> string option" where
  "stored_recovery m =
     (case meta_get m RECOVERY of
        None \<Rightarrow> (None, None)
      | Some v \<Rightarrow>
          (case recovery_of_value v of
             None \<Rightarrow> (None, Some ''loading context recovery'')
           | Some r \<Rightarrow>
               (Some r, if rc_stage r \<noteq> Compacting \<and> rc_message_id r = []
                        then Some ''loading context recovery: message id is missing'' else None)))"

definition stored_history_start :: "meta \<Rightarrow> store \<Rightarrow> int \<times> string option" where
  "stored_history_start m st =
     (case meta_get m HISTORY_START of
        None \<Rightarrow> (0, None)
      | Some v \<Rightarrow>
          (case as_i64 v of
             Some since \<Rightarrow>
               if 0 \<le> since \<and> since \<le> min (store_seq st + 1) i64_max then (since, None)
               else (0, Some ''loading context recovery: invalid history boundary'')
           | None \<Rightarrow> (0, Some ''loading context recovery: invalid history boundary'')))"

definition stored_ask :: "meta \<Rightarrow> ask" where
  "stored_ask m =
     (case Option.bind (case meta_setting m STORED_ASK of Some v \<Rightarrow> Some v | None \<Rightarrow> meta_get m STORED_ASK)
        (\<lambda>v. case as_i64 v of Some n \<Rightarrow> Some (ask_intelligence n) | None \<Rightarrow> ask_of_value v) of
        Some a \<Rightarrow> a
      | None \<Rightarrow> ask_default)"

definition stored_providers :: "meta \<Rightarrow> string list \<Rightarrow> string list" where
  "stored_providers m providers =
     (case Option.bind (Option.bind (meta_setting m ACTIVE_PROVIDERS) as_array) strings_of of
        Some ps \<Rightarrow> ps
      | None \<Rightarrow> providers)"

definition non_empty :: "string option \<Rightarrow> string option" where
  "non_empty t = (case t of Some [] \<Rightarrow> None | _ \<Rightarrow> t)"

definition stored_cwd :: "meta \<Rightarrow> string option \<Rightarrow> string \<Rightarrow> string" where
  "stored_cwd m opening_cwd here =
     (case non_empty (case meta_setting_str m CWD of Some c \<Rightarrow> Some c | None \<Rightarrow> meta_get_str m CWD) of
        Some c \<Rightarrow> c
      | None \<Rightarrow> (case non_empty opening_cwd of Some c \<Rightarrow> c | None \<Rightarrow> here))"

definition stored_flag :: "meta \<Rightarrow> string \<Rightarrow> bool \<Rightarrow> bool" where
  "stored_flag m key dflt = (case Option.bind (meta_setting m key) as_bool of Some b \<Rightarrow> b | None \<Rightarrow> dflt)"

definition stored_text :: "meta \<Rightarrow> string \<Rightarrow> string" where
  "stored_text m key = (case meta_setting_str m key of Some t \<Rightarrow> t | None \<Rightarrow> [])"

definition stored_config :: "'r env \<Rightarrow> meta \<Rightarrow> string option \<Rightarrow> config" where
  "stored_config E m opening_cwd =
     (config_at (en_canonicalize E) (stored_cwd m opening_cwd (en_here E)) (config_default (en_here E)))
       \<lparr>cf_system_prompt := stored_text m SYSTEM_PROMPT, cf_append_system_prompt := stored_text m APPEND_SYSTEM_PROMPT,
        cf_disable_subagents := \<not> stored_flag m SUBAGENTS False, cf_disable_mcp := \<not> stored_flag m MCP False\<rparr>"

definition stored_texts :: "meta \<Rightarrow> context_recovery" where
  "stored_texts m = (case Option.bind (meta_setting m CONTEXT_RECOVERY) context_recovery_of of Some c \<Rightarrow> c | None \<Rightarrow> recovery_texts)"

definition initial_settings :: "meta \<Rightarrow> string list \<Rightarrow> ask \<Rightarrow> config \<Rightarrow> jmap" where
  "initial_settings m providers a config =
     bt_insert CONTEXT_RECOVERY (JObject (context_recovery_map (stored_texts m)))
     (bt_insert CWD (JString (cf_cwd config))
     (bt_insert AUTOREMOVE (JBool (stored_flag m AUTOREMOVE True))
     (bt_insert MCP (JBool (stored_flag m MCP False))
     (bt_insert SUBAGENTS (JBool (stored_flag m SUBAGENTS False))
     (bt_insert APPEND_SYSTEM_PROMPT (JString (cf_append_system_prompt config))
     (bt_insert SYSTEM_PROMPT (JString (cf_system_prompt config))
     (bt_insert STORED_ASK (ask_value a)
     (bt_insert ACTIVE_PROVIDERS (json_strings providers) []))))))))"

text \<open>A step of opening that is skipped once something went wrong, and whose own failure is noted.\<close>

definition unless_failed ::
  "string \<Rightarrow> (meta \<Rightarrow> world \<Rightarrow> world \<times> meta \<times> unit res) \<Rightarrow> string option \<times> meta \<times> world \<Rightarrow> string option \<times> meta \<times> world" where
  "unless_failed what f x =
     (case x of
        (Some e, m, w) \<Rightarrow> (Some e, m, w)
      | (None, m, w) \<Rightarrow>
          (case f m w of
             (w', m', Inl e) \<Rightarrow> (Some (what @ '': '' @ e), m', w')
           | (w', m', Inr _) \<Rightarrow> (None, m', w')))"

definition opened_chat ::
  "string \<Rightarrow> store \<Rightarrow> meta \<Rightarrow> string list \<Rightarrow> ask \<Rightarrow> config \<Rightarrow> context_recovery \<Rightarrow> recovery option \<Rightarrow> int \<Rightarrow> bool \<Rightarrow>
   string option \<Rightarrow> world \<Rightarrow> 'r chat" where
  "opened_chat sid st m providers a config texts rec since autoremove err w =
     \<lparr>c_session_id = sid, c_store = st, c_meta = m, c_providers = providers, c_benched = {}, c_turn_failed = None,
      c_ask = a, c_config = config, c_context_recovery = texts, c_recovery = rec, c_compaction_deadline = None,
      c_history_start = since, c_published = [],
      c_state = \<lparr>sn_session = sid, sn_status = IDLE, sn_ask = a, sn_providers = providers, sn_provider = [], sn_model = [],
        sn_effort = [], sn_cwd = cf_cwd config, sn_seq = store_seq st, sn_in_turn = False, sn_queued = length (meta_pending m)\<rparr>,
      c_runner = None, c_runner_epoch = None, c_next_runner_epoch = 1, c_epoch_turns = [], c_sync_ceiling = None,
      c_parked = [], c_current = None, c_launched_once = False, c_outbox = meta_pending m, c_awaiting = [],
      c_unanswered = [], c_next_turns = 0, c_pending = [], c_turn = store_turn st, c_turn_recorded = False,
      c_in_turn = False, c_stopping = False, c_terminal = False, c_startup_error = err, c_autoremove = autoremove,
      c_announced = {}, c_stopped = [], c_world = w\<rparr>"

definition open_at :: "'r env \<Rightarrow> string \<Rightarrow> string list \<Rightarrow> string option \<Rightarrow> world \<Rightarrow> 'r chat" where
  "open_at E sid offered opening_cwd w0 =
     (let (w1, st) = store_open (en_codec E) (en_home E) sid w0;
          (w2, m0) = meta_open (en_codec E) (en_home E) sid w1;
          e1 = first_error (map_option (\<lambda>e. ''loading existing session log: '' @ load_error_text sid e) (st_load_error st))
                 (map_option (\<lambda>e. ''loading existing session metadata: '' @ e) (mt_load_error m0));
          (rec, e_rec) = stored_recovery m0;
          (since, e_since) = stored_history_start m0 st;
          e2 = first_error (first_error e1 e_rec) e_since;
          (e3, m1, w3) = unless_failed ''reconciling delivered messages''
             (meta_reconcile (en_codec E) (delivered_ids st)) (e2, m0, w2);
          a = stored_ask m1;
          providers = stored_providers m1 offered;
          config = stored_config E m1 opening_cwd;
          (e4, m2, w4) = unless_failed ''initializing session settings''
             (initialize_settings (en_codec E) (initial_settings m1 providers a config)) (e3, m1, w3)
      in opened_chat sid st m2 providers a config (stored_texts m1) rec since (stored_flag m1 AUTOREMOVE True) e4 w4)"

definition open_chat :: "'r env \<Rightarrow> string \<Rightarrow> string list \<Rightarrow> world \<Rightarrow> 'r chat" where
  "open_chat E sid offered = open_at E sid offered None"

section \<open>The loop\<close>

datatype wake =
    Launch
  | LaunchReady nat
  | Send string
  | SendDurable string nat
  | Heard event
  | SetChange change
  | Configure "change list" nat
  | Stop

datatype signal = Woke wake | Deadline

type_synonym answer = "nat \<times> unit res"

fun waiter :: "signal \<Rightarrow> nat option" where
  "waiter (Woke (LaunchReady k)) = Some k"
| "waiter (Woke (SendDurable _ k)) = Some k"
| "waiter (Woke (Configure _ k)) = Some k"
| "waiter _ = None"

text \<open>Every caller still waiting is released when the conductor ends before reaching its command.\<close>

definition reject_waiters :: "string \<Rightarrow> signal list \<Rightarrow> answer list" where
  "reject_waiters why sigs = map (\<lambda>k. (k, Inl why)) (somes (map waiter sigs))"

definition stop_answer :: "wake \<Rightarrow> string" where
  "stop_answer wk =
     (case wk of
        SendDurable _ _ \<Rightarrow> ''session stopped before accepting the message''
      | Configure _ _ \<Rightarrow> ''session stopped before saving settings''
      | _ \<Rightarrow> ''session stopped before provider launch'')"

text \<open>Whatever the provider said on its way out still belongs in the log.\<close>

fun drain :: "'r env \<Rightarrow> 'r flusher \<Rightarrow> signal list \<Rightarrow> 'r chat \<Rightarrow> ('r chat \<times> answer list \<times> bool) option" where
  "drain E fl [] s = Some (s, [], True)"
| "drain E fl (x # xs) s =
     (case x of
        Woke (Heard e) \<Rightarrow>
          (case absorb E fl e s of
             None \<Rightarrow> None
           | Some s1 \<Rightarrow> if c_terminal s1 then Some (s1, [], False) else drain E fl xs s1)
      | Woke wk \<Rightarrow>
          (case (drain E fl xs s, waiter x) of
             (Some (s1, acks, ok), Some k) \<Rightarrow> Some (s1, (k, Inl (stop_answer wk)) # acks, ok)
           | (r, _) \<Rightarrow> r)
      | Deadline \<Rightarrow> drain E fl xs s)"

definition end_event :: "'r chat \<Rightarrow> event" where
  "end_event s =
     (let (provider, model) = (case c_current s of Some (p, m, _, _) \<Rightarrow> (p, m) | None \<Rightarrow> ([], []))
      in with_extra ''stopped'' (JBool True) (with_extra ''interrupted'' (JBool True)
           (about model (from_provider provider (event_new (now s) END)))))"

text \<open>\<open>shutdown\<close> up to the draining of the inbox: the runner asked to break off, its session kept, everything stopped.\<close>

definition stop_runner :: "'r env \<Rightarrow> 'r chat \<Rightarrow> 'r chat \<times> bool" where
  "stop_runner E s =
     (case c_runner s of
        None \<Rightarrow> (s, True)
      | Some r \<Rightarrow>
          let r1 = (if c_in_turn s then rn_interrupt (en_ops E) (ticks s) r else r);
              s0 = s\<lparr>c_runner := None\<rparr>;
              name = rn_name (en_ops E) r1;
              native = rn_native_id (en_ops E) r1
          in if native \<noteq> [] then
               (case on_meta (meta_bind (en_codec E) name native) s0 of
                  (s1, Inl e) \<Rightarrow> (persistence_failed E ''saving a provider session id'' e (stop_one E r1 s1), False)
                | (s1, Inr _) \<Rightarrow> (stop_one E r1 s1, True))
             else (stop_one E r1 s0, True))"

definition close_stopped_turn :: "'r env \<Rightarrow> 'r chat \<Rightarrow> 'r chat \<times> bool" where
  "close_stopped_turn E s =
     (if c_in_turn s \<and> c_turn_recorded s
      then (case record_event E (end_event s) s of (s1, r) \<Rightarrow> (s1, r \<noteq> None))
      else (s, True))"

definition say_stopped :: "'r env \<Rightarrow> 'r chat \<Rightarrow> 'r chat" where
  "say_stopped E s =
     (let s1 = requeue_awaiting (s\<lparr>c_in_turn := False, c_turn_recorded := False, c_next_turns := 0\<rparr>) in
      case record_event E (config_event (now s1) ''stop'') s1 of
        (s2, Some _) \<Rightarrow> set_status STOPPED s2
      | (s2, None) \<Rightarrow> s2)"

definition shutdown :: "'r env \<Rightarrow> 'r flusher \<Rightarrow> signal list \<Rightarrow> 'r chat \<Rightarrow> ('r chat \<times> answer list) option" where
  "shutdown E fl sigs s =
     (if c_terminal s then Some (s, [])
      else
        (case stop_runner E (s\<lparr>c_stopping := True\<rparr>) of
           (s1, False) \<Rightarrow> Some (s1, [])
         | (s1, True) \<Rightarrow>
             (case drain E fl sigs (stop_parked E s1) of
                None \<Rightarrow> None
              | Some (s2, acks, False) \<Rightarrow> Some (s2, acks)
              | Some (s2, acks, True) \<Rightarrow>
                  (case close_stopped_turn E (s2\<lparr>c_runner_epoch := None\<rparr>) of
                     (s3, False) \<Rightarrow> Some (s3, acks)
                   | (s3, True) \<Rightarrow> Some (say_stopped E s3, acks)))))"

text \<open>
  One wake handled, up to and including the hand-over of what was recorded: the answers given,
  in order, each after the state it speaks of was published.
\<close>

definition launch_result :: "'r chat \<Rightarrow> unit res" where
  "launch_result s = (if c_terminal s then Inl ''session persistence failed during provider launch'' else Inr ())"

definition handle_send :: "'r env \<Rightarrow> 'r flusher \<Rightarrow> string \<Rightarrow> nat \<Rightarrow> 'r chat \<Rightarrow> ('r chat \<times> answer list) option" where
  "handle_send E fl text k s =
     (case enqueue E text s of
        (s1, r) \<Rightarrow>
          let s2 = publish s1 in
          if (case r of Inr _ \<Rightarrow> True | Inl _ \<Rightarrow> False) \<and> \<not> c_terminal s2
          then map_option (\<lambda>s3. (publish s3, [(k, r)])) (dispatch_queued E fl s2)
          else Some (s2, [(k, r)]))"

definition handle :: "'r env \<Rightarrow> 'r flusher \<Rightarrow> wake \<Rightarrow> 'r chat \<Rightarrow> ('r chat \<times> answer list) option" where
  "handle E fl wk s =
     (let quietly = map_option (\<lambda>s1. (publish s1, [])) in
      case wk of
        Launch \<Rightarrow> quietly (launch_once E fl s)
      | LaunchReady k \<Rightarrow> map_option (\<lambda>s1. (publish s1, [(k, launch_result s1)])) (launch_once E fl s)
      | Send text \<Rightarrow> quietly (dispatch E fl text s)
      | SendDurable text k \<Rightarrow> handle_send E fl text k s
      | Heard e \<Rightarrow> quietly (absorb E fl e s)
      | SetChange ch \<Rightarrow> Some (publish (fst (apply_change E ch s)), [])
      | Configure chs k \<Rightarrow> (case apply_all E chs s of (s1, r) \<Rightarrow> Some (publish s1, [(k, r)]))
      | Stop \<Rightarrow> Some (s, []))"

definition overdue :: "'r chat \<Rightarrow> bool" where
  "overdue s =
     (case c_compaction_deadline s of
        None \<Rightarrow> True
      | Some d \<Rightarrow> d \<le> monotonic (c_world s) (ticks s))"

text \<open>The timer that runs while a provider compacts: when it is up, the handoff starts instead.\<close>

definition expire :: "'r env \<Rightarrow> 'r flusher \<Rightarrow> 'r chat \<Rightarrow> 'r chat option" where
  "expire E fl s = (if in_stage Compacting (c_recovery s) then map_option publish (start_handoff E fl s) else Some s)"

definition lost_text :: string where
  "lost_text = ''session persistence failed''"

fun run_loop :: "'r env \<Rightarrow> nat \<Rightarrow> signal list \<Rightarrow> 'r chat \<Rightarrow> ('r chat \<times> answer list) option" where
  "run_loop E n [] s = Some (s, [])"
| "run_loop E n (Deadline # xs) s =
     (case expire E (flush E n) s of
        None \<Rightarrow> None
      | Some s1 \<Rightarrow> if c_terminal s1 then Some (s1, reject_waiters lost_text xs) else run_loop E n xs s1)"
| "run_loop E n (Woke wk # xs) s =
     (case (if overdue s then expire E (flush E n) s else Some s) of
        None \<Rightarrow> None
      | Some s1 \<Rightarrow>
          if c_terminal s1 then Some (s1, reject_waiters lost_text (Woke wk # xs))
          else if wk = Stop then map_option (\<lambda>(s2, acks). (publish s2, acks)) (shutdown E (flush E n) xs s1)
          else
            (case handle E (flush E n) wk s1 of
               None \<Rightarrow> None
             | Some (s2, acks) \<Rightarrow>
                 if c_terminal s2 then Some (s2, acks @ reject_waiters lost_text xs)
                 else map_option (\<lambda>(s3, more). (s3, acks @ more)) (run_loop E n xs s2)))"

text \<open>The thread: what is queued already comes before its own launch, and that before what follows.\<close>

definition run :: "'r env \<Rightarrow> nat \<Rightarrow> signal list \<Rightarrow> signal list \<Rightarrow> 'r chat \<Rightarrow> ('r chat \<times> answer list) option" where
  "run E n queued later s =
     (case c_startup_error s of
        Some err \<Rightarrow>
          Some (publish (persistence_failed E ''opening durable session state'' err (s\<lparr>c_startup_error := None\<rparr>)),
                reject_waiters (''session persistence failed: '' @ err) (queued @ later))
      | None \<Rightarrow> run_loop E n (queued @ [Woke Launch] @ later) (set_status WAITING s))"

text \<open>What a client sees at once when it sends: the chat is busy before the message is even posted.\<close>

definition flip_busy :: "snapshot \<Rightarrow> snapshot" where
  "flip_busy st = (if sn_status st = WAITING \<or> sn_status st = BUSY then st\<lparr>sn_status := BUSY\<rparr> else st)"

end
