(* ===== verification/Chat_Steps.thy ===== *)
theory Chat_Steps
  imports Chat_Conductor
begin

text \<open>
  The second half of the argument begun in \<open>Chat_Order\<close>: a preorder that also respects the steps
  of the message queue and of recovery is respected by everything the conductor does, up to a
  whole run. The locale \<open>conductor_order\<close> extends \<open>runner_order\<close> with those steps.
\<close>

text \<open>
  A change of anything but the log, the metadata, the queues, what is to be published, recovery
  and the processes.
\<close>

definition calm :: "'r chat \<Rightarrow> 'r chat \<Rightarrow> bool" where
  "calm s t \<longleftrightarrow> c_session_id t = c_session_id s \<and> c_store t = c_store s \<and> c_meta t = c_meta s
     \<and> c_published t = c_published s \<and> c_outbox t = c_outbox s \<and> c_awaiting t = c_awaiting s
     \<and> c_pending t = c_pending s \<and> c_terminal t = c_terminal s \<and> c_recovery t = c_recovery s
     \<and> c_history_start t = c_history_start s \<and> c_world t = c_world s
     \<and> c_runner t = c_runner s \<and> c_current t = c_current s \<and> c_parked t = c_parked s
     \<and> set (c_providers t) \<subseteq> set (c_providers s)"

text \<open>The outcome of an operation that may run out of nested hand-overs: whether it may, and where it ends.\<close>

definition ends :: "bool \<Rightarrow> ('r chat \<Rightarrow> 'r chat \<Rightarrow> bool) \<Rightarrow> 'r chat \<Rightarrow> 'r chat option \<Rightarrow> bool" where
  "ends lax R s x \<longleftrightarrow> (case x of None \<Rightarrow> lax | Some t \<Rightarrow> R s t)"

text \<open>Every stage but a retry of text that is already in the log: that one is saved with its message.\<close>

definition plain_stage :: "recovery option \<Rightarrow> bool" where
  "plain_stage rec \<longleftrightarrow> (case rec of None \<Rightarrow> True | Some r \<Rightarrow> rc_stage r = Retrying \<longrightarrow> rc_retry r = [])"

text \<open>Commands that name no provider outside a set.\<close>

fun change_in :: "string set \<Rightarrow> change \<Rightarrow> bool" where
  "change_in A (Ch_Providers ps) \<longleftrightarrow> set ps \<subseteq> A"
| "change_in A _ \<longleftrightarrow> True"

fun signal_in :: "string set \<Rightarrow> signal \<Rightarrow> bool" where
  "signal_in A (Woke (SetChange ch)) \<longleftrightarrow> change_in A ch"
| "signal_in A (Woke (Configure chs k)) \<longleftrightarrow> list_all (change_in A) chs"
| "signal_in A _ \<longleftrightarrow> True"

lemma change_in_UNIV [simp]: "change_in UNIV ch"
  by (cases ch) simp_all

lemma signal_in_UNIV [simp]: "signal_in UNIV x"
  by (induction "UNIV :: string set" x rule: signal_in.induct) (simp_all add: list_all_iff)

locale conductor_order = step_order E R for E :: "'r env" and R :: "'r chat \<Rightarrow> 'r chat \<Rightarrow> bool" +
  fixes A :: "string set"
  assumes R_calm: "calm s t \<Longrightarrow> R s t"
    and R_providers: "set ps \<subseteq> A \<Longrightarrow> R s (s\<lparr>c_providers := ps, c_benched := {}\<rparr>)"
    and R_forget: "R s (s\<lparr>c_world := forget name (c_world s)\<rparr>)"
    and R_rung: "R s (fst (rung E s))"
    and R_rebuild: "R s (fst (rebuild E s))"
    and R_moved_on: "R s (fst (moved_on E name why s))"
    and R_put_down: "R s (put_down E s)"
    and R_stop_parked: "R s (stop_parked E s)"
    and R_drop: "R s (s\<lparr>c_runner := None\<rparr>)"
    and R_send: "c_runner s = Some r \<Longrightarrow> R s (s\<lparr>c_runner := Some (fst (rn_send (en_ops E) j tx r))\<rparr>)"
    and R_compact: "c_runner s = Some r \<Longrightarrow> R s (s\<lparr>c_runner := Some (fst (rn_compact (en_ops E) j r))\<rparr>)"
    and R_setting: "R s (fst (save_setting E k v action s))"
    and R_requeue: "R s (requeue_awaiting s)"
    and R_retry: "R s (fst (retry_unanswered E b s))"
    and R_save: "plain_stage rec \<Longrightarrow> R s (fst (save_recovery E rec since None s))"
    and R_push: "R s (fst (push_recovery E stage text fresh s))"
    and R_enqueue: "R s (fst (enqueue E text s))"
    and R_echo: "c_outbox s = m # ms \<Longrightarrow> R s (echo m s)"
    and R_deliver: "c_outbox s = m # ms \<Longrightarrow> R s (fst (deliver E d m was s))"
    and R_confirm: "R s (confirm E ev s)"
    and R_publish: "R s (publish s)"
begin

lemma after_flags:
  "R s t \<Longrightarrow> R s (t\<lparr>c_providers := filter P (c_providers t)\<rparr>)" "R s t \<Longrightarrow> R s (t\<lparr>c_benched := bs\<rparr>)" "R s t \<Longrightarrow> R s (t\<lparr>c_turn_failed := tf\<rparr>)"
  "R s t \<Longrightarrow> R s (t\<lparr>c_compaction_deadline := dl\<rparr>)" "R s t \<Longrightarrow> R s (t\<lparr>c_launched_once := lo\<rparr>)"
  "R s t \<Longrightarrow> R s (t\<lparr>c_unanswered := un\<rparr>)" "R s t \<Longrightarrow> R s (t\<lparr>c_next_turns := nt\<rparr>)" "R s t \<Longrightarrow> R s (t\<lparr>c_turn := tu\<rparr>)"
  "R s t \<Longrightarrow> R s (t\<lparr>c_turn_recorded := tr\<rparr>)" "R s t \<Longrightarrow> R s (t\<lparr>c_in_turn := it\<rparr>)" "R s t \<Longrightarrow> R s (t\<lparr>c_stopping := so\<rparr>)"
  "R s t \<Longrightarrow> R s (t\<lparr>c_startup_error := se\<rparr>)" "R s t \<Longrightarrow> R s (remember_message x l t)" "R s t \<Longrightarrow> R s (settle_idle t)"
  "R s t \<Longrightarrow> R s (note_late e t)" "R s t \<Longrightarrow> R s (note_stopping e t)"
  by (erule R_trans, rule R_calm,
      simp add: calm_def remember_message_def settle_idle_def set_status_def note_late_def note_stopping_def split: list.splits)+

lemma after_processes:
  "R s t \<Longrightarrow> R s (t\<lparr>c_world := forget name (c_world t)\<rparr>)" "R s t \<Longrightarrow> R s (fst (rung E t))"
  "R s t \<Longrightarrow> R s (fst (rebuild E t))" "R s t \<Longrightarrow> R s (fst (moved_on E name why t))" "R s t \<Longrightarrow> R s (put_down E t)"
  "R s t \<Longrightarrow> R s (stop_parked E t)" "R s t \<Longrightarrow> R s (t\<lparr>c_runner := None\<rparr>)"
  by (erule R_trans, rule R_forget R_rung R_rebuild R_moved_on R_put_down R_stop_parked R_drop)+

lemma after_stale: "R s t \<Longrightarrow> R s (fst (stale E t))"
  unfolding stale_def by (intro plain_steps after_processes after_pair | assumption)+

lemma after_queue:
  "R s t \<Longrightarrow> R s (fst (save_setting E k v action t))" "R s t \<Longrightarrow> R s (requeue_awaiting t)"
  "R s t \<Longrightarrow> R s (fst (retry_unanswered E b t))" "R s t \<Longrightarrow> R s (requeue_awaiting t)"
  "R s t \<Longrightarrow> R s (fst (push_recovery E stage text fresh t))" "R s t \<Longrightarrow> R s (fst (enqueue E text t))"
  "R s t \<Longrightarrow> R s (confirm E ev t)" "R s t \<Longrightarrow> R s (publish t)"
  by (erule R_trans, rule R_setting R_requeue R_retry R_push R_enqueue R_confirm R_publish)+

lemma after_save: "R s t \<Longrightarrow> plain_stage rec \<Longrightarrow> R s (fst (save_recovery E rec since None t))"
  using R_trans R_save by blast

lemma plain_stages [simp]: "plain_stage None"
  "plain_stage (Some \<lparr>rc_stage = st, rc_message_id = i, rc_retry = tx\<rparr>) \<longleftrightarrow> (st = Retrying \<longrightarrow> tx = [])"
  by (simp_all add: plain_stage_def)

lemma after_save_none: "R s t \<Longrightarrow> R s (fst (save_recovery E None since None t))"
  by (simp add: after_save)

lemma after_echo: "R s t \<Longrightarrow> c_outbox t = m # ms \<Longrightarrow> R s (echo m t)"
  "R s t \<Longrightarrow> c_outbox t = m # ms \<Longrightarrow> R s (fst (deliver E d m was t))"
  using R_trans R_echo R_deliver by blast+

lemmas moves = plain_steps after_flags after_queue after_save_none after_processes after_stale after_blocked

lemma after_anyone_left: "R s t \<Longrightarrow> R s (fst (anyone_left E t))"
  unfolding anyone_left_def by (intro moves | assumption)+

lemma after_sideline: "R s t \<Longrightarrow> R s (fst (sideline E name why t))"
  unfolding sideline_def by (intro moves after_anyone_left | assumption)+

lemma attempt_R: "R t (fst (attempt E why t))"
proof (induction t rule: measure_induct_rule[where f = "\<lambda>t. card (set (c_providers t) - c_benched t)"])
  case (less t)
  obtain s1 r1 where 1: "rebuild E t = (s1, r1)" by fastforce
  obtain s2 r2 where 2: "rung E s1 = (s2, r2)" by fastforce
  have R1: "R t s1" using R_rebuild[of t] 1 by simp
  have R2: "R t s2" using after_processes(2)[OF R1] 2 by simp
  have side: "R t (fst (case sideline E culprit why2 s3 of (s4, False) \<Rightarrow> (s4, False) | (s4, True) \<Rightarrow> attempt E why s4))"
    if 3: "record_event E e s2 = (s3, Some ev)" for culprit why2 e s3 ev
  proof -
    obtain s4 ok where 4: "sideline E culprit why2 s3 = (s4, ok)" by fastforce
    have "R t s3" using after_steps(1)[OF R2, of e] 3 by simp
    then have R4: "R t s4" using after_sideline[of t s3 culprit why2] 4 by simp
    show ?thesis
    proof (cases ok)
      case True
      have "R s4 (fst (attempt E why s4))"
        using 4 True by (intro less attempt_decreases[OF 1[symmetric] 2[symmetric] 3[symmetric], of s4 culprit why2]) simp
      then show ?thesis using 4 True R_trans[OF R4] by simp
    qed (use 4 R4 in simp)
  qed
  have rec: "R t (fst (case record_event E e s2 of (s3, None) \<Rightarrow> (s3, False)
      | (s3, Some _) \<Rightarrow> (case sideline E culprit why2 s3 of (s4, False) \<Rightarrow> (s4, False) | (s4, True) \<Rightarrow> attempt E why s4)))"
    for e culprit why2
  proof (cases "record_event E e s2")
    case (Pair s3 r3)
    moreover have "R t s3" using after_steps(1)[OF R2, of e] Pair by simp
    ultimately show ?thesis using side by (cases r3) simp_all
  qed
  show ?case
  proof (cases r1)
    case (Inr u)
    then show ?thesis using 1 R1 by (subst attempt.simps) simp
  next
    case (Inl err)
    show ?thesis using R1 rec after_blocked[OF R2]
      by (subst attempt.simps) (simp add: 1 2 Inl Let_def)
  qed
qed

lemma after_attempt: "R s t \<Longrightarrow> R s (fst (attempt E why t))"
  using R_trans attempt_R by blast

lemma after_close: "R s t \<Longrightarrow> R s (fst (close_turn E provider extra retry t))"
  unfolding close_turn_def Let_def by (intro moves | assumption)+

section \<open>Operations that may run out of nested hand-overs\<close>

lemma ends_Some: "R s t \<Longrightarrow> ends lax R s (Some t)"
  by (simp add: ends_def)

lemma ends_control:
  "(P \<Longrightarrow> ends lax R s a) \<Longrightarrow> (\<not> P \<Longrightarrow> ends lax R s b) \<Longrightarrow> ends lax R s (if P then a else b)"
  "R s (fst y) \<Longrightarrow> (\<And>t x. R s t \<Longrightarrow> ends lax R s (F t x)) \<Longrightarrow> ends lax R s (case y of (t, x) \<Rightarrow> F t x)"
  "ends lax R s a \<Longrightarrow> (\<And>x. ends lax R s (g x)) \<Longrightarrow> ends lax R s (case o1 of None \<Rightarrow> a | Some x \<Rightarrow> g x)"
  "(\<And>x. ends lax R s (h x)) \<Longrightarrow> (\<And>x. ends lax R s (g x)) \<Longrightarrow> ends lax R s (case o2 of Inl x \<Rightarrow> h x | Inr x \<Rightarrow> g x)"
  "ends lax R s a \<Longrightarrow> ends lax R s b \<Longrightarrow> ends lax R s (case c of True \<Rightarrow> a | False \<Rightarrow> b)"
  "ends lax R s a \<Longrightarrow> (\<And>x xs. ends lax R s (g2 x xs)) \<Longrightarrow> ends lax R s (case o3 of [] \<Rightarrow> a | x # xs \<Rightarrow> g2 x xs)"
  by (auto split: option.splits sum.splits bool.splits prod.splits list.splits)

lemma ends_pair: "(\<And>a b. ends lax R s (F a b)) \<Longrightarrow> ends lax R s (case z of (a, b) \<Rightarrow> F a b)"
  by (auto split: prod.splits)

lemma ends_map: "ends lax R s x \<Longrightarrow> (\<And>t. R s t \<Longrightarrow> R s (f t)) \<Longrightarrow> ends lax R s (map_option f x)"
  by (auto simp: ends_def split: option.splits)

end

text \<open>What a flusher has to promise, and that then every operation over it keeps the promise.\<close>

locale flush_order = conductor_order E R A
  for E :: "'r env" and R :: "'r chat \<Rightarrow> 'r chat \<Rightarrow> bool" and A :: "string set" +
  fixes fl :: "'r chat \<Rightarrow> 'r chat option"
    and lax :: bool
    and s :: "'r chat"
  assumes fl_R: "R s t \<Longrightarrow> ends lax R s (fl t)"
begin

lemmas walks = ends_Some ends_control fl_R moves after_anyone_left after_sideline after_attempt after_close

lemma walk_attempt_then: "R s t \<Longrightarrow> ends lax R s (attempt_then E fl why t)"
  unfolding attempt_then_def by (intro walks | assumption)+

lemma walk_dispatch_queued: "R s t \<Longrightarrow> ends lax R s (dispatch_queued E fl t)"
  unfolding dispatch_queued_def by (intro walks walk_attempt_then | assumption)+

lemma walk_next_work: "R s t \<Longrightarrow> ends lax R s (next_work E fl t)"
  unfolding next_work_def by (intro walks ends_map | assumption)+

lemma walk_finish_turn: "R s t \<Longrightarrow> ends lax R s (finish_turn E fl t)"
  unfolding finish_turn_def Let_def by (intro walks walk_next_work | assumption)+

lemma walk_failed: "R s t \<Longrightarrow> ends lax R s (failed E fl p k t)"
  unfolding failed_def Let_def by (intro walks walk_attempt_then | assumption)+

lemma walk_unauthenticated: "R s t \<Longrightarrow> ends lax R s (unauthenticated E fl e t)"
proof -
  assume t: "R s t"
  have upd: "R s (u\<lparr>c_providers := filter P (c_providers v), c_benched := bs, c_world := forget name (c_world u)\<rparr>)"
    if "R s u" "c_providers u = c_providers v" for u v P bs name
    using after_processes(1)[OF after_flags(2)[OF after_flags(1)[OF that(1), of P], of bs], of name] that(2) by simp
  have save: "ends lax R s (case save_setting E k v action u of (s2, Inl _) \<Rightarrow> Some s2 | (s2, Inr _) \<Rightarrow> G s2)"
    if "R s u" and "\<And>s2. R s s2 \<Longrightarrow> c_providers s2 = c_providers u \<Longrightarrow> ends lax R s (G s2)" for k v action u G
  proof (cases "save_setting E k v action u")
    case (Pair s2 r)
    have "R s s2" using after_queue(1)[OF that(1), of k v action] Pair by simp
    moreover have "c_providers s2 = c_providers u"
      using Pair by (auto simp: save_setting_def save_or_fail_def on_meta_def split: prod.splits sum.splits)
    ultimately show ?thesis using Pair that(2) by (auto intro: ends_Some split: sum.splits)
  qed
  show ?thesis unfolding unauthenticated_def Let_def
    by (insert t) ((assumption | rule save upd walks walk_attempt_then)+)
qed

lemma walk_send_recovery: "R s t \<Longrightarrow> ends lax R s (send_recovery E fl stage text fresh t)"
  unfolding send_recovery_def by (intro walks walk_dispatch_queued | assumption)+

lemma walk_recovery_message: "R s t \<Longrightarrow> ends lax R s (recovery_message E fl stage text fresh t)"
  unfolding recovery_message_def by (intro walks walk_send_recovery | assumption)+

lemma walk_start_handoff: "R s t \<Longrightarrow> ends lax R s (start_handoff E fl t)"
  unfolding start_handoff_def by (rule walk_recovery_message)

lemma after_recovery_failed: "R s t \<Longrightarrow> R s (recovery_failed E why t)"
proof -
  assume t: "R s t"
  obtain s1 ok1 where 1: "close_turn E (blamed E t []) [(''context_recovery_failed'', JBool True)] False t = (s1, ok1)" by fastforce
  obtain s2 ok2 where 2: "save_recovery E None None None s1 = (s2, ok2)" by fastforce
  have R1: "R s s1" using after_close[OF t] 1 by (metis fst_conv)
  have R2: "R s s2" using after_save_none[OF R1] 2 by (metis fst_conv)
  show ?thesis using R1 R2 after_views(10)[OF after_steps(1)[OF R2]]
    by (simp add: recovery_failed_def 1 2 Let_def split: bool.splits)
qed

lemma walk_finish_recovery: "R s t \<Longrightarrow> ends lax R s (finish_recovery E fl t)"
  unfolding finish_recovery_def by (intro walks walk_finish_turn | assumption)+

lemma walk_retry_queued:
  assumes "R s t" and "stage = Retrying \<Longrightarrow> retry = []"
  shows "ends lax R s (retry_queued E fl stage i retry t)"
proof -
  have "R s (fst (save_recovery E (Some \<lparr>rc_stage = stage, rc_message_id = i, rc_retry = retry\<rparr>) None None t))"
    using assms by (intro after_save) auto
  then show ?thesis unfolding retry_queued_def by (intro walks walk_dispatch_queued | assumption)+
qed

lemma walk_retry_plain: "R s t \<Longrightarrow> ends lax R s (retry_queued E fl Retrying i [] t)"
  "R s t \<Longrightarrow> ends lax R s (retry_queued E fl Resuming i retry t)"
  by (erule walk_retry_queued; simp)+

lemma walk_compaction_done: "R s t \<Longrightarrow> ends lax R s (compaction_done E fl rec t)"
  unfolding compaction_done_def
  by (intro walks walk_retry_plain walk_finish_turn walk_recovery_message | assumption)+

lemma walk_recovery_ended: "R s t \<Longrightarrow> ends lax R s (recovery_ended E fl e t)"
  unfolding recovery_ended_def Let_def
  by (intro walks walk_start_handoff walk_compaction_done walk_recovery_message walk_retry_plain walk_finish_recovery
      after_recovery_failed | assumption)+

lemma walk_recover_context: "R s t \<Longrightarrow> ends lax R s (recover_context E fl delivered t)"
proof -
  assume t: "R s t"
  let ?rec = "\<lparr>rc_stage = Compacting, rc_message_id = [], rc_retry = (if delivered then join [newline, newline] (turn_texts t) else [])\<rparr>"
  obtain s1 ok where 1: "save_recovery E (Some ?rec) None None t = (s1, ok)" by fastforce
  have R1: "R s s1" using after_save[OF t, of "Some ?rec" None] 1 by simp
  have R2: "R s (s1\<lparr>c_turn_failed := None\<rparr>)" by (rule after_flags(3)[OF R1])
  show ?thesis
  proof (cases ok)
    case False
    then show ?thesis using 1 R1 by (simp add: recover_context_def ends_Some)
  next
    case True
    show ?thesis
    proof (cases "c_runner s1")
      case None
      then show ?thesis using 1 True walk_start_handoff[OF R2] by (simp add: recover_context_def)
    next
      case (Some r)
      obtain r' answer where c: "rn_compact (en_ops E) (ticks s1) r = (r', answer)" by fastforce
      have tk: "ticks (s1\<lparr>c_turn_failed := None\<rparr>) = ticks s1" by (simp add: ticks_def)
      have "R s (s1\<lparr>c_turn_failed := None, c_runner := Some r'\<rparr>)"
        using R_trans[OF R2 R_compact[of "s1\<lparr>c_turn_failed := None\<rparr>" r "ticks s1"]] Some c by simp
      then show ?thesis using 1 True Some c
        by (auto simp: recover_context_def tk Let_def intro!: ends_Some moves walk_start_handoff)
    qed
  qed
qed

lemma walk_send_refused: "R s t \<Longrightarrow> ends lax R s (send_refused E fl why t)"
  unfolding send_refused_def Let_def
  by (intro walks walk_recovery_ended walk_recover_context walk_unauthenticated walk_failed after_recovery_failed | assumption)+

lemma walk_send_queued:
  assumes "R s t"
  shows "ends lax R s (send_queued E fl t)"
  using assms
proof (induction t rule: measure_induct_rule[where f = "\<lambda>t. length (c_outbox t)"])
  case (less t)
  show ?case
  proof (cases "c_outbox t")
    case Nil
    then show ?thesis using less.prems by (subst send_queued.simps) (simp add: ends_Some)
  next
    case (Cons m ms)
    show ?thesis
    proof (cases "held_back t m \<or> c_runner t = None")
      case True
      then show ?thesis using less.prems by (subst send_queued.simps) (auto simp: Cons intro: ends_Some)
    next
      case False
      then obtain r where run: "c_runner t = Some r" by auto
      obtain r' x where snd: "rn_send (en_ops E) (ticks t) (pm_text m) r = (r', x)" by fastforce
      let ?t = "t\<lparr>c_runner := Some r'\<rparr>"
      have r: "R s ?t" using R_trans[OF less.prems R_send[OF run, of "ticks t" "pm_text m"]] snd by simp
      have e: "ends lax R s (send_queued E fl (echo m ?t))"
        using Cons by (intro less.IH after_echo(1)[OF r]) (auto simp: echo_def set_status_def)
      have d: "ends lax R s (case deliver E d m b ?t of (s2, False) \<Rightarrow> Some s2 | (s2, True) \<Rightarrow> send_queued E fl s2)" for d b
      proof (cases "deliver E d m b ?t")
        case (Pair s2 ok)
        have "R s (fst (deliver E d m b ?t))" using Cons by (intro after_echo(2)[OF r]) simp
        then have "R s s2" using Pair by simp
        then show ?thesis using Pair Cons deliver_True_outbox[of E d m b ?t s2]
          by (auto intro: less.IH ends_Some split: bool.splits)
      qed
      show ?thesis using False e d walk_send_refused[OF r]
        by (subst send_queued.simps) (auto simp: Cons run snd intro: ends_Some split: sum.splits)
    qed
  qed
qed

lemma walk_flush_with: "R s t \<Longrightarrow> ends lax R s (flush_with E fl t)"
proof -
  assume t: "R s t"
  have stuck: "R s (if P then blocked E why u else u)" if "R s u" for P why u
    using that after_blocked by simp
  show ?thesis unfolding flush_with_def Let_def using t by (intro walks walk_send_queued stuck | assumption)+
qed

section \<open>Reactions\<close>

lemma walk_react_error: "R s t \<Longrightarrow> ends lax R s (react_error E fl e t)"
  unfolding react_error_def Let_def
  by (intro walks walk_start_handoff walk_unauthenticated walk_failed after_recovery_failed | assumption)+

lemma walk_react_end: "R s t \<Longrightarrow> ends lax R s (react_end E fl e t)"
  unfolding react_end_def Let_def
  by (intro walks walk_recovery_ended walk_finish_turn walk_recover_context walk_failed | assumption)+

lemma walk_react: "R s t \<Longrightarrow> ends lax R s (react E fl e t)"
  unfolding react_def by (intro walks walk_react_end walk_react_error | assumption)+

lemma after_repeated: "R s t \<Longrightarrow> R s (fst (repeated E e t))"
  unfolding repeated_def by (intro moves | assumption)+

lemma walk_absorb: "R s t \<Longrightarrow> ends lax R s (absorb E fl e t)"
proof -
  assume t: "R s t"
  have c: "R s (if late then u else confirm E e2 u)" if "R s u" for late e2 u
    using that after_queue(7) by simp
  show ?thesis unfolding absorb_def using t by (intro walks after_repeated walk_react c ends_pair | simp only: Let_def | assumption)+
qed

lemma walk_resume_recovery: "R s t \<Longrightarrow> ends lax R s (resume_recovery E fl t)"
  unfolding resume_recovery_def Let_def
  by (intro walks walk_start_handoff walk_recovery_ended walk_attempt_then | assumption)+

lemma walk_launch_once: "R s t \<Longrightarrow> ends lax R s (launch_once E fl t)"
  unfolding launch_once_def Let_def by (intro walks walk_resume_recovery | assumption)+

lemma walk_dispatch: "R s t \<Longrightarrow> ends lax R s (dispatch E fl text t)"
  unfolding dispatch_def by (intro walks walk_dispatch_queued | assumption)+

lemma after_apply: "R s t \<Longrightarrow> change_in A ch \<Longrightarrow> R s (fst (apply_change E ch t))"
proof -
  assume t: "R s t" and ch: "change_in A ch"
  have u: "R s (pl_update (plan_of E t ch) v)" if "R s v" for v
  proof (cases ch)
    case (Ch_Providers ps)
    then show ?thesis using R_trans[OF that R_providers[of ps]] ch by simp
  qed (rule R_trans[OF that], rule R_calm, simp add: calm_def Let_def)+
  show ?thesis unfolding apply_change_def Let_def using t by (intro moves u | assumption)+
qed

lemma after_apply_all: "R s t \<Longrightarrow> list_all (change_in A) chs \<Longrightarrow> R s (fst (apply_all E chs t))"
proof (induction chs arbitrary: t)
  case (Cons c cs)
  then show ?case using after_apply[OF Cons.prems(1), of c] by (auto split: prod.splits sum.splits)
qed (simp add: apply_all.simps)

definition finish :: "('r chat \<times> 'x) option \<Rightarrow> bool" where
  "finish x \<longleftrightarrow> (case x of None \<Rightarrow> lax | Some y \<Rightarrow> R s (fst y))"

lemma finishI: "ends lax R s x \<Longrightarrow> (\<And>t. R s t \<Longrightarrow> R s (fst (f t))) \<Longrightarrow> finish (map_option f x)"
  by (auto simp: finish_def ends_def split: option.splits)

lemma finish_Some: "R s (fst y) \<Longrightarrow> finish (Some y)"
  by (simp add: finish_def)

lemma walk_drain: "R s t \<Longrightarrow> finish (drain E fl xs t)"
proof (induction xs arbitrary: t)
  case (Cons x xs)
  have a: "finish (case absorb E fl e t of None \<Rightarrow> None
      | Some s1 \<Rightarrow> if c_terminal s1 then Some (s1, [], False) else drain E fl xs s1)" for e
    using walk_absorb[OF Cons.prems, of e] Cons.IH unfolding finish_def by (cases "absorb E fl e t") (simp_all add: ends_def)
  have d: "finish (drain E fl xs t)" by (rule Cons.IH[OF Cons.prems])
  have w: "finish (case (drain E fl xs t, wt) of
      (Some (s1, acks, ok), Some k) \<Rightarrow> Some (s1, f k # acks, ok) | (r, _) \<Rightarrow> r)" for wt :: "nat option" and f
    using d by (auto simp: finish_def ends_def split: option.splits prod.splits)
  show ?case using a d w by (cases x; simp split: wake.splits)
qed (simp add: finish_def ends_def)

lemma after_stop_runner: "R s t \<Longrightarrow> R s (fst (stop_runner E t))"
  unfolding stop_runner_def Let_def by (intro moves | assumption)+

lemma after_say_stopped: "R s t \<Longrightarrow> R s (say_stopped E t)"
proof -
  assume "R s t"
  then have "R s (requeue_awaiting (t\<lparr>c_in_turn := False, c_turn_recorded := False, c_next_turns := 0\<rparr>))"
    by (intro moves)
  from after_steps(1)[OF this] after_views(9) show ?thesis
    by (auto simp: say_stopped_def Let_def split: prod.splits option.splits) (metis fst_conv)+
qed

lemma after_close_stopped: "R s t \<Longrightarrow> R s (fst (close_stopped_turn E t))"
  unfolding close_stopped_turn_def by (intro moves | assumption)+

lemma walk_shutdown: "R s t \<Longrightarrow> finish (shutdown E fl xs t)"
proof -
  assume t: "R s t"
  obtain s1 ok1 where 1: "stop_runner E (t\<lparr>c_stopping := True\<rparr>) = (s1, ok1)" by fastforce
  have R1: "R s s1" using after_stop_runner[OF after_flags(11)[OF t]] 1 by (metis fst_conv)
  have d: "finish (drain E fl xs (stop_parked E s1))" by (rule walk_drain[OF after_processes(6)[OF R1]])
  have c: "R s (fst (close_stopped_turn E (s2\<lparr>c_runner_epoch := None\<rparr>)))" if "R s s2" for s2
    by (rule after_close_stopped[OF after_views(1)[OF that]])
  show ?thesis
  proof (cases "drain E fl xs (stop_parked E s1)")
    case None
    then show ?thesis using t 1 R1 d unfolding finish_def by (simp add: shutdown_def split: bool.splits)
  next
    case (Some y)
    obtain s2 acks ok2 where y: "y = (s2, acks, ok2)" by (cases y) auto
    obtain s3 ok3 where 3: "close_stopped_turn E (s2\<lparr>c_runner_epoch := None\<rparr>) = (s3, ok3)" by fastforce
    have R2: "R s s2" using d Some y by (simp add: finish_def ends_def)
    have R3: "R s s3" using c[OF R2] 3 by simp
    show ?thesis using t R1 R2 R3 after_say_stopped[OF R3]
      by (simp add: shutdown_def finish_def ends_def 1 Some y 3 split: bool.splits)
  qed
qed

lemma walk_handle_send: "R s t \<Longrightarrow> finish (handle_send E fl text k t)"
proof -
  assume t: "R s t"
  obtain s1 r where 1: "enqueue E text t = (s1, r)" by fastforce
  have R2: "R s (publish s1)" using after_queue(8)[OF after_queue(6)[OF t, of "text"]] 1 by simp
  show ?thesis using R2 walk_dispatch_queued[OF R2] after_queue(8)
    by (auto simp: handle_send_def 1 Let_def finish_def ends_def split: option.splits sum.splits)
qed

lemma walk_handle: "R s t \<Longrightarrow> signal_in A (Woke wk) \<Longrightarrow> finish (handle E fl wk t)"
proof -
  assume t: "R s t" and wk: "signal_in A (Woke wk)"
  note pub = after_queue(8)
  have q: "ends lax R s x \<Longrightarrow> finish (map_option (\<lambda>s1. (publish s1, g s1)) x)" for x and g :: "'r chat \<Rightarrow> answer list"
    by (rule finishI) (simp_all add: pub)
  have c: "finish (case apply_all E chs t of (s1, r) \<Rightarrow> Some (publish s1, [(k, r)]))" if "list_all (change_in A) chs" for chs k
    using pub[OF after_apply_all[OF t that]] by (auto intro!: finish_Some split: prod.splits)
  show ?thesis
    using q[OF walk_launch_once[OF t]] q[OF walk_dispatch[OF t]] q[OF walk_absorb[OF t]] walk_handle_send[OF t]
      pub[OF after_apply[OF t]] c t wk
    by (cases wk) (simp_all add: handle_def Let_def finish_Some)
qed

lemma walk_expire: "R s t \<Longrightarrow> ends lax R s (expire E fl t)"
  unfolding expire_def by (intro walks ends_map walk_start_handoff | assumption)+

end

section \<open>The loop as a whole\<close>

context conductor_order
begin

lemma flush_order_flush: "flush_order E R A (flush E n) True s"
proof (induction n)
  case 0
  show ?case by unfold_locales (simp add: ends_def)
next
  case (Suc n)
  then have "R s t \<Longrightarrow> ends True R s (flush_with E (flush E n) t)" for t
    by (rule flush_order.walk_flush_with)
  then show ?case by unfold_locales simp
qed

lemma run_loop_ends:
  assumes "flush_order E R A (flush E n) lax s"
  shows "list_all (signal_in A) sigs \<Longrightarrow> R s t \<Longrightarrow> case run_loop E n sigs t of None \<Rightarrow> lax | Some y \<Rightarrow> R s (fst y)"
proof (induction sigs arbitrary: t)
  case (Cons x xs)
  note ex = flush_order.walk_expire[OF assms Cons.prems(2)]
  show ?case
  proof (cases x)
    case Deadline
    show ?thesis
    proof (cases "expire E (flush E n) t")
      case (Some s1)
      then show ?thesis using ex Cons.IH[of s1] Cons.prems(1) Deadline by (simp add: ends_def)
    qed (use ex Deadline in \<open>simp add: ends_def\<close>)
  next
    case (Woke wk)
    show ?thesis
    proof (cases "if overdue t then expire E (flush E n) t else Some t")
      case None
      then show ?thesis using ex Woke by (auto simp: ends_def split: if_splits)
    next
      case (Some s1)
      have R1: "R s s1" using Some ex Cons.prems(2) by (auto simp: ends_def split: if_splits)
      have h: "flush_order.finish R lax s (handle E (flush E n) wk s1)"
        using Cons.prems(1) Woke by (intro flush_order.walk_handle[OF assms R1]) simp
      show ?thesis
      proof (cases "c_terminal s1 \<or> wk = Stop")
        case True
        then show ?thesis using Woke Some R1 flush_order.walk_shutdown[OF assms R1, of xs] after_queue(8)
          by (auto simp: flush_order.finish_def[OF assms] split: option.splits)
      next
        case False
        show ?thesis
        proof (cases "handle E (flush E n) wk s1")
          case None
          then show ?thesis using Woke Some False h by (simp add: flush_order.finish_def[OF assms])
        next
          case (Some y)
          obtain s2 acks where y: "y = (s2, acks)" by fastforce
          have R2: "R s s2" using h Some y by (simp add: flush_order.finish_def[OF assms])
          have "case run_loop E n xs s2 of None \<Rightarrow> lax | Some y \<Rightarrow> R s (fst y)"
            using Cons.prems(1) by (intro Cons.IH[OF _ R2]) simp
          then show ?thesis using Woke \<open>(if overdue t then expire E (flush E n) t else Some t) = Some s1\<close> False Some y R2
            by (cases "run_loop E n xs s2") auto
        qed
      qed
    qed
  qed
qed simp

lemma run_ends:
  assumes "flush_order E R A (flush E n) lax s" and "list_all (signal_in A) (queued @ later)"
  shows "case run E n queued later s of None \<Rightarrow> lax | Some y \<Rightarrow> R s (fst y)"
proof -
  have "R s (publish (persistence_failed E a e (s\<lparr>c_startup_error := None\<rparr>)))" for a e by (intro moves)
  moreover have "R s (set_status WAITING s)" by (intro moves)
  ultimately show ?thesis using run_loop_ends[OF assms(1), of "queued @ [Woke Launch] @ later" "set_status WAITING s"] assms(2)
    by (auto simp: run_def split: option.splits)
qed

lemma run_loop_R:
  "run_loop E n sigs s = Some (u, acks) \<Longrightarrow> list_all (signal_in A) sigs \<Longrightarrow> R s u"
  using run_loop_ends[OF flush_order_flush[of n s] _ R_refl, of sigs] by simp

lemma run_R: "run E n queued later s = Some (u, acks) \<Longrightarrow> list_all (signal_in A) (queued @ later) \<Longrightarrow> R s u"
  using run_ends[OF flush_order_flush[of n s], of queued later] by simp

end

end
