(* ===== verification/Chat_Log.thy ===== *)
theory Chat_Log
  imports Chat_Steps
begin

text \<open>
  What listeners hear. The first interpretation of \<open>conductor_order\<close>: whatever the conductor does,
  its log only grows, it stays without gaps, and what was handed on or is about to be is the log
  and nothing else, apart from one notice when storage is lost.
\<close>

definition log_of :: "'r chat \<Rightarrow> event list" where
  "log_of s = st_events (c_store s)"

definition out :: "'r chat \<Rightarrow> event list" where
  "out s = c_published s @ c_pending s"

definition has_place :: "event \<Rightarrow> bool" where
  "has_place e \<longleftrightarrow> 0 \<le> ev_seq e"

definition notices :: "'r chat \<Rightarrow> nat" where
  "notices s = length (filter (\<lambda>e. \<not> has_place e) (out s))"

definition hears :: "'r chat \<Rightarrow> 'r chat \<Rightarrow> bool" where
  "hears s t \<longleftrightarrow> (gapless (log_of s) \<longrightarrow> gapless (log_of t)
     \<and> (\<exists>new. log_of t = log_of s @ new \<and> filter has_place (out t) = filter has_place (out s) @ new)
     \<and> prefix (out s) (out t) \<and> (c_terminal s \<longrightarrow> c_terminal t)
     \<and> notices t = notices s + (if c_terminal t \<and> \<not> c_terminal s then 1 else 0))"

lemma hears_same:
  "log_of t = log_of s \<Longrightarrow> out t = out s \<Longrightarrow> c_terminal t = c_terminal s \<Longrightarrow> hears s t"
  by (simp add: hears_def notices_def)

lemma hearsE:
  assumes "hears s t" and "gapless (log_of s)"
  obtains new where "gapless (log_of t)" and "log_of t = log_of s @ new" and "filter has_place (out t) = filter has_place (out s) @ new"
    and "prefix (out s) (out t)" and "c_terminal s \<longrightarrow> c_terminal t"
    and "notices t = notices s + (if c_terminal t \<and> \<not> c_terminal s then 1 else 0)"
  using assms(1)[unfolded hears_def, THEN mp, OF assms(2)] by (elim conjE exE) (rule that)

lemma hears_trans:
  assumes "hears s t" and "hears t u"
  shows "hears s u"
proof (cases "gapless (log_of s)")
  case True
  from assms(1) True obtain n1 where g: "gapless (log_of t)" and 1: "log_of t = log_of s @ n1"
    "filter has_place (out t) = filter has_place (out s) @ n1"
    and p1: "prefix (out s) (out t)" and t1: "c_terminal s \<longrightarrow> c_terminal t"
    and c1: "notices t = notices s + (if c_terminal t \<and> \<not> c_terminal s then 1 else 0)" by (rule hearsE)
  from assms(2) g obtain n2 where gu: "gapless (log_of u)" and 2: "log_of u = log_of t @ n2"
    "filter has_place (out u) = filter has_place (out t) @ n2"
    and p2: "prefix (out t) (out u)" and t2: "c_terminal t \<longrightarrow> c_terminal u"
    and c2: "notices u = notices t + (if c_terminal u \<and> \<not> c_terminal t then 1 else 0)" by (rule hearsE)
  have new: "\<exists>new. log_of u = log_of s @ new \<and> filter has_place (out u) = filter has_place (out s) @ new"
    using 1 2 by (intro exI[of _ "n1 @ n2"]) simp
  have cnt: "notices u = notices s + (if c_terminal u \<and> \<not> c_terminal s then 1 else 0)"
    using t1 t2 by (cases "c_terminal s"; cases "c_terminal t") (simp_all add: c1 c2)
  show ?thesis unfolding hears_def
    by (intro impI conjI gu new cnt prefix_order.trans[OF p1 p2]) (use t1 t2 in blast)
qed (simp add: hears_def)

lemma out_notice: "\<not> has_place (failure_notice a e s)"
  by (simp add: has_place_def failure_notice_def failure_def about_def from_provider_def event_new_def split: option.splits)

lemma hears_fail: "hears s (persistence_failed E a e s)"
proof (cases "c_terminal s")
  case True
  then show ?thesis by (simp add: persistence_failed_def hears_same)
next
  case False
  then have "out (persistence_failed E a e s) = out s @ [failure_notice a e s]"
    by (simp add: out_def persistence_failed_def stop_parked_def Let_def)
  moreover have "log_of (persistence_failed E a e s) = log_of s" by (simp add: log_of_def)
  ultimately show ?thesis using False out_notice[of a e s] by (simp add: hears_def notices_def)
qed

lemma hears_record: "hears s (fst (record_event E e s))"
proof (cases "record_event E e s")
  case (Pair t r)
  show ?thesis
  proof (cases r)
    case None
    from Pair None obtain w' st' err where
      a: "store_append (en_codec E) (attributed E s e) (c_store s) (c_world s) = (w', st', Inl err)"
      and t: "t = persistence_failed E ''appending the session event log'' err (s\<lparr>c_store := st', c_world := w'\<rparr>)"
      by (metis record_event_None)
    have "hears s (s\<lparr>c_store := st', c_world := w'\<rparr>)"
      using store_append_Inl[OF a] by (intro hears_same) (simp_all add: log_of_def out_def)
    from hears_trans[OF this hears_fail] Pair t show ?thesis by simp
  next
    case (Some e')
    note ok = record_event_Some[OF Pair[unfolded Some]]
    note app = store_append_Inr[OF ok(1)]
    have l: "log_of t = log_of s @ [e']" using app by (simp add: log_of_def)
    have o: "out t = out s @ [e']" "c_terminal t = c_terminal s" by (subst ok(2), simp add: out_def)+
    have g: "gapless (log_of s) \<Longrightarrow> gapless (log_of s @ [e'])"
      using app gapless_stamped[of "c_store s"] by (simp add: log_of_def)
    then have "gapless (log_of s) \<Longrightarrow> has_place e'" by (auto simp: gapless_snoc has_place_def)
    with l o g show ?thesis by (auto simp: Pair hears_def notices_def)
  qed
qed

lemma hears_meta: "hears s (fst (on_meta f s))"
  by (rule hears_same) (auto simp: on_meta_def log_of_def out_def split: prod.splits)

interpretation hears_run: runner_order E hears for E
proof unfold_locales
  show run: "hears s t" if "run_only s t" for s t :: "'a chat"
    by (rule hears_same) (simp_all add: log_of_def out_def run_onlyE[OF that])
  show "hears s t" if "view_only s t" for s t :: "'a chat" using that run by (simp add: view_only_def)
  show "hears s u" if "hears s t" "hears t u" for s t u :: "'a chat" using that by (rule hears_trans)
  show "hears s (s\<lparr>c_world := w'\<rparr>)" for s :: "'a chat" and w' by (rule hears_same) (simp_all add: log_of_def out_def)
qed (simp_all add: hears_fail hears_record hears_meta hears_same)

lemma hears_save: "hears s t \<Longrightarrow> hears s (fst (save_or_fail E a f t))"
  unfolding save_or_fail_def by (intro hears_run.steps hears_trans[OF _ hears_meta] | assumption)+

text \<open>A step of the queue: the log and what is published are untouched.\<close>

lemma hears_then: "hears s t \<Longrightarrow> log_of u = log_of t \<Longrightarrow> out u = out t \<Longrightarrow> c_terminal u = c_terminal t \<Longrightarrow> hears s u"
  using hears_trans hears_same by blast

lemma hears_queue:
  "hears s t \<Longrightarrow> hears s (t\<lparr>c_outbox := x\<rparr>)" "hears s t \<Longrightarrow> hears s (t\<lparr>c_awaiting := x\<rparr>)"
  "hears s t \<Longrightarrow> hears s (t\<lparr>c_turn := n\<rparr>)" "hears s t \<Longrightarrow> hears s (t\<lparr>c_next_turns := k\<rparr>)"
  "hears s t \<Longrightarrow> hears s (t\<lparr>c_in_turn := b\<rparr>)" "hears s t \<Longrightarrow> hears s (t\<lparr>c_turn_recorded := b\<rparr>)"
  "hears s t \<Longrightarrow> hears s (t\<lparr>c_recovery := rc\<rparr>)" "hears s t \<Longrightarrow> hears s (t\<lparr>c_compaction_deadline := dl\<rparr>)"
  "hears s t \<Longrightarrow> hears s (t\<lparr>c_history_start := n\<rparr>)" "hears s t \<Longrightarrow> hears s (remember_message tx l t)"
  "hears s t \<Longrightarrow> hears s (t\<lparr>c_world := w\<rparr>)" "hears s t \<Longrightarrow> hears s (publish t)" "hears s t \<Longrightarrow> hears s (requeue_awaiting t)"
  by (erule hears_then; simp add: log_of_def out_def remember_message_def publish_def requeue_awaiting_def split: list.splits)+

lemmas hears_steps = hears_run.steps hears_save hears_queue

lemma hears_complete: "hears s t \<Longrightarrow> hears s (fst (complete_message E i t))"
  unfolding complete_message_def by (intro hears_steps | assumption)+

lemma hears_deliver: "hears s t \<Longrightarrow> hears s (fst (deliver E d m was t))"
  unfolding deliver_def Let_def by (intro hears_steps hears_complete | assumption)+

lemma hears_confirm: "hears s (confirm E e s)"
proof -
  have c: "hears s (case y of (s2, False) \<Rightarrow> s2 | (s2, True) \<Rightarrow> g s2)"
    if "hears s (fst y)" "\<And>u. hears s u \<Longrightarrow> hears s (g u)" for y g
    using that by (auto split: prod.splits bool.splits)
  have r: "hears s (case y of (s1, None) \<Rightarrow> s1 | (s1, Some ev) \<Rightarrow> g s1 ev)"
    if "hears s (fst y)" "\<And>u ev. hears s u \<Longrightarrow> hears s (g u ev)" for y and g :: "'a chat \<Rightarrow> event \<Rightarrow> 'a chat"
    using that by (auto split: prod.splits option.splits)
  show ?thesis unfolding confirm_def Let_def
    by (auto split: list.splits option.splits intro!: hears_run.R_refl r c hears_steps hears_complete)
qed

interpretation hears_all: conductor_order E hears UNIV for E
proof unfold_locales
  show "hears s t" if "calm s t" for s t :: "'a chat"
    using that by (intro hears_same) (simp_all add: calm_def log_of_def out_def)
  show "hears s (s\<lparr>c_providers := ps, c_benched := {}\<rparr>)" for ps and s :: "'a chat"
    by (rule hears_same) (simp_all add: log_of_def out_def)
  show "hears s (fst (save_setting E k v action s))" for k v action s
    unfolding save_setting_def by (intro hears_steps)
  show "hears s (fst (retry_unanswered E b s))" for b s
    unfolding retry_unanswered_def by (intro hears_steps | assumption)+
  show "hears s (fst (save_recovery E rec since None s))" for rec since and s :: "'a chat"
    unfolding save_recovery_def Let_def by (intro hears_steps | assumption)+
  show "hears s (fst (push_recovery E stage msg fresh s))" for stage msg fresh s
    unfolding push_recovery_def save_recovery_def Let_def by (auto simp: new_uuid_def intro!: hears_steps)
  show "hears s (fst (enqueue E msg s))" for msg s
    unfolding enqueue_def by (intro hears_steps | assumption)+
  show "hears s (echo m s)" for m s unfolding echo_def by (intro hears_steps)
  show "hears s (requeue_awaiting s)" "hears s (publish s)" for s by (intro hears_steps)+
  show "hears s (fst (rung E s))" "hears s (fst (rebuild E s))" "hears s (fst (moved_on E name why s))" for s name why
    by (intro hears_run.after_rung hears_run.after_rebuild hears_run.after_moved_on hears_run.R_refl)+
qed (intro hears_steps hears_deliver hears_confirm)+

section \<open>Properties\<close>

lemma open_out: "out (open_at E sid ps cwd w) = [] \<and> c_terminal (open_at E sid ps cwd w) = False
    \<and> gapless (log_of (open_at E sid ps cwd w))"
proof -
  have "gapless (st_events (snd (store_open (en_codec E) (en_home E) sid w)))"
    using load_events_gapless[OF gapless_Nil] by (auto simp: store_open_def Let_def split: prod.splits) (metis fst_conv)
  then show ?thesis by (auto simp: open_at_def opened_chat_def out_def log_of_def Let_def split: prod.splits)
qed

lemma publish_pending [simp]: "c_pending (publish s) = []"
  by (simp add: publish_def)

lemma handle_pending: "wk \<noteq> Stop \<Longrightarrow> handle E fl wk s = Some (t, acks) \<Longrightarrow> c_pending t = []"
  by (auto simp: handle_def handle_send_def Let_def split: wake.splits prod.splits if_splits)

lemma expire_pending: "expire E fl s = Some t \<Longrightarrow> c_pending s = [] \<Longrightarrow> c_pending t = []"
  by (auto simp: expire_def split: if_splits)

lemma run_loop_pending: "run_loop E n sigs s = Some (t, acks) \<Longrightarrow> c_pending s = [] \<Longrightarrow> c_pending t = []"
proof (induction sigs arbitrary: s acks)
  case (Cons x xs)
  show ?case
  proof (cases x)
    case Deadline
    then show ?thesis using Cons expire_pending by (fastforce split: option.splits if_splits)
  next
    case (Woke wk)
    obtain s1 where 1: "(if overdue s then expire E (flush E n) s else Some s) = Some s1"
      using Cons.prems(1) Woke by (auto split: option.splits)
    have p1: "c_pending s1 = []" using 1 Cons.prems(2) expire_pending by (auto split: if_splits)
    show ?thesis
    proof (cases "c_terminal s1 \<or> wk = Stop")
      case True
      then show ?thesis using Cons.prems(1) Woke 1 p1 by (auto split: if_splits)
    next
      case False
      then obtain s2 a2 where 2: "handle E (flush E n) wk s1 = Some (s2, a2)"
        using Cons.prems(1) Woke 1 by (auto split: option.splits)
      then show ?thesis using Cons.prems(1) Woke 1 False Cons.IH handle_pending[of wk E "flush E n" s1 s2 a2]
        by (auto split: if_splits)
    qed
  qed
qed simp

lemma run_pending: "run E n queued later s = Some (t, acks) \<Longrightarrow> c_pending s = [] \<Longrightarrow> c_pending t = []"
  by (auto simp: run_def set_status_def dest: run_loop_pending split: option.splits)

text \<open>
  C4: listeners hear the log. Whatever providers, clients and storage do, after any run of a
  session that was opened the log is what it was at the opening and then exactly the events that
  were published, in order, each once, with no gap in the positions; the only other thing ever
  published is one notice, without a position, when storage was lost.
\<close>

theorem run_publishes_log:
  assumes "run E n queued later (open_at E sid ps cwd w) = Some (t, acks)"
  shows "gapless (log_of t) \<and> log_of t = log_of (open_at E sid ps cwd w) @ filter has_place (c_published t)
    \<and> length (filter (\<lambda>e. \<not> has_place e) (c_published t)) = (if c_terminal t then 1 else 0)"
proof -
  let ?s = "open_at E sid ps cwd w"
  note o = open_out[of E sid ps cwd w]
  have "c_pending t = []" using run_pending[OF assms] o by (simp add: out_def)
  then have out: "out t = c_published t" by (simp add: out_def)
  have "hears ?s t" by (rule hears_all.run_R[OF assms]) (simp add: list_all_iff)
  with o have "gapless (log_of t)"
    and "\<exists>new. log_of t = log_of ?s @ new \<and> filter has_place (out t) = filter has_place (out ?s) @ new"
    and "notices t = notices ?s + (if c_terminal t \<and> \<not> c_terminal ?s then 1 else 0)" by (auto simp: hears_def)
  then show ?thesis using o out by (auto simp: notices_def)
qed

end
