(* ===== verification/Chat_Journal.thy ===== *)
theory Chat_Journal
  imports Chat_Log
begin

text \<open>
  No accepted message is lost. The second interpretation of \<open>conductor_order\<close>: the messages queued
  or awaiting an echo are the ones in the journal of the metadata, each once, and a message leaves
  the journal only when the log holds the event that opened it. The one exception is a retry the
  conductor wrote itself, whose text the log already holds. Identifiers are assumed not to repeat.
\<close>

definition drawn_id :: "world \<Rightarrow> string \<Rightarrow> bool" where
  "drawn_id w i \<longleftrightarrow> (\<exists>k < drawn w. uuid w k = i)"

definition journal :: "'r chat \<Rightarrow> pending_message list" where
  "journal s = meta_pending (c_meta s)"

text \<open>The retry a handoff may supersede.\<close>

definition retry_id :: "'r chat \<Rightarrow> string option" where
  "retry_id s = (case c_recovery s of
     Some r \<Rightarrow> if rc_stage r = Retrying \<and> rc_retry r \<noteq> [] then Some (rc_message_id r) else None | None \<Rightarrow> None)"

definition jinv :: "'r chat \<Rightarrow> bool" where
  "jinv s \<longleftrightarrow> inj (uuid (c_world s)) \<and> queue_wf (mt_data (c_meta s)) \<and> distinct (map pm_id (journal s))
     \<and> (\<forall>p \<in> set (journal s). drawn_id (c_world s) (pm_id p))
     \<and> mset (c_awaiting s @ c_outbox s) \<subseteq># mset (journal s)
     \<and> (\<not> c_terminal s \<longrightarrow> mset (c_awaiting s @ c_outbox s) = mset (journal s))
     \<and> (\<forall>i. retry_id s = Some i \<longrightarrow> drawn_id (c_world s) i)"

definition opened :: "string \<Rightarrow> string \<Rightarrow> event list \<Rightarrow> bool" where
  "opened i x evs \<longleftrightarrow> (\<exists>e \<in> set evs. ev_type e \<in> {START, INJECTED} \<and> get_str (ev_extra e) MESSAGE_ID = Some i \<and> ev_text e = x)"

definition tracked :: "string \<Rightarrow> string \<Rightarrow> 'r chat \<Rightarrow> bool" where
  "tracked i x s \<longleftrightarrow> drawn_id (c_world s) i \<and> retry_id s \<noteq> Some i
     \<and> (\<lparr>pm_id = i, pm_text = x\<rparr> \<in> set (journal s) \<or> opened i x (log_of s))"

definition keeps :: "string \<Rightarrow> string \<Rightarrow> 'r chat \<Rightarrow> 'r chat \<Rightarrow> bool" where
  "keeps i x s t \<longleftrightarrow> (jinv s \<longrightarrow> jinv t \<and> (tracked i x s \<longrightarrow> tracked i x t))"

section \<open>Steps that leave the journal alone\<close>

definition ids_later :: "world \<Rightarrow> world \<Rightarrow> bool" where
  "ids_later w w' \<longleftrightarrow> uuid w' = uuid w \<and> drawn w \<le> drawn w'"

lemma ids_later_outside: "same_outside w w' \<Longrightarrow> ids_later w w'"
  by (simp add: same_outside_def ids_later_def)

lemma drawn_later: "ids_later w w' \<Longrightarrow> drawn_id w i \<Longrightarrow> drawn_id w' i"
  by (auto simp: ids_later_def drawn_id_def intro: less_le_trans)

lemma opened_prefix: "prefix evs evs' \<Longrightarrow> opened i x evs \<Longrightarrow> opened i x evs'"
  by (auto simp: opened_def dest: set_mono_prefix)

lemma keeps_same:
  assumes "journal t = journal s" and "queue_wf (mt_data (c_meta t)) = queue_wf (mt_data (c_meta s))"
    and "mset (c_awaiting t @ c_outbox t) = mset (c_awaiting s @ c_outbox s)" and "c_terminal t = c_terminal s"
    and "retry_id t = retry_id s \<or> retry_id t = None" and "prefix (log_of s) (log_of t)" and "ids_later (c_world s) (c_world t)"
  shows "keeps i x s t"
  using assms drawn_later[OF assms(7)] opened_prefix[OF assms(6)]
  unfolding keeps_def jinv_def tracked_def by (auto simp: ids_later_def)

lemma keeps_trans: "keeps i x s t \<Longrightarrow> keeps i x t u \<Longrightarrow> keeps i x s u"
  by (simp add: keeps_def)

lemma retry_id_same: "c_recovery t = c_recovery s \<Longrightarrow> retry_id t = retry_id s"
  by (simp add: retry_id_def)

lemma keeps_fail: "keeps i x s (persistence_failed E a e s)"
proof (cases "c_terminal s")
  case True
  then show ?thesis by (simp add: persistence_failed_def keeps_def)
next
  case False
  have "retry_id (persistence_failed E a e s) = retry_id s" by (rule retry_id_same) simp
  moreover have "c_awaiting (persistence_failed E a e s) = []" "c_outbox (persistence_failed E a e s) = []"
    using False by (simp_all add: persistence_failed_def Let_def)
  ultimately show ?thesis
    unfolding keeps_def jinv_def tracked_def journal_def log_of_def by simp
qed

lemma keeps_record: "keeps i x s (fst (record_event E e s))"
proof (cases "record_event E e s")
  case (Pair t r)
  have out: "same_outside (c_world s) (fst (store_append (en_codec E) (attributed E s e) (c_store s) (c_world s)))"
    by (rule outside_rules)
  show ?thesis
  proof (cases r)
    case None
    from Pair None obtain w' st' err where
      a: "store_append (en_codec E) (attributed E s e) (c_store s) (c_world s) = (w', st', Inl err)"
      and t: "t = persistence_failed E ''appending the session event log'' err (s\<lparr>c_store := st', c_world := w'\<rparr>)"
      by (metis record_event_None)
    have "keeps i x s (s\<lparr>c_store := st', c_world := w'\<rparr>)"
      using store_append_Inl[OF a] out ids_later_outside
      by (intro keeps_same) (simp_all add: journal_def retry_id_def log_of_def a)
    from keeps_trans[OF this keeps_fail] Pair t show ?thesis by simp
  next
    case (Some e')
    note ok = record_event_Some[OF Pair[unfolded Some]]
    have f: "c_meta t = c_meta s" "c_awaiting t = c_awaiting s" "c_outbox t = c_outbox s" "c_terminal t = c_terminal s"
      "c_recovery t = c_recovery s" by (subst ok(2), simp)+
    show ?thesis using store_append_Inr[OF ok(1)] out ids_later_outside f
      by (intro keeps_same) (simp_all add: Pair journal_def retry_id_def log_of_def ok(1))
  qed
qed

lemma keeps_neutral:
  assumes "\<And>m w w' m' r. f m w = (w', m', r) \<Longrightarrow> meta_pending m' = meta_pending m \<and> queue_wf (mt_data m') = queue_wf (mt_data m)"
    and "\<And>m w. same_outside w (fst (f m w))"
  shows "keeps i x s (fst (on_meta f s))"
proof -
  obtain w' m' r where f: "f (c_meta s) (c_world s) = (w', m', r)" by (cases "f (c_meta s) (c_world s)") auto
  have "ids_later (c_world s) w'" using ids_later_outside[OF assms(2)[of "c_world s" "c_meta s"]] f by simp
  then show ?thesis using assms(1)[OF f]
    by (intro keeps_same) (simp_all add: on_meta_def f journal_def retry_id_def log_of_def)
qed

lemma keeps_neutral_ops:
  "keeps i x s (fst (on_meta (meta_bind J p n) s))" "keeps i x s (fst (on_meta (mark_synced J p k) s))"
  "keeps i x s (fst (on_meta (set_setting J key v) s))"
  by (rule keeps_neutral; (erule keeps_queue_ops | rule outside_rules))+

lemma keeps_run_only: "run_only s t \<Longrightarrow> keeps i x s t"
  by (rule keeps_same) (simp_all add: journal_def retry_id_def log_of_def run_onlyE ids_later_def)

interpretation keeps_run: runner_order E "keeps i x" for E i x
proof unfold_locales
  show "keeps i x s t" if "view_only s t" for s t :: "'a chat"
    using that by (auto simp: view_only_def intro: keeps_run_only)
  show "keeps i x s t" if "run_only s t" for s t :: "'a chat" using that by (rule keeps_run_only)
  show "keeps i x s u" if "keeps i x s t" "keeps i x t u" for s t u :: "'a chat" using that by (rule keeps_trans)
  show "keeps i x s (s\<lparr>c_world := w'\<rparr>)" if "same_outside (c_world s) w'" for s :: "'a chat" and w'
    using ids_later_outside[OF that] by (intro keeps_same) (simp_all add: journal_def retry_id_def log_of_def)
  show "keeps i x s s" for s :: "'a chat" by (simp add: keeps_def)
qed (simp_all add: keeps_fail keeps_record keeps_neutral_ops)

section \<open>Steps of the queue\<close>

lemma save_or_fail_Inr:
  assumes "save_or_fail E a f s = (t, Inr y)"
  shows "f (c_meta s) (c_world s) = (c_world t, c_meta t, Inr y)" and "t = s\<lparr>c_meta := c_meta t, c_world := c_world t\<rparr>"
  using assms by (auto simp: save_or_fail_def on_meta_def split: prod.splits sum.splits)

lemma keeps_save_Inl:
  assumes "save_or_fail E a f s = (t, Inl e)"
    and "\<And>w' m' e. f (c_meta s) (c_world s) = (w', m', Inl e) \<Longrightarrow> m' = c_meta s \<and> ids_later (c_world s) w'"
  shows "keeps i x s t"
proof -
  obtain w' m' err where f: "f (c_meta s) (c_world s) = (w', m', Inl err)"
    and t: "t = persistence_failed E a err (s\<lparr>c_meta := m', c_world := w'\<rparr>)"
    using assms(1) by (auto simp: save_or_fail_def on_meta_def split: prod.splits sum.splits)
  have "keeps i x s (s\<lparr>c_meta := m', c_world := w'\<rparr>)"
    using assms(2)[OF f] by (intro keeps_same) (simp_all add: journal_def retry_id_def log_of_def)
  then show ?thesis unfolding t by (rule keeps_trans[OF _ keeps_fail])
qed

lemma fresh_id: "inj (uuid w) \<Longrightarrow> \<not> drawn_id w (uuid w (drawn w))"
  by (auto simp: drawn_id_def dest: injD)

lemma ids_later_commit: "commit J ch m w = (w', m', r) \<Longrightarrow> ids_later w w'"
  using ids_later_outside[OF outside_commit[of w J ch m]] by simp

lemma ids_later_trans: "ids_later u v \<Longrightarrow> ids_later v w \<Longrightarrow> ids_later u w"
  by (simp add: ids_later_def)

lemma meta_enqueue_ids: "meta_enqueue J tx m w = (w', m', r) \<Longrightarrow> ids_later (w\<lparr>drawn := Suc (drawn w)\<rparr>) w'"
  by (auto simp: meta_enqueue_def new_uuid_def Let_def dest!: ids_later_commit split: prod.splits sum.splits)

lemma ids_later_draw: "ids_later (w\<lparr>drawn := Suc (drawn w)\<rparr>) w' \<Longrightarrow> ids_later w w'"
  by (simp add: ids_later_def)

text \<open>One or several new messages, in the journal and in the queue.\<close>

lemma jinv_new:
  assumes "jinv s" and "mset (journal t) = mset ms + mset (journal s)" and "queue_wf (mt_data (c_meta t))"
    and "mset (c_awaiting t @ c_outbox t) = mset ms + mset (c_awaiting s @ c_outbox s)" and "c_terminal t = c_terminal s"
    and "distinct (map pm_id ms)" and "\<forall>p \<in> set ms. drawn_id (c_world t) (pm_id p) \<and> \<not> drawn_id (c_world s) (pm_id p)"
    and "ids_later (c_world s) (c_world t)" and "\<forall>k. retry_id t = Some k \<longrightarrow> drawn_id (c_world t) k"
  shows "jinv t"
proof -
  have set: "set (journal t) = set ms \<union> set (journal s)" using arg_cong[OF assms(2), of set_mset] by simp
  have "mset (map pm_id (journal t)) = mset (map pm_id ms @ map pm_id (journal s))"
    using arg_cong[OF assms(2), of "image_mset pm_id"] by simp
  moreover have "distinct (map pm_id ms @ map pm_id (journal s))"
    using assms(1,6,7) by (auto simp: jinv_def)
  ultimately have "distinct (map pm_id (journal t))" using mset_eq_imp_distinct_iff by blast
  then show ?thesis using assms(1-5,7-9) drawn_later[OF assms(8)]
    by (auto simp: jinv_def set ids_later_def)
qed

lemma keeps_new:
  assumes "jinv s \<Longrightarrow> jinv t" and "set (journal s) \<subseteq> set (journal t)" and "ids_later (c_world s) (c_world t)"
    and "log_of t = log_of s" and "retry_id t = retry_id s"
  shows "keeps i x s t"
  using assms drawn_later[OF assms(3)] by (auto simp: keeps_def tracked_def)

lemma keeps_enqueue: "keeps i x s (fst (enqueue E tx s))"
proof (cases "save_or_fail E ''saving an accepted user message'' (meta_enqueue (en_codec E) tx) s")
  case (Pair t r)
  show ?thesis
  proof (cases r)
    case (Inl e)
    have "keeps i x s t"
      by (rule keeps_save_Inl[OF Pair[unfolded Inl]]) (auto dest: meta_op_Inl meta_enqueue_ids intro: ids_later_draw)
    then show ?thesis using Pair Inl by (simp add: enqueue_def)
  next
    case (Inr p)
    note ok = save_or_fail_Inr[OF Pair[unfolded Inr]]
    let ?u = "set_status BUSY (t\<lparr>c_outbox := c_outbox t @ [p]\<rparr>)"
    have f: "c_awaiting t = c_awaiting s" "c_outbox t = c_outbox s" "c_terminal t = c_terminal s" "c_recovery t = c_recovery s"
      "c_store t = c_store s" by (subst ok(2), simp)+
    note ids = meta_enqueue_ids[OF ok(1)]
    have "keeps i x s ?u"
    proof (cases "jinv s")
      case True
      then have wf: "queue_wf (mt_data (c_meta s))" by (simp add: jinv_def)
      note q = meta_enqueue_queue[OF ok(1) wf]
      have i: "pm_id p = uuid (c_world s) (drawn (c_world s))" using q by simp
      have "drawn_id (c_world t) (pm_id p)"
        unfolding drawn_id_def using ids by (intro exI[of _ "drawn (c_world s)"]) (simp add: ids_later_def i Suc_le_eq)
      moreover have "\<not> drawn_id (c_world s) (pm_id p)" using fresh_id True by (simp add: i jinv_def)
      ultimately have "jinv ?u" using True q f ids_later_draw[OF ids] drawn_later[OF ids_later_draw[OF ids]]
        by (intro jinv_new[OF True, of ?u "[p]"]) (auto simp: journal_def set_status_def retry_id_def jinv_def)
      then show ?thesis using q f ids_later_draw[OF ids]
        by (intro keeps_new) (auto simp: journal_def set_status_def retry_id_def log_of_def)
    qed (simp add: keeps_def)
    then show ?thesis using Pair Inr by (simp add: enqueue_def)
  qed
qed

lemma draw_messages_ids:
  "draw_messages ts w = (w', ms) \<Longrightarrow> inj (uuid w) \<Longrightarrow> ids_later w w' \<and> distinct (map pm_id ms)
     \<and> (\<forall>p \<in> set ms. drawn_id w' (pm_id p) \<and> \<not> drawn_id w (pm_id p))"
proof (induction ts arbitrary: w w' ms)
  case (Cons t ts)
  let ?w1 = "w\<lparr>drawn := Suc (drawn w)\<rparr>" and ?i = "uuid w (drawn w)"
  obtain w2 ms2 where d: "draw_messages ts ?w1 = (w2, ms2)" by fastforce
  then have r: "w' = w2" "ms = \<lparr>pm_id = ?i, pm_text = t\<rparr> # ms2"
    using Cons.prems(1) by (auto simp: new_uuid_def Let_def)
  have ih: "ids_later ?w1 w2" "distinct (map pm_id ms2)" "\<forall>p \<in> set ms2. drawn_id w2 (pm_id p) \<and> \<not> drawn_id ?w1 (pm_id p)"
    using Cons.IH[OF d] Cons.prems(2) by simp_all
  have i: "drawn_id ?w1 ?i" "\<not> drawn_id w ?i" using fresh_id[OF Cons.prems(2)] by (auto simp: drawn_id_def)
  have "ids_later w ?w1" by (simp add: ids_later_def)
  note up = drawn_later[OF this]
  show ?case using r ih i up drawn_later[OF ih(1)] ids_later_draw[OF ih(1)] by auto
qed (simp add: ids_later_def)

lemma meta_retry_ids: "meta_retry J ts m w = (w', m', r) \<Longrightarrow> ids_later (fst (draw_messages (concat ts) w)) w'"
  by (auto simp: meta_retry_def Let_def dest!: ids_later_commit split: prod.splits sum.splits)

lemma draw_later: "ids_later w (fst (draw_messages ts w))"
proof (induction ts arbitrary: w)
  case (Cons t ts)
  have "ids_later (w\<lparr>drawn := Suc (drawn w)\<rparr>) (fst (draw_messages ts (w\<lparr>drawn := Suc (drawn w)\<rparr>)))" by (rule Cons)
  then show ?case by (auto simp: new_uuid_def Let_def dest: ids_later_draw split: prod.splits)
qed (simp add: ids_later_def)

lemma keeps_retry: "keeps i x s (fst (retry_unanswered E b s))"
proof (cases "b \<and> c_unanswered s \<noteq> []")
  case False
  then have "retry_unanswered E b s = (s, True)" by (auto simp: retry_unanswered_def)
  then show ?thesis by (simp add: keeps_def)
next
  case True
  obtain t r where p: "save_or_fail E ''saving failed messages for retry'' (meta_retry (en_codec E) (c_unanswered s)) s = (t, r)"
    by fastforce
  show ?thesis
  proof (cases r)
    case (Inl e)
    have "keeps i x s t"
      by (rule keeps_save_Inl[OF p[unfolded Inl]])
        (auto dest: meta_op_Inl intro: ids_later_trans[OF draw_later meta_retry_ids])
    then show ?thesis using p Inl True by (simp add: retry_unanswered_def)
  next
    case (Inr ms)
    note ok = save_or_fail_Inr[OF p[unfolded Inr]]
    let ?u = "t\<lparr>c_outbox := ms @ c_outbox t\<rparr>"
    have f: "c_awaiting t = c_awaiting s" "c_outbox t = c_outbox s" "c_terminal t = c_terminal s" "c_recovery t = c_recovery s"
      "c_store t = c_store s" by (subst ok(2), simp)+
    obtain w1 where d: "draw_messages (concat (c_unanswered s)) (c_world s) = (w1, snd (draw_messages (concat (c_unanswered s)) (c_world s)))"
      by (metis prod.collapse)
    have w1: "ids_later w1 (c_world t)" using meta_retry_ids[OF ok(1)] d by (metis fst_conv)
    have later: "ids_later (c_world s) (c_world t)" using ids_later_trans[OF draw_later meta_retry_ids[OF ok(1)]] .
    have "keeps i x s ?u"
    proof (cases "jinv s")
      case jt: True
      then have wf: "queue_wf (mt_data (c_meta s))" and inj: "inj (uuid (c_world s))" by (simp_all add: jinv_def)
      note q = meta_retry_queue[OF ok(1) wf]
      note ids = draw_messages_ids[OF d inj]
      have "jinv ?u" using jt q f later drawn_later[OF later] drawn_later[OF w1] ids
        by (intro jinv_new[OF jt, of ?u ms]) (auto simp: journal_def retry_id_def jinv_def)
      then show ?thesis using q f later
        by (intro keeps_new) (auto simp: journal_def retry_id_def log_of_def)
    qed (simp add: keeps_def)
    then show ?thesis using p Inr True by (simp add: retry_unanswered_def)
  qed
qed

end
