(* ===== verification/Chat_Delivery.thy ===== *)
theory Chat_Delivery
  imports Chat_Journal
begin

text \<open>
  The steps that take a message off the queue: it is delivered or its echo confirmed, and the log
  then holds the event that opened it; or it is a retry of logged text that a handoff replaces.
\<close>

section \<open>Retiring a message\<close>

lemma filter_id_mset:
  assumes "distinct (map pm_id ms)" and "m \<in> set ms"
  shows "mset (filter (\<lambda>p. pm_id p \<noteq> pm_id m) ms) = mset ms - {#m#}"
proof -
  have d: "distinct ms" using assms(1) by (simp add: distinct_map)
  have "filter (\<lambda>p. pm_id p \<noteq> pm_id m) ms = filter (\<lambda>p. p \<noteq> m) ms"
    using assms by (intro filter_cong) (auto simp: distinct_map dest: inj_onD)
  also have "\<dots> = remove1 m ms" using d by (simp add: distinct_remove1_removeAll removeAll_filter_not_eq eq_commute)
  finally show ?thesis by (metis mset_remove1)
qed

lemma jinv_queued: "jinv s \<Longrightarrow> m \<in> set (c_awaiting s @ c_outbox s) \<Longrightarrow> m \<in> set (journal s)"
  unfolding jinv_def by (metis mset_subset_eqD set_mset_mset)

lemma jinv_retired:
  assumes "jinv s" and "m \<in> set (c_awaiting s @ c_outbox s)" and "journal t = filter (\<lambda>p. pm_id p \<noteq> pm_id m) (journal s)"
    and "queue_wf (mt_data (c_meta t))" and "mset (c_awaiting t @ c_outbox t) = mset (c_awaiting s @ c_outbox s) - {#m#}"
    and "c_terminal t = c_terminal s" and "retry_id t = retry_id s" and "ids_later (c_world s) (c_world t)"
  shows "jinv t"
proof -
  have s: "inj (uuid (c_world s))" "distinct (map pm_id (journal s))" "\<forall>p \<in> set (journal s). drawn_id (c_world s) (pm_id p)"
    "mset (c_awaiting s @ c_outbox s) \<subseteq># mset (journal s)" "\<forall>i. retry_id s = Some i \<longrightarrow> drawn_id (c_world s) i"
    "\<not> c_terminal s \<longrightarrow> mset (c_awaiting s @ c_outbox s) = mset (journal s)"
    using assms(1) unfolding jinv_def by blast+
  note m = jinv_queued[OF assms(1,2)]
  have j: "mset (journal t) = mset (journal s) - {#m#}"
    unfolding assms(3) using s(2) m by (rule filter_id_mset)
  have sub: "mset (c_awaiting s @ c_outbox s) - {#m#} \<subseteq># mset (journal s) - {#m#}"
    using s(4) m by (simp add: subset_eq_diff_conv)
  show ?thesis
    unfolding jinv_def j assms(5) assms(6) assms(7)
    using s(1,2,3,5,6) sub assms(4) drawn_later[OF assms(8)] assms(8)
    by (auto simp: assms(3) ids_later_def distinct_map_filter)
qed

text \<open>The opening event is in the log, the journal entry retired: the message is off the queue.\<close>

lemma keeps_retired:
  assumes "complete_message E (pm_id m) s = (u, True)" and "m \<in> set (c_awaiting s @ c_outbox s)"
    and "opened (pm_id m) (pm_text m) (log_of s)"
    and "c_meta t = c_meta u" "c_world t = c_world u" "log_of t = log_of s" "c_terminal t = c_terminal s"
    "c_recovery t = c_recovery s" "mset (c_awaiting t @ c_outbox t) = mset (c_awaiting s @ c_outbox s) - {#m#}"
  shows "keeps i x s t"
proof (cases "jinv s")
  case True
  have f: "meta_complete (en_codec E) (pm_id m) (c_meta s) (c_world s) = (c_world u, c_meta u, Inr ())"
    using assms(1) by (auto simp: complete_message_def dest!: save_or_fail_Inr(1) split: prod.splits sum.splits)
  have wf: "queue_wf (mt_data (c_meta s))" using True by (simp add: jinv_def)
  from meta_complete_queue[OF f wf]
  have q: "journal t = filter (\<lambda>p. pm_id p \<noteq> pm_id m) (journal s)" "queue_wf (mt_data (c_meta t))"
    by (simp_all add: journal_def assms(4))
  have later: "ids_later (c_world s) (c_world t)"
    using f ids_later_commit by (fastforce simp: meta_complete_def assms(5))
  have r: "retry_id t = retry_id s" by (rule retry_id_same[OF assms(8)])
  have "jinv t" by (rule jinv_retired[OF True assms(2) q assms(9,7) r later])
  moreover have "tracked i x t" if k: "tracked i x s"
  proof -
    note jinv_queued[OF True assms(2)]
    moreover have "inj_on pm_id (set (journal s))" using True by (simp add: jinv_def distinct_map)
    ultimately have "p = m" if "p \<in> set (journal s)" "pm_id p = pm_id m" for p using that by (auto dest: inj_onD)
    then show ?thesis using k assms(3) drawn_later[OF later]
      by (fastforce simp: tracked_def q(1) r assms(6))
  qed
  ultimately show ?thesis by (simp add: keeps_def)
qed (simp add: keeps_def)

lemma keeps_complete_False:
  assumes "complete_message E k s = (u, False)"
  shows "keeps i x s u"
proof -
  obtain e where f: "save_or_fail E ''retiring a delivered user message'' (meta_complete (en_codec E) k) s = (u, Inl e)"
    using assms by (auto simp: complete_message_def split: prod.splits sum.splits)
  show ?thesis
    by (rule keeps_save_Inl[OF f]) (auto simp: meta_complete_def dest: commit_Inl ids_later_commit)
qed

section \<open>Recovery\<close>

lemma drop_id_filter: "drop_id k ms = filter (\<lambda>p. k \<noteq> Some (pm_id p)) ms"
  by (cases k) (simp_all add: drop_id_def eq_commute)

lemma superseded_retry: "superseded rec s = Some k \<Longrightarrow> retry_id s = Some k"
  by (auto simp: superseded_def retry_id_def split: option.splits if_splits)

definition opt_list :: "'a option \<Rightarrow> 'a list" where
  "opt_list x = (case x of None \<Rightarrow> [] | Some y \<Rightarrow> [y])"

lemma jinv_recovered:
  assumes "jinv s" and "journal t = opt_list msg @ drop_id k (journal s)" and "queue_wf (mt_data (c_meta t))"
    and "c_awaiting t = drop_id k (c_awaiting s)" and "c_outbox t = opt_list msg @ drop_id k (c_outbox s)"
    and "c_terminal t = c_terminal s" and "ids_later (c_world s) (c_world t)"
    and "\<forall>p \<in> set (opt_list msg). drawn_id (c_world t) (pm_id p) \<and> \<not> drawn_id (c_world s) (pm_id p)"
    and "\<forall>j. retry_id t = Some j \<longrightarrow> drawn_id (c_world t) j"
  shows "jinv t"
proof -
  let ?P = "\<lambda>p. k \<noteq> Some (pm_id p)"
  have s: "inj (uuid (c_world s))" "distinct (map pm_id (journal s))" "\<forall>p \<in> set (journal s). drawn_id (c_world s) (pm_id p)"
    "mset (c_awaiting s @ c_outbox s) \<subseteq># mset (journal s)"
    "\<not> c_terminal s \<longrightarrow> mset (c_awaiting s @ c_outbox s) = mset (journal s)"
    using assms(1) unfolding jinv_def by blast+
  have q: "mset (c_awaiting t @ c_outbox t) = mset (opt_list msg) + filter_mset ?P (mset (c_awaiting s @ c_outbox s))"
    by (simp add: assms(4,5) drop_id_filter)
  have j: "mset (journal t) = mset (opt_list msg) + filter_mset ?P (mset (journal s))"
    by (simp add: assms(2) drop_id_filter)
  have "distinct (map pm_id (journal t))"
    using s(2,3) assms(8) by (cases msg) (auto simp: assms(2) drop_id_filter opt_list_def distinct_map_filter)
  moreover have "\<forall>p \<in> set (journal t). drawn_id (c_world t) (pm_id p)"
    using s(3) assms(8) drawn_later[OF assms(7)] by (auto simp: assms(2) drop_id_filter)
  moreover have "mset (c_awaiting t @ c_outbox t) \<subseteq># mset (journal t)"
    unfolding q j using multiset_filter_mono[OF s(4), of ?P] by simp
  moreover have "\<not> c_terminal t \<longrightarrow> mset (c_awaiting t @ c_outbox t) = mset (journal t)"
    unfolding q j assms(6) using s(5) by simp
  ultimately show ?thesis unfolding jinv_def using s(1) assms(3,7,9) by (simp add: ids_later_def)
qed

lemma keeps_save_recovery:
  assumes "ids_later (c_world s) w"
    and msg: "\<forall>p \<in> set (opt_list msg). drawn_id w (pm_id p) \<and> (jinv s \<longrightarrow> \<not> drawn_id (c_world s) (pm_id p))"
    and stage: "\<forall>j. retry_id (s\<lparr>c_recovery := rec\<rparr>) = Some j \<longrightarrow> j \<in> pm_id ` set (opt_list msg)"
  shows "keeps i x s (fst (save_recovery E rec since msg (s\<lparr>c_world := w\<rparr>)))"
proof -
  let ?s = "s\<lparr>c_world := w\<rparr>" and ?k = "superseded rec s"
  have old: "superseded rec ?s = ?k" by (simp add: superseded_def)
  obtain u r where f: "save_or_fail E ''saving context recovery'' (meta_recover (en_codec E) (recovery_value rec) since msg ?k) ?s = (u, r)"
    by fastforce
  have first: "keeps i x s ?s" using assms(1) by (intro keeps_same) (simp_all add: journal_def retry_id_def log_of_def)
  show ?thesis
  proof (cases r)
    case (Inl e)
    have "keeps i x ?s u"
      by (rule keeps_save_Inl[OF f[unfolded Inl]]) (auto simp: meta_recover_def dest: commit_Inl ids_later_commit)
    then show ?thesis using keeps_trans[OF first] f Inl by (simp add: save_recovery_def old Let_def)
  next
    case (Inr y)
    note ok = save_or_fail_Inr[OF f[unfolded Inr]]
    have same: "c_awaiting u = c_awaiting s" "c_outbox u = c_outbox s" "c_terminal u = c_terminal s" "c_store u = c_store s"
      by (subst ok(2), simp)+
    have w: "ids_later w (c_world u)" using ok(1) ids_later_commit by (fastforce simp: meta_recover_def)
    note later = ids_later_trans[OF assms(1) w]
    let ?t = "fst (save_recovery E rec since msg ?s)"
    have t: "c_meta ?t = c_meta u" "c_world ?t = c_world u" "c_awaiting ?t = drop_id ?k (c_awaiting s)"
      "c_outbox ?t = opt_list msg @ drop_id ?k (c_outbox s)" "c_terminal ?t = c_terminal s" "log_of ?t = log_of s"
      "retry_id ?t = retry_id (s\<lparr>c_recovery := rec\<rparr>)"
      using f Inr same by (simp_all add: save_recovery_def old Let_def opt_list_def log_of_def retry_id_def)
    show ?thesis
    proof (cases "jinv s")
      case True
      then have wf: "queue_wf (mt_data (c_meta ?s))" by (simp add: jinv_def)
      have cm: "c_meta ?s = c_meta s" by simp
      from meta_recover_queue[OF ok(1) wf, unfolded cm]
      have q: "journal ?t = opt_list msg @ drop_id ?k (journal s)" "queue_wf (mt_data (c_meta ?t))"
        by (simp_all add: journal_def t(1) opt_list_def drop_id_def)
      have new: "\<forall>p \<in> set (opt_list msg). drawn_id (c_world ?t) (pm_id p) \<and> \<not> drawn_id (c_world s) (pm_id p)"
        using msg True drawn_later[OF w] by (simp add: t(2))
      have "jinv ?t"
        by (rule jinv_recovered[OF True q t(3,4,5)]) (use later new stage t(2,7) in auto)
      moreover have "tracked i x ?t" if k: "tracked i x s"
        using k new stage superseded_retry[of rec s] drawn_later[OF later]
        by (auto simp: tracked_def q(1) t(2,6,7) drop_id_filter)
      ultimately show ?thesis by (simp add: keeps_def)
    qed (simp add: keeps_def)
  qed
qed

lemma keeps_save: "plain_stage rec \<Longrightarrow> keeps i x s (fst (save_recovery E rec since None s))"
  using keeps_save_recovery[of s "c_world s" None rec i x E since]
  by (auto simp: ids_later_def opt_list_def plain_stage_def retry_id_def split: option.splits if_splits)

lemma keeps_push: "keeps i x s (fst (push_recovery E stage tx fresh s))"
proof -
  let ?w = "(c_world s)\<lparr>drawn := Suc (drawn (c_world s))\<rparr>" and ?i = "uuid (c_world s) (drawn (c_world s))"
  have "drawn_id ?w ?i" by (auto simp: drawn_id_def)
  moreover have "jinv s \<Longrightarrow> \<not> drawn_id (c_world s) ?i" using fresh_id by (simp add: jinv_def)
  moreover have "ids_later (c_world s) ?w" by (simp add: ids_later_def)
  ultimately show ?thesis
    unfolding push_recovery_def new_uuid_def Let_def prod.case
    by (intro keeps_save_recovery) (auto simp: opt_list_def retry_id_def split: if_splits)
qed

section \<open>Delivery\<close>

lemma keeps_calm: "calm s t \<Longrightarrow> keeps i x s t"
  by (rule keeps_same) (simp_all add: calm_def journal_def retry_id_def log_of_def ids_later_def)

lemma remember_frame [simp]:
  "c_outbox (remember_message tx l s) = c_outbox s" "c_awaiting (remember_message tx l s) = c_awaiting s"
  "c_meta (remember_message tx l s) = c_meta s" "c_world (remember_message tx l s) = c_world s"
  "c_store (remember_message tx l s) = c_store s" "c_terminal (remember_message tx l s) = c_terminal s"
  "c_recovery (remember_message tx l s) = c_recovery s"
  "c_outbox (remember_runner_turn s) = c_outbox s" "c_awaiting (remember_runner_turn s) = c_awaiting s"
  "c_meta (remember_runner_turn s) = c_meta s" "c_world (remember_runner_turn s) = c_world s"
  "c_store (remember_runner_turn s) = c_store s" "c_terminal (remember_runner_turn s) = c_terminal s"
  "c_recovery (remember_runner_turn s) = c_recovery s"
  by (auto simp: remember_message_def remember_runner_turn_def split: list.splits option.splits)

lemma complete_message_frame:
  assumes "complete_message E k s = (u, True)"
  shows "u = s\<lparr>c_meta := c_meta u, c_world := c_world u\<rparr>"
  using assms unfolding complete_message_def
  by (auto split: prod.splits sum.splits dest: save_or_fail_Inr(2))

lemma recorded_opening:
  assumes "record_event E ev s = (t, Some e)" and "ev_type ev \<in> {START, INJECTED}"
    and "get_str (ev_extra ev) MESSAGE_ID = Some i" and "ev_text ev = x"
  shows "opened i x (log_of t)"
proof -
  have st: "e = stamped (c_store s) (attributed E s ev)" and l: "log_of t = log_of s @ [e]"
    using store_append_Inr[OF record_event_Some(1)[OF assms(1)]] by (simp_all add: log_of_def)
  have "ev_type e = ev_type ev" "ev_extra e = ev_extra ev" "ev_text e = ev_text ev"
    unfolding st by (simp_all add: stamped_def attributed_def Let_def split: option.splits)
  then show ?thesis using assms(2-4) by (simp add: l opened_def)
qed

lemma record_queue:
  assumes "record_event E ev s = (t, Some e)"
  shows "c_outbox t = c_outbox s" "c_awaiting t = c_awaiting s" "c_terminal t = c_terminal s" "c_recovery t = c_recovery s"
  by (subst record_event_Some(2)[OF assms], simp)+

lemma keeps_deliver: "c_outbox s = m # ms \<Longrightarrow> keeps i x s (fst (deliver E d m was s))"
proof -
  assume out: "c_outbox s = m # ms"
  obtain s1 r where rec: "record_event E (opening_event s d m was) s = (s1, r)" by fastforce
  have k1: "keeps i x s s1" using keeps_record[of i x s E "opening_event s d m was"] rec by simp
  show ?thesis
  proof (cases r)
    case None
    then show ?thesis using rec k1 by (simp add: deliver_def)
  next
    case (Some e)
    let ?s3 = "(remember_runner_turn (s1\<lparr>c_turn := max (c_turn s1) (ev_turn e)\<rparr>))
      \<lparr>c_next_turns := c_next_turns (remember_runner_turn (s1\<lparr>c_turn := max (c_turn s1) (ev_turn e)\<rparr>))
        + (if d = NextTurn \<and> was then 1 else 0)\<rparr>"
    obtain s4 ok where c: "complete_message E (pm_id m) ?s3 = (s4, ok)" by fastforce
    have k3: "keeps i x s ?s3" by (rule keeps_trans[OF k1 keeps_same]) (simp_all add: journal_def retry_id_def log_of_def ids_later_def)
    have op: "opened (pm_id m) (pm_text m) (log_of ?s3)"
      using recorded_opening[OF rec[unfolded Some], of "pm_id m" "pm_text m"]
      by (simp add: opening_event_def with_extra_def saying_def event_new_def get_str_def MESSAGE_ID_def log_of_def)
    show ?thesis
    proof (cases ok)
      case False
      then show ?thesis using keeps_trans[OF k3 keeps_complete_False] c rec Some by (simp add: deliver_def Let_def)
    next
      case True
      with c have c': "complete_message E (pm_id m) ?s3 = (s4, True)" by simp
      note fr = complete_message_frame[OF c']
      have s4: "c_outbox s4 = m # ms" "c_awaiting s4 = c_awaiting s" "log_of s4 = log_of ?s3" "c_terminal s4 = c_terminal ?s3"
        "c_recovery s4 = c_recovery ?s3"
        by (subst fr, simp add: record_queue[OF rec[unfolded Some]] out log_of_def)+
      have "keeps i x ?s3 (fst (deliver E d m was s))"
        using c s4 rec Some True op record_queue[OF rec[unfolded Some]] out
        by (intro keeps_retired[OF c']) (simp_all add: deliver_def Let_def set_status_def log_of_def)
      then show ?thesis by (rule keeps_trans[OF k3])
    qed
  qed
qed

lemma keeps_confirm: "keeps i x s (confirm E ev s)"
proof (cases "confirm E ev s = s")
  case True
  then show ?thesis by (simp add: keeps_def)
next
  case False
  then obtain m ms kd where aw: "c_awaiting s = m # ms" and kind: "get_str (ev_extra ev) CONFIRMED_AS = Some kd"
    and tx: "pm_text m = ev_text ev" and op: "kd \<in> {START, INJECTED}"
    by (auto simp: confirm_def split: list.splits option.splits if_splits)
  let ?ev = "confirmed_opening s m kd ev"
  obtain s1 r where rec: "record_event E ?ev s = (s1, r)" by fastforce
  have k1: "keeps i x s s1" using keeps_record[of i x s E ?ev] rec by simp
  have c0: "confirm E ev s = (case r of None \<Rightarrow> s1 | Some e \<Rightarrow>
      (case complete_message E (pm_id m) (remember_runner_turn (s1\<lparr>c_turn := max (c_turn s1) (ev_turn e)\<rparr>)) of
         (s2, False) \<Rightarrow> s2
       | (s2, True) \<Rightarrow> set_status BUSY ((remember_message (pm_text m) (is_type e START)
            (s2\<lparr>c_awaiting := tl (c_awaiting s2)\<rparr>))\<lparr>c_turn_recorded := True, c_in_turn := True\<rparr>)))"
    using op by (auto simp: confirm_def aw kind tx rec Let_def split: option.splits)
  show ?thesis
  proof (cases r)
    case None
    then show ?thesis using c0 k1 by simp
  next
    case (Some e)
    let ?s3 = "remember_runner_turn (s1\<lparr>c_turn := max (c_turn s1) (ev_turn e)\<rparr>)"
    obtain s4 ok where c: "complete_message E (pm_id m) ?s3 = (s4, ok)" by fastforce
    have k3: "keeps i x s ?s3" by (rule keeps_trans[OF k1 keeps_same]) (simp_all add: journal_def retry_id_def log_of_def ids_later_def)
    have "opened (pm_id m) (pm_text m) (log_of s1)"
      by (rule recorded_opening[OF rec[unfolded Some]])
        (use op tx in \<open>auto simp: confirmed_opening_def with_extra_def get_str_def MESSAGE_ID_def Let_def\<close>)
    then have opd: "opened (pm_id m) (pm_text m) (log_of ?s3)" by (simp add: log_of_def)
    note same = record_queue[OF rec[unfolded Some]]
    show ?thesis
    proof (cases ok)
      case False
      then show ?thesis using keeps_trans[OF k3 keeps_complete_False] c c0 Some by simp
    next
      case True
      with c have c': "complete_message E (pm_id m) ?s3 = (s4, True)" by simp
      have s4: "c_awaiting s4 = m # ms" "c_outbox s4 = c_outbox s" "log_of s4 = log_of ?s3" "c_terminal s4 = c_terminal ?s3"
        "c_recovery s4 = c_recovery ?s3"
        by (subst complete_message_frame[OF c'], simp add: same aw log_of_def)+
      have "keeps i x ?s3 (confirm E ev s)"
        using s4 opd same aw by (intro keeps_retired[OF c']) (simp_all add: c0 Some c' set_status_def log_of_def)
      then show ?thesis by (rule keeps_trans[OF k3])
    qed
  qed
qed

lemma keeps_world: "ids_later (c_world s) w \<Longrightarrow> keeps i x s (s\<lparr>c_world := w\<rparr>)"
  by (rule keeps_same) (simp_all add: journal_def retry_id_def log_of_def)

interpretation keeps_all: conductor_order E "keeps i x" UNIV for E i x
proof unfold_locales
  show "keeps i x s (s\<lparr>c_world := forget name (c_world s)\<rparr>)" for name and s :: "'a chat"
    by (rule keeps_world) (auto simp: ids_later_def forget_def forget_models_def Let_def split: option.splits)
  show "keeps i x s (s\<lparr>c_providers := ps, c_benched := {}\<rparr>)" for ps and s :: "'a chat"
    by (rule keeps_same) (simp_all add: journal_def retry_id_def log_of_def ids_later_def)
  show "keeps i x s (fst (save_setting E k v action s))" for k v action s
  proof (cases "on_meta (set_setting (en_codec E) k v) s")
    case (Pair t r)
    moreover have "keeps i x s t" using keeps_neutral_ops(3)[of i x s "en_codec E" k v] Pair by simp
    ultimately show ?thesis
      by (cases r) (auto simp: save_setting_def save_or_fail_def intro: keeps_trans[OF _ keeps_fail])
  qed
  show "keeps i x s (echo m s)" if "c_outbox s = m # ms" for s :: "'a chat" and m ms
    using that by (intro keeps_same) (simp_all add: echo_def set_status_def journal_def retry_id_def log_of_def ids_later_def)
  show "keeps i x s (requeue_awaiting s)" "keeps i x s (publish s)" "keeps i x s (stop_parked E s)"
    "keeps i x s (put_down E s)" for s
    by (intro keeps_same; simp add: requeue_awaiting_def publish_def stop_parked_def journal_def retry_id_def log_of_def ids_later_def)+
  show "keeps i x s (s\<lparr>c_runner := None\<rparr>)" for s :: "'a chat"
    by (intro keeps_same; simp add: journal_def retry_id_def log_of_def ids_later_def)
  show "keeps i x s (s\<lparr>c_runner := Some (fst (rn_send (en_ops E) j tx r))\<rparr>)" for s :: "'a chat" and j tx r
    by (intro keeps_same; simp add: journal_def retry_id_def log_of_def ids_later_def)
  show "keeps i x s (s\<lparr>c_runner := Some (fst (rn_compact (en_ops E) j r))\<rparr>)" for s :: "'a chat" and j r
    by (intro keeps_same; simp add: journal_def retry_id_def log_of_def ids_later_def)
  show "keeps i x s (fst (rung E s))" "keeps i x s (fst (rebuild E s))" "keeps i x s (fst (moved_on E name why s))" for s name why
    by (intro keeps_run.after_rung keeps_run.after_rebuild keeps_run.after_moved_on keeps_run.R_refl)+
qed (simp_all add: keeps_calm keeps_retry keeps_save keeps_push keeps_enqueue keeps_deliver keeps_confirm)

section \<open>Accepted messages\<close>

lemma enqueue_tracked:
  assumes "enqueue E tx s = (t, Inr ())" and "jinv s" and "\<not> c_terminal s"
  shows "tracked (uuid (c_world s) (drawn (c_world s))) tx t"
proof -
  let ?i = "uuid (c_world s) (drawn (c_world s))"
  obtain u p where f: "save_or_fail E ''saving an accepted user message'' (meta_enqueue (en_codec E) tx) s = (u, Inr p)"
    and t: "t = set_status BUSY (u\<lparr>c_outbox := c_outbox u @ [p]\<rparr>)"
    using assms(1) by (auto simp: enqueue_def split: prod.splits sum.splits)
  note ok = save_or_fail_Inr[OF f]
  have wf: "queue_wf (mt_data (c_meta s))" and inj: "inj (uuid (c_world s))" using assms(2) by (simp_all add: jinv_def)
  note q = meta_enqueue_queue[OF ok(1) wf]
  have rec: "c_recovery u = c_recovery s" by (subst ok(2)) simp
  have "drawn_id (c_world u) ?i" using meta_enqueue_ids[OF ok(1)] unfolding drawn_id_def ids_later_def
    by (intro exI[of _ "drawn (c_world s)"]) (simp add: Suc_le_eq)
  moreover have "retry_id s \<noteq> Some ?i" using assms(2) fresh_id[OF inj] by (auto simp: jinv_def)
  ultimately show ?thesis
    using q by (simp add: t set_status_def tracked_def journal_def retry_id_def rec)
qed

text \<open>
  C29: nothing is sent twice or forgotten while a session lives. Whatever it is told and whatever
  fails, the messages in the conductor's queues are exactly those in the journal of its metadata,
  each once; the journal keeps identifiers distinct.
\<close>

theorem queue_is_journal:
  assumes "jinv s" and "run_loop E n sigs s = Some (t, acks)" and "\<not> c_terminal t"
  shows "mset (c_awaiting t @ c_outbox t) = mset (meta_pending (c_meta t)) \<and> distinct (map pm_id (meta_pending (c_meta t)))"
proof -
  have "keeps [] [] s t" by (rule keeps_all.run_loop_R[OF assms(2)]) (simp add: list_all_iff)
  then show ?thesis using assms(1,3) by (simp add: keeps_def jinv_def journal_def)
qed

text \<open>A send that was accepted is in the journal of the state that answers it, under an id of its own.\<close>

lemma send_tracked:
  assumes "jinv s" and "\<not> c_terminal s" and "handle_send E (flush E n) tx k s = Some (s1, [(k, Inr ())])"
  shows "\<exists>i. jinv s1 \<and> tracked i tx s1"
proof -
  let ?i = "uuid (c_world s) (drawn (c_world s))"
  obtain u where en: "enqueue E tx s = (u, Inr ())"
    using assms(3) by (auto simp: handle_send_def Let_def split: prod.splits if_splits)
  have ju: "jinv u" using keeps_enqueue[of "[]" "[]" s E tx] en assms(1) by (simp add: keeps_def)
  note fl = keeps_all.flush_order_flush[where E = E and i = ?i and x = tx and n = n and s = u]
  have "keeps ?i tx u (publish u)" by (rule keeps_all.R_publish)
  then have "ends True (keeps ?i tx) u (dispatch_queued E (flush E n) (publish u))"
    by (rule flush_order.walk_dispatch_queued[OF fl])
  then have "keeps ?i tx u s1"
    using assms(3) en keeps_trans[OF _ keeps_all.R_publish] \<open>keeps ?i tx u (publish u)\<close>
    by (auto simp: handle_send_def Let_def ends_def split: if_splits)
  then show ?thesis using ju enqueue_tracked[OF en assms(1,2)] by (auto simp: keeps_def)
qed

lemma run_loop_tracked: "run_loop E n sigs s = Some (t, acks) \<Longrightarrow> jinv s \<Longrightarrow> tracked i tx s \<Longrightarrow> jinv t \<and> tracked i tx t"
  using keeps_all.run_loop_R[of E n sigs s t acks i tx] by (simp add: keeps_def list_all_iff)

text \<open>
  C1: an accepted message is never lost. Once a send is acknowledged, then whatever follows
  (crashing providers, full contexts, lost logins, failed writes, a stop), its text is in the
  journal of the metadata or the log holds the event that opened it.
\<close>

theorem accepted_message_kept:
  assumes "jinv s" and "\<not> c_terminal s" and "handle_send E (flush E n) tx k s = Some (s1, [(k, Inr ())])"
    and "run_loop E n sigs s1 = Some (t, acks)"
  shows "\<exists>i. \<lparr>pm_id = i, pm_text = tx\<rparr> \<in> set (meta_pending (c_meta t)) \<or> opened i tx (log_of t)"
proof -
  obtain i where i: "jinv s1" "tracked i tx s1" using send_tracked[OF assms(1-3)] by blast
  from run_loop_tracked[OF assms(4) i] show ?thesis by (auto simp: tracked_def journal_def)
qed

end
