(* ===== verification/Chat_Confined.thy ===== *)
theory Chat_Confined
  imports Chat_Delivery
begin

text \<open>
  Where a conversation may go. The third interpretation of \<open>conductor_order\<close>: the process that is
  running bears the name of the provider that was asked for, and that provider is one the session
  was given. A provider's process is code outside the conductor; that it keeps the name it was made
  for is the hypothesis \<open>named_ops\<close>.
\<close>

definition named_ops :: "'r runner_ops \<Rightarrow> bool" where
  "named_ops ops \<longleftrightarrow> (\<forall>p sid cfg ep r. rn_make ops p sid cfg ep = Some r \<longrightarrow> rn_name ops r = p)
     \<and> (\<forall>j native h r. rn_name ops (fst (rn_start ops j native h r)) = rn_name ops r)
     \<and> (\<forall>j tx r. rn_name ops (fst (rn_send ops j tx r)) = rn_name ops r)
     \<and> (\<forall>j r. rn_name ops (fst (rn_compact ops j r)) = rn_name ops r)
     \<and> (\<forall>j m e r. rn_name ops (fst (rn_retune ops j m e r)) = rn_name ops r)
     \<and> (\<forall>j h r. rn_name ops (fst (rn_catch_up ops j h r)) = rn_name ops r)"

definition confined :: "string set \<Rightarrow> 'r env \<Rightarrow> 'r chat \<Rightarrow> bool" where
  "confined A E s \<longleftrightarrow> set (c_providers s) \<subseteq> A
     \<and> (\<forall>r. c_runner s = Some r \<longrightarrow> map_option fst (c_current s) = Some (rn_name (en_ops E) r) \<and> rn_name (en_ops E) r \<in> A)
     \<and> (\<forall>p d. bt_get (c_parked s) p = Some d \<longrightarrow> rn_name (en_ops E) (pd_runner d) = p)"

definition confines :: "string set \<Rightarrow> 'r env \<Rightarrow> 'r chat \<Rightarrow> 'r chat \<Rightarrow> bool" where
  "confines A E s t \<longleftrightarrow> (named_ops (en_ops E) \<and> confined A E s \<longrightarrow> confined A E t)"

lemma named_opsD:
  assumes "named_ops ops"
  shows "rn_make ops p sid cfg ep = Some r \<Longrightarrow> rn_name ops r = p"
    and "rn_start ops j native h r = (r', y1) \<Longrightarrow> rn_name ops r' = rn_name ops r"
    and "rn_send ops j tx r = (r', y2) \<Longrightarrow> rn_name ops r' = rn_name ops r"
    and "rn_compact ops j r = (r', y3) \<Longrightarrow> rn_name ops r' = rn_name ops r"
    and "rn_retune ops j m e r = (r', y4) \<Longrightarrow> rn_name ops r' = rn_name ops r"
    and "rn_catch_up ops j h r = (r', y5) \<Longrightarrow> rn_name ops r' = rn_name ops r"
  using assms unfolding named_ops_def by (metis fst_conv)+

lemma confines_trans: "confines A E s t \<Longrightarrow> confines A E t u \<Longrightarrow> confines A E s u"
  by (simp add: confines_def)

lemma confines_same:
  "set (c_providers t) \<subseteq> set (c_providers s) \<Longrightarrow> c_runner t = c_runner s \<Longrightarrow> c_current t = c_current s \<Longrightarrow>
   c_parked t = c_parked s \<Longrightarrow> confines A E s t"
  by (auto simp: confines_def confined_def)

lemma confines_fail: "confines A E s (persistence_failed E a e s)"
  by (cases "c_terminal s")
    (simp_all add: persistence_failed_def confines_def confined_def stop_parked_def Let_def)

lemma confines_record: "confines A E s (fst (record_event E e s))"
proof (cases "record_event E e s")
  case (Pair t r)
  show ?thesis
  proof (cases r)
    case None
    from Pair None obtain w' st' err where t: "t = persistence_failed E ''appending the session event log'' err (s\<lparr>c_store := st', c_world := w'\<rparr>)"
      by (metis record_event_None)
    have "confines A E s (s\<lparr>c_store := st', c_world := w'\<rparr>)" by (rule confines_same) simp_all
    from confines_trans[OF this confines_fail] show ?thesis by (simp add: Pair t)
  next
    case (Some e')
    have "c_providers t = c_providers s" "c_runner t = c_runner s" "c_current t = c_current s" "c_parked t = c_parked s"
      by (subst record_event_Some(2)[OF Pair[unfolded Some]], simp)+
    then show ?thesis by (simp add: Pair confines_same)
  qed
qed

lemma confines_on_meta: "confines A E s (fst (on_meta f s))"
  by (rule confines_same) (simp_all add: on_meta_def split: prod.splits)

interpretation conf: step_order E "confines A E" for E A
proof unfold_locales
  show "confines A E s t" if "view_only s t" for s t :: "'a chat"
    using that run_onlyE[of s t] by (intro confines_same) (auto simp: view_only_def)
  show "confines A E s u" if "confines A E s t" "confines A E t u" for s t u :: "'a chat" using that by (rule confines_trans)
  show "confines A E s s" for s :: "'a chat" by (simp add: confines_def)
qed (rule confines_record confines_fail confines_on_meta)+

section \<open>Bringing a provider up\<close>

lemma confinedI:
  assumes "set (c_providers s) \<subseteq> A"
    and "\<And>r. c_runner s = Some r \<Longrightarrow> map_option fst (c_current s) = Some (rn_name (en_ops E) r) \<and> rn_name (en_ops E) r \<in> A"
    and "\<And>p d. bt_get (c_parked s) p = Some d \<Longrightarrow> rn_name (en_ops E) (pd_runner d) = p"
  shows "confined A E s"
  using assms unfolding confined_def by blast

lemma confinedD:
  assumes "confined A E s"
  shows "set (c_providers s) \<subseteq> A"
    and "c_runner s = Some r \<Longrightarrow> map_option fst (c_current s) = Some (rn_name (en_ops E) r) \<and> rn_name (en_ops E) r \<in> A"
    and "bt_get (c_parked s) p = Some d \<Longrightarrow> rn_name (en_ops E) (pd_runner d) = p"
  using assms unfolding confined_def by blast+

lemma confines_then: "confines A E s t \<Longrightarrow> (confined A E t \<Longrightarrow> confined A E u) \<Longrightarrow> confines A E s u"
  by (simp add: confines_def)

lemma confines_updates:
  "confines A E s t \<Longrightarrow> confines A E s (t\<lparr>c_runner := None\<rparr>)"
  "confines A E s t \<Longrightarrow> confines A E s (t\<lparr>c_parked := bt_remove name (c_parked t)\<rparr>)"
  "confines A E s t \<Longrightarrow> confines A E s (t\<lparr>c_world := w\<rparr>)"
  by (erule confines_then; rule confinedI; auto simp: confinedD dest: confinedD(2,3) split: if_splits)+

lemma confines_set_aside:
  assumes "confines A E s t"
  shows "confines A E s (set_aside E (rn_name (en_ops E) r) ep r t)"
proof (cases "\<exists>sig. c_current t = Some sig \<and> rn_parkable (en_ops E) (ticks t) r")
  case True
  then obtain sig where "c_current t = Some sig" "rn_parkable (en_ops E) (ticks t) r" by blast
  then show ?thesis
    using assms by (elim confines_then, intro confinedI)
      (auto simp: set_aside_def confinedD dest: confinedD(2,3) split: if_splits)
next
  case False
  then have "set_aside E (rn_name (en_ops E) r) ep r t = stop_one E r t"
    by (auto simp: set_aside_def split: option.splits)
  then show ?thesis using assms by (simp add: conf.after_views)
qed

lemmas confine = conf.plain_steps confines_updates confines_set_aside

lemma confines_release: "confines A E s t \<Longrightarrow> confines A E s (fst (release_native E name native t))"
  unfolding release_native_def by (intro confine conf.after_pair | assumption | simp only: Let_def)+

lemma confines_park: "confines A E s t \<Longrightarrow> confines A E s (fst (park E r t))"
  unfolding park_def Let_def by (intro confine confines_release | assumption)+

lemma confines_unpark: "confines A E s t \<Longrightarrow> confines A E s (fst (unpark E p t))"
  unfolding unpark_def Let_def by (intro confine conf.after_pair | assumption)+

lemma confines_take_parked: "confines A E s t \<Longrightarrow> confines A E s (fst (take_parked E p wanted t))"
  unfolding take_parked_def by (intro confine confines_unpark conf.after_pair | assumption)+

lemma taken_named:
  assumes "named_ops (en_ops E)" and "confined A E t" and "take_parked E p wanted t = (u, Some (r, ep, b))"
  shows "rn_name (en_ops E) r = p"
proof -
  obtain r0 where un: "unpark E p t = (u, Some (r, ep))"
    using assms(3) by (auto simp: take_parked_def split: option.splits prod.splits if_splits)
  obtain d where d: "bt_get (c_parked t) p = Some d"
    using un by (auto simp: unpark_def split: option.splits)
  have "\<exists>j h. rn_catch_up (en_ops E) j h (pd_runner d) = (r, True)"
    using un d by (auto simp: unpark_def Let_def split: prod.splits bool.splits if_splits sum.splits)
  then show ?thesis using named_opsD(6)[OF assms(1)] confinedD(3)[OF assms(2) d] by metis
qed

lemma confines_bring_up: "confines A E s t \<Longrightarrow> confines A E s (fst (bring_up E p config native since t))"
  unfolding bring_up_def Let_def by (intro confine conf.after_pair | assumption)+

lemma brought_up_named:
  "named_ops (en_ops E) \<Longrightarrow> bring_up E p config native since t = (u, Inr (r, ep)) \<Longrightarrow> rn_name (en_ops E) r = pk_provider p"
  unfolding bring_up_def Let_def
  by (auto split: option.splits prod.splits sum.splits) (metis named_opsD(1,2))

lemma confines_announce: "confines A E s t \<Longrightarrow> confines A E s (fst (announce_launch E p native fresh t))"
  unfolding announce_launch_def by (intro confine | assumption)+

lemma confines_adopt:
  assumes "confines A E s t" and "rn_name (en_ops E) r = pk_provider p" and "pk_provider p \<in> A"
  shows "confines A E s (fst (adopt E r ep p fresh t))"
proof -
  let ?s0 = "remember_runner_turn (t\<lparr>c_runner := Some r, c_runner_epoch := ep, c_sync_ceiling := None\<rparr>)"
  have frame: "c_providers ?s0 = c_providers t" "c_runner ?s0 = Some r" "c_parked ?s0 = c_parked t"
    by (simp_all add: remember_runner_turn_def split: option.splits)
  have "confines A E s (?s0\<lparr>c_current := Some (signature ?s0 p)\<rparr>)"
    using assms(1) by (rule confines_then, intro confinedI)
      (auto simp: frame signature_def assms(2,3) dest: confinedD(1,3))
  then show ?thesis unfolding adopt_def Let_def by (intro confine confines_announce | assumption)+
qed

lemma confines_launch_new:
  assumes "named_ops (en_ops E)" and "confines A E s t" and "pk_provider p \<in> A"
  shows "confines A E s (fst (launch_new E p native synced t))"
proof -
  have up: "confines A E s (fst (case bring_up E p config native since u of (s1, Inl e) \<Rightarrow> (s1, Inl e) | (s1, Inr (r, ep)) \<Rightarrow> G s1 r ep))"
    if "confines A E s u" "\<And>s1 r ep. confines A E s s1 \<Longrightarrow> rn_name (en_ops E) r = pk_provider p \<Longrightarrow> confines A E s (fst (G s1 r ep))"
    for config native since u and G :: "'a chat \<Rightarrow> 'a \<Rightarrow> int \<Rightarrow> 'a chat \<times> unit res"
  proof (cases "bring_up E p config native since u")
    case (Pair s1 x)
    have "confines A E s s1" using confines_bring_up[OF that(1), of p config native since] Pair by simp
    then show ?thesis using Pair that(2) brought_up_named[OF assms(1)] by (cases x) auto
  qed
  show ?thesis unfolding launch_new_def Let_def
    by (insert assms(2,3)) ((assumption | rule up confines_adopt confine)+)
qed

lemma confines_launch:
  assumes "named_ops (en_ops E)" and "confined A E s" and "confines A E s t" and "pk_provider p \<in> A"
  shows "confines A E s (fst (launch E p t))"
proof -
  obtain native synced where n: "meta_native (c_meta t) (pk_provider p) = (native, synced)" by fastforce
  obtain s1 x where 1: "take_parked E (pk_provider p) (signature t p) t = (s1, x)" by fastforce
  have R1: "confines A E s s1" using confines_take_parked[OF assms(3), of "pk_provider p" "signature t p"] 1 by simp
  have on: "confines A E s (fst (if c_terminal u then (u, Inl lost_storage) else launch_new E p native synced u))"
    if "confines A E s u" for u
    using that confines_launch_new[OF assms(1) that assms(4)] by simp
  have t: "confined A E t" using assms(1-3) by (simp add: confines_def)
  show ?thesis
  proof (cases x)
    case None
    then show ?thesis using on[OF R1] by (simp add: launch_def n 1 Let_def)
  next
    case (Some y)
    obtain kept ep b where y: "y = (kept, ep, b)" by (cases y) auto
    have nm: "rn_name (en_ops E) kept = pk_provider p" using taken_named[OF assms(1) t 1[unfolded Some y]] .
    obtain kept' b' where rt: "rn_retune (en_ops E) (ticks s1) (pk_model p) (pk_effort p) kept = (kept', b')" by fastforce
    have nm': "rn_name (en_ops E) kept' = pk_provider p" using named_opsD(5)[OF assms(1) rt] nm by simp
    show ?thesis
      using confines_adopt[OF R1 nm assms(4)] confines_adopt[OF R1 nm' assms(4)] on[OF conf.after_views(11)[OF R1, of E kept']]
      by (auto simp: launch_def n 1 Some y rt Let_def split: bool.splits if_splits)
  qed
qed

lemma confines_replace:
  assumes "named_ops (en_ops E)" and "confined A E s" and "confines A E s t" and "pk_provider p \<in> A"
  shows "confines A E s (fst (replace_runner E p t))"
proof -
  obtain s1 ok where 1: "(case c_runner t of Some r \<Rightarrow> park E r (t\<lparr>c_runner := None\<rparr>) | None \<Rightarrow> (t, True)) = (s1, ok)" by fastforce
  have "confines A E s (fst (case c_runner t of Some r \<Rightarrow> park E r (t\<lparr>c_runner := None\<rparr>) | None \<Rightarrow> (t, True)))"
    using assms(3) by (intro confine confines_park | assumption)+
  then have R1: "confines A E s s1" using 1 by simp
  show ?thesis unfolding replace_runner_def Let_def 1 prod.case
    by (insert R1) ((assumption | rule confines_launch[OF assms(1,2) _ assms(4)] confine)+)
qed

lemma rung_usable: "rung E s = (t, Inr p) \<Longrightarrow> pk_provider p \<in> set (usable s)"
  by (auto simp: rung_def dest: resolve_in split: prod.splits)

lemma confines_rung: "confines A E s (fst (rung E s))"
  by (rule confines_same) (simp_all add: rung_def split: prod.splits)

lemma confines_rebuild: "confines A E s (fst (rebuild E s))"
proof (cases "named_ops (en_ops E) \<and> confined A E s")
  case True
  then have n: "named_ops (en_ops E)" and s: "confined A E s" by auto
  obtain s1 x where 1: "rung E s = (s1, x)" by fastforce
  have R1: "confines A E s s1" using confines_rung[of A E s] 1 by simp
  show ?thesis
  proof (cases x)
    case (Inl e)
    then show ?thesis using R1 1 by (simp add: rebuild_def)
  next
    case (Inr p)
    have p: "pk_provider p \<in> A" using rung_usable[OF 1[unfolded Inr]] confinedD(1)[OF s] by (auto simp: usable_def)
    obtain s2 took where 2: "retune_running E p s1 = (s2, took)" by fastforce
    have tun: "confined A E s2 \<and> (took \<longrightarrow> tunable E s1 p \<longrightarrow> confined A E (s2\<lparr>c_current := Some (signature s2 p)\<rparr>))"
    proof (cases "c_runner s1")
      case None
      then show ?thesis using 2 R1 n s by (auto simp: retune_running_def confines_def)
    next
      case (Some r)
      have c1: "confined A E s1" using R1 n s by (simp add: confines_def)
      obtain r' where r': "rn_retune (en_ops E) (ticks s1) (pk_model p) (pk_effort p) r = (r', took)" "s2 = s1\<lparr>c_runner := Some r'\<rparr>"
        using 2 Some by (auto simp: retune_running_def split: prod.splits)
      have nm: "rn_name (en_ops E) r' = rn_name (en_ops E) r" using named_opsD(5)[OF n r'(1)] .
      have "rn_name (en_ops E) r = pk_provider p" if "tunable E s1 p"
        using that confinedD(2)[OF c1 Some] by (auto simp: tunable_def split: option.splits prod.splits)
      then show ?thesis using confinedD[OF c1] Some nm p
        by (auto simp: r'(2) signature_def intro!: confinedI)
    qed
    then have R2: "confines A E s s2" and R3: "took \<Longrightarrow> tunable E s1 p \<Longrightarrow> confines A E s (s2\<lparr>c_current := Some (signature s2 p)\<rparr>)"
      by (simp_all add: confines_def)
    show ?thesis
    proof (cases "tunable E s1 p \<and> took")
      case True
      have "confines A E s (fst (case record_event E (retune_event s2 p) (s2\<lparr>c_current := Some (signature s2 p)\<rparr>) of
          (s3, None) \<Rightarrow> (s3, Inl lost_storage) | (s3, Some _) \<Rightarrow> (refresh E s3, Inr ())))"
        using R3 True by (intro confine) auto
      then show ?thesis using True 1 Inr 2 by (simp add: rebuild_def)
    next
      case False
      then show ?thesis using confines_replace[OF n s R1 p] confines_replace[OF n s R2 p] 1 Inr 2
        by (auto simp: rebuild_def split: bool.splits)
    qed
  qed
qed (auto simp: confines_def)

lemma confines_moved_on: "confines A E s (fst (moved_on E name why s))"
proof -
  have "confines A E s (case bt_get (c_parked s) name of
      Some p \<Rightarrow> stop_one E (pd_runner p) (s\<lparr>c_parked := bt_remove name (c_parked s)\<rparr>) | None \<Rightarrow> s)"
    by (cases "bt_get (c_parked s) name"; simp; intro confine)
  then show ?thesis unfolding moved_on_def Let_def by (intro confine | assumption)+
qed

section \<open>Everything a conductor does\<close>

lemma confines_save_or_fail: "confines A E s (fst (save_or_fail E a f s))"
proof (cases "on_meta f s")
  case (Pair t r)
  have "confines A E s t" using confines_on_meta[of A E s f] Pair by simp
  then show ?thesis using Pair by (cases r) (auto simp: save_or_fail_def intro: confines_trans[OF _ confines_fail])
qed

lemma confines_saved:
  "confines A E s t \<Longrightarrow> confines A E s (t\<lparr>c_outbox := ob\<rparr>)" "confines A E s t \<Longrightarrow> confines A E s (t\<lparr>c_awaiting := aw\<rparr>)"
  "confines A E s t \<Longrightarrow> confines A E s (t\<lparr>c_recovery := rc\<rparr>)" "confines A E s t \<Longrightarrow> confines A E s (t\<lparr>c_history_start := hs\<rparr>)"
  "confines A E s t \<Longrightarrow> confines A E s (t\<lparr>c_compaction_deadline := cd\<rparr>)" "confines A E s t \<Longrightarrow> confines A E s (t\<lparr>c_turn := tu\<rparr>)"
  "confines A E s t \<Longrightarrow> confines A E s (t\<lparr>c_next_turns := nt\<rparr>)" "confines A E s t \<Longrightarrow> confines A E s (t\<lparr>c_in_turn := it\<rparr>)"
  "confines A E s t \<Longrightarrow> confines A E s (t\<lparr>c_turn_recorded := tr\<rparr>)" "confines A E s t \<Longrightarrow> confines A E s (remember_message tx l t)"
  by (erule confines_trans, rule confines_same; simp add: remember_message_def split: list.splits)+

lemmas confine_queue = confine confines_saved confines_trans[OF _ confines_save_or_fail]

lemma confines_complete: "confines A E s t \<Longrightarrow> confines A E s (fst (complete_message E i t))"
  unfolding complete_message_def by (intro confine_queue | assumption)+

lemma confines_save_recovery: "confines A E s t \<Longrightarrow> confines A E s (fst (save_recovery E rec since msg t))"
  unfolding save_recovery_def Let_def by (intro confine_queue | assumption)+

lemma confines_deliver: "confines A E s t \<Longrightarrow> confines A E s (fst (deliver E d m was t))"
  unfolding deliver_def Let_def by (intro confine_queue confines_complete | assumption)+

lemma confines_confirm: "confines A E s (confirm E e s)"
proof -
  have c: "confines A E s (case y of (s2, False) \<Rightarrow> s2 | (s2, True) \<Rightarrow> g s2)"
    if "confines A E s (fst y)" "\<And>u. confines A E s u \<Longrightarrow> confines A E s (g u)" for y g
    using that by (auto split: prod.splits bool.splits)
  have r: "confines A E s (case y of (s1, None) \<Rightarrow> s1 | (s1, Some ev) \<Rightarrow> g s1 ev)"
    if "confines A E s (fst y)" "\<And>u ev. confines A E s u \<Longrightarrow> confines A E s (g u ev)" for y and g :: "'a chat \<Rightarrow> event \<Rightarrow> 'a chat"
    using that by (auto split: prod.splits option.splits)
  show ?thesis unfolding confirm_def Let_def
    by (auto split: list.splits option.splits intro!: conf.R_refl r c confine_queue confines_complete)
qed

interpretation conf_all: conductor_order E "confines A E" A for E A
proof unfold_locales
  show "confines A E s t" if "calm s t" for s t :: "'a chat"
    using that by (intro confines_same) (simp_all add: calm_def)
  show "confines A E s (s\<lparr>c_providers := ps, c_benched := {}\<rparr>)" if "set ps \<subseteq> A" for ps and s :: "'a chat"
    using that by (auto simp: confines_def confined_def)
  show "confines A E s (s\<lparr>c_world := forget name (c_world s)\<rparr>)" for name and s :: "'a chat" by (intro confine)
  show "confines A E s (fst (save_setting E k v action s))" for k v action s
    unfolding save_setting_def by (intro confine_queue)
  show "confines A E s (fst (retry_unanswered E b s))" for b s
    unfolding retry_unanswered_def by (intro confine_queue | assumption)+
  show "confines A E s (fst (save_recovery E rec since None s))" for rec since and s :: "'a chat"
    by (intro confines_save_recovery confine)
  show "confines A E s (fst (push_recovery E stage msg fresh s))" for stage msg fresh s
    unfolding push_recovery_def Let_def by (auto simp: new_uuid_def intro!: confines_save_recovery confine)
  show "confines A E s (fst (enqueue E msg s))" for msg s
    unfolding enqueue_def by (intro confine_queue | assumption)+
  show "confines A E s (echo m s)" for m s unfolding echo_def by (intro confine_queue)
  show "confines A E s (requeue_awaiting s)" "confines A E s (publish s)" for s
    by (rule confines_same; simp add: requeue_awaiting_def publish_def)+
  show "confines A E s (put_down E s)" "confines A E s (stop_parked E s)" for s
    by (auto simp: confines_def confined_def stop_parked_def)
  show "confines A E s (s\<lparr>c_runner := None\<rparr>)" for s :: "'a chat" by (intro confine)
  show "confines A E s (s\<lparr>c_runner := Some (fst (rn_send (en_ops E) j tx r))\<rparr>)" if "c_runner s = Some r" for s :: "'a chat" and r j tx
    using that by (auto simp: confines_def confined_def named_ops_def)
  show "confines A E s (s\<lparr>c_runner := Some (fst (rn_compact (en_ops E) j r))\<rparr>)" if "c_runner s = Some r" for s :: "'a chat" and r j
    using that by (auto simp: confines_def confined_def named_ops_def)
qed (rule confines_rung confines_rebuild confines_moved_on confines_deliver[OF conf.R_refl] confines_confirm)+

lemma open_confined: "confined A E (open_at E sid ps cwd w) \<longleftrightarrow> set (c_providers (open_at E sid ps cwd w)) \<subseteq> A"
  by (auto simp: confined_def open_at_def opened_chat_def Let_def split: prod.splits)

text \<open>
  C28: a conversation stays with the providers it was given. After any run of a session, whatever
  the registry answered and whichever providers failed, the process that is up was made for a
  provider the session was opened with or later told to use, it is the one the snapshot would
  name, and what is parked goes under its own name.
\<close>

theorem conversation_confined:
  assumes "named_ops (en_ops E)" and "set (c_providers (open_at E sid ps cwd w)) \<subseteq> A"
    and "list_all (signal_in A) (queued @ later)" and "run E n queued later (open_at E sid ps cwd w) = Some (t, acks)"
  shows "set (c_providers t) \<subseteq> A
    \<and> (\<forall>r. c_runner t = Some r \<longrightarrow> rn_name (en_ops E) r \<in> A \<and> map_option fst (c_current t) = Some (rn_name (en_ops E) r))
    \<and> (\<forall>p d. bt_get (c_parked t) p = Some d \<longrightarrow> rn_name (en_ops E) (pd_runner d) = p)"
proof -
  have "confines A E (open_at E sid ps cwd w) t" by (rule conf_all.run_R[OF assms(4,3)])
  then have "confined A E t" using assms(1,2) by (simp add: confines_def open_confined)
  then show ?thesis by (simp add: confined_def)
qed

end
