(* ===== verification/Chat_Progress.thy ===== *)
theory Chat_Progress
  imports Chat_Confined
begin

text \<open>
  The conductor always answers. Handing a message over may move the conversation to another
  provider, which hands messages over again: \<open>need\<close> bounds how deep that goes. Each time a provider
  is given up on, one fewer is left; a context that is full is handed over once and not again.
  So \<open>flush\<close> has a result as soon as its fuel reaches \<open>need\<close>, and a whole run has one when the fuel
  is two more than the number of providers the session may use.
\<close>

section \<open>What is left to try\<close>

definition dialled :: "'r chat \<Rightarrow> string set" where
  "dialled s = set (c_providers s) - c_benched s"

definition need :: "'r chat \<Rightarrow> nat" where
  "need s = (case c_recovery s of
     None \<Rightarrow> card (dialled s) + 2
   | Some r \<Rightarrow> if rc_stage r = Retrying then 2 else 1)"

text \<open>Steps that leave the recovery as it is and bring no provider back.\<close>

definition fewer :: "'r chat \<Rightarrow> 'r chat \<Rightarrow> bool" where
  "fewer s t \<longleftrightarrow> c_recovery t = c_recovery s \<and> c_providers t = c_providers s \<and> c_benched s \<subseteq> c_benched t"

lemma finite_dialled [simp]: "finite (dialled s)"
  by (simp add: dialled_def)

lemma fewer_dialled: "fewer s t \<Longrightarrow> dialled t \<subseteq> dialled s"
  by (auto simp: fewer_def dialled_def)

lemma fewer_need: "fewer s t \<Longrightarrow> need t \<le> need s"
  using card_mono[OF finite_dialled fewer_dialled] by (auto simp: fewer_def need_def split: option.splits)

lemma fewer_same: "c_recovery t = c_recovery s \<Longrightarrow> c_providers t = c_providers s \<Longrightarrow> c_benched t = c_benched s \<Longrightarrow> fewer s t"
  by (simp add: fewer_def)

lemma fewer_trans: "fewer s t \<Longrightarrow> fewer t u \<Longrightarrow> fewer s u"
  by (auto simp: fewer_def)

lemma fewer_record: "fewer s (fst (record_event E e s))"
  by (rule fewer_same) (auto simp: record_event_def Let_def split: prod.splits sum.splits)

lemma fewer_on_meta: "fewer s (fst (on_meta f s))"
  by (rule fewer_same) (simp_all add: on_meta_def split: prod.splits)

interpretation fewer: runner_order E fewer for E
proof unfold_locales
  show run: "fewer s t" if "run_only s t" for s t :: "'a chat" using run_onlyE[OF that] by (intro fewer_same) simp_all
  show "fewer s t" if "view_only s t" for s t :: "'a chat" using that run by (simp add: view_only_def)
  show "fewer s u" if "fewer s t" "fewer t u" for s t u :: "'a chat" using that by (rule fewer_trans)
  show "fewer s s" for s :: "'a chat" by (simp add: fewer_def)
  show "fewer s (s\<lparr>c_world := w\<rparr>)" for s :: "'a chat" and w by (rule fewer_same) simp_all
  show "fewer s (persistence_failed E a e s)" for a e s by (rule fewer_same) simp_all
qed (rule fewer_record fewer_on_meta)+

lemma fewer_sideline:
  assumes "sideline E name why s = (t, True)"
  shows "fewer s t" and "dialled t \<subset> dialled s"
proof -
  note t = sideline_True[OF assms]
  obtain t1 where m: "moved_on E name why (s\<lparr>c_benched := insert name (c_benched s)\<rparr>) = (t1, True)" and "anyone_left E t1 = (t, True)"
    using assms by (auto simp: sideline_def split: if_splits prod.splits bool.splits)
  then have "t = t1" by (auto simp: anyone_left_def split: if_splits)
  moreover have "fewer (s\<lparr>c_benched := insert name (c_benched s)\<rparr>) t1"
    using fewer.after_moved_on[OF fewer.R_refl, where E = E and name = name and why = why] m by (metis fst_conv)
  ultimately have "c_recovery t = c_recovery s" by (simp add: fewer_def)
  moreover show "dialled t \<subset> dialled s" using t by (auto simp: dialled_def)
  ultimately show "fewer s t" using t(3,4) by (auto simp: fewer_def)
qed

lemma attempt_True:
  "attempt E why s = (t, True) \<Longrightarrow> fewer s t"
proof (induction s rule: measure_induct_rule[where f = "\<lambda>s. card (set (c_providers s) - c_benched s)"])
  case (less s)
  obtain s1 r1 where 1: "rebuild E s = (s1, r1)" by fastforce
  obtain s2 r2 where 2: "rung E s1 = (s2, r2)" by fastforce
  have f1: "fewer s s1" using fewer.after_rebuild[OF fewer.R_refl, where E = E] 1 by (metis fst_conv)
  have f2: "fewer s s2" using fewer.after_rung[OF f1, where E = E] 2 by (metis fst_conv)
  show ?case
  proof (cases r1)
    case (Inr u)
    then show ?thesis using less.prems 1 f1 by (subst (asm) attempt.simps) simp
  next
    case (Inl err)
    let ?c = "case r2 of Inr p \<Rightarrow> pk_provider p | Inl _ \<Rightarrow> []" and ?m = "''could not start a provider ('' @ why @ ''): '' @ err"
    let ?ev = "from_provider ?c (failure (now s2) CRASH ?m)"
    obtain s3 e s4 where 3: "record_event E ?ev s2 = (s3, Some e)" and 4: "sideline E ?c ''would not start'' s3 = (s4, True)"
      and rest: "attempt E why s4 = (t, True)"
      using less.prems
      by (subst (asm) attempt.simps) (auto simp: 1 2 Inl Let_def split: if_splits prod.splits option.splits bool.splits)
    have "fewer s2 s3" using fewer_record[of s2 E ?ev] 3 by simp
    then have "fewer s s4" using fewer_trans[OF f2] fewer_trans[OF _ fewer_sideline(1)[OF 4]] by blast
    moreover have "fewer s4 t"
      using rest by (rule less.IH[OF attempt_decreases[OF 1[symmetric] 2[symmetric] 3[symmetric] 4[symmetric]]])
    ultimately show ?thesis by (rule fewer_trans)
  qed
qed

section \<open>Operations that hand over once\<close>

lemma fewer_updates:
  "fewer s t \<Longrightarrow> fewer s (t\<lparr>c_unanswered := un\<rparr>)" "fewer s t \<Longrightarrow> fewer s (t\<lparr>c_turn_failed := tf\<rparr>)"
  "fewer s t \<Longrightarrow> fewer s (t\<lparr>c_next_turns := nt\<rparr>)" "fewer s t \<Longrightarrow> fewer s (t\<lparr>c_in_turn := it\<rparr>)"
  "fewer s t \<Longrightarrow> fewer s (t\<lparr>c_turn_recorded := tr\<rparr>)" "fewer s t \<Longrightarrow> fewer s (t\<lparr>c_outbox := ob\<rparr>)"
  "fewer s t \<Longrightarrow> fewer s (t\<lparr>c_awaiting := aw\<rparr>)" "fewer s t \<Longrightarrow> fewer s (t\<lparr>c_turn := tu\<rparr>)"
  "fewer s t \<Longrightarrow> fewer s (requeue_awaiting t)" "fewer s t \<Longrightarrow> fewer s (remember_message x l t)"
  by (erule fewer_trans, rule fewer_same; simp add: requeue_awaiting_def remember_message_def split: list.splits)+

lemma fewer_save: "fewer s t \<Longrightarrow> fewer s (fst (save_or_fail E a f t))"
  by (erule fewer_trans, rule fewer_same) (auto simp: save_or_fail_def on_meta_def split: prod.splits sum.splits)

lemmas fewer_steps = fewer.steps fewer_updates fewer_save

lemma fewer_retry: "fewer s t \<Longrightarrow> fewer s (fst (retry_unanswered E b t))"
  unfolding retry_unanswered_def by (intro fewer_steps | assumption)+

lemma fewer_close: "fewer s (fst (close_turn E p x b s))"
  unfolding close_turn_def Let_def by (intro fewer_steps fewer_retry | assumption)+

lemma fewer_deliver: "fewer s (fst (deliver E d m was s))"
  unfolding deliver_def complete_message_def Let_def by (intro fewer_steps | assumption)+

text \<open>A flusher that has a result wherever the need is at most \<open>k\<close>.\<close>

definition ready :: "string set \<Rightarrow> 'r env \<Rightarrow> nat \<Rightarrow> 'r flusher \<Rightarrow> bool" where
  "ready A E k fl \<longleftrightarrow> named_ops (en_ops E) \<and> (\<forall>s. confined A E s \<and> need s \<le> k \<longrightarrow> fl s \<noteq> None)"

lemma readyD: "ready A E k fl \<Longrightarrow> confined A E s \<Longrightarrow> need s \<le> k \<Longrightarrow> fl s \<noteq> None"
  by (simp add: ready_def)

lemma confined_step: "ready A E k fl \<Longrightarrow> confines A E s t \<Longrightarrow> confined A E s \<Longrightarrow> confined A E t"
  by (simp add: ready_def confines_def)

lemma attempt_then_total:
  assumes "ready A E k fl" and "confined A E s" and "need s \<le> k"
  shows "attempt_then E fl why s \<noteq> None"
proof (cases "attempt E why s")
  case (Pair t ok)
  have "confined A E t" using confined_step[OF assms(1) _ assms(2)] conf_all.attempt_R[of A E s why] Pair by simp
  moreover have "ok \<Longrightarrow> need t \<le> k" using attempt_True fewer_need assms(3) Pair by (metis (full_types) le_trans)
  ultimately show ?thesis using readyD[OF assms(1)] Pair by (cases ok) (simp_all add: attempt_then_def)
qed

lemma dispatch_queued_total:
  assumes "ready A E k fl" and "confined A E s" and "need s \<le> k"
  shows "dispatch_queued E fl s \<noteq> None"
proof -
  obtain s1 b where st: "stale E s = (s1, b)" by fastforce
  have c1: "confined A E s1"
    using confined_step[OF assms(1) _ assms(2)] conf_all.after_stale[OF conf.R_refl, of A E s] st by simp
  have "fewer s s1" using fewer.after_stale[OF fewer.R_refl, where E = E] st by (metis fst_conv)
  then have n1: "need s1 \<le> k" using fewer_need assms(3) by (metis le_trans)
  show ?thesis
    using attempt_then_total[OF assms] attempt_then_total[OF assms(1) c1 n1] readyD[OF assms] readyD[OF assms(1) c1 n1]
    by (auto simp: dispatch_queued_def st split: bool.splits)
qed

lemma need_less:
  assumes "c_recovery s = None" and "c_recovery t = None" and "dialled t \<subset> dialled s" and "need s \<le> Suc k"
  shows "need t \<le> k"
  using assms psubset_card_mono[OF finite_dialled assms(3)] by (simp add: need_def)

lemma confined_close: "ready A E k fl \<Longrightarrow> confined A E s \<Longrightarrow> close_turn E p x b s = (t, ok) \<Longrightarrow> confined A E t"
  using confined_step conf_all.after_close[OF conf.R_refl, of A E s p x b] by (metis fst_conv)

lemma failed_total:
  assumes "ready A E k fl" and "confined A E s" and "need s \<le> Suc k" and "c_recovery s = None"
    and "blamed E s p \<in> set (c_providers s)"
  shows "failed E fl p kind s \<noteq> None"
proof -
  let ?name = "blamed E s p" and ?x = "[(''failed'', JString kind)]"
  obtain s1 ok where 1: "close_turn E ?name ?x (c_autoremove s) s = (s1, ok)" by fastforce
  obtain s2 ok2 where 2: "sideline E ?name kind s1 = (s2, ok2)" by fastforce
  have c1: "confined A E s1" using assms(1,2) 1 by (rule confined_close)
  have c2: "confined A E s2"
    using confined_step[OF assms(1) _ c1] conf_all.after_sideline[OF conf.R_refl, of A E s1 ?name kind] 2 by simp
  have f1: "fewer s s1" using fewer_close[of s E ?name ?x "c_autoremove s"] 1 by simp
  have less: "need s2 \<le> k" if "ok2"
  proof -
    have "sideline E ?name kind s1 = (s2, True)" using 2 that by simp
    from fewer_sideline[OF this] have f2: "fewer s1 s2" and "dialled s2 \<subset> dialled s1" by auto
    then have "dialled s2 \<subset> dialled s" using fewer_dialled[OF f1] by (rule_tac psubset_subset_trans)
    then show ?thesis using f1 f2 assms(3,4) by (rule_tac need_less[of s]) (simp_all add: fewer_def)
  qed
  note at = attempt_then_total[OF assms(1) c2 less, of "''provider failed''"]
  have "?name \<in> set (c_providers s1)" using assms(5) f1 by (simp add: fewer_def)
  then show ?thesis using at unfolding failed_def Let_def 1 by (cases ok; cases ok2) (simp_all add: 2)
qed

lemma unauthenticated_total:
  assumes "ready A E k fl" and "confined A E s" and "need s \<le> Suc k" and "c_recovery s = None"
    and "blamed E s (ev_provider e) \<in> dialled s"
  shows "unauthenticated E fl e s \<noteq> None"
proof -
  let ?name = "blamed E s (ev_provider e)" and ?x = "[(''unauthenticated'', JString (blamed E s (ev_provider e)))]"
  obtain s1 ok where 1: "close_turn E ?name ?x (c_autoremove s) s = (s1, ok)" by fastforce
  have c1: "confined A E s1" using assms(1,2) 1 by (rule confined_close)
  have f1: "fewer s s1" using fewer_close[of s E ?name ?x "c_autoremove s"] 1 by simp
  let ?ps = "filter (\<lambda>p. p \<noteq> ?name) (c_providers s1)" and ?a = "''saving an automatically-removed provider''"
  obtain s2 r where 2: "save_setting E ACTIVE_PROVIDERS (json_strings ?ps) ?a s1 = (s2, r)" by fastforce
  have f2: "fewer s1 s2" using fewer_save[OF fewer.R_refl, of s1 E ?a] 2 unfolding save_setting_def by (metis fst_conv)
  have c2: "confined A E s2"
    using confined_step[OF assms(1) _ c1] conf_all.R_setting[of A E s1 ACTIVE_PROVIDERS "json_strings ?ps" ?a] 2 by simp
  let ?s3 = "s2\<lparr>c_providers := ?ps, c_benched := c_benched s2 - {?name}, c_world := forget ?name (c_world s2)\<rparr>"
  have c3: "confined A E ?s3" using c2 f2 by (auto simp: confined_def fewer_def)
  obtain s4 ok4 where 4: "moved_on E ?name ''unauthenticated'' ?s3 = (s4, ok4)" by fastforce
  obtain s5 ok5 where 5: "anyone_left E s4 = (s5, ok5)" by fastforce
  have c4: "confined A E s4" using confined_step[OF assms(1) _ c3] confines_moved_on[of A E ?s3] 4 by (metis fst_conv)
  have c5: "confined A E s5"
    using confined_step[OF assms(1) _ c4] conf_all.after_anyone_left[OF conf.R_refl, of A E s4] 5 by simp
  have f4: "fewer ?s3 s4"
    using fewer.after_moved_on[OF fewer.R_refl, where E = E and name = ?name and why = "''unauthenticated''"] 4 by (metis fst_conv)
  have less: "need s5 \<le> k" if "ok5"
  proof -
    have "s5 = s4" using 5 that by (auto simp: anyone_left_def split: if_splits)
    have "dialled ?s3 \<subseteq> dialled s - {?name}" using f1 f2 by (auto simp: fewer_def dialled_def)
    then have "dialled s5 \<subset> dialled s" using assms(5) fewer_dialled[OF f4] \<open>s5 = s4\<close> by blast
    then show ?thesis using f1 f2 f4 assms(3,4) \<open>s5 = s4\<close> by (rule_tac need_less[of s]) (simp_all add: fewer_def)
  qed
  note at = attempt_then_total[OF assms(1) c5 less, of "''provider lost its login''"]
  have "?name \<in> set (c_providers s1)" using assms(5) f1 by (simp add: fewer_def dialled_def)
  then show ?thesis using at unfolding unauthenticated_def Let_def 1
    by (cases ok; cases r; cases ok4; cases ok5) (simp_all add: 2 4 5)
qed

section \<open>A full context is handed over once\<close>

lemma push_recovery_stage:
  "push_recovery E stage tx fresh s = (t, True) \<Longrightarrow> \<exists>r. c_recovery t = Some r \<and> rc_stage r = stage"
  unfolding push_recovery_def save_recovery_def Let_def
  by (auto simp: new_uuid_def split: prod.splits sum.splits)

lemma recovery_message_total:
  assumes "ready A E k fl" and "confined A E s" and "(if stage = Retrying then 2 else 1) \<le> k"
  shows "recovery_message E fl stage tx fresh s \<noteq> None"
proof -
  have send: "send_recovery E fl stage tx fresh u \<noteq> None" if u: "confined A E u" for u
  proof (cases "push_recovery E stage tx fresh u")
    case (Pair s1 ok)
    let ?s1 = "set_status BUSY (s1\<lparr>c_turn_failed := None\<rparr>)"
    have "confined A E s1"
      using confined_step[OF assms(1) _ u] conf_all.R_push[of A E u stage tx fresh] Pair by simp
    then have c: "confined A E ?s1" by (simp add: confined_def set_status_def)
    have "ok \<Longrightarrow> need ?s1 \<le> k" using push_recovery_stage[of E stage tx fresh u s1] Pair assms(3)
      by (auto simp: need_def set_status_def)
    then show ?thesis using dispatch_queued_total[OF assms(1) c] Pair
      by (auto simp: send_recovery_def split: bool.splits)
  qed
  obtain s1 ok where 1: "close_turn E (blamed E s []) [(''context_limit'', JBool True)] False s = (s1, ok)" by fastforce
  have "confined A E s1" using assms(1,2) 1 by (rule confined_close)
  then have "confined A E (stop_parked E s1)" using confined_step[OF assms(1) conf_all.R_stop_parked] by simp
  then show ?thesis using send[of "stop_parked E s1"] send[OF assms(2)] 1
    by (auto simp: recovery_message_def split: bool.splits)
qed

lemma start_handoff_total: "ready A E k fl \<Longrightarrow> confined A E s \<Longrightarrow> 1 \<le> k \<Longrightarrow> start_handoff E fl s \<noteq> None"
  unfolding start_handoff_def by (rule recovery_message_total) simp_all

lemma recover_context_total:
  assumes "ready A E k fl" and "confined A E s" and "1 \<le> k"
  shows "recover_context E fl delivered s \<noteq> None"
proof -
  let ?rec = "\<lparr>rc_stage = Compacting, rc_message_id = [], rc_retry = (if delivered then join [newline, newline] (turn_texts s) else [])\<rparr>"
  obtain s1 ok where 1: "save_recovery E (Some ?rec) None None s = (s1, ok)" by fastforce
  have c1: "confined A E s1"
    using confined_step[OF assms(1) confines_save_recovery[OF conf.R_refl] assms(2)] 1 by (metis fst_conv)
  then have c2: "confined A E (s1\<lparr>c_turn_failed := None\<rparr>)" by (simp add: confined_def)
  have c3: "confined A E (s1\<lparr>c_turn_failed := None, c_runner := Some (fst (rn_compact (en_ops E) j r))\<rparr>)"
    if "c_runner s1 = Some r" for j r
    using confined_step[OF assms(1) conf_all.R_compact[of "s1\<lparr>c_turn_failed := None\<rparr>" r] c2] that by simp
  show ?thesis
  proof (cases "c_runner s1")
    case None
    then show ?thesis using start_handoff_total[OF assms(1) c2 assms(3)] 1
      by (cases ok) (simp_all add: recover_context_def)
  next
    case (Some r)
    obtain r' answer where a: "rn_compact (en_ops E) (ticks (s1\<lparr>c_turn_failed := None\<rparr>)) r = (r', answer)" by fastforce
    have "confined A E (s1\<lparr>c_turn_failed := None, c_runner := Some r'\<rparr>)"
      using c3[OF Some, of "ticks (s1\<lparr>c_turn_failed := None\<rparr>)"] a by simp
    from start_handoff_total[OF assms(1) this assms(3)] show ?thesis
      using 1 Some a by (cases ok) (simp_all add: recover_context_def Let_def)
  qed
qed

lemma recorded_same:
  assumes "ready A E k fl" and "confined A E s" and "record_event E ev s = (s1, Some e)" and "c_runner s = Some r"
  shows "confined A E s1" and "c_recovery s1 = c_recovery s" and "dialled s1 = dialled s" and "need s1 = need s"
    and "c_runner s1 = Some r" and "ev_provider e = (if ev_provider ev = [] then running_name E s else ev_provider ev)"
proof -
  have f: "c_recovery s1 = c_recovery s" "c_providers s1 = c_providers s" "c_benched s1 = c_benched s" "c_runner s1 = c_runner s"
    by (subst record_event_Some(2)[OF assms(3)], simp)+
  have "e = stamped (c_store s) (attributed E s ev)" using store_append_Inr[OF record_event_Some(1)[OF assms(3)]] by simp
  then show "ev_provider e = (if ev_provider ev = [] then running_name E s else ev_provider ev)"
    using assms(4) by (simp add: stamped_def attributed_def Let_def running_name_def)
  show "confined A E s1" using confined_step[OF assms(1) confines_record assms(2)] assms(3) by (metis fst_conv)
  show "c_recovery s1 = c_recovery s" "dialled s1 = dialled s" "need s1 = need s" "c_runner s1 = Some r"
    using f assms(4) by (simp_all add: dialled_def need_def split: option.splits)
qed

lemma full_context_total:
  assumes rd: "ready A E k fl" and c: "confined A E s" and need: "need s \<le> Suc k"
    and open_: "\<not> in_stage Compacting (c_recovery s)"
  shows "c_recovery s = None \<Longrightarrow> recover_context E fl False s \<noteq> None"
    and "recovery_ended E fl e (s\<lparr>c_turn_failed := Some CONTEXT_LIMIT\<rparr>) \<noteq> None"
proof -
  assume "c_recovery s = None"
  with need have "1 \<le> k" by (simp add: need_def)
  then show "recover_context E fl False s \<noteq> None" by (rule recover_context_total[OF rd c])
next
  have c1: "confined A E (s\<lparr>c_in_turn := False, c_turn_recorded := False, c_unanswered := [], c_turn_failed := None\<rparr>)"
    using c by (simp add: confined_def)
  have "rc_stage rec = Retrying \<Longrightarrow> 1 \<le> k" if "c_recovery s = Some rec" for rec using need that by (simp add: need_def)
  then show "recovery_ended E fl e (s\<lparr>c_turn_failed := Some CONTEXT_LIMIT\<rparr>) \<noteq> None"
    using start_handoff_total[OF rd c1] open_ by (cases "c_recovery s") (simp_all add: recovery_ended_def Let_def in_stage_def)
qed

lemma send_refused_total:
  assumes rd: "ready A E k fl" and c: "confined A E s" and need: "need s \<le> Suc k" and run: "c_runner s = Some r"
    and dial: "c_recovery s = None \<Longrightarrow> rn_name (en_ops E) r \<in> dialled s" and open_: "\<not> in_stage Compacting (c_recovery s)"
  shows "send_refused E fl why s \<noteq> None"
proof (cases "classify why = CONTEXT_LIMIT")
  case True
  obtain s1 x where rec: "record_event E (from_provider (running_name E s) (failure (now s) CONTEXT_LIMIT why)) s = (s1, x)" by fastforce
  show ?thesis
  proof (cases x)
    case (Some e)
    note s1 = recorded_same[OF rd c rec[unfolded Some] run]
    show ?thesis using full_context_total[OF rd s1(1)] need open_ s1(2,4) rec Some True
      by (simp add: send_refused_def Let_def)
  qed (use rec True in \<open>simp add: send_refused_def Let_def\<close>)
next
  case False
  let ?name = "running_name E s"
  let ?ev = "from_provider ?name (failure (now s) (classify why) (?name @ '' would not take the message: '' @ why))"
  obtain s1 x where rec: "record_event E ?ev s = (s1, x)" by fastforce
  show ?thesis
  proof (cases "c_recovery s = None \<and> (\<exists>e. x = Some e)")
    case True
    then obtain e where x: "x = Some e" and none: "c_recovery s = None" by blast
    note s1 = recorded_same[OF rd c rec[unfolded x] run]
    have "ev_provider e = ?name" using s1(6) by (simp add: from_provider_def)
    then have b: "blamed E s1 (ev_provider e) = ?name" "blamed E s1 ?name = ?name"
      using s1(5) by (simp_all add: blamed_def running_name_def run)
    have d: "?name \<in> dialled s1" using dial[OF none] s1(3) by (simp add: running_name_def run)
    have n1: "need s1 \<le> Suc k" and r1: "c_recovery s1 = None" using need none s1 by simp_all
    have "unauthenticated E fl e s1 \<noteq> None" using d b(1) by (intro unauthenticated_total[OF rd s1(1) n1 r1]) simp
    moreover have "failed E fl ?name (classify why) s1 \<noteq> None"
      using d b(2) by (intro failed_total[OF rd s1(1) n1 r1]) (simp add: dialled_def)
    ultimately show ?thesis using rec x False none by (simp add: send_refused_def Let_def)
  qed (use rec False in \<open>auto simp: send_refused_def Let_def\<close>)
qed

lemma remember_dial [simp]:
  "c_runner (remember_message x l s) = c_runner s" "c_providers (remember_message x l s) = c_providers s"
  "c_benched (remember_message x l s) = c_benched s" "c_runner (remember_runner_turn s) = c_runner s"
  "c_providers (remember_runner_turn s) = c_providers s" "c_benched (remember_runner_turn s) = c_benched s"
  by (auto simp: remember_message_def remember_runner_turn_def split: list.splits option.splits)

lemma delivered_same:
  assumes "deliver E d m was s = (t, True)"
  shows "c_runner t = c_runner s" and "c_providers t = c_providers s" and "c_benched t = c_benched s"
proof -
  obtain s1 e where r: "record_event E (opening_event s d m was) s = (s1, Some e)"
    using assms by (auto simp: deliver_def split: prod.splits option.splits)
  let ?s2 = "remember_runner_turn (s1\<lparr>c_turn := max (c_turn s1) (ev_turn e)\<rparr>)"
  let ?s3 = "?s2\<lparr>c_next_turns := c_next_turns ?s2 + (if d = NextTurn \<and> was then 1 else 0)\<rparr>"
  obtain s4 where c: "complete_message E (pm_id m) ?s3 = (s4, True)"
    using assms r by (auto simp: deliver_def Let_def split: prod.splits bool.splits)
  have "c_runner s4 = c_runner s1" "c_providers s4 = c_providers s1" "c_benched s4 = c_benched s1"
    by (subst complete_message_frame[OF c], simp)+
  moreover have "c_runner s1 = c_runner s" "c_providers s1 = c_providers s" "c_benched s1 = c_benched s"
    by (subst record_event_Some(2)[OF r], simp)+
  moreover have "c_runner t = c_runner s4" "c_providers t = c_providers s4" "c_benched t = c_benched s4"
    using assms r c by (auto simp: deliver_def Let_def set_status_def)
  ultimately show "c_runner t = c_runner s" "c_providers t = c_providers s" "c_benched t = c_benched s" by simp_all
qed

text \<open>While messages are handed over one by one, the runner and the dial stay what they are.\<close>

lemma send_queued_total:
  assumes rd: "ready A E k fl"
  shows "confined A E s \<Longrightarrow> need s \<le> Suc k \<Longrightarrow> (\<And>r. c_runner s = Some r \<Longrightarrow> c_recovery s = None \<Longrightarrow> rn_name (en_ops E) r \<in> dialled s) \<Longrightarrow>
    send_queued E fl s \<noteq> None"
proof (induction s rule: measure_induct_rule[where f = "\<lambda>s. length (c_outbox s)"])
  case (less s)
  show ?case
  proof (cases "\<exists>m ms r. c_outbox s = m # ms \<and> \<not> held_back s m \<and> c_runner s = Some r")
    case False
    then show ?thesis by (subst send_queued.simps) (auto split: list.splits option.splits)
  next
    case True
    then obtain m ms r where out: "c_outbox s = m # ms" and held: "\<not> held_back s m" and run: "c_runner s = Some r" by blast
    obtain r' x where snd: "rn_send (en_ops E) (ticks s) (pm_text m) r = (r', x)" by fastforce
    let ?s = "s\<lparr>c_runner := Some r'\<rparr>"
    have nm: "rn_name (en_ops E) r' = rn_name (en_ops E) r" using rd named_opsD(3)[OF _ snd] by (simp add: ready_def)
    have c: "confined A E ?s" using confined_step[OF rd conf_all.R_send[OF run, where j = "ticks s" and tx = "pm_text m"] less.prems(1)] snd by simp
    have same: "need ?s = need s" "dialled ?s = dialled s" by (simp_all add: need_def dialled_def split: option.splits)
    have open_: "\<not> in_stage Compacting (c_recovery ?s)" using held by (auto simp: held_back_def in_stage_def split: option.splits)
    have onward: "send_queued E fl t \<noteq> None"
      if "confined A E t" "fewer ?s t" "dialled t = dialled s" "c_runner t = Some r'" "c_outbox t = ms" for t
      using that less.prems(2,3) run nm fewer_need[OF that(2)] same out by (intro less.IH) (auto simp: fewer_def)
    have refused: "send_refused E fl why ?s \<noteq> None" for why
      using less.prems(2,3) run nm same by (intro send_refused_total[OF rd c, where r = r'] open_) auto
    have e: "send_queued E fl (echo m ?s) \<noteq> None"
    proof (rule onward)
      show "confined A E (echo m ?s)" using confined_step[OF rd conf_all.R_echo c] out by simp
    qed (simp_all add: echo_def set_status_def fewer_def dialled_def out)
    have d: "(case deliver E d m b ?s of (s2, False) \<Rightarrow> Some s2 | (s2, True) \<Rightarrow> send_queued E fl s2) \<noteq> None" for d b
    proof (cases "deliver E d m b ?s")
      case (Pair s2 ok)
      have c2: "confined A E s2" using confined_step[OF rd confines_deliver[OF conf.R_refl] c] Pair by (metis fst_conv)
      have f2: "fewer ?s s2" using fewer_deliver[of ?s E d m b] Pair by simp
      show ?thesis
      proof (cases ok)
        case True
        with Pair have dt: "deliver E d m b ?s = (s2, True)" by simp
        show ?thesis using onward[OF c2 f2] delivered_same[OF dt] deliver_True_outbox[OF dt] out
          by (simp add: dt dialled_def)
      qed (simp add: Pair)
    qed
    show ?thesis using out held run snd e d refused
      by (subst send_queued.simps) (auto split: sum.splits)
  qed
qed

section \<open>Enough fuel\<close>

lemma fresh_dialled:
  assumes "confined A E s" and "stale E s = (t, False)" and "c_runner s = Some r"
  shows "rn_name (en_ops E) r \<in> dialled s"
proof -
  obtain sig where cur: "c_current s = Some sig" and nm: "fst sig = rn_name (en_ops E) r"
    using confinedD(2)[OF assms(1,3)] by auto
  obtain p where p: "rung E s = (t, Inr p)" and sig: "sig = signature t p"
    using assms(2) cur by (auto simp: stale_def split: prod.splits sum.splits)
  have "pk_provider p \<in> set (usable s)" using p by (rule rung_usable)
  then show ?thesis using nm by (simp add: sig signature_def usable_def dialled_def)
qed

lemma flush_ready: "named_ops (en_ops E) \<Longrightarrow> ready A E n (flush E n)"
proof (induction n)
  case 0
  have "0 < need s" for s :: "'a chat" by (simp add: need_def split: option.splits)
  then show ?case using 0 by (simp add: ready_def)
next
  case (Suc n)
  note rd = Suc.IH[OF Suc.prems]
  have "flush_with E (flush E n) s \<noteq> None" if c: "confined A E s" and n: "need s \<le> Suc n" for s
  proof (cases "\<exists>t. running E s \<and> stale E s = (t, False)")
    case False
    then show ?thesis by (auto simp: flush_with_def Let_def split: prod.splits bool.splits)
  next
    case True
    then obtain t where run: "running E s" and st: "stale E s = (t, False)" by blast
    have t: "\<exists>w. t = s\<lparr>c_world := w\<rparr>"
      using st by (auto simp: stale_def rung_def split: option.splits prod.splits sum.splits) (metis chat.surjective chat.update_convs(37))
    have "send_queued E (flush E n) t \<noteq> None"
    proof (rule send_queued_total[OF rd])
      show "confined A E t" using c t by (auto simp: confined_def)
      show "need t \<le> Suc n" using n t by (auto simp: need_def dialled_def split: option.splits)
      show "rn_name (en_ops E) r \<in> dialled t" if "c_runner t = Some r" for r
        using fresh_dialled[OF c st] that t by (auto simp: dialled_def)
    qed
    then show ?thesis using run st by (simp add: flush_with_def Let_def)
  qed
  then show ?case using Suc.prems by (simp add: ready_def)
qed

lemma need_bound: "confined A E s \<Longrightarrow> finite A \<Longrightarrow> need s \<le> card A + 2"
  using card_mono[of A "dialled s"] by (auto simp: need_def dialled_def confined_def split: option.splits)

lemma flush_order_total:
  assumes "named_ops (en_ops E)" and "finite A" and "card A + 2 \<le> n" and "confined A E s"
  shows "flush_order E (confines A E) A (flush E n) False s"
proof unfold_locales
  fix t assume t: "confines A E s t"
  then have "confined A E t" using assms(1,4) by (simp add: confines_def)
  then obtain u where u: "flush E n t = Some u"
    using readyD[OF flush_ready[OF assms(1)]] need_bound[OF _ assms(2)] assms(3) by (meson le_trans not_Some_eq)
  have "flush_order E (confines A E) A (flush E n) True s" by (rule conf_all.flush_order_flush)
  from flush_order.fl_R[OF this t] show "ends False (confines A E) s (flush E n t)" by (simp add: ends_def u)
qed

lemma run_result:
  assumes "named_ops (en_ops E)" and "finite A" and "confined A E s"
    and "list_all (signal_in A) (queued @ later)" and "card A + 2 \<le> n"
  shows "\<exists>t acks. run E n queued later s = Some (t, acks)"
proof -
  have "case run E n queued later s of None \<Rightarrow> False | Some y \<Rightarrow> confines A E s (fst y)"
    by (rule conf_all.run_ends[OF flush_order_total[OF assms(1,2,5,3)] assms(4)])
  then show ?thesis by (cases "run E n queued later s") auto
qed

lemma run_loop_result:
  assumes "named_ops (en_ops E)" and "finite A" and "confined A E s"
    and "list_all (signal_in A) sigs" and "card A + 2 \<le> n"
  shows "\<exists>t acks. run_loop E n sigs s = Some (t, acks)"
proof -
  have "case run_loop E n sigs s of None \<Rightarrow> False | Some y \<Rightarrow> confines A E s (fst y)"
    by (rule conf_all.run_loop_ends[OF flush_order_total[OF assms(1,2,5,3)] assms(4) conf.R_refl])
  then show ?thesis by (cases "run_loop E n sigs s") auto
qed

text \<open>
  C6: the conductor never hangs. With fuel two more than the number of providers a session may
  use, every run of it has a result: however the providers refuse, crash, lose their login or fill
  up, the calls by which one hand-over leads to another end.
\<close>

theorem run_total:
  assumes "named_ops (en_ops E)" and "finite A" and "set (c_providers (open_at E sid ps cwd w)) \<subseteq> A"
    and "list_all (signal_in A) (queued @ later)" and "card A + 2 \<le> n"
  shows "\<exists>t acks. run E n queued later (open_at E sid ps cwd w) = Some (t, acks)"
  using assms by (intro run_result) (simp_all add: open_confined)

end
