(* ===== verification/Chat_Instances.thy ===== *)
theory Chat_Instances
  imports Chat_Progress
begin

text \<open>
  A small session on which the properties of the conductor are instantiated: a provider whose
  process is its name and the list of what it was sent, that takes every message in the current
  turn, never dies and cannot compact.
\<close>

definition tape_ops :: "(string \<times> string list) runner_ops" where
  "tape_ops = \<lparr>rn_name = fst, rn_native_id = (\<lambda>_. ''n1''), rn_generation = (\<lambda>_. None),
     rn_start = (\<lambda>_ _ _ r. (r, Inr ())), rn_seeded = (\<lambda>_. True), rn_send = (\<lambda>_ t (p, ts). ((p, ts @ [t]), Inr Immediate)),
     rn_compact = (\<lambda>_ r. (r, Inr False)), rn_retune = (\<lambda>_ _ _ r. (r, False)), rn_catch_up = (\<lambda>_ h r. (r, h = [])),
     rn_interrupt = (\<lambda>_ r. r), rn_stop = (\<lambda>_ r. r), rn_alive = (\<lambda>_ _. True), rn_parkable = (\<lambda>_ _. True),
     rn_make = (\<lambda>p _ _ _. Some (p, []))\<rparr>"

definition tape_env :: "(string \<times> string list) env" where
  "tape_env = \<lparr>en_codec = toy_codec, en_home = ''h'', en_ops = tape_ops, en_canonicalize = (\<lambda>_. None), en_here = ''/w''\<rparr>"

definition tape_world :: world where
  "tape_world = blank_world\<lparr>uuid := (\<lambda>k. replicate k CHR ''a'')\<rparr>"

definition tape_chat :: "(string \<times> string list) chat" where
  "tape_chat = opened_chat ''s'' empty_store small_meta [''d''] (ask_model ''m'') (config_default ''/w'') recovery_texts None 0 True None tape_world"

lemma named_tape: "named_ops (en_ops tape_env)"
  by (auto simp: named_ops_def tape_env_def tape_ops_def)

lemma confined_tape: "confined {''d''} tape_env tape_chat"
  by (simp add: confined_def tape_chat_def opened_chat_def)

lemma small_pending: "meta_pending small_meta = []"
  by (simp add: meta_pending_def small_meta_def fresh_data_def bt_get_def PENDING_def)

lemma jinv_tape: "jinv tape_chat"
  by (auto simp: jinv_def tape_chat_def opened_chat_def journal_def small_pending retry_id_def tape_world_def inj_def
      dest: arg_cong[where f = length])

text \<open>A send that is accepted, then a stop, with a report from a provider and a change of settings on the way.\<close>

definition tape_signals :: "signal list" where
  "tape_signals = [Woke (Configure [Ch_Model (ask_model ''m2''), Ch_Providers [''d'']] 7), Woke (Heard (event_new ''now'' END)), Woke Stop]"

lemma tape_signals_in: "list_all (signal_in {''d''}) tape_signals"
  by (simp add: tape_signals_def)

lemma ends_False: "ends False R s x \<Longrightarrow> \<exists>t. x = Some t \<and> R s t"
  by (cases x) (simp_all add: ends_def)

lemma tape_accepts: "\<exists>s1. handle_send tape_env (flush tape_env 3) ''hi'' 0 tape_chat = Some (s1, [(0, Inr ())]) \<and> confined {''d''} tape_env s1"
proof -
  let ?E = tape_env and ?s = tape_chat
  have "(case meta_enqueue toy_codec ''hi'' small_meta tape_world of (_, _, Inr _) \<Rightarrow> True | _ \<Rightarrow> False)" by code_simp
  then obtain w1 m1 p where en: "meta_enqueue toy_codec ''hi'' small_meta tape_world = (w1, m1, Inr p)"
    by (auto split: prod.splits sum.splits)
  have s: "c_meta ?s = small_meta" "c_world ?s = tape_world" "c_terminal ?s = False" by (simp_all add: tape_chat_def opened_chat_def)
  obtain u where u: "enqueue ?E ''hi'' ?s = (u, Inr ())" and t: "\<not> c_terminal u"
    by (simp add: enqueue_def save_or_fail_def on_meta_def s en tape_env_def set_status_def)
  have "flush_order ?E (confines {''d''} ?E) {''d''} (flush ?E 3) False ?s"
    by (rule flush_order_total[OF named_tape _ _ confined_tape]) simp_all
  moreover have "confines {''d''} ?E ?s (publish u)"
    using conf_all.after_queue(8)[OF conf_all.R_enqueue[of "{''d''}" ?E ?s "''hi''"]] u by simp
  ultimately have "ends False (confines {''d''} ?E) ?s (dispatch_queued ?E (flush ?E 3) (publish u))"
    by (rule flush_order.walk_dispatch_queued)
  from ends_False[OF this] obtain v
    where v: "dispatch_queued ?E (flush ?E 3) (publish u) = Some v" "confines {''d''} ?E ?s v" by (elim exE conjE)
  have "confined {''d''} ?E (publish v)"
    by (rule conf_all.after_queue(8)[OF v(2), unfolded confines_def, THEN mp, OF conjI, OF named_tape confined_tape])
  moreover have "handle_send ?E (flush ?E 3) ''hi'' 0 ?s = Some (publish v, [(0, Inr ())])"
    unfolding handle_send_def u prod.case Let_def v(1) using t by (simp add: publish_def)
  ultimately show ?thesis by (intro exI conjI)
qed

section \<open>Witnesses\<close>

theorem accepted_message_kept_witness:
  "\<exists>s1 t acks i. handle_send tape_env (flush tape_env 3) ''hi'' 0 tape_chat = Some (s1, [(0, Inr ())])
     \<and> run_loop tape_env 3 tape_signals s1 = Some (t, acks)
     \<and> (\<lparr>pm_id = i, pm_text = ''hi''\<rparr> \<in> set (meta_pending (c_meta t)) \<or> opened i ''hi'' (log_of t))"
proof -
  obtain s1 where s1: "handle_send tape_env (flush tape_env 3) ''hi'' 0 tape_chat = Some (s1, [(0, Inr ())])"
    and c: "confined {''d''} tape_env s1" using tape_accepts by (elim exE conjE)
  obtain t acks where t: "run_loop tape_env 3 tape_signals s1 = Some (t, acks)"
    using run_loop_result[OF named_tape _ c tape_signals_in, of 3] by auto
  have "\<not> c_terminal tape_chat" by (simp add: tape_chat_def opened_chat_def)
  from accepted_message_kept[OF jinv_tape this s1 t] s1 t show ?thesis by (elim exE) (intro exI conjI)
qed

theorem queue_is_journal_witness:
  "\<exists>t acks. run_loop tape_env 3 tape_signals tape_chat = Some (t, acks)
     \<and> (c_terminal t \<or> mset (c_awaiting t @ c_outbox t) = mset (meta_pending (c_meta t)))"
proof -
  obtain t acks where t: "run_loop tape_env 3 tape_signals tape_chat = Some (t, acks)"
    using run_loop_result[OF named_tape _ confined_tape tape_signals_in, of 3] by auto
  with queue_is_journal[OF jinv_tape t] show ?thesis by (intro exI conjI) (assumption, cases "c_terminal t", simp_all)
qed

definition tape_opened :: "(string \<times> string list) chat" where
  "tape_opened = open_at tape_env ''s'' [''d''] None tape_world"

lemma tape_opened_run:
  "\<exists>t acks. run tape_env (card (set (c_providers tape_opened)) + 2) [] [Woke (Send ''hi''), Woke Stop] tape_opened = Some (t, acks)"
  by (rule run_result[OF named_tape, where A = "set (c_providers tape_opened)"])
    (simp_all add: tape_opened_def open_confined)

theorem run_total_witness:
  "\<exists>t acks. run tape_env (card (set (c_providers tape_opened)) + 2) [] [Woke (Send ''hi''), Woke Stop] tape_opened = Some (t, acks)"
  unfolding tape_opened_def by (rule run_total[OF named_tape, where A = "set (c_providers tape_opened)"]) (simp_all add: tape_opened_def)

theorem run_publishes_log_witness:
  "\<exists>t acks. run tape_env (card (set (c_providers tape_opened)) + 2) [] [Woke (Send ''hi''), Woke Stop] tape_opened = Some (t, acks)
     \<and> log_of t = log_of tape_opened @ filter has_place (c_published t)"
proof -
  obtain t acks where t: "run tape_env (card (set (c_providers tape_opened)) + 2) [] [Woke (Send ''hi''), Woke Stop] tape_opened = Some (t, acks)"
    using tape_opened_run by (elim exE)
  show ?thesis
    by (intro exI conjI, rule t, unfold tape_opened_def, rule run_publishes_log[OF t[unfolded tape_opened_def], THEN conjunct2, THEN conjunct1])
qed

theorem conversation_confined_witness:
  "\<exists>t acks. run tape_env (card (set (c_providers tape_opened)) + 2) [] [Woke (Send ''hi''), Woke Stop] tape_opened = Some (t, acks)
     \<and> set (c_providers t) \<subseteq> set (c_providers tape_opened)"
proof -
  obtain t acks where t: "run tape_env (card (set (c_providers tape_opened)) + 2) [] [Woke (Send ''hi''), Woke Stop] tape_opened = Some (t, acks)"
    using tape_opened_run by (elim exE)
  have "set (c_providers t) \<subseteq> set (c_providers tape_opened)"
    by (rule conversation_confined[OF named_tape _ _ t[unfolded tape_opened_def], THEN conjunct1]) (simp_all add: tape_opened_def)
  with t show ?thesis by (intro exI conjI)
qed

end
