(* ===== verification/Shell_Env.thy ===== *)
theory Shell_Env
  imports Session_Store
begin

text \<open>
  \<open>shared/env.rs\<close>: the environment a terminal would have. The daemon's own variables, the existence of
  files and what a shell prints when it is asked (a child process with a deadline) are arguments;
  \<open>shell_memory\<close> holds the two statics of the module. Times are in seconds.
\<close>

definition RESOLVING :: string where "RESOLVING = ''OMNI_RESOLVING_ENVIRONMENT''"
definition COOLDOWN :: int where "COOLDOWN = 60"
definition BEGIN_MARK :: string where "BEGIN_MARK = ''-----omni-env-begin-----''"
definition END_MARK :: string where "END_MARK = ''-----omni-env-end-----''"
definition NOT_THEIRS :: "string list" where "NOT_THEIRS = [''PWD'', ''OLDPWD'', ''SHLVL'', ''_'', RESOLVING]"
definition FALLBACK_SHELLS :: "string list" where "FALLBACK_SHELLS = [''/bin/zsh'', ''/bin/bash'', ''/bin/sh'']"

type_synonym vars = "(string \<times> string) list"

section \<open>Pieces of text\<close>

text \<open>\<open>str::split\<close> and \<open>str::split_once\<close> at a character, \<open>str::find\<close> and \<open>str::rfind\<close>.\<close>

fun split_on :: "char \<Rightarrow> string \<Rightarrow> string list" where
  "split_on c [] = [[]]"
| "split_on c (x # xs) =
     (if x = c then [] # split_on c xs
      else (case split_on c xs of [] \<Rightarrow> [[x]] | w # ws \<Rightarrow> (x # w) # ws))"

definition split_once :: "char \<Rightarrow> string \<Rightarrow> (string \<times> string) option" where
  "split_once c s = (if c \<in> set s then Some (takeWhile (\<lambda>x. x \<noteq> c) s, tl (dropWhile (\<lambda>x. x \<noteq> c) s)) else None)"

fun find_str :: "string \<Rightarrow> string \<Rightarrow> nat option" where
  "find_str p [] = (if p = [] then Some 0 else None)"
| "find_str p (x # xs) = (if prefix p (x # xs) then Some 0 else map_option Suc (find_str p xs))"

fun rfind_str :: "string \<Rightarrow> string \<Rightarrow> nat option" where
  "rfind_str p [] = (if p = [] then Some 0 else None)"
| "rfind_str p (x # xs) =
     (case rfind_str p xs of Some n \<Rightarrow> Some (Suc n) | None \<Rightarrow> if prefix p (x # xs) then Some 0 else None)"

section \<open>What the shell exports\<close>

definition collect_vars :: "(string \<times> string) list \<Rightarrow> vars" where
  "collect_vars kvs = fold (\<lambda>(k, v) m. bt_insert k v m) kvs []"

definition theirs :: "string \<Rightarrow> bool" where
  "theirs key \<longleftrightarrow> key \<noteq> [] \<and> key \<notin> set NOT_THEIRS \<and> \<not> prefix ''OMNI_'' key"

definition records_between :: "nat \<Rightarrow> nat \<Rightarrow> string \<Rightarrow> (string \<times> string) list" where
  "records_between start stop out =
     filter (\<lambda>(key, _). theirs key) (List.map_filter (split_once CHR ''='') (split_on (CHR 0x00) (take (stop - start) (drop start out))))"

definition parse :: "string \<Rightarrow> vars option" where
  "parse out =
     (case find_str BEGIN_MARK out of
        None \<Rightarrow> None
      | Some b \<Rightarrow>
          let start = b + length BEGIN_MARK in
          (case rfind_str END_MARK out of
             None \<Rightarrow> None
           | Some stop \<Rightarrow>
               if stop < start then None
               else let vs = collect_vars (records_between start stop out) in if vs = [] then None else Some vs))"

section \<open>Asking it\<close>

record shell_memory =
  sm_answer :: "(vars \<times> int) option"
  sm_stepped :: bool

type_synonym probe = "string \<Rightarrow> string list \<Rightarrow> vars option \<Rightarrow> string option"

definition shell :: "string option \<Rightarrow> (string \<Rightarrow> bool) \<Rightarrow> string option \<Rightarrow> string" where
  "shell var is_file account =
     (case (case var of Some p \<Rightarrow> if p \<noteq> [] \<and> hd p = CHR ''/'' \<and> is_file p then Some p else None | None \<Rightarrow> None) of
        Some p \<Rightarrow> p
      | None \<Rightarrow>
          (case (case account of Some p \<Rightarrow> if is_file p then Some p else None | None \<Rightarrow> None) of
             Some p \<Rightarrow> p
           | None \<Rightarrow> (case List.find is_file FALLBACK_SHELLS of Some p \<Rightarrow> p | None \<Rightarrow> ''/bin/sh'')))"

definition run_shell :: "probe \<Rightarrow> string \<Rightarrow> string list \<Rightarrow> vars option \<Rightarrow> vars option" where
  "run_shell probe sh flags base = Option.bind (probe sh flags base) parse"

definition ask_shell :: "probe \<Rightarrow> string \<Rightarrow> shell_memory \<Rightarrow> shell_memory \<times> vars option" where
  "ask_shell probe sh m =
     (case (if sm_stepped m then None else run_shell probe sh [''-l'', ''-i'', ''-c''] None) of
        Some vs \<Rightarrow> (m, Some vs)
      | None \<Rightarrow>
          let login = run_shell probe sh [''-l'', ''-c''] None in
          (m\<lparr>sm_stepped := True\<rparr>,
           case run_shell probe sh [''-i'', ''-c''] login of Some vs \<Rightarrow> Some vs | None \<Rightarrow> login))"

definition fresh :: "int \<Rightarrow> shell_memory \<Rightarrow> bool" where
  "fresh instant m = (case sm_answer m of Some (_, was) \<Rightarrow> instant - was < COOLDOWN | None \<Rightarrow> False)"

definition answered :: "shell_memory \<Rightarrow> bool" where
  "answered m = (case sm_answer m of Some (vs, _) \<Rightarrow> vs \<noteq> [] | None \<Rightarrow> False)"

definition learned :: "shell_memory \<Rightarrow> vars" where
  "learned m = (case sm_answer m of Some (vs, _) \<Rightarrow> vs | None \<Rightarrow> [])"

text \<open>Asking takes from one instant to another.\<close>

definition env_refresh :: "probe \<Rightarrow> string \<Rightarrow> int \<Rightarrow> int \<Rightarrow> shell_memory \<Rightarrow> shell_memory \<times> bool" where
  "env_refresh probe sh instant later m =
     (let m1 = (if fresh instant m then m
                else (case ask_shell probe sh m of
                        (m0, vs) \<Rightarrow> m0\<lparr>sm_answer := Some (case vs of Some vs \<Rightarrow> vs | None \<Rightarrow> [], later)\<rparr>))
      in (m1, answered m1))"

section \<open>What a child gets\<close>

definition dirs :: "string \<Rightarrow> string list" where
  "dirs p = filter (\<lambda>d. d \<noteq> []) (split_on CHR '':'' p)"

definition merged :: "string \<Rightarrow> string \<Rightarrow> string" where
  "merged shells own =
     join '':'' (foldl (\<lambda>seen d. if d \<noteq> [] \<and> d \<notin> set seen then seen @ [d] else seen) [] (split_on CHR '':'' shells @ split_on CHR '':'' own))"

definition env_path :: "vars \<Rightarrow> shell_memory \<Rightarrow> string" where
  "env_path own m =
     (let mine = (case bt_get own ''PATH'' of Some p \<Rightarrow> p | None \<Rightarrow> [])
      in case bt_get (learned m) ''PATH'' of Some p \<Rightarrow> merged p mine | None \<Rightarrow> mine)"

definition env_vars :: "vars \<Rightarrow> shell_memory \<Rightarrow> vars" where
  "env_vars own m =
     bt_insert ''PATH'' (env_path own m)
       (fold (\<lambda>(k, v) all. if k \<noteq> ''PATH'' then bt_or_insert k v all else all) (learned m) own)"

text \<open>\<open>Path::join\<close> of a directory and a plain name.\<close>

definition dir_join :: "string \<Rightarrow> string \<Rightarrow> string" where
  "dir_join d name = (if d \<noteq> [] \<and> last d = CHR ''/'' then d @ name else path_join d name)"

definition find_program :: "(string \<Rightarrow> bool) \<Rightarrow> string \<Rightarrow> string \<Rightarrow> string option" where
  "find_program is_file program p = List.find is_file (map (\<lambda>d. dir_join d program) (dirs p))"

definition which :: "(string \<Rightarrow> bool) \<Rightarrow> vars \<Rightarrow> probe \<Rightarrow> string \<Rightarrow> int \<Rightarrow> int \<Rightarrow> string \<Rightarrow> shell_memory \<Rightarrow> shell_memory \<times> string option" where
  "which is_file own probe sh instant later program m =
     (if CHR ''/'' \<in> set program then (m, if is_file program then Some program else None)
      else
        (case find_program is_file program (env_path own m) of
           Some p \<Rightarrow> (m, Some p)
         | None \<Rightarrow>
             if fresh instant m then (m, None)
             else let m1 = fst (env_refresh probe sh instant later m) in (m1, find_program is_file program (env_path own m1))))"

section \<open>What holds\<close>

lemma split_on_nonempty [simp]: "split_on c s \<noteq> []"
  by (induction s) (auto split: list.splits)

lemma split_on_plain: "c \<notin> set w \<Longrightarrow> split_on c w = [w]"
  by (induction w) auto

lemma split_on_append: "c \<notin> set w \<Longrightarrow> split_on c (w @ c # s) = w # split_on c s"
  by (induction w) auto

lemma split_on_pieces: "w \<in> set (split_on c s) \<Longrightarrow> c \<notin> set w"
  by (induction s arbitrary: w) (auto split: list.splits if_splits)

lemma split_on_join: "ws \<noteq> [] \<Longrightarrow> (\<And>w. w \<in> set ws \<Longrightarrow> c \<notin> set w) \<Longrightarrow> split_on c (join [c] ws) = ws"
  by (induction "[c]" ws rule: join.induct) (simp_all add: split_on_plain split_on_append)

text \<open>The first occurrence of each name, in order.\<close>

definition first_of_each :: "string list \<Rightarrow> string list" where
  "first_of_each ds = rev (remdups (rev ds))"

lemma keep_new: "foldl (\<lambda>seen d. if d \<noteq> [] \<and> d \<notin> set seen then seen @ [d] else seen) [] ds = first_of_each (filter (\<lambda>d. d \<noteq> []) ds)"
  by (induction ds rule: rev_induct) (auto simp: first_of_each_def)

lemma dirs_merged: "dirs (merged a b) = first_of_each (dirs a @ dirs b)"
proof -
  let ?ds = "first_of_each (dirs a @ dirs b)"
  have m: "merged a b = join '':'' ?ds" unfolding merged_def keep_new dirs_def by simp
  have pieces: "d \<noteq> [] \<and> CHR '':'' \<notin> set d" if "d \<in> set ?ds" for d
    using that split_on_pieces[of d "CHR '':''"] by (auto simp: first_of_each_def dirs_def)
  show ?thesis
  proof (cases "?ds = []")
    case True
    then show ?thesis by (simp add: m dirs_def)
  next
    case False
    then have "split_on CHR '':'' (join [CHR '':''] ?ds) = ?ds" using pieces by (intro split_on_join) auto
    moreover have "filter (\<lambda>d. d \<noteq> []) ?ds = ?ds" using pieces by (simp add: filter_id_conv)
    ultimately show ?thesis by (simp add: dirs_def m)
  qed
qed

lemma filled_in:
  "bt_get (fold (\<lambda>(k, v) all. if k \<noteq> ''PATH'' then bt_or_insert k v all else all) vs own) k
     = (case bt_get own k of Some v \<Rightarrow> Some v | None \<Rightarrow> if k = ''PATH'' then None else bt_get vs k)"
proof (induction vs arbitrary: own)
  case (Cons p vs)
  obtain a b where p: "p = (a, b)" by (cases p)
  have "bt_get (p # vs) k = (if k = a then Some b else bt_get vs k)" by (simp add: p bt_get_def)
  then show ?case using Cons[of "if a = ''PATH'' then own else bt_or_insert a b own"] by (auto simp: p split: option.splits)
qed (simp add: bt_get_def split: option.splits)

lemma first_of_each_snoc: "first_of_each (xs @ [x]) = (if x \<in> set xs then first_of_each xs else first_of_each xs @ [x])"
  by (simp add: first_of_each_def)

lemma find_append: "List.find P (xs @ ys) = (case List.find P xs of Some x \<Rightarrow> Some x | None \<Rightarrow> List.find P ys)"
  by (induction xs) auto

lemma find_first_of_each: "List.find P (map f (first_of_each xs)) = List.find P (map f xs)"
proof (induction xs rule: rev_induct)
  case (snoc x xs)
  have "List.find P (map f xs) = None \<Longrightarrow> x \<in> set xs \<Longrightarrow> \<not> P (f x)" by (simp add: find_None_iff)
  with snoc show ?case by (auto simp: first_of_each_snoc find_append split: option.splits)
qed (simp add: first_of_each_def)

text \<open>
  a child gets the daemon's environment, filled in from the shell's. Every variable the daemon
  was started with but \<open>PATH\<close> is passed on unchanged, others come from the shell; when both have a
  \<open>PATH\<close>, the child's holds the shell's directories and then the daemon's own, each where it came
  first, none lost and none twice; and a program is found in the first of them that has it.
\<close>

theorem child_environment:
  "(\<forall>k. bt_get (env_vars own m) k =
     (if k = ''PATH'' then Some (env_path own m)
      else case bt_get own k of Some v \<Rightarrow> Some v | None \<Rightarrow> bt_get (learned m) k))
   \<and> (\<forall>p q. bt_get (learned m) ''PATH'' = Some p \<and> bt_get own ''PATH'' = Some q \<longrightarrow>
        dirs (env_path own m) = first_of_each (dirs p @ dirs q)
        \<and> find_program is_file program (env_path own m) = List.find is_file (map (\<lambda>d. dir_join d program) (dirs p @ dirs q)))"
proof -
  have "dirs (env_path own m) = first_of_each (dirs p @ dirs q)" if "bt_get (learned m) ''PATH'' = Some p" "bt_get own ''PATH'' = Some q" for p q
    using that by (simp add: env_path_def dirs_merged)
  then show ?thesis by (auto simp: env_vars_def filled_in find_program_def find_first_of_each simp flip: map_append split: option.splits)
qed

theorem child_environment_witness:
  "let own = [(''HOME'', ''/h''), (''PATH'', ''/usr/bin:/bin'')];
       m = \<lparr>sm_answer = Some ([(''HOME'', ''/x''), (''LANG'', ''C''), (''PATH'', ''/opt/bin:/bin'')], 0), sm_stepped = False\<rparr>
   in env_vars own m = [(''HOME'', ''/h''), (''LANG'', ''C''), (''PATH'', ''/opt/bin:/bin:/usr/bin'')]
    \<and> dirs (env_path own m) = [''/opt/bin'', ''/bin'', ''/usr/bin'']"
proof -
  let ?own = "[(''HOME'', ''/h''), (''PATH'', ''/usr/bin:/bin'')]"
  let ?m = "\<lparr>sm_answer = Some ([(''HOME'', ''/x''), (''LANG'', ''C''), (''PATH'', ''/opt/bin:/bin'')], 0), sm_stepped = False\<rparr>"
  have 1: "bt_get (learned ?m) ''PATH'' = Some ''/opt/bin:/bin''" "bt_get ?own ''PATH'' = Some ''/usr/bin:/bin''" by code_simp+
  have 2: "first_of_each (dirs ''/opt/bin:/bin'' @ dirs ''/usr/bin:/bin'') = [''/opt/bin'', ''/bin'', ''/usr/bin'']" by code_simp
  have "env_vars ?own ?m = [(''HOME'', ''/h''), (''LANG'', ''C''), (''PATH'', ''/opt/bin:/bin:/usr/bin'')]" by code_simp
  with child_environment[of ?own ?m] 1 2 show ?thesis by (simp add: Let_def)
qed

section \<open>How often the shell is asked\<close>

text \<open>Refreshes one after the other, each with the instants at which it begins and ends; those that asked.\<close>

fun refreshes :: "probe \<Rightarrow> string \<Rightarrow> (int \<times> int) list \<Rightarrow> shell_memory \<Rightarrow> (int \<times> int) list" where
  "refreshes probe sh [] m = []"
| "refreshes probe sh ((a, b) # ts) m =
     (if fresh a m then refreshes probe sh ts m else (a, b) # refreshes probe sh ts (fst (env_refresh probe sh a b m)))"

definition last_asked :: "shell_memory \<Rightarrow> int option" where
  "last_asked m = map_option snd (sm_answer m)"

definition in_time :: "(int \<times> int) list \<Rightarrow> bool" where
  "in_time ts \<longleftrightarrow> sorted_wrt (\<lambda>x y. snd x \<le> fst y) ts \<and> (\<forall>(a, b) \<in> set ts. a \<le> b)"

lemma asked_after:
  assumes "in_time ts" and "(a, b) \<in> set (refreshes probe sh ts m)" and "last_asked m = Some t"
  shows "t + COOLDOWN \<le> a"
  using assms
proof (induction ts arbitrary: m t)
  case (Cons p ts)
  obtain c d where p: "p = (c, d)" by (cases p)
  have ts: "in_time ts" using Cons.prems(1) by (auto simp: in_time_def)
  show ?case
  proof (cases "fresh c m")
    case True
    then show ?thesis using Cons.IH[OF ts _ Cons.prems(3)] Cons.prems(2) p by simp
  next
    case False
    then have c: "t + COOLDOWN \<le> c" using Cons.prems(3) by (auto simp: fresh_def last_asked_def split: option.splits)
    have l: "last_asked (fst (env_refresh probe sh c d m)) = Some d"
      using False by (simp add: env_refresh_def last_asked_def Let_def split: prod.splits)
    have "c \<le> d" using Cons.prems(1) p by (simp add: in_time_def)
    with c show ?thesis using Cons.IH[OF ts _ l] Cons.prems(2) False p by (auto simp: COOLDOWN_def)
  qed
qed simp

text \<open>
  the shell is asked at most once a minute. However refreshes follow one another, between the end
  of one that asked the shell and the beginning of the next that does lies the whole cooldown, also
  when the shell did not answer.
\<close>

theorem shell_asked_rarely:
  assumes "in_time ts"
  shows "sorted_wrt (\<lambda>x y. snd x + COOLDOWN \<le> fst y) (refreshes probe sh ts m)"
  using assms
proof (induction ts arbitrary: m)
  case (Cons p ts)
  obtain a b where p: "p = (a, b)" by (cases p)
  have ts: "in_time ts" using Cons.prems by (auto simp: in_time_def)
  have l: "last_asked (fst (env_refresh probe sh a b m)) = Some b" if "\<not> fresh a m"
    using that by (simp add: env_refresh_def last_asked_def Let_def split: prod.splits)
  show ?case using Cons.IH[OF ts] asked_after[OF ts _ l] p by auto
qed simp

theorem shell_asked_rarely_witness:
  "sorted_wrt (\<lambda>x y. snd x + COOLDOWN \<le> fst y)
     (refreshes (\<lambda>_ _ _. None) ''/bin/sh'' [(0, 10), (30, 40), (70, 71), (80, 90), (140, 141)] \<lparr>sm_answer = None, sm_stepped = False\<rparr>)
   \<and> refreshes (\<lambda>_ _ _. None) ''/bin/sh'' [(0, 10), (30, 40), (70, 71), (80, 90), (140, 141)] \<lparr>sm_answer = None, sm_stepped = False\<rparr>
       = [(0, 10), (70, 71), (140, 141)]"
proof -
  have "in_time [(0, 10), (30, 40), (70, 71), (80, 90), (140, 141)]" by (simp add: in_time_def)
  moreover have "refreshes (\<lambda>_ _ _. None) ''/bin/sh'' [(0, 10), (30, 40), (70, 71), (80, 90), (140, 141)] \<lparr>sm_answer = None, sm_stepped = False\<rparr>
       = [(0, 10), (70, 71), (140, 141)]" by code_simp
  ultimately show ?thesis using shell_asked_rarely by blast
qed

end
