(* ===== verification/Line_Process.thy ===== *)
theory Line_Process
  imports Shell_Env
begin

text \<open>
  \<open>shared/proc.rs\<close>: a child process that is written to and read from by lines. The operating system
  decides when a write breaks, when the process ends and how long readers hang on; the order of the
  threads around one process is the step relation \<open>proc_step\<close>.
\<close>

section \<open>Writing\<close>

record pipe =
  pi_open :: bool
  pi_bytes :: bytes

text \<open>A write may break after any number of bytes, also after the last, at the flush.\<close>

definition send_line :: "nat option \<Rightarrow> string \<Rightarrow> pipe \<Rightarrow> pipe \<times> bool" where
  "send_line break t p =
     (if \<not> pi_open p then (p, False)
      else (case break of
              None \<Rightarrow> (p\<lparr>pi_bytes := pi_bytes p @ t @ [newline]\<rparr>, True)
            | Some n \<Rightarrow> (p\<lparr>pi_bytes := pi_bytes p @ take n (t @ [newline]), pi_open := False\<rparr>, False)))"

definition close_stdin :: "pipe \<Rightarrow> pipe" where
  "close_stdin p = p\<lparr>pi_open := False\<rparr>"

fun send_lines :: "(string \<times> nat option) list \<Rightarrow> pipe \<Rightarrow> pipe \<times> string list" where
  "send_lines [] p = (p, [])"
| "send_lines ((t, break) # xs) p =
     (case send_line break t p of (p1, ok) \<Rightarrow> (case send_lines xs p1 of (p2, taken) \<Rightarrow> (p2, if ok then t # taken else taken)))"

definition whole_lines :: "string list \<Rightarrow> bytes" where
  "whole_lines ts = concat (map (\<lambda>t. t @ [newline]) ts)"

lemma send_lines_closed: "\<not> pi_open p \<Longrightarrow> send_lines xs p = (p, [])"
  by (induction xs) (auto simp: send_line_def)

text \<open>
  What reached a child is the lines it took, whole and in order, and after them at most a part of one
  that was refused: nothing is ever glued to a torn line.
\<close>

lemma child_gets_whole_lines:
  assumes "pi_open p" and "send_lines xs p = (p1, taken)"
  shows "\<exists>torn. pi_bytes p1 = pi_bytes p @ whole_lines taken @ torn
    \<and> (pi_open p1 \<longrightarrow> torn = [] \<and> taken = map fst xs)
    \<and> (\<exists>t. torn = [] \<or> prefix torn (t @ [newline])) \<and> prefix taken (map fst xs)"
  using assms
proof (induction xs arbitrary: p taken)
  case Nil
  then show ?case by (auto simp: whole_lines_def)
next
  case (Cons x xs)
  obtain t break where x: "x = (t, break)" by (cases x)
  show ?case
  proof (cases break)
    case None
    obtain taken' where r: "send_lines xs (p\<lparr>pi_bytes := pi_bytes p @ t @ [newline]\<rparr>) = (p1, taken')" "taken = t # taken'"
      using Cons.prems by (auto simp: x None send_line_def split: prod.splits)
    show ?thesis using Cons.IH[OF _ r(1)] Cons.prems(1) by (auto simp: r(2) x whole_lines_def)
  next
    case (Some n)
    let ?p = "p\<lparr>pi_bytes := pi_bytes p @ take n (t @ [newline]), pi_open := False\<rparr>"
    have "send_lines xs ?p = (?p, [])" by (rule send_lines_closed) simp
    then have "p1 = ?p" "taken = []" using Cons.prems by (auto simp: x Some send_line_def)
    then show ?thesis using take_is_prefix[of n "t @ [newline]"] by (auto simp: whole_lines_def simp del: take_append)
  qed
qed

section \<open>Callbacks\<close>

record callback_gate =
  cg_accepting :: bool
  cg_active :: nat

definition gate_new :: callback_gate where
  "gate_new = \<lparr>cg_accepting = True, cg_active = 0\<rparr>"

definition gate_enter :: "callback_gate \<Rightarrow> callback_gate option" where
  "gate_enter g = (if cg_accepting g then Some (g\<lparr>cg_active := Suc (cg_active g)\<rparr>) else None)"

definition gate_leave :: "callback_gate \<Rightarrow> callback_gate" where
  "gate_leave g = g\<lparr>cg_active := cg_active g - 1\<rparr>"

definition gate_disable :: "callback_gate \<Rightarrow> callback_gate" where
  "gate_disable g = g\<lparr>cg_accepting := False\<rparr>"

definition gate_idle :: "callback_gate \<Rightarrow> bool" where
  "gate_idle g \<longleftrightarrow> cg_active g = 0"

datatype reaping = Watching | Reaped | In_Exit | Reaper_Done
datatype stopping = Not_Stopping | Closing | Stopped_Now
datatype callback = Line_Heard | Exit_Heard

record line_process =
  lp_alive :: bool
  lp_running :: bool
  lp_gate :: callback_gate
  lp_reaper :: reaping
  lp_reading :: nat
  lp_stop :: stopping
  lp_called :: "callback list"

definition line_process_start :: line_process where
  "line_process_start = \<lparr>lp_alive = True, lp_running = True, lp_gate = gate_new, lp_reaper = Watching, lp_reading = 0, lp_stop = Not_Stopping, lp_called = []\<rparr>"

text \<open>
  The readers (\<open>pump\<close>), the thread that waits for the process (\<open>reaper\<close>) and the caller of \<open>stop\<close>; the
  last has closed the input and sent its signals when it comes to the gate.
\<close>

inductive proc_step :: "line_process \<Rightarrow> line_process \<Rightarrow> bool" where
  exits: "lp_alive s \<Longrightarrow> proc_step s (s\<lparr>lp_alive := False\<rparr>)"
| reaped: "lp_reaper s = Watching \<Longrightarrow> \<not> lp_alive s \<Longrightarrow> proc_step s (s\<lparr>lp_reaper := Reaped, lp_running := False\<rparr>)"
| exit_called: "lp_reaper s = Reaped \<Longrightarrow> gate_enter (lp_gate s) = Some g
    \<Longrightarrow> proc_step s (s\<lparr>lp_reaper := In_Exit, lp_gate := g, lp_called := lp_called s @ [Exit_Heard]\<rparr>)"
| exit_skipped: "lp_reaper s = Reaped \<Longrightarrow> gate_enter (lp_gate s) = None \<Longrightarrow> proc_step s (s\<lparr>lp_reaper := Reaper_Done\<rparr>)"
| exit_done: "lp_reaper s = In_Exit \<Longrightarrow> proc_step s (s\<lparr>lp_reaper := Reaper_Done, lp_gate := gate_leave (lp_gate s)\<rparr>)"
| line_called: "gate_enter (lp_gate s) = Some g
    \<Longrightarrow> proc_step s (s\<lparr>lp_gate := g, lp_reading := Suc (lp_reading s), lp_called := lp_called s @ [Line_Heard]\<rparr>)"
| line_done: "lp_reading s = Suc n \<Longrightarrow> proc_step s (s\<lparr>lp_gate := gate_leave (lp_gate s), lp_reading := n\<rparr>)"
| stop_closes: "lp_stop s = Not_Stopping \<Longrightarrow> proc_step s (s\<lparr>lp_gate := gate_disable (lp_gate s), lp_stop := Closing\<rparr>)"
| stop_returns: "lp_stop s = Closing \<Longrightarrow> gate_idle (lp_gate s) \<Longrightarrow> proc_step s (s\<lparr>lp_stop := Stopped_Now\<rparr>)"
| disabled: "proc_step s (s\<lparr>lp_gate := gate_disable (lp_gate s)\<rparr>)"

lemmas gate_defs = gate_new_def gate_enter_def gate_leave_def gate_disable_def gate_idle_def

definition gate_inv :: "line_process \<Rightarrow> bool" where
  "gate_inv s \<longleftrightarrow> cg_active (lp_gate s) = lp_reading s + (if lp_reaper s = In_Exit then 1 else 0)
     \<and> (lp_stop s \<noteq> Not_Stopping \<longrightarrow> \<not> cg_accepting (lp_gate s)) \<and> (lp_stop s = Stopped_Now \<longrightarrow> cg_active (lp_gate s) = 0)
     \<and> (lp_running s \<longleftrightarrow> lp_reaper s = Watching)
     \<and> (lp_alive s \<longrightarrow> lp_reaper s = Watching) \<and> count_list (lp_called s) Exit_Heard \<le> (if lp_reaper s \<in> {In_Exit, Reaper_Done} then 1 else 0)"

lemma count_snoc: "count_list (xs @ [x]) y = count_list xs y + (if x = y then 1 else 0)"
  by (induction xs) auto

lemma gate_inv_step: "proc_step s s1 \<Longrightarrow> gate_inv s \<Longrightarrow> gate_inv s1"
  by (induction rule: proc_step.induct) (auto simp: gate_inv_def gate_defs count_snoc split: if_splits)

lemma gate_inv_runs: "proc_step\<^sup>*\<^sup>* line_process_start s \<Longrightarrow> gate_inv s"
proof (induction rule: rtranclp_induct)
  case base
  show ?case by (simp add: gate_inv_def line_process_start_def gate_defs)
qed (rule gate_inv_step)

lemma stopped_step:
  assumes "proc_step s s1" and "gate_inv s" and "lp_stop s = Stopped_Now"
  shows "lp_stop s1 = Stopped_Now \<and> lp_called s1 = lp_called s"
  using assms by (cases) (auto simp: gate_inv_def gate_defs split: if_splits)

lemma stopped_silent:
  assumes "proc_step\<^sup>*\<^sup>* s s1" and "gate_inv s" and "lp_stop s = Stopped_Now"
  shows "lp_stop s1 = Stopped_Now \<and> lp_called s1 = lp_called s"
  using assms
proof (induction rule: rtranclp_induct)
  case (step y z)
  have "gate_inv y" using step.hyps(1) step.prems(1) by (induction rule: rtranclp_induct) (auto dest: gate_inv_step)
  then show ?case using stopped_step[OF step.hyps(2)] step.IH step.prems by simp
qed simp


definition demo_stopped :: line_process where
  "demo_stopped = line_process_start\<lparr>lp_gate := \<lparr>cg_accepting = False, cg_active = 0\<rparr>, lp_stop := Stopped_Now, lp_called := [Line_Heard]\<rparr>"

lemma demo_stopped_runs: "proc_step\<^sup>*\<^sup>* line_process_start demo_stopped"
proof -
  let ?a = "line_process_start\<lparr>lp_gate := \<lparr>cg_accepting = True, cg_active = 1\<rparr>, lp_reading := 1, lp_called := [Line_Heard]\<rparr>"
  let ?b = "?a\<lparr>lp_gate := \<lparr>cg_accepting = False, cg_active = 1\<rparr>, lp_stop := Closing\<rparr>"
  let ?c = "?b\<lparr>lp_gate := \<lparr>cg_accepting = False, cg_active = 0\<rparr>, lp_reading := 0\<rparr>"
  have "proc_step line_process_start ?a"
    using line_called[of line_process_start "\<lparr>cg_accepting = True, cg_active = 1\<rparr>"] by (simp add: line_process_start_def gate_defs)
  moreover have "proc_step ?a ?b" using stop_closes[of ?a] by (simp add: line_process_start_def gate_defs)
  moreover have "proc_step ?b ?c" using line_done[of ?b 0] by (simp add: line_process_start_def gate_defs)
  moreover have "proc_step ?c demo_stopped" using stop_returns[of ?c] by (simp add: line_process_start_def gate_defs demo_stopped_def)
  ultimately show ?thesis by (meson converse_rtranclp_into_rtranclp rtranclp.rtrancl_refl)
qed


text \<open>
  A process may end by itself and be stopped before the report of its end came to the gate: then nobody
  hears of it.
\<close>

lemma exit_can_go_unheard:
  "\<exists>s. proc_step\<^sup>*\<^sup>* line_process_start s \<and> \<not> lp_alive s \<and> lp_reaper s = Reaper_Done \<and> lp_called s = []"
proof -
  let ?a = "line_process_start\<lparr>lp_alive := False\<rparr>"
  let ?b = "?a\<lparr>lp_reaper := Reaped, lp_running := False\<rparr>"
  let ?c = "?b\<lparr>lp_gate := \<lparr>cg_accepting = False, cg_active = 0\<rparr>, lp_stop := Closing\<rparr>"
  let ?d = "?c\<lparr>lp_reaper := Reaper_Done\<rparr>"
  have "proc_step line_process_start ?a" by (rule exits) (simp add: line_process_start_def)
  moreover have "proc_step ?a ?b" by (rule reaped) (simp_all add: line_process_start_def)
  moreover have "proc_step ?b ?c" using stop_closes[of ?b] by (simp add: line_process_start_def gate_defs)
  moreover have "proc_step ?c ?d" by (rule exit_skipped) (simp_all add: gate_defs)
  ultimately have "proc_step\<^sup>*\<^sup>* line_process_start ?d" by (meson converse_rtranclp_into_rtranclp rtranclp.rtrancl_refl)
  then show ?thesis by (intro exI[of _ ?d]) (simp add: line_process_start_def)
qed

section \<open>Stopping and probing\<close>

datatype proc_signal = Term | Kill

text \<open>The signals \<open>stop\<close> sends, from whether the process was gone after each time of grace.\<close>

definition stop_signals :: "bool \<Rightarrow> bool \<Rightarrow> proc_signal list" where
  "stop_signals after_eof after_term = (if after_eof then [] else if after_term then [Term] else [Term, Kill])"

text \<open>\<open>run\<close>: the status when there was one in time, and what the two readers collected by then.\<close>

definition run_probe :: "int option \<Rightarrow> string option \<Rightarrow> string option \<Rightarrow> (int \<times> string) option" where
  "run_probe status out err =
     (case (status, out, err) of
        (Some code, Some o1, Some e1) \<Rightarrow> Some (code, trim (if trim o1 = [] then e1 else o1))
      | _ \<Rightarrow> None)"

text \<open>\<open>command\<close>: the program as the shell would find it, and the environment it would give.\<close>

definition command_for :: "(string \<Rightarrow> bool) \<Rightarrow> vars \<Rightarrow> probe \<Rightarrow> string \<Rightarrow> int \<Rightarrow> int \<Rightarrow> string \<Rightarrow> shell_memory \<Rightarrow> shell_memory \<times> string \<times> vars" where
  "command_for is_file own ask sh instant later program m =
     (case (if CHR ''/'' \<in> set program then (m, None) else which is_file own ask sh instant later program m) of
        (m1, found) \<Rightarrow> (m1, case found of Some p \<Rightarrow> p | None \<Rightarrow> program, env_vars own m1))"

end
