(* ===== verification/Cli_Runner.thy ===== *)
theory Cli_Runner
  imports Line_Process Provider_Base
begin

text \<open>
  What the runners of Claude and Antigravity share: one process per runner, written to by lines. The
  outside of a process is a record of what it will do, read off by a count of steps: where a write
  breaks, which lines it prints while the runner waits (before the wait is over, and after), whether it
  is alive, whether it can be started. What was started, asked and reported is kept as it happens.
\<close>

type_synonym printed = "(string \<times> bytes) list"

record started =
  sa_argv :: "string list"
  sa_env :: "(string \<times> string) list"
  sa_cwd :: string

record cli =
  cl_break :: "nat \<Rightarrow> nat option"
  cl_wait :: "nat \<Rightarrow> printed \<times> printed"
  cl_alive :: "nat \<Rightarrow> bool"
  cl_spawn :: "nat \<Rightarrow> string option"
  cl_tick :: nat
  cl_files :: world
  cl_started :: "started list"
  cl_asked :: "(string \<times> json \<times> bool) list"
  cl_emitted :: "event list"

definition cli_next :: "cli \<Rightarrow> cli" where
  "cli_next c = c\<lparr>cl_tick := Suc (cl_tick c)\<rparr>"

definition cli_emit :: "event list \<Rightarrow> cli \<Rightarrow> cli" where
  "cli_emit es c = c\<lparr>cl_emitted := cl_emitted c @ es\<rparr>"

definition cli_write :: "string \<Rightarrow> pipe \<Rightarrow> cli \<Rightarrow> pipe \<times> cli \<times> bool" where
  "cli_write t p c = (case send_line (cl_break c (cl_tick c)) t p of (p1, ok) \<Rightarrow> (p1, cli_next c, ok))"

definition fresh_pipe :: pipe where
  "fresh_pipe = \<lparr>pi_open = True, pi_bytes = []\<rparr>"

definition cli_start :: "started \<Rightarrow> cli \<Rightarrow> cli \<times> pipe res" where
  "cli_start sa c =
     (case cl_spawn c (cl_tick c) of
        Some err \<Rightarrow> (cli_next c, Inl err)
      | None \<Rightarrow> ((cli_next c)\<lparr>cl_started := cl_started c @ [sa]\<rparr>, Inr fresh_pipe))"

definition stderr_events :: "string \<Rightarrow> string \<Rightarrow> string \<Rightarrow> event list" where
  "stderr_events name now t = (if prefix ''error'' (to_lower t) then [from_provider name (failure now ''stderr'' t)] else [])"

definition exit_events :: "string \<Rightarrow> string \<Rightarrow> bool \<Rightarrow> string \<Rightarrow> int \<Rightarrow> event list" where
  "exit_events name program stopping now code = (if stopping then [] else [exited now name program code])"

lemma cli_write_facts:
  "cli_write t p c = (p1, c1, ok) \<Longrightarrow> cl_emitted c1 = cl_emitted c \<and> cl_asked c1 = cl_asked c \<and> cl_started c1 = cl_started c \<and> cl_files c1 = cl_files c
     \<and> (ok \<longrightarrow> pi_bytes p1 = pi_bytes p @ t @ [newline] \<and> pi_open p) \<and> (\<not> ok \<longrightarrow> \<not> pi_open p1)"
  by (auto simp: cli_write_def cli_next_def send_line_def split: prod.splits option.splits if_splits)

lemma cli_write_part:
  assumes "cli_write t p c = (p1, c1, ok)"
  shows "\<exists>torn. pi_bytes p1 = pi_bytes p @ torn \<and> prefix torn (t @ [newline])"
proof (cases "cl_break c (cl_tick c)")
  case None
  then show ?thesis using assms by (auto simp: cli_write_def send_line_def split: if_splits)
next
  case (Some n)
  then have "pi_bytes p1 = pi_bytes p @ (if pi_open p then take n (t @ [newline]) else [])"
    using assms by (auto simp: cli_write_def send_line_def)
  moreover have "prefix (if pi_open p then take n (t @ [newline]) else []) (t @ [newline])"
    using take_is_prefix[of n "t @ [newline]"] by (cases "pi_open p") (simp_all del: take_append prefix_snoc)
  ultimately show ?thesis by blast
qed

end
