(* ===== verification/Claude_Session.thy ===== *)
theory Claude_Session
  imports Seed_Text Jsonl_Log Session_Store
begin

text \<open>
  \<open>providers/claude_code_cli/session.rs\<close>: the file in which Claude Code keeps a conversation, and how a
  transcript is put there before Claude starts; with \<open>read\<close> of \<open>shared/jsonl.rs\<close>, which skips what it
  does not understand. Records form a list through \<open>parentUuid\<close>.
\<close>

definition CLAUDE_VERSION :: string where "CLAUDE_VERSION = ''2.1.237''"

definition ascii_alphanumeric :: "char \<Rightarrow> bool" where
  "ascii_alphanumeric c \<longleftrightarrow> CHR ''0'' \<le> c \<and> c \<le> CHR ''9'' \<or> CHR ''A'' \<le> c \<and> c \<le> CHR ''Z'' \<or> CHR ''a'' \<le> c \<and> c \<le> CHR ''z''"

definition slug :: "string \<Rightarrow> string" where
  "slug cwd = map (\<lambda>c. if ascii_alphanumeric c then c else CHR ''-'') cwd"

definition dirs_home :: "world \<Rightarrow> string" where
  "dirs_home w = (case env_var w ''HOME'' of Some h \<Rightarrow> h | None \<Rightarrow> [])"

definition claude_home :: "world \<Rightarrow> string" where
  "claude_home w = path_join (path_join (dirs_home w) ''.claude'') ''projects''"

definition session_path :: "world \<Rightarrow> string \<Rightarrow> string \<Rightarrow> string" where
  "session_path w cwd sid = path_join (path_join (claude_home w) (slug cwd)) (sid @ ''.jsonl'')"

section \<open>Reading\<close>

fun lossy_loop :: "codec \<Rightarrow> bytes list \<Rightarrow> world \<Rightarrow> world \<times> json list" where
  "lossy_loop J [] w = (tick_on w, [])"
| "lossy_loop J (l # ls) w =
     (case fault w (tick w) of
        Some _ \<Rightarrow> (tick_on w, [])
      | None \<Rightarrow>
          (case lossy_loop J ls (tick_on w) of
             (w1, vs) \<Rightarrow> (w1, case from_slice J (trim l) of Inr v \<Rightarrow> v # vs | Inl _ \<Rightarrow> vs)))"

definition lossy_read :: "codec \<Rightarrow> string \<Rightarrow> world \<Rightarrow> world \<times> json list" where
  "lossy_read J p w =
     (case (files w p, fault w (tick w)) of
        (Some f, None) \<Rightarrow> lossy_loop J (lines_of (content f)) (tick_on w)
      | _ \<Rightarrow> (tick_on w, []))"

definition uuid_of :: "json \<Rightarrow> string option" where
  "uuid_of v = Option.bind (jget v ''uuid'') as_str"

definition last_uuid :: "json list \<Rightarrow> string option" where
  "last_uuid vs = (case List.map_filter uuid_of vs of [] \<Rightarrow> None | us \<Rightarrow> Some (last us))"

definition tail_uuid :: "codec \<Rightarrow> string \<Rightarrow> world \<Rightarrow> world \<times> string option" where
  "tail_uuid J p w = (case lossy_read J p w of (w1, vs) \<Rightarrow> (w1, last_uuid vs))"

section \<open>Seeding\<close>

text \<open>A record takes an identifier and a reading of the clock.\<close>

definition claude_record :: "string \<Rightarrow> string \<Rightarrow> string \<Rightarrow> string option \<Rightarrow> json \<Rightarrow> world \<Rightarrow> world \<times> json" where
  "claude_record kind cwd sid parent message w =
     (case new_uuid w of
        (w1, u) \<Rightarrow>
          (w1, JObject
            [(''cwd'', JString cwd), (''gitBranch'', JString []), (''isSidechain'', JBool False), (''message'', message),
             (''parentUuid'', case parent of Some q \<Rightarrow> JString q | None \<Rightarrow> JNull), (''sessionId'', JString sid),
             (''timestamp'', JString (clock_now w)), (''type'', JString kind), (''userType'', JString ''external''),
             (''uuid'', JString u), (''version'', JString CLAUDE_VERSION)]))"

definition user_content :: "string \<Rightarrow> json" where
  "user_content t = JObject [(''content'', JString t), (''role'', JString ''user'')]"

definition assistant_content :: "string \<Rightarrow> string \<Rightarrow> string \<Rightarrow> json" where
  "assistant_content i model t = JObject
     [(''content'', JArray [JObject [(''text'', JString t), (''type'', JString ''text'')]]),
      (''id'', JString (''msg_'' @ take 16 (filter (\<lambda>c. c \<noteq> CHR ''-'') i))), (''model'', JString model),
      (''role'', JString ''assistant''), (''stop_reason'', JNull), (''stop_sequence'', JNull), (''type'', JString ''message''),
      (''usage'', JObject [(''input_tokens'', JInt 1), (''output_tokens'', JInt 1)])]"

definition with_request :: "json \<Rightarrow> json" where
  "with_request v = (case v of JObject m \<Rightarrow> JObject (bt_insert ''requestId'' (JString ''req_omni_seed'') m) | _ \<Rightarrow> v)"

definition seed_item :: "string \<Rightarrow> string \<Rightarrow> string \<Rightarrow> string option \<Rightarrow> turn_text \<Rightarrow> world \<Rightarrow> world \<times> json" where
  "seed_item cwd sid model parent t w =
     (if tn_role t = ''user'' then claude_record ''user'' cwd sid parent (user_content (tn_text t)) w
      else (case new_uuid w of
              (w1, i) \<Rightarrow> (case claude_record ''assistant'' cwd sid parent (assistant_content i model (tn_text t)) w1 of
                          (w2, v) \<Rightarrow> (w2, with_request v))))"

fun seed_records :: "string \<Rightarrow> string \<Rightarrow> string \<Rightarrow> string option \<Rightarrow> turn_text list \<Rightarrow> world \<Rightarrow> world \<times> json list" where
  "seed_records cwd sid model parent [] w = (w, [])"
| "seed_records cwd sid model parent (t # ts) w =
     (case seed_item cwd sid model parent t w of
        (w1, item) \<Rightarrow> (case seed_records cwd sid model (as_str (jindex item ''uuid'')) ts w1 of (w2, items) \<Rightarrow> (w2, item # items)))"

definition seed_claude :: "codec \<Rightarrow> string \<Rightarrow> string \<Rightarrow> turn_text list \<Rightarrow> string \<Rightarrow> string io" where
  "seed_claude J cwd sid turns model w =
     (case tail_uuid J (session_path w cwd sid) w of
        (w1, parent) \<Rightarrow>
          (case seed_records cwd sid model parent turns w1 of
             (w2, items) \<Rightarrow> io_bind (Jsonl_Log.extend J (session_path w cwd sid) items) (\<lambda>_. io_return (session_path w cwd sid)) w2))"

definition claude_user_line :: "codec \<Rightarrow> string \<Rightarrow> string" where
  "claude_user_line J t = to_text J (JObject
     [(''message'', JObject [(''content'', JArray [JObject [(''text'', JString t), (''type'', JString ''text'')]]), (''role'', JString ''user'')]),
      (''type'', JString ''user'')])"

section \<open>Chains\<close>

text \<open>Each record that has an identifier hangs off the one before it.\<close>

definition parent_of :: "json \<Rightarrow> string option" where
  "parent_of v = Option.bind (jget v ''parentUuid'') as_str"

fun linked :: "string option \<Rightarrow> json list \<Rightarrow> bool" where
  "linked q [] = True"
| "linked q (v # vs) = (case uuid_of v of None \<Rightarrow> linked q vs | Some u \<Rightarrow> parent_of v = q \<and> linked (Some u) vs)"

definition after :: "string option \<Rightarrow> json list \<Rightarrow> string option" where
  "after q vs = (case last_uuid vs of None \<Rightarrow> q | Some u \<Rightarrow> Some u)"

lemma last_uuid_Cons: "last_uuid (v # vs) = (case last_uuid vs of Some u \<Rightarrow> Some u | None \<Rightarrow> uuid_of v)"
  by (auto simp: last_uuid_def List.map_filter_simps split: option.splits list.splits)

lemma last_uuid_Nil [simp]: "last_uuid [] = None"
  by (simp add: last_uuid_def List.map_filter_simps)

lemma linked_append: "linked q (us @ vs) \<longleftrightarrow> linked q us \<and> linked (after q us) vs"
proof (induction us arbitrary: q)
  case (Cons u us)
  have "after q (u # us) = after (case uuid_of u of None \<Rightarrow> q | Some i \<Rightarrow> Some i) us"
    by (simp add: after_def last_uuid_Cons split: option.splits)
  then show ?case by (simp add: Cons.IH split: option.splits)
qed (simp add: after_def)

lemma linked_take: "linked q us \<Longrightarrow> linked q (take k us)"
  by (metis append_take_drop_id linked_append)

text \<open>What a record says: whose turn it is and its text.\<close>

definition spoken :: "json \<Rightarrow> string \<times> string" where
  "spoken v =
     (let m = jindex v ''message'';
          text = (case jindex m ''content'' of JString t \<Rightarrow> t | JArray (b # _) \<Rightarrow> (case as_str (jindex b ''text'') of Some t \<Rightarrow> t | None \<Rightarrow> []) | _ \<Rightarrow> [])
      in (case as_str (jindex m ''role'') of Some r \<Rightarrow> r | None \<Rightarrow> [], text))"

definition turn_said :: "turn_text \<Rightarrow> string \<times> string" where
  "turn_said t = (if tn_role t = ''user'' then ''user'' else ''assistant'', tn_text t)"

definition frame_of :: "world \<Rightarrow> world \<Rightarrow> bool" where
  "frame_of w w1 \<longleftrightarrow> files w1 = files w \<and> fault w1 = fault w"

lemma claude_record_facts:
  assumes "claude_record kind cwd sid q m w = (w1, v)"
  shows "parent_of v = q" "uuid_of v \<noteq> None" "jindex v ''message'' = m" "frame_of w w1"
  using assms
  by (auto simp: claude_record_def new_uuid_def frame_of_def parent_of_def uuid_of_def jget_def jindex_def bt_get_def split: option.splits)

lemma jget_with_request: "k \<noteq> ''requestId'' \<Longrightarrow> jget (with_request v) k = jget v k"
  by (cases v) (simp_all add: with_request_def jget_def)

lemma seed_item_facts:
  assumes "seed_item cwd sid model q t w = (w1, v)"
  shows "parent_of v = q \<and> uuid_of v \<noteq> None \<and> spoken v = turn_said t \<and> frame_of w w1"
proof (cases "tn_role t = ''user''")
  case True
  then have "claude_record ''user'' cwd sid q (user_content (tn_text t)) w = (w1, v)" using assms by (simp add: seed_item_def)
  note f = claude_record_facts[OF this]
  then show ?thesis by (simp add: spoken_def turn_said_def True user_content_def Let_def jindex_def jget_def bt_get_def)
next
  case False
  obtain w0 i where n: "new_uuid w = (w0, i)" by fastforce
  obtain x where x: "claude_record ''assistant'' cwd sid q (assistant_content i model (tn_text t)) w0 = (w1, x)" "v = with_request x"
    using assms False n by (auto simp: seed_item_def split: prod.splits)
  note f = claude_record_facts[OF x(1)]
  have "jget v k = jget x k" if "k \<noteq> ''requestId''" for k using jget_with_request[OF that] by (simp add: x(2))
  then have "parent_of v = q" "uuid_of v \<noteq> None" "jindex v ''message'' = assistant_content i model (tn_text t)"
    using f by (simp_all add: parent_of_def uuid_of_def jindex_def)
  moreover have "frame_of w w1" using f(4) n by (auto simp: frame_of_def new_uuid_def)
  ultimately show ?thesis by (simp add: spoken_def turn_said_def False assistant_content_def Let_def jindex_def jget_def bt_get_def)
qed

lemma seed_records_facts:
  assumes "seed_records cwd sid model q ts w = (w1, vs)"
  shows "linked q vs \<and> map spoken vs = map turn_said ts \<and> (\<forall>v \<in> set vs. uuid_of v \<noteq> None)
    \<and> frame_of w w1"
  using assms
proof (induction ts arbitrary: q w vs)
  case (Cons t ts)
  obtain w2 item items where s: "seed_item cwd sid model q t w = (w2, item)"
    "seed_records cwd sid model (as_str (jindex item ''uuid'')) ts w2 = (w1, items)" "vs = item # items"
    using Cons.prems by (auto split: prod.splits)
  note i = seed_item_facts[OF s(1)]
  obtain u where u: "uuid_of item = Some u" using i by blast
  then have "as_str (jindex item ''uuid'') = Some u" by (cases "jget item ''uuid''") (simp_all add: uuid_of_def jindex_def)
  then show ?case using Cons.IH[OF s(2)] i u by (simp add: s(3) frame_of_def)
qed (simp add: frame_of_def)

section \<open>The file\<close>

text \<open>Documented behaviour of the codec: a compact object begins and ends with a brace, not with white space.\<close>

definition tidy :: "codec \<Rightarrow> json \<Rightarrow> bool" where
  "tidy J v \<longleftrightarrow> to_text J v \<noteq> [] \<and> \<not> is_ws (hd (to_text J v)) \<and> \<not> is_ws (last (to_text J v))"

definition lossy_value :: "codec \<Rightarrow> bytes \<Rightarrow> json option" where
  "lossy_value J l = (case from_slice J (trim l) of Inr v \<Rightarrow> Some v | Inl _ \<Rightarrow> None)"

lemma lossy_loop_faultless: "faultless w \<Longrightarrow> snd (lossy_loop J ls w) = List.map_filter (lossy_value J) ls"
proof (induction ls arbitrary: w)
  case (Cons l ls)
  then have "fault w (tick w) = None" "faultless (tick_on w)" by (simp_all add: faultless_def)
  with Cons.IH[of "tick_on w"] show ?case by (auto simp: List.map_filter_simps lossy_value_def split: prod.splits sum.splits)
qed (simp add: List.map_filter_simps)

lemma lossy_loop_frame: "lossy_loop J ls w = (w1, vs) \<Longrightarrow> frame_of w w1"
proof (induction ls arbitrary: w vs)
  case (Cons l ls)
  show ?case
  proof (cases "fault w (tick w)")
    case None
    then obtain us where "lossy_loop J ls (tick_on w) = (w1, us)" using Cons.prems by (auto split: prod.splits)
    from Cons.IH[OF this] show ?thesis by (simp add: frame_of_def)
  qed (use Cons.prems in \<open>auto simp: frame_of_def\<close>)
qed (auto simp: frame_of_def)

lemma trim_whole:
  assumes "l \<noteq> []" and "\<not> is_ws (hd l)" and "\<not> is_ws (last l)"
  shows "trim l = l" "trim (l @ [newline]) = l"
proof -
  have d: "dropWhile is_ws (l @ xs) = l @ xs" for xs using assms(1,2) by (cases l) auto
  have "dropWhile is_ws (rev l) = rev l" using assms(1,3) by (cases l rule: rev_cases) auto
  moreover have "is_ws newline" by (simp add: is_ws_def newline_def)
  ultimately show "trim l = l" "trim (l @ [newline]) = l" using d[of "[]"] d[of "[newline]"] by (simp_all add: trim_def)
qed

lemma trim_starts: "l \<noteq> [] \<Longrightarrow> \<not> is_ws (hd l) \<Longrightarrow> prefix (trim l) l"
proof -
  assume "l \<noteq> []" "\<not> is_ws (hd l)"
  then have "dropWhile is_ws l = l" by (cases l) auto
  then have "trim l = rev (dropWhile is_ws (rev l))" by (simp add: trim_def)
  moreover have "suffix (dropWhile is_ws (rev l)) (rev l)" by (rule suffix_dropWhile)
  ultimately show ?thesis by (simp add: suffix_to_prefix)
qed

lemma lossy_whole:
  assumes "healthy J [v]" and "tidy J v"
  shows "lossy_value J (to_text J v) = Some v" "lossy_value J (json_line J v) = Some v"
  using healthyD(1)[OF assms(1), of v] trim_whole[of "to_text J v"] assms(2) by (simp_all add: lossy_value_def tidy_def json_line_def)

lemma lossy_torn:
  assumes "healthy J [v]" and "tidy J v" and "prefix frag (to_text J v)" and "frag \<noteq> to_text J v" and "frag \<noteq> []"
  shows "lossy_value J frag = None"
proof -
  have "hd frag = hd (to_text J v)" using assms(3,5) by (auto simp: prefix_def)
  then have "prefix (trim frag) frag" using trim_starts[OF assms(5)] assms(2) by (simp add: tidy_def)
  then have "prefix (trim frag) (to_text J v)" "length (trim frag) < length (to_text J v)"
    using assms(3,4) prefix_order.trans prefix_length_le prefix_length_less[of frag "to_text J v"] by (blast, fastforce simp: strict_prefix_def)
  then have "trim frag = take (length (trim frag)) (to_text J v)" by (auto simp: prefix_def)
  then show ?thesis using healthyD(5)[OF assms(1), of v] \<open>length (trim frag) < _\<close> by (fastforce simp: lossy_value_def)
qed

lemma lossy_log:
  assumes "healthy J us" and "\<forall>v \<in> set us. tidy J v"
  shows "List.map_filter (lossy_value J) (lines_of (log_bytes J us @ rest)) = us @ List.map_filter (lossy_value J) (lines_of rest)"
  using assms
proof (induction us)
  case (Cons v vs)
  then have h: "healthy J [v]" "healthy J vs" by (auto simp: healthy_Cons healthy_def)
  have "lines_of (log_bytes J (v # vs) @ rest) = json_line J v # lines_of (log_bytes J vs @ rest)"
    using lines_of_line[OF healthyD(3)[OF Cons.prems(1)], of v] by (simp add: json_line_def)
  then show ?case using Cons.IH h lossy_whole(2)[OF h(1)] Cons.prems(2) by (simp add: List.map_filter_simps)
qed simp

lemma lossy_prefix:
  assumes "healthy J us" and "\<forall>v \<in> set us. tidy J v" and "take n (log_bytes J us) = log_bytes J (take k us) @ frag"
    and "k \<le> length us" and "newline \<notin> set frag"
    and "frag = [] \<or> (k < length us \<and> frag = to_text J (us ! k)) \<or> (\<exists>e. from_slice J frag = Inl e)"
  shows "List.map_filter (lossy_value J) (lines_of (take n (log_bytes J us)))
    = take (if \<exists>v. frag \<noteq> [] \<and> from_slice J frag = Inr v then Suc k else k) us"
proof -
  have log: "List.map_filter (lossy_value J) (lines_of (take n (log_bytes J us))) = take k us @ List.map_filter (lossy_value J) (lines_of frag)"
    using lossy_log[OF healthy_take[OF assms(1)], of k frag] assms(2) by (auto simp: assms(3) dest: in_set_takeD)
  show ?thesis
  proof (cases "frag = []")
    case True
    then show ?thesis using log by (simp add: List.map_filter_simps)
  next
    case False
    have "prefix (log_bytes J (take k us) @ frag) (log_bytes J (take k us) @ log_bytes J (drop k us))"
      by (metis assms(3) append_take_drop_id log_bytes_simps(3) take_is_prefix)
    then have p: "prefix frag (log_bytes J (drop k us))" by simp
    then have k: "k < length us" using False by (cases "k < length us") auto
    then have v: "healthy J [us ! k]" "tidy J (us ! k)" using assms(1,2) by (auto simp: healthy_def)
    have "prefix frag (to_text J (us ! k) @ newline # log_bytes J (drop (Suc k) us))"
      using p k by (simp add: Cons_nth_drop_Suc[symmetric] json_line_def)
    then have fr: "prefix frag (to_text J (us ! k))" using assms(5) by (auto simp: prefix_append prefix_Cons)
    have ln: "lines_of frag = [frag]" by (rule lines_of_tail[OF assms(5) False])
    show ?thesis
    proof (cases "frag = to_text J (us ! k)")
      case True
      then show ?thesis using log ln lossy_whole(1)[OF v] healthyD(1)[OF v(1), of "us ! k"] False k
        by (simp add: List.map_filter_simps take_Suc_conv_app_nth)
    next
      case ne: False
      then have "\<exists>e. from_slice J frag = Inl e" using assms(6) False by blast
      then show ?thesis using log ln lossy_torn[OF v fr ne False] by (auto simp: List.map_filter_simps)
    qed
  qed
qed

lemma extend_log:
  assumes "faultless w" and "bytes_at w p = log_bytes J us @ frag" and "newline \<notin> set frag" and "vs \<noteq> []"
  shows "\<exists>w1 g. Jsonl_Log.extend J p vs w = (w1, Inr ()) \<and> faultless w1 \<and> files w1 = (files w)(p \<mapsto> g) \<and> durable g = content g
    \<and> content g = log_bytes J us @ (if \<exists>v. frag \<noteq> [] \<and> from_slice J frag = Inr v then frag @ [newline] else []) @ log_bytes J vs"
proof -
  define whole where "whole \<longleftrightarrow> frag \<noteq> [] \<and> (\<exists>v. from_slice J frag = Inr v)"
  let ?body = "(if whole then [newline] else []) @ log_bytes J vs"
  let ?kept = "if \<exists>v. from_slice J frag = Inr v then log_bytes J us @ frag else log_bytes J us"
  define f where "f = (case files w p of Some f \<Rightarrow> f | None \<Rightarrow> empty_file)\<lparr>fmode := private_mode\<rparr>"
  have f: "content f = log_bytes J us @ frag" using assms(2) by (auto simp: f_def bytes_at_def empty_file_def split: option.splits)
  obtain wa where a: "fs_touch w = (wa, Inr ())" "faultless wa" "files wa = files w"
    using assms(1) by (simp add: fs_touch_def io_step_faultless)
  obtain wb where b: "fs_open_append p wa = (wb, Inr ())" "faultless wb" "files wb = (if files w p = None then (files w)(p \<mapsto> empty_file) else files w)"
    using a by (simp add: fs_open_append_def io_step_faultless)
  obtain wc where c: "fs_set_private p wb = (wc, Inr ())" "faultless wc" "files wc = (files w)(p \<mapsto> f)"
    using b by (auto simp: fs_set_private_def io_step_faultless f_def fun_eq_iff split: option.splits)
  obtain wd where d: "repair_tail J p wc = (wd, Inr whole)" "faultless wd" "files wd = (files w)(p \<mapsto> f\<lparr>content := ?kept\<rparr>)"
    using repair_tail_log[OF c(2) _ f assms(3), of p] by (auto simp: c(3) whole_def)
  obtain we where e: "fs_write_all p ?body wd = (we, Inr ())" "faultless we" "files we = (files w)(p \<mapsto> f\<lparr>content := ?kept @ ?body\<rparr>)"
  proof
    show "fs_write_all p ?body wd = (on_file p (content_update (\<lambda>c. c @ ?body)) (tick_on wd), Inr ())"
      using d(2) by (simp add: fs_write_all_def faultless_def)
  qed (use d in \<open>simp_all add: fun_eq_iff\<close>)
  define g where "g = f\<lparr>content := ?kept @ ?body, durable := ?kept @ ?body\<rparr>"
  obtain wf where s: "fs_sync p we = (wf, Inr ())" "faultless wf" "files wf = (files w)(p \<mapsto> g)"
    using e(2,3) by (auto simp: fs_sync_def io_step_faultless g_def fun_eq_iff)
  have t: "fs_touch wf = (tick_on wf, Inr ())" using s(2) by (simp add: fs_touch_def io_step_faultless)
  have body: "concat (map (\<lambda>v. to_text J v @ [newline]) vs) = log_bytes J vs" by (induction vs) (simp_all add: json_line_def)
  have "Jsonl_Log.extend J p vs w = (if exists_file w p then wf else tick_on wf, Inr ())"
    using assms(4) t by (simp add: Jsonl_Log.extend_def Let_def body io_bind_def a(1) b(1) c(1) d(1) e(1)[simplified] s(1) io_return_def split del: if_split) (simp add: io_return_def)
  moreover have "faultless (if exists_file w p then wf else tick_on wf)" "files (if exists_file w p then wf else tick_on wf) = (files w)(p \<mapsto> g)"
    using s(2,3) by simp_all
  moreover have "durable g = content g" "content g = log_bytes J us @ (if \<exists>v. frag \<noteq> [] \<and> from_slice J frag = Inr v then frag @ [newline] else []) @ log_bytes J vs"
    by (auto simp: g_def whole_def)
  ultimately show ?thesis by blast
qed

text \<open>
  C24: a transcript put into Claude's file continues the conversation that is there. Wherever a crash cut
  the file of records \<open>us\<close>, seeding keeps every complete record and appends one per turn, in order and
  with its text; the first hangs off the last record that was kept and each further one off the one
  before it, so that a file that was one chain still is; and reading it again finds exactly this.
\<close>

theorem seed_continues_chain:
  assumes "healthy J (us @ vs)" and "\<forall>v \<in> set (us @ vs). tidy J v" and "faultless w"
    and "bytes_at w (session_path w cwd sid) = take n (log_bytes J us)"
    and "seed_records cwd sid model parent turns w0 = (w1, vs)" and "tail_uuid J (session_path w cwd sid) w = (w0, parent)"
    and "turns \<noteq> []"
  shows "\<exists>w2 k. seed_claude J cwd sid turns model w = (w2, Inr (session_path w cwd sid))
    \<and> k \<le> length us \<and> (\<forall>j \<le> length us. length (log_bytes J (take j us)) \<le> n \<longrightarrow> j \<le> k)
    \<and> bytes_at w2 (session_path w cwd sid) = log_bytes J (take k us @ vs)
    \<and> snd (lossy_read J (session_path w cwd sid) w2) = take k us @ vs
    \<and> map spoken vs = map turn_said turns
    \<and> linked (last_uuid (take k us)) vs \<and> (linked None us \<longrightarrow> linked None (take k us @ vs))"
proof -
  let ?p = "session_path w cwd sid"
  have h: "healthy J us" "healthy J vs" "\<forall>v \<in> set us. tidy J v" using assms(1,2) by auto
  obtain k frag where k: "k \<le> length us" "take n (log_bytes J us) = log_bytes J (take k us) @ frag" "newline \<notin> set frag"
    "frag = [] \<or> (k < length us \<and> frag = to_text J (us ! k)) \<or> (\<exists>e. from_slice J frag = Inl e)"
    "\<forall>j \<le> length us. length (log_bytes J (take j us)) \<le> n \<longrightarrow> j \<le> k"
    using h(1) by (rule log_prefix_shape[where n = n])
  let ?whole = "\<exists>v. frag \<noteq> [] \<and> from_slice J frag = Inr v"
  let ?k = "if ?whole then Suc k else k"
  have whole: "k < length us \<and> frag = to_text J (us ! k)" if ?whole using that k(4) by auto
  note r = lossy_prefix[OF h(1,3) k(2,1,3,4)]
  have read: "snd (lossy_read J ?p x) = List.map_filter (lossy_value J) (lines_of (bytes_at x ?p))" if "faultless x" for x
    using that lossy_loop_faultless[of "tick_on x" J]
    by (auto simp: lossy_read_def bytes_at_def faultless_def List.map_filter_simps split: option.splits)
  have parent: "parent = last_uuid (take ?k us)" using assms(6) read[OF assms(3)] r by (auto simp: tail_uuid_def assms(4) split: prod.splits)
  note f = seed_records_facts[OF assms(5)]
  have "frame_of w w0" using assms(6) lossy_loop_frame
    by (auto simp: tail_uuid_def lossy_read_def frame_of_def split: prod.splits option.splits)
  then have w1: "faultless w1" "files w1 = files w" using f assms(3) by (auto simp: frame_of_def faultless_def)
  have "bytes_at w1 ?p = log_bytes J (take k us) @ frag" using assms(4) k(2) w1(2) by (simp add: bytes_at_def)
  moreover have "vs \<noteq> []" using f assms(7) by auto
  ultimately obtain w2 g where e: "Jsonl_Log.extend J ?p vs w1 = (w2, Inr ())" "faultless w2" "files w2 = (files w1)(?p \<mapsto> g)"
    "content g = log_bytes J (take k us) @ (if ?whole then frag @ [newline] else []) @ log_bytes J vs"
    using extend_log[OF w1(1) _ k(3)] by blast
  have b: "bytes_at w2 ?p = log_bytes J (take ?k us @ vs)"
    using e(3,4) whole by (auto simp: bytes_at_def take_Suc_conv_app_nth json_line_def)
  have "healthy J (take ?k us @ vs)" using h healthy_take by auto
  moreover have "\<forall>v \<in> set (take ?k us @ vs). tidy J v" using assms(2) set_take_subset[of ?k us] by fastforce
  ultimately have "snd (lossy_read J ?p w2) = take ?k us @ vs"
    using read[OF e(2)] lossy_log[of J "take ?k us @ vs" "[]"] by (simp only: b append_Nil2 lines_of_Nil List.map_filter_simps)
  moreover have "seed_claude J cwd sid turns model w = (w2, Inr ?p)"
    by (simp add: seed_claude_def assms(5,6) io_bind_def e(1) io_return_def)
  moreover have "linked (last_uuid (take ?k us)) vs" using f parent by simp
  moreover from this have "linked None us \<longrightarrow> linked None (take ?k us @ vs)"
    by (auto simp: linked_append after_def linked_take split: option.splits)
  moreover have "?k \<le> length us" "\<forall>j \<le> length us. length (log_bytes J (take j us)) \<le> n \<longrightarrow> j \<le> ?k" using k(1,5) whole by auto
  ultimately show ?thesis using b f by blast
qed

text \<open>A codec that knows the values of a list, and an empty file seeded with a question and its answer.\<close>

definition listed_codec :: "json list \<Rightarrow> codec" where
  "listed_codec vs = \<lparr>
     from_slice = (\<lambda>bs. case List.find (\<lambda>i. filter (\<lambda>c. c \<noteq> newline) bs = ''{'' @ replicate i CHR ''1'' @ ''}'') [0..<length vs] of
       Some i \<Rightarrow> Inr (vs ! i) | None \<Rightarrow> Inl ''expected value''),
     to_text = (\<lambda>v. ''{'' @ replicate (length (takeWhile (\<lambda>u. u \<noteq> v) vs)) CHR ''1'' @ ''}''), to_pretty = (\<lambda>_. [])\<rparr>"

definition demo_turns :: "turn_text list" where
  "demo_turns = [\<lparr>tn_role = ''user'', tn_text = ''hi''\<rparr>, \<lparr>tn_role = ''assistant'', tn_text = ''hello''\<rparr>]"

definition demo_seeded :: "world \<times> json list" where
  "demo_seeded = seed_records ''/w'' ''s'' ''m'' None demo_turns (tick_on blank_world)"

lemma demo_chain: "map (\<lambda>v. (parent_of v, uuid_of v)) (snd demo_seeded) = [(None, Some ''id-0''), (Some ''id-0'', Some ''id-2'')]"
  by code_simp

lemma listed_at:
  assumes "i < length vs" and "distinct vs"
  shows "to_text (listed_codec vs) (vs ! i) = ''{'' @ replicate i CHR ''1'' @ ''}''"
proof -
  have "takeWhile (\<lambda>u. u \<noteq> vs ! i) vs = take i vs" using assms by (simp add: takeWhile_eq_take_P_nth nth_eq_iff_index_eq)
  then show ?thesis using assms(1) by (simp add: listed_codec_def)
qed

lemma listed_unread: "bs = [] \<or> last bs \<noteq> CHR ''}'' \<Longrightarrow> newline \<notin> set bs \<Longrightarrow> \<exists>e. from_slice (listed_codec vs) bs = Inl e"
proof -
  assume l: "bs = [] \<or> last bs \<noteq> CHR ''}''" "newline \<notin> set bs"
  then have "filter (\<lambda>c. c \<noteq> newline) bs = bs" by (auto simp: filter_id_conv)
  moreover have "bs \<noteq> ''{'' @ replicate i CHR ''1'' @ ''}''" for i using l(1) by auto
  ultimately have "List.find (\<lambda>i. filter (\<lambda>c. c \<noteq> newline) bs = ''{'' @ replicate i CHR ''1'' @ ''}'') [0..<length vs] = None"
    by (simp add: find_None_iff)
  then show ?thesis by (simp add: listed_codec_def)
qed

lemma listed_reads:
  assumes "i < length vs" and "set ws \<subseteq> {newline}"
  shows "from_slice (listed_codec vs) (''{'' @ replicate i CHR ''1'' @ ''}'' @ ws) = Inr (vs ! i)"
proof -
  have "filter (\<lambda>c. c \<noteq> newline) (''{'' @ replicate i CHR ''1'' @ ''}'' @ ws) = ''{'' @ replicate i CHR ''1'' @ ''}''"
    using assms(2) by (auto simp: newline_def filter_empty_conv)
  moreover have "List.find (\<lambda>j. ''{'' @ replicate i CHR ''1'' @ ''}'' = ''{'' @ replicate j CHR ''1'' @ ''}'') [0..<length vs] = Some i"
  proof -
    have "(''{'' @ replicate i CHR ''1'' @ ''}'' = ''{'' @ replicate j CHR ''1'' @ ''}'') \<longleftrightarrow> i = j" for j by (auto dest: arg_cong[of _ _ length])
    then show ?thesis using assms(1) by (simp add: find_Some_iff) (rule exI[of _ i], simp)
  qed
  ultimately show ?thesis by (simp add: listed_codec_def)
qed

lemma listed_healthy:
  assumes "distinct vs"
  shows "healthy (listed_codec vs) vs" "\<forall>v \<in> set vs. tidy (listed_codec vs) v"
proof -
  have "reads_back (listed_codec vs) (vs ! i) \<and> torn_unreadable (listed_codec vs) (vs ! i) \<and> tidy (listed_codec vs) (vs ! i)" if "i < length vs" for i
  proof -
    note t = listed_at[OF that assms]
    have "\<exists>e. from_slice (listed_codec vs) (take n (''{'' @ replicate i CHR ''1'' @ ''}'')) = Inl e" if "n < length (''{'' @ replicate i CHR ''1'' @ ''}'')" for n
      using that by (intro listed_unread) (auto simp: take_Cons' newline_def last_conv_nth nth_append dest: in_set_takeD split: if_splits)
    then show ?thesis using listed_reads[OF that, of "[]"] listed_reads[OF that, of "[newline]"]
      by (simp add: reads_back_def torn_unreadable_def tidy_def t is_ws_def newline_def)
  qed
  then show "healthy (listed_codec vs) vs" "\<forall>v \<in> set vs. tidy (listed_codec vs) v" by (auto simp: healthy_def in_set_conv_nth)
qed

theorem seed_continues_chain_witness:
  "\<exists>w2. seed_claude (listed_codec (snd demo_seeded)) ''/w'' ''s'' demo_turns ''m'' blank_world = (w2, Inr ''/.claude/projects/-w/s.jsonl'')
    \<and> snd (lossy_read (listed_codec (snd demo_seeded)) ''/.claude/projects/-w/s.jsonl'' w2) = snd demo_seeded
    \<and> linked None (snd demo_seeded)"
proof -
  let ?J = "listed_codec (snd demo_seeded)"
  have "distinct (snd demo_seeded)" using demo_chain by (cases "snd demo_seeded"; cases "tl (snd demo_seeded)") auto
  note h = listed_healthy[OF this]
  have p: "session_path blank_world ''/w'' ''s'' = ''/.claude/projects/-w/s.jsonl''" by code_simp
  have b: "bytes_at blank_world q = []" for q by (simp add: bytes_at_def blank_world_def)
  have t: "tail_uuid ?J ''/.claude/projects/-w/s.jsonl'' blank_world = (tick_on blank_world, None)"
    by (simp add: tail_uuid_def lossy_read_def blank_world_def)
  have "seed_records ''/w'' ''s'' ''m'' None demo_turns (tick_on blank_world) = (fst demo_seeded, snd demo_seeded)" by (simp add: demo_seeded_def)
  from seed_continues_chain[where us = "[]" and n = 0 and vs = "snd demo_seeded" and J = ?J and w = blank_world and cwd = "''/w''" and sid = "''s''", unfolded p, OF _ _ _ _ this t]
  have "\<exists>w2 k. seed_claude ?J ''/w'' ''s'' demo_turns ''m'' blank_world = (w2, Inr ''/.claude/projects/-w/s.jsonl'')
    \<and> snd (lossy_read ?J ''/.claude/projects/-w/s.jsonl'' w2) = take k [] @ snd demo_seeded \<and> linked (last_uuid (take k [])) (snd demo_seeded)"
    using h by (auto simp: b demo_turns_def)
  then show ?thesis by simp
qed

end
