(* ===== verification/Native_Stream.thy ===== *)
theory Native_Stream
  imports Provider_Base
begin

text \<open>
  What the three parsers of provider output (\<open>claude_code_cli\<close>, \<open>codex_app_server\<close>,
  \<open>antigravity_cli\<close>, each a \<open>stream.rs\<close>) share: readers of JSON fields, running a parser over a
  sequence of inputs, and checking the events it emits against a rule. A rule is a partial step
  function over what an observer of the events has to remember; a parser follows it when its own
  state always agrees with what the observer remembers.
\<close>

section \<open>Fields\<close>

text \<open>\<open>value.get(key).and_then(Value::as_str)\<close> and its siblings.\<close>

definition str_at :: "json \<Rightarrow> string \<Rightarrow> string option" where
  "str_at v k = Option.bind (jget v k) as_str"

definition str_or :: "string \<Rightarrow> json \<Rightarrow> string \<Rightarrow> string" where
  "str_or d v k = (case str_at v k of Some s \<Rightarrow> s | None \<Rightarrow> d)"

definition true_at :: "json \<Rightarrow> string \<Rightarrow> bool" where
  "true_at v k \<longleftrightarrow> Option.bind (jget v k) as_bool = Some True"

definition native :: "string \<Rightarrow> json \<Rightarrow> event \<Rightarrow> event" where
  "native k v e = e\<lparr>ev_native := bt_insert k v (ev_native e)\<rparr>"

section \<open>Decimals\<close>

lemma digit_inj: "m < 10 \<Longrightarrow> n < 10 \<Longrightarrow> (char_of (48 + m) :: char) = char_of (48 + n) \<Longrightarrow> m = (n :: nat)"
  using arg_cong[where f = "of_char :: char \<Rightarrow> nat", of "char_of (48 + m)" "char_of (48 + n)"] by simp

lemma show_nat_nonempty [simp]: "show_nat n \<noteq> []" "[] \<noteq> show_nat n"
  by (subst show_nat.simps, simp)+

lemma show_nat_inj: "show_nat m = show_nat n \<Longrightarrow> m = n"
proof (induction m arbitrary: n rule: show_nat.induct)
  case (1 m)
  have step: "show_nat k = (if k < 10 then [] else show_nat (k div 10)) @ [char_of (48 + k mod 10)]" for k
    by (subst show_nat.simps) simp
  have l: "m mod 10 = n mod 10"
    using "1.prems" by (subst (asm) (1 2) step) (auto intro: digit_inj)
  have i: "(if m < 10 then [] else show_nat (m div 10)) = (if n < 10 then [] else show_nat (n div 10))"
    using "1.prems" by (subst (asm) (1 2) step) simp
  show ?case
  proof (cases "m < 10")
    case True
    with i have "n < 10" by (auto split: if_splits)
    with True l show ?thesis by simp
  next
    case False
    with i have "\<not> n < 10" by (auto split: if_splits)
    with False i "1.IH" have "m div 10 = n div 10" by simp
    with l show ?thesis by (metis mod_mult_div_eq)
  qed
qed

lemma show_nat_no_sign: "hd (show_nat n) \<noteq> CHR ''-''"
proof (induction n rule: show_nat.induct)
  case (1 n)
  have "(char_of (48 + n) :: char) \<noteq> CHR ''-''" if "n < 10"
  proof
    assume "(char_of (48 + n) :: char) = CHR ''-''"
    from arg_cong[where f = "of_char :: char \<Rightarrow> nat", OF this] that show False by simp
  qed
  with 1 show ?case by (subst show_nat.simps) (auto simp: hd_append)
qed

lemma show_int_inj: "show_int m = show_int n \<longleftrightarrow> m = n"
proof
  assume eq: "show_int m = show_int n"
  have "m < 0 \<longleftrightarrow> n < 0" using eq show_nat_no_sign[of "nat m"] show_nat_no_sign[of "nat n"]
    by (auto simp: show_int_def split: if_splits dest: arg_cong[where f = hd])
  with eq show "m = n" by (auto simp: show_int_def split: if_splits dest!: show_nat_inj)
qed simp

section \<open>Running a parser\<close>

fun feed_all :: "('i \<Rightarrow> 's \<Rightarrow> 's \<times> event list) \<Rightarrow> 'i list \<Rightarrow> 's \<Rightarrow> 's \<times> event list" where
  "feed_all step [] s = (s, [])"
| "feed_all step (i # is) s =
     (case step i s of (s1, es) \<Rightarrow> (case feed_all step is s1 of (s2, fs) \<Rightarrow> (s2, es @ fs)))"

fun watch :: "('o \<Rightarrow> event \<Rightarrow> 'o option) \<Rightarrow> 'o \<Rightarrow> event list \<Rightarrow> 'o option" where
  "watch rule o0 [] = Some o0"
| "watch rule o0 (e # es) = (case rule o0 e of None \<Rightarrow> None | Some o1 \<Rightarrow> watch rule o1 es)"

lemma watch_append [simp]:
  "watch rule o0 (es @ fs) = (case watch rule o0 es of None \<Rightarrow> None | Some o1 \<Rightarrow> watch rule o1 fs)"
  by (induction es arbitrary: o0) (auto split: option.splits)

lemma watch_idle: "(\<And>e. e \<in> set es \<Longrightarrow> rule o0 e = Some o0) \<Longrightarrow> watch rule o0 es = Some o0"
  by (induction es) auto

lemma feed_all_append:
  "feed_all step (is @ js) s = (case feed_all step is s of (s1, es) \<Rightarrow> (case feed_all step js s1 of (s2, fs) \<Rightarrow> (s2, es @ fs)))"
  by (induction "is" arbitrary: s) (auto split: prod.splits)

text \<open>The contract of a parser towards an observer of its events, and what a whole run then keeps.\<close>

locale followed_stream =
  fixes step :: "'i \<Rightarrow> 's \<Rightarrow> 's \<times> event list"
    and view :: "'s \<Rightarrow> 'o"
    and rule :: "'o \<Rightarrow> event \<Rightarrow> 'o option"
  assumes step_follows: "watch rule (view s) (snd (step i s)) = Some (view (fst (step i s)))"
begin

lemma run_follows: "watch rule (view s) (snd (feed_all step is s)) = Some (view (fst (feed_all step is s)))"
proof (induction "is" arbitrary: s)
  case (Cons i "is")
  show ?case using step_follows[of s i] Cons.IH[of "fst (step i s)"] by (auto split: prod.splits)
qed simp

lemma run_prefix_follows: "snd (feed_all step is s) = es @ fs \<Longrightarrow> watch rule (view s) es \<noteq> None"
  using run_follows[of s "is"] by (auto split: option.splits)

end

section \<open>Rules\<close>

text \<open>
  A native turn: the first message it takes opens it, every further one is injected into it, and
  an end closes it.
\<close>

definition turn_rule :: "bool \<Rightarrow> event \<Rightarrow> bool option" where
  "turn_rule running e =
     (if is_type e CONFIRMED
      then (if get_str (ev_extra e) CONFIRMED_AS = Some (if running then INJECTED else START) then Some True else None)
      else if is_type e END then Some False
      else Some running)"

text \<open>A tool result goes by the name of the last call with its id that had no result yet.\<close>

definition naming_rule :: "(string \<rightharpoonup> string) \<Rightarrow> event \<Rightarrow> (string \<rightharpoonup> string) option" where
  "naming_rule calls e =
     (if is_type e TOOL_CALL then Some (calls(ev_id e \<mapsto> ev_tool e))
      else if is_type e TOOL_RESULT
        then (if ev_tool e = (case calls (ev_id e) of Some name \<Rightarrow> name | None \<Rightarrow> []) then Some (calls(ev_id e := None)) else None)
      else Some calls)"

text \<open>A tool is called once, and has one result, after its call and within its turn.\<close>

definition pairing_rule :: "string set \<Rightarrow> event \<Rightarrow> string set option" where
  "pairing_rule active e =
     (if is_type e TOOL_CALL then (if ev_id e \<in> active then None else Some (insert (ev_id e) active))
      else if is_type e TOOL_RESULT then (if ev_id e \<in> active then Some (active - {ev_id e}) else None)
      else if is_type e END then Some {}
      else Some active)"

lemma pairing_rules:
  "ev_type e = TOOL_CALL \<Longrightarrow> pairing_rule a e = (if ev_id e \<in> a then None else Some (insert (ev_id e) a))"
  "ev_type e = TOOL_RESULT \<Longrightarrow> pairing_rule a e = (if ev_id e \<in> a then Some (a - {ev_id e}) else None)"
  "ev_type e = END \<Longrightarrow> pairing_rule a e = Some {}"
  by (simp_all add: pairing_rule_def is_type_def event_types)

lemma type_tests:
  "is_type e ty \<Longrightarrow> ty \<in> {TEXT, THINKING, ERROR} \<Longrightarrow> turn_rule b e = Some b"
  "is_type e ty \<Longrightarrow> ty \<in> {TEXT, THINKING, ERROR, END, CONFIRMED} \<Longrightarrow> naming_rule m e = Some m"
  "is_type e ty \<Longrightarrow> ty \<in> {TOOL_CALL, TOOL_RESULT} \<Longrightarrow> turn_rule b e = Some b"
  "is_type e ty \<Longrightarrow> ty \<in> {TEXT, THINKING, ERROR} \<Longrightarrow> pairing_rule a e = Some a"
  by (auto simp: turn_rule_def naming_rule_def pairing_rule_def is_type_def event_types CONFIRMED_def)

end
