(* ===== verification/Claude_Stream.thy ===== *)
theory Claude_Stream
  imports Native_Stream
begin

text \<open>
  \<open>providers/claude_code_cli/stream.rs\<close>: one line of Claude's \<open>stream-json\<close> output in, zero or
  more events out. The parser's state is the tools that were called, the lines that were written
  and not yet echoed, whether a native turn is open, and the session and model Claude last named.
  The events of one line carry one reading of the clock, which the caller hands over.
\<close>

definition CLAUDE :: string where
  "CLAUDE = ''claude-code-cli''"

definition THINKING_BLOCKS :: "string list" where
  "THINKING_BLOCKS = [''thinking'', ''redacted_thinking'']"

record claude_stream =
  cs_tools :: "(string \<times> string) list"
  cs_expected :: "string list"
  cs_turn_open :: bool
  cs_session_id :: string
  cs_model :: string

definition claude_new :: "string \<Rightarrow> claude_stream" where
  "claude_new model = \<lparr>cs_tools = [], cs_expected = [], cs_turn_open = False, cs_session_id = [], cs_model = model\<rparr>"

section \<open>Content\<close>

definition flatten_block :: "codec \<Rightarrow> json \<Rightarrow> string" where
  "flatten_block J block =
     (case block of
        JNull \<Rightarrow> []
      | JString t \<Rightarrow> t
      | JObject m \<Rightarrow>
          if get_str m ''type'' = Some ''text'' \<or> (length m = 1 \<and> bt_get m ''text'' \<noteq> None)
          then (case get_str m ''text'' of Some t \<Rightarrow> t | None \<Rightarrow> [])
          else to_text J block
      | other \<Rightarrow> to_text J other)"

definition flatten_content :: "codec \<Rightarrow> json option \<Rightarrow> string" where
  "flatten_content J cont =
     (case cont of
        None \<Rightarrow> []
      | Some JNull \<Rightarrow> []
      | Some (JString t) \<Rightarrow> t
      | Some (JArray blocks) \<Rightarrow> join [newline] (filter (\<lambda>b. b \<noteq> []) (map (flatten_block J) blocks))
      | Some other \<Rightarrow> flatten_block J other)"

definition trim_end :: "string \<Rightarrow> string" where
  "trim_end s = rev (dropWhile is_ws (rev s))"

definition same_message :: "string \<Rightarrow> string \<Rightarrow> bool" where
  "same_message echo line \<longleftrightarrow>
     echo = line \<or> (trim_end echo \<noteq> [] \<and> (trim_end echo = trim_end line \<or> trim_end echo = trim line))"

definition replay_echo :: "codec \<Rightarrow> json \<Rightarrow> bool" where
  "replay_echo J data \<longleftrightarrow>
     (let cont = jindex (jindex data ''message'') ''content''; t = flatten_content J (Some cont) in
      true_at data ''isReplay''
      \<and> \<not> (prefix ''<local-command-stdout>'' t \<or> t = ''[Request interrupted by user]'')
      \<and> \<not> (case as_array cont of
              None \<Rightarrow> False
            | Some blocks \<Rightarrow> \<exists>b \<in> set blocks. str_at b ''type'' = Some ''tool_result''))"

definition api_error_message :: "json \<Rightarrow> json \<Rightarrow> bool" where
  "api_error_message data message \<longleftrightarrow>
     (\<exists>v \<in> set [data, message]. \<exists>field \<in> set [''is_api_error_message'', ''isApiErrorMessage'']. true_at v field)"

section \<open>Events\<close>

definition claude_event :: "string \<Rightarrow> claude_stream \<Rightarrow> string \<Rightarrow> event" where
  "claude_event now s kind =
     (let e = about (cs_model s) (from_provider CLAUDE (event_new now kind)) in
      if cs_session_id s \<noteq> [] then native ''session_id'' (JString (cs_session_id s)) e else e)"

definition FAILURE_KEYS :: "string list" where
  "FAILURE_KEYS = [''error'', ''error_details'', ''api_error'', ''api_error_code'', ''api_error_params'',
     ''api_error_status'', ''terminal_reason'', ''subtype'']"

definition failure_extra :: "json \<Rightarrow> jmap" where
  "failure_extra data =
     (let extra = fold (\<lambda>k m. case jget data k of
                          Some v \<Rightarrow> if v = JNull then m else bt_insert k v m
                        | None \<Rightarrow> m) FAILURE_KEYS []
      in case jget (jindex data ''message'') ''error'' of
           Some err \<Rightarrow> if err = JNull then extra else bt_insert ''message_error'' err extra
         | None \<Rightarrow> extra)"

definition claude_failure :: "codec \<Rightarrow> string \<Rightarrow> json \<Rightarrow> string \<Rightarrow> string \<Rightarrow> claude_stream \<Rightarrow> event" where
  "claude_failure J now data t fallback s =
     (let extra = failure_extra data;
          err = (if t = []
                 then (case List.find (\<lambda>x. x \<noteq> [])
                              (map (\<lambda>k. flatten_content J (bt_get extra k))
                                [''error_details'', ''error'', ''message_error'', ''api_error_code'', ''api_error'', ''terminal_reason'']) of
                         Some x \<Rightarrow> x
                       | None \<Rightarrow> fallback)
                 else t)
      in extras extra (about (cs_model s) (from_provider CLAUDE
           (failure now (classify (err @ '' '' @ to_text J (JObject extra))) err))))"

section \<open>What was written\<close>

definition expect_user :: "string \<Rightarrow> claude_stream \<Rightarrow> claude_stream" where
  "expect_user t s = s\<lparr>cs_expected := cs_expected s @ [t]\<rparr>"

definition forget_last_user :: "claude_stream \<Rightarrow> claude_stream" where
  "forget_last_user s = s\<lparr>cs_expected := butlast (cs_expected s)\<rparr>"

section \<open>A line\<close>

text \<open>\<open>init\<close> opens every turn and carries the session id and model.\<close>

definition claude_system :: "json \<Rightarrow> claude_stream \<Rightarrow> claude_stream" where
  "claude_system data s =
     (if str_at data ''subtype'' = Some ''init''
      then let s1 = (case str_at data ''session_id'' of Some i \<Rightarrow> s\<lparr>cs_session_id := i\<rparr> | None \<Rightarrow> s)
           in (case str_at data ''model'' of Some m \<Rightarrow> s1\<lparr>cs_model := m\<rparr> | None \<Rightarrow> s1)
      else s)"

definition tool_call :: "string \<Rightarrow> json \<Rightarrow> claude_stream \<Rightarrow> event" where
  "tool_call now block s =
     (let i = str_or [] block ''id'';
          e = (claude_event now s TOOL_CALL)\<lparr>ev_tool := str_or [] block ''name'', ev_id := i,
                 ev_args := (case as_object (jindex block ''input'') of Some m \<Rightarrow> m | None \<Rightarrow> [])\<rparr>
      in if i \<noteq> [] then native ''tool_use_id'' (JString i) e else e)"

definition assistant_block :: "codec \<Rightarrow> string \<Rightarrow> json \<Rightarrow> claude_stream \<Rightarrow> claude_stream \<times> event list" where
  "assistant_block J now block s =
     (let kind = str_or [] block ''type''; t = str_or [] block ''text'' in
      if kind = ''text'' then (s, if t = [] then [] else [saying t (claude_event now s TEXT)])
      else if kind \<in> set THINKING_BLOCKS then (s, [claude_event now s THINKING])
      else if kind = ''tool_use''
        then (s\<lparr>cs_tools := bt_insert (str_or [] block ''id'') (str_or [] block ''name'') (cs_tools s)\<rparr>, [tool_call now block s])
      else let other = flatten_content J (Some block)
           in (s, if other = [] then [] else [saying other (claude_event now s TEXT)]))"

fun assistant_blocks :: "codec \<Rightarrow> string \<Rightarrow> json list \<Rightarrow> claude_stream \<Rightarrow> claude_stream \<times> event list" where
  "assistant_blocks J now [] s = (s, [])"
| "assistant_blocks J now (b # bs) s =
     (case assistant_block J now b s of
        (s1, es) \<Rightarrow> (case assistant_blocks J now bs s1 of (s2, fs) \<Rightarrow> (s2, es @ fs)))"

definition error_text :: "json list \<Rightarrow> string" where
  "error_text cont =
     join [newline] (filter (\<lambda>t. t \<noteq> [])
       (map (\<lambda>b. str_or [] b ''text'') (filter (\<lambda>b. str_at b ''type'' = Some ''text'') cont)))"

definition message_model :: "json \<Rightarrow> claude_stream \<Rightarrow> claude_stream" where
  "message_model message s = (case str_at message ''model'' of Some m \<Rightarrow> s\<lparr>cs_model := m\<rparr> | None \<Rightarrow> s)"

definition api_failure :: "codec \<Rightarrow> string \<Rightarrow> json \<Rightarrow> json list \<Rightarrow> string \<Rightarrow> claude_stream \<Rightarrow> event" where
  "api_failure J now data cont message_id s =
     (let e = claude_failure J now data (error_text cont) ''Claude returned an API error'' s;
          e1 = (if message_id \<noteq> [] then native ''message_id'' (JString message_id) e else e)
      in if cs_session_id s \<noteq> [] then native ''session_id'' (JString (cs_session_id s)) e1 else e1)"

definition assistant :: "codec \<Rightarrow> string \<Rightarrow> json \<Rightarrow> claude_stream \<Rightarrow> claude_stream \<times> event list" where
  "assistant J now data s =
     (let message = jindex data ''message'';
          message_id = str_or [] message ''id'';
          s1 = message_model message s;
          cont = (case as_array (jindex message ''content'') of Some bs \<Rightarrow> bs | None \<Rightarrow> [])
      in if api_error_message data message then (s1, [api_failure J now data cont message_id s1])
         else (case assistant_blocks J now cont s1 of
                 (s2, es) \<Rightarrow> (s2, if message_id \<noteq> [] then map (native ''message_id'' (JString message_id)) es else es)))"

text \<open>The texts of a replay: one, or one for each block when every block is a text.\<close>

definition block_text :: "json \<Rightarrow> string option" where
  "block_text b = (if jindex b ''type'' = JString ''text'' then str_at b ''text'' else None)"

fun all_somes :: "'a option list \<Rightarrow> 'a list option" where
  "all_somes [] = Some []"
| "all_somes (None # xs) = None"
| "all_somes (Some x # xs) = map_option ((#) x) (all_somes xs)"

definition replay_texts :: "json \<Rightarrow> string list option" where
  "replay_texts data =
     (case jindex (jindex data ''message'') ''content'' of
        JString t \<Rightarrow> Some [t]
      | JArray blocks \<Rightarrow> all_somes (map block_text blocks)
      | _ \<Rightarrow> None)"

definition replay_start :: "string list \<Rightarrow> string list \<Rightarrow> nat option" where
  "replay_start texts expected =
     List.find (\<lambda>start. list_all (\<lambda>(echo, line). same_message echo line) (zip texts (drop start expected)))
       [0..<Suc (length expected - length texts)]"

definition echo_native :: "json \<Rightarrow> event \<Rightarrow> event" where
  "echo_native data e =
     fold (\<lambda>k e. case jget data k of
                   Some v \<Rightarrow> if v = JNull then e else native k v e
                 | None \<Rightarrow> e) [''session_id'', ''uuid'', ''timestamp''] e"

definition receipt :: "string \<Rightarrow> json \<Rightarrow> bool \<Rightarrow> string \<Rightarrow> claude_stream \<Rightarrow> event" where
  "receipt now data inferred t s =
     (let e = about (cs_model s) (from_provider CLAUDE (confirmed now t (if cs_turn_open s then INJECTED else START)));
          e1 = (if inferred then with_extra ''inferred'' (JBool True) e else echo_native data e)
      in if cs_session_id s \<noteq> [] \<and> bt_get (ev_native e1) ''session_id'' = None
         then native ''session_id'' (JString (cs_session_id s)) e1 else e1)"

fun receipts :: "string \<Rightarrow> json \<Rightarrow> nat \<Rightarrow> nat list \<Rightarrow> claude_stream \<Rightarrow> claude_stream \<times> event list" where
  "receipts now data skipped [] s = (s, [])"
| "receipts now data skipped (index # rest) s =
     (case cs_expected s of
        [] \<Rightarrow> (s, [])
      | t # ts \<Rightarrow>
          (case receipts now data skipped rest (s\<lparr>cs_expected := ts, cs_turn_open := True\<rparr>) of
             (s1, es) \<Rightarrow> (s1, receipt now data (index < skipped) t s # es)))"

definition replayed :: "string \<Rightarrow> json \<Rightarrow> claude_stream \<Rightarrow> claude_stream \<times> event list" where
  "replayed now data s =
     (case replay_texts data of
        None \<Rightarrow> (s, [])
      | Some texts \<Rightarrow>
          if texts = [] \<or> length (cs_expected s) < length texts then (s, [])
          else (case replay_start texts (cs_expected s) of
                  None \<Rightarrow> (s, [])
                | Some skipped \<Rightarrow> receipts now data skipped [0..<skipped + length texts] s))"

text \<open>A \<open>user\<close> line from Claude is a tool result coming back.\<close>

definition tool_result :: "codec \<Rightarrow> string \<Rightarrow> json \<Rightarrow> claude_stream \<Rightarrow> event" where
  "tool_result J now block s =
     (let call_id = str_or [] block ''tool_use_id'';
          e = (claude_event now s TOOL_RESULT)
                \<lparr>ev_tool := (case bt_get (cs_tools s) call_id of Some name \<Rightarrow> name | None \<Rightarrow> []), ev_id := call_id\<rparr>;
          e1 = (if call_id \<noteq> [] then native ''tool_use_id'' (JString call_id) e else e)
      in e1\<lparr>ev_result := JString (flatten_content J (jget block ''content'')), ev_ok := \<not> true_at block ''is_error''\<rparr>)"

fun result_blocks :: "codec \<Rightarrow> string \<Rightarrow> json list \<Rightarrow> claude_stream \<Rightarrow> claude_stream \<times> event list" where
  "result_blocks J now [] s = (s, [])"
| "result_blocks J now (b # bs) s =
     (if str_at b ''type'' \<noteq> Some ''tool_result'' then result_blocks J now bs s
      else (case result_blocks J now bs (s\<lparr>cs_tools := bt_remove (str_or [] b ''tool_use_id'') (cs_tools s)\<rparr>) of
              (s1, es) \<Rightarrow> (s1, tool_result J now b s # es)))"

definition results :: "codec \<Rightarrow> string \<Rightarrow> json \<Rightarrow> claude_stream \<Rightarrow> claude_stream \<times> event list" where
  "results J now data s =
     (case as_array (jindex (jindex data ''message'') ''content'') of
        None \<Rightarrow> (s, [])
      | Some blocks \<Rightarrow> result_blocks J now blocks s)"

definition rate_limited :: "string \<Rightarrow> json \<Rightarrow> claude_stream \<Rightarrow> event list" where
  "rate_limited now data s =
     (let info = jindex data ''rate_limit_info'' in
      if str_at info ''status'' \<noteq> Some ''rejected'' then []
      else [extras (case as_object info of Some m \<Rightarrow> m | None \<Rightarrow> [])
              (about (cs_model s) (from_provider CLAUDE
                (failure now LIMIT (''rate limited ('' @ str_or ''?'' info ''rateLimitType'' @ '')''))))])"

text \<open>\<open>result\<close> closes the turn, successfully or not.\<close>

definition finished :: "codec \<Rightarrow> string \<Rightarrow> json \<Rightarrow> claude_stream \<Rightarrow> claude_stream \<times> event list" where
  "finished J now data s =
     (let subtype = str_or [] data ''subtype'';
          went_wrong = (true_at data ''is_error'' \<or> subtype \<noteq> ''success''
            \<or> as_str (jindex data ''terminal_reason'') = Some ''prompt_too_long'');
          t = join [newline] (filter (\<lambda>t. t \<noteq> [])
                (map (\<lambda>k. flatten_content J (jget data k)) [''result'', ''errors'', ''error'']));
          fallback = (if subtype = [] then ''unknown error''
                      else if subtype = ''success'' then ''Claude returned an API error'' else subtype)
      in (s\<lparr>cs_turn_open := False\<rparr>,
          (if went_wrong then [claude_failure J now data t fallback s] else [])
          @ [with_extra ''turns'' (jindex data ''num_turns'')
              (with_extra ''usage'' (jindex data ''usage'')
              (with_extra ''cost_usd'' (jindex data ''total_cost_usd'')
              (with_extra ''stop_reason'' (jindex data ''stop_reason'') (claude_event now s END))))]))"

definition claude_feed :: "codec \<Rightarrow> string \<Rightarrow> bytes \<Rightarrow> claude_stream \<Rightarrow> claude_stream \<times> event list" where
  "claude_feed J now line s =
     (case from_slice J line of
        Inl _ \<Rightarrow> (s, [])
      | Inr data \<Rightarrow>
          (let kind = str_at data ''type'' in
           if kind = Some ''system'' then (claude_system data s, [])
           else if kind = Some ''assistant'' then assistant J now data s
           else if kind = Some ''user'' then (if replay_echo J data then replayed now data s else results J now data s)
           else if kind = Some ''rate_limit_event'' then (s, rate_limited now data s)
           else if kind = Some ''result'' then finished J now data s
           else (s, [])))"

section \<open>A conversation with the process\<close>

text \<open>
  What happens to a parser: the runner writes a message (\<open>Runner::send\<close>, which registers the line
  before the write and takes it back when the pipe refuses it, holding the parser's lock), or the
  process prints a line.
\<close>

datatype claude_input = Wrote string bool | Printed string bytes

definition claude_send :: "string \<Rightarrow> bool \<Rightarrow> claude_stream \<Rightarrow> claude_stream" where
  "claude_send t written s = (let s1 = expect_user t s in if written then s1 else forget_last_user s1)"

definition claude_step :: "codec \<Rightarrow> claude_input \<Rightarrow> claude_stream \<Rightarrow> claude_stream \<times> event list" where
  "claude_step J i s = (case i of Wrote t written \<Rightarrow> (claude_send t written s, []) | Printed now line \<Rightarrow> claude_feed J now line s)"

section \<open>Facts\<close>

lemma event_of_simps [simp]:
  "ev_type (native k v e) = ev_type e" "ev_text (native k v e) = ev_text e" "ev_extra (native k v e) = ev_extra e"
  "ev_tool (native k v e) = ev_tool e" "ev_id (native k v e) = ev_id e"
  "ev_type (claude_event now s ty) = ty" "ev_type (claude_failure J now d t fb s) = ERROR"
  by (simp_all add: native_def claude_event_def claude_failure_def Let_def)

lemma is_type_simps [simp]:
  "is_type (native k v e) ty = is_type e ty" "is_type (e\<lparr>ev_tool := a, ev_id := b, ev_args := c\<rparr>) ty = is_type e ty"
  by (simp_all add: is_type_def)

lemma tool_call_simps [simp]:
  "ev_type (tool_call now b s) = TOOL_CALL" "ev_id (tool_call now b s) = str_or [] b ''id''"
  "ev_tool (tool_call now b s) = str_or [] b ''name''"
  by (simp_all add: tool_call_def Let_def)

lemma tool_result_simps [simp]:
  "ev_type (tool_result J now b s) = TOOL_RESULT" "ev_id (tool_result J now b s) = str_or [] b ''tool_use_id''"
  "ev_tool (tool_result J now b s) = (case bt_get (cs_tools s) (str_or [] b ''tool_use_id'') of Some n \<Rightarrow> n | None \<Rightarrow> [])"
  by (simp_all add: tool_result_def Let_def)

lemma echo_native_simps [simp]:
  "ev_type (echo_native d e) = ev_type e" "ev_text (echo_native d e) = ev_text e" "ev_extra (echo_native d e) = ev_extra e"
  unfolding echo_native_def by (simp_all split: option.split)

lemma confirmed_simps [simp]:
  "ev_type (confirmed now t o') = CONFIRMED" "ev_text (confirmed now t o') = t"
  "ev_extra (confirmed now t o') = [(CONFIRMED_AS, JString o')]"
  by (simp_all add: confirmed_def bt_insert.simps)

lemma about_from_simps [simp]:
  "ev_text (about m e) = ev_text e" "ev_text (from_provider p e) = ev_text e"
  "ev_extra (about m e) = ev_extra e" "ev_extra (from_provider p e) = ev_extra e"
  by (simp_all add: about_def from_provider_def)

lemma receipt_simps [simp]:
  "ev_type (receipt now d i t s) = CONFIRMED" "ev_text (receipt now d i t s) = t"
  "get_str (ev_extra (receipt now d i t s)) CONFIRMED_AS = Some (if cs_turn_open s then INJECTED else START)"
proof -
  have k: "CONFIRMED_AS \<noteq> ''inferred''" by (simp add: CONFIRMED_AS_def)
  show "ev_type (receipt now d i t s) = CONFIRMED" "ev_text (receipt now d i t s) = t" by (simp_all add: receipt_def Let_def)
  show "get_str (ev_extra (receipt now d i t s)) CONFIRMED_AS = Some (if cs_turn_open s then INJECTED else START)"
    using k by (simp add: receipt_def Let_def get_str_def bt_get_def[of "[_]"])
qed

text \<open>What a line may change, by its sort.\<close>

definition quiet_types :: "string list" where
  "quiet_types = [TEXT, THINKING, TOOL_CALL, TOOL_RESULT, ERROR]"

lemma quiet_turn: "ev_type e \<in> set quiet_types \<Longrightarrow> turn_rule b e = Some b"
  by (auto simp: quiet_types_def turn_rule_def is_type_def event_types CONFIRMED_def)

lemma assistant_block_frame:
  "assistant_block J now b s = (t, es) \<Longrightarrow>
     cs_expected t = cs_expected s \<and> cs_turn_open t = cs_turn_open s \<and> (\<forall>e \<in> set es. ev_type e \<in> set quiet_types)
     \<and> watch naming_rule (bt_get (cs_tools s)) es = Some (bt_get (cs_tools t))"
  by (auto simp: assistant_block_def Let_def quiet_types_def naming_rule_def is_type_def event_types fun_eq_iff split: if_splits)

lemma assistant_blocks_frame:
  "assistant_blocks J now bs s = (t, es) \<Longrightarrow>
     cs_expected t = cs_expected s \<and> cs_turn_open t = cs_turn_open s \<and> (\<forall>e \<in> set es. ev_type e \<in> set quiet_types)
     \<and> watch naming_rule (bt_get (cs_tools s)) es = Some (bt_get (cs_tools t))"
proof (induction bs arbitrary: s t es)
  case (Cons b bs)
  obtain s1 es1 where 1: "assistant_block J now b s = (s1, es1)" by fastforce
  obtain s2 es2 where 2: "assistant_blocks J now bs s1 = (s2, es2)" by fastforce
  have "t = s2" "es = es1 @ es2" using Cons.prems 1 2 by simp_all
  then show ?case using assistant_block_frame[OF 1] Cons.IH[OF 2] by auto
qed simp

lemma watch_native:
  assumes "\<And>o0 e. rule o0 (native k v e) = rule o0 e"
  shows "watch rule o0 (map (native k v) es) = watch rule o0 es"
  by (induction es arbitrary: o0) (simp_all add: assms split: option.split)

lemma message_model_simps [simp]:
  "cs_expected (message_model m s) = cs_expected s" "cs_turn_open (message_model m s) = cs_turn_open s"
  "cs_tools (message_model m s) = cs_tools s"
  by (simp_all add: message_model_def split: option.split)

lemma api_failure_type [simp]: "ev_type (api_failure J now d c i s) = ERROR"
  by (simp add: api_failure_def Let_def)

lemma assistant_frame:
  assumes "assistant J now d s = (t, es)"
  shows "cs_expected t = cs_expected s \<and> cs_turn_open t = cs_turn_open s \<and> (\<forall>e \<in> set es. ev_type e \<in> set quiet_types)
     \<and> watch naming_rule (bt_get (cs_tools s)) es = Some (bt_get (cs_tools t))"
proof (cases "api_error_message d (jindex d ''message'')")
  case True
  then show ?thesis using assms
    by (auto simp: assistant_def Let_def quiet_types_def naming_rule_def is_type_def event_types)
next
  case False
  let ?c = "case as_array (jindex (jindex d ''message'') ''content'') of Some bs \<Rightarrow> bs | None \<Rightarrow> []"
  obtain s2 fs where b: "assistant_blocks J now ?c (message_model (jindex d ''message'') s) = (s2, fs)" by fastforce
  have "\<And>i o0. watch naming_rule o0 (map (native ''message_id'' i) fs) = watch naming_rule o0 fs"
    by (rule watch_native) (simp add: naming_rule_def)
  with False b assms assistant_blocks_frame[OF b] show ?thesis
    by (auto simp: assistant_def Let_def split: if_splits)
qed

lemma result_blocks_frame:
  "result_blocks J now bs s = (t, es) \<Longrightarrow>
     cs_expected t = cs_expected s \<and> cs_turn_open t = cs_turn_open s \<and> (\<forall>e \<in> set es. ev_type e \<in> set quiet_types)
     \<and> watch naming_rule (bt_get (cs_tools s)) es = Some (bt_get (cs_tools t))"
proof (induction bs arbitrary: s t es)
  case (Cons b bs)
  show ?case
  proof (cases "str_at b ''type'' = Some ''tool_result''")
    case True
    let ?s = "s\<lparr>cs_tools := bt_remove (str_or [] b ''tool_use_id'') (cs_tools s)\<rparr>"
    obtain es1 where 1: "result_blocks J now bs ?s = (t, es1)" and es: "es = tool_result J now b s # es1"
      using Cons.prems True by (auto split: prod.splits)
    have v: "(bt_get (cs_tools s))(str_or [] b ''tool_use_id'' := None) = bt_get (cs_tools ?s)" by (simp add: fun_eq_iff)
    have "naming_rule (bt_get (cs_tools s)) (tool_result J now b s) = Some (bt_get (cs_tools ?s))"
      unfolding naming_rule_def is_type_def tool_result_simps v by (simp add: event_types)
    with Cons.IH[OF 1] show ?thesis by (simp add: es quiet_types_def del: bt_get_remove)
  next
    case False
    with Cons show ?thesis by simp
  qed
qed simp

lemma receipts_frame:
  "receipts now d k is s = (t, es) \<Longrightarrow>
     map ev_text es @ cs_expected t = cs_expected s \<and> (\<forall>e \<in> set es. ev_type e = CONFIRMED) \<and> cs_tools t = cs_tools s
     \<and> watch turn_rule (cs_turn_open s) es = Some (cs_turn_open t)"
proof (induction "is" arbitrary: s t es)
  case (Cons i "is")
  show ?case
  proof (cases "cs_expected s")
    case Nil
    with Cons.prems show ?thesis by simp
  next
    case (Cons l ls)
    let ?s = "s\<lparr>cs_expected := ls, cs_turn_open := True\<rparr>"
    obtain es1 where 1: "receipts now d k is ?s = (t, es1)" and es: "es = receipt now d (i < k) l s # es1"
      using Cons.prems Cons by (auto split: prod.splits)
    show ?thesis using Cons.IH[OF 1] Cons by (simp add: es turn_rule_def is_type_def)
  qed
qed simp

text \<open>Every line is one of four things to an observer of the queue and of the turn.\<close>

lemma claude_feed_cases:
  assumes "claude_feed J now line s = (t, es)"
  obtains (quiet) "cs_expected t = cs_expected s" "cs_turn_open t = cs_turn_open s" "\<forall>e \<in> set es. ev_type e \<in> set quiet_types"
      "watch naming_rule (bt_get (cs_tools s)) es = Some (bt_get (cs_tools t))"
    | (echo) data where "replayed now data s = (t, es)"
    | (finish) data where "finished J now data s = (t, es)"
proof -
  have idle: ?thesis if "cs_expected t = cs_expected s" "cs_turn_open t = cs_turn_open s" "cs_tools t = cs_tools s" "es = []"
    using that quiet by simp
  show ?thesis
  proof (cases "from_slice J line")
    case (Inl e)
    with assms show ?thesis by (intro idle) (auto simp: claude_feed_def)
  next
    case (Inr d)
    let ?k = "str_at d ''type''"
    consider "?k = Some ''system''" | "?k = Some ''assistant''" | "?k = Some ''user''" | "?k = Some ''rate_limit_event''"
      | "?k = Some ''result''" | "?k \<notin> Some ` {''system'', ''assistant'', ''user'', ''rate_limit_event'', ''result''}" by blast
    then show ?thesis
    proof cases
      case 1
      with assms Inr show ?thesis
        by (intro idle) (auto simp: claude_feed_def claude_system_def Let_def split: option.splits if_splits)
    next
      case 2
      then have "assistant J now d s = (t, es)" using assms Inr by (simp add: claude_feed_def)
      from assistant_frame[OF this] show ?thesis using quiet by blast
    next
      case 3
      then have u: "(if replay_echo J d then replayed now d s else results J now d s) = (t, es)"
        using assms Inr by (simp add: claude_feed_def)
      show ?thesis
      proof (cases "replay_echo J d")
        case True
        with u show ?thesis using echo by simp
      next
        case False
        with u have r: "results J now d s = (t, es)" by simp
        show ?thesis
        proof (cases "as_array (jindex (jindex d ''message'') ''content'')")
          case None
          with r show ?thesis by (intro idle) (auto simp: results_def)
        next
          case (Some bs)
          with r have "result_blocks J now bs s = (t, es)" by (simp add: results_def)
          from result_blocks_frame[OF this] show ?thesis using quiet by blast
        qed
      qed
    next
      case 4
      with assms Inr have "t = s" "es = rate_limited now d s" by (auto simp: claude_feed_def)
      then show ?thesis
        by (intro quiet) (auto simp: rate_limited_def Let_def quiet_types_def naming_rule_def is_type_def event_types)
    next
      case 5
      with assms Inr show ?thesis by (intro finish) (simp add: claude_feed_def)
    next
      case 6
      with assms Inr show ?thesis by (intro idle) (auto simp: claude_feed_def Let_def)
    qed
  qed
qed

lemma replayed_frame:
  assumes "replayed now d s = (t, es)"
  shows "map ev_text es @ cs_expected t = cs_expected s \<and> (\<forall>e \<in> set es. ev_type e = CONFIRMED) \<and> cs_tools t = cs_tools s
     \<and> watch turn_rule (cs_turn_open s) es = Some (cs_turn_open t)"
  using assms receipts_frame by (fastforce simp: replayed_def split: option.splits if_splits)

lemma finished_frame:
  assumes "finished J now d s = (t, es)"
  shows "cs_expected t = cs_expected s" "cs_tools t = cs_tools s" "\<not> cs_turn_open t"
    "\<exists>fs e. es = fs @ [e] \<and> ev_type e = END \<and> (\<forall>f \<in> set fs. ev_type f = ERROR)"
  using assms by (auto simp: finished_def Let_def)

definition confirmed_texts :: "event list \<Rightarrow> string list" where
  "confirmed_texts es = map ev_text (filter (\<lambda>e. is_type e CONFIRMED) es)"

lemma confirmed_texts_simps [simp]:
  "confirmed_texts [] = []" "confirmed_texts (es @ fs) = confirmed_texts es @ confirmed_texts fs"
  "\<forall>e \<in> set es. ev_type e \<in> set quiet_types \<Longrightarrow> confirmed_texts es = []"
  "\<forall>e \<in> set es. ev_type e = CONFIRMED \<Longrightarrow> confirmed_texts es = map ev_text es"
  by (auto simp: confirmed_texts_def is_type_def quiet_types_def event_types CONFIRMED_def filter_empty_conv
      intro!: arg_cong[where f = "map ev_text"])

definition written :: "claude_input list \<Rightarrow> string list" where
  "written is = concat (map (\<lambda>i. case i of Wrote t True \<Rightarrow> [t] | _ \<Rightarrow> []) is)"

lemma finished_confirms: "\<exists>fs e. es = fs @ [e] \<and> ev_type e = END \<and> (\<forall>f \<in> set fs. ev_type f = ERROR) \<Longrightarrow> confirmed_texts es = []"
  by (auto simp: confirmed_texts_def is_type_def event_types CONFIRMED_def filter_empty_conv)

lemma claude_step_conserves:
  assumes "claude_step J i s = (t, es)"
  shows "confirmed_texts es @ cs_expected t = cs_expected s @ written [i]"
proof (cases i)
  case (Wrote x ok)
  with assms show ?thesis
    by (cases ok) (auto simp: claude_step_def claude_send_def expect_user_def forget_last_user_def written_def Let_def)
next
  case (Printed now line)
  then have f: "claude_feed J now line s = (t, es)" using assms by (simp add: claude_step_def)
  from f have "confirmed_texts es @ cs_expected t = cs_expected s"
    by (cases rule: claude_feed_cases) (auto dest: replayed_frame simp: finished_confirms finished_frame)
  then show ?thesis by (simp add: Printed written_def)
qed

text \<open>
  C34: confirmations are exact. Whatever Claude prints and whichever writes its pipe refuses, the
  texts confirmed so far followed by those still awaited are the messages that were written, each
  once, in order, with the very text that was sent and not the echo's rewriting of it.
\<close>

theorem claude_receipts_exact:
  "confirmed_texts (snd (feed_all (claude_step J) is s)) @ cs_expected (fst (feed_all (claude_step J) is s))
     = cs_expected s @ written is"
proof (induction "is" arbitrary: s)
  case Nil
  then show ?case by (simp add: written_def)
next
  case (Cons i "is")
  obtain s1 es where 1: "claude_step J i s = (s1, es)" by fastforce
  have "written (i # is) = written [i] @ written is" by (simp add: written_def)
  moreover obtain s2 fs where 2: "feed_all (claude_step J) is s1 = (s2, fs)" by fastforce
  moreover have "confirmed_texts fs @ cs_expected s2 = cs_expected s1 @ written is" using Cons.IH[of s1] 2 by simp
  moreover note claude_step_conserves[OF 1]
  ultimately show ?case by (simp add: 1)
qed

lemma claude_send_simps [simp]:
  "cs_turn_open (claude_send x b s) = cs_turn_open s" "cs_tools (claude_send x b s) = cs_tools s"
  by (simp_all add: claude_send_def expect_user_def forget_last_user_def Let_def)

interpretation claude_turns: followed_stream "claude_step J" cs_turn_open turn_rule for J
proof unfold_locales
  fix s i
  obtain t es where 1: "claude_step J i s = (t, es)" by fastforce
  have "watch turn_rule (cs_turn_open s) es = Some (cs_turn_open t)"
  proof (cases i)
    case (Wrote x ok)
    with 1 show ?thesis by (auto simp: claude_step_def)
  next
    case (Printed now line)
    then have "claude_feed J now line s = (t, es)" using 1 by (simp add: claude_step_def)
    then show ?thesis
    proof (cases rule: claude_feed_cases)
      case quiet
      then show ?thesis by (simp add: watch_idle quiet_turn)
    next
      case (echo d)
      from replayed_frame[OF echo] show ?thesis by simp
    next
      case (finish d)
      obtain fs e where es: "es = fs @ [e]" "ev_type e = END" "\<forall>f \<in> set fs. ev_type f = ERROR"
        using finished_frame(4)[OF finish] by blast
      have "watch turn_rule (cs_turn_open s) fs = Some (cs_turn_open s)"
        by (rule watch_idle) (use es(3) in \<open>simp add: quiet_turn quiet_types_def\<close>)
      then show ?thesis using es(2) finished_frame(3)[OF finish]
        by (simp add: es(1) turn_rule_def is_type_def event_types CONFIRMED_def)
    qed
  qed
  then show "watch turn_rule (cs_turn_open s) (snd (claude_step J i s)) = Some (cs_turn_open (fst (claude_step J i s)))" by (simp add: 1)
qed

interpretation claude_names: followed_stream "claude_step J" "\<lambda>s. bt_get (cs_tools s)" naming_rule for J
proof unfold_locales
  fix s i
  obtain t es where 1: "claude_step J i s = (t, es)" by fastforce
  have "watch naming_rule (bt_get (cs_tools s)) es = Some (bt_get (cs_tools t))"
  proof (cases i)
    case (Wrote x ok)
    with 1 show ?thesis by (auto simp: claude_step_def)
  next
    case (Printed now line)
    then have "claude_feed J now line s = (t, es)" using 1 by (simp add: claude_step_def)
    then show ?thesis
    proof (cases rule: claude_feed_cases)
      case (echo d)
      note r = replayed_frame[OF echo]
      then show ?thesis by (simp add: watch_idle type_tests(2)[where ty = CONFIRMED] is_type_def)
    next
      case (finish d)
      have "naming_rule m e = Some m" if "e \<in> set es" for m e
        using finished_frame(4)[OF finish] that by (auto simp: naming_rule_def is_type_def event_types)
      then show ?thesis using finished_frame(2)[OF finish] by (simp add: watch_idle)
    qed
  qed
  then show "watch naming_rule (bt_get (cs_tools s)) (snd (claude_step J i s)) = Some (bt_get (cs_tools (fst (claude_step J i s))))"
    by (simp add: 1)
qed

text \<open>
  turns open once. In whatever Claude prints, the first message confirmed after an end is
  confirmed as the start of a turn and every further one as injected into it, until the next end.
\<close>

theorem claude_turns_alternate:
  "watch turn_rule False (snd (feed_all (claude_step J) is (claude_new model)))
     = Some (cs_turn_open (fst (feed_all (claude_step J) is (claude_new model))))"
  using claude_turns.run_follows[of "claude_new model" J "is"] by (simp add: claude_new_def)

text \<open>
  a tool result goes by the name of the call it answers: of the last call with its id that had
  no result yet, and by no name when there is none.
\<close>

theorem claude_results_named:
  "watch naming_rule Map.empty (snd (feed_all (claude_step J) is (claude_new model))) \<noteq> None"
  using claude_names.run_follows[of "claude_new model" J "is"] by (simp add: claude_new_def bt_get_def[abs_def])

text \<open>A block as it would read if it held no thinking.\<close>

definition scrubbed :: "json \<Rightarrow> json" where
  "scrubbed b = (if str_or [] b ''type'' \<in> set THINKING_BLOCKS then JObject [(''type'', jindex b ''type'')] else b)"

lemma scrubbed_type [simp]: "str_at (scrubbed b) ''type'' = str_at b ''type''"
  by (auto simp: scrubbed_def str_or_def str_at_def THINKING_BLOCKS_def bt_get_def jindex_def split: option.splits)

lemma assistant_block_scrubbed [simp]: "assistant_block J now (scrubbed b) s = assistant_block J now b s"
proof (cases "str_or [] b ''type'' \<in> set THINKING_BLOCKS")
  case True
  then have "str_or [] (scrubbed b) ''type'' \<in> set THINKING_BLOCKS" by (simp add: str_or_def)
  moreover have "x \<noteq> ''text''" if "x \<in> set THINKING_BLOCKS" for x using that by (auto simp: THINKING_BLOCKS_def)
  ultimately show ?thesis using True by (simp add: assistant_block_def Let_def)
qed (simp add: scrubbed_def)

lemma assistant_blocks_scrubbed [simp]: "assistant_blocks J now (map scrubbed bs) s = assistant_blocks J now bs s"
  by (induction bs arbitrary: s) (simp_all split: prod.split)

lemma error_text_scrubbed [simp]: "error_text (map scrubbed bs) = error_text bs"
proof -
  have "scrubbed b = b" if "str_at b ''type'' = Some ''text''" for b
    using that by (simp add: scrubbed_def str_or_def THINKING_BLOCKS_def)
  then have "map (\<lambda>b. str_or [] b ''text'') (filter (\<lambda>b. str_at b ''type'' = Some ''text'') (map scrubbed bs))
      = map (\<lambda>b. str_or [] b ''text'') (filter (\<lambda>b. str_at b ''type'' = Some ''text'') bs)"
    by (induction bs) auto
  then show ?thesis by (simp add: error_text_def)
qed

lemma failure_extra_message:
  "jget x ''error'' = jget y ''error''
     \<Longrightarrow> failure_extra (JObject (bt_insert ''message'' x d)) = failure_extra (JObject (bt_insert ''message'' y d))"
  by (simp add: failure_extra_def jindex_def FAILURE_KEYS_def)

text \<open>
  encrypted thinking is never carried. Whatever a thinking block holds, the events and the
  parser's state are those of a block that holds nothing but its type.
\<close>

theorem claude_thinking_dropped:
  "assistant J now (JObject (bt_insert ''message'' (JObject (bt_insert ''content'' (JArray bs) m)) d)) s
     = assistant J now (JObject (bt_insert ''message'' (JObject (bt_insert ''content'' (JArray (map scrubbed bs)) m)) d)) s"
proof -
  define x y where "x = JObject (bt_insert ''content'' (JArray bs) m)" and "y = JObject (bt_insert ''content'' (JArray (map scrubbed bs)) m)"
  have same: "jget x k = jget y k" if "k \<noteq> ''content''" for k using that by (simp add: x_def y_def)
  have cont: "jindex x ''content'' = JArray bs" "jindex y ''content'' = JArray (map scrubbed bs)"
    by (simp_all add: jindex_def x_def y_def)
  have reads: "str_or [] x ''id'' = str_or [] y ''id''" "message_model x = message_model y"
    by (simp_all add: str_or_def str_at_def message_model_def same fun_eq_iff)
  let ?D = "\<lambda>z. JObject (bt_insert ''message'' z d)"
  have api: "api_error_message (?D x) x = api_error_message (?D y) y"
    by (simp add: api_error_message_def true_at_def same)
  have fail: "api_failure J now (?D x) c i u = api_failure J now (?D y) c i u" for c i u
    by (simp add: api_failure_def claude_failure_def failure_extra_message[OF same])
  have scrub: "api_failure J now e (map scrubbed bs) i u = api_failure J now e bs i u" for e i u
    by (simp add: api_failure_def)
  have msg: "jindex (?D z) ''message'' = z" for z by (simp add: jindex_def)
  have "assistant J now (?D x) s = assistant J now (?D y) s"
    unfolding assistant_def Let_def msg reads by (simp add: cont api fail scrub)
  then show ?thesis by (simp add: x_def y_def)
qed

section \<open>An echo lands\<close>

lemma receipts_length: "length (snd (receipts now d k is s)) = min (length is) (length (cs_expected s))"
proof (induction "is" arbitrary: s)
  case (Cons i "is")
  then show ?case by (cases "cs_expected s") (simp_all add: prod.case_eq_if)
qed simp

lemma receipt_inferred:
  "get_bool (ev_extra (receipt now d b t s)) ''inferred'' = (if b then Some True else None)"
  by (simp add: receipt_def Let_def get_bool_def bt_get_def[of "[_]"] CONFIRMED_AS_def)

lemma receipts_inferred:
  "map (\<lambda>e. get_bool (ev_extra e) ''inferred'') (snd (receipts now d k is s))
     = map (\<lambda>i. if i < k then Some True else None) (take (length (cs_expected s)) is)"
proof (induction "is" arbitrary: s)
  case (Cons i "is")
  then show ?case by (cases "cs_expected s") (simp_all add: prod.case_eq_if receipt_inferred)
qed simp

lemma find_first: "(\<And>i. i < n \<Longrightarrow> \<not> P i) \<Longrightarrow> P n \<Longrightarrow> n < m \<Longrightarrow> List.find P [0..<m] = Some n"
  by (auto simp: find_Some_iff intro: exI[of _ n])

lemma replay_start_first:
  assumes "same_message echo l" and "\<forall>x \<in> set pre. \<not> same_message echo x"
  shows "replay_start [echo] (pre @ l # post) = Some (length pre)"
proof -
  have "(pre @ l # post) ! i \<in> set pre" if "i < length pre" for i using that by (simp add: nth_append)
  then have before: "\<not> same_message echo ((pre @ l # post) ! i)" if "i < length pre" for i using that assms(2) by blast
  have one: "list_all (\<lambda>(e, x). same_message e x) (zip [echo] (drop i (pre @ l # post))) = same_message echo ((pre @ l # post) ! i)"
    if "i \<le> length pre" for i
    using that by (subst Cons_nth_drop_Suc[symmetric]) auto
  show ?thesis unfolding replay_start_def
    by (rule find_first) (use before one assms(1) in \<open>auto simp: nth_append\<close>)
qed

lemma inferred_marks:
  "map (\<lambda>i. if i < n then Some True else None) [0..<n + 1] = replicate n (Some True) @ [None]"
  by (rule nth_equalityI) (auto simp: nth_append simp del: upt_Suc)

text \<open>
  an echo confirms the oldest line it matches. Every line written before that one is confirmed
  first, marked as inferred, and the lines after it stay awaited.
\<close>

theorem claude_echo_lands:
  assumes "from_slice J line = Inr data" and "str_at data ''type'' = Some ''user''" and "replay_echo J data"
    and "jindex (jindex data ''message'') ''content'' = JString echo"
    and "cs_expected s = pre @ l # post" and "same_message echo l" and "\<forall>x \<in> set pre. \<not> same_message echo x"
  shows "\<exists>t es. claude_feed J now line s = (t, es) \<and> cs_expected t = post \<and> map ev_text es = pre @ [l]
    \<and> map (\<lambda>e. get_bool (ev_extra e) ''inferred'') es = replicate (length pre) (Some True) @ [None]"
proof -
  let ?n = "length pre + 1"
  obtain t es where r: "receipts now data (length pre) [0..<?n] s = (t, es)" by fastforce
  have "claude_feed J now line s = replayed now data s" using assms(1-3) by (simp add: claude_feed_def)
  also have "\<dots> = (t, es)"
    using r by (simp add: replayed_def replay_texts_def assms(4,5) replay_start_first[OF assms(6,7)])
  finally have f: "claude_feed J now line s = (t, es)" .
  have len: "length es = ?n" using receipts_length[of now data "length pre" "[0..<?n]" s] r assms(5) by simp
  have conserve: "map ev_text es @ cs_expected t = (pre @ [l]) @ post" using receipts_frame[OF r] assms(5) by simp
  have "map ev_text es = pre @ [l] \<and> cs_expected t = post"
    using conserve len by (subst (asm) append_eq_append_conv) simp_all
  moreover have "map (\<lambda>e. get_bool (ev_extra e) ''inferred'') es = replicate (length pre) (Some True) @ [None]"
    using receipts_inferred[of now data "length pre" "[0..<?n]" s] r assms(5) inferred_marks[of "length pre"] by simp
  ultimately show ?thesis using f by blast
qed

definition echo_data :: json where
  "echo_data = JObject [(''isReplay'', JBool True), (''message'', JObject [(''content'', JString ''two'')]), (''type'', JString ''user'')]"

theorem claude_echo_lands_witness:
  "let J = \<lparr>from_slice = (\<lambda>_. Inr echo_data), to_text = (\<lambda>_. ''{}''), to_pretty = (\<lambda>_. ''{}'')\<rparr>;
       s = (claude_new ''m'')\<lparr>cs_expected := [''one'', '' two '', ''three'']\<rparr>
   in \<exists>t es. claude_feed J ''now'' ''x'' s = (t, es) \<and> cs_expected t = [''three'']"
proof -
  let ?J = "\<lparr>from_slice = (\<lambda>_. Inr echo_data), to_text = (\<lambda>_. ''{}''), to_pretty = (\<lambda>_. ''{}'')\<rparr>"
  have "replay_echo ?J echo_data" "same_message ''two'' '' two ''" "\<not> same_message ''two'' ''one''" by code_simp+
  then show ?thesis unfolding Let_def
    using claude_echo_lands[where J = ?J and line = "''x''" and now = "''now''" and data = echo_data and echo = "''two''" and pre = "[''one'']"
        and l = "'' two ''" and post = "[''three'']" and s = "(claude_new ''m'')\<lparr>cs_expected := [''one'', '' two '', ''three'']\<rparr>"]
    by (simp add: echo_data_def str_at_def jindex_def bt_get_def) blast
qed

end
