(* ===== verification/Claude_Runner.thy ===== *)
theory Claude_Runner
  imports Cli_Runner Claude_Session Claude_Stream
begin

text \<open>
  \<open>providers/claude_code_cli/runner.rs\<close> and \<open>control.rs\<close>: one long-lived process for every turn of a
  session, seeded through its file, and the control channel beside the messages.
\<close>

section \<open>The control channel\<close>

definition control_line :: "codec \<Rightarrow> string \<Rightarrow> string \<Rightarrow> json \<Rightarrow> string" where
  "control_line J subtype request_id body =
     to_text J (JObject
       [(''request'', JObject (case body of
           JObject m \<Rightarrow> fold (\<lambda>(k, v) r. bt_insert k v r) m [(''subtype'', JString subtype)]
         | _ \<Rightarrow> [(''subtype'', JString subtype)])),
        (''request_id'', JString request_id), (''type'', JString ''control_request'')])"

definition control_answer :: "codec \<Rightarrow> bytes \<Rightarrow> (string \<times> json) option" where
  "control_answer J t =
     (if find_str (quoted ''control_response'') t = None then None
      else (case from_slice J t of
              Inl _ \<Rightarrow> None
            | Inr data \<Rightarrow>
                if Option.bind (jget data ''type'') as_str \<noteq> Some ''control_response'' then None
                else Option.bind (jget data ''response'') (\<lambda>response.
                       Option.bind (Option.bind (jget response ''request_id'') as_str) (\<lambda>i. Some (i, response)))))"

definition succeeded :: "json \<Rightarrow> bool" where
  "succeeded response \<longleftrightarrow> Option.bind (jget response ''subtype'') as_str = Some ''success''"

text \<open>\<open>control::ask\<close>: one question to a process of its own, from the lines it printed in time.\<close>

definition control_ask :: "codec \<Rightarrow> bool \<Rightarrow> bytes list \<Rightarrow> json option" where
  "control_ask J up lines =
     (if \<not> up then None
      else (case List.map_filter (control_answer J) lines of
              [] \<Rightarrow> None
            | (_, response) # _ \<Rightarrow> if succeeded response then Some (jindex response ''response'') else None))"

section \<open>The runner\<close>

definition CLAUDE_CLI :: string where "CLAUDE_CLI = ''claude''"

definition QUIET_ENV :: "(string \<times> string) list" where
  "QUIET_ENV = [(''CLAUDE_CODE_DISABLE_AUTO_MEMORY'', ''1''), (''CLAUDE_CODE_DISABLE_CLAUDE_MDS'', ''1''),
     (''CLAUDE_CODE_DISABLE_ORG_MEMORY'', ''1'')]"

record claude_runner =
  cr_config :: config
  cr_stream :: claude_stream
  cr_proc :: "pipe option"
  cr_native :: string
  cr_waiting :: "string list"
  cr_tickets :: nat
  cr_stopping :: bool

definition claude_runner_new :: "config \<Rightarrow> claude_runner" where
  "claude_runner_new cf = \<lparr>cr_config = cf, cr_stream = claude_new (cf_model cf), cr_proc = None, cr_native = [], cr_waiting = [],
     cr_tickets = 1, cr_stopping = False\<rparr>"

definition given_flags :: "(string \<times> string) list \<Rightarrow> string list" where
  "given_flags fs = concat (map (\<lambda>(flag, value). if value \<noteq> [] then [flag, value] else []) fs)"

definition claude_argv :: "bool \<Rightarrow> claude_runner \<Rightarrow> string list" where
  "claude_argv resume r =
     (let cf = cr_config r in
      [CLAUDE_CLI, ''-p'', ''--output-format'', ''stream-json'', ''--input-format'', ''stream-json'', ''--verbose'',
       ''--replay-user-messages'', ''--dangerously-skip-permissions'', ''--disable-slash-commands'']
      @ [if resume then ''--resume'' else ''--session-id'', cr_native r]
      @ given_flags [(''--model'', cf_model cf), (''--effort'', cf_effort cf), (''--system-prompt'', cf_system_prompt cf),
          (''--append-system-prompt'', cf_append_system_prompt cf)]
      @ (if cf_disable_subagents cf then [''--disallowedTools'', ''Agent(*)''] else [])
      @ (if cf_disable_mcp cf then [''--strict-mcp-config'', ''--setting-sources'', []] else []))"

definition claude_env :: "claude_runner \<Rightarrow> (string \<times> string) list" where
  "claude_env r = QUIET_ENV @ (if cf_disable_subagents (cr_config r) then [(''CLAUDE_CODE_DISABLE_WORKFLOWS'', ''1'')] else [])"

text \<open>A line of the process: the answer somebody waits for, or something for the parser.\<close>

definition claude_line :: "codec \<Rightarrow> string \<times> bytes \<Rightarrow> claude_runner \<Rightarrow> claude_runner \<times> event list \<times> (string \<times> json) option" where
  "claude_line J l r =
     (let parsed = (case claude_feed J (fst l) (snd l) (cr_stream r) of (s1, es) \<Rightarrow> (r\<lparr>cr_stream := s1\<rparr>, es, None))
      in case control_answer J (snd l) of
           Some (i, response) \<Rightarrow>
             if i \<in> set (cr_waiting r) then (r\<lparr>cr_waiting := remove1 i (cr_waiting r)\<rparr>, [], Some (i, response)) else parsed
         | None \<Rightarrow> parsed)"

fun claude_lines :: "codec \<Rightarrow> printed \<Rightarrow> claude_runner \<Rightarrow> claude_runner \<times> event list \<times> (string \<times> json) list" where
  "claude_lines J [] r = (r, [], [])"
| "claude_lines J (l # ls) r =
     (case claude_line J l r of
        (r1, es, a) \<Rightarrow>
          (case claude_lines J ls r1 of
             (r2, es2, as) \<Rightarrow> (r2, es @ es2, (case a of Some x \<Rightarrow> [x] | None \<Rightarrow> []) @ as)))"

definition forget_request :: "string \<Rightarrow> claude_runner \<Rightarrow> claude_runner" where
  "forget_request i r = r\<lparr>cr_waiting := filter (\<lambda>j. j \<noteq> i) (cr_waiting r)\<rparr>"

type_synonym claude_place = "claude_runner \<times> cli"

text \<open>The wait is over with the answer or with the deadline, whatever is printed after.\<close>

definition claude_await :: "codec \<Rightarrow> string \<Rightarrow> claude_place \<Rightarrow> claude_place \<times> json option" where
  "claude_await J i s =
     (case s of (r, c) \<Rightarrow>
        (case cl_wait c (cl_tick c) of
           (early, late) \<Rightarrow>
             (case claude_lines J early r of
                (r1, es, answers) \<Rightarrow>
                  (case claude_lines J late r1 of
                     (r2, es2, _) \<Rightarrow> ((forget_request i r2, cli_emit (es @ es2) (cli_next c)), map_of answers i)))))"

definition request_name :: "string \<Rightarrow> nat \<Rightarrow> string" where
  "request_name subtype ticket = ''omni-'' @ subtype @ ''-'' @ show_nat ticket"

definition claude_ask :: "codec \<Rightarrow> string \<Rightarrow> json \<Rightarrow> claude_place \<Rightarrow> claude_place \<times> bool" where
  "claude_ask J subtype body s =
     (case s of (r, c) \<Rightarrow>
        (case cr_proc r of
           None \<Rightarrow> (s, False)
         | Some p \<Rightarrow>
             let i = request_name subtype (cr_tickets r);
                 r1 = r\<lparr>cr_tickets := Suc (cr_tickets r), cr_waiting := cr_waiting r @ [i]\<rparr>
             in case cli_write (control_line J subtype i body) p c of
                  (p1, c1, False) \<Rightarrow> ((forget_request i (r1\<lparr>cr_proc := Some p1\<rparr>), c1), False)
                | (p1, c1, True) \<Rightarrow>
                    (case claude_await J i (r1\<lparr>cr_proc := Some p1\<rparr>, c1) of
                       ((r2, c2), a) \<Rightarrow>
                         let ok = (case a of Some response \<Rightarrow> succeeded response | None \<Rightarrow> False)
                         in ((r2, c2\<lparr>cl_asked := cl_asked c2 @ [(subtype, body, ok)]\<rparr>), ok))))"

definition claude_alive :: "nat \<Rightarrow> claude_place \<Rightarrow> bool" where
  "claude_alive n s = (case s of (r, c) \<Rightarrow> cr_proc r \<noteq> None \<and> cl_alive c n)"

text \<open>
  \<open>start\<close>: a native session whose file is not there is lost; then a new one is begun, without the
  history, and its other name tells the conductor so.
\<close>

definition claude_start :: "codec \<Rightarrow> string \<Rightarrow> event list \<Rightarrow> claude_place \<Rightarrow> claude_place \<times> unit res" where
  "claude_start J native_id history s =
     (case s of (r0, c0) \<Rightarrow>
        let cwd = cf_cwd (cr_config r0);
            lost = (native_id \<noteq> [] \<and> \<not> exists_file (cl_files c0) (session_path (cl_files c0) cwd native_id));
            (w1, native) = (if \<not> lost \<and> native_id \<noteq> [] then (cl_files c0, native_id) else new_uuid (cl_files c0));
            r = r0\<lparr>cr_native := native\<rparr>;
            turns = (if lost then [] else transcript J history)
        in case (if turns = [] then (w1, Inr []) else seed_claude J cwd native turns (cf_model (cr_config r)) w1) of
             (w2, Inl err) \<Rightarrow> ((r, c0\<lparr>cl_files := w2\<rparr>), Inl (''could not seed claude: '' @ err))
           | (w2, Inr _) \<Rightarrow>
               let known = exists_file w2 (session_path w2 cwd native)
               in case cli_start \<lparr>sa_argv = claude_argv known r, sa_env = claude_env r, sa_cwd = cwd\<rparr> (c0\<lparr>cl_files := w2\<rparr>) of
                    (c1, Inl err) \<Rightarrow> ((r, c1), Inl (''could not start claude: '' @ err))
                  | (c1, Inr p) \<Rightarrow> ((r\<lparr>cr_proc := Some p\<rparr>, c1), Inr ()))"

definition claude_runner_send :: "codec \<Rightarrow> string \<Rightarrow> claude_place \<Rightarrow> claude_place \<times> delivery res" where
  "claude_runner_send J t s =
     (case s of (r, c) \<Rightarrow>
        (case cr_proc r of
           None \<Rightarrow> (s, Inl ''claude would not take the message'')
         | Some p \<Rightarrow>
             (case cli_write (claude_user_line J t) p c of
                (p1, c1, ok) \<Rightarrow>
                  ((r\<lparr>cr_proc := Some p1, cr_stream := claude_send t ok (cr_stream r)\<rparr>, c1),
                   if ok then Inr Echoed else Inl ''claude would not take the message''))))"

definition claude_retune :: "codec \<Rightarrow> string \<Rightarrow> string \<Rightarrow> claude_place \<Rightarrow> claude_place \<times> bool" where
  "claude_retune J model effort s =
     (if \<not> claude_alive (cl_tick (snd s)) s then (s, False)
      else
        let cf = cr_config (fst s) in
        (case (if model \<noteq> [] \<and> model \<noteq> cf_model cf then claude_ask J ''set_model'' (JObject [(''model'', JString model)]) s else (s, True)) of
           (s1, False) \<Rightarrow> (s1, False)
         | (s1, True) \<Rightarrow>
             (case (if effort \<noteq> cf_effort cf
                    then claude_ask J ''apply_flag_settings''
                      (JObject [(''settings'', JObject (if effort = [] then [] else [(''effortLevel'', JString effort)]))]) s1
                    else (s1, True)) of
                (s2, False) \<Rightarrow> (s2, False)
              | ((r, c), True) \<Rightarrow>
                  ((r\<lparr>cr_config := (cr_config r)\<lparr>cf_model := model, cf_effort := effort\<rparr>,
                      cr_stream := (cr_stream r)\<lparr>cs_model := model\<rparr>\<rparr>, c), True))))"

definition claude_interrupt :: "codec \<Rightarrow> claude_place \<Rightarrow> claude_place" where
  "claude_interrupt J s =
     (case s of (r, c) \<Rightarrow>
        (case cr_proc r of
           None \<Rightarrow> s
         | Some p \<Rightarrow> (case cli_write (control_line J ''interrupt'' ''omni-interrupt'' (JObject [])) p c of
                       (p1, c1, _) \<Rightarrow> (r\<lparr>cr_proc := Some p1\<rparr>, c1))))"

definition claude_stop :: "claude_place \<Rightarrow> claude_place" where
  "claude_stop s = (case s of (r, c) \<Rightarrow> (r\<lparr>cr_stopping := True, cr_proc := None\<rparr>, c))"

section \<open>Settings\<close>

text \<open>
  What the process runs with, from the requests it confirmed: \<open>set_model\<close> names the model, and
  \<open>apply_flag_settings\<close> replaces the whole layer of flags.
\<close>

definition apply_request :: "string \<times> string \<Rightarrow> string \<times> json \<times> bool \<Rightarrow> string \<times> string" where
  "apply_request now q =
     (case q of (subtype, body, ok) \<Rightarrow>
        if \<not> ok then now
        else if subtype = ''set_model'' then (case as_str (jindex body ''model'') of Some m \<Rightarrow> m | None \<Rightarrow> fst now, snd now)
        else if subtype = ''apply_flag_settings''
        then (fst now, case as_str (jindex (jindex body ''settings'') ''effortLevel'') of Some e \<Rightarrow> e | None \<Rightarrow> [])
        else now)"

definition running_with :: "string \<times> string \<Rightarrow> (string \<times> json \<times> bool) list \<Rightarrow> string \<times> string" where
  "running_with launched asked = foldl apply_request launched asked"

definition tuned_to :: "claude_runner \<Rightarrow> string \<times> string" where
  "tuned_to r = (cf_model (cr_config r), cf_effort (cr_config r))"

text \<open>A request counts as confirmed when the process said so, in time and under the id of a request of this kind.\<close>

definition confirmed_by :: "codec \<Rightarrow> cli \<Rightarrow> string \<Rightarrow> bool" where
  "confirmed_by J c subtype \<longleftrightarrow> (\<exists>n. \<exists>l \<in> set (fst (cl_wait c n)). \<exists>i response.
     control_answer J (snd l) = Some (i, response) \<and> succeeded response \<and> prefix (''omni-'' @ subtype @ ''-'') i)"

definition asks :: "codec \<Rightarrow> claude_place \<Rightarrow> claude_place \<Rightarrow> (string \<times> json \<times> bool) list \<Rightarrow> bool" where
  "asks J s t qs \<longleftrightarrow> cl_asked (snd t) = cl_asked (snd s) @ qs \<and> cr_config (fst t) = cr_config (fst s) \<and> cl_wait (snd t) = cl_wait (snd s)
     \<and> (\<forall>q \<in> set qs. snd (snd q) \<longrightarrow> confirmed_by J (snd s) (fst q))"

lemma asks_trans: "asks J s t qs \<Longrightarrow> asks J t u qs' \<Longrightarrow> asks J s u (qs @ qs')"
  by (auto simp: asks_def confirmed_by_def)

lemma asks_refl: "asks J s s []"
  by (simp add: asks_def)

lemma claude_line_frame:
  "claude_line J l r = (r1, es, a) \<Longrightarrow> cr_config r1 = cr_config r \<and> (\<forall>x. a = Some x \<longrightarrow> control_answer J (snd l) = Some x)"
  by (auto simp: claude_line_def Let_def split: prod.splits option.splits if_splits)

lemma claude_lines_frame:
  assumes "claude_lines J ls r = (r1, es, as)"
  shows "cr_config r1 = cr_config r \<and> (\<forall>x \<in> set as. \<exists>l \<in> set ls. control_answer J (snd l) = Some x)"
  using assms
proof (induction ls arbitrary: r es as)
  case (Cons l ls)
  obtain r2 es2 a where a: "claude_line J l r = (r2, es2, a)" by (cases "claude_line J l r")
  obtain es3 as3 where b: "claude_lines J ls r2 = (r1, es3, as3)" "as = (case a of Some x \<Rightarrow> [x] | None \<Rightarrow> []) @ as3"
    using Cons.prems a by (auto split: prod.splits)
  show ?case using Cons.IH[OF b(1)] claude_line_frame[OF a] by (auto simp: b(2) split: option.splits)
qed simp

lemma claude_await_frame:
  assumes "claude_await J i s = (t, a)"
  shows "asks J s t []" and "a = Some response \<Longrightarrow> \<exists>l \<in> set (fst (cl_wait (snd s) (cl_tick (snd s)))). control_answer J (snd l) = Some (i, response)"
proof -
  obtain r c where s: "s = (r, c)" by (cases s)
  obtain early late where w: "cl_wait c (cl_tick c) = (early, late)" by fastforce
  obtain r1 es as where e: "claude_lines J early r = (r1, es, as)" by (metis prod_cases3)
  obtain r2 es2 as2 where l: "claude_lines J late r1 = (r2, es2, as2)" by (metis prod_cases3)
  have t: "t = (forget_request i r2, cli_emit (es @ es2) (cli_next c))" "a = map_of as i"
    using assms by (simp_all add: claude_await_def s w e l)
  note f = claude_lines_frame[OF e] claude_lines_frame[OF l]
  show "asks J s t []" using f by (simp add: asks_def s t(1) forget_request_def cli_emit_def cli_next_def)
  show "\<exists>l \<in> set (fst (cl_wait (snd s) (cl_tick (snd s)))). control_answer J (snd l) = Some (i, response)" if "a = Some response"
    using f(1) that by (auto simp: t(2) s w dest: map_of_SomeD)
qed

lemma claude_ask_frame:
  assumes "claude_ask J subtype body s = (t, ok)"
  shows "\<exists>qs. asks J s t qs \<and> (ok \<longrightarrow> qs = [(subtype, body, True)]) \<and> (\<not> ok \<longrightarrow> (\<forall>q \<in> set qs. \<not> snd (snd q)))"
proof -
  obtain r c where s: "s = (r, c)" by (cases s)
  show ?thesis
  proof (cases "cr_proc r")
    case None
    then show ?thesis using assms asks_refl[of J s] by (auto simp: claude_ask_def s)
  next
    case (Some p)
    define i where "i = request_name subtype (cr_tickets r)"
    let ?r = "r\<lparr>cr_tickets := Suc (cr_tickets r), cr_waiting := cr_waiting r @ [i]\<rparr>"
    obtain p1 c1 took where w: "cli_write (control_line J subtype i body) p c = (p1, c1, took)" by (metis prod_cases3)
    have c1: "cl_asked c1 = cl_asked c" "cl_wait c1 = cl_wait c" using w by (auto simp: cli_write_def cli_next_def split: prod.splits)
    show ?thesis
    proof (cases took)
      case False
      then have "t = (forget_request i (?r\<lparr>cr_proc := Some p1\<rparr>), c1)" "\<not> ok"
        using assms w by (simp_all add: claude_ask_def s Some Let_def i_def[symmetric])
      then show ?thesis using c1 by (intro exI[of _ "[]"]) (simp add: asks_def s forget_request_def)
    next
      case True
      obtain r2 c2 a where aw: "claude_await J i (?r\<lparr>cr_proc := Some p1\<rparr>, c1) = ((r2, c2), a)" by (metis prod.exhaust)
      have t: "t = (r2, c2\<lparr>cl_asked := cl_asked c2 @ [(subtype, body, ok)]\<rparr>)" "ok \<longleftrightarrow> (\<exists>x. a = Some x \<and> succeeded x)"
        using assms w True aw by (auto simp: claude_ask_def s Some Let_def i_def[symmetric] split: option.splits)
      note f = claude_await_frame(1)[OF aw]
      have "confirmed_by J c subtype" if "ok"
      proof -
        obtain x where x: "a = Some x" "succeeded x" using \<open>ok\<close> t(2) by blast
        from claude_await_frame(2)[OF aw x(1)] obtain l where "l \<in> set (fst (cl_wait c (cl_tick c1)))" "control_answer J (snd l) = Some (i, x)"
          using c1 by auto
        moreover have "prefix (''omni-'' @ subtype @ ''-'') i" by (simp add: i_def request_name_def)
        ultimately show ?thesis using x(2) unfolding confirmed_by_def by blast
      qed
      then have "asks J s t [(subtype, body, ok)]" using f c1 by (simp add: asks_def s t(1))
      then show ?thesis by (intro exI[of _ "[(subtype, body, ok)]"]) simp
    qed
  qed
qed

lemma running_append: "running_with l (qs @ qs') = running_with (running_with l qs) qs'"
  by (simp add: running_with_def)

lemma running_refused: "\<forall>q \<in> set qs. \<not> snd (snd q) \<Longrightarrow> running_with l qs = l"
  by (induction qs arbitrary: l) (auto simp: running_with_def apply_request_def split: prod.splits)

text \<open>
  a change of model or effort is believed only when the process confirmed it. If the runner was tuned
  to what the process runs with and says that it took the change, the process runs with exactly the
  model and the effort that were asked for, and that is what the runner and its parser go by from
  then on; if it says no, it keeps believing what it did. Every request that counts as confirmed was
  answered with success, in time and under an id of its kind.
\<close>

theorem retune_believes_process:
  assumes "claude_retune J model effort s = (t, ok)" and "running_with launched (cl_asked (snd s)) = tuned_to (fst s)" and "model \<noteq> []"
  shows "(if ok then running_with launched (cl_asked (snd t)) = (model, effort) \<and> tuned_to (fst t) = (model, effort) \<and> cs_model (cr_stream (fst t)) = model
      else tuned_to (fst t) = tuned_to (fst s))
    \<and> (\<exists>qs. cl_asked (snd t) = cl_asked (snd s) @ qs \<and> (\<forall>q \<in> set qs. snd (snd q) \<longrightarrow> confirmed_by J (snd s) (fst q)))"
proof -
  let ?cf = "cr_config (fst s)"
  let ?m = "JObject [(''model'', JString model)]"
  let ?e = "JObject [(''settings'', JObject (if effort = [] then [] else [(''effortLevel'', JString effort)]))]"
  show ?thesis
  proof (cases "claude_alive (cl_tick (snd s)) s")
    case False
    then show ?thesis using assms(1) by (auto simp: claude_retune_def)
  next
    case True
    obtain s1 ok1 where a: "(if model \<noteq> [] \<and> model \<noteq> cf_model ?cf then claude_ask J ''set_model'' ?m s else (s, True)) = (s1, ok1)" by fastforce
    obtain s2 ok2 where b: "(if effort \<noteq> cf_effort ?cf then claude_ask J ''apply_flag_settings'' ?e s1 else (s1, True)) = (s2, ok2)" by fastforce
    obtain qs where q: "asks J s s1 qs" "ok1 \<longrightarrow> running_with (tuned_to (fst s)) qs = (model, cf_effort ?cf)"
    proof (cases "model \<noteq> [] \<and> model \<noteq> cf_model ?cf")
      case True
      then obtain qs where "asks J s s1 qs" "ok1 \<longrightarrow> qs = [(''set_model'', ?m, True)]" using a claude_ask_frame by fastforce
      then show thesis by (intro that) (auto simp: running_with_def apply_request_def tuned_to_def jindex_def jget_def bt_get_def)
    next
      case False
      then show thesis using a assms(3) asks_refl[of J s] by (intro that[of "[]"]) (auto simp: running_with_def tuned_to_def)
    qed
    obtain qs2 where q2: "asks J s1 s2 qs2" "ok2 \<longrightarrow> running_with (model, cf_effort ?cf) qs2 = (model, effort)"
    proof (cases "effort \<noteq> cf_effort ?cf")
      case True
      then obtain qs where "asks J s1 s2 qs" "ok2 \<longrightarrow> qs = [(''apply_flag_settings'', ?e, True)]" using b claude_ask_frame by fastforce
      then show thesis by (intro that) (auto simp: running_with_def apply_request_def jindex_def jget_def bt_get_def)
    next
      case False
      then show thesis using b asks_refl[of J s1] by (intro that[of "[]"]) (auto simp: running_with_def)
    qed
    have t: "(t, ok) = (if \<not> ok1 then (s1, False) else if \<not> ok2 then (s2, False)
        else (((fst s2)\<lparr>cr_config := (cr_config (fst s2))\<lparr>cf_model := model, cf_effort := effort\<rparr>, cr_stream := (cr_stream (fst s2))\<lparr>cs_model := model\<rparr>\<rparr>, snd s2), True))"
      using assms(1) True a b by (auto simp: claude_retune_def Let_def split: prod.splits bool.splits)
    note both = asks_trans[OF q(1) q2(1)]
    consider "\<not> ok1" | "ok1" "\<not> ok2" | "ok1" "ok2" by blast
    then show ?thesis
    proof cases
      case 1
      then show ?thesis using t q(1) by (auto simp: asks_def tuned_to_def)
    next
      case 2
      then show ?thesis using t both by (auto simp: asks_def tuned_to_def)
    next
      case 3
      have "running_with launched (cl_asked (snd s2)) = (model, effort)" using both q(2) q2(2) 3 assms(2) by (simp add: asks_def running_append)
      then show ?thesis using t both 3 by (auto simp: asks_def tuned_to_def)
    qed
  qed
qed

definition demo_answer :: json where
  "demo_answer = JObject [(''response'', JObject [(''request_id'', JString ''omni-set_model-1''), (''subtype'', JString ''success'')]),
     (''type'', JString ''control_response'')]"

definition demo_claude :: claude_place where
  "demo_claude = ((claude_runner_new ((config_default ''/w'')\<lparr>cf_model := ''a''\<rparr>))\<lparr>cr_proc := Some fresh_pipe\<rparr>,
     \<lparr>cl_break = (\<lambda>_. None), cl_wait = (\<lambda>_. ([(''now'', quoted ''control_response'')], [])), cl_alive = (\<lambda>_. True), cl_spawn = (\<lambda>_. None),
      cl_tick = 0, cl_files = blank_world, cl_started = [], cl_asked = [], cl_emitted = []\<rparr>)"

definition demo_codec :: codec where
  "demo_codec = \<lparr>from_slice = (\<lambda>_. Inr demo_answer), to_text = (\<lambda>_. ''{}''), to_pretty = (\<lambda>_. ''{}'')\<rparr>"

theorem retune_believes_process_witness:
  "snd (claude_retune demo_codec ''b'' [] demo_claude)
   \<and> running_with (''a'', []) (cl_asked (snd (fst (claude_retune demo_codec ''b'' [] demo_claude)))) = (''b'', [])"
proof -
  let ?x = "claude_retune demo_codec ''b'' [] demo_claude"
  have k: "snd ?x" by code_simp
  have "running_with (''a'', []) (cl_asked (snd demo_claude)) = tuned_to (fst demo_claude)" by code_simp
  from retune_believes_process[OF surjective_pairing this] k show ?thesis by (simp split: if_splits)
qed

section \<open>Starting\<close>

text \<open>
  A session whose file is gone is started under a new name and without any of the history, which tells
  the conductor to seed it in full; one that is there keeps its name and is resumed.
\<close>

lemma claude_start_lost:
  assumes "native_id \<noteq> []" and "\<not> exists_file (cl_files c) (session_path (cl_files c) (cf_cwd (cr_config r)) native_id)"
    and "claude_start J native_id history (r, c) = ((r1, c1), Inr ())"
  shows "cr_native r1 = uuid (cl_files c) (drawn (cl_files c)) \<and> files (cl_files c1) = files (cl_files c)"
  using assms by (auto simp: claude_start_def Let_def new_uuid_def cli_start_def cli_next_def split: option.splits)

lemma claude_start_resumes:
  assumes "native_id \<noteq> []" and "exists_file (cl_files c) (session_path (cl_files c) (cf_cwd (cr_config r)) native_id)"
    and "claude_start J native_id history (r, c) = ((r1, c1), Inr ())" and "transcript J history = []"
  shows "cr_native r1 = native_id \<and> cl_files c1 = cl_files c
    \<and> cl_started c1 = cl_started c @ [\<lparr>sa_argv = claude_argv True (r\<lparr>cr_native := native_id\<rparr>), sa_env = claude_env r, sa_cwd = cf_cwd (cr_config r)\<rparr>]"
  using assms by (auto simp: claude_start_def Let_def cli_start_def cli_next_def claude_env_def split: option.splits)

end
