(* ===== verification/Codex_Stream.thy ===== *)
theory Codex_Stream
  imports Native_Stream
begin

text \<open>
  \<open>providers/codex_app_server/stream.rs\<close>: notifications of the codex app server. Only four kinds
  of item are known by name; every other kind, present or future, is reported as a tool call under
  its own type name, with its own fields as the arguments.
\<close>

definition CODEX :: string where
  "CODEX = ''codex-app-server''"

definition SKIP :: "string list" where
  "SKIP = [''userMessage'', ''hookPrompt'']"

definition SHELL :: string where
  "SHELL = ''commandExecution''"

definition NOISE :: "string list" where
  "NOISE = [''id'', ''type'', ''status'', ''aggregatedOutput'', ''exitCode'', ''durationMs'', ''processId'']"

record codex_stream =
  xs_model :: string
  xs_tokens :: json

definition codex_new :: "string \<Rightarrow> codex_stream" where
  "codex_new model = \<lparr>xs_model = model, xs_tokens = JNull\<rparr>"

definition codex_event :: "string \<Rightarrow> codex_stream \<Rightarrow> string \<Rightarrow> event" where
  "codex_event now s kind = about (xs_model s) (from_provider CODEX (event_new now kind))"

definition codex_tool_name :: "json \<Rightarrow> string" where
  "codex_tool_name item =
     (case str_at item ''type'' of
        Some t \<Rightarrow> if t = SHELL then ''shell'' else t
      | None \<Rightarrow> ''tool'')"

definition without :: "json \<Rightarrow> string list \<Rightarrow> jmap" where
  "without item dropped = (case as_object item of Some m \<Rightarrow> filter (\<lambda>p. fst p \<notin> set dropped) m | None \<Rightarrow> [])"

definition arguments :: "json \<Rightarrow> jmap" where
  "arguments item =
     (if str_at item ''type'' = Some SHELL
      then [(''command'', case jget item ''command'' of Some v \<Rightarrow> v | None \<Rightarrow> JString [])]
      else without item NOISE)"

definition outcome :: "json \<Rightarrow> json" where
  "outcome item =
     (if str_at item ''type'' = Some SHELL then jindex item ''aggregatedOutput'' else JObject (without item [''id'', ''type'']))"

definition item_started :: "string \<Rightarrow> json \<Rightarrow> codex_stream \<Rightarrow> event list" where
  "item_started now item s =
     (let kind = str_or [] item ''type'' in
      if kind \<in> set SKIP \<or> kind = ''agentMessage'' then []
      else if kind = ''reasoning'' then [codex_event now s THINKING]
      else [(codex_event now s TOOL_CALL)
              \<lparr>ev_tool := codex_tool_name item, ev_id := str_or [] item ''id'', ev_args := arguments item\<rparr>])"

definition exited_well :: "json \<Rightarrow> bool" where
  "exited_well item \<longleftrightarrow>
     (case jget item ''exitCode'' of
        None \<Rightarrow> True
      | Some v \<Rightarrow> v = JNull \<or> as_i64 v = Some 0)"

definition item_completed :: "string \<Rightarrow> json \<Rightarrow> codex_stream \<Rightarrow> event list" where
  "item_completed now item s =
     (let kind = str_or [] item ''type''; t = str_or [] item ''text'' in
      if kind \<in> set SKIP \<or> kind = ''reasoning'' then []
      else if kind = ''agentMessage''
        then (if t = [] then [] else [with_extra ''phase'' (jindex item ''phase'') (saying t (codex_event now s TEXT))])
      else [(codex_event now s TOOL_RESULT)
              \<lparr>ev_tool := codex_tool_name item, ev_id := str_or [] item ''id'', ev_result := outcome item,
               ev_ok := exited_well item \<and> str_at item ''status'' \<noteq> Some ''failed''\<rparr>])"

definition codex_failure :: "codec \<Rightarrow> string \<Rightarrow> json \<Rightarrow> string \<Rightarrow> codex_stream \<Rightarrow> event" where
  "codex_failure J now err fallback s =
     (let said = str_or fallback err ''message'';
          info = (case jget err ''codexErrorInfo'' of Some v \<Rightarrow> to_text J v | None \<Rightarrow> [])
      in extras (case as_object err of Some m \<Rightarrow> m | None \<Rightarrow> [])
           (about (xs_model s) (from_provider CODEX (failure now (classify (said @ '' '' @ info)) said))))"

definition turn_finished :: "codec \<Rightarrow> string \<Rightarrow> json \<Rightarrow> codex_stream \<Rightarrow> event list" where
  "turn_finished J now turn s =
     (if str_at turn ''status'' = Some ''failed'' then [codex_failure J now (jindex turn ''error'') ''turn failed'' s] else [])
     @ [with_extra ''usage'' (xs_tokens s)
         (with_extra ''ms'' (jindex turn ''durationMs'')
         (with_extra ''status'' (jindex turn ''status'') (codex_event now s END)))]"

text \<open>A mid-turn error. Retryable ones do not end the turn.\<close>

definition codex_failed :: "codec \<Rightarrow> string \<Rightarrow> json \<Rightarrow> codex_stream \<Rightarrow> event list" where
  "codex_failed J now params s =
     (let err = (case jget params ''error'' of Some v \<Rightarrow> if as_object v \<noteq> None then v else params | None \<Rightarrow> params) in
      [with_extra ''willRetry'' (jindex params ''willRetry'') (codex_failure J now err ''codex error'' s)])"

definition native_ids :: "json \<Rightarrow> event \<Rightarrow> event" where
  "native_ids params e =
     fold (\<lambda>(k, v) e. case v of
                 Some x \<Rightarrow> if x = JNull then e else native k x e
               | None \<Rightarrow> e)
       [(''thread_id'', jget params ''threadId''),
        (''turn_id'', (case jget params ''turnId'' of Some v \<Rightarrow> Some v | None \<Rightarrow> jget (jindex params ''turn'') ''id'')),
        (''item_id'', jget (jindex params ''item'') ''id'')] e"

definition codex_feed :: "codec \<Rightarrow> string \<times> string \<times> json \<Rightarrow> codex_stream \<Rightarrow> codex_stream \<times> event list" where
  "codex_feed J i s =
     (case i of (now, method, params) \<Rightarrow>
        let s1 = (if method = ''thread/tokenUsage/updated'' then s\<lparr>xs_tokens := params\<rparr> else s);
            events = (if method = ''item/started'' then item_started now (jindex params ''item'') s
                      else if method = ''item/completed'' then item_completed now (jindex params ''item'') s
                      else if method = ''turn/completed'' then turn_finished J now (jindex params ''turn'') s
                      else if method = ''error'' then codex_failed J now params s
                      else [])
        in (s1, map (native_ids params) events))"

section \<open>Facts\<close>

definition known_item :: "string \<Rightarrow> bool" where
  "known_item kind \<longleftrightarrow> kind \<in> set SKIP \<or> kind = ''agentMessage'' \<or> kind = ''reasoning''"

lemma native_ids_simps [simp]:
  "ev_type (native_ids p e) = ev_type e" "ev_id (native_ids p e) = ev_id e" "ev_tool (native_ids p e) = ev_tool e"
  "ev_args (native_ids p e) = ev_args e" "ev_ok (native_ids p e) = ev_ok e" "ev_result (native_ids p e) = ev_result e"
  "ev_text (native_ids p e) = ev_text e" "ev_extra (native_ids p e) = ev_extra e"
  unfolding native_ids_def by (simp_all add: native_def split: option.split)

lemma codex_event_simps [simp]:
  "ev_type (codex_event now s ty) = ty" "ev_text (codex_event now s ty) = []" "ev_extra (codex_event now s ty) = []"
  "ev_args (codex_event now s ty) = []" "ev_result (codex_event now s ty) = JNull"
  by (simp_all add: codex_event_def about_def from_provider_def event_new_def)

text \<open>
  a tool codex ships tomorrow is reported as a tool. An item of any kind but the four known
  ones reports one call when it starts and one result when it completes, both under the item's id
  and the name of its kind; bookkeeping is not an argument; and the result is good exactly if no
  exit code says otherwise and it was not marked failed.
\<close>

theorem codex_tools_open_ended:
  assumes "str_at item ''type'' = Some kind" and "\<not> known_item kind" and "jget params ''item'' = Some item"
  shows "\<exists>call res. codex_feed J (now, ''item/started'', params) s = (s, [call]) \<and> ev_type call = TOOL_CALL
      \<and> codex_feed J (now', ''item/completed'', params) s = (s, [res]) \<and> ev_type res = TOOL_RESULT
      \<and> ev_tool call = (if kind = SHELL then ''shell'' else kind) \<and> ev_tool res = ev_tool call
      \<and> ev_id call = str_or [] item ''id'' \<and> ev_id res = ev_id call
      \<and> fst ` set (ev_args call) \<inter> set NOISE = {}
      \<and> (ev_ok res \<longleftrightarrow> exited_well item \<and> str_at item ''status'' \<noteq> Some ''failed'')"
proof -
  have kind: "str_or [] item ''type'' = kind" using assms(1) by (simp add: str_or_def)
  have item: "jindex params ''item'' = item" using assms(3) by (simp add: jindex_def)
  have args: "fst ` set (arguments item) \<inter> set NOISE = {}"
    by (cases "as_object item") (auto simp: arguments_def without_def, auto simp: NOISE_def)
  have name: "codex_tool_name item = (if kind = SHELL then ''shell'' else kind)" using assms(1) by (simp add: codex_tool_name_def)
  have started: "item_started now item s = [(codex_event now s TOOL_CALL)
      \<lparr>ev_tool := codex_tool_name item, ev_id := str_or [] item ''id'', ev_args := arguments item\<rparr>]"
    using assms(2) unfolding known_item_def item_started_def Let_def kind by simp
  have completed: "item_completed now' item s = [(codex_event now' s TOOL_RESULT)
      \<lparr>ev_tool := codex_tool_name item, ev_id := str_or [] item ''id'', ev_result := outcome item,
       ev_ok := exited_well item \<and> str_at item ''status'' \<noteq> Some ''failed''\<rparr>]"
    using assms(2) unfolding known_item_def item_completed_def Let_def kind by simp
  show ?thesis using args by (simp add: codex_feed_def Let_def item started completed name)
qed

definition tomorrow :: json where
  "tomorrow = JObject [(''id'', JString ''x''), (''target'', JString ''a''), (''type'', JString ''somethingNew'')]"

theorem codex_tools_open_ended_witness:
  "\<exists>call. codex_feed toy_codec (''now'', ''item/started'', JObject [(''item'', tomorrow)]) (codex_new ''m'') = (codex_new ''m'', [call])
     \<and> ev_tool call = ''somethingNew''"
proof -
  have "str_at tomorrow ''type'' = Some ''somethingNew''" "\<not> known_item ''somethingNew''"
    "jget (JObject [(''item'', tomorrow)]) ''item'' = Some tomorrow" "''somethingNew'' \<noteq> SHELL" by code_simp+
  then show ?thesis
    using codex_tools_open_ended[of tomorrow "''somethingNew''" "JObject [(''item'', tomorrow)]" toy_codec "''now''" "codex_new ''m''" "''now''"]
    by auto
qed

end
