(* ===== verification/Codex_Server.thy ===== *)
theory Codex_Server
  imports Codex_Stream Seed_Text Provider_Base
begin

text \<open>
  \<open>providers/codex_app_server/server.rs\<close> and \<open>appserver.rs\<close>: one warm \<open>codex app-server\<close> per set of
  flags, shared by every session that wants it. A session rents a thread; a notification that names a
  thread goes to the route of that thread. Servers are kept under their generation, which the pool and
  the runners refer to. What the process answers, and what it says while a call waits, is an oracle.
\<close>

section \<open>Messages\<close>

type_synonym app_note = "string \<times> string \<times> json"

datatype app_heard = App_Decline json | App_Notify string json | App_Reply int json | App_Ignored

definition declined :: "string \<Rightarrow> json \<Rightarrow> json" where
  "declined method i = JObject
     [(''error'', JObject [(''code'', JInt (-32601)), (''message'', JString (method @ '' not handled by omni''))]),
      (''id'', i), (''jsonrpc'', JString ''2.0'')]"

definition app_line :: "codec \<Rightarrow> bytes \<Rightarrow> app_heard" where
  "app_line J line =
     (case from_slice J line of
        Inl _ \<Rightarrow> App_Ignored
      | Inr message \<Rightarrow>
          (case (Option.bind (jget message ''method'') as_str, jget message ''id'') of
             (Some method, Some i) \<Rightarrow> App_Decline (declined method i)
           | (Some method, None) \<Rightarrow> App_Notify method (jindex message ''params'')
           | (None, Some i) \<Rightarrow> (case as_i64 i of Some n \<Rightarrow> App_Reply n message | None \<Rightarrow> App_Ignored)
           | (None, None) \<Rightarrow> App_Ignored))"

definition call_body :: "int \<Rightarrow> string \<Rightarrow> json \<Rightarrow> json" where
  "call_body i method params =
     (let body = [(''id'', JInt i), (''jsonrpc'', JString ''2.0''), (''method'', JString method)]
      in JObject (if is_null params then body else bt_insert ''params'' params body))"

text \<open>How a call ends: no message in time, an error, or a result.\<close>

definition call_outcome :: "codec \<Rightarrow> string \<Rightarrow> nat \<Rightarrow> json option \<Rightarrow> json res" where
  "call_outcome J method secs m =
     (case m of
        None \<Rightarrow> Inl (method @ '' timed out after '' @ show_nat secs @ ''s'')
      | Some message \<Rightarrow>
          (case jget message ''error'' of
             Some err \<Rightarrow>
               Inl (method @ '': '' @ (case Option.bind (jget err ''message'') as_str of Some msg \<Rightarrow> msg | None \<Rightarrow> ''failed'')
                 @ (case jget err ''data'' of Some v \<Rightarrow> if is_null v then [] else '' ('' @ to_text J v @ '')'' | None \<Rightarrow> []))
           | None \<Rightarrow> Inr (jindex message ''result'')))"

section \<open>The servers\<close>

record route =
  ro_emit :: nat
  ro_stream :: codex_stream
  ro_turn :: string

record shared =
  sh_flags :: "string list"
  sh_generation :: int
  sh_alive :: bool
  sh_routes :: "(string \<times> route) list"
  sh_notices :: "(string \<times> json) list"
  sh_silenced :: "string list"
  sh_stopping :: bool

datatype launching = Jail_Failed string | Launch_Failed string | Launched

record codex_world =
  xw_pool :: "(string \<times> int) list"
  xw_servers :: "int \<Rightarrow> shared option"
  xw_next_generation :: int
  xw_emitted :: "(nat \<times> event) list"
  xw_asked :: "(int \<times> string \<times> json) list"
  xw_tick :: nat
  xw_answer :: "nat \<Rightarrow> app_note list \<times> json option"
  xw_launch :: "nat \<Rightarrow> launching"

definition set_server :: "int \<Rightarrow> shared \<Rightarrow> codex_world \<Rightarrow> codex_world" where
  "set_server g sh w = w\<lparr>xw_servers := (xw_servers w)(g \<mapsto> sh)\<rparr>"

definition exit_event :: "string \<Rightarrow> int \<Rightarrow> int \<Rightarrow> event" where
  "exit_event now g code =
     with_extra GENERATION (JInt g) (from_provider CODEX (failure now CRASH (''codex app-server exited unexpectedly with '' @ show_int code)))"

definition notify_exit :: "string \<Rightarrow> int \<Rightarrow> shared \<Rightarrow> (nat \<times> event) list" where
  "notify_exit now code sh = map (\<lambda>(_, ro). (ro_emit ro, exit_event now (sh_generation sh) code)) (sh_routes sh)"

text \<open>The process is gone: every thread hears of it, unless it was put down on purpose.\<close>

definition server_exits :: "string \<Rightarrow> int \<Rightarrow> int \<Rightarrow> codex_world \<Rightarrow> codex_world" where
  "server_exits now code g w =
     (case xw_servers w g of
        None \<Rightarrow> w
      | Some sh \<Rightarrow>
          (set_server g (sh\<lparr>sh_alive := False\<rparr>) w)
            \<lparr>xw_emitted := xw_emitted w @ (if sh_stopping sh then [] else notify_exit now code sh)\<rparr>)"

text \<open>A notification: about the account, about a thread nobody rents, or about a rented one.\<close>

definition thread_of :: "app_note \<Rightarrow> string option" where
  "thread_of n = (case n of (_, _, params) \<Rightarrow> Option.bind (jget params ''threadId'') as_str)"

definition turn_after :: "string \<Rightarrow> json \<Rightarrow> string \<Rightarrow> string" where
  "turn_after method params turn =
     (if method = ''turn/started'' then (case as_str (jindex (jindex params ''turn'') ''id'') of Some t \<Rightarrow> t | None \<Rightarrow> [])
      else if method = ''turn/completed'' then []
      else turn)"

definition server_heard :: "codec \<Rightarrow> app_note \<Rightarrow> shared \<Rightarrow> shared \<times> (nat \<times> event) list" where
  "server_heard J n sh =
     (case n of (now, method, params) \<Rightarrow>
        (case thread_of n of
           None \<Rightarrow> (sh\<lparr>sh_notices := bt_insert method params (sh_notices sh)\<rparr>, [])
         | Some tid \<Rightarrow>
             (case bt_get (sh_routes sh) tid of
                None \<Rightarrow> (sh, [])
              | Some ro \<Rightarrow>
                  (case codex_feed J n (ro_stream ro) of
                     (s1, events) \<Rightarrow>
                       (sh\<lparr>sh_routes := bt_insert tid (ro\<lparr>ro_turn := turn_after method params (ro_turn ro), ro_stream := s1\<rparr>) (sh_routes sh)\<rparr>,
                        map (\<lambda>e. (ro_emit ro, e)) events)))))"

fun heard_all :: "codec \<Rightarrow> app_note list \<Rightarrow> shared \<Rightarrow> shared \<times> (nat \<times> event) list" where
  "heard_all J [] sh = (sh, [])"
| "heard_all J (n # ns) sh =
     (case server_heard J n sh of (sh1, out) \<Rightarrow> (case heard_all J ns sh1 of (sh2, out') \<Rightarrow> (sh2, out @ out')))"

text \<open>\<open>call\<close>: what the process says while it waits is handed out first.\<close>

definition server_call :: "codec \<Rightarrow> int \<Rightarrow> string \<Rightarrow> json \<Rightarrow> nat \<Rightarrow> codex_world \<Rightarrow> codex_world \<times> json res" where
  "server_call J g method params secs w =
     (case xw_servers w g of
        None \<Rightarrow> (w, Inl (''codex app-server is not running (wanted '' @ method @ '')''))
      | Some sh \<Rightarrow>
          if \<not> sh_alive sh then (w, Inl (''codex app-server is not running (wanted '' @ method @ '')''))
          else (case xw_answer w (xw_tick w) of
                  (ns, m) \<Rightarrow>
                    (case heard_all J ns sh of
                       (sh1, out) \<Rightarrow>
                         ((set_server g sh1 w)\<lparr>xw_tick := Suc (xw_tick w), xw_asked := xw_asked w @ [(g, method, params)],
                            xw_emitted := xw_emitted w @ out\<rparr>,
                          call_outcome J method secs m))))"

definition try_call :: "codec \<Rightarrow> int \<Rightarrow> string \<Rightarrow> json \<Rightarrow> nat \<Rightarrow> codex_world \<Rightarrow> codex_world \<times> json option" where
  "try_call J g method params secs w =
     (case server_call J g method params secs w of (w1, r) \<Rightarrow> (w1, case r of Inr v \<Rightarrow> Some v | Inl _ \<Rightarrow> None))"

definition live_server :: "int \<Rightarrow> codex_world \<Rightarrow> bool" where
  "live_server g w = (case xw_servers w g of Some sh \<Rightarrow> sh_alive sh | None \<Rightarrow> False)"

definition server_start :: "string list \<Rightarrow> codex_world \<Rightarrow> codex_world \<times> int res" where
  "server_start flags w =
     (let g = xw_next_generation w; w1 = w\<lparr>xw_tick := Suc (xw_tick w)\<rparr> in
      case xw_launch w (xw_tick w) of
        Jail_Failed err \<Rightarrow> (w1, Inl (''could not build codex jail: '' @ err))
      | Launch_Failed err \<Rightarrow> (w1\<lparr>xw_next_generation := g + 1\<rparr>, Inl err)
      | Launched \<Rightarrow>
          ((set_server g \<lparr>sh_flags = flags, sh_generation = g, sh_alive = True, sh_routes = [], sh_notices = [], sh_silenced = [],
              sh_stopping = False\<rparr> w1)\<lparr>xw_next_generation := g + 1\<rparr>, Inr g))"

definition shared_get :: "string list \<Rightarrow> codex_world \<Rightarrow> codex_world \<times> int res" where
  "shared_get flags w =
     (let key = join '' '' flags in
      case (case bt_get (xw_pool w) key of Some g \<Rightarrow> if live_server g w then Some g else None | None \<Rightarrow> None) of
        Some g \<Rightarrow> (w, Inr g)
      | None \<Rightarrow>
          (case server_start flags w of
             (w1, Inl err) \<Rightarrow> (w1, Inl err)
           | (w1, Inr g) \<Rightarrow> (w1\<lparr>xw_pool := bt_insert key g (xw_pool w1)\<rparr>, Inr g)))"

definition route_attach :: "string \<Rightarrow> string \<Rightarrow> nat \<Rightarrow> shared \<Rightarrow> shared" where
  "route_attach tid model k sh = sh\<lparr>sh_routes := bt_insert tid \<lparr>ro_emit = k, ro_stream = codex_new model, ro_turn = []\<rparr> (sh_routes sh)\<rparr>"

definition shared_attach :: "int \<Rightarrow> string \<Rightarrow> string \<Rightarrow> nat \<Rightarrow> codex_world \<Rightarrow> codex_world \<times> bool" where
  "shared_attach g tid model k w =
     (case xw_servers w g of
        None \<Rightarrow> (w, False)
      | Some sh \<Rightarrow> if sh_alive sh then (set_server g (route_attach tid model k sh) w, True) else (w, False))"

definition route_detach :: "string \<Rightarrow> shared \<Rightarrow> shared" where
  "route_detach tid sh = sh\<lparr>sh_routes := bt_remove tid (sh_routes sh)\<rparr>"

definition shared_detach :: "int \<Rightarrow> string \<Rightarrow> codex_world \<Rightarrow> codex_world" where
  "shared_detach g tid w = (case xw_servers w g of None \<Rightarrow> w | Some sh \<Rightarrow> set_server g (route_detach tid sh) w)"

definition route_retune :: "string \<Rightarrow> string \<Rightarrow> shared \<Rightarrow> shared" where
  "route_retune tid model sh =
     (case bt_get (sh_routes sh) tid of
        None \<Rightarrow> sh
      | Some ro \<Rightarrow> sh\<lparr>sh_routes := bt_insert tid (ro\<lparr>ro_stream := (ro_stream ro)\<lparr>xs_model := model\<rparr>\<rparr>) (sh_routes sh)\<rparr>)"

definition shared_retune :: "int \<Rightarrow> string \<Rightarrow> string \<Rightarrow> codex_world \<Rightarrow> codex_world" where
  "shared_retune g tid model w = (case xw_servers w g of None \<Rightarrow> w | Some sh \<Rightarrow> set_server g (route_retune tid model sh) w)"

definition turn_of :: "int \<Rightarrow> string \<Rightarrow> codex_world \<Rightarrow> string" where
  "turn_of g tid w =
     (case xw_servers w g of
        None \<Rightarrow> []
      | Some sh \<Rightarrow> (case bt_get (sh_routes sh) tid of Some ro \<Rightarrow> ro_turn ro | None \<Rightarrow> []))"

definition shared_last :: "string \<Rightarrow> shared \<Rightarrow> json option" where
  "shared_last method sh = bt_get (sh_notices sh) method"

definition shared_forget :: "string \<Rightarrow> shared \<Rightarrow> shared" where
  "shared_forget method sh = sh\<lparr>sh_notices := bt_remove method (sh_notices sh)\<rparr>"

section \<open>Skills\<close>

text \<open>\<open>silence_skills_with\<close>: \<open>None\<close> where it gives up before the directory is noted.\<close>

fun silence_each :: "codec \<Rightarrow> int \<Rightarrow> json list \<Rightarrow> codex_world \<Rightarrow> codex_world \<times> bool" where
  "silence_each J g [] w = (w, True)"
| "silence_each J g (skill # skills) w =
     (if Option.bind (jget skill ''enabled'') as_bool = Some True then
        (case Option.bind (jget skill ''name'') as_str of
           None \<Rightarrow> (w, False)
         | Some name \<Rightarrow>
             (case try_call J g ''skills/config/write'' (JObject [(''enabled'', JBool False), (''name'', JString name)]) 15 w of
                (w1, None) \<Rightarrow> (w1, False)
              | (w1, Some _) \<Rightarrow> silence_each J g skills w1))
      else silence_each J g skills w)"

fun silence_groups :: "codec \<Rightarrow> int \<Rightarrow> json list \<Rightarrow> codex_world \<Rightarrow> codex_world \<times> bool" where
  "silence_groups J g [] w = (w, True)"
| "silence_groups J g (gr # grs) w =
     (case Option.bind (jget gr ''skills'') as_array of
        None \<Rightarrow> (w, False)
      | Some skills \<Rightarrow>
          (case silence_each J g skills w of
             (w1, False) \<Rightarrow> (w1, False)
           | (w1, True) \<Rightarrow> silence_groups J g grs w1))"

definition silenced_in :: "int \<Rightarrow> string \<Rightarrow> codex_world \<Rightarrow> bool" where
  "silenced_in g cwd w = (case xw_servers w g of Some sh \<Rightarrow> cwd \<in> set (sh_silenced sh) | None \<Rightarrow> False)"

definition note_silenced :: "int \<Rightarrow> string \<Rightarrow> codex_world \<Rightarrow> codex_world" where
  "note_silenced g cwd w =
     (case xw_servers w g of Some sh \<Rightarrow> set_server g (sh\<lparr>sh_silenced := cwd # sh_silenced sh\<rparr>) w | None \<Rightarrow> w)"

definition silence_skills :: "codec \<Rightarrow> int \<Rightarrow> string \<Rightarrow> codex_world \<Rightarrow> codex_world" where
  "silence_skills J g cwd w =
     (if silenced_in g cwd w then w
      else (case try_call J g ''skills/list'' (JObject [(''cwds'', JArray [JString cwd])]) 30 w of
              (w1, None) \<Rightarrow> w1
            | (w1, Some listing) \<Rightarrow>
                (case Option.bind (jget listing ''data'') as_array of
                   None \<Rightarrow> w1
                 | Some groups \<Rightarrow>
                     (case silence_groups J g groups w1 of
                        (w2, True) \<Rightarrow> note_silenced g cwd w2
                      | (w2, False) \<Rightarrow> w2))))"

section \<open>The pool\<close>

definition any_live :: "codex_world \<Rightarrow> int option" where
  "any_live w = List.find (\<lambda>g. live_server g w) (map snd (xw_pool w))"

text \<open>\<open>stop\<close>: the flag first, so that the end of the process is no crash.\<close>

definition server_stop :: "string \<Rightarrow> bool \<Rightarrow> int \<Rightarrow> codex_world \<Rightarrow> codex_world" where
  "server_stop now meant g w =
     (case xw_servers w g of
        None \<Rightarrow> w
      | Some sh \<Rightarrow>
          if sh_alive sh then server_exits now 0 g (set_server g (sh\<lparr>sh_stopping := sh_stopping sh \<or> meant\<rparr>) w)
          else set_server g (sh\<lparr>sh_stopping := sh_stopping sh \<or> meant\<rparr>) w)"

definition pool_shutdown :: "string \<Rightarrow> codex_world \<Rightarrow> codex_world" where
  "pool_shutdown now w = fold (server_stop now True) (map snd (xw_pool w)) (w\<lparr>xw_pool := []\<rparr>)"

definition unwanted :: "codex_world \<Rightarrow> int \<Rightarrow> bool" where
  "unwanted w g \<longleftrightarrow> (case xw_servers w g of Some sh \<Rightarrow> sh_routes sh = [] \<or> \<not> sh_alive sh | None \<Rightarrow> True)"

definition reap_idle :: "string \<Rightarrow> codex_world \<Rightarrow> codex_world \<times> nat" where
  "reap_idle now w =
     (let gone = filter (\<lambda>(_, g). unwanted w g) (xw_pool w);
          w1 = w\<lparr>xw_pool := filter (\<lambda>(_, g). \<not> unwanted w g) (xw_pool w)\<rparr>
      in (fold (\<lambda>(_, g) u. server_stop now (live_server g u) g u) gone w1, length gone))"

definition thread_settings :: "config \<Rightarrow> json" where
  "thread_settings cf =
     JObject (foldl (\<lambda>m (k, v). if v \<noteq> [] then bt_insert k (JString v) m else m)
       [(''approvalPolicy'', JString ''never''), (''cwd'', JString (cf_cwd cf)), (''sandbox'', JString ''danger-full-access'')]
       [(''model'', cf_model cf), (''baseInstructions'', cf_system_prompt cf), (''developerInstructions'', cf_append_system_prompt cf)])"

section \<open>A shared server is as good as one's own\<close>

text \<open>What happens to a server, one thing at a time.\<close>

datatype server_op = Op_Heard app_note | Op_Attach string string nat | Op_Detach string | Op_Retune string string

fun op_thread :: "server_op \<Rightarrow> string option" where
  "op_thread (Op_Heard n) = thread_of n"
| "op_thread (Op_Attach tid _ _) = Some tid"
| "op_thread (Op_Detach tid) = Some tid"
| "op_thread (Op_Retune tid _) = Some tid"

fun server_does :: "codec \<Rightarrow> server_op \<Rightarrow> shared \<Rightarrow> shared \<times> (nat \<times> event) list" where
  "server_does J (Op_Heard n) sh = server_heard J n sh"
| "server_does J (Op_Attach tid model k) sh = (route_attach tid model k sh, [])"
| "server_does J (Op_Detach tid) sh = (route_detach tid sh, [])"
| "server_does J (Op_Retune tid model) sh = (route_retune tid model sh, [])"

fun server_run :: "codec \<Rightarrow> server_op list \<Rightarrow> shared \<Rightarrow> shared \<times> (nat \<times> event) list" where
  "server_run J [] sh = (sh, [])"
| "server_run J (x # xs) sh =
     (case server_does J x sh of (sh1, out) \<Rightarrow> (case server_run J xs sh1 of (sh2, out') \<Rightarrow> (sh2, out @ out')))"

definition events_to :: "nat \<Rightarrow> (nat \<times> event) list \<Rightarrow> event list" where
  "events_to k out = map snd (filter (\<lambda>p. fst p = k) out)"

lemma events_to_append [simp]: "events_to k (a @ b) = events_to k a @ events_to k b" "events_to k [] = []"
  by (simp_all add: events_to_def)

text \<open>A session with listener \<open>k\<close> on a thread: nobody else's routes lead to it.\<close>

definition keeps_apart :: "string \<Rightarrow> nat \<Rightarrow> server_op \<Rightarrow> bool" where
  "keeps_apart tid k x \<longleftrightarrow> (case x of Op_Attach t _ k' \<Rightarrow> t \<noteq> tid \<longrightarrow> k' \<noteq> k | _ \<Rightarrow> True)"

definition apart_routes :: "string \<Rightarrow> nat \<Rightarrow> shared \<Rightarrow> bool" where
  "apart_routes tid k sh \<longleftrightarrow> (\<forall>t ro. t \<noteq> tid \<longrightarrow> bt_get (sh_routes sh) t = Some ro \<longrightarrow> ro_emit ro \<noteq> k)"

lemma apart_routes_put:
  "apart_routes tid k sh \<Longrightarrow> t \<noteq> tid \<longrightarrow> ro_emit ro \<noteq> k \<Longrightarrow> apart_routes tid k (sh\<lparr>sh_routes := bt_insert t ro (sh_routes sh)\<rparr>)"
  by (auto simp: apart_routes_def)

lemma apart_kept:
  assumes "apart_routes tid k sh" and "keeps_apart tid k x"
  shows "apart_routes tid k (fst (server_does J x sh))"
proof (cases x)
  case (Op_Heard n)
  obtain now what params where n: "n = (now, what, params)" by (cases n)
  show ?thesis
  proof (cases "thread_of n")
    case (Some t)
    show ?thesis
    proof (cases "bt_get (sh_routes sh) t")
      case (Some ro)
      have "t \<noteq> tid \<longrightarrow> ro_emit ro \<noteq> k" using assms(1) Some by (auto simp: apart_routes_def)
      then show ?thesis using apart_routes_put[OF assms(1)] Some \<open>thread_of n = Some t\<close>
        by (simp add: Op_Heard server_heard_def n split: prod.splits)
    qed (use assms(1) \<open>thread_of n = Some t\<close> in \<open>simp add: Op_Heard server_heard_def n\<close>)
  qed (use assms(1) in \<open>simp add: Op_Heard server_heard_def n apart_routes_def\<close>)
qed (use assms in \<open>auto simp: route_attach_def route_detach_def route_retune_def keeps_apart_def apart_routes_def split: option.splits\<close>)

text \<open>An operation on another thread is not noticed; one on its own does the same as on a server with nothing else.\<close>

lemma other_op:
  assumes "apart_routes tid k sh" and "op_thread x \<noteq> Some tid"
  shows "bt_get (sh_routes (fst (server_does J x sh))) tid = bt_get (sh_routes sh) tid" "events_to k (snd (server_does J x sh)) = []"
proof -
  have "bt_get (sh_routes (fst (server_does J x sh))) tid = bt_get (sh_routes sh) tid \<and> events_to k (snd (server_does J x sh)) = []"
  proof (cases x)
    case (Op_Heard n)
    obtain now what params where n: "n = (now, what, params)" by (cases n)
    show ?thesis using assms
      by (auto simp: Op_Heard server_heard_def n apart_routes_def events_to_def split: option.splits prod.splits)
  qed (use assms in \<open>auto simp: route_attach_def route_detach_def route_retune_def split: option.splits\<close>)
  then show "bt_get (sh_routes (fst (server_does J x sh))) tid = bt_get (sh_routes sh) tid" "events_to k (snd (server_does J x sh)) = []" by auto
qed

lemma own_op:
  assumes "bt_get (sh_routes sh) tid = bt_get (sh_routes sh') tid" and "op_thread x = Some tid"
  shows "bt_get (sh_routes (fst (server_does J x sh))) tid = bt_get (sh_routes (fst (server_does J x sh'))) tid"
    "snd (server_does J x sh) = snd (server_does J x sh')"
proof -
  have "bt_get (sh_routes (fst (server_does J x sh))) tid = bt_get (sh_routes (fst (server_does J x sh'))) tid \<and> snd (server_does J x sh) = snd (server_does J x sh')"
  proof (cases x)
    case (Op_Heard n)
    obtain now what params where n: "n = (now, what, params)" by (cases n)
    show ?thesis using assms by (auto simp: Op_Heard server_heard_def n split: option.splits prod.splits)
  qed (use assms in \<open>auto simp: route_attach_def route_detach_def route_retune_def split: option.splits\<close>)
  then show "bt_get (sh_routes (fst (server_does J x sh))) tid = bt_get (sh_routes (fst (server_does J x sh'))) tid"
    "snd (server_does J x sh) = snd (server_does J x sh')" by auto
qed

lemma run_private:
  assumes "apart_routes tid k sh" and "list_all (keeps_apart tid k) xs" and "bt_get (sh_routes sh) tid = bt_get (sh_routes sh') tid"
  shows "bt_get (sh_routes (fst (server_run J xs sh))) tid = bt_get (sh_routes (fst (server_run J (filter (\<lambda>x. op_thread x = Some tid) xs) sh'))) tid
    \<and> events_to k (snd (server_run J xs sh)) = events_to k (snd (server_run J (filter (\<lambda>x. op_thread x = Some tid) xs) sh'))"
  using assms
proof (induction xs arbitrary: sh sh')
  case (Cons x xs)
  have apart: "apart_routes tid k (fst (server_does J x sh))" using apart_kept Cons.prems(1,2) by simp
  have rest: "list_all (keeps_apart tid k) xs" using Cons.prems(2) by simp
  show ?case
  proof (cases "op_thread x = Some tid")
    case True
    note o = own_op[OF Cons.prems(3) True, of J]
    show ?thesis using Cons.IH[OF apart rest o(1)] o(2) True by (simp add: case_prod_beta)
  next
    case False
    note o = other_op[OF Cons.prems(1) False, of J]
    show ?thesis using Cons.IH[OF apart rest, of sh'] o Cons.prems(3) False by (simp add: case_prod_beta)
  qed
qed simp

text \<open>
  C22: sharing a codex server is not noticed. Whatever notifications come for other threads, and however
  other sessions attach, retune and detach in between, a session on a thread hears exactly the events,
  and its route is left in the state, that its own notifications and operations give on a server where
  it is alone.
\<close>

theorem shared_is_private:
  assumes "apart_routes tid k sh" and "list_all (keeps_apart tid k) xs"
    and "alone = sh\<lparr>sh_routes := (case bt_get (sh_routes sh) tid of Some ro \<Rightarrow> [(tid, ro)] | None \<Rightarrow> [])\<rparr>"
    and "own = filter (\<lambda>x. op_thread x = Some tid) xs"
  shows "events_to k (snd (server_run J xs sh)) = events_to k (snd (server_run J own alone))
    \<and> bt_get (sh_routes (fst (server_run J xs sh))) tid = bt_get (sh_routes (fst (server_run J own alone))) tid"
proof -
  have "bt_get (sh_routes sh) tid = bt_get (sh_routes alone) tid" unfolding assms(3) by (simp add: bt_get_def split: option.splits)
  then show ?thesis using run_private[OF assms(1,2)] assms(4) by simp
qed

definition demo_note :: "string \<Rightarrow> string \<Rightarrow> app_note" where
  "demo_note tid method = (''now'', method, JObject [(''threadId'', JString tid), (''turn'', JObject [(''id'', JString (tid @ ''-turn''))])])"

definition demo_shared :: shared where
  "demo_shared = \<lparr>sh_flags = [], sh_generation = 1, sh_alive = True, sh_routes = [], sh_notices = [], sh_silenced = [], sh_stopping = False\<rparr>"

definition demo_ops :: "server_op list" where
  "demo_ops = [Op_Attach ''a'' ''m'' 1, Op_Attach ''b'' ''m'' 2, Op_Heard (demo_note ''b'' ''turn/started''), Op_Heard (demo_note ''a'' ''turn/started''),
     Op_Heard (demo_note ''b'' ''turn/completed''), Op_Detach ''b'', Op_Heard (demo_note ''a'' ''turn/completed'')]"

theorem shared_is_private_witness:
  "let own = filter (\<lambda>x. op_thread x = Some ''a'') demo_ops
   in events_to 1 (snd (server_run toy_codec demo_ops demo_shared)) = events_to 1 (snd (server_run toy_codec own demo_shared))
    \<and> length (events_to 1 (snd (server_run toy_codec demo_ops demo_shared))) = 1
    \<and> length (snd (server_run toy_codec demo_ops demo_shared)) = 2"
proof -
  have a: "apart_routes ''a'' 1 demo_shared" by (simp add: apart_routes_def demo_shared_def bt_get_def)
  have k: "list_all (keeps_apart ''a'' 1) demo_ops" by code_simp
  have s: "demo_shared\<lparr>sh_routes := (case bt_get (sh_routes demo_shared) ''a'' of Some ro \<Rightarrow> [(''a'', ro)] | None \<Rightarrow> [])\<rparr> = demo_shared"
    by (simp add: demo_shared_def bt_get_def)
  have "length (events_to 1 (snd (server_run toy_codec demo_ops demo_shared))) = 1" "length (snd (server_run toy_codec demo_ops demo_shared)) = 2"
    by code_simp+
  then show ?thesis unfolding Let_def using shared_is_private[OF a k s[symmetric] refl, of toy_codec] by simp
qed

section \<open>The pool\<close>

text \<open>
  A server with a route is not reaped while it lives. One that was handed out a moment ago and has no
  route yet is: between \<open>shared_get\<close> and \<open>shared_attach\<close> a session's server can be put down under it.
\<close>

lemma reap_keeps_rented:
  assumes "(key, g) \<in> set (xw_pool w)" and "xw_servers w g = Some sh" and "sh_alive sh" and "sh_routes sh \<noteq> []"
  shows "(key, g) \<in> set (xw_pool (fst (reap_idle now w)))"
proof -
  have keep: "xw_pool (fold (\<lambda>(_, g) u. server_stop now (live_server g u) g u) gs u) = xw_pool u" for gs u
    by (induction gs arbitrary: u) (auto simp: server_stop_def server_exits_def set_server_def split: option.splits)
  show ?thesis using assms by (simp add: reap_idle_def Let_def keep unwanted_def)
qed

lemma reap_stops_unattached:
  assumes "shared_get flags w = (w1, Inr g)" and "xw_servers w1 g = Some sh" and "sh_routes sh = []" and "sh_alive sh"
    and "xw_pool w1 = [(join '' '' flags, g)]"
  shows "\<not> live_server g (fst (reap_idle now w1))" "snd (shared_attach g tid model k (fst (reap_idle now w1))) = False"
  using assms by (auto simp: reap_idle_def Let_def unwanted_def server_stop_def server_exits_def set_server_def live_server_def shared_attach_def)

end
