(* ===== verification/Codex_Runner.thy ===== *)
theory Codex_Runner
  imports Codex_Server
begin

text \<open>
  \<open>providers/codex_app_server/runner.rs\<close>: running codex for one session. A runner rents a thread of a
  shared server; stopping it only gives the thread back. The state of a runner is the runner together with the
  servers.
\<close>

definition NO_MEMORIES :: "string list" where
  "NO_MEMORIES = [''-c'', ''project_doc_max_bytes=0'']"

definition NO_SUBAGENTS :: "string list" where
  "NO_SUBAGENTS = [''--disable'', ''apps'', ''--disable'', ''plugins'', ''-c'', ''agents.enabled=false'']"

definition codex_item :: "turn_text \<Rightarrow> json" where
  "codex_item t = JObject
     [(''content'', JArray [JObject [(''text'', JString (tn_text t)),
        (''type'', JString (if tn_role t = ''user'' then ''input_text'' else ''output_text''))]]),
      (''role'', JString (tn_role t)), (''type'', JString ''message'')]"

definition codex_items :: "turn_text list \<Rightarrow> json" where
  "codex_items turns = JArray (map codex_item turns)"

definition codex_flags :: "config \<Rightarrow> string list" where
  "codex_flags cf =
     (if cf_disable_subagents cf then NO_SUBAGENTS else []) @ NO_MEMORIES
       @ (if cf_fast cf then [''-c'', ''service_tier='' @ quoted ''fast''] else [])"

text \<open>Where a \<open>turn/start\<close> landed, from the turn it was answered with.\<close>

definition landed :: "string \<Rightarrow> string \<Rightarrow> string \<Rightarrow> delivery" where
  "landed turn opened started = (if turn \<noteq> [] \<and> (turn = opened \<or> turn = started) then Immediate else NextTurn)"

record codex_runner =
  xr_config :: config
  xr_emit :: nat
  xr_shared :: "int option"
  xr_thread :: string
  xr_started :: string

definition codex_runner_new :: "config \<Rightarrow> nat \<Rightarrow> codex_runner" where
  "codex_runner_new cf k = \<lparr>xr_config = cf, xr_emit = k, xr_shared = None, xr_thread = [], xr_started = []\<rparr>"

definition emit_event :: "nat \<Rightarrow> event \<Rightarrow> codex_world \<Rightarrow> codex_world" where
  "emit_event k e w = w\<lparr>xw_emitted := xw_emitted w @ [(k, e)]\<rparr>"

definition announce :: "string \<Rightarrow> codex_runner \<Rightarrow> codex_world \<Rightarrow> codex_world" where
  "announce now r w =
     (if cf_disable_mcp (xr_config r) then w
      else emit_event (xr_emit r)
        (with_extra ''why'' (JString ''codex always runs in a jailed CODEX_HOME, so MCP cannot load'')
          (with_extra ''ignored'' (JArray [JString ''enable_mcp'']) (from_provider CODEX (config_event now ''unsupported'')))) w)"

definition thread_id :: "json \<Rightarrow> string option" where
  "thread_id v = as_str (jindex (jindex v ''thread'') ''id'')"

definition codex_open :: "codec \<Rightarrow> int \<Rightarrow> codex_runner \<Rightarrow> codex_world \<Rightarrow> codex_world \<times> string res" where
  "codex_open J g r w =
     (case server_call J g ''thread/start'' (thread_settings (xr_config r)) 60 w of
        (w1, Inl err) \<Rightarrow> (w1, Inl err)
      | (w1, Inr v) \<Rightarrow> (w1, Inr (case thread_id v of Some t \<Rightarrow> t | None \<Rightarrow> [])))"

definition with_thread :: "string \<Rightarrow> json \<Rightarrow> json" where
  "with_thread tid body = (case body of JObject m \<Rightarrow> JObject (bt_insert ''threadId'' (JString tid) m) | _ \<Rightarrow> body)"

definition codex_resume :: "codec \<Rightarrow> int \<Rightarrow> string \<Rightarrow> codex_runner \<Rightarrow> codex_world \<Rightarrow> codex_world \<times> string res" where
  "codex_resume J g nid r w =
     (case server_call J g ''thread/resume'' (with_thread nid (thread_settings (xr_config r))) 60 w of
        (w1, Inl _) \<Rightarrow> codex_open J g r w1
      | (w1, Inr v) \<Rightarrow> (w1, Inr (case thread_id v of Some t \<Rightarrow> t | None \<Rightarrow> nid)))"

definition text_input :: "string \<Rightarrow> json" where
  "text_input t = JArray [JObject [(''text'', JString t), (''type'', JString ''text'')]]"

definition steer :: "codec \<Rightarrow> int \<Rightarrow> string \<Rightarrow> string \<Rightarrow> codex_runner \<Rightarrow> codex_world \<Rightarrow> codex_world \<times> bool" where
  "steer J g t turn r w =
     (case try_call J g ''turn/steer'' (JObject [(''expectedTurnId'', JString turn), (''input'', text_input t), (''threadId'', JString (xr_thread r))]) 30 w of
        (w1, v) \<Rightarrow> (w1, v \<noteq> None))"

definition inject :: "codec \<Rightarrow> int \<Rightarrow> turn_text list \<Rightarrow> codex_runner \<Rightarrow> codex_world \<Rightarrow> codex_world \<times> json res" where
  "inject J g seed r w =
     server_call J g ''thread/inject_items'' (JObject [(''items'', codex_items seed), (''threadId'', JString (xr_thread r))]) 120 w"

type_synonym rental = "codex_runner \<times> codex_world"

text \<open>The rest of \<open>start\<close>, once the thread is there.\<close>

definition codex_move_in :: "codec \<Rightarrow> int \<Rightarrow> event list \<Rightarrow> rental \<Rightarrow> rental \<times> unit res" where
  "codex_move_in J g history s =
     (case s of (r, w) \<Rightarrow>
        if xr_thread r = [] then (s, Inl ''codex started a thread with no id'')
        else
          let w1 = (if cf_disable_subagents (xr_config r) then silence_skills J g (cf_cwd (xr_config r)) w else w);
              seed = transcript J history
          in case (if seed = [] then (w1, Inr JNull) else inject J g seed r w1) of
               (w2, Inl err) \<Rightarrow> ((r, w2), Inl err)
             | (w2, Inr _) \<Rightarrow>
                 (case shared_attach g (xr_thread r) (cf_model (xr_config r)) (xr_emit r) w2 of
                    (w3, False) \<Rightarrow> ((r, w3), Inl ''codex app-server exited while attaching the thread'')
                  | (w3, True) \<Rightarrow> ((r\<lparr>xr_shared := Some g\<rparr>, w3), Inr ())))"

definition codex_start :: "codec \<Rightarrow> string \<Rightarrow> string \<Rightarrow> event list \<Rightarrow> rental \<Rightarrow> rental \<times> unit res" where
  "codex_start J now nid history s =
     (case s of (r, w0) \<Rightarrow>
        (case shared_get (codex_flags (xr_config r)) (announce now r w0) of
           (w1, Inl err) \<Rightarrow> ((r, w1), Inl err)
         | (w1, Inr g) \<Rightarrow>
             (case (if nid = [] then codex_open J g r w1 else codex_resume J g nid r w1) of
                (w2, Inl err) \<Rightarrow> ((r, w2), Inl err)
              | (w2, Inr tid) \<Rightarrow> codex_move_in J g history (r\<lparr>xr_thread := tid\<rparr>, w2))))"

definition turn_body :: "string \<Rightarrow> codex_runner \<Rightarrow> json" where
  "turn_body t r =
     JObject (foldl (\<lambda>m (k, v). if v \<noteq> [] then bt_insert k (JString v) m else m)
       [(''input'', text_input t), (''summary'', JString ''none''), (''threadId'', JString (xr_thread r))]
       [(''model'', cf_model (xr_config r)), (''effort'', cf_effort (xr_config r))])"

definition turn_id :: "json \<Rightarrow> string" where
  "turn_id v = (case as_str (jindex (jindex v ''turn'') ''id'') of Some t \<Rightarrow> t | None \<Rightarrow> [])"

definition codex_send :: "codec \<Rightarrow> string \<Rightarrow> rental \<Rightarrow> rental \<times> delivery res" where
  "codex_send J t s =
     (case s of (r, w) \<Rightarrow>
        (case xr_shared r of
           None \<Rightarrow> (s, Inl ''codex is not running'')
         | Some g \<Rightarrow>
             let opened = turn_of g (xr_thread r) w in
             (case (if opened \<noteq> [] then steer J g t opened r w else (w, False)) of
                (w1, True) \<Rightarrow> ((r, w1), Inr Immediate)
              | (w1, False) \<Rightarrow>
                  (case server_call J g ''turn/start'' (turn_body t r) 60 w1 of
                     (w2, Inl err) \<Rightarrow> ((r, w2), Inl err)
                   | (w2, Inr answer) \<Rightarrow>
                       ((r\<lparr>xr_started := turn_id answer\<rparr>, w2), Inr (landed (turn_id answer) opened (xr_started r)))))))"

definition codex_compact :: "codec \<Rightarrow> rental \<Rightarrow> rental \<times> bool res" where
  "codex_compact J s =
     (case s of (r, w) \<Rightarrow>
        (case xr_shared r of
           None \<Rightarrow> (s, Inl ''codex is not running'')
         | Some g \<Rightarrow>
             (case server_call J g ''thread/compact/start'' (JObject [(''threadId'', JString (xr_thread r))]) 60 w of
                (w1, Inl err) \<Rightarrow> ((r, w1), Inl err)
              | (w1, Inr _) \<Rightarrow> ((r, w1), Inr True))))"

definition codex_alive :: "rental \<Rightarrow> bool" where
  "codex_alive s = (case s of (r, w) \<Rightarrow> (case xr_shared r of Some g \<Rightarrow> live_server g w | None \<Rightarrow> False))"

definition codex_catch_up :: "codec \<Rightarrow> event list \<Rightarrow> rental \<Rightarrow> rental \<times> bool" where
  "codex_catch_up J history s =
     (case s of (r, w) \<Rightarrow>
        (case xr_shared r of
           None \<Rightarrow> (s, False)
         | Some g \<Rightarrow>
             let seed = transcript J history in
             if seed = [] then (s, codex_alive s)
             else (case inject J g seed r w of (w1, x) \<Rightarrow> ((r, w1), case x of Inr _ \<Rightarrow> True | Inl _ \<Rightarrow> False))))"

definition codex_retune :: "string \<Rightarrow> string \<Rightarrow> rental \<Rightarrow> rental \<times> bool" where
  "codex_retune model effort s =
     (case s of (r, w) \<Rightarrow>
        let r1 = r\<lparr>xr_config := (xr_config r)\<lparr>cf_model := model, cf_effort := effort\<rparr>\<rparr>;
            w1 = (case xr_shared r of Some g \<Rightarrow> shared_retune g (xr_thread r) model w | None \<Rightarrow> w)
        in ((r1, w1), codex_alive (r1, w1)))"

definition codex_interrupt :: "codec \<Rightarrow> rental \<Rightarrow> rental" where
  "codex_interrupt J s =
     (case s of (r, w) \<Rightarrow>
        (case xr_shared r of
           None \<Rightarrow> s
         | Some g \<Rightarrow>
             let turn = turn_of g (xr_thread r) w in
             if turn = [] then s
             else (r, fst (try_call J g ''turn/interrupt'' (JObject [(''threadId'', JString (xr_thread r)), (''turnId'', JString turn)]) 10 w))))"

definition codex_stop :: "rental \<Rightarrow> rental" where
  "codex_stop s =
     (case s of (r, w) \<Rightarrow>
        (case xr_shared r of None \<Rightarrow> s | Some g \<Rightarrow> (r\<lparr>xr_shared := None\<rparr>, shared_detach g (xr_thread r) w)))"

section \<open>Turns\<close>

text \<open>What \<open>send\<close> reports, from the turn it knew of and what codex answered.\<close>

definition send_report :: "string \<Rightarrow> bool \<Rightarrow> string \<Rightarrow> string \<Rightarrow> delivery" where
  "send_report opened steered turn started = (if opened \<noteq> [] \<and> steered then Immediate else landed turn opened started)"

lemma codex_send_reports:
  assumes "codex_send J t (r, w) = ((r1, w1), Inr d)"
  obtains g steered turn where "xr_shared r = Some g" "d = send_report (turn_of g (xr_thread r) w) steered turn (xr_started r)"
    "xr_started r1 = (if turn_of g (xr_thread r) w \<noteq> [] \<and> steered then xr_started r else turn)"
proof -
  obtain g where g: "xr_shared r = Some g" using assms by (auto simp: codex_send_def split: option.splits)
  define opened where "opened = turn_of g (xr_thread r) w"
  obtain w2 st where st: "(if opened \<noteq> [] then steer J g t opened r w else (w, False)) = (w2, st)" by fastforce
  have "codex_send J t (r, w) = (case (if opened \<noteq> [] then steer J g t opened r w else (w, False)) of
                (w1, True) \<Rightarrow> ((r, w1), Inr Immediate)
              | (w1, False) \<Rightarrow>
                  (case server_call J g ''turn/start'' (turn_body t r) 60 w1 of
                     (w2, Inl err) \<Rightarrow> ((r, w2), Inl err)
                   | (w2, Inr answer) \<Rightarrow>
                       ((r\<lparr>xr_started := turn_id answer\<rparr>, w2), Inr (landed (turn_id answer) opened (xr_started r)))))"
    by (simp only: codex_send_def prod.case g option.case Let_def opened_def)
  note eq = this[unfolded st assms]
  show ?thesis
  proof (cases st)
    case True
    then have "opened \<noteq> []" using st by (auto split: if_splits)
    moreover have "d = Immediate" "r1 = r" using eq True by simp_all
    ultimately show ?thesis using that[of g True] g by (simp add: send_report_def opened_def)
  next
    case False
    obtain w3 x where x: "server_call J g ''turn/start'' (turn_body t r) 60 w2 = (w3, x)" by fastforce
    have "\<exists>v. x = Inr v \<and> d = landed (turn_id v) opened (xr_started r) \<and> xr_started r1 = turn_id v"
      using eq False x by (cases x) simp_all
    then show ?thesis using that[of g False] g by (auto simp: send_report_def opened_def)
  qed
qed

text \<open>
  A thread of codex as it is documented: a turn that is running takes what is sent to it, by
  \<open>turn/steer\<close> when it is the expected one and by \<open>turn/start\<close> in any case; otherwise \<open>turn/start\<close> opens
  a turn with an id of its own. Its notifications come in order and may trail its answers. \<open>tk_sends\<close>
  notes for every message whether it opened a turn and what was reported; \<open>tk_ends\<close> counts the turns
  that ended.
\<close>

datatype turn_note = Began string | Ended

record talk =
  tk_open :: "string option"
  tk_notes :: "turn_note list"
  tk_route :: string
  tk_started :: string
  tk_used :: "string set"
  tk_sends :: "(bool \<times> delivery) list"
  tk_ends :: nat

definition talk_new :: talk where
  "talk_new = \<lparr>tk_open = None, tk_notes = [], tk_route = [], tk_started = [], tk_used = {}, tk_sends = [], tk_ends = 0\<rparr>"

definition route_note :: "turn_note \<Rightarrow> string \<Rightarrow> string" where
  "route_note n turn = (case n of Began t \<Rightarrow> t | Ended \<Rightarrow> [])"

inductive talk_moves :: "talk \<Rightarrow> talk \<Rightarrow> bool" where
  ended: "tk_open s = Some t \<Longrightarrow> talk_moves s (s\<lparr>tk_open := None, tk_notes := tk_notes s @ [Ended], tk_ends := Suc (tk_ends s)\<rparr>)"
| noted: "tk_notes s = n # ns \<Longrightarrow> talk_moves s (s\<lparr>tk_notes := ns, tk_route := route_note n (tk_route s)\<rparr>)"

inductive talk_step :: "talk \<Rightarrow> talk \<Rightarrow> bool" where
  moved: "talk_moves s s1 \<Longrightarrow> talk_step s s1"
| steered: "tk_route s \<noteq> [] \<Longrightarrow> tk_open s1 = Some (tk_route s) \<Longrightarrow> talk_moves\<^sup>*\<^sup>* s s1
    \<Longrightarrow> talk_step s (s1\<lparr>tk_sends := tk_sends s1 @ [(False, send_report (tk_route s) True turn (tk_started s1))]\<rparr>)"
| joined: "talk_moves\<^sup>*\<^sup>* s s1 \<Longrightarrow> tk_open s1 = Some t
    \<Longrightarrow> talk_step s (s1\<lparr>tk_started := t, tk_sends := tk_sends s1 @ [(False, send_report (tk_route s) False t (tk_started s1))]\<rparr>)"
| opened: "talk_moves\<^sup>*\<^sup>* s s1 \<Longrightarrow> tk_open s1 = None \<Longrightarrow> t \<noteq> [] \<Longrightarrow> t \<notin> tk_used s1
    \<Longrightarrow> talk_step s (s1\<lparr>tk_open := Some t, tk_notes := tk_notes s1 @ [Began t], tk_used := insert t (tk_used s1), tk_started := t,
          tk_sends := tk_sends s1 @ [(True, send_report (tk_route s) False t (tk_started s1))]\<rparr>)"

definition talk_inv :: "talk \<Rightarrow> bool" where
  "talk_inv s \<longleftrightarrow> tk_route s \<in> insert [] (tk_used s) \<and> tk_started s \<in> insert [] (tk_used s)
     \<and> (\<forall>t. Began t \<in> set (tk_notes s) \<longrightarrow> t \<in> tk_used s)
     \<and> (\<forall>t. tk_open s = Some t \<longrightarrow> t \<noteq> [] \<and> tk_started s = t)
     \<and> (\<forall>(new, d) \<in> set (tk_sends s). d = (if new then NextTurn else Immediate))
     \<and> length (filter fst (tk_sends s)) = tk_ends s + (if tk_open s = None then 0 else 1)"

lemma talk_moves_keeps:
  assumes "talk_moves s s1" and "talk_inv s"
  shows "talk_inv s1 \<and> tk_used s1 = tk_used s"
  using assms by cases (auto simp: talk_inv_def route_note_def split: turn_note.splits)

lemma talk_moves_all:
  assumes "talk_moves\<^sup>*\<^sup>* s s1" and "talk_inv s"
  shows "talk_inv s1 \<and> tk_used s1 = tk_used s"
  using assms by (induction) (auto dest: talk_moves_keeps)

lemma talk_step_inv:
  assumes "talk_step s s1" and inv: "talk_inv s"
  shows "talk_inv s1"
  using assms(1)
proof cases
  case moved
  then show ?thesis using talk_moves_keeps inv by blast
next
  case (steered u turn)
  have "talk_inv u" using talk_moves_all[OF steered(4) inv] by simp
  then show ?thesis using steered by (auto simp: talk_inv_def send_report_def)
next
  case (joined u t)
  have "talk_inv u" using talk_moves_all[OF joined(2) inv] by simp
  then show ?thesis using joined(1,3) by (auto simp: talk_inv_def send_report_def landed_def)
next
  case (opened u t)
  have u: "talk_inv u" "tk_used u = tk_used s" using talk_moves_all[OF opened(2) inv] by auto
  have "t \<noteq> tk_route s" using opened(4,5) u(2) inv by (auto simp: talk_inv_def)
  moreover have "t \<noteq> tk_started u" using opened(4,5) u(1) by (auto simp: talk_inv_def)
  ultimately have "send_report (tk_route s) False t (tk_started u) = NextTurn" by (simp add: send_report_def landed_def)
  then show ?thesis using u(1) opened by (auto simp: talk_inv_def)
qed


text \<open>Two messages in a row: the second is sent before the first turn was announced.\<close>

definition demo_talk :: "talk \<Rightarrow> talk" where
  "demo_talk s = s\<lparr>tk_open := Some ''t'', tk_notes := [Began ''t''], tk_used := {''t''}, tk_started := ''t'', tk_sends := [(True, NextTurn)]\<rparr>"

lemma demo_talk_runs: "talk_step\<^sup>*\<^sup>* talk_new ((demo_talk talk_new)\<lparr>tk_sends := [(True, NextTurn), (False, Immediate)]\<rparr>)"
proof -
  have 1: "talk_step talk_new (demo_talk talk_new)"
    using opened[of talk_new talk_new "''t''"] by (simp add: talk_new_def demo_talk_def send_report_def landed_def)
  have 2: "talk_step (demo_talk talk_new) ((demo_talk talk_new)\<lparr>tk_sends := [(True, NextTurn), (False, Immediate)]\<rparr>)"
    using joined[of "demo_talk talk_new" "demo_talk talk_new" "''t''"] by (simp add: talk_new_def demo_talk_def send_report_def landed_def)
  from 1 2 show ?thesis by (meson converse_rtranclp_into_rtranclp rtranclp.rtrancl_refl)
qed


end
