(* ===== verification/Agy_Stream.thy ===== *)
theory Agy_Stream
  imports Native_Stream
begin

text \<open>
  \<open>providers/antigravity_cli/stream.rs\<close>: agy's \<open>stream-json\<close>. Everything arrives as updates of
  numbered steps; text comes as deltas that are stitched together until the step is done, a tool
  step is announced once however many updates it gets, and the end of a turn forgets every step.
\<close>

definition AGY :: string where
  "AGY = ''antigravity-cli''"

record agy_stream =
  as_model :: string
  as_conversation :: string
  as_text :: "(int \<times> string) list"
  as_called :: "int list"

definition agy_new :: "string \<Rightarrow> agy_stream" where
  "agy_new model = \<lparr>as_model = model, as_conversation = [], as_text = [], as_called = []\<rparr>"

definition agy_event :: "string \<Rightarrow> agy_stream \<Rightarrow> string \<Rightarrow> event" where
  "agy_event now s kind =
     (let e = about (as_model s) (from_provider AGY (event_new now kind)) in
      if as_conversation s \<noteq> [] then native ''conversation_id'' (JString (as_conversation s)) e else e)"

definition step_event :: "string \<Rightarrow> agy_stream \<Rightarrow> string \<Rightarrow> int \<Rightarrow> event" where
  "step_event now s kind index =
     (if 0 \<le> index then native ''step_index'' (JInt index) (agy_event now s kind) else agy_event now s kind)"

definition remember_conversation :: "json \<Rightarrow> agy_stream \<Rightarrow> agy_stream" where
  "remember_conversation v s = (case str_at v ''conversation_id'' of Some i \<Rightarrow> s\<lparr>as_conversation := i\<rparr> | None \<Rightarrow> s)"

definition step_index :: "json \<Rightarrow> int" where
  "step_index step = (case as_i64 (jindex step ''step_index'') of Some n \<Rightarrow> n | None \<Rightarrow> -1)"

definition text_delta :: "json \<Rightarrow> string" where
  "text_delta step = (case as_str (jindex step ''text_delta'') of Some t \<Rightarrow> t | None \<Rightarrow> [])"

definition still_active :: "json \<Rightarrow> bool" where
  "still_active step \<longleftrightarrow> as_str (jindex step ''state'') = Some ''ACTIVE''"

definition text_so_far :: "agy_stream \<Rightarrow> int \<Rightarrow> string" where
  "text_so_far s index = (case bt_get (as_text s) index of Some t \<Rightarrow> t | None \<Rightarrow> [])"

definition thought :: "json \<Rightarrow> bool" where
  "thought step \<longleftrightarrow> 0 < (case as_i64 (jindex (jindex step ''usage'') ''thinking_tokens'') of Some n \<Rightarrow> n | None \<Rightarrow> 0)"

definition speech :: "string \<Rightarrow> json \<Rightarrow> agy_stream \<Rightarrow> agy_stream \<times> event list" where
  "speech now step s =
     (let index = step_index step;
          s1 = s\<lparr>as_text := bt_insert index (text_so_far s index @ text_delta step) (as_text s)\<rparr>
      in if still_active step then (s1, [])
         else let said = trim (text_so_far s1 index)
              in (s1\<lparr>as_text := bt_remove index (as_text s1)\<rparr>,
                  (if thought step then [step_event now s1 THINKING index] else [])
                  @ (if said = [] then [] else [saying said (step_event now s1 TEXT index)])))"

definition agy_tool_name :: "json \<Rightarrow> string" where
  "agy_tool_name step =
     (case as_str (jindex step ''tool_name'') of
        Some n \<Rightarrow> n
      | None \<Rightarrow> (case as_str (jindex (jindex step ''tool_info'') ''name'') of Some n \<Rightarrow> n | None \<Rightarrow> ''tool''))"

definition agy_call :: "string \<Rightarrow> json \<Rightarrow> agy_stream \<Rightarrow> event" where
  "agy_call now step s =
     (step_event now s TOOL_CALL (step_index step))
       \<lparr>ev_tool := agy_tool_name step, ev_id := show_int (step_index step),
        ev_args := (case as_object (jindex (jindex step ''tool_info'') ''parameters'') of Some m \<Rightarrow> m | None \<Rightarrow> [])\<rparr>"

definition agy_result :: "string \<Rightarrow> json \<Rightarrow> agy_stream \<Rightarrow> event" where
  "agy_result now step s =
     (let info = jindex step ''tool_info''; fail = jindex info ''error''; broke = (as_object fail \<noteq> None) in
      (step_event now s TOOL_RESULT (step_index step))
        \<lparr>ev_tool := agy_tool_name step, ev_id := show_int (step_index step),
         ev_result := (if broke then jindex fail ''message'' else jindex info ''output''),
         ev_ok := \<not> broke \<and> as_str (jindex step ''state'') \<noteq> Some ''ERROR''\<rparr>)"

definition agy_tool :: "string \<Rightarrow> json \<Rightarrow> agy_stream \<Rightarrow> agy_stream \<times> event list" where
  "agy_tool now step s =
     (let index = step_index step;
          announced = (if index \<in> set (as_called s) then [] else [agy_call now step s]);
          s1 = s\<lparr>as_called := bs_insert index (as_called s)\<rparr>
      in if still_active step then (s1, announced)
         else (s1\<lparr>as_called := filter (\<lambda>i. i \<noteq> index) (as_called s1)\<rparr>, announced @ [agy_result now step s]))"

definition agy_step :: "string \<Rightarrow> json \<Rightarrow> agy_stream \<Rightarrow> agy_stream \<times> event list" where
  "agy_step now step s =
     (let sort = str_at step ''step_type'' in
      if sort = Some ''agent_response'' then speech now step s
      else if sort = Some ''tool'' then agy_tool now step s
      else (s, []))"

definition agy_failure :: "codec \<Rightarrow> string \<Rightarrow> json \<Rightarrow> agy_stream \<Rightarrow> event" where
  "agy_failure J now result s =
     (let said = (case jindex result ''error'' of
                    JString t \<Rightarrow> t
                  | JNull \<Rightarrow> ''agy turn failed''
                  | other \<Rightarrow> to_text J other);
          e = about (as_model s) (from_provider AGY (failure now (classify said) said))
      in if as_conversation s \<noteq> [] then native ''conversation_id'' (JString (as_conversation s)) e else e)"

definition agy_finished :: "codec \<Rightarrow> string \<Rightarrow> json \<Rightarrow> agy_stream \<Rightarrow> agy_stream \<times> event list" where
  "agy_finished J now result s0 =
     (let s = s0\<lparr>as_text := [], as_called := []\<rparr> in
      (s, (if as_str (jindex result ''status'') = Some ''ERROR'' then [agy_failure J now result s] else [])
          @ [with_extra ''usage'' (jindex result ''usage'')
              (with_extra ''seconds'' (jindex result ''duration_seconds'')
              (with_extra ''status'' (jindex result ''status'') (agy_event now s END)))]))"

definition agy_handle :: "codec \<Rightarrow> string \<Rightarrow> json \<Rightarrow> agy_stream \<Rightarrow> agy_stream \<times> event list" where
  "agy_handle J now data s =
     (let sort = str_at data ''event'' in
      if sort = Some ''init''
        then ((case as_str (jindex data ''conversation_id'') of Some i \<Rightarrow> s\<lparr>as_conversation := i\<rparr> | None \<Rightarrow> s), [])
      else if sort = Some ''step_update''
        then agy_step now (jindex data ''step_update'') (remember_conversation (jindex data ''step_update'') s)
      else if sort = Some ''result''
        then agy_finished J now (jindex data ''result'') (remember_conversation (jindex data ''result'') s)
      else (s, []))"

definition agy_feed :: "codec \<Rightarrow> string \<times> bytes \<Rightarrow> agy_stream \<Rightarrow> agy_stream \<times> event list" where
  "agy_feed J p s = (case from_slice J (snd p) of Inl _ \<Rightarrow> (s, []) | Inr data \<Rightarrow> agy_handle J (fst p) data s)"

text \<open>agy keys its input on \<open>event\<close>, not \<open>type\<close>.\<close>

definition agy_user_line :: "codec \<Rightarrow> string \<Rightarrow> string" where
  "agy_user_line J t =
     to_text J (JObject [(''event'', JString ''user''),
       (''message'', JObject [(''content'', JString t), (''role'', JString ''user'')])])"

section \<open>Facts\<close>

lemma step_event_simps [simp]:
  "ev_type (agy_event now s ty) = ty" "ev_type (step_event now s ty i) = ty"
  "ev_type (agy_failure J now r s) = ERROR" "ev_type (agy_call now st s) = TOOL_CALL" "ev_type (agy_result now st s) = TOOL_RESULT"
  "ev_id (agy_call now st s) = show_int (step_index st)" "ev_id (agy_result now st s) = show_int (step_index st)"
  by (simp_all add: agy_event_def step_event_def agy_failure_def agy_call_def agy_result_def native_def Let_def)

definition live_ids :: "agy_stream \<Rightarrow> string set" where
  "live_ids s = show_int ` set (as_called s)"

lemma live_id [simp]: "show_int i \<in> live_ids s \<longleftrightarrow> i \<in> set (as_called s)"
  by (auto simp: live_ids_def show_int_inj)

lemma set_bs_insert [simp]: "set (bs_insert x xs) = insert x (set xs)"
  by (auto simp: bs_insert_def set_insort_key)

lemma live_ids_simps [simp]:
  "live_ids (s\<lparr>as_called := bs_insert i c\<rparr>) = insert (show_int i) (live_ids (s\<lparr>as_called := c\<rparr>))"
  "live_ids (s\<lparr>as_called := filter (\<lambda>j. j \<noteq> i) c\<rparr>) = live_ids (s\<lparr>as_called := c\<rparr>) - {show_int i}"
  "live_ids (s\<lparr>as_called := []\<rparr>) = {}" "live_ids (s\<lparr>as_text := x\<rparr>) = live_ids s" "live_ids (s\<lparr>as_conversation := y\<rparr>) = live_ids s"
  by (auto simp: live_ids_def show_int_inj)

lemma live_ids_remember [simp]: "live_ids (remember_conversation v s) = live_ids s"
  by (simp add: remember_conversation_def split: option.split)

lemma speech_follows:
  assumes "speech now st s = (t, es)"
  shows "watch pairing_rule a es = Some a \<and> live_ids t = live_ids s"
  using assms by (auto simp: speech_def Let_def pairing_rule_def is_type_def event_types split: if_splits)

lemma agy_tool_follows:
  assumes "agy_tool now st s = (t, es)"
  shows "watch pairing_rule (live_ids s) es = Some (live_ids t)"
proof -
  let ?i = "step_index st"
  let ?a = "if ?i \<in> set (as_called s) then [] else [agy_call now st s]"
  have t: "live_ids t = (if still_active st then insert (show_int ?i) (live_ids s) else insert (show_int ?i) (live_ids s) - {show_int ?i})"
    and es: "es = ?a @ (if still_active st then [] else [agy_result now st s])"
    using assms by (simp_all add: agy_tool_def Let_def split: if_splits, auto)
  have "watch pairing_rule (live_ids s) ?a = Some (insert (show_int ?i) (live_ids s))"
    by (simp add: pairing_rules insert_absorb)
  then show ?thesis unfolding t es by (simp add: pairing_rules)
qed

interpretation agy_pairs: followed_stream "agy_feed J" live_ids pairing_rule for J
proof unfold_locales
  fix s and i :: "string \<times> bytes"
  obtain t es where 1: "agy_feed J i s = (t, es)" by fastforce
  have "watch pairing_rule (live_ids s) es = Some (live_ids t)"
  proof (cases "from_slice J (snd i)")
    case (Inl e)
    with 1 show ?thesis by (simp add: agy_feed_def)
  next
    case (Inr d)
    let ?u = "jindex d ''step_update''"
    consider (step) "agy_step (fst i) ?u (remember_conversation ?u s) = (t, es)"
      | (fin) "agy_finished J (fst i) (jindex d ''result'') (remember_conversation (jindex d ''result'') s) = (t, es)"
      | (idle) "es = []" "live_ids t = live_ids s"
      using 1 Inr by (auto simp: agy_feed_def agy_handle_def Let_def split: if_splits option.splits)
    then show ?thesis
    proof cases
      case step
      then show ?thesis using speech_follows[of "fst i" ?u] agy_tool_follows[of "fst i" ?u]
        by (fastforce simp: agy_step_def Let_def split: if_splits)
    next
      case fin
      then show ?thesis by (auto simp: agy_finished_def Let_def pairing_rule_def is_type_def event_types)
    qed simp
  qed
  then show "watch pairing_rule (live_ids s) (snd (agy_feed J i s)) = Some (live_ids (fst (agy_feed J i s)))" by (simp add: 1)
qed

text \<open>
  a tool step is announced once and answered once. In whatever agy prints, every tool result
  follows a call with its id in the same turn, and no step is called again before its result.
\<close>

theorem agy_tools_paired:
  "watch pairing_rule {} (snd (feed_all (agy_feed J) ls (agy_new model))) \<noteq> None"
  using agy_pairs.run_follows[of "agy_new model" J ls] by (simp add: agy_new_def live_ids_def)

section \<open>Stitching\<close>

text \<open>What step \<open>i\<close> has said since it last finished, read off the lines themselves.\<close>

definition hear :: "int \<Rightarrow> json \<Rightarrow> string \<Rightarrow> string" where
  "hear i d acc =
     (let step = jindex d ''step_update'' in
      if str_at d ''event'' = Some ''result'' then []
      else if str_at d ''event'' = Some ''step_update'' \<and> str_at step ''step_type'' = Some ''agent_response'' \<and> step_index step = i
        then (if still_active step then acc @ text_delta step else [])
      else acc)"

definition heard :: "codec \<Rightarrow> int \<Rightarrow> (string \<times> bytes) list \<Rightarrow> string" where
  "heard J i ls = foldl (\<lambda>acc l. case from_slice J (snd l) of Inl _ \<Rightarrow> acc | Inr d \<Rightarrow> hear i d acc) [] ls"

lemma text_so_far_simps [simp]:
  "text_so_far (s\<lparr>as_text := bt_insert j x m\<rparr>) i = (if i = j then x else text_so_far (s\<lparr>as_text := m\<rparr>) i)"
  "text_so_far (s\<lparr>as_text := bt_remove j m\<rparr>) i = (if i = j then [] else text_so_far (s\<lparr>as_text := m\<rparr>) i)"
  "text_so_far (s\<lparr>as_text := []\<rparr>) i = []" "text_so_far (s\<lparr>as_called := c\<rparr>) i = text_so_far s i"
  "text_so_far (s\<lparr>as_conversation := y\<rparr>) i = text_so_far s i" "text_so_far (s\<lparr>as_text := as_text s\<rparr>) i = text_so_far s i"
  by (simp_all add: text_so_far_def)

lemma text_so_far_remember [simp]: "text_so_far (remember_conversation v s) i = text_so_far s i"
  by (simp add: remember_conversation_def split: option.split)

lemma agy_feed_text:
  "text_so_far (fst (agy_feed J l s)) i = (case from_slice J (snd l) of Inl _ \<Rightarrow> text_so_far s i | Inr d \<Rightarrow> hear i d (text_so_far s i))"
proof (cases "from_slice J (snd l)")
  case (Inl e)
  then show ?thesis by (simp add: agy_feed_def)
next
  case (Inr d)
  let ?u = "jindex d ''step_update''"
  have sp: "text_so_far (fst (speech now ?u s')) i
      = (if step_index ?u = i then (if still_active ?u then text_so_far s' i @ text_delta ?u else []) else text_so_far s' i)" for now s'
    by (simp add: speech_def Let_def)
  have tl: "text_so_far (fst (agy_tool now ?u s')) i = text_so_far s' i" for now s'
    by (simp add: agy_tool_def Let_def)
  show ?thesis
    using Inr by (auto simp: agy_feed_def agy_handle_def agy_step_def agy_finished_def hear_def Let_def sp tl split: option.splits)
qed

lemma text_is_heard: "text_so_far (fst (feed_all (agy_feed J) ls (agy_new model))) i = heard J i ls"
proof (induction ls rule: rev_induct)
  case Nil
  then show ?case by (simp add: heard_def agy_new_def text_so_far_def)
next
  case (snoc l ls)
  have "fst (feed_all (agy_feed J) (ls @ [l]) (agy_new model)) = fst (agy_feed J l (fst (feed_all (agy_feed J) ls (agy_new model))))"
    by (simp add: feed_all_append split: prod.split)
  then show ?case using snoc by (simp add: agy_feed_text heard_def split: sum.split)
qed

text \<open>
  C38: deltas are stitched back into one message. When a step of speech is done, what it says is
  every delta agy sent for that step since it last finished or the turn ended, in order and
  trimmed, however the updates of other steps came in between; a step that said nothing is silent.
\<close>

theorem agy_speech_stitched:
  assumes "from_slice J (snd l) = Inr d" and "str_at d ''event'' = Some ''step_update''"
    and "str_at (jindex d ''step_update'') ''step_type'' = Some ''agent_response''" and "\<not> still_active (jindex d ''step_update'')"
  shows "\<exists>es. snd (feed_all (agy_feed J) (ls @ [l]) (agy_new model)) = snd (feed_all (agy_feed J) ls (agy_new model)) @ es
    \<and> map ev_text (filter (\<lambda>e. is_type e TEXT) es)
        = filter (\<lambda>t. t \<noteq> []) [trim (heard J (step_index (jindex d ''step_update'')) ls @ text_delta (jindex d ''step_update''))]"
proof -
  let ?u = "jindex d ''step_update''" and ?s = "fst (feed_all (agy_feed J) ls (agy_new model))"
  have "agy_feed J l ?s = speech (fst l) ?u (remember_conversation ?u ?s)"
    using assms by (simp add: agy_feed_def agy_handle_def agy_step_def)
  then have "map ev_text (filter (\<lambda>e. is_type e TEXT) (snd (agy_feed J l ?s)))
      = filter (\<lambda>t. t \<noteq> []) [trim (heard J (step_index ?u) ls @ text_delta ?u)]"
    using assms(4) by (simp add: speech_def Let_def is_type_def event_types text_is_heard)
  moreover have "snd (feed_all (agy_feed J) (ls @ [l]) (agy_new model)) = snd (feed_all (agy_feed J) ls (agy_new model)) @ snd (agy_feed J l ?s)"
    by (simp add: feed_all_append split: prod.split)
  ultimately show ?thesis by blast
qed

definition agy_line :: "string \<Rightarrow> string \<Rightarrow> json" where
  "agy_line delta state = JObject [(''event'', JString ''step_update''),
     (''step_update'', JObject [(''state'', JString state), (''step_index'', JInt 0), (''step_type'', JString ''agent_response''),
        (''text_delta'', JString delta)])]"

theorem agy_speech_stitched_witness:
  "let J = \<lparr>from_slice = (\<lambda>t. Inr (agy_line t (if t = ''lo '' then ''DONE'' else ''ACTIVE''))), to_text = (\<lambda>_. ''{}''), to_pretty = (\<lambda>_. ''{}'')\<rparr>
   in \<exists>es. snd (feed_all (agy_feed J) ([(''now'', ''Hel'')] @ [(''now'', ''lo '')]) (agy_new ''m''))
         = snd (feed_all (agy_feed J) [(''now'', ''Hel'')] (agy_new ''m'')) @ es
       \<and> map ev_text (filter (\<lambda>e. is_type e TEXT) es) = [''Hello'']"
proof -
  let ?J = "\<lparr>from_slice = (\<lambda>t. Inr (agy_line t (if t = ''lo '' then ''DONE'' else ''ACTIVE''))), to_text = (\<lambda>_. ''{}''), to_pretty = (\<lambda>_. ''{}'')\<rparr>"
  let ?d = "agy_line ''lo '' ''DONE''"
  have h: "filter (\<lambda>t. t \<noteq> []) [trim (heard ?J (step_index (jindex ?d ''step_update'')) [(''now'', ''Hel'')] @ text_delta (jindex ?d ''step_update''))] = [''Hello'']"
    by code_simp
  have "str_at ?d ''event'' = Some ''step_update''" "str_at (jindex ?d ''step_update'') ''step_type'' = Some ''agent_response''"
    "\<not> still_active (jindex ?d ''step_update'')" by code_simp+
  from agy_speech_stitched[where J = ?J and l = "(''now'', ''lo '')" and ls = "[(''now'', ''Hel'')]" and model = "''m''", OF _ this] h
  show ?thesis unfolding Let_def by (simp only: h) simp
qed

end
