(* ===== verification/Agy_Runner.thy ===== *)
theory Agy_Runner
  imports Cli_Runner Agy_Stream Seed_Text
begin

text \<open>
  \<open>providers/antigravity_cli/runner.rs\<close>: Antigravity cannot be seeded, so what it missed is text in front
  of the next message. Starting waits until the process has named its conversation.
\<close>

definition INSTRUCTIONS :: string where
  "INSTRUCTIONS = ''Follow these instructions for the rest of this conversation:''"

definition AGY_CLI :: string where "AGY_CLI = ''agy''"

definition blank_line :: string where "blank_line = [newline, newline]"

record agy_runner =
  ar_config :: config
  ar_stream :: agy_stream
  ar_proc :: "pipe option"
  ar_native :: string
  ar_seed :: string
  ar_stopping :: bool

definition agy_runner_new :: "config \<Rightarrow> agy_runner" where
  "agy_runner_new cf = \<lparr>ar_config = cf, ar_stream = agy_new (cf_model cf), ar_proc = None, ar_native = [], ar_seed = [], ar_stopping = False\<rparr>"

definition agy_announce :: "string \<Rightarrow> agy_runner \<Rightarrow> event list" where
  "agy_announce now r =
     (let ignored = map fst (filter snd [(''disable_subagents'', cf_disable_subagents (ar_config r)), (''disable_mcp'', cf_disable_mcp (ar_config r))])
      in if ignored = [] then []
         else [with_extra ''why'' (JString ''agy has no switch for these'')
                (with_extra ''ignored'' (JArray (map JString ignored)) (from_provider AGY (config_event now ''unsupported'')))])"

definition agy_prompt :: "agy_runner \<Rightarrow> string" where
  "agy_prompt r = join blank_line (filter (\<lambda>part. part \<noteq> []) [cf_system_prompt (ar_config r), cf_append_system_prompt (ar_config r)])"

definition approximated :: "string \<Rightarrow> agy_runner \<Rightarrow> event list" where
  "approximated now r =
     (if agy_prompt r = [] then []
      else [with_extra ''system_prompt'' (JString ''sent as text; agy has no system prompt flag'') (from_provider AGY (config_event now ''approximated''))])"

definition agy_opening :: "codec \<Rightarrow> event list \<Rightarrow> agy_runner \<Rightarrow> string" where
  "agy_opening J history r =
     join blank_line (filter (\<lambda>part. part \<noteq> [])
       [if agy_prompt r = [] then [] else INSTRUCTIONS @ blank_line @ agy_prompt r, flatten J history SEED_HEADER])"

definition agy_argv :: "string \<Rightarrow> agy_runner \<Rightarrow> string list" where
  "agy_argv native_id r =
     [AGY_CLI, ''--output-format'', ''stream-json'', ''--input-format'', ''stream-json'', ''--disable-slash-commands'',
      ''--print-timeout'', ''24h'', ''--dangerously-skip-permissions'']
     @ (if cf_model (ar_config r) \<noteq> [] then [''--model'', cf_model (ar_config r)] else [])
     @ (if cf_effort (ar_config r) \<noteq> [] then [''--effort'', cf_effort (ar_config r)] else [])
     @ (if native_id \<noteq> [] then [''--conversation'', native_id] else []) @ [''--print'', []]"

fun agy_lines :: "codec \<Rightarrow> printed \<Rightarrow> agy_runner \<Rightarrow> agy_runner \<times> event list" where
  "agy_lines J [] r = (r, [])"
| "agy_lines J (l # ls) r =
     (case agy_feed J l (ar_stream r) of
        (s1, es) \<Rightarrow> (case agy_lines J ls (r\<lparr>ar_stream := s1\<rparr>) of (r1, es1) \<Rightarrow> (r1, es @ es1)))"

type_synonym agy_place = "agy_runner \<times> cli"

definition agy_stop :: "agy_place \<Rightarrow> agy_place" where
  "agy_stop s = (case s of (r, c) \<Rightarrow> (r\<lparr>ar_stopping := True, ar_proc := None\<rparr>, c))"

definition finish_startup :: "agy_place \<Rightarrow> agy_place \<times> unit res" where
  "finish_startup s =
     (case s of (r, c) \<Rightarrow>
        let r1 = r\<lparr>ar_native := as_conversation (ar_stream r)\<rparr>
        in if ar_native r1 = [] then (agy_stop (r1, c), Inl ''agy did not report a conversation id during startup'')
           else ((r1, c), Inr ()))"

text \<open>The wait ends when the conversation was named, when the process is gone or at the deadline.\<close>

definition agy_start :: "codec \<Rightarrow> string \<Rightarrow> string \<Rightarrow> event list \<Rightarrow> agy_place \<Rightarrow> agy_place \<times> unit res" where
  "agy_start J now native_id history s =
     (case s of (r0, c0) \<Rightarrow>
        let r = r0\<lparr>ar_stopping := False, ar_seed := agy_opening J history r0\<rparr>;
            c = cli_emit (agy_announce now r0 @ approximated now r0) c0
        in case cli_start \<lparr>sa_argv = agy_argv native_id r, sa_env = [], sa_cwd = cf_cwd (ar_config r)\<rparr> c of
             (c1, Inl err) \<Rightarrow> ((r, c1), Inl (''could not start agy: '' @ err))
           | (c1, Inr p) \<Rightarrow>
               (case agy_lines J (fst (cl_wait c1 (cl_tick c1))) r of
                  (r1, es) \<Rightarrow> finish_startup (r1\<lparr>ar_proc := Some p\<rparr>, cli_emit es (cli_next c1))))"

definition agy_seeded :: "agy_place \<Rightarrow> bool" where
  "agy_seeded s \<longleftrightarrow> ar_seed (fst s) = []"

definition agy_alive :: "nat \<Rightarrow> agy_place \<Rightarrow> bool" where
  "agy_alive n s = (case s of (r, c) \<Rightarrow> ar_proc r \<noteq> None \<and> cl_alive c n)"

definition agy_missed :: "string \<Rightarrow> string \<Rightarrow> string" where
  "agy_missed missed seed = (if missed = [] then seed else if seed = [] then missed else seed @ blank_line @ missed)"

definition agy_catch_up :: "codec \<Rightarrow> nat \<Rightarrow> event list \<Rightarrow> agy_place \<Rightarrow> agy_place \<times> bool" where
  "agy_catch_up J n history s =
     (case s of (r, c) \<Rightarrow>
        let r1 = r\<lparr>ar_seed := agy_missed (flatten J history SEED_HEADER) (ar_seed r)\<rparr>
        in ((r1, c), agy_alive n (r1, c)))"

definition agy_message :: "string \<Rightarrow> string \<Rightarrow> string" where
  "agy_message seed t = (if seed = [] then t else seed @ blank_line @ ''---'' @ blank_line @ t)"

definition agy_send :: "codec \<Rightarrow> string \<Rightarrow> agy_place \<Rightarrow> agy_place \<times> delivery res" where
  "agy_send J t s =
     (case s of (r, c) \<Rightarrow>
        (case ar_proc r of
           None \<Rightarrow> (s, Inl ''agy is not running'')
         | Some p \<Rightarrow>
             (case cli_write (agy_user_line J (agy_message (ar_seed r) t)) p c of
                (p1, c1, ok) \<Rightarrow>
                  ((r\<lparr>ar_proc := Some p1, ar_seed := []\<rparr>, c1), if ok then Inr NextTurn else Inl ''agy would not take the message''))))"

section \<open>What it is told\<close>

datatype agy_do = Missed "event list" | Says string

fun agy_run :: "codec \<Rightarrow> agy_do list \<Rightarrow> agy_place \<Rightarrow> agy_place \<times> delivery res list" where
  "agy_run J [] s = (s, [])"
| "agy_run J (Missed h # ds) s = agy_run J ds (fst (agy_catch_up J (cl_tick (snd s)) h s))"
| "agy_run J (Says t # ds) s =
     (case agy_send J t s of (s1, x) \<Rightarrow> (case agy_run J ds s1 of (s2, xs) \<Rightarrow> (s2, x # xs)))"

text \<open>The pieces of history a message has in front of it, and those that still wait for one.\<close>

definition piece :: "codec \<Rightarrow> event list \<Rightarrow> string list" where
  "piece J h = (let missed = flatten J h SEED_HEADER in if missed = [] then [] else [missed])"

fun tellings :: "codec \<Rightarrow> string list \<Rightarrow> agy_do list \<Rightarrow> (string list \<times> string) list" where
  "tellings J ps [] = []"
| "tellings J ps (Missed h # ds) = tellings J (ps @ piece J h) ds"
| "tellings J ps (Says t # ds) = (ps, t) # tellings J [] ds"

fun untold :: "codec \<Rightarrow> string list \<Rightarrow> agy_do list \<Rightarrow> string list" where
  "untold J ps [] = ps"
| "untold J ps (Missed h # ds) = untold J (ps @ piece J h) ds"
| "untold J ps (Says t # ds) = untold J [] ds"

definition missed_all :: "codec \<Rightarrow> agy_do list \<Rightarrow> string list" where
  "missed_all J ds = concat (map (\<lambda>d. case d of Missed h \<Rightarrow> piece J h | Says _ \<Rightarrow> []) ds)"

definition said_all :: "agy_do list \<Rightarrow> string list" where
  "said_all ds = concat (map (\<lambda>d. case d of Missed _ \<Rightarrow> [] | Says t \<Rightarrow> [t]) ds)"

definition telling_line :: "codec \<Rightarrow> string list \<times> string \<Rightarrow> string" where
  "telling_line J x = agy_user_line J (agy_message (join blank_line (fst x)) (snd x))"

lemma tellings_once: "concat (map fst (tellings J ps ds)) @ untold J ps ds = ps @ missed_all J ds" "map snd (tellings J ps ds) = said_all ds"
  by (induction J ps ds rule: tellings.induct) (auto simp: missed_all_def said_all_def)

lemma join_nonempty: "[] \<notin> set ps \<Longrightarrow> ps \<noteq> [] \<Longrightarrow> join sep ps \<noteq> []"
  by (induction sep ps rule: join.induct) auto

lemma join_missed:
  assumes "[] \<notin> set ps"
  shows "agy_missed (flatten J h SEED_HEADER) (join blank_line ps) = join blank_line (ps @ piece J h)" "[] \<notin> set (ps @ piece J h)"
  using assms join_nonempty[OF assms] by (cases "ps = []"; auto simp: agy_missed_def piece_def Let_def join_snoc)+

definition refused :: "delivery res" where
  "refused = Inl ''agy would not take the message''"

lemma agy_run_closed:
  assumes "ar_proc r = Some p" and "\<not> pi_open p" and "ar_seed r = join blank_line ps" and "[] \<notin> set ps"
    and "agy_run J ds (r, c) = ((r1, c1), xs)"
  shows "ar_proc r1 = Some p \<and> xs = replicate (length (tellings J ps ds)) refused \<and> ar_seed r1 = join blank_line (untold J ps ds)"
  using assms
proof (induction J ps ds arbitrary: r c xs rule: tellings.induct)
  case (2 J ps h ds)
  let ?r = "r\<lparr>ar_seed := join blank_line (ps @ piece J h)\<rparr>"
  have "agy_run J ds (?r, c) = ((r1, c1), xs)" using "2.prems"(5) join_missed(1)[OF "2.prems"(4)] by (simp add: agy_catch_up_def Let_def "2.prems"(3))
  from "2.IH"[OF _ "2.prems"(2) _ join_missed(2)[OF "2.prems"(4)] this] "2.prems"(1) show ?case by simp
next
  case (3 J ps t ds)
  let ?r = "r\<lparr>ar_proc := Some p, ar_seed := []\<rparr>"
  obtain ys where "agy_run J ds (?r, cli_next c) = ((r1, c1), ys)" "xs = refused # ys"
    using "3.prems" by (auto simp: agy_send_def cli_write_def send_line_def refused_def split: prod.splits)
  then show ?case using "3.IH"[OF _ "3.prems"(2), of ?r "cli_next c" ys] by simp
qed simp

lemma agy_run_tells:
  assumes "ar_proc r = Some p" and "ar_seed r = join blank_line ps" and "[] \<notin> set ps" and "agy_run J ds (r, c) = ((r1, c1), xs)"
  shows "\<exists>k p1 torn. k \<le> length (tellings J ps ds) \<and> ar_proc r1 = Some p1
    \<and> xs = replicate k (Inr NextTurn) @ replicate (length (tellings J ps ds) - k) refused
    \<and> pi_bytes p1 = pi_bytes p @ whole_lines (map (telling_line J) (take k (tellings J ps ds))) @ torn
    \<and> (torn = [] \<or> k < length (tellings J ps ds) \<and> prefix torn (telling_line J (tellings J ps ds ! k) @ [newline]))
    \<and> ar_seed r1 = join blank_line (untold J ps ds)"
  using assms
proof (induction J ps ds arbitrary: r c p xs rule: tellings.induct)
  case (1 J ps)
  then show ?case by (simp add: whole_lines_def)
next
  case (2 J ps h ds)
  let ?r = "r\<lparr>ar_seed := join blank_line (ps @ piece J h)\<rparr>"
  have "agy_run J ds (?r, c) = ((r1, c1), xs)" using "2.prems"(4) join_missed(1)[OF "2.prems"(3)] by (simp add: agy_catch_up_def Let_def "2.prems"(2))
  from "2.IH"[OF _ _ join_missed(2)[OF "2.prems"(3)] this] "2.prems"(1) show ?case by simp
next
  case (3 J ps t ds)
  let ?l = "telling_line J (ps, t)"
  obtain p2 c2 ok where w: "cli_write ?l p c = (p2, c2, ok)" by (metis prod_cases3)
  let ?r = "r\<lparr>ar_proc := Some p2, ar_seed := []\<rparr>"
  obtain ys where y: "agy_run J ds (?r, c2) = ((r1, c1), ys)" "xs = (if ok then Inr NextTurn else refused) # ys"
    using "3.prems" w by (auto simp: agy_send_def telling_line_def refused_def split: prod.splits)
  show ?case
  proof (cases ok)
    case True
    then have b: "pi_bytes p2 = pi_bytes p @ ?l @ [newline]" using cli_write_facts[OF w] by simp
    from "3.IH"[of ?r p2 c2 ys] y(1) obtain k p1 torn where k: "k \<le> length (tellings J [] ds)" "ar_proc r1 = Some p1"
      "ys = replicate k (Inr NextTurn) @ replicate (length (tellings J [] ds) - k) refused"
      "pi_bytes p1 = pi_bytes p2 @ whole_lines (map (telling_line J) (take k (tellings J [] ds))) @ torn"
      "torn = [] \<or> k < length (tellings J [] ds) \<and> prefix torn (telling_line J (tellings J [] ds ! k) @ [newline])"
      "ar_seed r1 = join blank_line (untold J [] ds)" by auto
    show ?thesis by (rule exI[of _ "Suc k"], rule exI[of _ p1], rule exI[of _ torn]) (use k y(2) True b in \<open>auto simp: whole_lines_def\<close>)
  next
    case False
    then have c: "\<not> pi_open p2" using cli_write_facts[OF w] by simp
    obtain torn where torn: "pi_bytes p2 = pi_bytes p @ torn" "prefix torn (?l @ [newline])"
      using cli_write_part[OF w] by blast
    have "ar_proc r1 = Some p2 \<and> ys = replicate (length (tellings J [] ds)) refused \<and> ar_seed r1 = join blank_line (untold J [] ds)"
      by (rule agy_run_closed[of ?r p2 "[]" J ds c2]) (use c y(1) in simp_all)
    then show ?thesis using torn y(2) False by (intro exI[of _ 0] exI[of _ p2] exI[of _ torn]) (simp add: whole_lines_def)
  qed
qed


text \<open>A prompt waits as the opening; one message goes out, then the pipe breaks in the middle of another.\<close>

definition demo_agy :: agy_place where
  "demo_agy = ((agy_runner_new (config_default ''/w''))\<lparr>ar_proc := Some fresh_pipe, ar_seed := ''be terse''\<rparr>,
     \<lparr>cl_break = (\<lambda>n. if n = 0 then None else Some 1), cl_wait = (\<lambda>_. ([], [])), cl_alive = (\<lambda>_. True), cl_spawn = (\<lambda>_. None),
      cl_tick = 0, cl_files = blank_world, cl_started = [], cl_asked = [], cl_emitted = []\<rparr>)"


end
