(* ===== verification/Provider_Runners.thy ===== *)
theory Provider_Runners
  imports Claude_Runner Codex_Runner Agy_Runner Chat_Confined
begin

text \<open>
  \<open>runner\<close> of \<open>providers/mod.rs\<close>: the runners of the three providers behind the trait \<open>Runner\<close>, as the
  \<open>runner_ops\<close> the conductor is given. A name of its own may belong to a double of the tests, whose
  operations are the argument \<open>D\<close>. What the trait does by default is written out.
\<close>

datatype 'd provider_runner = Claude_Run claude_place | Codex_Run rental | Agy_Run agy_place | Double_Run 'd

definition lift_run :: "('a \<Rightarrow> 'd provider_runner) \<Rightarrow> 'a \<times> 'b \<Rightarrow> 'd provider_runner \<times> 'b" where
  "lift_run k x = (k (fst x), snd x)"

text \<open>The clock, the outside of a process and of the shared servers as they are when a runner is made.\<close>

definition make_runner :: "(int \<Rightarrow> cli) \<Rightarrow> (int \<Rightarrow> codex_world) \<Rightarrow> 'd runner_ops \<Rightarrow> string \<Rightarrow> string \<Rightarrow> config \<Rightarrow> int \<Rightarrow> 'd provider_runner option" where
  "make_runner cw xw D name sid cf ep =
     (if name = ''claude-code-cli'' then Some (Claude_Run (claude_runner_new cf, cw ep))
      else if name = ''codex-app-server'' then Some (Codex_Run (codex_runner_new cf (nat ep), xw ep))
      else if name = ''antigravity-cli'' then Some (Agy_Run (agy_runner_new cf, cw ep))
      else map_option Double_Run (rn_make D name sid cf ep))"

definition provider_ops :: "codec \<Rightarrow> (nat \<Rightarrow> string) \<Rightarrow> (int \<Rightarrow> cli) \<Rightarrow> (int \<Rightarrow> codex_world) \<Rightarrow> 'd runner_ops \<Rightarrow> 'd provider_runner runner_ops" where
  "provider_ops J clk cw xw D = \<lparr>
     rn_name = (\<lambda>x. case x of Claude_Run _ \<Rightarrow> CLAUDE | Codex_Run _ \<Rightarrow> CODEX | Agy_Run _ \<Rightarrow> AGY | Double_Run d \<Rightarrow> rn_name D d),
     rn_native_id = (\<lambda>x. case x of Claude_Run s \<Rightarrow> cr_native (fst s) | Codex_Run s \<Rightarrow> xr_thread (fst s) | Agy_Run s \<Rightarrow> ar_native (fst s)
       | Double_Run d \<Rightarrow> rn_native_id D d),
     rn_generation = (\<lambda>x. case x of Codex_Run s \<Rightarrow> xr_shared (fst s) | Double_Run d \<Rightarrow> rn_generation D d | _ \<Rightarrow> None),
     rn_start = (\<lambda>n native h x. case x of
         Claude_Run s \<Rightarrow> lift_run Claude_Run (claude_start J native h s)
       | Codex_Run s \<Rightarrow> lift_run Codex_Run (codex_start J (clk n) native h s)
       | Agy_Run s \<Rightarrow> lift_run Agy_Run (agy_start J (clk n) native h s)
       | Double_Run d \<Rightarrow> lift_run Double_Run (rn_start D n native h d)),
     rn_seeded = (\<lambda>x. case x of Agy_Run s \<Rightarrow> agy_seeded s | Double_Run d \<Rightarrow> rn_seeded D d | _ \<Rightarrow> True),
     rn_send = (\<lambda>n t x. case x of
         Claude_Run s \<Rightarrow> lift_run Claude_Run (claude_runner_send J t s)
       | Codex_Run s \<Rightarrow> lift_run Codex_Run (codex_send J t s)
       | Agy_Run s \<Rightarrow> lift_run Agy_Run (agy_send J t s)
       | Double_Run d \<Rightarrow> lift_run Double_Run (rn_send D n t d)),
     rn_compact = (\<lambda>n x. case x of
         Codex_Run s \<Rightarrow> lift_run Codex_Run (codex_compact J s)
       | Double_Run d \<Rightarrow> lift_run Double_Run (rn_compact D n d)
       | _ \<Rightarrow> (x, Inr False)),
     rn_retune = (\<lambda>n model effort x. case x of
         Claude_Run s \<Rightarrow> lift_run Claude_Run (claude_retune J model effort s)
       | Codex_Run s \<Rightarrow> lift_run Codex_Run (codex_retune model effort s)
       | Agy_Run s \<Rightarrow> (x, False)
       | Double_Run d \<Rightarrow> lift_run Double_Run (rn_retune D n model effort d)),
     rn_catch_up = (\<lambda>n h x. case x of
         Claude_Run s \<Rightarrow> (x, h = [])
       | Codex_Run s \<Rightarrow> lift_run Codex_Run (codex_catch_up J h s)
       | Agy_Run s \<Rightarrow> lift_run Agy_Run (agy_catch_up J n h s)
       | Double_Run d \<Rightarrow> lift_run Double_Run (rn_catch_up D n h d)),
     rn_interrupt = (\<lambda>n x. case x of
         Claude_Run s \<Rightarrow> Claude_Run (claude_interrupt J s)
       | Codex_Run s \<Rightarrow> Codex_Run (codex_interrupt J s)
       | Agy_Run s \<Rightarrow> x
       | Double_Run d \<Rightarrow> Double_Run (rn_interrupt D n d)),
     rn_stop = (\<lambda>n x. case x of
         Claude_Run s \<Rightarrow> Claude_Run (claude_stop s)
       | Codex_Run s \<Rightarrow> Codex_Run (codex_stop s)
       | Agy_Run s \<Rightarrow> Agy_Run (agy_stop s)
       | Double_Run d \<Rightarrow> Double_Run (rn_stop D n d)),
     rn_alive = (\<lambda>n x. case x of Claude_Run s \<Rightarrow> claude_alive n s | Codex_Run s \<Rightarrow> codex_alive s | Agy_Run s \<Rightarrow> agy_alive n s
       | Double_Run d \<Rightarrow> rn_alive D n d),
     rn_parkable = (\<lambda>n x. case x of Claude_Run s \<Rightarrow> claude_alive n s | Codex_Run s \<Rightarrow> codex_alive s | Agy_Run s \<Rightarrow> agy_alive n s
       | Double_Run d \<Rightarrow> rn_parkable D n d),
     rn_make = make_runner cw xw D\<rparr>"

text \<open>The providers keep the names they were made for: what \<open>Chat_Confined\<close> asks of the processes holds of these.\<close>

lemma provider_ops_named:
  assumes "named_ops D"
  shows "named_ops (provider_ops J clk cw xw D)"
proof -
  let ?P = "provider_ops J clk cw xw D"
  have d: "rn_make D p sid cf ep = Some d \<Longrightarrow> rn_name D d = p" "rn_name D (fst (rn_start D n native h d)) = rn_name D d"
    "rn_name D (fst (rn_send D n t d)) = rn_name D d" "rn_name D (fst (rn_compact D n d)) = rn_name D d"
    "rn_name D (fst (rn_retune D n m e d)) = rn_name D d" "rn_name D (fst (rn_catch_up D n h d)) = rn_name D d" for p sid cf ep d n native h t m e
    using assms by (simp_all add: named_ops_def)
  have "rn_make ?P p sid cf ep = Some r \<Longrightarrow> rn_name ?P r = p" for p sid cf ep r
    by (auto simp: provider_ops_def make_runner_def CLAUDE_def CODEX_def AGY_def d(1) split: if_splits)
  moreover have "rn_name ?P (fst (rn_start ?P n native h r)) = rn_name ?P r" "rn_name ?P (fst (rn_send ?P n t r)) = rn_name ?P r"
    "rn_name ?P (fst (rn_compact ?P n r)) = rn_name ?P r" "rn_name ?P (fst (rn_retune ?P n m e r)) = rn_name ?P r"
    "rn_name ?P (fst (rn_catch_up ?P n h r)) = rn_name ?P r" for n native h r t m e
    by (cases r; simp add: provider_ops_def lift_run_def d)+
  ultimately show ?thesis unfolding named_ops_def by blast
qed

end
