(* ===== verification/Provider_Login.thy ===== *)
theory Provider_Login
  imports Shell_Env
begin

text \<open>
  \<open>providers/login.rs\<close>: driving the login of a provider's own command line. One login per provider is in
  flight, in a table every thread shares; what the threads do with it is the step relation
  \<open>login_step\<close>. A login is named by its token.
\<close>

section \<open>Texts\<close>

definition URL_ENDS :: "char set" where
  "URL_ENDS = {CHR 0x22, CHR 0x27, CHR ''<'', CHR ''>'', CHR ''('', CHR '')'', CHR '']''}"

definition url_at :: "string \<Rightarrow> nat \<Rightarrow> string" where
  "url_at line k = takeWhile (\<lambda>c. \<not> is_ws c \<and> c \<notin> URL_ENDS) (drop k line)"

definition first_url :: "string \<Rightarrow> string option" where
  "first_url line =
     (case (case find_str ''http://'' line of Some k \<Rightarrow> Some k | None \<Rightarrow> find_str ''https://'' line) of
        None \<Rightarrow> None
      | Some k \<Rightarrow> let url = url_at line k in if 8 < length url then Some url else None)"

text \<open>
  An address over TLS that comes first in a line loses to a later one without: the search is for
  \<open>http://\<close> and only then for \<open>https://\<close>.
\<close>

lemma first_url_not_first: "first_url ''open https://a.example/login or http://localhost:1455'' = Some ''http://localhost:1455''"
  by code_simp

text \<open>What \<open>begin\<close> answers, from the lines that were heard until the first address or the deadline.\<close>

definition begin_answer :: "string list \<Rightarrow> string list \<Rightarrow> string" where
  "begin_answer argv heard =
     (case List.map_filter first_url heard of
        url # _ \<Rightarrow> url
      | [] \<Rightarrow> trim (join [newline] heard @ [newline, newline] @ ''omni could not drive this login. Run it yourself: '' @ join '' '' argv))"

section \<open>Logins in flight\<close>

type_synonym flights = "(string \<times> nat) list"

definition take_login :: "string \<Rightarrow> nat option \<Rightarrow> flights \<Rightarrow> flights \<times> nat option" where
  "take_login p tok fl =
     (case bt_get fl p of
        Some t \<Rightarrow> if tok = None \<or> tok = Some t then (bt_remove p fl, Some t) else (fl, None)
      | None \<Rightarrow> (fl, None))"

text \<open>
  How far the thread that began a login has come: its process is up, the login is in the table and the
  process has not been looked at, the login it replaced is still to be stopped, or it waits.
\<close>

datatype login_phase = Unborn | Booting string | Listed string "nat option" | Looked string "nat option" | Settled string

record logins =
  lg_flight :: flights
  lg_epoch :: nat
  lg_next :: nat
  lg_alive :: "nat \<Rightarrow> bool"
  lg_expires :: "nat \<Rightarrow> int"
  lg_from :: "nat \<Rightarrow> nat"
  lg_phase :: "nat \<Rightarrow> login_phase"
  lg_hands :: "nat set"
  lg_draining :: nat

definition logins_start :: logins where
  "logins_start = \<lparr>lg_flight = [], lg_epoch = 0, lg_next = 1, lg_alive = (\<lambda>_. False), lg_expires = (\<lambda>_. 0), lg_from = (\<lambda>_. 0),
     lg_phase = (\<lambda>_. Unborn), lg_hands = {}, lg_draining = 0\<rparr>"

definition to_hands :: "nat option \<Rightarrow> logins \<Rightarrow> logins" where
  "to_hands x s = s\<lparr>lg_hands := lg_hands s \<union> set_option x\<rparr>"

definition in_phase :: "nat \<Rightarrow> login_phase \<Rightarrow> logins \<Rightarrow> logins" where
  "in_phase t ph s = s\<lparr>lg_phase := (lg_phase s)(t := ph)\<rparr>"

definition do_take :: "string \<Rightarrow> nat option \<Rightarrow> logins \<Rightarrow> logins \<times> nat option" where
  "do_take p tok s = (case take_login p tok (lg_flight s) of (fl, x) \<Rightarrow> (s\<lparr>lg_flight := fl\<rparr>, x))"

definition begin_spawn :: "string \<Rightarrow> int \<Rightarrow> logins \<Rightarrow> logins" where
  "begin_spawn p until s =
     (let t = lg_next s in
      in_phase t (Booting p) (s\<lparr>lg_next := Suc t, lg_alive := (lg_alive s)(t := True), lg_expires := (lg_expires s)(t := until),
        lg_from := (lg_from s)(t := lg_epoch s)\<rparr>))"

definition track_install :: "string \<Rightarrow> nat \<Rightarrow> logins \<Rightarrow> logins" where
  "track_install p t s =
     (if lg_epoch s \<noteq> lg_from s t then to_hands (Some t) (in_phase t (Settled p) s)
      else in_phase t (Listed p (bt_get (lg_flight s) p)) (s\<lparr>lg_flight := bt_insert p t (lg_flight s)\<rparr>))"

definition track_look :: "string \<Rightarrow> nat option \<Rightarrow> nat \<Rightarrow> logins \<Rightarrow> logins" where
  "track_look p old t s = in_phase t (Looked p old) (if lg_alive s t then s else fst (do_take p (Some t) s))"

definition track_retire :: "string \<Rightarrow> nat option \<Rightarrow> nat \<Rightarrow> logins \<Rightarrow> logins" where
  "track_retire p old t s = to_hands old (in_phase t (Settled p) s)"

definition begin_gives_up :: "string \<Rightarrow> nat \<Rightarrow> logins \<Rightarrow> logins" where
  "begin_gives_up p t s = to_hands (Some t) (fst (do_take p (Some t) s))"

definition complete_take :: "string \<Rightarrow> logins \<Rightarrow> logins" where
  "complete_take p s = (case do_take p None s of (s1, x) \<Rightarrow> to_hands x s1)"

definition login_spent :: "int \<Rightarrow> logins \<Rightarrow> string \<times> nat \<Rightarrow> bool" where
  "login_spent now s x \<longleftrightarrow> lg_expires s (snd x) \<le> now \<or> \<not> lg_alive s (snd x)"

definition reap_expired :: "int \<Rightarrow> logins \<Rightarrow> logins" where
  "reap_expired now s =
     s\<lparr>lg_flight := filter (\<lambda>x. \<not> login_spent now s x) (lg_flight s), lg_hands := lg_hands s \<union> snd ` set (filter (login_spent now s) (lg_flight s))\<rparr>"

definition shutdown_epoch :: "logins \<Rightarrow> logins" where
  "shutdown_epoch s = s\<lparr>lg_epoch := Suc (lg_epoch s), lg_draining := Suc (lg_draining s)\<rparr>"

definition shutdown_drain :: "logins \<Rightarrow> logins" where
  "shutdown_drain s = s\<lparr>lg_flight := [], lg_hands := lg_hands s \<union> snd ` set (lg_flight s), lg_draining := lg_draining s - 1\<rparr>"

definition stop_login :: "nat \<Rightarrow> logins \<Rightarrow> logins" where
  "stop_login t s = s\<lparr>lg_alive := (lg_alive s)(t := False), lg_hands := lg_hands s - {t}\<rparr>"

inductive login_step :: "logins \<Rightarrow> logins \<Rightarrow> bool" where
  spawned: "login_step s (begin_spawn p until s)"
| tracked: "lg_phase s t = Booting p \<Longrightarrow> login_step s (track_install p t s)"
| looked: "lg_phase s t = Listed p old \<Longrightarrow> login_step s (track_look p old t s)"
| retired: "lg_phase s t = Looked p old \<Longrightarrow> login_step s (track_retire p old t s)"
| gave_up: "lg_phase s t = Settled p \<Longrightarrow> login_step s (begin_gives_up p t s)"
| died: "login_step s (s\<lparr>lg_alive := (lg_alive s)(t := False)\<rparr>)"
| exit_heard: "\<not> lg_alive s t \<Longrightarrow> lg_phase s t \<noteq> Unborn \<Longrightarrow> login_step s (fst (do_take p (Some t) s))"
| completed: "login_step s (complete_take p s)"
| reaped: "login_step s (reap_expired now s)"
| shut: "login_step s (shutdown_epoch s)"
| drained: "0 < lg_draining s \<Longrightarrow> login_step s (shutdown_drain s)"
| stopped: "t \<in> lg_hands s \<Longrightarrow> login_step s (stop_login t s)"

section \<open>Nobody is forgotten\<close>

definition listed :: "nat \<Rightarrow> logins \<Rightarrow> bool" where
  "listed t s \<longleftrightarrow> (\<exists>p. bt_get (lg_flight s) p = Some t)"

definition superseded :: "nat \<Rightarrow> logins \<Rightarrow> bool" where
  "superseded t s \<longleftrightarrow> (\<exists>u p. lg_phase s u = Listed p (Some t) \<or> lg_phase s u = Looked p (Some t))"

definition owned :: "nat \<Rightarrow> logins \<Rightarrow> bool" where
  "owned t s \<longleftrightarrow> (\<exists>p. lg_phase s t = Booting p) \<or> listed t s \<or> t \<in> lg_hands s \<or> superseded t s"

definition login_inv :: "logins \<Rightarrow> bool" where
  "login_inv s \<longleftrightarrow> bt_wf (lg_flight s) \<and> (\<forall>t. lg_alive s t \<longrightarrow> owned t s) \<and> (\<forall>t. lg_next s \<le> t \<longrightarrow> lg_phase s t = Unborn \<and> \<not> lg_alive s t \<and> \<not> listed t s)
     \<and> (\<forall>t. listed t s \<longrightarrow> lg_from s t = lg_epoch s \<or> 0 < lg_draining s)"

lemma bt_get_in: "bt_wf m \<Longrightarrow> bt_get m k = Some v \<longleftrightarrow> (k, v) \<in> set m"
  by (induction m) (auto simp: bt_get_def bt_wf_Cons)

text \<open>Taking a login out: what is on the table afterwards, and what the taker holds.\<close>

lemma do_take_facts:
  assumes "bt_wf (lg_flight s)" and "do_take p tok s = (s1, x)"
  shows "bt_wf (lg_flight s1)" "\<And>t. listed t s1 \<Longrightarrow> listed t s" "\<And>t. listed t s \<Longrightarrow> \<not> listed t s1 \<Longrightarrow> x = Some t"
    "\<And>t. x = Some t \<Longrightarrow> tok = None \<or> tok = Some t" "s1 = s\<lparr>lg_flight := lg_flight s1\<rparr>"
proof -
  have s1: "s1 = s\<lparr>lg_flight := fst (take_login p tok (lg_flight s))\<rparr>" "x = snd (take_login p tok (lg_flight s))"
    using assms(2) by (auto simp: do_take_def split: prod.splits)
  show "s1 = s\<lparr>lg_flight := lg_flight s1\<rparr>" by (simp add: s1(1))
  have "bt_wf (lg_flight s1) \<and> (\<forall>t. listed t s1 \<longrightarrow> listed t s) \<and> (\<forall>t. listed t s \<longrightarrow> \<not> listed t s1 \<longrightarrow> x = Some t)
    \<and> (\<forall>t. x = Some t \<longrightarrow> tok = None \<or> tok = Some t)"
  proof (cases "\<exists>t. bt_get (lg_flight s) p = Some t \<and> (tok = None \<or> tok = Some t)")
    case True
    then obtain t where t: "bt_get (lg_flight s) p = Some t" "tok = None \<or> tok = Some t" by blast
    have e: "take_login p tok (lg_flight s) = (bt_remove p (lg_flight s), Some t)" using t by (simp add: take_login_def)
    have "x = Some t" "bt_wf (lg_flight s1)" using assms(1) by (simp_all add: s1 e)
    moreover have l: "listed u s1 \<longleftrightarrow> (\<exists>q. q \<noteq> p \<and> bt_get (lg_flight s) q = Some u)" for u by (auto simp: listed_def s1(1) e)
    moreover have "u = t" if "listed u s" "\<not> listed u s1" for u
    proof -
      obtain q where "bt_get (lg_flight s) q = Some u" using \<open>listed u s\<close> by (auto simp: listed_def)
      then show ?thesis using t(1) \<open>\<not> listed u s1\<close> l by (cases "q = p") auto
    qed
    ultimately show ?thesis using t(2) by (auto simp: listed_def)
  next
    case False
    then have "take_login p tok (lg_flight s) = (lg_flight s, None)" by (auto simp: take_login_def split: option.splits)
    then show ?thesis using assms(1) by (simp add: s1)
  qed
  then show "bt_wf (lg_flight s1)" "\<And>t. listed t s1 \<Longrightarrow> listed t s" "\<And>t. listed t s \<Longrightarrow> \<not> listed t s1 \<Longrightarrow> x = Some t"
    "\<And>t. x = Some t \<Longrightarrow> tok = None \<or> tok = Some t" by blast+
qed

lemma login_invD:
  assumes "login_inv s"
  shows "bt_wf (lg_flight s)" "lg_alive s t \<Longrightarrow> owned t s" "lg_next s \<le> t \<Longrightarrow> lg_phase s t = Unborn" "lg_next s \<le> t \<Longrightarrow> \<not> lg_alive s t"
    "lg_next s \<le> t \<Longrightarrow> \<not> listed t s" "listed t s \<Longrightarrow> lg_from s t = lg_epoch s \<or> 0 < lg_draining s"
  using assms unfolding login_inv_def by simp_all

lemma login_invI:
  assumes "bt_wf (lg_flight s)" and "\<And>t. lg_alive s t \<Longrightarrow> owned t s"
    and "\<And>t. lg_next s \<le> t \<Longrightarrow> lg_phase s t = Unborn \<and> \<not> lg_alive s t \<and> \<not> listed t s"
    and "\<And>t. listed t s \<Longrightarrow> lg_from s t = lg_epoch s \<or> 0 < lg_draining s"
  shows "login_inv s"
  using assms unfolding login_inv_def by simp

text \<open>A step that takes the login \<open>x\<close> out of the table is safe when \<open>x\<close> is dead or comes into somebody's hands.\<close>

lemma inv_take:
  assumes "login_inv s" and "do_take p tok s = (s1, x)" and "\<And>t. x = Some t \<Longrightarrow> \<not> lg_alive s t \<or> t \<in> H"
  shows "login_inv (s1\<lparr>lg_hands := lg_hands s1 \<union> H\<rparr>)"
proof -
  note d = login_invD[OF assms(1)]
  note f = do_take_facts[OF d(1) assms(2)]
  obtain fl where s1: "s1 = s\<lparr>lg_flight := fl\<rparr>" using f(5) by blast
  let ?s = "s1\<lparr>lg_hands := lg_hands s1 \<union> H\<rparr>"
  have l: "listed t ?s = listed t s1" for t by (simp add: listed_def)
  have "owned t ?s" if "lg_alive ?s t" for t
  proof -
    have "owned t s" using that d(2) by (simp add: s1)
    moreover have "t \<in> H" if "listed t s" "\<not> listed t s1" using f(3)[OF that] assms(3) \<open>lg_alive ?s t\<close> by (auto simp: s1)
    ultimately show ?thesis using l by (auto simp: owned_def superseded_def s1)
  qed
  moreover have "\<not> listed t ?s" if "lg_next s \<le> t" for t using d(5)[OF that] f(2)[of t] by (auto simp only: l)
  moreover have "lg_from s t = lg_epoch s \<or> 0 < lg_draining s" if "listed t ?s" for t using d(6)[OF f(2)] that by (simp only: l)
  moreover have "bt_wf (lg_flight ?s)" using f(1) by simp
  ultimately show ?thesis using d(3,4) unfolding login_inv_def by (simp add: s1)
qed

lemma inv_take_to: "login_inv s \<Longrightarrow> do_take p tok s = (s1, x) \<Longrightarrow> login_inv (to_hands x s1)"
  using inv_take[of s p tok s1 x "set_option x"] by (simp add: to_hands_def)

lemma inv_take_dead: "login_inv s \<Longrightarrow> \<not> lg_alive s t \<Longrightarrow> login_inv (fst (do_take p (Some t) s))"
  using inv_take[of s p "Some t" _ _ "{}"] do_take_facts(4)[OF login_invD(1)] by (cases "do_take p (Some t) s") fastforce

text \<open>The thread of \<open>t\<close> goes on: what it was bound to stop goes to the hands \<open>H\<close>.\<close>

lemma inv_phase:
  assumes "login_inv s" and "lg_phase s t \<noteq> Unborn" and "\<And>p. lg_phase s t = Booting p \<Longrightarrow> t \<in> H \<or> listed t s"
    and "\<And>p u. lg_phase s t = Listed p (Some u) \<or> lg_phase s t = Looked p (Some u) \<Longrightarrow> ph = Looked p (Some u) \<or> u \<in> H"
    and "ph \<noteq> Unborn"
  shows "login_inv (s\<lparr>lg_phase := (lg_phase s)(t := ph), lg_hands := lg_hands s \<union> H\<rparr>)"
proof -
  note d = login_invD[OF assms(1)]
  let ?s = "s\<lparr>lg_phase := (lg_phase s)(t := ph), lg_hands := lg_hands s \<union> H\<rparr>"
  have l: "listed u ?s = listed u s" for u by (simp add: listed_def)
  have t: "t < lg_next s" using d(3)[of t] assms(2) by (cases "lg_next s \<le> t") auto
  have sup: "superseded u ?s \<or> u \<in> H" if sp: "superseded u s" for u
  proof -
    obtain v p where v: "lg_phase s v = Listed p (Some u) \<or> lg_phase s v = Looked p (Some u)" using sp by (auto simp: superseded_def)
    show ?thesis
    proof (cases "v = t")
      case True
      then show ?thesis using assms(4)[of p u] v by (auto simp: superseded_def)
    next
      case False
      then show ?thesis using v by (auto simp: superseded_def intro: exI[of _ v])
    qed
  qed
  have "owned u ?s" if "lg_alive s u" for u
    using d(2)[OF that] sup[of u] assms(3) l by (cases "u = t") (auto simp: owned_def)
  then show ?thesis using d t unfolding login_inv_def by (auto simp: l)
qed

lemma bt_wf_filter: "bt_wf m \<Longrightarrow> bt_wf (filter P m)"
  by (induction m) (auto simp: bt_wf_Cons)

lemma login_inv_step:
  assumes "login_step s s1" and "login_inv s"
  shows "login_inv s1"
  using assms(1)
proof cases
  case (spawned p until)
  note d = login_invD[OF assms(2)]
  have n: "lg_phase s (lg_next s) = Unborn" "\<not> listed (lg_next s) s" using d(3,5)[of "lg_next s"] by simp_all
  have l: "listed u s1 = listed u s" for u by (simp add: spawned begin_spawn_def in_phase_def listed_def Let_def)
  have "superseded u s \<Longrightarrow> superseded u s1" for u
    using n(1) by (auto simp: spawned begin_spawn_def in_phase_def superseded_def Let_def) (metis login_phase.distinct)+
  then have "owned u s1" if "lg_alive s1 u" for u using that d(2)[of u] l
    by (cases "u = lg_next s") (auto simp: spawned begin_spawn_def in_phase_def owned_def Let_def)
  moreover have "lg_from s1 u = lg_epoch s1 \<or> 0 < lg_draining s1" if "listed u s1" for u
    using that d(6)[of u] l n(2) by (cases "u = lg_next s") (auto simp: spawned begin_spawn_def in_phase_def Let_def)
  ultimately show ?thesis using d(1,3,4,5) l unfolding login_inv_def by (auto simp: spawned begin_spawn_def in_phase_def Let_def)
next
  case (tracked t p)
  note d = login_invD[OF assms(2)]
  show ?thesis
  proof (cases "lg_epoch s = lg_from s t")
    case False
    then show ?thesis using inv_phase[OF assms(2), of t "{t}" "Settled p"] tracked
      by (simp add: track_install_def to_hands_def in_phase_def)
  next
    case True
    have t: "t < lg_next s" using d(3)[of t] tracked(2) by (cases "lg_next s \<le> t") auto
    have s1: "s1 = s\<lparr>lg_flight := bt_insert p t (lg_flight s), lg_phase := (lg_phase s)(t := Listed p (bt_get (lg_flight s) p))\<rparr>"
      using tracked True by (simp add: track_install_def in_phase_def)
    have l: "listed u s1 \<longleftrightarrow> u = t \<or> (\<exists>q. q \<noteq> p \<and> bt_get (lg_flight s) q = Some u)" for u by (auto simp: s1 listed_def)
    have "listed u s1 \<or> superseded u s1" if "listed u s" for u
      using that unfolding l by (auto simp: listed_def superseded_def s1)
    moreover have "superseded u s1" if "superseded u s" for u
      using that tracked(2) by (auto simp: superseded_def s1) (metis login_phase.distinct)+
    ultimately have "owned u s1" if "lg_alive s u" for u
      using d(2)[OF that] l by (cases "u = t") (auto simp: owned_def s1)
    moreover have "listed u s1 \<Longrightarrow> u = t \<or> listed u s" for u using l by (auto simp: listed_def)
    moreover have "bt_wf (lg_flight s1)" using d(1) by (simp add: s1)
    ultimately show ?thesis
    proof (intro login_invI)
      fix u
      assume n: "lg_next s1 \<le> u"
      then have "u \<noteq> t" "lg_next s \<le> u" using t by (auto simp: s1)
      then show "lg_phase s1 u = Unborn \<and> \<not> lg_alive s1 u \<and> \<not> listed u s1"
        using d(3,4,5)[of u] \<open>listed u s1 \<Longrightarrow> u = t \<or> listed u s\<close> by (auto simp: s1)
    next
      fix u
      assume "listed u s1"
      then show "lg_from s1 u = lg_epoch s1 \<or> 0 < lg_draining s1"
        using d(6)[of u] True \<open>listed u s1 \<Longrightarrow> u = t \<or> listed u s\<close> by (auto simp: s1)
    qed (simp_all add: s1)
  qed
next
  case (looked t p old)
  let ?s = "if lg_alive s t then s else fst (do_take p (Some t) s)"
  have "login_inv ?s" "lg_phase ?s t = Listed p old" using assms(2) inv_take_dead[of s t p] looked
    by (auto simp: do_take_def split: prod.splits)
  from inv_phase[OF this(1), of t "{}" "Looked p old"] this(2) show ?thesis by (simp add: looked track_look_def in_phase_def)
next
  case (retired t p old)
  then show ?thesis using inv_phase[OF assms(2), of t "set_option old" "Settled p"] by (auto simp: track_retire_def to_hands_def in_phase_def)
next
  case (gave_up t p)
  have "\<not> lg_alive s u \<or> u \<in> {t}" if "snd (do_take p (Some t) s) = Some u" for u
    using do_take_facts(4)[OF login_invD(1)[OF assms(2)], of p "Some t"] that by (cases "do_take p (Some t) s") auto
  then show ?thesis using inv_take[OF assms(2), of p "Some t" _ _ "{t}"] by (cases "do_take p (Some t) s") (simp add: gave_up begin_gives_up_def to_hands_def)
next
  case (died t)
  then show ?thesis using assms(2) by (auto simp: login_inv_def owned_def listed_def superseded_def)
next
  case (exit_heard t p)
  then show ?thesis using inv_take_dead[OF assms(2)] by simp
next
  case (completed p)
  then show ?thesis using inv_take_to[OF assms(2)] by (auto simp: complete_take_def split: prod.splits)
next
  case (reaped now)
  note d = login_invD[OF assms(2)]
  have wf: "bt_wf (lg_flight s1)" using d(1) by (simp add: reaped reap_expired_def bt_wf_filter)
  have l: "listed u s1 \<Longrightarrow> listed u s" for u
    using bt_get_in[OF wf] bt_get_in[OF d(1)] by (auto simp: listed_def reaped reap_expired_def)
  have "u \<in> lg_hands s1" if ls: "listed u s" "\<not> listed u s1" for u
  proof -
    obtain q where q: "(q, u) \<in> set (lg_flight s)" using ls(1) bt_get_in[OF d(1)] by (auto simp: listed_def)
    then have "login_spent now s (q, u)" using ls(2) bt_get_in[OF wf, of q u] by (auto simp: listed_def reaped reap_expired_def)
    then show ?thesis using q by (force simp: reaped reap_expired_def)
  qed
  then have "owned u s1" if "lg_alive s u" for u using d(2)[OF that] by (auto simp: owned_def superseded_def reaped reap_expired_def)
  moreover have "lg_next s1 = lg_next s" "lg_phase s1 = lg_phase s" "lg_alive s1 = lg_alive s" "lg_from s1 = lg_from s"
    "lg_epoch s1 = lg_epoch s" "lg_draining s1 = lg_draining s" by (simp_all add: reaped reap_expired_def)
  ultimately show ?thesis using wf d(3,4,5) d(6)[OF l] l by (intro login_invI) (simp_all, blast)
next
  case shut
  then show ?thesis using assms(2) by (auto simp: login_inv_def owned_def listed_def superseded_def shutdown_epoch_def)
next
  case drained
  note d = login_invD[OF assms(2)]
  have "u \<in> lg_hands s1" if "listed u s" for u using that bt_get_in[OF d(1)] by (force simp: listed_def drained shutdown_drain_def)
  then have "owned u s1" if "lg_alive s u" for u using d(2)[OF that] by (auto simp: owned_def superseded_def drained shutdown_drain_def)
  then show ?thesis using d unfolding login_inv_def by (auto simp: drained shutdown_drain_def listed_def)
next
  case (stopped t)
  then show ?thesis using assms(2) by (auto simp: login_inv_def owned_def listed_def superseded_def stop_login_def)
qed

lemma login_inv_runs: "login_step\<^sup>*\<^sup>* logins_start s \<Longrightarrow> login_inv s"
proof (induction rule: rtranclp_induct)
  case base
  show ?case by (simp add: login_inv_def logins_start_def listed_def)
qed (rule login_inv_step)

text \<open>A login of an epoch that is over, off the table: it never comes back to it.\<close>

definition bygone :: "nat \<Rightarrow> logins \<Rightarrow> bool" where
  "bygone t s \<longleftrightarrow> t < lg_next s \<and> lg_from s t < lg_epoch s \<and> \<not> listed t s"

lemma bygone_step:
  assumes "login_step s s1" and "login_inv s" and "bygone t s"
  shows "bygone t s1"
proof -
  note wf = login_invD(1)[OF assms(2)]
  have tk: "bygone t (fst (do_take p tok s))" for p tok
  proof -
    obtain s2 x where e: "do_take p tok s = (s2, x)" by fastforce
    note f = do_take_facts[OF wf e]
    obtain fl where "s2 = s\<lparr>lg_flight := fl\<rparr>" using f(5) by blast
    then show ?thesis using f(2)[of t] assms(3) by (auto simp: e bygone_def)
  qed
  show ?thesis using assms(1)
  proof cases
    case (tracked u p)
    then show ?thesis using assms(3) by (cases "u = t") (auto simp: track_install_def to_hands_def in_phase_def bygone_def listed_def)
  next
    case (reaped now)
    have "bt_get (filter (\<lambda>x. \<not> login_spent now s x) (lg_flight s)) p \<noteq> Some t" for p
      using bt_get_in[OF bt_wf_filter[OF wf], of "\<lambda>x. \<not> login_spent now s x" p t] bt_get_in[OF wf, of p t] assms(3) by (auto simp: bygone_def listed_def)
    then show ?thesis using assms(3) by (auto simp: reaped reap_expired_def bygone_def listed_def)
  next
    case (completed p)
    then show ?thesis using tk[of p None] by (auto simp: complete_take_def to_hands_def bygone_def listed_def split: prod.splits)
  qed (use assms(3) tk in \<open>auto simp: begin_spawn_def track_look_def track_retire_def begin_gives_up_def to_hands_def in_phase_def Let_def
      shutdown_epoch_def shutdown_drain_def stop_login_def bygone_def listed_def\<close>)
qed

text \<open>
  C27: no login is forgotten. However logins are begun, replaced, completed, swept and shut down at once,
  every child that lives is being started, is on the table, or is in the hands of a thread that stops
  it; there is one login per provider; when no shutdown is under way the table holds only logins that
  were begun after the last one; and one that was begun before it never comes back, even when its
  process was already up and had only to be entered.
\<close>

theorem no_login_forgotten:
  assumes "login_step\<^sup>*\<^sup>* logins_start s"
  shows "(\<forall>t. lg_alive s t \<longrightarrow> owned t s) \<and> distinct (map fst (lg_flight s))
    \<and> (lg_draining s = 0 \<longrightarrow> (\<forall>t. listed t s \<longrightarrow> lg_from s t = lg_epoch s))
    \<and> (\<forall>t s1. t < lg_next s \<and> lg_from s t < lg_epoch s \<and> lg_draining s = 0 \<and> login_step\<^sup>*\<^sup>* s s1 \<longrightarrow> \<not> listed t s1)"
proof -
  have inv: "login_inv s" by (rule login_inv_runs[OF assms])
  note d = login_invD[OF inv]
  have "\<not> listed t s1" if "t < lg_next s" "lg_from s t < lg_epoch s" "lg_draining s = 0" "login_step\<^sup>*\<^sup>* s s1" for t s1
  proof -
    have "bygone t s" using that d(6)[of t] by (auto simp: bygone_def)
    with \<open>login_step\<^sup>*\<^sup>* s s1\<close> have "login_inv s1 \<and> bygone t s1"
      by (induction rule: rtranclp_induct) (auto simp: inv intro: login_inv_step bygone_step)
    then show ?thesis by (simp add: bygone_def)
  qed
  moreover have "distinct (map fst (lg_flight s))" using d(1) by (auto simp: bt_wf_def intro: strict_sorted_imp_sorted dest: strict_sorted_iff[THEN iffD1])
  ultimately show ?thesis using d(2,6) by auto
qed

text \<open>A shutdown comes between the start of a process and its entry in the table.\<close>

definition demo_shut :: logins where
  "demo_shut = shutdown_drain (shutdown_epoch (begin_spawn ''p'' 600 logins_start))"

lemma demo_shut_runs: "login_step\<^sup>*\<^sup>* logins_start demo_shut"
proof -
  have "login_step logins_start (begin_spawn ''p'' 600 logins_start)" by (rule spawned)
  moreover have "login_step (begin_spawn ''p'' 600 logins_start) (shutdown_epoch (begin_spawn ''p'' 600 logins_start))" by (rule shut)
  moreover have "login_step (shutdown_epoch (begin_spawn ''p'' 600 logins_start)) demo_shut"
    unfolding demo_shut_def by (rule drained) (simp add: shutdown_epoch_def)
  ultimately show ?thesis by (meson converse_rtranclp_into_rtranclp rtranclp.rtrancl_refl)
qed

theorem no_login_forgotten_witness:
  "lg_alive demo_shut 1 \<and> owned 1 demo_shut \<and> \<not> listed 1 (track_install ''p'' 1 demo_shut) \<and> 1 \<in> lg_hands (track_install ''p'' 1 demo_shut)"
proof -
  have f: "lg_alive demo_shut 1" "1 < lg_next demo_shut" "lg_from demo_shut 1 < lg_epoch demo_shut" "lg_draining demo_shut = 0" "lg_phase demo_shut 1 = Booting ''p''"
    by (simp_all add: demo_shut_def shutdown_drain_def shutdown_epoch_def begin_spawn_def in_phase_def logins_start_def Let_def)
  moreover have "login_step\<^sup>*\<^sup>* demo_shut (track_install ''p'' 1 demo_shut)" using tracked[OF f(5)] by simp
  moreover have "1 \<in> lg_hands (track_install ''p'' 1 demo_shut)" using f(3) by (simp add: track_install_def to_hands_def)
  ultimately show ?thesis using no_login_forgotten[OF demo_shut_runs] by blast
qed

end
