(* ===== verification/Float64.thy ===== *)
theory Float64
  imports Complex_Main Omni_Prelude "HOL-Library.Log_Nat"
begin

text \<open>
  The double precision numbers the sources compute with: a value is a rational, an infinity or not a
  number, and an operation is the exact one followed by rounding to nearest, ties to even, with 53 bits
  of mantissa. The sign of zero is not kept: nothing in the sources reads it.
\<close>

datatype f64 = Finite rat | Infinite bool | NaN

definition pow2 :: "int \<Rightarrow> rat" where
  "pow2 e = power_int 2 e"

text \<open>The exponent of a positive number: \<open>2\<^sup>e \<le> a < 2\<^sup>e\<^sup>+\<^sup>1\<close>.\<close>

definition expo :: "rat \<Rightarrow> int" where
  "expo a = (case quotient_of a of (p, q) \<Rightarrow> let k = bitlen p - bitlen q in if pow2 k \<le> a then k else k - 1)"

definition quantum :: "rat \<Rightarrow> int" where
  "quantum a = max (-1074) (expo a - 52)"

definition round_even :: "rat \<Rightarrow> int" where
  "round_even r =
     (let n = \<lfloor>r\<rfloor>; d = r - of_int n
      in if d < 1 / 2 then n else if 1 / 2 < d then n + 1 else if even n then n else n + 1)"

definition magnitude :: "rat \<Rightarrow> rat" where
  "magnitude a = (if a \<le> 0 then 0 else of_int (round_even (a / pow2 (quantum a))) * pow2 (quantum a))"

definition round_f64 :: "rat \<Rightarrow> f64" where
  "round_f64 x =
     (let m = magnitude \<bar>x\<bar> in if pow2 1024 \<le> m then Infinite (x < 0) else Finite (if x < 0 then - m else m))"

text \<open>
  Multiplication and division by a positive finite constant, which leave infinities and \<open>NaN\<close> as they
  are; \<open>f64::round\<close>, half away from zero, which is exact.
\<close>

fun f64_map :: "(rat \<Rightarrow> rat) \<Rightarrow> f64 \<Rightarrow> f64" where
  "f64_map f (Finite x) = round_f64 (f x)"
| "f64_map f x = x"

definition round_away :: "rat \<Rightarrow> rat" where
  "round_away x = (if x < 0 then - of_int \<lfloor>- x + 1 / 2\<rfloor> else of_int \<lfloor>x + 1 / 2\<rfloor>)"

fun f64_round :: "f64 \<Rightarrow> f64" where
  "f64_round (Finite x) = Finite (round_away x)"
| "f64_round x = x"

definition i128_max :: int where "i128_max = 2 ^ 127 - 1"
definition i128_min :: int where "i128_min = - (2 ^ 127)"

text \<open>\<open>x as i128\<close>: towards zero, saturating, and zero for \<open>NaN\<close>.\<close>

fun as_i128 :: "f64 \<Rightarrow> int" where
  "as_i128 (Finite x) = max i128_min (min i128_max (if x < 0 then - \<lfloor>- x\<rfloor> else \<lfloor>x\<rfloor>))"
| "as_i128 (Infinite neg) = (if neg then i128_min else i128_max)"
| "as_i128 NaN = 0"

section \<open>Rounding is monotone\<close>

lemma pow2_pos [simp]: "0 < pow2 e"
  by (simp add: pow2_def)

lemma pow2_nz [simp]: "pow2 e \<noteq> 0"
  using pow2_pos[of e] by linarith

lemma pow2_add: "pow2 (a + b) = pow2 a * pow2 b"
  by (simp add: pow2_def power_int_add)

lemma pow2_mono: "a \<le> b \<Longrightarrow> pow2 a \<le> pow2 b"
  unfolding pow2_def by (rule power_int_increasing) auto

lemma pow2_less: "pow2 a < pow2 b \<longleftrightarrow> a < b"
  by (metis linorder_not_le nle_le not_less_iff_gr_or_eq order_less_le pow2_def pow2_mono power_int_strict_increasing one_less_numeral_iff semiring_norm(76))

lemma pow2_nat: "0 \<le> k \<Longrightarrow> pow2 k = of_int (2 ^ nat k)"
  by (simp add: pow2_def power_int_def)

lemma bitlen_pow2_bounds:
  assumes "0 < p"
  shows "pow2 (bitlen p - 1) \<le> of_int p" "of_int p < pow2 (bitlen p)"
proof -
  have b: "1 \<le> bitlen p" using assms by (simp add: bitlen_alt_def)
  then show "pow2 (bitlen p - 1) \<le> of_int p" "of_int p < pow2 (bitlen p)"
    using bitlen_bounds[OF assms] by (auto simp only: pow2_nat of_int_le_iff of_int_less_iff)
qed

lemma expo_bounds:
  assumes "0 < a"
  shows "pow2 (expo a) \<le> a" "a < pow2 (expo a + 1)"
proof -
  obtain p q where pq: "quotient_of a = (p, q)" by fastforce
  have q: "0 < q" using quotient_of_denom_pos[OF pq] .
  have a: "a = of_int p / of_int q" using quotient_of_div[OF pq] .
  have p: "0 < p" using assms q by (simp add: a zero_less_divide_iff)
  let ?k = "bitlen p - bitlen q"
  have "pow2 (?k - 1) * of_int q \<le> pow2 (?k - 1) * pow2 (bitlen q)"
    using bitlen_pow2_bounds(2)[OF q] by (intro mult_left_mono) (auto simp: less_imp_le)
  also have "\<dots> = pow2 (bitlen p - 1)" by (simp flip: pow2_add)
  finally have lo: "pow2 (?k - 1) \<le> a" using bitlen_pow2_bounds(1)[OF p] q by (simp add: a field_simps)
  have "pow2 (bitlen p) = pow2 (?k + 1) * pow2 (bitlen q - 1)" by (simp flip: pow2_add)
  also have "\<dots> \<le> pow2 (?k + 1) * of_int q"
    using bitlen_pow2_bounds(1)[OF q] by (intro mult_left_mono) (auto simp: less_imp_le)
  finally have hi: "a < pow2 (?k + 1)" using bitlen_pow2_bounds(2)[OF p] q by (simp add: a field_simps)
  show "pow2 (expo a) \<le> a" "a < pow2 (expo a + 1)"
    using lo hi by (auto simp: expo_def pq Let_def)
qed

lemma expo_mono:
  assumes "0 < a" and "a \<le> b"
  shows "expo a \<le> expo b"
proof -
  have "0 < b" using assms by linarith
  then have "pow2 (expo a) < pow2 (expo b + 1)" using expo_bounds(1)[OF assms(1)] expo_bounds(2)[of b] assms(2) by linarith
  then show ?thesis by (simp add: pow2_less)
qed

lemma round_even_mono:
  assumes "r \<le> s"
  shows "round_even r \<le> round_even s"
proof (cases "\<lfloor>r\<rfloor> = \<lfloor>s\<rfloor>")
  case True
  then show ?thesis using assms by (auto simp: round_even_def Let_def)
next
  case False
  then have "\<lfloor>r\<rfloor> + 1 \<le> \<lfloor>s\<rfloor>" using floor_mono[OF assms] by linarith
  moreover have "round_even r \<le> \<lfloor>r\<rfloor> + 1" "\<lfloor>s\<rfloor> \<le> round_even s" by (simp_all add: round_even_def Let_def)
  ultimately show ?thesis by linarith
qed

lemma round_even_int [simp]: "round_even (of_int n) = n"
  by (simp add: round_even_def)

text \<open>What is representable at the exponent of a number bounds its rounding from above and below.\<close>

lemma magnitude_le:
  assumes "0 < a" and "a \<le> of_int n * pow2 (quantum a)"
  shows "magnitude a \<le> of_int n * pow2 (quantum a)"
proof -
  have "round_even (a / pow2 (quantum a)) \<le> round_even (of_int n)"
    using assms by (intro round_even_mono) (simp add: pos_divide_le_eq)
  then show ?thesis using assms(1) by (simp add: magnitude_def)
qed

lemma magnitude_ge:
  assumes "0 < a" and "of_int n * pow2 (quantum a) \<le> a"
  shows "of_int n * pow2 (quantum a) \<le> magnitude a"
proof -
  have "round_even (of_int n) \<le> round_even (a / pow2 (quantum a))"
    using assms by (intro round_even_mono) (simp add: pos_le_divide_eq)
  then show ?thesis using assms(1) by (simp add: magnitude_def)
qed

lemma pow2_int: "0 \<le> k \<Longrightarrow> pow2 (k + q) = of_int (2 ^ nat k) * pow2 q"
  by (simp only: pow2_add pow2_nat)

lemma magnitude_top:
  assumes "0 < a"
  shows "magnitude a \<le> pow2 (53 + quantum a)"
proof -
  have "a < pow2 (expo a + 1)" by (rule expo_bounds(2)[OF assms])
  also have "\<dots> \<le> pow2 (53 + quantum a)" by (rule pow2_mono) (simp add: quantum_def)
  finally show ?thesis using magnitude_le[OF assms, of "2 ^ 53"] pow2_int[of 53 "quantum a"] by simp
qed

lemma magnitude_base:
  assumes "0 < a" and "-1074 < quantum a"
  shows "pow2 (52 + quantum a) \<le> magnitude a"
proof -
  have "quantum a = expo a - 52" using assms(2) by (simp add: quantum_def split: if_splits)
  then have "pow2 (52 + quantum a) \<le> a" using expo_bounds(1)[OF assms(1)] by simp
  then show ?thesis using magnitude_ge[OF assms(1), of "2 ^ 52"] pow2_int[of 52 "quantum a"] by simp
qed

lemma magnitude_nonneg [simp]: "0 \<le> magnitude a"
proof (cases "0 < a")
  case True
  then show ?thesis using magnitude_ge[OF True, of 0] by simp
qed (simp add: magnitude_def)

lemma magnitude_mono:
  assumes "a \<le> b"
  shows "magnitude a \<le> magnitude b"
proof (cases "0 < a")
  case a: True
  then have b: "0 < b" using assms by linarith
  have q: "quantum a \<le> quantum b" using expo_mono[OF a assms] by (simp add: quantum_def)
  show ?thesis
  proof (cases "quantum a = quantum b")
    case True
    then show ?thesis
      using a b assms by (auto simp: magnitude_def less_imp_le intro!: mult_right_mono round_even_mono divide_right_mono)
  next
    case False
    then have "quantum a < quantum b" using q by simp
    then have "-1074 < quantum b" by (simp add: quantum_def)
    have "magnitude a \<le> pow2 (53 + quantum a)" by (rule magnitude_top[OF a])
    also have "\<dots> \<le> pow2 (52 + quantum b)" using \<open>quantum a < quantum b\<close> by (intro pow2_mono) simp
    also have "\<dots> \<le> magnitude b" by (rule magnitude_base[OF b \<open>-1074 < quantum b\<close>])
    finally show ?thesis .
  qed
next
  case False
  then have "magnitude a = 0" by (simp add: magnitude_def)
  then show ?thesis by simp
qed

text \<open>An integer of at most 53 bits is its own rounding, so rounding stays between two of them.\<close>

lemma magnitude_int:
  assumes "0 \<le> n" and "n \<le> 2 ^ 53"
  shows "magnitude (of_int n) = of_int n"
proof (cases "0 < n \<and> n < 2 ^ 53")
  case True
  then have n: "0 < (of_int n :: rat)" by simp
  have "pow2 (expo (of_int n)) < pow2 53"
    using expo_bounds(1)[OF n] True by (simp add: pow2_nat)
  then have "quantum (of_int n) \<le> 0" by (simp add: pow2_less quantum_def)
  then have "of_int n = of_int (n * 2 ^ nat (- quantum (of_int n))) * pow2 (quantum (of_int n))"
    using pow2_int[of "- quantum (of_int n)" "quantum (of_int n)"] by (simp add: pow2_def mult.assoc)
  then show ?thesis using magnitude_le[OF n] magnitude_ge[OF n] by (metis order_antisym order_refl)
next
  case False
  then have "n = 0 \<or> n = 2 ^ 53" using assms by auto
  then show ?thesis
  proof
    assume "n = 2 ^ 53"
    then show ?thesis by (simp add: magnitude_def) code_simp
  qed (simp add: magnitude_def)
qed

lemma round_f64_between:
  assumes "0 \<le> x" and "x \<le> of_int n" and "n \<le> 2 ^ 53"
  shows "\<exists>y. round_f64 x = Finite y \<and> 0 \<le> y \<and> y \<le> of_int n"
proof -
  have n: "0 \<le> n" using assms(1,2) by (metis of_int_0_le_iff order_trans)
  have m: "magnitude x \<le> of_int n" using magnitude_mono[OF assms(2)] magnitude_int[OF n assms(3)] by simp
  have "(of_int n :: rat) \<le> of_int (2 ^ 53)" using assms(3) of_int_le_iff by blast
  also have "\<dots> < pow2 1024" using pow2_less[of 53 1024] by (simp add: pow2_nat)
  finally have "\<not> pow2 1024 \<le> magnitude x" using m by simp
  then show ?thesis using assms(1) m by (auto simp: round_f64_def Let_def)
qed

end
