(* ===== verification/Clock.thy ===== *)
theory Clock
  imports Json_Value Float64
begin

text \<open>
  \<open>shared/clock.rs\<close>: whatever a provider called a moment, as one text. Parsing and formatting of
  calendar dates is the third-party crate \<open>time\<close>, here the record \<open>time_ops\<close> of the calls the source
  makes, over its unspecified type of moments; the shapes are handed to it as the source writes them.
\<close>

record 'w time_ops =
  tm_rfc3339 :: "string \<Rightarrow> 'w option"
  tm_offset :: "string \<Rightarrow> string \<Rightarrow> 'w option"
  tm_naive :: "string \<Rightarrow> string \<Rightarrow> 'w option"
  tm_date :: "string \<Rightarrow> string \<Rightarrow> 'w option"
  tm_from_nanos :: "int \<Rightarrow> 'w option"
  tm_utc :: "'w \<Rightarrow> 'w"
  tm_format :: "string \<Rightarrow> 'w \<Rightarrow> string option"

definition STAMP :: string where
  "STAMP = ''[year]-[month]-[day]T[hour]:[minute]:[second].[subsecond digits:3]Z''"

definition OFFSET :: "string list" where
  "OFFSET = [''[year]-[month]-[day]T[hour]:[minute]:[second].[subsecond][offset_hour][offset_minute]'',
     ''[year]-[month]-[day]T[hour]:[minute]:[second][offset_hour][offset_minute]'']"

definition NAIVE :: "string list" where
  "NAIVE = [''[year]-[month]-[day]T[hour]:[minute]:[second].[subsecond]'',
     ''[year]-[month]-[day]T[hour]:[minute]:[second]'', ''[year]-[month]-[day]T[hour]:[minute]'']"

definition DATE :: string where
  "DATE = ''[year]-[month]-[day]''"

definition clock_stamp :: "'w time_ops \<Rightarrow> 'w \<Rightarrow> string" where
  "clock_stamp T w = (case tm_format T STAMP (tm_utc T w) of Some s \<Rightarrow> s | None \<Rightarrow> [])"

text \<open>The first of several attempts that succeeds.\<close>

fun first_some :: "('a \<Rightarrow> 'b option) \<Rightarrow> 'a list \<Rightarrow> 'b option" where
  "first_some f [] = None"
| "first_some f (x # xs) = (case f x of Some y \<Rightarrow> Some y | None \<Rightarrow> first_some f xs)"

text \<open>\<open>replacen(' ', \"T\", 1)\<close>.\<close>

definition dated :: "string \<Rightarrow> string" where
  "dated s = takeWhile (\<lambda>c. c \<noteq> CHR '' '') s
     @ (case dropWhile (\<lambda>c. c \<noteq> CHR '' '') s of [] \<Rightarrow> [] | _ # cs \<Rightarrow> CHR ''T'' # cs)"

definition clock_parse :: "'w time_ops \<Rightarrow> string \<Rightarrow> 'w option" where
  "clock_parse T text =
     (let t = trim text; d = dated t in
      case tm_rfc3339 T d of
        Some w \<Rightarrow> Some w
      | None \<Rightarrow>
          (case first_some (\<lambda>sh. tm_offset T sh d) OFFSET of
             Some w \<Rightarrow> Some w
           | None \<Rightarrow> (case first_some (\<lambda>sh. tm_naive T sh d) NAIVE of Some w \<Rightarrow> Some w | None \<Rightarrow> tm_date T DATE t)))"

section \<open>Numbers\<close>

definition is_digit :: "char \<Rightarrow> bool" where
  "is_digit c \<longleftrightarrow> CHR ''0'' \<le> c \<and> c \<le> CHR ''9''"

definition digits_value :: "string \<Rightarrow> int" where
  "digits_value ds = foldl (\<lambda>n c. 10 * n + (of_char c - 48)) 0 ds"

text \<open>An optional sign, and whether it was a minus.\<close>

definition take_sign :: "string \<Rightarrow> bool \<times> string" where
  "take_sign s = (case s of c # cs \<Rightarrow> if c = CHR ''-'' then (True, cs) else if c = CHR ''+'' then (False, cs) else (False, s) | [] \<Rightarrow> (False, []))"

text \<open>The exponent at the end of a number: nothing, or \<open>e\<close>, a sign and digits to the end.\<close>

definition exponent_of :: "string \<Rightarrow> int option" where
  "exponent_of s =
     (case s of
        [] \<Rightarrow> Some 0
      | c # cs \<Rightarrow>
          if c \<noteq> CHR ''e'' \<and> c \<noteq> CHR ''E'' then None
          else (case take_sign cs of
                  (neg, ds) \<Rightarrow> if ds \<noteq> [] \<and> list_all is_digit ds then Some (if neg then - digits_value ds else digits_value ds) else None))"

text \<open>\<open>str::parse::<f64>\<close>: a decimal number with an optional fraction and exponent, or one of the names.\<close>

definition parse_f64 :: "string \<Rightarrow> f64 option" where
  "parse_f64 s =
     (case take_sign s of
        (neg, r) \<Rightarrow>
          if to_lower r = ''inf'' \<or> to_lower r = ''infinity'' then Some (Infinite neg)
          else if to_lower r = ''nan'' then Some NaN
          else
            let ds = takeWhile is_digit r;
                r1 = dropWhile is_digit r;
                (fs, r2) = (case r1 of c # cs \<Rightarrow> if c = CHR ''.'' then (takeWhile is_digit cs, dropWhile is_digit cs) else ([], r1) | [] \<Rightarrow> ([], []))
            in if ds @ fs = [] then None
               else map_option
                 (\<lambda>e. let a = of_int (digits_value (ds @ fs)) * power_int 10 (e - int (length fs)) in round_f64 (if neg then - a else a))
                 (exponent_of r2))"

text \<open>\<open>n.as_f64()\<close>: the number as a double.\<close>

definition number_f64 :: "json \<Rightarrow> f64 option" where
  "number_f64 v = map_option round_f64 (as_f64 v)"

fun above_1e11 :: "f64 \<Rightarrow> bool" where
  "above_1e11 (Finite x) \<longleftrightarrow> 10 ^ 11 < x"
| "above_1e11 (Infinite neg) \<longleftrightarrow> \<not> neg"
| "above_1e11 NaN \<longleftrightarrow> False"

definition from_seconds :: "'w time_ops \<Rightarrow> f64 \<Rightarrow> string option" where
  "from_seconds T x =
     (let nanos = f64_map (\<lambda>s. s * 10 ^ 9) (if above_1e11 x then f64_map (\<lambda>s. s / 1000) x else x)
      in map_option (clock_stamp T) (tm_from_nanos T (as_i128 nanos)))"

definition iso_text :: "'w time_ops \<Rightarrow> string \<Rightarrow> string option" where
  "iso_text T text =
     (if text = [] then None
      else (case parse_f64 text of
              Some x \<Rightarrow> (case from_seconds T x of Some s \<Rightarrow> Some s | None \<Rightarrow> Some text)
            | None \<Rightarrow> (case clock_parse T text of Some w \<Rightarrow> Some (clock_stamp T w) | None \<Rightarrow> Some text)))"

definition iso :: "codec \<Rightarrow> 'w time_ops \<Rightarrow> json \<Rightarrow> string option" where
  "iso J T v =
     (case v of
        JNull \<Rightarrow> None
      | JString s \<Rightarrow> iso_text T (trim s)
      | _ \<Rightarrow>
          (case number_f64 v of
             Some x \<Rightarrow> (case from_seconds T x of Some s \<Rightarrow> Some s | None \<Rightarrow> Some (to_text J v))
           | None \<Rightarrow> iso_text T (to_text J v)))"

section \<open>Facts\<close>

lemma round_f64_int:
  assumes "0 \<le> n" and "n \<le> 2 ^ 53"
  shows "round_f64 (of_int n) = Finite (of_int n)"
proof -
  have "(of_int n :: rat) \<le> of_int (2 ^ 53)" using assms(2) of_int_le_iff by blast
  also have "\<dots> < pow2 1024" using pow2_less[of 53 1024] by (simp add: pow2_nat)
  finally show ?thesis using assms by (simp add: round_f64_def magnitude_int not_le)
qed

text \<open>
  Seconds and milliseconds are told apart: a moment after March 1973 that is said in either lands on the same text.
\<close>

lemma seconds_or_millis:
  assumes "10 ^ 8 < n" and "n \<le> 10 ^ 11"
  shows "iso J T (JInt (1000 * n)) = (case from_seconds T (Finite (of_int n)) of Some s \<Rightarrow> Some s | None \<Rightarrow> Some (to_text J (JInt (1000 * n))))"
    and "iso J T (JInt n) = (case from_seconds T (Finite (of_int n)) of Some s \<Rightarrow> Some s | None \<Rightarrow> Some (to_text J (JInt n)))"
proof -
  have r: "round_f64 (of_int n) = Finite (of_int n)" "round_f64 (of_int (1000 * n)) = Finite (of_int (1000 * n))"
    using assms by (intro round_f64_int; simp)+
  have "(of_int n :: rat) \<le> of_int (10 ^ 11)" "(of_int (10 ^ 11) :: rat) < of_int (1000 * n)"
    using assms unfolding of_int_le_iff of_int_less_iff by simp_all
  then have a: "\<not> above_1e11 (Finite (of_int n))" "above_1e11 (Finite (of_int (1000 * n)))" by simp_all
  have d: "f64_map (\<lambda>s. s / 1000) (Finite (of_int (1000 * n))) = Finite (of_int n)" using r(1) by simp
  have "from_seconds T (Finite (of_int (1000 * n))) = from_seconds T (Finite (of_int n))"
    unfolding from_seconds_def by (simp only: a d if_True if_False)
  then show "iso J T (JInt (1000 * n)) = (case from_seconds T (Finite (of_int n)) of Some s \<Rightarrow> Some s | None \<Rightarrow> Some (to_text J (JInt (1000 * n))))"
    and "iso J T (JInt n) = (case from_seconds T (Finite (of_int n)) of Some s \<Rightarrow> Some s | None \<Rightarrow> Some (to_text J (JInt n)))"
    using r by (simp_all add: iso_def number_f64_def)
qed

text \<open>
  A text that says \<open>nan\<close> is read as a number, and that number as the first instant of 1970: a moment nobody
  named comes back as a wrong time instead of being handed back.
\<close>

lemma nan_is_the_epoch:
  assumes "tm_from_nanos T 0 = Some w"
  shows "iso J T (JString ''NaN'') = Some (clock_stamp T w)"
proof -
  have "parse_f64 ''NaN'' = Some NaN" "trim ''NaN'' = ''NaN''" by code_simp+
  then show ?thesis using assms by (simp add: iso_def iso_text_def from_seconds_def)
qed

text \<open>Nothing is said only where nothing was: a null, or a blank text.\<close>

lemma iso_None:
  assumes "\<And>u. to_text J u \<noteq> []"
  shows "iso J T v = None \<longleftrightarrow> v = JNull \<or> (\<exists>s. v = JString s \<and> trim s = [])"
  using assms by (cases v) (auto simp: iso_def iso_text_def number_f64_def split: option.splits)

end
