(* ===== verification/Accounts.thy ===== *)
theory Accounts
  imports Codex_Runner Claude_Runner Provider_Login Clock
begin

text \<open>
  The three accounts, \<open>account.rs\<close> of each provider: is it signed in, how does one sign in, how much of
  its quota is left. A provider reports its windows in its own way; omni reports two, each with the
  fraction used and the moment it starts again, either of them null where nobody said.
\<close>

section \<open>Windows\<close>

fun json_f64 :: "f64 \<Rightarrow> json" where
  "json_f64 (Finite x) = JFloat x"
| "json_f64 _ = JNull"

text \<open>\<open>(x * 10_000.0).round() / 10_000.0\<close>.\<close>

definition four_places :: "f64 \<Rightarrow> f64" where
  "four_places x = f64_map (\<lambda>r. r / 10000) (f64_round (f64_map (\<lambda>r. r * 10000) x))"

definition percent_used :: "json \<Rightarrow> json" where
  "percent_used v = (case number_f64 v of Some x \<Rightarrow> json_f64 (four_places (f64_map (\<lambda>r. r / 100) x)) | None \<Rightarrow> JNull)"

definition json_option :: "string option \<Rightarrow> json" where
  "json_option s = (case s of Some t \<Rightarrow> JString t | None \<Rightarrow> JNull)"

definition window_json :: "json \<Rightarrow> json \<Rightarrow> json" where
  "window_json used r = JObject [(''reset'', r), (''used'', used)]"

definition blank_windows :: jmap where
  "blank_windows = [(''5h'', blank_limits), (''7d'', blank_limits)]"

text \<open>One report about a window: it replaces what stands there when \<open>better\<close> says so.\<close>

fun note_window :: "(json \<Rightarrow> json \<Rightarrow> bool) \<Rightarrow> string \<times> json \<times> json \<Rightarrow> jmap \<Rightarrow> jmap" where
  "note_window better (name, used, r) out =
     (if better (jindex (jindex (JObject out) name) ''used'') used then bt_insert name (window_json used r) out else out)"

section \<open>Claude\<close>

definition CLAUDE_WINDOWS :: "(string \<times> string) list" where
  "CLAUDE_WINDOWS = [(''five_hour'', ''5h''), (''seven_day'', ''7d'')]"

definition claude_window :: "codec \<Rightarrow> 'w time_ops \<Rightarrow> json option \<Rightarrow> json" where
  "claude_window J T entry =
     (case entry of
        Some (JObject m) \<Rightarrow>
          window_json (case bt_get m ''utilization'' of Some v \<Rightarrow> percent_used v | None \<Rightarrow> JNull)
            (json_option (iso J T (case bt_get m ''resets_at'' of Some v \<Rightarrow> v | None \<Rightarrow> JNull)))
      | _ \<Rightarrow> blank_limits)"

definition claude_limits :: "codec \<Rightarrow> 'w time_ops \<Rightarrow> bool \<Rightarrow> bytes list \<Rightarrow> json" where
  "claude_limits J T up lines =
     (let usage = (case control_ask J up lines of Some v \<Rightarrow> v | None \<Rightarrow> JNull);
          buckets = jindex usage ''rate_limits''
      in JObject (fold (\<lambda>(long, short). bt_insert short (claude_window J T (jget buckets long))) CLAUDE_WINDOWS []))"

definition CLAUDE_STATUS :: "string list" where
  "CLAUDE_STATUS = [CLAUDE_CLI, ''auth'', ''status'']"

definition claude_status :: "codec \<Rightarrow> (int \<times> string) option \<Rightarrow> string" where
  "claude_status J r =
     (case r of
        None \<Rightarrow> UNAUTHENTICATED
      | Some (code, text) \<Rightarrow>
          if code \<noteq> 0 then UNAUTHENTICATED
          else (case from_slice J text of
                  Inr v \<Rightarrow> if Option.bind (jget v ''loggedIn'') as_bool = Some True then AUTHENTICATED else UNAUTHENTICATED
                | Inl _ \<Rightarrow> UNAUTHENTICATED))"

definition claude_probe :: "codec \<Rightarrow> world \<Rightarrow> world \<times> string" where
  "claude_probe J w = (tick_on w, claude_status J (command w (tick w) CLAUDE_STATUS))"

definition claude_start_auth :: "string list \<Rightarrow> string" where
  "claude_start_auth heard = begin_answer [CLAUDE_CLI, ''auth'', ''login''] heard"

text \<open>\<open>finish_auth\<close>: the login is completed, what was known of the account is forgotten, and it is asked again.\<close>

definition claude_finish_auth :: "codec \<Rightarrow> logins \<Rightarrow> world \<Rightarrow> logins \<times> world \<times> string" where
  "claude_finish_auth J lg w = (complete_take ''claude-code-cli'' lg, claude_probe J (forget ''claude-code-cli'' w))"

section \<open>Antigravity\<close>

definition AGY_USAGE :: "string list" where
  "AGY_USAGE = [''agy'', ''-p'', ''/usage'', ''--output-format'', ''stream-json'']"

definition AGY_WINDOWS :: "(string \<times> string) list" where
  "AGY_WINDOWS = [(''5h'', ''5h''), (''weekly'', ''7d'')]"

fun agy_buckets :: "codec \<Rightarrow> string list \<Rightarrow> json list" where
  "agy_buckets J [] = []"
| "agy_buckets J (line # lines) =
     (case from_slice J line of
        Inl _ \<Rightarrow> agy_buckets J lines
      | Inr v \<Rightarrow>
          if Option.bind (jget v ''event'') as_str \<noteq> Some ''command_result'' then agy_buckets J lines
          else concat (map (\<lambda>gr. case as_array (jindex gr ''buckets'') of Some bs \<Rightarrow> bs | None \<Rightarrow> [])
                 (case as_array (jindex (jindex (jindex v ''command'') ''data'') ''groups'') of Some gs \<Rightarrow> gs | None \<Rightarrow> [])))"

definition clamp01 :: "rat \<Rightarrow> rat" where
  "clamp01 x = (if x < 0 then 0 else if 1 < x then 1 else x)"

definition agy_used :: "rat \<Rightarrow> f64" where
  "agy_used remaining = four_places (round_f64 (1 - clamp01 remaining))"

definition agy_report :: "codec \<Rightarrow> 'w time_ops \<Rightarrow> json \<Rightarrow> (string \<times> json \<times> json) list" where
  "agy_report J T bucket =
     (case Option.bind (as_str (jindex bucket ''window'')) (map_of AGY_WINDOWS) of
        None \<Rightarrow> []
      | Some name \<Rightarrow>
          (case number_f64 (jindex bucket ''remaining_fraction'') of
             Some (Finite remaining) \<Rightarrow>
               [(name, json_f64 (agy_used remaining), json_option (iso J T (jindex bucket ''reset_time'')))]
           | _ \<Rightarrow> []))"

definition agy_worse :: "json \<Rightarrow> json \<Rightarrow> bool" where
  "agy_worse seen used \<longleftrightarrow>
     (case as_f64 seen of None \<Rightarrow> True | Some x \<Rightarrow> (case as_f64 used of Some y \<Rightarrow> x < y | None \<Rightarrow> False))"

definition agy_reports :: "codec \<Rightarrow> 'w time_ops \<Rightarrow> string \<Rightarrow> (string \<times> json \<times> json) list" where
  "agy_reports J T text = concat (map (agy_report J T) (agy_buckets J (str_lines [] text)))"

definition agy_windows :: "codec \<Rightarrow> 'w time_ops \<Rightarrow> string \<Rightarrow> json" where
  "agy_windows J T text = JObject (fold (note_window agy_worse) (agy_reports J T text) blank_windows)"

definition agy_limits :: "codec \<Rightarrow> 'w time_ops \<Rightarrow> world \<Rightarrow> world \<times> json" where
  "agy_limits J T w =
     (tick_on w, case command w (tick w) AGY_USAGE of Some (_, text) \<Rightarrow> agy_windows J T text | None \<Rightarrow> JObject blank_windows)"

definition agy_start_auth :: "string list \<Rightarrow> string" where
  "agy_start_auth heard = begin_answer AGY_USAGE heard"

definition agy_finish_auth :: "logins \<Rightarrow> world \<Rightarrow> logins \<times> world \<times> string" where
  "agy_finish_auth lg w = (complete_take ANTIGRAVITY lg, agy_probe (forget ANTIGRAVITY w))"

section \<open>Codex\<close>

definition MINUTES :: "(int \<times> string) list" where
  "MINUTES = [(300, ''5h''), (10080, ''7d'')]"

definition COMPLETED :: string where
  "COMPLETED = ''account/login/completed''"

definition codex_slot :: "codec \<Rightarrow> 'w time_ops \<Rightarrow> json \<Rightarrow> string \<Rightarrow> (string \<times> json \<times> json) list" where
  "codex_slot J T bucket slot =
     (let window = jindex bucket slot in
      if as_object window = None then []
      else (case Option.bind (as_u64 (jindex window ''windowDurationMins'')) (map_of MINUTES) of
              None \<Rightarrow> []
            | Some name \<Rightarrow> [(name, percent_used (jindex window ''usedPercent''), json_option (iso J T (jindex window ''resetsAt'')))]))"

definition codex_buckets :: "json \<Rightarrow> json list" where
  "codex_buckets payload =
     jindex payload ''rateLimits''
       # (case as_object (jindex payload ''rateLimitsByLimitId'') of Some by_id \<Rightarrow> map snd by_id | None \<Rightarrow> [])"

definition codex_reports :: "codec \<Rightarrow> 'w time_ops \<Rightarrow> json \<Rightarrow> (string \<times> json \<times> json) list" where
  "codex_reports J T payload =
     concat (map (\<lambda>bucket. concat (map (codex_slot J T bucket) [''primary'', ''secondary''])) (codex_buckets payload))"

definition codex_windows :: "codec \<Rightarrow> 'w time_ops \<Rightarrow> json \<Rightarrow> json" where
  "codex_windows J T payload =
     JObject (fold (note_window (\<lambda>seen _. is_null seen)) (codex_reports J T payload) blank_windows)"

definition connected :: "string \<Rightarrow> codex_world \<Rightarrow> codex_world \<times> int option" where
  "connected here w =
     (case any_live w of
        Some g \<Rightarrow> (w, Some g)
      | None \<Rightarrow> (case shared_get (codex_flags (config_default here)) w of (w1, Inr g) \<Rightarrow> (w1, Some g) | (w1, Inl _) \<Rightarrow> (w1, None)))"

definition codex_probe :: "codec \<Rightarrow> string \<Rightarrow> codex_world \<Rightarrow> codex_world \<times> string" where
  "codex_probe J here w =
     (case connected here w of
        (w1, None) \<Rightarrow> (w1, UNAUTHENTICATED)
      | (w1, Some g) \<Rightarrow>
          (case try_call J g ''account/read'' (JObject []) 30 w1 of
             (w2, Some v) \<Rightarrow> (w2, if is_null (jindex v ''account'') then UNAUTHENTICATED else AUTHENTICATED)
           | (w2, None) \<Rightarrow> (w2, UNAUTHENTICATED)))"

definition forget_notice :: "string \<Rightarrow> int \<Rightarrow> codex_world \<Rightarrow> codex_world" where
  "forget_notice what g w = (case xw_servers w g of Some sh \<Rightarrow> set_server g (shared_forget what sh) w | None \<Rightarrow> w)"

definition notice_of :: "string \<Rightarrow> int \<Rightarrow> codex_world \<Rightarrow> json option" where
  "notice_of what g w = Option.bind (xw_servers w g) (shared_last what)"

definition codex_start_auth :: "codec \<Rightarrow> string \<Rightarrow> codex_world \<Rightarrow> codex_world \<times> string" where
  "codex_start_auth J here w =
     (case connected here w of
        (w1, None) \<Rightarrow> (w1, ''codex is not installed, or would not start'')
      | (w1, Some g) \<Rightarrow>
          (case try_call J g ''account/login/start'' (JObject [(''type'', JString ''chatgpt'')]) 60 (forget_notice COMPLETED g w1) of
             (w2, None) \<Rightarrow> (w2, ''codex could not start a login'')
           | (w2, Some begun) \<Rightarrow>
               (w2, case first_some (\<lambda>f. as_str (jindex begun f)) [''authUrl'', ''verificationUrl''] of
                      Some url \<Rightarrow> url | None \<Rightarrow> to_text J begun)))"

text \<open>What the process says on its own during one pause of the wait.\<close>

definition server_says :: "codec \<Rightarrow> int \<Rightarrow> app_note list \<Rightarrow> codex_world \<Rightarrow> codex_world" where
  "server_says J g ns w =
     (case xw_servers w g of
        None \<Rightarrow> w
      | Some sh \<Rightarrow> (case heard_all J ns sh of (sh1, es) \<Rightarrow> (set_server g sh1 w)\<lparr>xw_emitted := xw_emitted w @ es\<rparr>))"

definition LOGIN_POLLS :: nat where "LOGIN_POLLS = 600"

fun await_login :: "codec \<Rightarrow> int \<Rightarrow> nat \<Rightarrow> (nat \<Rightarrow> app_note list) \<Rightarrow> codex_world \<Rightarrow> codex_world" where
  "await_login J g 0 says w = w"
| "await_login J g (Suc n) says w =
     (if notice_of COMPLETED g w \<noteq> None then w else await_login J g n says (server_says J g (says n) w))"

definition codex_finish_auth ::
  "codec \<Rightarrow> string \<Rightarrow> (nat \<Rightarrow> app_note list) \<Rightarrow> world \<Rightarrow> codex_world \<Rightarrow> world \<times> codex_world \<times> string" where
  "codex_finish_auth J here says w x =
     (let x1 = (case any_live x of Some g \<Rightarrow> await_login J g LOGIN_POLLS says x | None \<Rightarrow> x)
      in (forget ''codex-app-server'' w, codex_probe J here x1))"

definition codex_limits :: "codec \<Rightarrow> 'w time_ops \<Rightarrow> string \<Rightarrow> codex_world \<Rightarrow> codex_world \<times> json" where
  "codex_limits J T here w =
     (case connected here w of
        (w1, None) \<Rightarrow> (w1, JString UNAUTHENTICATED)
      | (w1, Some g) \<Rightarrow>
          (case (case notice_of ''account/rateLimits/updated'' g w1 of
                   Some v \<Rightarrow> (w1, Some v)
                 | None \<Rightarrow> try_call J g ''account/rateLimits/read'' JNull 30 w1) of
             (w2, Some payload) \<Rightarrow> (w2, codex_windows J T payload)
           | (w2, None) \<Rightarrow> (w2, JObject blank_windows)))"

section \<open>What stands in a window\<close>

definition told :: "string \<Rightarrow> (string \<times> json \<times> json) list \<Rightarrow> (json \<times> json) list" where
  "told name rs = map snd (filter (\<lambda>p. fst p = name) rs)"

definition standing :: "(json \<Rightarrow> json \<Rightarrow> bool) \<Rightarrow> (json \<times> json) list \<Rightarrow> json \<Rightarrow> json" where
  "standing better rs = fold (\<lambda>p x. if better (jindex x ''used'') (fst p) then window_json (fst p) (snd p) else x) rs"

lemma told_simps [simp]:
  "told name [] = []" "told name (p # rs) = (if fst p = name then snd p # told name rs else told name rs)"
  by (simp_all add: told_def)

lemma standing_simps [simp]:
  "standing b [] x = x"
  "standing b (p # rs) x = standing b rs (if b (jindex x ''used'') (fst p) then window_json (fst p) (snd p) else x)"
  "standing b (rs @ [p]) x = (if b (jindex (standing b rs x) ''used'') (fst p) then window_json (fst p) (snd p) else standing b rs x)"
  by (simp_all add: standing_def)

lemma used_window [simp]: "jindex (window_json u r) ''used'' = u" "jindex blank_limits ''used'' = JNull"
  by (simp_all add: jindex_def window_json_def blank_limits_def bt_get_def)

lemma bt_insert_windows:
  "bt_insert ''5h'' v [(''5h'', x), (''7d'', y)] = [(''5h'', v), (''7d'', y)]"
  "bt_insert ''7d'' v [(''5h'', x), (''7d'', y)] = [(''5h'', x), (''7d'', v)]"
  "bt_insert ''7d'' v [(''5h'', x)] = [(''5h'', x), (''7d'', v)]" "bt_insert ''5h'' v [] = [(''5h'', v)]"
proof -
  have "''5h'' < (''7d'' :: string)" by code_simp
  then show "bt_insert ''5h'' v [(''5h'', x), (''7d'', y)] = [(''5h'', v), (''7d'', y)]"
    "bt_insert ''7d'' v [(''5h'', x), (''7d'', y)] = [(''5h'', x), (''7d'', v)]"
    "bt_insert ''7d'' v [(''5h'', x)] = [(''5h'', x), (''7d'', v)]" "bt_insert ''5h'' v [] = [(''5h'', v)]"
    by (simp_all add: bt_insert.simps)
qed

text \<open>The windows are kept apart: each holds what stands of its own reports.\<close>

lemma fold_windows:
  assumes "fst ` set rs \<subseteq> {''5h'', ''7d''}"
  shows "fold (note_window b) rs [(''5h'', x), (''7d'', y)] = [(''5h'', standing b (told ''5h'' rs) x), (''7d'', standing b (told ''7d'' rs) y)]"
  using assms
proof (induction rs arbitrary: x y)
  case (Cons p rs)
  obtain name u r where p: "p = (name, u, r)" by (cases p)
  then have "name = ''5h'' \<or> name = ''7d''" using Cons.prems by auto
  then show ?case
  proof
    assume n: "name = ''5h''"
    have "note_window b p [(''5h'', x), (''7d'', y)] = [(''5h'', if b (jindex x ''used'') u then window_json u r else x), (''7d'', y)]"
      by (simp add: p n jindex_def bt_get_def bt_insert_windows)
    then show ?thesis using Cons.IH Cons.prems by (simp add: p n)
  next
    assume n: "name = ''7d''"
    have "note_window b p [(''5h'', x), (''7d'', y)] = [(''5h'', x), (''7d'', if b (jindex y ''used'') u then window_json u r else y)]"
      by (simp add: p n jindex_def bt_get_def bt_insert_windows)
    then show ?thesis using Cons.IH Cons.prems by (simp add: p n)
  qed
qed simp

text \<open>One report: about one of the two windows, with a number or nothing and a moment or nothing.\<close>

lemma agy_reportD:
  assumes "p \<in> set (agy_report J T v)"
  shows "fst p \<in> {''5h'', ''7d''} \<and> (\<exists>x r. snd p = (json_f64 (agy_used x), json_option r))"
proof -
  obtain name x where "Option.bind (as_str (jindex v ''window'')) (map_of AGY_WINDOWS) = Some name"
    and p: "p = (name, json_f64 (agy_used x), json_option (iso J T (jindex v ''reset_time'')))"
    using assms by (auto simp: agy_report_def split: option.splits f64.splits)
  then have "name \<in> {''5h'', ''7d''}" by (cases "as_str (jindex v ''window'')") (auto simp: AGY_WINDOWS_def split: if_splits)
  then show ?thesis using p by auto
qed

lemma codex_slotD:
  assumes "p \<in> set (codex_slot J T v sl)"
  shows "fst p \<in> {''5h'', ''7d''} \<and> (\<exists>x r. snd p = (percent_used x, json_option r))"
proof -
  obtain name where "Option.bind (as_u64 (jindex (jindex v sl) ''windowDurationMins'')) (map_of MINUTES) = Some name"
    and p: "p = (name, percent_used (jindex (jindex v sl) ''usedPercent''), json_option (iso J T (jindex (jindex v sl) ''resetsAt'')))"
    using assms by (auto simp: codex_slot_def Let_def split: option.splits if_splits)
  then have "name \<in> {''5h'', ''7d''}"
    by (cases "as_u64 (jindex (jindex v sl) ''windowDurationMins'')") (auto simp: MINUTES_def split: if_splits)
  then show ?thesis using p by auto
qed

lemma reports_named:
  "fst ` set (agy_reports J T out) \<subseteq> {''5h'', ''7d''}" "fst ` set (codex_reports J T payload) \<subseteq> {''5h'', ''7d''}"
  using agy_reportD codex_slotD by (fastforce simp: agy_reports_def codex_reports_def)+

text \<open>Codex: the first report that says how much is used; where none does, the last one.\<close>

definition first_report :: "(json \<times> json) list \<Rightarrow> json" where
  "first_report rs =
     (case List.find (\<lambda>p. \<not> is_null (fst p)) rs of
        Some p \<Rightarrow> window_json (fst p) (snd p)
      | None \<Rightarrow> if rs = [] then blank_limits else window_json (fst (last rs)) (snd (last rs)))"

lemma standing_settled: "\<not> is_null (jindex x ''used'') \<Longrightarrow> standing (\<lambda>seen _. is_null seen) rs x = x"
  by (induction rs) simp_all

lemma standing_first:
  "is_null (jindex x ''used'') \<Longrightarrow> standing (\<lambda>seen _. is_null seen) rs x = (if rs = [] then x else first_report rs)"
proof (induction rs arbitrary: x)
  case (Cons p rs)
  then show ?case
    by (cases "is_null (fst p)") (auto simp: first_report_def standing_settled split: option.splits)
qed simp

text \<open>
  whatever codex reports, in whichever slot and however often, each of omni's two windows holds the first
  report of its own duration that says how much of it is used; a report that does not say gives way to a later one.
\<close>

theorem codex_first_report_stands:
  "codex_windows J T payload =
     JObject [(''5h'', first_report (told ''5h'' (codex_reports J T payload))), (''7d'', first_report (told ''7d'' (codex_reports J T payload)))]"
proof -
  have "standing (\<lambda>seen _. is_null seen) rs blank_limits = first_report rs" for rs
    using standing_first[of blank_limits rs] by (simp add: is_null_def first_report_def)
  then show ?thesis by (simp add: codex_windows_def blank_windows_def fold_windows[OF reports_named(2)])
qed

text \<open>Antigravity: the worst report, the earliest of them where several are equally bad.\<close>

definition amount :: "json \<times> json \<Rightarrow> rat" where
  "amount p = (case as_f64 (fst p) of Some q \<Rightarrow> q | None \<Rightarrow> 0)"

definition fraction :: "json \<Rightarrow> bool" where
  "fraction u \<longleftrightarrow> (\<exists>q. u = JFloat q \<and> 0 \<le> q \<and> q \<le> 1)"

definition worst_of :: "(json \<times> json) list \<Rightarrow> json \<Rightarrow> bool" where
  "worst_of rs x \<longleftrightarrow>
     (if rs = [] then x = blank_limits
      else \<exists>i < length rs. x = window_json (fst (rs ! i)) (snd (rs ! i)) \<and> fraction (fst (rs ! i))
             \<and> (\<forall>j < length rs. amount (rs ! j) \<le> amount (rs ! i)) \<and> (\<forall>j < i. amount (rs ! j) < amount (rs ! i)))"

lemma round_away_between:
  assumes "0 \<le> x" and "x \<le> of_int n"
  shows "\<exists>k. round_away x = of_int k \<and> 0 \<le> k \<and> k \<le> n"
proof -
  have "\<lfloor>x + 1 / 2\<rfloor> < n + 1" using assms(2) unfolding floor_less_iff by simp
  moreover have "0 \<le> \<lfloor>x + 1 / 2\<rfloor>" using assms(1) by simp
  ultimately show ?thesis using assms(1) by (auto simp: round_away_def intro!: exI[of _ "\<lfloor>x + 1 / 2\<rfloor>"])
qed

lemma agy_used_between: "\<exists>q. agy_used x = Finite q \<and> 0 \<le> q \<and> q \<le> 1"
proof -
  have "0 \<le> 1 - clamp01 x" "1 - clamp01 x \<le> of_int 1" by (auto simp: clamp01_def)
  then obtain a where a: "round_f64 (1 - clamp01 x) = Finite a" "0 \<le> a" "a \<le> 1"
    using round_f64_between[of "1 - clamp01 x" 1] by auto
  then obtain b where b: "round_f64 (a * 10000) = Finite b" "0 \<le> b" "b \<le> of_int 10000"
    using round_f64_between[of "a * 10000" 10000] by auto
  then obtain k where k: "round_away b = of_int k" "0 \<le> k" "k \<le> 10000" using round_away_between[of b 10000] by auto
  have "0 \<le> (of_int k / 10000 :: rat)" "of_int k / 10000 \<le> (of_int 1 :: rat)" using k(2,3) by simp_all
  then show ?thesis
    using round_f64_between[of "of_int k / 10000" 1] by (auto simp: agy_used_def four_places_def a b k)
qed

lemma agy_reports_fraction:
  assumes "p \<in> set (told name (agy_reports J T out))"
  shows "fraction (fst p)"
proof -
  obtain v where "(name, p) \<in> set (agy_report J T v)" using assms by (auto simp: told_def agy_reports_def)
  then obtain x where "fst p = json_f64 (agy_used x)" using agy_reportD by fastforce
  then show ?thesis using agy_used_between[of x] by (auto simp: fraction_def)
qed

lemma standing_worst:
  assumes "\<forall>p \<in> set rs. fraction (fst p)"
  shows "worst_of rs (standing agy_worse rs blank_limits)"
  using assms
proof (induction rs rule: rev_induct)
  case (snoc p rs)
  obtain q where p: "fst p = JFloat q" "0 \<le> q" "q \<le> 1" using snoc.prems by (auto simp: fraction_def)
  show ?case
  proof (cases "rs = []")
    case True
    then show ?thesis using p by (simp add: worst_of_def agy_worse_def fraction_def)
  next
    case False
    let ?x = "standing agy_worse rs blank_limits"
    obtain i where i: "i < length rs" "?x = window_json (fst (rs ! i)) (snd (rs ! i))" "fraction (fst (rs ! i))"
        "\<forall>j < length rs. amount (rs ! j) \<le> amount (rs ! i)" "\<forall>j < i. amount (rs ! j) < amount (rs ! i)"
      using snoc False by (auto simp: worst_of_def)
    have w: "agy_worse (jindex ?x ''used'') (fst p) \<longleftrightarrow> amount (rs ! i) < q"
      using i(3) p by (auto simp: i(2) agy_worse_def fraction_def amount_def)
    have a: "amount p = q" by (simp add: amount_def p)
    show ?thesis
    proof (cases "amount (rs ! i) < q")
      case True
      have "amount (rs ! j) < q" if "j < length rs" for j using i(4) that True by force
      then show ?thesis
        using True w a snoc.prems False unfolding worst_of_def
        by (simp, intro exI[of _ "length rs"]) (auto simp: nth_append less_Suc_eq less_imp_le)
    next
      case no: False
      then show ?thesis
        using w a i unfolding worst_of_def by (auto simp: nth_append less_Suc_eq intro!: exI[of _ i])
    qed
  qed
qed (simp add: worst_of_def)


section \<open>The shape of a report\<close>

definition window_ok :: "json \<Rightarrow> bool" where
  "window_ok x \<longleftrightarrow> (\<exists>u r. x = window_json u r \<and> (u = JNull \<or> (\<exists>q. u = JFloat q)) \<and> (r = JNull \<or> (\<exists>s. r = JString s)))"

definition limits_ok :: "json \<Rightarrow> bool" where
  "limits_ok v \<longleftrightarrow> v = JString UNAUTHENTICATED \<or> (\<exists>x y. v = JObject [(''5h'', x), (''7d'', y)] \<and> window_ok x \<and> window_ok y)"

lemma number_or_null: "(\<exists>q. json_f64 f = JFloat q) \<or> json_f64 f = JNull" "(\<exists>q. percent_used v = JFloat q) \<or> percent_used v = JNull"
proof -
  show f: "(\<exists>q. json_f64 f = JFloat q) \<or> json_f64 f = JNull" for f by (cases f) simp_all
  show "(\<exists>q. percent_used v = JFloat q) \<or> percent_used v = JNull" using f by (auto simp: percent_used_def split: option.splits)
qed

lemma text_or_null: "json_option s = JNull \<or> (\<exists>t. json_option s = JString t)"
  by (simp add: json_option_def split: option.splits)

lemma window_okI: "window_ok blank_limits" "window_ok (window_json (percent_used v) (json_option s))"
  "window_ok (window_json JNull (json_option s))" "window_ok (window_json (json_f64 f) (json_option s))"
  unfolding window_ok_def using number_or_null text_or_null by (auto simp: blank_limits_def window_json_def)

lemma standing_ok:
  "window_ok x \<Longrightarrow> \<forall>p \<in> set rs. window_ok (window_json (fst p) (snd p)) \<Longrightarrow> window_ok (standing b rs x)"
  by (induction rs arbitrary: x) simp_all

lemma told_ok:
  "p \<in> set (told name (agy_reports J T out)) \<Longrightarrow> window_ok (window_json (fst p) (snd p))"
  "q \<in> set (told name (codex_reports J T payload)) \<Longrightarrow> window_ok (window_json (fst q) (snd q))"
proof -
  assume "p \<in> set (told name (agy_reports J T out))"
  then obtain v where "(name, p) \<in> set (agy_report J T v)" by (auto simp: told_def agy_reports_def)
  from agy_reportD[OF this] show "window_ok (window_json (fst p) (snd p))" by (auto simp: window_okI)
next
  assume "q \<in> set (told name (codex_reports J T payload))"
  then obtain v sl where "(name, q) \<in> set (codex_slot J T v sl)" by (auto simp: told_def codex_reports_def)
  from codex_slotD[OF this] show "window_ok (window_json (fst q) (snd q))" by (auto simp: window_okI)
qed

text \<open>Whatever a provider answers, its limits have one shape.\<close>

lemma limits_have_one_shape:
  "limits_ok (claude_limits J T up lines)" "limits_ok (snd (agy_limits J T w))" "limits_ok (snd (codex_limits J T here x))"
proof -
  have b: "limits_ok (JObject blank_windows)" by (simp add: limits_ok_def blank_windows_def window_okI)
  have c: "window_ok (claude_window J T e)" for e by (auto simp: claude_window_def window_okI split: option.splits json.splits)
  then show "limits_ok (claude_limits J T up lines)" by (simp add: limits_ok_def claude_limits_def CLAUDE_WINDOWS_def Let_def bt_insert_windows)
  have a: "limits_ok (agy_windows J T out)" for out
    unfolding agy_windows_def blank_windows_def fold_windows[OF reports_named(1)] limits_ok_def
    using standing_ok told_ok(1) window_okI(1) by blast
  then show "limits_ok (snd (agy_limits J T w))" by (auto simp: agy_limits_def b split: option.splits)
  have x: "limits_ok (codex_windows J T payload)" for payload
    unfolding codex_windows_def blank_windows_def fold_windows[OF reports_named(2)] limits_ok_def
    using standing_ok told_ok(2) window_okI(1) by blast
  have u: "limits_ok (JString UNAUTHENTICATED)" by (simp add: limits_ok_def)
  show "limits_ok (snd (codex_limits J T here x))"
    by (simp add: codex_limits_def b x u split: prod.splits option.splits)
qed

section \<open>Which server a login is watched on\<close>

text \<open>
  A login is begun on the first live server of the pool and finished on whichever is first by then. With only
  the server of the fast tier up, opening a chat without it puts another one in front: the login that was begun
  on server 1 is then waited for on server 2, which never hears that it landed.
\<close>

definition fast_only :: codex_world where
  "fast_only =
     \<lparr>xw_pool = [(join '' '' (codex_flags ((config_default [])\<lparr>cf_fast := True\<rparr>)), 1)],
      xw_servers = [1 \<mapsto> \<lparr>sh_flags = [], sh_generation = 1, sh_alive = True, sh_routes = [], sh_notices = [], sh_silenced = [], sh_stopping = False\<rparr>],
      xw_next_generation = 2, xw_emitted = [], xw_asked = [], xw_tick = 0, xw_answer = (\<lambda>_. ([], None)), xw_launch = (\<lambda>_. Launched)\<rparr>"

lemma login_watched_elsewhere:
  "any_live fast_only = Some 1" "any_live (fst (shared_get (codex_flags (config_default [])) fast_only)) = Some 2"
  by code_simp+

end
