(* ===== verification/Codex_Jail.thy ===== *)
theory Codex_Jail
  imports Json_Value
begin

text \<open>
  \<open>codex_app_server/jail.rs\<close>: the folder codex is pointed at instead of the user's own. Here a directory
  entry is a file or a symbolic link; opening a file goes through a link. Every step may fail.
\<close>

datatype entry = Plain bytes nat | Link string

record jail_world =
  jw_entries :: "string \<Rightarrow> entry option"
  jw_tick :: nat
  jw_fault :: "nat \<Rightarrow> string option"
  jw_torn :: "nat \<Rightarrow> nat"

type_synonym 'a jail_io = "jail_world \<Rightarrow> jail_world \<times> 'a res"

definition jail_bind :: "'a jail_io \<Rightarrow> ('a \<Rightarrow> 'b jail_io) \<Rightarrow> 'b jail_io" where
  "jail_bind m f w = (case m w of (w', Inl e) \<Rightarrow> (w', Inl e) | (w', Inr x) \<Rightarrow> f x w')"

definition jail_step :: "((string \<Rightarrow> entry option) \<Rightarrow> (string \<Rightarrow> entry option)) \<Rightarrow> unit jail_io" where
  "jail_step eff w =
     (let w1 = w\<lparr>jw_tick := Suc (jw_tick w)\<rparr>
      in case jw_fault w (jw_tick w) of Some e \<Rightarrow> (w1, Inl e) | None \<Rightarrow> (w1\<lparr>jw_entries := eff (jw_entries w)\<rparr>, Inr ()))"

text \<open>Where opening \<open>p\<close> leads.\<close>

definition through :: "(string \<Rightarrow> entry option) \<Rightarrow> string \<Rightarrow> string" where
  "through es p = (case es p of Some (Link q) \<Rightarrow> q | _ \<Rightarrow> p)"

definition truncated :: "string \<Rightarrow> (string \<Rightarrow> entry option) \<Rightarrow> (string \<Rightarrow> entry option)" where
  "truncated p es = es(through es p := Some (Plain [] (case es (through es p) of Some (Plain _ m) \<Rightarrow> m | _ \<Rightarrow> 384)))"

definition made_private :: "string \<Rightarrow> (string \<Rightarrow> entry option) \<Rightarrow> (string \<Rightarrow> entry option)" where
  "made_private p es = es(through es p := (case es (through es p) of Some (Plain bs _) \<Rightarrow> Some (Plain bs 384) | x \<Rightarrow> x))"

definition written :: "string \<Rightarrow> bytes \<Rightarrow> (string \<Rightarrow> entry option) \<Rightarrow> (string \<Rightarrow> entry option)" where
  "written p body es = es(through es p := (case es (through es p) of Some (Plain bs m) \<Rightarrow> Some (Plain (bs @ body) m) | x \<Rightarrow> x))"

text \<open>\<open>write_all\<close>: a failing write leaves a prefix behind.\<close>

definition jail_write :: "string \<Rightarrow> bytes \<Rightarrow> unit jail_io" where
  "jail_write p body w =
     (case jw_fault w (jw_tick w) of
        Some e \<Rightarrow> (w\<lparr>jw_tick := Suc (jw_tick w), jw_entries := written p (take (jw_torn w (jw_tick w)) body) (jw_entries w)\<rparr>, Inl e)
      | None \<Rightarrow> jail_step (written p body) w)"

text \<open>\<open>std::os::unix::fs::symlink\<close>: an error where something is there.\<close>

definition jail_symlink :: "string \<Rightarrow> string \<Rightarrow> unit jail_io" where
  "jail_symlink target link w =
     (if jw_entries w link \<noteq> None then (w\<lparr>jw_tick := Suc (jw_tick w)\<rparr>, Inl ''File exists'') else jail_step (\<lambda>es. es(link \<mapsto> Link target)) w)"

definition relink :: "string \<Rightarrow> string \<Rightarrow> unit jail_io" where
  "relink link target =
     jail_bind (\<lambda>w. if jw_entries w link \<noteq> None then jail_step (\<lambda>es. es(link := None)) w else (w, Inr ())) (\<lambda>_.
     jail_bind (jail_step (\<lambda>es. es)) (\<lambda>_. jail_symlink target link))"

text \<open>The dash of the comment is a letter of three bytes.\<close>

definition MINIMAL :: bytes where
  "MINIMAL = ''# written by silicon omni '' @ [CHR 0xE2, CHR 0x80, CHR 0x94] @ '' deliberately almost empty'' @ [newline]"

definition jail_dir :: "string \<Rightarrow> string" where
  "jail_dir home = home @ ''/jails/codex''"

definition jail_auth :: "string \<Rightarrow> string" where
  "jail_auth home = jail_dir home @ ''/auth.json''"

definition jail_config :: "string \<Rightarrow> string" where
  "jail_config home = jail_dir home @ ''/config.toml''"

definition real_auth :: "string \<Rightarrow> string" where
  "real_auth user_home = user_home @ ''/.codex/auth.json''"

definition jail_build :: "string \<Rightarrow> string \<Rightarrow> string jail_io" where
  "jail_build home user_home =
     jail_bind (jail_step (\<lambda>es. es)) (\<lambda>_.
     jail_bind (relink (jail_auth home) (real_auth user_home)) (\<lambda>_.
     jail_bind (jail_step (truncated (jail_config home))) (\<lambda>_.
     jail_bind (jail_step (made_private (jail_config home))) (\<lambda>_.
     jail_bind (jail_write (jail_config home) MINIMAL) (\<lambda>_ w. (w, Inr (jail_dir home)))))))"

section \<open>What a jail holds\<close>

lemma names_apart: "jail_auth home \<noteq> jail_config home"
proof -
  have "last (jail_auth home) \<noteq> last (jail_config home)" by (simp add: jail_auth_def jail_config_def)
  then show ?thesis by metis
qed

text \<open>A built jail: the link to the user's own credentials, omni's own settings, and the rest as it was.\<close>

definition jailed :: "string \<Rightarrow> string \<Rightarrow> (string \<Rightarrow> entry option) \<Rightarrow> (string \<Rightarrow> entry option)" where
  "jailed home user_home es = es(jail_auth home \<mapsto> Link (real_auth user_home), jail_config home \<mapsto> Plain MINIMAL 384)"

text \<open>From entries that satisfy the first, success ends in the second and failure in the third.\<close>

definition jail_triple ::
  "((string \<Rightarrow> entry option) \<Rightarrow> bool) \<Rightarrow> 'a jail_io \<Rightarrow> ('a \<Rightarrow> (string \<Rightarrow> entry option) \<Rightarrow> bool) \<Rightarrow> ((string \<Rightarrow> entry option) \<Rightarrow> bool) \<Rightarrow> bool" where
  "jail_triple P m Q R \<longleftrightarrow> (\<forall>w. P (jw_entries w) \<longrightarrow> (case m w of (w', Inr x) \<Rightarrow> Q x (jw_entries w') | (w', Inl e) \<Rightarrow> R (jw_entries w')))"

lemma jail_triple_bind: "jail_triple P m Q R \<Longrightarrow> (\<And>x. jail_triple (Q x) (f x) S R) \<Longrightarrow> jail_triple P (jail_bind m f) S R"
  by (fastforce simp: jail_triple_def jail_bind_def split: prod.splits sum.splits)

lemma jail_triple_step: "(\<And>es. P es \<Longrightarrow> Q () (eff es)) \<Longrightarrow> (\<And>es. P es \<Longrightarrow> R es) \<Longrightarrow> jail_triple P (jail_step eff) Q R"
  by (auto simp: jail_triple_def jail_step_def Let_def split: option.splits)

lemma jail_triple_write:
  "(\<And>es. P es \<Longrightarrow> Q () (written p body es)) \<Longrightarrow> (\<And>es n. P es \<Longrightarrow> R (written p (take n body) es)) \<Longrightarrow> jail_triple P (jail_write p body) Q R"
  by (auto simp: jail_triple_def jail_write_def jail_step_def Let_def split: option.splits)

lemma jail_triple_symlink:
  "(\<And>es. P es \<Longrightarrow> Q () (es(link \<mapsto> Link target))) \<Longrightarrow> (\<And>es. P es \<Longrightarrow> R es) \<Longrightarrow> jail_triple P (jail_symlink target link) Q R"
  by (auto simp: jail_triple_def jail_symlink_def jail_step_def Let_def split: option.splits)

text \<open>Between two builds only the two names of the jail differ, and the settings are no link.\<close>

definition only_jail :: "string \<Rightarrow> (string \<Rightarrow> entry option) \<Rightarrow> (string \<Rightarrow> entry option) \<Rightarrow> bool" where
  "only_jail home es0 es \<longleftrightarrow> (\<forall>p. p \<noteq> jail_auth home \<longrightarrow> p \<noteq> jail_config home \<longrightarrow> es p = es0 p) \<and> (\<forall>q. es (jail_config home) \<noteq> Some (Link q))"

lemma only_jail_steps:
  assumes "only_jail home es0 es"
  shows "through es (jail_config home) = jail_config home" "only_jail home es0 (es(jail_auth home := x))"
    "only_jail home es0 (truncated (jail_config home) es)" "only_jail home es0 (made_private (jail_config home) es)"
    "only_jail home es0 (written (jail_config home) body es)"
proof -
  show t: "through es (jail_config home) = jail_config home"
    using assms by (auto simp: only_jail_def through_def split: option.splits entry.splits)
  show "only_jail home es0 (es(jail_auth home := x))" using assms names_apart[of home] by (auto simp: only_jail_def)
  show "only_jail home es0 (truncated (jail_config home) es)" "only_jail home es0 (made_private (jail_config home) es)"
    "only_jail home es0 (written (jail_config home) body es)"
    using assms by (auto simp: truncated_def made_private_def written_def t only_jail_def split: option.splits entry.splits)
qed

text \<open>The settings as they are while they are written anew, with the link in place.\<close>

definition linked :: "string \<Rightarrow> string \<Rightarrow> (string \<Rightarrow> entry option) \<Rightarrow> (string \<Rightarrow> entry option) \<Rightarrow> bool" where
  "linked home user_home es0 es \<longleftrightarrow> only_jail home es0 es \<and> es (jail_auth home) = Some (Link (real_auth user_home))"

lemma config_step:
  assumes "linked home user_home es0 es"
  shows "linked home user_home es0 (truncated (jail_config home) es) \<and> (\<exists>m. truncated (jail_config home) es (jail_config home) = Some (Plain [] m))"
    "es (jail_config home) = Some (Plain bs m) \<Longrightarrow>
       linked home user_home es0 (made_private (jail_config home) es) \<and> made_private (jail_config home) es (jail_config home) = Some (Plain bs 384)"
    "es (jail_config home) = Some (Plain bs m) \<Longrightarrow>
       linked home user_home es0 (written (jail_config home) body es) \<and> written (jail_config home) body es (jail_config home) = Some (Plain (bs @ body) m)"
  using assms only_jail_steps[of home es0 es] names_apart[of home]
  by (auto simp: linked_def truncated_def made_private_def written_def)

lemma relink_triple:
  "jail_triple (only_jail home es0) (relink (jail_auth home) (real_auth user_home)) (\<lambda>_. linked home user_home es0) (only_jail home es0)"
proof -
  have "jail_triple (only_jail home es0) (\<lambda>w. if jw_entries w (jail_auth home) \<noteq> None then jail_step (\<lambda>es. es(jail_auth home := None)) w else (w, Inr ()))
      (\<lambda>_. only_jail home es0) (only_jail home es0)"
    using only_jail_steps(2) by (auto simp: jail_triple_def jail_step_def Let_def split: option.splits)
  then show ?thesis
    unfolding relink_def
    by (rule jail_triple_bind) (rule jail_triple_bind[where Q = "\<lambda>_. only_jail home es0"],
      auto intro!: jail_triple_step jail_triple_symlink simp: linked_def only_jail_steps(2))
qed

lemma jail_build_triple:
  "jail_triple (only_jail home es0) (jail_build home user_home)
     (\<lambda>x es. x = jail_dir home \<and> linked home user_home es0 es \<and> es (jail_config home) = Some (Plain MINIMAL 384)) (only_jail home es0)"
  unfolding jail_build_def
proof (rule jail_triple_bind)
  show "jail_triple (only_jail home es0) (jail_step (\<lambda>es. es)) (\<lambda>_. only_jail home es0) (only_jail home es0)" by (rule jail_triple_step)
  let ?lk = "linked home user_home es0" and ?ok = "only_jail home es0" and ?c = "jail_config home"
  have ok: "?lk es \<Longrightarrow> ?ok es" for es by (simp add: linked_def)
  fix x :: unit
  have fin: "jail_triple (\<lambda>es. ?lk es \<and> es ?c = Some (Plain MINIMAL 384)) (\<lambda>w. (w, Inr (jail_dir home)))
      (\<lambda>x es. x = jail_dir home \<and> ?lk es \<and> es ?c = Some (Plain MINIMAL 384)) ?ok" by (simp add: jail_triple_def)
  have wr: "jail_triple (\<lambda>es. ?lk es \<and> es ?c = Some (Plain [] 384)) (jail_write ?c MINIMAL) (\<lambda>_ es. ?lk es \<and> es ?c = Some (Plain MINIMAL 384)) ?ok"
    using config_step(3) ok by (intro jail_triple_write) (fastforce, blast)
  have pr: "jail_triple (\<lambda>es. ?lk es \<and> (\<exists>m. es ?c = Some (Plain [] m))) (jail_step (made_private ?c)) (\<lambda>_ es. ?lk es \<and> es ?c = Some (Plain [] 384)) ?ok"
    using config_step(2) ok by (intro jail_triple_step) blast+
  have tr: "jail_triple ?lk (jail_step (truncated ?c)) (\<lambda>_ es. ?lk es \<and> (\<exists>m. es ?c = Some (Plain [] m))) ?ok"
    using config_step(1) ok by (intro jail_triple_step) blast+
  show "jail_triple ?ok (jail_bind (relink (jail_auth home) (real_auth user_home)) (\<lambda>_. jail_bind (jail_step (truncated ?c)) (\<lambda>_.
      jail_bind (jail_step (made_private ?c)) (\<lambda>_. jail_bind (jail_write ?c MINIMAL) (\<lambda>_ w. (w, Inr (jail_dir home)))))))
      (\<lambda>x es. x = jail_dir home \<and> ?lk es \<and> es ?c = Some (Plain MINIMAL 384)) ?ok"
    by (rule jail_triple_bind[OF relink_triple jail_triple_bind[OF tr jail_triple_bind[OF pr jail_triple_bind[OF wr fin]]]])
qed

text \<open>
  Building is building once: what is not of the jail is left alone whichever step fails, the credentials of the
  user first of all, and a build that succeeds leaves the link, omni's own settings and everything else as it was.
\<close>

lemma jail_built:
  assumes "jail_build home user_home w = (w', r)" and "only_jail home (jw_entries w) (jw_entries w)"
  shows "only_jail home (jw_entries w) (jw_entries w')" and "r = Inr x \<Longrightarrow> x = jail_dir home \<and> jw_entries w' = jailed home user_home (jw_entries w)"
proof -
  have t: "case r of Inr x \<Rightarrow> x = jail_dir home \<and> linked home user_home (jw_entries w) (jw_entries w') \<and> jw_entries w' (jail_config home) = Some (Plain MINIMAL 384)
      | Inl _ \<Rightarrow> only_jail home (jw_entries w) (jw_entries w')"
    using jail_build_triple[of home "jw_entries w" user_home] assms by (auto simp: jail_triple_def split: sum.splits)
  then show "only_jail home (jw_entries w) (jw_entries w')" by (auto simp: linked_def split: sum.splits)
  show "r = Inr x \<Longrightarrow> x = jail_dir home \<and> jw_entries w' = jailed home user_home (jw_entries w)"
    using t by (auto simp: jailed_def linked_def only_jail_def fun_eq_iff)
qed

text \<open>A login through the link lands in the user's own file.\<close>

lemma login_lands:
  assumes "jw_entries w = jailed home user_home es"
  shows "through (jw_entries w) (jail_auth home) = real_auth user_home"
  using names_apart[of home] by (simp add: assms jailed_def through_def)

text \<open>What somebody else left in the jail stays in it.\<close>

lemma jail_keeps_strays:
  "jail_build home user_home w = (w', Inr x) \<Longrightarrow> only_jail home (jw_entries w) (jw_entries w) \<Longrightarrow>
   jw_entries w' (jail_dir home @ ''/AGENTS.md'') = jw_entries w (jail_dir home @ ''/AGENTS.md'')"
  using jail_built(2)[of home user_home w w' "Inr x"] by (simp add: jailed_def jail_auth_def jail_config_def)

end
