(* ===== verification/App_Server.thy ===== *)
theory App_Server
  imports Codex_Server
begin

text \<open>
  \<open>codex_app_server/appserver.rs\<close>, the threads behind \<open>server_call\<close>: many callers write to one process and wait,
  one thread hears what it prints and hands every reply to whoever waits under its number, one writes the refusals of
  what the process asks for, and the end of the process is told to everybody who waits. A caller gives up after its
  time. Here the oracle of \<open>server_call\<close> (a message, or none in time) is what these threads give.
\<close>

datatype app_phase = To_Write | Awaiting | Call_Ended "json res"

record app_call =
  ap_method :: string
  ap_params :: json
  ap_secs :: nat
  ap_phase :: app_phase

datatype app_sent = Sent_Call int json | Sent_Refusal json

record app_server =
  av_next :: int
  av_calls :: "int \<Rightarrow> app_call option"
  av_pending :: "int set"
  av_mail :: "int \<Rightarrow> json option"
  av_refusals :: "json list"
  av_refusing :: bool
  av_wire :: "app_sent list"
  av_heard :: "app_heard list"
  av_exit :: "int option"

definition app_server_new :: app_server where
  "app_server_new = \<lparr>av_next = 1, av_calls = Map.empty, av_pending = {}, av_mail = Map.empty, av_refusals = [], av_refusing = True,
     av_wire = [], av_heard = [], av_exit = None\<rparr>"

definition put_phase :: "int \<Rightarrow> app_phase \<Rightarrow> app_server \<Rightarrow> app_server" where
  "put_phase i ph s = s\<lparr>av_calls := (av_calls s)(i := map_option (\<lambda>c. c\<lparr>ap_phase := ph\<rparr>) (av_calls s i))\<rparr>"

definition not_running :: "string \<Rightarrow> string" where
  "not_running method = ''codex app-server is not running (wanted '' @ method @ '')''"

text \<open>\<open>call\<close>, up to the write; the write; and the two ways of waiting.\<close>

definition app_call_begins :: "string \<Rightarrow> json \<Rightarrow> nat \<Rightarrow> app_server \<Rightarrow> app_server" where
  "app_call_begins method params secs s =
     s\<lparr>av_next := av_next s + 1, av_pending := insert (av_next s) (av_pending s),
       av_calls := (av_calls s)(av_next s \<mapsto> \<lparr>ap_method = method, ap_params = params, ap_secs = secs, ap_phase = To_Write\<rparr>)\<rparr>"

definition app_call_writes :: "bool \<Rightarrow> int \<Rightarrow> app_call \<Rightarrow> app_server \<Rightarrow> app_server" where
  "app_call_writes ok i c s =
     (if ok then put_phase i Awaiting (s\<lparr>av_wire := av_wire s @ [Sent_Call i (call_body i (ap_method c) (ap_params c))]\<rparr>)
      else put_phase i (Call_Ended (Inl (not_running (ap_method c)))) (s\<lparr>av_pending := av_pending s - {i}\<rparr>))"

definition app_call_receives :: "codec \<Rightarrow> int \<Rightarrow> app_call \<Rightarrow> app_server \<Rightarrow> app_server" where
  "app_call_receives J i c s =
     (case av_mail s i of
        Some m \<Rightarrow> put_phase i (Call_Ended (call_outcome J (ap_method c) (ap_secs c) (Some m))) s
      | None \<Rightarrow> put_phase i (Call_Ended (call_outcome J (ap_method c) (ap_secs c) None)) (s\<lparr>av_pending := av_pending s - {i}\<rparr>))"

text \<open>A line the process printed.\<close>

definition app_hears :: "codec \<Rightarrow> bytes \<Rightarrow> app_server \<Rightarrow> app_server" where
  "app_hears J line s =
     (let h = app_line J line; s1 = s\<lparr>av_heard := av_heard s @ [h]\<rparr> in
      case h of
        App_Decline r \<Rightarrow> s1\<lparr>av_refusals := av_refusals s1 @ [r]\<rparr>
      | App_Reply i m \<Rightarrow>
          if i \<in> av_pending s1 then s1\<lparr>av_pending := av_pending s1 - {i}, av_mail := (av_mail s1)(i \<mapsto> m)\<rparr> else s1
      | _ \<Rightarrow> s1)"

text \<open>The thread that refuses: it stops when a write breaks.\<close>

definition app_refuses :: "bool \<Rightarrow> app_server \<Rightarrow> app_server" where
  "app_refuses ok s =
     (case av_refusals s of
        r # rs \<Rightarrow> if ok then s\<lparr>av_refusals := rs, av_wire := av_wire s @ [Sent_Refusal r]\<rparr> else s\<lparr>av_refusals := rs, av_refusing := False\<rparr>
      | [] \<Rightarrow> s)"

definition exit_message :: "int \<Rightarrow> json" where
  "exit_message code = JObject [(''error'', JObject [(''message'', JString (''codex app-server exited with '' @ show_int code))])]"

definition app_exits :: "int \<Rightarrow> app_server \<Rightarrow> app_server" where
  "app_exits code s =
     s\<lparr>av_exit := Some code, av_pending := {}, av_mail := (\<lambda>i. if i \<in> av_pending s then Some (exit_message code) else av_mail s i)\<rparr>"

inductive app_step :: "codec \<Rightarrow> app_server \<Rightarrow> app_server \<Rightarrow> bool" where
  begins: "app_step J s (app_call_begins method params secs s)"
| writes: "av_calls s i = Some c \<Longrightarrow> ap_phase c = To_Write \<Longrightarrow> app_step J s (app_call_writes ok i c s)"
| receives: "av_calls s i = Some c \<Longrightarrow> ap_phase c = Awaiting \<Longrightarrow> app_step J s (app_call_receives J i c s)"
| hears: "app_step J s (app_hears J line s)"
| refuses: "av_refusing s \<Longrightarrow> app_step J s (app_refuses ok s)"
| exits: "av_exit s = None \<Longrightarrow> app_step J s (app_exits code s)"

lemmas app_defs = app_server_new_def put_phase_def app_call_begins_def app_call_writes_def app_call_receives_def app_hears_def
  app_refuses_def app_exits_def Let_def

section \<open>Everybody gets what was meant for him\<close>

text \<open>What a message under a number is: a reply to it that was heard, or the news that the process has ended.\<close>

definition meant_for :: "app_server \<Rightarrow> int \<Rightarrow> json \<Rightarrow> bool" where
  "meant_for s i m \<longleftrightarrow> App_Reply i m \<in> set (av_heard s) \<or> (\<exists>code. av_exit s = Some code \<and> m = exit_message code)"

definition proper_end :: "codec \<Rightarrow> app_server \<Rightarrow> int \<Rightarrow> app_call \<Rightarrow> bool" where
  "proper_end J s i c \<longleftrightarrow>
     (case ap_phase c of
        Call_Ended r \<Rightarrow>
          r = Inl (not_running (ap_method c))
          \<or> r = call_outcome J (ap_method c) (ap_secs c) None
          \<or> (\<exists>m. meant_for s i m \<and> r = call_outcome J (ap_method c) (ap_secs c) (Some m))
      | _ \<Rightarrow> True)"

definition settled_call :: "app_call \<Rightarrow> bool" where
  "settled_call c \<longleftrightarrow> (case ap_phase c of Call_Ended _ \<Rightarrow> True | _ \<Rightarrow> False)"

text \<open>A number that was given out: its caller waits in the table, or his message has come, or he has left.\<close>

definition entry_ok :: "codec \<Rightarrow> app_server \<Rightarrow> int \<Rightarrow> bool" where
  "entry_ok J s i \<longleftrightarrow>
     (case av_calls s i of
        None \<Rightarrow> i \<notin> av_pending s \<and> av_mail s i = None
      | Some c \<Rightarrow> i < av_next s \<and> proper_end J s i c \<and> (\<forall>m. av_mail s i = Some m \<longrightarrow> meant_for s i m)
          \<and> (i \<in> av_pending s \<longleftrightarrow> \<not> settled_call c \<and> av_mail s i = None))"

definition refusals_asked :: "app_server \<Rightarrow> json list" where
  "refusals_asked s = concat (map (\<lambda>h. case h of App_Decline r \<Rightarrow> [r] | _ \<Rightarrow> []) (av_heard s))"

definition refusals_sent :: "app_server \<Rightarrow> json list" where
  "refusals_sent s = concat (map (\<lambda>x. case x of Sent_Refusal r \<Rightarrow> [r] | _ \<Rightarrow> []) (av_wire s))"

definition refusals_ok :: "app_server \<Rightarrow> bool" where
  "refusals_ok s \<longleftrightarrow> (av_refusing s \<longrightarrow> refusals_sent s @ av_refusals s = refusals_asked s) \<and> prefix (refusals_sent s) (refusals_asked s)"

lemma meant_for_mono:
  "meant_for s i m \<Longrightarrow> set (av_heard s) \<subseteq> set (av_heard t) \<Longrightarrow> av_exit s = None \<or> av_exit t = av_exit s \<Longrightarrow> meant_for t i m"
  by (auto simp: meant_for_def)

lemma proper_end_mono:
  assumes "proper_end J s i c" and "\<And>m. meant_for s i m \<Longrightarrow> meant_for t i m"
  shows "proper_end J t i c"
  using assms by (fastforce simp: proper_end_def split: app_phase.splits)

text \<open>An entry that is not touched stays in order while more is heard.\<close>

lemma entry_kept:
  assumes "entry_ok J s i" and "av_calls t i = av_calls s i" "av_mail t i = av_mail s i" "i \<in> av_pending t \<longleftrightarrow> i \<in> av_pending s"
    and "av_next s \<le> av_next t" "set (av_heard s) \<subseteq> set (av_heard t)" "av_exit s = None \<or> av_exit t = av_exit s"
  shows "entry_ok J t i"
proof -
  note mono = meant_for_mono[OF _ assms(6,7)]
  show ?thesis
  proof (cases "av_calls s i")
    case None
    then show ?thesis using assms(1-4) by (simp add: entry_ok_def)
  next
    case (Some c)
    then show ?thesis using assms(1-5) proper_end_mono[of J s i c t] mono by (simp add: entry_ok_def)
  qed
qed

lemma entry_posted:
  assumes "entry_ok J s i" and "i \<in> av_pending s" and "av_calls t i = av_calls s i" "av_mail t i = Some m" "i \<notin> av_pending t"
    and "av_next t = av_next s" and "meant_for t i m"
  shows "entry_ok J t i"
  using assms by (auto simp: entry_ok_def settled_call_def proper_end_def split: option.splits app_phase.splits)

lemma entry_ended:
  assumes "entry_ok J s i" and "av_calls s i = Some c" and "av_calls t i = Some (c\<lparr>ap_phase := Call_Ended r\<rparr>)" "av_mail t i = av_mail s i"
    "i \<notin> av_pending t" "av_next t = av_next s" "av_heard t = av_heard s" "av_exit t = av_exit s"
    and "proper_end J s i (c\<lparr>ap_phase := Call_Ended r\<rparr>)"
  shows "entry_ok J t i"
proof -
  have same: "meant_for t i = meant_for s i" using assms(7,8) by (simp add: meant_for_def fun_eq_iff)
  then have "proper_end J t i (c\<lparr>ap_phase := Call_Ended r\<rparr>)" using assms(9) by (simp add: proper_end_def)
  then show ?thesis using assms(1-6) same by (simp add: entry_ok_def settled_call_def)
qed

section \<open>The steps\<close>

lemma entry_begins:
  assumes "\<And>i. entry_ok J s i"
  shows "entry_ok J (app_call_begins method params secs s) i"
proof (cases "i = av_next s")
  case True
  have "av_calls s i = None" using assms[of i] True by (auto simp: entry_ok_def split: option.splits)
  then show ?thesis using assms[of i] True by (simp add: entry_ok_def app_call_begins_def proper_end_def settled_call_def)
next
  case False
  then show ?thesis by (intro entry_kept[OF assms[of i]]) (simp_all add: app_call_begins_def)
qed

lemma entry_writes:
  assumes "\<And>i. entry_ok J s i" and c: "av_calls s j = Some c" "ap_phase c = To_Write"
  shows "entry_ok J (app_call_writes ok j c s) i"
proof (cases "i = j")
  case False
  then show ?thesis by (intro entry_kept[OF assms(1)[of i]]) (simp_all add: app_call_writes_def put_phase_def)
next
  case True
  show ?thesis
  proof (cases ok)
    case True
    then show ?thesis using assms(1)[of i] c \<open>i = j\<close>
      by (simp add: entry_ok_def app_call_writes_def put_phase_def proper_end_def settled_call_def meant_for_def)
  next
    case False
    have "proper_end J s i (c\<lparr>ap_phase := Call_Ended (Inl (not_running (ap_method c)))\<rparr>)" unfolding proper_end_def by simp
    then show ?thesis using c \<open>i = j\<close> False
      by (intro entry_ended[OF assms(1)[of i]]) (simp_all add: app_call_writes_def put_phase_def)
  qed
qed

lemma entry_receives:
  assumes "\<And>i. entry_ok J s i" and c: "av_calls s j = Some c"
  shows "entry_ok J (app_call_receives J j c s) i"
proof (cases "i = j")
  case False
  then show ?thesis by (intro entry_kept[OF assms(1)[of i]]) (simp_all add: app_call_receives_def put_phase_def split: option.splits)
next
  case True
  show ?thesis
  proof (cases "av_mail s j")
    case None
    have "proper_end J s i (c\<lparr>ap_phase := Call_Ended (call_outcome J (ap_method c) (ap_secs c) None)\<rparr>)" unfolding proper_end_def by simp
    then show ?thesis using c True None
      by (intro entry_ended[OF assms(1)[of i]]) (simp_all add: app_call_receives_def put_phase_def)
  next
    case (Some m)
    then have "meant_for s i m" "i \<notin> av_pending s" using assms(1)[of i] c True by (auto simp: entry_ok_def)
    moreover from this have "proper_end J s i (c\<lparr>ap_phase := Call_Ended (call_outcome J (ap_method c) (ap_secs c) (Some m))\<rparr>)"
      unfolding proper_end_def by auto
    ultimately show ?thesis using c True Some
      by (intro entry_ended[OF assms(1)[of i]]) (simp_all add: app_call_receives_def put_phase_def)
  qed
qed

lemma line_heard_same:
  "av_calls (app_hears J line s) = av_calls s" "av_next (app_hears J line s) = av_next s" "av_exit (app_hears J line s) = av_exit s"
  "av_heard (app_hears J line s) = av_heard s @ [app_line J line]" "av_wire (app_hears J line s) = av_wire s"
  "av_refusing (app_hears J line s) = av_refusing s"
  "av_refusals (app_hears J line s) = av_refusals s @ (case app_line J line of App_Decline x \<Rightarrow> [x] | _ \<Rightarrow> [])"
  by (simp_all add: app_hears_def Let_def split: app_heard.splits)

lemma entry_hears:
  assumes "entry_ok J s i"
  shows "entry_ok J (app_hears J line s) i"
proof (cases "\<exists>m. app_line J line = App_Reply i m \<and> i \<in> av_pending s")
  case True
  then obtain m where m: "app_line J line = App_Reply i m" "i \<in> av_pending s" by blast
  then have "meant_for (app_hears J line s) i m" by (simp add: meant_for_def line_heard_same)
  then show ?thesis using m by (intro entry_posted[OF assms]) (simp_all add: line_heard_same, simp_all add: app_hears_def)
next
  case False
  then have "av_mail (app_hears J line s) i = av_mail s i" "i \<in> av_pending (app_hears J line s) \<longleftrightarrow> i \<in> av_pending s"
    by (auto simp: app_hears_def Let_def split: app_heard.splits)
  then show ?thesis by (intro entry_kept[OF assms]) (auto simp: line_heard_same)
qed

lemma entry_exits:
  assumes "entry_ok J s i" and "av_exit s = None"
  shows "entry_ok J (app_exits code s) i"
proof (cases "i \<in> av_pending s")
  case True
  then show ?thesis by (intro entry_posted[OF assms(1), where m = "exit_message code"]) (simp_all add: app_exits_def meant_for_def)
next
  case False
  then show ?thesis using assms(2) by (intro entry_kept[OF assms(1)]) (simp_all add: app_exits_def)
qed

lemma refusals_same:
  "refusals_ok s \<Longrightarrow> av_heard t = av_heard s \<Longrightarrow> av_refusals t = av_refusals s \<Longrightarrow> av_refusing t = av_refusing s
    \<Longrightarrow> refusals_sent t = refusals_sent s \<Longrightarrow> refusals_ok t"
  by (simp add: refusals_ok_def refusals_asked_def)

lemma refusals_hears: "refusals_ok s \<Longrightarrow> refusals_ok (app_hears J line s)"
  by (auto simp: refusals_ok_def refusals_asked_def refusals_sent_def line_heard_same simp flip: append_assoc)

lemma refusals_refuses:
  assumes "refusals_ok s" and "av_refusing s"
  shows "refusals_ok (app_refuses ok s)"
proof (cases "av_refusals s")
  case (Cons r rs)
  have "refusals_sent s @ r # rs = refusals_asked s" using assms Cons by (simp add: refusals_ok_def)
  then show ?thesis using assms Cons
    by (cases ok) (auto simp: refusals_ok_def app_refuses_def refusals_asked_def refusals_sent_def prefix_def)
qed (use assms in \<open>simp add: app_refuses_def\<close>)

lemma app_inv_step:
  assumes "app_step J s t" and "\<And>i. entry_ok J s i" and "refusals_ok s"
  shows "entry_ok J t i \<and> refusals_ok t"
  using assms(1)
proof cases
  case (begins name ps secs)
  then show ?thesis using entry_begins[OF assms(2)] refusals_same[OF assms(3)] by (simp add: app_call_begins_def refusals_sent_def)
next
  case (writes j c ok)
  have "refusals_ok t" unfolding writes by (rule refusals_same[OF assms(3)]) (simp_all add: app_call_writes_def put_phase_def refusals_sent_def)
  then show ?thesis using entry_writes[OF assms(2)] writes by blast
next
  case (receives j c)
  have "refusals_ok t" unfolding receives
    by (rule refusals_same[OF assms(3)]) (simp_all add: app_call_receives_def put_phase_def refusals_sent_def split: option.splits)
  then show ?thesis using entry_receives[OF assms(2)] receives by blast
next
  case (hears line)
  then show ?thesis using entry_hears[OF assms(2)] refusals_hears[OF assms(3)] by blast
next
  case (refuses ok)
  have "entry_ok J t i" unfolding refuses by (rule entry_kept[OF assms(2)]) (simp_all add: app_refuses_def split: list.splits)
  then show ?thesis using refusals_refuses[OF assms(3)] refuses by blast
next
  case (exits code)
  have "refusals_ok t" unfolding exits by (rule refusals_same[OF assms(3)]) (simp_all add: app_exits_def refusals_sent_def)
  then show ?thesis using entry_exits[OF assms(2)] exits by blast
qed

lemma app_inv_runs:
  assumes "(app_step J)\<^sup>*\<^sup>* app_server_new s"
  shows "(\<forall>i. entry_ok J s i) \<and> refusals_ok s"
  using assms
proof (induction rule: rtranclp_induct)
  case base
  show ?case by (simp add: entry_ok_def refusals_ok_def app_server_new_def refusals_sent_def refusals_asked_def)
qed (use app_inv_step in blast)

text \<open>
  However callers, replies, refusals and the end of the process come together: a call that succeeds gives the result of
  a reply with its own number; the table holds exactly the calls that still wait for a message; and what the process
  asks for is refused once each and in order.
\<close>

theorem app_calls_own_replies:
  assumes "(app_step J)\<^sup>*\<^sup>* app_server_new s"
  shows "(\<forall>i c v. av_calls s i = Some c \<and> ap_phase c = Call_Ended (Inr v)
           \<longrightarrow> (\<exists>m. App_Reply i m \<in> set (av_heard s) \<and> jget m ''error'' = None \<and> v = jindex m ''result''))
    \<and> (\<forall>i c. av_calls s i = Some c \<longrightarrow> (i \<in> av_pending s \<longleftrightarrow> \<not> settled_call c \<and> av_mail s i = None))
    \<and> prefix (refusals_sent s) (refusals_asked s)"
proof (intro conjI allI impI)
  have inv: "\<And>i. entry_ok J s i" and ref: "refusals_ok s" using app_inv_runs[OF assms] by auto
  show "prefix (refusals_sent s) (refusals_asked s)" using ref by (simp add: refusals_ok_def)
  fix i c
  show "i \<in> av_pending s \<longleftrightarrow> \<not> settled_call c \<and> av_mail s i = None" if "av_calls s i = Some c" using inv[of i] that by (simp add: entry_ok_def)
  fix v
  assume c: "av_calls s i = Some c \<and> ap_phase c = Call_Ended (Inr v)"
  then have "proper_end J s i c" using inv[of i] by (simp add: entry_ok_def)
  then obtain m where m: "meant_for s i m" "Inr v = call_outcome J (ap_method c) (ap_secs c) (Some m)"
    using c by (auto simp: proper_end_def call_outcome_def)
  then have "jget m ''error'' = None" "v = jindex m ''result''" by (auto simp: call_outcome_def split: option.splits)
  moreover from this have "App_Reply i m \<in> set (av_heard s)" using m(1) by (auto simp: meant_for_def exit_message_def jget_def bt_get_def)
  ultimately show "\<exists>m. App_Reply i m \<in> set (av_heard s) \<and> jget m ''error'' = None \<and> v = jindex m ''result''" by blast
qed

end
