(* ===== verification/Guardian.thy ===== *)
theory Guardian
  imports Line_Process
begin

text \<open>
  The lower half of \<open>shared/proc.rs\<close>, \<open>guarded_spawn\<close> to \<open>guardian_main\<close>: every child leads a process
  group of its own and has a guardian outside of it, which reads a pipe only the owner may keep open for
  writing. Here are the processes of one owner at the level of their system calls: the owner, the children it
  forks, their guardians and whatever the children start, each with its table of open files. A call may fail.
  Forking copies a table, so that a child starts with the write ends of all the pipes of the owner: what closes
  them again is the subject. Numbers of processes are not reused, and a process that ended is gone at once.
\<close>

section \<open>What is run\<close>

record spawn_spec =
  sp_argv :: "string list"
  sp_env :: vars
  sp_unset :: "string list"
  sp_cwd :: "string option"

definition spawn_new :: "string list \<Rightarrow> spawn_spec" where
  "spawn_new argv = \<lparr>sp_argv = argv, sp_env = [], sp_unset = [], sp_cwd = None\<rparr>"

definition spawn_env :: "string \<Rightarrow> string \<Rightarrow> spawn_spec \<Rightarrow> spawn_spec" where
  "spawn_env k v sp = sp\<lparr>sp_env := sp_env sp @ [(k, v)]\<rparr>"

definition spawn_cwd :: "string \<Rightarrow> spawn_spec \<Rightarrow> spawn_spec" where
  "spawn_cwd d sp = sp\<lparr>sp_cwd := Some d\<rparr>"

text \<open>
  The environment of a child: what the process has, what the shell gives, what is added, less what is taken
  away; the last word on a name counts.
\<close>

definition child_env :: "vars \<Rightarrow> vars \<Rightarrow> spawn_spec \<Rightarrow> vars" where
  "child_env own given sp = fold bt_remove (sp_unset sp) (fold (\<lambda>(k, v) m. bt_insert k v m) (given @ sp_env sp) own)"

text \<open>The first half of \<open>LineProcess::start\<close>: the program, its arguments, its environment and its directory.\<close>

definition line_command :: "(string \<Rightarrow> bool) \<Rightarrow> vars \<Rightarrow> probe \<Rightarrow> string \<Rightarrow> int \<Rightarrow> int \<Rightarrow> spawn_spec \<Rightarrow> shell_memory
    \<Rightarrow> shell_memory \<times> (string list \<times> vars \<times> string option) res" where
  "line_command is_file own ask sh instant later sp m =
     (case sp_argv sp of
        [] \<Rightarrow> (m, Inl ''nothing to run'')
      | program # rest \<Rightarrow>
          (case command_for is_file own ask sh instant later program m of
             (m1, found, given) \<Rightarrow> (m1, Inr (found # rest, child_env own given sp, sp_cwd sp))))"

lemma child_env_get:
  "bt_get (child_env own given sp) k =
     (if k \<in> set (sp_unset sp) then None
      else (case map_of (rev (sp_env sp)) k of
              Some v \<Rightarrow> Some v
            | None \<Rightarrow> (case map_of (rev given) k of Some v \<Rightarrow> Some v | None \<Rightarrow> bt_get own k)))"
proof -
  have ins: "bt_get (fold (\<lambda>(k, v) m. bt_insert k v m) kvs m) k = (case map_of (rev kvs) k of Some v \<Rightarrow> Some v | None \<Rightarrow> bt_get m k)" for kvs m
    by (induction kvs arbitrary: m) (auto simp: map_add_def split: option.splits)
  have rem: "bt_get (fold bt_remove ks m) k = (if k \<in> set ks then None else bt_get m k)" for ks and m :: vars
    by (induction ks arbitrary: m) auto
  show ?thesis by (simp add: child_env_def rem ins map_add_def split: option.splits)
qed

section \<open>Open files\<close>

datatype fd_end = Death_Read nat | Death_Write nat | Other_End

type_synonym fd_table = "nat \<Rightarrow> fd_end option"

definition DEATH_FD :: nat where
  "DEATH_FD = 3"

text \<open>The bound of the loop that closes files one by one; \<open>None\<close> is \<open>RLIM_INFINITY\<close>.\<close>

definition open_fd_limit :: "nat option \<Rightarrow> nat" where
  "open_fd_limit rlimit = (case rlimit of Some n \<Rightarrow> min n 2147483647 | None \<Rightarrow> 65536)"

text \<open>The pipes are made with \<open>O_CLOEXEC\<close>: a program that is run has none of their ends.\<close>

definition exec_fds :: "fd_table \<Rightarrow> fd_table" where
  "exec_fds fds = (\<lambda>fd. if fds fd = Some Other_End then Some Other_End else None)"

text \<open>The standard streams are in place before \<open>pre_exec\<close> is called.\<close>

definition fork_fds :: "fd_table \<Rightarrow> fd_table" where
  "fork_fds fds = fds(0 \<mapsto> Other_End, 1 \<mapsto> Other_End, 2 \<mapsto> Other_End)"

text \<open>What a guardian keeps: \<open>ranged\<close> says whether the system has \<open>close_range\<close>.\<close>

definition guardian_fds :: "bool \<Rightarrow> nat \<Rightarrow> nat \<Rightarrow> fd_table \<Rightarrow> fd_table" where
  "guardian_fds ranged max_fd death_read fds =
     (let fds1 = (if death_read = DEATH_FD then fds else fds(DEATH_FD := fds death_read));
          fds2 = fds1(0 := None, 1 := None, 2 := None)
      in (\<lambda>fd. if 4 \<le> fd \<and> (ranged \<or> fd < max_fd) then None else fds2 fd))"

section \<open>A child and its guardian\<close>

datatype child_phase = No_Child | Forked | In_Session | Write_Closed | Guarded | Read_Closed | Running | Failed | Ended

datatype guard_phase = No_Guard | New_Guard | Apart | Polling | Guard_Gone

record ward =
  wd_read :: nat
  wd_write :: nat
  wd_child :: child_phase
  wd_cfds :: fd_table
  wd_members :: nat
  wd_guard :: guard_phase
  wd_gfds :: fd_table

definition no_ward :: ward where
  "no_ward = \<lparr>wd_read = 0, wd_write = 0, wd_child = No_Child, wd_cfds = Map.empty, wd_members = 0,
     wd_guard = No_Guard, wd_gfds = Map.empty\<rparr>"

text \<open>Before \<open>exec\<close>, and among these a member of its own group.\<close>

definition starting :: "ward \<Rightarrow> bool" where
  "starting w \<longleftrightarrow> wd_child w \<in> {Forked, In_Session, Write_Closed, Guarded, Read_Closed}"

definition leads :: "ward \<Rightarrow> bool" where
  "leads w \<longleftrightarrow> wd_child w \<in> {In_Session, Write_Closed, Guarded, Read_Closed, Running}"

text \<open>Somebody is in the group: \<open>kill(-pgid, 0)\<close> succeeds.\<close>

definition grouped :: "ward \<Rightarrow> bool" where
  "grouped w \<longleftrightarrow> leads w \<or> 0 < wd_members w"

text \<open>\<open>kill(-pgid, SIGKILL)\<close>.\<close>

definition kill_group :: "ward \<Rightarrow> ward" where
  "kill_group w = w\<lparr>wd_child := (if leads w then Ended else wd_child w), wd_members := 0\<rparr>"

text \<open>\<open>guardian_pre_exec\<close> one call at a time, and \<open>exec\<close> after it; \<open>ok\<close> says whether the call succeeded.\<close>

definition pre_exec_step :: "bool \<Rightarrow> ward \<Rightarrow> ward" where
  "pre_exec_step ok w =
     (case wd_child w of
        Forked \<Rightarrow> w\<lparr>wd_child := (if ok then In_Session else Failed)\<rparr>
      | In_Session \<Rightarrow> w\<lparr>wd_child := Write_Closed, wd_cfds := (wd_cfds w)(wd_write w := None)\<rparr>
      | Write_Closed \<Rightarrow> if ok then w\<lparr>wd_child := Guarded, wd_guard := New_Guard, wd_gfds := wd_cfds w\<rparr> else w\<lparr>wd_child := Failed\<rparr>
      | Guarded \<Rightarrow> w\<lparr>wd_child := Read_Closed, wd_cfds := (wd_cfds w)(wd_read w := None)\<rparr>
      | Read_Closed \<Rightarrow> if ok then w\<lparr>wd_child := Running, wd_cfds := exec_fds (wd_cfds w)\<rparr> else w\<lparr>wd_child := Failed\<rparr>
      | _ \<Rightarrow> w)"

text \<open>\<open>guardian_main\<close> up to its loop.\<close>

definition guardian_step :: "bool \<Rightarrow> bool \<Rightarrow> nat \<Rightarrow> ward \<Rightarrow> ward" where
  "guardian_step ok ranged max_fd w =
     (case wd_guard w of
        New_Guard \<Rightarrow> if ok then w\<lparr>wd_guard := Apart\<rparr> else kill_group w\<lparr>wd_guard := Guard_Gone\<rparr>
      | Apart \<Rightarrow>
          if ok \<or> wd_read w = DEATH_FD then w\<lparr>wd_guard := Polling, wd_gfds := guardian_fds ranged max_fd (wd_read w) (wd_gfds w)\<rparr>
          else kill_group w\<lparr>wd_guard := Guard_Gone\<rparr>
      | _ \<Rightarrow> w)"

text \<open>One round of the loop, when \<open>poll\<close> said that there is something to read and when it did not.\<close>

definition guardian_round :: "bool \<Rightarrow> ward \<Rightarrow> ward" where
  "guardian_round ready w =
     (if ready then kill_group w\<lparr>wd_guard := Guard_Gone\<rparr>
      else if grouped w then w else w\<lparr>wd_guard := Guard_Gone\<rparr>)"

section \<open>The owner\<close>

record house =
  ho_alive :: bool
  ho_fds :: fd_table
  ho_rlimit :: "nat option"
  ho_ranged :: bool
  ho_next :: nat
  ho_spawning :: bool
  ho_ward :: "nat \<Rightarrow> ward"

definition on_ward :: "nat \<Rightarrow> (ward \<Rightarrow> ward) \<Rightarrow> house \<Rightarrow> house" where
  "on_ward k f s = s\<lparr>ho_ward := (ho_ward s)(k := f (ho_ward s k))\<rparr>"

text \<open>A free number the system gives out.\<close>

definition may_open :: "house \<Rightarrow> nat \<Rightarrow> bool" where
  "may_open s fd \<longleftrightarrow> ho_fds s fd = None \<and> (case ho_rlimit s of Some n \<Rightarrow> fd < n | None \<Rightarrow> True)"

text \<open>\<open>guarded_spawn\<close>: the pipe, with the lock taken; the fork; and what is kept when it is over.\<close>

definition death_pipe :: "nat \<Rightarrow> nat \<Rightarrow> house \<Rightarrow> house" where
  "death_pipe r w s =
     s\<lparr>ho_fds := (ho_fds s)(r \<mapsto> Death_Read (ho_next s), w \<mapsto> Death_Write (ho_next s)), ho_spawning := True,
       ho_next := Suc (ho_next s), ho_ward := (ho_ward s)(ho_next s := no_ward\<lparr>wd_read := r, wd_write := w\<rparr>)\<rparr>"

definition newest :: "house \<Rightarrow> nat" where
  "newest s = ho_next s - 1"

definition spawn_forks :: "house \<Rightarrow> house" where
  "spawn_forks s = on_ward (newest s) (\<lambda>w. w\<lparr>wd_child := Forked, wd_cfds := fork_fds (ho_fds s)\<rparr>) s"

definition spawn_returns :: "bool \<Rightarrow> house \<Rightarrow> house" where
  "spawn_returns ok s =
     (let w = ho_ward s (newest s); fds = (ho_fds s)(wd_read w := None)
      in s\<lparr>ho_spawning := False, ho_fds := (if ok then fds else fds(wd_write w := None))\<rparr>)"

definition holds_write :: "nat \<Rightarrow> fd_table \<Rightarrow> bool" where
  "holds_write k fds \<longleftrightarrow> (\<exists>fd. fds fd = Some (Death_Write k))"

definition written_to :: "house \<Rightarrow> nat \<Rightarrow> bool" where
  "written_to s k \<longleftrightarrow>
     ho_alive s \<and> holds_write k (ho_fds s)
     \<or> (\<exists>j. (starting (ho_ward s j) \<or> wd_child (ho_ward s j) = Running) \<and> holds_write k (wd_cfds (ho_ward s j)))
     \<or> (\<exists>j. wd_guard (ho_ward s j) \<in> {New_Guard, Apart, Polling} \<and> holds_write k (wd_gfds (ho_ward s j)))"

text \<open>
  \<open>poll\<close> on the guardian's descriptor: a closed one is reported at once, the read end when nobody can write
  any more (nobody ever does), and of anything else nothing is known.
\<close>

definition may_wake :: "house \<Rightarrow> fd_end option \<Rightarrow> bool" where
  "may_wake s e = (case e of Some (Death_Read k) \<Rightarrow> \<not> written_to s k | _ \<Rightarrow> True)"

datatype actor = Owner | Child nat | Guard nat | Others

text \<open>
  What happens, by whom: a poll that times out or is interrupted, and what the programs do, is nobody's
  duty.
\<close>

inductive house_step :: "actor \<Rightarrow> house \<Rightarrow> house \<Rightarrow> bool" where
  opens: "ho_alive s \<Longrightarrow> may_open s fd \<Longrightarrow> house_step Owner s (s\<lparr>ho_fds := (ho_fds s)(fd \<mapsto> Other_End)\<rparr>)"
| closes: "ho_alive s \<Longrightarrow> ho_fds s fd = Some Other_End \<Longrightarrow> 3 \<le> fd \<Longrightarrow> house_step Owner s (s\<lparr>ho_fds := (ho_fds s)(fd := None)\<rparr>)"
| pipes: "ho_alive s \<Longrightarrow> \<not> ho_spawning s \<Longrightarrow> may_open s r \<Longrightarrow> may_open s w \<Longrightarrow> r \<noteq> w \<Longrightarrow> house_step Owner s (death_pipe r w s)"
| forks: "ho_alive s \<Longrightarrow> ho_spawning s \<Longrightarrow> wd_child (ho_ward s (newest s)) = No_Child \<Longrightarrow> house_step Owner s (spawn_forks s)"
| fork_fails: "ho_alive s \<Longrightarrow> ho_spawning s \<Longrightarrow> wd_child (ho_ward s (newest s)) = No_Child \<Longrightarrow> house_step Owner s (spawn_returns False s)"
| spawned: "ho_alive s \<Longrightarrow> ho_spawning s \<Longrightarrow> wd_child (ho_ward s (newest s)) \<in> {Running, Failed, Ended}
    \<Longrightarrow> house_step Owner s (spawn_returns (wd_child (ho_ward s (newest s)) \<noteq> Failed) s)"
| releases: "ho_alive s \<Longrightarrow> ho_fds s fd = Some (Death_Write k) \<Longrightarrow> \<not> (ho_spawning s \<and> k = newest s)
    \<Longrightarrow> house_step Owner s (s\<lparr>ho_fds := (ho_fds s)(fd := None)\<rparr>)"
| kills: "ho_alive s \<Longrightarrow> \<not> starting (ho_ward s k) \<Longrightarrow> house_step Owner s (on_ward k kill_group s)"
| dies: "ho_alive s \<Longrightarrow> house_step Owner s (s\<lparr>ho_alive := False\<rparr>)"
| starts: "starting (ho_ward s k) \<Longrightarrow> house_step (Child k) s (on_ward k (pre_exec_step ok) s)"
| settles: "wd_guard (ho_ward s k) \<in> {New_Guard, Apart}
    \<Longrightarrow> house_step (Guard k) s (on_ward k (guardian_step ok (ho_ranged s) (open_fd_limit (ho_rlimit s))) s)"
| wakes: "wd_guard (ho_ward s k) = Polling \<Longrightarrow> may_wake s (wd_gfds (ho_ward s k) DEATH_FD)
    \<Longrightarrow> house_step (Guard k) s (on_ward k (guardian_round True) s)"
| sleeps: "wd_guard (ho_ward s k) = Polling \<Longrightarrow> house_step Others s (on_ward k (guardian_round False) s)"
| member_forks: "\<not> starting (ho_ward s k) \<Longrightarrow> grouped (ho_ward s k)
    \<Longrightarrow> house_step Others s (on_ward k (\<lambda>w. w\<lparr>wd_members := Suc (wd_members w)\<rparr>) s)"
| member_ends: "wd_members (ho_ward s k) = Suc n \<Longrightarrow> house_step Others s (on_ward k (\<lambda>w. w\<lparr>wd_members := n\<rparr>) s)"
| program_ends: "wd_child (ho_ward s k) = Running \<Longrightarrow> house_step Others s (on_ward k (\<lambda>w. w\<lparr>wd_child := Ended\<rparr>) s)"

definition house_start :: "nat option \<Rightarrow> bool \<Rightarrow> house" where
  "house_start rlimit ranged =
     \<lparr>ho_alive = True, ho_fds = [0 \<mapsto> Other_End, 1 \<mapsto> Other_End, 2 \<mapsto> Other_End], ho_rlimit = rlimit,
       ho_ranged = ranged, ho_next = 0, ho_spawning = False, ho_ward = (\<lambda>_. no_ward)\<rparr>"

definition house_any :: "house \<Rightarrow> house \<Rightarrow> bool" where
  "house_any s t \<longleftrightarrow> (\<exists>a. house_step a s t)"

lemmas house_defs = on_ward_def death_pipe_def newest_def spawn_forks_def spawn_returns_def

section \<open>Nobody else keeps a pipe open\<close>

text \<open>Every descriptor a guardian inherits is one it closes: there is \<open>close_range\<close>, or a limit the loop reaches.\<close>

definition closable :: "nat option \<Rightarrow> bool \<Rightarrow> bool" where
  "closable rlimit ranged \<longleftrightarrow> ranged \<or> (\<exists>n. rlimit = Some n \<and> n \<le> 2147483647)"

definition capped :: "house \<Rightarrow> fd_table \<Rightarrow> bool" where
  "capped s fds \<longleftrightarrow> ho_ranged s \<or> (\<forall>fd\<ge>4. fds fd \<noteq> None \<longrightarrow> fd < open_fd_limit (ho_rlimit s))"

definition ward_ok :: "house \<Rightarrow> nat \<Rightarrow> ward \<Rightarrow> bool" where
  "ward_ok s k w \<longleftrightarrow>
     (starting w \<longrightarrow> capped s (wd_cfds w) \<and> 3 \<le> wd_read w \<and> wd_read w \<noteq> wd_write w \<and> wd_members w = 0)
     \<and> (wd_child w \<in> {Forked, In_Session, Write_Closed} \<longrightarrow> wd_cfds w (wd_read w) = Some (Death_Read k) \<and> wd_guard w = No_Guard)
     \<and> (wd_child w = No_Child \<longrightarrow> wd_guard w = No_Guard \<and> wd_members w = 0)
     \<and> (wd_child w = Failed \<longrightarrow> wd_members w = 0)
     \<and> (wd_child w = Running \<longrightarrow> (\<forall>j. \<not> holds_write j (wd_cfds w)))
     \<and> (wd_guard w \<in> {New_Guard, Apart} \<longrightarrow> 3 \<le> wd_read w \<and> capped s (wd_gfds w) \<and> wd_gfds w (wd_read w) = Some (Death_Read k))
     \<and> (wd_guard w = Polling \<longrightarrow> wd_gfds w = [DEATH_FD \<mapsto> Death_Read k])
     \<and> (grouped w \<and> wd_child w \<notin> {In_Session, Write_Closed} \<longrightarrow> wd_guard w \<in> {New_Guard, Apart, Polling})"

definition house_ok :: "house \<Rightarrow> bool" where
  "house_ok s \<longleftrightarrow>
     closable (ho_rlimit s) (ho_ranged s) \<and> capped s (ho_fds s) \<and> (\<forall>fd<3. ho_fds s fd = Some Other_End)
     \<and> (\<forall>k. ward_ok s k (ho_ward s k)) \<and> (\<forall>k\<ge>ho_next s. ho_ward s k = no_ward)
     \<and> (ho_spawning s \<longrightarrow> 0 < ho_next s \<and> (let w = ho_ward s (newest s) in
          ho_fds s (wd_read w) = Some (Death_Read (newest s)) \<and> 3 \<le> wd_read w \<and> 3 \<le> wd_write w \<and> wd_read w \<noteq> wd_write w))"

lemma capped_upd [simp]: "capped (s\<lparr>ho_alive := a\<rparr>) fds = capped s fds" "capped (s\<lparr>ho_fds := t\<rparr>) fds = capped s fds"
  "capped (s\<lparr>ho_spawning := b\<rparr>) fds = capped s fds" "capped (s\<lparr>ho_ward := v\<rparr>) fds = capped s fds"
  "capped (s\<lparr>ho_next := n\<rparr>) fds = capped s fds"
  by (simp_all add: capped_def)

lemma ward_ok_upd [simp]: "ward_ok (s\<lparr>ho_alive := a\<rparr>) = ward_ok s" "ward_ok (s\<lparr>ho_fds := t\<rparr>) = ward_ok s"
  "ward_ok (s\<lparr>ho_spawning := b\<rparr>) = ward_ok s" "ward_ok (s\<lparr>ho_ward := v\<rparr>) = ward_ok s" "ward_ok (s\<lparr>ho_next := n\<rparr>) = ward_ok s"
  by (simp_all add: ward_ok_def fun_eq_iff)

lemma capped_less: "capped s fds \<Longrightarrow> (\<And>fd. fds fd = None \<Longrightarrow> t fd = None) \<Longrightarrow> capped s t"
  by (auto simp: capped_def)

lemma capped_opened:
  assumes "closable (ho_rlimit s) (ho_ranged s)" and "capped s fds" and "may_open s fd"
  shows "capped s (fds(fd \<mapsto> e))"
  using assms by (auto simp: capped_def closable_def may_open_def open_fd_limit_def)

text \<open>After its setup a guardian holds one descriptor, its own.\<close>

lemma guardian_keeps_one:
  assumes "capped s fds" and "3 \<le> r" and "fds r = Some (Death_Read k)"
  shows "guardian_fds (ho_ranged s) (open_fd_limit (ho_rlimit s)) r fds = [DEATH_FD \<mapsto> Death_Read k]"
proof
  fix fd :: nat
  consider "fd < 3" | "fd = 3" | "4 \<le> fd" by linarith
  then show "guardian_fds (ho_ranged s) (open_fd_limit (ho_rlimit s)) r fds fd = ([DEATH_FD \<mapsto> Death_Read k] :: fd_table) fd"
  proof cases
    case 1
    then have "fd = 0 \<or> fd = 1 \<or> fd = 2" by linarith
    then show ?thesis by (auto simp: guardian_fds_def DEATH_FD_def Let_def)
  next
    case 2
    then show ?thesis using assms by (auto simp: guardian_fds_def DEATH_FD_def Let_def)
  next
    case 3
    then show ?thesis using assms by (auto simp: guardian_fds_def DEATH_FD_def Let_def capped_def)
  qed
qed

lemma no_ward_ok [simp]: "ward_ok s k no_ward"
  by (simp add: ward_ok_def no_ward_def starting_def grouped_def leads_def)

lemma kill_group_ok: "ward_ok s k w \<Longrightarrow> ward_ok s k (kill_group w)"
  by (auto simp: ward_ok_def kill_group_def starting_def grouped_def leads_def)

lemma exec_holds_none: "\<not> holds_write j (exec_fds fds)"
  by (simp add: holds_write_def exec_fds_def)

lemma pre_exec_ok: "ward_ok s k w \<Longrightarrow> starting w \<Longrightarrow> ward_ok s k (pre_exec_step ok w)"
  by (cases "wd_child w"; cases ok)
     (auto simp: ward_ok_def pre_exec_step_def starting_def grouped_def leads_def exec_holds_none intro: capped_less)

lemma guardian_ok:
  assumes "ward_ok s k w"
  shows "ward_ok s k (guardian_step ok (ho_ranged s) (open_fd_limit (ho_rlimit s)) w)"
proof -
  have gone: "ward_ok s k (kill_group w\<lparr>wd_guard := Guard_Gone\<rparr>)" if "wd_guard w \<in> {New_Guard, Apart}"
    using assms that by (cases "wd_child w") (auto simp: ward_ok_def kill_group_def starting_def grouped_def leads_def)
  show ?thesis
  proof (cases "wd_guard w")
    case New_Guard
    then have "ward_ok s k (w\<lparr>wd_guard := Apart\<rparr>)" using assms by (simp add: ward_ok_def starting_def grouped_def leads_def)
    then show ?thesis using gone New_Guard by (simp add: guardian_step_def)
  next
    case Apart
    then have "guardian_fds (ho_ranged s) (open_fd_limit (ho_rlimit s)) (wd_read w) (wd_gfds w) = [DEATH_FD \<mapsto> Death_Read k]"
      using assms by (intro guardian_keeps_one) (simp_all add: ward_ok_def)
    moreover from this have "ward_ok s k (w\<lparr>wd_guard := Polling, wd_gfds := [DEATH_FD \<mapsto> Death_Read k]\<rparr>)"
      using assms Apart by (simp add: ward_ok_def starting_def grouped_def leads_def)
    ultimately show ?thesis using gone Apart by (simp add: guardian_step_def)
  qed (use assms in \<open>simp_all add: guardian_step_def\<close>)
qed

lemma round_ok: "ward_ok s k w \<Longrightarrow> wd_guard w = Polling \<Longrightarrow> ward_ok s k (guardian_round b w)"
  by (auto simp: ward_ok_def guardian_round_def kill_group_def starting_def grouped_def leads_def)

lemma house_ok_start: "closable rlimit ranged \<Longrightarrow> house_ok (house_start rlimit ranged)"
  by (auto simp: house_ok_def house_start_def capped_def less_Suc_eq numeral_3_eq_3)

lemma on_ward_ok:
  assumes "house_ok s" and "ward_ok s k (f (ho_ward s k))" and "k < ho_next s"
    and "wd_read (f (ho_ward s k)) = wd_read (ho_ward s k)" and "wd_write (f (ho_ward s k)) = wd_write (ho_ward s k)"
  shows "house_ok (on_ward k f s)"
  using assms by (auto simp: house_ok_def house_defs Let_def)

lemma no_ward_fields [simp]:
  "wd_child no_ward = No_Child" "wd_guard no_ward = No_Guard" "wd_members no_ward = 0" "\<not> starting no_ward" "\<not> grouped no_ward"
  by (simp_all add: no_ward_def starting_def grouped_def leads_def)

lemma house_okD:
  assumes "house_ok s"
  shows "ward_ok s k (ho_ward s k)" "ho_next s \<le> k \<Longrightarrow> ho_ward s k = no_ward" "fd < 3 \<Longrightarrow> ho_fds s fd = Some Other_End"
    "capped s (ho_fds s)" "closable (ho_rlimit s) (ho_ranged s)"
  using assms by (simp_all add: house_ok_def)

lemma real_ward:
  assumes "house_ok s" and "starting (ho_ward s k) \<or> grouped (ho_ward s k) \<or> wd_guard (ho_ward s k) \<noteq> No_Guard \<or> wd_child (ho_ward s k) \<noteq> No_Child"
  shows "k < ho_next s"
proof (rule ccontr)
  assume "\<not> k < ho_next s"
  then have "ho_ward s k = no_ward" using house_okD(2)[OF assms(1)] by simp
  then show False using assms(2) by simp
qed

lemma keeps_numbers [simp]:
  "wd_read (kill_group w) = wd_read w" "wd_write (kill_group w) = wd_write w"
  "wd_read (pre_exec_step ok w) = wd_read w" "wd_write (pre_exec_step ok w) = wd_write w"
  "wd_read (guardian_step ok b n w) = wd_read w" "wd_write (guardian_step ok b n w) = wd_write w"
  "wd_read (guardian_round ok w) = wd_read w" "wd_write (guardian_round ok w) = wd_write w"
  by (simp_all add: kill_group_def pre_exec_step_def guardian_step_def guardian_round_def split: child_phase.splits guard_phase.splits)

lemma kill_no_ward [simp]: "kill_group no_ward = no_ward"
  by (simp add: kill_group_def no_ward_def leads_def)

lemma on_no_ward: "ho_ward s k = no_ward \<Longrightarrow> f no_ward = no_ward \<Longrightarrow> on_ward k f s = s"
  by (simp add: on_ward_def fun_upd_idem)

lemma stream_free: "house_ok s \<Longrightarrow> ho_fds s fd = None \<or> ho_fds s fd = Some (Death_Write k) \<Longrightarrow> 3 \<le> fd"
  using house_okD(3)[of s fd] by (cases "fd < 3") auto

lemma owner_keeps_ok:
  assumes "house_step Owner s t" and ok: "house_ok s"
  shows "house_ok t"
proof -
  note w = house_okD(1)[OF ok]
  show ?thesis
    using assms(1)
  proof cases
    case (opens fd)
    have "capped s ((ho_fds s)(fd \<mapsto> Other_End))" using ok opens by (intro capped_opened) (simp_all add: house_ok_def)
    then show ?thesis using ok opens by (auto simp: house_ok_def Let_def newest_def may_open_def)
  next
    case (closes fd)
    have "capped s ((ho_fds s)(fd := None))" using ok by (auto simp: house_ok_def intro: capped_less)
    then show ?thesis using ok closes by (auto simp: house_ok_def Let_def newest_def)
  next
    case (pipes r v)
    have 3: "3 \<le> r" "3 \<le> v" using pipes stream_free[OF ok] by (auto simp: may_open_def)
    have "capped s ((ho_fds s)(r \<mapsto> Death_Read (ho_next s), v \<mapsto> Death_Write (ho_next s)))"
      using ok pipes by (intro capped_opened) (simp_all add: house_ok_def)
    moreover have "ward_ok s (ho_next s) (no_ward\<lparr>wd_read := r, wd_write := v\<rparr>)"
      by (simp add: ward_ok_def no_ward_def starting_def grouped_def leads_def)
    ultimately show ?thesis using ok pipes 3 by (auto simp: house_ok_def house_defs Let_def)
  next
    case forks
    have "capped s (fork_fds (ho_fds s))" using ok by (auto simp: house_ok_def capped_def fork_fds_def)
    then have "ward_ok s (newest s) ((ho_ward s (newest s))\<lparr>wd_child := Forked, wd_cfds := fork_fds (ho_fds s)\<rparr>)"
      using ok forks w[of "newest s"] by (auto simp: house_ok_def ward_ok_def Let_def starting_def grouped_def leads_def fork_fds_def)
    then show ?thesis unfolding forks spawn_forks_def using ok forks by (intro on_ward_ok) (auto simp: house_ok_def newest_def)
  next
    case fork_fails
    then show ?thesis using ok by (auto simp: house_ok_def house_defs Let_def intro: capped_less)
  next
    case spawned
    then show ?thesis using ok by (auto simp: house_ok_def house_defs Let_def intro: capped_less)
  next
    case (releases fd k)
    have "capped s ((ho_fds s)(fd := None))" using ok by (auto simp: house_ok_def intro: capped_less)
    then show ?thesis using ok releases stream_free[OF ok] by (auto simp: house_ok_def Let_def newest_def)
  next
    case (kills k)
    then have "k < ho_next s \<or> on_ward k kill_group s = s" using house_okD(2)[OF ok, of k] on_no_ward[of s k kill_group] by fastforce
    moreover have "house_ok (on_ward k kill_group s)" if "k < ho_next s"
      using that by (intro on_ward_ok ok kill_group_ok w) simp_all
    ultimately show ?thesis unfolding kills using ok by auto
  next
    case dies
    then show ?thesis using ok by (simp add: house_ok_def newest_def)
  qed
qed

lemma others_keep_ok:
  assumes "house_step a s t" and "a \<noteq> Owner" and ok: "house_ok s"
  shows "house_ok t"
proof -
  note w = house_okD(1)[OF ok]
  show ?thesis
    using assms(1)
  proof cases
    case (starts k okay)
    then have "k < ho_next s" using real_ward[OF ok] by blast
    then show ?thesis unfolding starts using starts by (intro on_ward_ok ok pre_exec_ok w) simp_all
  next
    case (settles k okay)
    then have "k < ho_next s" by (intro real_ward[OF ok]) auto
    then show ?thesis unfolding settles using settles by (intro on_ward_ok ok guardian_ok w) simp_all
  next
    case (wakes k)
    then have "k < ho_next s" by (intro real_ward[OF ok]) auto
    then show ?thesis unfolding wakes using wakes by (intro on_ward_ok ok round_ok w) simp_all
  next
    case (sleeps k)
    then have "k < ho_next s" by (intro real_ward[OF ok]) auto
    then show ?thesis unfolding sleeps using sleeps by (intro on_ward_ok ok round_ok w) simp_all
  next
    case (member_forks k)
    then have "k < ho_next s" using real_ward[OF ok] by blast
    moreover have "ward_ok s k ((ho_ward s k)\<lparr>wd_members := Suc (wd_members (ho_ward s k))\<rparr>)"
      using member_forks w[of k] by (auto simp: ward_ok_def starting_def grouped_def leads_def)
    ultimately show ?thesis unfolding member_forks by (intro on_ward_ok ok) simp_all
  next
    case (member_ends k n)
    then have "k < ho_next s" by (intro real_ward[OF ok]) (simp add: grouped_def)
    moreover have "ward_ok s k ((ho_ward s k)\<lparr>wd_members := n\<rparr>)"
      using member_ends w[of k] by (auto simp: ward_ok_def starting_def grouped_def leads_def)
    ultimately show ?thesis unfolding member_ends by (intro on_ward_ok ok) simp_all
  next
    case (program_ends k)
    then have "k < ho_next s" by (intro real_ward[OF ok]) auto
    moreover have "ward_ok s k ((ho_ward s k)\<lparr>wd_child := Ended\<rparr>)"
      using program_ends w[of k] by (auto simp: ward_ok_def starting_def grouped_def leads_def)
    ultimately show ?thesis unfolding program_ends by (intro on_ward_ok ok) simp_all
  qed (use assms(2) in simp_all)
qed

lemma house_ok_step: "house_step a s t \<Longrightarrow> house_ok s \<Longrightarrow> house_ok t"
  using owner_keeps_ok others_keep_ok by blast

lemma house_ok_runs:
  assumes "house_any\<^sup>*\<^sup>* (house_start rlimit ranged) s" and "closable rlimit ranged"
  shows "house_ok s"
  using assms(1)
proof (induction rule: rtranclp_induct)
  case base
  show ?case by (rule house_ok_start[OF assms(2)])
qed (auto simp: house_any_def dest: house_ok_step)

section \<open>Once the owner is gone\<close>

text \<open>How many steps are left to the children that start and to the guardians.\<close>

fun child_rank :: "child_phase \<Rightarrow> nat" where
  "child_rank Forked = 8"
| "child_rank In_Session = 7"
| "child_rank Write_Closed = 6"
| "child_rank Guarded = 2"
| "child_rank Read_Closed = 1"
| "child_rank _ = 0"

fun guard_rank :: "guard_phase \<Rightarrow> nat" where
  "guard_rank New_Guard = 3"
| "guard_rank Apart = 2"
| "guard_rank Polling = 1"
| "guard_rank _ = 0"

definition ward_rank :: "ward \<Rightarrow> nat" where
  "ward_rank w = child_rank (wd_child w) + guard_rank (wd_guard w)"

definition burden :: "house \<Rightarrow> nat" where
  "burden s = (\<Sum>k<ho_next s. ward_rank (ho_ward s k))"

lemma burden_on_ward:
  assumes "k < ho_next s"
  shows "burden (on_ward k f s) + ward_rank (ho_ward s k) = burden s + ward_rank (f (ho_ward s k))"
  using assms by (simp add: burden_def on_ward_def sum.remove[of "{..<ho_next s}" k])

lemma kill_rank: "child_rank (wd_child (kill_group w)) \<le> child_rank (wd_child w)"
  by (simp add: kill_group_def)

lemma pre_exec_rank: "starting w \<Longrightarrow> ward_ok s k w \<Longrightarrow> ward_rank (pre_exec_step ok w) < ward_rank w"
  by (cases "wd_child w"; cases ok) (simp_all add: starting_def ward_rank_def pre_exec_step_def ward_ok_def)

lemma guardian_rank: "wd_guard w \<in> {New_Guard, Apart} \<Longrightarrow> ward_rank (guardian_step ok b n w) < ward_rank w"
  using kill_rank[of w] by (auto simp: ward_rank_def guardian_step_def)

lemma round_rank:
  assumes "wd_guard w = Polling"
  shows "ward_rank (guardian_round True w) < ward_rank w" "ward_rank (guardian_round False w) \<le> ward_rank w"
  using assms kill_rank[of w] by (auto simp: ward_rank_def guardian_round_def)

lemma duty_lightens:
  assumes "house_step a s t" and ok: "house_ok s" and "\<not> ho_alive s"
  shows "burden t \<le> burden s \<and> (a \<noteq> Others \<longrightarrow> burden t < burden s)"
proof -
  have on: "burden (on_ward k f s) \<le> burden s \<longleftrightarrow> ward_rank (f (ho_ward s k)) \<le> ward_rank (ho_ward s k)"
      "burden (on_ward k f s) < burden s \<longleftrightarrow> ward_rank (f (ho_ward s k)) < ward_rank (ho_ward s k)"
    if "wd_child (ho_ward s k) \<noteq> No_Child \<or> wd_guard (ho_ward s k) \<noteq> No_Guard \<or> grouped (ho_ward s k)" for k f
    using burden_on_ward[of k s f] real_ward[OF ok, of k] that by auto
  show ?thesis using assms(1)
  proof cases
    case (starts k okay)
    then show ?thesis using pre_exec_rank[OF _ house_okD(1)[OF ok]] on(2)[of k] by (auto simp: starting_def intro: less_imp_le)
  next
    case (settles k okay)
    then show ?thesis using guardian_rank on(2)[of k] by (auto intro: less_imp_le)
  next
    case (wakes k)
    then show ?thesis using round_rank(1) on(2)[of k] by (auto intro: less_imp_le)
  next
    case (sleeps k)
    then show ?thesis using round_rank(2) on(1)[of k] by auto
  next
    case (member_forks k)
    then show ?thesis using on(1)[of k] by (simp add: ward_rank_def)
  next
    case (member_ends k n)
    then show ?thesis using on(1)[of k] by (simp add: ward_rank_def grouped_def)
  next
    case (program_ends k)
    then show ?thesis using on(1)[of k] by (simp add: ward_rank_def)
  qed (use assms(3) in simp_all)
qed

lemma duty_waits:
  assumes ok: "house_ok s" and "\<not> ho_alive s" and "grouped (ho_ward s k)"
  shows "\<exists>a t. a \<noteq> Others \<and> house_step a s t"
proof (rule ccontr)
  assume none: "\<not> ?thesis"
  have child: "\<not> starting (ho_ward s j)" for j
    using starts[of s j True] none by blast
  have apart: "wd_guard (ho_ward s j) \<notin> {New_Guard, Apart}" for j
    using settles[of s j True] none by blast
  have "wd_guard (ho_ward s k) = Polling"
    using house_okD(1)[OF ok, of k] assms(3) child[of k] apart[of k] by (auto simp: ward_ok_def starting_def)
  moreover have "\<not> written_to s k"
  proof -
    have "\<not> holds_write k (wd_cfds (ho_ward s j))" if "wd_child (ho_ward s j) = Running" for j
      using house_okD(1)[OF ok, of j] that by (simp add: ward_ok_def)
    moreover have "\<not> holds_write k (wd_gfds (ho_ward s j))" if "wd_guard (ho_ward s j) = Polling" for j
      using house_okD(1)[OF ok, of j] that by (auto simp: ward_ok_def holds_write_def split: if_splits)
    ultimately show ?thesis using assms(2) child apart by (auto simp: written_to_def)
  qed
  moreover have "wd_gfds (ho_ward s k) DEATH_FD = Some (Death_Read k)"
    using house_okD(1)[OF ok, of k] \<open>wd_guard (ho_ward s k) = Polling\<close> by (simp add: ward_ok_def)
  ultimately have "house_step (Guard k) s (on_ward k (guardian_round True) s)"
    by (intro wakes) (simp_all add: may_wake_def)
  then show False using none by blast
qed

lemma guard_sleeps:
  assumes ok: "house_ok s" and "ho_alive s" and "holds_write k (ho_fds s)" and "wd_guard (ho_ward s k) = Polling"
  shows "\<not> house_step (Guard k) s t"
proof
  assume "house_step (Guard k) s t"
  then have "may_wake s (wd_gfds (ho_ward s k) DEATH_FD)" using assms(4) by cases simp_all
  moreover have "wd_gfds (ho_ward s k) DEATH_FD = Some (Death_Read k)"
    using house_okD(1)[OF ok, of k] assms(4) by (simp add: ward_ok_def)
  ultimately show False using assms(2,3) by (simp add: may_wake_def written_to_def)
qed

text \<open>What was done, in order, and by whom.\<close>

inductive house_run :: "house \<Rightarrow> actor list \<Rightarrow> house \<Rightarrow> bool" where
  nothing_done: "house_run s [] s"
| done_next: "house_step a s t \<Longrightarrow> house_run t as u \<Longrightarrow> house_run s (a # as) u"

definition dutiful :: "actor list \<Rightarrow> nat" where
  "dutiful as = length (filter (\<lambda>a. a \<noteq> Others) as)"

lemma dead_stays: "house_step a s t \<Longrightarrow> \<not> ho_alive s \<Longrightarrow> \<not> ho_alive t"
  by (induction rule: house_step.induct) (simp_all add: on_ward_def)

lemma duty_bounded:
  assumes "house_run s as t" and "house_ok s" and "\<not> ho_alive s"
  shows "dutiful as + burden t \<le> burden s \<and> house_ok t \<and> \<not> ho_alive t"
  using assms
proof (induction rule: house_run.induct)
  case (done_next a s t as u)
  have "dutiful as + burden u \<le> burden t \<and> house_ok u \<and> \<not> ho_alive u"
    using done_next.IH house_ok_step[OF done_next.hyps(1)] dead_stays[OF done_next.hyps(1)] done_next.prems by blast
  then show ?case using duty_lightens[OF done_next.hyps(1) done_next.prems] by (cases a) (auto simp: dutiful_def)
qed (simp add: dutiful_def)

lemma burden_small: "burden s \<le> 11 * ho_next s"
proof -
  have "ward_rank w \<le> 11" for w by (cases "wd_child w"; cases "wd_guard w") (simp_all add: ward_rank_def)
  then show ?thesis using sum_bounded_above[of "{..<ho_next s}" "\<lambda>k. ward_rank (ho_ward s k)" 11] by (simp add: burden_def mult.commute)
qed

text \<open>
  C39: no process outlives the owner, and none is killed while it is wanted. Whatever was spawned, stopped, forked
  and failed before, once the owner has gone, for whatever reason and at whatever point of a spawn, there are at most
  eleven more steps per child to be made by those that start and by the guardians, and as long as anybody is left in
  a group one of these steps can be made: when they have been made every group is empty. And a guardian that
  watches does nothing while the owner holds its pipe.
\<close>

theorem nothing_outlives_owner:
  assumes "house_any\<^sup>*\<^sup>* (house_start rlimit ranged) s" and "closable rlimit ranged"
  shows "(\<forall>as t. \<not> ho_alive s \<longrightarrow> house_run s as t \<longrightarrow>
           dutiful as \<le> 11 * ho_next s \<and> (\<forall>k. grouped (ho_ward t k) \<longrightarrow> (\<exists>a u. a \<noteq> Others \<and> house_step a t u)))
    \<and> (\<forall>k t. ho_alive s \<and> holds_write k (ho_fds s) \<and> wd_guard (ho_ward s k) = Polling \<longrightarrow> \<not> house_step (Guard k) s t)"
proof -
  have ok: "house_ok s" by (rule house_ok_runs[OF assms])
  have "dutiful as \<le> 11 * ho_next s \<and> (\<forall>k. grouped (ho_ward t k) \<longrightarrow> (\<exists>a u. a \<noteq> Others \<and> house_step a t u))"
    if "\<not> ho_alive s" "house_run s as t" for as t
    using duty_bounded[OF that(2) ok that(1)] burden_small[of s] duty_waits[of t] by auto
  then show ?thesis using guard_sleeps[OF ok] by blast
qed

text \<open>An owner that dies when its first child has just been forked, and the child once it runs.\<close>

definition demo_forked :: house where
  "demo_forked = (spawn_forks (death_pipe 3 4 (house_start None True)))\<lparr>ho_alive := False\<rparr>"

definition demo_orphan :: house where
  "demo_orphan = (on_ward 0 (pre_exec_step True) ^^ 5) demo_forked"

lemmas demo_house_defs = demo_forked_def house_start_def house_defs no_ward_def starting_def

lemma demo_forked_runs: "house_any\<^sup>*\<^sup>* (house_start None True) demo_forked"
proof -
  let ?a = "house_start None True" let ?b = "death_pipe 3 4 ?a" let ?c = "spawn_forks ?b"
  have "house_any ?a ?b" unfolding house_any_def
    by (intro exI, rule pipes) (simp_all add: house_start_def may_open_def)
  moreover have "house_any ?b ?c" unfolding house_any_def
    by (intro exI, rule forks) (simp_all add: house_start_def house_defs no_ward_def)
  moreover have "house_any ?c demo_forked" unfolding house_any_def demo_forked_def
    by (intro exI, rule dies) (simp add: house_start_def house_defs)
  ultimately show ?thesis by (meson converse_rtranclp_into_rtranclp rtranclp.rtrancl_refl)
qed

lemma demo_starts: "n < 5 \<Longrightarrow> starting (ho_ward ((on_ward 0 (pre_exec_step True) ^^ n) demo_forked) 0)"
  by (auto simp: numeral_eq_Suc less_Suc_eq demo_house_defs pre_exec_step_def)

lemma demo_child_run:
  "n + m \<le> 5 \<Longrightarrow> house_run ((on_ward 0 (pre_exec_step True) ^^ n) demo_forked) (replicate m (Child 0))
     ((on_ward 0 (pre_exec_step True) ^^ (n + m)) demo_forked)"
proof (induction m arbitrary: n)
  case (Suc m)
  then show ?case using done_next[OF starts[OF demo_starts[of n], of True]] Suc.IH[of "Suc n"] by simp
qed (simp add: nothing_done)

lemma demo_orphan_run: "house_run demo_forked (replicate 5 (Child 0)) demo_orphan"
  using demo_child_run[of 0 5] by (simp add: demo_orphan_def)

theorem nothing_outlives_owner_witness:
  "house_any\<^sup>*\<^sup>* (house_start None True) demo_forked \<and> wd_child (ho_ward demo_orphan 0) = Running
    \<and> (\<exists>a u. a \<noteq> Others \<and> house_step a demo_orphan u)"
proof -
  have "wd_child (ho_ward demo_orphan 0) = Running"
    by (simp add: demo_orphan_def numeral_eq_Suc demo_house_defs pre_exec_step_def)
  moreover have "grouped (ho_ward demo_orphan 0)" using calculation by (simp add: grouped_def leads_def)
  moreover have "closable None True" "\<not> ho_alive demo_forked" by (simp_all add: closable_def demo_forked_def)
  ultimately show ?thesis using nothing_outlives_owner[OF demo_forked_runs] demo_orphan_run demo_forked_runs by blast
qed

end
