(* ===== verification/Wire_Protocol.thy ===== *)
theory Wire_Protocol
  imports Chat_State
begin

text \<open>
  \<open>wire.rs\<close>: what a client and the daemon say to each other, one JSON object to a line. A message
  is read by the names of its fields (\<open>serde\<close>'s derived readers, which also take an array by
  position); here a message prints its fields in the order of a map, which no reader can tell from
  the order in which they are declared.
\<close>

definition PROTOCOL :: nat where
  "PROTOCOL = 1"

record request =
  rq_id :: int
  rq_op :: string
  rq_session :: "string option"
  rq_text :: "string option"
  rq_providers :: "string list option"
  rq_cwd :: "string option"
  rq_from :: "int option"
  rq_what :: "string option"
  rq_value :: json
  rq_provider :: "string option"

definition request_new :: "int \<Rightarrow> string \<Rightarrow> request" where
  "request_new i op = \<lparr>rq_id = i, rq_op = op, rq_session = None, rq_text = None, rq_providers = None, rq_cwd = None,
     rq_from = None, rq_what = None, rq_value = JNull, rq_provider = None\<rparr>"

definition request_on :: "string \<Rightarrow> request \<Rightarrow> request" where
  "request_on s r = r\<lparr>rq_session := Some s\<rparr>"

definition request_saying :: "string \<Rightarrow> request \<Rightarrow> request" where
  "request_saying t r = r\<lparr>rq_text := Some t\<rparr>"

definition request_about :: "string \<Rightarrow> json \<Rightarrow> request \<Rightarrow> request" where
  "request_about what v r = r\<lparr>rq_what := Some what, rq_value := v\<rparr>"

record reply =
  rp_id :: int
  rp_ok :: bool
  rp_result :: json
  rp_error :: "string option"

definition reply_ok :: "int \<Rightarrow> json \<Rightarrow> reply" where
  "reply_ok i v = \<lparr>rp_id = i, rp_ok = True, rp_result = v, rp_error = None\<rparr>"

definition reply_failed :: "int \<Rightarrow> string \<Rightarrow> reply" where
  "reply_failed i err = \<lparr>rp_id = i, rp_ok = False, rp_result = JNull, rp_error = Some err\<rparr>"

record frame =
  fr_stream :: string
  fr_session :: string
  fr_event :: "event option"
  fr_snapshot :: "snapshot option"

definition frame_event :: "string \<Rightarrow> event \<Rightarrow> snapshot \<Rightarrow> frame" where
  "frame_event sid e sn = \<lparr>fr_stream = ''event'', fr_session = sid, fr_event = Some e, fr_snapshot = Some sn\<rparr>"

definition frame_gone :: "string \<Rightarrow> snapshot \<Rightarrow> frame" where
  "frame_gone sid sn = \<lparr>fr_stream = ''gone'', fr_session = sid, fr_event = None, fr_snapshot = Some sn\<rparr>"

section \<open>Printing\<close>

text \<open>A field that is left out when there is nothing in it.\<close>

definition put :: "string \<Rightarrow> json option \<Rightarrow> jmap \<Rightarrow> jmap" where
  "put k v m = (case v of None \<Rightarrow> m | Some x \<Rightarrow> bt_insert k x m)"

definition unless_null :: "json \<Rightarrow> json option" where
  "unless_null v = (if is_null v then None else Some v)"

definition request_value :: "request \<Rightarrow> json" where
  "request_value r = JObject
     (put ''provider'' (map_option JString (rq_provider r))
     (put ''value'' (unless_null (rq_value r))
     (put ''what'' (map_option JString (rq_what r))
     (put ''from'' (map_option JInt (rq_from r))
     (put ''cwd'' (map_option JString (rq_cwd r))
     (put ''providers'' (map_option json_strings (rq_providers r))
     (put ''text'' (map_option JString (rq_text r))
     (put ''session'' (map_option JString (rq_session r))
     (put ''op'' (Some (JString (rq_op r)))
     (put ''id'' (Some (JInt (rq_id r))) []))))))))))"

definition reply_value :: "reply \<Rightarrow> json" where
  "reply_value r = JObject
     (put ''error'' (map_option JString (rp_error r))
     (put ''result'' (unless_null (rp_result r))
     (put ''ok'' (Some (JBool (rp_ok r)))
     (put ''id'' (Some (JInt (rp_id r))) []))))"

definition snapshot_value :: "snapshot \<Rightarrow> json" where
  "snapshot_value s = JObject
     (put ''queued'' (Some (JInt (int (sn_queued s))))
     (put ''in_turn'' (Some (JBool (sn_in_turn s)))
     (put ''seq'' (Some (JInt (sn_seq s)))
     (put ''cwd'' (Some (JString (sn_cwd s)))
     (put ''effort'' (Some (JString (sn_effort s)))
     (put ''model'' (Some (JString (sn_model s)))
     (put ''provider'' (Some (JString (sn_provider s)))
     (put ''providers'' (Some (json_strings (sn_providers s)))
     (put ''ask'' (Some (ask_value (sn_ask s)))
     (put ''status'' (Some (JString (sn_status s)))
     (put ''session'' (Some (JString (sn_session s))) [])))))))))))"

definition frame_value :: "frame \<Rightarrow> json" where
  "frame_value f = JObject
     (put ''snapshot'' (map_option snapshot_value (fr_snapshot f))
     (put ''event'' (map_option to_value (fr_event f))
     (put ''session'' (Some (JString (fr_session f)))
     (put ''stream'' (Some (JString (fr_stream f))) []))))"

section \<open>Reading\<close>

definition optional :: "(json \<Rightarrow> 'a option) \<Rightarrow> json \<Rightarrow> 'a option option" where
  "optional rd v = (if is_null v then Some None else map_option Some (rd v))"

definition required :: "(json \<Rightarrow> 'a option) \<Rightarrow> jmap \<Rightarrow> string \<Rightarrow> 'a option" where
  "required rd m k = Option.bind (bt_get m k) rd"

definition read_strings :: "json \<Rightarrow> string list option" where
  "read_strings v = Option.bind (as_array v) strings_of"

definition request_of :: "json \<Rightarrow> request option" where
  "request_of v =
     Option.bind (struct_fields [''id'', ''op'', ''session'', ''text'', ''providers'', ''cwd'', ''from'', ''what'', ''value'', ''provider''] v) (\<lambda>m.
     Option.bind (field as_i64 0 m ''id'') (\<lambda>i.
     Option.bind (required as_str m ''op'') (\<lambda>op.
     Option.bind (field (optional as_str) None m ''session'') (\<lambda>se.
     Option.bind (field (optional as_str) None m ''text'') (\<lambda>te.
     Option.bind (field (optional read_strings) None m ''providers'') (\<lambda>ps.
     Option.bind (field (optional as_str) None m ''cwd'') (\<lambda>cwd.
     Option.bind (field (optional as_i64) None m ''from'') (\<lambda>fr.
     Option.bind (field (optional as_str) None m ''what'') (\<lambda>wh.
     Option.bind (field Some JNull m ''value'') (\<lambda>va.
     Option.bind (field (optional as_str) None m ''provider'') (\<lambda>pr.
     Some \<lparr>rq_id = i, rq_op = op, rq_session = se, rq_text = te, rq_providers = ps, rq_cwd = cwd, rq_from = fr,
       rq_what = wh, rq_value = va, rq_provider = pr\<rparr>)))))))))))"

definition reply_of :: "json \<Rightarrow> reply option" where
  "reply_of v =
     Option.bind (struct_fields [''id'', ''ok'', ''result'', ''error''] v) (\<lambda>m.
     Option.bind (required as_i64 m ''id'') (\<lambda>i.
     Option.bind (required as_bool m ''ok'') (\<lambda>okay.
     Option.bind (field Some JNull m ''result'') (\<lambda>res.
     Option.bind (field (optional as_str) None m ''error'') (\<lambda>er.
     Some \<lparr>rp_id = i, rp_ok = okay, rp_result = res, rp_error = er\<rparr>)))))"

definition snapshot_of :: "json \<Rightarrow> snapshot option" where
  "snapshot_of v =
     Option.bind (struct_fields [''session'', ''status'', ''ask'', ''providers'', ''provider'', ''model'', ''effort'', ''cwd'',
        ''seq'', ''in_turn'', ''queued''] v) (\<lambda>m.
     Option.bind (required as_str m ''session'') (\<lambda>se.
     Option.bind (required as_str m ''status'') (\<lambda>st.
     Option.bind (required ask_of_value m ''ask'') (\<lambda>ask.
     Option.bind (required read_strings m ''providers'') (\<lambda>ps.
     Option.bind (required as_str m ''provider'') (\<lambda>pr.
     Option.bind (required as_str m ''model'') (\<lambda>mo.
     Option.bind (required as_str m ''effort'') (\<lambda>ef.
     Option.bind (required as_str m ''cwd'') (\<lambda>cwd.
     Option.bind (required as_i64 m ''seq'') (\<lambda>sq.
     Option.bind (required as_bool m ''in_turn'') (\<lambda>it.
     Option.bind (required as_u64 m ''queued'') (\<lambda>qd.
     Some \<lparr>sn_session = se, sn_status = st, sn_ask = ask, sn_providers = ps, sn_provider = pr, sn_model = mo,
       sn_effort = ef, sn_cwd = cwd, sn_seq = sq, sn_in_turn = it, sn_queued = nat qd\<rparr>))))))))))))"

definition frame_of :: "json \<Rightarrow> frame option" where
  "frame_of v =
     Option.bind (struct_fields [''stream'', ''session'', ''event'', ''snapshot''] v) (\<lambda>m.
     Option.bind (required as_str m ''stream'') (\<lambda>sm.
     Option.bind (required as_str m ''session'') (\<lambda>se.
     Option.bind (field (optional from_value) None m ''event'') (\<lambda>ev.
     Option.bind (field (optional snapshot_of) None m ''snapshot'') (\<lambda>sn.
     Some \<lparr>fr_stream = sm, fr_session = se, fr_event = ev, fr_snapshot = sn\<rparr>)))))"

text \<open>A line from the daemon, told apart by which keys it has.\<close>

datatype incoming = In_Reply reply | In_Frame frame

definition read_line :: "codec \<Rightarrow> bytes \<Rightarrow> incoming option" where
  "read_line J line =
     (case from_slice J line of
        Inl _ \<Rightarrow> None
      | Inr v \<Rightarrow> if jget v ''stream'' \<noteq> None then map_option In_Frame (frame_of v) else map_option In_Reply (reply_of v))"

definition OPS :: "string list" where
  "OPS = [''ping'', ''open'', ''send'', ''set'', ''stop'', ''detach'', ''status'', ''events'', ''sessions'', ''providers'',
     ''dial'', ''account'', ''test'', ''shutdown'']"

section \<open>Facts\<close>

lemma bt_get_put [simp]: "bt_get (put k v m) k' = (if k' = k \<and> v \<noteq> None then v else bt_get m k')"
  by (auto simp: put_def split: option.splits)

lemma field_put:
  "field rd d (put k v m) k' = (if k' = k \<and> v \<noteq> None then rd (the v) else field rd d m k')"
  "required rd (put k v m) k' = (if k' = k \<and> v \<noteq> None then rd (the v) else required rd m k')"
  by (auto simp: field_def required_def)

lemma field_Nil [simp]: "field rd d [] k = Some d"
  by (simp add: field_def)

lemma read_strings_back [simp]: "read_strings (json_strings ss) = Some ss"
  by (simp add: read_strings_def json_strings_def)

lemma optional_back [simp]:
  "optional as_str (JString s) = Some (Some s)" "optional read_strings (json_strings ss) = Some (Some ss)"
  "fits_i64 n \<Longrightarrow> optional as_i64 (JInt n) = Some (Some n)"
  by (simp_all add: optional_def is_null_def json_strings_def read_strings_def)

lemma the_unless_null: "field Some JNull (put k (unless_null v) m) k = (if v = JNull then field Some JNull m k else Some v)"
  by (simp add: field_put unless_null_def is_null_def)

definition sendable_request :: "request \<Rightarrow> bool" where
  "sendable_request r \<longleftrightarrow> fits_i64 (rq_id r) \<and> (case rq_from r of Some n \<Rightarrow> fits_i64 n | None \<Rightarrow> True)"

lemma request_reads_back: "sendable_request r \<Longrightarrow> request_of (request_value r) = Some r"
  unfolding request_of_def request_value_def struct_fields_def
  by (cases r) (auto simp: field_put the_unless_null sendable_request_def fits_i64_def unless_null_def is_null_def
      split: option.splits)

lemma reply_reads_back: "fits_i64 (rp_id r) \<Longrightarrow> reply_of (reply_value r) = Some r"
  unfolding reply_of_def reply_value_def struct_fields_def
  by (cases r) (auto simp: field_put the_unless_null unless_null_def is_null_def split: option.splits)

definition sendable_ask :: "ask \<Rightarrow> bool" where
  "sendable_ask a \<longleftrightarrow> (case a of Ask_Intelligence n _ \<Rightarrow> fits_i64 n | _ \<Rightarrow> True)"

lemma ask_reads_back: "sendable_ask a \<Longrightarrow> ask_of_value (ask_value a) = Some a"
proof (cases a)
  case (Ask_Key k)
  then show ?thesis by (simp add: ask_of_value_def tagged_def get_str_def bt_get_def bt_remove_def struct_fields_def)
next
  case (Ask_Intelligence n b)
  moreover assume "sendable_ask a"
  ultimately show ?thesis
    by (cases b) (simp_all add: ask_of_value_def tagged_def get_str_def bt_get_def bt_remove_def struct_fields_def
        opt_field_def field_def opt_str_def is_null_def sendable_ask_def)
next
  case (Ask_Model p m e f)
  then show ?thesis
    by (cases p) (simp_all add: ask_of_value_def tagged_def get_str_def bt_get_def bt_remove_def struct_fields_def
        opt_field_def field_def opt_str_def is_null_def)
qed

definition sendable_snapshot :: "snapshot \<Rightarrow> bool" where
  "sendable_snapshot s \<longleftrightarrow> sendable_ask (sn_ask s) \<and> fits_i64 (sn_seq s) \<and> int (sn_queued s) \<le> u64_max"

lemma snapshot_reads_back: "sendable_snapshot s \<Longrightarrow> snapshot_of (snapshot_value s) = Some s"
  unfolding snapshot_of_def snapshot_value_def struct_fields_def
  by (cases s) (simp add: field_put sendable_snapshot_def ask_reads_back)

definition sendable_frame :: "frame \<Rightarrow> bool" where
  "sendable_frame f \<longleftrightarrow> (case fr_event f of Some e \<Rightarrow> storable e | None \<Rightarrow> True)
     \<and> (case fr_snapshot f of Some s \<Rightarrow> sendable_snapshot s | None \<Rightarrow> True)"

lemma optional_parts [simp]:
  "storable e \<Longrightarrow> optional from_value (to_value e) = Some (Some e)"
  "sendable_snapshot s \<Longrightarrow> optional snapshot_of (snapshot_value s) = Some (Some s)"
  by (simp_all add: optional_def event_reads_back snapshot_reads_back, simp_all add: is_null_def to_value_def snapshot_value_def)

lemma frame_reads_back: "sendable_frame f \<Longrightarrow> frame_of (frame_value f) = Some f"
  unfolding frame_of_def frame_value_def struct_fields_def
  by (cases f) (auto simp: field_put sendable_frame_def split: option.splits)

lemma message_shapes [simp]: "jget (frame_value f) ''stream'' \<noteq> None" "jget (reply_value r) ''stream'' = None"
  by (simp_all add: frame_value_def reply_value_def)

text \<open>
  nothing is lost between a client and the daemon. A request reads back as it was asked; a
  reply reads back as that reply and a frame as that frame, with its event and snapshot whole, and
  neither is ever taken for the other.
\<close>

theorem wire_round_trip:
  assumes "sendable_request q" and "fits_i64 (rp_id r)" and "sendable_frame f"
    and "reads_back J (request_value q)" and "reads_back J (reply_value r)" and "reads_back J (frame_value f)"
  shows "(\<exists>v. from_slice J (to_text J (request_value q)) = Inr v \<and> request_of v = Some q)
    \<and> read_line J (to_text J (reply_value r) @ [newline]) = Some (In_Reply r)
    \<and> read_line J (to_text J (frame_value f) @ [newline]) = Some (In_Frame f)"
  using assms
  by (simp add: read_line_def reads_back_def request_reads_back reply_reads_back frame_reads_back)

definition menu_codec :: "json \<Rightarrow> json \<Rightarrow> json \<Rightarrow> codec" where
  "menu_codec a b c =
     (let text = (\<lambda>v. if v = a then ''a'' else if v = b then ''b'' else ''c'') in
      \<lparr>from_slice = (\<lambda>l. let t = filter (\<lambda>x. x \<noteq> newline) l in
         if t = ''a'' then Inr a else if t = ''b'' then Inr b else if t = ''c'' then Inr c else Inl ''unknown''),
       to_text = text, to_pretty = text\<rparr>)"

definition some_snapshot :: snapshot where
  "some_snapshot = \<lparr>sn_session = ''demo'', sn_status = ''waiting'', sn_ask = ask_default, sn_providers = [], sn_provider = [],
     sn_model = [], sn_effort = [], sn_cwd = ''/'', sn_seq = 0, sn_in_turn = False, sn_queued = 0\<rparr>"

theorem wire_round_trip_witness:
  "let q = request_saying ''hi'' (request_on ''demo'' (request_new 1 ''send''));
       r = reply_ok 7 (JBool True);
       f = frame_event ''demo'' (saying ''x'' (event_new ''now'' TEXT)) some_snapshot;
       J = menu_codec (request_value q) (reply_value r) (frame_value f)
   in read_line J (to_text J (reply_value r) @ [newline]) = Some (In_Reply r)
    \<and> read_line J (to_text J (frame_value f) @ [newline]) = Some (In_Frame f)"
proof -
  let ?q = "request_saying ''hi'' (request_on ''demo'' (request_new 1 ''send''))"
  let ?r = "reply_ok 7 (JBool True)"
  let ?f = "frame_event ''demo'' (saying ''x'' (event_new ''now'' TEXT)) some_snapshot"
  let ?J = "menu_codec (request_value ?q) (reply_value ?r) (frame_value ?f)"
  have "sendable_request ?q" "fits_i64 (rp_id ?r)" "sendable_frame ?f" by code_simp+
  moreover have "reads_back ?J (request_value ?q)" "reads_back ?J (reply_value ?r)" "reads_back ?J (frame_value ?f)" by code_simp+
  ultimately show ?thesis unfolding Let_def using wire_round_trip by blast
qed

end
