(* ===== verification/Test_Double.thy ===== *)
theory Test_Double
  imports Provider_Runners Float64 Wire_Protocol
begin

text \<open>
  \<open>providers/test.rs\<close>: the provider that is not one, and \<open>test\<close> and \<open>drive\<close> of \<open>serve.rs\<close>, which reach it.
  A live double is shared by the runner that runs it and by whoever drives the test, and outlives its
  entry in the table: it is kept under a number, to which the table and the runners refer.
\<close>

definition DOUBLE_NAME :: string where "DOUBLE_NAME = ''test''"
definition RECALL :: string where "RECALL = ''[recall]''"
definition FORGET_MARK :: string where "FORGET_MARK = ''gone-''"
definition PINNED :: rat where "PINNED = 10 ^ 9"

record knobs =
  kn_autoreply :: bool
  kn_tunable :: bool
  kn_defer :: bool
  kn_startable :: bool

definition knobs_default :: knobs where
  "knobs_default = \<lparr>kn_autoreply = True, kn_tunable = True, kn_defer = False, kn_startable = True\<rparr>"

record live_double =
  lv_name :: string
  lv_knobs :: knobs
  lv_up :: bool
  lv_native :: string
  lv_model :: string
  lv_effort :: string
  lv_given :: "event list"
  lv_sent :: "string list"
  lv_pending_seed :: bool
  lv_resumed :: bool
  lv_retuned :: nat
  lv_starts :: nat
  lv_emit :: "nat option"

definition live_new :: "string \<Rightarrow> live_double" where
  "live_new name = \<lparr>lv_name = name, lv_knobs = knobs_default, lv_up = False, lv_native = [], lv_model = [], lv_effort = [], lv_given = [],
     lv_sent = [], lv_pending_seed = False, lv_resumed = False, lv_retuned = 0, lv_starts = 0, lv_emit = None\<rparr>"

record doubles =
  db_lives :: "live_double list"
  db_table :: "(string \<times> nat) list"
  db_registered :: "string list"
  db_emitted :: "(nat \<times> event) list"
  db_clock :: "nat \<Rightarrow> string"

definition live_at :: "nat \<Rightarrow> doubles \<Rightarrow> live_double" where
  "live_at a w = (if a < length (db_lives w) then db_lives w ! a else live_new [])"

definition on_live :: "nat \<Rightarrow> (live_double \<Rightarrow> live_double) \<Rightarrow> doubles \<Rightarrow> doubles" where
  "on_live a f w = w\<lparr>db_lives := (db_lives w)[a := f (live_at a w)]\<rparr>"

definition fresh_event :: "string \<Rightarrow> doubles \<Rightarrow> event" where
  "fresh_event ty w = event_new (db_clock w (length (db_emitted w))) ty"

definition say :: "nat \<Rightarrow> event \<Rightarrow> doubles \<Rightarrow> doubles" where
  "say a e w =
     (let l = live_at a w in
      case lv_emit l of
        Some k \<Rightarrow> w\<lparr>db_emitted := db_emitted w @ [(k, e\<lparr>ev_provider := lv_name l, ev_model := lv_model l\<rparr>)]\<rparr>
      | None \<Rightarrow> w)"

definition prepare :: "string \<Rightarrow> doubles \<Rightarrow> doubles \<times> nat" where
  "prepare name w =
     (case bt_get (db_table w) name of
        Some a \<Rightarrow> (w, a)
      | None \<Rightarrow>
          (w\<lparr>db_lives := db_lives w @ [live_new name], db_table := bt_insert name (length (db_lives w)) (db_table w)\<rparr>, length (db_lives w)))"

section \<open>Driven by hand\<close>

definition live_reply :: "nat \<Rightarrow> string \<Rightarrow> doubles \<Rightarrow> doubles" where
  "live_reply a t w =
     (let w1 = say a (saying t (fresh_event TEXT w)) w
      in say a (with_extra ''stop'' (JString ''complete'') (fresh_event END w1)) w1)"

definition live_fail :: "nat \<Rightarrow> string \<Rightarrow> string \<Rightarrow> bool \<Rightarrow> doubles \<Rightarrow> doubles" where
  "live_fail a kind err also_end w =
     (let kind' = (if kind = [] then CRASH else kind);
          why = (if err = [] then kind' @ '' from '' @ lv_name (live_at a w) else err);
          w1 = say a (failure (db_clock w (length (db_emitted w))) kind' why) w
      in if also_end then say a (fresh_event END w1) w1 else w1)"

definition live_heard :: "codec \<Rightarrow> live_double \<Rightarrow> string list" where
  "live_heard J l = map tn_text (transcript J (lv_given l)) @ lv_sent l"

definition live_answer :: "codec \<Rightarrow> live_double \<Rightarrow> string \<Rightarrow> string" where
  "live_answer J l t =
     (if \<not> sublist RECALL t then ''echo: '' @ t
      else let h = join '' | '' (live_heard J l) in if h = [] then ''nothing yet'' else h)"

text \<open>\<open>[tool:NAME]\<close>, wherever it stands: the name up to the next closing bracket.\<close>

definition tool_at :: "string \<Rightarrow> string list" where
  "tool_at t =
     (let rest = drop 6 t; name = takeWhile (\<lambda>c. c \<noteq> CHR '']'') rest in
      if prefix ''[tool:'' t \<and> CHR '']'' \<in> set rest \<and> name \<noteq> [] \<and> \<not> list_ex is_ws name then [name] else [])"

fun live_tools :: "string \<Rightarrow> string list" where
  "live_tools [] = []"
| "live_tools (c # cs) = tool_at (c # cs) @ live_tools cs"

section \<open>The runner\<close>

type_synonym double_place = "(nat \<times> string) \<times> doubles"

definition double_new :: "string \<Rightarrow> string \<Rightarrow> config \<Rightarrow> nat \<Rightarrow> doubles \<Rightarrow> double_place" where
  "double_new name sid cf k w =
     (case prepare name w of (w1, a) \<Rightarrow>
        ((a, sid), on_live a (\<lambda>l. l\<lparr>lv_emit := Some k, lv_model := cf_model cf, lv_effort := cf_effort cf\<rparr>) w1))"

definition double_live :: "double_place \<Rightarrow> live_double" where
  "double_live d = live_at (fst (fst d)) (snd d)"

definition on_double :: "(live_double \<Rightarrow> live_double) \<Rightarrow> double_place \<Rightarrow> double_place" where
  "on_double f d = (fst d, on_live (fst (fst d)) f (snd d))"

definition double_start :: "string \<Rightarrow> event list \<Rightarrow> double_place \<Rightarrow> double_place \<times> unit res" where
  "double_start native_id history d =
     (let l = double_live d in
      if \<not> kn_startable (lv_knobs l) then (d, Inl (lv_name l @ '' would not start''))
      else
        let nid = (if prefix FORGET_MARK native_id then [] else native_id)
        in (on_double (\<lambda>l. l\<lparr>lv_resumed := nid \<noteq> [],
              lv_native := (if nid = [] then lv_name l @ ''-'' @ snd (fst d) else nid),
              lv_given := history, lv_sent := [], lv_pending_seed := kn_defer (lv_knobs l) \<and> history \<noteq> [],
              lv_retuned := 0, lv_starts := Suc (lv_starts l), lv_up := True\<rparr>) d, Inr ()))"

text \<open>One tool: the call, and its result under the same id.\<close>

definition say_tool :: "nat \<Rightarrow> string \<Rightarrow> nat \<Rightarrow> string \<Rightarrow> doubles \<Rightarrow> doubles" where
  "say_tool a nid turn tool w =
     (let i = nid @ ''-'' @ show_nat turn @ ''-'' @ tool;
          w1 = say a ((fresh_event TOOL_CALL w)\<lparr>ev_tool := tool, ev_id := i, ev_args := bt_insert ''input'' (JString tool) []\<rparr>) w
      in say a ((fresh_event TOOL_RESULT w1)\<lparr>ev_tool := tool, ev_id := i, ev_result := JString (''ran '' @ tool)\<rparr>) w1)"

definition double_send :: "codec \<Rightarrow> string \<Rightarrow> double_place \<Rightarrow> double_place \<times> delivery res" where
  "double_send J t d =
     (let a = fst (fst d); l = double_live d in
      if \<not> lv_up l then (d, Inl (lv_name l @ '' is not running; start it first''))
      else
        let answer = live_answer J l t;
            w1 = on_live a (\<lambda>l. l\<lparr>lv_sent := lv_sent l @ [t], lv_pending_seed := False\<rparr>) (snd d);
            l1 = live_at a w1
        in if \<not> kn_autoreply (lv_knobs l1) then ((fst d, w1), Inr Immediate)
           else
             let w2 = say a (fresh_event THINKING w1) w1;
                 w3 = fold (say_tool a (lv_native l1) (length (lv_sent l1))) (live_tools t) w2
             in ((fst d, live_reply a answer w3), Inr Immediate))"

definition double_catch_up :: "event list \<Rightarrow> double_place \<Rightarrow> double_place \<times> bool" where
  "double_catch_up history d =
     (let d1 = on_double (\<lambda>l. l\<lparr>lv_given := lv_given l @ history,
                 lv_pending_seed := lv_pending_seed l \<or> kn_defer (lv_knobs l) \<and> history \<noteq> []\<rparr>) d
      in (d1, lv_up (double_live d1)))"

definition double_retune :: "string \<Rightarrow> string \<Rightarrow> double_place \<Rightarrow> double_place \<times> bool" where
  "double_retune model effort d =
     (if \<not> kn_tunable (lv_knobs (double_live d)) then (d, False)
      else (on_double (\<lambda>l. l\<lparr>lv_model := model, lv_effort := effort, lv_retuned := Suc (lv_retuned l)\<rparr>) d, lv_up (double_live d)))"

definition double_stop :: "double_place \<Rightarrow> double_place" where
  "double_stop d = on_double (\<lambda>l. l\<lparr>lv_up := False\<rparr>) d"

definition double_seeded :: "double_place \<Rightarrow> bool" where
  "double_seeded d \<longleftrightarrow> \<not> lv_pending_seed (double_live d)"

text \<open>The operations of the trait; a name that was not installed has no runner.\<close>

definition double_ops :: "codec \<Rightarrow> (int \<Rightarrow> doubles) \<Rightarrow> double_place runner_ops" where
  "double_ops J dw = \<lparr>
     rn_name = (\<lambda>d. lv_name (double_live d)), rn_native_id = (\<lambda>d. lv_native (double_live d)), rn_generation = (\<lambda>_. None),
     rn_start = (\<lambda>_ nid h d. double_start nid h d), rn_seeded = double_seeded,
     rn_send = (\<lambda>_ t d. double_send J t d), rn_compact = (\<lambda>_ d. (d, Inr False)),
     rn_retune = (\<lambda>_ m e d. double_retune m e d), rn_catch_up = (\<lambda>_ h d. double_catch_up h d),
     rn_interrupt = (\<lambda>_ d. d), rn_stop = (\<lambda>_ d. double_stop d), rn_alive = (\<lambda>_ d. lv_up (double_live d)),
     rn_parkable = (\<lambda>_ d. lv_up (double_live d)),
     rn_make = (\<lambda>name sid cf ep. if name \<in> set (db_registered (dw ep)) then Some (double_new name sid cf (nat ep) (dw ep)) else None)\<rparr>"

text \<open>The account of a double: always here, always signed in.\<close>

definition signed_limits :: json where
  "signed_limits = JObject [(''5h'', blank_limits), (''7d'', blank_limits)]"

section \<open>Setting up\<close>

fun as_usize :: "f64 \<Rightarrow> nat" where
  "as_usize (Finite x) = nat (min u64_max \<lfloor>x\<rfloor>)"
| "as_usize (Infinite neg) = (if neg then 0 else nat u64_max)"
| "as_usize NaN = 0"

definition spread_index :: "nat \<Rightarrow> int \<Rightarrow> nat" where
  "spread_index n v =
     as_usize (f64_round (f64_map (\<lambda>x. x / 10) (case round_f64 (of_nat (n - 1)) of
       Finite steps \<Rightarrow> round_f64 (of_int (10 - v) * steps) | x \<Rightarrow> x)))"

definition spread_over :: "pick list \<Rightarrow> pick list" where
  "spread_over picks =
     (if picks = [] then []
      else map (\<lambda>v. picks ! min (spread_index (length picks) (int v)) (length picks - 1)) [0..<nat INTELLIGENCE_VALUES])"

definition ramp :: "string \<Rightarrow> pick list" where
  "ramp name = map (\<lambda>v. pick_new name (name @ ''-model-'' @ show_nat v) []) [0..<nat INTELLIGENCE_VALUES]"

definition double_pin :: "codec \<Rightarrow> string \<Rightarrow> string list \<Rightarrow> ask \<Rightarrow> pick \<Rightarrow> world \<Rightarrow> world" where
  "double_pin J home ns a answer = pin J home a ns answer PINNED"

definition dial :: "codec \<Rightarrow> string \<Rightarrow> string list \<Rightarrow> pick list \<Rightarrow> world \<Rightarrow> world" where
  "dial J home ns picks =
     fold (\<lambda>(v, answer). double_pin J home ns (ask_intelligence (int v)) answer) (enumerate 0 (spread_over picks))"

definition spread :: "codec \<Rightarrow> string \<Rightarrow> string list \<Rightarrow> string \<Rightarrow> world \<Rightarrow> world" where
  "spread J home ns name = dial J home ns (ramp name)"

definition dial_own :: "codec \<Rightarrow> string \<Rightarrow> pick list \<Rightarrow> string \<Rightarrow> world \<Rightarrow> world" where
  "dial_own J home rungs name =
     (let mine = filter (\<lambda>r. pk_provider r = name) rungs
      in if mine = [] then spread J home [name] name else dial J home [name] mine)"

definition install_dials :: "codec \<Rightarrow> string \<Rightarrow> string list \<Rightarrow> pick list \<Rightarrow> world \<Rightarrow> world" where
  "install_dials J home picked rungs w =
     fold (dial_own J home rungs) picked
       (if rungs \<noteq> [] then dial J home picked rungs w
        else if length picked = 1 then spread J home picked (hd picked) w
        else dial J home picked (map (\<lambda>n. pick_new n (n @ ''-model'') []) picked) w)"

definition install_double ::
  "codec \<Rightarrow> string \<Rightarrow> string list \<Rightarrow> pick list \<Rightarrow> doubles \<times> world \<Rightarrow> (doubles \<times> world) \<times> string list" where
  "install_double J home ns rungs s =
     (let picked = (if ns = [] then [DOUBLE_NAME] else ns)
      in (((fst s)\<lparr>db_registered := fold bs_insert picked (db_registered (fst s))\<rparr>, install_dials J home picked rungs (snd s)), picked))"

definition forget_doubles :: "doubles \<Rightarrow> doubles" where
  "forget_doubles w = w\<lparr>db_table := [], db_registered := []\<rparr>"

section \<open>Reached over the wire\<close>

fun picks_from :: "json list \<Rightarrow> pick list option" where
  "picks_from [] = Some []"
| "picks_from (v # vs) = (case (pick_from v, picks_from vs) of (Some p, Some ps) \<Rightarrow> Some (p # ps) | _ \<Rightarrow> None)"

definition knobs_value :: "knobs \<Rightarrow> json" where
  "knobs_value k = JObject [(''autoreply'', JBool (kn_autoreply k)), (''defer'', JBool (kn_defer k)), (''startable'', JBool (kn_startable k)),
     (''tunable'', JBool (kn_tunable k))]"

definition bool_or :: "bool \<Rightarrow> json \<Rightarrow> bool" where
  "bool_or dflt v = (case as_bool v of Some b \<Rightarrow> b | None \<Rightarrow> dflt)"

definition str_or :: "string \<Rightarrow> json \<Rightarrow> string" where
  "str_or dflt v = (case as_str v of Some t \<Rightarrow> t | None \<Rightarrow> dflt)"

definition drive :: "codec \<Rightarrow> string \<Rightarrow> request \<Rightarrow> doubles \<Rightarrow> doubles \<times> json res" where
  "drive J what q w =
     (case rq_provider q of
        None \<Rightarrow> (w, Inl ''that needs a provider'')
      | Some name \<Rightarrow>
          (case bt_get (db_table w) name of
             None \<Rightarrow> (w, Inl (''no test provider called '' @ quoted name @ '' is running''))
           | Some a \<Rightarrow>
               let v = rq_value q; l = live_at a w in
               if what = ''knobs'' then
                 let was = lv_knobs l;
                     kn = \<lparr>kn_autoreply = bool_or (kn_autoreply was) (jindex v ''autoreply''), kn_tunable = bool_or (kn_tunable was) (jindex v ''tunable''),
                           kn_defer = bool_or (kn_defer was) (jindex v ''defer''), kn_startable = bool_or (kn_startable was) (jindex v ''startable'')\<rparr>;
                     w1 = on_live a (\<lambda>l. l\<lparr>lv_knobs := kn\<rparr>) w
                 in (w1, Inr (knobs_value (lv_knobs (live_at a w1))))
               else if what = ''reply'' then (live_reply a (case rq_text q of Some t \<Rightarrow> t | None \<Rightarrow> []) w, Inr (JBool True))
               else if what = ''fail'' then
                 (live_fail a (str_or [] (jindex v ''kind'')) (str_or [] (jindex v ''error'')) (bool_or False (jindex v ''ends'')) w, Inr (JBool True))
               else if what = ''state'' then
                 (w, Inr (JObject [(''heard'', JArray (map JString (live_heard J l))), (''resumed'', JBool (lv_resumed l)),
                   (''retuned'', JInt (int (lv_retuned l))), (''sent'', JArray (map JString (lv_sent l))), (''up'', JBool (lv_up l))]))
               else (w, Inl (''nothing called '' @ quoted what @ '' to do to a test provider''))))"

text \<open>Why the rungs of an \<open>install\<close> could not be read is the codec's own text.\<close>

definition test_request :: "codec \<Rightarrow> string \<Rightarrow> (json \<Rightarrow> string) \<Rightarrow> request \<Rightarrow> doubles \<times> world \<Rightarrow> (doubles \<times> world) \<times> json res" where
  "test_request J home why q s =
     (let what = (case rq_what q of Some x \<Rightarrow> x | None \<Rightarrow> ''install'') in
      if what = ''install'' then
        let v = (case jget (rq_value q) ''picks'' of Some x \<Rightarrow> x | None \<Rightarrow> (case jget (rq_value q) ''rungs'' of Some x \<Rightarrow> x | None \<Rightarrow> JArray []))
        in (case Option.bind (as_array v) picks_from of
              None \<Rightarrow> (s, Inl (''bad picks: '' @ why v))
            | Some picks \<Rightarrow>
                (case install_double J home (case rq_providers q of Some xs \<Rightarrow> xs | None \<Rightarrow> []) picks s of
                   (s1, picked) \<Rightarrow> (s1, Inr (JArray (map JString picked)))))
      else if what = ''forget_all'' then ((forget_doubles (fst s), snd s), Inr (JBool True))
      else if what = ''installed'' then (s, Inr (JArray (map JString (db_registered (fst s)))))
      else if what = ''prepare'' then
        (case rq_provider q of
           None \<Rightarrow> (s, Inl ''prepare needs a provider'')
         | Some name \<Rightarrow> ((fst (prepare name (fst s)), snd s), Inr (JBool True)))
      else (case drive J what q (fst s) of (w, r) \<Rightarrow> ((w, snd s), r)))"

section \<open>The doubles stay in order\<close>

text \<open>What the table ns is there, under the name it has in the table.\<close>

definition doubles_wf :: "doubles \<Rightarrow> bool" where
  "doubles_wf w \<longleftrightarrow> (\<forall>name a. bt_get (db_table w) name = Some a \<longrightarrow> a < length (db_lives w) \<and> lv_name (db_lives w ! a) = name)"

text \<open>Nothing is dropped or renamed, and what was emitted stays.\<close>

definition grows :: "doubles \<Rightarrow> doubles \<Rightarrow> bool" where
  "grows w w' \<longleftrightarrow> prefix (map lv_name (db_lives w)) (map lv_name (db_lives w')) \<and> prefix (db_emitted w) (db_emitted w')"

lemma grows_refl [simp, intro]: "grows w w"
  by (simp add: grows_def)

lemma grows_trans: "grows u v \<Longrightarrow> grows v w \<Longrightarrow> grows u w"
  unfolding grows_def by (meson prefix_order.trans)

lemma grows_name:
  assumes "grows w w'" and "a < length (db_lives w)"
  shows "a < length (db_lives w') \<and> lv_name (db_lives w' ! a) = lv_name (db_lives w ! a)"
proof -
  obtain zs where z: "map lv_name (db_lives w') = map lv_name (db_lives w) @ zs" using assms(1) by (auto simp: grows_def prefix_def)
  have l: "a < length (db_lives w')" using arg_cong[OF z, of length] assms(2) by simp
  have "map lv_name (db_lives w') ! a = map lv_name (db_lives w) ! a" using assms(2) by (simp add: z nth_append)
  then show ?thesis using l assms(2) by simp
qed

lemma live_at_on_live: "live_at b (on_live a f w) = (if a = b \<and> a < length (db_lives w) then f (live_at a w) else live_at b w)"
  by (auto simp: live_at_def on_live_def nth_list_update)

lemma on_live_simps [simp]:
  "length (db_lives (on_live a f w)) = length (db_lives w)" "db_table (on_live a f w) = db_table w"
  "db_emitted (on_live a f w) = db_emitted w" "db_registered (on_live a f w) = db_registered w"
  by (simp_all add: on_live_def)

lemma grows_on_live: "(\<And>l. lv_name (f l) = lv_name l) \<Longrightarrow> grows w (on_live a f w)"
proof -
  assume f: "\<And>l. lv_name (f l) = lv_name l"
  have "map lv_name (db_lives (on_live a f w)) = map lv_name (db_lives w)"
    by (rule nth_equalityI) (auto simp: on_live_def live_at_def nth_list_update f)
  then show "grows w (on_live a f w)" by (simp add: grows_def)
qed

lemma say_simps [simp]:
  "db_lives (say a e w) = db_lives w" "db_table (say a e w) = db_table w" "live_at b (say a e w) = live_at b w"
  by (simp_all add: say_def live_at_def Let_def split: option.splits)

lemma grows_say [simp]: "grows w (say a e w)"
  by (simp add: grows_def say_def Let_def split: option.splits)

lemma grows_reply: "grows w (live_reply a t w)"
  unfolding live_reply_def Let_def by (meson grows_say grows_trans)

lemma grows_fail: "grows w (live_fail a kind err also_end w)"
proof -
  have "grows w (say a f (say a e w))" for f e by (rule grows_trans[OF grows_say grows_say])
  then show ?thesis by (simp add: live_fail_def Let_def)
qed

lemma say_tool_simps [simp]: "db_lives (say_tool a nid turn x w) = db_lives w" "db_table (say_tool a nid turn x w) = db_table w"
  by (simp_all add: say_tool_def Let_def)

lemma grows_tools: "grows w (fold (say_tool a nid turn) ts w)"
proof (induction ts arbitrary: w)
  case (Cons x ts)
  have "grows w (say_tool a nid turn x w)" unfolding say_tool_def Let_def by (meson grows_say grows_trans)
  then show ?case using Cons grows_trans by fastforce
qed simp

lemma fold_tools_simps [simp]:
  "db_lives (fold (say_tool a nid turn) ts w) = db_lives w" "db_table (fold (say_tool a nid turn) ts w) = db_table w"
  by (induction ts arbitrary: w) simp_all

lemma reply_simps [simp]: "db_lives (live_reply a t w) = db_lives w" "db_table (live_reply a t w) = db_table w"
  by (simp_all add: live_reply_def Let_def)

text \<open>Every operation of the runner.\<close>

lemma runner_grows:
  "grows (snd d) (snd (fst (double_start nid h d)))" "grows (snd d) (snd (fst (double_send J t d)))"
  "grows (snd d) (snd (fst (double_catch_up h d)))" "grows (snd d) (snd (fst (double_retune m e d)))" "grows (snd d) (snd (double_stop d))"
proof -
  show "grows (snd d) (snd (fst (double_start nid h d)))" by (simp add: double_start_def Let_def on_double_def grows_on_live)
  show "grows (snd d) (snd (fst (double_catch_up h d)))" by (simp add: double_catch_up_def Let_def on_double_def grows_on_live)
  show "grows (snd d) (snd (fst (double_retune m e d)))" by (simp add: double_retune_def on_double_def grows_on_live)
  show "grows (snd d) (snd (double_stop d))" by (simp add: double_stop_def on_double_def grows_on_live)
  have "grows (snd d) (on_live (fst (fst d)) (\<lambda>l. l\<lparr>lv_sent := lv_sent l @ [t], lv_pending_seed := False\<rparr>) (snd d))" by (simp add: grows_on_live)
  then show "grows (snd d) (snd (fst (double_send J t d)))"
    unfolding double_send_def Let_def by (auto intro: grows_trans[OF _ grows_trans[OF grows_say grows_trans[OF grows_tools grows_reply]]])
qed

lemma runner_address:
  "fst (fst (double_start nid h d)) = fst d" "fst (fst (double_send J t d)) = fst d" "fst (fst (double_catch_up h d)) = fst d"
  "fst (fst (double_retune m e d)) = fst d" "fst (double_stop d) = fst d"
  by (simp_all add: double_start_def double_send_def double_catch_up_def double_retune_def double_stop_def on_double_def Let_def)

lemma prepare_facts:
  assumes "doubles_wf w" and "prepare name w = (w1, a)"
  shows "doubles_wf w1" "a < length (db_lives w1)" "lv_name (live_at a w1) = name" "grows w w1" "bt_get (db_table w1) name = Some a"
proof -
  have "doubles_wf w1 \<and> a < length (db_lives w1) \<and> lv_name (live_at a w1) = name \<and> grows w w1 \<and> bt_get (db_table w1) name = Some a"
  proof (cases "bt_get (db_table w) name")
    case None
    then show ?thesis
      using assms by (auto simp: prepare_def doubles_wf_def live_at_def grows_def nth_append live_new_def less_Suc_eq split: if_splits)
  next
    case (Some b)
    then show ?thesis using assms by (auto simp: prepare_def doubles_wf_def live_at_def)
  qed
  then show "doubles_wf w1" "a < length (db_lives w1)" "lv_name (live_at a w1) = name" "grows w w1" "bt_get (db_table w1) name = Some a" by blast+
qed

lemma wf_grows: "doubles_wf w \<Longrightarrow> grows w w' \<Longrightarrow> db_table w' = db_table w \<Longrightarrow> doubles_wf w'"
  using grows_name by (fastforce simp: doubles_wf_def)

text \<open>A runner keeps its name: the doubles are providers the conductor can rely on like the others.\<close>

lemma name_kept:
  assumes "grows (snd d) (snd d')" and "fst d' = fst d" and "length (db_lives (snd d')) = length (db_lives (snd d))"
  shows "lv_name (double_live d') = lv_name (double_live d)"
  using grows_name[OF assms(1), of "fst (fst d)"] assms(2,3) by (simp add: double_live_def live_at_def)

lemma lives_kept:
  "length (db_lives (snd (fst (double_start nid h d)))) = length (db_lives (snd d))"
  "length (db_lives (snd (fst (double_send J t d)))) = length (db_lives (snd d))"
  "length (db_lives (snd (fst (double_catch_up h d)))) = length (db_lives (snd d))"
  "length (db_lives (snd (fst (double_retune m e d)))) = length (db_lives (snd d))"
  by (simp_all add: double_start_def double_send_def double_catch_up_def double_retune_def on_double_def Let_def)

lemma double_ops_named:
  assumes "\<And>ep. doubles_wf (dw ep)"
  shows "named_ops (double_ops J dw)"
proof -
  have "lv_name (double_live (double_new p sid cf k w)) = p" if "doubles_wf w" for p sid cf k w
  proof -
    obtain w1 a where p: "prepare p w = (w1, a)" by fastforce
    show ?thesis using prepare_facts[OF that p] by (simp add: double_new_def p double_live_def live_at_on_live)
  qed
  then have "rn_make (double_ops J dw) p sid cf ep = Some r \<Longrightarrow> rn_name (double_ops J dw) r = p" for p sid cf ep r
    using assms by (auto simp only: double_ops_def runner_ops.simps option.inject split: if_splits)
  moreover have "lv_name (double_live (fst (double_start nid h r))) = lv_name (double_live r)"
    "lv_name (double_live (fst (double_send J t r))) = lv_name (double_live r)"
    "lv_name (double_live (fst (double_catch_up h r))) = lv_name (double_live r)"
    "lv_name (double_live (fst (double_retune m e r))) = lv_name (double_live r)" for nid h t m e r
    by (rule name_kept; simp only: runner_grows runner_address lives_kept)+
  ultimately show ?thesis unfolding named_ops_def by (simp add: double_ops_def)
qed

section \<open>What a double says\<close>

datatype talk = Told "event list" | Said string

fun talks :: "codec \<Rightarrow> talk \<Rightarrow> double_place \<Rightarrow> double_place" where
  "talks J (Told h) d = fst (double_catch_up h d)"
| "talks J (Said t) d = fst (double_send J t d)"

definition told_events :: "talk list \<Rightarrow> event list" where
  "told_events xs = concat (map (\<lambda>x. case x of Told h \<Rightarrow> h | Said _ \<Rightarrow> []) xs)"

definition said_texts :: "talk list \<Rightarrow> string list" where
  "said_texts xs = concat (map (\<lambda>x. case x of Told _ \<Rightarrow> [] | Said t \<Rightarrow> [t]) xs)"

text \<open>What of a double its conversation leaves alone.\<close>

definition set_up :: "double_place \<Rightarrow> double_place \<Rightarrow> bool" where
  "set_up d d' \<longleftrightarrow> fst d' = fst d \<and> length (db_lives (snd d')) = length (db_lives (snd d)) \<and> lv_up (double_live d') = lv_up (double_live d)
     \<and> lv_knobs (double_live d') = lv_knobs (double_live d) \<and> lv_emit (double_live d') = lv_emit (double_live d)
     \<and> lv_name (double_live d') = lv_name (double_live d) \<and> lv_model (double_live d') = lv_model (double_live d)"

lemma double_live_send:
  assumes "lv_up (double_live d)" and "fst (fst d) < length (db_lives (snd d))"
  shows "double_live (fst (double_send J t d)) = (double_live d)\<lparr>lv_sent := lv_sent (double_live d) @ [t], lv_pending_seed := False\<rparr>"
proof -
  have "live_at a (live_reply a x (fold (say_tool a n k) ts (say a e w))) = live_at a w" for a x n k ts e w by (simp add: live_at_def)
  then show ?thesis using assms by (auto simp: double_send_def double_live_def live_at_on_live Let_def)
qed

lemma double_live_told:
  assumes "fst (fst d) < length (db_lives (snd d))"
  shows "lv_given (double_live (fst (double_catch_up h d))) = lv_given (double_live d) @ h \<and> lv_sent (double_live (fst (double_catch_up h d))) = lv_sent (double_live d)
     \<and> set_up d (fst (double_catch_up h d))"
  using assms by (simp add: double_catch_up_def on_double_def double_live_def live_at_on_live Let_def set_up_def)

lemma talks_keep:
  assumes "lv_up (double_live d)" and "fst (fst d) < length (db_lives (snd d))"
  shows "set_up d (fold (talks J) xs d) \<and> lv_given (double_live (fold (talks J) xs d)) = lv_given (double_live d) @ told_events xs
     \<and> lv_sent (double_live (fold (talks J) xs d)) = lv_sent (double_live d) @ said_texts xs"
  using assms
proof (induction xs arbitrary: d)
  case Nil
  then show ?case by (simp add: set_up_def told_events_def said_texts_def)
next
  case (Cons x xs)
  let ?d = "talks J x d"
  have st: "set_up d ?d"
  proof (cases x)
    case (Told h)
    then show ?thesis using double_live_told[OF Cons.prems(2), of h] by simp
  next
    case (Said t)
    then show ?thesis using Cons.prems by (simp add: double_live_send set_up_def runner_address lives_kept)
  qed
  then have "lv_up (double_live ?d)" "fst (fst ?d) < length (db_lives (snd ?d))" using Cons.prems by (simp_all add: set_up_def)
  from Cons.IH[OF this] st Cons.prems show ?case
    by (cases x) (auto simp: double_live_told double_live_send set_up_def told_events_def said_texts_def)
qed

text \<open>The turn a message is answered with.\<close>

definition said_by :: "nat \<Rightarrow> live_double \<Rightarrow> doubles \<Rightarrow> doubles \<Rightarrow> event list \<Rightarrow> bool" where
  "said_by k l w w' es \<longleftrightarrow> db_emitted w' = db_emitted w @ map (Pair k) es \<and> db_lives w' = db_lives w
     \<and> list_all (\<lambda>e. ev_provider e = lv_name l \<and> ev_model e = lv_model l) es"

lemma said_by_trans: "said_by k l u v es \<Longrightarrow> said_by k l v w fs \<Longrightarrow> said_by k l u w (es @ fs)"
  by (simp add: said_by_def)

lemma said_by_say:
  "live_at a w = l \<Longrightarrow> lv_emit l = Some k \<Longrightarrow> said_by k l w (say a e w) [e\<lparr>ev_provider := lv_name l, ev_model := lv_model l\<rparr>]"
  by (simp add: said_by_def say_def Let_def)

lemma live_at_kept [simp]:
  "live_at b (say_tool a nid n x w) = live_at b w" "live_at b (fold (say_tool a nid n) ts w) = live_at b w" "live_at b (live_reply a t w) = live_at b w"
  by (simp_all add: live_at_def)

lemma said_by_two:
  assumes "live_at a w = l" and "lv_emit l = Some k"
  shows "said_by k l w (say a f (say a e w)) [e\<lparr>ev_provider := lv_name l, ev_model := lv_model l\<rparr>, f\<lparr>ev_provider := lv_name l, ev_model := lv_model l\<rparr>]"
  using said_by_trans[OF said_by_say[OF assms, of e] said_by_say[of a "say a e w" l k f]] assms by simp

lemma said_by_tools:
  assumes "live_at a w = l" and "lv_emit l = Some k"
  shows "\<exists>es. said_by k l w (fold (say_tool a nid n) ts w) es \<and> map ev_type es = concat (map (\<lambda>_. [TOOL_CALL, TOOL_RESULT]) ts)"
  using assms(1)
proof (induction ts arbitrary: w)
  case Nil
  then show ?case by (simp add: said_by_def)
next
  case (Cons x ts)
  let ?w = "say_tool a nid n x w"
  have w: "live_at a ?w = l" using Cons.prems by simp
  have "\<exists>e1 e2. said_by k l w ?w [e1, e2] \<and> ev_type e1 = TOOL_CALL \<and> ev_type e2 = TOOL_RESULT"
    unfolding say_tool_def Let_def
    by (intro exI conjI, rule said_by_two[OF Cons.prems assms(2)]) (simp_all add: fresh_event_def event_new_def)
  then obtain e1 e2 where e: "said_by k l w ?w [e1, e2]" "ev_type e1 = TOOL_CALL" "ev_type e2 = TOOL_RESULT" by blast
  obtain es where es: "said_by k l ?w (fold (say_tool a nid n) ts ?w) es" "map ev_type es = concat (map (\<lambda>_. [TOOL_CALL, TOOL_RESULT]) ts)"
    using Cons.IH[OF w] by blast
  show ?case using said_by_trans[OF e(1) es(1)] e(2,3) es(2) by (intro exI[of _ "[e1, e2] @ es"]) simp
qed

lemma said_by_reply:
  assumes "live_at a w = l" and "lv_emit l = Some k"
  shows "\<exists>e f. said_by k l w (live_reply a t w) [e, f] \<and> ev_type e = TEXT \<and> ev_text e = t \<and> ev_type f = END"
  unfolding live_reply_def Let_def
  by (intro exI conjI, rule said_by_two[OF assms]) (simp_all add: fresh_event_def event_new_def saying_def with_extra_def)

text \<open>A message to a double that answers is one whole turn: thinking, the tools it names, the answer and the end.\<close>

lemma send_is_a_turn:
  assumes "lv_up (double_live d)" and "kn_autoreply (lv_knobs (double_live d))" and "lv_emit (double_live d) = Some k"
    and "fst (fst d) < length (db_lives (snd d))"
  shows "\<exists>d2 b ts e f. double_send J t d = (d2, Inr Immediate) \<and> db_emitted (snd d2) = db_emitted (snd d) @ map (Pair k) (b # ts @ [e, f])
     \<and> ev_type b = THINKING \<and> map ev_type ts = concat (map (\<lambda>_. [TOOL_CALL, TOOL_RESULT]) (live_tools t))
     \<and> ev_type e = TEXT \<and> ev_text e = live_answer J (double_live d) t \<and> ev_type f = END
     \<and> list_all (\<lambda>e. ev_provider e = lv_name (double_live d) \<and> ev_model e = lv_model (double_live d)) (b # ts @ [e, f])"
proof -
  let ?a = "fst (fst d)"
  define w1 where "w1 = on_live ?a (\<lambda>l. l\<lparr>lv_sent := lv_sent l @ [t], lv_pending_seed := False\<rparr>) (snd d)"
  define l where "l = live_at ?a w1"
  have l: "lv_emit l = Some k" "kn_autoreply (lv_knobs l)" "lv_name l = lv_name (double_live d)" "lv_model l = lv_model (double_live d)"
    using assms by (simp_all add: l_def w1_def live_at_on_live double_live_def)
  define w2 where "w2 = say ?a (fresh_event THINKING w1) w1"
  define w3 where "w3 = fold (say_tool ?a (lv_native l) (length (lv_sent l))) (live_tools t) w2"
  obtain b where b: "said_by k l w1 w2 [b]" "ev_type b = THINKING"
    using said_by_say[of ?a w1 l k "fresh_event THINKING w1"] l(1) by (simp add: l_def w2_def fresh_event_def event_new_def)
  obtain ts where ts: "said_by k l w2 w3 ts" "map ev_type ts = concat (map (\<lambda>_. [TOOL_CALL, TOOL_RESULT]) (live_tools t))"
    using said_by_tools[of ?a w2 l k "lv_native l" "length (lv_sent l)" "live_tools t"] l(1) by (auto simp: w2_def w3_def l_def)
  obtain e f where ef: "said_by k l w3 (live_reply ?a (live_answer J (double_live d) t) w3) [e, f]" "ev_type e = TEXT"
      "ev_text e = live_answer J (double_live d) t" "ev_type f = END"
    using said_by_reply[of ?a w3 l k "live_answer J (double_live d) t"] l(1) by (auto simp: w3_def w2_def l_def)
  have all: "said_by k l w1 (live_reply ?a (live_answer J (double_live d) t) w3) (b # ts @ [e, f])"
    using said_by_trans[OF b(1) said_by_trans[OF ts(1) ef(1)]] by simp
  have "double_send J t d = ((fst d, live_reply ?a (live_answer J (double_live d) t) w3), Inr Immediate)"
    using assms(1) l(2) by (simp add: double_send_def Let_def w3_def w2_def l_def w1_def)
  then show ?thesis using all b(2) ts(2) ef(2-4) l(3,4) by (auto simp: said_by_def w1_def)
qed

text \<open>
  a double forgets nothing it was told. Started with a history, caught up and spoken to in any order, it answers
  \<open>[recall]\<close> with the turns of all the history it was handed and then every message it was sent, in one whole turn.
\<close>

theorem recall_tells_all:
  assumes "fst (fst d) < length (db_lives (snd d))" and "double_start nid h d = (d0, Inr ())"
    and "lv_emit (double_live d) = Some k" and "kn_autoreply (lv_knobs (double_live d))" and "sublist RECALL t"
  shows "\<exists>d2 b ts e f. double_send J t (fold (talks J) xs d0) = (d2, Inr Immediate)
     \<and> db_emitted (snd d2) = db_emitted (snd (fold (talks J) xs d0)) @ map (Pair k) (b # ts @ [e, f])
     \<and> ev_type b = THINKING \<and> map ev_type ts = concat (map (\<lambda>_. [TOOL_CALL, TOOL_RESULT]) (live_tools t)) \<and> ev_type f = END
     \<and> ev_type e = TEXT \<and> ev_text e = (let all = join '' | '' (map tn_text (transcript J (h @ told_events xs)) @ said_texts xs)
          in if all = [] then ''nothing yet'' else all)"
proof -
  let ?d = "fold (talks J) xs d0"
  have d0: "double_live d0 = (double_live d)\<lparr>lv_resumed := lv_resumed (double_live d0), lv_native := lv_native (double_live d0), lv_given := h,
      lv_sent := [], lv_pending_seed := lv_pending_seed (double_live d0), lv_retuned := 0, lv_starts := lv_starts (double_live d0), lv_up := True\<rparr>"
    and "fst d0 = fst d" "length (db_lives (snd d0)) = length (db_lives (snd d))"
    using assms(1,2) by (auto simp: double_start_def on_double_def double_live_def live_at_on_live Let_def split: if_splits)
  then have range: "fst (fst d0) < length (db_lives (snd d0))" using assms(1) by simp
  have g: "lv_up (double_live d0)" "lv_given (double_live d0) = h" "lv_sent (double_live d0) = []"
    "lv_emit (double_live d0) = Some k" "kn_autoreply (lv_knobs (double_live d0))"
    by (subst d0, simp add: assms(3,4))+
  have k: "set_up d0 ?d" "lv_given (double_live ?d) = h @ told_events xs" "lv_sent (double_live ?d) = said_texts xs"
    using talks_keep[OF g(1) range, of J xs] g(2,3) by auto
  have up: "lv_up (double_live ?d)" "kn_autoreply (lv_knobs (double_live ?d))" "lv_emit (double_live ?d) = Some k"
    "fst (fst ?d) < length (db_lives (snd ?d))" using k(1) g(1,4,5) range by (auto simp: set_up_def)
  have "live_answer J (double_live ?d) t = (let all = join '' | '' (map tn_text (transcript J (h @ told_events xs)) @ said_texts xs)
          in if all = [] then ''nothing yet'' else all)"
    using assms(5) by (simp add: live_answer_def live_heard_def k)
  with send_is_a_turn[OF up, of J t] show ?thesis by (elim exE conjE) (intro exI conjI, assumption+, simp)
qed

text \<open>One double that was given a history, caught up and spoken to.\<close>

definition demo_said :: "string \<Rightarrow> event" where
  "demo_said t = saying t (event_new [] START)"

definition demo_double :: double_place where
  "demo_double = double_new ''d'' ''s'' ((config_default [])\<lparr>cf_model := ''m''\<rparr>) 7
     \<lparr>db_lives = [], db_table = [], db_registered = [''d''], db_emitted = [], db_clock = show_nat\<rparr>"

definition demo_started :: double_place where
  "demo_started = fst (double_start [] [demo_said ''one''] demo_double)"

theorem recall_tells_all_witness:
  "\<exists>d2 b ts e f. double_send toy_codec ''[recall]'' (fold (talks toy_codec) [Said ''two''] demo_started) = (d2, Inr Immediate)
     \<and> db_emitted (snd d2) = db_emitted (snd (fold (talks toy_codec) [Said ''two''] demo_started)) @ map (Pair 7) (b # ts @ [e, f])
     \<and> ev_text e = ''one | two''"
proof -
  have r: "fst (fst demo_double) < length (db_lives (snd demo_double))" by code_simp
  have st: "double_start [] [demo_said ''one''] demo_double = (demo_started, Inr ())"
    unfolding demo_started_def by (rule prod_eqI) (simp, code_simp)
  have em: "lv_emit (double_live demo_double) = Some 7" by code_simp
  have au: "kn_autoreply (lv_knobs (double_live demo_double))" by code_simp
  have re: "sublist RECALL ''[recall]''" by (simp add: RECALL_def)
  have tx: "(let all = join '' | '' (map tn_text (transcript toy_codec ([demo_said ''one''] @ told_events [Said ''two''])) @ said_texts [Said ''two''])
      in if all = [] then ''nothing yet'' else all) = ''one | two''" by code_simp
  from recall_tells_all[OF r st em au re, of toy_codec "[Said ''two'']", unfolded tx] show ?thesis by blast
qed

section \<open>The dial\<close>

lemma f64_steps:
  assumes "0 \<le> v" and "v \<le> 10" and "0 < n" and "int n \<le> 2 ^ 49"
  shows "spread_index n v = nat (min u64_max \<lfloor>magnitude (of_int ((10 - v) * (int n - 1)) / 10) + 1 / 2\<rfloor>)"
proof -
  let ?k = "(10 - v) * (int n - 1)"
  have k: "0 \<le> ?k" "?k \<le> 10 * 2 ^ 49" using assms mult_mono[of "10 - v" 10 "int n - 1" "2 ^ 49"] by simp_all
  have fin: "round_f64 x = Finite (magnitude x)" if "0 \<le> x" "x \<le> of_int (2 ^ 53)" for x
    using round_f64_between[OF that(1), of "2 ^ 53"] that by (auto simp: round_f64_def Let_def split: if_splits)
  have m: "magnitude (of_int i) = of_int i" if "0 \<le> i" "i \<le> 2 ^ 53" for i using that by (rule magnitude_int)
  have a: "round_f64 (of_nat (n - 1)) = Finite (of_int (int n - 1))"
  proof -
    have "(of_nat (n - 1) :: rat) = of_int (int n - 1)" using assms(3) by (simp add: of_nat_diff)
    moreover have "0 \<le> int n - 1" "int n - 1 \<le> 2 ^ 53" using assms(3,4) by simp_all
    moreover from this have "(of_int (int n - 1) :: rat) \<le> of_int (2 ^ 53)" unfolding of_int_le_iff by simp
    ultimately show ?thesis using fin[of "of_int (int n - 1)"] m[of "int n - 1"] by (simp only: of_int_0_le_iff)
  qed
  have "(of_int ?k :: rat) \<le> of_int (2 ^ 53)" unfolding of_int_le_iff using k(2) by simp
  then have b: "round_f64 (of_int ?k) = Finite (of_int ?k)" using fin[of "of_int ?k"] m[of ?k] k by (auto simp only: of_int_0_le_iff)
  have c: "0 \<le> (of_int ?k / 10 :: rat)" using k(1) by (simp only: zero_le_divide_iff of_int_0_le_iff) simp
  have "(of_int ?k / 10 :: rat) \<le> of_int ?k" using k(1) by (simp add: divide_le_eq del: of_int_mult)
  then have "(of_int ?k / 10 :: rat) \<le> of_int (2 ^ 53)" using \<open>(of_int ?k :: rat) \<le> of_int (2 ^ 53)\<close> by linarith
  then have d: "round_f64 (of_int ?k / 10) = Finite (magnitude (of_int ?k / 10))" using fin c by blast
  have "of_int (10 - v) * (of_int (int n - 1) :: rat) = of_int ?k" by simp
  then have "spread_index n v = as_usize (f64_round (Finite (magnitude (of_int ?k / 10))))"
    unfolding spread_index_def by (simp only: a b d f64.case f64_map.simps)
  then show ?thesis by (simp add: round_away_def not_less[THEN iffD2] del: of_int_mult) 
qed

text \<open>
  The dial is monotonic from the strongest pick at ten down to the weakest at zero, and every value has a pick of the list.
\<close>

lemma spread_monotone:
  assumes "picks \<noteq> []" and "int (length picks) \<le> 2 ^ 49"
  shows "0 \<le> u \<Longrightarrow> u \<le> v \<Longrightarrow> v \<le> 10 \<Longrightarrow> spread_index (length picks) v \<le> spread_index (length picks) u"
    and "spread_index (length picks) 10 = 0" "spread_index (length picks) 0 = length picks - 1"
    and "length (spread_over picks) = 11" "set (spread_over picks) \<subseteq> set picks"
proof -
  let ?n = "length picks"
  have n: "0 < ?n" using assms(1) by simp
  show "spread_index ?n v \<le> spread_index ?n u" if "0 \<le> u" "u \<le> v" "v \<le> 10"
  proof -
    have "(10 - v) * (int ?n - 1) \<le> (10 - u) * (int ?n - 1)" using that n by (intro mult_right_mono) simp_all
    then have "(of_int ((10 - v) * (int ?n - 1)) :: rat) \<le> of_int ((10 - u) * (int ?n - 1))" by (simp only: of_int_le_iff)
    then have "magnitude (of_int ((10 - v) * (int ?n - 1)) / 10) \<le> magnitude (of_int ((10 - u) * (int ?n - 1)) / 10)"
      by (intro magnitude_mono divide_right_mono) simp_all
    then show ?thesis
      using that n assms(2) by (simp only: f64_steps) (intro nat_mono min.mono order_refl floor_mono add_right_mono, assumption)
  qed
  show "spread_index ?n 10 = 0" using f64_steps[of 10 ?n] n assms(2) by (simp add: magnitude_def u64_max_def)
  have "magnitude (of_int (int ?n - 1)) = of_int (int ?n - 1)" using n assms(2) by (intro magnitude_int) simp_all
  moreover have "(of_int ((10 - 0) * (int ?n - 1)) / 10 :: rat) = of_int (int ?n - 1)" by simp
  ultimately have "spread_index ?n 0 = nat (min u64_max \<lfloor>(of_int (int ?n - 1) :: rat) + 1 / 2\<rfloor>)"
    using f64_steps[of 0 ?n, OF _ _ n assms(2)] by (simp only: order_refl zero_le_numeral)
  moreover have "\<lfloor>(of_int (int ?n - 1) :: rat) + 1 / 2\<rfloor> = int ?n - 1" by linarith
  ultimately show "spread_index ?n 0 = ?n - 1" using n assms(2) by (simp add: u64_max_def nat_diff_distrib)
  show "length (spread_over picks) = 11" using assms(1) by (simp add: spread_over_def INTELLIGENCE_VALUES_def)
  show "set (spread_over picks) \<subseteq> set picks" using n by (auto simp: spread_over_def intro!: nth_mem order_le_less_trans[OF min.cobounded2])
qed

end
