(* ===== verification/Wiring.thy ===== *)
theory Wiring
  imports Wire_Protocol
begin

text \<open>
  \<open>wiring.rs\<close>: one client connection and its interest in a session. A connection is written to
  through a bounded queue that a thread of its own empties into the socket; the thread is a step
  of its own here, whose outcome (did the write succeed) is an argument. \<open>cn_wire\<close> is what reached
  the socket. A listener is a connection and the position it has been told up to.
\<close>

definition OUTBOX_CAPACITY :: nat where
  "OUTBOX_CAPACITY = 4096"

datatype outgoing = Line string | Flush

record connection =
  cn_id :: nat
  cn_queue :: "outgoing list"
  cn_open :: bool
  cn_writer :: bool
  cn_control :: bool
  cn_shut :: bool
  cn_wire :: "string list"
  cn_flushed :: nat
  cn_listening :: "string list"

definition conn_new :: "nat \<Rightarrow> bool \<Rightarrow> connection" where
  "conn_new i cloned = \<lparr>cn_id = i, cn_queue = [], cn_open = True, cn_writer = True, cn_control = cloned, cn_shut = False,
     cn_wire = [], cn_flushed = 0, cn_listening = []\<rparr>"

text \<open>The thread takes the next thing from the queue; a failed write ends it and the connection.\<close>

definition writer_step :: "bool \<Rightarrow> connection \<Rightarrow> connection" where
  "writer_step ok c =
     (if \<not> cn_writer c then c
      else
        (case cn_queue c of
           [] \<Rightarrow> c
         | x # xs \<Rightarrow>
             if ok \<and> \<not> cn_shut c
             then (case x of
                     Line l \<Rightarrow> c\<lparr>cn_queue := xs, cn_wire := cn_wire c @ [l]\<rparr>
                   | Flush \<Rightarrow> c\<lparr>cn_queue := xs, cn_flushed := Suc (cn_flushed c)\<rparr>)
             else c\<lparr>cn_queue := [], cn_writer := False, cn_open := False, cn_shut := True\<rparr>))"

definition conn_close :: "connection \<Rightarrow> connection" where
  "conn_close c = c\<lparr>cn_open := False, cn_shut := cn_shut c \<or> cn_control c, cn_control := False\<rparr>"

datatype try_send_result = Accepted connection | Full | Disconnected

definition try_send :: "outgoing \<Rightarrow> connection \<Rightarrow> try_send_result" where
  "try_send x c =
     (if \<not> cn_writer c then Disconnected
      else if OUTBOX_CAPACITY \<le> length (cn_queue c) then Full
      else Accepted (c\<lparr>cn_queue := cn_queue c @ [x]\<rparr>))"

definition conn_write :: "string \<Rightarrow> connection \<Rightarrow> connection \<times> bool" where
  "conn_write l c =
     (if \<not> cn_open c then (c, False)
      else (case try_send (Line (l @ [newline])) c of
              Accepted c1 \<Rightarrow> (c1, True)
            | _ \<Rightarrow> (conn_close c, False)))"

text \<open>
  A historical line waits for the thread to make room. Between two attempts the thread takes some
  steps, or another thread closes the connection; the pauses are those the timeout leaves time for.
\<close>

datatype meanwhile = Writes bool | Closes

fun meantime :: "meanwhile list \<Rightarrow> connection \<Rightarrow> connection" where
  "meantime [] c = c"
| "meantime (Writes ok # ms) c = meantime ms (writer_step ok c)"
| "meantime (Closes # ms) c = meantime ms (conn_close c)"

fun write_replay :: "string \<Rightarrow> meanwhile list list \<Rightarrow> connection \<Rightarrow> connection \<times> bool" where
  "write_replay l pauses c =
     (if \<not> cn_open c then (c, False)
      else (case try_send (Line (l @ [newline])) c of
              Accepted c1 \<Rightarrow> (c1, True)
            | Disconnected \<Rightarrow> (conn_close c, False)
            | Full \<Rightarrow> (case pauses of [] \<Rightarrow> (conn_close c, False) | p # ps \<Rightarrow> write_replay l ps (meantime p c))))"

declare write_replay.simps [simp del]

definition conn_reply :: "codec \<Rightarrow> reply \<Rightarrow> connection \<Rightarrow> connection \<times> bool" where
  "conn_reply J r c = conn_write (to_text J (reply_value r)) c"

definition conn_frame :: "codec \<Rightarrow> frame \<Rightarrow> connection \<Rightarrow> connection \<times> bool" where
  "conn_frame J f c = conn_write (to_text J (frame_value f)) c"

definition replay_frame :: "codec \<Rightarrow> frame \<Rightarrow> meanwhile list list \<Rightarrow> connection \<Rightarrow> connection \<times> bool" where
  "replay_frame J f pauses c = write_replay (to_text J (frame_value f)) pauses c"

text \<open>Waiting for everything queued before to reach the socket: what happens meanwhile decides.\<close>

definition conn_flush :: "meanwhile list \<Rightarrow> connection \<Rightarrow> connection \<times> bool" where
  "conn_flush ms c =
     (if \<not> cn_open c then (c, False)
      else (case try_send Flush c of
              Accepted c1 \<Rightarrow> let c2 = meantime ms c1 in (c2, Flush \<notin> set (cn_queue c2) \<and> cn_writer c2)
            | _ \<Rightarrow> (conn_close c, False)))"

section \<open>Listeners\<close>

record listener =
  ls_conn :: nat
  ls_next :: int

definition listener_new :: "nat \<Rightarrow> int \<Rightarrow> listener" where
  "listener_new conn from = \<lparr>ls_conn = conn, ls_next = from\<rparr>"

text \<open>An event the listener has had already is not sent again; a notice without a position moves nothing.\<close>

definition told :: "event \<Rightarrow> listener \<Rightarrow> bool" where
  "told e l \<longleftrightarrow> 0 \<le> ev_seq e \<and> ev_seq e < ls_next l"

definition moved :: "event \<Rightarrow> listener \<Rightarrow> listener" where
  "moved e l = (if 0 \<le> ev_seq e then l\<lparr>ls_next := ev_seq e + 1\<rparr> else l)"

definition listener_deliver :: "codec \<Rightarrow> string \<Rightarrow> event \<Rightarrow> snapshot \<Rightarrow> listener \<Rightarrow> connection \<Rightarrow> listener \<times> connection \<times> bool" where
  "listener_deliver J sid e sn l c =
     (if told e l then (l, c, True)
      else (case conn_frame J (frame_event sid e sn) c of (c1, ok) \<Rightarrow> (moved e l, c1, ok)))"

definition listener_replay :: "codec \<Rightarrow> string \<Rightarrow> event \<Rightarrow> snapshot \<Rightarrow> meanwhile list list \<Rightarrow> listener \<Rightarrow> connection \<Rightarrow> listener \<times> connection \<times> bool" where
  "listener_replay J sid e sn pauses l c =
     (if told e l then (l, c, True)
      else (case replay_frame J (frame_event sid e sn) pauses c of (c1, ok) \<Rightarrow> (moved e l, c1, ok)))"

section \<open>A connection's life\<close>

datatype conn_act = Writing string | Replaying string "meanwhile list list" | Flushing "meanwhile list" | Meanwhile meanwhile

text \<open>What one act does, and the line it tried to hand over with whether the connection took it.\<close>

definition act :: "conn_act \<Rightarrow> connection \<Rightarrow> connection \<times> (string \<times> bool) list" where
  "act a c =
     (case a of
        Writing l \<Rightarrow> (case conn_write l c of (c1, ok) \<Rightarrow> (c1, [(l @ [newline], ok)]))
      | Replaying l pauses \<Rightarrow> (case write_replay l pauses c of (c1, ok) \<Rightarrow> (c1, [(l @ [newline], ok)]))
      | Flushing ms \<Rightarrow> (fst (conn_flush ms c), [])
      | Meanwhile m \<Rightarrow> (meantime [m] c, []))"

fun acts :: "conn_act list \<Rightarrow> connection \<Rightarrow> connection \<times> (string \<times> bool) list" where
  "acts [] c = (c, [])"
| "acts (a # as) c = (case act a c of (c1, t1) \<Rightarrow> (case acts as c1 of (c2, t2) \<Rightarrow> (c2, t1 @ t2)))"

section \<open>Facts\<close>

definition queued_lines :: "connection \<Rightarrow> string list" where
  "queued_lines c = concat (map (\<lambda>x. case x of Line l \<Rightarrow> [l] | Flush \<Rightarrow> []) (cn_queue c))"

text \<open>
  What holds between a connection and the lines it has taken: those that reached the socket come
  first, and none is missing while its thread lives; a thread that ended closed the connection.
\<close>

definition carries :: "string list \<Rightarrow> connection \<Rightarrow> bool" where
  "carries taken c \<longleftrightarrow> prefix (cn_wire c) taken \<and> (cn_writer c \<longrightarrow> cn_wire c @ queued_lines c = taken)
     \<and> length (cn_queue c) \<le> OUTBOX_CAPACITY \<and> (cn_open c \<longrightarrow> cn_writer c)"

lemma carries_new: "carries [] (conn_new i b)"
  by (simp add: carries_def conn_new_def queued_lines_def)

lemma carries_writer: "carries taken c \<Longrightarrow> carries taken (writer_step ok c)"
proof (cases "cn_queue c")
  case (Cons x xs)
  moreover assume "carries taken c"
  ultimately show ?thesis
    by (cases x) (auto simp: carries_def writer_step_def queued_lines_def)
qed (simp add: writer_step_def)

lemma carries_close: "carries taken c \<Longrightarrow> carries taken (conn_close c)"
  by (simp add: carries_def conn_close_def queued_lines_def)

lemma meantime_carries: "carries taken c \<Longrightarrow> carries taken (meantime ms c)"
  by (induction ms c rule: meantime.induct) (simp_all add: carries_writer carries_close)

lemma closed_stays: "\<not> cn_open c \<Longrightarrow> \<not> cn_open (meantime ms c)"
  by (induction ms c rule: meantime.induct) (auto simp: writer_step_def conn_close_def split: list.splits outgoing.splits)

lemma try_send_carries:
  "carries taken c \<Longrightarrow> try_send (Line l) c = Accepted c1 \<Longrightarrow> carries (taken @ [l]) c1 \<and> cn_open c1 = cn_open c"
  "carries taken c \<Longrightarrow> try_send Flush c = Accepted c1 \<Longrightarrow> carries taken c1 \<and> cn_open c1 = cn_open c"
  by (auto simp: carries_def try_send_def queued_lines_def prefix_def split: if_splits)

lemma conn_write_cases:
  assumes "conn_write l c = (c1, ok)" and "carries taken c"
  shows "if ok then cn_open c \<and> cn_open c1 \<and> carries (taken @ [l @ [newline]]) c1 else \<not> cn_open c1 \<and> carries taken c1"
  using assms carries_close[OF assms(2)]
  by (auto simp: conn_write_def conn_close_def dest: try_send_carries split: if_splits try_send_result.splits)

lemma write_replay_cases:
  assumes "write_replay l pauses c = (c1, ok)" and "carries taken c"
  shows "if ok then cn_open c \<and> cn_open c1 \<and> carries (taken @ [l @ [newline]]) c1 else \<not> cn_open c1 \<and> carries taken c1"
  using assms
proof (induction pauses arbitrary: c)
  case Nil
  then show ?case using carries_close[OF Nil.prems(2)]
    by (subst (asm) write_replay.simps)
      (auto simp: conn_close_def dest: try_send_carries split: if_splits try_send_result.splits)
next
  case (Cons p ps)
  show ?case
  proof (cases "cn_open c \<and> try_send (Line (l @ [newline])) c = Full")
    case True
    then have "write_replay l ps (meantime p c) = (c1, ok)" using Cons.prems(1) by (subst (asm) write_replay.simps) simp
    from Cons.IH[OF this meantime_carries[OF Cons.prems(2)]] True show ?thesis by (cases ok) simp_all
  next
    case False
    then show ?thesis using Cons.prems carries_close[OF Cons.prems(2)]
      by (subst (asm) write_replay.simps)
        (auto simp: conn_close_def dest: try_send_carries split: if_splits try_send_result.splits)
  qed
qed

lemma conn_flush_carries:
  assumes "carries taken c"
  shows "carries taken (fst (conn_flush ms c)) \<and> (\<not> cn_open c \<longrightarrow> \<not> cn_open (fst (conn_flush ms c)))"
  using assms carries_close[OF assms] meantime_carries
  by (auto simp: conn_flush_def Let_def dest: try_send_carries split: try_send_result.splits)

definition all_or_closed :: "(string \<times> bool) list \<Rightarrow> bool \<Rightarrow> bool" where
  "all_or_closed ts op \<longleftrightarrow> (\<forall>p \<in> set (dropWhile snd ts). \<not> snd p) \<and> (op \<longrightarrow> (\<forall>p \<in> set ts. snd p))"

abbreviation taken_of :: "(string \<times> bool) list \<Rightarrow> string list" where
  "taken_of ts \<equiv> map fst (filter snd ts)"

lemma act_carries:
  assumes "act a c = (c1, ts)" and "carries taken c"
  shows "carries (taken @ taken_of ts) c1" "all_or_closed ts (cn_open c1)"
    "\<not> cn_open c \<Longrightarrow> \<not> cn_open c1 \<and> taken_of ts = []"
proof -
  have one: "carries (taken @ taken_of ts) c1 \<and> all_or_closed ts (cn_open c1) \<and> (\<not> cn_open c \<longrightarrow> \<not> cn_open c1 \<and> taken_of ts = [])"
    if "ts = [(l @ [newline], ok)]"
      "if ok then cn_open c \<and> cn_open c1 \<and> carries (taken @ [l @ [newline]]) c1 else \<not> cn_open c1 \<and> carries taken c1" for l ok
    using that by (cases ok) (auto simp: all_or_closed_def)
  have "carries (taken @ taken_of ts) c1 \<and> all_or_closed ts (cn_open c1) \<and> (\<not> cn_open c \<longrightarrow> \<not> cn_open c1 \<and> taken_of ts = [])"
  proof (cases a)
    case (Writing l)
    obtain c2 ok where w: "conn_write l c = (c2, ok)" by fastforce
    then have "c2 = c1" "ts = [(l @ [newline], ok)]" using assms(1) Writing by (auto simp: act_def)
    with one conn_write_cases[OF w assms(2)] show ?thesis by blast
  next
    case (Replaying l ps)
    obtain c2 ok where w: "write_replay l ps c = (c2, ok)" by fastforce
    then have "c2 = c1" "ts = [(l @ [newline], ok)]" using assms(1) Replaying by (auto simp: act_def)
    with one write_replay_cases[OF w assms(2)] show ?thesis by blast
  next
    case (Flushing ms)
    then show ?thesis using assms(1) conn_flush_carries[OF assms(2)] by (auto simp: act_def all_or_closed_def)
  next
    case (Meanwhile m)
    then show ?thesis using assms(1) meantime_carries[OF assms(2), of "[m]"] closed_stays[of c "[m]"]
      by (auto simp: act_def all_or_closed_def)
  qed
  then show "carries (taken @ taken_of ts) c1" "all_or_closed ts (cn_open c1)"
    "\<not> cn_open c \<Longrightarrow> \<not> cn_open c1 \<and> taken_of ts = []" by blast+
qed

lemma acts_closed: "acts as c = (c1, ts) \<Longrightarrow> carries taken c \<Longrightarrow> \<not> cn_open c \<Longrightarrow> \<not> cn_open c1 \<and> taken_of ts = []"
proof (induction as arbitrary: c ts)
  case (Cons a as)
  obtain c2 t2 where a: "act a c = (c2, t2)" by fastforce
  obtain t3 where r: "acts as c2 = (c1, t3)" "ts = t2 @ t3" using Cons.prems(1) a by (auto split: prod.splits)
  note act_carries[OF a Cons.prems(2)]
  then show ?case using Cons.IH[OF r(1)] Cons.prems(3) r(2) act_carries(3)[OF a Cons.prems(2,3)]
    by (metis append_Nil2 filter_append list.map_disc_iff map_append)
qed simp

lemma acts_carries:
  "acts as c = (c1, ts) \<Longrightarrow> carries taken c \<Longrightarrow> carries (taken @ taken_of ts) c1 \<and> all_or_closed ts (cn_open c1)"
proof (induction as arbitrary: c ts taken)
  case Nil
  then show ?case by (simp add: all_or_closed_def)
next
  case (Cons a as)
  obtain c2 t2 where a: "act a c = (c2, t2)" by fastforce
  obtain t3 where r: "acts as c2 = (c1, t3)" and ts: "ts = t2 @ t3" using Cons.prems(1) a by (auto split: prod.splits)
  note a1 = act_carries[OF a Cons.prems(2)]
  note a2 = Cons.IH[OF r a1(1)]
  have "all_or_closed ts (cn_open c1)"
  proof (cases "cn_open c2")
    case True
    then have all: "\<forall>p \<in> set t2. snd p" using a1(2) by (simp add: all_or_closed_def)
    then have "dropWhile snd (t2 @ t3) = dropWhile snd t3" by (simp add: dropWhile_append)
    with all a2 show ?thesis by (auto simp: all_or_closed_def ts)
  next
    case False
    then have "\<not> cn_open c1" "\<forall>p \<in> set t3. \<not> snd p" using acts_closed[OF r a1(1)] by (auto simp: filter_empty_conv)
    with a1(2) show ?thesis by (auto simp: all_or_closed_def ts dropWhile_append dest: set_dropWhileD)
  qed
  with a2 show ?case by (simp add: ts)
qed

text \<open>
  a client is told everything in order, or loses its connection. Whatever is written to a
  connection and however its writer fares, what reached the socket is a prefix of the lines it took,
  in order; once a line was refused no later one is taken, and a connection that is still open has
  refused none and dropped none. The queue never outgrows its capacity.
\<close>

theorem connection_in_order:
  assumes "acts as (conn_new i b) = (c, ts)"
  shows "prefix (cn_wire c) (map fst (filter snd ts))
    \<and> (\<forall>p \<in> set (dropWhile snd ts). \<not> snd p)
    \<and> (cn_open c \<longrightarrow> cn_wire c @ queued_lines c = map fst ts)
    \<and> length (cn_queue c) \<le> OUTBOX_CAPACITY"
proof -
  have c: "carries (taken_of ts) c" and a: "all_or_closed ts (cn_open c)" using acts_carries[OF assms carries_new] by simp_all
  have "taken_of ts = map fst ts" if "cn_open c" using a that by (simp add: all_or_closed_def)
  with a c show ?thesis by (simp add: carries_def all_or_closed_def)
qed

theorem connection_in_order_witness:
  "let (c, ts) = acts [Writing ''a'', Meanwhile (Writes True), Writing ''b'', Meanwhile Closes, Writing ''c''] (conn_new 1 True)
   in prefix (cn_wire c) [''a'' @ [newline], ''b'' @ [newline]] \<and> map snd ts = [True, True, False]"
proof -
  let ?as = "[Writing ''a'', Meanwhile (Writes True), Writing ''b'', Meanwhile Closes, Writing ''c'']"
  obtain c ts where r: "acts ?as (conn_new 1 True) = (c, ts)" by fastforce
  have "snd (acts ?as (conn_new 1 True)) = [(''a'' @ [newline], True), (''b'' @ [newline], True), (''c'' @ [newline], False)]" by code_simp
  then have ts: "ts = [(''a'' @ [newline], True), (''b'' @ [newline], True), (''c'' @ [newline], False)]" using r by simp
  show ?thesis using connection_in_order[OF r] unfolding r ts by simp
qed

end
