(* ===== verification/Live_Session.thy ===== *)
theory Live_Session
  imports Wiring
begin

text \<open>
  \<open>registry.rs\<close>, the part that is one open session: who is listening to it. Attaching replays from
  the store what a client has not seen while the list of listeners is held; the conductor hands
  each published event to the listeners it finds on the list. The connections are a table the
  sessions share; instants are integers. Below, the interleavings of the conductor, of clients that
  come and go and of deliveries under way are a step relation.
\<close>

record live =
  lv_session :: string
  lv_listeners :: "listener list"
  lv_stopping :: bool
  lv_alone_since :: "int option"

type_synonym conns = "nat \<Rightarrow> connection"

definition live_new :: "string \<Rightarrow> live" where
  "live_new sid = \<lparr>lv_session = sid, lv_listeners = [], lv_stopping = False, lv_alone_since = None\<rparr>"

definition others :: "nat \<Rightarrow> listener list \<Rightarrow> listener list" where
  "others conn ls = filter (\<lambda>l. ls_conn l \<noteq> conn) ls"

definition closed_text :: "string \<Rightarrow> string" where
  "closed_text sid = ''connection closed while session '' @ quoted sid @ '' was being opened''"

definition stopped_text :: "string \<Rightarrow> string" where
  "stopped_text sid = ''session '' @ quoted sid @ '' stopped while it was being opened''"

text \<open>A negative position means only what happens next.\<close>

definition start_at :: "int \<Rightarrow> snapshot \<Rightarrow> int" where
  "start_at from sn = (if from < 0 then sn_seq sn + 1 else from)"

fun replay_all :: "codec \<Rightarrow> string \<Rightarrow> snapshot \<Rightarrow> (int \<Rightarrow> meanwhile list list) \<Rightarrow> event list \<Rightarrow> listener \<Rightarrow> connection \<Rightarrow> listener \<times> connection" where
  "replay_all J sid sn pauses [] l c = (l, c)"
| "replay_all J sid sn pauses (e # es) l c =
     (case listener_replay J sid e sn (pauses (ev_seq e)) l c of
        (l1, c1, ok) \<Rightarrow> if ok then replay_all J sid sn pauses es l1 c1 else (l1, c1))"

text \<open>
  \<open>attach\<close>: \<open>sn\<close> is the snapshot read first and \<open>sn'\<close> the one that goes with the replay, \<open>st\<close> the
  store opened in between, \<open>instant\<close> the time should the connection be lost.
\<close>

definition attach :: "codec \<Rightarrow> nat \<Rightarrow> int \<Rightarrow> snapshot \<Rightarrow> snapshot \<Rightarrow> store \<Rightarrow> (int \<Rightarrow> meanwhile list list) \<Rightarrow> int \<Rightarrow> live \<times> conns
    \<Rightarrow> (live \<times> conns) \<times> nat res" where
  "attach J conn from sn sn' st pauses instant s =
     (case s of (lv, cs) \<Rightarrow>
        if \<not> cn_open (cs conn) then (s, Inl (closed_text (lv_session lv)))
        else if lv_stopping lv \<or> sn_status sn = STOPPED then (s, Inl (stopped_text (lv_session lv)))
        else
          let rest = others conn (lv_listeners lv);
              begin_at = start_at from sn;
              replayed = store_events begin_at st;
              (l, c) = replay_all J (lv_session lv) sn' pauses replayed (listener_new conn begin_at) (cs conn);
              cs1 = cs(conn := c)
          in if cn_open c
             then ((lv\<lparr>lv_listeners := rest @ [l], lv_alone_since := None\<rparr>, cs1), Inr (length replayed))
             else ((lv\<lparr>lv_listeners := rest, lv_alone_since := (if rest = [] then Some instant else lv_alone_since lv)\<rparr>, cs1),
                   Inl (closed_text (lv_session lv))))"

definition detach :: "nat \<Rightarrow> int \<Rightarrow> live \<Rightarrow> live" where
  "detach conn instant lv =
     (let rest = others conn (lv_listeners lv) in
      lv\<lparr>lv_listeners := rest, lv_alone_since := (if rest = [] then Some instant else lv_alone_since lv)\<rparr>)"

definition listeners :: "live \<Rightarrow> nat" where
  "listeners lv = length (lv_listeners lv)"

text \<open>Has this been sitting with nobody listening for longer than the grace?\<close>

definition cold :: "snapshot \<Rightarrow> int \<Rightarrow> int \<Rightarrow> live \<Rightarrow> bool" where
  "cold sn instant grace lv \<longleftrightarrow>
     \<not> (sn_status sn = BUSY \<or> sn_in_turn sn)
     \<and> (case lv_alone_since lv of Some since \<Rightarrow> grace < instant - since | None \<Rightarrow> False)"

definition farewell :: "codec \<Rightarrow> snapshot \<Rightarrow> live \<Rightarrow> conns \<Rightarrow> conns" where
  "farewell J sn lv cs =
     fold (\<lambda>l cs. cs(ls_conn l := fst (conn_frame J (frame_gone (lv_session lv) sn) (cs (ls_conn l))))) (lv_listeners lv) cs"

text \<open>What the conductor's sink does with an event, for a list of listeners taken at one moment.\<close>

fun sink :: "codec \<Rightarrow> string \<Rightarrow> event \<Rightarrow> snapshot \<Rightarrow> listener list \<Rightarrow> conns \<Rightarrow> listener list \<times> conns" where
  "sink J sid e sn [] cs = ([], cs)"
| "sink J sid e sn (l # ls) cs =
     (case listener_deliver J sid e sn l (cs (ls_conn l)) of
        (l1, c, _) \<Rightarrow> (case sink J sid e sn ls (cs(ls_conn l := c)) of (ls1, cs1) \<Rightarrow> (l1 # ls1, cs1)))"

section \<open>Deliveries under way\<close>

text \<open>
  A tap is a listener with the position it was attached at and the events handed to its connection.
\<close>

record tap =
  tp_from :: int
  tp_listener :: listener
  tp_got :: "event list"

definition hand :: "event \<Rightarrow> tap \<Rightarrow> tap" where
  "hand e t = (if told e (tp_listener t) then t else t\<lparr>tp_listener := moved e (tp_listener t), tp_got := tp_got t @ [e]\<rparr>)"

definition tap_new :: "nat \<Rightarrow> int \<Rightarrow> tap" where
  "tap_new conn from = \<lparr>tp_from = from, tp_listener = listener_new conn from, tp_got = []\<rparr>"

text \<open>
  The fan-out of one session: the log; how many of its events the conductor has taken to its sink;
  the event under way with the listeners it still has to reach, which were cloned from the list
  when it was taken; every listener ever made, by a key of its own; and the keys on the list.
\<close>

record fan =
  fa_log :: "event list"
  fa_taken :: nat
  fa_event :: "event option"
  fa_flight :: "nat list"
  fa_taps :: "nat \<rightharpoonup> tap"
  fa_list :: "nat list"

definition fan_start :: "event list \<Rightarrow> fan" where
  "fan_start evs = \<lparr>fa_log = evs, fa_taken = length evs, fa_event = None, fa_flight = [], fa_taps = Map.empty, fa_list = []\<rparr>"

definition keeps_key :: "nat \<Rightarrow> (nat \<rightharpoonup> tap) \<Rightarrow> nat \<Rightarrow> bool" where
  "keeps_key conn taps k \<longleftrightarrow> (case taps k of Some t \<Rightarrow> ls_conn (tp_listener t) \<noteq> conn | None \<Rightarrow> False)"

inductive fan_step :: "fan \<Rightarrow> fan \<Rightarrow> bool" where
  recorded: "ev_seq e = int (length (fa_log s)) \<Longrightarrow> fan_step s (s\<lparr>fa_log := fa_log s @ [e]\<rparr>)"
| taken: "fa_flight s = [] \<Longrightarrow> fa_taken s < length (fa_log s)
    \<Longrightarrow> fan_step s (s\<lparr>fa_taken := Suc (fa_taken s), fa_event := Some (fa_log s ! fa_taken s), fa_flight := fa_list s\<rparr>)"
| noticed: "fa_flight s = [] \<Longrightarrow> ev_seq e < 0 \<Longrightarrow> fan_step s (s\<lparr>fa_event := Some e, fa_flight := fa_list s\<rparr>)"
| passed: "fa_flight s = k # ks \<Longrightarrow> fa_event s = Some e \<Longrightarrow> fa_taps s k = Some t
    \<Longrightarrow> fan_step s (s\<lparr>fa_flight := ks, fa_taps := (fa_taps s)(k \<mapsto> hand e t)\<rparr>)"
| attached: "fa_taps s k = None \<Longrightarrow> 0 \<le> from
    \<Longrightarrow> fan_step s (s\<lparr>fa_taps := (fa_taps s)(k \<mapsto> fold hand (filter (\<lambda>e. from \<le> ev_seq e) (fa_log s)) (tap_new conn from)),
          fa_list := filter (keeps_key conn (fa_taps s)) (fa_list s) @ [k]\<rparr>)"
| detached: "fan_step s (s\<lparr>fa_list := filter (keeps_key conn (fa_taps s)) (fa_list s)\<rparr>)"

inductive_cases fan_stepE: "fan_step s t"

text \<open>The relation's parts are the code's: a delivery, a replay and the whole of an attach.\<close>

lemma deliver_hands:
  "fst (listener_deliver J sid e sn (tp_listener t) c) = tp_listener (hand e t)
   \<and> (told e (tp_listener t) \<longrightarrow> tp_got (hand e t) = tp_got t \<and> fst (snd (listener_deliver J sid e sn (tp_listener t) c)) = c)
   \<and> (\<not> told e (tp_listener t) \<longrightarrow> tp_got (hand e t) = tp_got t @ [e]
        \<and> fst (snd (listener_deliver J sid e sn (tp_listener t) c)) = fst (conn_frame J (frame_event sid e sn) c))"
  by (simp add: listener_deliver_def hand_def split: prod.split)

lemma replay_closes: "listener_replay J sid e sn ps l c = (l1, c1, False) \<Longrightarrow> carries taken c \<Longrightarrow> \<not> cn_open c1"
  by (auto simp: listener_replay_def replay_frame_def split: if_splits prod.splits dest: write_replay_cases)

lemma replay_carries: "listener_replay J sid e sn ps l c = (l1, c1, ok) \<Longrightarrow> carries taken c \<Longrightarrow> \<exists>more. carries (taken @ more) c1"
  using write_replay_cases[of "to_text J (frame_value (frame_event sid e sn))" ps c c1 ok taken]
  by (auto simp: listener_replay_def replay_frame_def split: if_splits prod.splits intro: exI[of _ "[]"])

lemma replay_all_hands:
  "replay_all J sid sn ps es (tp_listener t) c = (l, c1) \<Longrightarrow> carries taken c \<Longrightarrow> cn_open c1 \<Longrightarrow> l = tp_listener (fold hand es t)"
proof (induction es arbitrary: t c taken)
  case (Cons e es)
  obtain l2 c2 ok where r: "listener_replay J sid e sn (ps (ev_seq e)) (tp_listener t) c = (l2, c2, ok)" by (cases "listener_replay J sid e sn (ps (ev_seq e)) (tp_listener t) c")
  have ok using Cons.prems r replay_closes[of J sid e sn "ps (ev_seq e)" "tp_listener t" c l2 c2] by (cases ok) auto
  moreover have "l2 = tp_listener (hand e t)" using r by (auto simp: listener_replay_def hand_def split: if_splits prod.splits)
  moreover obtain more where "carries (taken @ more) c2" using replay_carries[OF r Cons.prems(2)] by blast
  ultimately show ?case using Cons.prems r by (auto dest!: Cons.IH)
qed simp

lemma attach_hands:
  assumes "attach J conn from sn sn' st ps instant (lv, cs) = ((lv1, cs1), Inr n)" and "carries taken (cs conn)"
  shows "lv_listeners lv1 = others conn (lv_listeners lv)
      @ [tp_listener (fold hand (filter (\<lambda>e. start_at from sn \<le> ev_seq e) (st_events st)) (tap_new conn (start_at from sn)))]
    \<and> lv_alone_since lv1 = None"
  using assms replay_all_hands[of J "lv_session lv" sn' ps _ "tap_new conn (start_at from sn)" "cs conn" _ _ taken]
  by (auto simp: attach_def Let_def tap_new_def store_events_def split: if_splits prod.splits)

section \<open>No gap, no repeat\<close>

abbreviation placed_of :: "event list \<Rightarrow> event list" where
  "placed_of es \<equiv> filter (\<lambda>e. 0 \<le> ev_seq e) es"

abbreviation next_of :: "tap \<Rightarrow> int" where
  "next_of t \<equiv> ls_next (tp_listener t)"

text \<open>A tap has had exactly the part of the log from where it was attached to where it stands.\<close>

definition tap_ok :: "event list \<Rightarrow> tap \<Rightarrow> bool" where
  "tap_ok evs t \<longleftrightarrow> 0 \<le> tp_from t \<and> tp_from t \<le> next_of t \<and> (tp_from t < next_of t \<longrightarrow> nat (next_of t) \<le> length evs)
     \<and> placed_of (tp_got t) = drop (nat (tp_from t)) (take (nat (next_of t)) evs)"

lemma tap_ok_grows: "tap_ok evs t \<Longrightarrow> tap_ok (evs @ [e]) t"
  by (cases "tp_from t < next_of t") (auto simp: tap_ok_def)

lemma tap_ok_new: "0 \<le> from \<Longrightarrow> tap_ok evs (tap_new conn from)"
  by (simp add: tap_ok_def tap_new_def listener_new_def)

lemma hand_notice: "ev_seq e < 0 \<Longrightarrow> tap_ok evs t \<Longrightarrow> tap_ok evs (hand e t) \<and> next_of (hand e t) = next_of t"
  by (simp add: tap_ok_def hand_def told_def moved_def)

lemma hand_next:
  assumes "gapless evs" and "tap_ok evs t" and "i < length evs" and "int i \<le> next_of t"
  shows "tap_ok evs (hand (evs ! i) t) \<and> next_of (hand (evs ! i) t) = max (next_of t) (int i + 1)"
proof (cases "int i < next_of t")
  case True
  with assms show ?thesis by (simp add: hand_def told_def gapless_nth)
next
  case False
  then have n: "next_of t = int i" using assms(4) by simp
  then have "nat (tp_from t) \<le> i" using assms(2) by (simp add: tap_ok_def nat_le_iff)
  then have "drop (nat (tp_from t)) (take (Suc i) evs) = drop (nat (tp_from t)) (take i evs) @ [evs ! i]"
    using assms(3) by (simp add: take_Suc_conv_app_nth)
  moreover have "\<not> told (evs ! i) (tp_listener t)" "moved (evs ! i) (tp_listener t) = (tp_listener t)\<lparr>ls_next := int i + 1\<rparr>"
    using n gapless_nth[OF assms(1,3)] by (simp_all add: told_def moved_def)
  ultimately show ?thesis using n assms(2,3) gapless_nth[OF assms(1,3)]
    by (simp add: tap_ok_def hand_def nat_add_distrib)
qed

lemma fold_hand_upt:
  assumes "gapless evs" and "tap_ok evs t" and "int i \<le> next_of t" and "i + n \<le> length evs"
  shows "tap_ok evs (fold hand (map ((!) evs) [i..<i + n]) t)
    \<and> (0 < n \<longrightarrow> int (i + n) \<le> next_of (fold hand (map ((!) evs) [i..<i + n]) t))
    \<and> next_of t \<le> next_of (fold hand (map ((!) evs) [i..<i + n]) t)"
  using assms
proof (induction n arbitrary: i t)
  case (Suc n)
  note h = hand_next[OF Suc.prems(1,2) _ Suc.prems(3)]
  have l: "[i..<i + Suc n] = i # [Suc i..<Suc i + n]" by (simp add: upt_conv_Cons)
  show ?case unfolding l using Suc.IH[of "hand (evs ! i) t" "Suc i"] h Suc.prems
    by (cases "n = 0") auto
qed simp

lemma attach_ok:
  fixes conn :: nat
  assumes "gapless evs" and "0 \<le> from"
  defines "t \<equiv> fold hand (filter (\<lambda>e. from \<le> ev_seq e) evs) (tap_new conn from)"
  shows "tap_ok evs t \<and> int (length evs) \<le> max from (next_of t) \<and> from \<le> next_of t"
proof -
  have d: "filter (\<lambda>e. from \<le> ev_seq e) evs = drop (nat from) evs" by (rule gapless_filter[OF assms(1)])
  show ?thesis
  proof (cases "nat from < length evs")
    case True
    then have "drop (nat from) evs = map ((!) evs) [nat from..<nat from + (length evs - nat from)]"
      by (intro nth_equalityI) simp_all
    moreover have "next_of (tap_new conn from) = from" by (simp add: tap_new_def listener_new_def)
    ultimately show ?thesis
      using fold_hand_upt[OF assms(1) tap_ok_new[OF assms(2), of evs conn], of "nat from" "length evs - nat from"] True assms(2)
      unfolding t_def d by simp
  next
    case False
    then show ?thesis using tap_ok_new[OF assms(2), of evs conn] assms(2)
      unfolding t_def d by (simp add: tap_new_def listener_new_def)
  qed
qed

definition fan_inv :: "fan \<Rightarrow> bool" where
  "fan_inv s \<longleftrightarrow> gapless (fa_log s) \<and> fa_taken s \<le> length (fa_log s) \<and> distinct (fa_flight s)
     \<and> set (fa_list s) \<union> set (fa_flight s) \<subseteq> dom (fa_taps s)
     \<and> (fa_flight s \<noteq> [] \<longrightarrow> (\<exists>e. fa_event s = Some e \<and> (0 \<le> ev_seq e \<longrightarrow> 0 < fa_taken s \<and> e = fa_log s ! (fa_taken s - 1))))
     \<and> distinct (fa_list s)
     \<and> (\<forall>k t. fa_taps s k = Some t \<longrightarrow> tap_ok (fa_log s) t)
     \<and> (\<forall>k \<in> set (fa_flight s). \<forall>t. fa_taps s k = Some t \<longrightarrow> int (fa_taken s) \<le> next_of t + 1)
     \<and> (\<forall>k \<in> set (fa_list s). \<forall>t. fa_taps s k = Some t
          \<longrightarrow> int (fa_taken s) \<le> next_of t \<or> (k \<in> set (fa_flight s) \<and> (\<exists>e. fa_event s = Some e \<and> 0 \<le> ev_seq e)))"

lemma fan_inv_start: "gapless evs \<Longrightarrow> fan_inv (fan_start evs)"
  by (simp add: fan_inv_def fan_start_def)

lemma fan_inv_recorded:
  assumes "fan_inv s" and "ev_seq e = int (length (fa_log s))"
  shows "fan_inv (s\<lparr>fa_log := fa_log s @ [e]\<rparr>)"
proof -
  have "fa_taken s \<le> length (fa_log s)" using assms(1) by (simp add: fan_inv_def)
  then have "(fa_log s @ [e]) ! (fa_taken s - 1) = fa_log s ! (fa_taken s - 1)" if "0 < fa_taken s"
    using that by (cases "fa_taken s") (simp_all add: nth_append)
  with assms show ?thesis by (auto simp: fan_inv_def gapless_snoc tap_ok_grows)
qed

lemma fan_inv_taken:
  assumes "fan_inv s" and "fa_flight s = []" and "fa_taken s < length (fa_log s)"
  shows "fan_inv (s\<lparr>fa_taken := Suc (fa_taken s), fa_event := Some (fa_log s ! fa_taken s), fa_flight := fa_list s\<rparr>)"
  using assms gapless_nth[of "fa_log s" "fa_taken s"] by (auto simp: fan_inv_def)

lemma fan_inv_noticed:
  assumes "fan_inv s" and "fa_flight s = []" and "ev_seq e < 0"
  shows "fan_inv (s\<lparr>fa_event := Some e, fa_flight := fa_list s\<rparr>)"
  using assms by (fastforce simp: fan_inv_def)

lemma fan_inv_passed:
  assumes "fan_inv s" and "fa_flight s = k # ks" and "fa_event s = Some e" and "fa_taps s k = Some t"
  shows "fan_inv (s\<lparr>fa_flight := ks, fa_taps := (fa_taps s)(k \<mapsto> hand e t)\<rparr>)"
proof -
  have t: "tap_ok (fa_log s) t" "int (fa_taken s) \<le> next_of t + 1" using assms by (auto simp: fan_inv_def)
  have h: "tap_ok (fa_log s) (hand e t) \<and> next_of t \<le> next_of (hand e t) \<and> (0 \<le> ev_seq e \<longrightarrow> int (fa_taken s) \<le> next_of (hand e t))"
  proof (cases "0 \<le> ev_seq e")
    case True
    then have e: "e = fa_log s ! (fa_taken s - 1)" and p: "0 < fa_taken s" using assms by (auto simp: fan_inv_def)
    have "tap_ok (fa_log s) (hand e t) \<and> next_of (hand e t) = max (next_of t) (int (fa_taken s - 1) + 1)"
      unfolding e by (rule hand_next) (use assms(1) t p in \<open>auto simp: fan_inv_def\<close>)
    with p show ?thesis by simp
  next
    case False
    with hand_notice[of e "fa_log s" t] t(1) show ?thesis by simp
  qed
  have bound: "int (fa_taken s) \<le> next_of (hand e t)" if "k \<in> set (fa_list s)"
  proof (cases "0 \<le> ev_seq e")
    case False
    then have "int (fa_taken s) \<le> next_of t" using assms that by (auto simp: fan_inv_def)
    with h show ?thesis by simp
  qed (use h in simp)
  let ?s = "s\<lparr>fa_flight := ks, fa_taps := (fa_taps s)(k \<mapsto> hand e t)\<rparr>"
  have k: "k \<notin> set ks" "distinct ks" using assms(1,2) by (simp_all add: fan_inv_def)
  have plain: "gapless (fa_log s)" "fa_taken s \<le> length (fa_log s)" "distinct (fa_list s)"
    "0 \<le> ev_seq e \<longrightarrow> 0 < fa_taken s \<and> e = fa_log s ! (fa_taken s - 1)"
    "set (fa_list s) \<union> set (fa_flight s) \<subseteq> dom (fa_taps s)" using assms(1-3) by (simp_all add: fan_inv_def)
  have taps: "tap_ok (fa_log s) t'" if "fa_taps ?s k' = Some t'" for k' t'
    using that assms(1) h by (cases "k' = k") (auto simp: fan_inv_def)
  have flight: "int (fa_taken s) \<le> next_of t' + 1" if "k' \<in> set ks" "fa_taps ?s k' = Some t'" for k' t'
    using that assms(1,2) k by (cases "k' = k") (auto simp: fan_inv_def)
  have listed: "int (fa_taken s) \<le> next_of t' \<or> (k' \<in> set ks \<and> 0 \<le> ev_seq e)"
    if "k' \<in> set (fa_list s)" "fa_taps ?s k' = Some t'" for k' t'
  proof (cases "k' = k")
    case True
    with that bound show ?thesis by simp
  next
    case False
    with that have "int (fa_taken s) \<le> next_of t' \<or> (k' \<in> set (fa_flight s) \<and> (\<exists>e. fa_event s = Some e \<and> 0 \<le> ev_seq e))"
      using assms(1) by (simp add: fan_inv_def)
    with False assms(2,3) show ?thesis by simp
  qed
  show ?thesis unfolding fan_inv_def
  proof (intro conjI)
    show "\<forall>k t. fa_taps ?s k = Some t \<longrightarrow> tap_ok (fa_log ?s) t" using taps by simp
    show "\<forall>k \<in> set (fa_flight ?s). \<forall>t. fa_taps ?s k = Some t \<longrightarrow> int (fa_taken ?s) \<le> next_of t + 1" using flight by simp
    show "\<forall>k \<in> set (fa_list ?s). \<forall>t. fa_taps ?s k = Some t \<longrightarrow> int (fa_taken ?s) \<le> next_of t
        \<or> (k \<in> set (fa_flight ?s) \<and> (\<exists>e. fa_event ?s = Some e \<and> 0 \<le> ev_seq e))" using listed assms(3) by simp
    show "set (fa_list ?s) \<union> set (fa_flight ?s) \<subseteq> dom (fa_taps ?s)" using plain(5) assms(2) by auto
  qed (use plain k assms(3) in simp_all)
qed

lemma fan_inv_attached:
  assumes "fan_inv s" and "fa_taps s k = None" and "0 \<le> from"
  shows "fan_inv (s\<lparr>fa_taps := (fa_taps s)(k \<mapsto> fold hand (filter (\<lambda>e. from \<le> ev_seq e) (fa_log s)) (tap_new conn from)),
    fa_list := filter (keeps_key conn (fa_taps s)) (fa_list s) @ [k]\<rparr>)"
proof -
  let ?t = "fold hand (filter (\<lambda>e. from \<le> ev_seq e) (fa_log s)) (tap_new conn from)"
  have g: "gapless (fa_log s)" using assms(1) by (simp add: fan_inv_def)
  have k: "k \<notin> set (fa_list s)" "k \<notin> set (fa_flight s)" using assms(1,2) by (auto simp: fan_inv_def)
  have "tap_ok (fa_log s) ?t" "int (fa_taken s) \<le> next_of ?t"
    using attach_ok[OF g assms(3), of conn] assms(1) by (auto simp: fan_inv_def)
  with assms k show ?thesis by (auto simp: fan_inv_def)
qed

lemma fan_inv_step: "fan_step s t \<Longrightarrow> fan_inv s \<Longrightarrow> fan_inv t"
proof (induction rule: fan_step.induct)
  case (detached s conn)
  then show ?case by (auto simp: fan_inv_def)
qed (simp_all add: fan_inv_recorded fan_inv_taken fan_inv_noticed fan_inv_passed fan_inv_attached)

lemma fan_inv_reachable: "fan_step\<^sup>*\<^sup>* s t \<Longrightarrow> fan_inv s \<Longrightarrow> fan_inv t"
  by (induction rule: rtranclp_induct) (auto intro: fan_inv_step)

text \<open>
  C5: no gap, no repeat. However recording, handing out, coming, going and coming back interleave,
  each listener has been sent exactly the events of the log from the position it asked for up to
  where it stands, each once and in order; and one that is still on the list and not being served
  stands no further back than the conductor has got.
\<close>

theorem listener_no_gap_no_repeat:
  assumes "gapless evs" and "fan_step\<^sup>*\<^sup>* (fan_start evs) s" and "fa_taps s k = Some t"
  shows "placed_of (tp_got t) = drop (nat (tp_from t)) (take (nat (next_of t)) (fa_log s))
    \<and> (k \<in> set (fa_list s) \<and> k \<notin> set (fa_flight s) \<longrightarrow> int (fa_taken s) \<le> next_of t)"
  using fan_inv_reachable[OF assms(2) fan_inv_start[OF assms(1)]] assms(3) unfolding fan_inv_def tap_ok_def by blast

lemma fan_witness_path:
  fixes e e' :: event
  assumes "ev_seq e = 0" and "ev_seq e' = 1"
  shows "\<exists>s t. fan_step\<^sup>*\<^sup>* (fan_start [e]) s \<and> fa_taps s 0 = Some t \<and> fa_list s = [0] \<and> fa_flight s = [] \<and> fa_taken s = 2"
proof -
  let ?t = "fold hand (filter (\<lambda>x. 0 \<le> ev_seq x) [e]) (tap_new 7 0)"
  define s1 where "s1 = (fan_start [e])\<lparr>fa_taps := [0 \<mapsto> ?t], fa_list := [0]\<rparr>"
  define s2 where "s2 = s1\<lparr>fa_log := [e, e']\<rparr>"
  define s3 where "s3 = s2\<lparr>fa_taken := 2, fa_event := Some e', fa_flight := [0]\<rparr>"
  define s4 where "s4 = s3\<lparr>fa_flight := [], fa_taps := [0 \<mapsto> hand e' ?t]\<rparr>"
  have "fan_step (fan_start [e]) s1"
    using fan_step.attached[of "fan_start [e]" 0 0 7] by (simp add: s1_def fan_start_def)
  moreover have "fan_step s1 s2" using fan_step.recorded[of e' s1] assms by (simp add: s2_def s1_def fan_start_def)
  moreover have "fan_step s2 s3" using fan_step.taken[of s2] by (simp add: s3_def s2_def s1_def fan_start_def numeral_2_eq_2)
  moreover have "fan_step s3 s4"
    using fan_step.passed[of s3 0 "[]" e' ?t] by (simp add: s4_def s3_def s2_def s1_def fan_start_def)
  ultimately have "fan_step\<^sup>*\<^sup>* (fan_start [e]) s4"
    by (intro converse_rtranclp_into_rtranclp[of fan_step "fan_start [e]" s1] converse_rtranclp_into_rtranclp[of fan_step s1 s2]
        converse_rtranclp_into_rtranclp[of fan_step s2 s3] r_into_rtranclp[of fan_step s3])
  moreover have "fa_taps s4 0 = Some (hand e' ?t)" "fa_list s4 = [0]" "fa_flight s4 = []" "fa_taken s4 = 2"
    by (simp_all add: s4_def s3_def s2_def s1_def)
  ultimately show ?thesis by blast
qed

theorem listener_no_gap_no_repeat_witness:
  "let e = (event_new ''now'' TEXT)\<lparr>ev_seq := 0\<rparr>; e' = (event_new ''now'' END)\<lparr>ev_seq := 1\<rparr>
   in \<exists>s t. fan_step\<^sup>*\<^sup>* (fan_start [e]) s \<and> fa_taps s 0 = Some t
      \<and> placed_of (tp_got t) = drop (nat (tp_from t)) (take (nat (next_of t)) (fa_log s)) \<and> 2 \<le> next_of t"
proof -
  let ?e = "(event_new ''now'' TEXT)\<lparr>ev_seq := 0\<rparr>" and ?e' = "(event_new ''now'' END)\<lparr>ev_seq := 1\<rparr>"
  obtain s t where s: "fan_step\<^sup>*\<^sup>* (fan_start [?e]) s" "fa_taps s 0 = Some t" "fa_list s = [0]" "fa_flight s = []" "fa_taken s = 2"
    using fan_witness_path[of ?e ?e'] by auto
  have "gapless [?e]" by (simp add: gapless_def)
  from listener_no_gap_no_repeat[OF this s(1,2)] s show ?thesis unfolding Let_def by (intro exI[of _ s] exI[of _ t]) simp
qed

section \<open>Opening again on the same connection\<close>

text \<open>
  The guarantee is per listener. The sink works from a copy of the list, so a connection that opens
  the same session again while an event is on its way gets that event from the listener it
  replaced, after the replay of the new one has already carried it.
\<close>

lemma reopened_connection_can_repeat:
  fixes e :: event
  assumes "ev_seq e = 0"
  shows "\<exists>s old new. fan_step\<^sup>*\<^sup>* (fan_start []) s \<and> fa_taps s 0 = Some old \<and> fa_taps s 1 = Some new \<and> fa_list s = [1]
    \<and> ls_conn (tp_listener old) = ls_conn (tp_listener new) \<and> tp_got old = [e] \<and> tp_got new = [e]"
proof -
  define s1 where "s1 = (fan_start [])\<lparr>fa_taps := [0 \<mapsto> tap_new 7 0], fa_list := [0]\<rparr>"
  define s2 where "s2 = s1\<lparr>fa_log := [e]\<rparr>"
  define s3 where "s3 = s2\<lparr>fa_taken := 1, fa_event := Some e, fa_flight := [0]\<rparr>"
  define s4 where "s4 = s3\<lparr>fa_taps := [0 \<mapsto> tap_new 7 0, 1 \<mapsto> hand e (tap_new 7 0)], fa_list := [1]\<rparr>"
  define s5 where "s5 = s4\<lparr>fa_flight := [], fa_taps := (fa_taps s4)(0 \<mapsto> hand e (tap_new 7 0))\<rparr>"
  have "fan_step (fan_start []) s1"
    using fan_step.attached[of "fan_start []" 0 0 7] by (simp add: s1_def fan_start_def)
  moreover have "fan_step s1 s2" using fan_step.recorded[of e s1] assms by (simp add: s2_def s1_def fan_start_def)
  moreover have "fan_step s2 s3" using fan_step.taken[of s2] by (simp add: s3_def s2_def s1_def fan_start_def)
  moreover have "fan_step s3 s4"
    using fan_step.attached[of s3 1 0 7] assms
    by (simp add: s4_def s3_def s2_def s1_def fan_start_def keeps_key_def tap_new_def listener_new_def)
  moreover have "fan_step s4 s5"
    using fan_step.passed[of s4 0 "[]" e "tap_new 7 0"] by (simp add: s5_def s4_def s3_def s2_def s1_def fan_start_def)
  ultimately have "fan_step\<^sup>*\<^sup>* (fan_start []) s5"
    by (intro converse_rtranclp_into_rtranclp[of fan_step "fan_start []" s1] converse_rtranclp_into_rtranclp[of fan_step s1 s2]
        converse_rtranclp_into_rtranclp[of fan_step s2 s3] converse_rtranclp_into_rtranclp[of fan_step s3 s4] r_into_rtranclp[of fan_step s4])
  moreover have "fa_taps s5 0 = Some (hand e (tap_new 7 0))" "fa_taps s5 1 = Some (hand e (tap_new 7 0))" "fa_list s5 = [1]"
    by (simp_all add: s5_def s4_def)
  moreover have "tp_got (hand e (tap_new 7 0)) = [e]" using assms by (simp add: hand_def told_def tap_new_def listener_new_def)
  ultimately show ?thesis by blast
qed

end
