(* ===== verification/Lifecycle_Gate.thy ===== *)
theory Lifecycle_Gate
  imports Omni_Prelude
begin

text \<open>
  The lifecycle gates of \<open>registry.rs\<close> (\<open>Registry::gate\<close> and \<open>Registry::with_lifecycle\<close>): one mutex
  for each session id, made on demand and reclaimed when the last caller is done with it. A gate is
  a number, as an \<open>Arc\<close> is an address; each caller goes through four phases, and callers interleave
  at every point where the code takes or drops a lock.
\<close>

text \<open>
  \<open>Waiting\<close>: has cloned the gate and waits for its mutex; \<open>Inside\<close>: holds the mutex and runs its
  operation; \<open>Leaving\<close>: has looked after the map and still holds the mutex and its clone.
\<close>

datatype phase = Idle | Waiting string nat | Inside string nat | Leaving string nat

record gates =
  gt_map :: "string \<rightharpoonup> nat"
  gt_next :: nat
  gt_callers :: "phase list"

definition gates_start :: "nat \<Rightarrow> gates" where
  "gates_start n = \<lparr>gt_map = Map.empty, gt_next = 0, gt_callers = replicate n Idle\<rparr>"

fun clones :: "nat \<Rightarrow> phase \<Rightarrow> bool" where
  "clones g Idle = False"
| "clones g (Waiting _ h) = (h = g)"
| "clones g (Inside _ h) = (h = g)"
| "clones g (Leaving _ h) = (h = g)"

fun locks :: "nat \<Rightarrow> phase \<Rightarrow> bool" where
  "locks g (Inside _ h) = (h = g)"
| "locks g (Leaving _ h) = (h = g)"
| "locks g _ = False"

text \<open>\<open>Arc::strong_count\<close> of the gate of a session: the clones of its callers and the map's own.\<close>

definition strong_count :: "string \<Rightarrow> nat \<Rightarrow> gates \<Rightarrow> nat" where
  "strong_count sid g s = length (filter (clones g) (gt_callers s)) + (if gt_map s sid = Some g then 1 else 0)"

definition gate_of :: "string \<Rightarrow> gates \<Rightarrow> nat \<times> gates" where
  "gate_of sid s =
     (case gt_map s sid of
        Some g \<Rightarrow> (g, s)
      | None \<Rightarrow> (gt_next s, s\<lparr>gt_map := (gt_map s)(sid \<mapsto> gt_next s), gt_next := Suc (gt_next s)\<rparr>))"

definition set_phase :: "nat \<Rightarrow> phase \<Rightarrow> gates \<Rightarrow> gates" where
  "set_phase i p s = s\<lparr>gt_callers := (gt_callers s)[i := p]\<rparr>"

definition caller :: "nat \<Rightarrow> phase \<Rightarrow> gates \<Rightarrow> bool" where
  "caller i p s \<longleftrightarrow> i < length (gt_callers s) \<and> gt_callers s ! i = p"

definition reclaim :: "string \<Rightarrow> nat \<Rightarrow> gates \<Rightarrow> gates" where
  "reclaim sid g s = (if gt_map s sid = Some g \<and> strong_count sid g s = 2 then s\<lparr>gt_map := (gt_map s)(sid := None)\<rparr> else s)"

inductive gate_step :: "gates \<Rightarrow> gates \<Rightarrow> bool" where
  cloned: "caller i Idle s \<Longrightarrow> gate_of sid s = (g, s1) \<Longrightarrow> gate_step s (set_phase i (Waiting sid g) s1)"
| locked: "caller i (Waiting sid g) s \<Longrightarrow> \<not> list_ex (locks g) (gt_callers s) \<Longrightarrow> gate_step s (set_phase i (Inside sid g) s)"
| reclaimed: "caller i (Inside sid g) s \<Longrightarrow> gate_step s (set_phase i (Leaving sid g) (reclaim sid g s))"
| released: "caller i (Leaving sid g) s \<Longrightarrow> gate_step s (set_phase i Idle s)"

text \<open>
  The invariant: a gate somebody waits for or is inside of is the one in the map; one in the map
  has somebody who will still look after it; gates are never shared between ids; and a mutex has at
  most one owner.
\<close>

fun wants :: "string \<Rightarrow> nat \<Rightarrow> phase \<Rightarrow> bool" where
  "wants sid g (Waiting s h) = (s = sid \<and> h = g)"
| "wants sid g (Inside s h) = (s = sid \<and> h = g)"
| "wants sid g _ = False"

definition gates_inv :: "gates \<Rightarrow> bool" where
  "gates_inv s \<longleftrightarrow>
     (\<forall>i sid g. i < length (gt_callers s) \<longrightarrow> wants sid g (gt_callers s ! i) \<longrightarrow> gt_map s sid = Some g)
     \<and> (\<forall>sid g. gt_map s sid = Some g \<longrightarrow> (\<exists>i < length (gt_callers s). wants sid g (gt_callers s ! i)))
     \<and> (\<forall>i g. i < length (gt_callers s) \<longrightarrow> clones g (gt_callers s ! i) \<longrightarrow> g < gt_next s)
     \<and> (\<forall>sid sid' g. gt_map s sid = Some g \<longrightarrow> gt_map s sid' = Some g \<longrightarrow> sid = sid')
     \<and> (\<forall>g i j. i < length (gt_callers s) \<longrightarrow> j < length (gt_callers s) \<longrightarrow> locks g (gt_callers s ! i) \<longrightarrow> locks g (gt_callers s ! j) \<longrightarrow> i = j)"

lemma gates_invD:
  assumes "gates_inv s"
  shows "i < length (gt_callers s) \<Longrightarrow> wants sid g (gt_callers s ! i) \<Longrightarrow> gt_map s sid = Some g"
    and "gt_map s sid = Some g \<Longrightarrow> \<exists>i < length (gt_callers s). wants sid g (gt_callers s ! i)"
    and "i < length (gt_callers s) \<Longrightarrow> clones g (gt_callers s ! i) \<Longrightarrow> g < gt_next s"
    and "gt_map s sid = Some g \<Longrightarrow> gt_map s sid' = Some g \<Longrightarrow> sid = sid'"
    and "i < length (gt_callers s) \<Longrightarrow> j < length (gt_callers s) \<Longrightarrow> locks g (gt_callers s ! i) \<Longrightarrow> locks g (gt_callers s ! j) \<Longrightarrow> i = j"
  using assms unfolding gates_inv_def by blast+

lemma gates_invI:
  assumes "\<And>i sid g. i < length (gt_callers s) \<Longrightarrow> wants sid g (gt_callers s ! i) \<Longrightarrow> gt_map s sid = Some g"
    and "\<And>sid g. gt_map s sid = Some g \<Longrightarrow> \<exists>i < length (gt_callers s). wants sid g (gt_callers s ! i)"
    and "\<And>i g. i < length (gt_callers s) \<Longrightarrow> clones g (gt_callers s ! i) \<Longrightarrow> g < gt_next s"
    and "\<And>sid sid' g. gt_map s sid = Some g \<Longrightarrow> gt_map s sid' = Some g \<Longrightarrow> sid = sid'"
    and "\<And>g i j. i < length (gt_callers s) \<Longrightarrow> j < length (gt_callers s) \<Longrightarrow> locks g (gt_callers s ! i) \<Longrightarrow> locks g (gt_callers s ! j) \<Longrightarrow> i = j"
  shows "gates_inv s"
  using assms unfolding gates_inv_def by blast

lemma set_phase_simps [simp]:
  "gt_map (set_phase i p s) = gt_map s" "gt_next (set_phase i p s) = gt_next s"
  "length (gt_callers (set_phase i p s)) = length (gt_callers s)"
  "j < length (gt_callers s) \<Longrightarrow> gt_callers (set_phase i p s) ! j = (if i = j then p else gt_callers s ! j)"
  by (simp_all add: set_phase_def nth_list_update)

lemma wants_clones: "wants sid g p \<Longrightarrow> clones g p"
  by (cases p) auto

lemma locks_clones: "locks g p \<Longrightarrow> clones g p"
  by (cases p) auto

text \<open>Exactly one caller clones the gate, or another one does.\<close>

lemma count_one:
  assumes "i < length xs" and "P (xs ! i)"
  shows "length (filter P xs) = 1 \<longleftrightarrow> (\<forall>j < length xs. P (xs ! j) \<longrightarrow> j = i)"
proof -
  let ?S = "{j. j < length xs \<and> P (xs ! j)}"
  have "length (filter P xs) = card ?S" by (rule length_filter_conv_card)
  moreover have "card ?S = 1 \<longleftrightarrow> ?S = {i}"
  proof
    assume "card ?S = 1"
    then obtain x where x: "?S = {x}" by (auto simp: card_1_singleton_iff)
    have "i \<in> ?S" using assms by simp
    then show "?S = {i}" unfolding x by simp
  qed simp
  moreover have "?S = {i} \<longleftrightarrow> (\<forall>j < length xs. P (xs ! j) \<longrightarrow> j = i)" using assms by blast
  ultimately show ?thesis by simp
qed

lemma gates_inv_cloned:
  assumes inv: "gates_inv s" and i: "caller i Idle s" and g: "gate_of sid s = (g, s1)"
  shows "gates_inv (set_phase i (Waiting sid g) s1)"
proof -
  have known: "h < gt_next s" if "gt_map s a = Some h" for a h
    using gates_invD(2)[OF inv that] gates_invD(3)[OF inv] wants_clones by blast
  have c: "gt_callers s1 = gt_callers s" and m: "gt_map s1 = (gt_map s)(sid \<mapsto> g)" and n: "gt_next s \<le> gt_next s1" "g < gt_next s1"
    and fresh: "gt_map s sid = None \<Longrightarrow> g = gt_next s"
    using g known by (cases "gt_map s sid"; fastforce simp: gate_of_def fun_eq_iff)+
  have same: "h = g" if "gt_map s sid = Some h" for h using g that by (simp add: gate_of_def)
  have il: "i < length (gt_callers s)" "gt_callers s ! i = Idle" using i by (simp_all add: caller_def)
  have other: "sid' = sid" if "gt_map s sid' = Some g" for sid'
  proof (cases "gt_map s sid")
    case None
    then show ?thesis using fresh known[OF that] by simp
  next
    case (Some h)
    then have "h = g" using g by (simp add: gate_of_def)
    then show ?thesis using gates_invD(4)[OF inv that] Some by simp
  qed
  show ?thesis
  proof (rule gates_invI)
    fix j sid' g'
    assume j: "j < length (gt_callers (set_phase i (Waiting sid g) s1))" "wants sid' g' (gt_callers (set_phase i (Waiting sid g) s1) ! j)"
    show "gt_map (set_phase i (Waiting sid g) s1) sid' = Some g'"
    proof (cases "i = j")
      case True
      with j show ?thesis by (simp add: c m)
    next
      case False
      with j have "gt_map s sid' = Some g'" by (intro gates_invD(1)[OF inv, of j]) (simp_all add: c)
      with same show ?thesis by (cases "sid' = sid") (auto simp: m)
    qed
  next
    fix sid' g' assume "gt_map (set_phase i (Waiting sid g) s1) sid' = Some g'"
    then consider "sid' = sid" "g' = g" | "sid' \<noteq> sid" "gt_map s sid' = Some g'" by (auto simp: m split: if_splits)
    then show "\<exists>j < length (gt_callers (set_phase i (Waiting sid g) s1)). wants sid' g' (gt_callers (set_phase i (Waiting sid g) s1) ! j)"
    proof cases
      case 1
      then show ?thesis using il by (intro exI[of _ i]) (simp add: c)
    next
      case 2
      then obtain j where j: "j < length (gt_callers s)" "wants sid' g' (gt_callers s ! j)" using gates_invD(2)[OF inv] by blast
      then have "j \<noteq> i" using il by auto
      then show ?thesis using j by (intro exI[of _ j]) (simp add: c)
    qed
  next
    fix j g' assume "j < length (gt_callers (set_phase i (Waiting sid g) s1))" "clones g' (gt_callers (set_phase i (Waiting sid g) s1) ! j)"
    then show "g' < gt_next (set_phase i (Waiting sid g) s1)"
      using gates_invD(3)[OF inv, of j g'] n by (auto simp: c split: if_splits)
  next
    fix a b g' assume "gt_map (set_phase i (Waiting sid g) s1) a = Some g'" "gt_map (set_phase i (Waiting sid g) s1) b = Some g'"
    then show "a = b" using other gates_invD(4)[OF inv] by (auto simp: m split: if_splits)
  next
    fix g' j k assume "j < length (gt_callers (set_phase i (Waiting sid g) s1))" "k < length (gt_callers (set_phase i (Waiting sid g) s1))"
      "locks g' (gt_callers (set_phase i (Waiting sid g) s1) ! j)" "locks g' (gt_callers (set_phase i (Waiting sid g) s1) ! k)"
    then show "j = k" using gates_invD(5)[OF inv, of j k g'] by (auto simp: c split: if_splits)
  qed
qed

lemma gates_inv_locked:
  assumes inv: "gates_inv s" and i: "caller i (Waiting sid g) s" and free: "\<not> list_ex (locks g) (gt_callers s)"
  shows "gates_inv (set_phase i (Inside sid g) s)"
proof -
  have il: "i < length (gt_callers s)" "gt_callers s ! i = Waiting sid g" using i by (simp_all add: caller_def)
  have w: "wants a b (gt_callers (set_phase i (Inside sid g) s) ! j) = wants a b (gt_callers s ! j)"
    and cl: "clones b (gt_callers (set_phase i (Inside sid g) s) ! j) = clones b (gt_callers s ! j)" if "j < length (gt_callers s)" for j a b
    using that il by auto
  have "\<not> locks g (gt_callers s ! j)" if "j < length (gt_callers s)" for j using free that by (simp add: list_ex_iff)
  note free' = this
  show ?thesis
  proof (rule gates_invI)
    fix a b assume "gt_map (set_phase i (Inside sid g) s) a = Some b"
    then obtain j where "j < length (gt_callers s)" "wants a b (gt_callers s ! j)" using gates_invD(2)[OF inv] by auto
    then show "\<exists>j < length (gt_callers (set_phase i (Inside sid g) s)). wants a b (gt_callers (set_phase i (Inside sid g) s) ! j)"
      using w by (intro exI[of _ j]) simp
  next
    fix b j k assume "j < length (gt_callers (set_phase i (Inside sid g) s))" "k < length (gt_callers (set_phase i (Inside sid g) s))"
      "locks b (gt_callers (set_phase i (Inside sid g) s) ! j)" "locks b (gt_callers (set_phase i (Inside sid g) s) ! k)"
    then show "j = k" using free'[of j] free'[of k] gates_invD(5)[OF inv, of j k b] by (auto split: if_splits)
  qed (use w cl inv in \<open>auto dest: gates_invD simp del: set_phase_simps(4)\<close>)
qed

lemma gates_inv_reclaimed:
  assumes inv: "gates_inv s" and i: "caller i (Inside sid g) s"
  shows "gates_inv (set_phase i (Leaving sid g) (reclaim sid g s))"
proof -
  have il: "i < length (gt_callers s)" "gt_callers s ! i = Inside sid g" using i by (simp_all add: caller_def)
  have m: "gt_map s sid = Some g" using gates_invD(1)[OF inv il(1)] il(2) by simp
  define only where "only \<longleftrightarrow> (\<forall>j < length (gt_callers s). clones g (gt_callers s ! j) \<longrightarrow> j = i)"
  have "strong_count sid g s = 2 \<longleftrightarrow> only"
    using count_one[OF il(1), of "clones g"] il(2) m by (simp add: strong_count_def only_def)
  then have rec: "reclaim sid g s = (if only then s\<lparr>gt_map := (gt_map s)(sid := None)\<rparr> else s)" using m by (simp add: reclaim_def)
  define u where "u = set_phase i (Leaving sid g) (reclaim sid g s)"
  have t: "gt_callers u = (gt_callers s)[i := Leaving sid g]" "gt_next u = gt_next s"
    "gt_map u = (if only then (gt_map s)(sid := None) else gt_map s)" by (simp_all add: u_def rec set_phase_def)
  have nth: "gt_callers u ! j = (if i = j then Leaving sid g else gt_callers s ! j)" if "j < length (gt_callers s)" for j
    using that by (simp add: t)
  show ?thesis unfolding u_def[symmetric]
  proof (rule gates_invI)
    fix j a b assume j: "j < length (gt_callers u)" "wants a b (gt_callers u ! j)"
    then have o: "j < length (gt_callers s)" "j \<noteq> i" "wants a b (gt_callers s ! j)" using nth[of j] by (auto simp: t split: if_splits)
    then have mb: "gt_map s a = Some b" using gates_invD(1)[OF inv] by blast
    have "a \<noteq> sid" if only
      using o mb m wants_clones[OF o(3)] that unfolding only_def by auto
    then show "gt_map u a = Some b" using mb by (simp add: t)
  next
    fix a b assume ab: "gt_map u a = Some b"
    then have mb: "gt_map s a = Some b" by (auto simp: t split: if_splits)
    obtain j where j: "j < length (gt_callers s)" "wants a b (gt_callers s ! j)" using gates_invD(2)[OF inv mb] by blast
    obtain k where "k < length (gt_callers s)" "k \<noteq> i" "wants a b (gt_callers s ! k)"
    proof (cases "j = i")
      case False
      with j that show ?thesis by blast
    next
      case True
      then have ab': "a = sid" "b = g" using j il by simp_all
      then have "\<not> only" using ab m by (auto simp: t split: if_splits)
      then obtain k where k: "k < length (gt_callers s)" "clones g (gt_callers s ! k)" "k \<noteq> i" unfolding only_def by blast
      have "\<not> locks g (gt_callers s ! k)" using gates_invD(5)[OF inv k(1) il(1)] k(3) il(2) by auto
      then obtain c where w: "gt_callers s ! k = Waiting c g" using k(2) by (cases "gt_callers s ! k") auto
      then have "c = sid" using gates_invD(1)[OF inv k(1), of c g] gates_invD(4)[OF inv _ m] by simp
      then show ?thesis using that k w ab' by simp
    qed
    then show "\<exists>k < length (gt_callers u). wants a b (gt_callers u ! k)" using nth by (intro exI[of _ k]) (simp add: t)
  next
    fix j b assume "j < length (gt_callers u)" "clones b (gt_callers u ! j)"
    then show "b < gt_next u" using gates_invD(3)[OF inv, of j b] gates_invD(3)[OF inv il(1), of b] nth[of j] il(2)
      by (auto simp: t split: if_splits)
  next
    fix a c b assume "gt_map u a = Some b" "gt_map u c = Some b"
    then show "a = c" using gates_invD(4)[OF inv] by (auto simp: t split: if_splits)
  next
    fix b j k assume jk: "j < length (gt_callers u)" "k < length (gt_callers u)" "locks b (gt_callers u ! j)" "locks b (gt_callers u ! k)"
    have "locks b (gt_callers s ! j)" "locks b (gt_callers s ! k)" using jk nth[of j] nth[of k] il(2) by (auto simp: t split: if_splits)
    then show "j = k" using gates_invD(5)[OF inv] jk by (simp add: t)
  qed
qed

lemma gates_inv_released:
  assumes inv: "gates_inv s" and i: "caller i (Leaving sid g) s"
  shows "gates_inv (set_phase i Idle s)"
proof -
  have il: "i < length (gt_callers s)" "gt_callers s ! i = Leaving sid g" using i by (simp_all add: caller_def)
  show ?thesis
  proof (rule gates_invI)
    fix a b assume "gt_map (set_phase i Idle s) a = Some b"
    then obtain j where j: "j < length (gt_callers s)" "wants a b (gt_callers s ! j)" using gates_invD(2)[OF inv] by auto
    then have "j \<noteq> i" using il by auto
    then show "\<exists>j < length (gt_callers (set_phase i Idle s)). wants a b (gt_callers (set_phase i Idle s) ! j)"
      using j by (intro exI[of _ j]) simp
  qed (use gates_invD[OF inv] in \<open>auto split: if_splits\<close>)
qed

lemma gates_inv_reachable: "gate_step\<^sup>*\<^sup>* (gates_start n) s \<Longrightarrow> gates_inv s"
proof (induction rule: rtranclp_induct)
  case base
  show ?case by (rule gates_invI) (auto simp: gates_start_def)
next
  case (step s t)
  from step.hyps(2) step.IH show ?case
    by (cases rule: gate_step.cases) (auto intro: gates_inv_cloned gates_inv_locked gates_inv_reclaimed gates_inv_released)
qed


lemma gate_round: "gate_step\<^sup>*\<^sup>* (gates_start 1) ((gates_start 1)\<lparr>gt_next := 1\<rparr>)"
proof -
  let ?a = "set_phase 0 (Waiting ''s'' 0) (snd (gate_of ''s'' (gates_start 1)))"
  let ?b = "set_phase 0 (Inside ''s'' 0) ?a"
  let ?c = "set_phase 0 (Leaving ''s'' 0) (reclaim ''s'' 0 ?b)"
  have "gate_step (gates_start 1) ?a"
    by (rule gate_step.cloned[where sid = "''s''"]) (simp_all add: caller_def gate_of_def gates_start_def)
  moreover have "gate_step ?a ?b"
    by (rule gate_step.locked) (simp_all add: caller_def gate_of_def gates_start_def set_phase_def)
  moreover have "gate_step ?b ?c"
    by (rule gate_step.reclaimed) (simp_all add: caller_def gate_of_def gates_start_def set_phase_def)
  moreover have "gate_step ?c (set_phase 0 Idle ?c)"
    by (rule gate_step.released) (simp_all add: caller_def reclaim_def strong_count_def gate_of_def gates_start_def set_phase_def)
  moreover have "set_phase 0 Idle ?c = (gates_start 1)\<lparr>gt_next := 1\<rparr>"
    by (simp add: reclaim_def strong_count_def gate_of_def gates_start_def set_phase_def)
  ultimately show ?thesis
    by (intro converse_rtranclp_into_rtranclp[of gate_step "gates_start 1" ?a] converse_rtranclp_into_rtranclp[of gate_step ?a ?b]
        converse_rtranclp_into_rtranclp[of gate_step ?b ?c] r_into_rtranclp[of gate_step ?c]) simp_all
qed



end
