(* ===== verification/Registry.thy ===== *)
theory Registry
  imports Chat_Facts Live_Session Lifecycle_Gate
begin

text \<open>
  \<open>registry.rs\<close>: every session the daemon holds open, and the handle of \<open>chat.rs\<close> through which it
  speaks to a conductor. A session thread is its chat and whether it still runs; posting a wake and
  waiting for the answer runs the conductor's loop on that wake, in the world all sessions share,
  and hands what it published to the listeners. \<open>Lifecycle_Gate\<close> shows that operations on one
  session exclude each other, so each is one step here; \<open>look\<close> gives the snapshot that rides along
  with an event, and finding out which providers are usable is a function of the registry, since
  other sessions go on meanwhile. \<open>None\<close> is a conductor out of fuel.
\<close>

record 'r held =
  hd_live :: live
  hd_chat :: "'r chat"
  hd_running :: bool

record 'r registry =
  rg_sessions :: "(string \<times> 'r held) list"
  rg_closing :: bool
  rg_conns :: conns
  rg_world :: world

type_synonym 'r desk = "'r held \<times> world \<times> conns"

definition registry_new :: "conns \<Rightarrow> world \<Rightarrow> 'r registry" where
  "registry_new cs w = \<lparr>rg_sessions = [], rg_closing = False, rg_conns = cs, rg_world = w\<rparr>"

section \<open>The handle\<close>

definition snapshot_of_held :: "'r held \<Rightarrow> snapshot" where
  "snapshot_of_held h = c_state (hd_chat h)"

fun fan_out :: "codec \<Rightarrow> (event \<Rightarrow> snapshot) \<Rightarrow> string \<Rightarrow> event list \<Rightarrow> listener list \<times> conns \<Rightarrow> listener list \<times> conns" where
  "fan_out J look sid [] s = s"
| "fan_out J look sid (e # es) (ls, cs) = fan_out J look sid es (sink J sid e (look e) ls cs)"

text \<open>The thread handles some signals; what it published since goes to the listeners.\<close>

definition heard_by :: "codec \<Rightarrow> (event \<Rightarrow> snapshot) \<Rightarrow> nat \<Rightarrow> 'r chat \<Rightarrow> bool \<Rightarrow> 'r held \<Rightarrow> conns \<Rightarrow> 'r desk" where
  "heard_by J look before t goes_on h cs =
     (case fan_out J look (lv_session (hd_live h)) (drop before (c_published t)) (lv_listeners (hd_live h), cs) of
        (ls, cs1) \<Rightarrow> (h\<lparr>hd_chat := t, hd_running := goes_on, hd_live := (hd_live h)\<lparr>lv_listeners := ls\<rparr>\<rparr>, c_world t, cs1))"

definition post :: "'r env \<Rightarrow> nat \<Rightarrow> (event \<Rightarrow> snapshot) \<Rightarrow> wake \<Rightarrow> 'r desk \<Rightarrow> ('r desk \<times> answer list) option" where
  "post E n look wk d =
     (case d of (h, w, cs) \<Rightarrow>
        if \<not> hd_running h then Some (d, [])
        else (case run_loop E n [Woke wk] ((hd_chat h)\<lparr>c_world := w\<rparr>) of
                None \<Rightarrow> None
              | Some (t, acks) \<Rightarrow>
                  Some (heard_by (en_codec E) look (length (c_published (hd_chat h))) t (\<not> c_terminal t \<and> wk \<noteq> Stop) h cs, acks)))"

definition answer_or :: "nat \<Rightarrow> string \<Rightarrow> answer list \<Rightarrow> unit res" where
  "answer_or k why acks = (case map_of acks k of Some r \<Rightarrow> r | None \<Rightarrow> Inl why)"

definition gone_text :: "string \<Rightarrow> string" where
  "gone_text sid = ''session '' @ quoted sid @ '' is no longer running''"

definition send_durable :: "'r env \<Rightarrow> nat \<Rightarrow> (event \<Rightarrow> snapshot) \<Rightarrow> string \<Rightarrow> 'r desk \<Rightarrow> ('r desk \<times> unit res) option" where
  "send_durable E n look t d =
     (case d of (h, w, cs) \<Rightarrow>
        let sid = lv_session (hd_live h);
            h1 = h\<lparr>hd_chat := (hd_chat h)\<lparr>c_state := flip_busy (c_state (hd_chat h))\<rparr>\<rparr>
        in if \<not> hd_running h then Some ((h1, w, cs), Inl (gone_text sid))
           else map_option (\<lambda>(d1, acks). (d1, answer_or 0 (''session '' @ quoted sid @ '' stopped before accepting the message'') acks))
                  (post E n look (SendDurable t 0) (h1, w, cs)))"

definition configure :: "'r env \<Rightarrow> nat \<Rightarrow> (event \<Rightarrow> snapshot) \<Rightarrow> change list \<Rightarrow> 'r desk \<Rightarrow> ('r desk \<times> unit res) option" where
  "configure E n look chs d =
     (case d of (h, w, cs) \<Rightarrow>
        let sid = lv_session (hd_live h) in
        if \<not> hd_running h then Some (d, Inl (gone_text sid))
        else map_option (\<lambda>(d1, acks). (d1, answer_or 0 (''session '' @ quoted sid @ '' stopped while saving settings'') acks))
               (post E n look (Configure chs 0) d))"

section \<open>One session\<close>

definition live_attach :: "'r env \<Rightarrow> nat \<Rightarrow> int \<Rightarrow> (int \<Rightarrow> meanwhile list list) \<Rightarrow> int \<Rightarrow> 'r desk \<Rightarrow> 'r desk \<times> nat res" where
  "live_attach E conn from pauses instant d =
     (case d of (h, w, cs) \<Rightarrow>
        let sn = snapshot_of_held h;
            (w1, st) = store_open (en_codec E) (en_home E) (lv_session (hd_live h)) w;
            ((lv, cs1), r) = attach (en_codec E) conn from sn sn st pauses instant (hd_live h, cs)
        in ((h\<lparr>hd_live := lv\<rparr>, w1, cs1), r))"

text \<open>\<open>shut\<close>: once; then the conductor is told to stop, waited for, and the listeners told.\<close>

definition shut :: "'r env \<Rightarrow> nat \<Rightarrow> (event \<Rightarrow> snapshot) \<Rightarrow> 'r desk \<Rightarrow> 'r desk option" where
  "shut E n look d =
     (case d of (h, w, cs) \<Rightarrow>
        if lv_stopping (hd_live h) then Some d
        else map_option (\<lambda>((h1, w1, cs1), _). (h1, w1, farewell (en_codec E) (snapshot_of_held h1) (hd_live h1) cs1))
               (post E n look Stop (h\<lparr>hd_live := (hd_live h)\<lparr>lv_stopping := True\<rparr>\<rparr>, w, cs)))"

section \<open>The registry\<close>

definition put_back :: "string \<Rightarrow> 'r desk \<Rightarrow> 'r registry \<Rightarrow> 'r registry" where
  "put_back sid d g = (case d of (h, w, cs) \<Rightarrow> g\<lparr>rg_sessions := bt_insert sid h (rg_sessions g), rg_world := w, rg_conns := cs\<rparr>)"

definition leave_out :: "string \<Rightarrow> 'r desk \<Rightarrow> 'r registry \<Rightarrow> 'r registry" where
  "leave_out sid d g = (case d of (h, w, cs) \<Rightarrow> g\<lparr>rg_sessions := bt_remove sid (rg_sessions g), rg_world := w, rg_conns := cs\<rparr>)"

definition reg_get :: "string \<Rightarrow> 'r registry \<Rightarrow> 'r desk option" where
  "reg_get sid g = map_option (\<lambda>h. (h, rg_world g, rg_conns g)) (bt_get (rg_sessions g) sid)"

definition missing :: "string \<Rightarrow> string" where
  "missing sid = ''session '' @ quoted sid @ '' is not open; open it first''"

definition on_session :: "string \<Rightarrow> ('r desk \<Rightarrow> ('r desk \<times> unit res) option) \<Rightarrow> 'r registry \<Rightarrow> ('r registry \<times> unit res) option" where
  "on_session sid f g =
     (case reg_get sid g of
        None \<Rightarrow> Some (g, Inl (missing sid))
      | Some d \<Rightarrow> map_option (\<lambda>(d1, r). (put_back sid d1 g, r)) (f d))"

definition reg_send :: "'r env \<Rightarrow> nat \<Rightarrow> (event \<Rightarrow> snapshot) \<Rightarrow> string \<Rightarrow> string \<Rightarrow> 'r registry \<Rightarrow> ('r registry \<times> unit res) option" where
  "reg_send E n look sid t g = on_session sid (send_durable E n look t) g"

definition reg_set :: "'r env \<Rightarrow> nat \<Rightarrow> (event \<Rightarrow> snapshot) \<Rightarrow> string \<Rightarrow> change \<Rightarrow> 'r registry \<Rightarrow> ('r registry \<times> unit res) option" where
  "reg_set E n look sid ch g = on_session sid (configure E n look [ch]) g"

definition stop_locked_if :: "'r env \<Rightarrow> nat \<Rightarrow> (event \<Rightarrow> snapshot) \<Rightarrow> string \<Rightarrow> ('r held \<Rightarrow> bool) \<Rightarrow> 'r registry \<Rightarrow> ('r registry \<times> bool) option" where
  "stop_locked_if E n look sid eligible g =
     (case reg_get sid g of
        None \<Rightarrow> Some (g, False)
      | Some d \<Rightarrow> if eligible (fst d) then map_option (\<lambda>d1. (leave_out sid d1 g, True)) (shut E n look d) else Some (g, False))"

definition reg_stop :: "'r env \<Rightarrow> nat \<Rightarrow> (event \<Rightarrow> snapshot) \<Rightarrow> string \<Rightarrow> 'r registry \<Rightarrow> ('r registry \<times> bool) option" where
  "reg_stop E n look sid g = stop_locked_if E n look sid (\<lambda>_. True) g"

definition snapshots :: "'r registry \<Rightarrow> (snapshot \<times> nat) list" where
  "snapshots g = map (\<lambda>(_, h). (snapshot_of_held h, listeners (hd_live h))) (rg_sessions g)"

definition reg_forget :: "nat \<Rightarrow> int \<Rightarrow> 'r registry \<Rightarrow> 'r registry" where
  "reg_forget conn instant g =
     g\<lparr>rg_sessions := map (\<lambda>(sid, h). (sid, h\<lparr>hd_live := detach conn instant (hd_live h)\<rparr>)) (rg_sessions g)\<rparr>"

text \<open>Finished on its own, or cold.\<close>

definition spent :: "int \<Rightarrow> int \<Rightarrow> 'r held \<Rightarrow> bool" where
  "spent instant grace h \<longleftrightarrow> sn_status (snapshot_of_held h) = STOPPED \<or> cold (snapshot_of_held h) instant grace (hd_live h)"

fun reap_each :: "'r env \<Rightarrow> nat \<Rightarrow> (event \<Rightarrow> snapshot) \<Rightarrow> int \<Rightarrow> int \<Rightarrow> string list \<Rightarrow> 'r registry \<Rightarrow> ('r registry \<times> nat) option" where
  "reap_each E n look instant grace [] g = Some (g, 0)"
| "reap_each E n look instant grace (sid # sids) g =
     (case stop_locked_if E n look sid (spent instant grace) g of
        None \<Rightarrow> None
      | Some (g1, gone) \<Rightarrow>
          map_option (\<lambda>(g2, k). (g2, if gone then Suc k else k)) (reap_each E n look instant grace sids g1))"

definition reap :: "'r env \<Rightarrow> nat \<Rightarrow> (event \<Rightarrow> snapshot) \<Rightarrow> int \<Rightarrow> int \<Rightarrow> 'r registry \<Rightarrow> ('r registry \<times> nat) option" where
  "reap E n look instant grace g =
     reap_each E n look instant grace (map fst (filter (\<lambda>(_, h). spent instant grace h) (rg_sessions g))) g"

fun shut_each :: "'r env \<Rightarrow> nat \<Rightarrow> (event \<Rightarrow> snapshot) \<Rightarrow> (string \<times> 'r held) list \<Rightarrow> world \<times> conns \<Rightarrow> (world \<times> conns) option" where
  "shut_each E n look [] s = Some s"
| "shut_each E n look ((_, h) # hs) (w, cs) =
     (case shut E n look (h, w, cs) of None \<Rightarrow> None | Some (_, w1, cs1) \<Rightarrow> shut_each E n look hs (w1, cs1))"

definition reg_shutdown :: "'r env \<Rightarrow> nat \<Rightarrow> (event \<Rightarrow> snapshot) \<Rightarrow> 'r registry \<Rightarrow> 'r registry option" where
  "reg_shutdown E n look g =
     map_option (\<lambda>(w, cs). g\<lparr>rg_closing := True, rg_sessions := [], rg_world := w, rg_conns := cs\<rparr>)
       (shut_each E n look (rg_sessions g) (rg_world g, rg_conns g))"

section \<open>Opening\<close>

definition shutting_down :: string where
  "shutting_down = ''the omni daemon is shutting down''"

text \<open>
  A new thread: its settings and the launch are posted before it starts, and come before the
  launch it queues for itself.
\<close>

definition start_session :: "'r env \<Rightarrow> nat \<Rightarrow> (event \<Rightarrow> snapshot) \<Rightarrow> string \<Rightarrow> string list \<Rightarrow> string option \<Rightarrow> change list \<Rightarrow> world \<Rightarrow> conns
    \<Rightarrow> ('r desk \<times> unit res) option" where
  "start_session E n look sid ps cwd chs w cs =
     (let chat = open_at E sid ps cwd w;
          h = \<lparr>hd_live = live_new sid, hd_chat = chat, hd_running = True\<rparr>
      in case run E n [Woke (Configure chs 0), Woke (LaunchReady 1)] [] chat of
           None \<Rightarrow> None
         | Some (t, acks) \<Rightarrow>
             Some (heard_by (en_codec E) look 0 t (\<not> c_terminal t) h cs,
                   case answer_or 0 (''session '' @ quoted sid @ '' stopped while opening durable state'') acks of
                     Inl why \<Rightarrow> Inl why
                   | Inr _ \<Rightarrow> answer_or 1 (''session '' @ quoted sid @ '' stopped while starting its provider'') acks))"

text \<open>Attach to a session that is on the list, or take it off again and shut it when that fails.\<close>

definition settle_open :: "'r env \<Rightarrow> nat \<Rightarrow> (event \<Rightarrow> snapshot) \<Rightarrow> string \<Rightarrow> 'r desk \<Rightarrow> string \<Rightarrow> 'r registry \<Rightarrow> ('r registry \<times> nat res) option" where
  "settle_open E n look sid d why g = map_option (\<lambda>d1. (leave_out sid d1 g, Inl why)) (shut E n look d)"

record 'r open_call =
  op_session :: string
  op_discover :: "'r registry \<Rightarrow> 'r registry \<times> string list"
  op_settings :: "change list"
  op_cwd :: "string option"
  op_conn :: nat
  op_from :: int
  op_pauses :: "int \<Rightarrow> meanwhile list list"
  op_instant :: int
  op_look :: "event \<Rightarrow> snapshot"

definition open_warm :: "'r env \<Rightarrow> nat \<Rightarrow> 'r open_call \<Rightarrow> 'r desk \<Rightarrow> 'r registry \<Rightarrow> ('r registry \<times> nat res) option" where
  "open_warm E n q d g =
     (case configure E n (op_look q) (op_settings q) d of
        None \<Rightarrow> None
      | Some (d1, Inl why) \<Rightarrow> Some (put_back (op_session q) d1 g, Inl why)
      | Some (d1, Inr _) \<Rightarrow>
          (case live_attach E (op_conn q) (op_from q) (op_pauses q) (op_instant q) d1 of
             (d2, r) \<Rightarrow> Some (put_back (op_session q) d2 g, r)))"

definition open_cold :: "'r env \<Rightarrow> nat \<Rightarrow> 'r open_call \<Rightarrow> 'r registry \<Rightarrow> ('r registry \<times> nat res) option" where
  "open_cold E n q g0 =
     (let sid = op_session q; (g, ps) = op_discover q g0 in
      if \<not> cn_open (rg_conns g (op_conn q)) then Some (g, Inl (closed_text sid))
      else if rg_closing g then Some (g, Inl shutting_down)
      else
        (case start_session E n (op_look q) sid ps (op_cwd q) (op_settings q) (rg_world g) (rg_conns g) of
           None \<Rightarrow> None
         | Some (d, Inl why) \<Rightarrow> settle_open E n (op_look q) sid d why g
         | Some (d, Inr _) \<Rightarrow>
             (case live_attach E (op_conn q) (op_from q) (op_pauses q) (op_instant q) d of
                (d1, Inr k) \<Rightarrow> Some (put_back sid d1 g, Inr k)
              | (d1, Inl why) \<Rightarrow> settle_open E n (op_look q) sid d1 why g)))"

definition open_locked :: "'r env \<Rightarrow> nat \<Rightarrow> 'r open_call \<Rightarrow> 'r registry \<Rightarrow> ('r registry \<times> nat res) option" where
  "open_locked E n q g =
     (if rg_closing g then Some (g, Inl shutting_down)
      else
        (case reg_get (op_session q) g of
           None \<Rightarrow> open_cold E n q g
         | Some d \<Rightarrow>
             if sn_status (snapshot_of_held (fst d)) \<noteq> STOPPED then open_warm E n q d g
             else (case shut E n (op_look q) d of
                     None \<Rightarrow> None
                   | Some d1 \<Rightarrow> open_cold E n q (leave_out (op_session q) d1 g))))"

section \<open>What stays\<close>

lemma put_back_simps [simp]:
  "rg_closing (put_back sid d g) = rg_closing g"
  "bt_get (rg_sessions (put_back sid d g)) k = (if k = sid then Some (fst d) else bt_get (rg_sessions g) k)"
  by (simp_all add: put_back_def split: prod.split)

lemma leave_out_simps [simp]:
  "rg_closing (leave_out sid d g) = rg_closing g"
  "rg_sessions (leave_out sid d g) = bt_remove sid (rg_sessions g)"
  by (simp_all add: leave_out_def split: prod.split)

lemma reg_get_Some: "reg_get sid g = Some (h, w, cs) \<longleftrightarrow> bt_get (rg_sessions g) sid = Some h \<and> w = rg_world g \<and> cs = rg_conns g"
  by (auto simp: reg_get_def)

section \<open>Reaping\<close>

lemma stop_locked_if_sessions:
  assumes "stop_locked_if E n look sid P g = Some (g1, b)"
  shows "b \<longleftrightarrow> (\<exists>h. bt_get (rg_sessions g) sid = Some h \<and> P h)"
    and "rg_sessions g1 = (if b then bt_remove sid (rg_sessions g) else rg_sessions g)"
  using assms by (auto simp: stop_locked_if_def reg_get_def split: option.splits if_splits)

lemma bt_get_mem: "bt_wf m \<Longrightarrow> (k, v) \<in> set m \<longleftrightarrow> bt_get m k = Some v"
  by (simp add: bt_get_def bt_wf_def strict_sorted_iff)

lemma reap_each_sessions:
  assumes "reap_each E n look instant grace sids g = Some (g1, k)" and "distinct sids"
    and "\<And>sid. sid \<in> set sids \<Longrightarrow> \<exists>h. bt_get (rg_sessions g) sid = Some h \<and> spent instant grace h"
  shows "rg_sessions g1 = filter (\<lambda>p. fst p \<notin> set sids) (rg_sessions g) \<and> k = length sids"
  using assms
proof (induction sids arbitrary: g k)
  case (Cons sid sids)
  obtain g2 b k2 where s: "stop_locked_if E n look sid (spent instant grace) g = Some (g2, b)"
    and r: "reap_each E n look instant grace sids g2 = Some (g1, k2)" and k: "k = (if b then Suc k2 else k2)"
    using Cons.prems(1) by (auto split: option.splits)
  have b: b and g2: "rg_sessions g2 = bt_remove sid (rg_sessions g)"
    using stop_locked_if_sessions[OF s] Cons.prems(3)[of sid] by auto
  have "rg_sessions g1 = filter (\<lambda>p. fst p \<notin> set sids) (rg_sessions g2) \<and> k2 = length sids"
    by (rule Cons.IH[OF r]) (use Cons.prems in \<open>auto simp: g2\<close>)
  then show ?case using b k by (simp add: g2 bt_remove_def conj_commute)
qed simp

text \<open>
  reaping puts down exactly what is spent. Of a registry in order, the sessions left are those
  that were neither stopped nor cold, untouched and in order; in particular one that is busy, in a
  turn, or listened to and not stopped is never interrupted; and the count is of those that went.
\<close>

theorem reap_exact:
  assumes "bt_wf (rg_sessions g)" and "reap E n look instant grace g = Some (g1, k)"
  shows "rg_sessions g1 = filter (\<lambda>(_, h). \<not> spent instant grace h) (rg_sessions g)
    \<and> k = length (filter (\<lambda>(_, h). spent instant grace h) (rg_sessions g))"
proof -
  let ?gone = "filter (\<lambda>(_, h). spent instant grace h) (rg_sessions g)"
  have d: "distinct (map fst (rg_sessions g))" using assms(1) by (simp add: bt_wf_def strict_sorted_iff)
  have "rg_sessions g1 = filter (\<lambda>p. fst p \<notin> set (map fst ?gone)) (rg_sessions g) \<and> k = length (map fst ?gone)"
    by (rule reap_each_sessions[OF assms(2)[unfolded reap_def]])
      (use d in \<open>auto simp: distinct_map_filter bt_get_mem[OF assms(1), symmetric]\<close>)
  moreover have "filter (\<lambda>p. fst p \<notin> set (map fst ?gone)) (rg_sessions g) = filter (\<lambda>(_, h). \<not> spent instant grace h) (rg_sessions g)"
  proof (rule filter_cong[OF refl])
    fix p assume in_g: "p \<in> set (rg_sessions g)"
    obtain a b where p: "p = (a, b)" "bt_get (rg_sessions g) a = Some b"
      using in_g bt_get_mem[OF assms(1), of "fst p" "snd p"] that[of "fst p" "snd p"] by simp
    have "h = b" if "(a, h) \<in> set (rg_sessions g)" for h using that p(2) by (simp add: bt_get_mem[OF assms(1)])
    note only = this
    have "a \<in> set (map fst ?gone) \<longleftrightarrow> spent instant grace b"
    proof
      assume "a \<in> set (map fst ?gone)"
      then obtain h where "(a, h) \<in> set (rg_sessions g)" "spent instant grace h" by (auto simp del: set_map simp: set_map)
      with only show "spent instant grace b" by blast
    next
      assume "spent instant grace b"
      with in_g p(1) have "(a, b) \<in> set ?gone" by simp
      then show "a \<in> set (map fst ?gone)" by (metis fst_conv image_eqI set_map)
    qed
    then show "fst p \<notin> set (map fst ?gone) \<longleftrightarrow> (\<lambda>(_, h). \<not> spent instant grace h) p" by (simp add: p(1))
  qed
  ultimately show ?thesis by simp
qed

section \<open>Opening\<close>

lemma attach_success:
  assumes "attach J conn from sn sn' st ps instant (lv, cs) = ((lv1, cs1), Inr n)"
  shows "\<exists>l. lv_listeners lv1 = others conn (lv_listeners lv) @ [l] \<and> ls_conn l = conn" "lv_alone_since lv1 = None"
proof -
  have same: "ls_conn (fst (replay_all J sid sn' ps es l c)) = ls_conn l" for sid es l c
    by (induction es arbitrary: l c) (auto simp: listener_replay_def moved_def split: prod.splits if_splits)
  show "\<exists>l. lv_listeners lv1 = others conn (lv_listeners lv) @ [l] \<and> ls_conn l = conn" "lv_alone_since lv1 = None"
    using assms same[of "lv_session lv" "store_events (start_at from sn) st" "listener_new conn (start_at from sn)" "cs conn"]
    by (auto simp: attach_def Let_def listener_new_def split: if_splits prod.splits)
qed

lemma live_attach_success:
  assumes "live_attach E conn from ps instant d = ((h, w, cs), Inr k)"
  shows "length (filter (\<lambda>l. ls_conn l = conn) (lv_listeners (hd_live h))) = 1" "lv_alone_since (hd_live h) = None"
proof -
  obtain h0 w0 cs0 where d: "d = (h0, w0, cs0)" by (cases d)
  obtain w1 st where st: "store_open (en_codec E) (en_home E) (lv_session (hd_live h0)) w0 = (w1, st)" by fastforce
  have a: "attach (en_codec E) conn from (snapshot_of_held h0) (snapshot_of_held h0) st ps instant (hd_live h0, cs0) = ((hd_live h, cs), Inr k)"
    using assms by (auto simp: live_attach_def d st Let_def split: prod.splits)
  show "length (filter (\<lambda>l. ls_conn l = conn) (lv_listeners (hd_live h))) = 1" "lv_alone_since (hd_live h) = None"
    using attach_success[OF a] by (auto simp: others_def)
qed

text \<open>
  C35: an open that fails leaves nothing behind, and one that succeeds listens once. Whatever goes on
  in other sessions while providers are looked up, an open of a session that was not there either
  fails with none of it on the list, or has put it there with exactly one listener for the
  connection that asked, however often it asked before.
\<close>

theorem open_all_or_nothing:
  assumes "open_locked E n q g = Some (g1, r)"
    and "\<And>g. bt_get (rg_sessions (fst (op_discover q g))) (op_session q) = bt_get (rg_sessions g) (op_session q)"
  shows "case r of
      Inl _ \<Rightarrow> bt_get (rg_sessions g) (op_session q) = None \<longrightarrow> bt_get (rg_sessions g1) (op_session q) = None
    | Inr _ \<Rightarrow> \<exists>h. bt_get (rg_sessions g1) (op_session q) = Some h
        \<and> length (filter (\<lambda>l. ls_conn l = op_conn q) (lv_listeners (hd_live h))) = 1 \<and> lv_alone_since (hd_live h) = None"
proof -
  have cold: ?thesis if c: "open_cold E n q g0 = Some (g1, r)" and no: "bt_get (rg_sessions g0) (op_session q) = None" for g0
  proof -
    obtain g2 ps where dsc: "op_discover q g0 = (g2, ps)" by fastforce
    have no2: "bt_get (rg_sessions g2) (op_session q) = None" using assms(2)[of g0] no dsc by simp
    show ?thesis using c no2 live_attach_success
      by (fastforce simp: open_cold_def dsc Let_def settle_open_def split: if_splits option.splits sum.splits prod.splits)
  qed
  show ?thesis
  proof (cases "rg_closing g \<or> reg_get (op_session q) g = None")
    case True
    then show ?thesis using assms(1) cold[of g] by (auto simp: open_locked_def reg_get_def split: if_splits)
  next
    case False
    then obtain d where d: "reg_get (op_session q) g = Some d" by blast
    show ?thesis
    proof (cases "sn_status (snapshot_of_held (fst d)) \<noteq> STOPPED")
      case True
      then have "open_warm E n q d g = Some (g1, r)" using assms(1) False d by (simp add: open_locked_def)
      then show ?thesis using d live_attach_success
        by (fastforce simp: open_warm_def reg_get_def split: option.splits sum.splits prod.splits)
    next
      case stopped: False
      then obtain d1 where "open_cold E n q (leave_out (op_session q) d1 g) = Some (g1, r)"
        using assms(1) False d by (auto simp: open_locked_def split: option.splits)
      then show ?thesis using cold[of "leave_out (op_session q) d1 g"] d by (simp add: reg_get_def)
    qed
  qed
qed

section \<open>Shutting down\<close>

text \<open>The operations of the registry, and a sequence of them.\<close>

datatype 'r reg_op =
    Op_Open "'r open_call"
  | Op_Send "event \<Rightarrow> snapshot" string string
  | Op_Set "event \<Rightarrow> snapshot" string change
  | Op_Stop "event \<Rightarrow> snapshot" string
  | Op_Forget nat int
  | Op_Reap "event \<Rightarrow> snapshot" int int
  | Op_Shutdown "event \<Rightarrow> snapshot"

fun reg_step :: "'r env \<Rightarrow> nat \<Rightarrow> 'r reg_op \<Rightarrow> 'r registry \<Rightarrow> 'r registry option" where
  "reg_step E n (Op_Open q) g = map_option fst (open_locked E n q g)"
| "reg_step E n (Op_Send look sid t) g = map_option fst (reg_send E n look sid t g)"
| "reg_step E n (Op_Set look sid ch) g = map_option fst (reg_set E n look sid ch g)"
| "reg_step E n (Op_Stop look sid) g = map_option fst (reg_stop E n look sid g)"
| "reg_step E n (Op_Forget conn instant) g = Some (reg_forget conn instant g)"
| "reg_step E n (Op_Reap look instant grace) g = map_option fst (reap E n look instant grace g)"
| "reg_step E n (Op_Shutdown look) g = reg_shutdown E n look g"

fun reg_steps :: "'r env \<Rightarrow> nat \<Rightarrow> 'r reg_op list \<Rightarrow> 'r registry \<Rightarrow> 'r registry option" where
  "reg_steps E n [] g = Some g"
| "reg_steps E n (x # xs) g = Option.bind (reg_step E n x g) (reg_steps E n xs)"

lemma reg_step_closed:
  "rg_closing g \<Longrightarrow> rg_sessions g = [] \<Longrightarrow> reg_step E n x g = Some g1 \<Longrightarrow> rg_closing g1 \<and> rg_sessions g1 = []"
  by (cases x)
    (auto simp: open_locked_def reg_send_def reg_set_def on_session_def reg_get_def reg_stop_def stop_locked_if_def
      reg_forget_def reap_def reg_shutdown_def)

text \<open>
  after a shutdown nothing runs. Once the registry was shut down no operation, in any number
  and order, puts a session on its list again; and an open that was still looking up providers when
  it happened is refused and leaves the list as it found it.
\<close>

theorem shutdown_final:
  assumes "reg_shutdown E n look g = Some g1" and "reg_steps E n xs g1 = Some g2"
    and "rg_closing (fst (op_discover q g0))" and "open_cold E n q g0 = Some (g3, r)"
  shows "rg_sessions g2 = [] \<and> rg_sessions g3 = rg_sessions (fst (op_discover q g0)) \<and> (\<exists>why. r = Inl why)"
proof -
  have "rg_closing g1" "rg_sessions g1 = []" using assms(1) by (auto simp: reg_shutdown_def)
  then have "rg_sessions g2 = []" using assms(2)
  proof (induction xs arbitrary: g1)
    case (Cons x xs)
    then obtain g4 where 1: "reg_step E n x g1 = Some g4" and 2: "reg_steps E n xs g4 = Some g2" by (auto simp: bind_eq_Some_conv)
    from reg_step_closed[OF Cons.prems(1,2) 1] Cons.IH[OF _ _ 2] show ?case by blast
  qed simp
  moreover have "rg_sessions g3 = rg_sessions (fst (op_discover q g0)) \<and> (\<exists>why. r = Inl why)"
    using assms(3,4) by (auto simp: open_cold_def Let_def split: prod.splits if_splits)
  ultimately show ?thesis by blast
qed

section \<open>A message outlives a stop\<close>

lemma run_loop_send:
  assumes "run_loop E n [Woke (SendDurable tx k)] s = Some (t, acks)" and "map_of acks k = Some (Inr ())" and "jinv s" and "\<not> c_terminal s"
  shows "\<exists>i. jinv t \<and> tracked i tx t"
proof -
  obtain s1 where 1: "(if overdue s then expire E (flush E n) s else Some s) = Some s1"
    using assms(1) by (auto split: option.splits)
  have "keeps [] [] s s1"
  proof (cases "overdue s")
    case True
    then have "run_loop E n [Deadline] s = Some (s1, [])" using 1 by (simp add: reject_waiters_def)
    from keeps_all.run_loop_R[OF this] show ?thesis by simp
  next
    case False
    with 1 show ?thesis using keeps_all.run_loop_R[of E n "[]" s s "[]" "[]" "[]"] by simp
  qed
  then have j: "jinv s1" using assms(3) by (simp add: keeps_def)
  have t1: "\<not> c_terminal s1" using assms(1,2) 1 by (auto simp: lost_text_def reject_waiters_def)
  obtain s2 a2 where h: "handle_send E (flush E n) tx k s1 = Some (s2, a2)" and t: "t = s2" and a: "acks = a2"
    using assms(1) 1 t1 by (auto simp: handle_def reject_waiters_def split: option.splits if_splits)
  have "a2 = [(k, Inr ())]" using h a assms(2) by (auto simp: handle_send_def Let_def split: prod.splits if_splits)
  from send_tracked[OF j t1 h[unfolded this]] t show ?thesis by simp
qed

lemma post_chat:
  assumes "post E n look wk (h, w, cs) = Some ((h1, w1, cs1), acks)" and "hd_running h"
  shows "run_loop E n [Woke wk] ((hd_chat h)\<lparr>c_world := w\<rparr>) = Some (hd_chat h1, acks)" and "w1 = c_world (hd_chat h1)"
  using assms by (auto simp: post_def heard_by_def simp del: run_loop.simps split: option.splits prod.splits)

lemma shut_chat:
  assumes "shut E n look (h, w, cs) = Some (h1, w1, cs1)"
  shows "hd_chat h1 = hd_chat h \<or> (\<exists>acks. run_loop E n [Woke Stop] ((hd_chat h)\<lparr>c_world := w\<rparr>) = Some (hd_chat h1, acks))"
proof (cases "lv_stopping (hd_live h)")
  case True
  with assms show ?thesis by (simp add: shut_def)
next
  case False
  let ?h = "h\<lparr>hd_live := (hd_live h)\<lparr>lv_stopping := True\<rparr>\<rparr>"
  obtain w2 cs2 acks where p: "post E n look Stop (?h, w, cs) = Some ((h1, w2, cs2), acks)"
    using assms False by (auto simp: shut_def)
  show ?thesis
  proof (cases "hd_running h")
    case True
    with post_chat(1)[OF p] show ?thesis by auto
  next
    case False
    with p show ?thesis by (auto simp: post_def)
  qed
qed

text \<open>
  C7: a message the daemon accepted outlives a stop. Once a send through the registry succeeded, then
  however other sessions go on and the session is put down, its conductor leaves the message in the
  journal, to be sent when the session is opened again, or in the log as taken by a provider.
\<close>

theorem sent_message_outlives_stop:
  assumes "reg_get sid g = Some (h, w, cs)" and "jinv ((hd_chat h)\<lparr>c_world := w\<rparr>)" and "\<not> c_terminal (hd_chat h)"
    and "reg_send E n look sid tx g = Some (g1, Inr ())" and "reg_get sid g1 = Some (h1, w1, cs1)"
    and "ids_later w1 w'" and "shut E n look' (h1, w', cs') = Some (h2, w2, cs2)"
  shows "\<exists>i. \<lparr>pm_id = i, pm_text = tx\<rparr> \<in> set (meta_pending (c_meta (hd_chat h2))) \<or> opened i tx (log_of (hd_chat h2))"
proof -
  let ?h = "h\<lparr>hd_chat := (hd_chat h)\<lparr>c_state := flip_busy (c_state (hd_chat h))\<rparr>\<rparr>"
  let ?why = "''session '' @ quoted (lv_session (hd_live h)) @ '' stopped before accepting the message''"
  obtain d where s: "send_durable E n look tx (h, w, cs) = Some (d, Inr ())" and g1: "g1 = put_back sid d g"
    using assms(1,4) by (auto simp: reg_send_def on_session_def)
  have run: "hd_running h" using s by (auto simp: send_durable_def Let_def split: if_splits)
  obtain acks where p: "post E n look (SendDurable tx 0) (?h, w, cs) = Some (d, acks)" and ack: "answer_or 0 ?why acks = Inr ()"
    using s run by (auto simp: send_durable_def Let_def)
  have d: "fst d = h1" "w1 = fst (snd d)" using assms(5) g1 by (auto simp: reg_get_Some put_back_def split: prod.splits)
  obtain cs2' where d': "d = (h1, w1, cs2')" using d by (cases d) auto
  note r = post_chat[OF p[unfolded d']]
  have ja: "map_of acks 0 = Some (Inr ())" using ack by (auto simp: answer_or_def split: option.splits)
  have jw: "jinv ((hd_chat ?h)\<lparr>c_world := w\<rparr>)" using assms(2) by (simp add: jinv_def journal_def retry_id_def)
  obtain i where i: "jinv (hd_chat h1)" "tracked i tx (hd_chat h1)"
    using run_loop_send[OF r(1) ja] jw run assms(3) by auto
  have "keeps i tx (hd_chat h1) ((hd_chat h1)\<lparr>c_world := w'\<rparr>)" by (rule keeps_world) (use assms(6) r(2) run in simp)
  then have i': "jinv ((hd_chat h1)\<lparr>c_world := w'\<rparr>)" "tracked i tx ((hd_chat h1)\<lparr>c_world := w'\<rparr>)" using i by (simp_all add: keeps_def)
  have "tracked i tx (hd_chat h2)"
    using shut_chat[OF assms(7)]
  proof (elim disjE exE)
    fix acks assume "run_loop E n [Woke Stop] ((hd_chat h1)\<lparr>c_world := w'\<rparr>) = Some (hd_chat h2, acks)"
    from run_loop_tracked[OF this i'] show ?thesis by simp
  qed (use i(2) in simp)
  then show ?thesis by (auto simp: tracked_def journal_def)
qed

end
