(* ===== verification/Registry_Instances.thy ===== *)
theory Registry_Instances
  imports Registry
begin

text \<open>The small session of \<open>Chat_Instances\<close> in a registry, on which its properties are instantiated.\<close>

definition tape_held :: "(string \<times> string list) held" where
  "tape_held = \<lparr>hd_live = (live_new ''s'')\<lparr>lv_alone_since := Some 0\<rparr>, hd_chat = tape_chat, hd_running = True\<rparr>"

definition tape_registry :: "(string \<times> string list) registry" where
  "tape_registry = \<lparr>rg_sessions = [(''s'', tape_held)], rg_closing = False, rg_conns = (\<lambda>i. conn_new i True), rg_world = tape_world\<rparr>"

definition tape_look :: "event \<Rightarrow> snapshot" where
  "tape_look e = some_snapshot"

lemma tape_chat_simps [simp]:
  "tape_chat\<lparr>c_world := tape_world\<rparr> = tape_chat" "\<not> c_terminal tape_chat" "c_compaction_deadline tape_chat = None"
  "in_stage Compacting (c_recovery tape_chat) = False" "sn_status (c_state tape_chat) = IDLE" "sn_in_turn (c_state tape_chat) = False"
  by (simp_all add: tape_chat_def opened_chat_def in_stage_def)

lemma tape_idle [simp]: "flip_busy (c_state tape_chat) = c_state tape_chat" "c_state_update (\<lambda>_. c_state tape_chat) tape_chat = tape_chat"
  by (simp_all add: flip_busy_def IDLE_def WAITING_def BUSY_def)

lemma post_total:
  assumes "confined {''d''} tape_env ((hd_chat h)\<lparr>c_world := w\<rparr>)" and "signal_in {''d''} (Woke wk)"
  shows "\<exists>d acks. post tape_env 3 look wk (h, w, cs) = Some (d, acks)"
proof -
  obtain t acks where "run_loop tape_env 3 [Woke wk] ((hd_chat h)\<lparr>c_world := w\<rparr>) = Some (t, acks)"
    using run_loop_result[OF named_tape _ assms(1), of "[Woke wk]" 3] assms(2) by auto
  then have "post tape_env 3 look wk (h, w, cs) \<noteq> None" by (cases "hd_running h") (simp_all add: post_def del: run_loop.simps)
  then show ?thesis by auto
qed

lemma shut_total:
  assumes "confined {''d''} tape_env ((hd_chat h)\<lparr>c_world := w\<rparr>)"
  shows "\<exists>d. shut tape_env 3 look (h, w, cs) = Some d"
proof -
  let ?h = "h\<lparr>hd_live := (hd_live h)\<lparr>lv_stopping := True\<rparr>\<rparr>"
  obtain d acks where "post tape_env 3 look Stop (?h, w, cs) = Some (d, acks)"
    using post_total[where h = ?h and w = w and wk = Stop and look = look and cs = cs] assms by auto
  then show ?thesis by (cases d) (simp add: shut_def)
qed

lemma tape_shut: "\<exists>d. shut tape_env 3 look (tape_held, tape_world, cs) = Some d"
  by (rule shut_total) (simp add: tape_held_def confined_tape)

lemma tape_get: "reg_get ''s'' tape_registry = Some (tape_held, tape_world, \<lambda>i. conn_new i True)"
  by (simp add: reg_get_def tape_registry_def bt_get_def)

theorem reap_exact_witness:
  "\<exists>g1. reap tape_env 3 tape_look 1000 900 tape_registry = Some (g1, 1) \<and> rg_sessions g1 = []"
proof -
  have spent: "spent 1000 900 tape_held"
    by (simp add: spent_def cold_def snapshot_of_held_def tape_held_def IDLE_def BUSY_def live_new_def)
  obtain d where d: "shut tape_env 3 tape_look (tape_held, tape_world, \<lambda>i. conn_new i True) = Some d" using tape_shut by blast
  have "reap tape_env 3 tape_look 1000 900 tape_registry = Some (leave_out ''s'' d tape_registry, 1)"
    using spent d tape_get by (simp add: reap_def tape_registry_def stop_locked_if_def)
  moreover have "bt_wf (rg_sessions tape_registry)" by (simp add: tape_registry_def bt_wf_def)
  ultimately show ?thesis
    using reap_exact[of tape_registry tape_env 3 tape_look 1000 900] spent by (auto simp: tape_registry_def)
qed

definition warm_call :: "(string \<times> string list) open_call" where
  "warm_call = \<lparr>op_session = ''s'', op_discover = (\<lambda>g. (g\<lparr>rg_closing := True\<rparr>, [''d''])), op_settings = [], op_cwd = None, op_conn = 4, op_from = 0,
     op_pauses = (\<lambda>_. []), op_instant = 5, op_look = tape_look\<rparr>"

theorem open_all_or_nothing_witness:
  "\<exists>g1 r. open_locked tape_env 3 warm_call tape_registry = Some (g1, r)
     \<and> (case r of Inl _ \<Rightarrow> True
        | Inr _ \<Rightarrow> \<exists>h. bt_get (rg_sessions g1) ''s'' = Some h \<and> length (filter (\<lambda>l. ls_conn l = 4) (lv_listeners (hd_live h))) = 1)"
proof -
  obtain d acks where "post tape_env 3 tape_look (Configure [] 0) (tape_held, tape_world, \<lambda>i. conn_new i True) = Some (d, acks)"
    using post_total[where h = tape_held and w = tape_world and wk = "Configure [] 0" and look = tape_look and cs = "\<lambda>i. conn_new i True"]
      confined_tape by (auto simp: tape_held_def)
  then have "configure tape_env 3 tape_look [] (tape_held, tape_world, \<lambda>i. conn_new i True) \<noteq> None"
    by (simp add: configure_def Let_def tape_held_def)
  then obtain d1 r1 where c: "configure tape_env 3 tape_look [] (tape_held, tape_world, \<lambda>i. conn_new i True) = Some (d1, r1)" by auto
  have "\<exists>g1 r. open_warm tape_env 3 warm_call (tape_held, tape_world, \<lambda>i. conn_new i True) tape_registry = Some (g1, r)"
    using c by (cases r1) (auto simp: open_warm_def warm_call_def split: prod.splits)
  then obtain g1 r where o: "open_locked tape_env 3 warm_call tape_registry = Some (g1, r)"
    using tape_get by (auto simp: open_locked_def tape_registry_def warm_call_def snapshot_of_held_def tape_held_def IDLE_def STOPPED_def)
  moreover have "\<And>g. bt_get (rg_sessions (fst (op_discover warm_call g))) (op_session warm_call) = bt_get (rg_sessions g) (op_session warm_call)"
    by (simp add: warm_call_def)
  ultimately show ?thesis using open_all_or_nothing[OF o] by (cases r) (auto simp: warm_call_def)
qed

theorem shutdown_final_witness:
  "\<exists>g1 g2. reg_shutdown tape_env 3 tape_look tape_registry = Some g1
     \<and> reg_steps tape_env 3 [Op_Open warm_call, Op_Forget 4 9, Op_Stop tape_look ''s''] g1 = Some g2 \<and> rg_sessions g2 = []"
proof -
  obtain d where "shut tape_env 3 tape_look (tape_held, tape_world, \<lambda>i. conn_new i True) = Some d" using tape_shut by blast
  then obtain g1 where 1: "reg_shutdown tape_env 3 tape_look tape_registry = Some g1" and c: "rg_closing g1" "rg_sessions g1 = []"
    by (cases d) (auto simp: reg_shutdown_def tape_registry_def)
  obtain g2 where 2: "reg_steps tape_env 3 [Op_Open warm_call, Op_Forget 4 9, Op_Stop tape_look ''s''] g1 = Some g2"
    using c by (auto simp: open_locked_def reg_forget_def reg_stop_def stop_locked_if_def reg_get_def)
  have 3: "rg_closing (fst (op_discover warm_call tape_registry))" by (simp add: warm_call_def)
  have "open_cold tape_env 3 warm_call tape_registry = Some (tape_registry\<lparr>rg_closing := True\<rparr>, Inl shutting_down)"
    by (simp add: open_cold_def warm_call_def tape_registry_def conn_new_def)
  from shutdown_final[OF 1 2 3 this] 1 2 show ?thesis by blast
qed

theorem sent_message_outlives_stop_witness:
  "\<exists>g1 h1 w1 cs1 h2 w2 cs2 i. reg_send tape_env 3 tape_look ''s'' ''hi'' tape_registry = Some (g1, Inr ())
     \<and> reg_get ''s'' g1 = Some (h1, w1, cs1) \<and> shut tape_env 3 tape_look (h1, w1, cs1) = Some (h2, w2, cs2)
     \<and> (\<lparr>pm_id = i, pm_text = ''hi''\<rparr> \<in> set (meta_pending (c_meta (hd_chat h2))) \<or> opened i ''hi'' (log_of (hd_chat h2)))"
proof -
  obtain s1 where s1: "handle_send tape_env (flush tape_env 3) ''hi'' 0 tape_chat = Some (s1, [(0, Inr ())])"
    and c: "confined {''d''} tape_env s1" using tape_accepts by (elim exE conjE)
  have rl: "run_loop tape_env 3 [Woke (SendDurable ''hi'' 0)] tape_chat = Some (s1, [(0, Inr ())])"
    using s1 by (simp add: overdue_def expire_def handle_def reject_waiters_def)
  obtain h1 w1 cs1 where p: "post tape_env 3 tape_look (SendDurable ''hi'' 0) (tape_held, tape_world, \<lambda>i. conn_new i True) = Some ((h1, w1, cs1), [(0, Inr ())])"
    and h1: "hd_chat h1 = s1" "w1 = c_world s1"
    using rl by (cases "heard_by (en_codec tape_env) tape_look (length (c_published tape_chat)) s1 (\<not> c_terminal s1) tape_held (\<lambda>i. conn_new i True)")
      (auto simp: post_def tape_held_def heard_by_def simp del: run_loop.simps split: prod.splits)
  have "tape_held\<lparr>hd_chat := (hd_chat tape_held)\<lparr>c_state := flip_busy (c_state (hd_chat tape_held))\<rparr>\<rparr> = tape_held" "hd_running tape_held"
    by (simp_all add: tape_held_def)
  then have "send_durable tape_env 3 tape_look ''hi'' (tape_held, tape_world, \<lambda>i. conn_new i True) = Some ((h1, w1, cs1), Inr ())"
    using p by (simp add: send_durable_def Let_def answer_or_def)
  then have g1: "reg_send tape_env 3 tape_look ''s'' ''hi'' tape_registry = Some (put_back ''s'' (h1, w1, cs1) tape_registry, Inr ())"
    using tape_get by (simp add: reg_send_def on_session_def)
  have get1: "reg_get ''s'' (put_back ''s'' (h1, w1, cs1) tape_registry) = Some (h1, w1, cs1)"
    by (simp add: reg_get_def put_back_def)
  obtain h2 w2 cs2 where sh: "shut tape_env 3 tape_look (h1, w1, cs1) = Some (h2, w2, cs2)"
    using shut_total[where h = h1 and w = w1 and look = tape_look and cs = cs1] c h1 by auto
  have "jinv ((hd_chat tape_held)\<lparr>c_world := tape_world\<rparr>)" "\<not> c_terminal (hd_chat tape_held)" using jinv_tape by (simp_all add: tape_held_def)
  moreover have "ids_later w1 w1" by (simp add: ids_later_def)
  ultimately obtain i where "\<lparr>pm_id = i, pm_text = ''hi''\<rparr> \<in> set (meta_pending (c_meta (hd_chat h2))) \<or> opened i ''hi'' (log_of (hd_chat h2))"
    using sent_message_outlives_stop[OF tape_get _ _ g1 get1 _ sh] by blast
  with g1 get1 sh show ?thesis by (intro exI conjI)
qed

end
