(* ===== verification/Daemon_Serve.thy ===== *)
theory Daemon_Serve
  imports Registry_Instances
begin

text \<open>
  \<open>serve.rs\<close>: answering one request. Each operation is a function over the daemon's state. What the
  accounts of the providers answer beyond their login, and the operations that drive the test
  provider, are fields of \<open>desk\<close>; the theories \<open>Accounts\<close> and \<open>Test_Double\<close> model them. The words a JSON reader has for a
  malformed setting are left out of the errors.
\<close>

definition MAX_SESSION_ID_BYTES :: nat where
  "MAX_SESSION_ID_BYTES = 128"

definition backslash :: char where
  "backslash = CHR 0x5C"

definition validate_session_id :: "string \<Rightarrow> unit res" where
  "validate_session_id sid =
     (if sid = [] then Inl ''invalid session id: it cannot be empty''
      else if MAX_SESSION_ID_BYTES < length sid
        then Inl (''invalid session id: it cannot exceed '' @ show_nat MAX_SESSION_ID_BYTES @ '' bytes'')
      else if CHR ''/'' \<in> set sid \<or> backslash \<in> set sid
        then Inl ''invalid session id: paths and separators are not allowed''
      else if hd sid = CHR ''.'' \<or> last sid = CHR ''.'' \<or> sublist ''..'' sid
        then Inl ''invalid session id: dot traversal is not allowed''
      else if \<not> list_all (\<lambda>c. ascii_alnum c \<or> c \<in> {CHR ''-'', CHR ''_'', CHR ''.''}) sid
        then Inl ''invalid session id: use only ASCII letters, numbers, dots, hyphens, and underscores''
      else Inr ())"

section \<open>Settings\<close>

definition strings_arg :: "json \<Rightarrow> string list res" where
  "strings_arg v = (case read_strings v of Some ss \<Rightarrow> Inr ss | None \<Rightarrow> Inl ''that takes a list of names'')"

definition text_arg :: "codec \<Rightarrow> json \<Rightarrow> string res" where
  "text_arg J v = (case v of JString t \<Rightarrow> Inr t | other \<Rightarrow> Inl (''that takes text, not '' @ to_text J other))"

definition flag_arg :: "json \<Rightarrow> bool res" where
  "flag_arg v = (case as_bool v of Some b \<Rightarrow> Inr b | None \<Rightarrow> Inl ''that takes true or false'')"

definition and_then :: "'a res \<Rightarrow> ('a \<Rightarrow> 'b res) \<Rightarrow> 'b res" where
  "and_then r f = (case r of Inl e \<Rightarrow> Inl e | Inr x \<Rightarrow> f x)"

definition model_arg :: "json \<Rightarrow> ask res" where
  "model_arg v =
     (case as_i64 v of
        Some n \<Rightarrow> Inr (ask_intelligence n)
      | None \<Rightarrow> (case ask_of_value v of Some a \<Rightarrow> Inr a | None \<Rightarrow> Inl ''model takes a number, a key, or a model''))"

definition recovery_arg :: "json \<Rightarrow> context_recovery res" where
  "recovery_arg v =
     (case (if as_object v = None then None else context_recovery_of v) of
        Some c \<Rightarrow> Inr c
      | None \<Rightarrow> Inl ''context_recovery takes an object of recovery texts'')"

definition change_from :: "codec \<Rightarrow> string \<Rightarrow> json \<Rightarrow> change res" where
  "change_from J what v =
     (if what = ''providers'' then and_then (strings_arg v) (\<lambda>x. Inr (Ch_Providers x))
      else if what = ''model'' \<or> what = ''intelligence'' then and_then (model_arg v) (\<lambda>x. Inr (Ch_Model x))
      else if what = ''system_prompt'' then and_then (text_arg J v) (\<lambda>x. Inr (Ch_SystemPrompt x))
      else if what = ''append_system_prompt'' then and_then (text_arg J v) (\<lambda>x. Inr (Ch_AppendSystemPrompt x))
      else if what = ''context_recovery'' then and_then (recovery_arg v) (\<lambda>x. Inr (Ch_ContextRecovery x))
      else if what = ''subagents'' then and_then (flag_arg v) (\<lambda>x. Inr (Ch_Subagents x))
      else if what = ''mcp'' then and_then (flag_arg v) (\<lambda>x. Inr (Ch_Mcp x))
      else if what = ''autoremove'' then and_then (flag_arg v) (\<lambda>x. Inr (Ch_Autoremove x))
      else if what = ''cwd'' then and_then (text_arg J v) (\<lambda>x. Inr (Ch_Cwd x))
      else Inl (''nothing called '' @ quoted what @ '' can be set''))"

definition setting_of :: "codec \<Rightarrow> json \<Rightarrow> change res" where
  "setting_of J item =
     (case Option.bind (jget item ''what'') as_str of
        None \<Rightarrow> Inl ''a setting needs a `what`''
      | Some what \<Rightarrow> change_from J what (jindex item ''value''))"

fun settings_of :: "codec \<Rightarrow> json list \<Rightarrow> change list res" where
  "settings_of J [] = Inr []"
| "settings_of J (v # vs) = and_then (setting_of J v) (\<lambda>c. and_then (settings_of J vs) (\<lambda>cs. Inr (c # cs)))"

definition settings :: "codec \<Rightarrow> json \<Rightarrow> change list res" where
  "settings J v = (case as_array v of None \<Rightarrow> Inr [] | Some items \<Rightarrow> settings_of J items)"

section \<open>The daemon\<close>

record 'r daemon =
  dm_registry :: "'r registry"
  dm_started :: string
  dm_stopping :: bool

text \<open>
  What one call finds around it: the fuel of the conductors, the accounts, the time, what the
  daemon says of itself, and what goes on in the registry while providers are looked up.
\<close>

record 'r desk_call =
  dc_fuel :: nat
  dc_accounts :: accounts
  dc_look :: "event \<Rightarrow> snapshot"
  dc_pauses :: "int \<Rightarrow> meanwhile list list"
  dc_instant :: int
  dc_version :: string
  dc_pid :: int
  dc_meanwhile :: "'r registry \<Rightarrow> 'r registry"
  dc_limits :: "string \<Rightarrow> json"
  dc_start_auth :: "string \<Rightarrow> json"
  dc_finish_auth :: "string \<Rightarrow> string \<Rightarrow> json"
  dc_test :: "request \<Rightarrow> json res"

type_synonym 'r served = "('r daemon \<times> json res) option"

definition with_world :: "world \<Rightarrow> 'r daemon \<Rightarrow> 'r daemon" where
  "with_world w d = d\<lparr>dm_registry := (dm_registry d)\<lparr>rg_world := w\<rparr>\<rparr>"

definition named :: "request \<Rightarrow> string res" where
  "named q = (case rq_session q of
                Some sid \<Rightarrow> if sid \<noteq> [] then Inr sid else Inl (rq_op q @ '' needs a session'')
              | None \<Rightarrow> Inl (rq_op q @ '' needs a session''))"

text \<open>The rest of an operation, when what it needs is there.\<close>

definition given :: "'a res \<Rightarrow> 'r daemon \<Rightarrow> ('a \<Rightarrow> 'r served) \<Rightarrow> 'r served" where
  "given r d f = (case r of Inl why \<Rightarrow> Some (d, Inl why) | Inr x \<Rightarrow> f x)"

definition asked_providers :: "request \<Rightarrow> string list option" where
  "asked_providers q = (case rq_providers q of Some ps \<Rightarrow> if ps \<noteq> [] then Some ps else None | None \<Rightarrow> None)"

definition discover :: "'r desk_call \<Rightarrow> string list option \<Rightarrow> 'r registry \<Rightarrow> 'r registry \<times> string list" where
  "discover c asked g =
     (case asked of
        Some ps \<Rightarrow> (g, ps)
      | None \<Rightarrow>
          let g1 = dc_meanwhile c g; (w, ps) = available_providers (dc_accounts c) None (rg_world g1)
          in (g1\<lparr>rg_world := w\<rparr>, ps))"

definition listen_to :: "string \<Rightarrow> connection \<Rightarrow> connection" where
  "listen_to sid c = (if sid \<in> set (cn_listening c) then c else c\<lparr>cn_listening := cn_listening c @ [sid]\<rparr>)"

definition opened_reply :: "string \<Rightarrow> nat \<Rightarrow> 'r registry \<Rightarrow> json" where
  "opened_reply sid replayed g =
     (case bt_get (rg_sessions g) sid of
        None \<Rightarrow> JNull
      | Some h \<Rightarrow> JObject [(''listeners'', JInt (int (listeners (hd_live h)))), (''replayed'', JInt (int replayed)),
          (''session'', JString sid), (''snapshot'', snapshot_value (snapshot_of_held h))])"

definition serve_open :: "'r env \<Rightarrow> 'r desk_call \<Rightarrow> request \<Rightarrow> nat \<Rightarrow> 'r daemon \<Rightarrow> 'r served" where
  "serve_open E c q conn d =
     given (named q) d (\<lambda>sid.
     given (settings (en_codec E) (rq_value q)) d (\<lambda>changes.
       let asked = asked_providers q;
           all_changes = (case asked of Some ps \<Rightarrow> Ch_Providers ps # changes | None \<Rightarrow> changes);
           call = \<lparr>op_session = sid, op_discover = discover c asked, op_settings = all_changes, op_cwd = rq_cwd q, op_conn = conn,
                   op_from = (case rq_from q of Some n \<Rightarrow> n | None \<Rightarrow> 0), op_pauses = dc_pauses c, op_instant = dc_instant c, op_look = dc_look c\<rparr>
       in case open_locked E (dc_fuel c) call (dm_registry d) of
            None \<Rightarrow> None
          | Some (g, Inl why) \<Rightarrow> Some (d\<lparr>dm_registry := g\<rparr>, Inl why)
          | Some (g, Inr replayed) \<Rightarrow>
              let g1 = g\<lparr>rg_conns := (rg_conns g)(conn := listen_to sid (rg_conns g conn))\<rparr>
              in Some (d\<lparr>dm_registry := g1\<rparr>, Inr (opened_reply sid replayed g1))))"

definition accepted :: "'r daemon \<Rightarrow> ('r registry \<times> unit res) option \<Rightarrow> 'r served" where
  "accepted d r =
     map_option (\<lambda>(g, r). (d\<lparr>dm_registry := g\<rparr>, case r of Inl why \<Rightarrow> Inl why | Inr _ \<Rightarrow> Inr (JObject [(''accepted'', JBool True)]))) r"

definition serve_send :: "'r env \<Rightarrow> 'r desk_call \<Rightarrow> request \<Rightarrow> 'r daemon \<Rightarrow> 'r served" where
  "serve_send E c q d =
     given (named q) d (\<lambda>sid.
       case rq_text q of
         None \<Rightarrow> Some (d, Inl ''send needs text'')
       | Some t \<Rightarrow> accepted d (reg_send E (dc_fuel c) (dc_look c) sid t (dm_registry d)))"

definition serve_set :: "'r env \<Rightarrow> 'r desk_call \<Rightarrow> request \<Rightarrow> 'r daemon \<Rightarrow> 'r served" where
  "serve_set E c q d =
     given (named q) d (\<lambda>sid.
       case rq_what q of
         None \<Rightarrow> Some (d, Inl ''set needs a `what`'')
       | Some what \<Rightarrow>
           given (change_from (en_codec E) what (rq_value q)) d (\<lambda>ch.
             accepted d (reg_set E (dc_fuel c) (dc_look c) sid ch (dm_registry d))))"

definition serve_stop :: "'r env \<Rightarrow> 'r desk_call \<Rightarrow> request \<Rightarrow> 'r daemon \<Rightarrow> 'r served" where
  "serve_stop E c q d =
     given (named q) d (\<lambda>sid.
       map_option (\<lambda>(g, stopped). (d\<lparr>dm_registry := g\<rparr>, Inr (JObject [(''stopped'', JBool stopped)])))
         (reg_stop E (dc_fuel c) (dc_look c) sid (dm_registry d)))"

definition serve_detach :: "'r desk_call \<Rightarrow> request \<Rightarrow> nat \<Rightarrow> 'r daemon \<Rightarrow> 'r served" where
  "serve_detach c q conn d =
     given (named q) d (\<lambda>sid.
       let g = dm_registry d;
           g1 = (case bt_get (rg_sessions g) sid of
                   None \<Rightarrow> g
                 | Some h \<Rightarrow> g\<lparr>rg_sessions := bt_insert sid (h\<lparr>hd_live := detach conn (dc_instant c) (hd_live h)\<rparr>) (rg_sessions g)\<rparr>);
           k = rg_conns g1 conn
       in Some (d\<lparr>dm_registry := g1\<lparr>rg_conns := (rg_conns g1)(conn := k\<lparr>cn_listening := filter (\<lambda>x. x \<noteq> sid) (cn_listening k)\<rparr>)\<rparr>\<rparr>,
                Inr (JObject [(''detached'', JString sid)])))"

definition serve_status :: "request \<Rightarrow> 'r daemon \<Rightarrow> 'r served" where
  "serve_status q d =
     given (named q) d (\<lambda>sid.
       case bt_get (rg_sessions (dm_registry d)) sid of
         None \<Rightarrow> Some (d, Inl (missing sid))
       | Some h \<Rightarrow> Some (d, Inr (JObject [(''listeners'', JInt (int (listeners (hd_live h)))), (''snapshot'', snapshot_value (snapshot_of_held h))])))"

definition serve_events :: "'r env \<Rightarrow> request \<Rightarrow> 'r daemon \<Rightarrow> 'r served" where
  "serve_events E q d =
     given (named q) d (\<lambda>sid.
       let (w, st) = store_open (en_codec E) (en_home E) sid (rg_world (dm_registry d));
           since = (case rq_from q of Some n \<Rightarrow> n | None \<Rightarrow> 0)
       in Some (with_world w d,
            case st_load_error st of
              Some e \<Rightarrow> Inl (''session '' @ quoted sid @ '' has a corrupt event log: '' @ load_error_text sid e)
            | None \<Rightarrow> Inr (JObject [(''events'', JArray (map to_value (store_events since st)))])))"

definition serve_sessions :: "'r daemon \<Rightarrow> json" where
  "serve_sessions d =
     JObject [(''sessions'', JArray (map (\<lambda>(sn, n). JObject [(''listeners'', JInt (int n)), (''snapshot'', snapshot_value sn)])
       (snapshots (dm_registry d))))]"

text \<open>
  Every rung of the dial, resolved one value at a time. A dial has rungs, so an empty table comes with
  a first error; the words for a missing one are never used.
\<close>

fun dial_table :: "codec \<Rightarrow> string \<Rightarrow> string list \<Rightarrow> int list \<Rightarrow> world \<Rightarrow> world \<times> jmap \<times> string option" where
  "dial_table J home ps [] w = (w, [], None)"
| "dial_table J home ps (v # vs) w =
     (case resolve J home (ask_intelligence v) ps w of
        (w1, r) \<Rightarrow>
          (case dial_table J home ps vs w1 of
             (w2, table, err) \<Rightarrow>
               (case r of
                  Inr p \<Rightarrow> (w2, bt_insert (show_int v) (pick_value p) table, err)
                | Inl why \<Rightarrow> (w2, table, Some why))))"

definition serve_dial :: "'r env \<Rightarrow> 'r desk_call \<Rightarrow> request \<Rightarrow> 'r daemon \<Rightarrow> 'r served" where
  "serve_dial E c q d =
     (let w0 = rg_world (dm_registry d);
          (w1, ps) = (case asked_providers q of Some ps \<Rightarrow> (w0, ps) | None \<Rightarrow> available_providers (dc_accounts c) None w0);
          (w2, table, err) = dial_table (en_codec E) (en_home E) ps (map int [0..<nat INTELLIGENCE_VALUES]) w1
      in Some (with_world w2 d,
           if table = [] then Inl (case err of Some why \<Rightarrow> why | None \<Rightarrow> ''no dial'') else Inr (JObject table)))"

definition serve_account :: "'r desk_call \<Rightarrow> request \<Rightarrow> 'r daemon \<Rightarrow> 'r served" where
  "serve_account c q d =
     (case rq_provider q of
        None \<Rightarrow> Some (d, Inl ''account needs a provider'')
      | Some name \<Rightarrow>
          if \<not> known_account (dc_accounts c) name then Some (d, Inl (''no provider '' @ quoted name))
          else
            let what = (case rq_what q of Some x \<Rightarrow> x | None \<Rightarrow> ''auth_status'');
                w = rg_world (dm_registry d)
            in if what = ''auth_status'' then
                 (case auth_status (dc_accounts c) name w of (w1, st) \<Rightarrow> Some (with_world w1 d, Inr (JString st)))
               else if what = ''installed'' then Some (d, Inr (JBool (ac_installed (dc_accounts c) name)))
               else if what = ''limits'' then
                 (case auth_status (dc_accounts c) name w of
                    (w1, st) \<Rightarrow> Some (with_world w1 d, Inr (if st = AUTHENTICATED then dc_limits c name else JString ''unauthenticated'')))
               else if what = ''start_auth'' then Some (d, Inr (dc_start_auth c name))
               else if what = ''finish_auth'' then
                 Some (d, Inr (dc_finish_auth c name (case rq_text q of Some t \<Rightarrow> t | None \<Rightarrow> [])))
               else if what = ''forget'' then Some (with_world (forget name w) d, Inr (JBool True))
               else Some (d, Inl (''nothing called '' @ quoted what @ '' to ask an account'')))"

definition ping_reply :: "'r env \<Rightarrow> 'r desk_call \<Rightarrow> 'r daemon \<Rightarrow> json" where
  "ping_reply E c d =
     JObject [(''home'', JString (en_home E)), (''pid'', JInt (dc_pid c)), (''protocol'', JInt (int PROTOCOL)),
       (''started'', JString (dm_started d)), (''version'', JString (dc_version c))]"

definition dispatch_op :: "'r env \<Rightarrow> 'r desk_call \<Rightarrow> request \<Rightarrow> nat \<Rightarrow> 'r daemon \<Rightarrow> 'r served" where
  "dispatch_op E c q conn d =
     (let op = rq_op q in
      if op = ''ping'' then Some (d, Inr (ping_reply E c d))
      else if op = ''open'' then serve_open E c q conn d
      else if op = ''send'' then serve_send E c q d
      else if op = ''set'' then serve_set E c q d
      else if op = ''stop'' then serve_stop E c q d
      else if op = ''detach'' then serve_detach c q conn d
      else if op = ''status'' then serve_status q d
      else if op = ''events'' then serve_events E q d
      else if op = ''sessions'' then Some (d, Inr (serve_sessions d))
      else if op = ''providers'' then
        (case available_providers (dc_accounts c) (rq_providers q) (rg_world (dm_registry d)) of
           (w, ps) \<Rightarrow> Some (with_world w d, Inr (json_strings ps)))
      else if op = ''dial'' then serve_dial E c q d
      else if op = ''account'' then serve_account c q d
      else if op = ''test'' then Some (d, dc_test c q)
      else if op = ''shutdown'' then Some (d\<lparr>dm_stopping := True\<rparr>, Inr (JObject [(''stopping'', JBool True)]))
      else Some (d, Inl (''unknown op '' @ quoted op @ ''; omni speaks: '' @ join '', '' OPS)))"

definition serve_dispatch :: "'r env \<Rightarrow> 'r desk_call \<Rightarrow> request \<Rightarrow> nat \<Rightarrow> 'r daemon \<Rightarrow> 'r served" where
  "serve_dispatch E c q conn d =
     given (case rq_session q of None \<Rightarrow> Inr () | Some sid \<Rightarrow> validate_session_id sid) d (\<lambda>_.
       if dm_stopping d \<and> rq_op q \<noteq> ''shutdown'' then Some (d, Inl shutting_down)
       else dispatch_op E c q conn d)"

definition daemon_answer :: "'r env \<Rightarrow> 'r desk_call \<Rightarrow> request \<Rightarrow> nat \<Rightarrow> 'r daemon \<Rightarrow> ('r daemon \<times> reply) option" where
  "daemon_answer E c q conn d =
     map_option (\<lambda>(d1, r). (d1, case r of Inr v \<Rightarrow> reply_ok (rq_id q) v | Inl why \<Rightarrow> reply_failed (rq_id q) why))
       (serve_dispatch E c q conn d)"

section \<open>Which sessions and files a request reaches\<close>

definition open_ids :: "'r registry \<Rightarrow> string set" where
  "open_ids g = set (map fst (rg_sessions g))"

lemma open_ids_put [simp]: "open_ids (put_back sid d g) = insert sid (open_ids g)"
  by (simp add: open_ids_def put_back_def fst_bt_insert split: prod.split del: set_map)

lemma open_ids_leave: "open_ids (leave_out sid d g) \<subseteq> open_ids g"
  by (auto simp: open_ids_def bt_remove_def)

lemma open_ids_same: "rg_sessions g1 = rg_sessions g \<Longrightarrow> open_ids g1 = open_ids g"
  by (simp add: open_ids_def)

lemma open_ids_got: "reg_get sid g = Some d \<Longrightarrow> sid \<in> open_ids g"
  by (auto simp: reg_get_def bt_get_def open_ids_def map_of_eq_None_iff split: option.splits dest: map_of_SomeD intro: rev_image_eqI)

lemma on_session_ids: "on_session sid f g = Some (g1, r) \<Longrightarrow> open_ids g1 = open_ids g"
  by (auto simp: on_session_def insert_absorb dest: open_ids_got split: option.splits)

lemma reg_stop_ids: "reg_stop E n look sid g = Some (g1, b) \<Longrightarrow> open_ids g1 \<subseteq> open_ids g"
  using open_ids_leave by (fastforce simp: reg_stop_def stop_locked_if_def split: option.splits)

lemma open_cold_ids:
  assumes "open_cold E n q g = Some (g1, r)"
  shows "open_ids g1 \<subseteq> insert (op_session q) (open_ids (fst (op_discover q g)))"
  using assms open_ids_leave
  by (fastforce simp: open_cold_def settle_open_def Let_def split: prod.splits if_splits option.splits sum.splits)

lemma open_locked_ids:
  assumes "open_locked E n q g = Some (g1, r)"
    and "\<And>g. P (open_ids g) \<Longrightarrow> P (open_ids (fst (op_discover q g)))" and "P (open_ids g)"
    and down: "\<And>A B. P B \<Longrightarrow> A \<subseteq> B \<Longrightarrow> P A" and "\<And>A. P A \<Longrightarrow> P (insert (op_session q) A)"
  shows "P (open_ids g1)"
proof -
  have cold: "P (open_ids g1)" if "open_cold E n q g2 = Some (g1, r)" "P (open_ids g2)" for g2
    using open_cold_ids[OF that(1)] assms(2)[OF that(2)] assms(5) down by blast
  have warm: "P (open_ids g1)" if "open_warm E n q d g = Some (g1, r)" for d
    using that assms(3,5) by (auto simp: open_warm_def split: option.splits sum.splits prod.splits)
  have left: "P (open_ids (leave_out (op_session q) d g))" for d using down[OF assms(3) open_ids_leave] .
  show ?thesis
    using assms(1,3) cold warm left by (auto simp: open_locked_def split: if_splits option.splits)
qed


definition valid_ids :: "string set \<Rightarrow> bool" where
  "valid_ids A \<longleftrightarrow> (\<forall>sid\<in>A. validate_session_id sid = Inr ())"

text \<open>A file of the sessions directory itself: one plain name, not hidden, short enough for a directory entry.\<close>

definition plain_entry :: "string \<Rightarrow> string \<Rightarrow> bool" where
  "plain_entry home path \<longleftrightarrow>
     (\<exists>name. path = sessions_dir home @ ''/'' @ name \<and> CHR ''/'' \<notin> set name \<and> name \<noteq> [] \<and> hd name \<noteq> CHR ''.'' \<and> length name \<le> 138)"

definition apart :: "string \<Rightarrow> string \<Rightarrow> string \<Rightarrow> bool" where
  "apart home a b \<longleftrightarrow> distinct [session_file home a, meta_file home a, session_file home b, meta_file home b]"

lemma valid_id_facts:
  assumes "validate_session_id sid = Inr ()"
  shows "sid \<noteq> []" "CHR ''/'' \<notin> set sid" "hd sid \<noteq> CHR ''.''" "length sid \<le> 128"
  using assms by (auto simp: validate_session_id_def MAX_SESSION_ID_BYTES_def split: if_splits)

lemma valid_id_path:
  assumes "validate_session_id sid = Inr ()"
  shows "path_join dir (sid @ e) = dir @ ''/'' @ sid @ e"
  using valid_id_facts[OF assms] hd_in_set[of sid] by (cases "hd sid = CHR ''/''") (simp_all add: path_join_def)

lemma valid_id_entries:
  assumes "validate_session_id sid = Inr ()"
  shows "plain_entry home (session_file home sid)" "plain_entry home (meta_file home sid)"
  using valid_id_facts[OF assms] by (auto simp: plain_entry_def session_file_def meta_file_def valid_id_path[OF assms])

lemma log_not_meta: "a @ ''.jsonl'' \<noteq> b @ ''.meta.json''"
proof
  assume "a @ ''.jsonl'' = b @ ''.meta.json''"
  then have "last (a @ ''.jsonl'') = last (b @ ''.meta.json'')" by simp
  then show False by simp
qed

lemma valid_ids_apart:
  assumes "validate_session_id a = Inr ()" and "validate_session_id b = Inr ()" and "a \<noteq> b"
  shows "apart home a b"
  using assms(3) by (auto simp: apart_def session_file_def meta_file_def valid_id_path[OF assms(1)] valid_id_path[OF assms(2)] log_not_meta log_not_meta[symmetric])

lemma given_Some: "given r d f = Some x \<longleftrightarrow> (\<exists>why. r = Inl why \<and> x = (d, Inl why)) \<or> (\<exists>y. r = Inr y \<and> f y = Some x)"
  by (auto simp: given_def split: sum.splits)

lemma with_world_ids [simp]: "open_ids (dm_registry (with_world w d)) = open_ids (dm_registry d)"
  by (simp add: with_world_def open_ids_def)

lemma accepted_ids: "accepted d (on_session sid f (dm_registry d)) = Some (d1, r) \<Longrightarrow> open_ids (dm_registry d1) = open_ids (dm_registry d)"
  by (auto simp: accepted_def dest: on_session_ids)

lemma named_Inr: "named q = Inr sid \<Longrightarrow> rq_session q = Some sid"
  by (auto simp: named_def split: option.splits if_splits)

lemma serve_open_ids:
  assumes "serve_open E c q conn d = Some (d1, r)" and "valid_ids (open_ids (dm_registry d))"
    and "\<And>g. valid_ids (open_ids g) \<Longrightarrow> valid_ids (open_ids (dc_meanwhile c g))"
    and "\<And>sid. rq_session q = Some sid \<Longrightarrow> validate_session_id sid = Inr ()"
  shows "valid_ids (open_ids (dm_registry d1))"
proof (cases "named q")
  case (Inr sid)
  have v: "validate_session_id sid = Inr ()" using named_Inr[OF Inr] assms(4) by simp
  have disc: "valid_ids (open_ids (fst (discover c ps g)))" if "valid_ids (open_ids g)" for ps g
    using that assms(3)[OF that] by (auto simp: discover_def Let_def open_ids_def split: option.splits prod.splits)
  have opened: "valid_ids (open_ids g1)"
    if "open_locked E n call (dm_registry d) = Some (g1, r1)" "op_session call = sid" "op_discover call = discover c ps" for n call g1 r1 ps
    by (rule open_locked_ids[where P = valid_ids, OF that(1) _ assms(2)]) (use disc v that in \<open>auto simp: valid_ids_def\<close>)
  have same: "open_ids (g\<lparr>rg_conns := cs\<rparr>) = open_ids g" for g :: "'a registry" and cs by (simp add: open_ids_def)
  show ?thesis
  proof (cases "settings (en_codec E) (rq_value q)")
    case Inl
    then show ?thesis using assms(1,2) Inr by (simp add: serve_open_def given_def)
  next
    case (Inr changes)
    let ?all = "case asked_providers q of Some ps \<Rightarrow> Ch_Providers ps # changes | None \<Rightarrow> changes"
    let ?call = "\<lparr>op_session = sid, op_discover = discover c (asked_providers q), op_settings = ?all, op_cwd = rq_cwd q, op_conn = conn,
      op_from = (case rq_from q of Some n \<Rightarrow> n | None \<Rightarrow> 0), op_pauses = dc_pauses c, op_instant = dc_instant c, op_look = dc_look c\<rparr>"
    obtain g r1 where o: "open_locked E (dc_fuel c) ?call (dm_registry d) = Some (g, r1)"
      using assms(1) Inr \<open>named q = Inr sid\<close> by (auto simp: serve_open_def given_def Let_def split: option.splits)
    then have "open_ids (dm_registry d1) = open_ids g"
      using assms(1) Inr \<open>named q = Inr sid\<close> by (cases r1) (auto simp: serve_open_def given_def Let_def same)
    with opened[OF o] show ?thesis by simp
  qed
qed (use assms in \<open>auto simp: serve_open_def given_Some\<close>)


lemma serve_detach_ids:
  assumes "serve_detach c q conn d = Some (d1, r)"
  shows "open_ids (dm_registry d1) = open_ids (dm_registry d)"
proof (cases "named q")
  case (Inr sid)
  show ?thesis
  proof (cases "bt_get (rg_sessions (dm_registry d)) sid")
    case None
    then show ?thesis using assms Inr by (auto simp: serve_detach_def given_def Let_def open_ids_def)
  next
    case (Some h)
    then have "sid \<in> open_ids (dm_registry d)" by (auto simp: reg_get_def intro!: open_ids_got)
    then show ?thesis using assms Inr Some
      by (auto simp: serve_detach_def given_def Let_def open_ids_def fst_bt_insert simp del: set_map)
  qed
qed (use assms in \<open>simp add: serve_detach_def given_def\<close>)

lemma dispatch_op_ids:
  assumes "dispatch_op E c q conn d = Some (d1, r)" and "valid_ids (open_ids (dm_registry d))"
    and "\<And>g. valid_ids (open_ids g) \<Longrightarrow> valid_ids (open_ids (dc_meanwhile c g))"
    and "\<And>sid. rq_session q = Some sid \<Longrightarrow> validate_session_id sid = Inr ()"
  shows "valid_ids (open_ids (dm_registry d1))"
proof -
  have keep: "valid_ids (open_ids (dm_registry d1))" if "open_ids (dm_registry d1) \<subseteq> open_ids (dm_registry d)"
    using that assms(2) by (auto simp: valid_ids_def)
  have "serve_send E c q d = Some (d1, r) \<Longrightarrow> open_ids (dm_registry d1) = open_ids (dm_registry d)"
    "serve_set E c q d = Some (d1, r) \<Longrightarrow> open_ids (dm_registry d1) = open_ids (dm_registry d)"
    by (auto simp: serve_send_def serve_set_def given_Some reg_send_def reg_set_def dest: accepted_ids split: option.splits)
  moreover have "serve_stop E c q d = Some (d1, r) \<Longrightarrow> open_ids (dm_registry d1) \<subseteq> open_ids (dm_registry d)"
    by (auto simp: serve_stop_def given_Some dest!: reg_stop_ids)
  moreover have "serve_status q d = Some (d1, r) \<Longrightarrow> open_ids (dm_registry d1) = open_ids (dm_registry d)"
    "serve_events E q d = Some (d1, r) \<Longrightarrow> open_ids (dm_registry d1) = open_ids (dm_registry d)"
    by (auto simp: serve_status_def serve_events_def given_Some Let_def case_prod_beta split: option.splits)
  moreover have "serve_dial E c q d = Some (d1, r) \<Longrightarrow> open_ids (dm_registry d1) = open_ids (dm_registry d)"
    "serve_account c q d = Some (d1, r) \<Longrightarrow> open_ids (dm_registry d1) = open_ids (dm_registry d)"
    by (auto simp: serve_dial_def serve_account_def Let_def case_prod_beta split: option.splits if_splits)
  ultimately show ?thesis
    using assms(1) keep serve_open_ids[OF _ assms(2-4)] serve_detach_ids[of c q conn d d1 r]
    by (auto simp: dispatch_op_def Let_def split: if_splits prod.splits)
qed

definition tape_daemon :: "(string \<times> string list) daemon" where
  "tape_daemon = \<lparr>dm_registry = tape_registry, dm_started = ''t0'', dm_stopping = False\<rparr>"

definition tape_desk :: "(string \<times> string list) desk_call" where
  "tape_desk = \<lparr>dc_fuel = 3, dc_accounts = \<lparr>ac_doubles = [''d''], ac_installed = (\<lambda>_. True), ac_probe = (\<lambda>_ _. AUTHENTICATED)\<rparr>, dc_look = tape_look, dc_pauses = (\<lambda>_. []), dc_instant = 5,
     dc_version = ''0'', dc_pid = 1, dc_meanwhile = id, dc_limits = (\<lambda>_. JNull), dc_start_auth = (\<lambda>_. JNull), dc_finish_auth = (\<lambda>_ _. JNull),
     dc_test = (\<lambda>_. Inl [])\<rparr>"

text \<open>
  C12: no request reaches a file it should not. As long as the ids of the open sessions are valid, and
  what goes on meanwhile keeps them so, they are after any request; each open session, and the session
  of any request that was answered with a result, has its log and its metadata directly in the sessions
  directory, under plain names; and different sessions never share a file.
\<close>

theorem requests_stay_inside:
  assumes "valid_ids (open_ids (dm_registry d))"
    and "\<And>g. valid_ids (open_ids g) \<Longrightarrow> valid_ids (open_ids (dc_meanwhile c g))"
    and "daemon_answer E c q conn d = Some (d1, rp)"
    and "A = open_ids (dm_registry d1) \<union> (if rp_ok rp then set_option (rq_session q) else {})"
  shows "valid_ids (open_ids (dm_registry d1))
    \<and> (\<forall>a\<in>A. plain_entry home (session_file home a) \<and> plain_entry home (meta_file home a))
    \<and> (\<forall>a\<in>A. \<forall>b\<in>A. a \<noteq> b \<longrightarrow> apart home a b)"
proof -
  obtain r where s: "serve_dispatch E c q conn d = Some (d1, r)"
    and "rp = (case r of Inr v \<Rightarrow> reply_ok (rq_id q) v | Inl why \<Rightarrow> reply_failed (rq_id q) why)"
    using assms(3) by (auto simp: daemon_answer_def simp del: not_None_eq)
  then have rp: "rp_ok rp \<longleftrightarrow> (\<exists>v. r = Inr v)" by (cases r) (simp_all add: reply_ok_def reply_failed_def)
  have "valid_ids (open_ids (dm_registry d1)) \<and> (rp_ok rp \<longrightarrow> valid_ids (set_option (rq_session q)))"
  proof (cases "case rq_session q of None \<Rightarrow> Inr () | Some sid \<Rightarrow> validate_session_id sid")
    case (Inl why)
    then show ?thesis using s rp assms(1) by (auto simp: serve_dispatch_def given_def)
  next
    case (Inr u)
    then have v: "rq_session q = Some sid \<Longrightarrow> validate_session_id sid = Inr ()" for sid by simp
    from s Inr have "d1 = d \<or> dispatch_op E c q conn d = Some (d1, r)" by (auto simp: serve_dispatch_def given_def split: if_splits)
    then show ?thesis using dispatch_op_ids[OF _ assms(1,2) v] assms(1) v by (auto simp: valid_ids_def)
  qed
  then have "valid_ids (open_ids (dm_registry d1))" "valid_ids A" by (auto simp: assms(4) valid_ids_def)
  then show ?thesis using valid_id_entries valid_ids_apart by (auto simp: valid_ids_def)
qed

theorem requests_stay_inside_witness:
  "\<exists>d1 rp. daemon_answer tape_env tape_desk (request_on ''s'' (request_new 1 ''status'')) 4 tape_daemon = Some (d1, rp)
     \<and> rp_ok rp \<and> plain_entry ''h'' (session_file ''h'' ''s'') \<and> plain_entry ''h'' (meta_file ''h'' ''s'')"
proof -
  let ?q = "request_on ''s'' (request_new 1 ''status'')"
  have "validate_session_id ''s'' = Inr ()" by code_simp
  then obtain v where a: "daemon_answer tape_env tape_desk ?q 4 tape_daemon = Some (tape_daemon, reply_ok 1 v)"
    by (simp add: daemon_answer_def serve_dispatch_def given_def request_on_def request_new_def tape_daemon_def dispatch_op_def serve_status_def named_def
        tape_registry_def bt_get_def)
  have "valid_ids (open_ids (dm_registry tape_daemon))" by code_simp
  moreover have "\<And>g. valid_ids (open_ids g) \<Longrightarrow> valid_ids (open_ids (dc_meanwhile tape_desk g))" by (simp add: tape_desk_def)
  ultimately show ?thesis
    using requests_stay_inside[OF _ _ a refl, of "''h''"] a by (auto simp: reply_ok_def request_on_def)
qed

end
