(* ===== verification/Request_Line.thy ===== *)
theory Request_Line
  imports Wire_Protocol
begin

text \<open>
  \<open>main.rs\<close>: how a client's bytes become requests. A socket delivers its bytes in pieces of any
  size, may end at any byte and may fail; \<open>read_request_line\<close> takes one line from it without ever
  holding more than the limit and one byte. \<open>hear\<close> is what \<open>talk\<close> makes of a line. The limit is an
  argument of the loop, \<open>MAX_REQUEST_BYTES\<close> in the daemon.
\<close>

definition MAX_REQUEST_BYTES :: nat where
  "MAX_REQUEST_BYTES = 16 * 1024 * 1024"

section \<open>A buffered reader\<close>

text \<open>\<open>BufReader\<close>: what is buffered, and what further reads will give. A read of nothing is the end.\<close>

datatype fill = Got bytes | Broke string

record reader =
  rd_buf :: bytes
  rd_coming :: "fill list"

definition fill_buf :: "reader \<Rightarrow> reader \<times> bytes res" where
  "fill_buf r =
     (if rd_buf r \<noteq> [] then (r, Inr (rd_buf r))
      else (case rd_coming r of
              [] \<Rightarrow> (r, Inr [])
            | Got b # fs \<Rightarrow> (\<lparr>rd_buf = b, rd_coming = fs\<rparr>, Inr b)
            | Broke why # fs \<Rightarrow> (\<lparr>rd_buf = [], rd_coming = fs\<rparr>, Inl why)))"

definition consume :: "nat \<Rightarrow> reader \<Rightarrow> reader" where
  "consume n r = r\<lparr>rd_buf := drop n (rd_buf r)\<rparr>"

section \<open>One line\<close>

datatype bounded_line = Eof | Whole | TooLong

record line_buf =
  lb_bytes :: bytes
  lb_capacity :: nat

text \<open>How much of a piece belongs to the line: up to its newline, or all of it.\<close>

definition line_part :: "bytes \<Rightarrow> nat" where
  "line_part b = (if newline \<in> set b then Suc (length (takeWhile (\<lambda>c. c \<noteq> newline) b)) else length b)"

definition grown :: "nat \<Rightarrow> nat \<Rightarrow> nat \<Rightarrow> nat" where
  "grown limit needed capacity = (if needed > capacity then min (max needed (max capacity 1 * 2)) (limit + 1) else capacity)"

definition take_part :: "nat \<Rightarrow> bytes \<Rightarrow> line_buf \<Rightarrow> line_buf \<times> nat \<times> bool" where
  "take_part limit available l =
     (let room = limit + 1 - length (lb_bytes l);
          offered = take room available;
          used = line_part offered
      in (\<lparr>lb_bytes = lb_bytes l @ take used offered, lb_capacity = grown limit (length (lb_bytes l) + used) (lb_capacity l)\<rparr>,
          used, newline \<in> set offered))"

definition to_come :: "fill list \<Rightarrow> nat" where
  "to_come fs = sum_list (map (\<lambda>f. case f of Got b \<Rightarrow> Suc (length b) | Broke _ \<Rightarrow> 1) fs)"

lemma to_come_simps [simp]: "to_come [] = 0" "to_come (Got b # fs) = Suc (length b) + to_come fs" "to_come (Broke why # fs) = Suc (to_come fs)"
  by (simp_all add: to_come_def)

lemma fill_buf_size:
  "fill_buf r = (r1, Inr a) \<Longrightarrow> length (rd_buf r1) + to_come (rd_coming r1) \<le> length (rd_buf r) + to_come (rd_coming r) \<and> rd_buf r1 = a"
  by (auto simp: fill_buf_def split: if_splits list.splits fill.splits)

lemma line_part_le: "line_part b \<le> length b"
proof -
  have "length b = length (takeWhile (\<lambda>c. c \<noteq> newline) b) + length (dropWhile (\<lambda>c. c \<noteq> newline) b)"
    by (metis length_append takeWhile_dropWhile_id)
  moreover have "newline \<in> set b \<Longrightarrow> dropWhile (\<lambda>c. c \<noteq> newline) b \<noteq> []" by (auto simp: dropWhile_eq_Nil_conv)
  ultimately show ?thesis by (auto simp: line_part_def Suc_le_eq)
qed

lemma line_part_pos: "b \<noteq> [] \<Longrightarrow> 0 < line_part b"
  by (simp add: line_part_def)

lemma taken_part:
  assumes "fill_buf r = (r1, Inr available)" and "available \<noteq> []" and "take_part limit available l = (l1, used, ended)"
    and "\<not> limit + 1 \<le> length (lb_bytes l1)"
  shows "length (rd_buf (consume used r1)) + to_come (rd_coming (consume used r1)) < length (rd_buf r) + to_come (rd_coming r)"
proof -
  let ?offered = "take (limit + 1 - length (lb_bytes l)) available"
  have l1: "used = line_part ?offered" "lb_bytes l1 = lb_bytes l @ take used ?offered" using assms(3) by (auto simp: take_part_def Let_def)
  have "length (lb_bytes l) < limit + 1" using assms(4) l1 by simp
  then have "0 < used" using assms(2) l1 by (simp add: line_part_pos)
  with fill_buf_size[OF assms(1)] assms(2) show ?thesis by (cases available) (auto simp: consume_def)
qed

text \<open>The code compares for equality: a line is never longer than that.\<close>

function read_bounded :: "nat \<Rightarrow> reader \<Rightarrow> line_buf \<Rightarrow> reader \<times> line_buf \<times> bounded_line res" where
  "read_bounded limit r l =
     (case fill_buf r of
        (r1, Inl why) \<Rightarrow> (r1, l, Inl why)
      | (r1, Inr available) \<Rightarrow>
          if available = [] then (r1, l, Inr (if lb_bytes l = [] then Eof else Whole))
          else
            (case take_part limit available l of
               (l1, used, ended) \<Rightarrow>
                 if ended then (consume used r1, l1, Inr Whole)
                 else if limit + 1 \<le> length (lb_bytes l1) then (consume used r1, l1, Inr TooLong)
                 else read_bounded limit (consume used r1) l1))"
  by pat_completeness auto

termination by (relation "measure (\<lambda>(limit, r, l). length (rd_buf r) + to_come (rd_coming r))") (auto dest!: sym[of _ "fill_buf _"] sym[of _ "take_part _ _ _"] dest: taken_part)

declare read_bounded.simps [simp del]

definition read_request_line :: "reader \<Rightarrow> line_buf \<Rightarrow> reader \<times> line_buf \<times> bounded_line res" where
  "read_request_line r l = read_bounded MAX_REQUEST_BYTES r (l\<lparr>lb_bytes := []\<rparr>)"

section \<open>What it reads\<close>

text \<open>The bytes before the connection ends or fails, and how it does.\<close>

fun delivered :: "fill list \<Rightarrow> bytes \<times> string option" where
  "delivered [] = ([], None)"
| "delivered (Broke why # fs) = ([], Some why)"
| "delivered (Got b # fs) = (if b = [] then ([], None) else (case delivered fs of (bs, e) \<Rightarrow> (b @ bs, e)))"

definition stream_of :: "reader \<Rightarrow> bytes \<times> string option" where
  "stream_of r = (case delivered (rd_coming r) of (bs, e) \<Rightarrow> (rd_buf r @ bs, e))"

text \<open>The next line of such a stream, and the bytes after it.\<close>

definition next_line :: "nat \<Rightarrow> bytes \<times> string option \<Rightarrow> bytes \<times> bounded_line res" where
  "next_line limit s =
     (case s of (bs, e) \<Rightarrow>
        let window = take (limit + 1) bs in
        if newline \<in> set window then (takeWhile (\<lambda>c. c \<noteq> newline) window @ [newline], Inr Whole)
        else if length window = limit + 1 then (window, Inr TooLong)
        else (window, case e of Some why \<Rightarrow> Inl why | None \<Rightarrow> Inr (if window = [] then Eof else Whole)))"


lemma fill_buf_stream:
  assumes "stream_of r = (bs, e)"
  shows "fill_buf r = (r1, Inl why) \<Longrightarrow> bs = [] \<and> e = Some why"
    and "fill_buf r = (r1, Inr []) \<Longrightarrow> bs = [] \<and> e = None"
    and "fill_buf r = (r1, Inr a) \<Longrightarrow> a \<noteq> [] \<Longrightarrow> stream_of r1 = (bs, e) \<and> rd_buf r1 = a"
  using assms by (auto simp: fill_buf_def stream_of_def split: if_splits list.splits fill.splits prod.splits)

lemma stream_consume: "n \<le> length (rd_buf r) \<Longrightarrow> stream_of r = (bs, e) \<Longrightarrow> stream_of (consume n r) = (drop n bs, e)"
  by (auto simp: stream_of_def consume_def split: prod.splits)

lemma takeWhile_stops: "x \<notin> set xs \<Longrightarrow> takeWhile (\<lambda>c. c \<noteq> x) (xs @ x # ys) = xs"
  by (induction xs) auto

lemma first_newline:
  assumes "newline \<in> set (take n b)"
  shows "\<exists>xs ys. take n b = xs @ newline # ys \<and> takeWhile (\<lambda>c. c \<noteq> newline) b = xs \<and> newline \<notin> set xs"
proof -
  obtain xs ys where s: "take n b = xs @ newline # ys" "newline \<notin> set xs" using split_list_first[OF assms] by blast
  have "takeWhile (\<lambda>c. c \<noteq> newline) b = takeWhile (\<lambda>c. c \<noteq> newline) (xs @ newline # ys @ drop n b)"
    using append_take_drop_id[of n b] by (simp add: s(1))
  then show ?thesis using s by (simp add: takeWhile_stops)
qed

lemma take_part_keeps:
  assumes "take_part limit available l = (l1, used, ended)" and "length (lb_bytes l) \<le> limit"
  shows "lb_bytes l1 = lb_bytes l @ take used available" "used \<le> length available" "length (lb_bytes l1) \<le> limit + 1"
    and "lb_capacity l \<le> limit + 1 \<Longrightarrow> lb_capacity l1 \<le> limit + 1"
    and "ended \<longleftrightarrow> newline \<in> set (take (limit + 1 - length (lb_bytes l)) available)"
    and "ended \<Longrightarrow> take used available = takeWhile (\<lambda>c. c \<noteq> newline) available @ [newline]"
    and "\<not> ended \<Longrightarrow> used = min (length available) (limit + 1 - length (lb_bytes l))"
proof -
  let ?room = "limit + 1 - length (lb_bytes l)"
  let ?offered = "take ?room available"
  have part: "line_part ?offered \<le> length ?offered" by (rule line_part_le)
  have l1: "used = line_part ?offered" "lb_bytes l1 = lb_bytes l @ take used ?offered" "ended \<longleftrightarrow> newline \<in> set ?offered"
    "lb_capacity l1 = grown limit (length (lb_bytes l) + used) (lb_capacity l)"
    using assms(1) by (auto simp: take_part_def Let_def)
  show "used \<le> length available" "lb_bytes l1 = lb_bytes l @ take used available" "length (lb_bytes l1) \<le> limit + 1"
    using l1 part assms(2) by (auto simp: min_def split: if_splits)
  show "lb_capacity l \<le> limit + 1 \<Longrightarrow> lb_capacity l1 \<le> limit + 1" by (simp add: l1(4) grown_def)
  show "ended \<longleftrightarrow> newline \<in> set ?offered" by (rule l1(3))
  show "\<not> ended \<Longrightarrow> used = min (length available) ?room" using l1 by (simp add: line_part_def)
  show "take used available = takeWhile (\<lambda>c. c \<noteq> newline) available @ [newline]" if e: ended
  proof -
    obtain xs ys where s: "?offered = xs @ newline # ys" "takeWhile (\<lambda>c. c \<noteq> newline) available = xs" "newline \<notin> set xs"
      using first_newline[of ?room available] e l1(3) by blast
    have "take used ?offered = xs @ [newline]"
      using e l1(1,3) by (simp only: line_part_def s(1) takeWhile_stops[OF s(3)] if_True) simp
    then show ?thesis using part l1(1) s(2) by (simp add: min_def split: if_splits)
  qed
qed


lemma next_line_ended:
  assumes "newline \<notin> set acc" and "newline \<in> set (take (limit + 1 - length acc) available)" and "length acc \<le> limit"
  shows "next_line limit (acc @ available @ further, e) = (acc @ takeWhile (\<lambda>c. c \<noteq> newline) available @ [newline], Inr Whole)"
proof -
  let ?room = "limit + 1 - length acc"
  obtain xs ys where s: "take ?room available = xs @ newline # ys" "takeWhile (\<lambda>c. c \<noteq> newline) available = xs" "newline \<notin> set xs"
    using first_newline[OF assms(2)] by blast
  let ?ys = "ys @ take (?room - length available) further"
  have w: "take (limit + 1) (acc @ available @ further) = (acc @ xs) @ newline # ?ys" using assms(3) s(1) by simp
  have "takeWhile (\<lambda>c. c \<noteq> newline) ((acc @ xs) @ newline # ?ys) = acc @ xs" by (rule takeWhile_stops) (use assms(1) s(3) in simp)
  then show ?thesis unfolding next_line_def prod.case Let_def w s(2) by simp
qed

lemma read_bounded_exact:
  assumes "read_bounded limit r l = (r1, l1, res)" and "stream_of r = (bs, e)" and "newline \<notin> set (lb_bytes l)" and "length (lb_bytes l) \<le> limit"
  shows "(lb_bytes l1, res) = next_line limit (lb_bytes l @ bs, e)
    \<and> (newline \<in> set (lb_bytes l1) \<or> res = Inr TooLong \<longrightarrow> (\<exists>bs'. stream_of r1 = (bs', e) \<and> lb_bytes l @ bs = lb_bytes l1 @ bs'))
    \<and> length (lb_bytes l1) \<le> limit + 1 \<and> (lb_capacity l \<le> limit + 1 \<longrightarrow> lb_capacity l1 \<le> limit + 1)"
  using assms
proof (induction limit r l arbitrary: bs rule: read_bounded.induct)
  case (1 limit r l)
  obtain r2 f where f: "fill_buf r = (r2, f)" by fastforce
  show ?case
  proof (cases f)
    case (Inl why)
    then show ?thesis using 1 f fill_buf_stream(1)[OF "1.prems"(2)]
      by (auto simp: read_bounded.simps[of limit r l] next_line_def)
  next
    case (Inr av)
    show ?thesis
    proof (cases "av = []")
      case True
      then show ?thesis using 1 f Inr fill_buf_stream(2)[OF "1.prems"(2)]
        by (auto simp: read_bounded.simps[of limit r l] next_line_def split: if_splits)
    next
      case False
      have s2: "stream_of r2 = (bs, e)" and b2: "rd_buf r2 = av" using fill_buf_stream(3)[OF "1.prems"(2)] f Inr False by auto
      obtain rest where bs: "bs = av @ rest" using s2 b2 by (auto simp: stream_of_def split: prod.splits)
      obtain l2 used ended where t: "take_part limit av l = (l2, used, ended)" by (metis prod.exhaust)
      note k = take_part_keeps[OF t "1.prems"(4)]
      have s3: "stream_of (consume used r2) = (drop used bs, e)" using stream_consume[OF _ s2] k(2) b2 by simp
      have split: "lb_bytes l @ bs = lb_bytes l2 @ drop used bs" using k(1,2) bs by simp
      show ?thesis
      proof (cases "ended \<or> limit + 1 \<le> length (lb_bytes l2)")
        case True
        then have r: "r1 = consume used r2" "l1 = l2" "res = Inr (if ended then Whole else TooLong)"
          using "1.prems"(1) f Inr False t by (auto simp: read_bounded.simps[of limit r l] split: if_splits)
        have "(lb_bytes l2, res) = next_line limit (lb_bytes l @ bs, e)"
        proof (cases ended)
          case True
          with k(5) next_line_ended[OF "1.prems"(3) _ "1.prems"(4)] bs k(1,6) r show ?thesis by simp
        next
          case F: False
          then have len: "length (lb_bytes l2) = limit + 1" using True k(3) by simp
          then have w: "take (limit + 1) (lb_bytes l @ bs) = lb_bytes l2" by (simp add: split)
          have "newline \<notin> set (lb_bytes l2)"
            using F k(1,5,7) "1.prems"(3) by (auto simp: min_def split: if_splits dest: in_set_takeD)
          then show ?thesis using w len F r by (simp add: next_line_def)
        qed
        then show ?thesis using r s3 split k(3,4) by auto
      next
        case go: False
        have again: "read_bounded limit (consume used r2) l2 = (r1, l1, res)"
          using "1.prems"(1) f Inr False t go by (simp add: read_bounded.simps[of limit r l])
        have used: "take used av = take (limit + 1 - length (lb_bytes l)) av" using go k(7) by (simp add: min_def)
        have nl: "newline \<notin> set (lb_bytes l2)" using go "1.prems"(3) k(1,5) used by auto
        have len: "length (lb_bytes l2) \<le> limit" using go by simp
        have "lb_capacity l \<le> limit + 1 \<longrightarrow> lb_capacity l2 \<le> limit + 1" using k(4) by blast
        then show ?thesis
          using "1.IH"[OF f[symmetric] Inr False t[symmetric] refl _ _ again s3 nl len] go split by auto
      qed
    qed
  qed
qed

text \<open>
  C33: requests are the lines of the stream, however it arrives. Whatever the pieces in which a
  client's bytes come, the daemon reads the bytes up to the first newline; a line over the limit
  is reported as such after the limit and one byte, a failure is reported only where the line is not
  over before it, and what was not read is still there for the next line. It never holds or reserves
  more than the limit and one byte.
\<close>

theorem request_line_exact:
  assumes "read_request_line r l = (r1, l1, res)" and "lb_capacity l \<le> MAX_REQUEST_BYTES + 1"
  shows "(lb_bytes l1, res) = next_line MAX_REQUEST_BYTES (stream_of r)
    \<and> (newline \<in> set (lb_bytes l1) \<or> res = Inr TooLong
       \<longrightarrow> stream_of r = (lb_bytes l1 @ fst (stream_of r1), snd (stream_of r1)))
    \<and> length (lb_bytes l1) \<le> MAX_REQUEST_BYTES + 1 \<and> lb_capacity l1 \<le> MAX_REQUEST_BYTES + 1"
proof -
  obtain bs e where s: "stream_of r = (bs, e)" by fastforce
  from read_bounded_exact[OF assms(1)[unfolded read_request_line_def] s] assms(2) show ?thesis by (auto simp: s)
qed

theorem request_line_exact_witness:
  "let r = \<lparr>rd_buf = ''pi'', rd_coming = [Got ''ng'', Got [newline, CHR ''x''], Broke ''reset'']\<rparr>;
       (r1, l1, res) = read_request_line r \<lparr>lb_bytes = ''old'', lb_capacity = 3\<rparr>
   in lb_bytes l1 = ''ping'' @ [newline] \<and> res = Inr Whole \<and> stream_of r1 = (''x'', Some ''reset'')"
proof -
  let ?r = "\<lparr>rd_buf = ''pi'', rd_coming = [Got ''ng'', Got [newline, CHR ''x''], Broke ''reset'']\<rparr>" and ?l = "\<lparr>lb_bytes = ''old'', lb_capacity = 3\<rparr>"
  obtain r1 l1 res where r: "read_request_line ?r ?l = (r1, l1, res)" by (metis prod.exhaust)
  have s: "stream_of ?r = (''ping'' @ [newline] @ ''x'', Some ''reset'')" by (simp add: stream_of_def)
  have "next_line MAX_REQUEST_BYTES (stream_of ?r) = (''ping'' @ [newline], Inr Whole)"
    unfolding s by (simp add: next_line_def MAX_REQUEST_BYTES_def newline_def)
  with request_line_exact[OF r] s show ?thesis by (auto simp: r MAX_REQUEST_BYTES_def)
qed

end
