(* ===== verification/Daemon_Lanes.thy ===== *)
theory Daemon_Lanes
  imports Daemon_Serve Request_Line
begin

text \<open>
  \<open>main.rs\<close>: the threads of the daemon. Each connection has a thread that reads requests
  (\<open>talk\<close>); each request is a task on a thread of its own, admitted while there is room
  (\<open>Admission\<close>) and held back until the requests before it that address the same thing are done
  (\<open>Lane\<close>). The threads interleave: \<open>hall_step\<close> has one rule for every point between two waits.
  What a task does to the daemon is one step, since operations on one session exclude each other
  (\<open>Lifecycle_Gate\<close>); \<open>aside\<close> is everything the sessions, the sweeper and the writers do by
  themselves. Two fields of the state record what was read and what was answered, for the statements.
\<close>

definition MAX_IN_FLIGHT :: nat where
  "MAX_IN_FLIGHT = 128"

section \<open>What a line asks\<close>

text \<open>\<open>str::from_utf8\<close>: how many bytes follow a first byte, and the range of the second.\<close>

definition utf8_first :: "nat \<Rightarrow> (nat \<times> nat \<times> nat) option" where
  "utf8_first n =
     (if n < 0x80 then Some (0, 0, 0)
      else if 0xC2 \<le> n \<and> n \<le> 0xDF then Some (1, 0x80, 0xBF)
      else if n = 0xE0 then Some (2, 0xA0, 0xBF)
      else if n = 0xED then Some (2, 0x80, 0x9F)
      else if 0xE1 \<le> n \<and> n \<le> 0xEF then Some (2, 0x80, 0xBF)
      else if n = 0xF0 then Some (3, 0x90, 0xBF)
      else if 0xF1 \<le> n \<and> n \<le> 0xF3 then Some (3, 0x80, 0xBF)
      else if n = 0xF4 then Some (3, 0x80, 0x8F)
      else None)"

fun utf8_ok :: "bytes \<Rightarrow> bool" where
  "utf8_ok [] = True"
| "utf8_ok (c # cs) =
     (case utf8_first (of_char c) of
        None \<Rightarrow> False
      | Some (n, low, high) \<Rightarrow>
          n \<le> length cs \<and> (n = 0 \<or> low \<le> of_char (hd cs) \<and> of_char (hd cs) \<le> high)
          \<and> list_all (\<lambda>b. 0x80 \<le> (of_char b :: nat) \<and> of_char b \<le> (0xBF :: nat)) (take n cs) \<and> utf8_ok (drop n cs))"

text \<open>The words of a UTF-8 or JSON reader for what is wrong are left out.\<close>

datatype heard = Hangs_up "reply option" | Blank | Nonsense reply | Asks request

definition hear :: "codec \<Rightarrow> bytes \<Rightarrow> bounded_line res \<Rightarrow> heard" where
  "hear J line r =
     (case r of
        Inl why \<Rightarrow> Hangs_up (Some (reply_failed 0 (''cannot read request: '' @ why)))
      | Inr Eof \<Rightarrow> Hangs_up None
      | Inr TooLong \<Rightarrow> Hangs_up (Some (reply_failed 0 (''request exceeds the '' @ show_nat MAX_REQUEST_BYTES @ ''-byte limit'')))
      | Inr Whole \<Rightarrow>
          if \<not> utf8_ok line then Hangs_up (Some (reply_failed 0 ''request is not UTF-8''))
          else if trim line = [] then Blank
          else (case from_slice J line of
                  Inl _ \<Rightarrow> Nonsense (reply_failed 0 ''that was not a request'')
                | Inr v \<Rightarrow> (case request_of v of
                              None \<Rightarrow> Nonsense (reply_failed 0 ''that was not a request'')
                            | Some q \<Rightarrow> Asks q)))"

definition lane_key :: "request \<Rightarrow> string option" where
  "lane_key q =
     (case rq_session q of
        Some sid \<Rightarrow> Some (''session:'' @ sid)
      | None \<Rightarrow>
          if rq_op q = ''account'' then Some (''account:'' @ (case rq_provider q of Some p \<Rightarrow> p | None \<Rightarrow> []))
          else if rq_op q = ''test'' then Some (''test:'' @ (case rq_provider q of Some p \<Rightarrow> p | None \<Rightarrow> ''registry''))
          else None)"

section \<open>The hall\<close>

text \<open>A lane belongs to a connection and a key; a place in it is a ticket.\<close>

datatype lane = Lane (lane_conn: nat) (lane_name: string)
type_synonym place = "(lane \<times> nat) option"

datatype task_phase = Waits | Runs | Answered | Left | Over

record task =
  tk_conn :: nat
  tk_request :: request
  tk_place :: place
  tk_phase :: task_phase

datatype talking = Reading | Holding request place | Closing request | Gone

record 'r hall =
  ha_daemon :: "'r daemon"
  ha_limit :: nat
  ha_active :: nat
  ha_accepting :: bool
  ha_turn :: "lane \<Rightarrow> nat"
  ha_next :: "lane \<Rightarrow> nat"
  ha_tasks :: "task list"
  ha_talks :: "nat \<Rightarrow> talking"
  ha_signal :: bool
  ha_heard :: "(nat \<times> request) list"
  ha_served :: "(nat \<times> request) list"

definition hall_new :: "nat \<Rightarrow> 'r daemon \<Rightarrow> 'r hall" where
  "hall_new limit d = \<lparr>ha_daemon = d, ha_limit = limit, ha_active = 0, ha_accepting = True, ha_turn = (\<lambda>_. 0), ha_next = (\<lambda>_. 0),
     ha_tasks = [], ha_talks = (\<lambda>_. Reading), ha_signal = False, ha_heard = [], ha_served = []\<rparr>"

definition take_ticket :: "nat \<Rightarrow> request \<Rightarrow> 'r hall \<Rightarrow> place \<times> 'r hall" where
  "take_ticket conn q s =
     (case lane_key q of
        None \<Rightarrow> (None, s)
      | Some key \<Rightarrow>
          let L = Lane conn key in (Some (L, ha_next s L), s\<lparr>ha_next := (ha_next s)(L := Suc (ha_next s L))\<rparr>))"

datatype 'r begun = Blocked | Refused | Begun "'r hall"

definition admission_begin :: "'r hall \<Rightarrow> 'r begun" where
  "admission_begin s =
     (if ha_accepting s \<and> ha_limit s \<le> ha_active s then Blocked
      else if \<not> ha_accepting s then Refused
      else Begun (s\<lparr>ha_active := Suc (ha_active s)\<rparr>))"

definition admission_close :: "'r hall \<Rightarrow> 'r hall" where
  "admission_close s = s\<lparr>ha_accepting := False\<rparr>"

definition admission_idle :: "'r hall \<Rightarrow> bool" where
  "admission_idle s \<longleftrightarrow> ha_active s = 0"

definition task_drop :: "'r hall \<Rightarrow> 'r hall" where
  "task_drop s = s\<lparr>ha_active := ha_active s - 1\<rparr>"

definition may_enter :: "place \<Rightarrow> 'r hall \<Rightarrow> bool" where
  "may_enter p s = (case p of None \<Rightarrow> True | Some (L, ticket) \<Rightarrow> ha_turn s L = ticket)"

definition turn_drop :: "place \<Rightarrow> 'r hall \<Rightarrow> 'r hall" where
  "turn_drop p s = (case p of None \<Rightarrow> s | Some (L, _) \<Rightarrow> s\<lparr>ha_turn := (ha_turn s)(L := Suc (ha_turn s L))\<rparr>)"

definition on_conn :: "nat \<Rightarrow> (connection \<Rightarrow> connection) \<Rightarrow> 'r hall \<Rightarrow> 'r hall" where
  "on_conn conn f s =
     (let d = ha_daemon s; g = dm_registry d
      in s\<lparr>ha_daemon := d\<lparr>dm_registry := g\<lparr>rg_conns := (rg_conns g)(conn := f (rg_conns g conn))\<rparr>\<rparr>\<rparr>)"

definition say_reply :: "codec \<Rightarrow> nat \<Rightarrow> reply \<Rightarrow> 'r hall \<Rightarrow> 'r hall" where
  "say_reply J conn rp s = on_conn conn (\<lambda>c. fst (conn_reply J rp c)) s"

text \<open>A last word: it is written, and waited for while the writer goes on.\<close>

definition last_word :: "codec \<Rightarrow> nat \<Rightarrow> reply \<Rightarrow> meanwhile list \<Rightarrow> 'r hall \<Rightarrow> 'r hall" where
  "last_word J conn rp ms s = on_conn conn (\<lambda>c. fst (conn_flush ms c)) (say_reply J conn rp s)"

definition set_talk :: "nat \<Rightarrow> talking \<Rightarrow> 'r hall \<Rightarrow> 'r hall" where
  "set_talk conn t s = s\<lparr>ha_talks := (ha_talks s)(conn := t)\<rparr>"

text \<open>The end of \<open>talk\<close>: the connection is closed, then forgotten.\<close>

definition talk_ends :: "nat \<Rightarrow> int \<Rightarrow> 'r hall \<Rightarrow> 'r hall" where
  "talk_ends conn instant s =
     (let s1 = on_conn conn conn_close s; d = ha_daemon s1
      in set_talk conn Gone (s1\<lparr>ha_daemon := d\<lparr>dm_registry := reg_forget conn instant (dm_registry d)\<rparr>\<rparr>))"

definition spawn :: "nat \<Rightarrow> request \<Rightarrow> place \<Rightarrow> 'r hall \<Rightarrow> 'r hall" where
  "spawn conn q p s = s\<lparr>ha_tasks := ha_tasks s @ [\<lparr>tk_conn = conn, tk_request = q, tk_place = p, tk_phase = Waits\<rparr>]\<rparr>"

definition set_task :: "nat \<Rightarrow> task_phase \<Rightarrow> 'r hall \<Rightarrow> 'r hall" where
  "set_task i p s = s\<lparr>ha_tasks := (ha_tasks s)[i := (ha_tasks s ! i)\<lparr>tk_phase := p\<rparr>]\<rparr>"

definition serve_task :: "'r env \<Rightarrow> 'r desk_call \<Rightarrow> nat \<Rightarrow> request \<Rightarrow> 'r hall \<Rightarrow> 'r hall option" where
  "serve_task E c conn q s =
     (if \<not> cn_open (rg_conns (dm_registry (ha_daemon s)) conn) then Some s
      else map_option (\<lambda>(d, rp). say_reply (en_codec E) conn rp (s\<lparr>ha_daemon := d\<rparr>)) (daemon_answer E c q conn (ha_daemon s)))"

definition task_in :: "nat \<Rightarrow> task_phase \<Rightarrow> 'r hall \<Rightarrow> task \<Rightarrow> bool" where
  "task_in i p s t \<longleftrightarrow> i < length (ha_tasks s) \<and> ha_tasks s ! i = t \<and> tk_phase t = p"

inductive hall_step :: "'r env \<Rightarrow> 'r hall \<Rightarrow> 'r hall \<Rightarrow> bool" for E where
  asked: "ha_talks s conn = Reading \<Longrightarrow> hear (en_codec E) line r = Asks q \<Longrightarrow> rq_op q \<noteq> ''shutdown'' \<Longrightarrow> take_ticket conn q s = (p, s1)
    \<Longrightarrow> hall_step E s (set_talk conn (Holding q p) (s1\<lparr>ha_heard := ha_heard s @ [(conn, q)]\<rparr>))"
| admitted: "ha_talks s conn = Holding q p \<Longrightarrow> admission_begin s = Begun s1 \<Longrightarrow> hall_step E s (set_talk conn Reading (spawn conn q p s1))"
| refused: "ha_talks s conn = Holding q p \<Longrightarrow> admission_begin s = Refused
    \<Longrightarrow> hall_step E s (talk_ends conn instant (last_word (en_codec E) conn (reply_failed (rq_id q) shutting_down) ms s))"
| nonsense: "ha_talks s conn = Reading \<Longrightarrow> hear (en_codec E) line r = Nonsense rp \<Longrightarrow> hall_step E s (say_reply (en_codec E) conn rp s)"
| hung_up: "ha_talks s conn = Reading \<Longrightarrow> hear (en_codec E) line r = Hangs_up None \<Longrightarrow> hall_step E s (talk_ends conn instant s)"
| cut_off: "ha_talks s conn = Reading \<Longrightarrow> hear (en_codec E) line r = Hangs_up (Some rp)
    \<Longrightarrow> hall_step E s (talk_ends conn instant (last_word (en_codec E) conn rp ms s))"
| stop_asked: "ha_talks s conn = Reading \<Longrightarrow> hear (en_codec E) line r = Asks q \<Longrightarrow> rq_op q = ''shutdown''
    \<Longrightarrow> hall_step E s (set_talk conn (Closing q) (admission_close s))"
| stopped: "ha_talks s conn = Closing q \<Longrightarrow> admission_idle s \<Longrightarrow> daemon_answer E c q conn (ha_daemon s) = Some (d, rp)
    \<Longrightarrow> hall_step E s (talk_ends conn instant (last_word (en_codec E) conn rp ms (s\<lparr>ha_daemon := d\<rparr>)))"
| signalled: "hall_step E s ((admission_close s)\<lparr>ha_signal := True\<rparr>)"
| signal_done: "ha_signal s \<Longrightarrow> admission_idle s \<Longrightarrow> hall_step E s (s\<lparr>ha_daemon := (ha_daemon s)\<lparr>dm_stopping := True\<rparr>\<rparr>)"
| entered: "task_in i Waits s t \<Longrightarrow> may_enter (tk_place t) s \<Longrightarrow> hall_step E s (set_task i Runs s)"
| served: "task_in i Runs s t \<Longrightarrow> serve_task E c (tk_conn t) (tk_request t) s = Some s1
    \<Longrightarrow> hall_step E s (set_task i Answered (s1\<lparr>ha_served := ha_served s @ [(tk_conn t, tk_request t)]\<rparr>))"
| left: "task_in i Answered s t \<Longrightarrow> hall_step E s (set_task i Left (turn_drop (tk_place t) s))"
| over: "task_in i Left s t \<Longrightarrow> hall_step E s (set_task i Over (task_drop s))"
| aside: "dm_stopping d = dm_stopping (ha_daemon s) \<Longrightarrow> hall_step E s (s\<lparr>ha_daemon := d\<rparr>)"

definition on_lane :: "lane \<Rightarrow> nat \<times> request \<Rightarrow> bool" where
  "on_lane L = (\<lambda>(conn, q). conn = lane_conn L \<and> lane_key q = Some (lane_name L))"

definition heard_on :: "lane \<Rightarrow> 'r hall \<Rightarrow> (nat \<times> request) list" where
  "heard_on L s = filter (on_lane L) (ha_heard s)"

definition served_on :: "lane \<Rightarrow> 'r hall \<Rightarrow> (nat \<times> request) list" where
  "served_on L s = filter (on_lane L) (ha_served s)"

section \<open>What every step keeps of the lanes\<close>

named_theorems hall "the fields of the hall an operation leaves alone"

lemma on_conn_fields [hall]:
  "ha_turn (on_conn conn f s) = ha_turn s" "ha_next (on_conn conn f s) = ha_next s" "ha_tasks (on_conn conn f s) = ha_tasks s"
  "ha_heard (on_conn conn f s) = ha_heard s" "ha_served (on_conn conn f s) = ha_served s" "ha_talks (on_conn conn f s) = ha_talks s"
  "ha_active (on_conn conn f s) = ha_active s" "ha_accepting (on_conn conn f s) = ha_accepting s" "ha_limit (on_conn conn f s) = ha_limit s"
  "ha_signal (on_conn conn f s) = ha_signal s" "dm_stopping (ha_daemon (on_conn conn f s)) = dm_stopping (ha_daemon s)"
  by (simp_all add: on_conn_def Let_def)

lemma set_talk_fields [hall]:
  "ha_turn (set_talk conn t s) = ha_turn s" "ha_next (set_talk conn t s) = ha_next s" "ha_tasks (set_talk conn t s) = ha_tasks s"
  "ha_heard (set_talk conn t s) = ha_heard s" "ha_served (set_talk conn t s) = ha_served s"
  "ha_talks (set_talk conn t s) = (ha_talks s)(conn := t)"
  "ha_active (set_talk conn t s) = ha_active s" "ha_accepting (set_talk conn t s) = ha_accepting s" "ha_limit (set_talk conn t s) = ha_limit s"
  "ha_signal (set_talk conn t s) = ha_signal s" "ha_daemon (set_talk conn t s) = ha_daemon s"
  by (simp_all add: set_talk_def)

lemma set_task_fields [hall]:
  "ha_turn (set_task i p s) = ha_turn s" "ha_next (set_task i p s) = ha_next s"
  "ha_tasks (set_task i p s) = (ha_tasks s)[i := (ha_tasks s ! i)\<lparr>tk_phase := p\<rparr>]"
  "ha_heard (set_task i p s) = ha_heard s" "ha_served (set_task i p s) = ha_served s" "ha_talks (set_task i p s) = ha_talks s"
  "ha_active (set_task i p s) = ha_active s" "ha_accepting (set_task i p s) = ha_accepting s" "ha_limit (set_task i p s) = ha_limit s"
  "ha_signal (set_task i p s) = ha_signal s" "ha_daemon (set_task i p s) = ha_daemon s"
  by (simp_all add: set_task_def)

lemmas hall_ops = say_reply_def last_word_def talk_ends_def spawn_def admission_close_def admission_begin_def admission_idle_def
  task_drop_def turn_drop_def Let_def

definition places :: "'r hall \<Rightarrow> place list" where
  "places s = map tk_place (ha_tasks s)"

definition phase_ok :: "nat \<Rightarrow> nat \<Rightarrow> task_phase \<Rightarrow> bool" where
  "phase_ok turn n p \<longleftrightarrow> (if n < turn then p = Left \<or> p = Over else if n = turn then p = Waits \<or> p = Runs \<or> p = Answered else p = Waits)"

definition apart_places :: "place list \<Rightarrow> bool" where
  "apart_places ps \<longleftrightarrow> (\<forall>i < length ps. \<forall>j < length ps. ps ! i \<noteq> None \<longrightarrow> ps ! i = ps ! j \<longrightarrow> i = j)"

text \<open>A task has a place in the lane of its request, behind tasks that have theirs, and is as far as the turn allows.\<close>

definition task_ok :: "'r hall \<Rightarrow> task \<Rightarrow> bool" where
  "task_ok s t \<longleftrightarrow>
     (tk_place t = None \<longrightarrow> lane_key (tk_request t) = None)
     \<and> (\<forall>L n. tk_place t = Some (L, n) \<longrightarrow>
          on_lane L (tk_conn t, tk_request t) \<and> n < length (heard_on L s) \<and> heard_on L s ! n = (tk_conn t, tk_request t)
          \<and> (\<forall>m < n. Some (L, m) \<in> set (places s)) \<and> phase_ok (ha_turn s L) n (tk_phase t))"

text \<open>Every ticket a live reader gave out belongs to a task, but for the one it holds.\<close>

definition talk_ok :: "'r hall \<Rightarrow> nat \<Rightarrow> talking \<Rightarrow> bool" where
  "talk_ok s conn t \<longleftrightarrow>
     (t = Reading \<longrightarrow> (\<forall>key. \<forall>n < ha_next s (Lane conn key). Some (Lane conn key, n) \<in> set (places s)))
     \<and> (\<forall>q p. t = Holding q p \<longrightarrow>
          (\<forall>key. \<forall>n < ha_next s (Lane conn key). p \<noteq> Some (Lane conn key, n) \<longrightarrow> Some (Lane conn key, n) \<in> set (places s))
          \<and> (p = None \<longrightarrow> lane_key q = None)
          \<and> (\<forall>L n. p = Some (L, n) \<longrightarrow> on_lane L (conn, q) \<and> Suc n = ha_next s L \<and> heard_on L s ! n = (conn, q) \<and> p \<notin> set (places s)))"

text \<open>How many answers a lane has had.\<close>

definition being_answered :: "lane \<Rightarrow> 'r hall \<Rightarrow> bool" where
  "being_answered L s \<longleftrightarrow> (\<exists>i < length (ha_tasks s). tk_place (ha_tasks s ! i) = Some (L, ha_turn s L) \<and> tk_phase (ha_tasks s ! i) = Answered)"

definition answers :: "lane \<Rightarrow> 'r hall \<Rightarrow> nat" where
  "answers L s = ha_turn s L + (if being_answered L s then 1 else 0)"

definition lane_ok :: "'r hall \<Rightarrow> lane \<Rightarrow> bool" where
  "lane_ok s L \<longleftrightarrow> ha_next s L = length (heard_on L s) \<and> (\<forall>m < ha_turn s L. Some (L, m) \<in> set (places s)) \<and> answers L s \<le> length (heard_on L s) \<and> served_on L s = take (answers L s) (heard_on L s)"

definition lane_inv :: "'r hall \<Rightarrow> bool" where
  "lane_inv s \<longleftrightarrow> (\<forall>t \<in> set (ha_tasks s). task_ok s t) \<and> apart_places (places s) \<and> (\<forall>conn. talk_ok s conn (ha_talks s conn)) \<and> (\<forall>L. lane_ok s L)"

lemma lane_invD:
  assumes "lane_inv s"
  shows "i < length (ha_tasks s) \<Longrightarrow> task_ok s (ha_tasks s ! i)" "t \<in> set (ha_tasks s) \<Longrightarrow> task_ok s t" "apart_places (places s)"
    "talk_ok s conn (ha_talks s conn)" "lane_ok s L"
  using assms by (simp_all add: lane_inv_def)

lemma lane_invI:
  assumes "\<And>t. t \<in> set (ha_tasks s) \<Longrightarrow> task_ok s t" "apart_places (places s)" "\<And>conn. talk_ok s conn (ha_talks s conn)" "\<And>L. lane_ok s L"
  shows "lane_inv s"
  using assms by (simp add: lane_inv_def)

lemma lane_inv_new: "lane_inv (hall_new limit d)"
  by (simp add: lane_inv_def talk_ok_def lane_ok_def apart_places_def places_def hall_new_def heard_on_def served_on_def answers_def being_answered_def)

lemma lane_inv_same:
  assumes "lane_inv s" and "ha_turn s1 = ha_turn s" and "ha_next s1 = ha_next s" and "ha_tasks s1 = ha_tasks s" and "ha_heard s1 = ha_heard s"
    and "ha_served s1 = ha_served s" and "\<And>conn. ha_talks s1 conn = ha_talks s conn \<or> ha_talks s1 conn = Gone \<or> (\<exists>q. ha_talks s1 conn = Closing q)"
  shows "lane_inv s1"
proof -
  have same: "places s1 = places s" "heard_on L s1 = heard_on L s" "served_on L s1 = served_on L s" "answers L s1 = answers L s" for L
    using assms(2-6) by (simp_all add: places_def heard_on_def served_on_def answers_def being_answered_def)
  show ?thesis
  proof (rule lane_invI)
    show "task_ok s1 t" if "t \<in> set (ha_tasks s1)" for t
      using that lane_invD(2)[OF assms(1), of t] by (simp add: task_ok_def same assms(2,4))
    show "talk_ok s1 conn (ha_talks s1 conn)" for conn
    proof -
      have "talk_ok s1 conn t = talk_ok s conn t" for t by (simp add: talk_ok_def same assms(3))
      moreover have "talk_ok s conn Gone" "\<And>q. talk_ok s conn (Closing q)" by (simp_all add: talk_ok_def)
      ultimately show ?thesis using assms(7)[of conn] lane_invD(4)[OF assms(1), of conn] by metis
    qed
    show "lane_ok s1 L" for L using lane_invD(5)[OF assms(1), of L] by (simp add: lane_ok_def same assms(2,3))
  qed (simp add: same lane_invD(3)[OF assms(1)])
qed

lemma heard_on_snoc: "heard_on L (s\<lparr>ha_heard := ha_heard s @ [x]\<rparr>) = heard_on L s @ (if on_lane L x then [x] else [])"
  by (simp add: heard_on_def)

lemma apart_snoc: "apart_places (ps @ [p]) \<longleftrightarrow> apart_places ps \<and> (p \<noteq> None \<longrightarrow> p \<notin> set ps)"
proof
  assume a: "apart_places (ps @ [p])"
  have "i = j" if "i < length ps" "j < length ps" "ps ! i \<noteq> None" "ps ! i = ps ! j" for i j
    using a[unfolded apart_places_def, rule_format, of i j] that by (simp add: nth_append)
  moreover have "p = None" if mem: "p \<in> set ps"
  proof -
    obtain i where "i < length ps" "ps ! i = p" using mem by (auto simp: in_set_conv_nth)
    then show ?thesis using a[unfolded apart_places_def, rule_format, of i "length ps"] by (cases p) (auto simp: nth_append)
  qed
  ultimately show "apart_places ps \<and> (p \<noteq> None \<longrightarrow> p \<notin> set ps)" unfolding apart_places_def by auto
next
  assume a: "apart_places ps \<and> (p \<noteq> None \<longrightarrow> p \<notin> set ps)"
  show "apart_places (ps @ [p])"
    unfolding apart_places_def
  proof (intro allI impI)
    fix i j assume "i < length (ps @ [p])" "j < length (ps @ [p])" "(ps @ [p]) ! i \<noteq> None" "(ps @ [p]) ! i = (ps @ [p]) ! j"
    then show "i = j" using a nth_mem[of i ps] nth_mem[of j ps] unfolding apart_places_def by (cases "i < length ps"; cases "j < length ps") (auto simp: nth_append less_Suc_eq)
  qed
qed

lemma lane_inv_asked:
  assumes inv: "lane_inv s" and "ha_talks s conn = Reading" and t: "take_ticket conn q s = (p, s1)"
  shows "lane_inv (set_talk conn (Holding q p) (s1\<lparr>ha_heard := ha_heard s @ [(conn, q)]\<rparr>))" 
proof -
  define s2 where "s2 = set_talk conn (Holding q p) (s1\<lparr>ha_heard := ha_heard s @ [(conn, q)]\<rparr>)"
  have s1: "ha_tasks s2 = ha_tasks s" "ha_turn s2 = ha_turn s" "ha_served s2 = ha_served s" "ha_heard s2 = ha_heard s @ [(conn, q)]"
    "ha_next s2 = (\<lambda>L. ha_next s L + (if on_lane L (conn, q) then 1 else 0))"
    using t by (auto simp: s2_def take_ticket_def Let_def hall on_lane_def fun_eq_iff split: option.splits)
  have same: "places s2 = places s" "answers L s2 = answers L s" "served_on L s2 = served_on L s" for L
    by (simp_all add: places_def answers_def being_answered_def served_on_def s1)
  have h: "heard_on L s2 = heard_on L s @ (if on_lane L (conn, q) then [(conn, q)] else [])" for L by (simp add: heard_on_def s1)
  have p: "p = (case lane_key q of None \<Rightarrow> None | Some key \<Rightarrow> Some (Lane conn key, ha_next s (Lane conn key)))"
    using t by (auto simp: take_ticket_def Let_def split: option.splits)
  have ok: "task_ok s t" if "t \<in> set (ha_tasks s)" for t using lane_invD(2)[OF inv that] .
  have low: "Some (L, n) \<in> set (places s) \<Longrightarrow> n < ha_next s L" for L n
    using ok lane_invD(5)[OF inv, of L] by (auto simp: places_def lane_ok_def task_ok_def dest!: sym[of "Some _"])
  have "lane_inv s2"
  proof (rule lane_invI)
    show "task_ok s2 t" if "t \<in> set (ha_tasks s2)" for t
      using that ok[of t] by (auto simp: s1 task_ok_def same h nth_append)
    show "talk_ok s2 c (ha_talks s2 c)" for c
    proof (cases "c = conn")
      case True
      have talk: "ha_talks s2 conn = Holding q p" by (simp add: s2_def hall)
      have old: "\<And>key n. n < ha_next s (Lane conn key) \<Longrightarrow> Some (Lane conn key, n) \<in> set (places s)"
        using lane_invD(4)[OF inv, of conn] assms(2) by (simp add: talk_ok_def)
      have len: "ha_next s L = length (heard_on L s)" for L using lane_invD(5)[OF inv, of L] by (simp add: lane_ok_def)
      show ?thesis
      proof (cases "lane_key q")
        case None
        then show ?thesis using old p by (simp add: True talk talk_ok_def s1 same on_lane_def)
      next
        case (Some key)
        then have "p = Some (Lane conn key, ha_next s (Lane conn key))" using p by simp
        then show ?thesis using old low Some
          by (auto simp: True talk talk_ok_def s1 same h on_lane_def less_Suc_eq len[symmetric] nth_append split: if_splits)
      qed
    next
      case False
      have "talk_ok s c (ha_talks s c)" using lane_invD(4)[OF inv] .
      moreover have "\<not> on_lane (Lane c key) (conn, q)" for key using False by (simp add: on_lane_def)
      moreover have "on_lane L (c, q') \<Longrightarrow> \<not> on_lane L (conn, q)" for L q' using False by (auto simp: on_lane_def)
      moreover have "ha_talks s2 c = ha_talks s c" using False t by (auto simp: s2_def take_ticket_def Let_def hall split: option.splits)
      ultimately show ?thesis unfolding talk_ok_def by (auto simp: s1 same h)
    qed
    show "lane_ok s2 L" for L using lane_invD(5)[OF inv, of L] by (simp add: lane_ok_def s1 same h)
  qed (simp add: same lane_invD(3)[OF inv])
  then show ?thesis by (simp add: s2_def)
qed

lemma lane_inv_admitted:
  assumes inv: "lane_inv s" and h: "ha_talks s conn = Holding q p"
  shows "lane_inv (set_talk conn Reading (spawn conn q p (s\<lparr>ha_active := n\<rparr>)))" 
proof -
  define s2 where "s2 = set_talk conn Reading (spawn conn q p (s\<lparr>ha_active := n\<rparr>))"
  let ?t = "\<lparr>tk_conn = conn, tk_request = q, tk_place = p, tk_phase = Waits\<rparr>"
  have s1: "ha_tasks s2 = ha_tasks s @ [?t]" "ha_turn s2 = ha_turn s" "ha_next s2 = ha_next s" by (simp_all add: s2_def hall spawn_def)
  have same: "places s2 = places s @ [p]" "heard_on L s2 = heard_on L s" "served_on L s2 = served_on L s" "answers L s2 = answers L s" for L
    by (auto simp: places_def s1 heard_on_def served_on_def answers_def being_answered_def s2_def hall spawn_def nth_append less_Suc_eq)
  have talk: "talk_ok s conn (Holding q p)" using lane_invD(4)[OF inv, of conn] h by simp
  have "lane_inv s2"
  proof (rule lane_invI)
    show "task_ok s2 t" if "t \<in> set (ha_tasks s2)" for t
    proof (cases "t = ?t")
      case True
      have "phase_ok (ha_turn s L) n Waits \<and> n < length (heard_on L s) \<and> (\<forall>m < n. Some (L, m) \<in> set (places s))" if "p = Some (L, n)" for L n
      proof -
        have n: "Suc n = ha_next s L" "p \<notin> set (places s)" "on_lane L (conn, q)" using talk that by (auto simp: talk_ok_def)
        have "\<not> n < ha_turn s L" using lane_invD(5)[OF inv, of L] n(2) that by (auto simp: lane_ok_def)
        moreover have "L = Lane conn (lane_name L)" using n(3) by (cases L) (simp add: on_lane_def)
        then have "Some (L, m) \<in> set (places s)" if "m < n" for m
          using talk n(1) that \<open>p = Some (L, n)\<close> unfolding talk_ok_def by (metis less_Suc_eq less_irrefl option.inject prod.inject)
        ultimately show ?thesis using n(1) lane_invD(5)[OF inv, of L] by (auto simp: phase_ok_def lane_ok_def)
      qed
      then show ?thesis using True talk by (auto simp: task_ok_def same s1 talk_ok_def)
    next
      case False
      then have "t \<in> set (ha_tasks s)" using that by (simp add: s1)
      with lane_invD(2)[OF inv this] show ?thesis by (auto simp: task_ok_def same s1)
    qed
    show "apart_places (places s2)" using lane_invD(3)[OF inv] talk by (auto simp: same apart_snoc talk_ok_def)
    show "talk_ok s2 c (ha_talks s2 c)" for c
    proof (cases "c = conn")
      case True
      moreover have "ha_talks s2 conn = Reading" by (simp add: s2_def hall)
      ultimately show ?thesis using talk by (auto simp: talk_ok_def same s1)
    next
      case False
      have "lane_conn L = conn" if "p = Some (L, n)" for L n using that talk by (auto simp: talk_ok_def on_lane_def)
      then have iff: "Some (L, n) \<in> set (places s2) \<longleftrightarrow> Some (L, n) \<in> set (places s)" if "lane_conn L = c" for L n
        using that False by (auto simp: same)
      moreover have "ha_talks s2 c = ha_talks s c" using False by (simp add: s2_def hall spawn_def)
      ultimately show ?thesis using lane_invD(4)[OF inv, of c] unfolding talk_ok_def by (auto simp: s1 same(2) on_lane_def)
    qed
    show "lane_ok s2 L" for L using lane_invD(5)[OF inv, of L] by (simp add: lane_ok_def s1 same)
  qed
  then show ?thesis by (simp add: s2_def)
qed

text \<open>A task moves on: nothing but its own phase changes.\<close>

lemma places_set_task [simp]: "i < length (ha_tasks s) \<Longrightarrow> places (set_task i p s) = places s"
  by (simp add: places_def hall map_update) (metis length_map list_update_id nth_map)

lemma being_answered_other:
  assumes "i < length (ha_tasks s)" and "tk_phase (ha_tasks s ! i) \<noteq> Answered" and "p \<noteq> Answered"
  shows "being_answered L (set_task i p s) = being_answered L s"
  using assms by (auto simp: being_answered_def hall nth_list_update)

lemma heard_set_task [simp]: "heard_on L (set_task i p s) = heard_on L s" "served_on L (set_task i p s) = served_on L s"
  by (simp_all add: heard_on_def served_on_def hall)

lemma task_ok_set_task:
  assumes "lane_inv s" and "i < length (ha_tasks s)" and "t \<in> set (ha_tasks (set_task i p s))"
    and "\<And>L n. tk_place (ha_tasks s ! i) = Some (L, n) \<Longrightarrow> phase_ok (ha_turn s L) n p"
  shows "task_ok (set_task i p s) t"
proof -
  have "t = (ha_tasks s ! i)\<lparr>tk_phase := p\<rparr> \<or> t \<in> set (ha_tasks s)"
    using assms(3) set_update_subset_insert[of "ha_tasks s" i] by (auto simp: hall)
  then show ?thesis
    using lane_invD(1)[OF assms(1,2)] lane_invD(2)[OF assms(1), of t] assms(4) unfolding task_ok_def
    by (auto simp: places_set_task[OF assms(2)] hall)
qed

lemma lane_inv_calm:
  assumes inv: "lane_inv s" and i: "i < length (ha_tasks s)" and "tk_phase (ha_tasks s ! i) \<noteq> Answered" and "p \<noteq> Answered"
    and "\<And>L n. tk_place (ha_tasks s ! i) = Some (L, n) \<Longrightarrow> phase_ok (ha_turn s L) n p"
  shows "lane_inv (set_task i p s)"
proof (rule lane_invI)
  show "task_ok (set_task i p s) t" if "t \<in> set (ha_tasks (set_task i p s))" for t by (rule task_ok_set_task[OF inv i that assms(5)])
  show "apart_places (places (set_task i p s))" using lane_invD(3)[OF inv] i by simp
  show "talk_ok (set_task i p s) conn (ha_talks (set_task i p s) conn)" for conn
    using lane_invD(4)[OF inv, of conn] i by (simp add: talk_ok_def hall)
  show "lane_ok (set_task i p s) L" for L
    using lane_invD(5)[OF inv, of L] i assms(3,4) by (simp add: lane_ok_def hall answers_def being_answered_other)
qed


lemma place_unique:
  assumes "lane_inv s" and "i < length (ha_tasks s)" and "j < length (ha_tasks s)"
    and "tk_place (ha_tasks s ! i) = Some x" and "tk_place (ha_tasks s ! j) = Some x"
  shows "i = j"
  using lane_invD(3)[OF assms(1)] assms(2-5) unfolding apart_places_def places_def by simp

lemma on_lane_unique: "on_lane L x \<Longrightarrow> on_lane M x \<Longrightarrow> L = M"
  by (cases L; cases M) (auto simp: on_lane_def)

lemma being_answered_elsewhere:
  assumes "i < length (ha_tasks s)" and "\<And>n. tk_place (ha_tasks s ! i) \<noteq> Some (L, n)"
  shows "being_answered L (set_task i p s) = being_answered L s"
  using assms by (auto simp: being_answered_def hall nth_list_update)

lemma being_answered_at:
  assumes "lane_inv s" and "i < length (ha_tasks s)" and "tk_place (ha_tasks s ! i) = Some (L, ha_turn s L)"
  shows "being_answered L s \<longleftrightarrow> tk_phase (ha_tasks s ! i) = Answered"
  using assms place_unique[OF assms(1,2)] unfolding being_answered_def by blast

lemma lane_inv_served:
  assumes inv: "lane_inv s" and i: "i < length (ha_tasks s)" and t: "ha_tasks s ! i = t" and runs: "tk_phase t = Runs"
  shows "lane_inv (set_task i Answered (s\<lparr>ha_served := ha_served s @ [(tk_conn t, tk_request t)]\<rparr>))"
proof -
  let ?x = "(tk_conn t, tk_request t)"
  define s2 where "s2 = s\<lparr>ha_served := ha_served s @ [?x]\<rparr>"
  have s1: "ha_tasks s2 = ha_tasks s" "ha_turn s2 = ha_turn s" "ha_next s2 = ha_next s" "ha_talks s2 = ha_talks s" by (simp_all add: s2_def)
  have same: "places s2 = places s" "heard_on L s2 = heard_on L s" "served_on L s2 = served_on L s @ (if on_lane L ?x then [?x] else [])"
    "being_answered L s2 = being_answered L s" for L
    by (simp_all add: s2_def places_def heard_on_def served_on_def being_answered_def)
  have tk: "task_ok s t" using lane_invD(1)[OF inv i] t by simp
  have at: "on_lane L ?x \<and> n = ha_turn s L \<and> n < length (heard_on L s) \<and> heard_on L s ! n = ?x" if "tk_place t = Some (L, n)" for L n
    using tk that runs by (auto simp: task_ok_def phase_ok_def split: if_splits)
  have "lane_inv (set_task i Answered s2)"
  proof (rule lane_invI)
    show "task_ok (set_task i Answered s2) u" if "u \<in> set (ha_tasks (set_task i Answered s2))" for u
    proof -
      have "u \<in> set (ha_tasks (set_task i Answered s))" using that by (simp add: hall s1)
      then have "task_ok (set_task i Answered s) u"
        by (rule task_ok_set_task[OF inv i]) (use at t in \<open>auto simp: phase_ok_def\<close>)
      then show ?thesis using i by (simp add: task_ok_def hall same s1)
    qed
    show "apart_places (places (set_task i Answered s2))" using lane_invD(3)[OF inv] i by (simp add: same s1)
    show "talk_ok (set_task i Answered s2) conn (ha_talks (set_task i Answered s2) conn)" for conn
      using lane_invD(4)[OF inv, of conn] i by (simp add: talk_ok_def hall same s1)
    show "lane_ok (set_task i Answered s2) L" for L
    proof (cases "on_lane L ?x")
      case False
      then have "\<And>n. tk_place (ha_tasks s2 ! i) \<noteq> Some (L, n)" using at t s1(1) by auto
      with False show ?thesis using lane_invD(5)[OF inv, of L] i
        by (simp add: lane_ok_def hall same s1 answers_def being_answered_elsewhere)
    next
      case True
      have "tk_place t \<noteq> None" using tk True by (auto simp: task_ok_def on_lane_def)
      then obtain M n where "tk_place t = Some (M, n)" by auto
      then have n: "tk_place t = Some (L, n)" using at on_lane_unique[OF True] by blast
      have "being_answered L (set_task i Answered s2)" using n at[OF n] i t by (auto simp: being_answered_def hall s1 nth_list_update)
      moreover have "\<not> being_answered L s" using being_answered_at[OF inv i] n at[OF n] t runs by simp
      ultimately show ?thesis using lane_invD(5)[OF inv, of L] at[OF n] True i
        by (auto simp: lane_ok_def hall same s1 answers_def take_Suc_conv_app_nth)
    qed
  qed
  then show ?thesis by (simp add: s2_def)
qed

lemma lane_inv_left:
  assumes inv: "lane_inv s" and i: "i < length (ha_tasks s)" and t: "ha_tasks s ! i = t" and ans: "tk_phase t = Answered"
  shows "lane_inv (set_task i Left (turn_drop (tk_place t) s))"
proof -
  define s2 where "s2 = turn_drop (tk_place t) s"
  have s1: "ha_tasks s2 = ha_tasks s" "ha_next s2 = ha_next s" "ha_talks s2 = ha_talks s" by (auto simp: s2_def turn_drop_def split: option.splits)
  have turn: "ha_turn s2 L = ha_turn s L + (if \<exists>n. tk_place t = Some (L, n) then 1 else 0)" for L
    by (auto simp: s2_def turn_drop_def split: option.splits)
  have same: "places s2 = places s" "heard_on L s2 = heard_on L s" "served_on L s2 = served_on L s" for L
    by (auto simp: s2_def turn_drop_def places_def heard_on_def served_on_def split: option.splits)
  have tk: "task_ok s t" using lane_invD(1)[OF inv i] t by simp
  have at: "n = ha_turn s L" if "tk_place t = Some (L, n)" for L n
    using tk that ans by (auto simp: task_ok_def phase_ok_def split: if_splits)
  have mine: "Some (L, n) \<in> set (places s)" if "tk_place t = Some (L, n)" for L n
    using i t that by (force simp: places_def in_set_conv_nth)
  have "lane_inv (set_task i Left s2)"
  proof (rule lane_invI)
    show "task_ok (set_task i Left s2) u" if mem: "u \<in> set (ha_tasks (set_task i Left s2))" for u
    proof -
      obtain j where j: "j < length (ha_tasks s)" "u = (if j = i then t\<lparr>tk_phase := Left\<rparr> else ha_tasks s ! j)"
        using mem t by (auto simp: in_set_conv_nth hall s1 nth_list_update split: if_splits)
      have "task_ok s (ha_tasks s ! j)" using lane_invD(1)[OF inv j(1)] .
      moreover have "phase_ok (ha_turn s2 L) n (tk_phase u)" if "tk_place u = Some (L, n)" for L n
      proof (cases "j = i")
        case True
        then show ?thesis using that j(2) at turn by (auto simp: phase_ok_def)
      next
        case False
        then have u: "u = ha_tasks s ! j" using j(2) by simp
        then have "phase_ok (ha_turn s L) n (tk_phase u)" using lane_invD(1)[OF inv j(1)] that by (auto simp: task_ok_def)
        moreover have "n \<noteq> ha_turn s L" if "tk_place t = Some (L, m)" for m
          using place_unique[OF inv i j(1)] False at[OF that] \<open>tk_place u = Some (L, n)\<close> u t that by auto
        ultimately show ?thesis by (auto simp: phase_ok_def turn split: if_splits)
      qed
      ultimately show ?thesis using j i t by (auto simp: task_ok_def hall same s1 split: if_splits)
    qed
    show "apart_places (places (set_task i Left s2))" using lane_invD(3)[OF inv] i by (simp add: same s1)
    show "talk_ok (set_task i Left s2) conn (ha_talks (set_task i Left s2) conn)" for conn
      using lane_invD(4)[OF inv, of conn] i by (simp add: talk_ok_def hall same s1)
    show "lane_ok (set_task i Left s2) L" for L
    proof (cases "\<exists>n. tk_place t = Some (L, n)")
      case False
      then have "being_answered L (set_task i Left s2) = being_answered L s"
        using i t by (auto simp: being_answered_def hall s1 turn nth_list_update)
      with False show ?thesis using lane_invD(5)[OF inv, of L] i by (simp add: lane_ok_def hall same s1 answers_def turn)
    next
      case True
      then obtain n where n: "tk_place t = Some (L, n)" "n = ha_turn s L" using at by blast
      have "tk_phase (ha_tasks s ! j) \<noteq> Answered" if "j < length (ha_tasks s)" "tk_place (ha_tasks s ! j) = Some (L, Suc n)" for j
        using lane_invD(1)[OF inv that(1)] that(2) n(2) by (auto simp: task_ok_def phase_ok_def)
      then have "\<not> being_answered L (set_task i Left s2)"
        using n t i by (auto simp: being_answered_def hall s1 turn nth_list_update split: if_splits)
      moreover have "being_answered L s" using being_answered_at[OF inv i] n t ans by simp
      ultimately show ?thesis using lane_invD(5)[OF inv, of L] mine[OF n(1)] n i
        by (auto simp: lane_ok_def hall same s1 answers_def turn less_Suc_eq)
    qed
  qed
  then show ?thesis by (simp add: s2_def)
qed


lemma serve_task_fields [hall]:
  assumes "serve_task E c conn q s = Some s1"
  shows "ha_turn s1 = ha_turn s" "ha_next s1 = ha_next s" "ha_tasks s1 = ha_tasks s" "ha_heard s1 = ha_heard s" "ha_served s1 = ha_served s"
    "ha_talks s1 = ha_talks s" "ha_active s1 = ha_active s" "ha_accepting s1 = ha_accepting s" "ha_limit s1 = ha_limit s" "ha_signal s1 = ha_signal s"
  using assms by (auto simp: serve_task_def say_reply_def hall split: if_splits)

lemma lane_inv_step:
  assumes "hall_step E s s1" and inv: "lane_inv s"
  shows "lane_inv s1"
  using assms(1)
proof cases
  case (asked conn line r q p s2)
  then show ?thesis using lane_inv_asked[OF inv] by simp
next
  case (admitted conn q p s2)
  have "s2 = s\<lparr>ha_active := Suc (ha_active s)\<rparr>" using admitted(3) by (auto simp: admission_begin_def split: if_splits)
  then show ?thesis using lane_inv_admitted[OF inv admitted(2)] admitted(1) by simp
next
  case (entered i t)
  then have t: "i < length (ha_tasks s)" "ha_tasks s ! i = t" "tk_phase t = Waits" by (simp_all add: task_in_def)
  show ?thesis unfolding entered(1)
    by (rule lane_inv_calm[OF inv t(1)]) (use t entered(3) in \<open>auto simp: may_enter_def phase_ok_def\<close>)
next
  case (served i t c s2)
  then have t: "i < length (ha_tasks s)" "ha_tasks s ! i = t" "tk_phase t = Runs" by (simp_all add: task_in_def)
  note f = serve_task_fields[OF served(3)]
  have inv2: "lane_inv s2" by (rule lane_inv_same[OF inv]) (simp_all add: f)
  show ?thesis using lane_inv_served[OF inv2, of i t] t unfolding served(1) by (simp add: f)
next
  case (left i t)
  then show ?thesis using lane_inv_left[OF inv, of i t] by (simp add: task_in_def)
next
  case (over i t)
  then have t: "i < length (ha_tasks s)" "ha_tasks s ! i = t" "tk_phase t = Left" by (simp_all add: task_in_def)
  have ok: "phase_ok (ha_turn s L) n Over" if "tk_place t = Some (L, n)" for L n
    using lane_invD(1)[OF inv t(1)] t that by (auto simp: task_ok_def phase_ok_def split: if_splits)
  have "lane_inv (set_task i Over s)" by (rule lane_inv_calm[OF inv t(1)]) (use t ok in auto)
  then show ?thesis unfolding over(1) by (rule lane_inv_same) (simp_all add: hall task_drop_def)
qed (auto intro!: lane_inv_same[OF inv] simp: hall hall_ops)

lemma lane_inv_reachable: "(hall_step E)\<^sup>*\<^sup>* (hall_new limit d) s \<Longrightarrow> lane_inv s"
  by (induction rule: rtranclp_induct) (auto simp: lane_inv_new intro: lane_inv_step)


section \<open>Admission\<close>

definition unfinished :: "'r hall \<Rightarrow> nat set" where
  "unfinished s = {i. i < length (ha_tasks s) \<and> tk_phase (ha_tasks s ! i) \<noteq> Over}"

text \<open>The count is exact and within the limit; a gate that somebody closed stays closed; a daemon that stops has no work.\<close>

definition admission_inv :: "'r hall \<Rightarrow> bool" where
  "admission_inv s \<longleftrightarrow> ha_active s = card (unfinished s) \<and> ha_active s \<le> ha_limit s
     \<and> (ha_signal s \<or> (\<exists>conn q. ha_talks s conn = Closing q) \<longrightarrow> \<not> ha_accepting s)
     \<and> (dm_stopping (ha_daemon s) \<longrightarrow> \<not> ha_accepting s \<and> ha_active s = 0)
     \<and> (\<forall>t \<in> set (ha_tasks s). rq_op (tk_request t) \<noteq> ''shutdown''
          \<and> (tk_phase t \<noteq> Waits \<longrightarrow> tk_phase t \<noteq> Runs \<longrightarrow> (tk_conn t, tk_request t) \<in> set (ha_served s)))
     \<and> (\<forall>conn q p. ha_talks s conn = Holding q p \<longrightarrow> rq_op q \<noteq> ''shutdown'')"

lemma unfinished_set_task:
  "i < length (ha_tasks s) \<Longrightarrow> unfinished (set_task i p s) = (if p = Over then unfinished s - {i} else insert i (unfinished s))"
  by (auto simp: unfinished_def hall nth_list_update)

lemma unfinished_spawn: "unfinished (spawn conn q p s) = insert (length (ha_tasks s)) (unfinished s)"
  by (auto simp: unfinished_def spawn_def nth_append less_Suc_eq)

lemma unfinished_finite [simp]: "finite (unfinished s)" "length (ha_tasks s) \<notin> unfinished s"
  by (simp_all add: unfinished_def)

lemma unfinished_same: "ha_tasks s1 = ha_tasks s \<Longrightarrow> unfinished s1 = unfinished s"
  by (simp add: unfinished_def)

lemma with_world_stopping [simp]: "dm_stopping (with_world w d) = dm_stopping d"
  by (simp add: with_world_def)

lemma given_stopping:
  "given r d f = Some (d1, x) \<Longrightarrow> (\<And>y. f y = Some (d1, x) \<Longrightarrow> dm_stopping d1 = dm_stopping d) \<Longrightarrow> dm_stopping d1 = dm_stopping d"
  by (auto simp: given_def split: sum.splits)

lemma accepted_stopping: "accepted d r = Some (d1, x) \<Longrightarrow> dm_stopping d1 = dm_stopping d"
  by (auto simp: accepted_def)

lemma given_accepted_stopping: "given r d (\<lambda>y. accepted d (f y)) = Some (d1, x) \<Longrightarrow> dm_stopping d1 = dm_stopping d"
  by (erule given_stopping) (rule accepted_stopping)

lemma operations_stopping:
  "serve_open E c q conn d = Some (d1, x) \<Longrightarrow> dm_stopping d1 = dm_stopping d"
  "serve_send E c q d = Some (d1, x) \<Longrightarrow> dm_stopping d1 = dm_stopping d"
  "serve_set E c q d = Some (d1, x) \<Longrightarrow> dm_stopping d1 = dm_stopping d"
  "serve_stop E c q d = Some (d1, x) \<Longrightarrow> dm_stopping d1 = dm_stopping d"
  "serve_detach c q conn d = Some (d1, x) \<Longrightarrow> dm_stopping d1 = dm_stopping d"
  "serve_status q d = Some (d1, x) \<Longrightarrow> dm_stopping d1 = dm_stopping d"
  "serve_events E q d = Some (d1, x) \<Longrightarrow> dm_stopping d1 = dm_stopping d"
  "serve_dial E c q d = Some (d1, x) \<Longrightarrow> dm_stopping d1 = dm_stopping d"
  "serve_account c q d = Some (d1, x) \<Longrightarrow> dm_stopping d1 = dm_stopping d"
  unfolding serve_open_def serve_send_def serve_set_def serve_stop_def serve_detach_def serve_status_def serve_events_def
  by (auto elim!: given_stopping dest!: accepted_stopping given_accepted_stopping simp: Let_def case_prod_beta serve_dial_def serve_account_def
      split: option.splits sum.splits if_splits)

lemma answer_stopping:
  assumes "daemon_answer E c q conn d = Some (d1, rp)" and "rq_op q \<noteq> ''shutdown''"
  shows "dm_stopping d1 = dm_stopping d"
proof -
  obtain r where "serve_dispatch E c q conn d = Some (d1, r)" using assms(1) by (auto simp: daemon_answer_def)
  then show ?thesis
    using assms(2) unfolding serve_dispatch_def
    by (elim given_stopping) (auto simp: dispatch_op_def Let_def case_prod_beta split: if_splits dest: operations_stopping)
qed


lemma answer_still_stopping:
  assumes "daemon_answer E c q conn d = Some (d1, rp)" and "dm_stopping d"
  shows "dm_stopping d1"
proof (cases "rq_op q = ''shutdown''")
  case True
  then show ?thesis using assms
    by (auto simp: daemon_answer_def serve_dispatch_def given_Some dispatch_op_def Let_def)
qed (use answer_stopping[OF assms(1)] assms(2) in simp)

lemma admission_invD:
  assumes "admission_inv s"
  shows "ha_active s = card (unfinished s)" "ha_active s \<le> ha_limit s" "ha_signal s \<Longrightarrow> \<not> ha_accepting s"
    "ha_talks s conn = Closing q \<Longrightarrow> \<not> ha_accepting s" "dm_stopping (ha_daemon s) \<Longrightarrow> \<not> ha_accepting s \<and> ha_active s = 0"
    "t \<in> set (ha_tasks s) \<Longrightarrow> rq_op (tk_request t) \<noteq> ''shutdown''"
    "t \<in> set (ha_tasks s) \<Longrightarrow> tk_phase t \<noteq> Waits \<Longrightarrow> tk_phase t \<noteq> Runs \<Longrightarrow> (tk_conn t, tk_request t) \<in> set (ha_served s)"
    "ha_talks s conn = Holding q p \<Longrightarrow> rq_op q \<noteq> ''shutdown''"
  using assms unfolding admission_inv_def by blast+

lemma admission_invI:
  assumes "ha_active s = card (unfinished s)" "ha_active s \<le> ha_limit s" "ha_signal s \<Longrightarrow> \<not> ha_accepting s"
    "\<And>conn q. ha_talks s conn = Closing q \<Longrightarrow> \<not> ha_accepting s" "dm_stopping (ha_daemon s) \<Longrightarrow> \<not> ha_accepting s \<and> ha_active s = 0"
    "\<And>t. t \<in> set (ha_tasks s) \<Longrightarrow> rq_op (tk_request t) \<noteq> ''shutdown''"
    "\<And>t. t \<in> set (ha_tasks s) \<Longrightarrow> tk_phase t \<noteq> Waits \<Longrightarrow> tk_phase t \<noteq> Runs \<Longrightarrow> (tk_conn t, tk_request t) \<in> set (ha_served s)"
    "\<And>conn q p. ha_talks s conn = Holding q p \<Longrightarrow> rq_op q \<noteq> ''shutdown''"
  shows "admission_inv s"
  using assms unfolding admission_inv_def by blast

lemma admission_inv_task:
  assumes inv: "admission_inv s" and t: "i < length (ha_tasks s)" "ha_tasks s ! i = t" "tk_phase t \<noteq> Over" and "p \<noteq> Over"
    and "ha_tasks s1 = ha_tasks s" "ha_active s1 = ha_active s" "ha_limit s1 = ha_limit s" "ha_accepting s1 = ha_accepting s" "ha_signal s1 = ha_signal s"
    "ha_talks s1 = ha_talks s" "dm_stopping (ha_daemon s1) = dm_stopping (ha_daemon s)" "set (ha_served s) \<subseteq> set (ha_served s1)"
    "p \<noteq> Waits \<Longrightarrow> p \<noteq> Runs \<Longrightarrow> (tk_conn t, tk_request t) \<in> set (ha_served s1)"
  shows "admission_inv (set_task i p s1)"
proof -
  have "i \<in> unfinished s1" using t assms(6) by (simp add: unfinished_def)
  then have "unfinished (set_task i p s1) = unfinished s"
    using t assms(5,6) by (simp add: unfinished_set_task insert_absorb unfinished_same[OF assms(6)])
  note same = this assms(7-12)
  have u: "u = t\<lparr>tk_phase := p\<rparr> \<or> u \<in> set (ha_tasks s)" if "u \<in> set (ha_tasks (set_task i p s1))" for u
    using that set_update_subset_insert[of "ha_tasks s" i] t(2) assms(6) by (auto simp: hall)
  have mem: "t \<in> set (ha_tasks s)" using t by auto
  note d = admission_invD[OF inv]
  show ?thesis
  proof (rule admission_invI)
    fix v assume v: "v \<in> set (ha_tasks (set_task i p s1))"
    show "rq_op (tk_request v) \<noteq> ''shutdown''" using u[OF v] d(6)[of v] d(6)[OF mem] by auto
    assume "tk_phase v \<noteq> Waits" "tk_phase v \<noteq> Runs"
    then show "(tk_conn v, tk_request v) \<in> set (ha_served (set_task i p s1))"
      using u[OF v] d(7)[of v] assms(13,14) by (auto simp: hall)
  qed (use d in \<open>auto simp: hall same\<close>)
qed

lemma admission_inv_calm:
  assumes "admission_inv s" and "ha_tasks s1 = ha_tasks s" "ha_active s1 = ha_active s" "ha_limit s1 = ha_limit s" "ha_served s1 = ha_served s"
    and "ha_accepting s1 \<Longrightarrow> ha_accepting s \<and> ha_signal s1 = ha_signal s \<and> (\<forall>conn q. ha_talks s1 conn = Closing q \<longrightarrow> ha_talks s conn = Closing q)"
    and "\<And>conn q p. ha_talks s1 conn = Holding q p \<Longrightarrow> ha_talks s conn = Holding q p \<or> rq_op q \<noteq> ''shutdown''"
    and "dm_stopping (ha_daemon s1) \<Longrightarrow> dm_stopping (ha_daemon s) \<or> \<not> ha_accepting s1 \<and> ha_active s1 = 0"
  shows "admission_inv s1"
proof (rule admission_invI)
  note d = admission_invD[OF assms(1)]
  show "ha_active s1 = card (unfinished s1)" "ha_active s1 \<le> ha_limit s1" using d(1,2) by (simp_all add: assms(3,4) unfinished_same[OF assms(2)])
  show "ha_signal s1 \<Longrightarrow> \<not> ha_accepting s1" using d(3) assms(6) by auto
  show "ha_talks s1 conn = Closing q \<Longrightarrow> \<not> ha_accepting s1" for conn q using d(4) assms(6) by blast
  show "dm_stopping (ha_daemon s1) \<Longrightarrow> \<not> ha_accepting s1 \<and> ha_active s1 = 0" using d(5) assms(3,6,8) by auto
  show "t \<in> set (ha_tasks s1) \<Longrightarrow> rq_op (tk_request t) \<noteq> ''shutdown''" for t using d(6) by (simp add: assms(2))
  show "t \<in> set (ha_tasks s1) \<Longrightarrow> tk_phase t \<noteq> Waits \<Longrightarrow> tk_phase t \<noteq> Runs \<Longrightarrow> (tk_conn t, tk_request t) \<in> set (ha_served s1)" for t
    using d(7) by (simp add: assms(2,5))
  show "ha_talks s1 conn = Holding q p \<Longrightarrow> rq_op q \<noteq> ''shutdown''" for conn q p using d(8) assms(7) by blast
qed

lemma admission_inv_step:
  assumes "hall_step E s s1" and inv: "admission_inv s"
  shows "admission_inv s1"
  using assms(1)
proof cases
  case (asked conn line r q p s2)
  then have "ha_tasks s2 = ha_tasks s" "ha_active s2 = ha_active s" "ha_limit s2 = ha_limit s" "ha_accepting s2 = ha_accepting s"
    "ha_signal s2 = ha_signal s" "ha_talks s2 = ha_talks s" "ha_daemon s2 = ha_daemon s" "ha_served s2 = ha_served s"
    by (auto simp: take_ticket_def Let_def split: option.splits)
  then show ?thesis unfolding asked(1) using asked(4) by (intro admission_inv_calm[OF inv]) (auto simp: hall split: if_splits)
next
  case (admitted conn q p s2)
  have s2: "s2 = s\<lparr>ha_active := Suc (ha_active s)\<rparr>" "ha_accepting s" "ha_active s < ha_limit s"
    using admitted(3) by (auto simp: admission_begin_def split: if_splits)
  have "rq_op q \<noteq> ''shutdown''" using inv admitted(2) by (auto simp: admission_inv_def)
  moreover have "unfinished s1 = insert (length (ha_tasks s)) (unfinished s)"
    using unfinished_spawn[of conn q p s] by (simp add: admitted(1) s2(1) unfinished_def hall spawn_def)
  ultimately show ?thesis using inv s2 unfolding admission_inv_def admitted(1) by (auto simp: hall spawn_def)
next
  case (entered i t)
  then show ?thesis unfolding entered(1) by (intro admission_inv_task[OF inv, of i t]) (auto simp: task_in_def)
next
  case (served i t c s2)
  note f = serve_task_fields[OF served(3)]
  have "t \<in> set (ha_tasks s)" using served(2) by (auto simp: task_in_def)
  then have "rq_op (tk_request t) \<noteq> ''shutdown''" using inv by (auto simp: admission_inv_def)
  then have "dm_stopping (ha_daemon s2) = dm_stopping (ha_daemon s)"
    using served(3) by (auto simp: serve_task_def say_reply_def hall split: if_splits dest: answer_stopping)
  then show ?thesis unfolding served(1) using served(2) by (intro admission_inv_task[OF inv, of i t]) (auto simp: task_in_def f)
next
  case (left i t)
  have "t \<in> set (ha_tasks s)" using left(2) by (auto simp: task_in_def)
  then have "(tk_conn t, tk_request t) \<in> set (ha_served s)" using inv left(2) by (auto simp: admission_inv_def task_in_def)
  then show ?thesis unfolding left(1) using left(2)
    by (intro admission_inv_task[OF inv, of i t]) (auto simp: task_in_def turn_drop_def split: option.splits)
next
  case (over i t)
  then have t: "i < length (ha_tasks s)" "ha_tasks s ! i = t" "tk_phase t = Left" by (simp_all add: task_in_def)
  then have i: "i \<in> unfinished s" by (simp add: unfinished_def)
  have "unfinished s1 = unfinished s - {i}" using unfinished_set_task[of i s Over] t(1)
    by (simp add: over(1) unfinished_def hall task_drop_def)
  note un = this
  have u: "u = t\<lparr>tk_phase := Over\<rparr> \<or> u \<in> set (ha_tasks s)" if "u \<in> set (ha_tasks s1)" for u
    using that set_update_subset_insert[of "ha_tasks s" i] t(2) by (auto simp: over(1) hall task_drop_def)
  have mem: "t \<in> set (ha_tasks s)" using t by auto
  have s1: "ha_active s1 = ha_active s - 1" "ha_limit s1 = ha_limit s" "ha_accepting s1 = ha_accepting s" "ha_signal s1 = ha_signal s"
    "ha_talks s1 = ha_talks s" "ha_served s1 = ha_served s" "ha_daemon s1 = ha_daemon s" by (simp_all add: over(1) hall task_drop_def)
  note d = admission_invD[OF inv]
  show ?thesis
  proof (rule admission_invI)
    show "ha_active s1 = card (unfinished s1)" using d(1) i by (simp add: s1 un card_Diff_singleton)
    fix v assume v: "v \<in> set (ha_tasks s1)"
    show "rq_op (tk_request v) \<noteq> ''shutdown''" using u[OF v] d(6)[of v] d(6)[OF mem] by auto
    assume "tk_phase v \<noteq> Waits" "tk_phase v \<noteq> Runs"
    then show "(tk_conn v, tk_request v) \<in> set (ha_served s1)" using u[OF v] d(7)[of v] d(7)[OF mem] t by (auto simp: s1)
  qed (use d in \<open>auto simp: s1\<close>)
next
  case (stopped conn q c d rp instant ms)
  then show ?thesis using inv by (intro admission_inv_calm[OF inv]) (auto simp: hall hall_ops admission_inv_def split: if_splits)
next
  case signal_done
  then show ?thesis using inv by (intro admission_inv_calm[OF inv]) (auto simp: admission_inv_def admission_idle_def)
qed (auto intro!: admission_inv_calm[OF inv] simp: hall hall_ops split: if_splits)


lemma admission_inv_reachable:
  assumes "(hall_step E)\<^sup>*\<^sup>* (hall_new limit d) s" and "\<not> dm_stopping d"
  shows "admission_inv s \<and> ha_limit s = limit"
  using assms(1)
proof (induction rule: rtranclp_induct)
  case base
  show ?case using assms(2) by (auto simp: admission_inv_def hall_new_def unfinished_def)
next
  case (step s s1)
  have "ha_limit s1 = ha_limit s" using step(2)
    by cases (auto simp: hall hall_ops take_ticket_def serve_task_fields split: option.splits if_splits)
  with step admission_inv_step show ?case by metis
qed

lemma work_goes_on:
  assumes inv: "lane_inv s" and i: "i \<in> unfinished s"
  shows "\<exists>j \<in> unfinished s. tk_phase (ha_tasks s ! j) = Waits \<longrightarrow> may_enter (tk_place (ha_tasks s ! j)) s"
proof (cases "tk_phase (ha_tasks s ! i) = Waits \<and> \<not> may_enter (tk_place (ha_tasks s ! i)) s")
  case True
  then obtain L n where n: "tk_place (ha_tasks s ! i) = Some (L, n)" "ha_turn s L \<noteq> n"
    by (cases "tk_place (ha_tasks s ! i)") (auto simp: may_enter_def)
  have ok: "task_ok s (ha_tasks s ! i)" using lane_invD(1)[OF inv] i by (simp add: unfinished_def)
  then have "ha_turn s L < n" using n True by (auto simp: task_ok_def phase_ok_def split: if_splits)
  then have "Some (L, ha_turn s L) \<in> set (places s)" using ok n by (auto simp: task_ok_def)
  then obtain j where j: "j < length (ha_tasks s)" "tk_place (ha_tasks s ! j) = Some (L, ha_turn s L)"
    by (auto simp: places_def in_set_conv_nth dest!: sym[of "Some _"])
  have "tk_phase (ha_tasks s ! j) \<noteq> Over" using lane_invD(1)[OF inv j(1)] j(2) by (auto simp: task_ok_def phase_ok_def)
  with j show ?thesis by (auto simp: unfinished_def may_enter_def intro!: bexI[of _ j])
qed (use i in blast)

text \<open>
  admitted work is bounded and never stuck. At most the limit of tasks are unfinished at any
  moment, which is the number the daemon counts; and while one is, some task can go on: none
  waits for a ticket whose holder is gone.
\<close>

theorem admitted_work_goes_on:
  assumes "(hall_step E)\<^sup>*\<^sup>* (hall_new limit d) s" and "\<not> dm_stopping d"
  shows "ha_active s = card (unfinished s) \<and> card (unfinished s) \<le> limit
    \<and> (unfinished s \<noteq> {} \<longrightarrow> (\<exists>j \<in> unfinished s. tk_phase (ha_tasks s ! j) = Waits \<longrightarrow> may_enter (tk_place (ha_tasks s ! j)) s))"
  using admission_inv_reachable[OF assms] work_goes_on[OF lane_inv_reachable[OF assms(1)]] by (auto simp: admission_inv_def)

lemma stopping_step:
  assumes "hall_step E s s1" and "admission_inv s" and "dm_stopping (ha_daemon s)"
  shows "ha_tasks s1 = ha_tasks s \<and> ha_served s1 = ha_served s \<and> dm_stopping (ha_daemon s1)"
proof -
  note d = admission_invD[OF assms(2)]
  have none: "\<not> task_in i p s t" if "p \<noteq> Over" for i p t
    using that d(1) d(5)[OF assms(3)] by (auto simp: task_in_def unfinished_def)
  have keep: "daemon_answer E c q conn (ha_daemon s) = Some (d1, rp) \<Longrightarrow> dm_stopping d1" for c q conn d1 rp
    using answer_still_stopping assms(3) by blast
  show ?thesis using assms(1)
  proof cases
    case (admitted conn q p s2)
    then show ?thesis using d(5)[OF assms(3)] by (auto simp: admission_begin_def split: if_splits)
  next
    case (asked conn line r q p s2)
    then show ?thesis using assms(3) by (auto simp: take_ticket_def Let_def hall split: option.splits)
  qed (use none assms(3) in \<open>auto simp: hall hall_ops dest: keep\<close>)
qed

text \<open>
  C10: a shutdown is a barrier. When the daemon has begun to stop, by a request or a signal, every
  request it had admitted on any connection is answered and over; and from then on nothing is
  admitted or answered by a task any more, whatever the connections do.
\<close>

theorem shutdown_barrier:
  assumes "(hall_step E)\<^sup>*\<^sup>* (hall_new limit d) s" and "\<not> dm_stopping d" and "dm_stopping (ha_daemon s)" and "(hall_step E)\<^sup>*\<^sup>* s s1"
  shows "(\<forall>t \<in> set (ha_tasks s). tk_phase t = Over \<and> (tk_conn t, tk_request t) \<in> set (ha_served s))
    \<and> ha_tasks s1 = ha_tasks s \<and> ha_served s1 = ha_served s"
proof -
  have inv: "admission_inv s" using admission_inv_reachable[OF assms(1,2)] by blast
  have "unfinished s = {}" using admission_invD(1,5)[OF inv] assms(3) by auto
  then have over: "tk_phase t = Over" if "t \<in> set (ha_tasks s)" for t using that by (auto simp: unfinished_def in_set_conv_nth)
  have "ha_tasks s1 = ha_tasks s \<and> ha_served s1 = ha_served s \<and> dm_stopping (ha_daemon s1) \<and> admission_inv s1"
    using assms(4)
  proof (induction rule: rtranclp_induct)
    case (step s1 s2)
    then show ?case using stopping_step[OF step(2)] admission_inv_step[OF step(2)] by auto
  qed (use assms(3) inv in blast)
  with over admission_invD(7)[OF inv] show ?thesis by auto
qed

text \<open>
  A request to shut down that names a session with an invalid id closes the gate and is then refused:
  the daemon goes on without admitting any request. The order in which \<open>talk\<close> closes the gate and
  \<open>dispatch\<close> validates the id makes this possible.
\<close>

lemma refused_shutdown_closes_the_gate:
  assumes "ha_talks s conn = Reading" and "hear (en_codec E) line r = Asks q" and "rq_op q = ''shutdown''"
    and "rq_session q = Some sid" and "validate_session_id sid = Inl why" and "ha_active s = 0"
  shows "\<exists>s1. (hall_step E)\<^sup>*\<^sup>* s s1 \<and> \<not> ha_accepting s1 \<and> dm_stopping (ha_daemon s1) = dm_stopping (ha_daemon s)"
proof -
  let ?s1 = "set_talk conn (Closing q) (admission_close s)"
  have 1: "hall_step E s ?s1" by (rule stop_asked[OF assms(1-3)])
  have a: "daemon_answer E c q conn (ha_daemon ?s1) = Some (ha_daemon ?s1, reply_failed (rq_id q) why)" for c
    using assms(4,5) by (simp add: daemon_answer_def serve_dispatch_def given_def)
  have 2: "hall_step E ?s1 (talk_ends conn 0 (last_word (en_codec E) conn (reply_failed (rq_id q) why) [] (?s1\<lparr>ha_daemon := ha_daemon ?s1\<rparr>)))"
    by (rule stopped[OF _ _ a]) (simp_all add: hall hall_ops assms(6))
  moreover have "\<not> ha_accepting (talk_ends conn 0 (last_word (en_codec E) conn (reply_failed (rq_id q) why) [] (?s1\<lparr>ha_daemon := ha_daemon ?s1\<rparr>)))"
    "dm_stopping (ha_daemon (talk_ends conn 0 (last_word (en_codec E) conn (reply_failed (rq_id q) why) [] (?s1\<lparr>ha_daemon := ha_daemon ?s1\<rparr>))))
      = dm_stopping (ha_daemon s)" by (simp_all add: hall hall_ops)
  ultimately show ?thesis using 1 by (meson converse_rtranclp_into_rtranclp r_into_rtranclp)
qed

section \<open>An instance\<close>

definition ping_request :: request where
  "ping_request = request_on ''s'' (request_new 7 ''ping'')"

definition ping_env :: "(string \<times> string list) env" where
  "ping_env = tape_env\<lparr>en_codec := (en_codec tape_env)\<lparr>from_slice := (\<lambda>_. Inr (request_value ping_request))\<rparr>\<rparr>"

definition ping_lane :: lane where
  "ping_lane = Lane 4 ''session:s''"

lemma ping_heard: "hear (en_codec ping_env) ''x'' (Inr Whole) = Asks ping_request"
proof -
  have "request_of (request_value ping_request) = Some ping_request" by code_simp
  moreover have "utf8_ok ''x''" "trim ''x'' \<noteq> []" by code_simp+
  ultimately show ?thesis by (simp add: hear_def ping_env_def)
qed

lemma ping_key: "lane_key ping_request = Some ''session:s''" "rq_op ping_request = ''ping''"
  by (simp_all add: ping_request_def request_on_def request_new_def lane_key_def)

lemma ping_answered: "\<exists>s1. serve_task ping_env tape_desk 4 ping_request s = Some s1"
proof -
  have "validate_session_id ''s'' = Inr ()" by code_simp
  then have "daemon_answer ping_env tape_desk ping_request 4 d \<noteq> None" for d
    by (simp add: daemon_answer_def serve_dispatch_def given_def ping_request_def request_on_def request_new_def dispatch_op_def)
  then show ?thesis by (auto simp: serve_task_def)
qed

lemma ping_path:
  "\<exists>s. (hall_step ping_env)\<^sup>*\<^sup>* (hall_new 1 tape_daemon) s \<and> served_on ping_lane s = [(4, ping_request)]
     \<and> heard_on ping_lane s = [(4, ping_request)] \<and> unfinished s = {0}"
proof -
  let ?s0 = "hall_new 1 tape_daemon :: (string \<times> string list) hall" and ?p = "Some (ping_lane, 0)"
  let ?s1 = "set_talk 4 (Holding ping_request ?p) (?s0\<lparr>ha_next := (\<lambda>_. 0)(ping_lane := 1), ha_heard := ha_heard ?s0 @ [(4, ping_request)]\<rparr>)"
  let ?s2 = "set_talk 4 Reading (spawn 4 ping_request ?p (?s1\<lparr>ha_active := Suc 0\<rparr>))"
  let ?s3 = "set_task 0 Runs ?s2"
  have t: "take_ticket 4 ping_request ?s0 = (?p, ?s0\<lparr>ha_next := (\<lambda>_. 0)(ping_lane := 1)\<rparr>)"
    by (simp add: take_ticket_def ping_key ping_lane_def hall_new_def Let_def)
  have 1: "hall_step ping_env ?s0 ?s1"
    using asked[OF _ ping_heard _ t] by (simp add: hall_new_def ping_key)
  have 2: "hall_step ping_env ?s1 ?s2" by (rule admitted) (simp_all add: hall admission_begin_def hall_new_def)
  have 3: "hall_step ping_env ?s2 ?s3"
    by (rule entered[where t = "\<lparr>tk_conn = 4, tk_request = ping_request, tk_place = ?p, tk_phase = Waits\<rparr>"])
      (simp_all add: task_in_def hall spawn_def hall_new_def may_enter_def)
  obtain s4 where s4: "serve_task ping_env tape_desk 4 ping_request ?s3 = Some s4" using ping_answered by blast
  let ?s5 = "set_task 0 Answered (s4\<lparr>ha_served := ha_served ?s3 @ [(4, ping_request)]\<rparr>)"
  let ?t = "\<lparr>tk_conn = 4, tk_request = ping_request, tk_place = ?p, tk_phase = Runs\<rparr>"
  have 4: "hall_step ping_env ?s3 ?s5"
    by (rule served[of 0 _ ?t, simplified, OF _ s4]) (simp add: task_in_def hall spawn_def hall_new_def)
  have "on_lane ping_lane (4, ping_request)" by (simp add: on_lane_def ping_lane_def ping_key)
  then have "served_on ping_lane ?s5 = [(4, ping_request)]" "heard_on ping_lane ?s5 = [(4, ping_request)]" "unfinished ?s5 = {0}"
    using serve_task_fields[OF s4] by (auto simp: served_on_def heard_on_def unfinished_def hall spawn_def hall_new_def)
  moreover have "(hall_step ping_env)\<^sup>*\<^sup>* ?s0 ?s5"
    using 1 2 3 4 by (meson converse_rtranclp_into_rtranclp r_into_rtranclp)
  ultimately show ?thesis by blast
qed


theorem admitted_work_goes_on_witness:
  "\<exists>s. (hall_step ping_env)\<^sup>*\<^sup>* (hall_new 1 tape_daemon) s \<and> unfinished s \<noteq> {} \<and> card (unfinished s) \<le> 1
     \<and> (\<exists>j \<in> unfinished s. tk_phase (ha_tasks s ! j) = Waits \<longrightarrow> may_enter (tk_place (ha_tasks s ! j)) s)"
proof -
  obtain s where s: "(hall_step ping_env)\<^sup>*\<^sup>* (hall_new 1 tape_daemon) s" "unfinished s = {0}" using ping_path by blast
  have "\<not> dm_stopping tape_daemon" by (simp add: tape_daemon_def)
  with admitted_work_goes_on[OF s(1)] s show ?thesis by blast
qed

theorem shutdown_barrier_witness:
  "\<exists>s. (hall_step tape_env)\<^sup>*\<^sup>* (hall_new 1 tape_daemon) s \<and> dm_stopping (ha_daemon s) \<and> (\<forall>t \<in> set (ha_tasks s). tk_phase t = Over)"
proof -
  let ?s0 = "hall_new 1 tape_daemon :: (string \<times> string list) hall"
  let ?s1 = "(admission_close ?s0)\<lparr>ha_signal := True\<rparr>"
  let ?s2 = "?s1\<lparr>ha_daemon := (ha_daemon ?s1)\<lparr>dm_stopping := True\<rparr>\<rparr>"
  have "hall_step tape_env ?s0 ?s1" by (rule signalled)
  moreover have "hall_step tape_env ?s1 ?s2" by (rule signal_done) (simp_all add: hall_ops hall_new_def)
  ultimately have r: "(hall_step tape_env)\<^sup>*\<^sup>* ?s0 ?s2" by (meson converse_rtranclp_into_rtranclp r_into_rtranclp)
  have "\<not> dm_stopping tape_daemon" by (simp add: tape_daemon_def)
  with shutdown_barrier[OF r _ _ rtranclp.rtrancl_refl] r show ?thesis by auto
qed

end
