(* ===== verification/Daemon_Start.thy ===== *)
theory Daemon_Start
  imports Omni_Prelude
begin

text \<open>
  \<open>main.rs\<close>: how a daemon takes hold of its home and lets go of it (\<open>run\<close>, \<open>lock_daemon\<close>,
  \<open>claim\<close>). Several processes may be started on one home at any time, and any of them may give up or
  die at any point; the kernel then releases its lock and closes its listener, and the socket file
  stays behind. A step is one system call that another process can notice.
\<close>

text \<open>
  \<open>Locked\<close>: holds the lock and has not looked at the socket; \<open>Claimed\<close>: has found it free;
  \<open>Listening\<close>: serves; \<open>Winding_Down\<close>: has left the accept loop, its listener still open;
  \<open>Unlinked\<close>: has removed the socket file.
\<close>

datatype daemon_phase = Starting | Locked | Claimed | Listening | Winding_Down | Unlinked | Ended

record site =
  si_lock :: "nat option"
  si_pid_text :: string
  si_socket :: "nat option"
  si_phase :: "nat \<Rightarrow> daemon_phase"

definition site_new :: site where
  "site_new = \<lparr>si_lock = None, si_pid_text = [], si_socket = None, si_phase = (\<lambda>_. Starting)\<rparr>"

definition becomes :: "nat \<Rightarrow> daemon_phase \<Rightarrow> site \<Rightarrow> site" where
  "becomes p ph s = s\<lparr>si_phase := (si_phase s)(p := ph)\<rparr>"

text \<open>A process that ends gives back its lock.\<close>

definition ends :: "nat \<Rightarrow> site \<Rightarrow> site" where
  "ends p s = (becomes p Ended s)\<lparr>si_lock := if si_lock s = Some p then None else si_lock s\<rparr>"

text \<open>Whether a connection to the socket file is taken: its listener is still open.\<close>

definition answers_at :: "nat \<Rightarrow> site \<Rightarrow> bool" where
  "answers_at p s \<longleftrightarrow> si_phase s p = Listening \<or> si_phase s p = Winding_Down \<or> si_phase s p = Unlinked"

definition lock_daemon :: "nat \<Rightarrow> site \<Rightarrow> site \<times> unit res" where
  "lock_daemon p s =
     (if si_lock s \<noteq> None then (s, Inl ''another omnid already owns '')
      else (s\<lparr>si_lock := Some p, si_pid_text := show_nat p\<rparr>, Inr ()))"

definition claim :: "site \<Rightarrow> site \<times> unit res" where
  "claim s =
     (case si_socket s of
        None \<Rightarrow> (s, Inr ())
      | Some q \<Rightarrow>
          if answers_at q s then (s, Inl ''another omnid is already listening on '')
          else (s\<lparr>si_socket := None\<rparr>, Inr ()))"

definition bind_socket :: "nat \<Rightarrow> site \<Rightarrow> site \<times> unit res" where
  "bind_socket p s = (if si_socket s = None then (s\<lparr>si_socket := Some p\<rparr>, Inr ()) else (s, Inl ''cannot listen on ''))"

inductive start_step :: "site \<Rightarrow> site \<Rightarrow> bool" where
  locked: "si_phase s p = Starting \<Longrightarrow> lock_daemon p s = (s1, Inr ()) \<Longrightarrow> start_step s (becomes p Locked s1)"
| not_locked: "si_phase s p = Starting \<Longrightarrow> lock_daemon p s = (s1, Inl why) \<Longrightarrow> start_step s (ends p s1)"
| claimed: "si_phase s p = Locked \<Longrightarrow> claim s = (s1, Inr ()) \<Longrightarrow> start_step s (becomes p Claimed s1)"
| not_claimed: "si_phase s p = Locked \<Longrightarrow> claim s = (s1, Inl why) \<Longrightarrow> start_step s (ends p s1)"
| bound: "si_phase s p = Claimed \<Longrightarrow> bind_socket p s = (s1, Inr ()) \<Longrightarrow> start_step s (becomes p Listening s1)"
| not_bound: "si_phase s p = Claimed \<Longrightarrow> bind_socket p s = (s1, Inl why) \<Longrightarrow> start_step s (ends p s1)"
| told_to_stop: "si_phase s p = Listening \<Longrightarrow> start_step s (becomes p Winding_Down s)"
| unlinked: "si_phase s p = Winding_Down \<Longrightarrow> start_step s (becomes p Unlinked (s\<lparr>si_socket := None\<rparr>))"
| ended: "si_phase s p = Unlinked \<Longrightarrow> start_step s (ends p s)"
| died: "start_step s (ends p s)"

text \<open>Who is past the lock holds it, and what a daemon serves is what clients find.\<close>

definition proc_ok :: "site \<Rightarrow> nat \<Rightarrow> bool" where
  "proc_ok s p =
     (case si_phase s p of
        Starting \<Rightarrow> si_lock s \<noteq> Some p
      | Ended \<Rightarrow> si_lock s \<noteq> Some p
      | Locked \<Rightarrow> si_lock s = Some p
      | Claimed \<Rightarrow> si_lock s = Some p \<and> si_socket s = None
      | Unlinked \<Rightarrow> si_lock s = Some p \<and> si_socket s = None
      | Listening \<Rightarrow> si_lock s = Some p \<and> si_socket s = Some p
      | Winding_Down \<Rightarrow> si_lock s = Some p \<and> si_socket s = Some p)"

lemma proc_ok_new: "proc_ok site_new p"
  by (simp add: proc_ok_def site_new_def)

lemma proc_ok_outside: "proc_ok s q \<Longrightarrow> si_lock s \<noteq> Some q \<Longrightarrow> si_phase s q = Starting \<or> si_phase s q = Ended"
  by (auto simp: proc_ok_def split: daemon_phase.splits)

text \<open>A step of one process leaves a process that is not past the lock as it is.\<close>

lemma proc_ok_other:
  assumes "proc_ok s q" and "si_lock s \<noteq> Some q" and "si_phase s1 q = si_phase s q" and "si_lock s1 \<noteq> Some q"
  shows "proc_ok s1 q"
  using proc_ok_outside[OF assms(1,2)] assms(3,4) by (auto simp: proc_ok_def)

lemma proc_ok_holds:
  assumes "proc_ok s p" and "si_phase s p \<noteq> Starting" and "si_phase s p \<noteq> Ended"
  shows "si_lock s = Some p"
  using assms by (auto simp: proc_ok_def split: daemon_phase.splits)

lemma proc_ok_ends: "proc_ok s q \<Longrightarrow> proc_ok (ends p s) q"
  using proc_ok_outside[of s q] by (auto simp: proc_ok_def ends_def becomes_def split: daemon_phase.splits)

text \<open>A process past the lock moves on, to a phase the site allows.\<close>

lemma proc_ok_moves:
  assumes "\<And>q. proc_ok s q" and "si_lock s = Some p" and "si_lock s1 = Some p" and "\<And>q. q \<noteq> p \<Longrightarrow> si_phase s1 q = si_phase s q" and "proc_ok s1 p"
  shows "proc_ok s1 q"
  by (cases "q = p") (use assms proc_ok_other[OF assms(1), of q s1] in auto)

lemma proc_ok_step:
  assumes "start_step s s1" and ok: "\<And>q. proc_ok s q"
  shows "proc_ok s1 q"
  using assms(1)
proof cases
  case (locked p s2)
  then have l: "si_lock s = None" "s2 = s\<lparr>si_lock := Some p, si_pid_text := show_nat p\<rparr>" by (auto simp: lock_daemon_def split: if_splits)
  show ?thesis
    by (cases "q = p") (use l locked(1) proc_ok_other[OF ok, of q s1] in \<open>auto simp: proc_ok_def becomes_def\<close>)
next
  case (not_locked p s2 why)
  then show ?thesis using proc_ok_ends[OF ok] by (auto simp: lock_daemon_def split: if_splits)
next
  case (claimed p s2)
  then have l: "si_lock s = Some p" using proc_ok_holds[OF ok] by simp
  have f: "si_lock s2 = si_lock s" "si_phase s2 = si_phase s" "si_socket s2 = None"
    using claimed(3) by (auto simp: claim_def split: option.splits if_splits)
  show ?thesis unfolding claimed(1) by (rule proc_ok_moves[OF ok l]) (simp_all add: becomes_def proc_ok_def l f)
next
  case (not_claimed p s2 why)
  then show ?thesis using proc_ok_ends[OF ok] by (auto simp: claim_def split: option.splits if_splits)
next
  case (bound p s2)
  then have l: "si_lock s = Some p" using proc_ok_holds[OF ok] by simp
  have f: "si_lock s2 = si_lock s" "si_phase s2 = si_phase s" "si_socket s2 = Some p"
    using bound(3) by (auto simp: bind_socket_def split: if_splits)
  show ?thesis unfolding bound(1) by (rule proc_ok_moves[OF ok l]) (simp_all add: becomes_def proc_ok_def l f)
next
  case (not_bound p s2 why)
  then show ?thesis using proc_ok_ends[OF ok] by (auto simp: bind_socket_def split: if_splits)
next
  case (told_to_stop p)
  then have l: "si_lock s = Some p" "si_socket s = Some p" using proc_ok_holds[OF ok] ok[of p] by (simp_all add: proc_ok_def)
  show ?thesis unfolding told_to_stop(1) by (rule proc_ok_moves[OF ok l(1)]) (simp_all add: becomes_def proc_ok_def l)
next
  case (unlinked p)
  then have l: "si_lock s = Some p" using proc_ok_holds[OF ok] by simp
  show ?thesis unfolding unlinked(1) by (rule proc_ok_moves[OF ok l]) (simp_all add: becomes_def proc_ok_def l)
qed (use proc_ok_ends[OF ok] in auto)

lemma proc_ok_reachable: "start_step\<^sup>*\<^sup>* site_new s \<Longrightarrow> proc_ok s p"
  by (induction arbitrary: p rule: rtranclp_induct) (auto intro: proc_ok_new proc_ok_step)

lemma start_alone:
  assumes "si_lock s = None" and "si_phase s p = Starting" and "\<And>q. \<not> answers_at q s"
  shows "\<exists>s1. start_step\<^sup>*\<^sup>* s s1 \<and> si_phase s1 p = Listening"
proof -
  let ?l = "s\<lparr>si_lock := Some p, si_pid_text := show_nat p\<rparr>"
  let ?s1 = "becomes p Locked ?l"
  let ?s2 = "becomes p Claimed (?s1\<lparr>si_socket := None\<rparr>)"
  let ?s3 = "becomes p Listening (?s2\<lparr>si_socket := Some p\<rparr>)"
  have 1: "start_step s ?s1" by (rule locked) (simp_all add: assms lock_daemon_def)
  have "claim ?s1 = (?s1\<lparr>si_socket := None\<rparr>, Inr ())"
    using assms(3) by (cases "si_socket s") (auto simp: claim_def becomes_def answers_at_def)
  then have 2: "start_step ?s1 ?s2" by (rule claimed[rotated]) (simp add: becomes_def)
  have 3: "start_step ?s2 ?s3" by (rule bound) (simp_all add: becomes_def bind_socket_def)
  have "start_step\<^sup>*\<^sup>* s ?s3" using 1 2 3 by (meson converse_rtranclp_into_rtranclp r_into_rtranclp)
  then show ?thesis by (rule exI[where x = ?s3, OF conjI]) (simp add: becomes_def)
qed

text \<open>
  C11: one daemon for one home, and a crash never wedges it. However processes start, stop and die, at
  most one is past the lock; while one serves, the socket file is its own; and whenever none is
  past the lock, a process that starts can come to serve, whatever was left behind.
\<close>

theorem one_daemon_per_home:
  assumes "start_step\<^sup>*\<^sup>* site_new s"
  shows "(\<forall>p q. answers_at p s \<and> answers_at q s \<longrightarrow> p = q)
    \<and> (\<forall>p. si_phase s p = Listening \<longrightarrow> si_socket s = Some p \<and> si_lock s = Some p)
    \<and> (si_lock s = None \<longrightarrow> (\<forall>p. si_phase s p = Starting \<longrightarrow> (\<exists>s1. start_step\<^sup>*\<^sup>* s s1 \<and> si_phase s1 p = Listening)))"
proof -
  have ok: "proc_ok s p" for p by (rule proc_ok_reachable[OF assms])
  have lock: "answers_at p s \<Longrightarrow> si_lock s = Some p" for p using proc_ok_holds[OF ok] by (auto simp: answers_at_def)
  have alone: "p = q" if "answers_at p s" "answers_at q s" for p q using lock[OF that(1)] lock[OF that(2)] by simp
  have own: "si_socket s = Some p \<and> si_lock s = Some p" if "si_phase s p = Listening" for p using ok[of p] that by (simp add: proc_ok_def)
  have "\<exists>s1. start_step\<^sup>*\<^sup>* s s1 \<and> si_phase s1 p = Listening" if "si_lock s = None" "si_phase s p = Starting" for p
    by (rule start_alone[OF that]) (use lock that(1) in force)
  with alone own show ?thesis by blast
qed

text \<open>A daemon that crashed while serving: its socket file is still there, and the next one serves.\<close>

definition crashed_site :: site where
  "crashed_site = \<lparr>si_lock = None, si_pid_text = ''1'', si_socket = Some 1, si_phase = (\<lambda>_. Starting)(1 := Ended)\<rparr>"

lemma crashed_site_reached: "start_step\<^sup>*\<^sup>* site_new crashed_site"
proof -
  let ?l = "site_new\<lparr>si_lock := Some 1, si_pid_text := show_nat 1\<rparr>"
  let ?s1 = "becomes 1 Locked ?l" let ?s2 = "becomes 1 Claimed ?s1" let ?s3 = "becomes 1 Listening (?s2\<lparr>si_socket := Some 1\<rparr>)"
  have 1: "start_step site_new ?s1" by (rule locked) (simp_all add: site_new_def lock_daemon_def)
  have 2: "start_step ?s1 ?s2" by (rule claimed) (simp_all add: becomes_def claim_def site_new_def)
  have 3: "start_step ?s2 ?s3" by (rule bound) (simp_all add: becomes_def bind_socket_def site_new_def)
  have 4: "start_step ?s3 (ends 1 ?s3)" by (rule died)
  have "show_nat 1 = ''1''" by code_simp
  then have "ends 1 ?s3 = crashed_site" by (simp add: ends_def becomes_def site_new_def crashed_site_def)
  with 1 2 3 4 show ?thesis by (metis (no_types, lifting) converse_rtranclp_into_rtranclp r_into_rtranclp)
qed

theorem one_daemon_per_home_witness:
  "si_socket crashed_site = Some 1 \<and> (\<exists>s1. start_step\<^sup>*\<^sup>* crashed_site s1 \<and> si_phase s1 2 = Listening)"
  using one_daemon_per_home[OF crashed_site_reached] by (simp add: crashed_site_def)

end
