(* ===== verification/Daemon_Sweep.thy ===== *)
theory Daemon_Sweep
  imports Daemon_Serve Shell_Env
begin

text \<open>
  What a daemon does on its own, \<open>prime\<close>, \<open>sweep\<close> and \<open>say\<close> of \<open>main.rs\<close>: it asks the shell and the providers
  once at the start, and every half minute puts down the sessions nobody listens to and asks again.
\<close>

text \<open>\<open>OMNI_IDLE_SECS\<close>, where it is a number.\<close>

definition idle_grace :: "(string \<Rightarrow> int option) \<Rightarrow> world \<Rightarrow> int" where
  "idle_grace parse_u64 w = (case Option.bind (env_var w ''OMNI_IDLE_SECS'') parse_u64 of Some n \<Rightarrow> n | None \<Rightarrow> 900)"

definition log_file :: "string \<Rightarrow> string" where
  "log_file home = home @ ''/omnid.log''"

text \<open>One line of the log: printed, and unless the output already goes there, appended to the file.\<close>

definition daemon_say :: "string \<Rightarrow> string \<Rightarrow> world \<Rightarrow> world" where
  "daemon_say home what w =
     (let line = clock_now w @ '' omnid['' @ pid w @ ''] '' @ what @ [newline] in
      if env_var w ''OMNI_STDIO_LOGGED'' \<noteq> None then w
      else (case fs_open_append (log_file home) w of
              (w1, Inl _) \<Rightarrow> w1
            | (w1, Inr _) \<Rightarrow> fst (fs_write_all (log_file home) line (fst (fs_set_private (log_file home) w1)))))"

text \<open>The shell and how it answers, and the instants at which it is asked and has answered.\<close>

record shell_ask =
  sa_probe :: probe
  sa_shell :: string
  sa_from :: int
  sa_until :: int

definition ready_line :: "string list \<Rightarrow> string" where
  "ready_line rdy = ''ready: '' @ (if rdy = [] then ''none logged in'' else join '', '' rdy)"

definition prime :: "accounts \<Rightarrow> string \<Rightarrow> shell_ask \<Rightarrow> shell_memory \<times> world \<Rightarrow> shell_memory \<times> world" where
  "prime A home a s =
     (case env_refresh (sa_probe a) (sa_shell a) (sa_from a) (sa_until a) (fst s) of
        (m, told_env) \<Rightarrow>
          let how = (if sm_stepped m then '' (asked in two steps: login, then interactive)'' else []);
              w1 = daemon_say home (if told_env then ''environment from '' @ sa_shell a @ how
                     else sa_shell a @ '' did not describe its environment; using the daemon's own'') (snd s)
          in (case available_providers A None w1 of (w2, rdy) \<Rightarrow> (m, daemon_say home (ready_line rdy) w2)))"

text \<open>\<open>probed_ago().is_none_or(|age| age > 300.0)\<close>.\<close>

definition models_stale :: "world \<Rightarrow> bool" where
  "models_stale w \<longleftrightarrow> (case probed_ago w of None \<Rightarrow> True | Some age \<Rightarrow> 300 < age)"

text \<open>One round; the flag says whether the loop goes on.\<close>

definition sweep_round ::
  "'r env \<Rightarrow> nat \<Rightarrow> (event \<Rightarrow> snapshot) \<Rightarrow> accounts \<Rightarrow> int \<Rightarrow> int \<Rightarrow> shell_ask \<Rightarrow> shell_memory \<times> 'r daemon \<Rightarrow> ((shell_memory \<times> 'r daemon) \<times> bool) option" where
  "sweep_round E n look A instant grace a s =
     (if dm_stopping (snd s) then Some (s, False)
      else map_option
        (\<lambda>(g, gone).
           let w = rg_world g;
               w1 = (if 0 < gone then daemon_say (en_home E) (''let '' @ show_nat gone @ '' cold session(s) go'') w else w)
           in if models_stale w1
              then ((fst (env_refresh (sa_probe a) (sa_shell a) (sa_from a) (sa_until a) (fst s)),
                     (snd s)\<lparr>dm_registry := g\<lparr>rg_world := fst (available_providers A None w1)\<rparr>\<rparr>), True)
              else ((fst s, (snd s)\<lparr>dm_registry := g\<lparr>rg_world := w1\<rparr>\<rparr>), True))
        (reap E n look instant grace (dm_registry (snd s))))"

section \<open>When the answers are renewed\<close>

lemma probe_all_remembered:
  "(\<And>n. n \<in> set ns \<Longrightarrow> recall n w \<noteq> None) \<Longrightarrow> fst (probe_all A ns w) = w"
proof (induction ns)
  case (Cons n ns)
  obtain st where "recall n w = Some st" using Cons.prems[of n] by auto
  then have "auth_status A n w = (w, st)" by (simp add: auth_status_def)
  then show ?case using Cons by (auto split: prod.splits)
qed simp

text \<open>
  The round that is meant to keep the answers fresh asks nobody who is remembered: from five minutes to ten after
  an account answered that it is signed in, a round changes nothing, and the first question after that waits.
\<close>

lemma sweep_renews_nothing:
  assumes "\<And>n. known_account A n \<Longrightarrow> ac_installed A n \<Longrightarrow> \<exists>memo checked. auth_memo w = Some memo \<and> bt_get memo n = Some (AUTHENTICATED, checked) \<and> epoch w - checked < 600"
  shows "fst (available_providers A None w) = w"
  unfolding available_providers_def
proof (rule probe_all_remembered)
  fix n assume "n \<in> set (filter (\<lambda>n. known_account A n \<and> ac_installed A n)
      (filter (\<lambda>n. case None of None \<Rightarrow> True | Some allowed \<Rightarrow> n \<in> set allowed) (names (ac_doubles A))))"
  then obtain memo checked where "auth_memo w = Some memo" "bt_get memo n = Some (AUTHENTICATED, checked)" "epoch w - checked < 600"
    using assms[of n] by auto
  then show "recall n w \<noteq> None" by (simp add: recall_def TTL_def)
qed

text \<open>A daemon that is stopping sweeps no more, and one that is not goes on.\<close>

lemma sweep_goes_on:
  "sweep_round E n look A instant grace a s = Some (s', b) \<Longrightarrow> b = (\<not> dm_stopping (snd s)) \<and> dm_stopping (snd s') = dm_stopping (snd s)"
  by (auto simp: sweep_round_def Let_def split: if_splits)

end
