(* ===== verification/Client_Calls.thy ===== *)
theory Client_Calls
  imports Wire_Protocol
begin

text \<open>
  \<open>omni-client/src/lib.rs\<close>: one multiplexed connection to the daemon. Any number of threads call over
  it, one thread reads what the daemon sends; a call registers itself, writes its request and waits
  for its reply, for its deadline or for the end of the connection. \<open>client_step\<close> has one rule for
  every point at which another thread may come between. The state also records what was heard.
\<close>

section \<open>Errors and outcomes\<close>

datatype client_error =
  Io_Error string | Json_Error string | Daemon_Error string | No_Answer string | Timed_Out string int | Disconnected
| Already_Open string | Unavailable string | Chat_Stopped string | Bad_Protocol string

type_synonym 'a client_result = "client_error + 'a"

definition DEFAULT_TIMEOUT :: int where "DEFAULT_TIMEOUT = 120"
definition HANDSHAKE_TIMEOUT :: int where "HANDSHAKE_TIMEOUT = 5"

definition reply_outcome :: "request \<Rightarrow> reply \<Rightarrow> json client_result" where
  "reply_outcome q r =
     (if rp_ok r then Inr (rp_result r)
      else Inl (Daemon_Error (case rp_error r of Some e \<Rightarrow> e | None \<Rightarrow> rq_op q @ '' failed'')))"

section \<open>The connection\<close>

datatype call_phase = Registered | Cleared | Awaiting | Expired | Failing string | Settled "json client_result"

record call =
  ca_request :: request
  ca_timeout :: int
  ca_phase :: call_phase

record subscription =
  su_session :: string
  su_listed :: bool
  su_inbox :: "frame list"
  su_taken :: "frame list"
  su_since :: nat

datatype hold = Opening | Attached | Let_Go

record client =
  cl_alive :: bool
  cl_draining :: bool
  cl_next_id :: int
  cl_pending :: "int set"
  cl_mail :: "int \<Rightarrow> reply client_result option"
  cl_calls :: "int \<Rightarrow> call option"
  cl_subscribers :: "nat \<Rightarrow> subscription option"
  cl_next_subscriber :: nat
  cl_open_sessions :: "string set"
  cl_holds :: "nat \<Rightarrow> (string \<times> hold) option"
  cl_wire :: "request list"
  cl_replies :: "reply list"
  cl_frames :: "frame list"

definition from_stream :: client where
  "from_stream = \<lparr>cl_alive = True, cl_draining = False, cl_next_id = 1, cl_pending = {}, cl_mail = (\<lambda>_. None), cl_calls = (\<lambda>_. None),
     cl_subscribers = (\<lambda>_. None), cl_next_subscriber = 1, cl_open_sessions = {}, cl_holds = (\<lambda>_. None),
     cl_wire = [], cl_replies = [], cl_frames = []\<rparr>"

definition set_call :: "int \<Rightarrow> call_phase \<Rightarrow> client \<Rightarrow> client" where
  "set_call i p c = c\<lparr>cl_calls := (cl_calls c)(i := map_option (\<lambda>ca. ca\<lparr>ca_phase := p\<rparr>) (cl_calls c i))\<rparr>"

definition forget_pending :: "int \<Rightarrow> client \<Rightarrow> client" where
  "forget_pending i c = c\<lparr>cl_pending := cl_pending c - {i}\<rparr>"

text \<open>\<open>call_with_timeout\<close> up to the write: a fresh id, and a place to settle.\<close>

definition call_begin :: "request \<Rightarrow> int \<Rightarrow> client \<Rightarrow> client" where
  "call_begin q t c =
     (let i = cl_next_id c
      in c\<lparr>cl_next_id := i + 1, cl_pending := insert i (cl_pending c),
           cl_calls := (cl_calls c)(i \<mapsto> \<lparr>ca_request = q\<lparr>rq_id := i\<rparr>, ca_timeout = t, ca_phase = Registered\<rparr>)\<rparr>)"

text \<open>\<open>notify\<close>: written when the connection is alive; nobody waits for the reply.\<close>

definition notify :: "request \<Rightarrow> client \<Rightarrow> client" where
  "notify q c =
     (let i = cl_next_id c
      in c\<lparr>cl_next_id := i + 1, cl_wire := (if cl_alive c then cl_wire c @ [q\<lparr>rq_id := i\<rparr>] else cl_wire c)\<rparr>)"

text \<open>\<open>disconnect\<close>: whoever takes the flag tells everybody who waits, and lets go of every subscription.\<close>

definition disconnect_begin :: "client \<Rightarrow> client" where
  "disconnect_begin c = (if cl_alive c then c\<lparr>cl_alive := False, cl_draining := True\<rparr> else c)"

definition unlist :: "subscription \<Rightarrow> subscription" where
  "unlist u = u\<lparr>su_listed := False\<rparr>"

definition disconnect_finish :: "client \<Rightarrow> client" where
  "disconnect_finish c =
     c\<lparr>cl_draining := False, cl_pending := {},
       cl_mail := (\<lambda>i. if i \<in> cl_pending c then Some (Inl Disconnected) else cl_mail c i),
       cl_subscribers := (\<lambda>n. map_option unlist (cl_subscribers c n)), cl_open_sessions := {}\<rparr>"

definition settle_reply :: "reply \<Rightarrow> client \<Rightarrow> client" where
  "settle_reply r c =
     (if rp_id r \<in> cl_pending c
      then c\<lparr>cl_pending := cl_pending c - {rp_id r}, cl_mail := (cl_mail c)(rp_id r \<mapsto> Inr r)\<rparr> else c)"

definition offered :: "frame \<Rightarrow> subscription \<Rightarrow> subscription" where
  "offered f u = (if su_listed u \<and> su_session u = fr_session f then u\<lparr>su_inbox := su_inbox u @ [f]\<rparr> else u)"

definition dispatch_frame :: "frame \<Rightarrow> client \<Rightarrow> client" where
  "dispatch_frame f c = c\<lparr>cl_subscribers := (\<lambda>n. map_option (offered f) (cl_subscribers c n))\<rparr>"

definition remove_subscription :: "nat \<Rightarrow> client \<Rightarrow> client" where
  "remove_subscription n c = c\<lparr>cl_subscribers := (cl_subscribers c)(n := map_option unlist (cl_subscribers c n))\<rparr>"

definition subscribe :: "string \<Rightarrow> client \<Rightarrow> nat \<times> client" where
  "subscribe sid c =
     (let n = cl_next_subscriber c
      in (n, c\<lparr>cl_next_subscriber := Suc n,
               cl_subscribers := (cl_subscribers c)(n \<mapsto> \<lparr>su_session = sid, su_listed = True, su_inbox = [], su_taken = [],
                 su_since = length (cl_frames c)\<rparr>)\<rparr>))"

text \<open>\<open>recv\<close> and its variants: the next frame, nothing yet, or the end of the subscription.\<close>

definition recv_frame :: "nat \<Rightarrow> client \<Rightarrow> client \<times> frame option client_result" where
  "recv_frame n c =
     (case cl_subscribers c n of
        None \<Rightarrow> (c, Inl Disconnected)
      | Some u \<Rightarrow>
          (case su_inbox u of
             f # fs \<Rightarrow> (c\<lparr>cl_subscribers := (cl_subscribers c)(n \<mapsto> u\<lparr>su_inbox := fs, su_taken := su_taken u @ [f]\<rparr>)\<rparr>, Inr (Some f))
           | [] \<Rightarrow> (c, if su_listed u then Inr None else Inl Disconnected)))"

text \<open>\<open>read_daemon\<close>: what one line does.\<close>

definition read_daemon :: "codec \<Rightarrow> bytes \<Rightarrow> client \<Rightarrow> client" where
  "read_daemon J line c =
     (case read_line J line of
        Some (In_Reply r) \<Rightarrow> (settle_reply r c)\<lparr>cl_replies := cl_replies c @ [r]\<rparr>
      | Some (In_Frame f) \<Rightarrow> (dispatch_frame f c)\<lparr>cl_frames := cl_frames c @ [f]\<rparr>
      | None \<Rightarrow> c)"

section \<open>Sessions held over the connection\<close>

text \<open>\<open>open\<close> before and after its call; the handle goes under the number of its subscription.\<close>

definition open_begin :: "string \<Rightarrow> client \<Rightarrow> client client_result" where
  "open_begin sid c =
     (if sid \<in> cl_open_sessions c then Inl (Already_Open sid)
      else let c1 = c\<lparr>cl_open_sessions := insert sid (cl_open_sessions c)\<rparr>; (n, c2) = subscribe sid c1
           in Inr (c2\<lparr>cl_holds := (cl_holds c2)(n \<mapsto> (sid, Opening))\<rparr>))"

definition open_end :: "nat \<Rightarrow> string \<Rightarrow> bool \<Rightarrow> client \<Rightarrow> client" where
  "open_end n sid ok c =
     (if ok then c\<lparr>cl_holds := (cl_holds c)(n \<mapsto> (sid, Attached))\<rparr>
      else (remove_subscription n c)\<lparr>cl_open_sessions := cl_open_sessions c - {sid}, cl_holds := (cl_holds c)(n \<mapsto> (sid, Let_Go))\<rparr>)"

definition mark_detached :: "nat \<Rightarrow> client \<Rightarrow> client" where
  "mark_detached n c =
     (case cl_holds c n of
        Some (sid, Attached) \<Rightarrow>
          (remove_subscription n c)\<lparr>cl_open_sessions := cl_open_sessions c - {sid}, cl_holds := (cl_holds c)(n \<mapsto> (sid, Let_Go))\<rparr>
      | _ \<Rightarrow> c)"

definition finish_lifecycle :: "nat \<Rightarrow> bool \<Rightarrow> client \<Rightarrow> client" where
  "finish_lifecycle n ok c = (if ok then mark_detached n c else disconnect_begin c)"

definition session_drop :: "nat \<Rightarrow> client \<Rightarrow> client" where
  "session_drop n c =
     (case cl_holds c n of
        Some (sid, Attached) \<Rightarrow> mark_detached n (notify (request_on sid (request_new 0 ''detach'')) c)
      | _ \<Rightarrow> c)"

section \<open>Threads\<close>

definition call_in :: "int \<Rightarrow> call_phase \<Rightarrow> client \<Rightarrow> request \<Rightarrow> int \<Rightarrow> bool" where
  "call_in i p c q t \<longleftrightarrow> cl_calls c i = Some \<lparr>ca_request = q, ca_timeout = t, ca_phase = p\<rparr>"

text \<open>The session a handle holds or is about to; its subscription goes away only after it let go.\<close>

definition live :: "client \<Rightarrow> nat \<Rightarrow> string option" where
  "live c n = (case cl_holds c n of Some (sid, p) \<Rightarrow> if p = Let_Go then None else Some sid | None \<Rightarrow> None)"

inductive client_step :: "codec \<Rightarrow> client \<Rightarrow> client \<Rightarrow> bool" for J where
  called: "client_step J c (call_begin q t c)"
| cleared: "call_in i Registered c q t \<Longrightarrow> cl_alive c \<Longrightarrow> client_step J c (set_call i Cleared c)"
| not_alive: "call_in i Registered c q t \<Longrightarrow> \<not> cl_alive c \<Longrightarrow> client_step J c (set_call i (Settled (Inl Disconnected)) (forget_pending i c))"
| wrote: "call_in i Cleared c q t \<Longrightarrow> client_step J c (set_call i Awaiting (c\<lparr>cl_wire := cl_wire c @ [q]\<rparr>))"
| write_failed: "call_in i Cleared c q t \<Longrightarrow> client_step J c (set_call i (Failing why) (disconnect_begin c))"
| gave_up: "call_in i (Failing why) c q t
    \<Longrightarrow> client_step J c (set_call i (Settled (Inl (Io_Error (''could not send '' @ rq_op q @ '': '' @ why)))) (forget_pending i c))"
| got: "call_in i Awaiting c q t \<Longrightarrow> cl_mail c i = Some m
    \<Longrightarrow> client_step J c (set_call i (Settled (case m of Inl e \<Rightarrow> Inl e | Inr r \<Rightarrow> reply_outcome q r)) c)"
| expired: "call_in i Awaiting c q t \<Longrightarrow> cl_mail c i = None \<Longrightarrow> client_step J c (set_call i Expired c)"
| timed_out: "call_in i Expired c q t \<Longrightarrow> client_step J c (set_call i (Settled (Inl (Timed_Out (rq_op q) t))) (forget_pending i c))"
| read_one: "client_step J c (read_daemon J line c)"
| closed: "client_step J c (disconnect_begin c)"
| drained: "cl_draining c \<Longrightarrow> client_step J c (disconnect_finish c)"
| subscribed: "client_step J c (snd (subscribe sid c))"
| unsubscribed: "live c n = None \<Longrightarrow> client_step J c (remove_subscription n c)"
| received: "client_step J c (fst (recv_frame n c))"
| opened: "open_begin sid c = Inr c1 \<Longrightarrow> client_step J c c1"
| open_ended: "cl_holds c n = Some (sid, Opening) \<Longrightarrow> client_step J c (open_end n sid ok c)"
| finished: "client_step J c (finish_lifecycle n ok c)"
| dropped: "client_step J c (session_drop n c)"

section \<open>Every call settles with its own reply\<close>

text \<open>A call that may write or wait has its outcome, or a place where it will come.\<close>

definition call_ok :: "client \<Rightarrow> int \<Rightarrow> call \<Rightarrow> bool" where
  "call_ok c i ca \<longleftrightarrow> i < cl_next_id c \<and> rq_id (ca_request ca) = i
     \<and> (ca_phase ca = Cleared \<or> ca_phase ca = Awaiting \<longrightarrow> cl_mail c i \<noteq> None \<or> i \<in> cl_pending c \<and> (cl_alive c \<or> cl_draining c))
     \<and> (ca_phase ca = Registered \<longrightarrow> cl_mail c i \<noteq> None \<or> i \<in> cl_pending c)
     \<and> (ca_phase ca = Registered \<or> ca_phase ca = Cleared \<longrightarrow> i \<notin> rq_id ` set (cl_wire c))
     \<and> (\<forall>v. ca_phase ca = Settled (Inr v) \<longrightarrow> (\<exists>r \<in> set (cl_replies c). rp_id r = i \<and> rp_ok r \<and> rp_result r = v))"

definition mail_ok :: "client \<Rightarrow> int \<Rightarrow> bool" where
  "mail_ok c i \<longleftrightarrow> (\<forall>r. cl_mail c i = Some (Inr r) \<longrightarrow> rp_id r = i \<and> r \<in> set (cl_replies c))
     \<and> (i \<in> cl_pending c \<longrightarrow> cl_mail c i = None \<and> i < cl_next_id c) \<and> (\<not> i < cl_next_id c \<longrightarrow> cl_mail c i = None)"

definition client_inv :: "client \<Rightarrow> bool" where
  "client_inv c \<longleftrightarrow> (\<forall>i ca. cl_calls c i = Some ca \<longrightarrow> call_ok c i ca) \<and> (\<forall>i. mail_ok c i)
     \<and> distinct (map rq_id (cl_wire c)) \<and> (\<forall>q \<in> set (cl_wire c). rq_id q < cl_next_id c)"

lemma client_invD:
  assumes "client_inv c"
  shows "cl_calls c i = Some ca \<Longrightarrow> call_ok c i ca" "mail_ok c i" "distinct (map rq_id (cl_wire c))"
    "q \<in> set (cl_wire c) \<Longrightarrow> rq_id q < cl_next_id c" "i \<in> rq_id ` set (cl_wire c) \<Longrightarrow> i < cl_next_id c"
  using assms by (auto simp: client_inv_def)

lemma client_inv_new: "client_inv from_stream"
  by (simp add: client_inv_def from_stream_def mail_ok_def)

text \<open>What a step owes to the calls it does not move.\<close>

lemma call_ok_kept:
  assumes "call_ok c j ca" and "cl_next_id c \<le> cl_next_id c1" and "set (cl_replies c) \<subseteq> set (cl_replies c1)"
    and "cl_mail c j \<noteq> None \<Longrightarrow> cl_mail c1 j \<noteq> None"
    and "j \<in> cl_pending c \<Longrightarrow> cl_mail c1 j \<noteq> None \<or> j \<in> cl_pending c1 \<and> (cl_alive c \<or> cl_draining c \<longrightarrow> cl_alive c1 \<or> cl_draining c1)"
    and "j \<in> rq_id ` set (cl_wire c1) \<Longrightarrow> j \<in> rq_id ` set (cl_wire c) \<or> cl_next_id c \<le> j"
  shows "call_ok c1 j ca"
proof -
  have "j < cl_next_id c1" "rq_id (ca_request ca) = j" using assms(1,2) by (auto simp: call_ok_def)
  moreover have "ca_phase ca = Cleared \<or> ca_phase ca = Awaiting \<longrightarrow> cl_mail c1 j \<noteq> None \<or> j \<in> cl_pending c1 \<and> (cl_alive c1 \<or> cl_draining c1)"
    using assms(1,4,5) unfolding call_ok_def by blast
  moreover have "ca_phase ca = Registered \<longrightarrow> cl_mail c1 j \<noteq> None \<or> j \<in> cl_pending c1"
    using assms(1,4,5) unfolding call_ok_def by blast
  moreover have "ca_phase ca = Registered \<or> ca_phase ca = Cleared \<longrightarrow> j \<notin> rq_id ` set (cl_wire c1)"
    using assms(1,6) by (auto simp: call_ok_def)
  moreover have "\<forall>v. ca_phase ca = Settled (Inr v) \<longrightarrow> (\<exists>r \<in> set (cl_replies c1). rp_id r = j \<and> rp_ok r \<and> rp_result r = v)"
    using assms(1,3) unfolding call_ok_def by blast
  ultimately show ?thesis by (simp add: call_ok_def)
qed

lemma client_inv_moves:
  assumes inv: "client_inv c"
    and "\<And>j ca. j \<in> K \<Longrightarrow> cl_calls c1 j = Some ca \<Longrightarrow> call_ok c1 j ca"
    and "\<And>j ca. j \<notin> K \<Longrightarrow> cl_calls c1 j = Some ca \<Longrightarrow> cl_calls c j = Some ca"
    and "cl_next_id c \<le> cl_next_id c1" and "set (cl_replies c) \<subseteq> set (cl_replies c1)"
    and "\<And>j. j \<notin> K \<Longrightarrow> cl_mail c j \<noteq> None \<Longrightarrow> cl_mail c1 j \<noteq> None"
    and "\<And>j. j \<notin> K \<Longrightarrow> j \<in> cl_pending c \<Longrightarrow> cl_mail c1 j \<noteq> None \<or> j \<in> cl_pending c1 \<and> (cl_alive c \<or> cl_draining c \<longrightarrow> cl_alive c1 \<or> cl_draining c1)"
    and "\<And>j. j \<notin> K \<Longrightarrow> j \<in> rq_id ` set (cl_wire c1) \<Longrightarrow> j \<in> rq_id ` set (cl_wire c) \<or> cl_next_id c \<le> j"
    and "\<And>j. mail_ok c1 j" and "distinct (map rq_id (cl_wire c1))" and "\<And>q. q \<in> set (cl_wire c1) \<Longrightarrow> rq_id q < cl_next_id c1"
  shows "client_inv c1"
proof -
  have "call_ok c1 j ca" if j: "cl_calls c1 j = Some ca" for j ca
  proof (cases "j \<in> K")
    case False
    show ?thesis
      by (rule call_ok_kept[OF client_invD(1)[OF inv assms(3)[OF False j]] assms(4,5) assms(6)[OF False] assms(7)[OF False] assms(8)[OF False]])
  qed (use assms(2) j in blast)
  then show ?thesis using assms(9-11) by (simp add: client_inv_def)
qed

text \<open>One call moves on.\<close>

lemma client_inv_call:
  assumes inv: "client_inv c" and "call_in i p c q t"
    and same: "cl_calls c1 = cl_calls c" "cl_mail c1 = cl_mail c" "cl_next_id c1 = cl_next_id c" "cl_replies c1 = cl_replies c"
    and wire: "cl_wire c1 = cl_wire c \<or> cl_wire c1 = cl_wire c @ [q] \<and> p = Cleared"
    and pending: "cl_pending c1 = cl_pending c \<or> cl_pending c1 = cl_pending c - {i}"
    and alive: "cl_alive c \<or> cl_draining c \<longrightarrow> cl_alive c1 \<or> cl_draining c1"
    and ok: "call_ok c i \<lparr>ca_request = q, ca_timeout = t, ca_phase = p\<rparr> \<Longrightarrow> call_ok c1 i \<lparr>ca_request = q, ca_timeout = t, ca_phase = p'\<rparr>"
  shows "client_inv (set_call i p' c1)"
proof -
  define c2 where "c2 = set_call i p' c1"
  have calls: "cl_calls c2 j = (if j = i then Some \<lparr>ca_request = q, ca_timeout = t, ca_phase = p'\<rparr> else cl_calls c j)" for j
    using assms(2) by (simp add: c2_def set_call_def call_in_def same)
  have f: "cl_mail c2 = cl_mail c" "cl_next_id c2 = cl_next_id c" "cl_replies c2 = cl_replies c" "cl_wire c2 = cl_wire c1"
    "cl_pending c2 = cl_pending c1" "cl_alive c2 = cl_alive c1" "cl_draining c2 = cl_draining c1" by (simp_all add: c2_def set_call_def same)
  have old: "call_ok c i \<lparr>ca_request = q, ca_timeout = t, ca_phase = p\<rparr>" using client_invD(1)[OF inv] assms(2) by (simp add: call_in_def)
  have "call_ok c1 i \<lparr>ca_request = q, ca_timeout = t, ca_phase = p'\<rparr> \<longleftrightarrow> call_ok c2 i \<lparr>ca_request = q, ca_timeout = t, ca_phase = p'\<rparr>"
    by (simp add: call_ok_def f same)
  then have new: "call_ok c2 i \<lparr>ca_request = q, ca_timeout = t, ca_phase = p'\<rparr>" using ok[OF old] by simp
  have q: "rq_id q = i" "i < cl_next_id c" using old by (auto simp: call_ok_def)
  have "client_inv c2"
  proof (rule client_inv_moves[OF inv, of "{i}"])
    show "mail_ok c2 j" for j using client_invD(2)[OF inv, of j] pending by (auto simp: mail_ok_def f)
    show "distinct (map rq_id (cl_wire c2))"
      using wire client_invD(3)[OF inv] old q by (auto simp: f call_ok_def)
    show "rq_id u < cl_next_id c2" if "u \<in> set (cl_wire c2)" for u
      using that wire q client_invD(4)[OF inv, of u] by (auto simp: f)
    show "j \<in> rq_id ` set (cl_wire c) \<or> cl_next_id c \<le> j" if "j \<notin> {i}" "j \<in> rq_id ` set (cl_wire c2)" for j
      using that wire q by (auto simp: f)
    show "cl_mail c2 j \<noteq> None \<or> j \<in> cl_pending c2 \<and> (cl_alive c \<or> cl_draining c \<longrightarrow> cl_alive c2 \<or> cl_draining c2)"
      if "j \<notin> {i}" "j \<in> cl_pending c" for j
    proof -
      have "j \<in> cl_pending c1" using that pending by auto
      then show ?thesis using alive by (simp add: f)
    qed
  qed (use new in \<open>auto simp: f calls\<close>)
  then show ?thesis by (simp add: c2_def)
qed

text \<open>Steps that move no call.\<close>

lemma client_inv_same:
  assumes inv: "client_inv c" and "cl_calls c1 = cl_calls c" "cl_next_id c1 = cl_next_id c" "cl_wire c1 = cl_wire c"
    "cl_mail c1 = cl_mail c" "cl_pending c1 = cl_pending c" "cl_replies c1 = cl_replies c"
    "cl_alive c \<or> cl_draining c \<longrightarrow> cl_alive c1 \<or> cl_draining c1"
  shows "client_inv c1"
  by (rule client_inv_moves[OF inv, of "{}"]) (use assms client_invD[OF inv] in \<open>auto simp: mail_ok_def\<close>)

lemma client_inv_called: "client_inv c \<Longrightarrow> client_inv (call_begin q t c)"
proof -
  assume inv: "client_inv c"
  define c1 where "c1 = call_begin q t c"
  let ?i = "cl_next_id c"
  have f: "cl_calls c1 = (cl_calls c)(?i \<mapsto> \<lparr>ca_request = q\<lparr>rq_id := ?i\<rparr>, ca_timeout = t, ca_phase = Registered\<rparr>)" "cl_next_id c1 = ?i + 1"
    "cl_pending c1 = insert ?i (cl_pending c)" "cl_mail c1 = cl_mail c" "cl_replies c1 = cl_replies c" "cl_wire c1 = cl_wire c"
    "cl_alive c1 = cl_alive c" "cl_draining c1 = cl_draining c" by (simp_all add: c1_def call_begin_def Let_def)
  have "client_inv c1"
  proof (rule client_inv_moves[OF inv, of "{?i}"])
    show "mail_ok c1 j" for j using client_invD(2)[OF inv, of j] by (auto simp: mail_ok_def f)
    show "call_ok c1 j ca" if "j \<in> {?i}" "cl_calls c1 j = Some ca" for j ca
      using that client_invD(5)[OF inv, of ?i] by (auto simp: call_ok_def f)
    show "rq_id u < cl_next_id c1" if "u \<in> set (cl_wire c1)" for u
      using that client_invD(4)[OF inv, of u] by (simp add: f)
  qed (use client_invD(3)[OF inv] in \<open>auto simp: f split: if_splits\<close>)
  then show ?thesis by (simp add: c1_def)
qed

lemma client_inv_notify: "client_inv c \<Longrightarrow> client_inv (notify q c)"
proof -
  assume inv: "client_inv c"
  define c1 where "c1 = notify q c"
  let ?i = "cl_next_id c"
  have f: "cl_calls c1 = cl_calls c" "cl_next_id c1 = ?i + 1" "cl_pending c1 = cl_pending c" "cl_mail c1 = cl_mail c"
    "cl_replies c1 = cl_replies c" "cl_alive c1 = cl_alive c" "cl_draining c1 = cl_draining c"
    "cl_wire c1 = (if cl_alive c then cl_wire c @ [q\<lparr>rq_id := ?i\<rparr>] else cl_wire c)" by (simp_all add: c1_def notify_def Let_def)
  have "client_inv c1"
  proof (rule client_inv_moves[OF inv, of "{}"])
    show "mail_ok c1 j" for j using client_invD(2)[OF inv, of j] by (auto simp: mail_ok_def f)
    show "distinct (map rq_id (cl_wire c1))" using client_invD(3)[OF inv] client_invD(5)[OF inv, of ?i] by (auto simp: f)
    show "rq_id u < cl_next_id c1" if "u \<in> set (cl_wire c1)" for u
      using that client_invD(4)[OF inv, of u] by (auto simp: f split: if_splits)
  qed (auto simp: f split: if_splits)
  then show ?thesis by (simp add: c1_def)
qed

lemma client_inv_read: "client_inv c \<Longrightarrow> client_inv (read_daemon J line c)"
proof (cases "read_line J line")
  case (Some m)
  assume inv: "client_inv c"
  define c1 where "c1 = read_daemon J line c"
  have "client_inv c1"
  proof (cases m)
    case (In_Reply r)
    have f: "cl_calls c1 = cl_calls c" "cl_next_id c1 = cl_next_id c" "cl_wire c1 = cl_wire c" "cl_alive c1 = cl_alive c"
      "cl_draining c1 = cl_draining c" "cl_replies c1 = cl_replies c @ [r]" "cl_pending c1 = cl_pending c - {rp_id r}"
      "cl_mail c1 = (if rp_id r \<in> cl_pending c then (cl_mail c)(rp_id r \<mapsto> Inr r) else cl_mail c)"
      by (auto simp: c1_def read_daemon_def Some In_Reply settle_reply_def)
    show ?thesis
    proof (rule client_inv_moves[OF inv, of "{}"])
      show "mail_ok c1 j" for j using client_invD(2)[OF inv, of j] by (auto simp: mail_ok_def f)
    qed (use client_invD(3,4)[OF inv] in \<open>auto simp: f\<close>)
  next
    case (In_Frame f)
    show ?thesis by (rule client_inv_same[OF inv]) (simp_all add: c1_def read_daemon_def Some In_Frame dispatch_frame_def)
  qed
  then show ?thesis by (simp add: c1_def)
qed (simp add: read_daemon_def)

lemma client_inv_drained: "client_inv c \<Longrightarrow> client_inv (disconnect_finish c)"
proof -
  assume inv: "client_inv c"
  show ?thesis
  proof (rule client_inv_moves[OF inv, of "{}"])
    show "mail_ok (disconnect_finish c) j" for j
      using client_invD(2)[OF inv, of j] by (auto simp: mail_ok_def disconnect_finish_def)
  qed (use client_invD(3,4)[OF inv] in \<open>auto simp: disconnect_finish_def\<close>)
qed

text \<open>Steps on subscriptions and handles.\<close>

lemma client_inv_marked: "client_inv c \<Longrightarrow> client_inv (mark_detached n c)"
  by (erule client_inv_same) (auto simp: mark_detached_def remove_subscription_def split: option.splits hold.splits)

lemma client_inv_disconnect: "client_inv c \<Longrightarrow> client_inv (disconnect_begin c)"
  by (erule client_inv_same) (auto simp: disconnect_begin_def)

lemma client_inv_step:
  assumes "client_step J c c1" and inv: "client_inv c"
  shows "client_inv c1"
  using assms(1)
proof cases
  case (cleared i q t)
  show ?thesis unfolding cleared(1) by (rule client_inv_call[OF inv cleared(2)]) (use cleared in \<open>auto simp: call_ok_def\<close>)
next
  case (not_alive i q t)
  show ?thesis unfolding not_alive(1)
    by (rule client_inv_call[OF inv not_alive(2)]) (auto simp: call_ok_def forget_pending_def)
next
  case (wrote i q t)
  show ?thesis unfolding wrote(1) by (rule client_inv_call[OF inv wrote(2)]) (auto simp: call_ok_def)
next
  case (write_failed i q t why)
  show ?thesis unfolding write_failed(1)
    by (rule client_inv_call[OF inv write_failed(2)]) (auto simp: call_ok_def disconnect_begin_def)
next
  case (gave_up i why q t)
  show ?thesis unfolding gave_up(1)
    by (rule client_inv_call[OF inv gave_up(2)]) (auto simp: call_ok_def forget_pending_def)
next
  case (got i q t m)
  have "mail_ok c i" using client_invD(2)[OF inv] .
  then have "\<exists>r' \<in> set (cl_replies c). rp_id r' = i \<and> rp_ok r' \<and> rp_result r' = v" if "m = Inr r" "reply_outcome q r = Inr v" for r v
    using got(3) that by (auto simp: mail_ok_def reply_outcome_def split: if_splits)
  then show ?thesis unfolding got(1)
    by (intro client_inv_call[OF inv got(2)]) (auto simp: call_ok_def split: sum.splits)
next
  case (expired i q t)
  show ?thesis unfolding expired(1) by (rule client_inv_call[OF inv expired(2)]) (auto simp: call_ok_def)
next
  case (timed_out i q t)
  show ?thesis unfolding timed_out(1)
    by (rule client_inv_call[OF inv timed_out(2)]) (auto simp: call_ok_def forget_pending_def)
next
  case (subscribed sid)
  show ?thesis by (rule client_inv_same[OF inv]) (simp_all add: subscribed subscribe_def Let_def)
next
  case (unsubscribed n)
  show ?thesis by (rule client_inv_same[OF inv]) (simp_all add: unsubscribed remove_subscription_def)
next
  case (received n)
  show ?thesis by (rule client_inv_same[OF inv]) (auto simp: received recv_frame_def split: option.splits list.splits)
next
  case (opened sid)
  show ?thesis by (rule client_inv_same[OF inv]) (use opened in \<open>auto simp: open_begin_def subscribe_def Let_def split: if_splits\<close>)
next
  case (open_ended n sid ok)
  show ?thesis by (rule client_inv_same[OF inv]) (auto simp: open_ended open_end_def remove_subscription_def)
next
  case (finished n ok)
  then show ?thesis using client_inv_marked[OF inv] client_inv_disconnect[OF inv] by (simp add: finish_lifecycle_def)
next
  case (dropped n)
  then show ?thesis using client_inv_marked client_inv_notify[OF inv] inv by (auto simp: session_drop_def split: option.splits hold.splits)
qed (use client_inv_called[OF inv] client_inv_read[OF inv] client_inv_disconnect[OF inv] client_inv_drained[OF inv] in simp_all)

abbreviation client_runs :: "codec \<Rightarrow> client \<Rightarrow> client \<Rightarrow> bool" where
  "client_runs J \<equiv> (client_step J)\<^sup>*\<^sup>*"

lemma client_inv_runs:
  assumes "client_runs J from_stream c"
  shows "client_inv c"
  using assms by (induction) (use client_inv_new client_inv_step in blast)+

section \<open>What a subscription hears\<close>

definition own_frames :: "string \<Rightarrow> nat \<Rightarrow> client \<Rightarrow> frame list" where
  "own_frames sid k c = filter (\<lambda>f. fr_session f = sid) (drop k (cl_frames c))"

definition heard_ok :: "client \<Rightarrow> subscription \<Rightarrow> bool" where
  "heard_ok c u \<longleftrightarrow> su_since u \<le> length (cl_frames c) \<and> prefix (su_taken u @ su_inbox u) (own_frames (su_session u) (su_since u) c)
     \<and> (su_listed u \<longrightarrow> su_taken u @ su_inbox u = own_frames (su_session u) (su_since u) c)"

definition holds_ok :: "client \<Rightarrow> bool" where
  "holds_ok c \<longleftrightarrow> (\<forall>n. cl_next_subscriber c \<le> n \<longrightarrow> cl_holds c n = None)
     \<and> (cl_alive c \<longrightarrow> cl_open_sessions c = ran (live c) \<and> inj_on (live c) (dom (live c))
        \<and> (\<forall>n sid. live c n = Some sid \<longrightarrow> (\<exists>u. cl_subscribers c n = Some u \<and> su_listed u \<and> su_session u = sid)))"

definition sessions_inv :: "client \<Rightarrow> bool" where
  "sessions_inv c \<longleftrightarrow> (\<forall>n u. cl_subscribers c n = Some u \<longrightarrow> heard_ok c u) \<and> holds_ok c \<and> \<not> (cl_alive c \<and> cl_draining c)"

lemma sessions_inv_new: "sessions_inv from_stream"
  by (simp add: sessions_inv_def from_stream_def holds_ok_def live_def dom_def ran_def)

lemma heard_ok_unlist: "heard_ok c u \<Longrightarrow> heard_ok c (unlist u)"
  by (simp add: heard_ok_def unlist_def)

lemma heard_ok_frames: "cl_frames c1 = cl_frames c \<Longrightarrow> heard_ok c1 u = heard_ok c u"
  by (simp add: heard_ok_def own_frames_def)

lemma heard_ok_offered:
  assumes "heard_ok c u" and "cl_frames c1 = cl_frames c @ [f]"
  shows "heard_ok c1 (offered f u)"
proof -
  have "own_frames (su_session u) (su_since u) c1 = own_frames (su_session u) (su_since u) c @ (if fr_session f = su_session u then [f] else [])"
    using assms by (simp add: own_frames_def heard_ok_def)
  then show ?thesis using assms by (cases "su_listed u") (auto simp: heard_ok_def offered_def)
qed

lemma heard_ok_taken: "heard_ok c u \<Longrightarrow> su_inbox u = f # fs \<Longrightarrow> heard_ok c (u\<lparr>su_inbox := fs, su_taken := su_taken u @ [f]\<rparr>)"
  by (simp add: heard_ok_def)

text \<open>What is kept when the handles stay.\<close>

lemma holds_ok_kept:
  assumes "holds_ok c" and "cl_holds c1 = cl_holds c" "cl_open_sessions c1 = cl_open_sessions c" "cl_next_subscriber c \<le> cl_next_subscriber c1"
    and "cl_alive c1 \<Longrightarrow> cl_alive c"
    and "\<And>n u. live c n \<noteq> None \<Longrightarrow> cl_subscribers c n = Some u \<Longrightarrow> su_listed u
           \<Longrightarrow> \<exists>u1. cl_subscribers c1 n = Some u1 \<and> su_listed u1 \<and> su_session u1 = su_session u"
  shows "holds_ok c1"
proof -
  have "live c1 = live c" by (rule ext) (simp add: live_def assms(2))
  moreover have "\<exists>u. cl_subscribers c1 n = Some u \<and> su_listed u \<and> su_session u = sid" if "cl_alive c1" "live c n = Some sid" for n sid
    using assms(1) assms(5)[OF that(1)] assms(6)[of n] that(2) by (fastforce simp: holds_ok_def)
  ultimately show ?thesis using assms(1-5) by (auto simp: holds_ok_def)
qed

lemma sessions_inv_kept:
  assumes inv: "sessions_inv c" and "cl_holds c1 = cl_holds c" "cl_open_sessions c1 = cl_open_sessions c"
    "cl_next_subscriber c1 = cl_next_subscriber c" "cl_subscribers c1 = cl_subscribers c" "cl_frames c1 = cl_frames c"
    "cl_alive c1 = cl_alive c" "cl_draining c1 = cl_draining c"
  shows "sessions_inv c1"
proof -
  have "holds_ok c" using inv by (simp add: sessions_inv_def)
  then have "holds_ok c1" by (rule holds_ok_kept) (use assms in auto)
  then show ?thesis using inv assms heard_ok_frames[OF assms(6)] by (auto simp: sessions_inv_def)
qed

lemma ran_let_go: "inj_on m (dom m) \<Longrightarrow> m n = Some s \<Longrightarrow> ran (m(n := None)) = ran m - {s}"
proof -
  assume "inj_on m (dom m)" "m n = Some s"
  moreover from this have "a \<noteq> n \<longleftrightarrow> x \<noteq> s" if "m a = Some x" for a x using that inj_onD[of m "dom m" a n] by auto
  ultimately show ?thesis by (auto simp: ran_def)
qed

text \<open>A handle lets go of its session.\<close>

definition let_go :: "nat \<Rightarrow> string \<Rightarrow> client \<Rightarrow> client" where
  "let_go n sid c = (remove_subscription n c)\<lparr>cl_open_sessions := cl_open_sessions c - {sid}, cl_holds := (cl_holds c)(n \<mapsto> (sid, Let_Go))\<rparr>"

lemma sessions_inv_let_go:
  assumes inv: "sessions_inv c" and n: "live c n = Some sid"
  shows "sessions_inv (let_go n sid c)"
proof -
  define c1 where "c1 = let_go n sid c"
  have f: "cl_frames c1 = cl_frames c" "cl_alive c1 = cl_alive c" "cl_draining c1 = cl_draining c" "cl_next_subscriber c1 = cl_next_subscriber c"
    "cl_open_sessions c1 = cl_open_sessions c - {sid}" "cl_holds c1 = (cl_holds c)(n \<mapsto> (sid, Let_Go))"
    "cl_subscribers c1 = (cl_subscribers c)(n := map_option unlist (cl_subscribers c n))"
    by (simp_all add: c1_def let_go_def remove_subscription_def)
  have live: "live c1 = (live c)(n := None)" by (rule ext) (simp add: live_def f)
  have h: "holds_ok c" using inv by (simp add: sessions_inv_def)
  then have "cl_alive c \<Longrightarrow> ran (live c1) = ran (live c) - {sid}" using n by (simp add: live ran_let_go holds_ok_def)
  moreover have "cl_alive c \<Longrightarrow> inj_on (live c1) (dom (live c1))" using h by (auto simp: live holds_ok_def inj_on_def)
  moreover have "m \<noteq> n" if "cl_next_subscriber c \<le> m" for m using h n that by (auto simp: holds_ok_def live_def)
  ultimately have "holds_ok c1" using h by (auto simp: holds_ok_def f live)
  moreover have "heard_ok c1 u" if "cl_subscribers c1 m = Some u" for m u
    using inv that heard_ok_unlist by (auto simp: sessions_inv_def f heard_ok_frames[OF f(1)] split: if_splits)
  ultimately show ?thesis using inv unfolding c1_def[symmetric] by (auto simp: sessions_inv_def f)
qed

lemma sessions_inv_marked: "sessions_inv c \<Longrightarrow> sessions_inv (mark_detached n c)"
  using sessions_inv_let_go[of c n] by (auto simp: mark_detached_def let_go_def live_def split: option.splits hold.splits)

lemma sessions_inv_subscribed: "sessions_inv c \<Longrightarrow> sessions_inv (snd (subscribe sid c))"
proof -
  assume inv: "sessions_inv c"
  define c1 where "c1 = snd (subscribe sid c)"
  have f: "cl_frames c1 = cl_frames c" "cl_alive c1 = cl_alive c" "cl_draining c1 = cl_draining c" "cl_next_subscriber c1 = Suc (cl_next_subscriber c)"
    "cl_open_sessions c1 = cl_open_sessions c" "cl_holds c1 = cl_holds c"
    "cl_subscribers c1 = (cl_subscribers c)(cl_next_subscriber c \<mapsto> \<lparr>su_session = sid, su_listed = True, su_inbox = [], su_taken = [],
                 su_since = length (cl_frames c)\<rparr>)"
    by (simp_all add: c1_def subscribe_def Let_def)
  have "live c (cl_next_subscriber c) = None" using inv by (simp add: sessions_inv_def holds_ok_def live_def)
  moreover have "holds_ok c" using inv by (simp add: sessions_inv_def)
  ultimately have "holds_ok c1" by (intro holds_ok_kept[of c c1]) (auto simp: f)
  moreover have "heard_ok c \<lparr>su_session = sid, su_listed = True, su_inbox = [], su_taken = [], su_since = length (cl_frames c)\<rparr>"
    by (simp add: heard_ok_def own_frames_def)
  ultimately show ?thesis using inv unfolding c1_def[symmetric] by (auto simp: sessions_inv_def f heard_ok_frames[OF f(1)])
qed

lemma sessions_inv_opened:
  assumes inv: "sessions_inv c" and "open_begin sid c = Inr c1"
  shows "sessions_inv c1"
proof -
  let ?n = "cl_next_subscriber c"
  define c2 where "c2 = snd (subscribe sid c)"
  have inv2: "sessions_inv c2" unfolding c2_def by (rule sessions_inv_subscribed[OF inv])
  have new: "sid \<notin> cl_open_sessions c" using assms(2) by (auto simp: open_begin_def split: if_splits)
  have c1: "c1 = c2\<lparr>cl_open_sessions := insert sid (cl_open_sessions c2), cl_holds := (cl_holds c2)(?n \<mapsto> (sid, Opening))\<rparr>"
    using assms(2) new by (auto simp: open_begin_def c2_def subscribe_def Let_def)
  have s2: "cl_next_subscriber c2 = Suc ?n" "cl_open_sessions c2 = cl_open_sessions c" "cl_alive c2 = cl_alive c"
    "\<exists>u. cl_subscribers c2 ?n = Some u \<and> su_listed u \<and> su_session u = sid" "cl_holds c2 = cl_holds c" "cl_frames c1 = cl_frames c2"
    by (auto simp: c2_def subscribe_def Let_def c1)
  have live: "live c1 = (live c2)(?n \<mapsto> sid)" by (rule ext) (simp add: live_def c1)
  have none: "live c2 ?n = None" using inv by (simp add: sessions_inv_def holds_ok_def live_def s2)
  have h: "holds_ok c2" using inv2 by (simp add: sessions_inv_def)
  have "inj_on (live c1) (dom (live c1)) \<and> ran (live c1) = insert sid (ran (live c2))" if "cl_alive c2"
  proof -
    have "sid \<notin> ran (live c2)" using h that new s2(2) by (simp add: holds_ok_def)
    moreover have "inj_on (live c2) (dom (live c2))" using h that by (simp add: holds_ok_def)
    ultimately show ?thesis using none by (auto simp: live inj_on_def ranI)
  qed
  moreover have s1: "cl_alive c1 = cl_alive c2" "cl_next_subscriber c1 = Suc ?n" "cl_open_sessions c1 = insert sid (cl_open_sessions c2)"
    "cl_subscribers c1 = cl_subscribers c2" "cl_draining c1 = cl_draining c2" "\<forall>m \<ge> Suc ?n. cl_holds c1 m = cl_holds c2 m"
    by (simp_all add: c1 s2)
  moreover have "\<exists>u. cl_subscribers c2 m = Some u \<and> su_listed u \<and> su_session u = sid'" if "cl_alive c2" "live c1 m = Some sid'" for m sid'
    using that h s2(4) by (auto simp: holds_ok_def live split: if_splits)
  ultimately have "holds_ok c1" using h s2(1) by (simp add: holds_ok_def)
  then show ?thesis using inv2 s1 heard_ok_frames[OF s2(6)] by (simp add: sessions_inv_def)
qed

lemma sessions_inv_mapped:
  assumes inv: "sessions_inv c" and "cl_holds c1 = cl_holds c" "cl_open_sessions c1 = cl_open_sessions c"
    "cl_next_subscriber c1 = cl_next_subscriber c" "cl_alive c1 = cl_alive c" "cl_draining c1 = cl_draining c"
    and "\<And>n. cl_subscribers c1 n = map_option (g n) (cl_subscribers c n)" and "\<And>n u. heard_ok c u \<Longrightarrow> heard_ok c1 (g n u)"
    and "\<And>n u. live c n \<noteq> None \<Longrightarrow> su_listed u \<Longrightarrow> su_listed (g n u) \<and> su_session (g n u) = su_session u"
  shows "sessions_inv c1"
proof -
  have "holds_ok c" using inv by (simp add: sessions_inv_def)
  then have "holds_ok c1" by (rule holds_ok_kept) (use assms in auto)
  then show ?thesis using inv assms(5,6,7,8) by (auto simp: sessions_inv_def)
qed

lemma sessions_inv_dead:
  assumes "sessions_inv c" and "\<not> cl_alive c1" "cl_holds c1 = cl_holds c" "cl_next_subscriber c1 = cl_next_subscriber c" "cl_frames c1 = cl_frames c"
    and "\<And>n u. cl_subscribers c1 n = Some u \<Longrightarrow> \<exists>u0. cl_subscribers c n = Some u0 \<and> (u = u0 \<or> u = unlist u0)"
  shows "sessions_inv c1"
proof -
  have "heard_ok c1 u" if u: "cl_subscribers c1 n = Some u" for n u
    using assms(6)[OF u] assms(1) heard_ok_unlist by (auto simp: heard_ok_frames[OF assms(5)] sessions_inv_def)
  then show ?thesis using assms by (auto simp: sessions_inv_def holds_ok_def)
qed

lemma sessions_inv_received: "sessions_inv c \<Longrightarrow> sessions_inv (fst (recv_frame n c))"
proof -
  assume inv: "sessions_inv c"
  let ?g = "\<lambda>m u. if m = n then (case su_inbox u of f # fs \<Rightarrow> u\<lparr>su_inbox := fs, su_taken := su_taken u @ [f]\<rparr> | [] \<Rightarrow> u) else u"
  show ?thesis
  proof (rule sessions_inv_mapped[OF inv, of _ ?g])
    show "cl_subscribers (fst (recv_frame n c)) m = map_option (?g m) (cl_subscribers c m)" for m
      by (cases "cl_subscribers c m") (auto simp: recv_frame_def split: option.splits list.splits)
    show "heard_ok (fst (recv_frame n c)) (?g m u)" if "heard_ok c u" for m u
    proof -
      have "cl_frames (fst (recv_frame n c)) = cl_frames c" by (simp add: recv_frame_def split: option.splits list.splits)
      note same = heard_ok_frames[OF this]
      show ?thesis using that heard_ok_taken[OF that] by (auto simp: same split: list.splits)
    qed
  qed (auto simp: recv_frame_def split: option.splits list.splits)
qed

lemma sessions_inv_read: "sessions_inv c \<Longrightarrow> sessions_inv (read_daemon J line c)"
proof (cases "read_line J line")
  case (Some m)
  assume inv: "sessions_inv c"
  show ?thesis
  proof (cases m)
    case (In_Reply r)
    show ?thesis by (rule sessions_inv_kept[OF inv]) (simp_all add: read_daemon_def Some In_Reply settle_reply_def)
  next
    case (In_Frame f)
    have c1: "read_daemon J line c = (dispatch_frame f c)\<lparr>cl_frames := cl_frames c @ [f]\<rparr>" by (simp add: read_daemon_def Some In_Frame)
    show ?thesis unfolding c1
    proof (rule sessions_inv_mapped[OF inv, of _ "\<lambda>_. offered f"])
      show "heard_ok ((dispatch_frame f c)\<lparr>cl_frames := cl_frames c @ [f]\<rparr>) (offered f u)" if "heard_ok c u" for n :: nat and u
        by (rule heard_ok_offered[OF that]) simp
    qed (simp_all add: dispatch_frame_def offered_def)
  qed
qed (simp add: read_daemon_def)

lemma sessions_inv_disconnect: "sessions_inv c \<Longrightarrow> sessions_inv (disconnect_begin c)"
  by (cases "cl_alive c") (auto simp: disconnect_begin_def intro: sessions_inv_dead)

lemma sessions_inv_call: "sessions_inv c \<Longrightarrow> sessions_inv (set_call i p c)"
  by (erule sessions_inv_kept) (simp_all add: set_call_def)

lemma sessions_inv_forget: "sessions_inv c \<Longrightarrow> sessions_inv (forget_pending i c)"
  by (erule sessions_inv_kept) (simp_all add: forget_pending_def)

lemma sessions_inv_notify: "sessions_inv c \<Longrightarrow> sessions_inv (notify q c)"
  by (erule sessions_inv_kept) (simp_all add: notify_def Let_def)

lemma sessions_inv_step:
  assumes "client_step J c c1" and inv: "sessions_inv c"
  shows "sessions_inv c1"
  using assms(1)
proof cases
  case (called q t)
  show ?thesis by (rule sessions_inv_kept[OF inv]) (simp_all add: called call_begin_def Let_def)
next
  case (wrote i q t)
  have "sessions_inv (c\<lparr>cl_wire := cl_wire c @ [q]\<rparr>)" by (rule sessions_inv_kept[OF inv]) simp_all
  then show ?thesis unfolding wrote(1) by (rule sessions_inv_call)
next
  case drained
  show ?thesis by (rule sessions_inv_dead[OF inv]) (use drained inv in \<open>auto simp: disconnect_finish_def sessions_inv_def\<close>)
next
  case (unsubscribed n)
  show ?thesis unfolding unsubscribed(1)
  proof (rule sessions_inv_mapped[OF inv, of _ "\<lambda>m. if m = n then unlist else id"])
    show "heard_ok (remove_subscription n c) ((if m = n then unlist else id) u)" if "heard_ok c u" for m u
      using that heard_ok_unlist by (simp add: remove_subscription_def heard_ok_def own_frames_def unlist_def)
  qed (use unsubscribed in \<open>auto simp: remove_subscription_def option.map_id\<close>)
next
  case (open_ended n sid ok)
  then have live: "live c n = Some sid" by (simp add: live_def)
  show ?thesis
  proof (cases ok)
    case True
    have "live c1 = live c" by (rule ext) (use open_ended True in \<open>simp add: live_def open_end_def\<close>)
    moreover have "n < cl_next_subscriber c"
      using inv open_ended(2) by (metis holds_ok_def linorder_not_less option.distinct(1) sessions_inv_def)
    ultimately show ?thesis using inv open_ended True by (auto simp: sessions_inv_def holds_ok_def open_end_def heard_ok_def own_frames_def)
  next
    case False
    then show ?thesis using sessions_inv_let_go[OF inv live] open_ended by (simp add: open_end_def let_go_def)
  qed
next
  case (finished n ok)
  then show ?thesis using sessions_inv_marked[OF inv] sessions_inv_disconnect[OF inv] by (simp add: finish_lifecycle_def)
next
  case (dropped n)
  then show ?thesis using sessions_inv_marked sessions_inv_notify[OF inv] inv by (auto simp: session_drop_def split: option.splits hold.splits)
next
  case (opened sid)
  then show ?thesis using sessions_inv_opened[OF inv] by simp
qed (use inv in \<open>simp_all add: sessions_inv_call sessions_inv_forget sessions_inv_disconnect sessions_inv_read sessions_inv_subscribed sessions_inv_received\<close>)

lemma sessions_inv_runs:
  assumes "client_runs J from_stream c"
  shows "sessions_inv c"
  using assms by (induction) (use sessions_inv_new sessions_inv_step in blast)+

section \<open>Results\<close>

text \<open>
  C16: every call over a connection settles, with its own reply. However threads call, time out, write
  and lose the connection at once: no two requests are written under one id; a call that succeeds
  gives the result of a reply that carries its id; and once the connection is lost, every call that
  waits has its outcome.
\<close>

theorem calls_settle:
  assumes "client_runs J from_stream c"
  shows "distinct (map rq_id (cl_wire c))
    \<and> (\<forall>i q t v. call_in i (Settled (Inr v)) c q t \<longrightarrow>
         rq_id q = i \<and> (\<exists>r \<in> set (cl_replies c). rp_id r = i \<and> rp_ok r \<and> rp_result r = v))
    \<and> (\<forall>i q t. call_in i Awaiting c q t \<and> \<not> cl_alive c \<and> \<not> cl_draining c \<longrightarrow> cl_mail c i \<noteq> None)"
proof -
  have inv: "client_inv c" by (rule client_inv_runs[OF assms])
  have ok: "call_ok c i \<lparr>ca_request = q, ca_timeout = t, ca_phase = p\<rparr>" if "call_in i p c q t" for i p q t
    using that client_invD(1)[OF inv] by (simp add: call_in_def)
  have "rq_id q = i \<and> (\<exists>r \<in> set (cl_replies c). rp_id r = i \<and> rp_ok r \<and> rp_result r = v)" if "call_in i (Settled (Inr v)) c q t" for i q t v
    using ok[OF that] by (auto simp: call_ok_def)
  moreover have "cl_mail c i \<noteq> None" if "call_in i Awaiting c q t" "\<not> cl_alive c" "\<not> cl_draining c" for i q t
    using ok[OF that(1)] that(2,3) by (simp add: call_ok_def)
  ultimately show ?thesis using client_invD(3)[OF inv] by blast
qed

text \<open>
  C18: a session held over a living connection hears everything. At most one handle holds a session at a
  time; what it was handed followed by what waits for it is every frame of its session that came over
  the connection since it subscribed, in order; and a subscription that was let go, or whose
  connection was lost, got a prefix of them.
\<close>

theorem held_session_hears_all:
  assumes "client_runs J from_stream c"
  shows "(\<forall>n u. cl_subscribers c n = Some u \<longrightarrow> prefix (su_taken u @ su_inbox u) (own_frames (su_session u) (su_since u) c))
    \<and> (\<forall>n sid. cl_alive c \<and> live c n = Some sid \<longrightarrow>
         (\<forall>m. live c m = Some sid \<longrightarrow> m = n)
         \<and> (\<exists>u. cl_subscribers c n = Some u \<and> su_session u = sid \<and> su_taken u @ su_inbox u = own_frames sid (su_since u) c))"
proof -
  have inv: "sessions_inv c" by (rule sessions_inv_runs[OF assms])
  have one: "m = n" if "cl_alive c" "live c n = Some sid" "live c m = Some sid" for n m sid
    using inv that inj_onD[of "live c" "dom (live c)" m n] by (auto simp: sessions_inv_def holds_ok_def)
  have "\<exists>u. cl_subscribers c n = Some u \<and> su_session u = sid \<and> su_taken u @ su_inbox u = own_frames sid (su_since u) c"
    if al: "cl_alive c" and live: "live c n = Some sid" for n sid
  proof -
    obtain u where "cl_subscribers c n = Some u" "su_listed u" "su_session u = sid"
      using inv al live unfolding sessions_inv_def holds_ok_def by blast
    then show ?thesis using inv by (auto simp: sessions_inv_def heard_ok_def)
  qed
  moreover have "prefix (su_taken u @ su_inbox u) (own_frames (su_session u) (su_since u) c)" if "cl_subscribers c n = Some u" for n u
    using inv that by (auto simp: sessions_inv_def heard_ok_def)
  ultimately show ?thesis using one by blast
qed

text \<open>
  A subscription made after the connection was lost is listed, and nobody takes it off the list: whoever
  waits on it waits for good, where one made before is told that the daemon went away.
\<close>

lemma late_subscription_waits:
  assumes "\<not> cl_alive c" "\<not> cl_draining c" and "subscribe sid c = (n, c1)"
  shows "snd (recv_frame n c1) = Inr None" "\<not> cl_alive c1" "\<not> cl_draining c1"
  using assms by (auto simp: subscribe_def recv_frame_def Let_def)

subsection \<open>A call and a session\<close>

definition demo_ping :: request where "demo_ping = request_new 1 ''ping''"
definition demo_pong :: reply where "demo_pong = reply_ok 1 (JBool True)"
definition demo_frame :: frame where "demo_frame = frame_gone ''demo'' some_snapshot"
definition demo_lines :: codec where "demo_lines = menu_codec (request_value demo_ping) (reply_value demo_pong) (frame_value demo_frame)"

lemma demo_reads: "read_line demo_lines ''b'' = Some (In_Reply demo_pong)" "read_line demo_lines ''c'' = Some (In_Frame demo_frame)"
  by code_simp+

definition demo_asked :: client where
  "demo_asked = read_daemon demo_lines ''b'' (set_call 1 Awaiting ((\<lambda>c. c\<lparr>cl_wire := [demo_ping]\<rparr>) (set_call 1 Cleared (call_begin demo_ping 5 from_stream))))"

definition demo_answered :: client where
  "demo_answered = set_call 1 (Settled (Inr (JBool True))) demo_asked"

lemma demo_answered_runs: "client_runs demo_lines from_stream demo_answered"
proof -
  let ?s = "client_step demo_lines"
  let ?q = demo_ping
  let ?c1 = "call_begin ?q 5 from_stream"
  let ?c2 = "set_call 1 Cleared ?c1"
  let ?c3 = "set_call 1 Awaiting (?c2\<lparr>cl_wire := [?q]\<rparr>)"
  have "?s from_stream ?c1" by (rule called)
  moreover have "?s ?c1 ?c2"
    by (rule cleared[of 1 _ ?q 5]) (simp_all add: call_in_def call_begin_def from_stream_def demo_ping_def request_new_def)
  moreover have "?s ?c2 ?c3" using wrote[of 1 ?c2 ?q 5 demo_lines]
    by (simp add: call_in_def call_begin_def from_stream_def set_call_def demo_ping_def request_new_def)
  moreover have "?s ?c3 demo_asked" unfolding demo_asked_def by (rule read_one)
  moreover have "?s demo_asked demo_answered"
    using got[of 1 demo_asked ?q 5 "Inr demo_pong" demo_lines]
    by (simp add: demo_answered_def demo_asked_def call_in_def call_begin_def from_stream_def set_call_def demo_ping_def request_new_def
        read_daemon_def demo_reads settle_reply_def demo_pong_def reply_ok_def reply_outcome_def)
  ultimately show ?thesis by (meson converse_rtranclp_into_rtranclp rtranclp.rtrancl_refl)
qed

theorem calls_settle_witness:
  "call_in 1 (Settled (Inr (JBool True))) demo_answered demo_ping 5
   \<and> (\<exists>r \<in> set (cl_replies demo_answered). rp_id r = 1 \<and> rp_ok r \<and> rp_result r = JBool True)"
proof -
  have c: "call_in 1 (Settled (Inr (JBool True))) demo_answered demo_ping 5"
    by (simp add: demo_answered_def demo_asked_def call_in_def call_begin_def from_stream_def set_call_def demo_ping_def request_new_def
        read_daemon_def demo_reads settle_reply_def demo_pong_def reply_ok_def)
  then show ?thesis using calls_settle[OF demo_answered_runs] by blast
qed

definition demo_held :: client where
  "demo_held = read_daemon demo_lines ''c'' (open_end 1 ''demo'' True (projr (open_begin ''demo'' from_stream)))"

lemma demo_held_runs: "client_runs demo_lines from_stream demo_held"
proof -
  let ?s = "client_step demo_lines"
  let ?c1 = "projr (open_begin ''demo'' from_stream)"
  have o: "open_begin ''demo'' from_stream = Inr ?c1" by (simp add: open_begin_def from_stream_def subscribe_def Let_def)
  have "?s from_stream ?c1" by (rule opened[OF o])
  moreover have "?s ?c1 (open_end 1 ''demo'' True ?c1)"
    by (rule open_ended) (simp add: open_begin_def from_stream_def subscribe_def Let_def)
  moreover have "?s (open_end 1 ''demo'' True ?c1) demo_held" unfolding demo_held_def by (rule read_one)
  ultimately show ?thesis by (meson converse_rtranclp_into_rtranclp rtranclp.rtrancl_refl)
qed

theorem held_session_hears_all_witness:
  "cl_alive demo_held \<and> live demo_held 1 = Some ''demo''
   \<and> (\<exists>u. cl_subscribers demo_held 1 = Some u \<and> su_taken u @ su_inbox u = [demo_frame])"
proof -
  have a: "cl_alive demo_held" "live demo_held 1 = Some ''demo''" "own_frames ''demo'' 0 demo_held = [demo_frame]"
    "cl_subscribers demo_held 1 \<noteq> None" "\<And>u. cl_subscribers demo_held 1 = Some u \<Longrightarrow> su_since u = 0"
    by (auto simp: demo_held_def read_daemon_def demo_reads dispatch_frame_def open_end_def open_begin_def from_stream_def subscribe_def Let_def
        live_def own_frames_def demo_frame_def frame_gone_def offered_def)
  then show ?thesis using held_session_hears_all[OF demo_held_runs] by metis
qed

end
