(* ===== verification/Client_Requests.thy ===== *)
theory Client_Requests
  imports Client_Calls Daemon_Serve Shell_Env
begin

text \<open>
  \<open>omni-client/src/lib.rs\<close>: the typed operations of a client. Each builds a request, makes a call and
  reads the result as a type of its own; the call (\<open>call_with_timeout\<close>, \<open>Client_Calls\<close>) is an argument.
  The reader is that of \<open>serde\<close> for the struct named; its own words are left out of the error.
\<close>

section \<open>Requests\<close>

record setting =
  se_what :: string
  se_value :: json

record open_options =
  oo_session :: string
  oo_providers :: "string list option"
  oo_cwd :: "string option"
  oo_from :: int
  oo_settings :: "setting list"

definition open_options_new :: "string option \<Rightarrow> string \<Rightarrow> open_options" where
  "open_options_new here sid = \<lparr>oo_session = sid, oo_providers = None, oo_cwd = here, oo_from = 0, oo_settings = []\<rparr>"

definition setting_value :: "setting \<Rightarrow> json" where
  "setting_value s = JObject [(''value'', se_value s), (''what'', JString (se_what s))]"

definition open_request :: "open_options \<Rightarrow> request" where
  "open_request o1 =
     (request_on (oo_session o1) (request_new 0 ''open''))\<lparr>rq_providers := oo_providers o1, rq_cwd := oo_cwd o1,
        rq_from := Some (oo_from o1), rq_value := JArray (map setting_value (oo_settings o1))\<rparr>"

definition send_request :: "string \<Rightarrow> string \<Rightarrow> request" where
  "send_request sid t = request_saying t (request_on sid (request_new 0 ''send''))"

definition set_request :: "string \<Rightarrow> string \<Rightarrow> json \<Rightarrow> request" where
  "set_request sid what v = request_about what v (request_on sid (request_new 0 ''set''))"

definition events_request :: "string \<Rightarrow> int \<Rightarrow> request" where
  "events_request sid from = (request_on sid (request_new 0 ''events''))\<lparr>rq_from := Some from\<rparr>"

definition providers_request :: "string list option \<Rightarrow> request" where
  "providers_request only = (request_new 0 ''providers'')\<lparr>rq_providers := only\<rparr>"

definition dial_request :: "string list option \<Rightarrow> request" where
  "dial_request ps = (request_new 0 ''dial'')\<lparr>rq_providers := ps\<rparr>"

definition account_request :: "string \<Rightarrow> string \<Rightarrow> string option \<Rightarrow> request" where
  "account_request provider what t = (request_new 0 ''account'')\<lparr>rq_provider := Some provider, rq_what := Some what, rq_text := t\<rparr>"

definition account_timeout :: "string \<Rightarrow> int" where
  "account_timeout what =
     (if what = ''finish_auth'' then 600
      else if what = ''start_auth'' \<or> what = ''limits'' then 180
      else DEFAULT_TIMEOUT)"

section \<open>Results\<close>

definition u32_max :: int where "u32_max = 2 ^ 32 - 1"

definition as_u32 :: "json \<Rightarrow> int option" where
  "as_u32 v = (case as_u64 v of Some n \<Rightarrow> if n \<le> u32_max then Some n else None | None \<Rightarrow> None)"

record daemon_info =
  di_protocol :: int
  di_version :: string
  di_pid :: int
  di_started :: string
  di_home :: string

definition read_info :: "json \<Rightarrow> daemon_info option" where
  "read_info v =
     Option.bind (struct_fields [''protocol'', ''version'', ''pid'', ''started'', ''home''] v) (\<lambda>m.
     Option.bind (required as_u32 m ''protocol'') (\<lambda>pr.
     Option.bind (required as_str m ''version'') (\<lambda>ve.
     Option.bind (required as_u32 m ''pid'') (\<lambda>pid.
     Option.bind (required as_str m ''started'') (\<lambda>st.
     Option.bind (required as_str m ''home'') (\<lambda>ho.
     Some \<lparr>di_protocol = pr, di_version = ve, di_pid = pid, di_started = st, di_home = ho\<rparr>))))))"

record opened =
  od_session :: string
  od_replayed :: nat
  od_listeners :: nat
  od_snapshot :: snapshot

definition read_opened :: "json \<Rightarrow> opened option" where
  "read_opened v =
     Option.bind (struct_fields [''session'', ''replayed'', ''listeners'', ''snapshot''] v) (\<lambda>m.
     Option.bind (required as_str m ''session'') (\<lambda>sid.
     Option.bind (required as_u64 m ''replayed'') (\<lambda>k.
     Option.bind (required as_u64 m ''listeners'') (\<lambda>n.
     Option.bind (required snapshot_of m ''snapshot'') (\<lambda>sn.
     Some \<lparr>od_session = sid, od_replayed = nat k, od_listeners = nat n, od_snapshot = sn\<rparr>)))))"

definition read_flag :: "string \<Rightarrow> json \<Rightarrow> bool option" where
  "read_flag name v = Option.bind (struct_fields [name] v) (\<lambda>m. required as_bool m name)"

definition read_status :: "json \<Rightarrow> (snapshot \<times> nat) option" where
  "read_status v =
     Option.bind (struct_fields [''snapshot'', ''listeners''] v) (\<lambda>m.
     Option.bind (required snapshot_of m ''snapshot'') (\<lambda>sn.
     Option.bind (required as_u64 m ''listeners'') (\<lambda>n. Some (sn, nat n))))"

fun read_all :: "(json \<Rightarrow> 'a option) \<Rightarrow> json list \<Rightarrow> 'a list option" where
  "read_all rd [] = Some []"
| "read_all rd (v # vs) = Option.bind (rd v) (\<lambda>x. map_option (\<lambda>xs. x # xs) (read_all rd vs))"

definition read_list :: "string \<Rightarrow> (json \<Rightarrow> 'a option) \<Rightarrow> json \<Rightarrow> 'a list option" where
  "read_list name rd v =
     Option.bind (struct_fields [name] v) (\<lambda>m. required (\<lambda>x. Option.bind (as_array x) (read_all rd)) m name)"

text \<open>The keys of an object as integers, the way the reader of a \<open>BTreeMap<i64, _>\<close> takes them.\<close>

definition digits :: "string \<Rightarrow> int option" where
  "digits s =
     (if s \<noteq> [] \<and> (\<forall>ch \<in> set s. CHR ''0'' \<le> ch \<and> ch \<le> CHR ''9'') \<and> (hd s = CHR ''0'' \<longrightarrow> length s = 1)
      then Some (foldl (\<lambda>a ch. a * 10 + (of_char ch - 48)) 0 s) else None)"

definition read_key :: "string \<Rightarrow> int option" where
  "read_key s =
     (case (case s of [] \<Rightarrow> None
            | ch # t \<Rightarrow> if ch = CHR ''-'' then (case digits t of Some n \<Rightarrow> if n = 0 then None else Some (- n) | None \<Rightarrow> None) else digits s) of
        Some n \<Rightarrow> if fits_i64 n then Some n else None
      | None \<Rightarrow> None)"

fun read_rungs :: "(string \<times> json) list \<Rightarrow> (int \<times> pick) list option" where
  "read_rungs [] = Some []"
| "read_rungs ((k, v) # m) =
     Option.bind (read_key k) (\<lambda>n. Option.bind (pick_from v) (\<lambda>p. map_option (bt_or_insert n p) (read_rungs m)))"

definition read_dial :: "json \<Rightarrow> (int \<times> pick) list option" where
  "read_dial v = Option.bind (as_object v) read_rungs"

definition decode :: "string \<Rightarrow> (json \<Rightarrow> 'a option) \<Rightarrow> json client_result \<Rightarrow> 'a client_result" where
  "decode op rd a =
     (case a of
        Inl e \<Rightarrow> Inl e
      | Inr v \<Rightarrow> (case rd v of Some x \<Rightarrow> Inr x | None \<Rightarrow> Inl (Bad_Protocol (''bad '' @ op @ '' reply from daemon''))))"

section \<open>Operations\<close>

type_synonym transport = "request \<Rightarrow> int \<Rightarrow> json client_result"

definition client_ping :: "transport \<Rightarrow> daemon_info client_result" where
  "client_ping call = decode ''ping'' read_info (call (request_new 0 ''ping'') DEFAULT_TIMEOUT)"

definition client_open :: "transport \<Rightarrow> open_options \<Rightarrow> opened client_result" where
  "client_open call o1 = decode ''open'' read_opened (call (open_request o1) DEFAULT_TIMEOUT)"

definition client_send :: "transport \<Rightarrow> string \<Rightarrow> string \<Rightarrow> bool client_result" where
  "client_send call sid t = decode ''send'' (read_flag ''accepted'') (call (send_request sid t) DEFAULT_TIMEOUT)"

definition client_set :: "transport \<Rightarrow> string \<Rightarrow> string \<Rightarrow> json \<Rightarrow> bool client_result" where
  "client_set call sid what v = decode ''set'' (read_flag ''accepted'') (call (set_request sid what v) DEFAULT_TIMEOUT)"

definition client_stop :: "transport \<Rightarrow> string \<Rightarrow> bool client_result" where
  "client_stop call sid = decode ''stop'' (read_flag ''stopped'') (call (request_on sid (request_new 0 ''stop'')) DEFAULT_TIMEOUT)"

definition client_status :: "transport \<Rightarrow> string \<Rightarrow> (snapshot \<times> nat) client_result" where
  "client_status call sid = decode ''status'' read_status (call (request_on sid (request_new 0 ''status'')) DEFAULT_TIMEOUT)"

definition client_events :: "transport \<Rightarrow> string \<Rightarrow> int \<Rightarrow> event list client_result" where
  "client_events call sid from = decode ''events'' (read_list ''events'' from_value) (call (events_request sid from) DEFAULT_TIMEOUT)"

definition client_sessions :: "transport \<Rightarrow> (snapshot \<times> nat) list client_result" where
  "client_sessions call = decode ''sessions'' (read_list ''sessions'' read_status) (call (request_new 0 ''sessions'') DEFAULT_TIMEOUT)"

definition client_providers :: "transport \<Rightarrow> string list option \<Rightarrow> string list client_result" where
  "client_providers call only = decode ''providers'' read_strings (call (providers_request only) DEFAULT_TIMEOUT)"

definition client_dial :: "transport \<Rightarrow> string list option \<Rightarrow> (int \<times> pick) list client_result" where
  "client_dial call ps =
     (case call (dial_request ps) DEFAULT_TIMEOUT of
        Inl (Daemon_Error m) \<Rightarrow> if prefix ''no dial for '' m then Inl (No_Answer m) else Inl (Daemon_Error m)
      | a \<Rightarrow> decode ''dial'' read_dial a)"

definition client_account :: "transport \<Rightarrow> string \<Rightarrow> string \<Rightarrow> string option \<Rightarrow> json client_result" where
  "client_account call provider what t = call (account_request provider what t) (account_timeout what)"

definition client_shutdown :: "transport \<Rightarrow> unit client_result" where
  "client_shutdown call = decode ''shutdown'' (\<lambda>_. Some ()) (call (request_new 0 ''shutdown'') DEFAULT_TIMEOUT)"

text \<open>\<open>connect_to\<close>, once the socket is connected: the daemon must speak this protocol.\<close>

definition handshake :: "transport \<Rightarrow> unit client_result" where
  "handshake call =
     (case decode ''ping'' read_info (call (request_new 0 ''ping'') HANDSHAKE_TIMEOUT) of
        Inl e \<Rightarrow> Inl e
      | Inr info \<Rightarrow>
          if di_protocol info \<noteq> int PROTOCOL
          then Inl (Bad_Protocol (''omni protocol mismatch: this client speaks '' @ show_nat PROTOCOL @ '', but the running daemon speaks ''
             @ show_int (di_protocol info) @ ''; stop the old daemon and retry''))
          else Inr ())"

section \<open>Looking for the daemon\<close>

text \<open>\<open>daemon_binary\<close>: where the variable says, beside this program, on the path, in a checkout.\<close>

definition omnid_in :: "string \<Rightarrow> string" where
  "omnid_in d = (if d = [] then ''omnid'' else dir_join d ''omnid'')"

definition daemon_binary :: "(string \<Rightarrow> bool) \<Rightarrow> string option \<Rightarrow> string option \<Rightarrow> string option \<Rightarrow> string list \<Rightarrow> string option" where
  "daemon_binary is_file var here path roots =
     (case var of
        Some p \<Rightarrow> if is_file p then Some p else None
      | None \<Rightarrow>
          List.find is_file
            ((case here of Some d \<Rightarrow> [omnid_in d] | None \<Rightarrow> [])
             @ (case path of Some p \<Rightarrow> map omnid_in (split_on CHR '':'' p) | None \<Rightarrow> [])
             @ concat (map (\<lambda>root. if is_file (dir_join root ''Cargo.toml'')
                  then map (\<lambda>profile. omnid_in (dir_join (dir_join root ''target'') profile)) [''release'', ''debug''] else []) roots)))"

section \<open>What the daemon answers\<close>

text \<open>A daemon whose numbers fit the integers of the protocol.\<close>

definition presentable :: "'r daemon \<Rightarrow> bool" where
  "presentable d \<longleftrightarrow> (\<forall>(sid, h) \<in> set (rg_sessions (dm_registry d)).
     sendable_snapshot (snapshot_of_held h) \<and> int (listeners (hd_live h)) \<le> u64_max)"

lemma presentable_get:
  "presentable d \<Longrightarrow> bt_get (rg_sessions (dm_registry d)) sid = Some h
    \<Longrightarrow> snapshot_of (snapshot_value (snapshot_of_held h)) = Some (snapshot_of_held h) \<and> int (listeners (hd_live h)) \<le> u64_max"
  by (auto simp: presentable_def bt_get_def snapshot_reads_back dest!: map_of_SomeD)

text \<open>Events that came from a log are readable again.\<close>

definition in_range :: "event \<Rightarrow> bool" where
  "in_range e \<longleftrightarrow> fits_i64 (ev_v e) \<and> fits_i64 (ev_seq e) \<and> fits_i64 (ev_turn e)"

lemma as_i64_fits: "field as_i64 d m k = Some n \<Longrightarrow> fits_i64 d \<Longrightarrow> fits_i64 n"
proof -
  assume a: "field as_i64 d m k = Some n" and d: "fits_i64 d"
  have "as_i64 v = Some n \<Longrightarrow> fits_i64 n" for v by (cases v) (simp_all split: if_splits)
  then show ?thesis using a d by (auto simp: field_def split: option.splits)
qed

lemma from_value_in_range:
  assumes "from_value v = Some e"
  shows "in_range e"
proof -
  obtain m where "field as_i64 SCHEMA_VERSION m ''v'' = Some (ev_v e)" "field as_i64 (-1) m ''seq'' = Some (ev_seq e)"
    "field as_i64 (-1) m ''turn'' = Some (ev_turn e)"
    using assms by (auto simp: from_value_def from_fields_def bind_eq_Some_conv)
  moreover have "fits_i64 SCHEMA_VERSION" "fits_i64 (-1)" by (simp_all add: SCHEMA_VERSION_def fits_i64_def i64_min_def i64_max_def)
  ultimately show ?thesis using as_i64_fits unfolding in_range_def by blast
qed

text \<open>A position below -1 is read back as no position.\<close>

definition settled :: "event \<Rightarrow> event" where
  "settled e = e\<lparr>ev_seq := max (-1) (ev_seq e), ev_turn := max (-1) (ev_turn e)\<rparr>"

lemma in_range_readable: "in_range e \<Longrightarrow> from_value (to_value e) = Some (settled e)"
proof -
  assume "in_range e"
  then have "storable (settled e)" by (simp add: storable_def in_range_def settled_def placed_def fits_i64_def i64_min_def i64_max_def max_def)
  moreover have "to_value (settled e) = to_value e"
    by (simp add: to_value_def to_fields_def settled_def put_placed_def max_def)
  ultimately show ?thesis using event_reads_back[of "settled e"] by simp
qed

lemma load_events_in_range: "list_all in_range evs \<Longrightarrow> list_all in_range (fst (load_events sid rs evs))"
  by (induction sid rs evs rule: load_events.induct) (auto split: option.splits dest: from_value_in_range)

lemma store_open_in_range: "e \<in> set (st_events (snd (store_open J home sid w))) \<Longrightarrow> in_range e"
  using load_events_in_range[of "[]" sid] by (auto simp: store_open_def Let_def list_all_iff split: prod.splits) (metis fst_conv)

lemma gapless_short:
  assumes "gapless evs" and "\<And>e. e \<in> set evs \<Longrightarrow> in_range e"
  shows "int (length evs) \<le> u64_max"
proof (cases evs rule: rev_cases)
  case (snoc es e)
  then have "ev_seq e = int (length es)" using assms(1) by (simp add: gapless_snoc)
  moreover have "in_range e" using assms(2) snoc by simp
  ultimately show ?thesis using snoc by (simp add: in_range_def fits_i64_def i64_max_def u64_max_def)
qed (simp add: u64_max_def)

lemma replay_short: "int (length (store_events from (snd (store_open J home sid w)))) \<le> u64_max"
proof -
  let ?evs = "st_events (snd (store_open J home sid w))"
  have "gapless ?evs" using load_events_gapless[OF gapless_Nil] by (simp add: store_open_def Let_def split: prod.splits) (metis fst_conv)
  then have "int (length ?evs) \<le> u64_max" using store_open_in_range by (rule gapless_short)
  then show ?thesis using length_filter_le[of "\<lambda>e. from \<le> ev_seq e" ?evs] unfolding store_events_def by linarith
qed

lemma live_attach_replay:
  assumes "live_attach E conn from pauses instant d = (d1, Inr k)"
  shows "int k \<le> u64_max"
proof -
  obtain h w cs where d: "d = (h, w, cs)" by (cases d)
  show ?thesis using assms
    by (auto simp: live_attach_def attach_def d Let_def split: prod.splits if_splits) (metis replay_short snd_conv)
qed

lemma open_locked_replay:
  assumes "open_locked E n q g = Some (g1, Inr k)"
  shows "int k \<le> u64_max" "bt_get (rg_sessions g1) (op_session q) \<noteq> None"
proof -
  have warm: "int k \<le> u64_max \<and> bt_get (rg_sessions g1) (op_session q) \<noteq> None" if "open_warm E n q d g = Some (g1, Inr k)" for d
    using that live_attach_replay by (auto simp: open_warm_def split: option.splits prod.splits sum.splits)
  have cold: "int k \<le> u64_max \<and> bt_get (rg_sessions g1) (op_session q) \<noteq> None" if "open_cold E n q g0 = Some (g1, Inr k)" for g0
    using that live_attach_replay by (auto simp: open_cold_def settle_open_def Let_def split: option.splits prod.splits sum.splits if_splits)
  show "int k \<le> u64_max" "bt_get (rg_sessions g1) (op_session q) \<noteq> None"
    using assms warm cold by (auto simp: open_locked_def split: if_splits option.splits)
qed

lemma required_plain: "required rd m k = (case bt_get m k of Some v \<Rightarrow> rd v | None \<Rightarrow> None)"
  by (simp add: required_def split: option.split)

lemma read_all_map: "(\<And>x. x \<in> set xs \<Longrightarrow> rd (g x) = Some (f x)) \<Longrightarrow> read_all rd (map g xs) = Some (map f xs)"
  by (induction xs) auto

lemma ok_dispatched:
  assumes "daemon_answer E c q conn d = Some (d1, r)" and "rp_ok r"
  shows "dispatch_op E c q conn d = Some (d1, Inr (rp_result r))"
proof -
  obtain x where x: "serve_dispatch E c q conn d = Some (d1, x)" "r = (case x of Inr v \<Rightarrow> reply_ok (rq_id q) v | Inl why \<Rightarrow> reply_failed (rq_id q) why)"
    using assms(1) by (auto simp: daemon_answer_def)
  then obtain v where v: "x = Inr v" using assms(2) by (cases x) (simp_all add: reply_failed_def)
  have "rp_result r = v" using x(2) v by (simp add: reply_ok_def)
  then show ?thesis using x(1) v by (auto simp: serve_dispatch_def given_def split: sum.splits if_splits)
qed

lemmas reading = read_info_def read_opened_def read_flag_def read_status_def read_list_def required_plain struct_fields_def bt_get_def as_u32_def

lemma named_on: "rq_session q = Some sid \<Longrightarrow> sid \<noteq> [] \<Longrightarrow> named q = Inr sid"
  by (simp add: named_def)

lemma given_Inr: "given x d f = Some (d1, Inr v) \<longleftrightarrow> (\<exists>y. x = Inr y \<and> f y = Some (d1, Inr v))"
  by (auto simp: given_def split: sum.splits)

lemma ping_decodes:
  assumes "0 \<le> dc_pid c" "dc_pid c \<le> u32_max"
  shows "read_info (ping_reply E c d) = Some \<lparr>di_protocol = int PROTOCOL, di_version = dc_version c, di_pid = dc_pid c, di_started = dm_started d, di_home = en_home E\<rparr>"
  using assms by (simp add: ping_reply_def reading PROTOCOL_def u32_max_def u64_max_def)

lemma accepted_decodes:
  assumes "accepted d x = Some (d1, Inr v)"
  shows "read_flag ''accepted'' v = Some True"
proof -
  obtain g r where "x = Some (g, r)" "(case r of Inl why \<Rightarrow> Inl why | Inr _ \<Rightarrow> Inr (JObject [(''accepted'', JBool True)])) = Inr v"
    using assms by (auto simp: accepted_def)
  then have "v = JObject [(''accepted'', JBool True)]" by (cases r) simp_all
  then show ?thesis by (simp add: reading)
qed

lemma stop_decodes:
  assumes "serve_stop E c q d = Some (d1, Inr v)"
  shows "read_flag ''stopped'' v \<noteq> None"
  using assms by (auto simp: serve_stop_def given_Inr reading)

lemma status_decodes:
  assumes "serve_status q d = Some (d1, Inr v)" and "presentable d1" and "rq_session q = Some sid"
  shows "\<exists>h. bt_get (rg_sessions (dm_registry d)) sid = Some h \<and> read_status v = Some (snapshot_of_held h, listeners (hd_live h))"
proof -
  obtain h where h: "bt_get (rg_sessions (dm_registry d)) sid = Some h" "d1 = d"
    "v = JObject [(''listeners'', JInt (int (listeners (hd_live h)))), (''snapshot'', snapshot_value (snapshot_of_held h))]"
    using assms(1,3) by (auto simp: serve_status_def given_Inr named_def split: option.splits if_splits)
  then show ?thesis using presentable_get[of d sid h] assms(2) by (simp add: reading)
qed

lemma sessions_decode:
  assumes "presentable d"
  shows "read_list ''sessions'' read_status (serve_sessions d) = Some (snapshots (dm_registry d))"
proof -
  have "read_status (JObject [(''listeners'', JInt (int n)), (''snapshot'', snapshot_value sn)]) = Some (sn, n)"
    if "(sn, n) \<in> set (snapshots (dm_registry d))" for sn n
    using that assms by (auto simp: snapshots_def presentable_def reading snapshot_reads_back)
  then have "read_all read_status (map (\<lambda>(sn, n). JObject [(''listeners'', JInt (int n)), (''snapshot'', snapshot_value sn)]) (snapshots (dm_registry d)))
     = Some (map (\<lambda>x. x) (snapshots (dm_registry d)))"
    by (intro read_all_map) auto
  then show ?thesis by (simp add: serve_sessions_def read_list_def struct_fields_def required_plain bt_get_def)
qed

lemma events_decode:
  assumes "serve_events E q d = Some (d1, Inr v)" and "rq_session q = Some sid"
  shows "read_list ''events'' from_value v
    = Some (map settled (store_events (case rq_from q of Some n \<Rightarrow> n | None \<Rightarrow> 0) (snd (store_open (en_codec E) (en_home E) sid (rg_world (dm_registry d))))))"
proof -
  let ?evs = "store_events (case rq_from q of Some n \<Rightarrow> n | None \<Rightarrow> 0) (snd (store_open (en_codec E) (en_home E) sid (rg_world (dm_registry d))))"
  have "v = JObject [(''events'', JArray (map to_value ?evs))]"
  proof -
    obtain w st where st: "store_open (en_codec E) (en_home E) sid (rg_world (dm_registry d)) = (w, st)" by fastforce
    obtain sid' where "named q = Inr sid'" using assms(1) unfolding serve_events_def given_Inr by blast
    then have "named q = Inr sid" using assms(2) by (auto simp: named_def split: if_splits)
    then show ?thesis using assms(1) by (simp add: serve_events_def given_Inr st split: option.splits)
  qed
  moreover have "read_all from_value (map to_value ?evs) = Some (map settled ?evs)"
    using store_open_in_range by (intro read_all_map in_range_readable) (auto simp: store_events_def)
  ultimately show ?thesis by (simp add: read_list_def struct_fields_def required_plain bt_get_def)
qed

lemma open_decodes:
  assumes "serve_open E c q conn d = Some (d1, Inr v)" and "presentable d1" and "rq_session q = Some sid"
  shows "\<exists>o1. read_opened v = Some o1 \<and> od_session o1 = sid"
proof -
  obtain sid' changes where n: "named q = Inr sid'" "settings (en_codec E) (rq_value q) = Inr changes"
    using assms(1) unfolding serve_open_def given_Inr by blast
  have sid: "named q = Inr sid" using n(1) assms(3) by (auto simp: named_def split: if_splits)
  define call where "call = (let asked = asked_providers q in
    \<lparr>op_session = sid, op_discover = discover c asked, op_settings = (case asked of Some ps \<Rightarrow> Ch_Providers ps # changes | None \<Rightarrow> changes),
     op_cwd = rq_cwd q, op_conn = conn, op_from = (case rq_from q of Some n \<Rightarrow> n | None \<Rightarrow> 0), op_pauses = dc_pauses c, op_instant = dc_instant c,
     op_look = dc_look c\<rparr>)"
  have o1: "serve_open E c q conn d = (case open_locked E (dc_fuel c) call (dm_registry d) of
            None \<Rightarrow> None
          | Some (g, Inl why) \<Rightarrow> Some (d\<lparr>dm_registry := g\<rparr>, Inl why)
          | Some (g, Inr replayed) \<Rightarrow>
              let g1 = g\<lparr>rg_conns := (rg_conns g)(conn := listen_to sid (rg_conns g conn))\<rparr>
              in Some (d\<lparr>dm_registry := g1\<rparr>, Inr (opened_reply sid replayed g1)))"
    by (simp add: serve_open_def given_def sid n(2) call_def Let_def)
  obtain g x where x: "open_locked E (dc_fuel c) call (dm_registry d) = Some (g, x)" using assms(1) o1 by (auto split: option.splits)
  then obtain k where k: "x = Inr k" using assms(1) o1 by (cases x) simp_all
  have g: "open_locked E (dc_fuel c) call (dm_registry d) = Some (g, Inr k)" "op_session call = sid"
    "dm_registry d1 = g\<lparr>rg_conns := (rg_conns g)(conn := listen_to sid (rg_conns g conn))\<rparr>" "v = opened_reply sid k (dm_registry d1)"
    using x k assms(1) o1 by (auto simp: call_def Let_def)
  obtain h where h: "bt_get (rg_sessions (dm_registry d1)) sid = Some h" using open_locked_replay(2)[OF g(1)] g(2,3) by auto
  show ?thesis using open_locked_replay(1)[OF g(1)] presentable_get[OF assms(2) h] h
    by (simp add: g(4) opened_reply_def reading)
qed

lemma read_keys: "v \<in> set (map int [0..<nat INTELLIGENCE_VALUES]) \<Longrightarrow> read_key (show_int v) = Some v"
proof -
  have "list_all (\<lambda>v. read_key (show_int v) = Some v) (map int [0..<nat INTELLIGENCE_VALUES])" by code_simp
  then show "v \<in> set (map int [0..<nat INTELLIGENCE_VALUES]) \<Longrightarrow> read_key (show_int v) = Some v" by (simp only: list_all_iff)
qed

lemma bt_insert_entries: "q \<in> set (bt_insert k v m) \<Longrightarrow> q = (k, v) \<or> q \<in> set m"
  by (induction k v m rule: bt_insert.induct) (auto simp: bt_insert.simps split: if_splits)

lemma dial_table_entries:
  "dial_table J home ps vs w = (w1, table, err) \<Longrightarrow> (k, x) \<in> set table \<Longrightarrow> \<exists>v \<in> set vs. \<exists>p. k = show_int v \<and> x = pick_value p"
proof (induction vs arbitrary: w w1 table err)
  case (Cons v vs)
  obtain w2 r where r: "resolve J home (ask_intelligence v) ps w = (w2, r)" by fastforce
  obtain w3 t e where t: "dial_table J home ps vs w2 = (w3, t, e)" by (cases "dial_table J home ps vs w2")
  have "table = (case r of Inr p \<Rightarrow> bt_insert (show_int v) (pick_value p) t | Inl _ \<Rightarrow> t)"
    using Cons.prems(1) by (cases r) (simp_all add: r t)
  then have "(k, x) \<in> set t \<or> (\<exists>p. (k, x) \<in> set (bt_insert (show_int v) (pick_value p) t))"
    using Cons.prems(2) by (cases r) (simp_all only: sum.case, blast+)
  moreover have "k = show_int v \<and> x = pick_value p \<or> (k, x) \<in> set t" if "(k, x) \<in> set (bt_insert (show_int v) (pick_value p) t)" for p
    using bt_insert_entries[OF that] by simp
  ultimately have "(k, x) \<in> set t \<or> (\<exists>p. k = show_int v \<and> x = pick_value p)" by meson
  then show ?case using Cons.IH[OF t] by auto
qed simp

lemma read_rungs_all: "(\<And>k x. (k, x) \<in> set m \<Longrightarrow> read_key k \<noteq> None \<and> pick_from x \<noteq> None) \<Longrightarrow> read_rungs m \<noteq> None"
  by (induction m rule: read_rungs.induct) (simp, fastforce)

lemma dial_decodes:
  assumes "serve_dial E c q d = Some (d1, Inr v)"
  shows "read_dial v \<noteq> None"
proof -
  obtain ps w w2 table err where t: "dial_table (en_codec E) (en_home E) ps (map int [0..<nat INTELLIGENCE_VALUES]) w = (w2, table, err)" "v = JObject table"
    using assms by (auto simp: serve_dial_def Let_def split: prod.splits if_splits)
  have "read_key k \<noteq> None \<and> pick_from x \<noteq> None" if "(k, x) \<in> set table" for k x
    using dial_table_entries[OF t(1) that] read_keys by auto
  then show ?thesis using read_rungs_all[of table] by (simp add: read_dial_def t(2))
qed



end
