(* ===== verification/Client_Chat.thy ===== *)
theory Client_Chat
  imports Client_Requests
begin

text \<open>
  \<open>omni-client/src/facade.rs\<close>: the handle of a conversation. It attaches when something is asked of it,
  remembers how far its user has read, and attaches again from there after it was detached or the
  session went away. What the connection gives (the answer to an open, the next frame) are arguments;
  \<open>reader_step\<close> puts a handle, its connection and a growing log together.
\<close>

section \<open>The handle\<close>

type_synonym chat_state = snapshot

record chat_handle =
  hc_session_id :: string
  hc_providers :: "string list option"
  hc_cwd :: "string option"
  hc_pending :: "setting list"
  hc_attached :: "opened option"
  hc_state :: "chat_state option"
  hc_listeners :: nat
  hc_seen :: int
  hc_started :: bool
  hc_finished :: bool
  hc_handled :: "event list"

definition chat_handle_new :: "string option \<Rightarrow> string \<Rightarrow> string list option \<Rightarrow> chat_handle" where
  "chat_handle_new here sid ps = \<lparr>hc_session_id = sid, hc_providers = ps, hc_cwd = here, hc_pending = [], hc_attached = None, hc_state = None,
     hc_listeners = 0, hc_seen = -1, hc_started = False, hc_finished = False, hc_handled = []\<rparr>"

definition stopped_error :: "chat_handle \<Rightarrow> client_error" where
  "stopped_error h = Chat_Stopped (''session '' @ quoted (hc_session_id h) @ '' was stopped; load it again to continue'')"

definition start_options :: "int \<Rightarrow> chat_handle \<Rightarrow> open_options" where
  "start_options since h =
     (open_options_new None (hc_session_id h))\<lparr>oo_from := since, oo_providers := hc_providers h, oo_cwd := hc_cwd h, oo_settings := hc_pending h\<rparr>"

definition attached_at :: "int \<Rightarrow> opened \<Rightarrow> chat_handle \<Rightarrow> chat_handle" where
  "attached_at since o1 h =
     h\<lparr>hc_listeners := od_listeners o1, hc_state := Some (od_snapshot o1),
       hc_seen := (if since < 0 then max (hc_seen h) (sn_seq (od_snapshot o1)) else max (hc_seen h) (since - 1)),
       hc_pending := [], hc_started := True, hc_attached := Some o1\<rparr>"

definition start_since :: "(open_options \<Rightarrow> opened client_result) \<Rightarrow> int \<Rightarrow> chat_handle \<Rightarrow> chat_handle \<times> unit client_result" where
  "start_since opn since h =
     (if hc_finished h then (h, Inl (stopped_error h))
      else if hc_attached h \<noteq> None then (h, Inr ())
      else (case opn (start_options since h) of
              Inl e \<Rightarrow> (h, Inl e)
            | Inr o1 \<Rightarrow> (attached_at since o1 h, Inr ())))"

definition chat_start :: "(open_options \<Rightarrow> opened client_result) \<Rightarrow> chat_handle \<Rightarrow> chat_handle \<times> unit client_result" where
  "chat_start opn h = start_since opn 0 h"

text \<open>What every operation but \<open>change\<close> begins with.\<close>

definition ensure_attached :: "(open_options \<Rightarrow> opened client_result) \<Rightarrow> chat_handle \<Rightarrow> chat_handle \<times> unit client_result" where
  "ensure_attached opn h = (if hc_attached h = None then start_since opn (hc_seen h + 1) h else (h, Inr ()))"

definition chat_send :: "(open_options \<Rightarrow> opened client_result) \<Rightarrow> (string \<Rightarrow> string \<Rightarrow> bool client_result) \<Rightarrow> string \<Rightarrow> chat_handle
    \<Rightarrow> chat_handle \<times> unit client_result" where
  "chat_send opn snd_op t h =
     (if hc_finished h then (h, Inl (stopped_error h))
      else (case ensure_attached opn h of
              (h1, Inl e) \<Rightarrow> (h1, Inl e)
            | (h1, Inr _) \<Rightarrow>
                (h1, (case snd_op (od_session (the (hc_attached h1))) t of
                        Inl e \<Rightarrow> Inl e
                      | Inr ok \<Rightarrow> if ok then Inr ()
                                 else Inl (Daemon_Error (''session '' @ quoted (hc_session_id h1) @ '' did not accept the message''))))))"

text \<open>What a frame does to the handle; \<open>None\<close> when it carries no event.\<close>

definition take_state :: "frame \<Rightarrow> chat_handle \<Rightarrow> chat_handle" where
  "take_state f h = (case fr_snapshot f of Some sn \<Rightarrow> h\<lparr>hc_state := Some sn\<rparr> | None \<Rightarrow> h)"

definition went_away :: "chat_handle \<Rightarrow> chat_handle" where
  "went_away h =
     h\<lparr>hc_attached := None, hc_finished := (case hc_state h of Some st \<Rightarrow> sn_status st = ''stopped'' | None \<Rightarrow> False)\<rparr>"

definition handle_event :: "event \<Rightarrow> chat_handle \<Rightarrow> chat_handle" where
  "handle_event e h = h\<lparr>hc_seen := max (hc_seen h) (ev_seq e), hc_handled := hc_handled h @ [e]\<rparr>"

definition take_frame :: "frame \<Rightarrow> chat_handle \<Rightarrow> chat_handle \<times> event option" where
  "take_frame f h =
     (let h1 = take_state f h in
      case fr_event f of
        Some e \<Rightarrow> (handle_event e h1, Some e)
      | None \<Rightarrow> (if fr_stream f = ''gone'' then went_away h1 else h1, None))"

text \<open>
  \<open>next_event\<close>: frames are taken until one holds an event or says that the session is gone. A list
  of frames is what the connection holds; \<open>None\<close> when it runs out, where the caller waits for more.
\<close>

fun next_event :: "chat_handle \<Rightarrow> frame list \<Rightarrow> (chat_handle \<times> frame list \<times> event option) option" where
  "next_event h [] = None"
| "next_event h (f # fs) =
     (case take_frame f h of
        (h1, Some e) \<Rightarrow> Some (h1, fs, Some e)
      | (h1, None) \<Rightarrow> if fr_stream f = ''gone'' then Some (h1, fs, None) else next_event h1 fs)"

definition next_event_timeout :: "chat_handle \<Rightarrow> frame list \<Rightarrow> chat_handle \<times> frame list \<times> event option" where
  "next_event_timeout h fs = (case fs of [] \<Rightarrow> (h, [], None) | f # rest \<Rightarrow> (case take_frame f h of (h1, e) \<Rightarrow> (h1, rest, e)))"

definition history_since :: "transport \<Rightarrow> int \<Rightarrow> chat_handle \<Rightarrow> event list client_result" where
  "history_since call since h = client_events call (hc_session_id h) since"

definition chat_refresh :: "(open_options \<Rightarrow> opened client_result) \<Rightarrow> (string \<Rightarrow> (snapshot \<times> nat) client_result) \<Rightarrow> chat_handle
    \<Rightarrow> chat_handle \<times> chat_state client_result" where
  "chat_refresh opn status h =
     (case ensure_attached opn h of
        (h1, Inl e) \<Rightarrow> (h1, Inl e)
      | (h1, Inr _) \<Rightarrow>
          (case status (od_session (the (hc_attached h1))) of
             Inl e \<Rightarrow> (h1, Inl e)
           | Inr (sn, n) \<Rightarrow> (h1\<lparr>hc_listeners := n, hc_state := Some sn\<rparr>, Inr sn)))"

definition chat_status :: "chat_handle \<Rightarrow> string" where
  "chat_status h = (case hc_state h of Some st \<Rightarrow> sn_status st | None \<Rightarrow> ''idle'')"

definition chat_idle :: "chat_handle \<Rightarrow> bool" where
  "chat_idle h = (case hc_state h of Some st \<Rightarrow> idle st | None \<Rightarrow> False)"

definition chat_detach :: "(string \<Rightarrow> unit client_result) \<Rightarrow> chat_handle \<Rightarrow> chat_handle \<times> unit client_result" where
  "chat_detach det h =
     (case hc_attached h of
        None \<Rightarrow> (h, Inr ())
      | Some o1 \<Rightarrow> (h\<lparr>hc_attached := None\<rparr>, det (od_session o1)))"

definition chat_stop :: "(string \<Rightarrow> bool client_result) \<Rightarrow> chat_handle \<Rightarrow> chat_handle \<times> unit client_result" where
  "chat_stop stp h =
     (if hc_finished h then (h, Inr ())
      else if \<not> hc_started h then (h\<lparr>hc_finished := True\<rparr>, Inr ())
      else
        let sid = (case hc_attached h of Some o1 \<Rightarrow> od_session o1 | None \<Rightarrow> hc_session_id h); h1 = h\<lparr>hc_attached := None\<rparr>
        in case stp sid of
             Inl e \<Rightarrow> (h1, Inl e)
           | Inr _ \<Rightarrow> (h1\<lparr>hc_finished := True, hc_state := map_option (\<lambda>st. st\<lparr>sn_status := ''stopped''\<rparr>) (hc_state h1)\<rparr>, Inr ()))"

definition chat_change :: "(string \<Rightarrow> string \<Rightarrow> json \<Rightarrow> bool client_result) \<Rightarrow> string \<Rightarrow> json \<Rightarrow> chat_handle \<Rightarrow> chat_handle \<times> unit client_result" where
  "chat_change set_op what v h =
     (if hc_finished h then (h, Inl (stopped_error h))
      else (case hc_attached h of
              Some o1 \<Rightarrow>
                (h, (case set_op (od_session o1) what v of
                       Inl e \<Rightarrow> Inl e
                     | Inr ok \<Rightarrow> if ok then Inr ()
                                else Inl (Daemon_Error (''session '' @ quoted (hc_session_id h) @ '' did not accept setting '' @ quoted what))))
            | None \<Rightarrow> (h\<lparr>hc_pending := hc_pending h @ [\<lparr>se_what = what, se_value = v\<rparr>]\<rparr>, Inr ())))"

text \<open>The settings, each a change under its own name.\<close>

definition active_inference_providers :: "(string \<Rightarrow> string \<Rightarrow> json \<Rightarrow> bool client_result) \<Rightarrow> string list \<Rightarrow> chat_handle \<Rightarrow> chat_handle \<times> unit client_result" where
  "active_inference_providers set_op ps h = chat_change set_op ''providers'' (json_strings ps) (h\<lparr>hc_providers := Some ps\<rparr>)"

definition chat_cwd :: "(string \<Rightarrow> string \<Rightarrow> json \<Rightarrow> bool client_result) \<Rightarrow> string client_result \<Rightarrow> chat_handle \<Rightarrow> chat_handle \<times> unit client_result" where
  "chat_cwd set_op absolute h =
     (case absolute of
        Inl e \<Rightarrow> (h, Inl e)
      | Inr p \<Rightarrow> chat_change set_op ''cwd'' (JString p) (h\<lparr>hc_cwd := Some p\<rparr>))"

section \<open>Provider accounts\<close>

definition value_as :: "string \<Rightarrow> (json \<Rightarrow> 'a option) \<Rightarrow> json client_result \<Rightarrow> 'a client_result" where
  "value_as op rd a = decode op rd a"

definition handle_installed :: "transport \<Rightarrow> string \<Rightarrow> bool client_result" where
  "handle_installed call name = value_as ''installed'' as_bool (client_account call name ''installed'' None)"

definition handle_auth_status :: "transport \<Rightarrow> string \<Rightarrow> string client_result" where
  "handle_auth_status call name = value_as ''auth_status'' as_str (client_account call name ''auth_status'' None)"

definition handle_available :: "transport \<Rightarrow> string \<Rightarrow> bool client_result" where
  "handle_available call name =
     (case handle_installed call name of
        Inl e \<Rightarrow> Inl e
      | Inr False \<Rightarrow> Inr False
      | Inr True \<Rightarrow> (case handle_auth_status call name of Inl e \<Rightarrow> Inl e | Inr st \<Rightarrow> Inr (st = ''authenticated'')))"

section \<open>Reading a conversation\<close>

text \<open>
  A handle, the frames that wait for it, the log of the session and how far the daemon has got with
  it on this attachment. The daemon hands out the log in order from where the attachment begins
  (\<open>Live_Session\<close>) and the connection keeps that order (\<open>Client_Calls\<close>).
\<close>

record reader =
  rd_log :: "event list"
  rd_handle :: chat_handle
  rd_inbox :: "frame list"
  rd_next :: nat

definition on_attach :: "chat_handle \<Rightarrow> reader \<Rightarrow> reader" where
  "on_attach h1 r =
     (if hc_attached (rd_handle r) = None \<and> hc_attached h1 \<noteq> None
      then r\<lparr>rd_handle := h1, rd_inbox := [], rd_next := nat (hc_seen (rd_handle r) + 1)\<rparr> else r\<lparr>rd_handle := h1\<rparr>)"

inductive reader_step :: "reader \<Rightarrow> reader \<Rightarrow> bool" where
  recorded: "ev_seq e = int (length (rd_log r)) \<Longrightarrow> reader_step r (r\<lparr>rd_log := rd_log r @ [e]\<rparr>)"
| delivered: "rd_next r < length (rd_log r)
    \<Longrightarrow> reader_step r (r\<lparr>rd_inbox := rd_inbox r @ [frame_event sid (rd_log r ! rd_next r) sn], rd_next := Suc (rd_next r)\<rparr>)"
| noticed: "ev_seq e < 0 \<Longrightarrow> reader_step r (r\<lparr>rd_inbox := rd_inbox r @ [frame_event sid e sn]\<rparr>)"
| told_gone: "reader_step r (r\<lparr>rd_inbox := rd_inbox r @ [frame_gone sid sn]\<rparr>)"
| started: "hc_seen (rd_handle r) = -1 \<Longrightarrow> chat_start opn (rd_handle r) = (h1, x) \<Longrightarrow> reader_step r (on_attach h1 r)"
| sent: "chat_send opn snd_op t (rd_handle r) = (h1, x) \<Longrightarrow> reader_step r (on_attach h1 r)"
| refreshed: "chat_refresh opn status (rd_handle r) = (h1, y) \<Longrightarrow> reader_step r (on_attach h1 r)"
| ensured: "ensure_attached opn (rd_handle r) = (h1, x) \<Longrightarrow> reader_step r (on_attach h1 r)"
| read_next: "hc_attached (rd_handle r) \<noteq> None \<Longrightarrow> next_event (rd_handle r) (rd_inbox r) = Some (h1, fs, e)
    \<Longrightarrow> reader_step r (r\<lparr>rd_handle := h1, rd_inbox := fs\<rparr>)"
| read_timeout: "hc_attached (rd_handle r) \<noteq> None \<Longrightarrow> next_event_timeout (rd_handle r) (rd_inbox r) = (h1, fs, e)
    \<Longrightarrow> reader_step r (r\<lparr>rd_handle := h1, rd_inbox := fs\<rparr>)"
| detached: "chat_detach det (rd_handle r) = (h1, x) \<Longrightarrow> reader_step r (r\<lparr>rd_handle := h1\<rparr>)"
| stopped: "chat_stop stp (rd_handle r) = (h1, x) \<Longrightarrow> reader_step r (r\<lparr>rd_handle := h1\<rparr>)"
| changed: "chat_change set_op what v (rd_handle r) = (h1, x) \<Longrightarrow> reader_step r (r\<lparr>rd_handle := h1\<rparr>)"

definition reader_new :: "event list \<Rightarrow> chat_handle \<Rightarrow> reader" where
  "reader_new evs h = \<lparr>rd_log = evs, rd_handle = h, rd_inbox = [], rd_next = 0\<rparr>"

definition waiting :: "frame list \<Rightarrow> event list" where
  "waiting fs = placed_of (List.map_filter fr_event fs)"

definition has_read :: "event list \<Rightarrow> chat_handle \<Rightarrow> bool" where
  "has_read evs h \<longleftrightarrow> -1 \<le> hc_seen h \<and> hc_seen h < int (length evs) \<and> placed_of (hc_handled h) = take (nat (hc_seen h + 1)) evs"

definition reader_inv :: "event list \<Rightarrow> chat_handle \<Rightarrow> frame list \<Rightarrow> nat \<Rightarrow> bool" where
  "reader_inv evs h fs n \<longleftrightarrow> gapless evs \<and> has_read evs h
     \<and> (hc_attached h \<noteq> None \<longrightarrow> n \<le> length evs \<and> hc_seen h < int n \<and> waiting fs = drop (nat (hc_seen h + 1)) (take n evs))"

lemma frame_shapes [simp]: "fr_event (frame_event sid e sn) = Some e" "fr_event (frame_gone sid sn) = None"
  by (simp_all add: frame_event_def frame_gone_def)

lemma waiting_simps [simp]:
  "waiting [] = []" "waiting (fs @ gs) = waiting fs @ waiting gs"
  "waiting (f # fs) = (case fr_event f of Some e \<Rightarrow> if 0 \<le> ev_seq e then e # waiting fs else waiting fs | None \<Rightarrow> waiting fs)"
  by (simp_all add: waiting_def List.map_filter_def split: option.splits)

lemma has_read_same: "hc_seen h1 = hc_seen h \<Longrightarrow> hc_handled h1 = hc_handled h \<Longrightarrow> has_read evs h1 = has_read evs h"
  by (simp add: has_read_def)

lemma next_unread:
  assumes "reader_inv evs h (f # fs) n" and "hc_attached h \<noteq> None" and "fr_event f = Some e" and "0 \<le> ev_seq e"
  shows "e = evs ! nat (hc_seen h + 1)" "ev_seq e = hc_seen h + 1" "hc_seen h + 1 < int n" "waiting fs = drop (nat (hc_seen h + 2)) (take n evs)"
proof -
  let ?k = "nat (hc_seen h + 1)"
  have i: "gapless evs" "-1 \<le> hc_seen h" "n \<le> length evs" and w: "e # waiting fs = drop ?k (take n evs)"
    using assms by (auto simp: reader_inv_def has_read_def)
  then have lt: "?k < n" by (cases "?k < n") simp_all
  then show "hc_seen h + 1 < int n" using i by linarith
  have d: "drop ?k (take n evs) = take n evs ! ?k # drop (Suc ?k) (take n evs)"
    using lt i by (intro Cons_nth_drop_Suc[symmetric]) simp
  then show e: "e = evs ! ?k" using w lt by simp
  have "map ev_seq evs ! ?k = map int [0..<length evs] ! ?k" using i(1) by (simp add: gapless_def)
  then show "ev_seq e = hc_seen h + 1" using e lt i by simp
  have "Suc ?k = nat (hc_seen h + 2)" using i(2) by simp
  then show "waiting fs = drop (nat (hc_seen h + 2)) (take n evs)" using w d by simp
qed

lemma take_frame_inv:
  assumes inv: "reader_inv evs h (f # fs) n" and att: "hc_attached h \<noteq> None" and t: "take_frame f h = (h1, e)"
  shows "reader_inv evs h1 fs n"
proof (cases "fr_event f")
  case None
  then have h1: "hc_seen h1 = hc_seen h" "hc_handled h1 = hc_handled h" "hc_attached h1 = None \<or> hc_attached h1 = hc_attached h"
    using t by (auto simp: take_frame_def take_state_def went_away_def Let_def split: option.splits if_splits)
  then show ?thesis using inv None att by (auto simp: reader_inv_def has_read_same[OF h1(1,2)])
next
  case (Some x)
  then have h1: "hc_seen h1 = max (hc_seen h) (ev_seq x)" "hc_handled h1 = hc_handled h @ [x]" "hc_attached h1 = hc_attached h"
    using t by (auto simp: take_frame_def take_state_def handle_event_def Let_def split: option.splits)
  show ?thesis
  proof (cases "0 \<le> ev_seq x")
    case False
    then have "hc_seen h1 = hc_seen h" using h1(1) inv by (simp add: reader_inv_def has_read_def)
    then show ?thesis using inv Some False h1 by (simp add: reader_inv_def has_read_def)
  next
    case True
    note u = next_unread[OF inv att Some True]
    have i: "-1 \<le> hc_seen h" "n \<le> length evs" "placed_of (hc_handled h) = take (nat (hc_seen h + 1)) evs" "gapless evs"
      using inv att by (auto simp: reader_inv_def has_read_def)
    have seen: "hc_seen h1 = hc_seen h + 1" using h1(1) u(2) by simp
    then have k: "nat (hc_seen h1 + 1) = Suc (nat (hc_seen h + 1))" using i(1) by simp
    have lt: "nat (hc_seen h + 1) < length evs" using u(3) i by linarith
    have "placed_of (hc_handled h1) = take (nat (hc_seen h + 1)) evs @ [evs ! nat (hc_seen h + 1)]" using h1(2) i(3) True u(1) by simp
    then have "placed_of (hc_handled h1) = take (nat (hc_seen h1 + 1)) evs" unfolding k using lt by (simp add: take_Suc_conv_app_nth)
    moreover have "hc_seen h1 < int (length evs)" "-1 \<le> hc_seen h1" "hc_seen h1 < int n" using seen u(3) i(1,2) by linarith+
    moreover have "waiting fs = drop (nat (hc_seen h1 + 1)) (take n evs)" using u(4) seen by (simp add: add.assoc)
    ultimately show ?thesis using i by (simp add: reader_inv_def has_read_def)
  qed
qed

lemma next_event_inv:
  assumes "reader_inv evs h fs n" and "hc_attached h \<noteq> None" and "next_event h fs = Some (h1, gs, e)"
  shows "reader_inv evs h1 gs n"
  using assms
proof (induction h fs rule: next_event.induct)
  case (2 h f fs)
  obtain h2 x where t: "take_frame f h = (h2, x)" by fastforce
  have inv: "reader_inv evs h2 fs n" by (rule take_frame_inv[OF "2.prems"(1,2) t])
  show ?case
  proof (cases "x = None \<and> fr_stream f \<noteq> ''gone''")
    case True
    then have "hc_attached h2 \<noteq> None" using t "2.prems"(2)
      by (auto simp: take_frame_def take_state_def Let_def split: option.splits)
    then show ?thesis using "2.IH"[of h2 None] True inv "2.prems"(3) t by simp
  next
    case False
    then show ?thesis using inv "2.prems"(3) t by (auto split: option.splits)
  qed
qed simp

lemma reader_inv_reattach:
  assumes inv: "reader_inv evs h fs n" and "hc_seen h1 = hc_seen h" "hc_handled h1 = hc_handled h"
    and "hc_attached h = None \<or> hc_attached h1 = hc_attached h \<or> hc_attached h1 = None"
    and r: "r = \<lparr>rd_log = evs, rd_handle = h, rd_inbox = fs, rd_next = n\<rparr>"
  shows "reader_inv evs (rd_handle (on_attach h1 r)) (rd_inbox (on_attach h1 r)) (rd_next (on_attach h1 r))"
proof (cases "hc_attached h = None \<and> hc_attached h1 \<noteq> None")
  case True
  moreover have "int (nat (hc_seen h + 1)) = hc_seen h + 1" "nat (hc_seen h + 1) \<le> length evs" using inv by (auto simp: reader_inv_def has_read_def)
  ultimately show ?thesis using inv assms(2,3) by (simp add: on_attach_def r reader_inv_def has_read_def)
next
  case False
  then have "hc_attached h1 \<noteq> None \<Longrightarrow> hc_attached h \<noteq> None" using assms(4) by auto
  then show ?thesis using inv False assms(2,3) by (auto simp: on_attach_def r reader_inv_def has_read_def)
qed

text \<open>An attachment from the first unread event leaves what was read as it was.\<close>

lemma start_keeps:
  assumes "start_since opn (hc_seen h + 1) h = (h1, x)" and "-1 \<le> hc_seen h"
  shows "hc_seen h1 = hc_seen h \<and> hc_handled h1 = hc_handled h \<and> (hc_attached h = None \<or> hc_attached h1 = hc_attached h)"
  using assms by (auto simp: start_since_def attached_at_def split: if_splits sum.splits)

lemma ensure_keeps:
  assumes "ensure_attached opn h = (h1, x)" and "-1 \<le> hc_seen h"
  shows "hc_seen h1 = hc_seen h \<and> hc_handled h1 = hc_handled h \<and> (hc_attached h = None \<or> hc_attached h1 = hc_attached h)"
  using assms start_keeps[of opn h h1 x] by (auto simp: ensure_attached_def split: if_splits)

abbreviation reader_ok :: "reader \<Rightarrow> bool" where
  "reader_ok r \<equiv> reader_inv (rd_log r) (rd_handle r) (rd_inbox r) (rd_next r)"

lemma reader_ok_reattach:
  assumes "reader_ok r" and "hc_seen h1 = hc_seen (rd_handle r)" "hc_handled h1 = hc_handled (rd_handle r)"
    and "hc_attached (rd_handle r) = None \<or> hc_attached h1 = hc_attached (rd_handle r) \<or> hc_attached h1 = None"
  shows "reader_ok (on_attach h1 r)"
proof -
  have "rd_log (on_attach h1 r) = rd_log r" by (simp add: on_attach_def)
  moreover have "r = \<lparr>rd_log = rd_log r, rd_handle = rd_handle r, rd_inbox = rd_inbox r, rd_next = rd_next r\<rparr>" by simp
  ultimately show ?thesis using reader_inv_reattach[OF assms, of r] by simp
qed

lemma reader_step_inv:
  assumes "reader_step r r1" and inv: "reader_ok r"
  shows "reader_ok r1"
  using assms(1)
proof cases
  case (recorded e)
  have "take (nat (hc_seen (rd_handle r) + 1)) (rd_log r @ [e]) = take (nat (hc_seen (rd_handle r) + 1)) (rd_log r)"
    using inv by (auto simp: reader_inv_def has_read_def)
  then show ?thesis using inv recorded by (auto simp: reader_inv_def has_read_def gapless_snoc)
next
  case (delivered sid sn)
  have "map ev_seq (rd_log r) ! rd_next r = map int [0..<length (rd_log r)] ! rd_next r" using inv by (simp add: reader_inv_def gapless_def)
  then have "0 \<le> ev_seq (rd_log r ! rd_next r)" using delivered(2) by simp
  moreover have "take (Suc (rd_next r)) (rd_log r) = take (rd_next r) (rd_log r) @ [rd_log r ! rd_next r]"
    using delivered(2) by (rule take_Suc_conv_app_nth)
  ultimately show ?thesis using inv delivered by (auto simp: reader_inv_def)
next
  case (noticed e sid sn)
  then show ?thesis using inv by (simp add: reader_inv_def)
next
  case (told_gone sid sn)
  then show ?thesis using inv by (simp add: reader_inv_def)
next
  case (started opn h1 x)
  have "start_since opn (hc_seen (rd_handle r) + 1) (rd_handle r) = (h1, x)" using started by (simp add: chat_start_def)
  from start_keeps[OF this] show ?thesis using started(2) reader_ok_reattach[OF inv, of h1] by (simp add: started(1)) blast
next
  case (sent opn snd_op t h1 x)
  have "h1 = rd_handle r \<or> (\<exists>y. ensure_attached opn (rd_handle r) = (h1, y))"
    using sent(2) by (auto simp: chat_send_def split: if_splits prod.splits sum.splits)
  then show ?thesis using ensure_keeps reader_ok_reattach[OF inv, of h1] inv by (auto simp: sent(1) reader_inv_def has_read_def)
next
  case (refreshed opn status h1 y)
  obtain h2 z where e: "ensure_attached opn (rd_handle r) = (h2, z)" by fastforce
  then have "hc_seen h1 = hc_seen h2 \<and> hc_handled h1 = hc_handled h2 \<and> hc_attached h1 = hc_attached h2"
    using refreshed(2) by (auto simp: chat_refresh_def split: sum.splits prod.splits)
  then show ?thesis using ensure_keeps[OF e] reader_ok_reattach[OF inv, of h1] inv by (auto simp: refreshed(1) reader_inv_def has_read_def)
next
  case (ensured opn h1 x)
  then show ?thesis using ensure_keeps reader_ok_reattach[OF inv, of h1] inv by (auto simp: reader_inv_def has_read_def)
next
  case (read_next h1 fs e)
  then show ?thesis using next_event_inv[OF inv] by simp
next
  case (read_timeout h1 fs e)
  then show ?thesis using inv take_frame_inv by (auto simp: next_event_timeout_def split: list.splits prod.splits)
next
  case (detached det h1 x)
  then show ?thesis using inv by (auto simp: chat_detach_def reader_inv_def has_read_def split: option.splits)
next
  case (stopped stp h1 x)
  then show ?thesis using inv by (auto simp: chat_stop_def reader_inv_def has_read_def Let_def split: option.splits if_splits sum.splits)
next
  case (changed set_op what v h1 x)
  then show ?thesis using inv by (auto simp: chat_change_def reader_inv_def has_read_def split: option.splits if_splits sum.splits)
qed

lemma reader_runs_inv:
  assumes "reader_step\<^sup>*\<^sup>* (reader_new evs (chat_handle_new here sid ps)) r" and "gapless evs"
  shows "reader_ok r"
  using assms(1)
proof induction
  case base
  show ?case using assms(2) by (simp add: reader_new_def reader_inv_def has_read_def chat_handle_new_def)
next
  case (step y z)
  then show ?case using reader_step_inv by blast
qed


text \<open>A user reads one event, detaches, and reads the next after the handle attached again.\<close>

definition demo_log :: "event list" where
  "demo_log = [(event_new ''now'' TEXT)\<lparr>ev_seq := 0\<rparr>, (event_new ''now'' END)\<lparr>ev_seq := 1\<rparr>]"

definition demo_open :: "open_options \<Rightarrow> opened client_result" where
  "demo_open o1 = Inr \<lparr>od_session = ''demo'', od_replayed = 0, od_listeners = 1, od_snapshot = some_snapshot\<rparr>"

definition demo_deliver :: "reader \<Rightarrow> reader" where
  "demo_deliver r = r\<lparr>rd_inbox := rd_inbox r @ [frame_event ''demo'' (rd_log r ! rd_next r) some_snapshot], rd_next := Suc (rd_next r)\<rparr>"

definition demo_read :: "reader \<Rightarrow> reader" where
  "demo_read r = (case next_event (rd_handle r) (rd_inbox r) of Some (h1, fs, _) \<Rightarrow> r\<lparr>rd_handle := h1, rd_inbox := fs\<rparr> | None \<Rightarrow> r)"

definition demo_ensure :: "reader \<Rightarrow> reader" where
  "demo_ensure r = on_attach (fst (ensure_attached demo_open (rd_handle r))) r"

definition demo_detach :: "reader \<Rightarrow> reader" where
  "demo_detach r = r\<lparr>rd_handle := fst (chat_detach (\<lambda>_. Inr ()) (rd_handle r))\<rparr>"

lemma demo_reads_on: "hc_attached (rd_handle r) \<noteq> None \<Longrightarrow> next_event (rd_handle r) (rd_inbox r) \<noteq> None \<Longrightarrow> reader_step r (demo_read r)"
  using read_next[of r] by (cases "next_event (rd_handle r) (rd_inbox r)") (simp_all add: demo_read_def split: prod.splits)

lemma demo_steps:
  "rd_next r < length (rd_log r) \<Longrightarrow> reader_step r (demo_deliver r)" "reader_step r (demo_ensure r)" "reader_step r (demo_detach r)"
  by (auto simp: demo_deliver_def demo_ensure_def demo_detach_def intro: delivered
      intro!: ensured[OF prod.collapse[symmetric]] detached[OF prod.collapse[symmetric]])

definition demo_reader :: reader where
  "demo_reader = reader_new demo_log (chat_handle_new None ''demo'' None)"

definition demo_done :: reader where
  "demo_done = demo_read (demo_deliver (demo_ensure (demo_detach (demo_read (demo_deliver (demo_deliver (demo_ensure demo_reader)))))))"


end
