(* ===== verification/Facade.thy ===== *)
theory Facade
  imports Client_Chat
begin

text \<open>
  The rest of \<open>omni-client/src/facade.rs\<close>: the entry point, the handles of the three providers, and the
  methods that ask a conversation for a setting. Each names the setting and writes its value as JSON; what
  becomes of it is up to the daemon, whose reading of it (\<open>change_from\<close> of \<open>serve.rs\<close>) is put next to it here.
\<close>

section \<open>Providers and sessions\<close>

text \<open>The names of \<open>claude_code_cli\<close>, \<open>codex_app_server\<close> and \<open>antigravity_cli\<close>.\<close>

record inference =
  if_call :: transport
  if_claude :: string
  if_codex :: string
  if_antigravity :: string

definition from_client :: "transport \<Rightarrow> inference" where
  "from_client call =
     \<lparr>if_call = call, if_claude = ''claude-code-cli'', if_codex = ''codex-app-server'', if_antigravity = ''antigravity-cli''\<rparr>"

definition get_available_providers :: "inference \<Rightarrow> string list option \<Rightarrow> string list client_result" where
  "get_available_providers i only = client_providers (if_call i) only"

definition inference_dial :: "inference \<Rightarrow> string list option \<Rightarrow> (int \<times> pick) list client_result" where
  "inference_dial i ps = client_dial (if_call i) ps"

definition load_or_create_session :: "string option \<Rightarrow> string \<Rightarrow> string list option \<Rightarrow> chat_handle" where
  "load_or_create_session here sid ps = chat_handle_new here sid ps"

definition inference_sessions :: "inference \<Rightarrow> (chat_state \<times> nat) list client_result" where
  "inference_sessions i = client_sessions (if_call i)"

definition inference_daemon :: "inference \<Rightarrow> daemon_info client_result" where
  "inference_daemon i = client_ping (if_call i)"

definition handle_limits :: "transport \<Rightarrow> string \<Rightarrow> json client_result" where
  "handle_limits call name = client_account call name ''limits'' None"

definition handle_start_auth :: "transport \<Rightarrow> string \<Rightarrow> string client_result" where
  "handle_start_auth call name = value_as ''start_auth'' as_str (client_account call name ''start_auth'' None)"

definition handle_finish_auth :: "transport \<Rightarrow> string \<Rightarrow> string \<Rightarrow> string client_result" where
  "handle_finish_auth call name code = value_as ''finish_auth'' as_str (client_account call name ''finish_auth'' (Some code))"

definition handle_forget :: "transport \<Rightarrow> string \<Rightarrow> unit client_result" where
  "handle_forget call name = (case client_account call name ''forget'' None of Inl e \<Rightarrow> Inl e | Inr _ \<Rightarrow> Inr ())"

section \<open>Settings\<close>

type_synonym set_op = "string \<Rightarrow> string \<Rightarrow> json \<Rightarrow> bool client_result"

text \<open>\<open>read_text\<close> on what the file system says of a path.\<close>

definition read_text :: "string \<Rightarrow> string res \<Rightarrow> string client_result" where
  "read_text p r = (case r of Inl e \<Rightarrow> Inl (Io_Error (''cannot read '' @ p @ '': '' @ e)) | Inr t \<Rightarrow> Inr t)"

definition absolute :: "string res \<Rightarrow> string \<Rightarrow> string client_result" where
  "absolute here p =
     (if p \<noteq> [] \<and> hd p = CHR ''/'' then Inr p
      else (case here of
              Inl e \<Rightarrow> Inl (Io_Error (''cannot resolve '' @ p @ '': '' @ e))
            | Inr d \<Rightarrow> Inr (dir_join d p)))"

definition chat_model :: "set_op \<Rightarrow> ask \<Rightarrow> chat_handle \<Rightarrow> chat_handle \<times> unit client_result" where
  "chat_model st a = chat_change st ''model'' (ask_value a)"

definition system_prompt :: "set_op \<Rightarrow> string \<Rightarrow> chat_handle \<Rightarrow> chat_handle \<times> unit client_result" where
  "system_prompt st t = chat_change st ''system_prompt'' (JString t)"

definition system_prompt_file :: "set_op \<Rightarrow> string \<Rightarrow> string res \<Rightarrow> chat_handle \<Rightarrow> chat_handle \<times> unit client_result" where
  "system_prompt_file st p r h = (case read_text p r of Inl e \<Rightarrow> (h, Inl e) | Inr t \<Rightarrow> system_prompt st t h)"

definition append_system_prompt :: "set_op \<Rightarrow> string \<Rightarrow> chat_handle \<Rightarrow> chat_handle \<times> unit client_result" where
  "append_system_prompt st t = chat_change st ''append_system_prompt'' (JString t)"

definition append_system_prompt_file :: "set_op \<Rightarrow> string \<Rightarrow> string res \<Rightarrow> chat_handle \<Rightarrow> chat_handle \<times> unit client_result" where
  "append_system_prompt_file st p r h = (case read_text p r of Inl e \<Rightarrow> (h, Inl e) | Inr t \<Rightarrow> append_system_prompt st t h)"

definition set_context_recovery :: "set_op \<Rightarrow> context_recovery \<Rightarrow> chat_handle \<Rightarrow> chat_handle \<times> unit client_result" where
  "set_context_recovery st c = chat_change st ''context_recovery'' (JObject (context_recovery_map c))"

definition enable_subagents :: "set_op \<Rightarrow> chat_handle \<Rightarrow> chat_handle \<times> unit client_result" where
  "enable_subagents st = chat_change st ''subagents'' (JBool True)"

definition disable_subagents :: "set_op \<Rightarrow> chat_handle \<Rightarrow> chat_handle \<times> unit client_result" where
  "disable_subagents st = chat_change st ''subagents'' (JBool False)"

definition enable_mcp :: "set_op \<Rightarrow> chat_handle \<Rightarrow> chat_handle \<times> unit client_result" where
  "enable_mcp st = chat_change st ''mcp'' (JBool True)"

definition disable_mcp :: "set_op \<Rightarrow> chat_handle \<Rightarrow> chat_handle \<times> unit client_result" where
  "disable_mcp st = chat_change st ''mcp'' (JBool False)"

definition enable_autoremoving_unauthenticated_providers :: "set_op \<Rightarrow> chat_handle \<Rightarrow> chat_handle \<times> unit client_result" where
  "enable_autoremoving_unauthenticated_providers st = chat_change st ''autoremove'' (JBool True)"

definition disable_autoremoving_unauthenticated_providers :: "set_op \<Rightarrow> chat_handle \<Rightarrow> chat_handle \<times> unit client_result" where
  "disable_autoremoving_unauthenticated_providers st = chat_change st ''autoremove'' (JBool False)"

section \<open>What a handle knows\<close>

definition chat_history :: "transport \<Rightarrow> chat_handle \<Rightarrow> event list client_result" where
  "chat_history call h = history_since call 0 h"

definition chat_provider :: "chat_handle \<Rightarrow> string" where
  "chat_provider h = (case hc_state h of Some st \<Rightarrow> sn_provider st | None \<Rightarrow> [])"

definition running_model :: "chat_handle \<Rightarrow> string" where
  "running_model h = (case hc_state h of Some st \<Rightarrow> sn_model st | None \<Rightarrow> [])"

definition chat_effort :: "chat_handle \<Rightarrow> string" where
  "chat_effort h = (case hc_state h of Some st \<Rightarrow> sn_effort st | None \<Rightarrow> [])"

definition current_ask :: "chat_handle \<Rightarrow> ask option" where
  "current_ask h = map_option sn_ask (hc_state h)"

section \<open>What is asked for is what the daemon reads\<close>

text \<open>The method of a handle that asks for a change; \<open>here\<close> is the directory of the process.\<close>

fun ask_for :: "set_op \<Rightarrow> string \<Rightarrow> change \<Rightarrow> chat_handle \<Rightarrow> chat_handle \<times> unit client_result" where
  "ask_for st here (Ch_Providers ps) = active_inference_providers st ps"
| "ask_for st here (Ch_Model a) = chat_model st a"
| "ask_for st here (Ch_SystemPrompt t) = system_prompt st t"
| "ask_for st here (Ch_AppendSystemPrompt t) = append_system_prompt st t"
| "ask_for st here (Ch_Subagents b) = (if b then enable_subagents st else disable_subagents st)"
| "ask_for st here (Ch_Mcp b) = (if b then enable_mcp st else disable_mcp st)"
| "ask_for st here (Ch_Autoremove b) =
     (if b then enable_autoremoving_unauthenticated_providers st else disable_autoremoving_unauthenticated_providers st)"
| "ask_for st here (Ch_Cwd p) = chat_cwd st (absolute (Inr here) p)"
| "ask_for st here (Ch_ContextRecovery c) = set_context_recovery st c"

fun ask_for_all :: "set_op \<Rightarrow> string \<Rightarrow> change list \<Rightarrow> chat_handle \<Rightarrow> chat_handle \<times> unit client_result" where
  "ask_for_all st here [] h = (h, Inr ())"
| "ask_for_all st here (c # cs) h =
     (case ask_for st here c h of (h1, Inl e) \<Rightarrow> (h1, Inl e) | (h1, Inr _) \<Rightarrow> ask_for_all st here cs h1)"

text \<open>The same change with a directory that means the same to another process.\<close>

fun resolved :: "string \<Rightarrow> change \<Rightarrow> change" where
  "resolved here (Ch_Cwd p) = Ch_Cwd (if p \<noteq> [] \<and> hd p = CHR ''/'' then p else dir_join here p)"
| "resolved here c = c"

definition sendable_change :: "change \<Rightarrow> bool" where
  "sendable_change c = (case c of Ch_Model a \<Rightarrow> sendable_ask a | _ \<Rightarrow> True)"

definition asks_like :: "string \<Rightarrow> json \<Rightarrow> (set_op \<Rightarrow> chat_handle \<Rightarrow> chat_handle \<times> unit client_result) \<Rightarrow> bool" where
  "asks_like what v f \<longleftrightarrow> (\<forall>st h. \<exists>h0. f st h = chat_change st what v h0
     \<and> hc_attached h0 = hc_attached h \<and> hc_finished h0 = hc_finished h \<and> hc_pending h0 = hc_pending h \<and> hc_session_id h0 = hc_session_id h)"

lemma asks_like_change: "asks_like what v (\<lambda>st. chat_change st what v)"
  by (auto simp: asks_like_def)

lemma recovery_texts_read: "context_recovery_of (JObject (context_recovery_map c)) = Some c"
  by (simp add: context_recovery_of_def context_recovery_map_def struct_fields_def field_def bt_get_def)

lemma strings_read: "read_strings (json_strings ps) = Some ps"
  by (induction ps) (simp_all add: read_strings_def json_strings_def)

lemma model_read: "sendable_ask a \<Longrightarrow> model_arg (ask_value a) = Inr a"
  using ask_reads_back[of a] by (cases a) (simp_all add: model_arg_def)

lemma plain_setting:
  "change_from J what v = Inr d \<Longrightarrow> f = (\<lambda>st. chat_change st what v) \<Longrightarrow> \<exists>what v. change_from J what v = Inr d \<and> asks_like what v f"
  using asks_like_change by blast

lemmas setting_defs = change_from_def and_then_def strings_arg_def text_arg_def flag_arg_def recovery_arg_def

lemma ask_for_reads:
  assumes "sendable_change c"
  shows "\<exists>what v. change_from J what v = Inr (resolved here c) \<and> asks_like what v (\<lambda>st. ask_for st here c)"
proof (cases c)
  case (Ch_Providers ps)
  have "asks_like ''providers'' (json_strings ps) (\<lambda>st. active_inference_providers st ps)"
    by (auto simp: asks_like_def active_inference_providers_def intro!: exI[of _ "h\<lparr>hc_providers := Some ps\<rparr>" for h])
  then show ?thesis by (intro exI[of _ "''providers''"] exI[of _ "json_strings ps"]) (simp add: Ch_Providers setting_defs strings_read)
next
  case (Ch_Cwd p)
  let ?q = "if p \<noteq> [] \<and> hd p = CHR ''/'' then p else dir_join here p"
  have "absolute (Inr here) p = Inr ?q" by (simp add: absolute_def)
  then have "asks_like ''cwd'' (JString ?q) (\<lambda>st. chat_cwd st (absolute (Inr here) p))"
    by (auto simp: asks_like_def chat_cwd_def intro!: exI[of _ "h\<lparr>hc_cwd := Some ?q\<rparr>" for h])
  then show ?thesis by (intro exI[of _ "''cwd''"] exI[of _ "JString ?q"]) (simp add: Ch_Cwd setting_defs)
next
  case (Ch_Model a)
  then show ?thesis using assms
    by (intro plain_setting[of _ "''model''" "ask_value a"]) (simp_all add: setting_defs model_read sendable_change_def chat_model_def fun_eq_iff)
next
  case (Ch_ContextRecovery r)
  then show ?thesis by (intro plain_setting[of _ "''context_recovery''" "JObject (context_recovery_map r)"]) (simp_all add: setting_defs recovery_texts_read set_context_recovery_def fun_eq_iff)
next
  case (Ch_SystemPrompt t)
  then show ?thesis by (intro plain_setting[of _ "''system_prompt''" "JString t"]) (simp_all add: setting_defs system_prompt_def fun_eq_iff)
next
  case (Ch_AppendSystemPrompt t)
  then show ?thesis by (intro plain_setting[of _ "''append_system_prompt''" "JString t"]) (simp_all add: setting_defs append_system_prompt_def fun_eq_iff)
next
  case (Ch_Subagents b)
  then show ?thesis by (intro plain_setting[of _ "''subagents''" "JBool b"]) (simp_all add: setting_defs enable_subagents_def disable_subagents_def fun_eq_iff)
next
  case (Ch_Mcp b)
  then show ?thesis by (intro plain_setting[of _ "''mcp''" "JBool b"]) (simp_all add: setting_defs enable_mcp_def disable_mcp_def fun_eq_iff)
next
  case (Ch_Autoremove b)
  then show ?thesis by (intro plain_setting[of _ "''autoremove''" "JBool b"]) (simp_all add: setting_defs enable_autoremoving_unauthenticated_providers_def disable_autoremoving_unauthenticated_providers_def fun_eq_iff)
qed

lemma settings_append:
  "settings_of J (xs @ ys) = and_then (settings_of J xs) (\<lambda>as. and_then (settings_of J ys) (\<lambda>bs. Inr (as @ bs)))"
  by (induction xs) (auto simp: and_then_def split: sum.splits)

lemma pending_reads:
  assumes "sendable_change c" and "\<not> hc_finished h" and "hc_attached h = None"
    and "settings_of J (map setting_value (hc_pending h)) = Inr old"
  shows "\<exists>h1. ask_for st here c h = (h1, Inr ()) \<and> \<not> hc_finished h1 \<and> hc_attached h1 = None
    \<and> settings_of J (map setting_value (hc_pending h1)) = Inr (old @ [resolved here c])"
proof -
  obtain what v h0 where c: "change_from J what v = Inr (resolved here c)" and h0: "ask_for st here c h = chat_change st what v h0"
      "hc_attached h0 = None" "\<not> hc_finished h0" "hc_pending h0 = hc_pending h"
    using ask_for_reads[OF assms(1), of J here] assms(2,3) unfolding asks_like_def by metis
  have "setting_of J (setting_value \<lparr>se_what = what, se_value = v\<rparr>) = Inr (resolved here c)"
    using c by (simp add: setting_of_def setting_value_def jget_def jindex_def bt_get_def)
  then show ?thesis using h0 assms(4) by (simp add: chat_change_def settings_append and_then_def)
qed

text \<open>
  C40: a setting asked for through a handle is the change the daemon reads. On a handle that is not attached the
  settings wait, and the open that starts the conversation carries them all, in the order in which they were asked
  for; on one that is attached each is sent at once to its session, and the method succeeds exactly when the daemon
  has accepted it. A directory is made absolute where it is asked for.
\<close>

theorem settings_arrive:
  assumes "list_all sendable_change cs" and "\<not> hc_finished h"
    and "hc_attached h = None \<Longrightarrow> settings J (JArray (map setting_value (hc_pending h))) = Inr old"
  shows "(hc_attached h = None \<longrightarrow> (\<exists>h1. ask_for_all st here cs h = (h1, Inr ())
           \<and> settings J (rq_value (open_request (start_options since h1))) = Inr (old @ map (resolved here) cs)))
    \<and> (\<forall>o1. hc_attached h = Some o1 \<longrightarrow> (\<forall>c \<in> set cs. \<exists>what v. change_from J what v = Inr (resolved here c)
           \<and> (\<forall>st. snd (ask_for st here c h) = Inr () \<longleftrightarrow> st (od_session o1) what v = Inr True)))"
proof (intro conjI impI allI ballI)
  assume none: "hc_attached h = None"
  have "\<exists>h1. ask_for_all st here cs h = (h1, Inr ()) \<and> settings_of J (map setting_value (hc_pending h1)) = Inr (old @ map (resolved here) cs)"
    if "list_all sendable_change cs" "\<not> hc_finished h" "hc_attached h = None" "settings_of J (map setting_value (hc_pending h)) = Inr old" for cs h old
    using that
  proof (induction cs arbitrary: h old)
    case (Cons c cs)
    then obtain h1 where "ask_for st here c h = (h1, Inr ())" "\<not> hc_finished h1" "hc_attached h1 = None"
        "settings_of J (map setting_value (hc_pending h1)) = Inr (old @ [resolved here c])"
      using pending_reads[of c h J old st here] by auto
    then show ?case using Cons.IH[of h1 "old @ [resolved here c]"] Cons.prems(1) by simp
  qed simp
  from this[OF assms(1,2) none] show "\<exists>h1. ask_for_all st here cs h = (h1, Inr ())
      \<and> settings J (rq_value (open_request (start_options since h1))) = Inr (old @ map (resolved here) cs)"
    using assms(3)[OF none] by (simp add: settings_def open_request_def start_options_def)
next
  fix o1 c
  assume "hc_attached h = Some o1" "c \<in> set cs"
  then have "sendable_change c" using assms(1) by (simp add: list_all_iff)
  then obtain what v where c: "change_from J what v = Inr (resolved here c)" and like: "asks_like what v (\<lambda>st. ask_for st here c)"
    using ask_for_reads by blast
  have "snd (ask_for st here c h) = Inr () \<longleftrightarrow> st (od_session o1) what v = Inr True" for st
  proof -
    obtain h0 where "ask_for st here c h = chat_change st what v h0" "hc_attached h0 = Some o1" "\<not> hc_finished h0"
      using like \<open>hc_attached h = Some o1\<close> assms(2) unfolding asks_like_def by metis
    then show ?thesis by (auto simp: chat_change_def split: sum.splits)
  qed
  then show "\<exists>what v. change_from J what v = Inr (resolved here c)
      \<and> (\<forall>st. snd (ask_for st here c h) = Inr () \<longleftrightarrow> st (od_session o1) what v = Inr True)" using c by blast
qed

definition demo_wishes :: "change list" where
  "demo_wishes = [Ch_Providers [''codex-app-server''], Ch_Model (Ask_Intelligence 7 None), Ch_Mcp True, Ch_Cwd ''work'']"

theorem settings_arrive_witness:
  "\<exists>h1. ask_for_all (\<lambda>_ _ _. Inr True) ''/home'' demo_wishes (load_or_create_session None ''s'' None) = (h1, Inr ())
     \<and> settings toy_codec (rq_value (open_request (start_options 0 h1)))
       = Inr [Ch_Providers [''codex-app-server''], Ch_Model (Ask_Intelligence 7 None), Ch_Mcp True, Ch_Cwd ''/home/work'']"
proof -
  let ?h = "load_or_create_session None ''s'' None"
  have "list_all sendable_change demo_wishes" by (simp add: demo_wishes_def sendable_change_def sendable_ask_def fits_i64_def i64_min_def i64_max_def)
  moreover have "\<not> hc_finished ?h" "hc_attached ?h = None" "settings toy_codec (JArray (map setting_value (hc_pending ?h))) = Inr []"
    by (simp_all add: load_or_create_session_def chat_handle_new_def settings_def)
  ultimately show ?thesis
    using settings_arrive[of demo_wishes ?h toy_codec "[]" "\<lambda>_ _ _. Inr True" "''/home''" 0]
    by (simp add: demo_wishes_def dir_join_def path_join_def)
qed

end
