(* ===== verification/Client_Start.thy ===== *)
theory Client_Start
  imports Client_Requests
begin

text \<open>
  \<open>ensure_daemon\<close>, \<open>connect\<close> and \<open>wait_until_stopped\<close> of \<open>omni-client/src/lib.rs\<close>: a client finds the daemon at
  its socket, or starts one and waits for it. Whether a connection is taken, whether a program can be started and
  how long everything takes is up to the system; sleeping takes at least as long as was asked for, so that the waits
  end. Instants are milliseconds.
\<close>

record boot =
  la_fs :: world
  la_clock :: int
  la_tries :: nat
  la_listens :: "nat \<Rightarrow> bool"
  la_late :: "nat \<Rightarrow> nat"
  la_spawn :: "string option"
  la_started :: "(string \<times> (string \<times> string) list) list"

text \<open>\<open>paths::home\<close>: the pinned one, else what \<open>OMNI_HOME\<close> says, else below the user's.\<close>

definition omni_home :: "string option \<Rightarrow> world \<Rightarrow> string" where
  "omni_home pinned w =
     (case pinned of
        Some p \<Rightarrow> p
      | None \<Rightarrow>
          (case env_var w ''OMNI_HOME'' of
             Some p \<Rightarrow> if p \<noteq> [] then p else path_join (case env_var w ''HOME'' of Some d \<Rightarrow> d | None \<Rightarrow> []) ''.omni''
           | None \<Rightarrow> path_join (case env_var w ''HOME'' of Some d \<Rightarrow> d | None \<Rightarrow> []) ''.omni''))"

definition socket_path :: "string \<Rightarrow> string" where
  "socket_path home = path_join home ''omnid.sock''"

definition client_log :: "string \<Rightarrow> string" where
  "client_log home = path_join home ''omnid.log''"

text \<open>\<open>UnixStream::connect\<close>, and with it \<open>daemon_is_listening\<close>.\<close>

definition daemon_is_listening :: "boot \<Rightarrow> boot \<times> bool" where
  "daemon_is_listening w =
     (w\<lparr>la_tries := Suc (la_tries w), la_clock := la_clock w + int (la_late w (la_tries w))\<rparr>, la_listens w (la_tries w))"

definition sleep_for :: "nat \<Rightarrow> boot \<Rightarrow> boot" where
  "sleep_for ms w = w\<lparr>la_clock := la_clock w + int ms + int (la_late w (la_tries w))\<rparr>"

text \<open>The loop of \<open>ensure_daemon\<close>: somebody listens before the deadline.\<close>

function await_socket :: "int \<Rightarrow> boot \<Rightarrow> boot \<times> bool" where
  "await_socket deadline w =
     (if la_clock w < deadline
      then (case daemon_is_listening w of (w1, ok) \<Rightarrow> if ok then (w1, True) else await_socket deadline (sleep_for 20 w1))
      else (w, False))"
  by pat_completeness auto
termination
  by (relation "measure (\<lambda>(deadline, w). nat (deadline - la_clock w))") (auto simp: daemon_is_listening_def sleep_for_def)

text \<open>The loop of \<open>wait_until_stopped\<close>, with its last look.\<close>

function await_silence :: "int \<Rightarrow> boot \<Rightarrow> boot \<times> bool" where
  "await_silence deadline w =
     (if la_clock w < deadline
      then (case daemon_is_listening w of (w1, ok) \<Rightarrow> if \<not> ok then (w1, True) else await_silence deadline (sleep_for 25 w1))
      else (case daemon_is_listening w of (w1, ok) \<Rightarrow> (w1, \<not> ok)))"
  by pat_completeness auto
termination
  by (relation "measure (\<lambda>(deadline, w). nat (deadline - la_clock w))") (auto simp: daemon_is_listening_def sleep_for_def)

declare await_socket.simps [simp del] await_silence.simps [simp del]

definition wait_until_stopped :: "nat \<Rightarrow> boot \<Rightarrow> boot \<times> bool" where
  "wait_until_stopped timeout w = await_silence (la_clock w + int timeout) w"

section \<open>Starting the daemon\<close>

definition on_fs :: "'a io \<Rightarrow> (string \<Rightarrow> client_error) \<Rightarrow> boot \<Rightarrow> boot \<times> 'a client_result" where
  "on_fs m err w =
     (case m (la_fs w) of (f, Inl e) \<Rightarrow> (w\<lparr>la_fs := f\<rparr>, Inl (err e)) | (f, Inr x) \<Rightarrow> (w\<lparr>la_fs := f\<rparr>, Inr x))"

definition launch_bind :: "(boot \<Rightarrow> boot \<times> 'a client_result) \<Rightarrow> ('a \<Rightarrow> boot \<Rightarrow> boot \<times> 'b client_result) \<Rightarrow> boot \<Rightarrow> boot \<times> 'b client_result" where
  "launch_bind m f w = (case m w of (w1, Inl e) \<Rightarrow> (w1, Inl e) | (w1, Inr x) \<Rightarrow> f x w1)"

definition open_log :: "string \<Rightarrow> boot \<Rightarrow> boot \<times> unit client_result" where
  "open_log p =
     launch_bind (on_fs (fs_open_append p) (\<lambda>e. Io_Error (''cannot open '' @ p @ '': '' @ e))) (\<lambda>_.
       on_fs (fs_set_private p) (\<lambda>e. Io_Error (''cannot secure '' @ p @ '': '' @ e)))"

definition start_daemon :: "string \<Rightarrow> string \<Rightarrow> boot \<Rightarrow> boot \<times> unit client_result" where
  "start_daemon home binary w =
     (case la_spawn w of
        Some e \<Rightarrow> (w, Inl (Io_Error (''cannot start '' @ binary @ '': '' @ e)))
      | None \<Rightarrow> (w\<lparr>la_started := la_started w @ [(binary, [(''OMNI_HOME'', home), (''OMNI_STDIO_LOGGED'', ''1'')])]\<rparr>, Inr ()))"

definition NOT_INSTALLED :: string where
  "NOT_INSTALLED = ''omnid is not installed; install omni-daemon, build `cargo build -p omni-daemon`, or set OMNI_DAEMON''"

text \<open>What is waited for once it was started.\<close>

definition await_daemon :: "(nat \<Rightarrow> string) \<Rightarrow> string \<Rightarrow> string \<Rightarrow> nat \<Rightarrow> boot \<Rightarrow> boot \<times> string client_result" where
  "await_daemon show_secs home b timeout w =
     (case await_socket (la_clock w + int timeout) w of
        (w1, ok) \<Rightarrow>
          (w1, if ok then Inr (socket_path home)
               else Inl (Unavailable (''started '' @ b @ '' but nothing listened on '' @ socket_path home @ '' after ''
                  @ show_secs timeout @ ''s; see '' @ client_log home))))"

definition ensure_daemon :: "(nat \<Rightarrow> string) \<Rightarrow> string \<Rightarrow> string option \<Rightarrow> nat \<Rightarrow> boot \<Rightarrow> boot \<times> string client_result" where
  "ensure_daemon show_secs home binary timeout w =
     (case daemon_is_listening w of
        (w1, ok) \<Rightarrow>
          if ok then (w1, Inr (socket_path home))
          else (case binary of
                  None \<Rightarrow> (w1, Inl (Unavailable NOT_INSTALLED))
                | Some b \<Rightarrow>
                    launch_bind (on_fs paths_ensure (\<lambda>e. Io_Error (''cannot create omni home '' @ home @ '': '' @ e))) (\<lambda>_.
                    launch_bind (open_log (client_log home)) (\<lambda>_.
                    launch_bind (on_fs fs_touch (\<lambda>e. Io_Error (''cannot clone '' @ client_log home @ '': '' @ e))) (\<lambda>_.
                    launch_bind (start_daemon home b) (\<lambda>_. await_daemon show_secs home b timeout)))) w1))"

definition connect_to :: "transport \<Rightarrow> string \<Rightarrow> boot \<Rightarrow> boot \<times> unit client_result" where
  "connect_to call p w =
     (case daemon_is_listening w of
        (w1, False) \<Rightarrow> (w1, Inl (Io_Error (''cannot connect to '' @ p)))
      | (w1, True) \<Rightarrow> (w1, handshake call))"

definition STARTUP_TIMEOUT :: nat where
  "STARTUP_TIMEOUT = 15000"

definition client_connect :: "(nat \<Rightarrow> string) \<Rightarrow> string \<Rightarrow> string option \<Rightarrow> transport \<Rightarrow> boot \<Rightarrow> boot \<times> unit client_result" where
  "client_connect show_secs home binary call =
     launch_bind (ensure_daemon show_secs home binary STARTUP_TIMEOUT) (connect_to call)"

definition connect_existing :: "string \<Rightarrow> transport \<Rightarrow> boot \<Rightarrow> boot \<times> unit client_result" where
  "connect_existing home call = connect_to call (socket_path home)"

section \<open>At most one daemon is started, and a socket is returned only when somebody took a connection\<close>

definition same_machine :: "boot \<Rightarrow> boot \<Rightarrow> bool" where
  "same_machine w w1 \<longleftrightarrow> la_listens w1 = la_listens w \<and> la_started w1 = la_started w \<and> la_spawn w1 = la_spawn w \<and> la_clock w \<le> la_clock w1"

lemma same_machine_trans: "same_machine a b \<Longrightarrow> same_machine b c \<Longrightarrow> same_machine a c"
  by (simp add: same_machine_def)

lemma looked: "daemon_is_listening w = (w\<lparr>la_tries := Suc (la_tries w), la_clock := la_clock w + int (la_late w (la_tries w))\<rparr>, la_listens w (la_tries w))"
  by (simp add: daemon_is_listening_def)

lemma awaited:
  "await_socket deadline w = (w1, ok) \<Longrightarrow> same_machine w w1 \<and> la_fs w1 = la_fs w
    \<and> (ok \<longrightarrow> la_tries w < la_tries w1 \<and> la_listens w (la_tries w1 - 1)) \<and> (\<not> ok \<longrightarrow> deadline \<le> la_clock w1)"
proof (induction deadline w rule: await_socket.induct)
  case (1 deadline w)
  show ?case
  proof (cases "la_clock w < deadline \<and> \<not> la_listens w (la_tries w)")
    case True
    then show ?thesis using "1.IH"[OF _ looked[symmetric]] "1.prems"
      by (auto simp: await_socket.simps[of deadline w] looked same_machine_def sleep_for_def)
  next
    case False
    then show ?thesis using "1.prems" by (auto simp: await_socket.simps[of deadline w] looked same_machine_def split: if_splits)
  qed
qed

lemma silenced:
  "await_silence deadline w = (w1, ok) \<Longrightarrow> la_tries w < la_tries w1 \<and> (ok \<longleftrightarrow> \<not> la_listens w (la_tries w1 - 1)) \<and> (\<not> ok \<longrightarrow> deadline \<le> la_clock w1)"
proof (induction deadline w rule: await_silence.induct)
  case (1 deadline w)
  show ?case
  proof (cases "la_clock w < deadline \<and> la_listens w (la_tries w)")
    case True
    then show ?thesis using "1.IH"[OF _ looked[symmetric]] "1.prems" by (auto simp: await_silence.simps[of deadline w] looked sleep_for_def)
  next
    case False
    then show ?thesis using "1.prems" by (auto simp: await_silence.simps[of deadline w] looked split: if_splits)
  qed
qed

lemma on_fs_same: "on_fs m err w = (w1, r) \<Longrightarrow> same_machine w w1 \<and> la_tries w1 = la_tries w"
  by (auto simp: on_fs_def same_machine_def split: prod.splits sum.splits)

lemma open_log_same: "open_log p w = (w1, r) \<Longrightarrow> same_machine w w1 \<and> la_tries w1 = la_tries w"
  by (auto simp: open_log_def launch_bind_def same_machine_def on_fs_def split: prod.splits sum.splits)

lemma prepared:
  assumes "launch_bind m f v = (w1, r)" and "\<And>x y. m v = (x, y) \<Longrightarrow> same_machine v x" and "same_machine w v" and "\<not> ((\<exists>e. r = Inl e) \<and> same_machine w w1)"
  obtains a x where "same_machine w a" "f x a = (w1, r)"
proof (cases "m v")
  case (Pair a y)
  have "same_machine w a" using assms(2)[OF Pair] assms(3) same_machine_trans by blast
  then show ?thesis using assms(1,4) Pair that by (cases y) (auto simp: launch_bind_def)
qed

lemma launched:
  assumes run: "launch_bind (on_fs paths_ensure e1) (\<lambda>_. launch_bind (open_log p) (\<lambda>_. launch_bind (on_fs fs_touch e2)
      (\<lambda>_. launch_bind (start_daemon home b) (\<lambda>_. await_daemon show_secs home b timeout)))) v = (w1, r)"
    and fail: "\<not> ((\<exists>e. r = Inl e) \<and> same_machine v w1)"
  shows "\<exists>a. same_machine v a \<and> await_daemon show_secs home b timeout
      (a\<lparr>la_started := la_started a @ [(b, [(''OMNI_HOME'', home), (''OMNI_STDIO_LOGGED'', ''1'')])]\<rparr>) = (w1, r)"
proof -
  have refl: "same_machine v v" by (simp add: same_machine_def)
  let ?start = "launch_bind (start_daemon home b) (\<lambda>_. await_daemon show_secs home b timeout)"
  let ?clone = "launch_bind (on_fs fs_touch e2) (\<lambda>_. ?start)"
  obtain a1 where a1: "same_machine v a1" "launch_bind (open_log p) (\<lambda>_. ?clone) a1 = (w1, r)"
    by (rule prepared[OF run _ refl fail]) (auto dest: on_fs_same)
  obtain a2 where a2: "same_machine v a2" "?clone a2 = (w1, r)"
    by (rule prepared[OF a1(2) _ a1(1) fail]) (auto dest: open_log_same)
  obtain a where a: "same_machine v a" "?start a = (w1, r)"
    by (rule prepared[OF a2(2) _ a2(1) fail]) (auto dest: on_fs_same)
  show ?thesis using a fail by (cases "la_spawn a") (auto simp: launch_bind_def start_daemon_def)
qed

text \<open>
  Somebody listens when a socket is returned; a program is started only when nobody did, and once; and giving
  up on one that was started takes the whole time.
\<close>

lemma daemon_started_once:
  assumes "ensure_daemon show_secs home binary timeout w = (w1, r)"
  shows "(\<forall>p. r = Inr p \<longrightarrow> p = socket_path home \<and> la_listens w (la_tries w1 - 1))
    \<and> (la_started w1 = la_started w
       \<or> \<not> la_listens w (la_tries w) \<and> (\<exists>b. binary = Some b \<and> map fst (la_started w1) = map fst (la_started w) @ [b])
         \<and> (\<forall>e. r = Inl e \<longrightarrow> la_clock w + int timeout \<le> la_clock w1))"
proof -
  obtain v where look: "daemon_is_listening w = (v, la_listens w (la_tries w))"
    and same: "la_listens v = la_listens w" "la_started v = la_started w" "la_tries v = Suc (la_tries w)" "la_clock w \<le> la_clock v"
    by (simp add: looked)
  show ?thesis
  proof (cases "la_listens w (la_tries w) \<or> binary = None")
    case True
    then show ?thesis using assms look same by (auto simp: ensure_daemon_def split: if_splits)
  next
    case False
    then obtain b where b: "binary = Some b" by auto
    show ?thesis
    proof (cases "(\<exists>e. r = Inl e) \<and> same_machine v w1")
      case True
      then show ?thesis using same by (auto simp: same_machine_def)
    next
      case fail: False
      have "launch_bind (on_fs paths_ensure (\<lambda>e. Io_Error (''cannot create omni home '' @ home @ '': '' @ e))) (\<lambda>_.
          launch_bind (open_log (client_log home)) (\<lambda>_.
          launch_bind (on_fs fs_touch (\<lambda>e. Io_Error (''cannot clone '' @ client_log home @ '': '' @ e))) (\<lambda>_.
          launch_bind (start_daemon home b) (\<lambda>_. await_daemon show_secs home b timeout)))) v = (w1, r)"
        using assms look False by (simp add: ensure_daemon_def b)
      from launched[OF this fail] obtain a where a: "same_machine v a" and wait: "await_daemon show_secs home b timeout
          (a\<lparr>la_started := la_started a @ [(b, [(''OMNI_HOME'', home), (''OMNI_STDIO_LOGGED'', ''1'')])]\<rparr>) = (w1, r)"
        by blast
      let ?c = "a\<lparr>la_started := la_started a @ [(b, [(''OMNI_HOME'', home), (''OMNI_STDIO_LOGGED'', ''1'')])]\<rparr>"
      obtain ok where ok: "await_socket (la_clock ?c + int timeout) ?c = (w1, ok)"
          "r = Inr (socket_path home) \<and> ok \<or> (\<exists>e. r = Inl e) \<and> \<not> ok"
        using wait by (auto simp: await_daemon_def split: prod.splits if_splits)
      show ?thesis using awaited[OF ok(1)] ok(2) same a False b by (auto simp: same_machine_def)
    qed
  qed
qed

text \<open>The log a daemon is given is readable to its owner only.\<close>

lemma log_private: "open_log p w = (w1, Inr ()) \<Longrightarrow> \<exists>f. files (la_fs w1) p = Some f \<and> fmode f = private_mode"
  by (cases "files (la_fs w) p")
     (auto simp: open_log_def launch_bind_def on_fs_def fs_open_append_def fs_set_private_def io_step_def on_file_def put_file_def
       tick_on_def split: option.splits if_splits)

end
