(* ===== verification/Command_Line.thy ===== *)
theory Command_Line
  imports Client_Requests Shell_Env
begin

text \<open>
  \<open>lib.rs\<close> of \<open>omni-cli\<close>: what the words of a command line mean, and what \<open>send\<close> and \<open>chat\<close> wait for and
  print. Reading the arguments comes before anything is asked of the daemon, so that a command is its
  plan (\<open>cli_plan\<close>) or an error; the streams of a session are lists of frames.
\<close>

section \<open>Arguments\<close>

datatype cli_output = Human | Json | Frames

definition take_flag :: "string \<Rightarrow> string list \<Rightarrow> bool \<times> string list" where
  "take_flag name args = (name \<in> set args, remove1 name args)"

definition take_value :: "string \<Rightarrow> string list \<Rightarrow> (string option \<times> string list) res" where
  "take_value name args =
     (case dropWhile (\<lambda>a. a \<noteq> name) args of
        [] \<Rightarrow> Inr (None, args)
      | [_] \<Rightarrow> Inl (name @ '' needs a value'')
      | _ # v # rest \<Rightarrow> Inr (Some v, takeWhile (\<lambda>a. a \<noteq> name) args @ rest))"

text \<open>\<open>str::parse::<i64>\<close>: a sign or none, then digits, within 64 bits.\<close>

definition decimal :: "string \<Rightarrow> int option" where
  "decimal s =
     (if s \<noteq> [] \<and> (\<forall>c \<in> set s. CHR ''0'' \<le> c \<and> c \<le> CHR ''9'') then Some (foldl (\<lambda>a c. a * 10 + (of_char c - 48)) 0 s) else None)"

definition parse_i64 :: "string \<Rightarrow> int option" where
  "parse_i64 s =
     (case (case s of
              [] \<Rightarrow> None
            | c # t \<Rightarrow> if c = CHR ''-'' then map_option uminus (decimal t) else if c = CHR ''+'' then decimal t else decimal s) of
        Some n \<Rightarrow> if fits_i64 n then Some n else None
      | None \<Rightarrow> None)"

definition take_i64 :: "string \<Rightarrow> string list \<Rightarrow> (int option \<times> string list) res" where
  "take_i64 name args =
     (case take_value name args of
        Inl e \<Rightarrow> Inl e
      | Inr (None, rest) \<Rightarrow> Inr (None, rest)
      | Inr (Some raw, rest) \<Rightarrow>
          (case parse_i64 raw of
             Some n \<Rightarrow> Inr (Some n, rest)
           | None \<Rightarrow> Inl (name @ '' takes a whole number, not '' @ quoted raw)))"

definition res_bind :: "'a res \<Rightarrow> ('a \<Rightarrow> 'b res) \<Rightarrow> 'b res" where
  "res_bind x f = (case x of Inl e \<Rightarrow> Inl e | Inr a \<Rightarrow> f a)"

definition resolve_ask :: "string option \<Rightarrow> int option \<Rightarrow> string option \<Rightarrow> string option \<Rightarrow> string option \<Rightarrow> bool \<Rightarrow> string option \<Rightarrow> ask option res" where
  "resolve_ask key intelligence bench model effort fast provider =
     (let named = (if key \<noteq> None then [''--key''] else []) @ (if intelligence \<noteq> None then [''--intelligence''] else [])
            @ (if model \<noteq> None then [''--model''] else [])
      in if 1 < length named then Inl (''say one of '' @ join '', '' named @ '', not several'')
         else (case key of
                 Some k \<Rightarrow> Inr (Some (ask_key k))
               | None \<Rightarrow>
                   (case intelligence of
                      Some n \<Rightarrow>
                        if \<not> (0 \<le> n \<and> n \<le> 10) then Inl ''--intelligence must be between 0 and 10''
                        else Inr (Some (case bench of Some b \<Rightarrow> ask_on b (ask_intelligence n) | None \<Rightarrow> ask_intelligence n))
                    | None \<Rightarrow>
                        (case model of
                           Some m \<Rightarrow>
                             let a1 = ask_fast fast (ask_model m);
                                 a2 = (case effort of Some e \<Rightarrow> ask_effort e a1 | None \<Rightarrow> a1)
                             in Inr (Some (case provider of Some p \<Rightarrow> ask_from p a2 | None \<Rightarrow> a2))
                         | None \<Rightarrow> Inr None))))"

definition take_ask :: "string list \<Rightarrow> (ask option \<times> string list) res" where
  "take_ask args =
     res_bind (take_value ''--key'' args) (\<lambda>(key, args1).
     res_bind (take_i64 ''--intelligence'' args1) (\<lambda>(intelligence, args2).
     res_bind (take_value ''--bench'' args2) (\<lambda>(bench, args3).
     res_bind (take_value ''--model'' args3) (\<lambda>(model, args4).
     res_bind (take_value ''--effort'' args4) (\<lambda>(effort, args5).
     case take_flag ''--fast'' args5 of (fast, args6) \<Rightarrow>
     res_bind (take_value ''--provider'' args6) (\<lambda>(provider, args7).
     res_bind (resolve_ask key intelligence bench model effort fast provider) (\<lambda>a. Inr (a, args7))))))))"

definition take_output :: "bool \<Rightarrow> string list \<Rightarrow> (cli_output \<times> string list) res" where
  "take_output frames_allowed args =
     (case take_flag ''--json'' args of (json, args1) \<Rightarrow>
      case take_flag ''--frames'' args1 of (frames, args2) \<Rightarrow>
        if json \<and> frames then Inl ''use either --json or --frames, not both''
        else if frames \<and> \<not> frames_allowed then Inl ''--frames is only available on streaming commands''
        else Inr (if frames then Frames else if json then Json else Human, args2))"

definition split_providers :: "string \<Rightarrow> string list" where
  "split_providers raw = filter (\<lambda>part. part \<noteq> []) (map trim (split_on CHR '','' raw))"

definition take_providers :: "string list \<Rightarrow> (string list option \<times> string list) res" where
  "take_providers args = res_bind (take_value ''--providers'' args) (\<lambda>(raw, rest). Inr (map_option split_providers raw, rest))"

definition is_option :: "string \<Rightarrow> bool" where
  "is_option a \<longleftrightarrow> prefix ''-'' a"

definition reject_options :: "string list \<Rightarrow> unit res" where
  "reject_options args = (case List.find is_option args of Some a \<Rightarrow> Inl (''unknown option '' @ quoted a) | None \<Rightarrow> Inr ())"

definition one_arg :: "string \<Rightarrow> string list \<Rightarrow> string res" where
  "one_arg cmd args =
     res_bind (reject_options args) (\<lambda>_. case args of [a] \<Rightarrow> Inr a | _ \<Rightarrow> Inl (cmd @ '' needs exactly one session''))"

definition no_args :: "string \<Rightarrow> string list \<Rightarrow> unit res" where
  "no_args cmd args = (if args = [] then Inr () else Inl (cmd @ '' takes no arguments''))"

definition take_aliased_i64 :: "string \<Rightarrow> string \<Rightarrow> string list \<Rightarrow> (int option \<times> string list) res" where
  "take_aliased_i64 canonical compatibility args =
     res_bind (take_i64 canonical args) (\<lambda>(a, args1).
     res_bind (take_i64 compatibility args1) (\<lambda>(b, args2).
       if a \<noteq> None \<and> b \<noteq> None then Inl (''use '' @ canonical @ '' only; '' @ compatibility @ '' is its compatibility alias'')
       else Inr (case a of Some _ \<Rightarrow> a | None \<Rightarrow> b, args2)))"

section \<open>Settings\<close>

definition canonical_setting :: "string \<Rightarrow> string" where
  "canonical_setting what = (if what = ''intelligence'' \<or> what = ''key'' then ''model'' else what)"

definition parse_setting :: "codec \<Rightarrow> string \<Rightarrow> string \<Rightarrow> json res" where
  "parse_setting J what raw =
     (if what = ''providers'' \<and> \<not> prefix ''['' (dropWhile is_ws raw) then Inr (JArray (map JString (split_providers raw)))
      else if what \<in> {''model'', ''intelligence'', ''key''} then
        (case parse_i64 (trim raw) of
           Some n \<Rightarrow>
             if \<not> (0 \<le> n \<and> n \<le> 10) then Inl ''intelligence must be between 0 and 10''
             else Inr (JObject [(''how'', JString ''intelligence''), (''value'', JInt n)])
         | None \<Rightarrow>
             if prefix ''{'' (trim raw)
             then (case from_slice J (trim raw) of Inr v \<Rightarrow> Inr v | Inl e \<Rightarrow> Inl (''model takes a word, a number, or json: '' @ e))
             else if what = ''intelligence'' then Inl ''intelligence takes a number''
             else Inr (JObject [(''how'', JString ''key''), (''key'', JString (to_lower (trim raw)))]))
      else if what \<in> {''subagents'', ''mcp'', ''autoremove''} then
        (if raw = ''true'' then Inr (JBool True) else if raw = ''false'' then Inr (JBool False)
         else Inl (what @ '' takes true or false''))
      else Inr (case from_slice J raw of Inr v \<Rightarrow> v | Inl _ \<Rightarrow> JString raw))"

section \<open>Commands\<close>

datatype cli_plan =
    Plan_Help | Plan_Version | Plan_Ping
  | Plan_Daemon string
  | Plan_Providers "string list option"
  | Plan_Dial "string list option"
  | Plan_Other string "string list"
  | Plan_Sessions
  | Plan_Status string
  | Plan_History cli_output int string
  | Plan_Logs cli_output open_options
  | Plan_Stream bool cli_output open_options string
  | Plan_Stop string
  | Plan_Set string string json
  | Plan_Account string string "string option"
  | Plan_Request request

definition plan_daemon :: "string list \<Rightarrow> cli_plan res" where
  "plan_daemon args =
     (case (case args of [] \<Rightarrow> (''status'', []) | a # rest \<Rightarrow> (a, rest)) of
        (action, rest) \<Rightarrow>
          res_bind (no_args ''daemon'' rest) (\<lambda>_.
            if action \<in> {''status'', ''start'', ''stop''} then Inr (Plan_Daemon action)
            else Inl (''unknown daemon action '' @ quoted action @ ''; use start, status, or stop'')))"

definition plan_listing :: "(string list option \<Rightarrow> cli_plan) \<Rightarrow> string list \<Rightarrow> cli_plan res" where
  "plan_listing k args = res_bind (reject_options args) (\<lambda>_. Inr (k (if args = [] then None else Some args)))"

definition plan_history :: "string list \<Rightarrow> cli_plan res" where
  "plan_history args =
     res_bind (take_output False args) (\<lambda>(out, args1).
     res_bind (take_i64 ''--since'' args1) (\<lambda>(since, args2).
     res_bind (one_arg ''history'' args2) (\<lambda>sid. Inr (Plan_History out (case since of Some n \<Rightarrow> n | None \<Rightarrow> 0) sid))))"

definition with_providers :: "string list option \<Rightarrow> open_options \<Rightarrow> open_options" where
  "with_providers ps op = (case ps of Some _ \<Rightarrow> op\<lparr>oo_providers := ps\<rparr> | None \<Rightarrow> op)"

definition plan_logs :: "string option \<Rightarrow> string list \<Rightarrow> cli_plan res" where
  "plan_logs here args =
     res_bind (take_output True args) (\<lambda>(out, args1).
     res_bind (take_i64 ''--since'' args1) (\<lambda>(since, args2).
     res_bind (take_providers args2) (\<lambda>(ps, args3).
     res_bind (one_arg ''logs'' args3) (\<lambda>sid.
       Inr (Plan_Logs out (with_providers ps ((open_options_new here sid)\<lparr>oo_from := (case since of Some n \<Rightarrow> n | None \<Rightarrow> 0)\<rparr>)))))))"

definition plan_stream :: "string option \<Rightarrow> bool \<Rightarrow> string list \<Rightarrow> cli_plan res" where
  "plan_stream here interactive args =
     res_bind (take_output True args) (\<lambda>(out, args1).
     res_bind (take_i64 ''--since'' args1) (\<lambda>(since, args2).
     res_bind (take_ask args2) (\<lambda>(a, args3).
     res_bind (take_providers args3) (\<lambda>(ps, args4).
     res_bind (reject_options args4) (\<lambda>_.
       case args4 of
         [] \<Rightarrow> Inl ((if interactive then ''chat'' else ''send'') @ '' needs a session'' @ (if interactive then [] else '' and a message''))
       | sid # rest \<Rightarrow>
           let message = join '' '' rest in
           if \<not> interactive \<and> message = [] then Inl ''send needs a message''
           else
             let op = with_providers ps ((open_options_new here sid)\<lparr>oo_from := (case since of Some n \<Rightarrow> n | None \<Rightarrow> -1)\<rparr>)
             in Inr (Plan_Stream interactive out
                  (case a of Some a \<Rightarrow> op\<lparr>oo_settings := oo_settings op @ [\<lparr>se_what = ''model'', se_value = ask_value a\<rparr>]\<rparr> | None \<Rightarrow> op)
                  message))))))"

definition plan_set :: "codec \<Rightarrow> string list \<Rightarrow> cli_plan res" where
  "plan_set J args =
     res_bind (reject_options args) (\<lambda>_.
       case args of
         sid # what # v # rest \<Rightarrow>
           res_bind (parse_setting J (canonical_setting what) (join '' '' (v # rest))) (\<lambda>x. Inr (Plan_Set sid (canonical_setting what) x))
       | _ \<Rightarrow> Inl ''set needs SESSION SETTING VALUE'')"

definition account_action :: "string \<Rightarrow> string list \<Rightarrow> (string \<times> string option) res" where
  "account_action action args =
     (if action = ''status'' then Inr (''auth_status'', None)
      else if action = ''installed'' then Inr (''installed'', None)
      else if action = ''limits'' then Inr (''limits'', None)
      else if action \<in> {''start-auth'', ''login'', ''start''} then Inr (''start_auth'', None)
      else if action \<in> {''finish-auth'', ''finish''} then
        (if args = [] then Inl ''account finish-auth needs a code or redirect URL'' else Inr (''finish_auth'', Some (join '' '' args)))
      else if action = ''forget'' then Inr (''forget'', None)
      else Inl (''unknown account action '' @ quoted action @ ''; use status, installed, limits, start-auth, finish-auth, or forget''))"

definition plan_account :: "string list \<Rightarrow> cli_plan res" where
  "plan_account args =
     res_bind (reject_options args) (\<lambda>_.
       case args of
         [] \<Rightarrow> Inl ''account needs a provider''
       | p # rest \<Rightarrow>
           (case (case rest of [] \<Rightarrow> (''status'', []) | a # further \<Rightarrow> (a, further)) of
              (action, further) \<Rightarrow>
                res_bind (account_action action further) (\<lambda>(what, t).
                  if t = None \<and> further \<noteq> [] then Inl (''account '' @ action @ '' takes no extra arguments'')
                  else Inr (Plan_Account p what t))))"

text \<open>The reader's message about a request that is none is the argument \<open>why\<close>.\<close>

definition plan_request :: "codec \<Rightarrow> (json \<Rightarrow> string) \<Rightarrow> string list \<Rightarrow> cli_plan res" where
  "plan_request J why args =
     (case args of
        [] \<Rightarrow> Inl ''request needs an operation''
      | op # rest \<Rightarrow>
          if 1 < length rest then Inl ''request takes at most one JSON object''
          else res_bind (case rest of raw # _ \<Rightarrow> from_slice J raw | [] \<Rightarrow> Inr (JObject [])) (\<lambda>v.
            case v of
              JObject m \<Rightarrow>
                let body = JObject (bt_insert ''op'' (JString op) (bt_insert ''id'' (JInt 0) m))
                in (case request_of body of Some r \<Rightarrow> Inr (Plan_Request r) | None \<Rightarrow> Inl (why body))
            | _ \<Rightarrow> Inl ''request fields must be a JSON object''))"

definition OTHER_COMMANDS :: "string list" where
  "OTHER_COMMANDS = [''categories'', ''models'', ''best'', ''accounts'', ''login'', ''logout'', ''admin'']"

definition cli_run :: "codec \<Rightarrow> (json \<Rightarrow> string) \<Rightarrow> string option \<Rightarrow> string list \<Rightarrow> cli_plan res" where
  "cli_run J why here args =
     (case args of
        [] \<Rightarrow> Inr Plan_Help
      | cmd # rest \<Rightarrow>
          if cmd \<in> {''help'', ''-h'', ''--help''} then Inr Plan_Help
          else if cmd \<in> {''version'', ''-V'', ''--version''} then Inr Plan_Version
          else if cmd = ''ping'' then Inr Plan_Ping
          else if cmd = ''daemon'' then plan_daemon rest
          else if cmd = ''providers'' then plan_listing Plan_Providers rest
          else if cmd = ''dial'' then plan_listing Plan_Dial rest
          else if cmd \<in> set OTHER_COMMANDS then Inr (Plan_Other cmd rest)
          else if cmd = ''sessions'' then res_bind (no_args cmd rest) (\<lambda>_. Inr Plan_Sessions)
          else if cmd = ''status'' then res_bind (one_arg cmd rest) (\<lambda>sid. Inr (Plan_Status sid))
          else if cmd = ''history'' then plan_history rest
          else if cmd = ''logs'' then plan_logs here rest
          else if cmd = ''send'' then plan_stream here False rest
          else if cmd = ''chat'' then plan_stream here True rest
          else if cmd = ''stop'' then res_bind (one_arg cmd rest) (\<lambda>sid. Inr (Plan_Stop sid))
          else if cmd = ''set'' then plan_set J rest
          else if cmd = ''account'' then plan_account rest
          else if cmd = ''request'' then plan_request J why rest
          else Inl (''unknown command '' @ quoted cmd @ ''; try `silicon-omni help`''))"

section \<open>Facts about arguments\<close>

definition plain :: "string list \<Rightarrow> bool" where
  "plain args \<longleftrightarrow> (\<forall>a \<in> set args. \<not> is_option a)"

lemma plain_simps [simp]: "plain (xs @ ys) \<longleftrightarrow> plain xs \<and> plain ys" "plain (x # xs) \<longleftrightarrow> \<not> is_option x \<and> plain xs" "plain []"
  by (auto simp: plain_def)

lemma plain_misses: "plain args \<Longrightarrow> is_option name \<Longrightarrow> name \<notin> set args"
  by (auto simp: plain_def)

lemma take_value_none: "name \<notin> set args \<Longrightarrow> take_value name args = Inr (None, args)"
proof -
  assume "name \<notin> set args"
  then have "dropWhile (\<lambda>a. a \<noteq> name) args = []" by (auto simp: dropWhile_eq_Nil_conv)
  then show ?thesis by (simp only: take_value_def list.case)
qed

lemma take_value_some: "name \<notin> set pre \<Longrightarrow> take_value name (pre @ name # v # suf) = Inr (Some v, pre @ suf)"
proof -
  assume n: "name \<notin> set pre"
  then have "dropWhile (\<lambda>a. a \<noteq> name) (pre @ name # v # suf) = name # v # suf" by (subst dropWhile_append2) auto
  moreover have "takeWhile (\<lambda>a. a \<noteq> name) (pre @ name # v # suf) = pre" using n by (subst takeWhile_append2) auto
  ultimately show ?thesis by (simp add: take_value_def)
qed

lemma take_flag_none: "name \<notin> set args \<Longrightarrow> take_flag name args = (False, args)"
  by (simp add: take_flag_def remove1_idem)

lemma take_flag_some: "name \<notin> set pre \<Longrightarrow> take_flag name (pre @ name # suf) = (True, pre @ suf)"
  by (simp add: take_flag_def remove1_append)

text \<open>How an ask is said, and which asks can be.\<close>

fun ask_args :: "ask \<Rightarrow> string list" where
  "ask_args (Ask_Key k) = [''--key'', k]"
| "ask_args (Ask_Intelligence n bench) = [''--intelligence'', show_int n] @ (case bench of Some b \<Rightarrow> [''--bench'', b] | None \<Rightarrow> [])"
| "ask_args (Ask_Model provider model effort fast) =
     [''--model'', model] @ (if effort = [] then [] else [''--effort'', effort]) @ (if fast then [''--fast''] else [])
     @ (case provider of Some p \<Rightarrow> [''--provider'', p] | None \<Rightarrow> [])"

definition sayable_word :: "string \<Rightarrow> bool" where
  "sayable_word x \<longleftrightarrow> trim x = x \<and> \<not> is_option x"

fun sayable :: "ask \<Rightarrow> bool" where
  "sayable (Ask_Key k) \<longleftrightarrow> sayable_word k \<and> to_lower k = k"
| "sayable (Ask_Intelligence n bench) \<longleftrightarrow> 0 \<le> n \<and> n \<le> 10 \<and> (case bench of Some b \<Rightarrow> sayable_word b | None \<Rightarrow> True)"
| "sayable (Ask_Model provider model effort fast) \<longleftrightarrow> sayable_word model \<and> sayable_word effort
     \<and> (case provider of Some p \<Rightarrow> sayable_word p | None \<Rightarrow> True)"

lemma dial_reads_back: "0 \<le> n \<Longrightarrow> n \<le> 10 \<Longrightarrow> parse_i64 (show_int n) = Some n \<and> \<not> is_option (show_int n)"
proof -
  assume "0 \<le> n" "n \<le> 10"
  then have "n \<in> set [0..10]" by simp
  moreover have "\<forall>n \<in> set [0..10]. parse_i64 (show_int n) = Some n \<and> \<not> is_option (show_int n)" by code_simp
  ultimately show ?thesis by blast
qed

lemma take_i64_none: "name \<notin> set args \<Longrightarrow> take_i64 name args = Inr (None, args)"
  by (simp add: take_i64_def take_value_none)

lemma take_i64_some: "name \<notin> set pre \<Longrightarrow> parse_i64 v = Some n \<Longrightarrow> take_i64 name (pre @ name # v # suf) = Inr (Some n, pre @ suf)"
  by (simp add: take_i64_def take_value_some)

lemmas take_simps = take_value_none take_value_some take_flag_none take_flag_some take_i64_none take_i64_some res_bind_def

text \<open>Found behind words of the message as well.\<close>

lemma take_value_mid:
  assumes "plain pre" and "is_option name"
  shows "name \<notin> set args \<Longrightarrow> take_value name (pre @ args) = Inr (None, pre @ args)" "take_value name (pre @ name # v # suf) = Inr (Some v, pre @ suf)"
    "name \<notin> set args \<Longrightarrow> take_i64 name (pre @ args) = Inr (None, pre @ args)"
    "parse_i64 v = Some n \<Longrightarrow> take_i64 name (pre @ name # v # suf) = Inr (Some n, pre @ suf)"
    "name \<notin> set args \<Longrightarrow> take_flag name (pre @ args) = (False, pre @ args)" "take_flag name (pre @ name # suf) = (True, pre @ suf)"
  using plain_misses[OF assms] by (simp_all add: take_simps)

lemma take_ask_said:
  assumes "sayable a" and "plain pre" and "plain suf"
  shows "take_ask (pre @ ask_args a @ suf) = Inr (Some a, pre @ suf)"
proof -
  note m = take_value_mid[OF assms(2)]
  have o: "is_option ''--key''" "is_option ''--intelligence''" "is_option ''--bench''" "is_option ''--model''" "is_option ''--effort''" "is_option ''--fast''"
    "is_option ''--provider''" by (simp_all add: is_option_def)
  note n = plain_misses[OF assms(3)]
  show ?thesis
  proof (cases a)
    case (Ask_Key k)
    then have "\<not> is_option k" "trim k = k" "to_lower k = k" using assms(1) by (simp_all add: sayable_word_def)
    then have "k \<noteq> x" if "is_option x" for x using that by auto
    then show ?thesis using n o
      by (simp add: Ask_Key take_ask_def m res_bind_def resolve_ask_def ask_key_def \<open>trim k = k\<close> \<open>to_lower k = k\<close>)
  next
    case (Ask_Intelligence d bench)
    have d: "parse_i64 (show_int d) = Some d" "0 \<le> d" "d \<le> 10" "\<And>x. is_option x \<Longrightarrow> x \<noteq> show_int d"
      using assms(1) dial_reads_back[of d] by (auto simp: Ask_Intelligence)
    show ?thesis
    proof (cases bench)
      case None
      then show ?thesis using n o d by (simp add: Ask_Intelligence take_ask_def m res_bind_def resolve_ask_def ask_intelligence_def)
    next
      case (Some b)
      then have "\<And>x. is_option x \<Longrightarrow> x \<noteq> b" "trim b = b" using assms(1) by (auto simp: Ask_Intelligence sayable_word_def)
      then show ?thesis using n o d by (simp add: Some Ask_Intelligence take_ask_def m res_bind_def resolve_ask_def ask_intelligence_def)
    qed
  next
    case (Ask_Model provider model effort fast)
    have w: "trim model = model" "trim effort = effort" "\<And>x. is_option x \<Longrightarrow> x \<noteq> model" "\<And>x. is_option x \<Longrightarrow> x \<noteq> effort"
      using assms(1) by (auto simp: Ask_Model sayable_word_def)
    show ?thesis
    proof (cases provider)
      case None
      then show ?thesis using n o w
        by (cases "effort = []"; cases fast) (simp_all add: Ask_Model take_ask_def m res_bind_def resolve_ask_def ask_model_def)
    next
      case (Some p)
      then have "\<And>x. is_option x \<Longrightarrow> x \<noteq> p" "trim p = p" using assms(1) by (auto simp: Ask_Model sayable_word_def)
      then show ?thesis using n o w
        by (cases "effort = []"; cases fast) (simp_all add: Some Ask_Model take_ask_def m res_bind_def resolve_ask_def ask_model_def)
    qed
  qed
qed

lemma ask_args_misses:
  assumes "sayable a" and "is_option x" and "x \<notin> {''--key'', ''--intelligence'', ''--bench'', ''--model'', ''--effort'', ''--fast'', ''--provider''}"
  shows "x \<notin> set (ask_args a)"
  using assms dial_reads_back
  by (cases a) (auto simp: sayable_word_def split: option.splits if_splits)

text \<open>
  C20: what a user says on the command line about who should answer is what the daemon reads. Wherever the
  options of an ask stand among the words of \<open>send\<close> or \<open>chat\<close>, the session that is opened is the first
  word, the message is the rest, the one setting it is opened with carries the ask, and the daemon's
  reader finds exactly that ask in it.
\<close>

theorem said_ask_arrives:
  assumes "sayable a" and "plain pre" and "plain suf" and "pre @ suf = sid # words" and "join '' '' words \<noteq> []"
    and "cmd = ''send'' \<or> cmd = ''chat''"
  shows "\<exists>op. cli_run J why here (cmd # pre @ ask_args a @ suf) = Inr (Plan_Stream (cmd = ''chat'') Human op (join '' '' words))
    \<and> oo_session op = sid \<and> oo_providers op = None \<and> map se_what (oo_settings op) = [''model'']
    \<and> map (\<lambda>se. ask_of_value (se_value se)) (oo_settings op) = [Some a]"
proof -
  have o: "is_option ''--json''" "is_option ''--frames''" "is_option ''--since''" "is_option ''--providers''" by (simp_all add: is_option_def)
  have all: "x \<notin> set (pre @ ask_args a @ suf)" if "x \<in> {''--json'', ''--frames'', ''--since''}" for x
    using that plain_misses[OF assms(2), of x] plain_misses[OF assms(3), of x] ask_args_misses[OF assms(1), of x] o by auto
  have rest: "''--providers'' \<notin> set (sid # words)" "List.find is_option (sid # words) = None"
    using assms(2,3) o(4) by (auto simp: plain_def find_None_iff simp flip: assms(4))
  have "take_output True (pre @ ask_args a @ suf) = Inr (Human, pre @ ask_args a @ suf)"
    using all by (simp add: take_output_def take_flag_none)
  moreover have "take_i64 ''--since'' (pre @ ask_args a @ suf) = Inr (None, pre @ ask_args a @ suf)" using all by (simp add: take_i64_none)
  ultimately have s: "plan_stream here i (pre @ ask_args a @ suf) =
      Inr (Plan_Stream i Human ((open_options_new here sid)\<lparr>oo_from := -1, oo_settings := [\<lparr>se_what = ''model'', se_value = ask_value a\<rparr>]\<rparr>) (join '' '' words))" for i
    using take_ask_said[OF assms(1-3)] assms(5) rest
    by (simp add: plan_stream_def res_bind_def assms(4) take_providers_def take_value_none reject_options_def with_providers_def open_options_new_def Let_def)
  have "sendable_ask a" using assms(1) by (cases a) (auto simp: sendable_ask_def fits_i64_def i64_min_def i64_max_def)
  then have "ask_of_value (ask_value a) = Some a" by (rule ask_reads_back)
  moreover have "cli_run J why here (cmd # pre @ ask_args a @ suf) = plan_stream here (cmd = ''chat'') (pre @ ask_args a @ suf)"
    using assms(6) by (auto simp: cli_run_def OTHER_COMMANDS_def)
  ultimately show ?thesis using s by (simp add: open_options_new_def)
qed

theorem said_ask_arrives_witness:
  "\<exists>op. cli_run toy_codec (\<lambda>_. []) None [''send'', ''s'', ''--intelligence'', ''7'', ''--bench'', ''arena'', ''hi'', ''there''] = Inr (Plan_Stream False Human op ''hi there'')
    \<and> map (\<lambda>se. ask_of_value (se_value se)) (oo_settings op) = [Some (Ask_Intelligence 7 (Some ''arena''))]"
proof -
  let ?a = "Ask_Intelligence 7 (Some ''arena'')"
  have "sayable ?a" "ask_args ?a = [''--intelligence'', ''7'', ''--bench'', ''arena'']" "plain [''s'']" "plain [''hi'', ''there'']" by code_simp+
  from said_ask_arrives[OF this(1,3,4), of "''s''" "[''hi'', ''there'']" "''send''" toy_codec "\<lambda>_. []" None, unfolded this(2)]
  show ?thesis by auto
qed

text \<open>
  A word given for the intelligence is taken for a key: the setting is renamed before its value is read,
  so that the refusal written for it is never reached.
\<close>

lemma set_intelligence_word:
  "cli_run J why here [''set'', ''s'', ''intelligence'', ''code''] = Inr (Plan_Set ''s'' ''model'' (JObject [(''how'', JString ''key''), (''key'', JString ''code'')]))"
  "parse_setting J ''intelligence'' ''code'' = Inl ''intelligence takes a number''"
proof -
  have p: "parse_i64 ''code'' = None" "trim ''code'' = ''code''" "to_lower ''code'' = ''code''" by code_simp+
  have "List.find is_option [''s'', ''intelligence'', ''code''] = None" by code_simp
  then show "cli_run J why here [''set'', ''s'', ''intelligence'', ''code''] = Inr (Plan_Set ''s'' ''model'' (JObject [(''how'', JString ''key''), (''key'', JString ''code'')]))"
    by (simp add: cli_run_def OTHER_COMMANDS_def plan_set_def reject_options_def res_bind_def canonical_setting_def parse_setting_def p)
  show "parse_setting J ''intelligence'' ''code'' = Inl ''intelligence takes a number''" by (simp add: parse_setting_def p)
qed

section \<open>Streams\<close>

datatype to_where = To_Out | To_Err

type_synonym shown = "(to_where \<times> string) list"

text \<open>The arrow of \<open>print_event\<close> is a letter of three bytes.\<close>

definition arrow :: string where
  "arrow = [CHR 0xE2, CHR 0x86, CHR 0x92]"

definition print_event :: "codec \<Rightarrow> cli_output \<Rightarrow> event \<Rightarrow> shown" where
  "print_event J fmt e =
     (if fmt \<noteq> Human then [(To_Out, to_text J (to_value e))]
      else if ev_type e = TEXT then [(To_Out, ev_text e)]
      else if ev_type e = START then [(To_Err, ''> '' @ ev_text e)]
      else if ev_type e = INJECTED then [(To_Err, ''>> '' @ ev_text e)]
      else if ev_type e = THINKING then [(To_Err, ''[thinking]'')]
      else if ev_type e = TOOL_CALL then [(To_Err, ''[tool '' @ ev_tool e @ '' '' @ to_text J (JObject (ev_args e)) @ '']'')]
      else if ev_type e = TOOL_RESULT then [(To_Err, ''[tool '' @ ev_tool e @ '' '' @ (if ev_ok e then ''ok'' else ''failed'') @ '']'')]
      else if ev_type e = ERROR then [(To_Err, ''[error'' @ (if ev_kind e = [] then [] else ''/'' @ ev_kind e) @ ''] '' @ ev_error e)]
      else if ev_type e = SWITCH_PROVIDER then [(To_Err, ''[provider '' @ arrow @ '' '' @ ev_provider e @ '']'')]
      else if ev_type e = NEW_SESSION then [(To_Err, ''[new native session: '' @ ev_provider e @ '']'')]
      else if ev_type e = CONFIG then [(To_Err, ''[config: '' @ ev_text e @ '']'')]
      else if ev_type e = END then []
      else [(To_Err, ''['' @ ev_type e @ '']'')])"

definition print_frame :: "codec \<Rightarrow> cli_output \<Rightarrow> frame \<Rightarrow> shown" where
  "print_frame J fmt f =
     (case fmt of
        Frames \<Rightarrow> [(To_Out, to_text J (frame_value f))]
      | Json \<Rightarrow> (case fr_event f of Some e \<Rightarrow> print_event J Json e | None \<Rightarrow> [])
      | Human \<Rightarrow> (case fr_event f of Some e \<Rightarrow> print_event J Human e
                  | None \<Rightarrow> if fr_stream f = ''gone'' then [(To_Err, ''[session stopped]'')] else []))"

definition turn_settled :: "snapshot option \<Rightarrow> bool" where
  "turn_settled sn = (case sn of Some s \<Rightarrow> sn_status s = ''waiting'' \<and> \<not> sn_in_turn s \<and> sn_queued s = 0 | None \<Rightarrow> False)"

definition failed_attempt :: "event option \<Rightarrow> snapshot option \<Rightarrow> bool" where
  "failed_attempt e sn \<longleftrightarrow> (case e of Some e \<Rightarrow> ev_type e = ERROR | None \<Rightarrow> False)
     \<and> (case sn of Some s \<Rightarrow> \<not> sn_in_turn s \<and> (sn_status s = ''waiting'' \<or> sn_status s = ''stopped'') | None \<Rightarrow> False)"

definition confirms :: "string \<Rightarrow> frame \<Rightarrow> bool" where
  "confirms t f = (case fr_event f of Some e \<Rightarrow> (ev_type e = START \<or> ev_type e = INJECTED) \<and> ev_text e = t | None \<Rightarrow> False)"

definition frame_failure :: "frame \<Rightarrow> string option" where
  "frame_failure f =
     (case fr_event f of
        Some e \<Rightarrow>
          if ev_type e = ERROR \<and> ev_kind e \<noteq> ''stderr'' \<and> get_bool (ev_extra e) ''willRetry'' \<noteq> Some True
          then Some (if ev_error e = [] then ''inference failed'' else ev_error e) else None
      | None \<Rightarrow> None)"

text \<open>
  One frame of the wait: whether the message was confirmed and the last failure that will not be tried
  again, before and after, and the end of the wait.
\<close>

type_synonym wait_state = "bool \<times> string option"

definition wait_frame :: "string \<Rightarrow> frame \<Rightarrow> wait_state \<Rightarrow> wait_state \<times> unit res option" where
  "wait_frame t f st =
     (let ack = (fst st \<or> confirms t f);
          failure = (case frame_failure f of Some e \<Rightarrow> Some e | None \<Rightarrow> snd st);
          verdict = (case failure of Some e \<Rightarrow> Inl e | None \<Rightarrow> Inr ())
      in ((ack, failure),
          if failed_attempt (fr_event f) (fr_snapshot f)
          then Some (Inl (case failure of Some e \<Rightarrow> e | None \<Rightarrow> ''the message could not be delivered''))
          else if fr_stream f = ''gone'' then Some verdict
          else if ack \<and> turn_settled (fr_snapshot f) then Some verdict
          else None))"

text \<open>\<open>recv\<close> gives a frame or the error that the connection is lost.\<close>

fun wait_loop :: "codec \<Rightarrow> cli_output \<Rightarrow> string \<Rightarrow> (string + frame) list \<Rightarrow> wait_state \<Rightarrow> shown \<times> unit res option" where
  "wait_loop J fmt t [] st = ([], None)"
| "wait_loop J fmt t (Inl err # fs) st = ([], Some (Inl err))"
| "wait_loop J fmt t (Inr f # fs) st =
     (case wait_frame t f st of
        (st1, Some r) \<Rightarrow> (print_frame J fmt f, Some r)
      | (st1, None) \<Rightarrow> (case wait_loop J fmt t fs st1 of (sh, r) \<Rightarrow> (print_frame J fmt f @ sh, r)))"

definition send_and_wait :: "codec \<Rightarrow> cli_output \<Rightarrow> string \<Rightarrow> bool res \<Rightarrow> (string + frame) list \<Rightarrow> shown \<times> unit res option" where
  "send_and_wait J fmt t took fs =
     (case took of
        Inl err \<Rightarrow> ([], Some (Inl err))
      | Inr False \<Rightarrow> ([], Some (Inl ''daemon did not accept the message''))
      | Inr True \<Rightarrow> wait_loop J fmt t fs (False, None))"

text \<open>The lines of an interactive chat, up to the one that leaves it.\<close>

definition repl_messages :: "string list \<Rightarrow> string list" where
  "repl_messages ls = filter (\<lambda>t. t \<noteq> []) (takeWhile (\<lambda>t. t \<noteq> ''/quit'' \<and> t \<noteq> ''/exit'') (map trim ls))"

section \<open>Asking the daemon\<close>

fun client_error_text :: "client_error \<Rightarrow> string" where
  "client_error_text (Io_Error m) = m"
| "client_error_text (Json_Error m) = m"
| "client_error_text (Daemon_Error m) = m"
| "client_error_text (No_Answer m) = m"
| "client_error_text (Timed_Out what secs) = what @ '' got no answer in '' @ show_int secs @ ''s''"
| "client_error_text client_error.Disconnected = ''the omni daemon went away''"
| "client_error_text (Already_Open sid) = ''session '' @ quoted sid @ '' is already open on this client''"
| "client_error_text (Unavailable m) = m"
| "client_error_text (Chat_Stopped m) = m"
| "client_error_text (Bad_Protocol m) = m"

definition asked :: "'a client_result \<Rightarrow> 'a res" where
  "asked x = (case x of Inl e \<Rightarrow> Inl (client_error_text e) | Inr a \<Rightarrow> Inr a)"

definition print_value :: "codec \<Rightarrow> json \<Rightarrow> shown" where
  "print_value J v = [(To_Out, case v of JString t \<Rightarrow> t | _ \<Rightarrow> to_pretty J v)]"

definition tab :: string where "tab = [CHR 0x09]"

definition session_row :: "snapshot \<times> nat \<Rightarrow> string" where
  "session_row x = join tab [sn_session (fst x), sn_status (fst x), sn_provider (fst x), sn_model (fst x), ask_display (sn_ask (fst x)), show_nat (snd x)]"

definition pad_left :: "nat \<Rightarrow> string \<Rightarrow> string" where
  "pad_left n t = replicate (n - length t) CHR '' '' @ t"

definition pad_right :: "nat \<Rightarrow> string \<Rightarrow> string" where
  "pad_right n t = t @ replicate (n - length t) CHR '' ''"

definition dial_row :: "int \<times> pick \<Rightarrow> string" where
  "dial_row x = pad_left 12 (show_int (fst x)) @ ''  '' @ pad_right 8 (pk_provider (snd x)) @ ''  '' @ pk_model (snd x) @ ''  '' @ pk_effort (snd x)"

definition info_value :: "daemon_info \<Rightarrow> json" where
  "info_value i = JObject [(''home'', JString (di_home i)), (''pid'', JInt (di_pid i)), (''protocol'', JInt (di_protocol i)),
     (''started'', JString (di_started i)), (''version'', JString (di_version i))]"

text \<open>
  The plans that ask once and print the answer. \<open>status\<close> and \<open>stop\<close> of the daemon connect to one that
  runs already, if any; whether it then goes away in time is an argument.
\<close>

definition daemon_status :: "daemon_info client_result option \<Rightarrow> shown res" where
  "daemon_status up =
     (case up of
        None \<Rightarrow> Inr [(To_Out, ''stopped'')]
      | Some x \<Rightarrow> res_bind (asked x) (\<lambda>i. Inr [(To_Out, ''running (pid '' @ show_int (di_pid i) @ '', v'' @ di_version i
          @ '', protocol '' @ show_int (di_protocol i) @ '', since '' @ di_started i @ '')'')]))"

definition daemon_stop :: "unit client_result option \<Rightarrow> bool \<Rightarrow> shown res" where
  "daemon_stop up gone =
     (case up of
        None \<Rightarrow> Inr [(To_Out, ''already stopped'')]
      | Some x \<Rightarrow> res_bind (asked x) (\<lambda>_. if gone then Inr [(To_Out, ''stopped'')] else Inl ''daemon did not stop within 90s''))"

definition daemon_start :: "transport \<Rightarrow> shown res" where
  "daemon_start call =
     res_bind (asked (client_ping call)) (\<lambda>i. Inr [(To_Out, ''running (pid '' @ show_int (di_pid i) @ '', v'' @ di_version i @ '')'')])"

definition show_providers :: "transport \<Rightarrow> string list option \<Rightarrow> shown res" where
  "show_providers call only = res_bind (asked (client_providers call only)) (\<lambda>ps. Inr (map (\<lambda>p. (To_Out, p)) ps))"

definition show_dial :: "transport \<Rightarrow> string list option \<Rightarrow> shown res" where
  "show_dial call only =
     res_bind (asked (client_dial call only)) (\<lambda>rows.
       Inr ((To_Out, ''intelligence  provider  model  effort'') # map (\<lambda>x. (To_Out, dial_row x)) (rev rows)))"

definition show_sessions :: "transport \<Rightarrow> shown res" where
  "show_sessions call =
     res_bind (asked (client_sessions call)) (\<lambda>xs.
       Inr (if xs = [] then []
            else (To_Out, join tab [''session'', ''status'', ''provider'', ''model'', ''intelligence'', ''listeners''])
                   # map (\<lambda>x. (To_Out, session_row x)) xs))"

definition show_status :: "codec \<Rightarrow> transport \<Rightarrow> string \<Rightarrow> shown res" where
  "show_status J call sid =
     res_bind (asked (client_status call sid)) (\<lambda>(sn, n).
       Inr (print_value J (JObject [(''listeners'', JInt (int n)), (''snapshot'', snapshot_value sn)])))"

definition show_history :: "codec \<Rightarrow> transport \<Rightarrow> cli_output \<Rightarrow> int \<Rightarrow> string \<Rightarrow> shown res" where
  "show_history J call fmt since sid = res_bind (asked (client_events call sid since)) (\<lambda>es. Inr (concat (map (print_event J fmt) es)))"

definition do_stop :: "transport \<Rightarrow> string \<Rightarrow> shown res" where
  "do_stop call sid = res_bind (asked (client_stop call sid)) (\<lambda>b. Inr [(To_Out, if b then ''stopped'' else ''not live'')])"

definition do_set :: "transport \<Rightarrow> string \<Rightarrow> string \<Rightarrow> json \<Rightarrow> shown res" where
  "do_set call sid what v =
     res_bind (asked (client_set call sid what v)) (\<lambda>b.
       if b then Inr [(To_Out, ''accepted'')] else Inl ''session is no longer accepting changes'')"

fun perform :: "codec \<Rightarrow> transport \<Rightarrow> cli_plan \<Rightarrow> shown res option" where
  "perform J call Plan_Ping = Some (res_bind (asked (client_ping call)) (\<lambda>i. Inr (print_value J (info_value i))))"
| "perform J call (Plan_Providers only) = Some (show_providers call only)"
| "perform J call (Plan_Dial only) = Some (show_dial call only)"
| "perform J call Plan_Sessions = Some (show_sessions call)"
| "perform J call (Plan_Status sid) = Some (show_status J call sid)"
| "perform J call (Plan_History fmt since sid) = Some (show_history J call fmt since sid)"
| "perform J call (Plan_Stop sid) = Some (do_stop call sid)"
| "perform J call (Plan_Set sid what v) = Some (do_set call sid what v)"
| "perform J call (Plan_Account p what t) = Some (res_bind (asked (client_account call p what t)) (\<lambda>v. Inr (print_value J v)))"
| "perform J call (Plan_Request r) = Some (res_bind (asked (call r DEFAULT_TIMEOUT)) (\<lambda>v. Inr (print_value J v)))"
| "perform J call _ = None"

text \<open>\<open>logs\<close>: every frame up to the one that says that the session is gone, or the end of the connection.\<close>

fun follow_logs :: "codec \<Rightarrow> cli_output \<Rightarrow> (string + frame) list \<Rightarrow> shown \<times> unit res option" where
  "follow_logs J fmt [] = ([], None)"
| "follow_logs J fmt (Inl err # fs) = ([], Some (Inl err))"
| "follow_logs J fmt (Inr f # fs) =
     (if fr_stream f = ''gone'' then (print_frame J fmt f, Some (Inr ()))
      else case follow_logs J fmt fs of (sh, r) \<Rightarrow> (print_frame J fmt f @ sh, r))"

section \<open>What sending waits for\<close>

definition last_failure :: "frame list \<Rightarrow> string option" where
  "last_failure fs = (let es = List.map_filter frame_failure fs in if es = [] then None else Some (last es))"

text \<open>The wait may end with the last of these frames.\<close>

definition over :: "string \<Rightarrow> frame list \<Rightarrow> bool" where
  "over t fs \<longleftrightarrow> fs \<noteq> [] \<and> (failed_attempt (fr_event (last fs)) (fr_snapshot (last fs)) \<or> fr_stream (last fs) = ''gone''
     \<or> (\<exists>f \<in> set fs. confirms t f) \<and> turn_settled (fr_snapshot (last fs)))"

lemma last_failure_snoc: "last_failure (fs @ [f]) = (case frame_failure f of Some e \<Rightarrow> Some e | None \<Rightarrow> last_failure fs)"
  by (cases "frame_failure f") (simp_all add: last_failure_def List.map_filter_def Let_def)

lemma wait_frame_over:
  assumes "wait_frame t f (\<exists>g \<in> set gs. confirms t g, last_failure gs) = (st, r)"
  shows "st = (\<exists>g \<in> set (gs @ [f]). confirms t g, last_failure (gs @ [f]))" "r \<noteq> None \<longleftrightarrow> over t (gs @ [f])"
    "r = Some (Inr ()) \<longleftrightarrow> over t (gs @ [f]) \<and> last_failure (gs @ [f]) = None \<and> \<not> failed_attempt (fr_event f) (fr_snapshot f)"
  using assms by (auto simp: wait_frame_def Let_def over_def last_failure_snoc split: option.splits if_splits)

lemma wait_loop_over:
  assumes "wait_loop J fmt t (map Inr fs) (\<exists>g \<in> set gs. confirms t g, last_failure gs) = (sh, r)" and "\<not> over t gs"
  shows "case r of
     None \<Rightarrow> (\<forall>k \<le> length fs. \<not> over t (gs @ take k fs)) \<and> sh = concat (map (print_frame J fmt) fs)
   | Some x \<Rightarrow> (\<exists>k \<le> length fs. over t (gs @ take k fs) \<and> (\<forall>j < k. \<not> over t (gs @ take j fs)) \<and> sh = concat (map (print_frame J fmt) (take k fs))
       \<and> (x = Inr () \<longleftrightarrow> last_failure (gs @ take k fs) = None
            \<and> \<not> failed_attempt (fr_event (last (gs @ take k fs))) (fr_snapshot (last (gs @ take k fs)))))"
  using assms
proof (induction fs arbitrary: gs sh)
  case (Cons f fs)
  obtain st x where x: "wait_frame t f (\<exists>g \<in> set gs. confirms t g, last_failure gs) = (st, x)" by fastforce
  note o = wait_frame_over[OF x]
  show ?case
  proof (cases x)
    case (Some v)
    then have r: "r = Some v" "sh = print_frame J fmt f" using Cons.prems(1) x by simp_all
    show ?thesis unfolding r option.case
      by (rule exI[of _ 1]) (use o Some Cons.prems(2) in \<open>auto simp: less_Suc_eq\<close>)
  next
    case None
    obtain sh1 where w: "wait_loop J fmt t (map Inr fs) (\<exists>g \<in> set (gs @ [f]). confirms t g, last_failure (gs @ [f])) = (sh1, r)" "sh = print_frame J fmt f @ sh1"
      using Cons.prems(1) x None o(1) by (auto split: prod.splits)
    have n: "\<not> over t (gs @ [f])" using o(2) None by simp
    note ih = Cons.IH[OF w(1) n]
    show ?thesis
    proof (cases r)
      case None
      have "\<not> over t (gs @ take k (f # fs))" if "k \<le> length (f # fs)" for k
        using that ih None n Cons.prems(2) by (cases k) auto
      then show ?thesis using ih None w(2) by simp
    next
      case (Some v)
      then obtain k where k: "k \<le> length fs" "over t ((gs @ [f]) @ take k fs)" "\<forall>j < k. \<not> over t ((gs @ [f]) @ take j fs)"
        "sh1 = concat (map (print_frame J fmt) (take k fs))"
        "v = Inr () \<longleftrightarrow> last_failure ((gs @ [f]) @ take k fs) = None \<and> \<not> failed_attempt (fr_event (last ((gs @ [f]) @ take k fs))) (fr_snapshot (last ((gs @ [f]) @ take k fs)))"
        using ih by auto
      have "\<not> over t (gs @ take j (f # fs))" if "j < Suc k" for j using that k(3) Cons.prems(2) by (cases j) auto
      then show ?thesis unfolding Some option.case by (intro exI[of _ "Suc k"]) (use k w(2) in simp)
    qed
  qed
qed simp


text \<open>The end of the turn before, then the message, its answer and the end of its own turn.\<close>

definition demo_state :: "bool \<Rightarrow> snapshot" where
  "demo_state busy = \<lparr>sn_session = ''s'', sn_status = (if busy then ''busy'' else ''waiting''), sn_ask = ask_default, sn_providers = [], sn_provider = [],
     sn_model = [], sn_effort = [], sn_cwd = [], sn_seq = 0, sn_in_turn = busy, sn_queued = 0\<rparr>"

definition demo_frames :: "frame list" where
  "demo_frames = [frame_event ''s'' (event_new [] END) (demo_state False), frame_event ''s'' (saying ''hi'' (event_new [] START)) (demo_state True),
     frame_event ''s'' (saying ''hello'' (event_new [] TEXT)) (demo_state True), frame_event ''s'' (event_new [] END) (demo_state False)]"


end
