(* ===== verification/Catalog.thy ===== *)
theory Catalog
  imports Command_Line
begin

text \<open>
  \<open>catalog.rs\<close> of \<open>omni-cli\<close>: the public questions about categories, models and the best of them. The
  backend is outside code: what it answers, the words of an HTTP status and why a text could not be read are
  the record \<open>catalog_net\<close>.
\<close>

datatype catalog_reply = No_Reply string | No_Body string | Replied int bytes

record catalog_net =
  cn_get :: "string \<Rightarrow> (string \<times> string) list \<Rightarrow> catalog_reply"
  cn_status :: "int \<Rightarrow> string"
  cn_why :: "json \<Rightarrow> string"

definition catalog_request :: "codec \<Rightarrow> catalog_net \<Rightarrow> string \<Rightarrow> (string \<times> string) list \<Rightarrow> json res" where
  "catalog_request J N url qs =
     (case cn_get N url qs of
        No_Reply e \<Rightarrow> Inl (''cannot reach catalog backend: '' @ e)
      | No_Body e \<Rightarrow> Inl (''cannot read catalog response: '' @ e)
      | Replied status body \<Rightarrow>
          let v = from_slice J body in
          if \<not> (200 \<le> status \<and> status < 300)
          then Inl (''catalog backend returned HTTP '' @ cn_status N status
                 @ (case v of
                      Inr x \<Rightarrow> (case Option.bind (jget x ''error'') as_str of Some detail \<Rightarrow> '': '' @ detail | None \<Rightarrow> [])
                    | Inl _ \<Rightarrow> []))
          else (case v of Inr x \<Rightarrow> Inr x | Inl e \<Rightarrow> Inl (''backend returned invalid JSON: '' @ e)))"

definition catalog_decode :: "catalog_net \<Rightarrow> (json \<Rightarrow> 'a option) \<Rightarrow> json \<Rightarrow> 'a res" where
  "catalog_decode N rd v =
     (case rd v of Some x \<Rightarrow> Inr x | None \<Rightarrow> Inl (''backend returned an invalid catalog response: '' @ cn_why N v))"

fun all_of :: "(json \<Rightarrow> 'a option) \<Rightarrow> json list \<Rightarrow> 'a list option" where
  "all_of rd [] = Some []"
| "all_of rd (v # vs) = (case (rd v, all_of rd vs) of (Some x, Some xs) \<Rightarrow> Some (x # xs) | _ \<Rightarrow> None)"

definition list_field :: "string \<Rightarrow> (json \<Rightarrow> 'a option) \<Rightarrow> jmap \<Rightarrow> 'a list option" where
  "list_field k rd m = Option.bind (Option.bind (bt_get m k) as_array) (all_of rd)"

record category =
  cg_id :: string
  cg_says :: string

definition category_from :: "json \<Rightarrow> category option" where
  "category_from v =
     Option.bind (struct_fields [''id'', ''says''] v) (\<lambda>m.
     Option.bind (get_str m ''id'') (\<lambda>i.
     Option.bind (get_str m ''says'') (\<lambda>t. Some \<lparr>cg_id = i, cg_says = t\<rparr>)))"

definition categories_from :: "json \<Rightarrow> category list option" where
  "categories_from v = Option.bind (struct_fields [''categories''] v) (list_field ''categories'' category_from)"

definition models_from :: "json \<Rightarrow> pick list option" where
  "models_from v = Option.bind (struct_fields [''models''] v) (list_field ''models'' pick_from)"

text \<open>A flattened pick reads from an object only.\<close>

definition shortlist_from :: "json \<Rightarrow> (pick \<times> bool) option" where
  "shortlist_from v =
     Option.bind (as_object v) (\<lambda>m.
     Option.bind (get_bool m ''available'') (\<lambda>a. Option.bind (pick_from v) (\<lambda>p. Some (p, a))))"

definition best_from :: "json \<Rightarrow> (pick \<times> (pick \<times> bool) list) option" where
  "best_from v =
     Option.bind (struct_fields [''pick'', ''shortlist''] v) (\<lambda>m.
     Option.bind (Option.bind (bt_get m ''pick'') pick_from) (\<lambda>p.
     Option.bind (list_field ''shortlist'' shortlist_from m) (\<lambda>ss. Some (p, ss))))"

definition show_bool :: "bool \<Rightarrow> string" where
  "show_bool b = (if b then ''true'' else ''false'')"

definition out_line :: "string list \<Rightarrow> to_where \<times> string" where
  "out_line cols = (To_Out, join tab cols)"

definition pick_cols :: "pick \<Rightarrow> string list" where
  "pick_cols p = [pk_provider p, pk_model p, pk_effort p, show_bool (pk_fast p)]"

definition cat_categories :: "codec \<Rightarrow> catalog_net \<Rightarrow> world \<Rightarrow> string list \<Rightarrow> shown res" where
  "cat_categories J N w args =
     res_bind (take_output False args) (\<lambda>(format, args1).
     res_bind (no_args ''categories'' args1) (\<lambda>_.
     res_bind (catalog_request J N (backend w @ ''/categories'') []) (\<lambda>v.
     res_bind (catalog_decode N categories_from v) (\<lambda>cs.
       Inr (if format = Json then print_value J v
            else out_line [''category'', ''description''] # map (\<lambda>c. out_line [cg_id c, cg_says c]) cs)))))"

definition cat_models :: "codec \<Rightarrow> catalog_net \<Rightarrow> world \<Rightarrow> string list \<Rightarrow> shown res" where
  "cat_models J N w args =
     res_bind (take_output False args) (\<lambda>(format, args1).
     res_bind (take_value ''--provider'' args1) (\<lambda>(provider, args2).
     res_bind (no_args ''models'' args2) (\<lambda>_.
       if (case provider of Some p \<Rightarrow> trim p = [] | None \<Rightarrow> False) then Inl ''--provider needs a provider name''
       else
         res_bind (catalog_request J N (backend w @ ''/models'') (case provider of Some p \<Rightarrow> [(''provider'', p)] | None \<Rightarrow> [])) (\<lambda>v.
         res_bind (catalog_decode N models_from v) (\<lambda>ps.
           Inr (if format = Json then print_value J v
                else out_line [''provider'', ''model'', ''effort'', ''fast''] # map (\<lambda>p. out_line (pick_cols p)) ps))))))"

definition best_rows :: "pick \<Rightarrow> (pick \<times> bool) list \<Rightarrow> shown" where
  "best_rows p ss =
     out_line [''best'', pk_provider p, pk_model p, pk_effort p, ''fast='' @ show_bool (pk_fast p)]
       # out_line [''rank'', ''provider'', ''model'', ''effort'', ''fast'', ''eligible'']
       # map (\<lambda>(i, q, a). out_line (show_nat (Suc i) # pick_cols q @ [show_bool a])) (enumerate 0 ss)"

definition cat_best :: "codec \<Rightarrow> catalog_net \<Rightarrow> string list \<Rightarrow> world \<Rightarrow> world \<times> shown res" where
  "cat_best J N args w =
     (case res_bind (take_output False args) (\<lambda>(format, args1).
           res_bind (take_providers args1) (\<lambda>(providers, args2).
           res_bind (reject_options args2) (\<lambda>_.
             case args2 of
               [word] \<Rightarrow>
                 if trim word = [] then Inl ''best needs exactly one category; try `omni categories`''
                 else if providers = Some [] then Inl ''--providers needs at least one provider''
                 else Inr (format, providers, word)
             | _ \<Rightarrow> Inl ''best needs exactly one category; try `omni categories`''))) of
        Inl e \<Rightarrow> (w, Inl e)
      | Inr (format, providers, word) \<Rightarrow>
          (case available_models providers 0 w of
             (w1, models) \<Rightarrow>
               let qs = [(''key'', to_lower (trim word))] @ (case providers of Some ps \<Rightarrow> [(''providers'', join ''+'' ps)] | None \<Rightarrow> [])
                          @ [(''available_models'', to_text J (models_value models))]
               in (w1, res_bind (catalog_request J N (remote w1) qs) (\<lambda>v.
                       res_bind (catalog_decode N best_from v) (\<lambda>(p, ss).
                         Inr (if format = Json then print_value J v else best_rows p ss))))))"

section \<open>Facts\<close>

text \<open>What the backend did not answer with success is never shown as an answer.\<close>

lemma failure_not_shown:
  assumes "\<And>url qs. case cn_get N url qs of Replied status _ \<Rightarrow> \<not> (200 \<le> status \<and> status < 300) | _ \<Rightarrow> True"
  shows "\<exists>e. cat_categories J N w args = Inl e" "\<exists>e. cat_models J N w args = Inl e" "\<exists>e. snd (cat_best J N args w) = Inl e"
proof -
  have r: "\<exists>e. catalog_request J N url qs = Inl e" for url qs
    using assms[of url qs] by (auto simp: catalog_request_def Let_def split: catalog_reply.splits)
  have b: "\<exists>e. res_bind (catalog_request J N url qs) f = Inl e" for url qs and f :: "json \<Rightarrow> shown res"
    using r[of url qs] by (auto simp: res_bind_def)
  show "\<exists>e. cat_categories J N w args = Inl e" "\<exists>e. cat_models J N w args = Inl e"
    unfolding cat_categories_def cat_models_def using b by (auto simp: res_bind_def[of "take_output _ _"] res_bind_def[of "no_args _ _"]
      res_bind_def[of "take_value _ _"] split: sum.splits)
  show "\<exists>e. snd (cat_best J N args w) = Inl e"
    unfolding cat_best_def Let_def using b by (auto split: sum.splits prod.splits)
qed

end
