(* ===== verification/Saved_Sessions.thy ===== *)
theory Saved_Sessions
  imports Session_Store
begin

text \<open>
  The file of signed-in Silicon accounts, \<open>identity.rs\<close> of \<open>omni-cli\<close>: \<open>load\<close>, \<open>save\<close>, \<open>update_sessions\<close>
  and \<open>remove_session\<close>. Several processes work on it; each update holds the lock from its own reading
  to its own writing, so that the updates follow one another, each in the process it belongs to.
\<close>

record login_session =
  ls_token :: string
  ls_expires :: string

type_synonym sessions = "(string \<times> login_session) list"

definition login_value :: "login_session \<Rightarrow> json" where
  "login_value s = JObject [(''expires_at'', JString (ls_expires s)), (''session_token'', JString (ls_token s))]"

definition login_from :: "json \<Rightarrow> login_session option" where
  "login_from v =
     Option.bind (struct_fields [''session_token'', ''expires_at''] v) (\<lambda>m.
     Option.bind (get_str m ''session_token'') (\<lambda>t.
     Option.bind (get_str m ''expires_at'') (\<lambda>e. Some \<lparr>ls_token = t, ls_expires = e\<rparr>)))"

definition sessions_value :: "sessions \<Rightarrow> json" where
  "sessions_value m = JObject (map (\<lambda>(b, s). (b, login_value s)) m)"

fun logins_from :: "jmap \<Rightarrow> sessions option" where
  "logins_from [] = Some []"
| "logins_from ((b, v) # m) =
     (case (login_from v, logins_from m) of (Some s, Some ss) \<Rightarrow> Some ((b, s) # ss) | _ \<Rightarrow> None)"

definition sessions_from :: "json \<Rightarrow> sessions option" where
  "sessions_from v = Option.bind (as_object v) logins_from"

section \<open>The file\<close>

definition accounts_file :: "string \<Rightarrow> string" where
  "accounts_file home = home @ ''/accounts.json''"

definition accounts_lock :: "string \<Rightarrow> string" where
  "accounts_lock home = home @ ''/accounts.lock''"

definition accounts_tmp :: "string \<Rightarrow> world \<Rightarrow> string" where
  "accounts_tmp home w = home @ ''/accounts.'' @ pid w @ ''.tmp''"

definition UNREADABLE_SESSIONS :: string where
  "UNREADABLE_SESSIONS = ''cannot read saved Silicon Accounts sessions''"

definition parse_sessions :: "codec \<Rightarrow> bytes \<Rightarrow> sessions option" where
  "parse_sessions J bs = (case from_slice J bs of Inr v \<Rightarrow> sessions_from v | Inl _ \<Rightarrow> None)"

definition load_sessions :: "codec \<Rightarrow> string \<Rightarrow> sessions io" where
  "load_sessions J path =
     io_bind fs_touch (\<lambda>_ w.
       if \<not> exists_file w path then (w, Inr [])
       else io_bind (fs_set_private path) (\<lambda>_ w1.
         case fs_touch w1 of
           (w2, Inl _) \<Rightarrow> (w2, Inl UNREADABLE_SESSIONS)
         | (w2, Inr _) \<Rightarrow>
             (w2, case parse_sessions J (bytes_at w2 path) of Some m \<Rightarrow> Inr m | None \<Rightarrow> Inl UNREADABLE_SESSIONS)) w)"

text \<open>\<open>create_new\<close>: an error where the file is already there.\<close>

definition fs_create_new :: "string \<Rightarrow> unit io" where
  "fs_create_new p w =
     (if exists_file w p then (tick_on w, Inl ''File exists'') else io_step (put_file p (Some empty_file)) w)"

definition write_sessions :: "codec \<Rightarrow> string \<Rightarrow> string \<Rightarrow> sessions \<Rightarrow> unit io" where
  "write_sessions J path tmp m =
     io_bind (fs_create_new tmp) (\<lambda>_.
     io_bind (fs_write_all tmp (to_text J (sessions_value m))) (\<lambda>_.
     io_bind (fs_sync tmp) (\<lambda>_. fs_rename tmp path)))"

definition save_sessions :: "codec \<Rightarrow> string \<Rightarrow> sessions \<Rightarrow> unit io" where
  "save_sessions J home m =
     io_bind paths_ensure (\<lambda>_ w.
       case write_sessions J (accounts_file home) (accounts_tmp home w) m w of
         (w1, Inr u) \<Rightarrow> (w1, Inr u)
       | (w1, Inl e) \<Rightarrow> (fs_remove (accounts_tmp home w) w1, Inl e))"

text \<open>What an update does to the sessions: the new ones where there is something to write.\<close>

definition update_sessions :: "codec \<Rightarrow> string \<Rightarrow> (sessions \<Rightarrow> sessions option) \<Rightarrow> unit io" where
  "update_sessions J home update =
     io_bind paths_ensure (\<lambda>_.
     io_bind (fs_open_append (accounts_lock home)) (\<lambda>_.
     io_bind (fs_set_private (accounts_lock home)) (\<lambda>_.
     io_bind fs_touch (\<lambda>_.
     io_bind (load_sessions J (accounts_file home)) (\<lambda>m.
       case update m of None \<Rightarrow> io_return () | Some m' \<Rightarrow> save_sessions J home m')))))"

definition keep_login :: "string \<Rightarrow> login_session \<Rightarrow> sessions \<Rightarrow> sessions option" where
  "keep_login b s m = Some (bt_insert b s m)"

definition drop_login :: "string \<Rightarrow> string \<Rightarrow> sessions \<Rightarrow> sessions option" where
  "drop_login b checked_token m =
     (case bt_get m b of
        Some s \<Rightarrow> if ls_token s = checked_token then Some (bt_remove b m) else None
      | None \<Rightarrow> None)"

definition remove_session :: "codec \<Rightarrow> string \<Rightarrow> string \<Rightarrow> string \<Rightarrow> unit io" where
  "remove_session J home b checked_token = update_sessions J home (drop_login b checked_token)"

section \<open>An update happens or does not\<close>

text \<open>The bytes of the file, and what is stored in it.\<close>

definition saved_bytes :: "string \<Rightarrow> world \<Rightarrow> bytes option" where
  "saved_bytes home w = map_option content (files w (accounts_file home))"

definition saved :: "codec \<Rightarrow> string \<Rightarrow> world \<Rightarrow> sessions option" where
  "saved J home w = (case saved_bytes home w of None \<Rightarrow> Some [] | Some bs \<Rightarrow> parse_sessions J bs)"

lemma tmp_apart [simp]:
  "accounts_tmp home w \<noteq> accounts_file home" "accounts_file home \<noteq> accounts_tmp home w"
  "accounts_lock home \<noteq> accounts_file home" "accounts_file home \<noteq> accounts_lock home"
proof -
  have "last (accounts_tmp home w) \<noteq> last (accounts_file home)" "last (accounts_lock home) \<noteq> last (accounts_file home)"
    by (simp_all add: accounts_tmp_def accounts_file_def accounts_lock_def)
  then show "accounts_tmp home w \<noteq> accounts_file home" "accounts_file home \<noteq> accounts_tmp home w"
    "accounts_lock home \<noteq> accounts_file home" "accounts_file home \<noteq> accounts_lock home" by metis+
qed

text \<open>Steps that leave the bytes as they are.\<close>

definition quiet :: "string \<Rightarrow> world \<Rightarrow> world \<Rightarrow> bool" where
  "quiet home w w' \<longleftrightarrow> saved_bytes home w' = saved_bytes home w \<and> pid w' = pid w"

interpretation quiet: world_order "quiet home" for home
  by unfold_locales (auto simp: quiet_def)

lemma quiet_steps:
  "quiet home w (fst (fs_touch w))" "quiet home w (fst (paths_ensure w))" "quiet home w (fst (fs_open_append (accounts_lock home) w))"
  "quiet home w (fst (fs_set_private p w))" "quiet home w (fst (fs_create_new (accounts_tmp home v) w))"
  "quiet home w (fst (fs_write_all (accounts_tmp home v) bs w))" "quiet home w (fst (fs_sync p w))"
  "quiet home w (fs_remove (accounts_tmp home v) w)"
  by (auto simp: quiet_def saved_bytes_def fs_touch_def paths_ensure_def fs_open_append_def fs_set_private_def fs_create_new_def
      fs_write_all_def fs_sync_def fs_remove_def io_step_def option.map_comp o_def split: option.splits)

lemma quiet_load: "quiet home w (fst (load_sessions J path w))"
  unfolding load_sessions_def
proof (intro quiet.le_bind quiet_steps)
  fix x :: unit and w
  have "quiet home w1 (fst (case fs_touch w1 of (w2, Inl _) \<Rightarrow> (w2, Inl UNREADABLE_SESSIONS)
      | (w2, Inr _) \<Rightarrow> (w2, case parse_sessions J (bytes_at w2 path) of Some m \<Rightarrow> Inr m | None \<Rightarrow> Inl UNREADABLE_SESSIONS)))" for w1
    using quiet_steps(1)[of home w1] by (auto split: prod.splits sum.splits)
  then show "quiet home w (fst (if \<not> exists_file w path then (w, Inr [])
      else io_bind (fs_set_private path) (\<lambda>_ w1. case fs_touch w1 of (w2, Inl _) \<Rightarrow> (w2, Inl UNREADABLE_SESSIONS)
        | (w2, Inr _) \<Rightarrow> (w2, case parse_sessions J (bytes_at w2 path) of Some m \<Rightarrow> Inr m | None \<Rightarrow> Inl UNREADABLE_SESSIONS)) w))"
    using quiet.le_bind quiet_steps(4) quiet.le_refl by (simp add: quiet.le_bind)
qed

lemma loaded_is_saved:
  assumes "load_sessions J (accounts_file home) w = (w', Inr m)"
  shows "saved J home w = Some m"
  using assms
  by (auto simp: load_sessions_def io_bind_def saved_def saved_bytes_def exists_file_def bytes_at_def fs_touch_def fs_set_private_def
      io_step_def split: prod.splits sum.splits option.splits if_splits)

text \<open>Writing anew: the bytes are the old ones or, where it succeeds, those of the new sessions.\<close>

lemma write_sessions_atomic:
  assumes "write_sessions J (accounts_file home) (accounts_tmp home v) m w = (w', r)"
  shows "case r of Inl _ \<Rightarrow> saved_bytes home w' = saved_bytes home w | Inr _ \<Rightarrow> saved_bytes home w' = Some (to_text J (sessions_value m))"
  using assms
  by (auto simp: write_sessions_def io_bind_def fs_create_new_def fs_write_all_def fs_sync_def fs_rename_def io_step_def saved_bytes_def
      exists_file_def empty_file_def option.map_comp o_def split: prod.splits sum.splits option.splits if_splits)

lemma save_sessions_atomic:
  assumes "save_sessions J home m w = (w', r)"
  shows "case r of Inl _ \<Rightarrow> saved_bytes home w' = saved_bytes home w | Inr _ \<Rightarrow> saved_bytes home w' = Some (to_text J (sessions_value m))"
proof -
  obtain w1 e where p: "paths_ensure w = (w1, e)" by fastforce
  have q: "saved_bytes home w1 = saved_bytes home w" using quiet_steps(2)[of home w] p by (simp add: quiet_def)
  obtain w2 x where s: "write_sessions J (accounts_file home) (accounts_tmp home w1) m w1 = (w2, x)" by fastforce
  have "saved_bytes home (fs_remove (accounts_tmp home w1) w2) = saved_bytes home w2"
    using quiet_steps(8)[of home w2 w1] by (simp add: quiet_def)
  then show ?thesis
    using assms p q s write_sessions_atomic[OF s] by (auto simp: save_sessions_def io_bind_def split: sum.splits)
qed

text \<open>The file is as it was, or holds what the update made of the sessions it held.\<close>

definition updated :: "codec \<Rightarrow> string \<Rightarrow> (sessions \<Rightarrow> sessions option) \<Rightarrow> world \<Rightarrow> world \<Rightarrow> bool" where
  "updated J home update w w' \<longleftrightarrow> saved_bytes home w' = saved_bytes home w
     \<or> (\<exists>m m'. saved J home w = Some m \<and> update m = Some m' \<and> saved_bytes home w' = Some (to_text J (sessions_value m')))"

lemma updated_after:
  assumes "quiet home w (fst (f w))" and "\<And>x u. updated J home update u (fst (g x u))"
  shows "updated J home update w (fst (io_bind f g w))"
proof -
  obtain u x where f: "f w = (u, x)" by fastforce
  have s: "saved_bytes home u = saved_bytes home w" using assms(1) f by (simp add: quiet_def)
  show ?thesis
  proof (cases x)
    case (Inr y)
    then show ?thesis using assms(2)[of u y] s f by (simp add: updated_def saved_def io_bind_def)
  qed (simp add: updated_def io_bind_def f s)
qed

lemma update_atomic: "updated J home update w (fst (update_sessions J home update w))"
  unfolding update_sessions_def
proof ((rule updated_after, rule quiet_steps)+)
  fix u
  let ?tail = "\<lambda>m. case update m of None \<Rightarrow> io_return () | Some m' \<Rightarrow> save_sessions J home m'"
  obtain u1 x where l: "load_sessions J (accounts_file home) u = (u1, x)" by fastforce
  have s: "saved_bytes home u1 = saved_bytes home u" using quiet_load[of home u J "accounts_file home"] l by (simp add: quiet_def)
  show "updated J home update u (fst (io_bind (load_sessions J (accounts_file home)) ?tail u))"
  proof (cases x)
    case (Inr m)
    then have m: "saved J home u = Some m" using loaded_is_saved l by blast
    obtain u2 r where t: "?tail m u1 = (u2, r)" by fastforce
    have "updated J home update u u2"
    proof (cases "update m")
      case (Some m')
      then show ?thesis
        using save_sessions_atomic[of J home m' u1 u2 r] t s m by (cases r) (auto simp: updated_def)
    qed (use t s in \<open>simp add: updated_def io_return_def\<close>)
    then show ?thesis using l t Inr by (simp add: io_bind_def)
  qed (simp add: updated_def io_bind_def l s)
qed

section \<open>A finished login is not undone by an older answer\<close>

lemma login_round_trip [simp]: "login_from (login_value s) = Some s"
  by (simp add: login_from_def login_value_def struct_fields_def get_str_def bt_get_def)

lemma logins_round_trip [simp]: "logins_from (map (\<lambda>(b, s). (b, login_value s)) m) = Some m"
  by (induction m) auto

lemma sessions_round_trip [simp]: "sessions_from (sessions_value m) = Some m"
  by (simp add: sessions_from_def sessions_value_def)

text \<open>What the processes do to the file, each under its own process id.\<close>

datatype account_op = Keep_Login string login_session | Drop_Login string string

fun op_update :: "account_op \<Rightarrow> sessions \<Rightarrow> sessions option" where
  "op_update (Keep_Login b s) = keep_login b s"
| "op_update (Drop_Login b t) = drop_login b t"

definition account_does :: "codec \<Rightarrow> string \<Rightarrow> string \<times> account_op \<Rightarrow> world \<Rightarrow> world" where
  "account_does J home x w = fst (update_sessions J home (op_update (snd x)) (w\<lparr>pid := fst x\<rparr>))"

definition stored :: "codec \<Rightarrow> string \<Rightarrow> string \<Rightarrow> world \<Rightarrow> login_session option" where
  "stored J home b w = Option.bind (saved J home w) (\<lambda>m. bt_get m b)"

text \<open>Documented behaviour of the codec on the values this file holds.\<close>

definition sessions_read_back :: "codec \<Rightarrow> bool" where
  "sessions_read_back J \<longleftrightarrow> (\<forall>m. from_slice J (to_text J (sessions_value m)) = Inr (sessions_value m))"

fun replaces :: "string \<Rightarrow> login_session \<Rightarrow> account_op \<Rightarrow> bool" where
  "replaces b s (Keep_Login b' _) \<longleftrightarrow> b' = b"
| "replaces b s (Drop_Login b' t) \<longleftrightarrow> b' = b \<and> t = ls_token s"

lemma op_update_keeps:
  assumes "op_update x m = Some m'" and "bt_get m b = Some s" and "\<not> replaces b s x"
  shows "bt_get m' b = Some s"
proof (cases x)
  case (Keep_Login b' s')
  then show ?thesis using assms by (auto simp: keep_login_def)
next
  case (Drop_Login b' t)
  then obtain s' where s': "bt_get m b' = Some s'" "ls_token s' = t" "m' = bt_remove b' m"
    using assms(1) by (auto simp: drop_login_def split: option.splits if_splits)
  then have "b' \<noteq> b" using assms(2,3) Drop_Login by auto
  then show ?thesis using assms(2) s'(3) by simp
qed

lemma account_does_keeps:
  assumes "sessions_read_back J" and "stored J home b w = Some s" and "\<not> replaces b s (snd x)"
  shows "stored J home b (account_does J home x w) = Some s"
proof -
  let ?w = "w\<lparr>pid := fst x\<rparr>" and ?w' = "account_does J home x w"
  have sb: "saved_bytes home ?w = saved_bytes home w" by (simp add: saved_bytes_def)
  have u: "updated J home (op_update (snd x)) ?w ?w'" unfolding account_does_def by (rule update_atomic)
  obtain m where m: "saved J home w = Some m" "bt_get m b = Some s" using assms(2) by (auto simp: stored_def bind_eq_Some_conv)
  from u[unfolded updated_def] show ?thesis
  proof
    assume "saved_bytes home ?w' = saved_bytes home ?w"
    then show ?thesis using assms(2) sb by (simp add: stored_def saved_def)
  next
    assume "\<exists>n m'. saved J home ?w = Some n \<and> op_update (snd x) n = Some m' \<and> saved_bytes home ?w' = Some (to_text J (sessions_value m'))"
    then obtain m' where m': "op_update (snd x) m = Some m'" "saved_bytes home ?w' = Some (to_text J (sessions_value m'))"
      using m(1) sb by (auto simp: saved_def)
    have "saved J home ?w' = Some m'" using assms(1) m'(2) by (simp add: saved_def parse_sessions_def sessions_read_back_def)
    then show ?thesis using op_update_keeps[OF m'(1) m(2) assms(3)] by (simp add: stored_def)
  qed
qed


text \<open>A concrete codec of such files: every text is quoted byte by byte.\<close>

fun cell :: "string \<Rightarrow> bytes" where
  "cell [] = [CHR ''.'']"
| "cell (c # cs) = CHR ''+'' # c # cell cs"

fun uncell :: "bytes \<Rightarrow> (string \<times> bytes) option" where
  "uncell (x # bs) =
     (if x = CHR ''.'' then Some ([], bs)
      else (case bs of c # r \<Rightarrow> map_option (\<lambda>(s, rest). (c # s, rest)) (uncell r) | [] \<Rightarrow> None))"
| "uncell [] = None"

definition cells_text :: "json \<Rightarrow> bytes" where
  "cells_text v =
     (case sessions_from v of
        Some m \<Rightarrow> concat (map (\<lambda>(b, s). cell b @ cell (ls_token s) @ cell (ls_expires s)) m)
      | None \<Rightarrow> [])"

fun cells_read :: "nat \<Rightarrow> bytes \<Rightarrow> sessions" where
  "cells_read 0 bs = []"
| "cells_read (Suc n) bs =
     (case uncell bs of
        Some (b, r1) \<Rightarrow>
          (case uncell r1 of
             Some (t, r2) \<Rightarrow> (case uncell r2 of Some (e, r3) \<Rightarrow> (b, \<lparr>ls_token = t, ls_expires = e\<rparr>) # cells_read n r3 | None \<Rightarrow> [])
           | None \<Rightarrow> [])
      | None \<Rightarrow> [])"

definition cells_codec :: codec where
  "cells_codec = \<lparr>from_slice = (\<lambda>bs. Inr (sessions_value (cells_read (length bs) bs))), to_text = cells_text, to_pretty = cells_text\<rparr>"

lemma uncell_cell [simp]: "uncell (cell s @ r) = Some (s, r)"
  by (induction s) simp_all

lemma cell_length: "1 \<le> length (cell s)"
  by (cases s) simp_all

lemma cells_read_text:
  "length m \<le> n \<Longrightarrow> cells_read n (concat (map (\<lambda>(b, s). cell b @ cell (ls_token s) @ cell (ls_expires s)) m)) = m"
proof (induction m arbitrary: n)
  case Nil
  then show ?case by (cases n) simp_all
next
  case (Cons p m)
  then show ?case by (cases n; cases p) (simp_all add: append_assoc)
qed

lemma cells_codec_reads_back: "sessions_read_back cells_codec"
proof -
  have "length m \<le> length (concat (map (\<lambda>(b, s). cell b @ cell (ls_token s) @ cell (ls_expires s)) m))" for m :: sessions
  proof (induction m)
    case (Cons p m)
    then show ?case using cell_length[of "fst p"] by (cases p) simp
  qed simp
  then show ?thesis by (simp add: sessions_read_back_def cells_codec_def cells_text_def cells_read_text)
qed

definition demo_login :: "string \<Rightarrow> login_session" where
  "demo_login t = \<lparr>ls_token = t, ls_expires = ''soon''\<rparr>"


end
