(* ===== verification/Identity.thy ===== *)
theory Identity
  imports Saved_Sessions Command_Line
begin

text \<open>
  The commands of \<open>identity.rs\<close>: signing in to Silicon Accounts, checking it and signing out. The backend
  and the URL parser (\<open>http::Uri\<close>) are outside code: what a request is answered with is an oracle of the
  number of things done so far, and so is how long everything takes.
\<close>

record uri =
  ur_authority :: "string option"
  ur_scheme :: "string option"
  ur_host :: "string option"
  ur_query :: "string option"
  ur_path :: string

record id_request =
  iq_url :: string
  iq_body :: "json option"
  iq_token :: "string option"

datatype id_reply = Unreachable | Unreadable | Answered int bytes

record id_world =
  iw_fs :: world
  iw_sent :: "id_request list"
  iw_tick :: nat
  iw_net :: "nat \<Rightarrow> id_request \<Rightarrow> id_reply"
  iw_status :: "int \<Rightarrow> string"
  iw_clock :: rat
  iw_delay :: "nat \<Rightarrow> rat"
  iw_stdin :: "string res"
  iw_shown :: shown

type_synonym 'a ido = "id_world \<Rightarrow> id_world \<times> 'a res"

definition id_bind :: "'a ido \<Rightarrow> ('a \<Rightarrow> 'b ido) \<Rightarrow> 'b ido" where
  "id_bind m f s = (case m s of (s', Inl e) \<Rightarrow> (s', Inl e) | (s', Inr x) \<Rightarrow> f x s')"

definition id_of :: "'a res \<Rightarrow> 'a ido" where
  "id_of r s = (s, r)"

definition id_file :: "'a io \<Rightarrow> 'a ido" where
  "id_file m s = (case m (iw_fs s) of (w, r) \<Rightarrow> (s\<lparr>iw_fs := w\<rparr>, r))"

definition id_show :: "shown \<Rightarrow> unit ido" where
  "id_show xs s = (s\<lparr>iw_shown := iw_shown s @ xs\<rparr>, Inr ())"

text \<open>Something that takes at least \<open>d\<close> seconds.\<close>

definition passes :: "rat \<Rightarrow> id_world \<Rightarrow> id_world" where
  "passes d s = s\<lparr>iw_clock := iw_clock s + d + max 0 (iw_delay s (iw_tick s)), iw_tick := Suc (iw_tick s)\<rparr>"

section \<open>Where credentials may go\<close>

definition LOCAL_HOSTS :: "string list" where
  "LOCAL_HOSTS = [''localhost'', ''127.0.0.1'', ''[::1]'']"

definition origin_for :: "(string \<Rightarrow> uri option) \<Rightarrow> string \<Rightarrow> string res" where
  "origin_for U base =
     (case U base of
        None \<Rightarrow> Inl ''OMNI_BACKEND must be an HTTP(S) origin''
      | Some u \<Rightarrow>
          (case ur_authority u of
             None \<Rightarrow> Inl ''OMNI_BACKEND needs a host''
           | Some authority \<Rightarrow>
               let scheme = (case ur_scheme u of Some x \<Rightarrow> x | None \<Rightarrow> []);
                   host = (case ur_host u of Some x \<Rightarrow> x | None \<Rightarrow> []);
                   loc = host \<in> set LOCAL_HOSTS
               in if CHR ''@'' \<in> set authority \<or> ur_query u \<noteq> None \<or> ur_path u \<notin> {[], ''/''}
                    \<or> \<not> (scheme = ''https'' \<or> scheme = ''http'' \<and> loc)
                  then Inl ''OMNI_BACKEND must be an HTTPS origin (HTTP is allowed for localhost)''
                  else Inr (scheme @ ''://'' @ to_lower authority)))"

definition origin :: "(string \<Rightarrow> uri option) \<Rightarrow> string ido" where
  "origin U s = (s, origin_for U (backend (iw_fs s)))"

section \<open>Requests\<close>

definition error_code :: "json \<Rightarrow> string option" where
  "error_code v = Option.bind (jget v ''error'') (\<lambda>e. case as_str e of Some c \<Rightarrow> Some c | None \<Rightarrow> Option.bind (jget e ''code'') as_str)"

definition checked :: "json \<Rightarrow> unit res" where
  "checked v =
     (case error_code v of
        Some code \<Rightarrow> Inl (''Silicon Accounts: '' @ code)
      | None \<Rightarrow> if jget v ''error'' \<noteq> None then Inl ''Silicon Accounts request failed'' else Inr ())"

definition id_ask :: "codec \<Rightarrow> string \<Rightarrow> string \<Rightarrow> json option \<Rightarrow> string option \<Rightarrow> json ido" where
  "id_ask J base path body token s =
     (let q = \<lparr>iq_url = base @ path, iq_body = body, iq_token = token\<rparr>;
          s1 = (passes 0 s)\<lparr>iw_sent := iw_sent s @ [q]\<rparr>
      in case iw_net s (iw_tick s) q of
           Unreachable \<Rightarrow> (s1, Inl ''cannot reach Silicon Accounts backend'')
         | Unreadable \<Rightarrow> (s1, Inl ''cannot read Silicon Accounts response'')
         | Answered status text \<Rightarrow>
             (case from_slice J text of
                Inl _ \<Rightarrow> (s1, Inl ''Silicon Accounts backend returned invalid JSON'')
              | Inr v \<Rightarrow>
                  if \<not> (200 \<le> status \<and> status < 300) \<and> error_code v = None
                  then (s1, Inl (''Silicon Accounts backend returned HTTP '' @ iw_status s status))
                  else (s1, Inr v)))"

definition id_asked :: "codec \<Rightarrow> string \<Rightarrow> string \<Rightarrow> json option \<Rightarrow> string option \<Rightarrow> json ido" where
  "id_asked J base path body token = id_bind (id_ask J base path body token) (\<lambda>v. id_bind (id_of (checked v)) (\<lambda>_. id_of (Inr v)))"

definition login_of :: "json \<Rightarrow> login_session res" where
  "login_of v =
     (if jindex v ''authenticated'' \<noteq> JBool True then Inl ''Silicon Accounts did not authenticate the login''
      else (case login_from v of
              None \<Rightarrow> Inl ''backend returned an invalid login session''
            | Some s \<Rightarrow>
                if ls_token s = [] \<or> ls_expires s = [] then Inl ''backend returned an empty login session'' else Inr s))"

definition public_status :: "json \<Rightarrow> jmap" where
  "public_status v =
     fold (\<lambda>f m. case jget v f of Some x \<Rightarrow> bt_insert f x m | None \<Rightarrow> m) [''account'', ''is_admin'', ''expires_at'']
       [(''authenticated'', JBool (jindex v ''authenticated'' = JBool True))]"

definition login_shown :: "codec \<Rightarrow> cli_output \<Rightarrow> json \<Rightarrow> shown" where
  "login_shown J format v =
     (let st = JObject (public_status v) in
      if format = Json then print_value J st
      else if jindex st ''authenticated'' = JBool True then
        let account = jindex st ''account'';
            name = (case as_str (jindex account ''display_name'') of
                      Some n \<Rightarrow> n | None \<Rightarrow> (case as_str (jindex account ''id'') of Some n \<Rightarrow> n | None \<Rightarrow> ''Silicon account''))
        in [(To_Out, ''Signed in as '' @ name @ (if jindex st ''is_admin'' = JBool True then '' (admin)'' else []) @ ''.'')]
      else [(To_Out, ''Signed out.'')])"

section \<open>The device flow\<close>

definition EXPIRED_LOGIN :: string where
  "EXPIRED_LOGIN = ''device login expired; run `omni login` again''"

fun device_poll :: "codec \<Rightarrow> string \<Rightarrow> string \<Rightarrow> rat \<Rightarrow> nat \<Rightarrow> int \<Rightarrow> id_world \<Rightarrow> (id_world \<times> json res) option" where
  "device_poll J base code deadline 0 interval s = None"
| "device_poll J base code deadline (Suc n) interval s =
     (let remaining = deadline - iw_clock s in
      if remaining \<le> 0 then Some (s, Inl EXPIRED_LOGIN)
      else
        let s1 = passes (min (of_int interval) remaining) s in
        if deadline \<le> iw_clock s1 then Some (s1, Inl EXPIRED_LOGIN)
        else (case id_ask J base ''/api/auth/token'' (Some (JObject [(''device_code'', JString code)])) None s1 of
                (s2, Inl e) \<Rightarrow> Some (s2, Inl e)
              | (s2, Inr v) \<Rightarrow>
                  if error_code v = Some ''authorization_pending'' then device_poll J base code deadline n interval s2
                  else if error_code v = Some ''slow_down'' then device_poll J base code deadline n (min u64_max (interval + 5)) s2
                  else Some (s2, case checked v of Inl e \<Rightarrow> Inl e | Inr _ \<Rightarrow> Inr v)))"

definition required :: "json \<Rightarrow> string \<Rightarrow> string res" where
  "required device key =
     (case Option.bind (jget device key) as_str of
        Some t \<Rightarrow> if t = [] then Inl (''backend did not provide '' @ key) else Inr t
      | None \<Rightarrow> Inl (''backend did not provide '' @ key))"

text \<open>What the backend said about the device: the code to poll with, what to show, for how long, how often.\<close>

definition device_plan :: "json \<Rightarrow> (string \<times> string \<times> string \<times> int \<times> int) res" where
  "device_plan device =
     res_bind (required device ''device_code'') (\<lambda>code.
     res_bind (required device ''user_code'') (\<lambda>user_code.
     res_bind (case Option.bind (jget device ''verification_uri_complete'') as_str of
                 Some t \<Rightarrow> if t = [] then required device ''verification_uri'' else Inr t
               | None \<Rightarrow> required device ''verification_uri'') (\<lambda>url.
     case Option.bind (jget device ''expires_in'') as_u64 of
       Some n \<Rightarrow>
         if 1 \<le> n \<and> n \<le> 3600
         then Inr (code, user_code, url, n, max 1 (case Option.bind (jget device ''interval'') as_u64 of Some i \<Rightarrow> i | None \<Rightarrow> 5))
         else Inl ''backend returned an invalid device-code lifetime''
     | None \<Rightarrow> Inl ''backend returned an invalid device-code lifetime'')))"

definition device_note :: "string \<Rightarrow> string \<Rightarrow> shown" where
  "device_note url user_code = [(To_Err, ''Open '' @ url @ [newline] @ ''Enter code: '' @ user_code @ [newline] @ ''Waiting for Silicon Accounts sign-in'' @ [CHR 0xE2, CHR 0x80, CHR 0xA6])]"

definition POLL_FUEL :: nat where "POLL_FUEL = 3601"

definition device_login :: "codec \<Rightarrow> string \<Rightarrow> id_world \<Rightarrow> (id_world \<times> json res) option" where
  "device_login J base s =
     (case id_asked J base ''/api/auth/device'' (Some (JObject [])) None s of
        (s1, Inl e) \<Rightarrow> Some (s1, Inl e)
      | (s1, Inr device) \<Rightarrow>
          (case device_plan device of
             Inl e \<Rightarrow> Some (s1, Inl e)
           | Inr (code, user_code, url, expires, interval) \<Rightarrow>
               let s2 = fst (id_show (device_note url user_code) s1)
               in device_poll J base code (iw_clock s2 + of_int expires) POLL_FUEL interval s2))"

section \<open>The commands\<close>

definition login_status :: "codec \<Rightarrow> (string \<Rightarrow> uri option) \<Rightarrow> string \<Rightarrow> cli_output \<Rightarrow> unit ido" where
  "login_status J U home format =
     id_bind (origin U) (\<lambda>base.
     id_bind (id_file (load_sessions J (accounts_file home))) (\<lambda>m.
       case bt_get m base of
         None \<Rightarrow> id_show (login_shown J format (JObject [(''authenticated'', JBool False)]))
       | Some x \<Rightarrow>
           id_bind (id_asked J base ''/api/auth/session'' None (Some (ls_token x))) (\<lambda>v.
             case Option.bind (jget v ''authenticated'') as_bool of
               None \<Rightarrow> id_of (Inl ''backend returned an invalid login status'')
             | Some yes \<Rightarrow>
                 id_bind (if yes then id_of (Inr ()) else id_file (remove_session J home base (ls_token x)))
                   (\<lambda>_. id_show (login_shown J format v)))))"

definition id_logout :: "codec \<Rightarrow> (string \<Rightarrow> uri option) \<Rightarrow> string \<Rightarrow> string list \<Rightarrow> unit ido" where
  "id_logout J U home args =
     id_bind (id_of (no_args ''logout'' args)) (\<lambda>_.
     id_bind (origin U) (\<lambda>base.
     id_bind (id_file (load_sessions J (accounts_file home))) (\<lambda>m.
     id_bind (case bt_get m base of
                None \<Rightarrow> id_of (Inr ())
              | Some x \<Rightarrow>
                  id_bind (id_asked J base ''/api/auth/logout'' (Some (JObject [])) (Some (ls_token x)))
                    (\<lambda>_. id_file (remove_session J home base (ls_token x)))) (\<lambda>_.
     id_show [(To_Out, ''Signed out.'')]))))"

text \<open>The words of \<open>login\<close>: a check, or a sign-in with a token, with one read from standard input, or by device.\<close>

datatype login_words = Check_Login cli_output | Sign_In cli_output "string option"

definition slt_from :: "string res \<Rightarrow> string res" where
  "slt_from r =
     (case r of
        Inl e \<Rightarrow> Inl e
      | Inr text \<Rightarrow> if 65536 < length text then Inl ''SLT input is too large'' else Inr (trim text))"

definition login_words_of :: "string res \<Rightarrow> string list \<Rightarrow> login_words res" where
  "login_words_of stdin args =
     res_bind (take_output False args) (\<lambda>(format, args1).
       if args1 \<noteq> [] \<and> hd args1 = ''status'' then res_bind (no_args ''login status'' (tl args1)) (\<lambda>_. Inr (Check_Login format))
       else
         res_bind (take_value ''--slt'' args1) (\<lambda>(slt, args2).
         case take_flag ''--slt-stdin'' args2 of
           (from_stdin, args3) \<Rightarrow>
             res_bind (no_args ''login'' args3) (\<lambda>_.
               if slt \<noteq> None \<and> from_stdin then Inl ''use either --slt or --slt-stdin''
               else if from_stdin then res_bind (slt_from stdin) (\<lambda>t. Inr (Sign_In format (Some t)))
               else Inr (Sign_In format slt))))"

definition login_done :: "codec \<Rightarrow> string \<Rightarrow> string \<Rightarrow> cli_output \<Rightarrow> json \<Rightarrow> unit ido" where
  "login_done J home base format v =
     id_bind (id_of (login_of v)) (\<lambda>x.
     id_bind (id_file (update_sessions J home (keep_login base x))) (\<lambda>_. id_show (login_shown J format v)))"

definition sign_in :: "codec \<Rightarrow> string \<Rightarrow> string option \<Rightarrow> id_world \<Rightarrow> (id_world \<times> json res) option" where
  "sign_in J base slt s =
     (case slt of
        Some t \<Rightarrow>
          if trim t = [] then Some (s, Inl ''SLT must not be empty'')
          else Some (id_asked J base ''/api/auth/slt'' (Some (JObject [(''slt'', JString t)])) None s)
      | None \<Rightarrow> device_login J base s)"

definition id_login :: "codec \<Rightarrow> (string \<Rightarrow> uri option) \<Rightarrow> string \<Rightarrow> string list \<Rightarrow> id_world \<Rightarrow> (id_world \<times> unit res) option" where
  "id_login J U home args s =
     (case login_words_of (iw_stdin s) args of
        Inl e \<Rightarrow> Some (s, Inl e)
      | Inr (Check_Login format) \<Rightarrow> Some (login_status J U home format s)
      | Inr (Sign_In format slt) \<Rightarrow>
          (case origin U s of
             (s1, Inl e) \<Rightarrow> Some (s1, Inl e)
           | (s1, Inr base) \<Rightarrow>
               map_option (\<lambda>(s2, r). case r of Inl e \<Rightarrow> (s2, Inl e) | Inr v \<Rightarrow> login_done J home base format v s2)
                 (sign_in J base slt s1)))"

definition id_admin :: "codec \<Rightarrow> (string \<Rightarrow> uri option) \<Rightarrow> string list \<Rightarrow> unit ido" where
  "id_admin J U args =
     id_bind (id_of (no_args ''admin'' args)) (\<lambda>_.
     id_bind (origin U) (\<lambda>base.
     id_bind (id_asked J base ''/accounts'' None None) (\<lambda>v.
       case Option.bind (jget v ''admin_url'') as_str of
         Some url \<Rightarrow> id_show [(To_Out, url)]
       | None \<Rightarrow> id_of (Inl ''backend did not provide an admin URL''))))"

definition id_accounts :: "codec \<Rightarrow> (string \<Rightarrow> uri option) \<Rightarrow> string \<Rightarrow> string list \<Rightarrow> unit ido" where
  "id_accounts J U version args =
     id_bind (id_of (res_bind (take_output False args) (\<lambda>(_, args1). no_args ''accounts'' args1))) (\<lambda>_.
     id_bind (origin U) (\<lambda>base.
     id_show (print_value J (JObject [(''accounts_url'', JString ''https://accounts.teamofsilicons.com''), (''app_id'', JString ''omni''),
       (''base_url'', JString base), (''client'', JString ''silicon-omni''), (''version'', JString version)]))))"

datatype id_command = Id_Accounts | Id_Admin | Id_Login | Id_Logout

definition id_run ::
  "codec \<Rightarrow> (string \<Rightarrow> uri option) \<Rightarrow> string \<Rightarrow> string \<Rightarrow> id_command \<Rightarrow> string list \<Rightarrow> id_world \<Rightarrow> (id_world \<times> unit res) option" where
  "id_run J U home version c args s =
     (case c of
        Id_Accounts \<Rightarrow> Some (id_accounts J U version args s)
      | Id_Admin \<Rightarrow> Some (id_admin J U args s)
      | Id_Login \<Rightarrow> id_login J U home args s
      | Id_Logout \<Rightarrow> Some (id_logout J U home args s))"

section \<open>The device flow ends\<close>

lemma passes_simps [simp]: "iw_sent (passes d s) = iw_sent s" "iw_fs (passes d s) = iw_fs s"
  by (simp_all add: passes_def)

lemma passes_clock: "iw_clock s + d \<le> iw_clock (passes d s)"
  by (simp add: passes_def)

lemma id_ask_clock: "iw_clock s \<le> iw_clock (fst (id_ask J base path body token s))"
  using passes_clock[of s 0] by (simp add: id_ask_def Let_def split: id_reply.splits sum.splits)

lemma device_poll_ends:
  assumes "1 \<le> interval" and "deadline - iw_clock s \<le> of_nat n"
  shows "device_poll J base code deadline (Suc n) interval s \<noteq> None"
  using assms
proof (induction n arbitrary: interval s)
  case 0
  then show ?case by (simp add: Let_def)
next
  case (Suc n)
  let ?r = "deadline - iw_clock s" and ?s1 = "passes (min (of_int interval) (deadline - iw_clock s)) s"
  show ?case
  proof (cases "?r \<le> 0 \<or> deadline \<le> iw_clock ?s1")
    case False
    then have "0 < ?r" "iw_clock ?s1 < deadline" by auto
    have "iw_clock s + min (of_int interval) ?r \<le> iw_clock ?s1" by (rule passes_clock)
    moreover have "(1 :: rat) \<le> of_int interval" using Suc.prems(1) by simp
    ultimately have t: "iw_clock s + 1 \<le> iw_clock ?s1" using False by (auto simp: min_def split: if_splits)
    obtain s2 x where a: "id_ask J base ''/api/auth/token'' (Some (JObject [(''device_code'', JString code)])) None ?s1 = (s2, x)" by fastforce
    have "iw_clock ?s1 \<le> iw_clock s2" using id_ask_clock[of ?s1] a by (metis fst_conv)
    then have "deadline - iw_clock s2 \<le> of_nat n" using Suc.prems(2) t by simp
    moreover have "1 \<le> min u64_max (interval + 5)" using Suc.prems(1) by (simp add: u64_max_def)
    ultimately show ?thesis
      using Suc.IH[of interval s2] Suc.IH[of "min u64_max (interval + 5)" s2] Suc.prems(1) False a
      by (subst device_poll.simps) (simp add: Let_def not_le del: device_poll.simps split: sum.splits)
  qed (auto simp: Let_def)
qed

lemma device_plan_bounds:
  assumes "device_plan device = Inr (code, user_code, url, expires, interval)"
  shows "1 \<le> expires \<and> expires \<le> 3600 \<and> 1 \<le> interval"
  using assms by (auto simp: device_plan_def res_bind_def split: sum.splits option.splits if_splits)

lemma device_login_ends: "device_login J base s \<noteq> None"
proof -
  have p: "device_poll J base code d POLL_FUEL interval s2 \<noteq> None" if "1 \<le> interval" "d \<le> iw_clock s2 + 3600" for code d interval s2
    using device_poll_ends[OF that(1), of d s2 3600 J base code] that(2) by (simp add: POLL_FUEL_def del: device_poll.simps)
  obtain s1 r where a: "id_asked J base ''/api/auth/device'' (Some (JObject [])) None s = (s1, r)" by fastforce
  show ?thesis
  proof (cases "\<exists>device code user_code url expires interval. r = Inr device \<and> device_plan device = Inr (code, user_code, url, expires, interval)")
    case True
    then obtain device code user_code url expires interval
      where r: "r = Inr device" "device_plan device = Inr (code, user_code, url, expires, interval)" by blast
    have "1 \<le> interval" "(of_int expires :: rat) \<le> of_int 3600"
      using device_plan_bounds[OF r(2)] by (simp_all only: of_int_le_iff)
    then show ?thesis using p[of interval] by (simp add: device_login_def a r Let_def id_show_def)
  next
    case False
    then show ?thesis by (cases r) (auto simp: device_login_def a split: sum.splits)
  qed
qed

section \<open>Tokens stay with the backend they are for\<close>

definition sends :: "(id_request \<Rightarrow> bool) \<Rightarrow> id_world \<Rightarrow> id_world \<Rightarrow> bool" where
  "sends P s s' \<longleftrightarrow> (\<exists>qs. iw_sent s' = iw_sent s @ qs \<and> (\<forall>q \<in> set qs. P q))"

lemma sends_refl [intro]: "sends P s s"
  by (simp add: sends_def)

lemma sends_trans: "sends P s t \<Longrightarrow> sends P t u \<Longrightarrow> sends P s u"
  by (auto simp: sends_def)

lemma sends_same: "iw_sent s' = iw_sent s \<Longrightarrow> sends P s s'"
  by (simp add: sends_def)

lemma sends_bind:
  assumes "sends P s (fst (m s))" and "\<And>x s1. m s = (s1, Inr x) \<Longrightarrow> sends P s1 (fst (f x s1))"
  shows "sends P s (fst (id_bind m f s))"
proof (cases "m s")
  case (Pair s1 r)
  then show ?thesis
  proof (cases r)
    case (Inr x)
    then show ?thesis using sends_trans[of P s s1] assms Pair by (auto simp: id_bind_def)
  qed (use assms(1) Pair in \<open>simp add: id_bind_def\<close>)
qed

lemma sends_quiet [simp]:
  "sends P s (fst (id_of r s))" "sends P s (fst (id_file io s))" "sends P s (fst (id_show xs s))" "sends P s (fst (origin U s))"
  by (auto simp: id_of_def id_file_def id_show_def origin_def intro!: sends_same split: prod.splits)

lemma sends_ask:
  "P \<lparr>iq_url = base @ path, iq_body = body, iq_token = token\<rparr> \<Longrightarrow> sends P s (fst (id_ask J base path body token s))"
  by (auto simp: id_ask_def sends_def Let_def split: id_reply.splits sum.splits)

lemma sends_asked:
  "P \<lparr>iq_url = base @ path, iq_body = body, iq_token = token\<rparr> \<Longrightarrow> sends P s (fst (id_asked J base path body token s))"
  unfolding id_asked_def by (intro sends_bind sends_ask sends_quiet)

text \<open>A request without a token may go anywhere; one with a token is one the file holds for where it goes.\<close>

definition at_home :: "codec \<Rightarrow> (string \<Rightarrow> uri option) \<Rightarrow> string \<Rightarrow> world \<Rightarrow> id_request \<Rightarrow> bool" where
  "at_home J U home w q \<longleftrightarrow>
     (\<forall>t. iq_token q = Some t \<longrightarrow>
        (\<exists>b path x. origin_for U (backend w) = Inr b \<and> iq_url q = b @ path \<and> stored J home b w = Some x \<and> ls_token x = t))"

lemma at_home_plain: "at_home J U home w \<lparr>iq_url = u, iq_body = b, iq_token = None\<rparr>"
  by (simp add: at_home_def)

lemma sends_plain:
  "sends (at_home J U home w) s (fst (id_ask J base path body None s))" "sends (at_home J U home w) s (fst (id_asked J base path body None s))"
  by (rule sends_ask[where P = "at_home J U home w"] sends_asked[where P = "at_home J U home w"], rule at_home_plain)+

lemma sends_poll:
  "device_poll J base code deadline n interval s = Some (s', r) \<Longrightarrow> sends (at_home J U home w) s s'"
proof (induction n arbitrary: interval s)
  case (Suc n)
  let ?s1 = "passes (min (of_int interval) (deadline - iw_clock s)) s"
  obtain s2 x where a: "id_ask J base ''/api/auth/token'' (Some (JObject [(''device_code'', JString code)])) None ?s1 = (s2, x)" by fastforce
  have "sends (at_home J U home w) ?s1 s2" using sends_plain(1) a by (metis fst_conv)
  then have s2: "sends (at_home J U home w) s s2" by (simp add: sends_def)
  show ?case
    using Suc.prems a s2 sends_trans[OF s2 Suc.IH]
    by (auto simp: Let_def sends_same split: if_splits sum.splits)
qed simp

lemma sends_sign_in:
  assumes "sign_in J base slt s = Some (s', r)"
  shows "sends (at_home J U home w) s s'"
proof (cases slt)
  case None
  obtain s1 d where a: "id_asked J base ''/api/auth/device'' (Some (JObject [])) None s = (s1, d)" by fastforce
  have s1: "sends (at_home J U home w) s s1" using sends_plain(2) a by (metis fst_conv)
  have show_same: "sends (at_home J U home w) s (fst (id_show xs s1))" for xs using s1 by (simp add: id_show_def sends_def)
  show ?thesis
    using assms None a s1 show_same
    by (auto simp: sign_in_def device_login_def Let_def split: sum.splits intro: sends_trans dest!: sends_poll)
next
  case (Some t)
  then show ?thesis
    using assms sends_plain(2) by (auto simp: sign_in_def split: if_splits) (metis fst_conv)
qed

lemma loaded_at_home:
  assumes "id_file (load_sessions J (accounts_file home)) s = (s1, Inr m)" and "bt_get m base = Some x"
    and "origin_for U (backend (iw_fs s)) = Inr base"
  shows "at_home J U home (iw_fs s) \<lparr>iq_url = base @ path, iq_body = b, iq_token = Some (ls_token x)\<rparr>"
proof -
  obtain w1 where "load_sessions J (accounts_file home) (iw_fs s) = (w1, Inr m)"
    using assms(1) by (auto simp: id_file_def split: prod.splits)
  then have "stored J home base (iw_fs s) = Some x" using assms(2) by (simp add: stored_def loaded_is_saved)
  then show ?thesis using assms(3) by (auto simp: at_home_def)
qed

text \<open>What a command does once it has read the file may carry the token of its own backend.\<close>

lemma sends_with_stored:
  assumes "\<And>base m s1. (\<And>x path b. bt_get m base = Some x \<Longrightarrow>
        at_home J U home (iw_fs s) \<lparr>iq_url = base @ path, iq_body = b, iq_token = Some (ls_token x)\<rparr>) \<Longrightarrow>
      sends (at_home J U home (iw_fs s)) s1 (fst (k base m s1))"
  shows "sends (at_home J U home (iw_fs s)) s
    (fst (id_bind (origin U) (\<lambda>base. id_bind (id_file (load_sessions J (accounts_file home))) (k base)) s))"
proof (intro sends_bind sends_quiet)
  fix base s1 m s2
  assume o: "origin U s = (s1, Inr base)" and l: "id_file (load_sessions J (accounts_file home)) s1 = (s2, Inr m)"
  have s1: "s1 = s" "origin_for U (backend (iw_fs s)) = Inr base" using o by (auto simp: origin_def)
  show "sends (at_home J U home (iw_fs s)) s2 (fst (k base m s2))"
    by (rule assms) (rule loaded_at_home[OF l[unfolded s1(1)] _ s1(2)])
qed

lemma sends_status: "sends (at_home J U home (iw_fs s)) s (fst (login_status J U home format s))"
  unfolding login_status_def
  by (rule sends_with_stored) (auto intro!: sends_bind sends_asked split: option.splits)

lemma sends_logout: "sends (at_home J U home (iw_fs s)) s (fst (id_logout J U home args s))"
  unfolding id_logout_def
proof (rule sends_bind)
  fix x s1 assume "id_of (no_args ''logout'' args) s = (s1, Inr x)"
  then have "s1 = s" by (simp add: id_of_def)
  then show "sends (at_home J U home (iw_fs s)) s1 (fst (id_bind (origin U) (\<lambda>base. id_bind (id_file (load_sessions J (accounts_file home))) (\<lambda>m.
     id_bind (case bt_get m base of
                None \<Rightarrow> id_of (Inr ())
              | Some x \<Rightarrow>
                  id_bind (id_asked J base ''/api/auth/logout'' (Some (JObject [])) (Some (ls_token x)))
                    (\<lambda>_. id_file (remove_session J home base (ls_token x)))) (\<lambda>_.
     id_show [(To_Out, ''Signed out.'')]))) s1))"
    by (simp only:) (rule sends_with_stored, auto intro!: sends_bind sends_asked split: option.splits)
qed simp

lemma sends_login:
  assumes "id_login J U home args s = Some (s', r)"
  shows "sends (at_home J U home (iw_fs s)) s s'"
proof (cases "login_words_of (iw_stdin s) args")
  case (Inr x)
  show ?thesis
  proof (cases x)
    case (Check_Login format)
    then show ?thesis using assms Inr sends_status[of J U home s format] by (simp add: id_login_def)
  next
    case (Sign_In format slt)
    show ?thesis
    proof (cases "origin_for U (backend (iw_fs s))")
      case o: (Inr base)
      obtain s2 y where y: "sign_in J base slt s = Some (s2, y)"
        and s': "(case y of Inl e \<Rightarrow> (s2, Inl e) | Inr v \<Rightarrow> login_done J home base format v s2) = (s', r)"
        using assms Inr Sign_In o by (auto simp: id_login_def origin_def)
      have "sends (at_home J U home (iw_fs s)) s2 (fst (login_done J home base format v s2))" for v
        unfolding login_done_def by (intro sends_bind sends_quiet)
      then have "sends (at_home J U home (iw_fs s)) s2 s'" using s' by (cases y) (auto, metis fst_conv)
      then show ?thesis using sends_trans sends_sign_in[OF y] by blast
    qed (use assms Inr Sign_In in \<open>auto simp: id_login_def origin_def\<close>)
  qed
qed (use assms in \<open>auto simp: id_login_def\<close>)

lemma id_run_sends:
  assumes "id_run J U home version c args s = Some (s', r)"
  shows "sends (at_home J U home (iw_fs s)) s s'"
proof (cases c)
  case Id_Accounts
  have "sends (at_home J U home (iw_fs s)) s (fst (id_accounts J U version args s))"
    unfolding id_accounts_def by (intro sends_bind sends_quiet)
  then show ?thesis using assms Id_Accounts by (simp add: id_run_def)
next
  case Id_Admin
  have "sends (at_home J U home (iw_fs s)) s (fst (id_admin J U args s))"
    unfolding id_admin_def by (intro sends_bind sends_quiet sends_plain) (auto split: option.splits)
  then show ?thesis using assms Id_Admin by (simp add: id_run_def)
next
  case Id_Login
  then show ?thesis using assms sends_login by (simp add: id_run_def)
next
  case Id_Logout
  then show ?thesis using assms sends_logout[of J U home s args] by (simp add: id_run_def)
qed

lemma origin_trusted:
  assumes "origin_for U base = Inr b"
  shows "\<exists>u a. U base = Some u \<and> ur_authority u = Some a \<and> CHR ''@'' \<notin> set a
    \<and> (b = ''https://'' @ to_lower a \<or> b = ''http://'' @ to_lower a \<and> (\<exists>h \<in> set LOCAL_HOSTS. ur_host u = Some h))"
  using assms
  by (auto simp: origin_for_def Let_def LOCAL_HOSTS_def split: option.splits if_splits)


text \<open>What is shown of a login never holds its token.\<close>

lemma shown_without_token: "bt_get (public_status v) ''session_token'' = None"
  by (simp add: public_status_def bt_get_def[of "[_]"] split: option.splits)

end
