(* ===== verification/Spec2Isabelle.thy ===== *)
theory Spec2Isabelle
  imports Session_Meta Chat_Facts Provider_Runners Provider_Login Accounts Codex_Jail App_Server Guardian Test_Double
    Daemon_Lanes Daemon_Start Daemon_Sweep Facade Client_Start Command_Line Catalog Identity
begin

text \<open>
  Silicon Omni: a verification library of the session engine and of the daemon around it.

  \<^bold>\<open>The program.\<close> Omni keeps a conversation with a coding agent alive across providers (Claude Code,
  Codex, Antigravity). A client talks to a daemon over a socket; the daemon holds sessions open; each
  session has a conductor thread (\<open>chat.rs\<close>) that owns the conversation: it journals what the user
  says, picks a provider, starts its process, writes messages to it, records every event it reports
  in an append-only log, and moves on to another provider when one fails or runs out of context.

  \<^bold>\<open>The theories\<close>, in the order the code depends on itself; paths are under
  \<open>src/crates/omni-core/src\<close> unless they name another crate.

  \<^item> \<open>Omni_Prelude\<close>: strings, decimals, ordered maps (\<open>BTreeMap\<close>, with the contract
    \<open>ordered_map\<close>), the collections of rewrite rules. \<open>Json_Value\<close>: JSON values and their accessors;
    the text codec \<open>serde_json\<close> is a parameter (record \<open>codec\<close>) with its documented behaviour as
    named hypotheses. \<open>File_System\<close>: files, clock, random identifiers and failures of the machine, as
    a \<open>world\<close> in which every step of I/O may fail and a write may be cut anywhere.
  \<^item> \<open>Event_Model\<close> (\<open>events.rs\<close>): the event record, its JSON form, the classification of failures.
  \<^item> \<open>Jsonl_Log\<close> (\<open>shared/jsonl.rs\<close>): the append-only log file, its repair after a crash, the
    backward search for a torn tail, checked reading.
  \<^item> \<open>Session_Store\<close> (\<open>session/store.rs\<close>) and \<open>Session_Meta\<close> (\<open>session/meta.rs\<close>): the log of one
    session with its gapless positions, and its metadata with the journal of accepted messages,
    replaced atomically.
  \<^item> \<open>Seed_Text\<close> (\<open>translate.rs\<close>), \<open>Choose_Model\<close> (\<open>choose.rs\<close>), \<open>Provider_Base\<close>
    (\<open>providers/base.rs\<close>, \<open>providers/mod.rs\<close>): the transcript a new provider is seeded with, which
    model answers, who is signed in. The trait \<open>Runner\<close> is the record \<open>runner_ops\<close> of functions on
    an arbitrary type of processes, so what is proved of the conductor holds for every provider.
  \<^item> \<open>Chat_State\<close>, \<open>Chat_Runner\<close>, \<open>Chat_Turn\<close>, \<open>Chat_Conductor\<close> (\<open>chat.rs\<close>): the struct \<open>Chat\<close>
    is the record \<open>chat\<close>, each method a function on it; a method that may come back to \<open>flush\<close> takes
    it as an argument, and \<open>flush\<close> itself is defined by recursion on fuel, \<open>None\<close> being \<open>out of fuel\<close>.
    \<open>run_loop\<close> handles a list of signals: the wakes in the inbox and the expiry of the compaction
    timer, in the order in which they come; the answers to waiting callers are part of its result.
  \<^item> \<open>Native_Stream\<close>, \<open>Claude_Stream\<close>, \<open>Codex_Stream\<close>, \<open>Agy_Stream\<close>
    (\<open>providers/*/stream.rs\<close>): the parsers of what the providers print, one line or notification in,
    events out. \<open>followed_stream\<close> is the contract of a parser towards an observer of its events.
  \<^item> \<open>Line_Process\<close> (\<open>shared/proc.rs\<close>): a child that is written to and read from by lines, with the
    threads around it as the step relation \<open>proc_step\<close>; \<open>Guardian\<close> (its lower half): how a child is forked and
    guarded, every process with its table of open files, as the step relation \<open>house_step\<close>. \<open>Codex_Server\<close>, \<open>Codex_Runner\<close>
    (\<open>providers/codex_app_server\<close>): one server shared by many sessions, and a session's thread of it; \<open>App_Server\<close>
    (\<open>appserver.rs\<close>): the threads behind a call to it, as the step relation \<open>app_step\<close>.
    \<open>Cli_Runner\<close>, \<open>Claude_Session\<close>, \<open>Claude_Runner\<close>, \<open>Agy_Runner\<close> (\<open>runner.rs\<close>, \<open>session.rs\<close> and
    \<open>control.rs\<close> of the other two): a process per session. What a process does is an oracle read off
    by a count of steps. \<open>Provider_Runners\<close> puts the three behind \<open>runner_ops\<close> and shows that they keep
    their names, which is what \<open>Chat_Confined\<close> asks of them. \<open>Provider_Login\<close> (\<open>providers/login.rs\<close>): the logins in
    flight, with the threads that work on their table as \<open>login_step\<close>.
  \<^item> \<open>Float64\<close> (the language's \<open>f64\<close>: rounding to double precision, over the rationals) and \<open>Clock\<close>
    (\<open>shared/clock.rs\<close>): moments as the providers spell them and as they are shown. \<open>Accounts\<close>
    (\<open>account.rs\<close> of the three providers): who is signed in and how much of each quota window is used.
    \<open>Codex_Jail\<close> (\<open>codex_app_server/jail.rs\<close>): the home codex is given, as a tree of files and links.
    \<open>Test_Double\<close> (\<open>providers/test.rs\<close> and the operations of \<open>serve.rs\<close> that drive it): the scripted provider.
  \<^item> \<open>Wire_Protocol\<close> (\<open>wire.rs\<close>), \<open>Wiring\<close> and \<open>Live_Session\<close> (\<open>wiring.rs\<close> and the struct \<open>Live\<close>
    of \<open>registry.rs\<close> in \<open>omni-daemon\<close>): requests, replies and frames; a connection with its bounded
    queue and writer thread; the listeners of a session, with the interleavings of recording, handing
    out, attaching and detaching as the step relation \<open>fan_step\<close>.
  \<^item> \<open>Lifecycle_Gate\<close>, \<open>Registry\<close> (the rest of \<open>registry.rs\<close>, and \<open>Handle\<close> of \<open>chat.rs\<close>) and
    \<open>Daemon_Serve\<close> (\<open>serve.rs\<close>): the gates that keep operations on one session apart, as the step
    relation \<open>gate_step\<close>; the sessions held open, opened, stopped and reaped; the answer to every
    request. \<open>Registry_Instances\<close> puts the small session of \<open>Chat_Instances\<close> in a registry.
  \<^item> \<open>Request_Line\<close>, \<open>Daemon_Lanes\<close>, \<open>Daemon_Start\<close> (\<open>main.rs\<close> of \<open>omni-daemon\<close>): reading bounded
    lines from a socket, with the fills of its buffer as a list; the threads of all connections, with
    lanes, admission and shutdown, as the step relation \<open>hall_step\<close>; taking over a home with its lock
    and its socket as \<open>start_step\<close>. \<open>Shell_Env\<close> (\<open>shared/env.rs\<close>): the environment a child is given
    and where programs are found; the shell that is asked is an argument. \<open>Daemon_Sweep\<close> (\<open>main.rs\<close>): the
    list of models read ahead of time, the sweep that closes idle sessions, the daemon's log.
  \<^item> \<open>Client_Calls\<close>, \<open>Client_Requests\<close>, \<open>Client_Chat\<close> (\<open>lib.rs\<close> and \<open>facade.rs\<close> of \<open>omni-client\<close>): one
    connection shared by many threads as the step relation \<open>client_step\<close>; its typed operations; the
    handle of a conversation, put together with a log that grows in \<open>reader_step\<close>. \<open>Facade\<close>: the settings a handle can
    be asked for, next to what the daemon reads. \<open>Client_Start\<close>: finding the daemon, starting it and waiting for it,
    in loops that end because sleeping takes time. \<open>Command_Line\<close>
    (\<open>lib.rs\<close> of \<open>omni-cli\<close>): what the words of a command mean, what is asked and printed. \<open>Catalog\<close> (\<open>catalog.rs\<close>): the
    public questions about categories and models. \<open>Saved_Sessions\<close> and \<open>Identity\<close> (\<open>identity.rs\<close>): the file of
    the logins to Silicon accounts, and the commands that create, use and end them; the server is an argument.

  \<^bold>\<open>What is shown\<close>, by group. Storage: an append is acknowledged only when it is durable, a crash at
  any step or byte leaves a readable log, a metadata change happens whole or not at all. Conductor
  (\<open>Chat_Order\<close> and \<open>Chat_Steps\<close> hold the contracts \<open>step_order\<close>, \<open>runner_order\<close>,
  \<open>conductor_order\<close>, \<open>flush_order\<close> every method is walked through once; \<open>Chat_Log\<close>,
  \<open>Chat_Journal\<close>, \<open>Chat_Delivery\<close>, \<open>Chat_Confined\<close>, \<open>Chat_Progress\<close> interpret them): an
  accepted message is in the journal or was opened in the log, what is published is exactly what was
  recorded, only providers the session was given are ever up, every caller is answered, a run always
  has a result. \<open>Chat_Instances\<close> and \<open>Chat_Facts\<close> instantiate these on a small session. Parsers: they
  implement a queue of written messages, turns that open once, results named after their calls, deltas
  stitched together. Runners: a shared server is to each session as one of its own, a message is reported
  where it landed, a seed continues the chain of Claude's records, Antigravity is told what it missed
  once, a change of model is believed when it was confirmed, a stopped process is silent, no process
  outlives the daemon that started it, no login is forgotten. Daemon: nothing is lost or repeated between the log and a listener, a client
  that cannot keep up loses its connection rather than a line, a message whose send succeeded outlives
  a stop, operations on one session exclude each other, nothing is opened after a shutdown, and no
  request reaches a file outside the sessions directory; requests of one connection on one session are
  answered in order, a shutdown waits for what was admitted, one daemon serves a home. Client: every
  call settles with its own reply, a held session hears every frame, what the daemon grants reads as
  the type the client wants, a setting asked for is the change the daemon reads, and a user who detaches and comes back reads the log
  without a gap. Command
  line: what is said about who should answer is what the daemon reads, and sending waits for the turn of
  its own message. Accounts: what is said of a quota is the worst of a group of windows or the first report of a
  slot, in double precision; a saved login stays until it is asked to go, and a token is sent only to the
  server it came from.

  \<^bold>\<open>Fuel.\<close> \<open>flush E n\<close> runs out only after \<open>n\<close> nested attempts; each nested attempt has benched a
  provider or moved a recovery to a later stage, and \<open>run_total\<close> shows that two more than the number
  of providers the session may use is enough for every run. The wait for a device code to be approved takes
  \<open>POLL_FUEL\<close> polls: a code lives for at most 3600 seconds and every poll waits for one at least, so 3601
  are never used up (\<open>device_login_ends\<close>).

  \<^bold>\<open>Abstractions.\<close> Text is bytes, and operations Rust defines on Unicode (trimming, lower case) are
  those on ASCII. Integers are unbounded where the code compares and adds positions that stay within
  64 bits, and carry their bounds where they are read or written. Instants are integers. Threads are
  sequences of steps: the conductor handles one signal at a time, the writer of a connection and the
  deliveries of the daemon interleave step by step.

  \<^bold>\<open>Not modelled.\<close> The words and signals the daemon's own process is given, the loop that reads a terminal and the
  text of the help; HTTP, the terminal and calendar dates, which are arguments of the commands that use them; numbers
  of processes that are used again; and the packages in other languages.
\<close>

end
